(* ===== verification/Prelude.thy ===== *)
theory Prelude
  imports Main "HOL-Library.Word" "HOL-Library.AList"
begin

text \<open>
  Shared vocabulary of the development: Go's byte slices, strings, maps and error results, the
  little-endian integer codecs of \<open>encoding/binary\<close>, the decimal formatting and parsing
  of \<open>strconv\<close>, and the generic list lemmas that the component theories rest on.
\<close>

unbundle bit_operations_syntax

section \<open>Types\<close>

text \<open>A Go \<open>[]byte\<close> is a list of 8-bit words, a Go \<open>string\<close> is a HOL string (its characters
  are bytes), and a Go \<open>map\<close> is an association list whose order is one of the iteration orders
  the runtime may choose. An \<open>error\<close> result is the left summand.\<close>

type_synonym byte = "8 word"
type_synonym bytes = "byte list"
type_synonym ('k, 'v) gomap = "('k \<times> 'v) list"

abbreviation Err :: "'e \<Rightarrow> 'e + 'a" where "Err \<equiv> Inl"
abbreviation Ok :: "'a \<Rightarrow> 'e + 'a" where "Ok \<equiv> Inr"

named_theorems codec_simps "length and inversion facts of the byte codecs"
named_theorems rep_intros "introduction rules for the representation invariants"

section \<open>Strings and bytes\<close>

definition char_byte :: "char \<Rightarrow> byte" where
  "char_byte c = of_nat (of_char c)"

definition byte_char :: "byte \<Rightarrow> char" where
  "byte_char b = char_of (unat b)"

definition str_bytes :: "string \<Rightarrow> bytes" where
  "str_bytes s = map char_byte s"

definition bytes_str :: "bytes \<Rightarrow> string" where
  "bytes_str bs = map byte_char bs"

lemma byte_char_char_byte [simp]: "byte_char (char_byte c) = c"
proof -
  have "of_char c < (256 :: nat)" by simp
  then have "unat (of_nat (of_char c) :: byte) = of_char c"
    by (simp add: unat_of_nat)
  then show ?thesis by (simp add: byte_char_def char_byte_def)
qed

lemma char_byte_byte_char [simp]: "char_byte (byte_char b) = b"
proof -
  have "unat b < 2 ^ 8" using unsigned_less [of b, where ?'a = nat] by simp
  then show ?thesis
    by (simp add: byte_char_def char_byte_def of_char_of)
qed

lemma bytes_str_str_bytes [simp, codec_simps]: "bytes_str (str_bytes s) = s"
  by (simp add: bytes_str_def str_bytes_def comp_def)

lemma str_bytes_bytes_str [simp, codec_simps]: "str_bytes (bytes_str bs) = bs"
  by (simp add: bytes_str_def str_bytes_def comp_def)

lemma length_str_bytes [simp, codec_simps]: "length (str_bytes s) = length s"
  by (simp add: str_bytes_def)

lemma length_bytes_str [simp, codec_simps]: "length (bytes_str bs) = length bs"
  by (simp add: bytes_str_def)

lemma str_bytes_inject [simp]: "str_bytes s = str_bytes t \<longleftrightarrow> s = t"
  by (metis bytes_str_str_bytes)

section \<open>Little-endian integers (encoding/binary)\<close>

definition putU32 :: "32 word \<Rightarrow> bytes" where
  "putU32 w = [ucast w, ucast (drop_bit 8 w), ucast (drop_bit 16 w), ucast (drop_bit 24 w)]"

fun getU32 :: "bytes \<Rightarrow> 32 word" where
  "getU32 (b0 # b1 # b2 # b3 # _) =
     ucast b0 OR push_bit 8 (ucast b1) OR push_bit 16 (ucast b2) OR push_bit 24 (ucast b3)"
| "getU32 _ = 0"

definition putU64 :: "64 word \<Rightarrow> bytes" where
  "putU64 w = putU32 (ucast w) @ putU32 (ucast (drop_bit 32 w))"

definition getU64 :: "bytes \<Rightarrow> 64 word" where
  "getU64 bs = ucast (getU32 (take 4 bs)) OR push_bit 32 (ucast (getU32 (drop 4 bs)))"

lemma length_putU32 [simp, codec_simps]: "length (putU32 w) = 4"
  by (simp add: putU32_def)

lemma length_putU64 [simp, codec_simps]: "length (putU64 w) = 8"
  by (simp add: putU64_def)

lemma getU32_putU32_append [simp, codec_simps]: "getU32 (putU32 w @ bs) = w"
proof (rule bit_word_eqI)
  fix n assume "n < LENGTH(32)"
  then have "n < 32" by simp
  then consider "n < 8" | "8 \<le> n" "n < 16" | "16 \<le> n" "n < 24" | "24 \<le> n" "n < 32"
    by linarith
  then show "bit (getU32 (putU32 w @ bs)) n = bit w n"
    by cases (auto simp: putU32_def bit_simps)
qed

lemma getU32_putU32 [simp, codec_simps]: "getU32 (putU32 w) = w"
  using getU32_putU32_append [of w "[]"] by simp

lemma getU32_take: "getU32 (take 4 bs) = getU32 bs"
  by (cases bs rule: getU32.cases) (auto simp: numeral_eq_Suc)

lemma byte_no_high_bit: "8 \<le> k \<Longrightarrow> \<not> bit (b :: byte) k"
  using bit_imp_le_length [of b k] by auto

lemma putU32_getU32 [codec_simps]: "length bs = 4 \<Longrightarrow> putU32 (getU32 bs) = bs"
proof -
  assume "length bs = 4"
  then obtain b0 b1 b2 b3 where bs: "bs = [b0, b1, b2, b3]"
    by (auto simp: numeral_eq_Suc length_Suc_conv)
  show ?thesis
    unfolding bs putU32_def
    by (auto intro!: bit_word_eqI simp: bit_simps byte_no_high_bit)
qed

lemma getU64_putU64_append [simp, codec_simps]: "getU64 (putU64 w @ bs) = w"
proof (rule bit_word_eqI)
  fix n assume "n < LENGTH(64)"
  then consider "n < 32" | "32 \<le> n" "n < 64" by fastforce
  then show "bit (getU64 (putU64 w @ bs)) n = bit w n"
    by cases (auto simp: putU64_def getU64_def bit_simps)
qed

lemma getU64_putU64 [simp, codec_simps]: "getU64 (putU64 w) = w"
  using getU64_putU64_append [of w "[]"] by simp

section \<open>Decimal integers (strconv)\<close>

definition digit_char :: "nat \<Rightarrow> char" where
  "digit_char d = char_of (48 + d)"

fun format_nat :: "nat \<Rightarrow> string" where
  "format_nat n = (if n < 10 then [digit_char n]
                   else format_nat (n div 10) @ [digit_char (n mod 10)])"

declare format_nat.simps [simp del]

text \<open>\<open>strconv.FormatInt(n, 10)\<close>.\<close>

definition format_int :: "int \<Rightarrow> string" where
  "format_int n = (if n < 0 then CHR ''-'' # format_nat (nat (- n)) else format_nat (nat n))"

definition char_digit :: "char \<Rightarrow> nat option" where
  "char_digit c = (let k = (of_char c :: nat) in if 48 \<le> k \<and> k \<le> 57 then Some (k - 48) else None)"

fun parse_digits :: "nat \<Rightarrow> string \<Rightarrow> nat option" where
  "parse_digits acc [] = Some acc"
| "parse_digits acc (c # cs) =
     (case char_digit c of None \<Rightarrow> None | Some d \<Rightarrow> parse_digits (10 * acc + d) cs)"

text \<open>\<open>strconv.ParseInt(s, 10, 64)\<close>: an optional sign, at least one digit, and a value that fits
  in an \<open>int64\<close>; every other input is an error.\<close>

fun split_sign :: "string \<Rightarrow> bool \<times> string" where
  "split_sign [] = (False, [])"
| "split_sign (c # cs) =
     (if c = CHR ''-'' then (True, cs) else if c = CHR ''+'' then (False, cs) else (False, c # cs))"

definition parse_int64 :: "string \<Rightarrow> int option" where
  "parse_int64 s =
     (let (neg, ds) = split_sign s
      in if ds = [] then None
         else case parse_digits 0 ds of
             None \<Rightarrow> None
           | Some n \<Rightarrow>
               (let v = (if neg then - int n else int n)
                in if - (2 ^ 63) \<le> v \<and> v < 2 ^ 63 then Some v else None))"

lemma of_char_digit_char [simp]: "d < 10 \<Longrightarrow> of_char (digit_char d) = 48 + d"
  by (simp add: digit_char_def)

lemma char_digit_digit_char [simp]: "d < 10 \<Longrightarrow> char_digit (digit_char d) = Some d"
  by (simp add: char_digit_def)

lemma parse_digits_append:
  "parse_digits acc (xs @ ys) =
     (case parse_digits acc xs of None \<Rightarrow> None | Some n \<Rightarrow> parse_digits n ys)"
  by (induction acc xs rule: parse_digits.induct) (auto split: option.splits)

lemma format_nat_nonempty [simp]: "format_nat n \<noteq> []"
  by (subst format_nat.simps) simp

lemma parse_digits_format_nat: "parse_digits 0 (format_nat n) = Some n"
proof (induction n rule: format_nat.induct)
  case (1 n)
  show ?case
  proof (cases "n < 10")
    case True
    then show ?thesis by (subst format_nat.simps) simp
  next
    case False
    with "1.IH" have "parse_digits 0 (format_nat (n div 10)) = Some (n div 10)" by simp
    with False show ?thesis
      by (subst format_nat.simps) (simp add: parse_digits_append)
  qed
qed

lemma format_nat_inj: "format_nat m = format_nat n \<Longrightarrow> m = n"
  by (metis option.inject parse_digits_format_nat)

lemma set_format_nat: "c \<in> set (format_nat n) \<Longrightarrow> \<exists>d < 10. c = digit_char d"
proof (induction n rule: format_nat.induct)
  case (1 n)
  show ?case
  proof (cases "n < 10")
    case True
    with "1.prems" show ?thesis by (subst (asm) format_nat.simps) auto
  next
    case False
    with "1.prems" have "c \<in> set (format_nat (n div 10)) \<or> c = digit_char (n mod 10)"
      by (subst (asm) format_nat.simps) auto
    with "1.IH" False show ?thesis by (auto intro: exI [of _ "n mod 10"])
  qed
qed

lemma digit_char_neq:
  "d < 10 \<Longrightarrow> (of_char c :: nat) < 48 \<or> 57 < (of_char c :: nat) \<Longrightarrow> digit_char d \<noteq> c"
  using of_char_digit_char [of d] by auto

lemma format_nat_no_colon: "CHR '':'' \<notin> set (format_nat n)"
proof
  assume "CHR '':'' \<in> set (format_nat n)"
  then obtain d where d: "d < 10" "CHR '':'' = digit_char d" using set_format_nat by blast
  show False using digit_char_neq [OF d(1), of "CHR '':''"] unfolding d(2) [symmetric] by simp
qed

lemma hd_format_nat_digit: "\<exists>d < 10. hd (format_nat n) = digit_char d"
  by (rule set_format_nat [OF hd_in_set]) simp

lemma hd_format_nat_sign: "hd (format_nat n) \<noteq> CHR ''-''" "hd (format_nat n) \<noteq> CHR ''+''"
proof -
  obtain d where d: "d < 10" "hd (format_nat n) = digit_char d"
    using hd_format_nat_digit by blast
  then show "hd (format_nat n) \<noteq> CHR ''-''" "hd (format_nat n) \<noteq> CHR ''+''"
    using digit_char_neq [of d "CHR ''-''"] digit_char_neq [of d "CHR ''+''"] by simp_all
qed

lemma split_sign_format_nat: "split_sign (format_nat n) = (False, format_nat n)"
  using hd_format_nat_sign [of n] format_nat_nonempty [of n] by (cases "format_nat n") auto

lemma parse_int64_format_int:
  assumes "- (2 ^ 63) \<le> n" "n < 2 ^ 63"
  shows "parse_int64 (format_int n) = Some n"
  using assms
  by (auto simp: parse_int64_def format_int_def split_sign_format_nat parse_digits_format_nat)

lemma format_int_nonneg_digits:
  "0 \<le> n \<Longrightarrow> c \<in> set (format_int n) \<Longrightarrow> \<exists>d < 10. c = digit_char d"
  by (simp add: format_int_def set_format_nat)

section \<open>Lists\<close>

lemma set_butlast_take: "set (butlast (take m xs)) \<subseteq> set (butlast xs)"
proof (cases "m \<le> length xs")
  case True
  then show ?thesis
    by (simp add: butlast_take butlast_conv_take set_take_subset_set_take)
qed simp

section \<open>Stable sorting\<close>

text \<open>\<open>sort.SliceStable\<close> with the comparison \<open>lt\<close>.\<close>

fun stable_insert :: "('a \<Rightarrow> 'a \<Rightarrow> bool) \<Rightarrow> 'a \<Rightarrow> 'a list \<Rightarrow> 'a list" where
  "stable_insert lt x [] = [x]"
| "stable_insert lt x (y # ys) = (if lt y x then y # stable_insert lt x ys else x # y # ys)"

definition stable_sort :: "('a \<Rightarrow> 'a \<Rightarrow> bool) \<Rightarrow> 'a list \<Rightarrow> 'a list" where
  "stable_sort lt xs = foldr (stable_insert lt) xs []"

lemma set_stable_insert [simp]: "set (stable_insert lt x ys) = insert x (set ys)"
  by (induction ys) auto

lemma length_stable_insert [simp]: "length (stable_insert lt x ys) = Suc (length ys)"
  by (induction ys) auto

lemma distinct_map_stable_insert [simp]:
  "distinct (map f (stable_insert lt x ys)) \<longleftrightarrow> f x \<notin> f ` set ys \<and> distinct (map f ys)"
  by (induction ys) auto

lemma set_stable_sort [simp]: "set (stable_sort lt xs) = set xs"
  by (induction xs) (simp_all add: stable_sort_def)

lemma length_stable_sort [simp]: "length (stable_sort lt xs) = length xs"
  by (induction xs) (simp_all add: stable_sort_def)

lemma distinct_map_stable_sort [simp]: "distinct (map f (stable_sort lt xs)) \<longleftrightarrow> distinct (map f xs)"
proof (induction xs)
  case (Cons x xs)
  have "stable_sort lt (x # xs) = stable_insert lt x (stable_sort lt xs)" by (simp add: stable_sort_def)
  then show ?case using Cons by simp
qed (simp add: stable_sort_def)

lemma sorted_stable_insert:
  assumes "\<And>a b. lt a b \<Longrightarrow> \<not> lt b a" "\<And>a b c. \<not> lt b a \<Longrightarrow> \<not> lt c b \<Longrightarrow> \<not> lt c a"
    and "sorted_wrt (\<lambda>a b. \<not> lt b a) ys"
  shows "sorted_wrt (\<lambda>a b. \<not> lt b a) (stable_insert lt x ys)"
  using assms(3)
proof (induction ys)
  case (Cons y ys)
  show ?case
  proof (cases "lt y x")
    case True
    then show ?thesis using Cons assms(1) by auto
  next
    case False
    then show ?thesis using Cons.prems assms(2) [of y x] by auto
  qed
qed simp

lemma sorted_stable_sort:
  assumes "\<And>a b. lt a b \<Longrightarrow> \<not> lt b a" "\<And>a b c. \<not> lt b a \<Longrightarrow> \<not> lt c b \<Longrightarrow> \<not> lt c a"
  shows "sorted_wrt (\<lambda>a b. \<not> lt b a) (stable_sort lt xs)"
  by (induction xs) (simp_all add: stable_sort_def sorted_stable_insert [OF assms])

end
