(* ===== verification/Crc32c.thy ===== *)
theory Crc32c
  imports Prelude
begin

text \<open>
  The checksum of \<open>hash/crc32\<close> with the Castagnoli polynomial, as used by
  \<open>src/shared/bus/wal/record.go\<close> and \<open>group.go\<close>: the reflected bitwise form, with the
  all-ones initial value and final complement of \<open>crc32.Checksum\<close>.
\<close>

definition crc_shift :: "32 word \<Rightarrow> 32 word" where
  "crc_shift c = (if bit c 0 then drop_bit 1 c XOR 0x82F63B78 else drop_bit 1 c)"

definition crc_byte :: "32 word \<Rightarrow> byte \<Rightarrow> 32 word" where
  "crc_byte c b =
     crc_shift (crc_shift (crc_shift (crc_shift (crc_shift (crc_shift (crc_shift (crc_shift
       (c XOR ucast b))))))))"

fun crc_update :: "32 word \<Rightarrow> bytes \<Rightarrow> 32 word" where
  "crc_update c [] = c"
| "crc_update c (b # bs) = crc_update (crc_byte c b) bs"

definition crc32c :: "bytes \<Rightarrow> 32 word" where
  "crc32c bs = NOT (crc_update (NOT 0) bs)"

lemmas crc32c_defs = crc32c_def crc_byte_def crc_shift_def

text \<open>The published check value of CRC-32C: the checksum of the nine ASCII digits.\<close>

lemma crc32c_check_value: "crc32c [49, 50, 51, 52, 53, 54, 55, 56, 57] = 0xE3069283"
  by (simp add: crc32c_defs)

text \<open>A one-byte change of the running value is always visible: each step is injective in the
  byte, so two equally long inputs that differ only in their last byte have different sums.\<close>

lemma xor_right_cancel: "(c :: 32 word) XOR x = d XOR x \<Longrightarrow> c = d"
proof -
  assume "c XOR x = d XOR x"
  then have "(c XOR x) XOR x = (d XOR x) XOR x" by simp
  then show "c = d" by (simp add: xor.assoc)
qed

lemma crc_shift_inj: "crc_shift c = crc_shift d \<Longrightarrow> c = d"
proof -
  have top: "bit (crc_shift c) 31 = bit c 0" for c
    using bit_imp_le_length [of c 32] by (auto simp: crc_shift_def bit_simps)
  assume eq: "crc_shift c = crc_shift d"
  then have b0: "bit c 0 = bit d 0" using top [of c] top [of d] by simp
  then have "drop_bit 1 c = drop_bit 1 d"
    using eq by (auto simp: crc_shift_def dest: xor_right_cancel split: if_splits)
  then have "bit (drop_bit 1 c) n = bit (drop_bit 1 d) n" for n by simp
  then have "bit c (Suc n) = bit d (Suc n)" for n by (simp add: bit_simps)
  with b0 show "c = d"
    by (intro bit_eqI) (metis not0_implies_Suc)
qed

lemma crc_byte_inj:
  assumes "crc_byte c b = crc_byte d e"
  shows "c XOR ucast b = d XOR (ucast e :: 32 word)"
proof -
  from assms have "(crc_shift ^^ 8) (c XOR ucast b) = (crc_shift ^^ 8) (d XOR ucast e)"
    by (simp add: crc_byte_def numeral_eq_Suc)
  moreover have "inj (crc_shift ^^ 8)"
    by (rule inj_fn) (auto intro: injI crc_shift_inj)
  ultimately show ?thesis by (rule injD [rotated])
qed

lemma crc_update_append: "crc_update c (xs @ ys) = crc_update (crc_update c xs) ys"
  by (induction xs arbitrary: c) auto

lemma crc_update_inj: "crc_update c bs = crc_update d bs \<Longrightarrow> c = d"
proof (induction bs arbitrary: c d)
  case Nil
  then show ?case by simp
next
  case (Cons b bs)
  then have "crc_byte c b = crc_byte d b" by simp
  then have "c XOR ucast b = d XOR (ucast b :: 32 word)" by (rule crc_byte_inj)
  then have "c = d" by (rule xor_right_cancel)
  then show ?case .
qed

lemma crc32c_detects_one_byte:
  assumes "b \<noteq> b'"
  shows "crc32c (xs @ b # ys) \<noteq> crc32c (xs @ b' # ys)"
proof
  assume "crc32c (xs @ b # ys) = crc32c (xs @ b' # ys)"
  then have "crc_byte (crc_update (NOT 0) xs) b = crc_byte (crc_update (NOT 0) xs) b'"
    by (auto simp: crc32c_def crc_update_append dest: crc_update_inj)
  then have "ucast b XOR crc_update (NOT 0) xs = (ucast b' :: 32 word) XOR crc_update (NOT 0) xs"
    by (subst (1 2) xor.commute) (rule crc_byte_inj)
  then have "(ucast b :: 32 word) = ucast b'" by (rule xor_right_cancel)
  then have "unat (ucast b :: 32 word) = unat (ucast b' :: 32 word)" by simp
  moreover have "unat (ucast x :: 32 word) = unat x" for x :: byte
    using unsigned_less [of x, where ?'a = nat]
    by (simp add: unsigned_ucast_eq take_bit_nat_eq_self_iff)
  ultimately have "unat b = unat b'" by simp
  then have "b = b'" by (simp add: word_unat_eq_iff)
  with assms show False by simp
qed

end
