(* ===== verification/Wal_Record.thy ===== *)
theory Wal_Record
  imports Crc32c
begin

text \<open>
  The record codec of the write-ahead log, \<open>src/shared/bus/wal/record.go\<close>: the payload
  encoding, the length-and-checksum frame around it, and the bounds-checked decoder.
\<close>

section \<open>Data\<close>

text \<open>A \<open>time.Time\<close> is its instant in nanoseconds since the epoch (the codec keeps nothing else
  of it: the decoder normalises to UTC). A header map is an association list in one of the
  orders in which \<open>range\<close> may visit it.\<close>

record Record =
  Timestamp :: int
  Key :: string
  Value :: bytes
  Headers :: "(string, bytes) gomap"

text \<open>The reasons \<open>decodeRecord\<close> gives for a record it refuses; each wraps \<open>ErrCorrupt\<close>.\<close>

datatype corrupt =
    TruncatedTimestamp
  | TruncatedKeyLength
  | KeyLengthExceeds nat
  | TruncatedHeaderCount
  | TruncatedHeaderKeyLength
  | HeaderKeyLengthExceeds nat
  | TruncatedHeaderValueLength
  | HeaderValueLengthExceeds nat
  | TruncatedValueLength
  | ValueLengthExceeds nat
  | TrailingBytes nat

definition headerSize :: nat where "headerSize = 8"

definition maxRecordSize :: nat where "maxRecordSize = 67108864"

section \<open>Encoding\<close>

definition unixNano :: "int \<Rightarrow> 64 word" where
  "unixNano t = word_of_int t"

definition put_prefixed :: "bytes \<Rightarrow> bytes" where
  "put_prefixed bs = putU32 (of_nat (length bs)) @ bs"

fun encode_headers :: "(string, bytes) gomap \<Rightarrow> bytes" where
  "encode_headers [] = []"
| "encode_headers ((k, v) # hs) = put_prefixed (str_bytes k) @ put_prefixed v @ encode_headers hs"

definition encode :: "Record \<Rightarrow> bytes" where
  "encode r =
     putU64 (unixNano (Timestamp r)) @
     put_prefixed (str_bytes (Key r)) @
     putU32 (of_nat (length (Headers r))) @ encode_headers (Headers r) @
     put_prefixed (Value r)"

definition frame :: "bytes \<Rightarrow> bytes" where
  "frame payload = putU32 (of_nat (length payload)) @ putU32 (crc32c payload) @ payload"

definition checksumOK :: "bytes \<Rightarrow> 32 word \<Rightarrow> bool" where
  "checksumOK payload want \<longleftrightarrow> crc32c payload = want"

section \<open>Decoding\<close>

definition take_n :: "nat \<Rightarrow> bytes \<Rightarrow> (bytes \<times> bytes) option" where
  "take_n n cur = (if n > length cur then None else Some (take n cur, drop n cur))"

definition takeU32 :: "bytes \<Rightarrow> (nat \<times> bytes) option" where
  "takeU32 cur = (case take_n 4 cur of None \<Rightarrow> None | Some (raw, cur') \<Rightarrow> Some (unat (getU32 raw), cur'))"

text \<open>The recurring pair of reads: a length word, then that many bytes, each with its own error.\<close>

definition take_prefixed :: "corrupt \<Rightarrow> (nat \<Rightarrow> corrupt) \<Rightarrow> bytes \<Rightarrow> corrupt + bytes \<times> bytes" where
  "take_prefixed trunc exceeds cur =
     (case takeU32 cur of
        None \<Rightarrow> Err trunc
      | Some (n, cur1) \<Rightarrow>
          (case take_n n cur1 of None \<Rightarrow> Err (exceeds n) | Some out \<Rightarrow> Ok out))"

fun decode_headers ::
  "nat \<Rightarrow> (string, bytes) gomap \<Rightarrow> bytes \<Rightarrow> corrupt + (string, bytes) gomap \<times> bytes" where
  "decode_headers 0 m cur = Ok (m, cur)"
| "decode_headers (Suc i) m cur =
     (case take_prefixed TruncatedHeaderKeyLength HeaderKeyLengthExceeds cur of
        Err e \<Rightarrow> Err e
      | Ok (hk, cur1) \<Rightarrow>
          (case take_prefixed TruncatedHeaderValueLength HeaderValueLengthExceeds cur1 of
             Err e \<Rightarrow> Err e
           | Ok (hv, cur2) \<Rightarrow> decode_headers i (AList.update (bytes_str hk) hv m) cur2))"

text \<open>Everything \<open>decodeRecord\<close> reads, with the bytes left over.\<close>

definition decode_fields :: "bytes \<Rightarrow> corrupt + Record \<times> bytes" where
  "decode_fields b =
     (case take_n 8 b of
        None \<Rightarrow> Err TruncatedTimestamp
      | Some (ts, cur1) \<Rightarrow>
          (case take_prefixed TruncatedKeyLength KeyLengthExceeds cur1 of
             Err e \<Rightarrow> Err e
           | Ok (key, cur2) \<Rightarrow>
               (case takeU32 cur2 of
                  None \<Rightarrow> Err TruncatedHeaderCount
                | Some (hcount, cur3) \<Rightarrow>
                    (case decode_headers hcount [] cur3 of
                       Err e \<Rightarrow> Err e
                     | Ok (hs, cur4) \<Rightarrow>
                         (case take_prefixed TruncatedValueLength ValueLengthExceeds cur4 of
                            Err e \<Rightarrow> Err e
                          | Ok (val, cur5) \<Rightarrow>
                              Ok (\<lparr>Timestamp = sint (getU64 ts), Key = bytes_str key,
                                   Value = val, Headers = hs\<rparr>, cur5))))))"

definition decodeRecord :: "bytes \<Rightarrow> corrupt + Record" where
  "decodeRecord b =
     (case decode_fields b of
        Err e \<Rightarrow> Err e
      | Ok (r, cur) \<Rightarrow> if cur \<noteq> [] then Err (TrailingBytes (length cur)) else Ok r)"

section \<open>Which records the codec can carry\<close>

text \<open>A timestamp in the range of \<open>UnixNano\<close>, header keys as in any map, and a payload within the
  limit that \<open>segment.append\<close> enforces.\<close>

definition storable :: "Record \<Rightarrow> bool" where
  "storable r \<longleftrightarrow>
     - (2 ^ 63) \<le> Timestamp r \<and> Timestamp r < 2 ^ 63 \<and>
     distinct (map fst (Headers r)) \<and> length (encode r) \<le> maxRecordSize"

section \<open>Round trip\<close>

lemma length_put_prefixed [simp, codec_simps]: "length (put_prefixed bs) = 4 + length bs"
  by (simp add: put_prefixed_def)

lemma length_frame [simp, codec_simps]: "length (frame p) = headerSize + length p"
  by (simp add: frame_def headerSize_def)

lemma encode_length_ge: "20 \<le> length (encode r)"
  by (simp add: encode_def)

lemma unat_u32_small: "n < 2 ^ 32 \<Longrightarrow> unat (of_nat n :: 32 word) = n"
  by (simp add: unat_of_nat)

lemma take_n_append [simp]: "length xs = n \<Longrightarrow> take_n n (xs @ ys) = Some (xs, ys)"
  by (auto simp: take_n_def)

lemma takeU32_put [simp]: "n < 2 ^ 32 \<Longrightarrow> takeU32 (putU32 (of_nat n) @ ys) = Some (n, ys)"
  by (simp add: takeU32_def unat_u32_small)

lemma take_prefixed_put [simp]:
  "length bs < 2 ^ 32 \<Longrightarrow> take_prefixed t e (put_prefixed bs @ ys) = Ok (bs, ys)"
  by (simp add: take_prefixed_def put_prefixed_def)

lemma update_fresh: "k \<notin> fst ` set m \<Longrightarrow> AList.update k v m = m @ [(k, v)]"
  by (induction m) auto

lemma encode_headers_length:
  "(k, v) \<in> set hs \<Longrightarrow> length k + length v + 8 \<le> length (encode_headers hs)"
  by (induction hs rule: encode_headers.induct) auto

lemma encode_headers_count: "8 * length hs \<le> length (encode_headers hs)"
  by (induction hs rule: encode_headers.induct) auto

lemma decode_headers_encode:
  assumes "distinct (map fst (m @ hs))"
    and "\<And>k v. (k, v) \<in> set hs \<Longrightarrow> length k < 2 ^ 32 \<and> length v < 2 ^ 32"
  shows "decode_headers (length hs) m (encode_headers hs @ ys) = Ok (m @ hs, ys)"
  using assms
proof (induction hs arbitrary: m)
  case Nil
  then show ?case by simp
next
  case (Cons h hs)
  obtain k v where h: "h = (k, v)" by (cases h)
  have small: "length k < 2 ^ 32" "length v < 2 ^ 32" using Cons.prems(2) h by auto
  have fresh: "AList.update k v m = m @ [(k, v)]"
    using Cons.prems(1) h by (intro update_fresh) (auto simp: image_iff)
  have "decode_headers (length hs) (m @ [(k, v)]) (encode_headers hs @ ys) = Ok ((m @ [(k, v)]) @ hs, ys)"
    using Cons.prems h by (intro Cons.IH) auto
  with h small fresh show ?case by simp
qed

lemma storable_small:
  assumes "storable r"
  shows "length (Key r) < 2 ^ 32" "length (Headers r) < 2 ^ 32" "length (Value r) < 2 ^ 32"
    and "(k, v) \<in> set (Headers r) \<Longrightarrow> length k < 2 ^ 32 \<and> length v < 2 ^ 32"
proof -
  have le: "length (Key r) + length (encode_headers (Headers r)) + length (Value r) + 20
      \<le> maxRecordSize"
    using assms by (simp add: storable_def encode_def)
  then show "length (Key r) < 2 ^ 32" "length (Value r) < 2 ^ 32"
    by (simp_all add: maxRecordSize_def)
  show "length (Headers r) < 2 ^ 32"
    using le encode_headers_count [of "Headers r"] by (simp add: maxRecordSize_def)
  show "(k, v) \<in> set (Headers r) \<Longrightarrow> length k < 2 ^ 32 \<and> length v < 2 ^ 32"
    using le encode_headers_length [of k v "Headers r"] by (auto simp: maxRecordSize_def)
qed

lemma sint_unixNano: "- (2 ^ 63) \<le> t \<Longrightarrow> t < 2 ^ 63 \<Longrightarrow> sint (unixNano t) = t"
  by (simp add: unixNano_def signed_take_bit_int_eq_self_iff sint_sbintrunc' flip: numeral_eq_Suc)

lemma decode_fields_encode:
  assumes "storable r"
  shows "decode_fields (encode r @ ys) = Ok (r, ys)"
proof -
  note small = storable_small [OF assms]
  have hs: "decode_headers (length (Headers r)) [] (encode_headers (Headers r) @ zs)
      = Ok (Headers r, zs)" for zs
    using assms small(4) decode_headers_encode [of "[]" "Headers r"] by (simp add: storable_def)
  have ts: "sint (unixNano (Timestamp r)) = Timestamp r"
    using assms by (simp add: storable_def sint_unixNano)
  show ?thesis
    using small(1-3) by (simp add: encode_def decode_fields_def hs ts)
qed

lemma decodeRecord_encode: "storable r \<Longrightarrow> decodeRecord (encode r) = Ok r"
  using decode_fields_encode [of r "[]"] by (simp add: decodeRecord_def)

section \<open>Decoding is local: more input never changes what was read\<close>

lemma take_n_extend: "take_n n b = Some (x, c) \<Longrightarrow> take_n n (b @ d) = Some (x, c @ d)"
  by (auto simp: take_n_def split: if_splits)

lemma takeU32_extend: "takeU32 b = Some (n, c) \<Longrightarrow> takeU32 (b @ d) = Some (n, c @ d)"
  by (auto simp: takeU32_def take_n_extend split: option.splits)

lemma take_prefixed_extend:
  "take_prefixed t e b = Ok (x, c) \<Longrightarrow> take_prefixed t e (b @ d) = Ok (x, c @ d)"
  by (auto simp: take_prefixed_def takeU32_extend take_n_extend split: option.splits)

lemma decode_headers_extend:
  "decode_headers n m b = Ok (hs, c) \<Longrightarrow> decode_headers n m (b @ d) = Ok (hs, c @ d)"
  by (induction n m b rule: decode_headers.induct)
    (auto simp: take_prefixed_extend split: sum.splits)

lemma decode_fields_extend:
  "decode_fields b = Ok (r, c) \<Longrightarrow> decode_fields (b @ d) = Ok (r, c @ d)"
  by (auto simp: decode_fields_def take_n_extend takeU32_extend take_prefixed_extend
      decode_headers_extend split: option.splits sum.splits)

text \<open>Consequently the encoding is prefix-free: a torn payload never decodes, checksum aside.\<close>

lemma decodeRecord_prefix_fails:
  assumes "storable r" "n < length (encode r)"
  shows "\<exists>e. decodeRecord (take n (encode r)) = Err e"
proof (cases "decodeRecord (take n (encode r))")
  case (Inr r')
  then have "decode_fields (take n (encode r)) = Ok (r', [])"
    by (auto simp: decodeRecord_def split: sum.splits if_splits)
  then have "decode_fields (take n (encode r) @ drop n (encode r)) = Ok (r', [] @ drop n (encode r))"
    by (rule decode_fields_extend)
  moreover have "decode_fields (encode r) = Ok (r, [])"
    using decode_fields_encode [OF assms(1), of "[]"] by simp
  ultimately have "drop n (encode r) = []" by (auto simp del: drop_eq_Nil)
  with assms(2) show ?thesis by simp
qed simp

section \<open>What a successful decode guarantees\<close>

lemma take_n_length: "take_n n b = Some (x, c) \<Longrightarrow> length x = n \<and> length b = n + length c"
  by (auto simp: take_n_def split: if_splits)

lemma take_prefixed_length:
  "take_prefixed t e b = Ok (x, c) \<Longrightarrow> length b = 4 + length x + length c"
  by (auto simp: take_prefixed_def takeU32_def split: option.splits dest!: take_n_length)

lemma distinct_keys_update: "distinct (map fst m) \<Longrightarrow> distinct (map fst (AList.update k v m))"
  by (rule distinct_update)

lemma length_encode_headers_update:
  "length (encode_headers (AList.update k v m)) \<le> length (encode_headers m) + 8 + length k + length v"
  by (induction m rule: encode_headers.induct) auto

lemma decode_headers_sound:
  assumes "decode_headers n m b = Ok (hs, c)" "distinct (map fst m)"
  shows "distinct (map fst hs) \<and>
    length (encode_headers hs) + length c \<le> length (encode_headers m) + length b"
  using assms
proof (induction n m b rule: decode_headers.induct)
  case (2 i m cur)
  from "2.prems"(1) obtain hk cur1 hv cur2 where
    t: "take_prefixed TruncatedHeaderKeyLength HeaderKeyLengthExceeds cur = Ok (hk, cur1)"
       "take_prefixed TruncatedHeaderValueLength HeaderValueLengthExceeds cur1 = Ok (hv, cur2)"
    and d: "decode_headers i (AList.update (bytes_str hk) hv m) cur2 = Ok (hs, c)"
    by (auto split: sum.splits)
  have "length cur = 8 + length hk + length hv + length cur2"
    using t by (auto dest!: take_prefixed_length)
  moreover have "distinct (map fst hs) \<and> length (encode_headers hs) + length c
      \<le> length (encode_headers (AList.update (bytes_str hk) hv m)) + length cur2"
    by (rule "2.IH" [OF t(1) refl t(2) refl d distinct_keys_update [OF "2.prems"(2)]])
  ultimately show ?case
    using length_encode_headers_update [of "bytes_str hk" hv m] by simp
qed auto

lemma sint64_range: "- (2 ^ 63) \<le> sint (w :: 64 word)" "sint (w :: 64 word) < 2 ^ 63"
  using sint_greater_eq [of w] sint_less [of w] by simp_all

text \<open>Whatever bytes it is given, a record that decodes can be stored again.\<close>

lemma decodeRecord_storable:
  assumes "decodeRecord b = Ok r" "length b \<le> maxRecordSize"
  shows "storable r"
proof -
  from assms(1) have "decode_fields b = Ok (r, [])"
    by (auto simp: decodeRecord_def split: sum.splits if_splits)
  then obtain ts c1 key c2 hc c3 hs c4 val where
    s: "take_n 8 b = Some (ts, c1)" "take_prefixed TruncatedKeyLength KeyLengthExceeds c1 = Ok (key, c2)"
       "take_n 4 c2 = Some (hc, c3)" "decode_headers (unat (getU32 hc)) [] c3 = Ok (hs, c4)"
       "take_prefixed TruncatedValueLength ValueLengthExceeds c4 = Ok (val, [])"
    and r: "r = \<lparr>Timestamp = sint (getU64 ts), Key = bytes_str key, Value = val, Headers = hs\<rparr>"
    by (auto simp: decode_fields_def takeU32_def split: option.splits sum.splits)
  have "distinct (map fst hs)" "length (encode_headers hs) + length c4 \<le> length c3"
    using decode_headers_sound [OF s(4)] by simp_all
  moreover have "length b = 16 + length key + length c3" "length c4 = 4 + length val"
    using s(1-3,5) by (auto dest!: take_n_length take_prefixed_length)
  ultimately show ?thesis
    using assms(2) sint64_range [of "getU64 ts"] by (simp add: storable_def r encode_def)
qed

section \<open>Properties\<close>

text \<open>A small record, for the witnesses.\<close>

definition sample_record :: Record where
  "sample_record = \<lparr>Timestamp = 0, Key = ''k'', Value = [1, 2], Headers = [(''h'', [3])]\<rparr>"

lemma storable_sample [simp]: "storable sample_record" "length (encode sample_record) = 33"
  by (simp_all add: storable_def sample_record_def encode_def maxRecordSize_def)

text \<open>C20: the record codec is a prefix-free round trip. Decoding an encoded record gives it back;
  no proper prefix of an encoding decodes, and neither does an encoding with anything behind it,
  so a torn or overrun payload is always reported as corrupt.\<close>

theorem record_roundtrip:
  assumes "storable r"
  shows "decodeRecord (encode r) = Ok r \<and>
    (\<forall>n < length (encode r). \<exists>e. decodeRecord (take n (encode r)) = Err e) \<and>
    (\<forall>x xs. decodeRecord (encode r @ x # xs) = Err (TrailingBytes (Suc (length xs))))"
  using decodeRecord_encode [OF assms] decodeRecord_prefix_fails [OF assms] decode_fields_encode [OF assms]
  by (simp add: decodeRecord_def [of "encode r @ _"])

theorem record_roundtrip_witness: "decodeRecord (encode sample_record) = Ok sample_record"
  using record_roundtrip [OF storable_sample(1)] by simp

text \<open>Whatever bytes the decoder accepts, the record it yields can be stored again and comes back
  unchanged: distinct header keys, a timestamp in range and a payload no longer than the input.\<close>

theorem decoded_record_storable:
  assumes "decodeRecord b = Ok r" "length b \<le> maxRecordSize"
  shows "storable r \<and> decodeRecord (encode r) = Ok r"
  using decodeRecord_storable [OF assms] decodeRecord_encode by blast

theorem decoded_record_storable_witness:
  "storable sample_record \<and> decodeRecord (encode sample_record) = Ok sample_record"
  using decoded_record_storable [OF decodeRecord_encode [OF storable_sample(1)]]
  by (simp add: maxRecordSize_def)

end
