(* ===== verification/Wal_Segment.thy ===== *)
theory Wal_Segment
  imports Wal_Record
begin

text \<open>
  One segment file of the log, \<open>src/shared/bus/wal/segment.go\<close>: opening with recovery of a torn
  tail, appending framed records, syncing, reading by offset and closing, with every I/O failure
  the code can meet; the representation invariant; and what recovery finds in an arbitrary file.
\<close>

section \<open>Files and I/O outcomes\<close>

text \<open>An open \<open>os.File\<close>: the bytes a reader of the file sees, the position of the next sequential
  write, how long a prefix is known to be on stable storage, and whether the handle is open.\<close>

record osfile =
  fdata :: bytes
  fpos :: nat
  fsynced :: nat
  fopen :: bool

text \<open>What the operating system does is an argument of every operation: which calls fail, after how
  many bytes a failing write stops, and what a path holds when it is opened.\<close>

datatype io_call =
    IoOpen | IoStat | IoReadHeader nat | IoReadPayload nat | IoTruncate | IoSync | IoSeek
  | IoWrite | IoClose | IoRemove | IoMkdir | IoReadDir

record io =
  io_fail :: "string \<Rightarrow> io_call \<Rightarrow> bool"
  io_short :: nat
  io_file :: "string \<Rightarrow> bytes"

definition io_clean :: "io \<Rightarrow> bool" where
  "io_clean io \<longleftrightarrow> io_fail io = (\<lambda>_ _. False)"

text \<open>\<open>File.ReadAt\<close> of \<open>n\<close> bytes: \<open>None\<close> is \<open>io.EOF\<close>.\<close>

definition readAt :: "bytes \<Rightarrow> nat \<Rightarrow> nat \<Rightarrow> bytes option" where
  "readAt d pos n = (if pos + n \<le> length d then Some (take n (drop pos d)) else None)"

definition file_write :: "osfile \<Rightarrow> bytes \<Rightarrow> osfile" where
  "file_write f bs = f\<lparr>fdata := take (fpos f) (fdata f) @ bs @ drop (fpos f + length bs) (fdata f),
                       fpos := fpos f + length bs\<rparr>"

definition file_truncate :: "osfile \<Rightarrow> nat \<Rightarrow> osfile" where
  "file_truncate f n = f\<lparr>fdata := take n (fdata f), fsynced := min n (fsynced f)\<rparr>"

definition file_sync :: "osfile \<Rightarrow> osfile" where
  "file_sync f = f\<lparr>fsynced := length (fdata f)\<rparr>"

section \<open>Segments\<close>

record segment =
  seg_path :: string
  seg_file :: osfile
  seg_base :: int
  starts :: "nat list"
  seg_bytes :: nat
  dirty :: bool

datatype seg_error =
    SegOpen | SegStat | SegReadHeader nat | SegReadPayload nat | SegTruncate | SegSync | SegSeek
  | RecordTooLarge nat | SegAppend | SegCorrupt int | SegDecode corrupt | SegClose

definition seg_fails :: "io \<Rightarrow> segment \<Rightarrow> io_call \<Rightarrow> bool" where
  "seg_fails io s c \<longleftrightarrow> \<not> fopen (seg_file s) \<or> io_fail io (seg_path s) c"

text \<open>The scanning loop of \<open>recover\<close>: the positions indexed so far and where the scan stopped. An
  error other than end-of-file on a header aborts; everything else that is wrong ends the scan.\<close>

function recover_scan ::
  "io \<Rightarrow> string \<Rightarrow> bytes \<Rightarrow> nat \<Rightarrow> nat list \<Rightarrow> seg_error + nat list \<times> nat" where
  "recover_scan io path d pos st =
     (if \<not> pos < length d then Ok (st, pos)
      else if io_fail io path (IoReadHeader pos) then Err (SegReadHeader pos)
      else case readAt d pos headerSize of
          None \<Rightarrow> Ok (st, pos)
        | Some header \<Rightarrow>
            (let len = unat (getU32 (take 4 header)) in
             if len = 0 \<or> len > maxRecordSize then Ok (st, pos)
             else if pos + headerSize + len > length d then Ok (st, pos)
             else if io_fail io path (IoReadPayload pos) then Ok (st, pos)
             else case readAt d (pos + headerSize) len of
                 None \<Rightarrow> Ok (st, pos)
               | Some payload \<Rightarrow>
                   if \<not> checksumOK payload (getU32 (drop 4 header)) then Ok (st, pos)
                   else (case decodeRecord payload of
                           Err _ \<Rightarrow> Ok (st, pos)
                         | Ok _ \<Rightarrow> recover_scan io path d (pos + headerSize + len) (st @ [pos]))))"
  by pat_completeness auto
termination
  by (relation "measure (\<lambda>(io, path, d, pos, st). length d - pos)")
    (auto simp: headerSize_def)

declare recover_scan.simps [simp del]

definition recover :: "io \<Rightarrow> segment \<Rightarrow> seg_error + segment" where
  "recover io s =
     (if seg_fails io s IoStat then Err SegStat
      else case recover_scan io (seg_path s) (fdata (seg_file s)) 0 [] of
          Err e \<Rightarrow> Err e
        | Ok (st, pos) \<Rightarrow>
            (let torn = pos < length (fdata (seg_file s)) in
             if torn \<and> seg_fails io s IoTruncate then Err SegTruncate
             else if torn \<and> seg_fails io s IoSync then Err SegSync
             else if seg_fails io s IoSeek then Err SegSeek
             else let f = (if torn then file_sync (file_truncate (seg_file s) pos) else seg_file s)
                  in Ok (s\<lparr>starts := st, seg_bytes := pos, seg_file := f\<lparr>fpos := pos\<rparr>\<rparr>)))"

definition openSegment :: "io \<Rightarrow> string \<Rightarrow> int \<Rightarrow> seg_error + segment" where
  "openSegment io path b =
     (if io_fail io path IoOpen then Err SegOpen
      else recover io
        \<lparr>seg_path = path,
         seg_file = \<lparr>fdata = io_file io path, fpos = 0, fsynced = 0, fopen = True\<rparr>,
         seg_base = b, starts = [], seg_bytes = 0, dirty = False\<rparr>)"

definition nextOffset :: "segment \<Rightarrow> int" where
  "nextOffset s = seg_base s + int (length (starts s))"

definition seg_count :: "segment \<Rightarrow> nat" where
  "seg_count s = length (starts s)"

definition isDirty :: "segment \<Rightarrow> bool" where
  "isDirty s = dirty s"

definition seg_size :: "segment \<Rightarrow> nat" where
  "seg_size s = seg_bytes s"

definition offsetOf :: "segment \<Rightarrow> int \<Rightarrow> nat" where
  "offsetOf s off =
     (let idx = off - seg_base s in
      if idx < 0 \<or> idx \<ge> int (length (starts s)) then seg_bytes s else starts s ! nat idx)"

definition seg_append :: "io \<Rightarrow> segment \<Rightarrow> Record \<Rightarrow> (seg_error + int) \<times> segment" where
  "seg_append io s r =
     (let payload = encode r in
      if length payload > maxRecordSize then (Err (RecordTooLarge (length payload)), s)
      else let buf = frame payload in
        if seg_fails io s IoWrite then
          (let n = (if fopen (seg_file s) then min (io_short io) (length buf) else 0);
               s' = s\<lparr>seg_file := file_write (seg_file s) (take n buf)\<rparr>
           in (Err SegAppend, if n > 0 then s'\<lparr>seg_bytes := seg_bytes s + n\<rparr> else s'))
        else
          (let off = seg_base s + int (length (starts s)) in
           (Ok off, s\<lparr>seg_file := file_write (seg_file s) buf,
                      starts := starts s @ [seg_bytes s],
                      seg_bytes := seg_bytes s + length buf,
                      dirty := True\<rparr>)))"

definition seg_sync :: "io \<Rightarrow> segment \<Rightarrow> (seg_error + unit) \<times> segment" where
  "seg_sync io s =
     (if \<not> dirty s then (Ok (), s)
      else if seg_fails io s IoSync then (Err SegSync, s)
      else (Ok (), s\<lparr>seg_file := file_sync (seg_file s), dirty := False\<rparr>))"

text \<open>The body of \<open>readFrom\<close> for one index entry, and the loop over the entries from \<open>idx\<close>.\<close>

definition read_one :: "io \<Rightarrow> segment \<Rightarrow> nat \<Rightarrow> nat \<Rightarrow> seg_error + Record" where
  "read_one io s i pos =
     (if seg_fails io s (IoReadHeader pos) then Err (SegReadHeader pos)
      else case readAt (fdata (seg_file s)) pos headerSize of
          None \<Rightarrow> Err (SegReadHeader pos)
        | Some header \<Rightarrow>
            (if seg_fails io s (IoReadPayload pos) then Err (SegReadPayload pos)
             else case readAt (fdata (seg_file s)) (pos + headerSize) (unat (getU32 (take 4 header))) of
                 None \<Rightarrow> Err (SegReadPayload pos)
               | Some payload \<Rightarrow>
                   if \<not> checksumOK payload (getU32 (drop 4 header))
                   then Err (SegCorrupt (seg_base s + int i))
                   else (case decodeRecord payload of Err e \<Rightarrow> Err (SegDecode e) | Ok r \<Rightarrow> Ok r)))"

fun read_loop ::
  "io \<Rightarrow> segment \<Rightarrow> nat \<Rightarrow> nat list \<Rightarrow> Record list \<Rightarrow> Record list \<times> seg_error option" where
  "read_loop io s i [] out = (out, None)"
| "read_loop io s i (pos # rest) out =
     (case read_one io s i pos of
        Err e \<Rightarrow> (out, Some e)
      | Ok r \<Rightarrow> read_loop io s (Suc i) rest (out @ [r]))"

definition readFrom :: "io \<Rightarrow> segment \<Rightarrow> int \<Rightarrow> Record list \<times> seg_error option" where
  "readFrom io s offset =
     (let idx = max 0 (offset - seg_base s) in
      if idx \<ge> int (length (starts s)) then ([], None)
      else read_loop io s (nat idx) (drop (nat idx) (starts s)) [])"

definition seg_Close :: "io \<Rightarrow> segment \<Rightarrow> (seg_error + unit) \<times> segment" where
  "seg_Close io s =
     (case seg_sync io s of
        (Err e, s1) \<Rightarrow> (Err e, s1\<lparr>seg_file := (seg_file s1)\<lparr>fopen := False\<rparr>\<rparr>)
      | (Ok _, s1) \<Rightarrow>
          (if seg_fails io s1 IoClose then Err SegClose else Ok (),
           s1\<lparr>seg_file := (seg_file s1)\<lparr>fopen := False\<rparr>\<rparr>))"

section \<open>What a segment file holds\<close>

text \<open>The contents of a segment are described by the list of payloads it stores: the file is the
  concatenation of their frames and the index is the list of the frames' positions.\<close>

definition payload_ok :: "bytes \<Rightarrow> bool" where
  "payload_ok p \<longleftrightarrow> 0 < length p \<and> length p \<le> maxRecordSize \<and>
     (case decodeRecord p of Err _ \<Rightarrow> False | Ok _ \<Rightarrow> True)"

definition payload_record :: "bytes \<Rightarrow> Record" where
  "payload_record p = projr (decodeRecord p)"

definition stream :: "bytes list \<Rightarrow> bytes" where
  "stream ps = concat (map frame ps)"

fun frame_starts :: "nat \<Rightarrow> bytes list \<Rightarrow> nat list" where
  "frame_starts pos [] = []"
| "frame_starts pos (p # ps) = pos # frame_starts (pos + headerSize + length p) ps"

text \<open>The payload of an intact frame at the start of \<open>d\<close>, and the longest run of intact frames.\<close>

definition intact :: "bytes \<Rightarrow> bytes option" where
  "intact d =
     (let len = unat (getU32 d); p = take len (drop headerSize d) in
      if headerSize + len \<le> length d \<and> payload_ok p \<and> length p = len \<and>
         checksumOK p (getU32 (drop 4 d))
      then Some p else None)"

function frames :: "bytes \<Rightarrow> bytes list" where
  "frames d = (case intact d of
       None \<Rightarrow> [] | Some p \<Rightarrow> p # frames (drop (headerSize + length p) d))"
  by pat_completeness auto
termination
  by (relation "measure length")
    (auto simp: intact_def headerSize_def Let_def split: if_splits)

declare frames.simps [simp del]

text \<open>The number of leading frames that fit in the first \<open>n\<close> bytes.\<close>

fun whole :: "nat \<Rightarrow> bytes list \<Rightarrow> nat" where
  "whole n [] = 0"
| "whole n (p # ps) =
     (if headerSize + length p \<le> n then Suc (whole (n - (headerSize + length p)) ps) else 0)"

definition seg_rep :: "bytes list \<Rightarrow> segment \<Rightarrow> bool" where
  "seg_rep ps s \<longleftrightarrow>
     fdata (seg_file s) = stream ps \<and> starts s = frame_starts 0 ps \<and>
     seg_bytes s = length (stream ps) \<and> fpos (seg_file s) = length (stream ps) \<and>
     fopen (seg_file s) \<and> (\<forall>p \<in> set ps. payload_ok p)"

subsection \<open>Frames\<close>

lemma stream_simps [simp]:
  "stream [] = []" "stream (p # ps) = frame p @ stream ps" "stream (ps @ qs) = stream ps @ stream qs"
  by (simp_all add: stream_def)

lemma length_frame_starts [simp]: "length (frame_starts pos ps) = length ps"
  by (induction pos ps rule: frame_starts.induct) auto

lemma frame_starts_append:
  "frame_starts pos (ps @ qs) = frame_starts pos ps @ frame_starts (pos + length (stream ps)) qs"
  by (induction pos ps rule: frame_starts.induct) (auto simp: add.assoc)

lemma frame_starts_nth:
  "i < length ps \<Longrightarrow> frame_starts pos ps ! i = pos + length (stream (take i ps))"
  by (induction pos ps arbitrary: i rule: frame_starts.induct)
    (auto simp: nth_Cons add.assoc split: nat.splits)

lemma payload_ok_length: "payload_ok p \<Longrightarrow> 0 < length p" "payload_ok p \<Longrightarrow> length p < 2 ^ 32"
  by (auto simp: payload_ok_def maxRecordSize_def)

lemma payload_ok_decode: "payload_ok p \<Longrightarrow> decodeRecord p = Ok (payload_record p)"
  by (auto simp: payload_ok_def payload_record_def split: sum.splits)

lemma payload_ok_encode: "storable r \<Longrightarrow> payload_ok (encode r) \<and> payload_record (encode r) = r"
  using encode_length_ge [of r]
  by (auto simp: payload_ok_def payload_record_def storable_def decodeRecord_encode)

lemma payload_record_storable: "payload_ok p \<Longrightarrow> storable (payload_record p)"
  by (rule decodeRecord_storable [OF payload_ok_decode]) (auto simp: payload_ok_def)

lemma frame_header:
  assumes "length p < 2 ^ 32"
  shows "unat (getU32 (frame p @ d)) = length p"
    and "getU32 (drop 4 (frame p @ d)) = crc32c p"
    and "take (length p) (drop headerSize (frame p @ d)) = p"
  using assms by (simp_all add: frame_def headerSize_def unat_u32_small)

lemma intact_frame: "payload_ok p \<Longrightarrow> intact (frame p @ d) = Some p"
  using frame_header [of p d] payload_ok_length [of p]
  by (simp add: intact_def checksumOK_def Let_def)

lemma intact_SomeD:
  assumes "intact d = Some p"
  shows "payload_ok p" "d = frame p @ drop (headerSize + length p) d"
proof -
  from assms have ok: "payload_ok p" and len: "unat (getU32 d) = length p"
    and p: "p = take (length p) (drop 8 d)" and crc: "crc32c p = getU32 (drop 4 d)"
    and fits: "8 + length p \<le> length d"
    by (auto simp: intact_def checksumOK_def headerSize_def Let_def split: if_splits)
  have "getU32 d = of_nat (length p)" by (simp flip: len)
  moreover have "getU32 (take 4 d) = getU32 d" "getU32 (take 4 (drop 4 d)) = getU32 (drop 4 d)"
    by (simp_all add: getU32_take)
  ultimately have "take 4 d = putU32 (of_nat (length p))" "take 4 (drop 4 d) = putU32 (crc32c p)"
    using crc fits putU32_getU32 [of "take 4 d"] putU32_getU32 [of "take 4 (drop 4 d)"] by simp_all
  then have "frame p = take 4 d @ take 4 (drop 4 d) @ take (length p) (drop 8 d)"
    using p by (simp add: frame_def)
  also have "\<dots> = take (8 + length p) d"
    using take_add [of 4 4 d] take_add [of 8 "length p" d] by simp
  finally show "d = frame p @ drop (headerSize + length p) d"
    by (simp add: headerSize_def)
  show "payload_ok p" by (rule ok)
qed

lemma intact_short: "length d < headerSize \<Longrightarrow> intact d = None"
  by (simp add: intact_def)

lemma intact_torn:
  assumes "n < length (frame p)" "length p < 2 ^ 32"
  shows "intact (take n (frame p)) = None"
proof (cases "n < headerSize")
  case True
  then show ?thesis by (intro intact_short) simp
next
  case False
  then have "take n (frame p) = putU32 (of_nat (length p)) @ take (n - 4) (putU32 (crc32c p) @ p)"
    by (simp add: frame_def headerSize_def)
  then have "unat (getU32 (take n (frame p))) = length p"
    using assms(2) by (simp add: unat_u32_small)
  with assms(1) show ?thesis by (simp add: intact_def)
qed

lemma intact_past_end:
  assumes "d = take n (frame p) @ e" "headerSize \<le> n" "n \<le> length (frame p)" "length p < 2 ^ 32"
    and "n + length e < length (frame p)"
  shows "intact d = None"
proof -
  have "take n (frame p) = putU32 (of_nat (length p)) @ take (n - 4) (putU32 (crc32c p) @ p)"
    using assms(2) by (simp add: frame_def headerSize_def)
  then have "unat (getU32 d) = length p"
    using assms(1,4) by (simp add: unat_u32_small)
  with assms show ?thesis by (simp add: intact_def)
qed

lemma frames_None: "intact d = None \<Longrightarrow> frames d = []"
  by (subst frames.simps) simp

lemma frames_frame: "payload_ok p \<Longrightarrow> frames (frame p @ d) = p # frames d"
  by (subst frames.simps) (simp add: intact_frame)

lemma frames_stream:
  "\<forall>p \<in> set ps. payload_ok p \<Longrightarrow> frames (stream ps @ tail) = ps @ frames tail"
  by (induction ps) (auto simp: frames_frame)

lemma frames_ok: "p \<in> set (frames d) \<Longrightarrow> payload_ok p"
proof (induction d rule: frames.induct)
  case (1 d)
  show ?case
  proof (cases "intact d")
    case None
    with "1.prems" show ?thesis by (simp add: frames_None)
  next
    case (Some q)
    then have "frames d = q # frames (drop (headerSize + length q) d)"
      by (subst frames.simps) simp
    with 1 Some intact_SomeD(1) [OF Some] show ?thesis by auto
  qed
qed

lemma frames_prefix: "\<exists>tail. d = stream (frames d) @ tail \<and> intact tail = None"
proof (induction d rule: frames.induct)
  case (1 d)
  show ?case
  proof (cases "intact d")
    case None
    then show ?thesis by (simp add: frames_None)
  next
    case (Some p)
    then obtain tail where
      "drop (headerSize + length p) d = stream (frames (drop (headerSize + length p) d)) @ tail"
      "intact tail = None"
      using "1.IH" by blast
    moreover have "d = frame p @ drop (headerSize + length p) d"
      using Some by (rule intact_SomeD)
    moreover have "frames d = p # frames (drop (headerSize + length p) d)"
      using Some by (subst frames.simps) simp
    ultimately show ?thesis by (metis append.assoc stream_simps(2))
  qed
qed

lemma frames_take_stream:
  "\<forall>p \<in> set ps. payload_ok p \<Longrightarrow> frames (take n (stream ps)) = take (whole n ps) ps"
proof (induction n ps rule: whole.induct)
  case (1 n)
  then show ?case by (simp add: frames_None intact_def headerSize_def)
next
  case (2 n p ps)
  show ?case
  proof (cases "headerSize + length p \<le> n")
    case True
    then show ?thesis using 2 by (simp add: frames_frame)
  next
    case False
    then have "intact (take n (stream (p # ps))) = None"
      using 2(2) payload_ok_length(2) by (simp add: intact_torn)
    with False show ?thesis by (simp add: frames_None)
  qed
qed

lemma whole_le: "whole n ps \<le> length ps"
  by (induction n ps rule: whole.induct) auto

lemma whole_ge: "m \<le> length ps \<Longrightarrow> length (stream (take m ps)) \<le> n \<Longrightarrow> m \<le> whole n ps"
proof (induction n ps arbitrary: m rule: whole.induct)
  case (2 n p ps)
  then show ?case by (cases m) auto
qed simp

subsection \<open>Recovery\<close>

lemma recover_scan_intact:
  assumes "\<not> io_fail io path (IoReadHeader pos)" "\<not> io_fail io path (IoReadPayload pos)"
  shows "recover_scan io path d pos st =
    (case intact (drop pos d) of
       None \<Rightarrow> Ok (st, pos)
     | Some p \<Rightarrow> recover_scan io path d (pos + headerSize + length p) (st @ [pos]))"
proof (cases "pos + headerSize \<le> length d")
  case True
  define len where "len = unat (getU32 (drop pos d))"
  have hdr: "readAt d pos headerSize = Some (take headerSize (drop pos d))"
    using True by (simp add: readAt_def)
  have h4: "unat (getU32 (take 4 (take headerSize (drop pos d)))) = len"
    by (simp add: headerSize_def getU32_take len_def)
  have crc: "getU32 (drop 4 (take headerSize (drop pos d))) = getU32 (drop 4 (drop pos d))"
    by (simp add: headerSize_def drop_take getU32_take)
  have step: "recover_scan io path d pos st =
      (if len = 0 \<or> len > maxRecordSize \<or> pos + headerSize + len > length d then Ok (st, pos)
       else (let payload = take len (drop (pos + headerSize) d) in
         if \<not> checksumOK payload (getU32 (drop 4 (drop pos d))) then Ok (st, pos)
         else (case decodeRecord payload of
            Err _ \<Rightarrow> Ok (st, pos)
          | Ok _ \<Rightarrow> recover_scan io path d (pos + headerSize + len) (st @ [pos]))))"
    using assms True
    unfolding recover_scan.simps [of io path d pos st] hdr option.case Let_def h4 crc
    by (simp add: readAt_def headerSize_def)
  show ?thesis
  proof (cases "len = 0 \<or> len > maxRecordSize \<or> pos + headerSize + len > length d")
    case bad: True
    then have "intact (drop pos d) = None"
      by (auto simp: intact_def payload_ok_def len_def [symmetric] Let_def)
    with bad show ?thesis by (simp add: step)
  next
    case good: False
    then have "length (take len (drop (pos + headerSize) d)) = len" by simp linarith
    with good show ?thesis
      by (auto simp: step intact_def payload_ok_def len_def [symmetric] Let_def add.commute
          split: sum.splits)
  qed
next
  case False
  then have "intact (drop pos d) = None" by (intro intact_short) (simp add: headerSize_def)
  with False assms show ?thesis
    by (subst recover_scan.simps) (simp add: readAt_def)
qed

lemma recover_scan_frames:
  assumes "io_clean io" "pos \<le> length d"
  shows "recover_scan io path d pos st =
    Ok (st @ frame_starts pos (frames (drop pos d)), pos + length (stream (frames (drop pos d))))"
  using assms
proof (induction "drop pos d" arbitrary: pos st rule: frames.induct)
  case 1
  show ?case
  proof (cases "intact (drop pos d)")
    case None
    with 1 show ?thesis by (simp add: recover_scan_intact io_clean_def frames_None)
  next
    case (Some p)
    then have le: "pos + headerSize + length p \<le> length d"
      using \<open>pos \<le> length d\<close> by (auto simp: intact_def Let_def split: if_splits)
    have fr: "frames (drop pos d) = p # frames (drop (pos + headerSize + length p) d)"
      using Some by (subst frames.simps) (simp add: add.commute add.left_commute)
    have "drop (headerSize + length p) (drop pos d) = drop (pos + headerSize + length p) d"
      by (simp add: add.commute add.left_commute)
    note IH = "1.hyps" [OF Some this "1.prems"(1) le, of "st @ [pos]"]
    have "recover_scan io path d pos st
        = recover_scan io path d (pos + headerSize + length p) (st @ [pos])"
      using "1.prems"(1) Some
      by (subst recover_scan_intact) (simp_all add: io_clean_def)
    then show ?thesis unfolding fr IH by (simp add: add.assoc)
  qed
qed

lemma recover_clean:
  assumes "io_clean io" "fopen (seg_file s)"
  shows "\<exists>s'. recover io s = Ok s' \<and> seg_rep (frames (fdata (seg_file s))) s' \<and>
    seg_base s' = seg_base s \<and> seg_path s' = seg_path s \<and> dirty s' = dirty s"
proof -
  let ?d = "fdata (seg_file s)"
  obtain tail where d: "?d = stream (frames ?d) @ tail" using frames_prefix by blast
  then have le: "length (stream (frames ?d)) \<le> length ?d" by (metis length_append le_add1)
  have tk: "take (length (stream (frames ?d))) ?d = stream (frames ?d)"
    by (subst (2) d) simp
  have scan: "recover_scan io (seg_path s) ?d 0 []
      = Ok (frame_starts 0 (frames ?d), length (stream (frames ?d)))"
    using recover_scan_frames [OF assms(1), of 0 ?d "seg_path s" "[]"] by simp
  have whole: "\<not> length (stream (frames ?d)) < length ?d \<Longrightarrow> ?d = stream (frames ?d)"
    using le tk by simp
  show ?thesis
    using assms whole tk
    by (auto simp: recover_def scan seg_fails_def io_clean_def seg_rep_def Let_def
        file_truncate_def file_sync_def frames_ok)
qed

lemma openSegment_clean:
  assumes "io_clean io"
  shows "\<exists>s. openSegment io path b = Ok s \<and> seg_rep (frames (io_file io path)) s \<and>
    seg_base s = b \<and> seg_path s = path \<and> \<not> dirty s"
proof -
  let ?s = "\<lparr>seg_path = path,
    seg_file = \<lparr>fdata = io_file io path, fpos = 0, fsynced = 0, fopen = True\<rparr>,
    seg_base = b, starts = [], seg_bytes = 0, dirty = False\<rparr>"
  have "openSegment io path b = recover io ?s"
    using assms by (simp add: openSegment_def io_clean_def)
  then show ?thesis using recover_clean [OF assms, of ?s] by simp
qed

subsection \<open>Append, read, sync\<close>

lemma file_write_at_end:
  "fpos f = length (fdata f) \<Longrightarrow>
   file_write f bs = f\<lparr>fdata := fdata f @ bs, fpos := fpos f + length bs\<rparr>"
  by (simp add: file_write_def)

lemma seg_rep_append [rep_intros]:
  assumes "seg_rep ps s" "storable r" "\<not> io_fail io (seg_path s) IoWrite"
  shows "fst (seg_append io s r) = Ok (seg_base s + int (length ps))"
    and "seg_rep (ps @ [encode r]) (snd (seg_append io s r))"
  using assms payload_ok_encode [OF assms(2)]
  by (auto simp: seg_append_def seg_rep_def seg_fails_def storable_def file_write_at_end
      frame_starts_append Let_def)

lemma seg_append_frame [simp]:
  "seg_base (snd (seg_append io s r)) = seg_base s"
  "seg_path (snd (seg_append io s r)) = seg_path s"
  by (auto simp: seg_append_def Let_def)

lemma stream_take_drop: "i < length ps \<Longrightarrow> stream ps = stream (take i ps) @ frame (ps ! i) @ stream (drop (Suc i) ps)"
  by (metis id_take_nth_drop stream_simps(2,3))

lemma read_one_rep:
  assumes "seg_rep ps s" "i < length ps" "io_clean io"
  shows "read_one io s i (starts s ! i) = Ok (payload_record (ps ! i))"
proof -
  let ?p = "ps ! i" and ?pos = "length (stream (take i ps))"
  have ok: "payload_ok ?p" using assms by (auto simp: seg_rep_def)
  note small = payload_ok_length(2) [OF ok]
  have pos: "starts s ! i = ?pos" using assms by (simp add: seg_rep_def frame_starts_nth)
  have dr: "drop ?pos (fdata (seg_file s)) = frame ?p @ stream (drop (Suc i) ps)"
    and len: "?pos + headerSize + length ?p \<le> length (fdata (seg_file s))"
    using assms stream_take_drop [OF assms(2)] by (simp_all add: seg_rep_def)
  have "readAt (fdata (seg_file s)) ?pos headerSize
      = Some (putU32 (of_nat (length ?p)) @ putU32 (crc32c ?p))"
    using len dr by (simp add: readAt_def frame_def headerSize_def)
  moreover have "readAt (fdata (seg_file s)) (?pos + headerSize) (length ?p) = Some ?p"
    using len arg_cong [OF dr, of "drop headerSize"]
    by (simp add: readAt_def frame_def headerSize_def add.commute)
  moreover have "seg_fails io s c = False" for c
    using assms by (simp add: seg_fails_def seg_rep_def io_clean_def)
  ultimately show ?thesis
    unfolding pos read_one_def
    using small by (simp add: unat_u32_small checksumOK_def payload_ok_decode [OF ok])
qed

lemma read_loop_rep:
  assumes "seg_rep ps s" "io_clean io" "i \<le> length ps"
  shows "read_loop io s i (drop i (starts s)) out = (out @ map payload_record (drop i ps), None)"
  using assms(3)
proof (induction "length ps - i" arbitrary: i out)
  case 0
  then show ?case using assms(1) by (simp add: seg_rep_def)
next
  case (Suc k)
  then have i: "i < length ps" by simp
  then have "drop i (starts s) = starts s ! i # drop (Suc i) (starts s)"
    using assms(1) by (simp add: seg_rep_def Cons_nth_drop_Suc)
  moreover have "drop i ps = ps ! i # drop (Suc i) ps" using i by (simp add: Cons_nth_drop_Suc)
  moreover have "read_loop io s (Suc i) (drop (Suc i) (starts s)) (out @ [payload_record (ps ! i)])
      = ((out @ [payload_record (ps ! i)]) @ map payload_record (drop (Suc i) ps), None)"
    using Suc i by (intro Suc.hyps) auto
  ultimately show ?case
    using read_one_rep [OF assms(1) i assms(2)] by simp
qed

lemma readFrom_rep:
  assumes "seg_rep ps s" "io_clean io"
  shows "readFrom io s off = (map payload_record (drop (nat (off - seg_base s)) ps), None)"
proof (cases "max 0 (off - seg_base s) \<ge> int (length ps)")
  case True
  then have "length ps \<le> nat (off - seg_base s)" by linarith
  with True assms show ?thesis by (simp add: readFrom_def seg_rep_def)
next
  case False
  then have "nat (max 0 (off - seg_base s)) = nat (off - seg_base s)"
    and "nat (off - seg_base s) \<le> length ps" by linarith+
  moreover have "length (starts s) = length ps" using assms(1) by (simp add: seg_rep_def)
  ultimately show ?thesis
    using False by (simp add: readFrom_def read_loop_rep [OF assms])
qed

lemma nextOffset_rep: "seg_rep ps s \<Longrightarrow> nextOffset s = seg_base s + int (length ps)"
  by (simp add: nextOffset_def seg_rep_def)

lemma seg_size_rep: "seg_rep ps s \<Longrightarrow> seg_size s = length (stream ps)"
  by (simp add: seg_size_def seg_rep_def)

lemma seg_count_rep: "seg_rep ps s \<Longrightarrow> seg_count s = length ps"
  by (simp add: seg_count_def seg_rep_def)

lemma seg_sync_frame [simp]:
  "seg_base (snd (seg_sync io s)) = seg_base s" "seg_path (snd (seg_sync io s)) = seg_path s"
  "starts (snd (seg_sync io s)) = starts s" "seg_bytes (snd (seg_sync io s)) = seg_bytes s"
  by (auto simp: seg_sync_def)

lemma seg_sync_rep [rep_intros]: "seg_rep ps s \<Longrightarrow> seg_rep ps (snd (seg_sync io s))"
  by (auto simp: seg_sync_def seg_rep_def file_sync_def)

section \<open>Sample inputs\<close>

text \<open>An operating system that never fails over empty files, and a segment that holds no record or
  the sample one.\<close>

definition io_ok :: io where
  "io_ok = \<lparr>io_fail = \<lambda>_ _. False, io_short = 0, io_file = \<lambda>_. []\<rparr>"

lemma io_clean_io_ok [simp]: "io_clean io_ok" "io_clean (io_ok\<lparr>io_file := f\<rparr>)"
  by (simp_all add: io_ok_def io_clean_def)

definition empty_segment :: "string \<Rightarrow> int \<Rightarrow> segment" where
  "empty_segment path b =
     \<lparr>seg_path = path, seg_file = \<lparr>fdata = [], fpos = 0, fsynced = 0, fopen = True\<rparr>,
      seg_base = b, starts = [], seg_bytes = 0, dirty = False\<rparr>"

definition sample_segment :: segment where
  "sample_segment = snd (seg_append io_ok (empty_segment ''t/0.seg'' 0) sample_record)"

lemma payload_ok_sample [simp]: "payload_ok (encode sample_record)"
  using payload_ok_encode [of sample_record] by simp

lemma io_ok_calls [simp]: "io_fail io_ok path c = False" "io_fail (io_ok\<lparr>io_file := f\<rparr>) path c = False"
  by (simp_all add: io_ok_def)

lemma empty_segment_rep [simp]:
  "seg_rep [] (empty_segment path b)" "seg_base (empty_segment path b) = b"
  "seg_path (empty_segment path b) = path"
  by (simp_all add: seg_rep_def empty_segment_def)

lemma sample_segment_rep [simp]: "seg_rep [encode sample_record] sample_segment" "seg_base sample_segment = 0"
  using seg_rep_append [OF empty_segment_rep(1) storable_sample(1), of io_ok "''t/0.seg''" 0]
  by (simp_all add: sample_segment_def)

lemma sample_segment_simps [simp]:
  "fdata (seg_file sample_segment) = frame (encode sample_record)"
  "fopen (seg_file sample_segment)" "fsynced (seg_file sample_segment) = 0"
  using sample_segment_rep by (simp_all add: seg_rep_def)
    (simp add: sample_segment_def seg_append_def seg_fails_def empty_segment_def file_write_def maxRecordSize_def)

section \<open>Properties\<close>

text \<open>C1: crash safety of a segment. Whatever prefix of the written bytes survives a crash, as long
  as it contains everything that was synced, reopening the file succeeds and the segment then holds
  exactly a prefix of the appended payloads, which includes every one that lies wholly within the
  synced bytes; reading from the base returns exactly those records.\<close>

theorem crash_recovers_prefix:
  assumes "seg_rep ps s" "fsynced (seg_file s) \<le> n" "io_clean io"
    and "io_file io path = take n (fdata (seg_file s))"
  shows "\<exists>s' k. openSegment io path (seg_base s) = Ok s' \<and> seg_rep (take k ps) s' \<and>
    readFrom io s' (seg_base s) = (map payload_record (take k ps), None) \<and>
    (\<forall>m. m \<le> length ps \<and> length (stream (take m ps)) \<le> fsynced (seg_file s) \<longrightarrow> m \<le> k)"
proof -
  obtain s' where s': "openSegment io path (seg_base s) = Ok s'" "seg_base s' = seg_base s"
    "seg_rep (frames (take n (stream ps))) s'"
    using openSegment_clean [OF assms(3), of path "seg_base s"] assms(1,4) by (auto simp: seg_rep_def)
  have fr: "frames (take n (stream ps)) = take (whole n ps) ps"
    using assms(1) by (intro frames_take_stream) (simp add: seg_rep_def)
  have "m \<le> whole n ps" if "m \<le> length ps" "length (stream (take m ps)) \<le> fsynced (seg_file s)" for m
    using that assms(2) by (intro whole_ge) auto
  then show ?thesis
    using s' readFrom_rep [OF s'(3) assms(3), of "seg_base s"]
    by (intro exI [of _ s'] exI [of _ "whole n ps"]) (simp add: fr)
qed

theorem crash_recovers_prefix_witness:
  "\<exists>s' k. openSegment (io_ok\<lparr>io_file := \<lambda>_. take 20 (frame (encode sample_record))\<rparr>) ''t/0.seg'' 0 = Ok s' \<and>
    seg_rep (take k [encode sample_record]) s'"
  using crash_recovers_prefix [of "[encode sample_record]" sample_segment 20
      "io_ok\<lparr>io_file := \<lambda>_. take 20 (frame (encode sample_record))\<rparr>" "''t/0.seg''"]
  by auto

text \<open>Opening is total and self-consistent. Whatever bytes a file holds, opening it without I/O
  errors yields a segment whose contents are the longest run of intact frames at the start of the
  file; every indexed record can be read back without error, and reopening the truncated file
  gives the same contents again.\<close>

theorem open_any_file:
  assumes "io_clean io"
  shows "\<exists>s. openSegment io path b = Ok s \<and> seg_rep (frames (io_file io path)) s \<and>
    readFrom io s b = (map payload_record (frames (io_file io path)), None) \<and>
    frames (fdata (seg_file s)) = frames (io_file io path)"
proof -
  obtain s where s: "openSegment io path b = Ok s" "seg_rep (frames (io_file io path)) s" "seg_base s = b"
    using openSegment_clean [OF assms] by blast
  have "frames (stream (frames d) @ []) = frames d @ frames []" for d
    using frames_ok by (intro frames_stream) blast
  then have "frames (stream (frames d)) = frames d" for d
    by (simp add: frames_None intact_def headerSize_def)
  then show ?thesis
    using s readFrom_rep [OF s(2) assms, of b] by (auto simp: seg_rep_def)
qed

theorem open_any_file_witness:
  "\<exists>s. openSegment io_ok ''t/0.seg'' 7 = Ok s \<and> seg_rep (frames (io_file io_ok ''t/0.seg'')) s"
  using open_any_file [of io_ok "''t/0.seg''" 7] by auto

text \<open>A payload damaged in one byte after it was written is never delivered: recovery keeps
  exactly the records before it.\<close>

theorem damaged_payload_ends_segment:
  assumes "\<forall>p \<in> set ps. payload_ok p" "payload_ok (xs @ x # ys)" "y \<noteq> x"
    and "io_clean io"
    and "io_file io path =
      stream ps @ putU32 (of_nat (length (xs @ x # ys))) @ putU32 (crc32c (xs @ x # ys)) @
      (xs @ y # ys) @ rest"
  shows "\<exists>s. openSegment io path b = Ok s \<and> seg_rep ps s"
proof -
  let ?p = "xs @ x # ys" and ?q = "xs @ y # ys"
  let ?bad = "putU32 (of_nat (length ?p)) @ putU32 (crc32c ?p) @ ?q @ rest"
  have "unat (getU32 ?bad) = length ?p"
    unfolding getU32_putU32_append by (rule unat_u32_small [OF payload_ok_length(2) [OF assms(2)]])
  then have len: "unat (getU32 ?bad) = length ?q" by simp
  have "crc32c ?q \<noteq> crc32c ?p" using assms(3) by (rule crc32c_detects_one_byte)
  moreover have "take (length ?q) (drop headerSize ?bad) = ?q" "getU32 (drop 4 ?bad) = crc32c ?p"
    by (simp_all add: headerSize_def)
  ultimately have "intact ?bad = None"
    unfolding intact_def len by (simp add: checksumOK_def Let_def)
  then have "frames (stream ps @ ?bad) = ps"
    using frames_stream [OF assms(1), of ?bad] by (simp add: frames_None)
  then show ?thesis
    using openSegment_clean [OF assms(4), of path b] assms(5) by auto
qed

theorem damaged_payload_ends_segment_witness:
  "\<exists>s. openSegment (io_ok\<lparr>io_file := \<lambda>_. putU32 33 @ putU32 (crc32c (encode sample_record)) @
      (hd (encode sample_record) + 1) # tl (encode sample_record)\<rparr>) ''t/0.seg'' 0 = Ok s \<and> seg_rep [] s"
proof -
  have e: "[] @ hd (encode sample_record) # tl (encode sample_record) = encode sample_record"
    by (metis append_Nil encode_length_ge hd_Cons_tl length_greater_0_conv less_le_trans zero_less_numeral)
  show ?thesis
    using damaged_payload_ends_segment [of "[]" "[]" "hd (encode sample_record)" "tl (encode sample_record)"
        "hd (encode sample_record) + 1" "io_ok\<lparr>io_file := \<lambda>_. putU32 33 @ putU32 (crc32c (encode sample_record)) @
        (hd (encode sample_record) + 1) # tl (encode sample_record)\<rparr>" "''t/0.seg''" "[]" 0]
    unfolding e by simp
qed

text \<open>A successful append followed by a successful sync puts every byte of the segment,
  including the new record, on stable storage.\<close>

theorem append_sync_durable:
  assumes "seg_rep ps s" "storable r"
    and "seg_append io s r = (Ok off, s1)" "seg_sync io s1 = (Ok (), s2)"
  shows "off = seg_base s + int (length ps) \<and> seg_rep (ps @ [encode r]) s2 \<and>
    fsynced (seg_file s2) = length (fdata (seg_file s2)) \<and> \<not> dirty s2"
proof -
  have nf: "\<not> io_fail io (seg_path s) IoWrite"
    using assms(1,3) by (auto simp: seg_append_def seg_fails_def Let_def split: if_splits)
  have d: "dirty s1"
    using assms(3) by (auto simp: seg_append_def Let_def split: if_splits)
  have "seg_rep (ps @ [encode r]) s1" "off = seg_base s + int (length ps)"
    using seg_rep_append [OF assms(1,2) nf] assms(3) by simp_all
  with d assms(4) show ?thesis
    using seg_sync_rep [of "ps @ [encode r]" s1 io]
    by (auto simp: seg_sync_def file_sync_def split: if_splits)
qed

theorem append_sync_durable_witness:
  "let s1 = snd (seg_append io_ok sample_segment sample_record); s2 = snd (seg_sync io_ok s1)
   in seg_rep [encode sample_record, encode sample_record] s2 \<and>
      fsynced (seg_file s2) = length (fdata (seg_file s2))"
proof -
  let ?s1 = "snd (seg_append io_ok sample_segment sample_record)" and ?s2 = "snd (seg_sync io_ok
    (snd (seg_append io_ok sample_segment sample_record)))"
  have a: "seg_append io_ok sample_segment sample_record = (Ok 1, ?s1)"
    using seg_rep_append(1) [OF sample_segment_rep(1) storable_sample(1), of io_ok] by (simp add: prod_eq_iff)
  have s: "seg_sync io_ok ?s1 = (Ok (), ?s2)"
    using seg_rep_append(2) [OF sample_segment_rep(1) storable_sample(1), of io_ok]
    by (simp add: seg_sync_def seg_fails_def seg_rep_def)
  show ?thesis
    using append_sync_durable [OF sample_segment_rep(1) storable_sample(1) a s] by simp
qed

text \<open>A read error during recovery destroys intact records. When reading one payload fails
  (an error other than end-of-file) recovery stops there exactly as it does at a torn record, and
  truncates the file, so every record from that one on is deleted although it was written whole.\<close>

theorem payload_read_error_truncates:
  assumes "\<forall>p \<in> set (ps @ q # qs). payload_ok p"
    and "fdata (seg_file s) = stream (ps @ q # qs)" "fopen (seg_file s)"
    and "io_fail io = (\<lambda>path c. c = IoReadPayload (length (stream ps)))"
  shows "\<exists>s'. recover io s = Ok s' \<and> fdata (seg_file s') = stream ps \<and> starts s' = frame_starts 0 ps"
proof -
  let ?d = "stream (ps @ q # qs)" and ?io = "io\<lparr>io_fail := \<lambda>_ _. False\<rparr>"
  have scan: "recover_scan io path ?d pos st = Ok (st @ frame_starts pos (drop i ps), length (stream ps))"
    if "pos = length (stream (take i ps))" "i \<le> length ps" for path pos st i
    using that
  proof (induction "length ps - i" arbitrary: i pos st)
    case 0
    then have pos: "pos = length (stream ps)" by simp
    show ?case
      using 0 assms(1,4) payload_ok_length [of q] frame_header [of q "stream qs"]
      unfolding pos
      by (subst recover_scan.simps)
        (auto simp: readAt_def headerSize_def getU32_take Let_def frame_def unat_u32_small)
  next
    case (Suc k)
    then have i: "i < length ps" by simp
    have "drop pos ?d = frame (ps ! i) @ stream (drop (Suc i) ps @ q # qs)"
      using Suc.prems stream_take_drop [OF i] by simp
    then have "intact (drop pos ?d) = Some (ps ! i)"
      using assms(1) i by (simp add: intact_frame)
    moreover have "pos + headerSize + length (ps ! i) = length (stream (take (Suc i) ps))"
      using Suc.prems i by (simp add: take_Suc_conv_app_nth)
    moreover have "pos \<noteq> length (stream ps)"
      using Suc.prems stream_take_drop [OF i] by (simp add: headerSize_def)
    moreover have "drop i ps = ps ! i # drop (Suc i) ps" using i by (simp add: Cons_nth_drop_Suc)
    ultimately show ?case
      using Suc i assms(4) by (subst recover_scan_intact) (simp_all add: add.assoc)
  qed
  have "length (stream ps) < length ?d" by (simp add: headerSize_def)
  then show ?thesis
    using scan [of 0 0 "seg_path s" "[]"] assms(2-4)
    by (simp add: recover_def seg_fails_def Let_def file_truncate_def file_sync_def)
qed

theorem payload_read_error_truncates_witness:
  "\<exists>s'. recover (io_ok\<lparr>io_fail := \<lambda>path c. c = IoReadPayload 0\<rparr>) sample_segment = Ok s' \<and>
    fdata (seg_file s') = [] \<and> starts s' = []"
  using payload_read_error_truncates [of "[]" "encode sample_record" "[]" sample_segment
      "io_ok\<lparr>io_fail := \<lambda>path c. c = IoReadPayload 0\<rparr>"]
  by simp

text \<open>An acknowledged record is lost after an earlier failed append. When a write stops after
  \<open>k\<close> bytes (at least the header) the partial frame stays in the file and later records are
  appended behind it. They are acknowledged and can be read while the process lives, but on the
  next open the torn frame ends the scan: the acknowledged record is truncated away.\<close>

theorem short_write_loses_acknowledged:
  assumes "seg_rep ps s" "storable r1" "storable r2"
    and "io_fail io (seg_path s) IoWrite" "headerSize \<le> io_short io"
    and "io_short io + length (frame (encode r2)) < length (frame (encode r1))"
    and "seg_append io s r1 = (res, s1)" "io_clean io'" "io_clean io''"
    and "io_file io'' path = fdata (seg_file (snd (seg_append io' s1 r2)))"
  shows "res = Err SegAppend \<and> fst (seg_append io' s1 r2) = Ok (seg_base s + int (length ps)) \<and>
    (\<exists>s3. openSegment io'' path (seg_base s) = Ok s3 \<and> seg_rep ps s3)"
proof -
  let ?k = "io_short io" and ?f1 = "frame (encode r1)" and ?f2 = "frame (encode r2)"
  have k: "min ?k (length ?f1) = ?k" "0 < ?k" using assms(5,6) by (auto simp: headerSize_def)
  have s1: "res = Err SegAppend" "fdata (seg_file s1) = stream ps @ take ?k ?f1"
    "fpos (seg_file s1) = length (fdata (seg_file s1))" "starts s1 = starts s" "fopen (seg_file s1)"
    "seg_base s1 = seg_base s"
    using assms(1-7) k by (auto simp: seg_append_def seg_rep_def seg_fails_def storable_def Let_def file_write_def)
  have app: "fst (seg_append io' s1 r2) = Ok (seg_base s + int (length ps))"
    "fdata (seg_file (snd (seg_append io' s1 r2))) = stream ps @ take ?k ?f1 @ ?f2"
    using assms(1,3,8) s1
    by (auto simp: seg_append_def seg_fails_def io_clean_def storable_def Let_def file_write_at_end seg_rep_def)
  have "length (encode r1) < 2 ^ 32" using payload_ok_length [of "encode r1"] payload_ok_encode [OF assms(2)] by simp
  then have "intact (take ?k ?f1 @ ?f2) = None"
    using assms(5,6) by (intro intact_past_end [OF refl, of ?k "encode r1"]) auto
  then have "frames (io_file io'' path) = ps"
    using assms(1,10) frames_stream [of ps "take ?k ?f1 @ ?f2"] by (simp add: app(2) seg_rep_def frames_None)
  then show ?thesis
    using openSegment_clean [OF assms(9), of path "seg_base s"] s1(1) app(1) by auto
qed

theorem short_write_loses_acknowledged_witness:
  "\<exists>s1 s3. seg_append (io_ok\<lparr>io_fail := \<lambda>_ c. c = IoWrite, io_short := 10\<rparr>) (empty_segment ''t/0.seg'' 0)
      (sample_record\<lparr>Value := replicate 100 0\<rparr>) = (Err SegAppend, s1) \<and>
    fst (seg_append io_ok s1 sample_record) = Ok 0 \<and>
    openSegment (io_ok\<lparr>io_file := \<lambda>_. fdata (seg_file (snd (seg_append io_ok s1 sample_record)))\<rparr>) ''t/0.seg'' 0
      = Ok s3 \<and> seg_rep [] s3"
proof -
  let ?io = "io_ok\<lparr>io_fail := \<lambda>_ c. c = IoWrite, io_short := 10\<rparr>"
  let ?big = "sample_record\<lparr>Value := replicate 100 0\<rparr>" and ?s = "empty_segment ''t/0.seg'' 0"
  let ?s1 = "snd (seg_append ?io ?s ?big)"
  have big: "storable ?big" "length (encode ?big) = 131"
    by (simp_all add: storable_def sample_record_def encode_def maxRecordSize_def)
  show ?thesis
    using short_write_loses_acknowledged [OF empty_segment_rep(1) big(1) storable_sample(1), where io = ?io
        and path = "''t/0.seg''" and io' = io_ok and res = "fst (seg_append ?io ?s ?big)" and ?s1.0 = ?s1
        and io'' = "io_ok\<lparr>io_file := \<lambda>_. fdata (seg_file (snd (seg_append io_ok ?s1 sample_record)))\<rparr>"]
      big(2) prod.collapse [of "seg_append ?io ?s ?big"]
    by (auto simp: headerSize_def prod_eq_iff)
qed

end
