(* ===== verification/Wal_Log.thy ===== *)
theory Wal_Log
  imports Wal_Segment
begin

text \<open>
  The per-topic log over its segments, \<open>src/shared/bus/wal/log.go\<close>: opening a directory,
  appending with rotation and a size bound, waiting for space, reclaiming consumed segments,
  reading across segment boundaries, syncing and closing. Each operation holds the log's mutex
  for its whole body, so an operation is one atomic state change.
\<close>

section \<open>Options\<close>

text \<open>Durations are nanoseconds.\<close>

record Options =
  SegmentBytes :: int
  SyncInterval :: int
  MaxBytes :: int
  FullTimeout :: int

definition DefaultSegmentBytes :: int where "DefaultSegmentBytes = 67108864"
definition DefaultSyncInterval :: int where "DefaultSyncInterval = 100000000"
definition DefaultFullTimeout :: int where "DefaultFullTimeout = 2000000000"

definition segmentSuffix :: string where "segmentSuffix = ''.seg''"
definition offsetDigits :: nat where "offsetDigits = 20"

definition fullTimeout :: "Options \<Rightarrow> int" where
  "fullTimeout opts = (if FullTimeout opts \<noteq> 0 then FullTimeout opts else DefaultFullTimeout)"

definition segmentBytes :: "Options \<Rightarrow> int" where
  "segmentBytes opts = (if SegmentBytes opts > 0 then SegmentBytes opts else DefaultSegmentBytes)"

section \<open>State\<close>

text \<open>\<open>sync_every\<close> is the period of the background goroutine that calls \<open>Sync\<close>, when it runs.\<close>

record Log =
  log_dir :: string
  log_opts :: Options
  segments :: "segment list"
  sync_every :: "int option"
  log_closed :: bool

datatype log_error =
    LogClosed | AtCapacity | LogFull | LogSegment seg_error | LogMkdir | LogReadDir | LogRemove string
  | UnrecognisedSegment string | LogPanic

definition lift_seg :: "seg_error + 'a \<Rightarrow> log_error + 'a" where
  "lift_seg r = (case r of Err e \<Rightarrow> Err (LogSegment e) | Ok x \<Rightarrow> Ok x)"

section \<open>Segment files of a directory\<close>

definition pad20 :: "string \<Rightarrow> string" where
  "pad20 s = replicate (offsetDigits - length s) CHR ''0'' @ s"

text \<open>\<open>fmt.Sprintf("%0*d", 20, base)\<close>: zeros go between the sign and the digits.\<close>

definition format_base :: "int \<Rightarrow> string" where
  "format_base b =
     (if b < 0 then CHR ''-'' # replicate (offsetDigits - Suc (length (format_nat (nat (- b))))) CHR ''0''
                       @ format_nat (nat (- b))
      else pad20 (format_nat (nat b)))"

definition segmentName :: "int \<Rightarrow> string" where
  "segmentName b = format_base b @ segmentSuffix"

definition segmentPath :: "string \<Rightarrow> int \<Rightarrow> string" where
  "segmentPath dir b = dir @ ''/'' @ segmentName b"

definition has_suffix :: "string \<Rightarrow> string \<Rightarrow> bool" where
  "has_suffix suf s \<longleftrightarrow> length suf \<le> length s \<and> drop (length s - length suf) s = suf"

text \<open>The loop over the directory entries, each a name and whether it is a directory.\<close>

fun collect_bases :: "(string \<times> bool) list \<Rightarrow> int list \<Rightarrow> log_error + int list" where
  "collect_bases [] bases = Ok bases"
| "collect_bases ((name, isDir) # es) bases =
     (if isDir \<or> \<not> has_suffix segmentSuffix name then collect_bases es bases
      else case parse_int64 (take (length name - length segmentSuffix) name) of
          None \<Rightarrow> Err (UnrecognisedSegment name)
        | Some b \<Rightarrow> collect_bases es (bases @ [b]))"

definition existingSegmentBases ::
  "io \<Rightarrow> string \<Rightarrow> (string \<times> bool) list \<Rightarrow> log_error + int list" where
  "existingSegmentBases io dir entries =
     (if io_fail io dir IoReadDir then Err LogReadDir
      else case collect_bases entries [] of Err e \<Rightarrow> Err e | Ok bases \<Rightarrow> Ok (sort bases))"

section \<open>Closing and opening\<close>

fun closeSegments :: "io \<Rightarrow> segment list \<Rightarrow> seg_error option \<Rightarrow> seg_error option \<times> segment list" where
  "closeSegments io [] firstErr = (firstErr, [])"
| "closeSegments io (s # ss) firstErr =
     (let (r, s') = seg_Close io s;
          firstErr' = (case r of Err e \<Rightarrow> (if firstErr = None then Some e else firstErr) | Ok _ \<Rightarrow> firstErr);
          (res, ss') = closeSegments io ss firstErr'
      in (res, s' # ss'))"

fun open_segments :: "io \<Rightarrow> string \<Rightarrow> int list \<Rightarrow> segment list \<Rightarrow> log_error + segment list" where
  "open_segments io dir [] acc = Ok acc"
| "open_segments io dir (b # bs) acc =
     (case openSegment io (segmentPath dir b) b of
        Err e \<Rightarrow> Err (LogSegment e)
      | Ok s \<Rightarrow> open_segments io dir bs (acc @ [s]))"

text \<open>\<open>dropTrailingEmptyDuplicates\<close> works from the end, so its loop runs over the reversed list;
  failures of the close and the removal are ignored.\<close>

fun drop_trailing :: "segment list \<Rightarrow> segment list" where
  "drop_trailing (s # prev # rest) =
     (if seg_count s \<noteq> 0 \<or> seg_base s \<noteq> nextOffset prev then s # prev # rest
      else drop_trailing (prev # rest))"
| "drop_trailing ss = ss"

definition dropTrailingEmptyDuplicates :: "segment list \<Rightarrow> segment list" where
  "dropTrailingEmptyDuplicates ss = rev (drop_trailing (rev ss))"

definition syncLoop :: "Options \<Rightarrow> int option" where
  "syncLoop opts =
     (if SyncInterval opts \<ge> 0
      then Some (if SyncInterval opts = 0 then DefaultSyncInterval else SyncInterval opts)
      else None)"

definition log_Open :: "io \<Rightarrow> (string \<times> bool) list \<Rightarrow> string \<Rightarrow> Options \<Rightarrow> log_error + Log" where
  "log_Open io entries dir opts =
     (if io_fail io dir IoMkdir then Err LogMkdir
      else case existingSegmentBases io dir entries of
          Err e \<Rightarrow> Err e
        | Ok bases \<Rightarrow>
            (case open_segments io dir (if bases = [] then [0] else bases) [] of
               Err e \<Rightarrow> Err e
             | Ok ss \<Rightarrow> Ok \<lparr>log_dir = dir, log_opts = opts,
                           segments = dropTrailingEmptyDuplicates ss,
                           sync_every = syncLoop opts, log_closed = False\<rparr>))"

section \<open>Appending\<close>

definition totalBytes :: "Log \<Rightarrow> int" where
  "totalBytes l = (\<Sum>s\<leftarrow>segments l. int (seg_size s))"

definition rotate :: "io \<Rightarrow> Log \<Rightarrow> (log_error + unit) \<times> Log" where
  "rotate io l =
     (if segments l = [] then (Err LogPanic, l)
      else let (r, active) = seg_sync io (last (segments l));
               l1 = l\<lparr>segments := butlast (segments l) @ [active]\<rparr>
           in case r of
               Err e \<Rightarrow> (Err (LogSegment e), l1)
             | Ok _ \<Rightarrow>
                 (let b = nextOffset active in
                  case openSegment io (segmentPath (log_dir l) b) b of
                    Err e \<Rightarrow> (Err (LogSegment e), l1)
                  | Ok s \<Rightarrow> (Ok (), l1\<lparr>segments := segments l1 @ [s]\<rparr>)))"

definition append_active :: "io \<Rightarrow> Log \<Rightarrow> Record \<Rightarrow> (log_error + int) \<times> Log" where
  "append_active io l r =
     (let (res, s) = seg_append io (last (segments l)) r
      in (lift_seg res, l\<lparr>segments := butlast (segments l) @ [s]\<rparr>))"

definition log_Append :: "io \<Rightarrow> Log \<Rightarrow> Record \<Rightarrow> (log_error + int) \<times> Log" where
  "log_Append io l r =
     (if log_closed l then (Err LogClosed, l)
      else if MaxBytes (log_opts l) > 0 \<and> totalBytes l \<ge> MaxBytes (log_opts l) then (Err AtCapacity, l)
      else if segments l = [] then (Err LogPanic, l)
      else let active = last (segments l) in
        if int (seg_size active) \<ge> segmentBytes (log_opts l) \<and> seg_count active > 0 then
          (case rotate io l of
             (Err e, l1) \<Rightarrow> (Err e, l1)
           | (Ok _, l1) \<Rightarrow> append_active io l1 r)
        else append_active io l r)"

text \<open>The waiting loop of \<open>AppendWithBackpressure\<close>. Each round is one attempt: the effect other
  goroutines had on the log while this one slept, and the time read after a refused attempt. A
  finite list of rounds that ends while the loop is still waiting yields \<open>None\<close>.\<close>

fun append_rounds ::
  "io \<Rightarrow> int \<Rightarrow> Log \<Rightarrow> Record \<Rightarrow> ((Log \<Rightarrow> Log) \<times> int) list \<Rightarrow> ((log_error + int) \<times> Log) option" where
  "append_rounds io deadline l r [] = None"
| "append_rounds io deadline l r ((others, now) # rounds) =
     (let (res, l') = log_Append io (others l) r in
      if res \<noteq> Err AtCapacity then Some (res, l')
      else if FullTimeout (log_opts l') < 0 \<or> \<not> now < deadline then Some (Err LogFull, l')
      else append_rounds io deadline l' r rounds)"

definition AppendWithBackpressure ::
  "io \<Rightarrow> int \<Rightarrow> Log \<Rightarrow> Record \<Rightarrow> ((Log \<Rightarrow> Log) \<times> int) list \<Rightarrow> ((log_error + int) \<times> Log) option" where
  "AppendWithBackpressure io now l r rounds =
     append_rounds io (now + fullTimeout (log_opts l)) l r rounds"

section \<open>Reclaiming, reading, syncing, closing\<close>

fun reclaim_loop ::
  "io \<Rightarrow> int \<Rightarrow> int \<Rightarrow> segment list \<Rightarrow> (int \<times> log_error option) \<times> segment list" where
  "reclaim_loop io upTo freed (oldest # nxt # rest) =
     (if nextOffset oldest > upTo then ((freed, None), oldest # nxt # rest)
      else let size = int (seg_size oldest) in
        case seg_Close io oldest of
          (Err e, oldest') \<Rightarrow> ((freed, Some (LogSegment e)), oldest' # nxt # rest)
        | (Ok _, oldest') \<Rightarrow>
            (if io_fail io (seg_path oldest) IoRemove
             then ((freed, Some (LogRemove (seg_path oldest))), oldest' # nxt # rest)
             else reclaim_loop io upTo (freed + size) (nxt # rest)))"
| "reclaim_loop io upTo freed ss = ((freed, None), ss)"

definition Reclaim :: "io \<Rightarrow> Log \<Rightarrow> int \<Rightarrow> (int \<times> log_error option) \<times> Log" where
  "Reclaim io l upTo =
     (let (res, ss) = reclaim_loop io upTo 0 (segments l) in (res, l\<lparr>segments := ss\<rparr>))"

definition OldestOffset :: "Log \<Rightarrow> int" where
  "OldestOffset l = (case segments l of [] \<Rightarrow> 0 | s # _ \<Rightarrow> seg_base s)"

text \<open>\<open>None\<close> is the out-of-range panic on a log without segments.\<close>

definition NextOffset :: "Log \<Rightarrow> int option" where
  "NextOffset l = (if segments l = [] then None else Some (nextOffset (last (segments l))))"

fun read_segments ::
  "io \<Rightarrow> int \<Rightarrow> segment list \<Rightarrow> Record list \<Rightarrow> Record list \<times> seg_error option" where
  "read_segments io off [] out = (out, None)"
| "read_segments io off (s # ss) out =
     (if nextOffset s \<le> off then read_segments io off ss out
      else case readFrom io s off of
          (recs, Some e) \<Rightarrow> (out @ recs, Some e)
        | (recs, None) \<Rightarrow> read_segments io off ss (out @ recs))"

definition log_ReadFrom :: "io \<Rightarrow> Log \<Rightarrow> int \<Rightarrow> Record list \<times> seg_error option" where
  "log_ReadFrom io l off = read_segments io off (segments l) []"

definition log_Sync :: "io \<Rightarrow> Log \<Rightarrow> (log_error + unit) \<times> Log" where
  "log_Sync io l =
     (if log_closed l \<or> segments l = [] then (Ok (), l)
      else let (r, s) = seg_sync io (last (segments l))
           in (lift_seg r, l\<lparr>segments := butlast (segments l) @ [s]\<rparr>))"

definition Segments :: "Log \<Rightarrow> nat" where
  "Segments l = length (segments l)"

definition log_Close :: "io \<Rightarrow> Log \<Rightarrow> (log_error + unit) \<times> Log" where
  "log_Close io l =
     (if log_closed l then (Ok (), l)
      else let (e, ss) = closeSegments io (segments l) None
           in (case e of None \<Rightarrow> Ok () | Some x \<Rightarrow> Err (LogSegment x),
               l\<lparr>log_closed := True, sync_every := None, segments := ss\<rparr>))"

section \<open>The log as a sequence of payloads\<close>

text \<open>Adjacent segments hold adjacent runs of offsets.\<close>

fun contiguous :: "segment list \<Rightarrow> bool" where
  "contiguous (s # t # ss) = (seg_base t = nextOffset s \<and> contiguous (t # ss))"
| "contiguous ss = True"

definition log_rep :: "bytes list list \<Rightarrow> Log \<Rightarrow> bool" where
  "log_rep pss l \<longleftrightarrow>
     segments l \<noteq> [] \<and> list_all2 seg_rep pss (segments l) \<and> contiguous (segments l) \<and>
     [] \<notin> set (butlast pss)"

text \<open>What the files hold, computed from them, and the invariant it satisfies.\<close>

definition log_payloads :: "Log \<Rightarrow> bytes list" where
  "log_payloads l = concat (map (\<lambda>s. frames (fdata (seg_file s))) (segments l))"

definition log_inv :: "Log \<Rightarrow> bool" where
  "log_inv l \<longleftrightarrow> log_rep (map (\<lambda>s. frames (fdata (seg_file s))) (segments l)) l"

lemma seg_rep_frames: "seg_rep ps s \<Longrightarrow> frames (fdata (seg_file s)) = ps"
  using frames_stream [of ps "[]"] by (simp add: seg_rep_def frames_None intact_short headerSize_def)

lemma list_all2_frames:
  "list_all2 seg_rep pss ss \<Longrightarrow> map (\<lambda>s. frames (fdata (seg_file s))) ss = pss"
  by (induction rule: list_all2_induct) (auto simp: seg_rep_frames)

lemma log_rep_inv: "log_rep pss l \<Longrightarrow> log_inv l \<and> log_payloads l = concat pss"
  by (auto simp: log_rep_def log_inv_def log_payloads_def list_all2_frames)

lemma log_inv_rep: "log_inv l \<Longrightarrow> \<exists>pss. log_rep pss l \<and> log_payloads l = concat pss"
  using log_rep_inv by (auto simp: log_inv_def)

lemma list_pair_induct [case_names Pair Empty Single]:
  "\<lbrakk>\<And>s t ss. P (t # ss) \<Longrightarrow> P (s # t # ss); P []; \<And>s. P [s]\<rbrakk> \<Longrightarrow> P ss"
  by (rule induct_list012)

lemma contiguous_snoc:
  "contiguous (ss @ [s]) \<longleftrightarrow> contiguous ss \<and> (ss \<noteq> [] \<longrightarrow> seg_base s = nextOffset (last ss))"
  by (induction ss rule: list_pair_induct) auto

lemma contiguous_replace_last:
  assumes "contiguous ss" "ss \<noteq> []" "seg_base s = seg_base (last ss)"
  shows "contiguous (butlast ss @ [s])"
  using assms contiguous_snoc [of "butlast ss" "last ss"] contiguous_snoc [of "butlast ss" s]
  by (auto simp: append_butlast_last_id)

lemma contiguous_tl: "contiguous (s # ss) \<Longrightarrow> contiguous ss"
  by (cases ss) auto

lemma contiguous_drop: "contiguous ss \<Longrightarrow> contiguous (drop m ss)"
proof (induction m arbitrary: ss)
  case (Suc m)
  then show ?case by (cases ss) (auto dest: contiguous_tl)
qed simp

lemma contiguous_take: "contiguous ss \<Longrightarrow> contiguous (take m ss)"
proof (induction ss arbitrary: m rule: list_pair_induct)
  case (Pair s t ss)
  show ?case
  proof (cases m)
    case (Suc k)
    then show ?thesis using Pair.prems Pair.IH [of k] by (cases k) auto
  qed simp
next
  case (Single s)
  then show ?case by (cases m) auto
qed auto

lemma nextOffset_last:
  "\<lbrakk>list_all2 seg_rep pss ss; contiguous ss; ss \<noteq> []\<rbrakk> \<Longrightarrow>
   nextOffset (last ss) = seg_base (hd ss) + int (length (concat pss))"
proof (induction ss arbitrary: pss rule: list_pair_induct)
  case (Pair s t ss)
  then obtain ps qss where pss: "pss = ps # qss" "seg_rep ps s" "list_all2 seg_rep qss (t # ss)"
    by (auto simp: list_all2_Cons2)
  with Pair have "nextOffset (last (t # ss)) = seg_base t + int (length (concat qss))" by simp
  with Pair pss nextOffset_rep [of ps s] show ?case by simp
next
  case (Single s)
  then show ?case by (auto simp: list_all2_Cons2 nextOffset_rep)
qed auto

lemma NextOffset_rep:
  "log_rep pss l \<Longrightarrow> NextOffset l = Some (OldestOffset l + int (length (concat pss)))"
  using nextOffset_last [of pss "segments l"]
  by (auto simp: log_rep_def NextOffset_def OldestOffset_def hd_conv_nth split: list.splits)

lemma read_segments_rep:
  "\<lbrakk>io_clean io; list_all2 seg_rep pss ss; contiguous ss; ss \<noteq> []\<rbrakk> \<Longrightarrow>
   read_segments io off ss out =
     (out @ map payload_record (drop (nat (off - seg_base (hd ss))) (concat pss)), None)"
proof (induction ss arbitrary: pss out rule: list_pair_induct)
  case (Pair s t ss)
  then obtain ps qss where pss: "pss = ps # qss" "seg_rep ps s" "list_all2 seg_rep qss (t # ss)"
    by (auto simp: list_all2_Cons2)
  have base: "seg_base t = seg_base s + int (length ps)"
    using Pair pss nextOffset_rep [of ps s] by simp
  have IH: "read_segments io off (t # ss) out' =
      (out' @ map payload_record (drop (nat (off - seg_base t)) (concat qss)), None)" for out'
    using Pair pss by simp
  show ?case
  proof (cases "nextOffset s \<le> off")
    case True
    then have "nat (off - seg_base t) = nat (off - seg_base s) - length ps"
      and "length ps \<le> nat (off - seg_base s)"
      using base nextOffset_rep [OF pss(2)] by linarith+
    with True pss(1) show ?thesis
      using IH [of out] by (simp add: pss(1))
  next
    case False
    then have "nat (off - seg_base t) = 0" "nat (off - seg_base s) \<le> length ps"
      using base nextOffset_rep [OF pss(2)] by linarith+
    with False show ?thesis
      using IH readFrom_rep [OF pss(2) Pair.prems(1), of off] by (simp add: pss(1))
  qed
next
  case (Single s)
  then obtain ps where ps: "pss = [ps]" "seg_rep ps s" by (auto simp: list_all2_Cons2)
  show ?case
  proof (cases "nextOffset s \<le> off")
    case True
    then have "length ps \<le> nat (off - seg_base s)"
      using nextOffset_rep [OF ps(2)] by linarith
    with True ps show ?thesis by simp
  next
    case False
    with ps Single readFrom_rep [OF ps(2)] show ?thesis by simp
  qed
qed auto

lemma log_ReadFrom_rep:
  "\<lbrakk>io_clean io; log_rep pss l\<rbrakk> \<Longrightarrow>
   log_ReadFrom io l off = (map payload_record (drop (nat (off - OldestOffset l)) (concat pss)), None)"
  using read_segments_rep [of io pss "segments l" off "[]"]
  by (auto simp: log_rep_def log_ReadFrom_def OldestOffset_def split: list.splits)

subsection \<open>Append and rotation\<close>

lemma log_rep_lastE:
  assumes "log_rep pss l"
  obtains pss0 ps where "pss = pss0 @ [ps]" "list_all2 seg_rep pss0 (butlast (segments l))"
    "seg_rep ps (last (segments l))" "segments l = butlast (segments l) @ [last (segments l)]"
proof -
  have ne: "segments l = butlast (segments l) @ [last (segments l)]"
    using assms by (simp add: log_rep_def)
  then obtain pss0 pss1 where "pss = pss0 @ pss1" "list_all2 seg_rep pss0 (butlast (segments l))"
    "list_all2 seg_rep pss1 [last (segments l)]"
    using assms unfolding log_rep_def by (metis list_all2_append2)
  moreover from this obtain ps where "pss1 = [ps]" "seg_rep ps (last (segments l))"
    by (auto simp: list_all2_Cons2)
  ultimately show ?thesis using that ne by blast
qed

lemma log_rep_replace_last:
  assumes "log_rep (pss0 @ [ps]) l" "seg_rep qs s" "seg_base s = seg_base (last (segments l))"
  shows "log_rep (pss0 @ [qs]) (l\<lparr>segments := butlast (segments l) @ [s]\<rparr>)"
proof -
  from assms(1) have "list_all2 seg_rep pss0 (butlast (segments l))"
    by (rule log_rep_lastE) auto
  with assms show ?thesis
    by (auto simp: log_rep_def intro: list_all2_appendI contiguous_replace_last)
qed

lemma OldestOffset_hd: "segments l \<noteq> [] \<Longrightarrow> OldestOffset l = seg_base (hd (segments l))"
  by (auto simp: OldestOffset_def split: list.splits)

lemma OldestOffset_replace_last:
  assumes "segments l \<noteq> []" "seg_base s = seg_base (last (segments l))"
  shows "OldestOffset (l\<lparr>segments := butlast (segments l) @ [s]\<rparr>) = OldestOffset l"
  using assms
  by (cases "segments l" rule: rev_cases) (auto simp: OldestOffset_hd hd_append)

lemma append_active_rep:
  assumes "log_rep pss l" "storable r" "io_clean io"
  obtains pss' l' where "append_active io l r = (Ok (OldestOffset l + int (length (concat pss))), l')"
    "log_rep pss' l'" "concat pss' = concat pss @ [encode r]" "OldestOffset l' = OldestOffset l"
    "log_opts l' = log_opts l" "log_dir l' = log_dir l" "log_closed l' = log_closed l"
proof -
  from assms(1) obtain pss0 ps where p: "pss = pss0 @ [ps]" "seg_rep ps (last (segments l))"
    "segments l \<noteq> []"
    by (metis log_rep_def log_rep_lastE)
  let ?s = "snd (seg_append io (last (segments l)) r)"
  have nf: "\<not> io_fail io (seg_path (last (segments l))) IoWrite"
    using assms(3) by (simp add: io_clean_def)
  note app = seg_rep_append [OF p(2) assms(2) nf]
  have off: "seg_base (last (segments l)) + int (length ps) = OldestOffset l + int (length (concat pss))"
    using NextOffset_rep [OF assms(1)] nextOffset_rep [OF p(2)] p(3) by (simp add: NextOffset_def)
  have eq: "append_active io l r = (Ok (OldestOffset l + int (length (concat pss))),
      l\<lparr>segments := butlast (segments l) @ [?s]\<rparr>)"
    using app(1) off by (simp add: append_active_def lift_seg_def case_prod_beta)
  have "log_rep (pss0 @ [ps @ [encode r]]) (l\<lparr>segments := butlast (segments l) @ [?s]\<rparr>)"
    using assms(1) app(2) unfolding p(1) by (rule log_rep_replace_last) simp
  then show ?thesis
    using that [OF eq] p OldestOffset_replace_last [OF p(3), of ?s] by simp
qed

lemma rotate_rep:
  assumes "log_rep pss l" "io_clean io" "last pss \<noteq> []"
    and "intact (io_file io (segmentPath (log_dir l) (OldestOffset l + int (length (concat pss))))) = None"
  obtains l' where "rotate io l = (Ok (), l')" "log_rep (pss @ [[]]) l'"
    "OldestOffset l' = OldestOffset l" "log_opts l' = log_opts l" "log_dir l' = log_dir l"
    "log_closed l' = log_closed l"
proof -
  from assms(1) obtain pss0 ps where p: "pss = pss0 @ [ps]" "seg_rep ps (last (segments l))"
    "segments l \<noteq> []"
    by (metis log_rep_def log_rep_lastE)
  let ?a = "snd (seg_sync io (last (segments l)))"
  let ?l1 = "l\<lparr>segments := butlast (segments l) @ [?a]\<rparr>"
  have ok: "fst (seg_sync io (last (segments l))) = Ok ()"
    using assms(2) p(2) by (simp add: seg_sync_def seg_fails_def io_clean_def seg_rep_def)
  have rep1: "log_rep pss ?l1"
    using assms(1) seg_sync_rep [OF p(2)] unfolding p(1) by (rule log_rep_replace_last) simp
  have b: "nextOffset ?a = OldestOffset l + int (length (concat pss))"
    using NextOffset_rep [OF rep1] OldestOffset_replace_last [OF p(3), of ?a] by (simp add: NextOffset_def)
  obtain s where s: "openSegment io (segmentPath (log_dir l) (nextOffset ?a)) (nextOffset ?a) = Ok s"
    "seg_rep [] s" "seg_base s = nextOffset ?a"
    using openSegment_clean [OF assms(2), of "segmentPath (log_dir l) (nextOffset ?a)" "nextOffset ?a"]
      assms(4) by (auto simp: b frames_None)
  let ?l2 = "?l1\<lparr>segments := segments ?l1 @ [s]\<rparr>"
  have eq: "rotate io l = (Ok (), ?l2)"
    using ok s(1) p(3) by (simp add: rotate_def case_prod_beta Let_def)
  have "log_rep (pss @ [[]]) ?l2"
    using rep1 s contiguous_snoc [of "segments ?l1" s]
      list_all2_appendI [of seg_rep pss "segments ?l1" "[[]]" "[s]"] assms(3)
    by (auto simp: log_rep_def p(1) butlast_append)
  moreover have "OldestOffset ?l2 = OldestOffset ?l1"
    by (simp add: OldestOffset_hd hd_append)
  ultimately show ?thesis
    using that [OF eq] OldestOffset_replace_last [OF p(3), of ?a] by simp
qed

lemma log_Append_rep:
  assumes "log_rep pss l" "\<not> log_closed l" "storable r" "io_clean io"
    and "MaxBytes (log_opts l) \<le> 0 \<or> totalBytes l < MaxBytes (log_opts l)"
    and "intact (io_file io (segmentPath (log_dir l) (OldestOffset l + int (length (concat pss))))) = None"
  obtains pss' l' where "log_Append io l r = (Ok (OldestOffset l + int (length (concat pss))), l')"
    "log_rep pss' l'" "concat pss' = concat pss @ [encode r]" "OldestOffset l' = OldestOffset l"
    "log_opts l' = log_opts l" "log_dir l' = log_dir l" "log_closed l' = log_closed l"
proof (cases "int (seg_size (last (segments l))) \<ge> segmentBytes (log_opts l) \<and>
    seg_count (last (segments l)) > 0")
  case True
  from assms(1) obtain pss0 ps where "pss = pss0 @ [ps]" "seg_rep ps (last (segments l))"
    by (metis log_rep_lastE)
  with True have "last pss \<noteq> []" by (auto simp: seg_count_rep)
  then obtain l1 where l1: "rotate io l = (Ok (), l1)" "log_rep (pss @ [[]]) l1"
    "OldestOffset l1 = OldestOffset l" "log_opts l1 = log_opts l" "log_dir l1 = log_dir l"
    "log_closed l1 = log_closed l"
    using rotate_rep [OF assms(1,4) _ assms(6)] by metis
  obtain pss' l' where l': "append_active io l1 r = (Ok (OldestOffset l1 + int (length (concat (pss @ [[]])))), l')"
    "log_rep pss' l'" "concat pss' = concat (pss @ [[]]) @ [encode r]" "OldestOffset l' = OldestOffset l1"
    "log_opts l' = log_opts l1" "log_dir l' = log_dir l1" "log_closed l' = log_closed l1"
    by (rule append_active_rep [OF l1(2) assms(3,4)])
  have "log_Append io l r = append_active io l1 r"
    using True assms(1,2,5) l1(1) by (auto simp: log_Append_def log_rep_def)
  then show ?thesis using that l1 l' by simp
next
  case False
  have eq: "log_Append io l r = append_active io l r"
    using False assms(1,2,5) by (auto simp: log_Append_def log_rep_def)
  show ?thesis
    by (rule append_active_rep [OF assms(1,3,4)]) (rule that [unfolded eq]; assumption)
qed

subsection \<open>Reclaim\<close>

lemma seg_Close_clean: "seg_rep ps s \<Longrightarrow> io_clean io \<Longrightarrow> fst (seg_Close io s) = Ok ()"
  by (auto simp: seg_Close_def seg_sync_def seg_fails_def io_clean_def seg_rep_def file_sync_def)

lemma reclaim_loop_rep:
  assumes "io_clean io" "list_all2 seg_rep pss ss" "contiguous ss" "ss \<noteq> []"
  shows "\<exists>m. m < length ss \<and>
    reclaim_loop io upTo freed ss =
      ((freed + (\<Sum>s\<leftarrow>take m ss. int (seg_size s)), None), drop m ss) \<and>
    seg_base (hd (drop m ss)) = seg_base (hd ss) + int (length (concat (take m pss))) \<and>
    (m = 0 \<or> seg_base (hd (drop m ss)) \<le> upTo)"
  using assms
proof (induction ss arbitrary: pss freed rule: list_pair_induct)
  case (Pair s t ss)
  then obtain ps qss where pss: "pss = ps # qss" "seg_rep ps s" "list_all2 seg_rep qss (t # ss)"
    by (auto simp: list_all2_Cons2)
  show ?case
  proof (cases "nextOffset s > upTo")
    case True
    then show ?thesis by (intro exI [of _ 0]) simp
  next
    case False
    obtain s' where close: "seg_Close io s = (Ok (), s')"
      using seg_Close_clean [OF pss(2) Pair.prems(1)] by (cases "seg_Close io s") auto
    obtain m where m: "m < length (t # ss)"
      "reclaim_loop io upTo (freed + int (seg_size s)) (t # ss) =
        ((freed + int (seg_size s) + (\<Sum>s\<leftarrow>take m (t # ss). int (seg_size s)), None), drop m (t # ss))"
      "seg_base (hd (drop m (t # ss))) = seg_base t + int (length (concat (take m qss)))"
      "m = 0 \<or> seg_base (hd (drop m (t # ss))) \<le> upTo"
      using Pair.IH [OF Pair.prems(1) pss(3)] Pair.prems(3) by fastforce
    have "seg_base t = seg_base s + int (length ps)"
      using Pair.prems(3) nextOffset_rep [OF pss(2)] by simp
    then show ?thesis
      using m False close Pair.prems(1,3) pss(1)
      by (intro exI [of _ "Suc m"]) (auto simp: io_clean_def)
  qed
qed (auto intro: exI [of _ 0])

lemma Reclaim_rep:
  assumes "log_rep pss l" "io_clean io"
  obtains m l' where "Reclaim io l upTo = ((totalBytes l - totalBytes l', None), l')"
    "log_rep (drop m pss) l'" "OldestOffset l' = OldestOffset l + int (length (concat (take m pss)))"
    "m = 0 \<or> OldestOffset l' \<le> upTo"
    "log_opts l' = log_opts l" "log_dir l' = log_dir l" "log_closed l' = log_closed l"
proof -
  have inv: "list_all2 seg_rep pss (segments l)" "contiguous (segments l)" "segments l \<noteq> []"
    using assms(1) by (auto simp: log_rep_def)
  obtain m where m: "m < length (segments l)" "reclaim_loop io upTo 0 (segments l) =
      ((\<Sum>s\<leftarrow>take m (segments l). int (seg_size s), None), drop m (segments l))"
    "seg_base (hd (drop m (segments l))) = seg_base (hd (segments l)) + int (length (concat (take m pss)))"
    "m = 0 \<or> seg_base (hd (drop m (segments l))) \<le> upTo"
    using reclaim_loop_rep [OF assms(2) inv, of upTo 0] by auto
  let ?l = "l\<lparr>segments := drop m (segments l)\<rparr>"
  have "contiguous (drop m (segments l))" using inv(2) by (rule contiguous_drop)
  moreover have "list_all2 seg_rep (drop m pss) (drop m (segments l))"
    using inv(1) by (rule list_all2_dropI)
  moreover have "[] \<notin> set (butlast (drop m pss))"
    using assms(1) by (auto simp: log_rep_def butlast_drop dest: in_set_dropD)
  ultimately have "log_rep (drop m pss) ?l"
    using inv m(1) by (simp add: log_rep_def)
  moreover have "(\<Sum>s\<leftarrow>take m (segments l). int (seg_size s)) = totalBytes l - totalBytes ?l"
    using sum_list_append [of "map (\<lambda>s. int (seg_size s)) (take m (segments l))"
        "map (\<lambda>s. int (seg_size s)) (drop m (segments l))"]
    unfolding map_append [symmetric] append_take_drop_id by (simp add: totalBytes_def)
  ultimately show ?thesis
    using that [of ?l m] m inv by (simp add: Reclaim_def OldestOffset_hd)
qed

subsection \<open>Opening\<close>

lemma length_pad20: "length s \<le> 20 \<Longrightarrow> length (pad20 s) = 20"
  by (simp add: pad20_def offsetDigits_def)

lemma parse_digits_zeros: "parse_digits 0 (replicate n CHR ''0'' @ s) = parse_digits 0 s"
  by (induction n) (simp_all add: char_digit_def)

lemma split_sign_pad20: "split_sign (pad20 (format_nat n)) = (False, pad20 (format_nat n))"
  using split_sign_format_nat [of n]
  by (cases "offsetDigits - length (format_nat n)") (simp_all add: pad20_def)

lemma parse_segmentName:
  assumes "0 \<le> b" "b < 2 ^ 63"
  shows "parse_int64 (take (length (segmentName b) - length segmentSuffix) (segmentName b)) = Some b"
  using assms split_sign_pad20 [of "nat b"]
  by (simp add: segmentName_def format_base_def parse_int64_def parse_digits_zeros
      parse_digits_format_nat pad20_def)

lemma has_suffix_segmentName [simp]: "has_suffix segmentSuffix (segmentName b)"
  by (simp add: has_suffix_def segmentName_def)

text \<open>The entries \<open>existingSegmentBases\<close> looks at.\<close>

definition seg_entries :: "(string \<times> bool) list \<Rightarrow> string list" where
  "seg_entries es = map fst (filter (\<lambda>(n, d). \<not> d \<and> has_suffix segmentSuffix n) es)"

lemma collect_bases_names:
  "\<lbrakk>seg_entries es = map segmentName bs; \<forall>b \<in> set bs. 0 \<le> b \<and> b < 2 ^ 63\<rbrakk> \<Longrightarrow>
   collect_bases es acc = Ok (acc @ bs)"
proof (induction es acc arbitrary: bs rule: collect_bases.induct)
  case (2 name isDir es bases)
  show ?case
  proof (cases "isDir \<or> \<not> has_suffix segmentSuffix name")
    case True
    with 2 show ?thesis by (auto simp: seg_entries_def)
  next
    case False
    with 2(3) obtain b bs' where bs: "bs = b # bs'" "name = segmentName b" "seg_entries es = map segmentName bs'"
      by (auto simp: seg_entries_def)
    then have "parse_int64 (take (length name - length segmentSuffix) name) = Some b"
      using 2(4) by (auto intro: parse_segmentName)
    with 2 False bs show ?thesis by auto
  qed
qed (simp add: seg_entries_def)

lemma sort_contiguous:
  assumes "list_all2 seg_rep pss ss" "contiguous ss" "[] \<notin> set (butlast pss)"
  shows "sorted (map seg_base ss)"
  using assms
proof (induction ss arbitrary: pss rule: list_pair_induct)
  case (Pair s t ss)
  then obtain ps qss where pss: "pss = ps # qss" "seg_rep ps s" "list_all2 seg_rep qss (t # ss)"
    by (auto simp: list_all2_Cons2)
  then have "qss \<noteq> []" by auto
  with Pair pss have IH: "sorted (map seg_base (t # ss))" by auto
  have "seg_base s \<le> seg_base t" using Pair(3) nextOffset_rep [OF pss(2)] by simp
  with IH show ?case by auto
qed auto

lemma open_segments_clean:
  assumes "io_clean io"
  shows "\<exists>ss. open_segments io dir bs acc = Ok (acc @ ss) \<and>
    list_all2 seg_rep (map (\<lambda>b. frames (io_file io (segmentPath dir b))) bs) ss \<and> map seg_base ss = bs"
proof (induction bs arbitrary: acc)
  case (Cons b bs)
  obtain s where s: "openSegment io (segmentPath dir b) b = Ok s"
    "seg_rep (frames (io_file io (segmentPath dir b))) s" "seg_base s = b"
    using openSegment_clean [OF assms, of "segmentPath dir b" b] by blast
  obtain ss where "open_segments io dir bs (acc @ [s]) = Ok ((acc @ [s]) @ ss)"
    "list_all2 seg_rep (map (\<lambda>b. frames (io_file io (segmentPath dir b))) bs) ss" "map seg_base ss = bs"
    using Cons.IH by blast
  with s show ?case by (intro exI [of _ "s # ss"]) simp
qed simp

lemma dropTrailing_rep:
  assumes "list_all2 seg_rep pss ss" "contiguous ss" "ss \<noteq> []"
  shows "\<exists>m. 0 < m \<and> dropTrailingEmptyDuplicates ss = take m ss \<and> concat (take m pss) = concat pss"
  using assms
proof (induction "rev ss" arbitrary: ss pss rule: list_pair_induct)
  case (Pair s prev rest)
  then have ss: "ss = (rev rest @ [prev]) @ [s]" by (metis rev.simps(2) rev_swap)
  obtain qss ps where pss: "pss = qss @ [ps]" "seg_rep ps s"
    "list_all2 seg_rep qss (rev rest @ [prev])"
    using Pair.prems(1) unfolding ss list_all2_append2 [of _ _ "rev rest @ [prev]"] list_all2_Cons2
    by auto
  have len: "length pss = length ss" "length qss = length (rev rest @ [prev])"
    using Pair.prems(1) pss(3) by (auto dest: list_all2_lengthD)
  show ?case
  proof (cases "seg_count s \<noteq> 0 \<or> seg_base s \<noteq> nextOffset prev")
    case True
    then show ?thesis
      using ss len Pair.prems(3) by (intro exI [of _ "length ss"]) (auto simp: dropTrailingEmptyDuplicates_def)
  next
    case False
    have "contiguous (rev rest @ [prev])" using Pair.prems(2) ss contiguous_snoc by blast
    then obtain m where m: "0 < m" "dropTrailingEmptyDuplicates (rev rest @ [prev]) = take m (rev rest @ [prev])"
      "concat (take m qss) = concat qss"
      using Pair.hyps(1) [of "rev rest @ [prev]" qss] pss(3) by auto
    have "dropTrailingEmptyDuplicates ss = dropTrailingEmptyDuplicates (rev rest @ [prev])"
      using False ss by (simp add: dropTrailingEmptyDuplicates_def)
    moreover have "ps = []" using False pss(2) by (simp add: seg_count_rep)
    ultimately show ?thesis
      using m ss pss len
      by (intro exI [of _ "min m (length qss)"]) (auto simp: min_def take_Cons')
  qed
next
  case (Single v)
  then show ?case by (intro exI [of _ 1]) (auto simp: dropTrailingEmptyDuplicates_def list_all2_Cons2)
qed auto

lemma log_Open_rep:
  assumes "io_clean io" "bs \<noteq> []" "sort cs = bs" "seg_entries entries = map segmentName cs"
    and "\<forall>b \<in> set bs. 0 \<le> b \<and> b < 2 ^ 63"
    and "\<And>ss. list_all2 seg_rep (map (\<lambda>b. frames (io_file io (segmentPath dir b))) bs) ss \<Longrightarrow>
           map seg_base ss = bs \<Longrightarrow> contiguous ss"
    and "[] \<notin> set (butlast (map (\<lambda>b. frames (io_file io (segmentPath dir b))) bs))"
  obtains pss l where "log_Open io entries dir opts = Ok l" "log_rep pss l" "OldestOffset l = hd bs"
    "concat pss = concat (map (\<lambda>b. frames (io_file io (segmentPath dir b))) bs)"
    "log_dir l = dir" "log_opts l = opts" "\<not> log_closed l"
proof -
  let ?pss = "map (\<lambda>b. frames (io_file io (segmentPath dir b))) bs"
  have "collect_bases entries [] = Ok cs"
    using collect_bases_names [OF assms(4), of "[]"] assms(3,5) by auto
  then have ex: "existingSegmentBases io dir entries = Ok bs"
    using assms(1,3) by (simp add: existingSegmentBases_def io_clean_def)
  obtain ss where ss: "open_segments io dir bs [] = Ok ss" "list_all2 seg_rep ?pss ss" "map seg_base ss = bs"
    using open_segments_clean [OF assms(1), of dir bs "[]"] by auto
  have cont: "contiguous ss" using ss(2,3) assms(6) by blast
  have ne: "ss \<noteq> []" using ss(3) assms(2) by auto
  obtain m where m: "0 < m" "dropTrailingEmptyDuplicates ss = take m ss" "concat (take m ?pss) = concat ?pss"
    using dropTrailing_rep [OF ss(2) cont ne] by blast
  let ?l = "\<lparr>log_dir = dir, log_opts = opts, segments = take m ss, sync_every = syncLoop opts, log_closed = False\<rparr>"
  have "contiguous (take m ss)"
    using cont by (rule contiguous_take)
  moreover have "[] \<notin> set (butlast (take m ?pss))"
    using assms(7) set_butlast_take [of m ?pss] by blast
  ultimately have rep: "log_rep (take m ?pss) ?l"
    using ne m(1) ss(2) by (auto simp: log_rep_def intro: list_all2_takeI)
  have "seg_base (hd (take m ss)) = hd bs"
    using ne m(1) ss(3) by (metis hd_map hd_take)
  then show ?thesis
    using that [of ?l "take m ?pss"] rep m ex ss(1) assms(1,2) ne
    by (simp add: log_Open_def io_clean_def OldestOffset_hd)
qed

lemma contiguous_nth:
  "contiguous ss \<longleftrightarrow> (\<forall>i. Suc i < length ss \<longrightarrow> seg_base (ss ! Suc i) = nextOffset (ss ! i))"
proof (induction ss rule: list_pair_induct)
  case (Pair s t ss)
  have "contiguous (s # t # ss) \<longleftrightarrow> seg_base t = nextOffset s \<and>
      (\<forall>i. Suc i < length (t # ss) \<longrightarrow> seg_base ((t # ss) ! Suc i) = nextOffset ((t # ss) ! i))"
    using Pair by simp
  also have "\<dots> \<longleftrightarrow> (\<forall>i. Suc i < length (s # t # ss) \<longrightarrow>
      seg_base ((s # t # ss) ! Suc i) = nextOffset ((s # t # ss) ! i))"
    by (simp add: All_less_Suc2 less_Suc_eq_0_disj all_conj_distrib imp_disjL imp_ex)
  finally show ?case .
qed simp_all

lemma contiguous_same_bases:
  assumes "contiguous ss" "list_all2 seg_rep (qss @ [qs]) ss" "list_all2 seg_rep (qss @ [rs]) ts"
    and "map seg_base ts = map seg_base ss"
  shows "contiguous ts"
proof -
  have len: "length ts = length ss" "length ss = Suc (length qss)"
    using list_all2_lengthD [OF assms(2)] list_all2_lengthD [OF assms(3)] by simp_all
  have "seg_base (ts ! Suc i) = nextOffset (ts ! i)" if i: "Suc i < length ts" for i
  proof -
    have il: "i < length qss" using i len by simp
    then have "seg_rep (qss ! i) (ss ! i)" "seg_rep (qss ! i) (ts ! i)"
      using list_all2_nthD [OF assms(2), of i] list_all2_nthD [OF assms(3), of i]
      by (simp_all add: nth_append)
    moreover have "seg_base (ts ! j) = seg_base (ss ! j)" if "j < length ts" for j
      using that len assms(4) by (metis nth_map)
    moreover have "seg_base (ss ! Suc i) = nextOffset (ss ! i)"
      using assms(1) i len by (simp add: contiguous_nth)
    ultimately show ?thesis using i by (simp add: nextOffset_rep)
  qed
  then show ?thesis by (simp add: contiguous_nth)
qed

lemma sorted_ge_hd: "sorted xs \<Longrightarrow> x \<in> set xs \<Longrightarrow> hd xs \<le> x"
  by (cases xs) auto

lemma sorted_le_last: "sorted xs \<Longrightarrow> x \<in> set xs \<Longrightarrow> x \<le> last xs"
  by (induction xs) (auto split: if_splits)

section \<open>The interface a reader relies on\<close>

text \<open>A log of items at consecutive offsets, of which a prefix may have been discarded: the offset
  of the oldest item kept, the offset the next one will get, and reading from an offset.\<close>

locale offset_log =
  fixes inv :: "'l \<Rightarrow> bool"
    and items :: "'l \<Rightarrow> 'r list"
    and oldest :: "'l \<Rightarrow> int"
    and next_offset :: "'l \<Rightarrow> int option"
    and read_from :: "'l \<Rightarrow> int \<Rightarrow> 'r list"
  assumes next_offset: "inv l \<Longrightarrow> next_offset l = Some (oldest l + int (length (items l)))"
    and read_from: "inv l \<Longrightarrow> read_from l off = drop (nat (off - oldest l)) (items l)"
begin

text \<open>The item stored at an offset.\<close>

definition item_at :: "'l \<Rightarrow> int \<Rightarrow> 'r" where
  "item_at l off = items l ! nat (off - oldest l)"

lemma read_nth:
  assumes "inv l" "oldest l \<le> off" "i < length (read_from l off)"
  shows "read_from l off ! i = item_at l (off + int i)"
proof -
  have "nat (off + int i - oldest l) = nat (off - oldest l) + i" using assms(2) by linarith
  with assms(3) show ?thesis by (simp add: read_from [OF assms(1)] item_at_def)
qed

lemma length_read:
  assumes "inv l" "oldest l \<le> off"
  shows "int (length (read_from l off)) = max 0 (the (next_offset l) - off)"
proof -
  have "int (length (items l) - nat (off - oldest l)) = max 0 (oldest l + int (length (items l)) - off)"
    using assms(2) by linarith
  then show ?thesis by (simp add: read_from [OF assms(1)] next_offset [OF assms(1)])
qed

lemma read_empty_iff:
  assumes "inv l" "oldest l \<le> off"
  shows "read_from l off = [] \<longleftrightarrow> the (next_offset l) \<le> off"
  using length_read [OF assms] by auto

text \<open>Reading below the oldest item silently starts at the oldest one.\<close>

lemma read_below:
  assumes "inv l" "off \<le> oldest l"
  shows "read_from l off = items l"
  using assms by (simp add: read_from)

end

definition log_items :: "Log \<Rightarrow> Record list" where
  "log_items l = map payload_record (log_payloads l)"

lemma log_ReadFrom_items:
  "\<lbrakk>io_clean io; log_inv l\<rbrakk> \<Longrightarrow>
   log_ReadFrom io l off = (drop (nat (off - OldestOffset l)) (log_items l), None)"
  using log_inv_rep [of l] log_ReadFrom_rep [of io _ l off] by (auto simp: log_items_def drop_map)

interpretation wal: offset_log log_inv log_items OldestOffset NextOffset "\<lambda>l off. fst (log_ReadFrom io_ok l off)"
proof
  show "log_inv l \<Longrightarrow> NextOffset l = Some (OldestOffset l + int (length (log_items l)))" for l
    using log_inv_rep [of l] NextOffset_rep by (auto simp: log_items_def)
  show "log_inv l \<Longrightarrow> fst (log_ReadFrom io_ok l off) = drop (nat (off - OldestOffset l)) (log_items l)" for l off
    by (simp add: log_ReadFrom_items)
qed

section \<open>Waiting for space\<close>

lemma append_rounds_outcome:
  assumes "append_rounds io deadline l r rounds = Some (res, l')"
  shows "(\<exists>l0. log_Append io l0 r = (res, l') \<and> res \<noteq> Err AtCapacity) \<or>
    (res = Err LogFull \<and> (\<exists>l0. log_Append io l0 r = (Err AtCapacity, l')))"
  using assms
proof (induction io deadline l r rounds rule: append_rounds.induct)
  case (2 io deadline l r others now rounds)
  obtain res1 l1 where a: "log_Append io (others l) r = (res1, l1)" by fastforce
  show ?case
  proof (cases "res1 = Err AtCapacity \<and> \<not> (FullTimeout (log_opts l1) < 0 \<or> \<not> now < deadline)")
    case True
    then show ?thesis using "2.prems" "2.IH" [OF refl a [symmetric]] a by simp
  next
    case False
    then show ?thesis using "2.prems" a by (auto split: if_splits)
  qed
qed simp

lemma append_rounds_returns:
  assumes "\<exists>(others, now) \<in> set rounds. \<not> now < deadline"
  shows "append_rounds io deadline l r rounds \<noteq> None"
  using assms
proof (induction io deadline l r rounds rule: append_rounds.induct)
  case (2 io deadline l r others now rounds)
  then show ?case by (cases "log_Append io (others l) r") (auto split: if_splits)
qed simp

lemma log_Append_full [simp]:
  "\<lbrakk>\<not> log_closed l; 0 < MaxBytes (log_opts l); MaxBytes (log_opts l) \<le> totalBytes l\<rbrakk> \<Longrightarrow>
   log_Append io l r = (Err AtCapacity, l)"
  by (simp add: log_Append_def)

lemma append_rounds_full:
  assumes "\<not> log_closed l" "0 < MaxBytes (log_opts l)" "MaxBytes (log_opts l) \<le> totalBytes l"
    and "\<forall>(others, t) \<in> set rounds. others l = l" "rounds \<noteq> []" "d \<le> snd (last rounds)"
  shows "append_rounds io d l r rounds = Some (Err LogFull, l)"
  using assms(4-6)
proof (induction rounds)
  case (Cons x xs)
  then show ?case
    by (cases x; cases "xs = []") (auto simp: assms(1-3))
qed simp

section \<open>Sample inputs\<close>

definition default_options :: Options where
  "default_options = \<lparr>SegmentBytes = 0, SyncInterval = 0, MaxBytes = 0, FullTimeout = 0\<rparr>"

definition sample_log :: Log where
  "sample_log = \<lparr>log_dir = ''t'', log_opts = default_options, segments = [sample_segment],
     sync_every = None, log_closed = False\<rparr>"

lemma sample_log_rep: "log_rep [[encode sample_record]] sample_log"
  by (simp add: log_rep_def sample_log_def)

lemma sample_log_inv [simp]:
  "log_inv sample_log" "log_items sample_log = [sample_record]" "NextOffset sample_log = Some 1"
  "OldestOffset sample_log = 0" "\<not> log_closed sample_log" "log_opts sample_log = default_options"
  using log_rep_inv [OF sample_log_rep] NextOffset_rep [OF sample_log_rep] payload_ok_encode [of sample_record]
  by (simp_all add: log_items_def sample_log_def OldestOffset_def)

lemma sample_log_sel [simp]: "segments sample_log = [sample_segment]" "log_dir sample_log = ''t''"
  by (simp_all add: sample_log_def)

lemma io_ok_file [simp]: "io_file io_ok path = []" "intact [] = None"
  by (simp_all add: io_ok_def intact_def headerSize_def)

section \<open>Properties\<close>

text \<open>C17: append assigns consecutive offsets and stores the record. On an open log below its bound,
  with no I/O error, \<open>Append\<close> returns the next offset, whether or not it had to rotate; the log
  then holds the old records followed by the new one, nothing older is lost, and reading at the
  returned offset gives back exactly the appended record.\<close>

theorem append_assigns_next_offset:
  assumes "log_inv l" "\<not> log_closed l" "storable r" "io_clean io"
    and "MaxBytes (log_opts l) \<le> 0 \<or> totalBytes l < MaxBytes (log_opts l)"
    and "NextOffset l = Some off" "intact (io_file io (segmentPath (log_dir l) off)) = None"
  shows "\<exists>l'. log_Append io l r = (Ok off, l') \<and> log_inv l' \<and>
    log_items l' = log_items l @ [r] \<and> OldestOffset l' = OldestOffset l \<and>
    NextOffset l' = Some (off + 1) \<and> log_ReadFrom io l' off = ([r], None)"
proof -
  obtain pss where pss: "log_rep pss l" "log_payloads l = concat pss"
    using assms(1) log_inv_rep by blast
  have off: "off = OldestOffset l + int (length (concat pss))"
    using assms(6) NextOffset_rep [OF pss(1)] by simp
  obtain pss' l' where l': "log_Append io l r = (Ok off, l')" "log_rep pss' l'"
    "concat pss' = concat pss @ [encode r]" "OldestOffset l' = OldestOffset l"
    using log_Append_rep [OF pss(1) assms(2-5)] assms(7) unfolding off by metis
  have inv': "log_inv l'" and items: "log_items l' = log_items l @ [r]"
    using log_rep_inv [OF l'(2)] l'(3) pss(2) payload_ok_encode [OF assms(3)] by (simp_all add: log_items_def)
  have "nat (off - OldestOffset l') = length (log_items l)"
    using off l'(4) pss(2) by (simp add: log_items_def)
  then have "log_ReadFrom io l' off = ([r], None)"
    using log_ReadFrom_items [OF assms(4) inv', of off] items by simp
  moreover have "NextOffset l' = Some (off + 1)"
    using NextOffset_rep [OF l'(2)] l'(3,4) off by simp
  ultimately show ?thesis using l' inv' items by blast
qed

theorem append_assigns_next_offset_witness:
  "\<exists>l'. log_Append io_ok sample_log sample_record = (Ok 1, l') \<and> log_inv l' \<and>
    log_items l' = [sample_record, sample_record]"
  using append_assigns_next_offset [of sample_log sample_record io_ok 1] by (auto simp: default_options_def)

text \<open>C18: reclaiming frees whole segments below the given position only. Every record it discards
  had an offset below \<open>upTo\<close>, every record it keeps is still read under the same offset, the next
  offset is unchanged, and the bytes it reports are the bytes the log shrank by.\<close>

theorem reclaim_discards_only_consumed:
  assumes "log_inv l" "io_clean io"
  shows "\<exists>l'. Reclaim io l upTo = ((totalBytes l - totalBytes l', None), l') \<and> log_inv l' \<and>
    OldestOffset l \<le> OldestOffset l' \<and> (OldestOffset l' = OldestOffset l \<or> OldestOffset l' \<le> upTo) \<and>
    NextOffset l' = NextOffset l \<and>
    (\<forall>off \<ge> OldestOffset l'. log_ReadFrom io l' off = log_ReadFrom io l off)"
proof -
  obtain pss where pss: "log_rep pss l" "log_payloads l = concat pss"
    using assms(1) log_inv_rep by blast
  obtain m l' where l': "Reclaim io l upTo = ((totalBytes l - totalBytes l', None), l')"
    "log_rep (drop m pss) l'" "OldestOffset l' = OldestOffset l + int (length (concat (take m pss)))"
    "m = 0 \<or> OldestOffset l' \<le> upTo"
    by (rule Reclaim_rep [OF pss(1) assms(2), of upTo]) metis
  have split: "concat pss = concat (take m pss) @ concat (drop m pss)"
    by (metis append_take_drop_id concat_append)
  have "log_ReadFrom io l' off = log_ReadFrom io l off" if "OldestOffset l' \<le> off" for off
  proof -
    have "nat (off - OldestOffset l) = length (concat (take m pss)) + nat (off - OldestOffset l')"
      using that l'(3) by linarith
    then show ?thesis
      using log_ReadFrom_rep [OF assms(2) pss(1), of off] log_ReadFrom_rep [OF assms(2) l'(2), of off]
      by (simp add: split)
  qed
  moreover have "NextOffset l' = NextOffset l"
    using NextOffset_rep [OF pss(1)] NextOffset_rep [OF l'(2)] l'(3) arg_cong [OF split, of length] by simp
  ultimately show ?thesis
    using l' log_rep_inv [OF l'(2)] by auto
qed

theorem reclaim_discards_only_consumed_witness:
  "\<exists>l'. Reclaim io_ok sample_log 1 = ((totalBytes sample_log - totalBytes l', None), l') \<and> log_inv l' \<and>
    NextOffset l' = Some 1"
  using reclaim_discards_only_consumed [of sample_log io_ok 1] by auto

text \<open>C2: recovery of the whole topic after a crash. When the rotated segments are on disk as they
  were written and the active one has lost any part of its tail, opening the directory (whatever
  else it lists, in whatever order) yields a log that starts at the same offset, satisfies the
  invariant, and holds exactly the old records up to the last one that survived whole.\<close>

theorem reopen_after_crash:
  assumes "log_inv l" "io_clean io" "0 \<le> OldestOffset l" "NextOffset l = Some nx" "nx < 2 ^ 63"
    and "seg_entries entries = map segmentName cs" "sort cs = map seg_base (segments l)"
    and "\<And>s. s \<in> set (butlast (segments l)) \<Longrightarrow>
      io_file io (segmentPath (log_dir l) (seg_base s)) = fdata (seg_file s)"
    and "io_file io (segmentPath (log_dir l) (seg_base (last (segments l)))) =
      take n (fdata (seg_file (last (segments l))))"
  shows "\<exists>l' k. log_Open io entries (log_dir l) opts = Ok l' \<and> log_inv l' \<and>
    OldestOffset l' = OldestOffset l \<and> log_items l' = take k (log_items l) \<and>
    k = length (log_items l) - seg_count (last (segments l)) +
        whole n (frames (fdata (seg_file (last (segments l)))))"
proof -
  obtain pss where pss: "log_rep pss l" "log_payloads l = concat pss"
    using assms(1) log_inv_rep by blast
  obtain qss ps where q: "pss = qss @ [ps]" "list_all2 seg_rep qss (butlast (segments l))"
    "seg_rep ps (last (segments l))" "segments l = butlast (segments l) @ [last (segments l)]"
    by (rule log_rep_lastE [OF pss(1)])
  let ?k = "whole n ps" and ?bs = "map seg_base (segments l)"
  let ?f = "\<lambda>b. frames (io_file io (segmentPath (log_dir l) b))"
  have lastf: "?f (seg_base (last (segments l))) = take ?k ps"
    using assms(9) q(3) frames_take_stream [of ps n] by (simp add: seg_rep_def)
  have "map ?f (map seg_base (butlast (segments l))) = qss"
    using list_all2_frames [OF q(2)] assms(8) by (simp cong: map_cong)
  then have new: "map ?f ?bs = qss @ [take ?k ps]"
    using lastf by (subst q(4)) simp
  have srt: "sorted ?bs"
    using pss(1) by (auto simp: log_rep_def intro: sort_contiguous)
  have ne: "segments l \<noteq> []" using pss(1) by (simp add: log_rep_def)
  have range: "\<forall>b \<in> set ?bs. 0 \<le> b \<and> b < 2 ^ 63"
  proof
    fix b assume b: "b \<in> set ?bs"
    have "hd ?bs \<le> b" "b \<le> last ?bs" using sorted_ge_hd [OF srt b] sorted_le_last [OF srt b] .
    moreover have "last ?bs \<le> nx"
      using assms(4) ne nextOffset_rep [OF q(3)] by (simp add: NextOffset_def last_map)
    ultimately show "0 \<le> b \<and> b < 2 ^ 63"
      using assms(3,5) ne by (simp add: OldestOffset_hd hd_map)
  qed
  have old: "contiguous (segments l)" "list_all2 seg_rep (qss @ [ps]) (segments l)"
    using pss(1) by (simp_all add: log_rep_def q(1))
  have cont: "contiguous ss" if "list_all2 seg_rep (map ?f ?bs) ss" "map seg_base ss = ?bs" for ss
    by (rule contiguous_same_bases [OF old that(1) [unfolded new] that(2)])
  have nonempty: "[] \<notin> set (butlast (map ?f ?bs))"
    using pss(1) unfolding new q(1) log_rep_def by simp
  have ne': "?bs \<noteq> []" using ne by simp
  obtain pss' l' where l': "log_Open io entries (log_dir l) opts = Ok l'" "log_rep pss' l'"
    "OldestOffset l' = hd ?bs" "concat pss' = concat (map ?f ?bs)"
    by (rule log_Open_rep [OF assms(2) ne' assms(7,6) range cont nonempty, of opts])
  have "log_payloads l' = take (length (concat qss) + ?k) (log_payloads l)"
    using log_rep_inv [OF l'(2)] l'(4) pss(2) unfolding new q(1) by simp
  then have "log_items l' = take (length (concat qss) + ?k) (log_items l)"
    by (simp add: log_items_def take_map)
  moreover have "length (concat qss) = length (log_items l) - seg_count (last (segments l))"
    using pss(2) q(1) seg_count_rep [OF q(3)] by (simp add: log_items_def)
  moreover have "OldestOffset l' = OldestOffset l"
    using l'(3) ne by (simp add: OldestOffset_hd hd_map)
  ultimately show ?thesis
    using l'(1) log_rep_inv [OF l'(2)] by (simp add: seg_rep_frames [OF q(3)])
qed

theorem reopen_after_crash_witness:
  "\<exists>l' k. log_Open (io_ok\<lparr>io_file := \<lambda>_. frame (encode sample_record)\<rparr>)
      [(segmentName 0, False), (''groups'', True)] ''t'' default_options = Ok l' \<and>
    log_inv l' \<and> log_items l' = take k [sample_record]"
  using reopen_after_crash [of sample_log "io_ok\<lparr>io_file := \<lambda>_. frame (encode sample_record)\<rparr>" 1
      "[(segmentName 0, False), (''groups'', True)]" "[0]" 41 default_options]
  by (auto simp: seg_entries_def headerSize_def)

text \<open>C21: waiting for space never drops a record silently and never waits past its timeout. Whatever
  other goroutines do to the log meanwhile, a return is either the outcome of an actual attempt
  other than the internal capacity signal, or \<open>ErrLogFull\<close> after an attempt the bound refused;
  and once a refused attempt reads a clock that has reached the deadline, the call returns.\<close>

theorem backpressure_outcome:
  "(AppendWithBackpressure io now l r rounds = Some (res, l') \<longrightarrow>
      (\<exists>l0. log_Append io l0 r = (res, l') \<and> res \<noteq> Err AtCapacity) \<or>
      (res = Err LogFull \<and> (\<exists>l0. log_Append io l0 r = (Err AtCapacity, l')))) \<and>
   ((\<exists>(others, t) \<in> set rounds. now + fullTimeout (log_opts l) \<le> t) \<longrightarrow>
      AppendWithBackpressure io now l r rounds \<noteq> None)"
  unfolding AppendWithBackpressure_def
  using append_rounds_outcome append_rounds_returns [of rounds "now + fullTimeout (log_opts l)" io l r]
  by fastforce

theorem backpressure_outcome_witness:
  "AppendWithBackpressure io_ok 0 (sample_log\<lparr>log_opts := default_options\<lparr>MaxBytes := 1\<rparr>\<rparr>) sample_record
     [(id, 2000000000)] \<noteq> None"
  using backpressure_outcome [of io_ok 0 "sample_log\<lparr>log_opts := default_options\<lparr>MaxBytes := 1\<rparr>\<rparr>" sample_record
      "[(id, 2000000000)]"]
  by (simp add: fullTimeout_def DefaultFullTimeout_def default_options_def)

text \<open>A full log stays full until something reclaims it. While no other goroutine changes the
  log, every attempt is refused and the log is left exactly as it was, so a producer gets
  \<open>ErrLogFull\<close> however long it waits.\<close>

theorem full_log_refuses:
  assumes "\<not> log_closed l" "0 < MaxBytes (log_opts l)" "MaxBytes (log_opts l) \<le> totalBytes l"
    and "\<forall>(others, t) \<in> set rounds. others l = l" "rounds \<noteq> []"
    and "now + fullTimeout (log_opts l) \<le> snd (last rounds)"
  shows "AppendWithBackpressure io now l r rounds = Some (Err LogFull, l)"
  using append_rounds_full [OF assms] by (simp add: AppendWithBackpressure_def)

theorem full_log_refuses_witness:
  "let l = sample_log\<lparr>log_opts := default_options\<lparr>MaxBytes := 41\<rparr>\<rparr>
   in AppendWithBackpressure io_ok 0 l sample_record [(id, 5), (id, 3000000000)] = Some (Err LogFull, l)"
  using full_log_refuses [of "sample_log\<lparr>log_opts := default_options\<lparr>MaxBytes := 41\<rparr>\<rparr>"
      "[(id, 5), (id, 3000000000)]" 0 io_ok sample_record] seg_size_rep [OF sample_segment_rep(1)]
  by (simp add: fullTimeout_def DefaultFullTimeout_def default_options_def totalBytes_def sample_log_def headerSize_def)

end
