(* ===== verification/Wal_Group.thy ===== *)
theory Wal_Group
  imports Crc32c
begin

text \<open>
  A consumer group's committed position, \<open>src/shared/bus/wal/group.go\<close>: the checksummed offset
  file, loading it, choosing where a new group starts, and the write-then-rename commit.
\<close>

section \<open>Data\<close>

datatype group_call =
    GMkdir | GReadFile | GCreateTmp | GWriteTmp | GSyncTmp | GCloseTmp | GRename | GSyncDir

datatype group_error =
    BadGroupName string | GroupIo group_call | AlreadyCommitted int | NegativeOffset int
  | MovesBackwards int int

text \<open>\<open>g_file\<close> is what the file system holds at the group's path, \<open>None\<close> for no file. The temporary
  file never outlives the call that writes it and is not part of the state.\<close>

record Group =
  g_name :: string
  g_path :: string
  g_next :: int
  g_committed :: bool
  g_file :: "bytes option"

section \<open>Names\<close>

definition alnum :: "char \<Rightarrow> bool" where
  "alnum c = (let k = (of_char c :: nat) in
     (48 \<le> k \<and> k \<le> 57) \<or> (65 \<le> k \<and> k \<le> 90) \<or> (97 \<le> k \<and> k \<le> 122))"

text \<open>A pattern of the form \<open>^[A-Za-z0-9][A-Za-z0-9...]{0,127}$\<close>, with the further characters it
  allows after the first.\<close>

fun name_matches :: "string \<Rightarrow> string \<Rightarrow> bool" where
  "name_matches extra [] = False"
| "name_matches extra (c # cs) =
     (alnum c \<and> length cs \<le> 127 \<and> list_all (\<lambda>d. alnum d \<or> d \<in> set extra) cs)"

definition groupNamePattern :: "string \<Rightarrow> bool" where
  "groupNamePattern = name_matches ''_.:@-''"

section \<open>The offset file\<close>

definition encodeOffset :: "int \<Rightarrow> bytes" where
  "encodeOffset n =
     (let body = str_bytes (format_int n) in body @ [10] @ putU32 (crc32c body))"

definition decodeOffset :: "bytes \<Rightarrow> int option" where
  "decodeOffset raw =
     (if length raw < 5 then None
      else let body = take (length raw - 4) raw;
               sum = getU32 (drop (length raw - 4) raw);
               trimmed = (if body \<noteq> [] \<and> last body = 10 then butlast body else body)
           in if crc32c trimmed \<noteq> sum then None
              else case parse_int64 (bytes_str trimmed) of
                  None \<Rightarrow> None
                | Some n \<Rightarrow> if n < 0 then None else Some n)"

section \<open>Operations\<close>

definition OpenGroup ::
  "(group_call \<Rightarrow> bool) \<Rightarrow> bytes option \<Rightarrow> string \<Rightarrow> string \<Rightarrow> group_error + Group" where
  "OpenGroup fails onDisk topicDir name =
     (if \<not> groupNamePattern name then Err (BadGroupName name)
      else if fails GMkdir then Err (GroupIo GMkdir)
      else let g = \<lparr>g_name = name, g_path = topicDir @ ''/groups/'' @ name @ ''.offset'',
                    g_next = 0, g_committed = False, g_file = onDisk\<rparr>
           in if fails GReadFile then Err (GroupIo GReadFile)
              else case onDisk of
                  None \<Rightarrow> Ok g
                | Some raw \<Rightarrow>
                    (case decodeOffset raw of
                       None \<Rightarrow> Ok g
                     | Some n \<Rightarrow> Ok (g\<lparr>g_next := n, g_committed := True\<rparr>)))"

definition HasCommitted :: "Group \<Rightarrow> bool" where
  "HasCommitted g = g_committed g"

definition Position :: "Group \<Rightarrow> int" where
  "Position g = g_next g"

definition Name :: "Group \<Rightarrow> string" where
  "Name g = g_name g"

text \<open>The steps of \<open>Commit\<close> before the rename, in order; the first that fails is reported.\<close>

definition tmp_steps :: "group_call list" where
  "tmp_steps = [GCreateTmp, GWriteTmp, GSyncTmp, GCloseTmp, GRename]"

definition Commit :: "(group_call \<Rightarrow> bool) \<Rightarrow> Group \<Rightarrow> int \<Rightarrow> (group_error + unit) \<times> Group" where
  "Commit fails g n =
     (if n < 0 then (Err (NegativeOffset n), g)
      else if n < g_next g then (Err (MovesBackwards (g_next g) n), g)
      else if n = g_next g \<and> g_committed g then (Ok (), g)
      else case List.find fails tmp_steps of
          Some c \<Rightarrow> (Err (GroupIo c), g)
        | None \<Rightarrow>
            (let g1 = g\<lparr>g_file := Some (encodeOffset n)\<rparr> in
             if fails GSyncDir then (Err (GroupIo GSyncDir), g1)
             else (Ok (), g1\<lparr>g_next := n, g_committed := True\<rparr>)))"

definition StartAt :: "(group_call \<Rightarrow> bool) \<Rightarrow> Group \<Rightarrow> int \<Rightarrow> (group_error + unit) \<times> Group" where
  "StartAt fails g n =
     (if g_committed g then (Err (AlreadyCommitted (g_next g)), g)
      else Commit fails (g\<lparr>g_next := n\<rparr>) n)"

section \<open>Lemmas\<close>

lemma format_int_no_newline: "0 \<le> n \<Longrightarrow> last (str_bytes (format_int n)) \<noteq> 10"
proof -
  assume n: "0 \<le> n"
  have ne: "format_int n \<noteq> []" using n by (simp add: format_int_def)
  then obtain d where d: "d < 10" "last (format_int n) = digit_char d"
    using format_int_nonneg_digits [OF n, of "last (format_int n)"] last_in_set by blast
  then have "last (str_bytes (format_int n)) = of_nat (48 + d)"
    using ne by (simp add: str_bytes_def last_map char_byte_def)
  moreover have "(of_nat (48 + d) :: byte) \<noteq> of_nat 10"
    using d(1) by (subst word_of_nat_eq_iff) (simp add: take_bit_nat_eq_self)
  ultimately show ?thesis by simp
qed

lemma decodeOffset_encodeOffset:
  assumes "0 \<le> n" "n < 2 ^ 63"
  shows "decodeOffset (encodeOffset n) = Some n"
proof -
  let ?b = "str_bytes (format_int n)"
  have ne: "format_int n \<noteq> []" using assms by (simp add: format_int_def)
  have p: "parse_int64 (format_int n) = Some n"
    using assms by (intro parse_int64_format_int) auto
  show ?thesis
    using ne p assms by (simp add: decodeOffset_def encodeOffset_def Let_def butlast_append)
qed

lemma encodeOffset_inj: "\<lbrakk>0 \<le> m; m < 2 ^ 63; 0 \<le> n; n < 2 ^ 63; encodeOffset m = encodeOffset n\<rbrakk> \<Longrightarrow> m = n"
  by (metis decodeOffset_encodeOffset option.inject)

lemma slash_not_alnum: "\<not> alnum CHR ''/''"
  by (simp add: alnum_def)

lemma name_matches_no_slash:
  "name_matches extra s \<Longrightarrow> CHR ''/'' \<notin> set extra \<Longrightarrow> CHR ''/'' \<notin> set s"
  by (cases s) (auto simp: list_all_iff slash_not_alnum)

lemma groupName_no_slash: "groupNamePattern s \<Longrightarrow> CHR ''/'' \<notin> set s"
  unfolding groupNamePattern_def by (rule name_matches_no_slash) auto

text \<open>Consistency of memory and disk: a committed group has a readable offset file, and the file is
  never behind the position in memory. It may be ahead: when only the directory sync of a commit
  failed, the rename has already happened.\<close>

definition group_inv :: "Group \<Rightarrow> bool" where
  "group_inv g \<longleftrightarrow> 0 \<le> g_next g \<and>
     (g_committed g \<longrightarrow> (case g_file g of None \<Rightarrow> False | Some raw \<Rightarrow>
        (case decodeOffset raw of None \<Rightarrow> False | Some m \<Rightarrow> g_next g \<le> m)))"

lemma Commit_cases:
  obtains
    (refused) "n < 0 \<or> n < g_next g" "snd (Commit fails g n) = g" "\<exists>e. fst (Commit fails g n) = Err e"
  | (same) "n = g_next g" "g_committed g" "Commit fails g n = (Ok (), g)"
  | (io) e where "g_next g \<le> n" "Commit fails g n = (Err e, g)"
  | (dirsync) e where "0 \<le> n" "g_next g \<le> n" "Commit fails g n = (Err e, g\<lparr>g_file := Some (encodeOffset n)\<rparr>)"
  | (ok) "0 \<le> n" "g_next g \<le> n"
      "Commit fails g n = (Ok (), g\<lparr>g_file := Some (encodeOffset n), g_next := n, g_committed := True\<rparr>)"
proof (cases "n < 0 \<or> n < g_next g")
  case True
  then have "snd (Commit fails g n) = g" "\<exists>e. fst (Commit fails g n) = Err e"
    by (auto simp: Commit_def)
  with True show ?thesis by (rule refused)
next
  case n: False
  show ?thesis
  proof (cases "n = g_next g \<and> g_committed g")
    case True
    then show ?thesis using n by (intro same) (simp_all add: Commit_def)
  next
    case False
    note step = n False
    show ?thesis
    proof (cases "List.find fails tmp_steps")
      case None
      show ?thesis
      proof (cases "fails GSyncDir")
        case True
        then show ?thesis using step None by (intro dirsync) (simp_all add: Commit_def)
      next
        case False
        then show ?thesis using step None by (intro ok) (auto simp: Commit_def)
      qed
    next
      case (Some c)
      then show ?thesis using step by (intro io) (simp_all add: Commit_def)
    qed
  qed
qed

lemma Commit_inv:
  assumes "group_inv g" "n < 2 ^ 63"
  shows "group_inv (snd (Commit fails g n))"
  using assms by (cases rule: Commit_cases [of n g fails])
    (auto simp: group_inv_def decodeOffset_encodeOffset split: option.splits)

lemma Commit_position:
  "fst (Commit fails g n) = Ok () \<Longrightarrow> g_next (snd (Commit fails g n)) = n \<and> g_committed (snd (Commit fails g n))"
  "fst (Commit fails g n) = Err e \<Longrightarrow> g_next (snd (Commit fails g n)) = g_next g"
  by (cases rule: Commit_cases [of n g fails], auto)+

lemma Commit_ok:
  assumes "\<not> (\<exists>c. fails c)" "0 \<le> n" "g_next g \<le> n"
  shows "fst (Commit fails g n) = Ok ()"
  using assms by (auto simp: Commit_def Let_def tmp_steps_def)

section \<open>The interface a reader relies on\<close>

text \<open>A position that is only ever moved forward: a successful commit sets it, a failed one leaves it.\<close>

locale commit_position =
  fixes inv :: "'g \<Rightarrow> bool"
    and position :: "'g \<Rightarrow> int"
    and commit :: "'f \<Rightarrow> 'g \<Rightarrow> int \<Rightarrow> ('e + unit) \<times> 'g"
  assumes commit_inv: "\<lbrakk>inv g; n < 2 ^ 63\<rbrakk> \<Longrightarrow> inv (snd (commit f g n))"
    and commit_ok: "fst (commit f g n) = Inr () \<Longrightarrow> position (snd (commit f g n)) = n \<and> position g \<le> n"
    and commit_err: "fst (commit f g n) = Inl e \<Longrightarrow> position (snd (commit f g n)) = position g"
begin

lemma commit_advances: "position g \<le> position (snd (commit f g n))"
  using commit_ok [of f g n] commit_err [of f g n] by (cases "fst (commit f g n)") auto

lemma commit_sequence_monotone:
  "position g \<le> position (fold (\<lambda>(f, n) g. snd (commit f g n)) cs g)"
proof (induction cs arbitrary: g)
  case (Cons c cs)
  obtain f n where "c = (f, n)" by fastforce
  then show ?case
    using Cons.IH [of "snd (commit f g n)"] commit_advances [of g f n] by simp
qed simp

lemma commit_sequence_inv:
  "\<lbrakk>inv g; \<forall>(f, n) \<in> set cs. n < 2 ^ 63\<rbrakk> \<Longrightarrow> inv (fold (\<lambda>(f, n) g. snd (commit f g n)) cs g)"
proof (induction cs arbitrary: g)
  case (Cons c cs)
  then show ?case by (cases c) (auto intro!: commit_inv Cons.IH)
qed simp

end

interpretation grp: commit_position group_inv Position Commit
proof
  show "\<lbrakk>group_inv g; n < 2 ^ 63\<rbrakk> \<Longrightarrow> group_inv (snd (Commit f g n))" for g n f by (rule Commit_inv)
  show "fst (Commit f g n) = Ok () \<Longrightarrow> Position (snd (Commit f g n)) = n \<and> Position g \<le> n" for f g n
    by (cases rule: Commit_cases [of n g f]) (auto simp: Position_def)
  show "fst (Commit f g n) = Err e \<Longrightarrow> Position (snd (Commit f g n)) = Position g" for f g n e
    by (simp add: Position_def Commit_position)
qed

section \<open>Properties\<close>

definition fresh_group :: Group where
  "fresh_group = \<lparr>g_name = ''g'', g_path = ''t/groups/g.offset'', g_next = 0, g_committed = False, g_file = None\<rparr>"

lemma fresh_group_simps [simp]: "group_inv fresh_group" "g_next fresh_group = 0" "\<not> g_committed fresh_group"
  by (simp_all add: fresh_group_def group_inv_def)

lemma groupName_g [simp]: "groupNamePattern ''g''"
  by (simp add: groupNamePattern_def alnum_def)

text \<open>C19: a commit is atomic under every I/O failure. Whichever calls fail, the offset file holds the
  old bytes or the complete new offset, the position in memory never moves backwards, memory and
  disk stay consistent, and after a reported success a restart resumes at or after the committed
  offset, never before it.\<close>

theorem commit_crash_safe:
  assumes "group_inv g" "n < 2 ^ 63" "groupNamePattern name" "Commit fails g n = (res, g')"
  shows "group_inv g' \<and> Position g \<le> Position g' \<and>
    (g_file g' = g_file g \<or> g_file g' = Some (encodeOffset n)) \<and>
    (res = Ok () \<longrightarrow> Position g' = n \<and>
      (\<exists>g''. OpenGroup (\<lambda>_. False) (g_file g') dir name = Ok g'' \<and> HasCommitted g'' \<and> n \<le> Position g''))"
proof -
  have inv: "group_inv g'" and pos: "Position g \<le> Position g'"
    using Commit_inv [OF assms(1,2), of fails] grp.commit_advances [of g fails n] assms(4) by simp_all
  have disk: "g_file g' = g_file g \<or> g_file g' = Some (encodeOffset n)"
    using assms(4) by (cases rule: Commit_cases [of n g fails]) auto
  have "Position g' = n \<and> (\<exists>g''. OpenGroup (\<lambda>_. False) (g_file g') dir name = Ok g'' \<and> HasCommitted g'' \<and> n \<le> Position g'')"
    if ok: "res = Ok ()"
  proof -
    have "g_next g' = n" "g_committed g'" using Commit_position(1) [of fails g n] ok assms(4) by auto
    with inv show ?thesis
      using assms(3) by (auto simp: group_inv_def OpenGroup_def HasCommitted_def Position_def split: option.splits)
  qed
  with inv pos disk show ?thesis by blast
qed

theorem commit_crash_safe_witness:
  "\<exists>g'. Commit (\<lambda>_. False) fresh_group 5 = (Ok (), g') \<and> group_inv g' \<and> Position g' = 5 \<and>
    (\<exists>g''. OpenGroup (\<lambda>_. False) (g_file g') ''t'' ''g'' = Ok g'' \<and> 5 \<le> Position g'')"
proof -
  obtain g' where c: "Commit (\<lambda>_. False) fresh_group 5 = (Ok (), g')"
    using Commit_ok [of "\<lambda>_. False" 5 fresh_group] by (cases "Commit (\<lambda>_. False) fresh_group 5") auto
  show ?thesis
    using commit_crash_safe [OF fresh_group_simps(1) _ groupName_g c, of "''t''"] c by auto
qed

text \<open>Over any sequence of commits, with any failures, a group's position only moves forward and
  its file stays readable.\<close>

theorem commits_monotone:
  assumes "group_inv g" "\<forall>(fails, n) \<in> set cs. n < 2 ^ 63"
  shows "let g' = fold (\<lambda>(fails, n) g. snd (Commit fails g n)) cs g in group_inv g' \<and> Position g \<le> Position g'"
  using grp.commit_sequence_inv [OF assms] grp.commit_sequence_monotone [of g cs] by (simp add: Let_def)

theorem commits_monotone_witness:
  "let g' = fold (\<lambda>(fails, n) g. snd (Commit fails g n)) [(\<lambda>c. c = GSyncDir, 4), (\<lambda>_. False, 2), (\<lambda>_. False, 1)] fresh_group
   in group_inv g' \<and> 0 \<le> Position g'"
  using commits_monotone [of fresh_group "[(\<lambda>c. c = GSyncDir, 4), (\<lambda>_. False, 2), (\<lambda>_. False, 1)]"]
  by (simp add: Position_def Let_def)

text \<open>The offset file is a round trip with damage detection. A written offset is read back, and a
  file in which one byte of the number was changed afterwards is rejected, so a group never resumes
  from a silently altered position.\<close>

theorem offset_file_damage_detected:
  assumes "0 \<le> n" "n < 2 ^ 63" "str_bytes (format_int n) = xs @ x # ys" "y \<noteq> x"
  shows "decodeOffset (encodeOffset n) = Some n \<and>
    decodeOffset ((xs @ y # ys) @ [10] @ putU32 (crc32c (xs @ x # ys))) = None"
proof -
  have "crc32c (xs @ y # ys) \<noteq> crc32c (xs @ x # ys)" using assms(4) by (rule crc32c_detects_one_byte)
  then show ?thesis
    using decodeOffset_encodeOffset [OF assms(1,2)] by (simp add: decodeOffset_def Let_def butlast_append)
qed

theorem offset_file_damage_detected_witness:
  "decodeOffset (encodeOffset 7) = Some 7 \<and> decodeOffset ([56] @ [10] @ putU32 (crc32c [55])) = None"
proof -
  have "str_bytes (format_int 7) = [] @ 55 # []"
    by (simp add: format_int_def format_nat.simps digit_char_def str_bytes_def char_byte_def)
  then show ?thesis using offset_file_damage_detected [of 7 "[]" 55 "[]" 56] by simp
qed

text \<open>C0: \<open>StartAt\<close> works once. On a group that has committed it is refused and changes nothing; on a
  fresh one, with working I/O, it sets and commits the start.\<close>

theorem start_at_only_once:
  "(g_committed g \<longrightarrow> StartAt fails g n = (Err (AlreadyCommitted (Position g)), g)) \<and>
   (\<not> g_committed g \<and> 0 \<le> n \<longrightarrow> fst (StartAt (\<lambda>_. False) g n) = Ok () \<and>
      Position (snd (StartAt (\<lambda>_. False) g n)) = n \<and> HasCommitted (snd (StartAt (\<lambda>_. False) g n)))"
  using Commit_ok [of "\<lambda>_. False" n "g\<lparr>g_next := n\<rparr>"] Commit_position(1) [of "\<lambda>_. False" "g\<lparr>g_next := n\<rparr>" n]
  by (auto simp: StartAt_def Position_def HasCommitted_def)

theorem start_at_only_once_witness:
  "Position (snd (StartAt (\<lambda>_. False) fresh_group 9)) = 9"
  using start_at_only_once [of fresh_group "\<lambda>_. False" 9] by simp

end
