(* ===== verification/Wal_Reader.thy ===== *)
theory Wal_Reader
  imports Wal_Log Wal_Group
begin

text \<open>
  Delivery of a topic's records to one consumer group, \<open>src/shared/bus/wal/reader.go\<close>. One
  element of the environment describes one iteration of the outer loop: what the context, the
  clock, the handler, the file system and the other goroutines do during it.
\<close>

section \<open>One iteration's environment\<close>

text \<open>\<open>rd_others\<close> is the effect of other goroutines on the log before the read; it may depend on the
  group's committed position, as a reclaim of consumed segments does. \<open>rd_stop\<close> says at which
  offsets the context is found cancelled before the record is handled.\<close>

record iteration =
  rd_done :: bool
  rd_others :: "int \<Rightarrow> Log \<Rightarrow> Log"
  rd_io :: io
  rd_wait_done :: bool
  rd_stop :: "int \<Rightarrow> bool"
  rd_handler_fails :: "int \<Rightarrow> Record \<Rightarrow> bool"
  rd_faults :: "int \<Rightarrow> group_call \<Rightarrow> bool"

datatype run_result =
  Stopped | ReadFailed seg_error | HandlerFailed int | CommitFailed int group_error

section \<open>The reader\<close>

text \<open>The loop over one batch, which ends with \<open>None\<close> when the batch is finished. The last component
  records the calls of the handler.\<close>

fun deliver_batch ::
  "iteration \<Rightarrow> int \<Rightarrow> Record list \<Rightarrow> Group \<Rightarrow> (int \<times> Record) list \<Rightarrow>
   run_result option \<times> Group \<times> (int \<times> Record) list" where
  "deliver_batch e off [] g tr = (None, g, tr)"
| "deliver_batch e off (r # rest) g tr =
     (if rd_stop e off then (Some Stopped, g, tr)
      else if rd_handler_fails e off r then (Some (HandlerFailed off), g, tr @ [(off, r)])
      else case Commit (rd_faults e off) g (off + 1) of
          (Err x, g') \<Rightarrow> (Some (CommitFailed off x), g', tr @ [(off, r)])
        | (Ok _, g') \<Rightarrow> deliver_batch e (off + 1) rest g' (tr @ [(off, r)]))"

text \<open>\<open>None\<close> means that the loop is still running after the given iterations.\<close>

fun reader_Run ::
  "iteration list \<Rightarrow> Log \<Rightarrow> Group \<Rightarrow> (int \<times> Record) list \<Rightarrow>
   run_result option \<times> Log \<times> Group \<times> (int \<times> Record) list" where
  "reader_Run [] l g tr = (None, l, g, tr)"
| "reader_Run (e # es) l g tr =
     (if rd_done e then (Some Stopped, l, g, tr)
      else let from = Position g; l1 = rd_others e from l in
        case log_ReadFrom (rd_io e) l1 from of
          (_, Some x) \<Rightarrow> (Some (ReadFailed x), l1, g, tr)
        | (batch, None) \<Rightarrow>
            (if batch = [] then
               (if rd_wait_done e then (Some Stopped, l1, g, tr) else reader_Run es l1 g tr)
             else case deliver_batch e from batch g tr of
                 (Some res, g', tr') \<Rightarrow> (Some res, l1, g', tr')
               | (None, g', tr') \<Rightarrow> reader_Run es l1 g' tr'))"

section \<open>What other goroutines may do\<close>

text \<open>Between two states the log may have been extended and may have lost a prefix that lies below
  a position; what it still holds keeps its offset.\<close>

definition record_at :: "Log \<Rightarrow> int \<Rightarrow> Record" where
  "record_at l off = log_items l ! nat (off - OldestOffset l)"

definition log_next :: "Log \<Rightarrow> int" where
  "log_next l = OldestOffset l + int (length (log_items l))"

definition log_evolves :: "int \<Rightarrow> Log \<Rightarrow> Log \<Rightarrow> bool" where
  "log_evolves p l l' \<longleftrightarrow> log_inv l' \<and> OldestOffset l \<le> OldestOffset l' \<and>
     (OldestOffset l' = OldestOffset l \<or> OldestOffset l' \<le> p) \<and> log_next l \<le> log_next l' \<and>
     (\<forall>off. OldestOffset l' \<le> off \<and> off < log_next l \<longrightarrow> record_at l' off = record_at l off)"

definition fair :: "iteration \<Rightarrow> bool" where
  "fair e \<longleftrightarrow> io_clean (rd_io e) \<and> (\<forall>p l. log_inv l \<longrightarrow> log_evolves p l (rd_others e p l))"

lemma log_evolves_refl [simp]: "log_inv l \<Longrightarrow> log_evolves p l l"
  by (simp add: log_evolves_def)

lemma record_at_item_at: "record_at l off = wal.item_at l off"
  by (simp add: record_at_def wal.item_at_def)

lemma log_ReadFrom_clean:
  "io_clean io \<Longrightarrow> log_inv l \<Longrightarrow> log_ReadFrom io l off = (fst (log_ReadFrom io_ok l off), None)"
  by (simp add: log_ReadFrom_items)

text \<open>The handler calls a batch leads to, in order and labelled from an offset.\<close>

fun labelled :: "int \<Rightarrow> Record list \<Rightarrow> (int \<times> Record) list" where
  "labelled off [] = []"
| "labelled off (r # rs) = (off, r) # labelled (off + 1) rs"

lemma labelled_fst: "map fst (labelled off rs) = [off .. off + int (length rs) - 1]"
proof (induction off rs rule: labelled.induct)
  case (2 off r rs)
  then show ?case by (simp add: upto_rec1 [of off] add.assoc [symmetric] add.commute)
qed simp

lemma labelled_length [simp]: "length (labelled off rs) = length rs"
  by (induction off rs rule: labelled.induct) auto

lemma labelled_Nil [simp]: "labelled off rs = [] \<longleftrightarrow> rs = []"
  by (cases rs) auto

lemma labelled_append:
  "labelled off (rs @ rs') = labelled off rs @ labelled (off + int (length rs)) rs'"
  by (induction off rs rule: labelled.induct) (auto simp: add.assoc add.commute)

lemma labelled_set:
  "(o', r) \<in> set (labelled off rs) \<longleftrightarrow> (\<exists>i < length rs. o' = off + int i \<and> r = rs ! i)"
proof (induction off rs rule: labelled.induct)
  case (2 off r' rs)
  then show ?case
    by (auto simp: less_Suc_eq_0_disj)
qed simp

section \<open>Delivering one batch\<close>

text \<open>The offset at which a run failed, in the handler or in the commit that follows it, and where that
  leaves the group after the handler was called on \<open>n\<close> records from offset \<open>p\<close> on: at the failed
  offset, which is the last one called on, or else just past the last one.\<close>

definition failed_at :: "run_result option \<Rightarrow> int option" where
  "failed_at res = (case res of Some (HandlerFailed off) \<Rightarrow> Some off | Some (CommitFailed off _) \<Rightarrow> Some off | _ \<Rightarrow> None)"

definition ends_at :: "run_result option \<Rightarrow> int \<Rightarrow> nat \<Rightarrow> int \<Rightarrow> bool" where
  "ends_at res p n q \<longleftrightarrow>
     (case failed_at res of Some off \<Rightarrow> q = off \<and> off = p + int n - 1 \<and> 0 < n | None \<Rightarrow> q = p + int n)"

lemma failed_at_simps [simp]:
  "failed_at None = None" "failed_at (Some Stopped) = None" "failed_at (Some (ReadFailed x)) = None"
  "failed_at (Some (HandlerFailed off)) = Some off" "failed_at (Some (CommitFailed off y)) = Some off"
  by (simp_all add: failed_at_def)

lemma ends_at_Suc: "ends_at res (p + 1) n q \<Longrightarrow> ends_at res p (Suc n) q"
  by (auto simp: ends_at_def split: option.splits)

lemma ends_at_shift: "ends_at res (p + int m) n q \<Longrightarrow> ends_at res p (m + n) q"
  by (auto simp: ends_at_def split: option.splits)

lemma ends_at_ge: "ends_at res p n q \<Longrightarrow> p \<le> q"
  by (auto simp: ends_at_def split: option.splits)

text \<open>A batch calls the handler on some first \<open>k\<close> records and advances the group past \<open>k\<close> of them,
  or \<open>k - 1\<close> when it ends in the handler's or the commit's failure on the last one.\<close>

lemma deliver_batch_spec:
  assumes "Position g = off" "deliver_batch e off rs g tr = (res, g', tr')"
  shows "\<exists>k \<le> length rs. tr' = tr @ labelled off (take k rs) \<and>
    ends_at res off k (Position g') \<and>
    (res = None \<longrightarrow> k = length rs) \<and> (\<forall>x. res \<noteq> Some (ReadFailed x)) \<and>
    (\<forall>o'. res = Some (HandlerFailed o') \<longrightarrow> o' = Position g')"
  using assms
proof (induction e off rs g tr rule: deliver_batch.induct)
  case (1 e off g tr)
  then show ?case by (auto simp: ends_at_def)
next
  case (2 e off r rest g tr)
  consider (stop) "rd_stop e off" | (handler) "\<not> rd_stop e off" "rd_handler_fails e off r"
    | (commit) "\<not> rd_stop e off" "\<not> rd_handler_fails e off r" by blast
  then show ?case
  proof cases
    case stop
    with "2.prems" show ?thesis by (intro exI [of _ 0]) (auto simp: ends_at_def)
  next
    case handler
    with "2.prems" show ?thesis by (intro exI [of _ 1]) (auto simp: ends_at_def)
  next
    case commit
    obtain c g1 where c: "Commit (rd_faults e off) g (off + 1) = (c, g1)" by fastforce
    show ?thesis
    proof (cases c)
      case (Inl x)
      then have "Position g1 = Position g" using grp.commit_err [of "rd_faults e off" g "off + 1"] c by simp
      with Inl c commit "2.prems" show ?thesis
        by (intro exI [of _ 1]) (auto simp: ends_at_def)
    next
      case (Inr u)
      then have pos: "Position g1 = off + 1" using grp.commit_ok [of "rd_faults e off" g "off + 1"] c by simp
      have run: "deliver_batch e (off + 1) rest g1 (tr @ [(off, r)]) = (res, g', tr')"
        using "2.prems"(2) commit c Inr by simp
      obtain k where k: "k \<le> length rest" "tr' = (tr @ [(off, r)]) @ labelled (off + 1) (take k rest)"
        "ends_at res (off + 1) k (Position g')"
        "res = None \<longrightarrow> k = length rest" "\<forall>x. res \<noteq> Some (ReadFailed x)"
        "\<forall>o'. res = Some (HandlerFailed o') \<longrightarrow> o' = Position g'"
        using "2.IH" [OF commit c [symmetric] Inr pos run] by blast
      then show ?thesis by (intro exI [of _ "Suc k"]) (auto intro: ends_at_Suc)
    qed
  qed
qed

section \<open>Running\<close>

definition log_kept :: "Log \<Rightarrow> Log \<Rightarrow> bool" where
  "log_kept l l' \<longleftrightarrow> OldestOffset l \<le> OldestOffset l' \<and> log_next l \<le> log_next l' \<and>
     (\<forall>off. OldestOffset l' \<le> off \<and> off < log_next l \<longrightarrow> record_at l' off = record_at l off)"

lemma log_evolves_kept: "log_evolves p l l' \<Longrightarrow> log_kept l l'"
  by (simp add: log_evolves_def log_kept_def)

lemma log_kept_refl [simp]: "log_kept l l"
  by (simp add: log_kept_def)

lemma log_kept_trans: "log_kept l l1 \<Longrightarrow> log_kept l1 l2 \<Longrightarrow> log_kept l l2"
  unfolding log_kept_def by force

text \<open>What a run has handed to the handler: records \<open>rs\<close> from offset \<open>p\<close> on, each of them the one the
  log stores there, and the group at \<open>q\<close>.\<close>

definition delivered :: "Log \<Rightarrow> run_result option \<Rightarrow> int \<Rightarrow> int \<Rightarrow> Record list \<Rightarrow> bool" where
  "delivered l res p q rs \<longleftrightarrow>
     ends_at res p (length rs) q \<and>
     p + int (length rs) \<le> max p (log_next l) \<and>
     (\<forall>i < length rs. OldestOffset l \<le> p + int i \<longrightarrow> rs ! i = record_at l (p + int i))"

lemma batch_records:
  assumes "log_inv l" "OldestOffset l \<le> p" "k \<le> length (fst (log_ReadFrom io_ok l p))"
  shows "p + int k \<le> max p (log_next l)"
    and "i < k \<Longrightarrow> take k (fst (log_ReadFrom io_ok l p)) ! i = record_at l (p + int i)"
proof -
  have "int (length (fst (log_ReadFrom io_ok l p))) = max 0 (log_next l - p)"
    using wal.length_read [OF assms(1,2)] wal.next_offset [OF assms(1)] by (simp add: log_next_def)
  with assms(3) show "p + int k \<le> max p (log_next l)" by linarith
  show "i < k \<Longrightarrow> take k (fst (log_ReadFrom io_ok l p)) ! i = record_at l (p + int i)"
    using wal.read_nth [OF assms(1,2), of i] assms(3) by (simp add: record_at_item_at)
qed

lemma delivered_later:
  assumes "delivered l res p q rs" "log_kept l l'" "OldestOffset l \<le> p"
  shows "delivered l' res p q rs"
proof -
  have "rs ! i = record_at l' (p + int i)" if "i < length rs" "OldestOffset l' \<le> p + int i" for i
  proof -
    have "rs ! i = record_at l (p + int i)" using assms(1,3) that(1) by (simp add: delivered_def)
    moreover have "p + int i < log_next l" using assms(1) that(1) by (auto simp: delivered_def max_def split: if_splits)
    ultimately show ?thesis using assms(2) that(2) by (simp add: log_kept_def)
  qed
  moreover have "p + int (length rs) \<le> max p (log_next l')"
    using assms(1,2) by (auto simp: delivered_def log_kept_def)
  ultimately show ?thesis using assms(1) by (simp add: delivered_def)
qed

lemma delivered_append:
  assumes "delivered l None p q rs" "delivered l res q q' rs'"
  shows "delivered l res p q' (rs @ rs')"
proof -
  have q: "q = p + int (length rs)" using assms(1) by (simp add: delivered_def ends_at_def)
  have "(rs @ rs') ! i = record_at l (p + int i)" if "i < length (rs @ rs')" "OldestOffset l \<le> p + int i" for i
  proof (cases "i < length rs")
    case True
    then show ?thesis using assms(1) that(2) by (simp add: delivered_def nth_append)
  next
    case False
    then have eq: "q + int (i - length rs) = p + int i" using q by simp
    then have "rs' ! (i - length rs) = record_at l (q + int (i - length rs))"
      using assms(2) that False by (simp add: delivered_def)
    then show ?thesis unfolding eq using False by (simp add: nth_append)
  qed
  moreover have "ends_at res p (length (rs @ rs')) q'"
    using assms(2) ends_at_shift [of res p "length rs"] by (simp add: delivered_def q)
  ultimately show ?thesis using assms q by (simp add: delivered_def) (auto simp: add.assoc)
qed

lemma reader_Run_spec:
  assumes "log_inv l" "OldestOffset l \<le> Position g" "\<forall>e \<in> set es. fair e"
    and "reader_Run es l g tr = (res, l', g', tr')"
  shows "\<exists>rs. tr' = tr @ labelled (Position g) rs \<and> log_kept l l' \<and> log_inv l' \<and>
    OldestOffset l' \<le> Position g' \<and> delivered l' res (Position g) (Position g') rs"
  using assms
proof (induction es l g tr rule: reader_Run.induct)
  case (1 l g tr)
  then show ?case by (auto simp: delivered_def ends_at_def intro!: exI [of _ "[]"])
next
  case (2 e es l g tr)
  let ?p = "Position g" and ?l1 = "rd_others e (Position g) l"
  let ?b = "fst (log_ReadFrom io_ok ?l1 ?p)"
  have ev: "log_evolves ?p l ?l1" and clean: "io_clean (rd_io e)" and es: "\<forall>e \<in> set es. fair e"
    using "2.prems"(1,3) by (auto simp: fair_def)
  have l1: "log_inv ?l1" "OldestOffset ?l1 \<le> ?p" "log_kept l ?l1"
    using ev "2.prems"(2) log_evolves_kept by (auto simp: log_evolves_def)
  note rd = log_ReadFrom_clean [OF clean l1(1), of ?p]
  have none: "delivered k None p p []" "delivered k (Some Stopped) p p []" for k p
    by (simp_all add: delivered_def ends_at_def)
  consider (cancelled) "rd_done e" | (wait) "\<not> rd_done e" "?b = []" "rd_wait_done e"
    | (idle) "\<not> rd_done e" "?b = []" "\<not> rd_wait_done e" | (batch) "\<not> rd_done e" "?b \<noteq> []" by blast
  then show ?case
  proof cases
    case cancelled
    with "2.prems" none show ?thesis by (intro exI [of _ "[]"]) auto
  next
    case wait
    with "2.prems"(4) none l1 rd show ?thesis by (intro exI [of _ "[]"]) auto
  next
    case idle
    then have run: "reader_Run es ?l1 g tr = (res, l', g', tr')" using "2.prems"(4) rd by simp
    show ?thesis
      using "2.IH"(1) [OF idle(1) refl refl rd [symmetric] refl _ idle(3) l1(1,2) es run] idle(2)
        log_kept_trans [OF l1(3)] rd by auto
  next
    case batch
    obtain r1 g1 t1 where d: "deliver_batch e ?p ?b g tr = (r1, g1, t1)" by (metis prod_cases3)
    obtain k where k: "k \<le> length ?b" "t1 = tr @ labelled ?p (take k ?b)"
      "ends_at r1 ?p k (Position g1)"
      "r1 = None \<longrightarrow> k = length ?b"
      using deliver_batch_spec [OF refl d] by blast
    have del: "delivered ?l1 r1 ?p (Position g1) (take k ?b)"
      using k(1,3) batch_records [OF l1(1,2) k(1)] batch(2) by (auto simp: delivered_def)
    show ?thesis
    proof (cases r1)
      case (Some x)
      with d batch "2.prems"(4) rd have "l' = ?l1" "g' = g1" "tr' = t1" "res = r1" by auto
      moreover have "?p \<le> Position g1" using k(3) by (rule ends_at_ge)
      ultimately show ?thesis using del k(2) l1 by auto
    next
      case None
      then have run: "reader_Run es ?l1 g1 t1 = (res, l', g', tr')" using d batch "2.prems"(4) rd by simp
      have pos: "Position g1 = ?p + int (length (take k ?b))"
        using k(1,3) None by (simp add: ends_at_def)
      have old: "OldestOffset ?l1 \<le> Position g1" using pos l1(2) by simp
      obtain rs where rs: "tr' = t1 @ labelled (Position g1) rs" "log_kept ?l1 l'" "log_inv l'"
        "delivered l' res (Position g1) (Position g') rs" "OldestOffset l' \<le> Position g'"
        using "2.IH"(2) [OF batch(1) refl refl rd [symmetric] refl batch(2) d [symmetric] None refl l1(1) old es run] 
        by blast
      have "delivered l' None ?p (Position g1) (take k ?b)"
        using delivered_later [OF del rs(2) l1(2)] None by simp
      then have "delivered l' res ?p (Position g') (take k ?b @ rs)"
        using rs(4) by (rule delivered_append)
      moreover have "tr' = tr @ labelled ?p (take k ?b @ rs)"
        by (simp add: labelled_append rs(1) k(2) pos)
      ultimately show ?thesis using rs(3,5) log_kept_trans [OF l1(3) rs(2)] by blast
    qed
  qed
qed

lemma handler_failed_position:
  "reader_Run es l g tr = (Some (HandlerFailed off), l', g', tr') \<Longrightarrow> Position g' = off"
proof (induction es l g tr rule: reader_Run.induct)
  case (2 e es l g tr)
  let ?l1 = "rd_others e (Position g) l"
  obtain b x where b: "log_ReadFrom (rd_io e) ?l1 (Position g) = (b, x)" by fastforce
  obtain r1 g1 t1 where d: "deliver_batch e (Position g) b g tr = (r1, g1, t1)" by (metis prod_cases3)
  note spec = deliver_batch_spec [OF refl d]
  have "\<not> rd_done e" using "2.prems" by (cases "rd_done e") auto
  moreover have "x = None" using "2.prems" b \<open>\<not> rd_done e\<close> by (cases x) auto
  ultimately have nd: "\<not> rd_done e" "x = None" by blast+
  show ?case
  proof (cases "b = []")
    case True
    then have "\<not> rd_wait_done e" "reader_Run es ?l1 g tr = (Some (HandlerFailed off), l', g', tr')"
      using "2.prems" nd b by (auto simp: Let_def split: if_splits)
    then show ?thesis using "2.IH"(1) [OF nd(1) refl refl b [symmetric] nd(2) True] by blast
  next
    case False
    show ?thesis
    proof (cases r1)
      case None
      then have "reader_Run es ?l1 g1 t1 = (Some (HandlerFailed off), l', g', tr')"
        using "2.prems" nd b d False by (simp add: Let_def)
      then show ?thesis using "2.IH"(2) [OF nd(1) refl refl b [symmetric] nd(2) False d [symmetric] None refl] by blast
    next
      case (Some y)
      then have "r1 = Some (HandlerFailed off)" "g1 = g'" using "2.prems" nd b d False by (simp_all add: Let_def)
      then show ?thesis using spec by auto
    qed
  qed
qed simp

section \<open>Appends and reclaims are such changes\<close>

lemma log_evolves_Append:
  assumes "log_inv l" "storable r"
  shows "log_evolves p l (snd (log_Append io_ok l r))"
proof (cases "log_closed l \<or> 0 < MaxBytes (log_opts l) \<and> MaxBytes (log_opts l) \<le> totalBytes l")
  case True
  then show ?thesis using assms(1) by (auto simp: log_Append_def)
next
  case False
  obtain pss where pss: "log_rep pss l" "log_payloads l = concat pss"
    using assms(1) log_inv_rep by blast
  obtain pss' l' where l': "log_Append io_ok l r = (Ok (OldestOffset l + int (length (concat pss))), l')"
    "log_rep pss' l'" "concat pss' = concat pss @ [encode r]" "OldestOffset l' = OldestOffset l"
    by (rule log_Append_rep [OF pss(1) _ assms(2) io_clean_io_ok(1)]) (use False in auto)
  have "log_items l' = log_items l @ [r]"
    using log_rep_inv [OF l'(2)] l'(3) pss(2) payload_ok_encode [OF assms(2)] by (simp add: log_items_def)
  then show ?thesis
    using l' log_rep_inv [OF l'(2)] by (auto simp: log_evolves_def log_next_def record_at_def nth_append)
qed

lemma log_evolves_Reclaim:
  assumes "log_inv l"
  shows "log_evolves p l (snd (Reclaim io_ok l p))"
proof -
  obtain pss where pss: "log_rep pss l" "log_payloads l = concat pss"
    using assms(1) log_inv_rep by blast
  obtain m l' where l': "Reclaim io_ok l p = ((totalBytes l - totalBytes l', None), l')"
    "log_rep (drop m pss) l'" "OldestOffset l' = OldestOffset l + int (length (concat (take m pss)))"
    "m = 0 \<or> OldestOffset l' \<le> p"
    by (rule Reclaim_rep [OF pss(1) io_clean_io_ok(1), of p]) metis
  let ?n = "length (concat (take m pss))"
  have split: "concat pss = concat (take m pss) @ concat (drop m pss)"
    by (metis append_take_drop_id concat_append)
  have items: "log_items l' = drop ?n (log_items l)" "?n \<le> length (log_items l)"
    using log_rep_inv [OF l'(2)] pss(2) by (simp_all add: log_items_def split drop_map)
  have "record_at l' off = record_at l off" if "OldestOffset l' \<le> off" "off < log_next l" for off
  proof -
    have "nat (off - OldestOffset l) = ?n + nat (off - OldestOffset l')"
      using that l'(3) by linarith
    with items show ?thesis by (simp add: record_at_def)
  qed
  moreover have "log_next l' = log_next l" using items l'(3) by (simp add: log_next_def)
  ultimately show ?thesis
    using l' log_rep_inv [OF l'(2)] by (auto simp: log_evolves_def)
qed

section \<open>Properties\<close>

definition calm :: iteration where
  "calm = \<lparr>rd_done = False, rd_others = \<lambda>_ l. l, rd_io = io_ok, rd_wait_done = False, rd_stop = \<lambda>_. False,
     rd_handler_fails = \<lambda>_ _. False, rd_faults = \<lambda>_ _. False\<rparr>"

lemma calm_simps [simp]:
  "rd_done calm = False" "rd_others calm = (\<lambda>_ l. l)" "rd_io calm = io_ok" "rd_wait_done calm = False"
  "rd_stop calm = (\<lambda>_. False)" "rd_handler_fails calm = (\<lambda>_ _. False)" "rd_faults calm = (\<lambda>_ _. False)"
  by (simp_all add: calm_def)

lemma calm_batch:
  assumes "0 \<le> Position g"
  shows "\<exists>g'. deliver_batch calm (Position g) rs g tr = (None, g', tr @ labelled (Position g) rs) \<and>
    Position g' = Position g + int (length rs)"
  using assms
proof (induction rs arbitrary: g tr)
  case (Cons r rs)
  obtain c g1 where c: "Commit (\<lambda>_. False) g (Position g + 1) = (c, g1)" by fastforce
  have ok: "c = Ok ()" "Position g1 = Position g + 1"
    using Commit_ok [of "\<lambda>_. False" "Position g + 1" g] Commit_position(1) [of "\<lambda>_. False" g "Position g + 1"]
      c Cons.prems by (auto simp: Position_def)
  obtain g' where "deliver_batch calm (Position g1) rs g1 (tr @ [(Position g, r)]) =
      (None, g', (tr @ [(Position g, r)]) @ labelled (Position g1) rs)"
    "Position g' = Position g1 + int (length rs)"
    using Cons.IH [of g1 "tr @ [(Position g, r)]"] Cons.prems ok(2) by auto
  with c ok show ?case by auto
qed auto

lemma calm_run:
  assumes "log_inv l" "OldestOffset l \<le> Position g" "0 \<le> Position g" "Position g \<le> log_next l"
  shows "\<exists>g'. reader_Run [calm] l g [] =
      (None, l, g', labelled (Position g) (drop (nat (Position g - OldestOffset l)) (log_items l))) \<and>
    Position g' = log_next l"
proof -
  let ?b = "drop (nat (Position g - OldestOffset l)) (log_items l)"
  have "Position g + int (length ?b) = log_next l"
    using assms(2,4) by (simp add: log_next_def)
  then show ?thesis
    using calm_batch [OF assms(3), of ?b "[]"] assms(1)
    by (cases "?b = []") (auto simp: log_ReadFrom_items Let_def)
qed

lemma fair_reclaiming: "fair (calm\<lparr>rd_others := \<lambda>p l. snd (Reclaim io_ok l p)\<rparr>)"
  by (simp add: fair_def log_evolves_Reclaim)

text \<open>C3: delivery is in order, without gaps, and each record comes with the offset it is stored at.
  Whatever the handler, the context, the commits and other goroutines (appending, reclaiming up to
  the committed position) do, a run that starts inside the log hands the handler exactly the
  offsets from the group's position on, consecutively; each record is the one the log stores
  there; and the group ends at the first offset not handed over, except when the run ended in a
  failure of the handler or the commit at some offset, where that offset is the last one handed over
  and the group stands at it, so that the record is not passed over.\<close>

theorem reader_delivers_in_order:
  assumes "log_inv l" "OldestOffset l \<le> Position g" "\<forall>e \<in> set es. fair e"
    and "reader_Run es l g [] = (res, l', g', tr)"
  shows "map fst tr = [Position g .. Position g + int (length tr) - 1] \<and>
    (\<forall>off r. (off, r) \<in> set tr \<and> OldestOffset l' \<le> off \<longrightarrow> r = record_at l' off) \<and>
    (case failed_at res of
       Some off \<Rightarrow> Position g' = off \<and> off = Position g + int (length tr) - 1 \<and> tr \<noteq> []
     | None \<Rightarrow> Position g' = Position g + int (length tr))"
proof -
  obtain rs where rs: "tr = labelled (Position g) rs" "delivered l' res (Position g) (Position g') rs"
    using reader_Run_spec [OF assms] by auto
  have "r = record_at l' off" if "(off, r) \<in> set tr" "OldestOffset l' \<le> off" for off r
    using that rs by (auto simp: labelled_set delivered_def)
  then show ?thesis
    using rs by (auto simp: labelled_fst delivered_def ends_at_def split: option.splits)
qed

theorem reader_delivers_in_order_witness:
  "map fst (snd (snd (snd (reader_Run [calm\<lparr>rd_others := \<lambda>p l. snd (Reclaim io_ok l p)\<rparr>] sample_log fresh_group []))))
    = [0 .. int (length (snd (snd (snd (reader_Run [calm\<lparr>rd_others := \<lambda>p l. snd (Reclaim io_ok l p)\<rparr>]
          sample_log fresh_group []))))) - 1] \<and>
   Position (fst (snd (snd (reader_Run [calm\<lparr>rd_handler_fails := \<lambda>_ _. True\<rparr>] sample_log fresh_group [])))) = 0"
proof
  let ?es = "[calm\<lparr>rd_others := \<lambda>p l. snd (Reclaim io_ok l p)\<rparr>]"
  obtain res l' g' tr where run: "reader_Run ?es sample_log fresh_group [] = (res, l', g', tr)"
    by (metis prod_cases4)
  have "\<forall>e \<in> set ?es. fair e" using fair_reclaiming by simp
  then show "map fst (snd (snd (snd (reader_Run ?es sample_log fresh_group [])))) =
      [0 .. int (length (snd (snd (snd (reader_Run ?es sample_log fresh_group []))))) - 1]"
    using reader_delivers_in_order [OF sample_log_inv(1) _ _ run] run by (simp add: Position_def)
next
  let ?es = "[calm\<lparr>rd_handler_fails := \<lambda>_ _. True\<rparr>]"
  have run: "reader_Run ?es sample_log fresh_group [] = (Some (HandlerFailed 0), sample_log, fresh_group, [(0, sample_record)])"
    by (simp add: log_ReadFrom_items Position_def)
  have "\<forall>e \<in> set ?es. fair e" by (simp add: fair_def)
  then show "Position (fst (snd (snd (reader_Run ?es sample_log fresh_group [])))) = 0"
    using reader_delivers_in_order [OF sample_log_inv(1) _ _ run] run by (simp add: Position_def)
qed

text \<open>A caught-up reader. From a position inside the log, one iteration in which nothing fails
  hands over every record up to the end of the log and commits the end as the new position.\<close>

theorem reader_catches_up:
  assumes "log_inv l" "OldestOffset l \<le> Position g" "0 \<le> Position g" "Position g \<le> log_next l"
  shows "\<exists>g'. reader_Run [calm] l g [] =
      (None, l, g', labelled (Position g) (drop (nat (Position g - OldestOffset l)) (log_items l))) \<and>
    Position g' = log_next l"
  by (rule calm_run [OF assms])

theorem reader_catches_up_witness:
  "\<exists>g'. reader_Run [calm] sample_log fresh_group [] = (None, sample_log, g', [(0, sample_record)]) \<and> Position g' = 1"
  using reader_catches_up [of sample_log fresh_group] by (simp add: Position_def log_next_def)

text \<open>A record whose handler failed is delivered again. The failed offset is where the group
  stands after the run, and the next run that gets to handle anything starts with that record.\<close>

theorem failed_record_redelivered:
  assumes "log_inv l" "OldestOffset l \<le> Position g" "\<forall>e \<in> set es. fair e"
    and "reader_Run es l g [] = (Some (HandlerFailed off), l', g', tr)"
    and "\<forall>e \<in> set es'. fair e" "reader_Run es' l' g' [] = (res, l'', g'', tr')" "tr' \<noteq> []"
    and "OldestOffset l'' \<le> off"
  shows "Position g' = off \<and> hd tr' = (off, record_at l'' off)"
proof -
  have pos: "Position g' = off"
    using assms(4) by (rule handler_failed_position)
  have l': "log_inv l'" "OldestOffset l' \<le> Position g'"
    using reader_Run_spec [OF assms(1-4)] by auto
  obtain rs where rs: "tr' = labelled off rs" "delivered l'' res off (Position g'') rs"
    using reader_Run_spec [OF l' assms(5,6)] pos by auto
  with assms(7) obtain r rs0 where r: "rs = r # rs0" by (cases rs) auto
  then have "r = record_at l'' off" using rs(2) assms(8) by (auto simp: delivered_def)
  with rs r pos show ?thesis by simp
qed

theorem failed_record_redelivered_witness:
  "\<exists>g'. reader_Run [calm\<lparr>rd_handler_fails := \<lambda>_ _. True\<rparr>] sample_log fresh_group [] =
      (Some (HandlerFailed 0), sample_log, g', [(0, sample_record)]) \<and> Position g' = 0"
proof -
  let ?es = "[calm\<lparr>rd_handler_fails := \<lambda>_ _. True\<rparr>]"
  have run: "reader_Run ?es sample_log fresh_group [] = (Some (HandlerFailed 0), sample_log, fresh_group, [(0, sample_record)])"
    by (simp add: log_ReadFrom_items Position_def)
  have f: "\<forall>e \<in> set ?es. fair e" by (simp add: fair_def)
  show ?thesis
    using failed_record_redelivered [OF sample_log_inv(1) _ f run f run] run by (simp add: Position_def)
qed

text \<open>A group whose position lies below the oldest record kept is given wrong offsets. The read
  silently starts at the oldest record, but the loop counts offsets from the group's position, so
  every record is handed over, and committed, under an offset that is too low by the gap; the group
  then stands below the end of the log although it has seen all of it.\<close>

theorem reader_below_oldest_mislabels:
  assumes "log_inv l" "0 \<le> Position g" "Position g < OldestOffset l" "log_items l = r # rs"
    and "reader_Run [calm] l g [] = (res, l', g', tr)"
  shows "tr = labelled (Position g) (log_items l) \<and> hd tr = (Position g, record_at l (OldestOffset l)) \<and>
    Position g' < log_next l"
proof -
  have b: "log_ReadFrom io_ok l (Position g) = (log_items l, None)"
    using assms(1,3) by (simp add: log_ReadFrom_items)
  obtain g1 where g1: "deliver_batch calm (Position g) (log_items l) g [] =
      (None, g1, labelled (Position g) (log_items l))" "Position g1 = Position g + int (length (log_items l))"
    using calm_batch [OF assms(2), of "log_items l" "[]"] by auto
  have "reader_Run [calm] l g [] = (None, l, g1, labelled (Position g) (log_items l))"
    using b g1(1) assms(4) by (simp add: Let_def)
  with assms(3-5) g1(2) show ?thesis by (simp add: record_at_def log_next_def)
qed

theorem reader_below_oldest_mislabels_witness:
  "\<exists>res l' g'. reader_Run [calm] (sample_log\<lparr>segments := [sample_segment\<lparr>seg_base := 10\<rparr>]\<rparr>) fresh_group []
     = (res, l', g', [(0, sample_record)])"
proof -
  let ?l = "sample_log\<lparr>segments := [sample_segment\<lparr>seg_base := 10\<rparr>]\<rparr>"
  have rep: "log_rep [[encode sample_record]] ?l"
    using sample_segment_rep(1) by (simp add: log_rep_def seg_rep_def)
  then have l: "log_inv ?l" "log_items ?l = [sample_record]" "OldestOffset ?l = 10"
    using log_rep_inv [OF rep] payload_ok_encode [of sample_record] by (simp_all add: log_items_def OldestOffset_def)
  obtain res l' g' tr where run: "reader_Run [calm] ?l fresh_group [] = (res, l', g', tr)" by (metis prod_cases4)
  show ?thesis
    using reader_below_oldest_mislabels [OF l(1) _ _ l(2) run] l run by (simp add: Position_def)
qed

end
