(* ===== verification/Bus.thy ===== *)
theory Bus
  imports Wal_Reader
begin

text \<open>
  The in-process implementation of the message transport, \<open>src/shared/bus/inprocess.go\<close>, with the
  port's types (\<open>bus.go\<close>) and the header conversions of \<open>trace.go\<close>: opening topics on first use,
  publishing, subscribing a group, running a subscription and closing. What the tracing library
  injects into a carrier and what JSON marshalling yields are arguments.
\<close>

section \<open>State\<close>

record InProcessOptions =
  o_SegmentBytes :: int
  o_SyncInterval :: int
  o_MaxBytes :: int
  o_FullTimeout :: int
  StartFromEarliest :: bool

text \<open>Logs and groups are shared by pointer; the maps hold their current state.\<close>

record InProcessBus =
  bus_dir :: string
  bus_opts :: Options
  logs :: "(string, Log) gomap"
  groups :: "(string, Group) gomap"
  startEarliest :: bool
  bus_closed :: bool

datatype bus_error =
    NoDataDirectory | BusMkdir | BadTopicName string | BusClosed | BusFull | BusLog log_error
  | BusGroup group_error | NoHandler | NoTopics | MarshalFailed | BusPanic

record Message =
  m_Topic :: string
  m_Key :: string
  m_Value :: bytes
  m_Timestamp :: int
  m_Partition :: int
  m_Offset :: int
  m_Headers :: "(string, bytes) gomap"

text \<open>The file system as the bus sees it when it opens a topic or a group.\<close>

record bus_env =
  be_io :: io
  be_entries :: "string \<Rightarrow> (string \<times> bool) list"
  be_offset :: "string \<Rightarrow> string \<Rightarrow> bytes option"
  be_faults :: "group_call \<Rightarrow> bool"

text \<open>One publish: the time stamped on the record, the clock when the append starts, and the rounds
  of waiting for space.\<close>

type_synonym attempt = "int \<times> int \<times> ((Log \<Rightarrow> Log) \<times> int) list"

definition topicNamePattern :: "string \<Rightarrow> bool" where
  "topicNamePattern = name_matches ''_.-''"

definition NewInProcessBus :: "io \<Rightarrow> string \<Rightarrow> InProcessOptions \<Rightarrow> bus_error + InProcessBus" where
  "NewInProcessBus io dir opt =
     (if dir = [] then Err NoDataDirectory
      else if io_fail io dir IoMkdir then Err BusMkdir
      else Ok \<lparr>bus_dir = dir,
              bus_opts = \<lparr>SegmentBytes = o_SegmentBytes opt, SyncInterval = o_SyncInterval opt,
                          MaxBytes = o_MaxBytes opt, FullTimeout = o_FullTimeout opt\<rparr>,
              logs = [], groups = [], startEarliest = StartFromEarliest opt, bus_closed = False\<rparr>)"

section \<open>Trace headers\<close>

text \<open>The carrier filled by the tracing library becomes the record's headers, and back.\<close>

definition headersFromContext :: "(string, string) gomap \<Rightarrow> (string, bytes) gomap" where
  "headersFromContext carrier = map (\<lambda>(k, v). (k, str_bytes v)) carrier"

definition contextWithTrace :: "(string, bytes) gomap \<Rightarrow> (string, string) gomap" where
  "contextWithTrace headers = map (\<lambda>(k, v). (k, bytes_str v)) headers"

section \<open>Topics\<close>

definition topicDir :: "InProcessBus \<Rightarrow> string \<Rightarrow> string" where
  "topicDir b topic = bus_dir b @ ''/'' @ topic"

definition topicLog :: "bus_env \<Rightarrow> InProcessBus \<Rightarrow> string \<Rightarrow> (bus_error + Log) \<times> InProcessBus" where
  "topicLog env b topic =
     (if \<not> topicNamePattern topic then (Err (BadTopicName topic), b)
      else if bus_closed b then (Err BusClosed, b)
      else case map_of (logs b) topic of
          Some l \<Rightarrow> (Ok l, b)
        | None \<Rightarrow>
            (case log_Open (be_io env) (be_entries env (topicDir b topic)) (topicDir b topic) (bus_opts b) of
               Err e \<Rightarrow> (Err (BusLog e), b)
             | Ok l \<Rightarrow> (Ok l, b\<lparr>logs := AList.update topic l (logs b)\<rparr>)))"

section \<open>Publishing\<close>

text \<open>One append to a topic's log, with the error mapping of \<open>Publish\<close>; \<open>None\<close> while it still waits.\<close>

definition append_to ::
  "bus_env \<Rightarrow> InProcessBus \<Rightarrow> string \<Rightarrow> Log \<Rightarrow> Record \<Rightarrow> int \<Rightarrow> ((Log \<Rightarrow> Log) \<times> int) list \<Rightarrow>
   ((bus_error + unit) \<times> InProcessBus) option" where
  "append_to env b topic l r now rounds =
     (case AppendWithBackpressure (be_io env) now l r rounds of
        None \<Rightarrow> None
      | Some (res, l') \<Rightarrow>
          Some (case res of
                  Err LogFull \<Rightarrow> Err BusFull
                | Err e \<Rightarrow> Err (BusLog e)
                | Ok _ \<Rightarrow> Ok (),
                b\<lparr>logs := AList.update topic l' (logs b)\<rparr>))"

definition Publish ::
  "bus_env \<Rightarrow> InProcessBus \<Rightarrow> attempt \<Rightarrow> (string, string) gomap \<Rightarrow> string \<Rightarrow> string \<Rightarrow> bytes \<Rightarrow>
   ((bus_error + unit) \<times> InProcessBus) option" where
  "Publish env b att carrier topic key val =
     (case topicLog env b topic of
        (Err e, b1) \<Rightarrow> Some (Err e, b1)
      | (Ok l, b1) \<Rightarrow>
          (case att of (ts, now, rounds) \<Rightarrow>
             append_to env b1 topic l
               \<lparr>Timestamp = ts, Key = key, Value = val, Headers = headersFromContext carrier\<rparr> now rounds))"

text \<open>The loop of \<open>PublishBatch\<close>: an entry is given by its service name and its marshalled form.\<close>

fun publish_entries ::
  "bus_env \<Rightarrow> (string, bytes) gomap \<Rightarrow> string \<Rightarrow> (string \<times> bytes option \<times> attempt) list \<Rightarrow> InProcessBus \<Rightarrow>
   ((bus_error + unit) \<times> InProcessBus) option" where
  "publish_entries env headers topic [] b = Some (Ok (), b)"
| "publish_entries env headers topic ((_, None, _) # es) b = Some (Err MarshalFailed, b)"
| "publish_entries env headers topic ((service, Some payload, ts, now, rounds) # es) b =
     (case map_of (logs b) topic of
        None \<Rightarrow> Some (Err BusPanic, b)
      | Some l \<Rightarrow>
          (case append_to env b topic l
                  \<lparr>Timestamp = ts, Key = service, Value = payload, Headers = headers\<rparr> now rounds of
             None \<Rightarrow> None
           | Some (Err e, b') \<Rightarrow> Some (Err e, b')
           | Some (Ok _, b') \<Rightarrow> publish_entries env headers topic es b'))"

definition PublishBatch ::
  "bus_env \<Rightarrow> InProcessBus \<Rightarrow> (string, string) gomap \<Rightarrow> string \<Rightarrow> (string \<times> bytes option \<times> attempt) list \<Rightarrow>
   ((bus_error + unit) \<times> InProcessBus) option" where
  "PublishBatch env b carrier topic entries =
     (if entries = [] then Some (Ok (), b)
      else case topicLog env b topic of
          (Err e, b1) \<Rightarrow> Some (Err e, b1)
        | (Ok _, b1) \<Rightarrow> publish_entries env (headersFromContext carrier) topic entries b1)"

section \<open>Subscribing\<close>

definition group_key :: "string \<Rightarrow> string \<Rightarrow> string" where
  "group_key topic grp = topic @ ''/'' @ grp"

definition groupFor :: "bus_env \<Rightarrow> InProcessBus \<Rightarrow> string \<Rightarrow> string \<Rightarrow> (bus_error + Group) \<times> InProcessBus" where
  "groupFor env b topic name =
     (case map_of (groups b) (group_key topic name) of
        Some g \<Rightarrow> (Ok g, b)
      | None \<Rightarrow>
          (case OpenGroup (be_faults env) (be_offset env topic name) (topicDir b topic) name of
             Err e \<Rightarrow> (Err (BusGroup e), b)
           | Ok g \<Rightarrow> (Ok g, b\<lparr>groups := AList.update (group_key topic name) g (groups b)\<rparr>)))"

text \<open>The body of \<open>Subscribe\<close> for one topic: its reader refers to the topic's log and the group.\<close>

definition subscribe_topic ::
  "bus_env \<Rightarrow> InProcessBus \<Rightarrow> string \<Rightarrow> string \<Rightarrow> (bus_error + string \<times> string) \<times> InProcessBus" where
  "subscribe_topic env b name topic =
     (case topicLog env b topic of
        (Err e, b1) \<Rightarrow> (Err e, b1)
      | (Ok l, b1) \<Rightarrow>
          (case groupFor env b1 topic name of
             (Err e, b2) \<Rightarrow> (Err e, b2)
           | (Ok g, b2) \<Rightarrow>
               (if HasCommitted g then (Ok (topic, group_key topic name), b2)
                else case (if startEarliest b2 then Some (OldestOffset l) else NextOffset l) of
                    None \<Rightarrow> (Err BusPanic, b2)
                  | Some start \<Rightarrow>
                      (let (res, g') = StartAt (be_faults env) g start;
                           b3 = b2\<lparr>groups := AList.update (group_key topic name) g' (groups b2)\<rparr>
                       in case res of
                           Err e \<Rightarrow> (Err (BusGroup e), b3)
                         | Ok _ \<Rightarrow> (Ok (topic, group_key topic name), b3)))))"

fun subscribe_topics ::
  "bus_env \<Rightarrow> string \<Rightarrow> string list \<Rightarrow> (string \<times> string) list \<Rightarrow> InProcessBus \<Rightarrow>
   (bus_error + (string \<times> string) list) \<times> InProcessBus" where
  "subscribe_topics env name [] readers b = (Ok readers, b)"
| "subscribe_topics env name (t # ts) readers b =
     (case subscribe_topic env b name t of
        (Err e, b1) \<Rightarrow> (Err e, b1)
      | (Ok r, b1) \<Rightarrow> subscribe_topics env name ts (readers @ [r]) b1)"

definition Subscribe ::
  "bus_env \<Rightarrow> InProcessBus \<Rightarrow> string \<Rightarrow> string list \<Rightarrow> bool \<Rightarrow>
   (bus_error + (string \<times> string) list) \<times> InProcessBus" where
  "Subscribe env b name topics hasHandler =
     (if \<not> hasHandler then (Err NoHandler, b)
      else if topics = [] then (Err NoTopics, b)
      else subscribe_topics env name topics [] b)"

section \<open>Running and closing\<close>

definition message_of :: "string \<Rightarrow> int \<Rightarrow> Record \<Rightarrow> Message" where
  "message_of topic off r =
     \<lparr>m_Topic = topic, m_Key = Key r, m_Value = Value r, m_Timestamp = Timestamp r, m_Partition = 0,
      m_Offset = off, m_Headers = Headers r\<rparr>"

text \<open>The goroutine of one topic: the handler's own result is ignored, so the reader never sees a
  failure; the messages it was called with are returned.\<close>

definition run_topic ::
  "iteration list \<Rightarrow> InProcessBus \<Rightarrow> string \<times> string \<Rightarrow> run_result option \<times> InProcessBus \<times> Message list" where
  "run_topic es b tr =
     (case (map_of (logs b) (fst tr), map_of (groups b) (snd tr)) of
        (Some l, Some g) \<Rightarrow>
          (let (res, l', g', calls) =
             reader_Run (map (\<lambda>e. e\<lparr>rd_handler_fails := \<lambda>_ _. False\<rparr>) es) l g []
           in (res,
               b\<lparr>logs := AList.update (fst tr) l' (logs b), groups := AList.update (snd tr) g' (groups b)\<rparr>,
               map (\<lambda>(off, r). message_of (fst tr) off r) calls))
      | _ \<Rightarrow> (None, b, []))"

text \<open>Of the goroutines' results, in the order they finish, the first that is an error.\<close>

fun firstErr :: "run_result list \<Rightarrow> run_result option" where
  "firstErr [] = None"
| "firstErr (Stopped # rs) = firstErr rs"
| "firstErr (r # rs) = Some r"

fun close_logs :: "io \<Rightarrow> (string, Log) gomap \<Rightarrow> log_error option \<Rightarrow> log_error option \<times> (string, Log) gomap" where
  "close_logs io [] e = (e, [])"
| "close_logs io ((t, l) # ls) e =
     (let (r, l') = log_Close io l;
          e1 = (case r of Err x \<Rightarrow> (if e = None then Some x else e) | Ok _ \<Rightarrow> e);
          (e2, ls') = close_logs io ls e1
      in (e2, (t, l') # ls'))"

definition bus_Close :: "io \<Rightarrow> InProcessBus \<Rightarrow> (bus_error + unit) \<times> InProcessBus" where
  "bus_Close io b =
     (if bus_closed b then (Ok (), b)
      else let (e, ls) = close_logs io (logs b) None
           in (case e of None \<Rightarrow> Ok () | Some x \<Rightarrow> Err (BusLog x), b\<lparr>bus_closed := True, logs := ls\<rparr>))"

section \<open>Lemmas\<close>

text \<open>A disk on which no call fails and no file holds an intact record beyond those already open.\<close>

definition blank_disk :: "bus_env \<Rightarrow> bool" where
  "blank_disk env \<longleftrightarrow> io_clean (be_io env) \<and> (\<forall>p. intact (io_file (be_io env) p) = None)"

lemma topicLog_open:
  "\<lbrakk>topicNamePattern topic; \<not> bus_closed b; map_of (logs b) topic = Some l\<rbrakk> \<Longrightarrow> topicLog env b topic = (Ok l, b)"
  by (simp add: topicLog_def)

lemma append_to_ok:
  assumes "log_inv l" "\<not> log_closed l" "storable r" "blank_disk env"
    and "MaxBytes (log_opts l) \<le> 0 \<or> totalBytes l < MaxBytes (log_opts l)"
  shows "\<exists>l'. append_to env b topic l r now ((id, t) # rounds) =
      Some (Ok (), b\<lparr>logs := AList.update topic l' (logs b)\<rparr>) \<and>
    log_inv l' \<and> log_items l' = log_items l @ [r] \<and> OldestOffset l' = OldestOffset l \<and>
    log_opts l' = log_opts l \<and> \<not> log_closed l'"
proof -
  obtain pss where pss: "log_rep pss l" "log_payloads l = concat pss"
    using assms(1) log_inv_rep by blast
  have disk: "io_clean (be_io env)" "intact (io_file (be_io env) p) = None" for p
    using assms(4) by (simp_all add: blank_disk_def)
  obtain pss' l' where l': "log_Append (be_io env) l r = (Ok (OldestOffset l + int (length (concat pss))), l')"
    "log_rep pss' l'" "concat pss' = concat pss @ [encode r]" "OldestOffset l' = OldestOffset l"
    "log_opts l' = log_opts l" "log_closed l' = log_closed l"
    by (rule log_Append_rep [OF pss(1) assms(2,3) disk(1) assms(5) disk(2)])
  have "log_items l' = log_items l @ [r]"
    using log_rep_inv [OF l'(2)] l'(3) pss(2) payload_ok_encode [OF assms(3)] by (simp add: log_items_def)
  then show ?thesis
    using l' log_rep_inv [OF l'(2)] assms(2) by (auto simp: append_to_def AppendWithBackpressure_def)
qed

lemma no_slash_split:
  "\<lbrakk>c \<notin> set s; c \<notin> set s'; s @ c # u = s' @ c # u'\<rbrakk> \<Longrightarrow> s = s' \<and> u = u'"
  by (induction s arbitrary: s') (auto simp: Cons_eq_append_conv)

lemma topicName_no_slash: "topicNamePattern s \<Longrightarrow> CHR ''/'' \<notin> set s"
  unfolding topicNamePattern_def by (rule name_matches_no_slash) auto

section \<open>Properties\<close>

definition quiet_env :: bus_env where
  "quiet_env = \<lparr>be_io = io_ok, be_entries = \<lambda>_. [], be_offset = \<lambda>_ _. None, be_faults = \<lambda>_. False\<rparr>"

definition sample_bus :: InProcessBus where
  "sample_bus = \<lparr>bus_dir = ''d'', bus_opts = default_options, logs = [(''t'', sample_log)], groups = [],
     startEarliest = False, bus_closed = False\<rparr>"

lemma quiet_env_simps [simp]: "blank_disk quiet_env" "be_io quiet_env = io_ok"
  by (simp_all add: blank_disk_def quiet_env_def)

lemma sample_bus_simps [simp]:
  "logs sample_bus = [(''t'', sample_log)]" "groups sample_bus = []" "\<not> bus_closed sample_bus"
  by (simp_all add: sample_bus_def)

lemma topicName_t [simp]: "topicNamePattern ''t''"
  by (simp add: topicNamePattern_def alnum_def)

text \<open>A successful publish stores exactly one record, in one topic. On an open topic below its
  bound, the record appended carries the key, the value and the trace headers of the call; every
  other topic's log and every group is untouched.\<close>

theorem publish_appends_one_record:
  assumes "topicNamePattern topic" "\<not> bus_closed b" "map_of (logs b) topic = Some l"
    and "log_inv l" "\<not> log_closed l" "blank_disk env"
    and "MaxBytes (log_opts l) \<le> 0 \<or> totalBytes l < MaxBytes (log_opts l)"
    and "r = \<lparr>Timestamp = ts, Key = key, Value = val, Headers = headersFromContext carrier\<rparr>" "storable r"
  shows "\<exists>b' l'. Publish env b (ts, now, (id, t) # rounds) carrier topic key val = Some (Ok (), b') \<and>
    map_of (logs b') topic = Some l' \<and> log_inv l' \<and> log_items l' = log_items l @ [r] \<and>
    (\<forall>u. u \<noteq> topic \<longrightarrow> map_of (logs b') u = map_of (logs b) u) \<and> groups b' = groups b"
proof -
  obtain l' where "append_to env b topic l r now ((id, t) # rounds) =
      Some (Ok (), b\<lparr>logs := AList.update topic l' (logs b)\<rparr>)" "log_inv l'" "log_items l' = log_items l @ [r]"
    using append_to_ok [OF assms(4,5,9,6,7)] by metis
  then show ?thesis
    using topicLog_open [OF assms(1-3), of env] assms(8) by (auto simp: Publish_def update_conv')
qed

theorem publish_appends_one_record_witness:
  "\<exists>b' l'. Publish quiet_env sample_bus (0, 0, [(id, 0)]) [(''traceparent'', ''00-1'')] ''t'' ''svc'' [7] = Some (Ok (), b') \<and>
    map_of (logs b') ''t'' = Some l' \<and> length (log_items l') = 2"
proof -
  let ?r = "\<lparr>Timestamp = 0, Key = ''svc'', Value = [7], Headers = headersFromContext [(''traceparent'', ''00-1'')]\<rparr>"
  have "storable ?r" by (simp add: storable_def encode_def maxRecordSize_def headersFromContext_def)
  then show ?thesis
    using publish_appends_one_record [of "''t''" sample_bus sample_log quiet_env ?r 0 "''svc''" "[7]"
        "[(''traceparent'', ''00-1'')]" 0 0 "[]"] by (auto simp: default_options_def)
qed

text \<open>A full topic refuses with \<open>ErrBusFull\<close> and stores nothing. While nothing reclaims the topic's
  log, a publish that waits out its timeout reports the bus as full and leaves every log as it was.\<close>

theorem publish_full_refused:
  assumes "topicNamePattern topic" "\<not> bus_closed b" "map_of (logs b) topic = Some l" "\<not> log_closed l"
    and "0 < MaxBytes (log_opts l)" "MaxBytes (log_opts l) \<le> totalBytes l"
    and "\<forall>(others, t) \<in> set rounds. others l = l" "rounds \<noteq> []"
    and "now + fullTimeout (log_opts l) \<le> snd (last rounds)"
  shows "\<exists>b'. Publish env b (ts, now, rounds) carrier topic key val = Some (Err BusFull, b') \<and>
    map_of (logs b') = map_of (logs b) \<and> groups b' = groups b"
  using append_rounds_full [OF assms(4-9)] topicLog_open [OF assms(1-3), of env] assms(3)
  by (auto simp: Publish_def append_to_def AppendWithBackpressure_def update_conv')

theorem publish_full_refused_witness:
  "\<exists>b'. Publish quiet_env (sample_bus\<lparr>logs := [(''t'', sample_log\<lparr>log_opts := default_options\<lparr>MaxBytes := 41\<rparr>\<rparr>)]\<rparr>)
     (0, 0, [(id, 2000000000)]) [] ''t'' ''svc'' [7] = Some (Err BusFull, b')"
  using publish_full_refused [of "''t''" "sample_bus\<lparr>logs := [(''t'', sample_log\<lparr>log_opts := default_options\<lparr>MaxBytes := 41\<rparr>\<rparr>)]\<rparr>"
      "sample_log\<lparr>log_opts := default_options\<lparr>MaxBytes := 41\<rparr>\<rparr>" "[(id, 2000000000)]" 0 quiet_env 0 "[]" "''svc''" "[7]"]
    seg_size_rep [OF sample_segment_rep(1)]
  by (auto simp: fullTimeout_def DefaultFullTimeout_def default_options_def totalBytes_def headerSize_def)

text \<open>Two subscriptions share a position only when they name the same topic and the same group.
  Topic names contain no slash, so the key \<open>topic/group\<close> determines both.\<close>

theorem group_key_injective:
  assumes "topicNamePattern t" "topicNamePattern t'"
  shows "group_key t g = group_key t' g' \<longleftrightarrow> t = t' \<and> g = g'"
  using no_slash_split [OF topicName_no_slash [OF assms(1)] topicName_no_slash [OF assms(2)], of g g']
  by (auto simp: group_key_def)

theorem group_key_injective_witness: "group_key ''t'' ''tg'' \<noteq> group_key ''tt'' ''g''"
proof -
  have "topicNamePattern ''tt''" by (simp add: topicNamePattern_def alnum_def)
  then show ?thesis using group_key_injective [OF topicName_t, of "''tt''" "''tg''" "''g''"] by simp
qed

text \<open>The trace context survives the bus: extraction sees the carrier that was injected.\<close>

lemma contextWithTrace_headersFromContext: "contextWithTrace (headersFromContext carrier) = carrier"
  by (induction carrier) (auto simp: contextWithTrace_def headersFromContext_def)

text \<open>Where a subscription starts. A group that has committed keeps its position, whatever the
  log holds; a new group is committed at the end of the log, or at its oldest record when the bus
  is configured to replay.\<close>

theorem subscribe_start_position:
  assumes "topicNamePattern topic" "\<not> bus_closed b" "map_of (logs b) topic = Some l" "NextOffset l = Some nx"
    and "groupFor env b topic name = (Ok g, b1)" "be_faults env = (\<lambda>_. False)" "0 \<le> OldestOffset l" "0 \<le> nx"
  shows "\<exists>b' g'. subscribe_topic env b name topic = (Ok (topic, group_key topic name), b') \<and>
    map_of (groups b') (group_key topic name) = Some g' \<and> HasCommitted g' \<and>
    Position g' = (if HasCommitted g then Position g else if startEarliest b then OldestOffset l else nx) \<and>
    logs b' = logs b"
proof -
  have b1: "map_of (groups b1) (group_key topic name) = Some g" "startEarliest b1 = startEarliest b" "logs b1 = logs b"
    using assms(5) by (auto simp: groupFor_def update_conv' split: option.splits sum.splits)
  let ?start = "if startEarliest b then OldestOffset l else nx"
  have st: "fst (Commit (\<lambda>_. False) (g\<lparr>g_next := ?start\<rparr>) ?start) = Ok ()"
    using assms(7,8) by (intro Commit_ok) auto
  note pos = Commit_position(1) [OF st]
  show ?thesis
  proof (cases "HasCommitted g")
    case True
    then show ?thesis using topicLog_open [OF assms(1-3)] assms(5) b1 by (simp add: subscribe_topic_def)
  next
    case False
    obtain c g' where c: "Commit (\<lambda>_. False) (g\<lparr>g_next := ?start\<rparr>) ?start = (c, g')" by fastforce
    then have "StartAt (be_faults env) g ?start = (Ok (), g')" "Position g' = ?start" "HasCommitted g'"
      using False st pos assms(6) by (simp_all add: StartAt_def HasCommitted_def Position_def)
    then show ?thesis
      using False topicLog_open [OF assms(1-3)] assms(4,5) b1
      by (auto simp: subscribe_topic_def update_conv')
  qed
qed

theorem subscribe_start_position_witness:
  "\<exists>b' g'. subscribe_topic quiet_env sample_bus ''g'' ''t'' = (Ok (''t'', group_key ''t'' ''g''), b') \<and>
    map_of (groups b') (group_key ''t'' ''g'') = Some g' \<and> Position g' = 1"
proof -
  obtain g b1 where g: "groupFor quiet_env sample_bus ''t'' ''g'' = (Ok g, b1)" "\<not> HasCommitted g"
    by (auto simp: groupFor_def OpenGroup_def quiet_env_def HasCommitted_def)
  show ?thesis
    using subscribe_start_position [of "''t''" sample_bus sample_log 1 quiet_env "''g''" g b1] g
    by (auto simp: quiet_env_def sample_bus_def)
qed

text \<open>A damaged offset file makes a group skip to the end. The group is opened as one that never
  committed, so subscribing commits it at the next offset: every record between its old position
  and the end of the log is skipped.\<close>

theorem damaged_offset_skips_to_end:
  assumes "topicNamePattern topic" "\<not> bus_closed b" "map_of (logs b) topic = Some l" "NextOffset l = Some nx" "0 \<le> nx"
    and "map_of (groups b) (group_key topic name) = None" "groupNamePattern name" "\<not> startEarliest b"
    and "be_faults env = (\<lambda>_. False)" "be_offset env topic name = Some raw" "decodeOffset raw = None"
  shows "\<exists>b' g'. subscribe_topic env b name topic = (Ok (topic, group_key topic name), b') \<and>
    map_of (groups b') (group_key topic name) = Some g' \<and> Position g' = nx \<and> g_file g' = Some (encodeOffset nx)"
proof -
  let ?g = "\<lparr>g_name = name, g_path = topicDir b topic @ ''/groups/'' @ name @ ''.offset'', g_next = 0,
    g_committed = False, g_file = Some raw\<rparr>"
  have "OpenGroup (be_faults env) (Some raw) (topicDir b topic) name = Ok ?g"
    using assms(7,9,11) by (simp add: OpenGroup_def)
  then have "groupFor env b topic name = (Ok ?g, b\<lparr>groups := AList.update (group_key topic name) ?g (groups b)\<rparr>)"
    using assms(6,10) by (simp add: groupFor_def)
  moreover have "StartAt (\<lambda>_. False) ?g nx = (Ok (), ?g\<lparr>g_file := Some (encodeOffset nx), g_next := nx, g_committed := True\<rparr>)"
    using assms(5) by (simp add: StartAt_def Commit_def tmp_steps_def)
  ultimately show ?thesis
    using topicLog_open [OF assms(1-3)] assms(4,8,9)
    by (simp add: subscribe_topic_def HasCommitted_def update_conv' Position_def)
qed

theorem damaged_offset_skips_to_end_witness:
  "\<exists>b' g'. subscribe_topic (quiet_env\<lparr>be_offset := \<lambda>_ _. Some []\<rparr>) sample_bus ''g'' ''t'' =
      (Ok (''t'', group_key ''t'' ''g''), b') \<and>
    map_of (groups b') (group_key ''t'' ''g'') = Some g' \<and> Position g' = 1"
  using damaged_offset_skips_to_end [of "''t''" sample_bus sample_log 1 "''g''" "quiet_env\<lparr>be_offset := \<lambda>_ _. Some []\<rparr>" "[]"]
  by (auto simp: quiet_env_def sample_bus_def decodeOffset_def)

lemma reader_Run_no_handler_failure:
  "fst (reader_Run (map (\<lambda>e. e\<lparr>rd_handler_fails := \<lambda>_ _. False\<rparr>) es) l g tr) \<noteq> Some (HandlerFailed off)"
proof -
  have batch: "fst (deliver_batch (e\<lparr>rd_handler_fails := \<lambda>_ _. False\<rparr>) o' rs g tr) \<noteq> Some (HandlerFailed off)" for e o' rs g tr
    by (induction "e\<lparr>rd_handler_fails := \<lambda>_ _. False\<rparr>" o' rs g tr rule: deliver_batch.induct)
      (auto split: prod.splits sum.splits)
  show ?thesis
  proof (induction es arbitrary: l g tr)
    case (Cons e es)
    let ?e = "e\<lparr>rd_handler_fails := \<lambda>_ _. False\<rparr>" and ?l1 = "rd_others e (Position g) l"
    obtain b x where b: "log_ReadFrom (rd_io e) ?l1 (Position g) = (b, x)" by fastforce
    obtain r1 g1 t1 where d: "deliver_batch ?e (Position g) b g tr = (r1, g1, t1)" by (metis prod_cases3)
    then have "r1 \<noteq> Some (HandlerFailed off)" using batch [of e "Position g" b g tr] by simp
    then show ?case
      using b d Cons.IH [of ?l1 g tr] Cons.IH [of ?l1 g1 t1]
      by (cases x; cases r1) (simp_all add: Let_def)
  qed simp
qed

text \<open>A handler that fails cannot wedge a topic. Whatever the handler returns, a running topic
  never ends in a handler failure, and when the context, the disk and other goroutines are quiet
  one iteration processes the whole log.\<close>

theorem handler_errors_do_not_stop:
  "(\<forall>es b tr off. fst (run_topic es b tr) \<noteq> Some (HandlerFailed off)) \<and>
   (\<forall>b topic key l g failing. map_of (logs b) topic = Some l \<and> map_of (groups b) key = Some g \<and> log_inv l \<and>
      OldestOffset l \<le> Position g \<and> 0 \<le> Position g \<and> Position g \<le> log_next l \<longrightarrow>
      (\<exists>b' g'. run_topic [calm\<lparr>rd_handler_fails := failing\<rparr>] b (topic, key) =
         (None, b', map (\<lambda>(off, r). message_of topic off r)
            (labelled (Position g) (drop (nat (Position g - OldestOffset l)) (log_items l)))) \<and>
         map_of (groups b') key = Some g' \<and> Position g' = log_next l))"
  (is "?stop \<and> ?all")
proof
  show ?stop
    using reader_Run_no_handler_failure by (auto simp: run_topic_def Let_def split: option.splits prod.splits)
      (metis fst_conv)
  have calm: "calm\<lparr>rd_handler_fails := \<lambda>_ _. False\<rparr> = calm" by (simp add: calm_def)
  show ?all
    using calm_run by (fastforce simp: run_topic_def calm update_conv')
qed

theorem handler_errors_do_not_stop_witness:
  "\<exists>b' g'. run_topic [calm\<lparr>rd_handler_fails := \<lambda>_ _. True\<rparr>] (sample_bus\<lparr>groups := [(''t/g'', fresh_group)]\<rparr>) (''t'', ''t/g'') =
      (None, b', [message_of ''t'' 0 sample_record]) \<and> map_of (groups b') ''t/g'' = Some g' \<and> Position g' = 1"
  using conjunct2 [OF handler_errors_do_not_stop, rule_format, of "sample_bus\<lparr>groups := [(''t/g'', fresh_group)]\<rparr>" "''t''"
      sample_log "''t/g''" fresh_group "\<lambda>_ _. True"]
  by (simp add: Position_def log_next_def)

text \<open>The record a batch entry becomes.\<close>

definition entry_record :: "(string, bytes) gomap \<Rightarrow> string \<times> bytes option \<times> attempt \<Rightarrow> Record" where
  "entry_record headers e =
     \<lparr>Timestamp = fst (snd (snd e)), Key = fst e, Value = the (fst (snd e)), Headers = headers\<rparr>"

lemma publish_entries_stored:
  assumes "blank_disk env" "map_of (logs b) topic = Some l" "log_inv l" "\<not> log_closed l" "MaxBytes (log_opts l) \<le> 0"
    and "\<forall>(s, p, ts, now, rs) \<in> set es. \<exists>pl t rs'. p = Some pl \<and> rs = (id, t) # rs' \<and>
        storable \<lparr>Timestamp = ts, Key = s, Value = pl, Headers = headers\<rparr>"
  shows "\<exists>b' l'. publish_entries env headers topic (es @ rest) b = publish_entries env headers topic rest b' \<and>
    map_of (logs b') topic = Some l' \<and> log_inv l' \<and> log_items l' = log_items l @
      map (entry_record headers) es"
  using assms(2-6)
proof (induction es arbitrary: b l)
  case (Cons e es)
  then obtain s pl ts now t rs' where e: "e = (s, Some pl, ts, now, (id, t) # rs')"
    and st: "storable \<lparr>Timestamp = ts, Key = s, Value = pl, Headers = headers\<rparr>" by (cases e) (fastforce simp: id_def)
  let ?r = "\<lparr>Timestamp = ts, Key = s, Value = pl, Headers = headers\<rparr>"
  obtain l1 where l1: "append_to env b topic l ?r now ((id, t) # rs') =
      Some (Ok (), b\<lparr>logs := AList.update topic l1 (logs b)\<rparr>)" "log_inv l1" "log_items l1 = log_items l @ [?r]"
    "log_opts l1 = log_opts l" "\<not> log_closed l1"
    using append_to_ok [OF Cons.prems(2,3) st assms(1)] Cons.prems(4) by metis
  let ?b = "b\<lparr>logs := AList.update topic l1 (logs b)\<rparr>"
  have "\<exists>b' l'. publish_entries env headers topic (es @ rest) ?b = publish_entries env headers topic rest b' \<and>
    map_of (logs b') topic = Some l' \<and> log_inv l' \<and> log_items l' = log_items l1 @
      map (entry_record headers) es"
    using Cons.prems l1 by (intro Cons.IH) (auto simp: update_conv')
  then show ?case using Cons.prems(1) l1 by (simp add: e entry_record_def [of _ e, unfolded e])
qed auto

text \<open>A batch is stored entry by entry, in order, and is not all-or-nothing. With room for it,
  the records of the entries before the first one that cannot be marshalled are in the log, keyed by
  service, when the call reports that failure; a batch without such an entry is stored entirely.\<close>

theorem batch_stored_in_order:
  assumes "topicNamePattern topic" "\<not> bus_closed b" "map_of (logs b) topic = Some l" "log_inv l" "\<not> log_closed l"
    and "blank_disk env" "MaxBytes (log_opts l) \<le> 0" "headers = headersFromContext carrier"
    and "\<forall>(s, p, ts, now, rs) \<in> set es. \<exists>pl t rs'. p = Some pl \<and> rs = (id, t) # rs' \<and>
        storable \<lparr>Timestamp = ts, Key = s, Value = pl, Headers = headers\<rparr>"
    and "rest = [] \<or> fst (snd (hd rest)) = None"
  shows "\<exists>b' l'. PublishBatch env b carrier topic (es @ rest) =
      Some (if rest = [] then Ok () else Err MarshalFailed, b') \<and>
    map_of (logs b') topic = Some l' \<and> log_inv l' \<and> log_items l' = log_items l @
      map (entry_record headers) es"
proof -
  obtain b' l' where b': "publish_entries env headers topic (es @ rest) b = publish_entries env headers topic rest b'"
    "map_of (logs b') topic = Some l'" "log_inv l'" "log_items l' = log_items l @
      map (entry_record headers) es"
    using publish_entries_stored [OF assms(6,3-5,7,9), of rest] by blast
  have end_: "publish_entries env headers topic rest b' = Some (if rest = [] then Ok () else Err MarshalFailed, b')"
    using assms(10) by (cases rest) auto
  show ?thesis
  proof (cases "es @ rest = []")
    case True
    then show ?thesis using assms(3,4) by (simp add: PublishBatch_def)
  next
    case False
    then show ?thesis
      using b' end_ topicLog_open [OF assms(1-3), of env] assms(8) by (auto simp: PublishBatch_def)
  qed
qed

theorem batch_stored_in_order_witness:
  "\<exists>b' l'. PublishBatch quiet_env sample_bus [] ''t'' [(''s'', Some [1], 0, 0, [(id, 0)]), (''s'', None, 0, 0, [])] =
      Some (Err MarshalFailed, b') \<and> map_of (logs b') ''t'' = Some l' \<and> length (log_items l') = 2"
proof -
  have st: "storable \<lparr>Timestamp = 0, Key = ''s'', Value = [1], Headers = []\<rparr>"
    by (simp add: storable_def encode_def maxRecordSize_def)
  show ?thesis
    using batch_stored_in_order [of "''t''" sample_bus sample_log quiet_env "[]" "[]"
        "[(''s'', Some [1], 0, 0, [(id, 0)])]" "[(''s'', None, 0, 0, [])]"] st
    by (fastforce simp: default_options_def headersFromContext_def)
qed

text \<open>Closing is final and idempotent: afterwards every publish and every subscription to a
  well-named topic is refused as closed, and closing again reports success and changes nothing.\<close>

theorem closed_bus_refuses:
  assumes "bus_Close io b = (res, b')" "topicNamePattern topic"
  shows "Publish env b' att carrier topic key val = Some (Err BusClosed, b') \<and>
    Subscribe env b' name (topic # topics) True = (Err BusClosed, b') \<and> bus_Close io' b' = (Ok (), b')"
proof -
  have "bus_closed b'" using assms(1) by (auto simp: bus_Close_def Let_def split: if_splits prod.splits)
  then show ?thesis
    using assms(2) by (simp add: Publish_def Subscribe_def topicLog_def subscribe_topic_def bus_Close_def)
qed

theorem closed_bus_refuses_witness:
  "\<exists>b'. bus_Close io_ok sample_bus = (fst (bus_Close io_ok sample_bus), b') \<and>
    Publish quiet_env b' (0, 0, []) [] ''t'' ''k'' [] = Some (Err BusClosed, b')"
  using closed_bus_refuses [OF prod.collapse [symmetric] topicName_t] by (metis prod.collapse)

text \<open>C4: end to end. A message published while a group stands at the end of the topic is handed to
  that group's subscription exactly once in the next quiet iteration, under the next offset, with
  the key, the value and the trace context it was published with; afterwards the group stands at
  the new end.\<close>

theorem published_message_delivered:
  assumes "topicNamePattern topic" "\<not> bus_closed b" "map_of (logs b) topic = Some l"
    and "log_inv l" "\<not> log_closed l" "blank_disk env" "0 \<le> OldestOffset l"
    and "MaxBytes (log_opts l) \<le> 0 \<or> totalBytes l < MaxBytes (log_opts l)"
    and "storable \<lparr>Timestamp = ts, Key = key, Value = val, Headers = headersFromContext carrier\<rparr>"
    and "map_of (groups b) k = Some g" "Position g = log_next l"
  shows "\<exists>b1 b2 m g'. Publish env b (ts, now, (id, t) # rounds) carrier topic key val = Some (Ok (), b1) \<and>
    run_topic [calm] b1 (topic, k) = (None, b2, [m]) \<and> m_Topic m = topic \<and> m_Key m = key \<and> m_Value m = val \<and>
    contextWithTrace (m_Headers m) = carrier \<and> m_Offset m = log_next l \<and>
    map_of (groups b2) k = Some g' \<and> Position g' = log_next l + 1"
proof -
  let ?r = "\<lparr>Timestamp = ts, Key = key, Value = val, Headers = headersFromContext carrier\<rparr>"
  obtain l' where l': "append_to env b topic l ?r now ((id, t) # rounds) =
      Some (Ok (), b\<lparr>logs := AList.update topic l' (logs b)\<rparr>)" "log_inv l'" "log_items l' = log_items l @ [?r]"
    "OldestOffset l' = OldestOffset l"
    using append_to_ok [OF assms(4,5,9,6,8)] by metis
  let ?b1 = "b\<lparr>logs := AList.update topic l' (logs b)\<rparr>"
  have pub: "Publish env b (ts, now, (id, t) # rounds) carrier topic key val = Some (Ok (), ?b1)"
    using topicLog_open [OF assms(1-3), of env] l'(1) by (simp add: Publish_def)
  have nx: "log_next l' = log_next l + 1" "OldestOffset l' \<le> Position g" "0 \<le> Position g" "Position g \<le> log_next l'"
    using l'(3,4) assms(7,11) by (simp_all add: log_next_def)
  have "drop (nat (Position g - OldestOffset l')) (log_items l') = [?r]"
    using l'(3,4) assms(11) by (simp add: log_next_def)
  then obtain g' where run: "reader_Run [calm] l' g [] = (None, l', g', [(log_next l, ?r)])" "Position g' = log_next l'"
    using calm_run [OF l'(2) nx(2-4)] assms(11) by auto
  have calm: "calm\<lparr>rd_handler_fails := \<lambda>_ _. False\<rparr> = calm" by (simp add: calm_def)
  have "run_topic [calm] ?b1 (topic, k) =
      (None, ?b1\<lparr>logs := AList.update topic l' (logs ?b1), groups := AList.update k g' (groups ?b1)\<rparr>,
       [message_of topic (log_next l) ?r])"
    using run(1) assms(10) by (simp add: run_topic_def calm update_conv')
  then show ?thesis
    using pub run(2) nx(1) by (auto simp: message_of_def contextWithTrace_headersFromContext update_conv')
qed

theorem published_message_delivered_witness:
  "\<exists>b1 b2 m g'. Publish quiet_env (sample_bus\<lparr>groups := [(''t/g'', fresh_group\<lparr>g_next := 1\<rparr>)]\<rparr>) (0, 0, [(id, 0)]) [] ''t'' ''svc'' [7]
      = Some (Ok (), b1) \<and> run_topic [calm] b1 (''t'', ''t/g'') = (None, b2, [m]) \<and> m_Value m = [7] \<and> m_Offset m = 1 \<and>
    map_of (groups b2) ''t/g'' = Some g' \<and> Position g' = 2"
proof -
  have st: "storable \<lparr>Timestamp = 0, Key = ''svc'', Value = [7], Headers = headersFromContext []\<rparr>"
    by (simp add: storable_def encode_def maxRecordSize_def headersFromContext_def)
  show ?thesis
    using published_message_delivered [of "''t''" "sample_bus\<lparr>groups := [(''t/g'', fresh_group\<lparr>g_next := 1\<rparr>)]\<rparr>" sample_log
        quiet_env 0 "''svc''" "[7]" "[]" "''t/g''" "fresh_group\<lparr>g_next := 1\<rparr>" 0 0 "[]"] st
    by (fastforce simp: default_options_def Position_def log_next_def)
qed

end
