(* ===== verification/Go_Strings.thy ===== *)
theory Go_Strings
  imports Prelude
begin

text \<open>
  The operations of Go's \<open>strings\<close> package that the components use, on byte strings: prefix and
  substring tests, trimming, lower-casing, splitting and cutting. Lower-casing and trimming treat
  the ASCII letters and white space, which is where the code's keywords and names live; bytes
  outside ASCII are left as they are.
\<close>

section \<open>Definitions\<close>

definition is_space :: "char \<Rightarrow> bool" where
  "is_space c \<longleftrightarrow> c = CHR '' '' \<or> (9 \<le> (of_char c :: nat) \<and> (of_char c :: nat) \<le> 13)"

definition lower_char :: "char \<Rightarrow> char" where
  "lower_char c = (let k = (of_char c :: nat) in if 65 \<le> k \<and> k \<le> 90 then char_of (k + 32) else c)"

definition to_lower :: "string \<Rightarrow> string" where
  "to_lower s = map lower_char s"

definition trim_space :: "string \<Rightarrow> string" where
  "trim_space s = rev (dropWhile is_space (rev (dropWhile is_space s)))"

definition has_prefix :: "string \<Rightarrow> string \<Rightarrow> bool" where
  "has_prefix p s \<longleftrightarrow> take (length p) s = p"

fun contains :: "string \<Rightarrow> string \<Rightarrow> bool" where
  "contains p [] \<longleftrightarrow> p = []"
| "contains p (c # cs) \<longleftrightarrow> has_prefix p (c # cs) \<or> contains p cs"

fun split_on :: "char \<Rightarrow> string \<Rightarrow> string list" where
  "split_on d [] = [[]]"
| "split_on d (c # cs) =
     (if c = d then [] # split_on d cs
      else case split_on d cs of [] \<Rightarrow> [[c]] | p # ps \<Rightarrow> (c # p) # ps)"

fun join_with :: "string \<Rightarrow> string list \<Rightarrow> string" where
  "join_with d [] = []"
| "join_with d [s] = s"
| "join_with d (s # t # ss) = s @ d @ join_with d (t # ss)"

text \<open>\<open>strings.Cut\<close> at a one-byte separator.\<close>

definition cut :: "char \<Rightarrow> string \<Rightarrow> string \<times> string \<times> bool" where
  "cut d s = (let a = takeWhile (\<lambda>c. c \<noteq> d) s
              in if a = s then (s, [], False) else (a, drop (Suc (length a)) s, True))"

section \<open>Lemmas\<close>

lemma has_prefix_iff: "has_prefix p s \<longleftrightarrow> (\<exists>t. s = p @ t)"
proof
  assume "has_prefix p s"
  then have "s = p @ drop (length p) s"
    using append_take_drop_id [of "length p" s] by (simp add: has_prefix_def)
  then show "\<exists>t. s = p @ t" by blast
qed (auto simp: has_prefix_def)

lemma contains_iff: "contains p s \<longleftrightarrow> (\<exists>a b. s = a @ p @ b)"
proof (induction s)
  case IH: (Cons c cs)
  show ?case
  proof
    assume "contains p (c # cs)"
    then show "\<exists>a b. c # cs = a @ p @ b"
    proof (cases "has_prefix p (c # cs)")
      case True
      then obtain b where "c # cs = [] @ p @ b" by (auto simp: has_prefix_iff)
      then show ?thesis by blast
    next
      case False
      then obtain a b where "c # cs = (c # a) @ p @ b" using \<open>contains p (c # cs)\<close> IH by auto
      then show ?thesis by blast
    qed
  next
    assume "\<exists>a b. c # cs = a @ p @ b"
    then obtain a b where ab: "c # cs = a @ p @ b" by blast
    show "contains p (c # cs)"
    proof (cases a)
      case Nil
      then have "has_prefix p (c # cs)" using ab by (auto simp: has_prefix_iff)
      then show ?thesis by simp
    next
      case (Cons d a')
      then have "cs = a' @ p @ b" using ab by simp
      then show ?thesis using IH by auto
    qed
  qed
qed auto

lemma contains_append: "contains p s \<Longrightarrow> contains p (a @ s @ b)"
  unfolding contains_iff by (metis append.assoc)

lemma lower_char_idem [simp]: "lower_char (lower_char c) = lower_char c"
  by (auto simp: lower_char_def Let_def)

lemma to_lower_idem [simp]: "to_lower (to_lower s) = to_lower s"
  by (simp add: to_lower_def comp_def)

lemma to_lower_append [simp]: "to_lower (s @ t) = to_lower s @ to_lower t"
  by (simp add: to_lower_def)

lemma length_to_lower [simp]: "length (to_lower s) = length s"
  by (simp add: to_lower_def)

lemma dropWhile_idem: "dropWhile P (dropWhile P xs) = dropWhile P xs"
  by (induction xs) auto

lemma trim_space_hd: "trim_space s \<noteq> [] \<Longrightarrow> \<not> is_space (hd (trim_space s))"
proof -
  assume ne: "trim_space s \<noteq> []"
  let ?d = "dropWhile is_space s"
  obtain u where u: "?d = trim_space s @ u"
    unfolding trim_space_def
    by (metis rev_append rev_rev_ident takeWhile_dropWhile_id)
  then have "?d \<noteq> []" "hd ?d = hd (trim_space s)" using ne by (auto simp: hd_append)
  then show ?thesis using hd_dropWhile [of is_space s] by auto
qed

lemma dropWhile_hd_id: "xs = [] \<or> \<not> P (hd xs) \<Longrightarrow> dropWhile P xs = xs"
  by (cases xs) auto

lemma trim_space_idem [simp]: "trim_space (trim_space s) = trim_space s"
proof -
  have a: "dropWhile is_space (trim_space s) = trim_space s"
    using trim_space_hd [of s] by (intro dropWhile_hd_id) auto
  show ?thesis
    by (subst trim_space_def) (simp add: a, simp add: trim_space_def dropWhile_idem)
qed

lemma split_on_nonempty [simp]: "split_on d s \<noteq> []"
  by (cases s) (auto split: list.splits)

lemma join_with_Cons: "ss \<noteq> [] \<Longrightarrow> join_with d (s # ss) = s @ d @ join_with d ss"
  by (cases ss) auto

lemma split_on_join: "join_with [d] (split_on d s) = s"
proof (induction s)
  case (Cons c cs)
  obtain p ps where p: "split_on d cs = p # ps" by (cases "split_on d cs") auto
  show ?case
    using Cons by (cases ps) (auto simp: p)
qed simp

lemma split_on_parts: "p \<in> set (split_on d s) \<Longrightarrow> d \<notin> set p"
proof (induction s arbitrary: p)
  case (Cons c cs)
  then show ?case by (auto split: if_splits list.splits)
qed simp

lemma prefix_split:
  "\<lbrakk>c \<notin> set a; c \<notin> set b; a @ c # x = b @ c # y\<rbrakk> \<Longrightarrow> a = b \<and> x = y"
  by (induction a arbitrary: b) (auto simp: Cons_eq_append_conv)

lemma split_on_no_sep: "d \<notin> set s \<Longrightarrow> split_on d s = [s]"
  by (induction s) auto

lemma split_on_append: "d \<notin> set s \<Longrightarrow> split_on d (s @ d # t) = s # split_on d t"
  by (induction s) auto

lemma split_on_join_with: "ss \<noteq> [] \<Longrightarrow> \<forall>s \<in> set ss. d \<notin> set s \<Longrightarrow> split_on d (join_with [d] ss) = ss"
proof (induction ss)
  case (Cons s ss)
  show ?case
  proof (cases "ss = []")
    case True
    then show ?thesis using Cons.prems by (simp add: split_on_no_sep)
  next
    case False
    then show ?thesis using Cons by (simp add: join_with_Cons split_on_append)
  qed
qed simp

lemma trim_space_fixed: "trim_space s = s \<longleftrightarrow> s = [] \<or> \<not> is_space (hd s) \<and> \<not> is_space (last s)"
proof (cases "s = []")
  case False
  show ?thesis
  proof
    assume t: "trim_space s = s"
    have "rev s = dropWhile is_space (rev (dropWhile is_space s))" using t by (metis rev_rev_ident trim_space_def)
    moreover have "rev s \<noteq> []" using False by simp
    ultimately have "\<not> is_space (hd (rev s))" by (metis hd_dropWhile)
    then show "s = [] \<or> \<not> is_space (hd s) \<and> \<not> is_space (last s)" using trim_space_hd [of s] t False by (simp add: hd_rev)
  next
    assume "s = [] \<or> \<not> is_space (hd s) \<and> \<not> is_space (last s)"
    then have "dropWhile is_space s = s" "dropWhile is_space (rev s) = rev s"
      using False by (auto intro!: dropWhile_hd_id simp: hd_rev)
    then show "trim_space s = s" by (simp add: trim_space_def)
  qed
qed (simp add: trim_space_def)

lemma cut_found: "d \<notin> set a \<Longrightarrow> cut d (a @ d # b) = (a, b, True)"
proof -
  assume "d \<notin> set a"
  then have "takeWhile (\<lambda>c. c \<noteq> d) (a @ d # b) = a" by (induction a) auto
  then show ?thesis by (simp add: cut_def)
qed

lemma cut_not_found: "d \<notin> set a \<Longrightarrow> cut d a = (a, [], False)"
proof -
  assume "d \<notin> set a"
  then have "takeWhile (\<lambda>c. c \<noteq> d) a = a" by (simp add: takeWhile_eq_all_conv) metis
  then show ?thesis by (simp add: cut_def)
qed

end
