(* ===== verification/Db_Sql.thy ===== *)
theory Db_Sql
  imports Go_Strings
begin

text \<open>
  Splitting SQL text into the parts that may be rewritten and the parts that may not
  (\<open>src/shared/db/segments.go\<close>), and the statement-level operations of
  \<open>src/shared/db/rewrite.go\<close> that rest on it: placeholders, statement splitting, dollar quotes and
  the handling of \<open>CREATE EXTENSION\<close>. A Go string that is valid UTF-8 is a list of runes; where
  the code works with byte offsets the UTF-8 encoding is written out.
\<close>

section \<open>Runes\<close>

type_synonym rune = nat

abbreviation r_quote :: rune where "r_quote \<equiv> 39"
abbreviation r_dquote :: rune where "r_dquote \<equiv> 34"
abbreviation r_dash :: rune where "r_dash \<equiv> 45"
abbreviation r_slash :: rune where "r_slash \<equiv> 47"
abbreviation r_star :: rune where "r_star \<equiv> 42"
abbreviation r_dollar :: rune where "r_dollar \<equiv> 36"
abbreviation r_newline :: rune where "r_newline \<equiv> 10"
abbreviation r_semi :: rune where "r_semi \<equiv> 59"
abbreviation r_space :: rune where "r_space \<equiv> 32"
abbreviation r_question :: rune where "r_question \<equiv> 63"

definition runes :: "string \<Rightarrow> rune list" where
  "runes s = map of_char s"

text \<open>UTF-8 encoding of a rune below the surrogate and range limits.\<close>

definition utf8_rune :: "rune \<Rightarrow> bytes" where
  "utf8_rune r =
     (if r < 128 then [of_nat r]
      else if r < 2048 then [of_nat (192 + r div 64), of_nat (128 + r mod 64)]
      else if r < 65536 then
        [of_nat (224 + r div 4096), of_nat (128 + r div 64 mod 64), of_nat (128 + r mod 64)]
      else [of_nat (240 + r div 262144), of_nat (128 + r div 4096 mod 64),
            of_nat (128 + r div 64 mod 64), of_nat (128 + r mod 64)])"

definition utf8 :: "rune list \<Rightarrow> bytes" where
  "utf8 rs = concat (map utf8_rune rs)"

section \<open>Segments\<close>

record sql_segment =
  sg_text :: "rune list"
  sg_code :: bool

definition isTagRune :: "rune \<Rightarrow> bool" where
  "isTagRune c \<longleftrightarrow> c = 95 \<or> (97 \<le> c \<and> c \<le> 122) \<or> (65 \<le> c \<and> c \<le> 90) \<or> (48 \<le> c \<and> c \<le> 57)"

text \<open>The loop of \<open>dollarQuoteTag\<close> from index \<open>i\<close>.\<close>

fun tag_rest :: "nat \<Rightarrow> rune list \<Rightarrow> rune list option" where
  "tag_rest i [] = None"
| "tag_rest i (c # rs) =
     (if i \<ge> 64 then None
      else if c = r_dollar then Some [c]
      else if \<not> isTagRune c then None
      else case tag_rest (Suc i) rs of None \<Rightarrow> None | Some t \<Rightarrow> Some (c # t))"

fun dollarQuoteTag :: "rune list \<Rightarrow> rune list" where
  "dollarQuoteTag [] = []"
| "dollarQuoteTag (c # rs) =
     (if c \<noteq> r_dollar then [] else case tag_rest 1 rs of None \<Rightarrow> [] | Some t \<Rightarrow> c # t)"

text \<open>The inner loops of \<open>scanSegments\<close>: what is consumed after the opening, and what is left.\<close>

fun single_quoted :: "rune list \<Rightarrow> rune list \<times> rune list" where
  "single_quoted [] = ([], [])"
| "single_quoted [c] = ([c], [])"
| "single_quoted (c # d # rs) =
     (if c = r_quote then
        (if d = r_quote then (let (b, t) = single_quoted rs in (c # d # b, t)) else ([c], d # rs))
      else (let (b, t) = single_quoted (d # rs) in (c # b, t)))"

fun through_rune :: "rune \<Rightarrow> rune list \<Rightarrow> rune list \<times> rune list" where
  "through_rune x [] = ([], [])"
| "through_rune x (c # rs) = (if c = x then ([c], rs) else (let (b, t) = through_rune x rs in (c # b, t)))"

fun block_comment :: "rune \<Rightarrow> rune list \<Rightarrow> rune list \<times> rune list" where
  "block_comment prev [] = ([], [])"
| "block_comment prev (c # rs) =
     (if c = r_slash \<and> prev = r_star then ([c], rs) else (let (b, t) = block_comment c rs in (c # b, t)))"

definition ends_with :: "rune list \<Rightarrow> rune list \<Rightarrow> bool" where
  "ends_with suf s \<longleftrightarrow> length suf \<le> length s \<and> drop (length s - length suf) s = suf"

fun dollar_body :: "rune list \<Rightarrow> rune list \<Rightarrow> rune list \<Rightarrow> rune list \<times> rune list" where
  "dollar_body tag cur [] = ([], [])"
| "dollar_body tag cur (c # rs) =
     (if ends_with tag (cur @ [c]) then ([c], rs)
      else (let (b, t) = dollar_body tag (cur @ [c]) rs in (c # b, t)))"

definition flush :: "rune list \<Rightarrow> bool \<Rightarrow> sql_segment list" where
  "flush cur code = (if cur = [] then [] else [\<lparr>sg_text = cur, sg_code = code\<rparr>])"

lemma single_quoted_split: "single_quoted rs = (b, t) \<Longrightarrow> rs = b @ t"
  by (induction rs arbitrary: b t rule: single_quoted.induct)
    (auto split: if_splits prod.splits)

lemma through_rune_split: "through_rune x rs = (b, t) \<Longrightarrow> rs = b @ t"
  by (induction rs arbitrary: b t) (auto split: if_splits prod.splits)

lemma block_comment_split: "block_comment p rs = (b, t) \<Longrightarrow> rs = b @ t"
  by (induction p rs arbitrary: b t rule: block_comment.induct) (auto split: if_splits prod.splits)

lemma dollar_body_split: "dollar_body tag cur rs = (b, t) \<Longrightarrow> rs = b @ t"
  by (induction tag cur rs arbitrary: b t rule: dollar_body.induct) (auto split: if_splits prod.splits)

lemma tag_rest_prefix: "tag_rest i rs = Some t \<Longrightarrow> \<exists>u. rs = t @ u"
  by (induction i rs arbitrary: t rule: tag_rest.induct) (auto split: if_splits option.splits)

lemma dollarQuoteTag_prefix:
  "dollarQuoteTag (c # rs) \<noteq> [] \<Longrightarrow> c = r_dollar \<and> (\<exists>t u. dollarQuoteTag (c # rs) = c # t \<and> rs = t @ u)"
  by (auto split: if_splits option.splits dest: tag_rest_prefix)

text \<open>The cases of the switch that open a literal, a quoted identifier, a comment or a dollar-quoted
  body at \<open>c\<close>: the whole non-code run and what follows it. \<open>None\<close> is the default case.\<close>

definition literal_at :: "rune \<Rightarrow> rune list \<Rightarrow> (rune list \<times> rune list) option" where
  "literal_at c rs =
     (if c = r_quote then (case single_quoted rs of (b, t) \<Rightarrow> Some (c # b, t))
      else if c = r_dquote then (case through_rune r_dquote rs of (b, t) \<Rightarrow> Some (c # b, t))
      else if c = r_dash \<and> rs \<noteq> [] \<and> hd rs = r_dash then Some (through_rune r_newline (c # rs))
      else if c = r_slash \<and> rs \<noteq> [] \<and> hd rs = r_star then
        (case block_comment c rs of (b, t) \<Rightarrow> Some (c # b, t))
      else if c = r_dollar \<and> dollarQuoteTag (c # rs) \<noteq> [] then
        (let tag = dollarQuoteTag (c # rs) in
         case dollar_body tag tag (drop (length tag) (c # rs)) of (b, t) \<Rightarrow> Some (tag @ b, t))
      else None)"

lemma dollar_literal_split:
  assumes "dollarQuoteTag (c # rs) = tag" "tag \<noteq> []" "dollar_body tag tag (drop (length tag) (c # rs)) = (b, t)"
  shows "c # rs = (tag @ b) @ t"
proof -
  obtain u v where "tag = c # u" "rs = u @ v" using dollarQuoteTag_prefix [of c rs] assms(1,2) by metis
  then show ?thesis using dollar_body_split [OF assms(3)] by simp
qed

lemma literal_at_split:
  assumes "literal_at c rs = Some (lit, t)"
  shows "c # rs = lit @ t \<and> lit \<noteq> []"
proof -
  consider (q) "c = r_quote" | (d) "c = r_dquote"
    | (line) "c = r_dash" "rs \<noteq> [] \<and> hd rs = r_dash" | (block) "c = r_slash" "rs \<noteq> [] \<and> hd rs = r_star"
    | (dollar) "c = r_dollar" "dollarQuoteTag (c # rs) \<noteq> []"
    using assms by (auto simp: literal_at_def split: if_splits)
  then show ?thesis
  proof cases
    case q
    with assms show ?thesis by (auto simp: literal_at_def split: prod.splits dest: single_quoted_split)
  next
    case d
    with assms show ?thesis by (auto simp: literal_at_def split: prod.splits dest: through_rune_split)
  next
    case line
    then have "through_rune r_newline (c # rs) = (lit, t)" using assms by (simp add: literal_at_def)
    moreover have "lit \<noteq> []" using calculation by (auto split: if_splits prod.splits)
    ultimately show ?thesis using through_rune_split by blast
  next
    case block
    with assms show ?thesis by (auto simp: literal_at_def split: prod.splits dest: block_comment_split)
  next
    case dollar
    obtain b u where "dollar_body (dollarQuoteTag (c # rs)) (dollarQuoteTag (c # rs))
        (drop (length (dollarQuoteTag (c # rs))) (c # rs)) = (b, u)" by fastforce
    then show ?thesis
      using dollar_literal_split [OF refl dollar(2)] assms dollar
      by (auto simp: literal_at_def Let_def simp del: dollarQuoteTag.simps)
  qed
qed

text \<open>The main loop: the code run collected so far and the rest of the text.\<close>

function scan :: "rune list \<Rightarrow> rune list \<Rightarrow> sql_segment list" where
  "scan cur [] = flush cur True"
| "scan cur (c # rs) =
     (case literal_at c rs of
        None \<Rightarrow> scan (cur @ [c]) rs
      | Some (lit, t) \<Rightarrow> flush cur True @ flush lit False @ scan [] t)"
  by pat_completeness auto

lemma literal_at_shorter: "literal_at c rs = Some (lit, t) \<Longrightarrow> length t < Suc (length rs)"
  using literal_at_split [of c rs lit t] by (cases lit) auto

termination scan
  by (relation "measure (\<lambda>(cur, rs). length rs)") (auto dest: literal_at_shorter)

definition scanSegments :: "rune list \<Rightarrow> sql_segment list" where
  "scanSegments sql = scan [] sql"

definition mapCode :: "rune list \<Rightarrow> (rune list \<Rightarrow> rune list) \<Rightarrow> rune list" where
  "mapCode sql f = concat (map (\<lambda>seg. if sg_code seg then f (sg_text seg) else sg_text seg) (scanSegments sql))"

definition codeMask :: "rune list \<Rightarrow> rune list" where
  "codeMask sql =
     concat (map (\<lambda>seg. if sg_code seg then sg_text seg else replicate (length (sg_text seg)) r_space) (scanSegments sql))"

section \<open>Placeholders\<close>

definition isDigit :: "rune \<Rightarrow> bool" where
  "isDigit c \<longleftrightarrow> 48 \<le> c \<and> c \<le> 57"

text \<open>\<open>rePlaceholder.ReplaceAllString(code, "?$1")\<close>: a dollar sign directly followed by a digit becomes
  a question mark; the digits stay.\<close>

fun replace_placeholders :: "rune list \<Rightarrow> rune list" where
  "replace_placeholders [] = []"
| "replace_placeholders (c # rs) =
     (if c = r_dollar \<and> rs \<noteq> [] \<and> isDigit (hd rs) then r_question else c) # replace_placeholders rs"

definition RewritePlaceholders :: "rune list \<Rightarrow> rune list" where
  "RewritePlaceholders query = mapCode query replace_placeholders"

datatype dialect_kind = Postgres | SQLite

definition Rebind :: "dialect_kind \<Rightarrow> rune list \<Rightarrow> rune list" where
  "Rebind d query = (if d = Postgres then query else RewritePlaceholders query)"

section \<open>Splitting a script into statements\<close>

definition rune_space :: "rune \<Rightarrow> bool" where
  "rune_space c \<longleftrightarrow> (9 \<le> c \<and> c \<le> 13) \<or> c = 32 \<or> c = 133 \<or> c = 160 \<or> c = 5760 \<or>
     (8192 \<le> c \<and> c \<le> 8202) \<or> c = 8232 \<or> c = 8233 \<or> c = 8239 \<or> c = 8287 \<or> c = 12288"

definition trim_runes :: "rune list \<Rightarrow> rune list" where
  "trim_runes s = rev (dropWhile rune_space (rev (dropWhile rune_space s)))"

record split_state =
  sp_out :: "rune list list"
  sp_cur :: "rune list"
  inSingle :: bool
  inDouble :: bool
  inDollar :: bool
  inLine :: bool
  inBlock :: bool
  dollarTag :: "rune list"

definition sp_init :: split_state where
  "sp_init = \<lparr>sp_out = [], sp_cur = [], inSingle = False, inDouble = False, inDollar = False,
     inLine = False, inBlock = False, dollarTag = []\<rparr>"

definition push_rune :: "rune \<Rightarrow> split_state \<Rightarrow> split_state" where
  "push_rune c s = s\<lparr>sp_cur := sp_cur s @ [c]\<rparr>"

definition emit :: "split_state \<Rightarrow> split_state" where
  "emit s = (let t = trim_runes (sp_cur s) in if t \<noteq> [] then s\<lparr>sp_out := sp_out s @ [t]\<rparr> else s)"

text \<open>The first switch: inside a comment or a dollar-quoted body.\<close>

definition split_mode :: "split_state \<Rightarrow> rune option \<Rightarrow> rune \<Rightarrow> split_state option" where
  "split_mode s prev c =
     (if inLine s then Some ((push_rune c s)\<lparr>inLine := c \<noteq> r_newline\<rparr>)
      else if inBlock s then Some ((push_rune c s)\<lparr>inBlock := \<not> (c = r_slash \<and> prev = Some r_star)\<rparr>)
      else if inDollar s then
        Some ((push_rune c s)\<lparr>inDollar := \<not> ends_with (dollarTag s) (sp_cur (push_rune c s))\<rparr>)
      else None)"

text \<open>The openings of comments outside quotes.\<close>

definition split_comment :: "split_state \<Rightarrow> rune \<Rightarrow> rune list \<Rightarrow> split_state option" where
  "split_comment s c rest =
     (if inSingle s \<or> inDouble s \<or> rest = [] then None
      else if c = r_dash \<and> hd rest = r_dash then Some ((push_rune c s)\<lparr>inLine := True\<rparr>)
      else if c = r_slash \<and> hd rest = r_star then Some ((push_rune c s)\<lparr>inBlock := True\<rparr>)
      else None)"

text \<open>The second switch: the new state and how many further runes it consumed.\<close>

definition split_switch :: "split_state \<Rightarrow> rune \<Rightarrow> rune list \<Rightarrow> split_state \<times> nat" where
  "split_switch s c rest =
     (if c = r_quote \<and> \<not> inDouble s then (push_rune c (s\<lparr>inSingle := \<not> inSingle s\<rparr>), 0)
      else if c = r_dquote \<and> \<not> inSingle s then (push_rune c (s\<lparr>inDouble := \<not> inDouble s\<rparr>), 0)
      else if c = r_dollar \<and> \<not> inSingle s \<and> \<not> inDouble s \<and> dollarQuoteTag (c # rest) \<noteq> [] then
        (s\<lparr>inDollar := True, dollarTag := dollarQuoteTag (c # rest), sp_cur := sp_cur s @ dollarQuoteTag (c # rest)\<rparr>,
         length (dollarQuoteTag (c # rest)) - 1)
      else if c = r_semi \<and> \<not> inSingle s \<and> \<not> inDouble s then ((emit s)\<lparr>sp_cur := []\<rparr>, 0)
      else (push_rune c s, 0))"

text \<open>One iteration on the rune \<open>c\<close>, the rune before it and the rest.\<close>

definition split_step :: "split_state \<Rightarrow> rune option \<Rightarrow> rune \<Rightarrow> rune list \<Rightarrow> split_state \<times> nat" where
  "split_step s prev c rest =
     (case split_mode s prev c of
        Some s' \<Rightarrow> (s', 0)
      | None \<Rightarrow> (case split_comment s c rest of Some s' \<Rightarrow> (s', 0) | None \<Rightarrow> split_switch s c rest))"

function split_loop :: "split_state \<Rightarrow> rune option \<Rightarrow> rune list \<Rightarrow> split_state" where
  "split_loop s prev [] = s"
| "split_loop s prev (c # rest) =
     (case split_step s prev c rest of (s', k) \<Rightarrow>
        split_loop s' (Some (if k = 0 then c else (c # rest) ! k)) (drop k rest))"
  by pat_completeness auto
termination
  by (relation "measure (\<lambda>(s, prev, rs). length rs)") auto

definition splitStatements :: "rune list \<Rightarrow> rune list list" where
  "splitStatements script = sp_out (emit (split_loop sp_init None script))"

section \<open>CREATE EXTENSION\<close>

definition wordRune :: "rune \<Rightarrow> bool" where
  "wordRune c = isTagRune c"

definition lower_rune :: "rune \<Rightarrow> rune" where
  "lower_rune c = (if 65 \<le> c \<and> c \<le> 90 then c + 32 else c)"

text \<open>White space of the regular expression class \<open>\s\<close>.\<close>

definition reSpace :: "rune \<Rightarrow> bool" where
  "reSpace c \<longleftrightarrow> c = 9 \<or> c = 10 \<or> c = 12 \<or> c = 13 \<or> c = 32"

definition word_at :: "string \<Rightarrow> rune list \<Rightarrow> rune list option" where
  "word_at w rs = (if map lower_rune (take (length w) rs) = runes w then Some (drop (length w) rs) else None)"

text \<open>\<open>(?is)\bCREATE\s+EXTENSION\b\<close> anchored at \<open>rs\<close>, after the rune \<open>prev\<close>.\<close>

definition createExtension_at :: "rune option \<Rightarrow> rune list \<Rightarrow> bool" where
  "createExtension_at prev rs \<longleftrightarrow>
     (case prev of None \<Rightarrow> True | Some p \<Rightarrow> \<not> wordRune p) \<and>
     (case word_at ''create'' rs of
        None \<Rightarrow> False
      | Some r1 \<Rightarrow> r1 \<noteq> [] \<and> reSpace (hd r1) \<and>
          (case word_at ''extension'' (dropWhile reSpace r1) of
             None \<Rightarrow> False
           | Some r2 \<Rightarrow> r2 = [] \<or> \<not> wordRune (hd r2)))"

text \<open>The leftmost match, as the runes before it.\<close>

fun find_extension :: "rune option \<Rightarrow> rune list \<Rightarrow> nat option" where
  "find_extension prev [] = None"
| "find_extension prev (c # rs) =
     (if createExtension_at prev (c # rs) then Some 0
      else case find_extension (Some c) rs of None \<Rightarrow> None | Some i \<Rightarrow> Some (Suc i))"

text \<open>\<open>stmt[:loc[0]] + "SELECT 1"\<close>: the offset is one of bytes in the mask, the slice one of bytes in
  the statement.\<close>

definition neutraliseExtension :: "rune list \<Rightarrow> bytes" where
  "neutraliseExtension stmt =
     (let mask = codeMask stmt in
      case find_extension None mask of
        None \<Rightarrow> utf8 stmt
      | Some i \<Rightarrow> take (length (utf8 (take i mask))) (utf8 stmt) @ utf8 (runes ''SELECT 1''))"

section \<open>Scanning loses nothing\<close>

definition seg_texts :: "sql_segment list \<Rightarrow> rune list" where
  "seg_texts segs = concat (map sg_text segs)"

lemma seg_texts_simps [simp]:
  "seg_texts [] = []" "seg_texts (a @ b) = seg_texts a @ seg_texts b" "seg_texts (flush cur code) = cur"
  by (simp_all add: seg_texts_def flush_def)

lemma scan_texts: "seg_texts (scan cur rs) = cur @ rs"
proof (induction cur rs rule: scan.induct)
  case (2 cur c rs)
  then show ?case
    using literal_at_split [of c rs] by (cases "literal_at c rs") auto
qed simp

lemma scan_nonempty: "seg \<in> set (scan cur rs) \<Longrightarrow> sg_text seg \<noteq> []"
proof (induction cur rs rule: scan.induct)
  case (2 cur c rs)
  then show ?case
    by (cases "literal_at c rs") (auto simp: flush_def split: if_splits)
qed (auto simp: flush_def split: if_splits)

lemma length_codeMask: "length (codeMask sql) = length sql"
proof -
  have "length (codeMask sql) = length (seg_texts (scanSegments sql))"
    unfolding codeMask_def seg_texts_def by (induction "scanSegments sql" arbitrary: sql) (simp_all add: length_concat comp_def
      if_distrib cong: if_cong)
  then show ?thesis by (simp add: scanSegments_def scan_texts)
qed

section \<open>Literals\<close>

text \<open>A single-quoted literal for the text \<open>s\<close>, embedded quotes doubled.\<close>

fun escape_quotes :: "rune list \<Rightarrow> rune list" where
  "escape_quotes [] = []"
| "escape_quotes (c # s) = (if c = r_quote then [c, c] else [c]) @ escape_quotes s"

definition sql_literal :: "rune list \<Rightarrow> rune list" where
  "sql_literal s = r_quote # escape_quotes s @ [r_quote]"

text \<open>Code without any rune that could open a literal, an identifier, a comment or a dollar quote.\<close>

definition plain :: "rune list \<Rightarrow> bool" where
  "plain p \<longleftrightarrow> set p \<inter> {r_quote, r_dquote, r_dash, r_slash, r_dollar} = {}"

lemma literal_at_plain:
  "c \<notin> {r_quote, r_dquote, r_dash, r_slash, r_dollar} \<Longrightarrow> literal_at c rs = None"
  by (simp add: literal_at_def)

lemma scan_plain: "plain p \<Longrightarrow> scan cur (p @ rs) = scan (cur @ p) rs"
  by (induction p arbitrary: cur) (auto simp: plain_def literal_at_plain)

lemma single_quoted_escape:
  "\<not> (q \<noteq> [] \<and> hd q = r_quote) \<Longrightarrow> single_quoted (escape_quotes s @ r_quote # q) = (escape_quotes s @ [r_quote], q)"
proof (induction s)
  case Nil
  then show ?case by (cases q) auto
next
  case (Cons c s)
  obtain d ds where d: "escape_quotes s @ r_quote # q = d # ds" by (cases "escape_quotes s") auto
  show ?case using Cons by (auto simp: d)
qed

lemma scan_literal:
  assumes "plain p" "\<not> (q \<noteq> [] \<and> hd q = r_quote)"
  shows "scan cur (p @ sql_literal s @ q) = flush (cur @ p) True @ flush (sql_literal s) False @ scan [] q"
  using single_quoted_escape [OF assms(2), of s] assms(1)
  by (simp add: scan_plain sql_literal_def literal_at_def)

section \<open>The mask\<close>

definition seg_mask :: "sql_segment list \<Rightarrow> rune list" where
  "seg_mask segs =
     concat (map (\<lambda>seg. if sg_code seg then sg_text seg else replicate (length (sg_text seg)) r_space) segs)"

lemma seg_mask_simps [simp]:
  "seg_mask (a @ b) = seg_mask a @ seg_mask b" "seg_mask (flush cur True) = cur"
  "seg_mask (flush cur False) = replicate (length cur) r_space"
  by (simp_all add: seg_mask_def flush_def)

lemma codeMask_seg_mask: "codeMask sql = seg_mask (scan [] sql)"
  by (simp add: codeMask_def seg_mask_def scanSegments_def)

lemma seg_mask_scan: "seg_mask (scan cur rs) = cur @ seg_mask (scan [] rs)"
proof (induction "length rs" arbitrary: cur rs rule: less_induct)
  case less
  show ?case
  proof (cases rs)
    case (Cons c rs')
    show ?thesis
    proof (cases "literal_at c rs'")
      case None
      have "seg_mask (scan (cur @ [c]) rs') = (cur @ [c]) @ seg_mask (scan [] rs')"
        and "seg_mask (scan [c] rs') = [c] @ seg_mask (scan [] rs')"
        by (rule less, simp add: Cons)+
      then show ?thesis using None Cons by simp
    qed (auto simp: Cons)
  qed simp
qed

lemma codeMask_plain: "plain p \<Longrightarrow> codeMask (p @ rs) = p @ codeMask rs"
  unfolding codeMask_seg_mask by (simp add: scan_plain seg_mask_scan [of p])

lemma through_newline: "r_newline \<notin> set u \<Longrightarrow> through_rune r_newline (u @ r_newline # rs) = (u @ [r_newline], rs)"
  by (induction u) auto

lemma codeMask_line_comment:
  assumes "r_newline \<notin> set u"
  shows "codeMask (r_dash # r_dash # u @ r_newline # rs) = replicate (length u + 3) r_space @ codeMask rs"
proof -
  have "literal_at r_dash (r_dash # u @ r_newline # rs) = Some (r_dash # r_dash # u @ [r_newline], rs)"
    using through_newline [of "r_dash # r_dash # u" rs] assms by (simp add: literal_at_def)
  then show ?thesis
    by (simp add: codeMask_seg_mask replicate_add [symmetric] numeral_3_eq_3)
qed

section \<open>CREATE EXTENSION behind a comment\<close>

lemma find_extension_spaces:
  "createExtension_at (Some r_space) rs \<Longrightarrow> find_extension prev (replicate (Suc n) r_space @ rs) = Some (Suc n)"
proof (induction n arbitrary: prev)
  case 0
  then show ?case by (cases rs) (auto simp: createExtension_at_def word_at_def lower_rune_def runes_def)
next
  case (Suc n)
  then show ?case by (simp add: createExtension_at_def word_at_def lower_rune_def runes_def)
qed

text \<open>The statement: a line comment \<open>u\<close>, then the extension clause.\<close>

definition extension_stmt :: "rune list \<Rightarrow> rune list \<Rightarrow> rune list" where
  "extension_stmt u rest = r_dash # r_dash # u @ r_newline # runes ''CREATE EXTENSION '' @ rest"

lemma createExtension_at_mask:
  "createExtension_at (Some r_space) (runes ''CREATE EXTENSION '' @ rs)"
  by (simp add: createExtension_at_def word_at_def lower_rune_def runes_def wordRune_def isTagRune_def reSpace_def)

lemma neutraliseExtension_comment:
  assumes "r_newline \<notin> set u"
  shows "neutraliseExtension (extension_stmt u rest) =
    take (length u + 3) (utf8 (extension_stmt u rest)) @ utf8 (runes ''SELECT 1'')"
proof -
  have "plain (runes ''CREATE EXTENSION '')" by (simp add: plain_def runes_def)
  then have mask: "codeMask (extension_stmt u rest) =
      replicate (Suc (length u + 2)) r_space @ runes ''CREATE EXTENSION '' @ codeMask rest"
    using codeMask_line_comment [OF assms] by (simp add: extension_stmt_def codeMask_plain numeral_3_eq_3)
  have find: "find_extension None (codeMask (extension_stmt u rest)) = Some (Suc (length u + 2))"
    unfolding mask by (rule find_extension_spaces [OF createExtension_at_mask])
  have "utf8 (replicate n r_space) = replicate n 32" for n
    by (induction n) (simp_all add: utf8_def utf8_rune_def)
  then have "length (utf8 (replicate (Suc (length u + 2)) r_space)) = length u + 3"
    by (simp only: length_replicate)
  moreover have "take (Suc (length u + 2)) (codeMask (extension_stmt u rest)) = replicate (Suc (length u + 2)) r_space"
    unfolding mask by (simp only: take_append length_replicate take_replicate) simp
  ultimately have "length (utf8 (take (Suc (length u + 2)) (codeMask (extension_stmt u rest)))) = length u + 3"
    by (simp only:)
  then show ?thesis using find by (simp add: neutraliseExtension_def Let_def)
qed

section \<open>Statements\<close>

fun join_semi :: "rune list list \<Rightarrow> rune list" where
  "join_semi [] = []"
| "join_semi [x] = x"
| "join_semi (x # y # ys) = x @ r_semi # join_semi (y # ys)"

lemma join_semi_Cons: "xs \<noteq> [] \<Longrightarrow> join_semi (x # xs) = x @ r_semi # join_semi xs"
  by (cases xs) auto

lemma split_switch_result:
  assumes "split_switch s c rest = (s', k)"
  shows "(k \<le> length rest \<and> sp_cur s' = sp_cur s @ take (Suc k) (c # rest) \<and> sp_out s' = sp_out s) \<or>
    (k = 0 \<and> c = r_semi \<and> sp_cur s' = [] \<and> s' = (emit s)\<lparr>sp_cur := []\<rparr>)"
proof (cases "\<not> inSingle s \<and> \<not> inDouble s \<and> c = r_dollar \<and> dollarQuoteTag (c # rest) \<noteq> []")
  case True
  then have "\<exists>u v. dollarQuoteTag (c # rest) = c # u \<and> rest = u @ v" using dollarQuoteTag_prefix [of c rest] by blast
  then obtain u v where u: "dollarQuoteTag (c # rest) = c # u" "rest = u @ v" by blast
  have "s' = s\<lparr>inDollar := True, dollarTag := c # u, sp_cur := sp_cur s @ c # u\<rparr> \<and> k = length u"
    using assms True u(1) by (simp add: split_switch_def del: dollarQuoteTag.simps)
  then show ?thesis using u(2) by simp
next
  case False
  have "c = r_quote \<or> c = r_dquote \<or> c = r_semi \<or> c \<notin> {r_quote, r_dquote, r_semi}" by blast
  with False show ?thesis
    using assms unfolding split_switch_def push_rune_def
    by (elim disjE) (simp_all del: dollarQuoteTag.simps split: if_split_asm, auto)
qed

lemma split_step_result:
  assumes "split_step s prev c rest = (s', k)"
  shows "(k \<le> length rest \<and> sp_cur s' = sp_cur s @ take (Suc k) (c # rest) \<and> sp_out s' = sp_out s) \<or>
    (k = 0 \<and> c = r_semi \<and> sp_cur s' = [] \<and> s' = (emit s)\<lparr>sp_cur := []\<rparr>)"
proof -
  have mode: "sp_cur t = sp_cur s @ [c] \<and> sp_out t = sp_out s" if "split_mode s prev c = Some t" for t
    using that unfolding split_mode_def push_rune_def by (simp split: if_split_asm) auto
  have comment: "sp_cur t = sp_cur s @ [c] \<and> sp_out t = sp_out s" if "split_comment s c rest = Some t" for t
    using that unfolding split_comment_def push_rune_def by (simp split: if_split_asm) auto
  show ?thesis
    using assms mode comment split_switch_result [of s c rest s' k] unfolding split_step_def
    by (simp split: option.splits)
qed

lemma emit_out: "sp_out (emit s) = sp_out s @ filter (\<lambda>x. x \<noteq> []) [trim_runes (sp_cur s)]"
  by (simp add: emit_def Let_def)

lemma split_loop_raws:
  "\<exists>raws. sp_cur s @ rs = join_semi (raws @ [sp_cur (split_loop s prev rs)]) \<and>
     sp_out (split_loop s prev rs) = sp_out s @ filter (\<lambda>x. x \<noteq> []) (map trim_runes raws)"
proof (induction s prev rs rule: split_loop.induct)
  case (1 s prev)
  then show ?case by (intro exI [of _ "[]"]) simp
next
  case (2 s prev c rest)
  obtain s' k where step: "split_step s prev c rest = (s', k)" by fastforce
  let ?r = "split_loop s' (Some (if k = 0 then c else (c # rest) ! k)) (drop k rest)"
  obtain raws where raws: "sp_cur s' @ drop k rest = join_semi (raws @ [sp_cur ?r])"
    "sp_out ?r = sp_out s' @ filter (\<lambda>x. x \<noteq> []) (map trim_runes raws)"
    using 2 [OF step [symmetric]] by blast
  have loop: "split_loop s prev (c # rest) = ?r" using step by simp
  from split_step_result [OF step] show ?case
  proof (elim disjE)
    assume keep: "k \<le> length rest \<and> sp_cur s' = sp_cur s @ take (Suc k) (c # rest) \<and> sp_out s' = sp_out s"
    then have "sp_cur s @ c # rest = sp_cur s' @ drop k rest" by simp
    then show ?thesis using raws keep loop by (intro exI [of _ raws]) (simp del: split_loop.simps)
  next
    assume stop: "k = 0 \<and> c = r_semi \<and> sp_cur s' = [] \<and> s' = (emit s)\<lparr>sp_cur := []\<rparr>"
    have "sp_cur s @ c # rest = join_semi ((sp_cur s # raws) @ [sp_cur ?r])"
      using raws(1) stop by (simp add: join_semi_Cons del: split_loop.simps)
    moreover have "sp_out ?r = sp_out s @ filter (\<lambda>x. x \<noteq> []) (map trim_runes (sp_cur s # raws))"
      using raws(2) stop emit_out [of s] by (simp del: split_loop.simps)
    ultimately show ?thesis unfolding loop by blast
  qed
qed

lemma trim_runes_nonempty:
  assumes "x \<in> set s" "\<not> rune_space x"
  shows "trim_runes s \<noteq> []"
proof -
  have "dropWhile rune_space s \<noteq> []" using assms by (auto simp: dropWhile_eq_Nil_conv)
  then have "hd (dropWhile rune_space s) \<in> set (dropWhile rune_space s)" "\<not> rune_space (hd (dropWhile rune_space s))"
    by (rule hd_in_set, rule hd_dropWhile)
  then show ?thesis by (auto simp: trim_runes_def dropWhile_eq_Nil_conv)
qed

text \<open>Code that cannot open anything and does not end a statement.\<close>

definition quiet :: "rune list \<Rightarrow> bool" where
  "quiet p \<longleftrightarrow> plain p \<and> r_semi \<notin> set p"

lemma split_step_quiet:
  assumes "inLine s = False" "inBlock s = False" "inDollar s = False" "c \<notin> {r_quote, r_dquote, r_dash, r_slash, r_dollar, r_semi}"
  shows "split_step s prev c rest = (push_rune c s, 0)"
  using assms by (simp add: split_step_def split_mode_def split_comment_def split_switch_def)

lemma split_loop_quiet:
  assumes "quiet p" "\<not> inLine s" "\<not> inBlock s" "\<not> inDollar s"
  shows "\<exists>prev'. split_loop s prev (p @ rs) = split_loop (s\<lparr>sp_cur := sp_cur s @ p\<rparr>) prev' rs"
  using assms
proof (induction p arbitrary: s prev)
  case Nil
  then show ?case by (intro exI [of _ prev]) simp
next
  case (Cons c p)
  then have "split_step s prev c (p @ rs) = (push_rune c s, 0)"
    by (intro split_step_quiet) (auto simp: quiet_def plain_def)
  moreover have "\<exists>prev'. split_loop (push_rune c s) (Some c) (p @ rs) =
      split_loop ((push_rune c s)\<lparr>sp_cur := sp_cur (push_rune c s) @ p\<rparr>) prev' rs"
    using Cons by (intro Cons.IH) (auto simp: quiet_def plain_def push_rune_def)
  ultimately show ?case by (simp add: push_rune_def)
qed

lemma split_step_in_single:
  assumes "inSingle s" "\<not> inDouble s" "\<not> inLine s" "\<not> inBlock s" "\<not> inDollar s" "c \<noteq> r_quote"
  shows "split_step s prev c rest = (push_rune c s, 0)"
  using assms by (simp add: split_step_def split_mode_def split_comment_def split_switch_def)

lemma split_step_quote:
  assumes "\<not> inDouble s" "\<not> inLine s" "\<not> inBlock s" "\<not> inDollar s"
  shows "split_step s prev r_quote rest = (push_rune r_quote (s\<lparr>inSingle := \<not> inSingle s\<rparr>), 0)"
  using assms by (simp add: split_step_def split_mode_def split_comment_def split_switch_def)

lemma split_loop_escaped:
  assumes "inSingle s" "\<not> inDouble s" "\<not> inLine s" "\<not> inBlock s" "\<not> inDollar s"
  shows "\<exists>prev'. split_loop s prev (escape_quotes b @ rs) = split_loop (s\<lparr>sp_cur := sp_cur s @ escape_quotes b\<rparr>) prev' rs"
  using assms
proof (induction b arbitrary: s prev)
  case Nil
  then show ?case by (intro exI [of _ prev]) simp
next
  case (Cons c b)
  have IH: "\<exists>prev'. split_loop t p (escape_quotes b @ rs) = split_loop (t\<lparr>sp_cur := sp_cur t @ escape_quotes b\<rparr>) prev' rs"
    if "inSingle t" "\<not> inDouble t" "\<not> inLine t" "\<not> inBlock t" "\<not> inDollar t" for t p
    using Cons.IH that by blast
  show ?case
  proof (cases "c = r_quote")
    case True
    let ?t = "push_rune r_quote ((push_rune r_quote (s\<lparr>inSingle := False\<rparr>))\<lparr>inSingle := True\<rparr>)"
    have t: "?t = s\<lparr>sp_cur := sp_cur s @ [r_quote, r_quote]\<rparr>" using Cons.prems by (simp add: push_rune_def)
    have "split_loop s prev (escape_quotes (c # b) @ rs) = split_loop ?t (Some r_quote) (escape_quotes b @ rs)"
      using True Cons.prems by (simp add: split_step_quote push_rune_def)
    then show ?thesis using IH [of ?t "Some r_quote"] Cons.prems True unfolding t by simp
  next
    case False
    then show ?thesis
      using IH [of "push_rune c s" "Some c"] Cons.prems by (simp add: split_step_in_single push_rune_def)
  qed
qed

lemma split_loop_literal:
  assumes "\<not> inSingle s" "\<not> inDouble s" "\<not> inLine s" "\<not> inBlock s" "\<not> inDollar s"
  shows "\<exists>prev'. split_loop s prev (sql_literal b @ rs) = split_loop (s\<lparr>sp_cur := sp_cur s @ sql_literal b\<rparr>) prev' rs"
proof -
  let ?t = "push_rune r_quote (s\<lparr>inSingle := True\<rparr>)"
  let ?u = "?t\<lparr>sp_cur := sp_cur ?t @ escape_quotes b\<rparr>"
  have "split_loop s prev (sql_literal b @ rs) = split_loop ?t (Some r_quote) (escape_quotes b @ r_quote # rs)"
    using assms by (simp add: sql_literal_def split_step_quote)
  moreover obtain p where "split_loop ?t (Some r_quote) (escape_quotes b @ r_quote # rs) = split_loop ?u p (r_quote # rs)"
    using split_loop_escaped [of ?t "Some r_quote" b "r_quote # rs"] assms by (auto simp: push_rune_def)
  moreover have "split_loop ?u p (r_quote # rs) = split_loop (push_rune r_quote (?u\<lparr>inSingle := False\<rparr>)) (Some r_quote) rs"
    using assms by (simp add: split_step_quote push_rune_def)
  moreover have "push_rune r_quote (?u\<lparr>inSingle := False\<rparr>) = s\<lparr>sp_cur := sp_cur s @ sql_literal b\<rparr>"
    using assms by (simp add: push_rune_def sql_literal_def)
  ultimately show ?thesis by auto
qed

section \<open>Properties\<close>

text \<open>Scanning is lossless and literals are never rewritten. The segments concatenate to the
  input, mapping code by the identity is the identity, and in \<open>p 'literal' q\<close> with \<open>p\<close> free of
  quotes and comments the literal is passed through rune for rune whatever the rewriting \<open>f\<close>
  does, while the text before it is rewritten as a whole and the text after it is scanned afresh.\<close>

theorem mapCode_keeps_literals:
  "concat (map sg_text (scanSegments sql)) = sql \<and> mapCode sql (\<lambda>x. x) = sql \<and>
   (plain p \<and> \<not> (q \<noteq> [] \<and> hd q = r_quote) \<longrightarrow>
     mapCode (p @ sql_literal s @ q) f = (if p = [] then [] else f p) @ sql_literal s @ mapCode q f)"
  using scan_texts [of "[]" sql] scan_literal [of p q "[]" s]
  by (auto simp: scanSegments_def mapCode_def seg_texts_def flush_def sql_literal_def)

theorem mapCode_keeps_literals_witness:
  "mapCode (runes ''a = '' @ sql_literal (runes ''it's $5'') @ runes '' OR b = 1'') rev
    = rev (runes ''a = '') @ sql_literal (runes ''it's $5'') @ mapCode (runes '' OR b = 1'') rev"
  using mapCode_keeps_literals [of "[]" "runes ''a = ''" "runes '' OR b = 1''" "runes ''it's $5''" rev]
  by (simp add: plain_def runes_def)

text \<open>The numbers written after a marker rune.\<close>

fun params :: "rune \<Rightarrow> rune list \<Rightarrow> rune list list" where
  "params d [] = []"
| "params d (c # rs) = (if c = d \<and> rs \<noteq> [] \<and> isDigit (hd rs) then [takeWhile isDigit rs] else []) @ params d rs"

text \<open>Placeholders keep their numbers. In code without a question mark of its own, the numbered
  parameters SQLite sees after the rewrite are exactly the Postgres ones, in the same order and
  with the same reuse.\<close>

theorem placeholders_keep_numbers:
  assumes "r_question \<notin> set code"
  shows "params r_question (replace_placeholders code) = params r_dollar code \<and>
    length (replace_placeholders code) = length code"
proof -
  have digits: "takeWhile isDigit (replace_placeholders rs) = takeWhile isDigit rs" for rs
    by (induction rs) (auto simp: isDigit_def)
  have hd: "replace_placeholders rs \<noteq> [] \<and> isDigit (hd (replace_placeholders rs)) \<longleftrightarrow> rs \<noteq> [] \<and> isDigit (hd rs)" for rs
    by (cases rs) (auto simp: isDigit_def)
  show ?thesis
    using assms by (induction code) (auto simp: digits hd)
qed

theorem placeholders_keep_numbers_witness:
  "params r_question (replace_placeholders (runes ''$3 = x OR kind = $3'')) = [runes ''3'', runes ''3'']"
  using placeholders_keep_numbers [of "runes ''$3 = x OR kind = $3''"] by (simp add: runes_def isDigit_def)

text \<open>Splitting a script loses nothing but terminators and white space. The script is a sequence
  of raw pieces joined by semicolons, and the statements are the trimmed pieces that are not empty;
  a semicolon inside a literal is not a terminator.\<close>

theorem splitStatements_spec:
  "(\<exists>raws. script = join_semi raws \<and> splitStatements script = filter (\<lambda>x. x \<noteq> []) (map trim_runes raws)) \<and>
   (quiet p \<longrightarrow> splitStatements (p @ sql_literal b) = [trim_runes (p @ sql_literal b)])"
proof
  obtain raws where r: "script = join_semi (raws @ [sp_cur (split_loop sp_init None script)])"
    "sp_out (split_loop sp_init None script) = filter (\<lambda>x. x \<noteq> []) (map trim_runes raws)"
    using split_loop_raws [of sp_init script None] by (auto simp: sp_init_def)
  then show "\<exists>raws. script = join_semi raws \<and> splitStatements script = filter (\<lambda>x. x \<noteq> []) (map trim_runes raws)"
    by (intro exI [of _ "raws @ [sp_cur (split_loop sp_init None script)]"])
      (simp add: splitStatements_def emit_out)
  show "quiet p \<longrightarrow> splitStatements (p @ sql_literal b) = [trim_runes (p @ sql_literal b)]"
  proof
    assume "quiet p"
    then obtain prev where p: "split_loop sp_init None (p @ sql_literal b) = split_loop (sp_init\<lparr>sp_cur := p\<rparr>) prev (sql_literal b)"
      using split_loop_quiet [of p sp_init None "sql_literal b"] by (auto simp: sp_init_def)
    obtain prev' where "split_loop (sp_init\<lparr>sp_cur := p\<rparr>) prev (sql_literal b @ []) =
        split_loop (sp_init\<lparr>sp_cur := p @ sql_literal b\<rparr>) prev' []"
      using split_loop_literal [of "sp_init\<lparr>sp_cur := p\<rparr>" prev b "[]"] by (auto simp: sp_init_def)
    then have "split_loop sp_init None (p @ sql_literal b) = sp_init\<lparr>sp_cur := p @ sql_literal b\<rparr>" using p by simp
    moreover have "trim_runes (p @ sql_literal b) \<noteq> []"
      by (rule trim_runes_nonempty [of r_quote]) (simp_all add: sql_literal_def rune_space_def)
    ultimately show "splitStatements (p @ sql_literal b) = [trim_runes (p @ sql_literal b)]"
      by (simp add: splitStatements_def emit_out) (simp add: sp_init_def)
  qed
qed

theorem splitStatements_spec_witness:
  "splitStatements (runes ''SELECT '' @ sql_literal (runes ''a;b'')) = [trim_runes (runes ''SELECT '' @ sql_literal (runes ''a;b''))]"
  using splitStatements_spec [of "[]" "runes ''SELECT ''" "runes ''a;b''"] by (simp add: quiet_def plain_def runes_def)

text \<open>C0: \<open>CREATE EXTENSION\<close> behind a comment. With an ASCII comment the comment line is kept and
  the clause becomes \<open>SELECT 1\<close>. With any other rune in the comment the mask is shorter in bytes
  than the statement, so the cut falls inside the comment line: the newline is lost and the whole
  result, \<open>SELECT 1\<close> included, is a comment.\<close>

theorem extension_cut_by_bytes:
  assumes "r_newline \<notin> set u"
  shows "((\<forall>r \<in> set u. r < 128) \<longrightarrow> neutraliseExtension (extension_stmt u rest) =
      utf8 (r_dash # r_dash # u @ [r_newline] @ runes ''SELECT 1'')) \<and>
    ((\<exists>r \<in> set u. 128 \<le> r) \<longrightarrow> (\<exists>k. k < length (utf8 (r_dash # r_dash # u @ [r_newline])) \<and>
      neutraliseExtension (extension_stmt u rest) =
        take k (utf8 (r_dash # r_dash # u @ [r_newline])) @ utf8 (runes ''SELECT 1'')))"
proof -
  let ?c = "r_dash # r_dash # u @ [r_newline]"
  have app: "utf8 (a @ b) = utf8 a @ utf8 b" for a b by (simp add: utf8_def)
  have stmt: "utf8 (extension_stmt u rest) = utf8 ?c @ utf8 (runes ''CREATE EXTENSION '' @ rest)"
    by (simp add: extension_stmt_def flip: app)
  have one: "length (utf8_rune r) = 1 \<longleftrightarrow> r < 128" "1 \<le> length (utf8_rune r)" for r by (auto simp: utf8_rune_def)
  have ge: "length v \<le> length (utf8 v)" for v
  proof (induction v)
    case (Cons r v)
    then show ?case using one(2) [of r] by (simp add: utf8_def)
  qed simp
  have len: "length (utf8 ?c) = length (utf8 u) + 3" by (simp add: utf8_def utf8_rune_def)
  have cut: "neutraliseExtension (extension_stmt u rest) =
      take (length u + 3) (utf8 (extension_stmt u rest)) @ utf8 (runes ''SELECT 1'')"
    by (rule neutraliseExtension_comment [OF assms])
  show ?thesis
  proof (intro conjI impI)
    assume "\<forall>r \<in> set u. r < 128"
    then have "length (utf8 u) = length u" by (induction u) (auto simp: utf8_def utf8_rune_def)
    then show "neutraliseExtension (extension_stmt u rest) = utf8 (r_dash # r_dash # u @ [r_newline] @ runes ''SELECT 1'')"
      using len cut by (simp add: stmt) (simp add: utf8_def)
  next
    assume "\<exists>r \<in> set u. 128 \<le> r"
    then have "length u < length (utf8 u)"
    proof (induction u)
      case (Cons r u)
      have "length (utf8 (r # u)) = length (utf8_rune r) + length (utf8 u)" by (simp add: utf8_def)
      then show ?case using Cons one(2) [of r] ge [of u] by (cases "128 \<le> r") (auto simp: utf8_rune_def)
    qed simp
    then show "\<exists>k. k < length (utf8 ?c) \<and> neutraliseExtension (extension_stmt u rest) = take k (utf8 ?c) @ utf8 (runes ''SELECT 1'')"
      using len cut by (intro exI [of _ "length u + 3"]) (simp add: stmt)
  qed
qed

theorem extension_cut_by_bytes_witness:
  "\<exists>k. k < length (utf8 [r_dash, r_dash, 8212, r_newline]) \<and>
    neutraliseExtension (extension_stmt [8212] []) = take k (utf8 [r_dash, r_dash, 8212, r_newline]) @ utf8 (runes ''SELECT 1'')"
  using extension_cut_by_bytes [of "[8212]" "[]"] by simp

end
