(* ===== verification/Audit_Chain.thy ===== *)
theory Audit_Chain
  imports Go_Strings
begin

text \<open>
  The tamper-evident audit trail, \<open>src/gateway-service/internal/auth/audit_chain.go\<close> and the chain
  operations of \<open>audit.go\<close>: hashing a record onto its predecessor, appending under the lock,
  back-filling rows without a hash, and verification by replay. The hash function, the JSON
  canonicalisation, the database's representation of JSON and the time format are arguments.
\<close>

section \<open>Records and rows\<close>

definition auditGenesisHash :: string where
  "auditGenesisHash = replicate 64 CHR ''0''"

text \<open>Times are nanoseconds.\<close>

record auditRecord =
  ar_Actor :: string
  ar_Action :: string
  ar_TargetType :: string
  ar_TargetID :: string
  ar_Before :: string
  ar_After :: string
  ar_CreatedAt :: int

text \<open>\<open>PrevHash\<close> and \<open>EntryHash\<close> as stored: \<open>None\<close> is a NULL column.\<close>

record audit_row =
  row_ID :: int
  row_Actor :: string
  row_Action :: string
  row_TargetType :: string
  row_TargetID :: string
  row_Before :: string
  row_After :: string
  row_CreatedAt :: int
  row_PrevHash :: "string option"
  row_EntryHash :: "string option"

text \<open>What the surroundings provide: the hex digest of a byte string, JSON text unmarshalled and
  marshalled again (\<open>None\<close> when it is not JSON), the text the database returns for a stored JSON
  value, and the printed form of a time.\<close>

record audit_env =
  digest :: "string \<Rightarrow> string"
  remarshal :: "string \<Rightarrow> string option"
  jsonb :: "string \<Rightarrow> string"
  fmt_time :: "int \<Rightarrow> string"

definition canonicalTime :: "audit_env \<Rightarrow> int \<Rightarrow> string" where
  "canonicalTime E t = fmt_time E (t - t mod 1000)"

definition canonicalJSON :: "audit_env \<Rightarrow> string \<Rightarrow> string" where
  "canonicalJSON E raw =
     (if raw = [] then ''null'' else case remarshal E raw of None \<Rightarrow> ''null'' | Some s \<Rightarrow> s)"

section \<open>Hashing\<close>

definition writeHashField :: "string \<Rightarrow> string" where
  "writeHashField field = format_nat (length field) @ '':'' @ field"

definition hash_input :: "audit_env \<Rightarrow> string \<Rightarrow> auditRecord \<Rightarrow> string" where
  "hash_input E prevHash r =
     writeHashField prevHash @ writeHashField (ar_Actor r) @ writeHashField (ar_Action r) @
     writeHashField (ar_TargetType r) @ writeHashField (ar_TargetID r) @
     writeHashField (ar_Before r) @ writeHashField (ar_After r) @
     writeHashField (canonicalTime E (ar_CreatedAt r))"

definition computeAuditHash :: "audit_env \<Rightarrow> string \<Rightarrow> auditRecord \<Rightarrow> string" where
  "computeAuditHash E prevHash r = digest E (hash_input E prevHash r)"

definition row_record :: "audit_env \<Rightarrow> audit_row \<Rightarrow> auditRecord" where
  "row_record E row =
     \<lparr>ar_Actor = row_Actor row, ar_Action = row_Action row, ar_TargetType = row_TargetType row,
      ar_TargetID = row_TargetID row, ar_Before = canonicalJSON E (row_Before row),
      ar_After = canonicalJSON E (row_After row), ar_CreatedAt = row_CreatedAt row\<rparr>"

section \<open>Verification\<close>

datatype verdict_message = NotInChain int | BreaksChain int | Altered int | Intact nat

record AuditVerification =
  av_Valid :: bool
  av_Count :: nat
  av_FirstBrokenID :: int
  av_Message :: verdict_message

text \<open>\<open>COALESCE(column, '')\<close>.\<close>

definition coalesce :: "string option \<Rightarrow> string" where
  "coalesce x = (case x of None \<Rightarrow> [] | Some s \<Rightarrow> s)"

fun verify_loop :: "audit_env \<Rightarrow> nat \<Rightarrow> string \<Rightarrow> audit_row list \<Rightarrow> AuditVerification" where
  "verify_loop E n prev [] = \<lparr>av_Valid = True, av_Count = n, av_FirstBrokenID = 0, av_Message = Intact n\<rparr>"
| "verify_loop E n prev (row # rows) =
     (if trim_space (coalesce (row_EntryHash row)) = [] then
        \<lparr>av_Valid = False, av_Count = n, av_FirstBrokenID = row_ID row, av_Message = NotInChain (row_ID row)\<rparr>
      else if coalesce (row_PrevHash row) \<noteq> prev then
        \<lparr>av_Valid = False, av_Count = n, av_FirstBrokenID = row_ID row, av_Message = BreaksChain (row_ID row)\<rparr>
      else if coalesce (row_EntryHash row) \<noteq> computeAuditHash E prev (row_record E row) then
        \<lparr>av_Valid = False, av_Count = n, av_FirstBrokenID = row_ID row, av_Message = Altered (row_ID row)\<rparr>
      else verify_loop E n (coalesce (row_EntryHash row)) rows)"

definition VerifyAuditChain :: "audit_env \<Rightarrow> audit_row list \<Rightarrow> AuditVerification" where
  "VerifyAuditChain E rows = verify_loop E (length rows) auditGenesisHash rows"

section \<open>Appending\<close>

text \<open>The newest row that carries a hash; the table is kept in the order of its ids.\<close>

definition chain_tail :: "audit_row list \<Rightarrow> string" where
  "chain_tail rows =
     (let hashed = filter (\<lambda>r. row_EntryHash r \<noteq> None) rows in
      if hashed = [] then auditGenesisHash
      else let h = coalesce (row_EntryHash (last hashed)) in if h \<noteq> [] then h else auditGenesisHash)"

text \<open>The transaction of \<open>appendChained\<close>: any failing statement rolls back.\<close>

datatype audit_call = ABegin | ALock | ATail | AInsert | ACommit | AUpdate nat | AProbe | AQuery

definition appendChained ::
  "audit_env \<Rightarrow> (audit_call \<Rightarrow> bool) \<Rightarrow> int \<Rightarrow> auditRecord \<Rightarrow> audit_row list \<Rightarrow> audit_row list" where
  "appendChained E fails newID rec rows =
     (if (\<exists>c \<in> {ABegin, ALock, ATail, AInsert, ACommit}. fails c) then rows
      else let prev = chain_tail rows in
        rows @ [\<lparr>row_ID = newID, row_Actor = ar_Actor rec, row_Action = ar_Action rec,
                 row_TargetType = ar_TargetType rec, row_TargetID = ar_TargetID rec,
                 row_Before = jsonb E (ar_Before rec), row_After = jsonb E (ar_After rec),
                 row_CreatedAt = ar_CreatedAt rec, row_PrevHash = Some prev,
                 row_EntryHash = Some (computeAuditHash E prev rec)\<rparr>])"

text \<open>\<open>WriteAudit\<close>: \<open>before\<close> and \<open>after\<close> are the marshalled values, \<open>None\<close> for nil.\<close>

definition canonicalJSONOf :: "audit_env \<Rightarrow> string option \<Rightarrow> string" where
  "canonicalJSONOf E v = (case v of None \<Rightarrow> ''null'' | Some raw \<Rightarrow> canonicalJSON E raw)"

definition WriteAudit ::
  "audit_env \<Rightarrow> (audit_call \<Rightarrow> bool) \<Rightarrow> int \<Rightarrow> int \<Rightarrow> string \<Rightarrow> string \<Rightarrow> string \<Rightarrow> string \<Rightarrow>
   string option \<Rightarrow> string option \<Rightarrow> audit_row list \<Rightarrow> audit_row list" where
  "WriteAudit E fails newID now actor action targetType targetID before after rows =
     appendChained E fails newID
       \<lparr>ar_Actor = (if actor = [] then ''unknown'' else actor), ar_Action = action,
        ar_TargetType = targetType, ar_TargetID = targetID,
        ar_Before = canonicalJSONOf E before, ar_After = canonicalJSONOf E after,
        ar_CreatedAt = now - now mod 1000\<rparr> rows"

section \<open>Back-filling\<close>

text \<open>The loop over the rows without a hash, in id order; rows with one are not selected.\<close>

fun backfill_rows :: "audit_env \<Rightarrow> string \<Rightarrow> audit_row list \<Rightarrow> audit_row list" where
  "backfill_rows E prev [] = []"
| "backfill_rows E prev (row # rows) =
     (if row_EntryHash row \<noteq> None then row # backfill_rows E prev rows
      else let h = computeAuditHash E prev (row_record E row) in
        row\<lparr>row_PrevHash := Some prev, row_EntryHash := Some h\<rparr> # backfill_rows E h rows)"

definition BackfillAuditChain ::
  "audit_env \<Rightarrow> (audit_call \<Rightarrow> bool) \<Rightarrow> audit_row list \<Rightarrow> audit_row list" where
  "BackfillAuditChain E fails rows =
     (if fails AProbe \<or> (\<forall>r \<in> set rows. row_EntryHash r \<noteq> None) then rows
      else if (\<exists>c \<in> {ABegin, ALock, ATail, AQuery, ACommit}. fails c) \<or> (\<exists>i < length rows. fails (AUpdate i)) then rows
      else backfill_rows E (chain_tail rows) rows)"

section \<open>The hash input determines every field\<close>

lemma writeHashField_inj:
  assumes "writeHashField a @ x = writeHashField b @ y"
  shows "a = b \<and> x = y"
proof -
  have eq: "format_nat (length a) @ CHR '':'' # (a @ x) = format_nat (length b) @ CHR '':'' # (b @ y)"
    using assms by (simp add: writeHashField_def)
  then have "format_nat (length a) = format_nat (length b)" "a @ x = b @ y"
    using prefix_split [OF format_nat_no_colon format_nat_no_colon eq] by blast+
  then have "length a = length b" by (simp add: format_nat_inj)
  with \<open>a @ x = b @ y\<close> show ?thesis by simp
qed

lemma hash_input_inj:
  assumes "hash_input E p r = hash_input E q s"
  shows "p = q \<and> ar_Actor r = ar_Actor s \<and> ar_Action r = ar_Action s \<and> ar_TargetType r = ar_TargetType s \<and>
    ar_TargetID r = ar_TargetID s \<and> ar_Before r = ar_Before s \<and> ar_After r = ar_After s \<and>
    canonicalTime E (ar_CreatedAt r) = canonicalTime E (ar_CreatedAt s)"
proof -
  have last: "writeHashField a = writeHashField b \<Longrightarrow> a = b" for a b
    using writeHashField_inj [of a "[]" b "[]"] by simp
  show ?thesis
    using assms unfolding hash_input_def by (auto dest!: writeHashField_inj last)
qed

text \<open>What a digest vouches for: the record with its time as printed.\<close>

definition vouched :: "audit_env \<Rightarrow> audit_row \<Rightarrow> string list" where
  "vouched E row = (let r = row_record E row in
     [ar_Actor r, ar_Action r, ar_TargetType r, ar_TargetID r, ar_Before r, ar_After r,
      canonicalTime E (ar_CreatedAt r)])"

definition collision :: "audit_env \<Rightarrow> bool" where
  "collision E \<longleftrightarrow> (\<exists>x y. x \<noteq> y \<and> digest E x = digest E y)"

section \<open>Chains\<close>

text \<open>A run of rows that verifies from a hash, and the hash it ends in.\<close>

fun linked :: "audit_env \<Rightarrow> string \<Rightarrow> audit_row list \<Rightarrow> bool" where
  "linked E prev [] = True"
| "linked E prev (row # rows) =
     (trim_space (coalesce (row_EntryHash row)) \<noteq> [] \<and> coalesce (row_PrevHash row) = prev \<and>
      coalesce (row_EntryHash row) = computeAuditHash E prev (row_record E row) \<and>
      linked E (coalesce (row_EntryHash row)) rows)"

fun end_hash :: "string \<Rightarrow> audit_row list \<Rightarrow> string" where
  "end_hash prev [] = prev"
| "end_hash prev (row # rows) = end_hash (coalesce (row_EntryHash row)) rows"

lemma verify_loop_valid: "av_Valid (verify_loop E n prev rows) \<longleftrightarrow> linked E prev rows"
  by (induction E n prev rows rule: verify_loop.induct) auto

lemma verify_loop_linked:
  "linked E prev rows \<Longrightarrow>
   verify_loop E n prev rows = \<lparr>av_Valid = True, av_Count = n, av_FirstBrokenID = 0, av_Message = Intact n\<rparr>"
  by (induction E n prev rows rule: verify_loop.induct) auto

lemma verify_loop_count: "av_Count (verify_loop E n prev rows) = n"
  by (induction E n prev rows rule: verify_loop.induct) auto

lemma linked_append: "linked E prev (a @ b) \<longleftrightarrow> linked E prev a \<and> linked E (end_hash prev a) b"
  by (induction a arbitrary: prev) auto

lemma end_hash_snoc [simp]: "end_hash prev (rows @ [r]) = coalesce (row_EntryHash r)"
  by (induction rows arbitrary: prev) auto

lemma linked_hashed: "linked E prev rows \<Longrightarrow> r \<in> set rows \<Longrightarrow> row_EntryHash r \<noteq> None \<and> coalesce (row_EntryHash r) \<noteq> []"
  by (induction rows arbitrary: prev) (auto simp: coalesce_def trim_space_def split: option.splits)

lemma chain_tail_linked:
  assumes "linked E auditGenesisHash rows"
  shows "chain_tail rows = end_hash auditGenesisHash rows"
proof (cases rows rule: rev_cases)
  case (snoc rs r)
  have "filter (\<lambda>r. row_EntryHash r \<noteq> None) rows = rows"
    using linked_hashed [OF assms] by (simp add: filter_id_conv)
  moreover have "coalesce (row_EntryHash r) \<noteq> []" using linked_hashed [OF assms, of r] snoc by simp
  ultimately show ?thesis using snoc by (simp add: chain_tail_def Let_def)
qed (simp add: chain_tail_def)

text \<open>The digest is printable text: never blank.\<close>

definition digest_ok :: "audit_env \<Rightarrow> bool" where
  "digest_ok E \<longleftrightarrow> (\<forall>x. trim_space (digest E x) \<noteq> [])"

text \<open>The database returns stored JSON in a form with the same canonical text.\<close>

definition jsonb_ok :: "audit_env \<Rightarrow> bool" where
  "jsonb_ok E \<longleftrightarrow> (\<forall>v. canonicalJSON E (jsonb E (canonicalJSONOf E v)) = canonicalJSONOf E v)"

lemma appendChained_linked:
  assumes "digest_ok E" "linked E auditGenesisHash rows"
    and "canonicalJSON E (jsonb E (ar_Before rec)) = ar_Before rec" "canonicalJSON E (jsonb E (ar_After rec)) = ar_After rec"
  shows "linked E auditGenesisHash (appendChained E fails newID rec rows)"
proof -
  have "row_record E \<lparr>row_ID = newID, row_Actor = ar_Actor rec, row_Action = ar_Action rec,
      row_TargetType = ar_TargetType rec, row_TargetID = ar_TargetID rec,
      row_Before = jsonb E (ar_Before rec), row_After = jsonb E (ar_After rec),
      row_CreatedAt = ar_CreatedAt rec, row_PrevHash = p, row_EntryHash = h\<rparr> = rec" for p h
    using assms(3,4) by (simp add: row_record_def)
  then show ?thesis
    using assms(1,2) chain_tail_linked [OF assms(2)]
    by (auto simp: appendChained_def Let_def linked_append coalesce_def digest_ok_def computeAuditHash_def)
qed

lemma WriteAudit_linked:
  assumes "digest_ok E" "jsonb_ok E" "linked E auditGenesisHash rows"
  shows "linked E auditGenesisHash (WriteAudit E fails newID now actor action ty tid before after rows)"
  unfolding WriteAudit_def using assms(2)
  by (intro appendChained_linked [OF assms(1,3)]) (simp_all add: jsonb_ok_def)

lemma same_end_same_content:
  assumes "linked E p rows" "linked E q rows'" "length rows = length rows'" "end_hash p rows = end_hash q rows'"
  shows "collision E \<or> (p = q \<and> map (vouched E) rows = map (vouched E) rows')"
  using assms
proof (induction rows arbitrary: p q rows')
  case (Cons r rows)
  then obtain r' rs where r': "rows' = r' # rs" by (cases rows') auto
  let ?h = "coalesce (row_EntryHash r)" and ?h' = "coalesce (row_EntryHash r')"
  have "collision E \<or> (?h = ?h' \<and> map (vouched E) rows = map (vouched E) rs)"
    using Cons.prems unfolding r' by (intro Cons.IH) auto
  then show ?case
  proof
    assume eq: "?h = ?h' \<and> map (vouched E) rows = map (vouched E) rs"
    then have "digest E (hash_input E p (row_record E r)) = digest E (hash_input E q (row_record E r'))"
      using Cons.prems r' by (simp add: computeAuditHash_def)
    then have "collision E \<or> hash_input E p (row_record E r) = hash_input E q (row_record E r')"
      by (auto simp: collision_def)
    moreover have "p = q \<and> vouched E r = vouched E r'"
      if "hash_input E p (row_record E r) = hash_input E q (row_record E r')"
      using hash_input_inj [OF that] by (simp add: vouched_def Let_def)
    ultimately show ?thesis using eq by (auto simp: r')
  qed simp
qed simp

lemma backfill_rows_hashed: "(\<forall>r \<in> set rows. row_EntryHash r \<noteq> None) \<Longrightarrow> backfill_rows E p (rows @ rs) = rows @ backfill_rows E p rs"
  by (induction rows) auto

lemma backfill_rows_linked:
  "\<lbrakk>digest_ok E; \<forall>r \<in> set rows. row_EntryHash r = None\<rbrakk> \<Longrightarrow> linked E p (backfill_rows E p rows)"
proof (induction rows arbitrary: p)
  case (Cons r rows)
  have "row_record E (r\<lparr>row_PrevHash := a, row_EntryHash := b\<rparr>) = row_record E r" for a b by (simp add: row_record_def)
  with Cons show ?case
    by (simp add: Let_def coalesce_def digest_ok_def computeAuditHash_def)
qed simp

section \<open>Properties\<close>

definition sample_audit_env :: audit_env where
  "sample_audit_env = \<lparr>digest = \<lambda>s. CHR ''h'' # s @ ''h'', remarshal = Some, jsonb = id, fmt_time = format_int\<rparr>"

lemma sample_audit_env_ok [simp]: "digest_ok sample_audit_env" "jsonb_ok sample_audit_env"
  by (auto simp: sample_audit_env_def digest_ok_def jsonb_ok_def canonicalJSON_def canonicalJSONOf_def trim_space_def
      is_space_def split: option.splits)

text \<open>C22: tampering needs a hash collision. If two trails of the same length both verify and end in
  the same hash, then either every row agrees in actor, action, target, states and time, or two
  different inputs with the same digest exist. So whoever knows the last hash of a trail knows
  that no row of it was altered, reordered or replaced.\<close>

theorem tampering_needs_collision:
  assumes "av_Valid (VerifyAuditChain E rows)" "av_Valid (VerifyAuditChain E rows')"
    and "length rows = length rows'" "end_hash auditGenesisHash rows = end_hash auditGenesisHash rows'"
  shows "map (vouched E) rows = map (vouched E) rows' \<or> (\<exists>x y. x \<noteq> y \<and> digest E x = digest E y)"
  using same_end_same_content [of E auditGenesisHash rows auditGenesisHash rows'] assms
  by (auto simp: VerifyAuditChain_def verify_loop_valid collision_def)

theorem tampering_needs_collision_witness:
  "let rows = WriteAudit sample_audit_env (\<lambda>_. False) 1 0 ''a'' ''create'' ''role'' ''x'' None None []
   in map (vouched sample_audit_env) rows = map (vouched sample_audit_env) rows \<or>
    (\<exists>x y. x \<noteq> y \<and> digest sample_audit_env x = digest sample_audit_env y)"
  unfolding Let_def using WriteAudit_linked [OF sample_audit_env_ok, of "[]"]
  by (intro tampering_needs_collision) (simp_all add: VerifyAuditChain_def verify_loop_valid)

text \<open>C23: the trail written by the service always verifies. From an empty table, after any sequence
  of audit writes, with any of them failing at any statement, verification reports an intact trail
  and the number of its rows.\<close>

theorem written_trail_verifies:
  assumes "digest_ok E" "jsonb_ok E"
    and "rows = fold (\<lambda>(fails, newID, now, actor, action, ty, tid, before, after).
           WriteAudit E fails newID now actor action ty tid before after) ws []"
  shows "VerifyAuditChain E rows = \<lparr>av_Valid = True, av_Count = length rows, av_FirstBrokenID = 0, av_Message = Intact (length rows)\<rparr>"
proof -
  have "linked E auditGenesisHash (fold (\<lambda>(fails, newID, now, actor, action, ty, tid, before, after).
      WriteAudit E fails newID now actor action ty tid before after) ws rs)" if "linked E auditGenesisHash rs" for rs
    using that by (induction ws arbitrary: rs) (auto simp: WriteAudit_linked [OF assms(1,2)])
  then have "linked E auditGenesisHash rows" using assms(3) by simp
  then show ?thesis by (simp add: VerifyAuditChain_def verify_loop_linked)
qed

theorem written_trail_verifies_witness:
  "av_Valid (VerifyAuditChain sample_audit_env
     (WriteAudit sample_audit_env (\<lambda>_. False) 1 0 ''a'' ''create'' ''role'' ''x'' None (Some ''{}'') []))"
  using written_trail_verifies [OF sample_audit_env_ok refl,
      of "[(\<lambda>_. False, 1, 0, ''a'', ''create'', ''role'', ''x'', None, Some ''{}'')]"]
  by simp

text \<open>Verification points at the first bad row. When it fails, the rows before some position are a
  linked chain from the genesis hash, the row at that position is not linked to them, and its id is
  the one reported.\<close>

theorem verification_reports_first_break:
  assumes "\<not> av_Valid (VerifyAuditChain E rows)"
  shows "\<exists>good bad rest. rows = good @ bad # rest \<and> linked E auditGenesisHash good \<and>
    \<not> linked E (end_hash auditGenesisHash good) [bad] \<and> av_FirstBrokenID (VerifyAuditChain E rows) = row_ID bad"
proof -
  have "\<exists>good bad rest. rows = good @ bad # rest \<and> linked E p good \<and>
      \<not> linked E (end_hash p good) [bad] \<and> av_FirstBrokenID (verify_loop E n p rows) = row_ID bad"
    if "\<not> linked E p rows" for p n
    using that
  proof (induction rows arbitrary: p)
    case (Cons r rows)
    show ?case
    proof (cases "linked E p [r]")
      case True
      let ?h = "coalesce (row_EntryHash r)"
      have "\<not> linked E ?h rows" using Cons.prems True by auto
      from Cons.IH [OF this] obtain good bad rest where g: "rows = good @ bad # rest" "linked E ?h good"
        "\<not> linked E (end_hash ?h good) [bad]" "av_FirstBrokenID (verify_loop E n ?h rows) = row_ID bad" by blast
      then show ?thesis using True by (intro exI [of _ "r # good"] exI [of _ bad] exI [of _ rest]) auto
    next
      case False
      then show ?thesis by (intro exI [of _ "[]"] exI [of _ r] exI [of _ rows]) auto
    qed
  qed simp
  then show ?thesis using assms by (simp add: VerifyAuditChain_def verify_loop_valid)
qed

definition unhashed_row :: audit_row where
  "unhashed_row = \<lparr>row_ID = 1, row_Actor = ''a'', row_Action = ''create'', row_TargetType = ''role'', row_TargetID = ''x'',
     row_Before = ''null'', row_After = ''{}'', row_CreatedAt = 0, row_PrevHash = None, row_EntryHash = None\<rparr>"

theorem verification_reports_first_break_witness:
  "\<exists>good bad rest. [unhashed_row] = good @ bad # rest \<and> linked sample_audit_env auditGenesisHash good \<and>
    av_FirstBrokenID (VerifyAuditChain sample_audit_env [unhashed_row]) = row_ID bad"
proof -
  have "\<not> av_Valid (VerifyAuditChain sample_audit_env [unhashed_row])"
    by (simp add: VerifyAuditChain_def unhashed_row_def coalesce_def trim_space_def)
  from verification_reports_first_break [OF this] show ?thesis by blast
qed

text \<open>Back-filling repairs a trail only when the rows without a hash are the newest. If they follow
  a chain that verifies, the trail verifies afterwards. If instead the oldest row has none while a
  later row has one, back-filling chains the old row onto the newer hash, and verification, which
  replays in id order from the genesis hash, fails at that oldest row from then on.\<close>

theorem backfill_only_appends:
  assumes "digest_ok E"
  shows "(linked E auditGenesisHash a \<and> (\<forall>r \<in> set b. row_EntryHash r = None) \<longrightarrow>
      av_Valid (VerifyAuditChain E (BackfillAuditChain E (\<lambda>_. False) (a @ b)))) \<and>
    (row_EntryHash r = None \<and> chain_tail (r # rows) \<noteq> auditGenesisHash \<longrightarrow>
      \<not> av_Valid (VerifyAuditChain E (BackfillAuditChain E (\<lambda>_. False) (r # rows))) \<and>
      av_FirstBrokenID (VerifyAuditChain E (BackfillAuditChain E (\<lambda>_. False) (r # rows))) = row_ID r)"
proof (intro conjI impI)
  assume ab: "linked E auditGenesisHash a \<and> (\<forall>r \<in> set b. row_EntryHash r = None)"
  then have hashed: "\<forall>r \<in> set a. row_EntryHash r \<noteq> None" using linked_hashed by blast
  have tail: "chain_tail (a @ b) = end_hash auditGenesisHash a"
  proof -
    have "filter (\<lambda>r. row_EntryHash r \<noteq> None) (a @ b) = a" using ab hashed by simp
    then have "chain_tail (a @ b) = chain_tail a" using hashed by (simp add: chain_tail_def)
    then show ?thesis using chain_tail_linked [OF conjunct1 [OF ab]] by simp
  qed
  have lk: "linked E auditGenesisHash (a @ backfill_rows E (end_hash auditGenesisHash a) b)"
    using ab backfill_rows_linked [OF assms] by (simp add: linked_append)
  have "linked E auditGenesisHash (BackfillAuditChain E (\<lambda>_. False) (a @ b))"
  proof (cases "b = []")
    case True
    then show ?thesis using ab hashed by (simp add: BackfillAuditChain_def)
  next
    case False
    then have "\<not> (\<forall>r \<in> set (a @ b). row_EntryHash r \<noteq> None)" using ab by (cases b) auto
    then have "BackfillAuditChain E (\<lambda>_. False) (a @ b) = a @ backfill_rows E (end_hash auditGenesisHash a) b"
      using backfill_rows_hashed [OF hashed] by (simp add: BackfillAuditChain_def tail) force
    then show ?thesis using lk by simp
  qed
  then show "av_Valid (VerifyAuditChain E (BackfillAuditChain E (\<lambda>_. False) (a @ b)))"
    by (simp add: VerifyAuditChain_def verify_loop_valid)
next
  assume r: "row_EntryHash r = None \<and> chain_tail (r # rows) \<noteq> auditGenesisHash"
  let ?t = "chain_tail (r # rows)"
  have "BackfillAuditChain E (\<lambda>_. False) (r # rows) =
      r\<lparr>row_PrevHash := Some ?t, row_EntryHash := Some (computeAuditHash E ?t (row_record E r))\<rparr> #
      backfill_rows E (computeAuditHash E ?t (row_record E r)) rows"
    using r by (simp add: BackfillAuditChain_def Let_def)
  then show "\<not> av_Valid (VerifyAuditChain E (BackfillAuditChain E (\<lambda>_. False) (r # rows)))"
    and "av_FirstBrokenID (VerifyAuditChain E (BackfillAuditChain E (\<lambda>_. False) (r # rows))) = row_ID r"
    using r by (simp_all add: VerifyAuditChain_def coalesce_def)
qed

theorem backfill_only_appends_witness:
  "av_FirstBrokenID (VerifyAuditChain sample_audit_env (BackfillAuditChain sample_audit_env (\<lambda>_. False)
     [unhashed_row, unhashed_row\<lparr>row_ID := 2, row_EntryHash := Some ''x''\<rparr>])) = 1"
  using backfill_only_appends [of sample_audit_env "[]" "[]" unhashed_row
      "[unhashed_row\<lparr>row_ID := 2, row_EntryHash := Some ''x''\<rparr>]"]
  by (simp add: unhashed_row_def chain_tail_def auditGenesisHash_def coalesce_def numeral_eq_Suc)

end
