(* ===== verification/Rbac.thy ===== *)
theory Rbac
  imports Audit_Chain "HOL-Library.Char_ord" "HOL-Library.List_Lexorder" "HOL-Library.Product_Lexorder" "HOL-Library.Multiset"
begin

text \<open>
  Access control of the gateway, \<open>src/gateway-service/internal/auth/rbac.go\<close>: the cached roles and
  attribute policies and their refresh, the permission and policy decisions, the middleware that
  combines them, and the handlers that change roles and policies and write the audit trail. The
  expression language of policy conditions and JSON encoding are arguments.
\<close>

section \<open>Data\<close>

record Role =
  ro_Name :: string
  ro_Description :: string
  ro_Permissions :: "string list"
  ro_IsSystem :: bool

record Policy =
  po_ID :: string
  po_Name :: string
  po_Effect :: string
  po_Resource :: string
  po_Condition :: string
  po_Priority :: int
  po_Enabled :: bool

text \<open>The tables. The permissions column is JSON; \<open>None\<close> is JSON that is not a list of strings.\<close>

record role_row =
  rr_name :: string
  rr_description :: "string option"
  rr_permissions :: "string list option"
  rr_is_system :: bool

record rbac_db =
  db_roles :: "role_row list"
  db_policies :: "Policy list"
  db_audit :: "audit_row list"

record RBACEngine =
  en_roles :: "(string, Role) gomap"
  en_policies :: "Policy list"
  en_lastRefresh :: int
  en_RefreshInterval :: int

datatype db_call = QRoles | QPolicies | QExec | QPolicyByID

text \<open>What happens around one call: the clock, which queries fail and which rows cannot be scanned,
  the audit environment, the acting user, the JSON encodings, and the expression compiler.\<close>

record rbac_env =
  re_now :: int
  re_fail :: "db_call \<Rightarrow> bool"
  re_scanFails :: "string \<Rightarrow> bool"
  re_audit :: audit_env
  re_auditFail :: "audit_call \<Rightarrow> bool"
  re_auditID :: int
  re_actor :: string
  re_newID :: string
  re_compiles :: "string \<Rightarrow> bool"

section \<open>Refreshing the cache\<close>

definition scan_role :: "role_row \<Rightarrow> Role" where
  "scan_role row =
     \<lparr>ro_Name = rr_name row, ro_Description = coalesce (rr_description row),
      ro_Permissions = (case rr_permissions row of None \<Rightarrow> [] | Some ps \<Rightarrow> ps), ro_IsSystem = rr_is_system row\<rparr>"

definition load_roles :: "rbac_env \<Rightarrow> rbac_db option \<Rightarrow> (string, Role) gomap" where
  "load_roles E db =
     (case db of
        None \<Rightarrow> []
      | Some d \<Rightarrow>
          if re_fail E QRoles then []
          else fold (\<lambda>row m. if re_scanFails E (rr_name row) then m else AList.update (rr_name row) (scan_role row) m)
                 (db_roles d) [])"

definition admin_fallback :: Role where
  "admin_fallback = \<lparr>ro_Name = ''admin'', ro_Description = ''fallback'', ro_Permissions = [''*''], ro_IsSystem = True\<rparr>"

definition with_admin :: "(string, Role) gomap \<Rightarrow> (string, Role) gomap" where
  "with_admin m = (if map_of m ''admin'' = None then AList.update ''admin'' admin_fallback m else m)"

definition policy_key :: "Policy \<Rightarrow> int \<times> string \<times> string" where
  "policy_key p = (po_Priority p, po_Name p, po_ID p)"

definition load_policies :: "rbac_env \<Rightarrow> rbac_db option \<Rightarrow> Policy list" where
  "load_policies E db =
     (case db of
        None \<Rightarrow> []
      | Some d \<Rightarrow>
          if re_fail E QPolicies then []
          else sort_key policy_key (filter (\<lambda>p. po_Enabled p \<and> \<not> re_scanFails E (po_ID p)) (db_policies d)))"

definition rbac_refresh :: "rbac_env \<Rightarrow> rbac_db option \<Rightarrow> RBACEngine \<Rightarrow> RBACEngine" where
  "rbac_refresh E db e =
     e\<lparr>en_roles := with_admin (load_roles E db), en_policies := load_policies E db, en_lastRefresh := re_now E\<rparr>"

definition NewRBACEngine :: "rbac_env \<Rightarrow> rbac_db option \<Rightarrow> RBACEngine" where
  "NewRBACEngine E db =
     rbac_refresh E db \<lparr>en_roles = [], en_policies = [], en_lastRefresh = 0, en_RefreshInterval = 5000000000\<rparr>"

definition refreshIfStale :: "rbac_env \<Rightarrow> rbac_db option \<Rightarrow> RBACEngine \<Rightarrow> RBACEngine" where
  "refreshIfStale E db e =
     (if re_now E - en_lastRefresh e > en_RefreshInterval e then rbac_refresh E db e else e)"

section \<open>Decisions\<close>

definition perm_matches :: "string \<Rightarrow> string \<Rightarrow> string \<Rightarrow> bool" where
  "perm_matches p resourceType action \<longleftrightarrow>
     p = ''*'' \<or> p = action \<or> p = resourceType @ '':*'' \<or> p = ''*:'' @ action \<or> p = resourceType @ '':'' @ action"

definition HasPermission ::
  "rbac_env \<Rightarrow> rbac_db option \<Rightarrow> RBACEngine \<Rightarrow> string \<Rightarrow> string \<Rightarrow> string \<Rightarrow> bool \<times> RBACEngine" where
  "HasPermission E db e role resourceType action =
     (let e1 = refreshIfStale E db e in
      (case map_of (en_roles e1) role of
         None \<Rightarrow> False
       | Some r \<Rightarrow> list_ex (\<lambda>p. perm_matches p resourceType action) (ro_Permissions r), e1))"

definition Roles :: "rbac_env \<Rightarrow> rbac_db option \<Rightarrow> RBACEngine \<Rightarrow> Role list \<times> RBACEngine" where
  "Roles E db e = (let e1 = refreshIfStale E db e in (sort_key ro_Name (map snd (en_roles e1)), e1))"

record abac_attrs =
  aa_role :: string
  aa_tenant :: string
  aa_tier :: string
  aa_resource :: string
  aa_action :: string

text \<open>\<open>cond\<close> compiles and runs a condition; \<open>None\<close> is an error.\<close>

fun eval_policies ::
  "(string \<Rightarrow> abac_attrs \<Rightarrow> bool option) \<Rightarrow> abac_attrs \<Rightarrow> Policy list \<Rightarrow> bool \<times> string" where
  "eval_policies cond a [] = (True, [])"
| "eval_policies cond a (p # ps) =
     (if po_Resource p \<noteq> ''*'' \<and> po_Resource p \<noteq> aa_resource a then eval_policies cond a ps
      else case cond (po_Condition p) a of
          None \<Rightarrow> eval_policies cond a ps
        | Some False \<Rightarrow> eval_policies cond a ps
        | Some True \<Rightarrow> (to_lower (po_Effect p) \<noteq> ''deny'', po_Name p))"

definition EvaluateABAC ::
  "(string \<Rightarrow> abac_attrs \<Rightarrow> bool option) \<Rightarrow> rbac_env \<Rightarrow> rbac_db option \<Rightarrow> RBACEngine \<Rightarrow> abac_attrs \<Rightarrow>
   (bool \<times> string) \<times> RBACEngine" where
  "EvaluateABAC cond E db e a =
     (let e1 = refreshIfStale E db e in (eval_policies cond a (en_policies e1), e1))"

definition trim_prefix :: "string \<Rightarrow> string \<Rightarrow> string" where
  "trim_prefix p s = (if has_prefix p s then drop (length p) s else s)"

definition resourceTypeAndAction :: "string \<Rightarrow> string \<Rightarrow> string \<times> string" where
  "resourceTypeAndAction path meth =
     (let trimmed = trim_prefix ''/'' (trim_prefix ''/api/v1/'' path);
          seg = takeWhile (\<lambda>c. c \<noteq> CHR ''/'') trimmed
      in (if seg = [] then ''root'' else seg,
          if meth = ''GET'' \<or> meth = ''HEAD'' then ''read''
          else if meth = ''POST'' then ''create''
          else if meth = ''PUT'' \<or> meth = ''PATCH'' then ''update''
          else if meth = ''DELETE'' then ''delete''
          else ''write''))"

record request =
  rq_path :: string
  rq_method :: string
  rq_role :: string
  rq_tenant :: string
  rq_tier :: string

datatype gate = Next | LacksPermission string string string | ForbiddenByPolicy string

definition rbac_Middleware ::
  "(string \<Rightarrow> abac_attrs \<Rightarrow> bool option) \<Rightarrow> rbac_env \<Rightarrow> rbac_db option \<Rightarrow> RBACEngine \<Rightarrow> request \<Rightarrow>
   gate \<times> RBACEngine" where
  "rbac_Middleware cond E db e rq =
     (if rq_role rq = [] then (Next, e)
      else let (resourceType, abacAction) = resourceTypeAndAction (rq_path rq) (rq_method rq);
               rbacAction = (if abacAction = ''read'' then ''read'' else ''write'');
               (ok, e1) = HasPermission E db e (rq_role rq) resourceType rbacAction
           in if \<not> ok then (LacksPermission (rq_role rq) rbacAction resourceType, e1)
              else let ((allow, deniedBy), e2) = EvaluateABAC cond E db e1
                         \<lparr>aa_role = rq_role rq, aa_tenant = rq_tenant rq, aa_tier = rq_tier rq,
                          aa_resource = resourceType, aa_action = abacAction\<rparr>
                   in (if allow then Next else ForbiddenByPolicy deniedBy, e2))"

section \<open>Managing roles\<close>

record upsertRoleRequest =
  ur_Name :: string
  ur_Description :: string
  ur_Permissions :: "string list"

text \<open>The JSON encodings of audited values.\<close>

record audit_json =
  js_role :: "Role \<Rightarrow> string"
  js_role_req :: "upsertRoleRequest \<Rightarrow> string"
  js_policy :: "Policy \<Rightarrow> string"

definition rbac_audit ::
  "rbac_env \<Rightarrow> string \<Rightarrow> string \<Rightarrow> string \<Rightarrow> string option \<Rightarrow> string option \<Rightarrow> rbac_db \<Rightarrow> rbac_db" where
  "rbac_audit E action ty tid before after d =
     d\<lparr>db_audit := WriteAudit (re_audit E) (re_auditFail E) (re_auditID E) (re_now E) (re_actor E)
          action ty tid before after (db_audit d)\<rparr>"

definition CreateRole ::
  "audit_json \<Rightarrow> rbac_env \<Rightarrow> upsertRoleRequest option \<Rightarrow> rbac_db \<times> RBACEngine \<Rightarrow> nat \<times> rbac_db \<times> RBACEngine" where
  "CreateRole J E body st =
     (case st of (d, e) \<Rightarrow>
      case body of
        None \<Rightarrow> (400, d, e)
      | Some req \<Rightarrow>
          if ur_Name req = [] \<or> ur_Permissions req = [] then (400, d, e)
          else if re_fail E QExec then (500, d, e)
          else if ur_Name req \<in> rr_name ` set (db_roles d) then (409, d, e)
          else let d1 = d\<lparr>db_roles := db_roles d @ [\<lparr>rr_name = ur_Name req, rr_description = Some (ur_Description req),
                            rr_permissions = Some (ur_Permissions req), rr_is_system = False\<rparr>]\<rparr>;
                   e1 = rbac_refresh E (Some d1) e
               in (201, rbac_audit E ''create'' ''role'' (ur_Name req) None (Some (js_role_req J req)) d1, e1))"

definition update_role_row :: "upsertRoleRequest \<Rightarrow> role_row \<Rightarrow> role_row" where
  "update_role_row req row =
     row\<lparr>rr_permissions := Some (ur_Permissions req),
         rr_description := (if ur_Description req = [] then rr_description row else Some (ur_Description req))\<rparr>"

definition UpdateRole ::
  "audit_json \<Rightarrow> rbac_env \<Rightarrow> string \<Rightarrow> upsertRoleRequest option \<Rightarrow> rbac_db \<times> RBACEngine \<Rightarrow> nat \<times> rbac_db \<times> RBACEngine" where
  "UpdateRole J E name body st =
     (case st of (d, e) \<Rightarrow>
      case body of
        None \<Rightarrow> (400, d, e)
      | Some req \<Rightarrow>
          if ur_Permissions req = [] then (400, d, e)
          else if re_fail E QExec then (500, d, e)
          else if name \<notin> rr_name ` set (db_roles d) then (404, d, e)
          else let d1 = d\<lparr>db_roles := map (\<lambda>row. if rr_name row = name then update_role_row req row else row) (db_roles d)\<rparr>;
                   e1 = rbac_refresh E (Some d1) e
               in (200, rbac_audit E ''update'' ''role'' name (map_option (js_role J) (map_of (en_roles e) name))
                          (Some (js_role_req J (req\<lparr>ur_Name := name\<rparr>))) d1, e1))"

definition DeleteRole ::
  "audit_json \<Rightarrow> rbac_env \<Rightarrow> string \<Rightarrow> rbac_db \<times> RBACEngine \<Rightarrow> nat \<times> rbac_db \<times> RBACEngine" where
  "DeleteRole J E name st =
     (case st of (d, e) \<Rightarrow>
      if re_fail E QExec then (500, d, e)
      else if \<not> list_ex (\<lambda>row. rr_name row = name \<and> \<not> rr_is_system row) (db_roles d) then (400, d, e)
      else let d1 = d\<lparr>db_roles := filter (\<lambda>row. \<not> (rr_name row = name \<and> \<not> rr_is_system row)) (db_roles d)\<rparr>;
               e1 = rbac_refresh E (Some d1) e
           in (200, rbac_audit E ''delete'' ''role'' name (map_option (js_role J) (map_of (en_roles e) name)) None d1, e1))"

section \<open>Managing policies\<close>

record upsertPolicyRequest =
  up_Name :: string
  up_Effect :: string
  up_Resource :: string
  up_Condition :: string
  up_Priority :: int
  up_Enabled :: "bool option"

definition policy_defaults :: "upsertPolicyRequest \<Rightarrow> upsertPolicyRequest" where
  "policy_defaults req =
     req\<lparr>up_Effect := (if up_Effect req \<noteq> ''allow'' \<and> up_Effect req \<noteq> ''deny'' then ''deny'' else up_Effect req),
         up_Resource := (if up_Resource req = [] then ''*'' else up_Resource req)\<rparr>"

definition CreatePolicy ::
  "(upsertPolicyRequest \<Rightarrow> string) \<Rightarrow> rbac_env \<Rightarrow> upsertPolicyRequest option \<Rightarrow> rbac_db \<times> RBACEngine \<Rightarrow>
   nat \<times> rbac_db \<times> RBACEngine" where
  "CreatePolicy js E body st =
     (case st of (d, e) \<Rightarrow>
      case body of
        None \<Rightarrow> (400, d, e)
      | Some req0 \<Rightarrow>
          if up_Name req0 = [] \<or> up_Condition req0 = [] then (400, d, e)
          else let req = policy_defaults req0 in
            if \<not> re_compiles E (up_Condition req) then (400, d, e)
            else if re_fail E QExec then (500, d, e)
            else if up_Name req \<in> po_Name ` set (db_policies d) then (409, d, e)
            else let d1 = d\<lparr>db_policies := db_policies d @ [\<lparr>po_ID = re_newID E, po_Name = up_Name req,
                        po_Effect = up_Effect req, po_Resource = up_Resource req, po_Condition = up_Condition req,
                        po_Priority = up_Priority req, po_Enabled = True\<rparr>]\<rparr>;
                     e1 = rbac_refresh E (Some d1) e
                 in (201, rbac_audit E ''create'' ''policy'' (up_Name req) None (Some (js req)) d1, e1))"

definition policyByID :: "rbac_env \<Rightarrow> rbac_db \<Rightarrow> string \<Rightarrow> Policy option" where
  "policyByID E d pid = (if re_fail E QPolicyByID then None else List.find (\<lambda>p. po_ID p = pid) (db_policies d))"

definition zero_policy :: Policy where
  "zero_policy = \<lparr>po_ID = [], po_Name = [], po_Effect = [], po_Resource = [], po_Condition = [], po_Priority = 0,
     po_Enabled = False\<rparr>"

definition UpdatePolicy ::
  "audit_json \<Rightarrow> rbac_env \<Rightarrow> string \<Rightarrow> upsertPolicyRequest option \<Rightarrow> rbac_db \<times> RBACEngine \<Rightarrow>
   nat \<times> rbac_db \<times> RBACEngine" where
  "UpdatePolicy J E pid body st =
     (case st of (d, e) \<Rightarrow>
      case body of
        None \<Rightarrow> (400, d, e)
      | Some req \<Rightarrow>
          let before = policyByID E d pid;
              enabled = (case up_Enabled req of None \<Rightarrow> True | Some b \<Rightarrow> b) in
          if re_fail E QExec then (500, d, e)
          else if pid \<notin> po_ID ` set (db_policies d) then (404, d, e)
          else let d1 = d\<lparr>db_policies := map (\<lambda>p. if po_ID p = pid then p\<lparr>po_Enabled := enabled,
                          po_Priority := (if up_Priority req = 0 then po_Priority p else up_Priority req)\<rparr> else p) (db_policies d)\<rparr>;
                   e1 = rbac_refresh E (Some d1) e
               in (200, rbac_audit E ''update'' ''policy'' pid (map_option (js_policy J) before)
                          (Some (js_policy J (case policyByID E d1 pid of None \<Rightarrow> zero_policy | Some p \<Rightarrow> p))) d1, e1))"

definition DeletePolicy ::
  "audit_json \<Rightarrow> rbac_env \<Rightarrow> string \<Rightarrow> rbac_db \<times> RBACEngine \<Rightarrow> nat \<times> rbac_db \<times> RBACEngine" where
  "DeletePolicy J E pid st =
     (case st of (d, e) \<Rightarrow>
      let before = policyByID E d pid in
      if re_fail E QExec then (500, d, e)
      else if pid \<notin> po_ID ` set (db_policies d) then (404, d, e)
      else let d1 = d\<lparr>db_policies := filter (\<lambda>p. po_ID p \<noteq> pid) (db_policies d)\<rparr>;
               e1 = rbac_refresh E (Some d1) e
           in (200, rbac_audit E ''delete'' ''policy'' pid (map_option (js_policy J) before) None d1, e1))"

section \<open>Histories of administration\<close>

text \<open>The states the management handlers lead to, each call in its own circumstances but with the same
  audit environment.\<close>

inductive rbac_reach :: "audit_env \<Rightarrow> rbac_db \<Rightarrow> RBACEngine \<Rightarrow> rbac_db \<Rightarrow> RBACEngine \<Rightarrow> bool" for A d0 e0 where
  start: "rbac_reach A d0 e0 d0 e0"
| create_role: "\<lbrakk>rbac_reach A d0 e0 d e; re_audit E = A; CreateRole J E body (d, e) = (code, d', e')\<rbrakk> \<Longrightarrow> rbac_reach A d0 e0 d' e'"
| update_role: "\<lbrakk>rbac_reach A d0 e0 d e; re_audit E = A; UpdateRole J E name body (d, e) = (code, d', e')\<rbrakk> \<Longrightarrow> rbac_reach A d0 e0 d' e'"
| delete_role: "\<lbrakk>rbac_reach A d0 e0 d e; re_audit E = A; DeleteRole J E name (d, e) = (code, d', e')\<rbrakk> \<Longrightarrow> rbac_reach A d0 e0 d' e'"
| create_policy: "\<lbrakk>rbac_reach A d0 e0 d e; re_audit E = A; CreatePolicy js E pbody (d, e) = (code, d', e')\<rbrakk> \<Longrightarrow> rbac_reach A d0 e0 d' e'"
| update_policy: "\<lbrakk>rbac_reach A d0 e0 d e; re_audit E = A; UpdatePolicy J E pid pbody (d, e) = (code, d', e')\<rbrakk> \<Longrightarrow> rbac_reach A d0 e0 d' e'"
| delete_policy: "\<lbrakk>rbac_reach A d0 e0 d e; re_audit E = A; DeletePolicy J E pid (d, e) = (code, d', e')\<rbrakk> \<Longrightarrow> rbac_reach A d0 e0 d' e'"

definition system_roles :: "rbac_db \<Rightarrow> string list" where
  "system_roles d = map rr_name (filter rr_is_system (db_roles d))"

definition rbac_inv :: "audit_env \<Rightarrow> rbac_db \<Rightarrow> bool" where
  "rbac_inv A d \<longleftrightarrow> linked A auditGenesisHash (db_audit d) \<and> distinct (map rr_name (db_roles d)) \<and>
     distinct (map po_Name (db_policies d))"

text \<open>A handler's effect on the database: nothing, or a change of one table and an audit row.\<close>

definition db_change :: "rbac_env \<Rightarrow> rbac_db \<Rightarrow> rbac_db \<Rightarrow> bool" where
  "db_change E d d' \<longleftrightarrow> d' = d \<or>
     (\<exists>d1 action ty tid before after. d' = rbac_audit E action ty tid before after d1 \<and> db_audit d1 = db_audit d \<and>
        (distinct (map rr_name (db_roles d)) \<longrightarrow> distinct (map rr_name (db_roles d1))) \<and>
        (distinct (map po_Name (db_policies d)) \<longrightarrow> distinct (map po_Name (db_policies d1))) \<and>
        system_roles d1 = system_roles d)"

lemma db_change_audit:
  "\<lbrakk>db_audit d1 = db_audit d; distinct (map rr_name (db_roles d)) \<Longrightarrow> distinct (map rr_name (db_roles d1));
    distinct (map po_Name (db_policies d)) \<Longrightarrow> distinct (map po_Name (db_policies d1)); system_roles d1 = system_roles d\<rbrakk> \<Longrightarrow>
   db_change E d (rbac_audit E action ty tid before after d1)"
  unfolding db_change_def by blast

lemma update_role_row_simps [simp]:
  "rr_name (update_role_row req row) = rr_name row" "rr_is_system (update_role_row req row) = rr_is_system row"
  by (simp_all add: update_role_row_def)

lemma map_update_names:
  "map rr_name (map (\<lambda>row. if rr_name row = name then update_role_row req row else row) rs) = map rr_name rs"
  "map rr_name (filter rr_is_system (map (\<lambda>row. if rr_name row = name then update_role_row req row else row) rs))
    = map rr_name (filter rr_is_system rs)"
  by (induction rs) auto

lemma map_update_policies:
  "map po_Name (map (\<lambda>p. if po_ID p = pid then p\<lparr>po_Enabled := b, po_Priority := f p\<rparr> else p) ps) = map po_Name ps"
  by (induction ps) auto

lemma filter_system:
  "filter rr_is_system (filter (\<lambda>row. rr_name row = name \<longrightarrow> rr_is_system row) rs) = filter rr_is_system rs"
  by (induction rs) auto

lemma db_change_refl [simp]: "db_change E d d"
  by (simp add: db_change_def)

lemma CreateRole_change: "CreateRole J E body (d, e) = (code, d', e') \<Longrightarrow> db_change E d d'"
  by (auto simp: CreateRole_def Let_def system_roles_def split: option.splits if_splits intro!: db_change_audit)

lemma UpdateRole_change: "UpdateRole J E name body (d, e) = (code, d', e') \<Longrightarrow> db_change E d d'"
  by (auto simp: UpdateRole_def Let_def system_roles_def map_update_names simp del: map_map split: option.splits if_splits
      intro!: db_change_audit)

lemma DeleteRole_change: "DeleteRole J E name (d, e) = (code, d', e') \<Longrightarrow> db_change E d d'"
  by (auto simp: DeleteRole_def Let_def system_roles_def filter_system simp del: filter_filter split: if_splits
      intro!: db_change_audit distinct_map_filter)

lemma CreatePolicy_change: "CreatePolicy js E body (d, e) = (code, d', e') \<Longrightarrow> db_change E d d'"
  by (auto simp: CreatePolicy_def Let_def system_roles_def split: option.splits if_splits intro!: db_change_audit)

lemma UpdatePolicy_change: "UpdatePolicy J E pid body (d, e) = (code, d', e') \<Longrightarrow> db_change E d d'"
  by (auto simp: UpdatePolicy_def Let_def system_roles_def map_update_policies simp del: map_map split: option.splits if_splits
      intro!: db_change_audit)

lemma DeletePolicy_change: "DeletePolicy J E pid (d, e) = (code, d', e') \<Longrightarrow> db_change E d d'"
  by (auto simp: DeletePolicy_def Let_def system_roles_def split: if_splits intro!: db_change_audit distinct_map_filter)

lemmas handler_changes = CreateRole_change UpdateRole_change DeleteRole_change CreatePolicy_change UpdatePolicy_change
  DeletePolicy_change

lemma db_change_inv:
  assumes "db_change E d d'" "rbac_inv (re_audit E) d" "digest_ok (re_audit E)" "jsonb_ok (re_audit E)"
  shows "rbac_inv (re_audit E) d' \<and> system_roles d' = system_roles d"
  using assms WriteAudit_linked [OF assms(3,4)]
  by (auto simp: db_change_def rbac_inv_def rbac_audit_def system_roles_def)

lemma rbac_reach_inv:
  assumes "rbac_reach A d0 e0 d e" "rbac_inv A d0" "digest_ok A" "jsonb_ok A"
  shows "rbac_inv A d \<and> system_roles d = system_roles d0"
  using assms
proof (induction rule: rbac_reach.induct)
  case start
  then show ?case by simp
qed (use handler_changes db_change_inv in metis)+

section \<open>Properties\<close>

definition sample_rbac_env :: rbac_env where
  "sample_rbac_env = \<lparr>re_now = 10000000000, re_fail = \<lambda>_. False, re_scanFails = \<lambda>_. False, re_audit = sample_audit_env,
     re_auditFail = \<lambda>_. False, re_auditID = 1, re_actor = ''root'', re_newID = ''p9'', re_compiles = \<lambda>_. True\<rparr>"

definition deny_policy :: Policy where
  "deny_policy = \<lparr>po_ID = ''p1'', po_Name = ''no-deletes'', po_Effect = ''deny'', po_Resource = ''*'',
     po_Condition = ''c'', po_Priority = 10, po_Enabled = True\<rparr>"

definition sample_rbac_db :: rbac_db where
  "sample_rbac_db = \<lparr>db_roles = [\<lparr>rr_name = ''ops'', rr_description = None, rr_permissions = Some [''incidents:write''],
       rr_is_system = True\<rparr>], db_policies = [deny_policy], db_audit = []\<rparr>"

text \<open>C24: administration keeps the trail and the built-in roles. Whatever sequence of role and policy
  requests is handled, with any query or audit statement failing, the audit trail still verifies,
  role and policy names stay unique, and no built-in role has disappeared or been added.\<close>

theorem administration_keeps_invariants:
  assumes "rbac_reach A d0 e0 d e" "rbac_inv A d0" "digest_ok A" "jsonb_ok A"
  shows "av_Valid (VerifyAuditChain A (db_audit d)) \<and> distinct (map rr_name (db_roles d)) \<and>
    distinct (map po_Name (db_policies d)) \<and> system_roles d = system_roles d0"
  using rbac_reach_inv [OF assms] by (simp add: rbac_inv_def VerifyAuditChain_def verify_loop_valid)

theorem administration_keeps_invariants_witness:
  "\<exists>d e. rbac_reach sample_audit_env sample_rbac_db (NewRBACEngine sample_rbac_env (Some sample_rbac_db)) d e \<and>
    db_audit d \<noteq> [] \<and> av_Valid (VerifyAuditChain sample_audit_env (db_audit d)) \<and> system_roles d = [''ops'']"
proof -
  let ?e = "NewRBACEngine sample_rbac_env (Some sample_rbac_db)" and ?J = "\<lparr>js_role = \<lambda>_. ''{}'', js_role_req = \<lambda>_. ''{}'', js_policy = \<lambda>_. ''{}''\<rparr>"
  obtain code d e where h: "DeletePolicy ?J sample_rbac_env ''p1'' (sample_rbac_db, ?e) = (code, d, e)" by (metis prod_cases3)
  then have ne: "db_audit d \<noteq> []"
    by (auto simp: DeletePolicy_def sample_rbac_env_def sample_rbac_db_def deny_policy_def rbac_audit_def WriteAudit_def
        appendChained_def Let_def)
  have r: "rbac_reach sample_audit_env sample_rbac_db ?e d e"
    using rbac_reach.delete_policy [OF rbac_reach.start _ h] by (simp add: sample_rbac_env_def)
  have "rbac_inv sample_audit_env sample_rbac_db" by (simp add: rbac_inv_def sample_rbac_db_def)
  moreover have "system_roles sample_rbac_db = [''ops'']" by (simp add: system_roles_def sample_rbac_db_def)
  ultimately show ?thesis using administration_keeps_invariants [OF r _ sample_audit_env_ok] r ne by auto
qed

text \<open>Scoped permissions stay in their scope. When every permission of a role has the form
  resource:action for an action without a colon, and is not a wildcard, the role may do exactly
  the listed actions on exactly the listed resources.\<close>

theorem scoped_permissions_only:
  assumes "map_of (en_roles (refreshIfStale E db e)) role = Some r"
    and "ro_Permissions r = map (\<lambda>(t, a). t @ '':'' @ a) ps"
    and "\<forall>(t, a) \<in> set ps. CHR '':'' \<notin> set t \<and> t \<noteq> ''*'' \<and> a \<noteq> ''*''"
    and "CHR '':'' \<notin> set resourceType" "CHR '':'' \<notin> set action"
  shows "fst (HasPermission E db e role resourceType action) \<longleftrightarrow> (resourceType, action) \<in> set ps"
proof -
  have split: "t @ '':'' @ a = t' @ '':'' @ a' \<longleftrightarrow> t = t' \<and> a = a'" if "CHR '':'' \<notin> set t" "CHR '':'' \<notin> set t'" for t t' a a'
    using prefix_split [OF that, of a a'] by auto
  have one: "perm_matches (t @ '':'' @ a) resourceType action \<longleftrightarrow> t = resourceType \<and> a = action" if "(t, a) \<in> set ps" for t a
  proof -
    have ta: "CHR '':'' \<notin> set t" "t \<noteq> ''*''" "a \<noteq> ''*''" using assms(3) that by auto
    have "t @ '':'' @ a \<noteq> ''*''" "t @ '':'' @ a \<noteq> action" using assms(5) by (cases t; auto)+
    moreover have "t @ '':'' @ a = resourceType @ '':*'' \<longleftrightarrow> False"
      using split [OF ta(1) assms(4), of a "''*''"] ta(3) by simp
    moreover have "t @ '':'' @ a = ''*:'' @ action \<longleftrightarrow> False"
      using split [of t "''*''" a action] ta by simp
    ultimately show ?thesis using split [OF ta(1) assms(4), of a action] by (simp add: perm_matches_def)
  qed
  have "fst (HasPermission E db e role resourceType action) \<longleftrightarrow>
      (\<exists>(t, a) \<in> set ps. perm_matches (t @ '':'' @ a) resourceType action)"
    using assms(1,2) by (force simp: HasPermission_def Let_def list_ex_iff)
  also have "\<dots> \<longleftrightarrow> (resourceType, action) \<in> set ps" using one by auto
  finally show ?thesis .
qed

theorem scoped_permissions_only_witness:
  "fst (HasPermission sample_rbac_env (Some sample_rbac_db) (NewRBACEngine sample_rbac_env (Some sample_rbac_db)) ''ops'' ''admin'' ''write'') = False"
proof -
  let ?e = "NewRBACEngine sample_rbac_env (Some sample_rbac_db)"
  have "map_of (en_roles (refreshIfStale sample_rbac_env (Some sample_rbac_db) ?e)) ''ops'' =
      Some \<lparr>ro_Name = ''ops'', ro_Description = [], ro_Permissions = [''incidents:write''], ro_IsSystem = True\<rparr>"
    by (simp add: refreshIfStale_def NewRBACEngine_def rbac_refresh_def load_roles_def with_admin_def sample_rbac_env_def
        sample_rbac_db_def scan_role_def coalesce_def)
  from scoped_permissions_only [OF this, of "[(''incidents'', ''write'')]" "''admin''" "''write''"] show ?thesis by simp
qed

text \<open>The policy decision does not depend on the order the database returns rows in. Policies have
  distinct ids, so two tables with the same rows give the same policy list after a refresh, hence
  the same decision for every request.\<close>

theorem policy_order_irrelevant:
  assumes "mset (db_policies d) = mset (db_policies d')" "distinct (map po_ID (db_policies d))"
  shows "en_policies (rbac_refresh E (Some d) e) = en_policies (rbac_refresh E (Some d') e')"
proof -
  let ?P = "\<lambda>p. po_Enabled p \<and> \<not> re_scanFails E (po_ID p)"
  let ?xs = "filter ?P (db_policies d)" and ?ys = "filter ?P (db_policies d')"
  have inj: "inj_on policy_key (set ?xs \<union> set ?ys)"
  proof (rule inj_onI)
    fix p q assume "p \<in> set ?xs \<union> set ?ys" "q \<in> set ?xs \<union> set ?ys" "policy_key p = policy_key q"
    then have "p \<in> set (db_policies d)" "q \<in> set (db_policies d)" "po_ID p = po_ID q"
      using mset_eq_setD [OF assms(1)] by (auto simp: policy_key_def)
    then show "p = q" using assms(2) by (metis distinct_map inj_onD)
  qed
  have dist: "distinct (map po_ID (db_policies d'))"
    using assms by (metis mset_eq_imp_distinct_iff mset_map)
  have "distinct ?xs" "distinct ?ys" using assms(2) dist by (auto simp: distinct_map)
  then have "distinct (map policy_key (sort_key policy_key ?xs))" "distinct (map policy_key (sort_key policy_key ?ys))"
    using inj by (auto simp: distinct_map inj_on_Un)
  then have "sort_key policy_key ?xs = sort_key policy_key ?ys"
    using inj mset_eq_setD [OF assms(1)] by (intro map_sorted_distinct_set_unique [where f = policy_key]) auto
  then show ?thesis by (simp add: rbac_refresh_def load_policies_def)
qed

theorem policy_order_irrelevant_witness:
  "en_policies (rbac_refresh sample_rbac_env (Some (sample_rbac_db\<lparr>db_policies := [deny_policy, deny_policy\<lparr>po_ID := ''p2''\<rparr>]\<rparr>)) (NewRBACEngine sample_rbac_env None))
    = en_policies (rbac_refresh sample_rbac_env (Some (sample_rbac_db\<lparr>db_policies := [deny_policy\<lparr>po_ID := ''p2''\<rparr>, deny_policy]\<rparr>)) (NewRBACEngine sample_rbac_env None))"
  by (rule policy_order_irrelevant) (simp_all add: deny_policy_def)

text \<open>A failed policy query removes every denial. Roles fail closed: when the role query fails only
  the built-in administrator remains. Policies fail open: when the policy query fails the cached
  policies are replaced by none, and until the next refresh every request that has its permission
  passes, whatever deny policies the table holds.\<close>

theorem policy_outage_fails_open:
  assumes "re_fail E QPolicies" "re_now E' - re_now E \<le> en_RefreshInterval e"
  shows "fst (EvaluateABAC cond E' db' (rbac_refresh E (Some d) e) a) = (True, [])"
  using assms by (simp add: EvaluateABAC_def refreshIfStale_def rbac_refresh_def load_policies_def)

theorem policy_outage_fails_open_witness:
  "fst (EvaluateABAC (\<lambda>_ _. Some True) sample_rbac_env (Some sample_rbac_db) (rbac_refresh (sample_rbac_env\<lparr>re_fail := \<lambda>q. q = QPolicies\<rparr>)
     (Some sample_rbac_db) (NewRBACEngine sample_rbac_env (Some sample_rbac_db)))
     \<lparr>aa_role = ''ops'', aa_tenant = [], aa_tier = [], aa_resource = ''incidents'', aa_action = ''delete''\<rparr>) = (True, [])"
  by (rule policy_outage_fails_open) (simp_all add: sample_rbac_env_def NewRBACEngine_def rbac_refresh_def)

text \<open>The administrator cannot be locked out by an outage, and everyone else is. When the role query
  fails, the refreshed cache has exactly one role, the built-in administrator, who has every
  permission.\<close>

theorem role_outage_leaves_admin:
  assumes "re_fail E QRoles" "e' = rbac_refresh E (Some d) e" "re_now E' - re_now E \<le> en_RefreshInterval e"
  shows "fst (HasPermission E' db' e' role resourceType action) \<longleftrightarrow> role = ''admin''"
proof -
  have "map_of (en_roles e') role = (if role = ''admin'' then Some admin_fallback else None)"
    using assms(1,2) by (simp add: rbac_refresh_def load_roles_def with_admin_def)
  moreover have "refreshIfStale E' db' e' = e'"
    using assms(2,3) by (simp add: refreshIfStale_def rbac_refresh_def)
  ultimately show ?thesis by (simp add: HasPermission_def admin_fallback_def perm_matches_def)
qed

theorem role_outage_leaves_admin_witness:
  "fst (HasPermission sample_rbac_env (Some sample_rbac_db) (rbac_refresh (sample_rbac_env\<lparr>re_fail := \<lambda>q. q = QRoles\<rparr>)
     (Some sample_rbac_db) (NewRBACEngine sample_rbac_env (Some sample_rbac_db))) ''ops'' ''incidents'' ''write'') \<longleftrightarrow> ''ops'' = ''admin''"
  by (rule role_outage_leaves_admin [OF _ refl]) (simp_all add: sample_rbac_env_def NewRBACEngine_def rbac_refresh_def)

text \<open>Changing only the priority of a disabled policy enables it. A request without an \<open>enabled\<close>
  field is treated as one that asks for \<open>true\<close>.\<close>

theorem priority_update_enables:
  assumes "p \<in> set (db_policies d)" "\<not> re_fail E QExec" "up_Enabled req = None"
  shows "\<exists>d' e' p'. UpdatePolicy J E (po_ID p) (Some req) (d, e) = (200, d', e') \<and> p' \<in> set (db_policies d') \<and>
    po_ID p' = po_ID p \<and> po_Enabled p'"
proof -
  let ?u = "\<lambda>q. if po_ID q = po_ID p then q\<lparr>po_Enabled := True,
      po_Priority := (if up_Priority req = 0 then po_Priority q else up_Priority req)\<rparr> else q"
  have ex: "po_ID p \<in> po_ID ` set (db_policies d)" using assms(1) by simp
  obtain d' e' where u: "UpdatePolicy J E (po_ID p) (Some req) (d, e) = (200, d', e')" "db_policies d' = map ?u (db_policies d)"
    using assms(2,3) ex by (simp add: UpdatePolicy_def Let_def rbac_audit_def)
  then have "?u p \<in> set (db_policies d')" using assms(1) by auto
  then show ?thesis using u(1) by (intro exI [of _ d'] exI [of _ e'] exI [of _ "?u p"]) simp
qed

theorem priority_update_enables_witness:
  "\<exists>d' e' p'. UpdatePolicy \<lparr>js_role = \<lambda>_. [], js_role_req = \<lambda>_. [], js_policy = \<lambda>_. []\<rparr> sample_rbac_env ''p1''
      (Some \<lparr>up_Name = [], up_Effect = [], up_Resource = [], up_Condition = [], up_Priority = 50, up_Enabled = None\<rparr>)
      (sample_rbac_db\<lparr>db_policies := [deny_policy\<lparr>po_Enabled := False\<rparr>]\<rparr>, NewRBACEngine sample_rbac_env None) = (200, d', e') \<and>
    p' \<in> set (db_policies d') \<and> po_Enabled p'"
  using priority_update_enables [of "deny_policy\<lparr>po_Enabled := False\<rparr>" "sample_rbac_db\<lparr>db_policies := [deny_policy\<lparr>po_Enabled := False\<rparr>]\<rparr>"
      sample_rbac_env "\<lparr>up_Name = [], up_Effect = [], up_Resource = [], up_Condition = [], up_Priority = 50, up_Enabled = None\<rparr>"
      "\<lparr>js_role = \<lambda>_. [], js_role_req = \<lambda>_. [], js_policy = \<lambda>_. []\<rparr>" "NewRBACEngine sample_rbac_env None"]
  by (fastforce simp: sample_rbac_env_def deny_policy_def)

end
