(* ===== verification/Go_Float.thy ===== *)
theory Go_Float
  imports Prelude Complex_Main
begin

text \<open>
  Go's \<open>float64\<close>: the finite values as rationals, the infinities and NaN, the comparisons (every
  comparison with NaN is false), and addition and multiplication rounded to nearest, ties to even,
  to 53 significant bits. The sign of a zero is not represented: no comparison sees it.
\<close>

section \<open>Values and rounding\<close>

datatype float64 = Fl rat | Inf | NegInf | NaN

fun bit_length :: "nat \<Rightarrow> nat" where
  "bit_length n = (if n = 0 then 0 else Suc (bit_length (n div 2)))"

definition pow2 :: "int \<Rightarrow> rat" where
  "pow2 e = 2 powi e"

text \<open>The greatest \<open>e\<close> with \<open>2^e \<le> a/b\<close>, for positive \<open>a\<close> and \<open>b\<close>.\<close>

definition binary_exponent :: "int \<Rightarrow> int \<Rightarrow> int" where
  "binary_exponent a b = (let e = int (bit_length (nat a)) - int (bit_length (nat b))
     in if pow2 e \<le> of_int a / of_int b then e else e - 1)"

definition round_even :: "rat \<Rightarrow> int" where
  "round_even q = (let f = \<lfloor>q\<rfloor>; r = q - of_int f
     in if r < 1 / 2 then f else if r > 1 / 2 then f + 1 else if even f then f else f + 1)"

definition round64 :: "rat \<Rightarrow> float64" where
  "round64 x = (if x = 0 then Fl 0 else
     let (a, b) = quotient_of \<bar>x\<bar>; e = max (binary_exponent a b - 52) (- 1074);
         y = of_int (round_even (x / pow2 e)) * pow2 e
     in if y \<ge> 2 ^ 1024 then Inf else if y \<le> - (2 ^ 1024) then NegInf else Fl y)"

section \<open>Arithmetic and comparison\<close>

fun fadd :: "float64 \<Rightarrow> float64 \<Rightarrow> float64" where
  "fadd (Fl x) (Fl y) = round64 (x + y)"
| "fadd NaN y = NaN"
| "fadd x NaN = NaN"
| "fadd Inf NegInf = NaN"
| "fadd NegInf Inf = NaN"
| "fadd Inf y = Inf"
| "fadd x Inf = Inf"
| "fadd NegInf y = NegInf"
| "fadd x NegInf = NegInf"

fun fneg :: "float64 \<Rightarrow> float64" where
  "fneg (Fl x) = Fl (- x)"
| "fneg Inf = NegInf"
| "fneg NegInf = Inf"
| "fneg NaN = NaN"

definition fsub :: "float64 \<Rightarrow> float64 \<Rightarrow> float64" where
  "fsub x y = fadd x (fneg y)"

fun flt :: "float64 \<Rightarrow> float64 \<Rightarrow> bool" where
  "flt (Fl x) (Fl y) \<longleftrightarrow> x < y"
| "flt NaN y \<longleftrightarrow> False"
| "flt x NaN \<longleftrightarrow> False"
| "flt Inf y \<longleftrightarrow> False"
| "flt x NegInf \<longleftrightarrow> False"
| "flt NegInf y \<longleftrightarrow> True"
| "flt x Inf \<longleftrightarrow> True"

fun fle :: "float64 \<Rightarrow> float64 \<Rightarrow> bool" where
  "fle (Fl x) (Fl y) \<longleftrightarrow> x \<le> y"
| "fle NaN y \<longleftrightarrow> False"
| "fle x NaN \<longleftrightarrow> False"
| "fle NegInf y \<longleftrightarrow> True"
| "fle x Inf \<longleftrightarrow> True"
| "fle Inf y \<longleftrightarrow> False"
| "fle x NegInf \<longleftrightarrow> False"

text \<open>Conversion of an integer, and multiplication by one, as the code uses them. A product with an
  infinity or NaN does not occur in the modelled code and is NaN here.\<close>

definition of_count :: "nat \<Rightarrow> float64" where
  "of_count n = round64 (of_nat n)"

fun fmul :: "float64 \<Rightarrow> float64 \<Rightarrow> float64" where
  "fmul (Fl x) (Fl y) = round64 (x * y)"
| "fmul x y = NaN"

fun fdiv :: "float64 \<Rightarrow> float64 \<Rightarrow> float64" where
  "fdiv (Fl x) (Fl y) = (if y = 0 then if x = 0 then NaN else if 0 < x then Inf else NegInf else round64 (x / y))"
| "fdiv x y = NaN"

section \<open>Laws\<close>

lemma flt_irrefl [simp]: "\<not> flt x x"
  by (cases x) simp_all

lemma not_flt_NaN [simp]: "\<not> flt NaN x" "\<not> flt x NaN" "\<not> fle NaN x" "\<not> fle x NaN"
  by (cases x; simp)+

lemma flt_asym: "flt x y \<Longrightarrow> \<not> flt y x"
  by (cases x; cases y) simp_all

lemma flt_iff_not_fle: "x \<noteq> NaN \<Longrightarrow> y \<noteq> NaN \<Longrightarrow> flt x y \<longleftrightarrow> \<not> fle y x"
  by (cases x; cases y) auto

lemma fle_trans: "fle x y \<Longrightarrow> fle y z \<Longrightarrow> fle x z"
  by (cases x; cases y; cases z) auto

declare bit_length.simps [simp del]

lemma bit_length_bounds: "0 < n \<Longrightarrow> 2 ^ (bit_length n - 1) \<le> n \<and> n < 2 ^ bit_length n \<and> 0 < bit_length n"
proof (induction n rule: bit_length.induct)
  case (1 n)
  show ?case
  proof (cases "n = 1")
    case True
    then show ?thesis by (simp add: bit_length.simps)
  next
    case False
    let ?m = "n div 2"
    have m: "0 < ?m" using False 1(2) by linarith
    have b: "bit_length n = Suc (bit_length ?m)" using 1(2) by (subst bit_length.simps) simp
    have ih: "2 ^ (bit_length ?m - 1) \<le> ?m" "?m < 2 ^ bit_length ?m" "0 < bit_length ?m" using 1 m by auto
    have "2 ^ bit_length ?m = (2 :: nat) * 2 ^ (bit_length ?m - 1)" using ih(3) by (metis Suc_diff_1 power_Suc)
    then have "2 ^ bit_length ?m \<le> n" "n < 2 * 2 ^ bit_length ?m" using ih(1,2) by linarith+
    then show ?thesis using b by simp
  qed
qed

lemma pow2_pos [simp]: "0 < pow2 e"
  by (simp add: pow2_def)

lemma pow2_add: "pow2 (a + b) = pow2 a * pow2 b"
  by (simp add: pow2_def power_int_add)

lemma pow2_diff: "pow2 (a - b) = pow2 a / pow2 b"
  by (simp add: pow2_def power_int_diff)

lemma pow2_less: "a < b \<Longrightarrow> pow2 a < pow2 b"
  by (simp add: pow2_def power_int_strict_increasing)

lemma pow2_less_iff: "pow2 a < pow2 b \<longleftrightarrow> a < b"
  by (metis pow2_less not_less_iff_gr_or_eq)

lemma pow2_nat: "pow2 (int n) = 2 ^ n"
  by (simp add: pow2_def)

lemma binary_exponent_unique: "pow2 e \<le> x \<Longrightarrow> x < pow2 (e + 1) \<Longrightarrow> pow2 e' \<le> x \<Longrightarrow> x < pow2 (e' + 1) \<Longrightarrow> e = e'"
  using pow2_less_iff [of e "e' + 1"] pow2_less_iff [of e' "e + 1"] by (metis le_less_trans less_le_not_le linorder_neqE_linordered_idom zle_add1_eq_le)

lemma bit_length_pow2:
  assumes "0 < a"
  shows "pow2 (int (bit_length (nat a)) - 1) \<le> of_int a" "of_int a < pow2 (int (bit_length (nat a)))"
proof -
  let ?k = "bit_length (nat a)"
  have b: "2 ^ (?k - 1) \<le> nat a" "nat a < 2 ^ ?k" "0 < ?k" using bit_length_bounds [of "nat a"] assms by auto
  have "of_nat (2 ^ (?k - 1)) \<le> (of_nat (nat a) :: rat)" using b(1) by (simp only: of_nat_le_iff)
  then have lo: "2 ^ (?k - 1) \<le> (of_nat (nat a) :: rat)" by simp
  have "of_nat (nat a) < (of_nat (2 ^ ?k) :: rat)" using b(2) by (simp only: of_nat_less_iff)
  then have hi: "of_nat (nat a) < (2 :: rat) ^ ?k" by simp
  have k: "int ?k - 1 = int (?k - 1)" using b(3) by simp
  have a: "(of_nat (nat a) :: rat) = of_int a" using assms by simp
  show "pow2 (int ?k - 1) \<le> of_int a" unfolding k pow2_nat using lo a by (simp only:)
  show "of_int a < pow2 (int ?k)" unfolding pow2_nat using hi a by (simp only:)
qed

lemma binary_exponent_bounds:
  assumes "0 < a" "0 < b"
  shows "pow2 (binary_exponent a b) \<le> of_int a / of_int b \<and> of_int a / of_int b < pow2 (binary_exponent a b + 1)"
proof -
  let ?i = "int (bit_length (nat a))" and ?j = "int (bit_length (nat b))"
  let ?a = "of_int a :: rat" and ?b = "of_int b :: rat"
  have b0: "0 < ?b" using assms by simp
  have "?a / ?b < pow2 ?i / pow2 (?j - 1)"
    using bit_length_pow2 [OF assms(1)] bit_length_pow2 [OF assms(2)] assms by (intro frac_less) auto
  then have hi: "?a / ?b < pow2 (?i - ?j + 1)" by (simp add: pow2_diff [symmetric] algebra_simps)
  have "pow2 (?i - 1) / pow2 ?j < ?a / ?b"
    using bit_length_pow2 [OF assms(1)] bit_length_pow2 [OF assms(2)] assms by (intro frac_less2) auto
  then have lo: "pow2 (?i - ?j - 1) < ?a / ?b" by (simp add: pow2_diff [symmetric] algebra_simps)
  show ?thesis using hi lo by (auto simp: binary_exponent_def Let_def)
qed

definition nearest_even :: "rat \<Rightarrow> int \<Rightarrow> bool" where
  "nearest_even y m \<longleftrightarrow> \<bar>y - of_int m\<bar> < 1 / 2 \<or> \<bar>y - of_int m\<bar> = 1 / 2 \<and> even m"

lemma round_even_near:
  assumes "nearest_even y m"
  shows "round_even y = m"
proof (cases "of_int m \<le> y")
  case True
  then have "\<lfloor>y\<rfloor> = m" using assms by (intro floor_unique) (auto simp: nearest_even_def abs_if split: if_splits)
  then show ?thesis using assms True by (auto simp: round_even_def nearest_even_def Let_def)
next
  case False
  then have f: "\<lfloor>y\<rfloor> = m - 1" using assms by (intro floor_unique) (auto simp: nearest_even_def abs_if split: if_splits)
  have "1 / 2 < y - of_int (m - 1) \<or> 1 / 2 = y - of_int (m - 1) \<and> even m"
    using assms False by (auto simp: nearest_even_def abs_if split: if_splits)
  then show ?thesis unfolding round_even_def Let_def f by auto
qed

lemma nearest_even_close: "nearest_even y m \<Longrightarrow> \<bar>y - of_int m\<bar> < 1"
  by (auto simp: nearest_even_def)

text \<open>The rounding of a normal value, characterised: the significand is the nearest integer.\<close>

lemma round64_eq:
  assumes "2 ^ 52 * pow2 e \<le> x" "x < 2 ^ 53 * pow2 e" "- 1074 \<le> e"
    and "nearest_even (x / pow2 e) m" "of_int m * pow2 e < 2 ^ 1024"
  shows "round64 x = Fl (of_int m * pow2 e)"
proof -
  have "0 < 2 ^ 52 * pow2 e" by simp
  then have x0: "0 < x" using assms(1) by (rule less_le_trans)
  obtain a b where q: "quotient_of x = (a, b)" by fastforce
  have ab: "x = of_int a / of_int b" "0 < b" using quotient_of_div [OF q] quotient_of_denom_pos [OF q] by auto
  then have a0: "0 < a" using x0 by (simp add: zero_less_divide_iff)
  have be: "binary_exponent a b = e + 52"
  proof (rule binary_exponent_unique)
    show "pow2 (binary_exponent a b) \<le> x" "x < pow2 (binary_exponent a b + 1)"
      using binary_exponent_bounds [OF a0 ab(2)] ab(1) by auto
    have "pow2 52 = 2 ^ 52" "pow2 53 = 2 ^ 53" using pow2_nat [of 52] pow2_nat [of 53] by simp_all
    then show "pow2 (e + 52) \<le> x" "x < pow2 (e + 52 + 1)"
      using assms(1,2) by (simp_all add: pow2_add mult.commute add.assoc)
  qed
  let ?y = "x / pow2 e"
  have r: "round_even ?y = m" using assms(4) by (rule round_even_near)
  have "0 \<le> of_int m * pow2 e"
  proof -
    have "2 ^ 52 \<le> ?y" using assms(1) by (simp add: pos_le_divide_eq)
    moreover have "0 < (of_int m :: rat)" if "2 ^ 52 \<le> y" "\<bar>y - of_int m\<bar> < 1" for y :: rat
      using that by (auto simp: abs_if split: if_splits)
    ultimately have "(0 :: rat) < of_int m" using nearest_even_close [OF assms(4)] by blast
    then show ?thesis using pow2_pos [of e] by (intro mult_nonneg_nonneg) (rule less_imp_le, assumption)+
  qed
  moreover have "- (2 ^ 1024) < (0 :: rat)" by simp
  ultimately have "\<not> of_int m * pow2 e \<le> - (2 ^ 1024)" by (meson le_less_trans not_le)
  then show ?thesis
    using x0 q be r assms(3,5) by (simp add: round64_def Let_def)
qed

lemma round64_frac:
  assumes "2 ^ 52 \<le> x * 2 ^ k" "x * 2 ^ k < 2 ^ 53" "nearest_even (x * 2 ^ k) m" "k \<le> 1074"
  shows "round64 x = Fl (of_int m / 2 ^ k)"
proof -
  have p: "pow2 (- int k) = 1 / 2 ^ k" by (simp add: pow2_def power_int_minus divide_inverse)
  have hi: "of_int m < (2 ^ 53 + 1 :: rat)" if "y < 2 ^ 53" "\<bar>y - of_int m\<bar> < 1" for y :: rat
    using that by (auto simp: abs_if split: if_splits)
  have one: "(2 :: rat) ^ 53 + 1 \<le> 2 ^ 54" by simp
  have "(2 :: rat) ^ 54 \<le> 2 ^ 1024" by (rule power_increasing) simp_all
  moreover have "(2 :: rat) ^ 1024 \<le> 2 ^ 1024 * 2 ^ k" using mult_left_mono [of 1 "(2 :: rat) ^ k" "2 ^ 1024"] by (simp only: mult_1_right) simp
  ultimately have "of_int m < (2 :: rat) ^ 1024 * 2 ^ k" using hi [OF assms(2) nearest_even_close [OF assms(3)]] one by (meson less_le_trans order_trans)
  then have "of_int m * pow2 (- int k) < 2 ^ 1024" by (simp add: p pos_divide_less_eq)
  from round64_eq [of "- int k" x m, OF _ _ _ _ this] show ?thesis
    using assms by (simp add: p pos_divide_le_eq pos_less_divide_eq)
qed

end
