(* ===== verification/Remediation.thy ===== *)
theory Remediation
  imports Go_Strings Go_Float
begin

text \<open>
  The remediation policy, \<open>src/shared/remediation\<close>: \<open>policy.go\<close> (modes, their parsing, the policy
  read from the environment and its decision on a proposed playbook) and \<open>authz.go\<close> (the risk tier
  of an action and who may approve it). \<open>strconv.ParseFloat\<close> is an argument of the reader of the
  environment.
\<close>

section \<open>policy.go\<close>

type_synonym Mode = string

definition ModeOff :: Mode where "ModeOff = ''off''"
definition ModeDryRun :: Mode where "ModeDryRun = ''dry-run''"
definition ModeManual :: Mode where "ModeManual = ''manual''"
definition ModeAuto :: Mode where "ModeAuto = ''auto''"

lemmas mode_defs = ModeOff_def ModeDryRun_def ModeManual_def ModeAuto_def

definition DefaultConfidenceThreshold :: float64 where
  "DefaultConfidenceThreshold = round64 (70 / 100)"

definition normalize_mode :: "string \<Rightarrow> string" where
  "normalize_mode s = map (\<lambda>c. if c = CHR ''_'' \<or> c = CHR '' '' then CHR ''-'' else c) (to_lower (trim_space s))"

definition ParseMode :: "string \<Rightarrow> Mode option" where
  "ParseMode s = (let n = normalize_mode s in
     if n \<in> set [ModeOff, ''disabled'', ''none''] then Some ModeOff
     else if n \<in> set [ModeDryRun, ''dry'', ''plan''] then Some ModeDryRun
     else if n \<in> set [ModeManual, ''approval'', ''approve''] then Some ModeManual
     else if n \<in> set [ModeAuto, ''automatic''] then Some ModeAuto
     else None)"

record RemPolicy =
  pol_Mode :: Mode
  pol_ConfidenceThreshold :: float64

definition DefaultPolicy :: RemPolicy where
  "DefaultPolicy = \<lparr>pol_Mode = ModeManual, pol_ConfidenceThreshold = DefaultConfidenceThreshold\<rparr>"

datatype policy_error = UnknownMode string | InvalidThreshold string | ThresholdOutside float64

definition read_threshold :: "(string \<Rightarrow> float64 option) \<Rightarrow> string \<Rightarrow> RemPolicy \<Rightarrow> RemPolicy \<times> policy_error option" where
  "read_threshold parseFloat raw policy =
     (if trim_space raw = [] then (policy, None) else
      case parseFloat (trim_space raw) of
        None \<Rightarrow> (policy, Some (InvalidThreshold raw))
      | Some threshold \<Rightarrow>
          if flt threshold (Fl 0) \<or> flt (Fl 1) threshold then (policy, Some (ThresholdOutside threshold))
          else (policy\<lparr>pol_ConfidenceThreshold := threshold\<rparr>, None))"

definition PolicyFromEnv :: "(string \<Rightarrow> float64 option) \<Rightarrow> string \<Rightarrow> string \<Rightarrow> RemPolicy \<times> policy_error option" where
  "PolicyFromEnv parseFloat modeEnv thresholdEnv =
     (if trim_space modeEnv = [] then read_threshold parseFloat thresholdEnv DefaultPolicy else
      case ParseMode modeEnv of
        None \<Rightarrow> (DefaultPolicy, Some (UnknownMode modeEnv))
      | Some mode \<Rightarrow> read_threshold parseFloat thresholdEnv (DefaultPolicy\<lparr>pol_Mode := mode\<rparr>))"

datatype Decision = DecisionSuppressed | DecisionSuggested | DecisionDryRun | DecisionPendingApproval | DecisionExecute

definition Decide :: "RemPolicy \<Rightarrow> float64 \<Rightarrow> Decision" where
  "Decide p confidence =
     (if pol_Mode p = ModeOff then DecisionSuppressed
      else if flt confidence (pol_ConfidenceThreshold p) then DecisionSuggested
      else if pol_Mode p = ModeDryRun then DecisionDryRun
      else if pol_Mode p = ModeAuto then DecisionExecute
      else DecisionPendingApproval)"

definition AllowsExecution :: "RemPolicy \<Rightarrow> bool" where
  "AllowsExecution p \<longleftrightarrow> pol_Mode p = ModeManual \<or> pol_Mode p = ModeAuto"

section \<open>authz.go\<close>

datatype RiskTier = RiskLow | RiskHigh

definition highRiskKeywords :: "string list" where
  "highRiskKeywords = [''scale'', ''rollback'', ''roll back'', ''revert'', ''delete'', ''destroy'', ''remove'', ''terminate'',
     ''drain'', ''cordon'', ''evict'', ''failover'', ''fail over'', ''redeploy'', ''rollout undo'']"

definition lowRiskKeywords :: "string list" where
  "lowRiskKeywords = [''restart'', ''recycle'', ''reboot'', ''bounce'', ''refresh'', ''clear cache'']"

definition ClassifyRisk :: "string \<Rightarrow> string \<Rightarrow> RiskTier" where
  "ClassifyRisk name description = (let hay = to_lower (name @ '' '' @ description) in
     if list_ex (\<lambda>kw. contains kw hay) highRiskKeywords then RiskHigh
     else if list_ex (\<lambda>kw. contains kw hay) lowRiskKeywords then RiskLow
     else RiskHigh)"

text \<open>The set of elevated roles, as the list of keys of the map.\<close>

type_synonym ApproverAuthorizer = "string list"

definition NewApproverAuthorizer :: "string list \<Rightarrow> ApproverAuthorizer" where
  "NewApproverAuthorizer elevatedRoles =
     ''admin'' # filter (\<lambda>r. r \<noteq> []) (map (\<lambda>r. trim_space (to_lower r)) elevatedRoles)"

definition ParseRoles :: "string \<Rightarrow> string list" where
  "ParseRoles csv = filter (\<lambda>r. r \<noteq> []) (map trim_space (split_on CHR '','' csv))"

definition IsElevated :: "ApproverAuthorizer \<Rightarrow> string \<Rightarrow> bool" where
  "IsElevated a role \<longleftrightarrow> to_lower (trim_space role) \<in> set a"

datatype refusal = NoRole | NeedsElevated string

definition CanApprove :: "ApproverAuthorizer \<Rightarrow> string \<Rightarrow> RiskTier \<Rightarrow> bool \<times> refusal option" where
  "CanApprove a role tier =
     (if trim_space role = [] then (False, Some NoRole)
      else if tier = RiskHigh \<and> \<not> IsElevated a role then (False, Some (NeedsElevated role))
      else (True, None))"

section \<open>Lemmas\<close>

lemma is_space_lower_char [simp]: "is_space (lower_char c) = is_space c"
proof -
  have "is_space c \<Longrightarrow> lower_char c = c" by (auto simp: is_space_def lower_char_def Let_def)
  moreover have "\<not> is_space (char_of (k + 32))" if "65 \<le> k" "k \<le> 90" for k :: nat
  proof -
    have "of_char (char_of (k + 32) :: char) = k + 32" using that by (simp add: of_char_of)
    then show ?thesis using that by (auto simp: is_space_def dest: arg_cong [where f = "of_char :: char \<Rightarrow> nat"])
  qed
  then have "is_space (lower_char c) \<Longrightarrow> is_space c" by (auto simp: lower_char_def Let_def split: if_splits)
  ultimately show ?thesis by metis
qed

lemma trim_space_to_lower: "trim_space (to_lower s) = to_lower (trim_space s)"
proof -
  have "dropWhile is_space (map lower_char s) = map lower_char (dropWhile is_space s)" for s
    by (induction s) auto
  then show ?thesis by (simp add: trim_space_def to_lower_def rev_map)
qed

lemma ParseMode_range: "ParseMode s = Some m \<Longrightarrow> m \<in> {ModeOff, ModeDryRun, ModeManual, ModeAuto}"
  by (auto simp: ParseMode_def Let_def split: if_splits)

lemma ParseMode_auto_iff: "ParseMode s = Some ModeAuto \<longleftrightarrow> normalize_mode s \<in> {''auto'', ''automatic''}"
  by (auto simp: ParseMode_def Let_def mode_defs)

lemma Decide_execute_iff:
  "Decide p c = DecisionExecute \<longleftrightarrow> pol_Mode p = ModeAuto \<and> \<not> flt c (pol_ConfidenceThreshold p)"
  by (auto simp: Decide_def mode_defs)

lemma read_threshold_mode: "pol_Mode (fst (read_threshold pf raw p)) = pol_Mode p"
  by (simp add: read_threshold_def split: option.splits)

lemma read_threshold_range:
  assumes "\<not> flt t (Fl 0) \<and> \<not> flt (Fl 1) t" "t = pol_ConfidenceThreshold p"
  shows "\<not> flt (pol_ConfidenceThreshold (fst (read_threshold pf raw p))) (Fl 0) \<and>
    \<not> flt (Fl 1) (pol_ConfidenceThreshold (fst (read_threshold pf raw p)))"
  using assms by (simp add: read_threshold_def split: option.splits)

lemma DefaultConfidenceThreshold_value: "DefaultConfidenceThreshold = Fl (3152519739159347 / 4503599627370496)"
  using round64_frac [of "7 / 10" 53 6305039478318694] by (simp add: nearest_even_def DefaultConfidenceThreshold_def)

lemma mem_NewApproverAuthorizer:
  "r \<in> set (NewApproverAuthorizer rs) \<longleftrightarrow> r = ''admin'' \<or> r \<noteq> [] \<and> (\<exists>x \<in> set rs. r = to_lower (trim_space x))"
  by (auto simp: NewApproverAuthorizer_def trim_space_to_lower)

lemma highRiskKeywords_lower: "kw \<in> set highRiskKeywords \<Longrightarrow> to_lower kw = kw"
proof -
  have "\<forall>kw \<in> set highRiskKeywords. to_lower kw = kw" by code_simp
  then show "kw \<in> set highRiskKeywords \<Longrightarrow> to_lower kw = kw" by blast
qed

section \<open>Properties\<close>

text \<open>Execution without a human is armed only on purpose. A policy read from the environment decides
  to execute exactly when the mode variable spells auto or automatic, up to case, surrounding space
  and hyphen spelling, and the confidence is not below the threshold read; every other value of the
  variable, a misspelling included, never executes.\<close>

theorem auto_only_on_purpose:
  "Decide (fst (PolicyFromEnv pf modeEnv thresholdEnv)) c = DecisionExecute \<longleftrightarrow>
    normalize_mode modeEnv \<in> {''auto'', ''automatic''} \<and>
    \<not> flt c (pol_ConfidenceThreshold (fst (PolicyFromEnv pf modeEnv thresholdEnv)))"
proof (cases "trim_space modeEnv = []")
  case True
  then show ?thesis
    by (simp add: Decide_execute_iff PolicyFromEnv_def read_threshold_mode DefaultPolicy_def normalize_mode_def to_lower_def mode_defs)
next
  case False
  show ?thesis
  proof (cases "ParseMode modeEnv")
    case None
    then have "normalize_mode modeEnv \<notin> {''auto'', ''automatic''}" using ParseMode_auto_iff [of modeEnv] by simp
    then show ?thesis using False None by (auto simp: Decide_execute_iff PolicyFromEnv_def DefaultPolicy_def mode_defs)
  next
    case (Some m)
    then show ?thesis using False ParseMode_auto_iff [of modeEnv]
      by (auto simp: Decide_execute_iff PolicyFromEnv_def read_threshold_mode)
  qed
qed

text \<open>An invalid threshold does not fall back to the safe mode. With the mode set to auto and a
  threshold that is not a number, the error comes with a policy that executes every playbook at or
  above the default threshold; and a threshold spelled NaN is accepted and switches the confidence
  gate off altogether.\<close>

theorem invalid_threshold_still_executes:
  assumes "normalize_mode modeEnv = ''auto''" "trim_space raw \<noteq> []"
  shows "(pf (trim_space raw) = None \<longrightarrow> (\<exists>p. PolicyFromEnv pf modeEnv raw = (p, Some (InvalidThreshold raw)) \<and>
      (\<forall>c. fle DefaultConfidenceThreshold c \<longrightarrow> Decide p c = DecisionExecute))) \<and>
    (pf (trim_space raw) = Some NaN \<longrightarrow> (\<exists>p. PolicyFromEnv pf modeEnv raw = (p, None) \<and> (\<forall>c. Decide p c = DecisionExecute)))"
proof -
  have m: "ParseMode modeEnv = Some ModeAuto" using assms(1) ParseMode_auto_iff by auto
  have ne: "trim_space modeEnv \<noteq> []" using assms(1) by (auto simp: normalize_mode_def to_lower_def)
  { assume "pf (trim_space raw) = None"
    then have "PolicyFromEnv pf modeEnv raw = (DefaultPolicy\<lparr>pol_Mode := ModeAuto\<rparr>, Some (InvalidThreshold raw))"
      using m ne assms(2) by (simp add: PolicyFromEnv_def read_threshold_def)
    moreover have "Decide (DefaultPolicy\<lparr>pol_Mode := ModeAuto\<rparr>) c = DecisionExecute" if "fle DefaultConfidenceThreshold c" for c
      using that by (cases c) (auto simp: Decide_execute_iff DefaultPolicy_def DefaultConfidenceThreshold_value)
    ultimately have "\<exists>p. PolicyFromEnv pf modeEnv raw = (p, Some (InvalidThreshold raw)) \<and>
        (\<forall>c. fle DefaultConfidenceThreshold c \<longrightarrow> Decide p c = DecisionExecute)" by blast }
  note bad = this
  have "\<exists>p. PolicyFromEnv pf modeEnv raw = (p, None) \<and> (\<forall>c. Decide p c = DecisionExecute)" if "pf (trim_space raw) = Some NaN"
    using that m ne assms(2) by (simp add: PolicyFromEnv_def read_threshold_def Decide_execute_iff)
  with bad show ?thesis by blast
qed

theorem invalid_threshold_still_executes_witness:
  "\<exists>p. PolicyFromEnv (\<lambda>s. if s = ''NaN'' then Some NaN else None) '' Auto '' ''NaN'' = (p, None) \<and>
    Decide p (Fl 0) = DecisionExecute"
proof -
  have "normalize_mode '' Auto '' = ''auto''" "trim_space ''NaN'' = ''NaN''"
    by code_simp+
  then show ?thesis using invalid_threshold_still_executes [of "'' Auto ''" "''NaN''" "\<lambda>s. if s = ''NaN'' then Some NaN else None"]
    by auto
qed

text \<open>Only a recognised low-risk action can be approved without an elevated role. If a role that is
  neither admin nor configured as elevated may approve an action, then the lower-cased name and
  description contain a low-risk keyword and none of the high-risk ones; and appending any text
  with a high-risk keyword to the description takes the permission away.\<close>

theorem ordinary_role_approves_low_risk_only:
  assumes "fst (CanApprove (NewApproverAuthorizer elevated) role (ClassifyRisk name description))"
    and "to_lower (trim_space role) \<noteq> ''admin''" "\<forall>x \<in> set elevated. to_lower (trim_space role) \<noteq> to_lower (trim_space x)"
  shows "(\<exists>kw \<in> set lowRiskKeywords. contains kw (to_lower (name @ '' '' @ description))) \<and>
    (\<forall>kw \<in> set highRiskKeywords. \<not> contains kw (to_lower (name @ '' '' @ description))) \<and>
    (\<forall>pre post. \<forall>kw \<in> set highRiskKeywords.
      \<not> fst (CanApprove (NewApproverAuthorizer elevated) role (ClassifyRisk name (description @ pre @ kw @ post))))"
proof (intro conjI)
  have not_el: "\<not> IsElevated (NewApproverAuthorizer elevated) role"
    using assms(2,3) by (auto simp: IsElevated_def mem_NewApproverAuthorizer)
  then have low: "ClassifyRisk name description = RiskLow"
    using assms(1) by (cases "ClassifyRisk name description") (auto simp: CanApprove_def split: if_splits)
  then show "\<exists>kw \<in> set lowRiskKeywords. contains kw (to_lower (name @ '' '' @ description))"
    and "\<forall>kw \<in> set highRiskKeywords. \<not> contains kw (to_lower (name @ '' '' @ description))"
    unfolding ClassifyRisk_def Let_def list_ex_iff by (auto split: if_splits)
  show "\<forall>pre post. \<forall>kw \<in> set highRiskKeywords.
      \<not> fst (CanApprove (NewApproverAuthorizer elevated) role (ClassifyRisk name (description @ pre @ kw @ post)))"
  proof (intro allI ballI)
    fix pre post kw assume kw: "kw \<in> set highRiskKeywords"
    have "to_lower (name @ '' '' @ description @ pre @ kw @ post) =
        to_lower (name @ '' '' @ description @ pre) @ kw @ to_lower post"
      using highRiskKeywords_lower kw by (simp add: to_lower_def)
    then have "contains kw (to_lower (name @ '' '' @ description @ pre @ kw @ post))" unfolding contains_iff by blast
    then have "ClassifyRisk name (description @ pre @ kw @ post) = RiskHigh"
      using kw by (auto simp: ClassifyRisk_def Let_def list_ex_iff)
    then show "\<not> fst (CanApprove (NewApproverAuthorizer elevated) role (ClassifyRisk name (description @ pre @ kw @ post)))"
      using not_el by (simp add: CanApprove_def)
  qed
qed

theorem ordinary_role_approves_low_risk_only_witness:
  "fst (CanApprove (NewApproverAuthorizer [''sre'']) ''viewer'' (ClassifyRisk ''restart_service'' ''rolling'')) \<and>
   \<not> fst (CanApprove (NewApproverAuthorizer [''sre'']) ''viewer'' (ClassifyRisk ''restart_service'' ''rolling, then scale up''))"
proof -
  have ok: "fst (CanApprove (NewApproverAuthorizer [''sre'']) ''viewer'' (ClassifyRisk ''restart_service'' ''rolling''))"
    by code_simp
  have "to_lower (trim_space ''viewer'') = ''viewer''" "trim_space ''sre'' = ''sre''" "to_lower ''sre'' = ''sre''"
    by code_simp+
  then show ?thesis
    using ordinary_role_approves_low_risk_only [OF ok, THEN conjunct2, THEN conjunct2, rule_format, of "''scale''" "'', then ''" "'' up''"] ok
    by (simp add: highRiskKeywords_def)
qed

end
