(* ===== verification/Causal.thy ===== *)
theory Causal
  imports Go_Strings Go_Float "HOL-Library.Char_ord" "HOL-Library.List_Lexorder" "HOL-Library.Multiset"
begin

text \<open>
  Root-cause analysis, \<open>src/shared/causal\<close> with the data of \<open>src/shared/models/incident.go\<close>:
  \<open>graph.go\<close> (the causal chain built from alerts and declared dependencies, the rule-based
  analyzer, its confidence and its playbook), \<open>grounding.go\<close> (the guardrail on an analyzer's
  output), \<open>chain.go\<close> (the configured provider list) and the scoring of \<open>eval.go\<close>. The calls to
  language models are outside; their answer is an argument. Times are nanoseconds; the RFC 3339
  rendering of a time is an argument.
\<close>

section \<open>Data\<close>

record IncidentAlert =
  ia_IncidentID :: string
  ia_AlertID :: string
  ia_ServiceName :: string
  ia_Level :: string
  ia_Message :: string
  ia_TriggeredAt :: int

record CausalLink =
  cl_FromService :: string
  cl_ToService :: string
  cl_Evidence :: string
  cl_At :: int

record PlaybookAction =
  pb_Name :: string
  pb_Description :: string
  pb_Status :: string
  pb_Output :: string
  pb_DryRun :: bool
  pb_ApprovedBy :: string
  pb_ApprovedAt :: "int option"
  pb_RejectedBy :: string
  pb_RejectedAt :: "int option"

record GroundingReport =
  gr_Grounded :: bool
  gr_UnknownServices :: "string list"
  gr_DroppedLinks :: nat
  gr_ConfidencePenalty :: float64

record CausalAnalysis =
  ca_Chain :: "CausalLink list"
  ca_Narrative :: string
  ca_RootCause :: string
  ca_Confidence :: float64
  ca_Model :: string
  ca_AnalyzedAt :: int
  ca_Playbook :: "PlaybookAction option"
  ca_Grounding :: "GroundingReport option"

record Incident =
  inc_TenantID :: string
  inc_ID :: string
  inc_Title :: string
  inc_RootCause :: string
  inc_Status :: string
  inc_Severity :: string
  inc_ServiceNames :: "string list"
  inc_AlertCount :: int
  inc_StartedAt :: int
  inc_ResolvedAt :: "int option"
  inc_CreatedAt :: int
  inc_UpdatedAt :: int
  inc_Causal :: "CausalAnalysis option"

record Evidence =
  ev_Incident :: Incident
  ev_Alerts :: "IncidentAlert list"
  ev_Dependencies :: "(string, string list) gomap"
  ev_Window :: int

section \<open>graph.go\<close>

text \<open>The arrow of the deduplication key is one character of three bytes.\<close>

definition arrow :: string where
  "arrow = map char_of [226 :: nat, 134, 146]"

definition edge_key :: "string \<Rightarrow> string \<Rightarrow> string" where
  "edge_key u s = u @ arrow @ s"

definition link_of :: "(int \<Rightarrow> string) \<Rightarrow> IncidentAlert \<Rightarrow> IncidentAlert \<Rightarrow> CausalLink" where
  "link_of rfc3339 cand target =
     \<lparr>cl_FromService = ia_ServiceName cand, cl_ToService = ia_ServiceName target,
      cl_Evidence = ia_ServiceName cand @ '' alert at '' @ rfc3339 (ia_TriggeredAt cand) @ '' preceded '' @
        ia_ServiceName target @ '' alert at '' @ rfc3339 (ia_TriggeredAt target) @ ''; declared dependency'',
      cl_At = ia_TriggeredAt cand\<rparr>"

text \<open>The loop over the upstream services of one alert, with the alerts before it, and the loop over
  the alerts. The state is the set of edges seen and the links so far.\<close>

fun add_links ::
  "(int \<Rightarrow> string) \<Rightarrow> IncidentAlert list \<Rightarrow> IncidentAlert \<Rightarrow> string list \<Rightarrow> string list \<times> CausalLink list \<Rightarrow>
   string list \<times> CausalLink list"
where
  "add_links rfc pre target [] st = st"
| "add_links rfc pre target (u # us) (seen, links) =
     (case find (\<lambda>c. ia_ServiceName c = u) pre of
        None \<Rightarrow> add_links rfc pre target us (seen, links)
      | Some cand \<Rightarrow>
          let key = edge_key (ia_ServiceName cand) (ia_ServiceName target) in
          if key \<in> set seen then add_links rfc pre target us (seen, links)
          else add_links rfc pre target us (key # seen, links @ [link_of rfc cand target]))"

definition upstream_of :: "(string, string list) gomap \<Rightarrow> string \<Rightarrow> string list" where
  "upstream_of deps s = (case map_of deps s of None \<Rightarrow> [] | Some us \<Rightarrow> us)"

fun chain_loop ::
  "(int \<Rightarrow> string) \<Rightarrow> (string, string list) gomap \<Rightarrow> IncidentAlert list \<Rightarrow> IncidentAlert list \<Rightarrow>
   string list \<times> CausalLink list \<Rightarrow> CausalLink list"
where
  "chain_loop rfc deps pre [] st = snd st"
| "chain_loop rfc deps pre (target # rest) st =
     chain_loop rfc deps (pre @ [target]) rest
       (add_links rfc pre target (upstream_of deps (ia_ServiceName target)) st)"

text \<open>\<open>sort.Slice\<close> is not stable: the order of alerts with the same time is the implementation's. It
  is the argument \<open>srt\<close>, and \<open>slice_sort\<close> is what its documentation promises.\<close>

definition BuildChain ::
  "(IncidentAlert list \<Rightarrow> IncidentAlert list) \<Rightarrow> (int \<Rightarrow> string) \<Rightarrow> IncidentAlert list \<Rightarrow> (string, string list) gomap \<Rightarrow> CausalLink list"
where
  "BuildChain srt rfc alerts deps =
     (if alerts = [] then [] else
      case srt alerts of [] \<Rightarrow> [] | first # rest \<Rightarrow> chain_loop rfc deps [first] rest ([], []))"

definition suggested :: "string \<Rightarrow> string \<Rightarrow> PlaybookAction" where
  "suggested name descr = \<lparr>pb_Name = name, pb_Description = descr, pb_Status = ''SUGGESTED'', pb_Output = [], pb_DryRun = False,
     pb_ApprovedBy = [], pb_ApprovedAt = None, pb_RejectedBy = [], pb_RejectedAt = None\<rparr>"

definition SuggestPlaybook :: "string \<Rightarrow> PlaybookAction" where
  "SuggestPlaybook rootCause = (let rc = to_lower rootCause in
     if contains ''connection'' rc \<or> contains ''database'' rc \<or> contains ''pool'' rc then
       suggested ''recycle_db_pool'' ''Recycles database connection pools on the target service to clear stale connections.''
     else if contains ''memory'' rc \<or> contains ''oom'' rc \<or> contains ''leak'' rc \<or> contains ''crash'' rc then
       suggested ''restart_service'' ''Kubernetes rolling restart of the service pods to free memory and restore health.''
     else if contains ''timeout'' rc \<or> contains ''latency'' rc \<or> contains ''exhaustion'' rc then
       suggested ''scale_replicas''
         ''Scale up service pod replicas by 2 to buffer transaction volume and reduce CPU/latency pressure.''
     else suggested ''restart_service'' ''Kubernetes rolling restart of the service pods.'')"

definition noopConfidence :: "CausalLink list \<Rightarrow> float64" where
  "noopConfidence chain = (let
     conf0 = round64 (4 / 10);
     conf1 = (if chain \<noteq> [] then fadd conf0 (round64 (2 / 10)) else conf0);
     upstream = remdups (map cl_FromService chain);
     conf2 = fadd conf1 (fmul (round64 (1 / 10)) (of_count (length upstream)))
   in if flt (round64 (85 / 100)) conf2 then round64 (85 / 100) else conf2)"

fun narrate_links :: "(int \<Rightarrow> string) \<Rightarrow> nat \<Rightarrow> CausalLink list \<Rightarrow> string" where
  "narrate_links rfc i [] = []"
| "narrate_links rfc i (l # ls) =
     ''  '' @ format_nat (i + 1) @ ''. '' @ cl_FromService l @ '' '' @ arrow @ '' '' @ cl_ToService l @ ''  ('' @
     rfc (cl_At l) @ '')'' @ [CHR 0x0A] @ narrate_links rfc (i + 1) ls"

definition buildNoopNarrative :: "(int \<Rightarrow> string) \<Rightarrow> CausalLink list \<Rightarrow> Incident \<Rightarrow> string" where
  "buildNoopNarrative rfc chain inc =
     (case chain of
        [] \<Rightarrow> ''No upstream service correlations detected. Root cause appears localized to '' @
              join_with '', '' (inc_ServiceNames inc) @ ''. Probable cause: '' @ inc_RootCause inc @ ''.''
      | first # _ \<Rightarrow>
          ''Inferred causal chain (deterministic, dependency-graph walk):'' @ [CHR 0x0A] @ narrate_links rfc 0 chain @
          [CHR 0x0A] @ ''Probable upstream root cause: '' @ inc_RootCause inc @ ''. Confirm by inspecting '' @
          cl_FromService first @ '' logs around '' @ rfc (cl_At first) @ ''.'')"

definition noop_Analyze ::
  "(IncidentAlert list \<Rightarrow> IncidentAlert list) \<Rightarrow> (int \<Rightarrow> string) \<Rightarrow> int \<Rightarrow> Evidence \<Rightarrow> CausalAnalysis"
where
  "noop_Analyze srt rfc now e = (let chain = BuildChain srt rfc (ev_Alerts e) (ev_Dependencies e) in
     \<lparr>ca_Chain = chain, ca_Narrative = buildNoopNarrative rfc chain (ev_Incident e),
      ca_RootCause = inc_RootCause (ev_Incident e), ca_Confidence = noopConfidence chain,
      ca_Model = ''rule-based'', ca_AnalyzedAt = now,
      ca_Playbook = Some (SuggestPlaybook (inc_RootCause (ev_Incident e))), ca_Grounding = None\<rparr>)"

section \<open>grounding.go\<close>

definition groundedConfidenceCeiling :: float64 where
  "groundedConfidenceCeiling = round64 (4 / 10)"

definition clamp01 :: "float64 \<Rightarrow> float64" where
  "clamp01 f = (if flt f (Fl 0) then Fl 0 else if flt (Fl 1) f then Fl 1 else f)"

definition normalizeService :: "string \<Rightarrow> string" where
  "normalizeService name = to_lower (trim_space name)"

definition knownServices :: "Evidence option \<Rightarrow> string list" where
  "knownServices oe = (case oe of None \<Rightarrow> [] | Some e \<Rightarrow>
     filter (\<lambda>n. n \<noteq> []) (map normalizeService
       (inc_ServiceNames (ev_Incident e) @ map ia_ServiceName (ev_Alerts e) @
        concat (map (\<lambda>(svc, ups). svc # ups) (ev_Dependencies e)))))"

definition isKnown :: "string \<Rightarrow> string list \<Rightarrow> bool" where
  "isKnown name known \<longleftrightarrow> (let n = normalizeService name in n = [] \<or> n \<in> set known)"

definition sortedKeys :: "string list \<Rightarrow> string list" where
  "sortedKeys ks = sort (remdups ks)"

definition link_known :: "string list \<Rightarrow> CausalLink \<Rightarrow> bool" where
  "link_known known l \<longleftrightarrow> isKnown (cl_FromService l) known \<and> isKnown (cl_ToService l) known"

definition unknown_ends :: "string list \<Rightarrow> CausalLink \<Rightarrow> string list" where
  "unknown_ends known l = filter (\<lambda>s. \<not> isKnown s known \<and> trim_space s \<noteq> []) [cl_FromService l, cl_ToService l]"

definition GroundAnalysis :: "CausalAnalysis option \<Rightarrow> Evidence option \<Rightarrow> CausalAnalysis option" where
  "GroundAnalysis result e = (case result of None \<Rightarrow> None | Some r \<Rightarrow> let
     grounded = r\<lparr>ca_Confidence := clamp01 (ca_Confidence r)\<rparr>;
     known = knownServices e
   in if known = [] then
        Some (grounded\<lparr>ca_Grounding := Some \<lparr>gr_Grounded = True, gr_UnknownServices = [], gr_DroppedLinks = 0, gr_ConfidencePenalty = Fl 0\<rparr>\<rparr>)
      else let
        kept = filter (link_known known) (ca_Chain r);
        bad = filter (\<lambda>l. \<not> link_known known l) (ca_Chain r);
        report = \<lparr>gr_Grounded = (length bad = 0), gr_UnknownServices = sortedKeys (concat (map (unknown_ends known) bad)),
                  gr_DroppedLinks = length bad, gr_ConfidencePenalty = Fl 0\<rparr>
      in if length bad > 0 then
           (let g = grounded\<lparr>ca_Chain := kept\<rparr> in
            if flt groundedConfidenceCeiling (ca_Confidence g) then
              Some (g\<lparr>ca_Confidence := groundedConfidenceCeiling,
                      ca_Grounding := Some (report\<lparr>gr_ConfidencePenalty := fsub (ca_Confidence g) groundedConfidenceCeiling\<rparr>)\<rparr>)
            else Some (g\<lparr>ca_Grounding := Some report\<rparr>))
         else Some (grounded\<lparr>ca_Grounding := Some report\<rparr>))"

section \<open>chain.go\<close>

record ProviderSpec =
  ps_Provider :: string
  ps_Model :: string

definition spec_String :: "ProviderSpec \<Rightarrow> string" where
  "spec_String s = (if ps_Model s = [] then ps_Provider s else ps_Provider s @ '':'' @ ps_Model s)"

definition parse_segment :: "string \<Rightarrow> ProviderSpec option" where
  "parse_segment seg = (let segment = trim_space seg in
     if segment = [] then None else
     let (provider0, model, found) = cut CHR '':'' segment; provider = to_lower (trim_space provider0)
     in if provider = [] then None else Some \<lparr>ps_Provider = provider, ps_Model = trim_space model\<rparr>)"

definition ParseProviderChain :: "string \<Rightarrow> ProviderSpec list" where
  "ParseProviderChain spec = List.map_filter parse_segment (split_on CHR '','' spec)"

section \<open>eval.go: the blamed service\<close>

fun collect_roots :: "string list \<Rightarrow> string list \<Rightarrow> CausalLink list \<Rightarrow> string list" where
  "collect_roots effects roots [] = roots"
| "collect_roots effects roots (l # ls) =
     (if cl_FromService l \<notin> set effects \<and> cl_FromService l \<notin> set roots
      then collect_roots effects (roots @ [cl_FromService l]) ls
      else collect_roots effects roots ls)"

definition rootService :: "CausalLink list \<Rightarrow> string" where
  "rootService chain = (case chain of [] \<Rightarrow> [] | first # _ \<Rightarrow>
     let roots = collect_roots (map cl_ToService chain) [] chain in
     case roots of [] \<Rightarrow> cl_FromService first | [r] \<Rightarrow> r | _ \<Rightarrow> hd (sort roots))"

section \<open>The causal chain\<close>

definition link_key :: "CausalLink \<Rightarrow> string" where
  "link_key l = edge_key (cl_FromService l) (cl_ToService l)"

definition linked_in :: "(int \<Rightarrow> string) \<Rightarrow> (string, string list) gomap \<Rightarrow> IncidentAlert list \<Rightarrow> CausalLink \<Rightarrow> bool" where
  "linked_in rfc deps xs l \<longleftrightarrow> (\<exists>p c q t. xs = p @ c # q \<and> t \<in> set q \<and> (\<forall>x \<in> set p. ia_ServiceName x \<noteq> ia_ServiceName c) \<and>
     ia_ServiceName c \<in> set (upstream_of deps (ia_ServiceName t)) \<and> l = link_of rfc c t)"

definition chain_inv ::
  "(int \<Rightarrow> string) \<Rightarrow> (string, string list) gomap \<Rightarrow> IncidentAlert list \<Rightarrow> string list \<times> CausalLink list \<Rightarrow> bool"
where
  "chain_inv rfc deps xs st \<longleftrightarrow> set (fst st) = link_key ` set (snd st) \<and> distinct (map link_key (snd st)) \<and>
     (\<forall>l \<in> set (snd st). linked_in rfc deps xs l) \<and>
     (\<forall>p c q t. xs = p @ c # q \<longrightarrow> t \<in> set q \<longrightarrow> ia_ServiceName c \<in> set (upstream_of deps (ia_ServiceName t)) \<longrightarrow>
        edge_key (ia_ServiceName c) (ia_ServiceName t) \<in> set (fst st))"

lemma link_of_simps [simp]:
  "cl_FromService (link_of rfc c t) = ia_ServiceName c" "cl_ToService (link_of rfc c t) = ia_ServiceName t"
  "cl_At (link_of rfc c t) = ia_TriggeredAt c" "link_key (link_of rfc c t) = edge_key (ia_ServiceName c) (ia_ServiceName t)"
  by (simp_all add: link_of_def link_key_def)

lemma find_split: "find P xs = Some c \<Longrightarrow> \<exists>p q. xs = p @ c # q \<and> P c \<and> (\<forall>x \<in> set p. \<not> P x)"
proof (induction xs)
  case (Cons a xs)
  show ?case
  proof (cases "P a")
    case True
    then show ?thesis using Cons.prems by (intro exI [of _ "[]"] exI [of _ xs]) auto
  next
    case False
    then obtain p q where "xs = p @ c # q" "P c" "\<forall>x \<in> set p. \<not> P x" using Cons by auto
    then show ?thesis using False by (intro exI [of _ "a # p"] exI [of _ q]) auto
  qed
qed simp

lemma linked_in_append: "linked_in rfc deps xs l \<Longrightarrow> linked_in rfc deps (xs @ ys) l"
  unfolding linked_in_def by (elim exE conjE) (rule exI, rule exI, rule_tac x = "q @ ys" in exI, auto)

lemma add_links_spec:
  assumes "set seen = link_key ` set links" "distinct (map link_key links)"
    and "\<forall>l \<in> set links. linked_in rfc deps (pre @ [t]) l" "set us \<subseteq> set (upstream_of deps (ia_ServiceName t))"
  shows "case add_links rfc pre t us (seen, links) of (seen', links') \<Rightarrow>
    set seen' = link_key ` set links' \<and> distinct (map link_key links') \<and>
    (\<forall>l \<in> set links'. linked_in rfc deps (pre @ [t]) l) \<and> set seen \<subseteq> set seen' \<and>
    (\<forall>c \<in> set pre. ia_ServiceName c \<in> set us \<longrightarrow> edge_key (ia_ServiceName c) (ia_ServiceName t) \<in> set seen')"
  using assms
proof (induction us arbitrary: seen links)
  case (Cons u us)
  show ?case
  proof (cases "find (\<lambda>c. ia_ServiceName c = u) pre")
    case None
    then have "\<forall>c \<in> set pre. ia_ServiceName c \<noteq> u" by (auto simp: find_None_iff)
    moreover have "set us \<subseteq> set (upstream_of deps (ia_ServiceName t))" using Cons.prems(4) by simp
    ultimately show ?thesis using Cons.IH [OF Cons.prems(1-3)] None by (auto split: prod.splits)
  next
    case (Some c)
    from find_split [OF Some] obtain p q where c: "pre = p @ c # q" "ia_ServiceName c = u" "\<forall>x \<in> set p. ia_ServiceName x \<noteq> u"
      by auto
    let ?key = "edge_key u (ia_ServiceName t)"
    have us: "set us \<subseteq> set (upstream_of deps (ia_ServiceName t))" using Cons.prems(4) by simp
    show ?thesis
    proof (cases "?key \<in> set seen")
      case True
      then show ?thesis using Cons.IH [OF Cons.prems(1-3) us] Some c(2) by (auto split: prod.splits)
    next
      case False
      have lk: "linked_in rfc deps (pre @ [t]) (link_of rfc c t)"
        unfolding linked_in_def using c Cons.prems(4)
        by (intro exI [of _ p] exI [of _ c] exI [of _ "q @ [t]"] exI [of _ t]) auto
      have a: "set (?key # seen) = link_key ` set (links @ [link_of rfc c t])" using Cons.prems(1) c(2) by auto
      have b: "distinct (map link_key (links @ [link_of rfc c t]))" using Cons.prems(1,2) c(2) False by auto
      have d: "\<forall>l \<in> set (links @ [link_of rfc c t]). linked_in rfc deps (pre @ [t]) l" using Cons.prems(3) lk by auto
      obtain seen' links' where r: "add_links rfc pre t us (?key # seen, links @ [link_of rfc c t]) = (seen', links')" by fastforce
      have e: "add_links rfc pre t (u # us) (seen, links) = (seen', links')" using r Some c(2) False by (simp add: Let_def)
      from Cons.IH [OF a b d us] r have ih: "set seen' = link_key ` set links'" "distinct (map link_key links')"
        "\<forall>l \<in> set links'. linked_in rfc deps (pre @ [t]) l" "set (?key # seen) \<subseteq> set seen'"
        "\<forall>c \<in> set pre. ia_ServiceName c \<in> set us \<longrightarrow> edge_key (ia_ServiceName c) (ia_ServiceName t) \<in> set seen'" unfolding r prod.case by blast+
      have "set seen \<subseteq> set seen'" "?key \<in> set seen'" using ih(4) by auto
      then show ?thesis unfolding e prod.case using ih(1,2,3,5) by auto
    qed
  qed
qed auto

lemma snoc_split: "xs @ [t] = p @ c # q \<longleftrightarrow> q = [] \<and> xs = p \<and> t = c \<or> (\<exists>q'. q = q' @ [t] \<and> xs = p @ c # q')"
  by (cases q rule: rev_cases) (auto simp: append_eq_append_conv2)

lemma chain_inv_step:
  assumes "chain_inv rfc deps pre st"
  shows "chain_inv rfc deps (pre @ [t]) (add_links rfc pre t (upstream_of deps (ia_ServiceName t)) st)"
proof -
  obtain seen links where st: "st = (seen, links)" by fastforce
  let ?us = "upstream_of deps (ia_ServiceName t)"
  obtain seen' links' where r: "add_links rfc pre t ?us (seen, links) = (seen', links')" by fastforce
  have "\<forall>l \<in> set links. linked_in rfc deps (pre @ [t]) l"
    using assms st linked_in_append by (auto simp: chain_inv_def)
  from add_links_spec [OF _ _ this subset_refl, of seen] assms st r
  have s: "set seen' = link_key ` set links'" "distinct (map link_key links')" "\<forall>l \<in> set links'. linked_in rfc deps (pre @ [t]) l"
    "set seen \<subseteq> set seen'" "\<forall>c \<in> set pre. ia_ServiceName c \<in> set ?us \<longrightarrow> edge_key (ia_ServiceName c) (ia_ServiceName t) \<in> set seen'"
    by (auto simp: chain_inv_def)
  have "edge_key (ia_ServiceName c) (ia_ServiceName t') \<in> set seen'"
    if h: "pre @ [t] = p @ c # q" "t' \<in> set q" "ia_ServiceName c \<in> set (upstream_of deps (ia_ServiceName t'))" for p c q t'
  proof -
    obtain q' where q': "q = q' @ [t]" "pre = p @ c # q'" using h(1,2) by (auto simp: snoc_split)
    show ?thesis
    proof (cases "t' \<in> set q'")
      case True
      then have "edge_key (ia_ServiceName c) (ia_ServiceName t') \<in> set seen"
        using assms st q'(2) h(3) by (auto simp: chain_inv_def)
      then show ?thesis using s(4) by blast
    next
      case False
      then show ?thesis using q' h s(5) by auto
    qed
  qed
  then show ?thesis using s r st by (auto simp: chain_inv_def)
qed

lemma chain_loop_inv:
  "chain_inv rfc deps pre st \<Longrightarrow> \<exists>seen. chain_inv rfc deps (pre @ rest) (seen, chain_loop rfc deps pre rest st)"
proof (induction rest arbitrary: pre st)
  case Nil
  then show ?case by (cases st) auto
next
  case (Cons t rest)
  from Cons.IH [OF chain_inv_step [OF Cons.prems, of t]] show ?case by simp
qed

lemma BuildChain_inv:
  assumes "srt alerts \<noteq> []"
  shows "\<exists>seen. chain_inv rfc deps (srt alerts) (seen, BuildChain srt rfc alerts deps) \<or> alerts = []"
proof -
  obtain x xs where x: "srt alerts = x # xs" using assms by (cases "srt alerts") auto
  have "chain_inv rfc deps [x] ([], [])" by (auto simp: chain_inv_def Cons_eq_append_conv)
  from chain_loop_inv [OF this, of xs] x show ?thesis by (auto simp: BuildChain_def)
qed

text \<open>What \<open>sort.Slice\<close> promises of the alerts it sorts by time, and what the chain then satisfies.\<close>

locale slice_sort =
  fixes srt :: "IncidentAlert list \<Rightarrow> IncidentAlert list"
  assumes srt_mset: "mset (srt xs) = mset xs"
    and srt_sorted: "sorted (map ia_TriggeredAt (srt xs))"
begin

lemma set_srt: "set (srt xs) = set xs"
  using srt_mset by (metis set_mset_mset)

lemma srt_before:
  assumes "srt xs = p @ c # q" "t \<in> set q"
  shows "ia_TriggeredAt c \<le> ia_TriggeredAt t"
  using srt_sorted [of xs] assms by (auto simp: sorted_append)

lemma chain_link_explained:
  assumes "l \<in> set (BuildChain srt rfc alerts deps)"
  shows "\<exists>a \<in> set alerts. \<exists>b \<in> set alerts. cl_FromService l = ia_ServiceName a \<and> cl_ToService l = ia_ServiceName b \<and>
    ia_ServiceName a \<in> set (upstream_of deps (ia_ServiceName b)) \<and> cl_At l = ia_TriggeredAt a \<and>
    ia_TriggeredAt a \<le> ia_TriggeredAt b \<and> (\<forall>a' \<in> set alerts. ia_ServiceName a' = ia_ServiceName a \<longrightarrow> ia_TriggeredAt a \<le> ia_TriggeredAt a')"
proof -
  have ne: "alerts \<noteq> []" using assms by (auto simp: BuildChain_def)
  then have "srt alerts \<noteq> []" using set_srt [of alerts] by auto
  from BuildChain_inv [of srt alerts rfc deps, OF this] assms ne have "linked_in rfc deps (srt alerts) l" by (auto simp: chain_inv_def)
  then obtain p c q t where h: "srt alerts = p @ c # q" "t \<in> set q" "\<forall>x \<in> set p. ia_ServiceName x \<noteq> ia_ServiceName c"
    "ia_ServiceName c \<in> set (upstream_of deps (ia_ServiceName t))" "l = link_of rfc c t" unfolding linked_in_def by blast
  have mem: "set alerts = set p \<union> {c} \<union> set q" using set_srt [of alerts] h(1) by auto
  have "ia_TriggeredAt c \<le> ia_TriggeredAt a'" if "a' \<in> set alerts" "ia_ServiceName a' = ia_ServiceName c" for a'
    using that mem h(3) srt_before [OF h(1)] by auto
  then show ?thesis using h(2,4,5) mem srt_before [OF h(1,2)] by (intro bexI [of _ c] bexI [of _ t]) auto
qed

lemma chain_distinct: "distinct (map (\<lambda>l. (cl_FromService l, cl_ToService l)) (BuildChain srt rfc alerts deps))"
proof (cases "alerts = []")
  case False
  then have "srt alerts \<noteq> []" using set_srt [of alerts] by auto
  from BuildChain_inv [of srt alerts rfc deps, OF this] False
  have "distinct (map link_key (BuildChain srt rfc alerts deps))" by (auto simp: chain_inv_def)
  then show ?thesis by (auto simp: distinct_map inj_on_def link_key_def)
qed (simp add: BuildChain_def)

lemma chain_covers:
  assumes ab: "a \<in> set alerts" "b \<in> set alerts" "ia_TriggeredAt a < ia_TriggeredAt b"
    and up: "ia_ServiceName a \<in> set (upstream_of deps (ia_ServiceName b))"
    and names: "\<forall>x \<in> set alerts. hd arrow \<notin> set (ia_ServiceName x)"
  shows "\<exists>l \<in> set (BuildChain srt rfc alerts deps). cl_FromService l = ia_ServiceName a \<and> cl_ToService l = ia_ServiceName b"
proof -
  obtain p q where pq: "srt alerts = p @ a # q" using ab(1) set_srt [of alerts] by (metis split_list)
  have "b \<notin> set p" using srt_sorted [of alerts] pq ab(3) by (auto simp: sorted_append)
  then have "b \<in> set q" using ab pq set_srt [of alerts] by auto
  moreover have "alerts \<noteq> []" using ab by auto
  moreover have "srt alerts \<noteq> []" using pq by simp
  ultimately have "edge_key (ia_ServiceName a) (ia_ServiceName b) \<in> link_key ` set (BuildChain srt rfc alerts deps)"
    using BuildChain_inv [of srt alerts rfc deps] pq up unfolding chain_inv_def by fastforce
  then obtain l where l: "l \<in> set (BuildChain srt rfc alerts deps)" "edge_key (ia_ServiceName a) (ia_ServiceName b) = link_key l" by auto
  obtain a' where "a' \<in> set alerts" "cl_FromService l = ia_ServiceName a'" using chain_link_explained [OF l(1)] by blast
  then have "hd arrow \<notin> set (cl_FromService l)" "hd arrow \<notin> set (ia_ServiceName a)" using names ab(1) by auto
  moreover have "arrow = hd arrow # tl arrow" by (simp add: arrow_def)
  ultimately have "ia_ServiceName a = cl_FromService l \<and> ia_ServiceName b = cl_ToService l"
    using l(2) prefix_split [of "hd arrow" "ia_ServiceName a" "cl_FromService l" "tl arrow @ ia_ServiceName b" "tl arrow @ cl_ToService l"]
    unfolding link_key_def edge_key_def by (metis append_Cons same_append_eq)
  then show ?thesis using l(1) by auto
qed

end

interpretation stable: slice_sort "sort_key ia_TriggeredAt"
  by unfold_locales simp_all

section \<open>Confidence, grounding and providers\<close>

lemma clamp01_bounds: "f \<noteq> NaN \<Longrightarrow> fle (Fl 0) (clamp01 f) \<and> fle (clamp01 f) (Fl 1)"
  by (cases f) (auto simp: clamp01_def)

lemma float_4_10: "round64 (4 / 10) = Fl (3602879701896397 / 9007199254740992)"
  using round64_frac [of "4 / 10" 54 7205759403792794] by (simp add: nearest_even_def)

lemma float_2_10: "round64 (2 / 10) = Fl (3602879701896397 / 18014398509481984)"
  using round64_frac [of "2 / 10" 55 7205759403792794] by (simp add: nearest_even_def)

lemma float_1_10: "round64 (1 / 10) = Fl (3602879701896397 / 36028797018963968)"
  using round64_frac [of "1 / 10" 56 7205759403792794] by (simp add: nearest_even_def)

lemma float_85_100: "round64 (85 / 100) = Fl (7656119366529843 / 9007199254740992)"
  using round64_frac [of "85 / 100" 53 7656119366529843] by (simp add: nearest_even_def)

lemma float_1: "of_count 1 = Fl 1"
  using round64_frac [of 1 52 4503599627370496] by (simp add: nearest_even_def of_count_def)

lemma float_04_02: "fadd (round64 (4 / 10)) (round64 (2 / 10)) = Fl (5404319552844596 / 9007199254740992)"
  unfolding float_4_10 float_2_10
  using round64_frac [of "3602879701896397 / 9007199254740992 + 3602879701896397 / 18014398509481984" 53 5404319552844596] by (simp add: nearest_even_def)

lemma float_01_1: "fmul (round64 (1 / 10)) (of_count 1) = round64 (1 / 10)"
  unfolding float_1_10 float_1 fmul.simps
  using round64_frac [of "3602879701896397 / 36028797018963968" 56 7205759403792794] by (simp add: nearest_even_def)

lemma float_06_01: "fadd (Fl (5404319552844596 / 9007199254740992)) (round64 (1 / 10)) = Fl (6305039478318695 / 9007199254740992)"
  unfolding float_1_10
  using round64_frac [of "5404319552844596 / 9007199254740992 + 3602879701896397 / 36028797018963968" 53 6305039478318695] by (simp add: nearest_even_def)

lemma noopConfidence_single:
  assumes "chain \<noteq> []" "\<forall>l \<in> set chain. cl_FromService l = u"
  shows "noopConfidence chain = Fl (6305039478318695 / 9007199254740992)"
proof -
  have "set (map cl_FromService chain) = {u}" using assms by (cases chain) auto
  then have "length (remdups (map cl_FromService chain)) = 1" by (simp add: length_remdups_card_conv)
  then show ?thesis using assms(1) unfolding noopConfidence_def Let_def
    by (simp only: if_True not_False_eq_True float_04_02 float_01_1 float_06_01 float_85_100 simp_thms) simp
qed

lemma noopConfidence_cap: "\<not> flt (round64 (85 / 100)) (noopConfidence chain)"
  by (simp add: noopConfidence_def Let_def)

lemma knownServices_alert: "a \<in> set (ev_Alerts e) \<Longrightarrow> isKnown (ia_ServiceName a) (knownServices (Some e))"
  by (auto simp: isKnown_def knownServices_def Let_def)

lemma GroundAnalysis_pruned:
  assumes "GroundAnalysis (Some r) e = Some g" "ca_Grounding g = Some rep" "gr_DroppedLinks rep > 0" "ca_Confidence r \<noteq> NaN"
  shows "\<not> flt groundedConfidenceCeiling (ca_Confidence g) \<and> ca_Confidence g \<noteq> NaN"
  using assms clamp01_bounds [OF assms(4)]
  by (auto simp: GroundAnalysis_def Let_def groundedConfidenceCeiling_def float_4_10 split: if_splits)

lemma GroundAnalysis_Some: "\<exists>g. GroundAnalysis (Some r) e = Some g"
  by (simp add: GroundAnalysis_def Let_def)

lemma GroundAnalysis_chain:
  "GroundAnalysis (Some r) e = Some g \<Longrightarrow> knownServices e \<noteq> [] \<Longrightarrow> ca_Chain g = filter (link_known (knownServices e)) (ca_Chain r)"
  by (auto simp: GroundAnalysis_def Let_def filter_empty_conv filter_id_conv split: if_splits)

lemma GroundAnalysis_report:
  assumes "GroundAnalysis (Some r) e = Some g" "knownServices e \<noteq> []"
  shows "\<exists>rep. ca_Grounding g = Some rep \<and> gr_DroppedLinks rep = length (ca_Chain r) - length (ca_Chain g) \<and>
    (gr_Grounded rep \<longleftrightarrow> ca_Chain g = ca_Chain r) \<and>
    set (gr_UnknownServices rep) = {s. \<exists>l \<in> set (ca_Chain r). s \<in> {cl_FromService l, cl_ToService l} \<and> \<not> isKnown s (knownServices e)}"
proof -
  let ?k = "link_known (knownServices e)"
  let ?bad = "filter (\<lambda>l. \<not> ?k l) (ca_Chain r)"
  have len: "length ?bad = length (ca_Chain r) - length (filter ?k (ca_Chain r))"
    using sum_length_filter_compl [of ?k "ca_Chain r"] by linarith
  have ne: "\<not> isKnown s (knownServices e) \<Longrightarrow> trim_space s \<noteq> []" for s by (auto simp: isKnown_def normalizeService_def to_lower_def Let_def)
  have un: "set (sortedKeys (concat (map (unknown_ends (knownServices e)) ?bad))) =
      {s. \<exists>l \<in> set (ca_Chain r). s \<in> {cl_FromService l, cl_ToService l} \<and> \<not> isKnown s (knownServices e)}"
  proof -
    have "set (unknown_ends (knownServices e) l) = {s \<in> {cl_FromService l, cl_ToService l}. \<not> isKnown s (knownServices e)}" for l
      using ne by (auto simp: unknown_ends_def)
    then show ?thesis by (auto simp: sortedKeys_def link_known_def)
  qed
  have same: "?bad = [] \<longleftrightarrow> filter ?k (ca_Chain r) = ca_Chain r" by (auto simp: filter_empty_conv filter_id_conv)
  obtain rep where rep: "ca_Grounding g = Some rep" "gr_DroppedLinks rep = length ?bad" "gr_Grounded rep \<longleftrightarrow> length ?bad = 0"
      "gr_UnknownServices rep = sortedKeys (concat (map (unknown_ends (knownServices e)) ?bad))"
    using assms unfolding GroundAnalysis_def Let_def option.case by (auto split: if_splits)
  have "gr_Grounded rep \<longleftrightarrow> ca_Chain g = ca_Chain r"
    unfolding rep(3) GroundAnalysis_chain [OF assms] using same by simp
  then show ?thesis using rep(1,2,4) len un GroundAnalysis_chain [OF assms] by simp
qed

definition spec_ok :: "ProviderSpec \<Rightarrow> bool" where
  "spec_ok s \<longleftrightarrow> ps_Provider s \<noteq> [] \<and> to_lower (ps_Provider s) = ps_Provider s \<and> trim_space (ps_Provider s) = ps_Provider s \<and>
     trim_space (ps_Model s) = ps_Model s \<and> CHR '','' \<notin> set (ps_Provider s @ ps_Model s) \<and> CHR '':'' \<notin> set (ps_Provider s)"

lemma parse_segment_String:
  assumes "spec_ok s"
  shows "parse_segment (spec_String s) = Some s"
proof -
  have t: "trim_space (spec_String s) = spec_String s" using assms
    by (auto simp: spec_ok_def spec_String_def trim_space_fixed hd_append)
  have "cut CHR '':'' (spec_String s) = (ps_Provider s, ps_Model s, ps_Model s \<noteq> [])"
    using assms by (simp add: spec_ok_def spec_String_def cut_found cut_not_found)
  moreover have "spec_String s \<noteq> []" using assms by (auto simp: spec_ok_def spec_String_def)
  ultimately show ?thesis using assms t by (simp add: parse_segment_def Let_def spec_ok_def)
qed

lemma parse_segment_ok: "parse_segment seg = Some s \<Longrightarrow> ps_Provider s \<noteq> [] \<and> to_lower (ps_Provider s) = ps_Provider s"
  by (auto simp: parse_segment_def Let_def split: if_splits prod.splits)

lemma collect_roots_spec:
  "set (collect_roots effects roots ls) = set roots \<union> {cl_FromService l | l. l \<in> set ls \<and> cl_FromService l \<notin> set effects}"
  by (induction effects roots ls rule: collect_roots.induct) auto

lemma rootService_source:
  assumes "\<exists>l \<in> set chain. cl_FromService l \<notin> cl_ToService ` set chain"
  shows "rootService chain \<in> cl_FromService ` set chain \<and> rootService chain \<notin> cl_ToService ` set chain"
proof -
  let ?roots = "collect_roots (map cl_ToService chain) [] chain"
  have roots: "set ?roots = {cl_FromService l | l. l \<in> set chain \<and> cl_FromService l \<notin> cl_ToService ` set chain}"
    by (simp add: collect_roots_spec)
  then have ne: "?roots \<noteq> []" using assms by (auto simp: set_empty [symmetric] simp del: set_empty)
  have "rootService chain \<in> set ?roots"
  proof (cases chain)
    case (Cons first rest)
    have "hd (sort ?roots) \<in> set ?roots" using ne by (metis hd_in_set set_sort sort_key_simps(1) set_empty)
    moreover have "rootService chain = (case ?roots of [] \<Rightarrow> cl_FromService first | [r] \<Rightarrow> r | _ \<Rightarrow> hd (sort ?roots))"
      unfolding rootService_def Let_def Cons list.case by (rule refl)
    ultimately show ?thesis using ne by (cases ?roots rule: remdups_adj.cases) (simp_all del: collect_roots.simps sort_key_simps)
  qed (use assms in simp)
  then obtain l where "l \<in> set chain" "rootService chain = cl_FromService l" "cl_FromService l \<notin> cl_ToService ` set chain"
    unfolding roots by blast
  then show ?thesis by auto
qed

section \<open>Properties\<close>

text \<open>C26: the causal chain is justified and complete. Every link goes from an alerting service to an
  alerting service that declares it upstream, is dated by the earliest alert of its source, and
  that alert is not later than some alert of its target; no edge occurs twice; and every declared
  dependency with an alert upstream strictly before one downstream has its link. This holds for
  every order that sorting may give to simultaneous alerts; completeness assumes that service names
  do not contain the first byte of the separator of the deduplication key.\<close>

theorem causal_chain_justified_and_complete:
  assumes "slice_sort srt" "\<forall>x \<in> set alerts. hd arrow \<notin> set (ia_ServiceName x)"
  shows "(\<forall>l \<in> set (BuildChain srt rfc alerts deps). \<exists>a \<in> set alerts. \<exists>b \<in> set alerts.
      cl_FromService l = ia_ServiceName a \<and> cl_ToService l = ia_ServiceName b \<and>
      ia_ServiceName a \<in> set (upstream_of deps (ia_ServiceName b)) \<and> cl_At l = ia_TriggeredAt a \<and> ia_TriggeredAt a \<le> ia_TriggeredAt b \<and>
      (\<forall>a' \<in> set alerts. ia_ServiceName a' = ia_ServiceName a \<longrightarrow> ia_TriggeredAt a \<le> ia_TriggeredAt a')) \<and>
    distinct (map (\<lambda>l. (cl_FromService l, cl_ToService l)) (BuildChain srt rfc alerts deps)) \<and>
    (\<forall>a \<in> set alerts. \<forall>b \<in> set alerts. ia_TriggeredAt a < ia_TriggeredAt b \<and>
      ia_ServiceName a \<in> set (upstream_of deps (ia_ServiceName b)) \<longrightarrow>
      (\<exists>l \<in> set (BuildChain srt rfc alerts deps). cl_FromService l = ia_ServiceName a \<and> cl_ToService l = ia_ServiceName b))"
  using slice_sort.chain_link_explained [OF assms(1)] slice_sort.chain_distinct [OF assms(1)]
    slice_sort.chain_covers [OF assms(1) _ _ _ _ assms(2)] by blast

definition alert_at :: "string \<Rightarrow> int \<Rightarrow> IncidentAlert" where
  "alert_at svc t = \<lparr>ia_IncidentID = ''i'', ia_AlertID = svc, ia_ServiceName = svc, ia_Level = ''ERROR'', ia_Message = [], ia_TriggeredAt = t\<rparr>"

theorem causal_chain_justified_and_complete_witness:
  "\<exists>l \<in> set (BuildChain (sort_key ia_TriggeredAt) (\<lambda>_. []) [alert_at ''api'' 2, alert_at ''db'' 1] [(''api'', [''db''])]).
     cl_FromService l = ''db'' \<and> cl_ToService l = ''api''"
proof -
  have "\<forall>x \<in> set [alert_at ''api'' 2, alert_at ''db'' 1]. hd arrow \<notin> set (ia_ServiceName x)"
    by code_simp
  from causal_chain_justified_and_complete [OF stable.slice_sort_axioms this, of "\<lambda>_. []" "[(''api'', [''db''])]"]
  have "\<forall>a \<in> set [alert_at ''api'' 2, alert_at ''db'' 1]. \<forall>b \<in> set [alert_at ''api'' 2, alert_at ''db'' 1]. ia_TriggeredAt a < ia_TriggeredAt b \<and>
      ia_ServiceName a \<in> set (upstream_of [(''api'', [''db''])] (ia_ServiceName b)) \<longrightarrow>
      (\<exists>l \<in> set (BuildChain (sort_key ia_TriggeredAt) (\<lambda>_. []) [alert_at ''api'' 2, alert_at ''db'' 1] [(''api'', [''db''])]).
        cl_FromService l = ia_ServiceName a \<and> cl_ToService l = ia_ServiceName b)" by blast
  from this [rule_format, of "alert_at ''db'' 1" "alert_at ''api'' 2"] show ?thesis by (simp add: alert_at_def upstream_of_def)
qed

text \<open>The guardrail removes exactly the unsupported links and reports them. When the evidence names
  at least one service, the grounded chain is the analyzer's chain without the links that touch an
  unknown service, the report counts the removed links and lists exactly the unknown names; when a
  link was removed the confidence is at most the ceiling of 0.4; and the chain the rule-based
  analyzer builds is never pruned.\<close>

theorem guardrail_removes_unsupported_links:
  assumes "GroundAnalysis (Some r) (Some e) = Some g" "knownServices (Some e) \<noteq> []"
  shows "ca_Chain g = filter (link_known (knownServices (Some e))) (ca_Chain r) \<and>
    (\<exists>rep. ca_Grounding g = Some rep \<and> gr_DroppedLinks rep = length (ca_Chain r) - length (ca_Chain g) \<and>
      set (gr_UnknownServices rep) =
        {s. \<exists>l \<in> set (ca_Chain r). s \<in> {cl_FromService l, cl_ToService l} \<and> \<not> isKnown s (knownServices (Some e))} \<and>
      (gr_DroppedLinks rep > 0 \<and> ca_Confidence r \<noteq> NaN \<longrightarrow> fle (ca_Confidence g) groundedConfidenceCeiling)) \<and>
    (slice_sort srt \<and> r = noop_Analyze srt rfc now e \<longrightarrow> ca_Chain g = ca_Chain r)"
proof (intro conjI impI)
  show "ca_Chain g = filter (link_known (knownServices (Some e))) (ca_Chain r)" by (rule GroundAnalysis_chain [OF assms])
  from GroundAnalysis_report [OF assms] obtain rep where rep: "ca_Grounding g = Some rep"
    "gr_DroppedLinks rep = length (ca_Chain r) - length (ca_Chain g)"
    "set (gr_UnknownServices rep) =
       {s. \<exists>l \<in> set (ca_Chain r). s \<in> {cl_FromService l, cl_ToService l} \<and> \<not> isKnown s (knownServices (Some e))}" by blast
  have "fle (ca_Confidence g) groundedConfidenceCeiling" if "gr_DroppedLinks rep > 0 \<and> ca_Confidence r \<noteq> NaN"
    using GroundAnalysis_pruned [OF assms(1) rep(1)] that flt_iff_not_fle [of groundedConfidenceCeiling "ca_Confidence g"]
      float_4_10 unfolding groundedConfidenceCeiling_def by auto
  then show "\<exists>rep. ca_Grounding g = Some rep \<and> gr_DroppedLinks rep = length (ca_Chain r) - length (ca_Chain g) \<and>
      set (gr_UnknownServices rep) =
        {s. \<exists>l \<in> set (ca_Chain r). s \<in> {cl_FromService l, cl_ToService l} \<and> \<not> isKnown s (knownServices (Some e))} \<and>
      (gr_DroppedLinks rep > 0 \<and> ca_Confidence r \<noteq> NaN \<longrightarrow> fle (ca_Confidence g) groundedConfidenceCeiling)"
    using rep by blast
  assume s: "slice_sort srt \<and> r = noop_Analyze srt rfc now e"
  have "link_known (knownServices (Some e)) l" if l: "l \<in> set (ca_Chain r)" for l
  proof -
    have "l \<in> set (BuildChain srt rfc (ev_Alerts e) (ev_Dependencies e))" using l s by (simp add: noop_Analyze_def Let_def)
    from slice_sort.chain_link_explained [OF conjunct1 [OF s] this] show ?thesis
      using knownServices_alert by (auto simp: link_known_def)
  qed
  then show "ca_Chain g = ca_Chain r" using GroundAnalysis_chain [OF assms] by (simp add: filter_id_conv)
qed

definition sample_evidence :: Evidence where
  "sample_evidence = \<lparr>ev_Incident = \<lparr>inc_TenantID = ''t'', inc_ID = ''i'', inc_Title = [], inc_RootCause = ''memory leak'', inc_Status = ''OPEN'',
     inc_Severity = ''ERROR'', inc_ServiceNames = [''api''], inc_AlertCount = 1, inc_StartedAt = 0, inc_ResolvedAt = None, inc_CreatedAt = 0,
     inc_UpdatedAt = 0, inc_Causal = None\<rparr>, ev_Alerts = [], ev_Dependencies = [], ev_Window = 300\<rparr>"

definition sample_answer :: CausalAnalysis where
  "sample_answer = \<lparr>ca_Chain = [\<lparr>cl_FromService = ''ghost'', cl_ToService = ''api'', cl_Evidence = [], cl_At = 0\<rparr>], ca_Narrative = [],
     ca_RootCause = [], ca_Confidence = Fl 1, ca_Model = ''m'', ca_AnalyzedAt = 0, ca_Playbook = Some (suggested ''restart_service'' []), ca_Grounding = None\<rparr>"

lemma sample_known: "knownServices (Some sample_evidence) = [''api'']"
  by code_simp

theorem guardrail_removes_unsupported_links_witness:
  "\<exists>g rep. GroundAnalysis (Some sample_answer) (Some sample_evidence) = Some g \<and> ca_Chain g = [] \<and>
    ca_Grounding g = Some rep \<and> gr_DroppedLinks rep = 1"
proof -
  obtain g where g: "GroundAnalysis (Some sample_answer) (Some sample_evidence) = Some g"
    using GroundAnalysis_Some by blast
  have "\<not> link_known [''api''] \<lparr>cl_FromService = ''ghost'', cl_ToService = ''api'', cl_Evidence = [], cl_At = 0\<rparr>" by code_simp
  then have f: "filter (link_known [''api'']) (ca_Chain sample_answer) = []" by (simp add: sample_answer_def)
  have n: "length (ca_Chain sample_answer) = 1" by (simp add: sample_answer_def)
  from guardrail_removes_unsupported_links [OF g] sample_known f have c: "ca_Chain g = []" by simp
  from guardrail_removes_unsupported_links [OF g] sample_known obtain rep where
    "ca_Grounding g = Some rep" "gr_DroppedLinks rep = length (ca_Chain sample_answer) - length (ca_Chain g)" by force
  then show ?thesis using g c n by simp
qed

text \<open>The provider list round-trips. Rendering specifications with lower-case trimmed provider names
  and joining them with commas parses back to the same list, in the same failover order.\<close>

theorem provider_chain_roundtrip:
  assumes "\<forall>s \<in> set specs. spec_ok s"
  shows "ParseProviderChain (join_with '','' (map spec_String specs)) = specs"
proof (cases "specs = []")
  case True
  then show ?thesis by (simp add: ParseProviderChain_def parse_segment_def map_filter_simps trim_space_def)
next
  case False
  have "\<forall>x \<in> set (map spec_String specs). CHR '','' \<notin> set x" using assms by (auto simp: spec_ok_def spec_String_def)
  then have "split_on CHR '','' (join_with '','' (map spec_String specs)) = map spec_String specs"
    using False by (simp add: split_on_join_with)
  moreover have "List.map_filter parse_segment (map spec_String specs) = specs"
    using assms by (induction specs) (simp_all add: map_filter_simps parse_segment_String)
  ultimately show ?thesis by (simp add: ParseProviderChain_def)
qed

theorem provider_chain_roundtrip_witness:
  "ParseProviderChain ''anthropic:claude,ollama'' = [\<lparr>ps_Provider = ''anthropic'', ps_Model = ''claude''\<rparr>, \<lparr>ps_Provider = ''ollama'', ps_Model = []\<rparr>]"
proof -
  have "spec_ok \<lparr>ps_Provider = ''anthropic'', ps_Model = ''claude''\<rparr>" "spec_ok \<lparr>ps_Provider = ''ollama'', ps_Model = []\<rparr>" by code_simp+
  then show ?thesis
    using provider_chain_roundtrip [of "[\<lparr>ps_Provider = ''anthropic'', ps_Model = ''claude''\<rparr>, \<lparr>ps_Provider = ''ollama'', ps_Model = []\<rparr>]"]
    by (simp add: spec_String_def)
qed

end
