(* ===== verification/Go_Time.thy ===== *)
theory Go_Time
  imports Go_Strings
begin

text \<open>
  The parts of Go's package \<open>time\<close> that the services use on text: the civil calendar and \<open>time.Parse\<close>
  for the layouts \<open>2006-01-02\<close>, \<open>2006-01-02 15:04:05\<close> (with and without a fraction) and RFC 3339. An
  instant is the number of nanoseconds since 1970 in UTC.
\<close>

section \<open>Calendar\<close>

text \<open>The zero \<open>time.Time\<close>, the first of January of year 1.\<close>

definition zero_time :: int where "zero_time = - 62135596800 * 10 ^ 9"

definition leap :: "nat \<Rightarrow> bool" where
  "leap y \<longleftrightarrow> 4 dvd y \<and> (\<not> 100 dvd y \<or> 400 dvd y)"

definition days_in :: "nat \<Rightarrow> nat \<Rightarrow> nat" where
  "days_in y m = (if m = 2 then (if leap y then 29 else 28) else if m \<in> {4, 6, 9, 11} then 30 else 31)"

text \<open>Days from the first of January of year 0 (a leap year of the proleptic calendar).\<close>

definition days_before_year :: "nat \<Rightarrow> int" where
  "days_before_year y = 365 * int y + (int y + 3) div 4 - (int y + 99) div 100 + (int y + 399) div 400"

definition days_before_month :: "nat \<Rightarrow> nat \<Rightarrow> int" where
  "days_before_month y m = sum_list (map (\<lambda>k. int (days_in y k)) [1 ..< m])"

definition unix_day :: "nat \<Rightarrow> nat \<Rightarrow> nat \<Rightarrow> int" where
  "unix_day y m d = days_before_year y + days_before_month y m + int d - 1 - 719528"

lemma ceiling_step:
  fixes a k :: int
  assumes "0 < k"
  shows "(a + k) div k = (a + k - 1) div k + (if k dvd a then 1 else 0)"
proof (cases "k dvd a")
  case True
  then obtain q where "a = k * q" by (rule dvdE)
  moreover have "(k * q + (k - 1)) div k = q" using assms by simp
  moreover have "k * q + k - 1 = k * q + (k - 1)" by simp
  ultimately have "(a + k - 1) div k = q" by (simp only:)
  moreover have "(a + k) div k = q + 1" using assms \<open>a = k * q\<close> by simp
  ultimately show ?thesis using True by simp
next
  case False
  then have "a mod k \<noteq> 0" by (simp add: dvd_eq_mod_eq_0)
  then have r: "0 < a mod k" "a mod k < k" using assms pos_mod_bound [of k a] pos_mod_sign [of k a] by linarith+
  have "a + k - 1 = k * (a div k + 1) + (a mod k - 1)" by (simp add: algebra_simps)
  moreover have "(k * (a div k + 1) + (a mod k - 1)) div k = a div k + 1"
    using r by (subst div_mult_self4) (auto simp: div_pos_pos_trivial)
  ultimately have "(a + k - 1) div k = a div k + 1" by (simp only:)
  moreover have "(a + k) div k = a div k + 1" using assms div_mult_self1 [of k a 1] by simp
  ultimately show ?thesis using False by simp
qed

lemma days_before_year_Suc: "days_before_year (Suc y) = days_before_year y + (if leap y then 366 else 365)"
proof -
  have c4: "(int (Suc y) + 3) div 4 = (int y + 3) div 4 + (if 4 dvd y then 1 else 0)"
    using ceiling_step [of 4 "int y"] int_dvd_int_iff [of 4 y] by (simp add: add.commute)
  have c100: "(int (Suc y) + 99) div 100 = (int y + 99) div 100 + (if 100 dvd y then 1 else 0)"
    using ceiling_step [of 100 "int y"] int_dvd_int_iff [of 100 y] by (simp add: add.commute)
  have c400: "(int (Suc y) + 399) div 400 = (int y + 399) div 400 + (if 400 dvd y then 1 else 0)"
    using ceiling_step [of 400 "int y"] int_dvd_int_iff [of 400 y] by (simp add: add.commute)
  have t: "400 dvd y \<Longrightarrow> 100 dvd y" "100 dvd y \<Longrightarrow> 4 dvd y"
    using dvd_trans [of 100 400 y] dvd_trans [of 4 100 y] by simp_all
  show ?thesis unfolding days_before_year_def c4 c100 c400 leap_def
    by (cases "4 dvd y"; cases "100 dvd y"; cases "400 dvd y") (use t in simp_all)
qed

lemma days_in_year: "days_before_month y 13 = (if leap y then 366 else 365)"
  by (simp add: days_before_month_def days_in_def upt_rec)

section \<open>Parsing\<close>

definition is_digit :: "char \<Rightarrow> bool" where
  "is_digit c \<longleftrightarrow> char_digit c \<noteq> None"

text \<open>\<open>getnum\<close>: one or two digits, two when the field is fixed.\<close>

fun getnum :: "bool \<Rightarrow> string \<Rightarrow> (nat \<times> string) option" where
  "getnum fixed (a # b # s) = (case (char_digit a, char_digit b) of
     (Some x, Some y) \<Rightarrow> Some (10 * x + y, s)
   | (Some x, None) \<Rightarrow> if fixed then None else Some (x, b # s)
   | _ \<Rightarrow> None)"
| "getnum fixed [a] = (case char_digit a of None \<Rightarrow> None | Some x \<Rightarrow> if fixed then None else Some (x, []))"
| "getnum fixed [] = None"

fun skip_char :: "char \<Rightarrow> string \<Rightarrow> string option" where
  "skip_char c (a # s) = (if a = c then Some s else None)"
| "skip_char c [] = None"

text \<open>A number between two bounds, after a separator.\<close>

definition num_field :: "char \<Rightarrow> bool \<Rightarrow> nat \<Rightarrow> nat \<Rightarrow> string \<Rightarrow> (nat \<times> string) option" where
  "num_field c fixed lo hi s = Option.bind (skip_char c s) (\<lambda>s1. Option.bind (getnum fixed s1)
     (\<lambda>(n, s2). if lo \<le> n \<and> n \<le> hi then Some (n, s2) else None))"

definition parse_date :: "string \<Rightarrow> (int \<times> string) option" where
  "parse_date s = (if length s < 4 then None else Option.bind (parse_digits 0 (take 4 s))
     (\<lambda>y. Option.bind (num_field CHR ''-'' True 1 12 (drop 4 s))
       (\<lambda>(m, s1). Option.bind (num_field CHR ''-'' True 1 (days_in y m) s1) (\<lambda>(d, s2). Some (unix_day y m d, s2)))))"

definition parse_hms :: "char \<Rightarrow> string \<Rightarrow> (int \<times> string) option" where
  "parse_hms c s = Option.bind (num_field c False 0 23 s)
     (\<lambda>(h, s1). Option.bind (num_field CHR '':'' True 0 59 s1)
       (\<lambda>(m, s2). Option.bind (num_field CHR '':'' True 0 59 s2) (\<lambda>(x, s3). Some (int (3600 * h + 60 * m + x), s3))))"

text \<open>A fraction is read after a period or a comma; digits after the ninth are dropped.\<close>

definition nanoseconds :: "string \<Rightarrow> int" where
  "nanoseconds ds = (let d = take 9 ds in case parse_digits 0 d of None \<Rightarrow> 0 | Some n \<Rightarrow> int n * 10 ^ (9 - length d))"

definition fraction_any :: "string \<Rightarrow> int \<times> string" where
  "fraction_any s = (case s of
     c # d # t \<Rightarrow> if (c = CHR ''.'' \<or> c = CHR '','') \<and> is_digit d
       then (nanoseconds (takeWhile is_digit (d # t)), dropWhile is_digit (d # t)) else (0, s)
   | _ \<Rightarrow> (0, s))"

definition fraction_exact :: "nat \<Rightarrow> string \<Rightarrow> (int \<times> string) option" where
  "fraction_exact n s = (case s of
     c # t \<Rightarrow> if (c = CHR ''.'' \<or> c = CHR '','') \<and> n \<le> length t \<and> list_all is_digit (take n t)
       then Some (nanoseconds (take n t), drop n t) else None
   | [] \<Rightarrow> None)"

definition instant :: "int \<Rightarrow> int \<Rightarrow> int \<Rightarrow> int" where
  "instant day secs ns = (day * 86400 + secs) * 10 ^ 9 + ns"

text \<open>The layouts \<open>2006-01-02 15:04:05.000\<close> and \<open>2006-01-02 15:04:05\<close>.\<close>

definition parse_datetime_millis :: "string \<Rightarrow> int option" where
  "parse_datetime_millis s = Option.bind (parse_date s) (\<lambda>(day, s1). Option.bind (parse_hms CHR '' '' s1)
     (\<lambda>(secs, s2). Option.bind (fraction_exact 3 s2) (\<lambda>(ns, s3). if s3 = [] then Some (instant day secs ns) else None)))"

definition parse_datetime :: "string \<Rightarrow> int option" where
  "parse_datetime s = Option.bind (parse_date s) (\<lambda>(day, s1). Option.bind (parse_hms CHR '' '' s1)
     (\<lambda>(secs, s2). case fraction_any s2 of (ns, s3) \<Rightarrow> if s3 = [] then Some (instant day secs ns) else None))"

text \<open>RFC 3339, with \<open>Z\<close> or an offset in hours and minutes.\<close>

definition parse_offset :: "string \<Rightarrow> int option" where
  "parse_offset s = (case s of [] \<Rightarrow> None
   | c # t \<Rightarrow>
       if c = CHR ''Z'' then (if t = [] then Some 0 else None)
       else if c = CHR ''+'' \<or> c = CHR ''-'' then
         Option.bind (num_field c True 0 24 s) (\<lambda>(h, s1). Option.bind (num_field CHR '':'' True 0 60 s1)
           (\<lambda>(m, s2). if s2 = [] then Some ((if c = CHR ''-'' then - 1 else 1) * int (3600 * h + 60 * m)) else None))
       else None)"

definition parse_rfc3339 :: "string \<Rightarrow> int option" where
  "parse_rfc3339 s = Option.bind (parse_date s) (\<lambda>(day, s1). Option.bind (parse_hms CHR ''T'' s1)
     (\<lambda>(secs, s2). case fraction_any s2 of (ns, s3) \<Rightarrow> map_option (\<lambda>off. instant day (secs - off) ns) (parse_offset s3)))"

text \<open>A text that the layout with milliseconds accepts means the same in the layout without.\<close>

lemma digits_take_drop:
  "n \<le> length t \<Longrightarrow> list_all is_digit (take n t) \<Longrightarrow> drop n t = [] \<Longrightarrow> takeWhile is_digit t = take n t \<and> dropWhile is_digit t = []"
  by (auto simp: list_all_iff)

lemma fraction_exact_any: "fraction_exact n s = Some (ns, []) \<Longrightarrow> 0 < n \<Longrightarrow> fraction_any s = (ns, [])"
  using digits_take_drop [of n "tl s"]
  by (auto simp: fraction_exact_def fraction_any_def list_all_iff takeWhile_eq_all_conv [THEN iffD2] split: list.splits if_splits)

lemma parse_datetime_millis_sound: "parse_datetime_millis s = Some t \<Longrightarrow> parse_datetime s = Some t"
  using fraction_exact_any [of 3]
  by (fastforce simp: parse_datetime_millis_def parse_datetime_def Option.bind_eq_Some_conv split: if_splits)

lemma rfc3339_epoch: "parse_rfc3339 ''1970-01-01T00:00:00Z'' = Some 0"
  by (simp add: parse_rfc3339_def parse_date_def parse_hms_def num_field_def char_digit_def days_in_def leap_def unix_day_def
      days_before_year_def days_before_month_def fraction_any_def is_digit_def parse_offset_def instant_def)

lemma rfc3339_offset: "parse_rfc3339 ''2024-02-29T23:30:00.5+02:00'' = Some (1709242200 * 10 ^ 9 + 500000000)"
  by (simp add: parse_rfc3339_def parse_date_def parse_hms_def num_field_def char_digit_def days_in_def leap_def unix_day_def
      days_before_year_def days_before_month_def fraction_any_def is_digit_def parse_offset_def instant_def nanoseconds_def upt_rec)

lemma zero_time_date: "parse_rfc3339 ''0001-01-01T00:00:00Z'' = Some zero_time"
  by (simp add: parse_rfc3339_def parse_date_def parse_hms_def num_field_def char_digit_def days_in_def leap_def unix_day_def
      days_before_year_def days_before_month_def fraction_any_def is_digit_def parse_offset_def instant_def zero_time_def)

end
