(* ===== verification/Fallback.thy ===== *)
theory Fallback
  imports Causal Go_Time
begin

text \<open>
  The chain of analyzers, \<open>src/shared/causal/fallback.go\<close>: which providers are tried and in which
  order, the cooldown after a failure and its exponential growth, and the health report. A provider
  is an argument; its name, its remaining cooldown and its failures are the state. Times and
  durations are nanoseconds.
\<close>

section \<open>State\<close>

definition defaultCooldown :: int where "defaultCooldown = 30 * 10 ^ 9"
definition maxCooldownShift :: nat where "maxCooldownShift = 5"

record fallbackLink =
  fk_name :: string
  fk_downUntil :: int
  fk_failures :: nat

record FallbackAnalyzer =
  fa_links :: "fallbackLink list"
  fa_cooldown :: int

definition NewFallbackAnalyzer :: "string option list \<Rightarrow> FallbackAnalyzer option" where
  "NewFallbackAnalyzer analyzers = (let
     links = map (\<lambda>n. \<lparr>fk_name = n, fk_downUntil = zero_time, fk_failures = 0\<rparr>) (List.map_filter (\<lambda>a. a) analyzers)
   in if links = [] then None else Some \<lparr>fa_links = links, fa_cooldown = defaultCooldown\<rparr>)"

definition fallback_Name :: "FallbackAnalyzer \<Rightarrow> string" where
  "fallback_Name f = ''fallback['' @ join_with arrow (map fk_name (fa_links f)) @ '']''"

section \<open>Operations\<close>

text \<open>A candidate is the position of its link: the code passes pointers to the links.\<close>

definition candidates :: "int \<Rightarrow> FallbackAnalyzer \<Rightarrow> nat list" where
  "candidates now f = (let
     live = filter (\<lambda>i. \<not> now < fk_downUntil (fa_links f ! i)) [0..<length (fa_links f)]
   in if live = [] then [0..<length (fa_links f)] else live)"

definition recordSuccess :: "nat \<Rightarrow> FallbackAnalyzer \<Rightarrow> FallbackAnalyzer" where
  "recordSuccess i f = f\<lparr>fa_links := (fa_links f)[i := (fa_links f ! i)\<lparr>fk_failures := 0, fk_downUntil := zero_time\<rparr>]\<rparr>"

definition cooldown_after :: "int \<Rightarrow> nat \<Rightarrow> int" where
  "cooldown_after base failures = base * 2 ^ (min (failures - 1) maxCooldownShift)"

definition recordFailure :: "int \<Rightarrow> nat \<Rightarrow> FallbackAnalyzer \<Rightarrow> FallbackAnalyzer" where
  "recordFailure now i f = (let l = fa_links f ! i; n = fk_failures l + 1 in
     f\<lparr>fa_links := (fa_links f)[i := l\<lparr>fk_failures := n, fk_downUntil := now + cooldown_after (fa_cooldown f) n\<rparr>]\<rparr>)"

text \<open>What the surroundings do during one call: whether the context has ended before an attempt, the
  provider's answer, and the clock when a failure is recorded.\<close>

record fallback_env =
  fe_start :: int
  fe_ctxErr :: "nat \<Rightarrow> string option"
  fe_answer :: "nat \<Rightarrow> string + CausalAnalysis"
  fe_now :: "nat \<Rightarrow> int"

datatype link_error = LinkFailed string string
datatype fallback_error = ChainAborted "link_error list" string | AllFailed nat "link_error list"

fun analyze_loop ::
  "fallback_env \<Rightarrow> nat \<Rightarrow> nat list \<Rightarrow> link_error list \<Rightarrow> FallbackAnalyzer \<Rightarrow> (fallback_error + CausalAnalysis) \<times> FallbackAnalyzer"
where
  "analyze_loop E n [] errs f = (Inl (AllFailed n errs), f)"
| "analyze_loop E n (i # is) errs f =
     (case fe_ctxErr E i of
        Some err \<Rightarrow> (Inl (ChainAborted errs err), f)
      | None \<Rightarrow>
          (case fe_answer E i of
             Inr result \<Rightarrow> (Inr result, recordSuccess i f)
           | Inl err \<Rightarrow> analyze_loop E n is (errs @ [LinkFailed (fk_name (fa_links f ! i)) err]) (recordFailure (fe_now E i) i f)))"

definition fallback_Analyze :: "fallback_env \<Rightarrow> FallbackAnalyzer \<Rightarrow> (fallback_error + CausalAnalysis) \<times> FallbackAnalyzer" where
  "fallback_Analyze E f = (let cs = candidates (fe_start E) f in analyze_loop E (length cs) cs [] f)"

record ProviderHealth =
  ph_Name :: string
  ph_Healthy :: bool
  ph_Failures :: nat
  ph_CooldownRemaining :: "int option"

text \<open>\<open>Duration.Round(time.Second)\<close> of a positive duration.\<close>

definition round_second :: "int \<Rightarrow> int" where
  "round_second d = (d + 5 * 10 ^ 8) div 10 ^ 9 * 10 ^ 9"

definition Health :: "int \<Rightarrow> FallbackAnalyzer \<Rightarrow> ProviderHealth list" where
  "Health now f = map (\<lambda>l. \<lparr>ph_Name = fk_name l, ph_Healthy = (\<not> now < fk_downUntil l), ph_Failures = fk_failures l,
     ph_CooldownRemaining = (if now < fk_downUntil l then Some (round_second (fk_downUntil l - now)) else None)\<rparr>) (fa_links f)"

section \<open>The cooldown invariant\<close>

text \<open>At time \<open>now\<close>: a link that never failed since its last success is not held back, and a link with
  \<open>k\<close> consecutive failures is held back for at most the cooldown of \<open>k\<close> failures.\<close>

definition link_ok :: "int \<Rightarrow> int \<Rightarrow> fallbackLink \<Rightarrow> bool" where
  "link_ok base now l \<longleftrightarrow> (if fk_failures l = 0 then fk_downUntil l = zero_time
     else fk_downUntil l \<le> now + cooldown_after base (fk_failures l))"

definition fallback_ok :: "int \<Rightarrow> FallbackAnalyzer \<Rightarrow> bool" where
  "fallback_ok now f \<longleftrightarrow> fa_links f \<noteq> [] \<and> 0 \<le> fa_cooldown f \<and> (\<forall>l \<in> set (fa_links f). link_ok (fa_cooldown f) now l)"

inductive fallback_reach :: "int \<Rightarrow> FallbackAnalyzer \<Rightarrow> bool" where
  start: "NewFallbackAnalyzer analyzers = Some f \<Longrightarrow> zero_time \<le> now \<Longrightarrow> fallback_reach now f"
| analyze: "fallback_reach now f \<Longrightarrow> now \<le> fe_start E \<Longrightarrow> \<forall>i. fe_start E \<le> fe_now E i \<and> fe_now E i \<le> later \<Longrightarrow>
    fallback_Analyze E f = (r, f') \<Longrightarrow> fe_start E \<le> later \<Longrightarrow> fallback_reach later f'"

lemma cooldown_after_bound: "0 \<le> base \<Longrightarrow> cooldown_after base k \<le> base * 32"
proof -
  have "(2 :: int) ^ min (k - 1) maxCooldownShift \<le> 2 ^ 5" by (rule power_increasing) (simp_all add: maxCooldownShift_def)
  then show "0 \<le> base \<Longrightarrow> cooldown_after base k \<le> base * 32" by (simp add: cooldown_after_def mult_left_mono)
qed

lemma link_ok_later: "link_ok base now l \<Longrightarrow> now \<le> later \<Longrightarrow> link_ok base later l"
  by (auto simp: link_ok_def split: if_splits)

lemma fallback_ok_later: "fallback_ok now f \<Longrightarrow> now \<le> later \<Longrightarrow> fallback_ok later f"
  using link_ok_later by (auto simp: fallback_ok_def)

lemma recordSuccess_ok: "fallback_ok now f \<Longrightarrow> fallback_ok now (recordSuccess i f)"
  by (auto simp: fallback_ok_def recordSuccess_def link_ok_def dest!: set_update_subset_insert [THEN subsetD])

lemma recordFailure_ok:
  assumes "fallback_ok now f" "t \<le> now"
  shows "fallback_ok now (recordFailure t i f)"
  using assms by (auto simp: fallback_ok_def recordFailure_def link_ok_def Let_def dest!: set_update_subset_insert [THEN subsetD])

lemma analyze_loop_ok:
  "fallback_ok later f \<Longrightarrow> \<forall>i. fe_now E i \<le> later \<Longrightarrow> fallback_ok later (snd (analyze_loop E n is errs f))"
  by (induction E n "is" errs f rule: analyze_loop.induct)
    (auto simp: recordSuccess_ok recordFailure_ok split: option.splits sum.splits)

lemma NewFallbackAnalyzer_ok: "NewFallbackAnalyzer analyzers = Some f \<Longrightarrow> fallback_ok now f"
  by (auto simp: NewFallbackAnalyzer_def fallback_ok_def link_ok_def defaultCooldown_def Let_def split: if_splits)

lemma recordFailure_cooldown [simp]: "fa_cooldown (recordFailure t i f) = fa_cooldown f"
  by (simp add: recordFailure_def Let_def)

lemma recordSuccess_cooldown [simp]: "fa_cooldown (recordSuccess i f) = fa_cooldown f"
  by (simp add: recordSuccess_def)

lemma analyze_loop_cooldown: "fa_cooldown (snd (analyze_loop E n is errs f)) = fa_cooldown f"
  by (induction E n "is" errs f rule: analyze_loop.induct) (auto split: option.splits sum.splits)

lemma fallback_reach_ok: "fallback_reach now f \<Longrightarrow> fallback_ok now f \<and> zero_time \<le> now \<and> fa_cooldown f = defaultCooldown"
proof (induction rule: fallback_reach.induct)
  case (start analyzers f now)
  then show ?case using NewFallbackAnalyzer_ok by (auto simp: NewFallbackAnalyzer_def Let_def split: if_splits)
next
  case (analyze now f E later r f')
  have "fallback_ok later f" using analyze fallback_ok_later by (meson order_trans)
  then have "fallback_ok later (snd (fallback_Analyze E f))"
    using analyze.hyps(3) unfolding fallback_Analyze_def Let_def by (intro analyze_loop_ok) auto
  moreover have "fa_cooldown f' = fa_cooldown f"
    using analyze.hyps analyze_loop_cooldown by (metis fallback_Analyze_def snd_conv)
  ultimately show ?case using analyze by auto
qed

lemma candidates_nonempty: "fa_links f \<noteq> [] \<Longrightarrow> candidates now f \<noteq> []"
  by (simp add: candidates_def Let_def)

lemma candidates_sub: "set (candidates now f) \<subseteq> {..<length (fa_links f)}"
  by (auto simp: candidates_def Let_def)

lemma analyze_loop_first:
  assumes "\<forall>j \<in> set (takeWhile (\<lambda>j. j \<noteq> i) is). fe_answer E j \<in> range Inl" "i \<in> set is" "\<forall>j. fe_ctxErr E j = None" "fe_answer E i = Inr r"
  shows "\<exists>f'. analyze_loop E n is errs f = (Inr r, recordSuccess i f')"
  using assms
proof (induction "is" arbitrary: errs f)
  case (Cons j "is")
  show ?case
  proof (cases "j = i")
    case True
    then show ?thesis using Cons.prems by auto
  next
    case False
    then obtain err where "fe_answer E j = Inl err" using Cons.prems(1) by auto
    then show ?thesis using Cons False by auto
  qed
qed simp

section \<open>Properties\<close>

text \<open>No provider is held back for more than sixteen minutes. In every state the analyzer can reach,
  at a clock that never runs backwards, a provider that has recovered is not held back, a provider
  in cooldown is tried again at the latest 16 minutes later, and an analysis always has at least one
  provider to try.\<close>

theorem provider_held_back_at_most_16_minutes:
  assumes "fallback_reach now f" "l \<in> set (fa_links f)"
  shows "fk_downUntil l \<le> now + 16 * 60 * 10 ^ 9 \<and> (fk_failures l = 0 \<longrightarrow> \<not> now < fk_downUntil l) \<and>
    (\<forall>later. candidates later f \<noteq> [])"
proof -
  have ok: "fallback_ok now f" "zero_time \<le> now" "fa_cooldown f = defaultCooldown" using fallback_reach_ok [OF assms(1)] by auto
  then have l: "link_ok defaultCooldown now l" using assms(2) by (auto simp: fallback_ok_def)
  have "cooldown_after defaultCooldown (fk_failures l) \<le> 16 * 60 * 10 ^ 9"
    using cooldown_after_bound [of defaultCooldown "fk_failures l"] by (simp add: defaultCooldown_def)
  then have "fk_downUntil l \<le> now + 16 * 60 * 10 ^ 9" using l ok(2) by (auto simp: link_ok_def split: if_splits)
  moreover have "fk_failures l = 0 \<longrightarrow> \<not> now < fk_downUntil l" using l ok(2) by (simp add: link_ok_def)
  moreover have "candidates later f \<noteq> []" for later using assms(2) by (intro candidates_nonempty) auto
  ultimately show ?thesis by blast
qed

theorem provider_held_back_at_most_16_minutes_witness:
  "\<exists>f. NewFallbackAnalyzer [Some ''claude'', None, Some ''gpt''] = Some f \<and> (\<forall>l \<in> set (fa_links f). fk_downUntil l \<le> 0 + 16 * 60 * 10 ^ 9)"
proof -
  obtain f where f: "NewFallbackAnalyzer [Some ''claude'', None, Some ''gpt''] = Some f"
    by (simp add: NewFallbackAnalyzer_def Let_def map_filter_simps)
  have "fallback_reach 0 f" by (rule fallback_reach.start [OF f]) (simp add: zero_time_def)
  from provider_held_back_at_most_16_minutes [OF this] f show ?thesis by blast
qed

text \<open>The first provider that answers, answers. If the context stays alive and some candidate
  provider succeeds, the analysis is the answer of the first succeeding candidate in priority order,
  that provider is marked healthy, and only when every candidate fails does the call fail.\<close>

theorem first_healthy_provider_answers:
  assumes "\<forall>j. fe_ctxErr E j = None" "i \<in> set (candidates (fe_start E) f)" "fe_answer E i = Inr r"
    and "\<forall>j \<in> set (takeWhile (\<lambda>j. j \<noteq> i) (candidates (fe_start E) f)). fe_answer E j \<in> range Inl"
  shows "\<exists>f'. fallback_Analyze E f = (Inr r, recordSuccess i f')"
  using analyze_loop_first [OF assms(4,2,1,3)] by (simp add: fallback_Analyze_def Let_def)

definition two_providers :: FallbackAnalyzer where
  "two_providers = \<lparr>fa_links = [\<lparr>fk_name = ''claude'', fk_downUntil = zero_time, fk_failures = 0\<rparr>,
     \<lparr>fk_name = ''gpt'', fk_downUntil = zero_time, fk_failures = 0\<rparr>], fa_cooldown = defaultCooldown\<rparr>"

theorem first_healthy_provider_answers_witness:
  "\<exists>f'. fallback_Analyze \<lparr>fe_start = 0, fe_ctxErr = \<lambda>_. None, fe_answer = (\<lambda>i. if i = 0 then Inl ''429'' else Inr sample_answer), fe_now = \<lambda>_. 0\<rparr>
     two_providers = (Inr sample_answer, recordSuccess 1 f')"
proof -
  have "candidates 0 two_providers = [0, 1]" by (simp add: candidates_def two_providers_def zero_time_def Let_def upt_rec)
  then show ?thesis by (intro first_healthy_provider_answers) simp_all
qed

end
