(* ===== verification/Playbooks.thy ===== *)
theory Playbooks
  imports Remediation Causal Fallback
begin

text \<open>
  The path of a recovery playbook from proposal to the commands that run. The control plane is
  \<open>automation_router.go\<close> and \<open>playbook_handler.go\<close> of \<open>src/correlation-service\<close>; the agent is the
  signed endpoint of \<open>src/topology-service/internal/handler/api.go\<close>. The incident table is a list
  of rows, the requests put on the wire and the commands run are logs. HMAC-SHA256, the text of
  errors and of \<open>%q\<close>, and the outcome of commands are arguments. A time on the wire is the instant
  its RFC 3339 text denotes, \<open>None\<close> when the text does not parse.
\<close>

section \<open>Statuses and signatures\<close>

definition PlaybookSuggested :: string where "PlaybookSuggested = ''SUGGESTED''"
definition PlaybookSuppressed :: string where "PlaybookSuppressed = ''SUPPRESSED''"
definition PlaybookDryRun :: string where "PlaybookDryRun = ''DRY_RUN''"
definition PlaybookPendingApproval :: string where "PlaybookPendingApproval = ''PENDING_APPROVAL''"
definition PlaybookRejected :: string where "PlaybookRejected = ''REJECTED''"
definition PlaybookExecuting :: string where "PlaybookExecuting = ''EXECUTING''"
definition PlaybookExecuted :: string where "PlaybookExecuted = ''EXECUTED''"
definition PlaybookFailed :: string where "PlaybookFailed = ''FAILED''"

lemmas status_defs = PlaybookSuggested_def PlaybookSuppressed_def PlaybookDryRun_def PlaybookPendingApproval_def
  PlaybookRejected_def PlaybookExecuting_def PlaybookExecuted_def PlaybookFailed_def

record SignedPlaybookRequest =
  sr_IncidentID :: string
  sr_PlaybookName :: string
  sr_ServiceName :: string
  sr_Timestamp :: "int option"
  sr_DryRun :: bool
  sr_Signature :: string

definition second :: int where "second = 10 ^ 9"

definition unix :: "int \<Rightarrow> int" where "unix t = t div second"

definition sign_payload :: "string \<Rightarrow> string \<Rightarrow> string \<Rightarrow> int \<Rightarrow> bool \<Rightarrow> string" where
  "sign_payload incidentID playbookName svc ts dryRun =
     incidentID @ '':'' @ playbookName @ '':'' @ svc @ '':'' @ format_int (unix ts) @ '':dry_run='' @ (if dryRun then ''true'' else ''false'')"

definition hex_digit :: "nat \<Rightarrow> char" where
  "hex_digit n = (if n < 10 then char_of (48 + n) else char_of (87 + n))"

definition hex_encode :: "bytes \<Rightarrow> string" where
  "hex_encode bs = concat (map (\<lambda>b. [hex_digit (unat b div 16), hex_digit (unat b mod 16)]) bs)"

definition hex_value :: "char \<Rightarrow> nat option" where
  "hex_value c = (let k = (of_char c :: nat) in
     if 48 \<le> k \<and> k \<le> 57 then Some (k - 48)
     else if 97 \<le> k \<and> k \<le> 102 then Some (k - 87)
     else if 65 \<le> k \<and> k \<le> 70 then Some (k - 55) else None)"

text \<open>\<open>hex.DecodeString\<close> with its error ignored: the bytes before the first pair that is not hexadecimal.\<close>

fun hex_decode :: "string \<Rightarrow> bytes" where
  "hex_decode (a # b # rest) =
     (case (hex_value a, hex_value b) of
        (Some x, Some y) \<Rightarrow> word_of_nat (16 * x + y) # hex_decode rest
      | _ \<Rightarrow> [])"
| "hex_decode _ = []"

section \<open>automation_router.go\<close>

record AutomationRouter =
  ar_policy :: RemPolicy
  ar_sharedSecret :: string

definition NewAutomationRouterWithPolicy :: "string \<Rightarrow> RemPolicy \<Rightarrow> AutomationRouter" where
  "NewAutomationRouterWithPolicy secret policy = \<lparr>ar_policy = policy,
     ar_sharedSecret = (if secret = [] then ''pulsetrace_secure_playbook_hmac_secret'' else secret)\<rparr>"

definition NewAutomationRouter :: "string \<Rightarrow> AutomationRouter" where
  "NewAutomationRouter secret = NewAutomationRouterWithPolicy secret DefaultPolicy"

type_synonym hmac = "string \<Rightarrow> string \<Rightarrow> bytes"

definition Sign :: "hmac \<Rightarrow> string \<Rightarrow> string \<Rightarrow> string \<Rightarrow> string \<Rightarrow> int \<Rightarrow> bool \<Rightarrow> string" where
  "Sign H secret incidentID playbookName svc ts dryRun = hex_encode (H secret (sign_payload incidentID playbookName svc ts dryRun))"

datatype agent_result =
    MarshalError string | RequestError string | ConnectionError string
  | StatusCode int | BadBody string | AgentReply string string bool

record router_env =
  pe_hmac :: hmac
  pe_now :: int
  pe_ts :: int
  pe_updateFails :: "string \<Rightarrow> bool"
  pe_queryFails :: bool
  pe_agent :: "SignedPlaybookRequest \<Rightarrow> agent_result"

record incident_store =
  st_incidents :: "Incident list"
  st_sent :: "SignedPlaybookRequest list"

text \<open>JSON has no NaN and no infinities: marshalling an analysis that holds one fails.\<close>

definition encodable :: "CausalAnalysis \<Rightarrow> bool" where
  "encodable c \<longleftrightarrow> (case ca_Confidence c of Fl x \<Rightarrow> True | _ \<Rightarrow> False) \<and>
     (case ca_Grounding c of None \<Rightarrow> True | Some g \<Rightarrow> (case gr_ConfidencePenalty g of Fl x \<Rightarrow> True | _ \<Rightarrow> False))"

definition UpdateCausalAnalysis :: "int \<Rightarrow> string \<Rightarrow> CausalAnalysis \<Rightarrow> incident_store \<Rightarrow> incident_store" where
  "UpdateCausalAnalysis now incidentID c st = (if \<not> encodable c then st else
     st\<lparr>st_incidents := map (\<lambda>i. if inc_ID i = incidentID then i\<lparr>inc_Causal := Some c, inc_UpdatedAt := now\<rparr> else i) (st_incidents st)\<rparr>)"

definition with_playbook :: "(PlaybookAction \<Rightarrow> PlaybookAction) \<Rightarrow> CausalAnalysis \<Rightarrow> CausalAnalysis" where
  "with_playbook f c = c\<lparr>ca_Playbook := map_option f (ca_Playbook c)\<rparr>"

definition persist :: "router_env \<Rightarrow> string \<Rightarrow> CausalAnalysis \<Rightarrow> string \<Rightarrow> incident_store \<Rightarrow> CausalAnalysis \<times> incident_store" where
  "persist E incidentID causal status st = (let c = with_playbook (pb_Status_update (\<lambda>_. status)) causal in
     (c, if pe_updateFails E status then st else UpdateCausalAnalysis (pe_now E) incidentID c st))"

definition updateStatus ::
  "router_env \<Rightarrow> string \<Rightarrow> CausalAnalysis \<Rightarrow> string \<Rightarrow> string \<Rightarrow> incident_store \<Rightarrow> CausalAnalysis \<times> incident_store"
where
  "updateStatus E incidentID causal status output st =
     persist E incidentID (with_playbook (pb_Output_update (\<lambda>_. output)) causal) status st"

definition request_for :: "router_env \<Rightarrow> AutomationRouter \<Rightarrow> string \<Rightarrow> string \<Rightarrow> string \<Rightarrow> bool \<Rightarrow> SignedPlaybookRequest" where
  "request_for E r incidentID name targetService dryRun =
     \<lparr>sr_IncidentID = incidentID, sr_PlaybookName = name, sr_ServiceName = targetService,
      sr_Timestamp = Some (pe_ts E div second * second), sr_DryRun = dryRun,
      sr_Signature = Sign (pe_hmac E) (ar_sharedSecret r) incidentID name targetService (pe_ts E) dryRun\<rparr>"

definition dispatch ::
  "router_env \<Rightarrow> AutomationRouter \<Rightarrow> string \<Rightarrow> CausalAnalysis \<Rightarrow> PlaybookAction \<Rightarrow> string \<Rightarrow> bool \<Rightarrow> incident_store \<Rightarrow>
   CausalAnalysis \<times> incident_store"
where
  "dispatch E r incidentID causal playbook targetService dryRun st = (let
     req = request_for E r incidentID (pb_Name playbook) targetService dryRun;
     sent = st\<lparr>st_sent := st_sent st @ [req]\<rparr>;
     fail = (\<lambda>output s. updateStatus E incidentID causal PlaybookFailed output s)
   in case pe_agent E req of
        MarshalError err \<Rightarrow> fail (''Failed to marshal request payload: '' @ err) st
      | RequestError err \<Rightarrow> fail (''Failed to create HTTP request: '' @ err) st
      | ConnectionError err \<Rightarrow> fail (''Secure agent connection failed: '' @ err) sent
      | StatusCode code \<Rightarrow> fail (''Secure agent returned status '' @ format_int code) sent
      | BadBody err \<Rightarrow> fail (''Failed to decode agent response: '' @ err) sent
      | AgentReply status output dry \<Rightarrow>
          updateStatus E incidentID (with_playbook (pb_DryRun_update (\<lambda>_. dry)) causal) status output sent)"

definition Route ::
  "router_env \<Rightarrow> AutomationRouter \<Rightarrow> string \<Rightarrow> CausalAnalysis option \<Rightarrow> string \<Rightarrow> incident_store \<Rightarrow> incident_store"
where
  "Route E r incidentID causal targetService st = (case causal of None \<Rightarrow> st | Some c \<Rightarrow>
     (case ca_Playbook c of None \<Rightarrow> st | Some playbook \<Rightarrow>
       (case Decide (ar_policy r) (ca_Confidence c) of
          DecisionSuppressed \<Rightarrow> snd (persist E incidentID c PlaybookSuppressed st)
        | DecisionSuggested \<Rightarrow> snd (persist E incidentID c PlaybookSuggested st)
        | DecisionPendingApproval \<Rightarrow> snd (persist E incidentID c PlaybookPendingApproval st)
        | DecisionDryRun \<Rightarrow>
            (let (c1, st1) = persist E incidentID (with_playbook (pb_DryRun_update (\<lambda>_. True)) c) PlaybookExecuting st
             in snd (dispatch E r incidentID c1 playbook targetService True st1))
        | DecisionExecute \<Rightarrow>
            (let (c1, st1) = persist E incidentID (with_playbook (pb_DryRun_update (\<lambda>_. False)) c) PlaybookExecuting st
             in snd (dispatch E r incidentID c1 playbook targetService False st1)))))"

datatype router_error = ErrNotAwaitingApproval "string option" | PolicyForbids string

definition router_Approve ::
  "router_env \<Rightarrow> AutomationRouter \<Rightarrow> string \<Rightarrow> CausalAnalysis option \<Rightarrow> string \<Rightarrow> string \<Rightarrow> incident_store \<Rightarrow>
   router_error option \<times> incident_store"
where
  "router_Approve E r incidentID causal targetService approvedBy st = (case causal of
     None \<Rightarrow> (Some (ErrNotAwaitingApproval None), st)
   | Some c \<Rightarrow> (case ca_Playbook c of
       None \<Rightarrow> (Some (ErrNotAwaitingApproval None), st)
     | Some playbook \<Rightarrow>
         if pb_Status playbook \<noteq> PlaybookPendingApproval then (Some (ErrNotAwaitingApproval (Some (pb_Status playbook))), st)
         else if \<not> AllowsExecution (ar_policy r) then (Some (PolicyForbids (pol_Mode (ar_policy r))), st)
         else (let
           c1 = with_playbook (\<lambda>p. p\<lparr>pb_ApprovedBy := approvedBy, pb_ApprovedAt := Some (pe_now E), pb_DryRun := False\<rparr>) c;
           (c2, st2) = persist E incidentID c1 PlaybookExecuting st;
           (c3, st3) = dispatch E r incidentID c2 playbook targetService False st2
         in (None, st3))))"

definition router_Reject ::
  "router_env \<Rightarrow> AutomationRouter \<Rightarrow> string \<Rightarrow> CausalAnalysis option \<Rightarrow> string \<Rightarrow> string \<Rightarrow> incident_store \<Rightarrow>
   router_error option \<times> incident_store"
where
  "router_Reject E r incidentID causal rejectedBy reason st = (case causal of
     None \<Rightarrow> (Some (ErrNotAwaitingApproval None), st)
   | Some c \<Rightarrow> (case ca_Playbook c of
       None \<Rightarrow> (Some (ErrNotAwaitingApproval None), st)
     | Some playbook \<Rightarrow>
         if pb_Status playbook \<noteq> PlaybookPendingApproval then (Some (ErrNotAwaitingApproval (Some (pb_Status playbook))), st)
         else (let
           c1 = with_playbook (\<lambda>p. p\<lparr>pb_RejectedBy := rejectedBy, pb_RejectedAt := Some (pe_now E),
                  pb_Output := (if reason \<noteq> [] then ''Rejected: '' @ reason else pb_Output p)\<rparr>) c
         in (None, snd (persist E incidentID c1 PlaybookRejected st)))))"

definition router_DryRun ::
  "router_env \<Rightarrow> AutomationRouter \<Rightarrow> string \<Rightarrow> CausalAnalysis option \<Rightarrow> string \<Rightarrow> incident_store \<Rightarrow> router_error option \<times> incident_store"
where
  "router_DryRun E r incidentID causal targetService st = (case causal of
     None \<Rightarrow> (Some (ErrNotAwaitingApproval None), st)
   | Some c \<Rightarrow> (case ca_Playbook c of
       None \<Rightarrow> (Some (ErrNotAwaitingApproval None), st)
     | Some playbook \<Rightarrow>
         (None, snd (dispatch E r incidentID (with_playbook (pb_DryRun_update (\<lambda>_. True)) c) playbook targetService True st))))"

section \<open>playbook_handler.go\<close>

record decision_request =
  dr_tenant :: string
  dr_user :: string
  dr_role :: string
  dr_id :: string
  dr_reason :: string

record PlaybookHandler =
  ph_router :: AutomationRouter
  ph_authz :: ApproverAuthorizer

definition GetByIDForTenant :: "router_env \<Rightarrow> string \<Rightarrow> string \<Rightarrow> incident_store \<Rightarrow> Incident option" where
  "GetByIDForTenant E tenantID incID st = (if pe_queryFails E then None else
     find (\<lambda>i. inc_ID i = incID \<and> inc_TenantID i = tenantID) (st_incidents st))"

definition loadPendingIncident :: "router_env \<Rightarrow> decision_request \<Rightarrow> incident_store \<Rightarrow> int + Incident" where
  "loadPendingIncident E q st =
     (if dr_tenant q = [] then Inl 401 else
      case GetByIDForTenant E (dr_tenant q) (dr_id q) st of
        None \<Rightarrow> Inl 404
      | Some inc \<Rightarrow> (case inc_Causal inc of None \<Rightarrow> Inl 404 | Some c \<Rightarrow>
          (case ca_Playbook c of None \<Rightarrow> Inl 404 | Some p \<Rightarrow> Inr inc)))"

definition primaryService :: "Incident \<Rightarrow> string" where
  "primaryService inc = (let first = (case inc_ServiceNames inc of [] \<Rightarrow> [] | s # _ \<Rightarrow> s) in
     case inc_Causal inc of
       Some c \<Rightarrow> (case ca_Chain c of l # _ \<Rightarrow> if cl_FromService l \<noteq> [] then cl_FromService l else first | [] \<Rightarrow> first)
     | None \<Rightarrow> first)"

definition writeDecisionError :: "router_error \<Rightarrow> int" where
  "writeDecisionError err = (case err of ErrNotAwaitingApproval _ \<Rightarrow> 409 | PolicyForbids _ \<Rightarrow> 403)"

text \<open>The approval after the incident has been loaded, so that two approvals can interleave.\<close>

definition approve_loaded ::
  "router_env \<Rightarrow> PlaybookHandler \<Rightarrow> decision_request \<Rightarrow> Incident \<Rightarrow> incident_store \<Rightarrow> int \<times> incident_store"
where
  "approve_loaded E h q inc st =
     (if dr_user q = [] then (401, st) else
      case inc_Causal inc of None \<Rightarrow> (404, st) | Some c \<Rightarrow>
      (case ca_Playbook c of None \<Rightarrow> (404, st) | Some pb \<Rightarrow>
        if \<not> fst (CanApprove (ph_authz h) (dr_role q) (ClassifyRisk (pb_Name pb) (pb_Description pb))) then (403, st)
        else (case router_Approve E (ph_router h) (inc_ID inc) (inc_Causal inc) (primaryService inc) (dr_user q) st of
                (Some err, st') \<Rightarrow> (writeDecisionError err, st')
              | (None, st') \<Rightarrow> (200, st'))))"

definition handler_Approve :: "router_env \<Rightarrow> PlaybookHandler \<Rightarrow> decision_request \<Rightarrow> incident_store \<Rightarrow> int \<times> incident_store" where
  "handler_Approve E h q st = (case loadPendingIncident E q st of Inl code \<Rightarrow> (code, st) | Inr inc \<Rightarrow> approve_loaded E h q inc st)"

definition handler_Reject :: "router_env \<Rightarrow> PlaybookHandler \<Rightarrow> decision_request \<Rightarrow> incident_store \<Rightarrow> int \<times> incident_store" where
  "handler_Reject E h q st = (case loadPendingIncident E q st of Inl code \<Rightarrow> (code, st) | Inr inc \<Rightarrow>
     if dr_user q = [] then (401, st) else
     (case router_Reject E (ph_router h) (inc_ID inc) (inc_Causal inc) (dr_user q) (dr_reason q) st of
        (Some err, st') \<Rightarrow> (writeDecisionError err, st')
      | (None, st') \<Rightarrow> (200, st')))"

definition handler_DryRun :: "router_env \<Rightarrow> PlaybookHandler \<Rightarrow> decision_request \<Rightarrow> incident_store \<Rightarrow> int \<times> incident_store" where
  "handler_DryRun E h q st = (case loadPendingIncident E q st of Inl code \<Rightarrow> (code, st) | Inr inc \<Rightarrow>
     (case router_DryRun E (ph_router h) (inc_ID inc) (inc_Causal inc) (primaryService inc) st of
        (Some err, st') \<Rightarrow> (writeDecisionError err, st')
      | (None, st') \<Rightarrow> (200, st')))"

section \<open>The agent: api.go of the topology service\<close>

record API =
  ap_policy :: RemPolicy
  ap_sharedSecret :: string

definition NewAPIWithPolicy :: "string \<Rightarrow> RemPolicy \<Rightarrow> API" where
  "NewAPIWithPolicy secret policy = \<lparr>ap_policy = policy,
     ap_sharedSecret = (if secret = [] then ''pulsetrace_secure_playbook_hmac_secret'' else secret)\<rparr>"

definition NewAPI :: "(string \<Rightarrow> float64 option) \<Rightarrow> string \<Rightarrow> string \<Rightarrow> string \<Rightarrow> API" where
  "NewAPI parseFloat modeEnv thresholdEnv secret = NewAPIWithPolicy secret (fst (PolicyFromEnv parseFloat modeEnv thresholdEnv))"

datatype agent_effect = TerminateIdleBackends | RunCommand "string list"

record agent_env =
  ae_hmac :: hmac
  ae_now :: int
  ae_cmd :: "string list \<Rightarrow> string \<times> string option"
  ae_pool :: "string option"
  ae_exec :: "string + int"
  ae_quote :: "string \<Rightarrow> string"

definition newline :: string where "newline = [CHR 0x0A]"
definition emdash :: string where "emdash = map char_of [226 :: nat, 128, 148]"

definition render :: "string \<Rightarrow> string list \<Rightarrow> string \<Rightarrow> string" where
  "render summary steps svc = ''DRY RUN '' @ emdash @ '' nothing was changed on '' @ svc @ ''.'' @ newline @ summary @
     concat (map (\<lambda>s. newline @ ''  would run: '' @ s) steps)"

definition recycle_sql :: string where
  "recycle_sql = ''SELECT pg_terminate_backend(pid) FROM pg_stat_activity WHERE state = '' @ [CHR 0x27] @ ''idle in transaction'' @
     [CHR 0x27] @ '' AND state_change < NOW() - INTERVAL '' @ [CHR 0x27] @ ''1 minute'' @ [CHR 0x27]"

definition run_recycle :: "agent_env \<Rightarrow> string \<Rightarrow> bool \<Rightarrow> string \<times> string \<times> agent_effect list" where
  "run_recycle E svc dryRun =
     (if dryRun then (PlaybookDryRun,
        render ''Would terminate Postgres backends idle in transaction for over a minute.'' [''SQL: '' @ recycle_sql] svc, [])
      else case ae_pool E of
        Some err \<Rightarrow> (PlaybookFailed, ''Failed to connect to database for recycling connection pool: '' @ err, [])
      | None \<Rightarrow> (case ae_exec E of
          Inl err \<Rightarrow> (PlaybookFailed, ''Recycle DB pool failed: '' @ err, [TerminateIdleBackends])
        | Inr n \<Rightarrow> (PlaybookExecuted,
            ''Successfully recycled database connection pool. Terminated connections: '' @ format_int n @ ''.'', [TerminateIdleBackends])))"

definition run_restart :: "agent_env \<Rightarrow> string \<Rightarrow> bool \<Rightarrow> string \<times> string \<times> agent_effect list" where
  "run_restart E svc dryRun = (let
     kubectl = [''kubectl'', ''rollout'', ''restart'', ''deployment/'' @ svc];
     docker = [''docker'', ''restart'', ''pulsetrace-'' @ svc]
   in if dryRun then (PlaybookDryRun,
        render (''Would perform a rolling restart of '' @ svc @ '', falling back to Docker if Kubernetes is unavailable.'')
          [''kubectl rollout restart deployment/'' @ svc, ''docker restart pulsetrace-'' @ svc @ ''   (only if the kubectl step fails)''] svc, [])
      else case ae_cmd E kubectl of
        (kOut, None) \<Rightarrow> (PlaybookExecuted,
          ''Successfully executed rolling restart on Kubernetes for deployment/'' @ svc @ ''. Output: '' @ kOut, [RunCommand kubectl])
      | (kOut, Some kErr) \<Rightarrow> (case ae_cmd E docker of
          (dOut, Some dErr) \<Rightarrow> (PlaybookFailed,
            ''Failed to restart service '' @ ae_quote E svc @ ''. Kubectl error: '' @ kErr @ '' (output: '' @ ae_quote E kOut @
            ''). Docker error: '' @ dErr @ '' (output: '' @ ae_quote E dOut @ '').'', [RunCommand kubectl, RunCommand docker])
        | (dOut, None) \<Rightarrow> (PlaybookExecuted,
            ''Successfully restarted container pulsetrace-'' @ svc @ '' using Docker. Output: '' @ dOut, [RunCommand kubectl, RunCommand docker])))"

definition run_scale :: "agent_env \<Rightarrow> string \<Rightarrow> bool \<Rightarrow> string \<times> string \<times> agent_effect list" where
  "run_scale E svc dryRun = (let kubectl = [''kubectl'', ''scale'', ''deployment/'' @ svc, ''--replicas=4''] in
     if dryRun then (PlaybookDryRun, render (''Would scale '' @ svc @ '' to 4 replicas.'')
        [''kubectl scale deployment/'' @ svc @ '' --replicas=4''] svc, [])
     else case ae_cmd E kubectl of
       (kOut, Some kErr) \<Rightarrow> (PlaybookFailed,
         ''Failed to scale deployment/'' @ svc @ ''. Kubectl error: '' @ kErr @ '' (output: '' @ ae_quote E kOut @ '').'', [RunCommand kubectl])
     | (kOut, None) \<Rightarrow> (PlaybookExecuted,
         ''Successfully scaled deployment/'' @ svc @ '' to 4 replicas. Output: '' @ kOut, [RunCommand kubectl]))"

definition runPlaybook :: "agent_env \<Rightarrow> SignedPlaybookRequest \<Rightarrow> bool \<Rightarrow> string \<times> string \<times> agent_effect list" where
  "runPlaybook E req dryRun =
     (if sr_PlaybookName req = ''recycle_db_pool'' then run_recycle E (sr_ServiceName req) dryRun
      else if sr_PlaybookName req = ''restart_service'' then run_restart E (sr_ServiceName req) dryRun
      else if sr_PlaybookName req = ''scale_replicas'' then run_scale E (sr_ServiceName req) dryRun
      else (PlaybookFailed, ''Unknown playbook '' @ ae_quote E (sr_PlaybookName req) @ '' '' @ emdash @
        '' no handler registered for service '' @ ae_quote E (sr_ServiceName req) @ ''.'', []))"

text \<open>The answer of the endpoint: the HTTP status and, for 200, the reply; and what it ran. The body is
  \<open>None\<close> when it is not the JSON of a request.\<close>

definition handleExecutePlaybook ::
  "agent_env \<Rightarrow> API \<Rightarrow> SignedPlaybookRequest option \<Rightarrow> (int \<times> (string \<times> string \<times> bool) option) \<times> agent_effect list"
where
  "handleExecutePlaybook E a body = (case body of None \<Rightarrow> ((400, None), []) | Some req \<Rightarrow>
     (case sr_Timestamp req of None \<Rightarrow> ((400, None), []) | Some ts \<Rightarrow>
       if \<bar>ae_now E - ts\<bar> > 5 * 60 * second then ((401, None), [])
       else if hex_decode (sr_Signature req) \<noteq>
           hex_decode (hex_encode (ae_hmac E (ap_sharedSecret a)
             (sign_payload (sr_IncidentID req) (sr_PlaybookName req) (sr_ServiceName req) ts (sr_DryRun req)))) then ((401, None), [])
       else (let
         dryRun = (sr_DryRun req \<or> \<not> AllowsExecution (ap_policy a));
         (status, output, effects) = runPlaybook E req dryRun
       in ((200, Some (status, output, dryRun)), effects))))"

text \<open>The agent as the router sees it over a working connection.\<close>

definition agent_over :: "agent_env \<Rightarrow> API \<Rightarrow> SignedPlaybookRequest \<Rightarrow> agent_result" where
  "agent_over E a req = (case fst (handleExecutePlaybook E a (Some req)) of
     (code, Some (status, output, dry)) \<Rightarrow> AgentReply status output dry
   | (code, None) \<Rightarrow> StatusCode code)"

section \<open>Signatures\<close>

lemma hex_value_digit: "n < 16 \<Longrightarrow> hex_value (hex_digit n) = Some n"
  by (simp add: hex_value_def hex_digit_def Let_def of_char_of)

lemma hex_decode_encode [simp]: "hex_decode (hex_encode bs) = bs"
proof (induction bs)
  case (Cons b bs)
  have lt: "unat b < 256" using unsigned_less [of b] by simp
  then have "hex_value (hex_digit (unat b div 16)) = Some (unat b div 16)" "hex_value (hex_digit (unat b mod 16)) = Some (unat b mod 16)"
    by (simp_all add: hex_value_digit)
  moreover have "word_of_nat (16 * (unat b div 16) + unat b mod 16) = b" by simp
  ultimately show ?case using Cons by (simp add: hex_encode_def)
qed (simp add: hex_encode_def)

lemma hex_encode_inj: "hex_encode a = hex_encode b \<Longrightarrow> a = b"
  by (metis hex_decode_encode)

lemma sign_payload_dry: "sign_payload i p s t True \<noteq> sign_payload i' p' s' t' False"
proof
  assume "sign_payload i p s t True = sign_payload i' p' s' t' False"
  then have "rev (sign_payload i p s t True) = rev (sign_payload i' p' s' t' False)" by simp
  then show False by (simp add: sign_payload_def)
qed

lemma sign_payload_floor [simp]: "sign_payload i p s (t div second * second) d = sign_payload i p s t d"
  by (simp add: sign_payload_def unix_def second_def)

lemma format_int_no_colon: "CHR '':'' \<notin> set (format_int n)"
  by (simp add: format_int_def format_nat_no_colon)

lemma format_int_inj: "format_int a = format_int b \<Longrightarrow> - (2 ^ 63) \<le> a \<Longrightarrow> a < 2 ^ 63 \<Longrightarrow> - (2 ^ 63) \<le> b \<Longrightarrow> b < 2 ^ 63 \<Longrightarrow> a = b"
  using parse_int64_format_int by (metis option.inject)

lemma sign_payload_inj:
  assumes "sign_payload i p s t d = sign_payload i' p' s' t' d'"
    and "CHR '':'' \<notin> set (i @ p @ s)" "CHR '':'' \<notin> set (i' @ p' @ s')"
  shows "i = i' \<and> p = p' \<and> s = s' \<and> d = d' \<and> format_int (unix t) = format_int (unix t')"
proof -
  let ?c = "CHR '':''"
  have f: "?c \<notin> set (format_int (unix t))" "?c \<notin> set (format_int (unix t'))" by (simp_all add: format_int_no_colon)
  have e: "i @ ?c # (p @ ?c # (s @ ?c # (format_int (unix t) @ ?c # (''dry_run='' @ (if d then ''true'' else ''false''))))) =
      i' @ ?c # (p' @ ?c # (s' @ ?c # (format_int (unix t') @ ?c # (''dry_run='' @ (if d' then ''true'' else ''false'')))))"
    using assms(1) by (simp add: sign_payload_def)
  from prefix_split [OF _ _ e] assms(2,3) have i: "i = i'" and e2: "p @ ?c # (s @ ?c # (format_int (unix t) @ ?c # (''dry_run='' @ (if d then ''true'' else ''false'')))) =
      p' @ ?c # (s' @ ?c # (format_int (unix t') @ ?c # (''dry_run='' @ (if d' then ''true'' else ''false''))))" by auto
  from prefix_split [OF _ _ e2] assms(2,3) have p: "p = p'" and e3: "s @ ?c # (format_int (unix t) @ ?c # (''dry_run='' @ (if d then ''true'' else ''false''))) =
      s' @ ?c # (format_int (unix t') @ ?c # (''dry_run='' @ (if d' then ''true'' else ''false'')))" by auto
  from prefix_split [OF _ _ e3] assms(2,3) have s: "s = s'" and e4: "format_int (unix t) @ ?c # (''dry_run='' @ (if d then ''true'' else ''false'')) =
      format_int (unix t') @ ?c # (''dry_run='' @ (if d' then ''true'' else ''false''))" by auto
  from prefix_split [OF f e4] show ?thesis using i p s by (auto split: if_splits)
qed

section \<open>The agent's gates\<close>

lemma runPlaybook_dry: "snd (snd (runPlaybook E req True)) = []"
  by (simp add: runPlaybook_def run_recycle_def run_restart_def run_scale_def Let_def)

lemma runPlaybook_status:
  "fst (runPlaybook E req dry) \<in> {PlaybookDryRun, PlaybookFailed, PlaybookExecuted}"
  "dry \<Longrightarrow> fst (runPlaybook E req dry) \<noteq> PlaybookExecuted"
  by (auto simp: runPlaybook_def run_recycle_def run_restart_def run_scale_def Let_def status_defs split: option.splits sum.splits prod.splits)

lemma agent_effects:
  assumes "snd (handleExecutePlaybook E a (Some req)) \<noteq> []"
  shows "\<exists>ts. sr_Timestamp req = Some ts \<and> \<bar>ae_now E - ts\<bar> \<le> 5 * 60 * second \<and> \<not> sr_DryRun req \<and> AllowsExecution (ap_policy a) \<and>
    hex_decode (sr_Signature req) = ae_hmac E (ap_sharedSecret a)
      (sign_payload (sr_IncidentID req) (sr_PlaybookName req) (sr_ServiceName req) ts False)"
proof -
  obtain ts where ts: "sr_Timestamp req = Some ts" using assms by (cases "sr_Timestamp req") (auto simp: handleExecutePlaybook_def)
  have gates: "\<not> \<bar>ae_now E - ts\<bar> > 5 * 60 * second" "hex_decode (sr_Signature req) = ae_hmac E (ap_sharedSecret a)
      (sign_payload (sr_IncidentID req) (sr_PlaybookName req) (sr_ServiceName req) ts (sr_DryRun req))"
    using assms ts by (auto simp: handleExecutePlaybook_def split: if_splits)
  let ?dry = "sr_DryRun req \<or> \<not> AllowsExecution (ap_policy a)"
  have "snd (snd (runPlaybook E req ?dry)) \<noteq> []"
    using assms ts gates by (auto simp: handleExecutePlaybook_def Let_def split: prod.splits)
  then have "\<not> ?dry" using runPlaybook_dry by (metis (full_types))
  then show ?thesis using ts gates by auto
qed

lemma agent_accepts:
  assumes "sr_Timestamp req = Some ts" "\<bar>ae_now E - ts\<bar> \<le> 5 * 60 * second"
    and "hex_decode (sr_Signature req) = ae_hmac E (ap_sharedSecret a)
      (sign_payload (sr_IncidentID req) (sr_PlaybookName req) (sr_ServiceName req) ts (sr_DryRun req))"
  shows "\<exists>status output. agent_over E a req = AgentReply status output (sr_DryRun req \<or> \<not> AllowsExecution (ap_policy a)) \<and>
    (status, output) = (fst (runPlaybook E req (sr_DryRun req \<or> \<not> AllowsExecution (ap_policy a))),
      fst (snd (runPlaybook E req (sr_DryRun req \<or> \<not> AllowsExecution (ap_policy a)))))"
  using assms by (simp add: agent_over_def handleExecutePlaybook_def Let_def split: prod.splits)

section \<open>The control plane\<close>

lemma UpdateCausalAnalysis_sent [simp]: "st_sent (UpdateCausalAnalysis now i c st) = st_sent st"
  by (simp add: UpdateCausalAnalysis_def)

lemma persist_sent [simp]: "st_sent (snd (persist E i c status st)) = st_sent st"
  by (simp add: persist_def Let_def)

lemma updateStatus_sent [simp]: "st_sent (snd (updateStatus E i c status out st)) = st_sent st"
  by (simp add: updateStatus_def)

lemma dispatch_sent:
  "st_sent (snd (dispatch E r i c pb svc dry st)) = st_sent st \<or>
   st_sent (snd (dispatch E r i c pb svc dry st)) = st_sent st @ [request_for E r i (pb_Name pb) svc dry]"
  by (simp add: dispatch_def Let_def split: agent_result.splits)

lemma request_for_dry [simp]: "sr_DryRun (request_for E r i n svc dry) = dry"
  by (simp add: request_for_def)

definition new_requests :: "incident_store \<Rightarrow> incident_store \<Rightarrow> SignedPlaybookRequest list" where
  "new_requests st st' = drop (length (st_sent st)) (st_sent st')"

lemma Route_new:
  assumes "q \<in> set (new_requests st (Route E r i causal svc st))" "\<not> sr_DryRun q"
  shows "\<exists>c. causal = Some c \<and> Decide (ar_policy r) (ca_Confidence c) = DecisionExecute"
proof -
  obtain c pb where c: "causal = Some c" "ca_Playbook c = Some pb"
    using assms(1) by (auto simp: Route_def new_requests_def split: option.splits)
  show ?thesis
  proof (cases "Decide (ar_policy r) (ca_Confidence c)")
    case DecisionDryRun
    obtain c1 st1 where p: "persist E i (with_playbook (pb_DryRun_update (\<lambda>_. True)) c) PlaybookExecuting st = (c1, st1)" by fastforce
    then have "st_sent st1 = st_sent st" by (metis persist_sent snd_conv)
    then show ?thesis using assms c p DecisionDryRun dispatch_sent [of E r i c1 pb svc True st1]
      by (auto simp: Route_def new_requests_def)
  qed (use assms c in \<open>auto simp: Route_def new_requests_def\<close>)
qed

lemma router_Approve_new:
  assumes "router_Approve E r i causal svc user st = (err, st')" "new_requests st st' \<noteq> []"
  shows "AllowsExecution (ar_policy r) \<and> (\<exists>c pb. causal = Some c \<and> ca_Playbook c = Some pb \<and> pb_Status pb = PlaybookPendingApproval)"
  using assms by (auto simp: router_Approve_def new_requests_def split: option.splits if_splits)

lemma router_Reject_new: "router_Reject E r i causal user why st = (err, st') \<Longrightarrow> new_requests st st' = []"
  by (auto simp: router_Reject_def new_requests_def Let_def split: option.splits if_splits)

lemma router_DryRun_new:
  assumes "router_DryRun E r i causal svc st = (err, st')" "q \<in> set (new_requests st st')"
  shows "sr_DryRun q"
proof -
  obtain c pb where c: "causal = Some c" "ca_Playbook c = Some pb"
    using assms by (auto simp: router_DryRun_def new_requests_def split: option.splits)
  then show ?thesis using assms dispatch_sent [of E r i "with_playbook (pb_DryRun_update (\<lambda>_. True)) c" pb svc True st]
    by (auto simp: router_DryRun_def new_requests_def)
qed

section \<open>What is stored\<close>

lemma encodable_with_playbook [simp]: "encodable (with_playbook f c) = encodable c"
  by (simp add: encodable_def with_playbook_def)

lemma with_playbook_playbook [simp]: "ca_Playbook (with_playbook f c) = map_option f (ca_Playbook c)"
  by (simp add: with_playbook_def)

lemma find_map: "find P (map f xs) = map_option f (find (P \<circ> f) xs)"
  by (induction xs) auto

lemma Get_update:
  assumes "encodable c"
  shows "GetByIDForTenant E t i (UpdateCausalAnalysis now i c st) =
    map_option (\<lambda>inc. inc\<lparr>inc_Causal := Some c, inc_UpdatedAt := now\<rparr>) (GetByIDForTenant E t i st)"
proof -
  let ?f = "\<lambda>inc. if inc_ID inc = i then inc\<lparr>inc_Causal := Some c, inc_UpdatedAt := now\<rparr> else inc"
  let ?P = "\<lambda>inc. inc_ID inc = i \<and> inc_TenantID inc = t"
  have c: "?P \<circ> ?f = ?P" by (auto simp: fun_eq_iff)
  have "map_option ?f (find ?P xs) = map_option (\<lambda>inc. inc\<lparr>inc_Causal := Some c, inc_UpdatedAt := now\<rparr>) (find ?P xs)" for xs :: "Incident list"
    by (induction xs) auto
  then show ?thesis unfolding GetByIDForTenant_def UpdateCausalAnalysis_def using assms by (simp add: find_map c)
qed

lemma Get_sent [simp]: "GetByIDForTenant E t i (st\<lparr>st_sent := x\<rparr>) = GetByIDForTenant E t i st"
  by (simp add: GetByIDForTenant_def)

text \<open>After a dispatch the stored playbook carries the agent's status, or \<open>FAILED\<close>.\<close>

definition reply_status :: "agent_result \<Rightarrow> string" where
  "reply_status r = (case r of AgentReply status output dry \<Rightarrow> status | _ \<Rightarrow> PlaybookFailed)"

lemma updateStatus_stored:
  assumes "encodable c" "\<not> pe_updateFails E status" "ca_Playbook c = Some pb" "GetByIDForTenant E' t i st = Some inc"
  shows "\<exists>inc' c' pb'. GetByIDForTenant E' t i (snd (updateStatus E i c status out st)) = Some inc' \<and> inc_Causal inc' = Some c' \<and>
    ca_Playbook c' = Some pb' \<and> pb_Status pb' = status \<and> pb_Name pb' = pb_Name pb \<and> pb_Description pb' = pb_Description pb"
  using assms by (simp add: updateStatus_def persist_def Let_def Get_update)

lemma persist_stored:
  assumes "encodable c" "GetByIDForTenant E' t i st = Some inc"
  shows "\<exists>inc'. GetByIDForTenant E' t i (snd (persist E i c status st)) = Some inc'"
  using assms by (simp add: persist_def Let_def Get_update)

lemma dispatch_stored:
  assumes "encodable c" "\<forall>status. \<not> pe_updateFails E status" "ca_Playbook c = Some pb" "GetByIDForTenant E' t i st = Some inc"
  shows "\<exists>inc' c' pb'. GetByIDForTenant E' t i (snd (dispatch E r i c pb0 svc dry st)) = Some inc' \<and> inc_Causal inc' = Some c' \<and>
    ca_Playbook c' = Some pb' \<and> pb_Status pb' = reply_status (pe_agent E (request_for E r i (pb_Name pb0) svc dry)) \<and>
    pb_Name pb' = pb_Name pb \<and> pb_Description pb' = pb_Description pb"
proof -
  let ?g = "\<lambda>st'. GetByIDForTenant E' t i st' = Some inc"
  let ?x = "pe_agent E (request_for E r i (pb_Name pb0) svc dry)"
  have sent: "?g (st\<lparr>st_sent := y\<rparr>)" for y using assms(4) by simp
  note u = updateStatus_stored [OF _ assms(2) [rule_format]]
  show ?thesis
  proof (cases ?x)
    case (AgentReply status out d)
    then show ?thesis
      using u [of "with_playbook (pb_DryRun_update (\<lambda>_. d)) c" "pb\<lparr>pb_DryRun := d\<rparr>" E' t i _ inc status out] assms(1,3) sent
      by (simp add: dispatch_def Let_def reply_status_def)
  qed (use u [of c pb E' t i _ inc] assms(1,3,4) sent in \<open>simp_all add: dispatch_def Let_def reply_status_def\<close>)
qed

lemma agent_over_status: "reply_status (agent_over A a req) \<noteq> PlaybookPendingApproval"
proof -
  have "reply_status (agent_over A a req) \<in> {PlaybookDryRun, PlaybookFailed, PlaybookExecuted}"
    using runPlaybook_status(1) [of A req "sr_DryRun req \<or> \<not> AllowsExecution (ap_policy a)"]
    by (simp add: agent_over_def handleExecutePlaybook_def reply_status_def Let_def split: option.splits prod.splits) auto
  then show ?thesis by (auto simp: status_defs)
qed

lemma loadPendingIncident_Inr:
  "loadPendingIncident E q st = Inr inc \<longleftrightarrow> dr_tenant q \<noteq> [] \<and> GetByIDForTenant E (dr_tenant q) (dr_id q) st = Some inc \<and>
    (\<exists>c pb. inc_Causal inc = Some c \<and> ca_Playbook c = Some pb)"
  by (auto simp: loadPendingIncident_def split: option.splits)

lemma Get_id: "GetByIDForTenant E t i st = Some inc \<Longrightarrow> inc_ID inc = i \<and> inc_TenantID inc = t"
  by (auto simp: GetByIDForTenant_def find_Some_iff split: if_splits)

lemma Approve_not_pending:
  assumes "dr_tenant q \<noteq> []" "GetByIDForTenant E (dr_tenant q) (dr_id q) st = Some inc" "inc_Causal inc = Some c" "ca_Playbook c = Some pb"
    and "pb_Status pb \<noteq> PlaybookPendingApproval" "dr_user q \<noteq> []"
    and "fst (CanApprove (ph_authz h) (dr_role q) (ClassifyRisk (pb_Name pb) (pb_Description pb)))"
  shows "handler_Approve E h q st = (409, st)"
proof -
  have "loadPendingIncident E q st = Inr inc" using assms by (simp add: loadPendingIncident_Inr)
  then show ?thesis using assms by (simp add: handler_Approve_def approve_loaded_def router_Approve_def writeDecisionError_def)
qed

section \<open>Operations of the control plane\<close>

datatype pb_op = OpRoute string "CausalAnalysis option" string | OpApprove decision_request | OpReject decision_request | OpDryRun decision_request

fun pb_step :: "router_env \<Rightarrow> PlaybookHandler \<Rightarrow> pb_op \<Rightarrow> incident_store \<Rightarrow> incident_store" where
  "pb_step E h (OpRoute i causal svc) st = Route E (ph_router h) i causal svc st"
| "pb_step E h (OpApprove q) st = snd (handler_Approve E h q st)"
| "pb_step E h (OpReject q) st = snd (handler_Reject E h q st)"
| "pb_step E h (OpDryRun q) st = snd (handler_DryRun E h q st)"

definition approvable :: "router_env \<Rightarrow> PlaybookHandler \<Rightarrow> decision_request \<Rightarrow> incident_store \<Rightarrow> bool" where
  "approvable E h q st \<longleftrightarrow> (\<exists>inc c pb. GetByIDForTenant E (dr_tenant q) (dr_id q) st = Some inc \<and> inc_Causal inc = Some c \<and>
     ca_Playbook c = Some pb \<and> pb_Status pb = PlaybookPendingApproval \<and> dr_user q \<noteq> [] \<and>
     fst (CanApprove (ph_authz h) (dr_role q) (ClassifyRisk (pb_Name pb) (pb_Description pb))) \<and> AllowsExecution (ar_policy (ph_router h)))"

lemma no_new [simp]: "new_requests st st = []"
  by (simp add: new_requests_def)

lemma handler_Approve_new:
  assumes "new_requests st (snd (handler_Approve E h q st)) \<noteq> []"
  shows "approvable E h q st"
proof -
  obtain inc where load: "loadPendingIncident E q st = Inr inc"
    using assms by (auto simp: handler_Approve_def split: sum.splits)
  then obtain c pb where c: "inc_Causal inc = Some c" "ca_Playbook c = Some pb" "GetByIDForTenant E (dr_tenant q) (dr_id q) st = Some inc"
    by (auto simp: loadPendingIncident_Inr)
  obtain err st' where r: "router_Approve E (ph_router h) (inc_ID inc) (inc_Causal inc) (primaryService inc) (dr_user q) st = (err, st')" by fastforce
  have g: "dr_user q \<noteq> []" "fst (CanApprove (ph_authz h) (dr_role q) (ClassifyRisk (pb_Name pb) (pb_Description pb)))" "new_requests st st' \<noteq> []"
    using assms load c r by (auto simp: handler_Approve_def approve_loaded_def split: if_splits option.splits)
  from router_Approve_new [OF r g(3)] show ?thesis using c g by (auto simp: approvable_def)
qed

lemma handler_Reject_new: "new_requests st (snd (handler_Reject E h q st)) = []"
  using router_Reject_new by (auto simp: handler_Reject_def split: sum.splits prod.splits option.splits)

lemma handler_DryRun_new: "q' \<in> set (new_requests st (snd (handler_DryRun E h q st))) \<Longrightarrow> sr_DryRun q'"
  using router_DryRun_new by (auto simp: handler_DryRun_def split: sum.splits prod.splits option.splits)

section \<open>Samples\<close>

text \<open>A keyed digest that is injective in the message, the agent of a restart that always succeeds, and a
  table with one incident whose playbook awaits approval.\<close>

definition sample_hmac :: hmac where
  "sample_hmac key msg = str_bytes msg"

definition sample_agent_env :: agent_env where
  "sample_agent_env = \<lparr>ae_hmac = sample_hmac, ae_now = 0, ae_cmd = \<lambda>_. (''ok'', None), ae_pool = None, ae_exec = Inr 0, ae_quote = \<lambda>s. s\<rparr>"

definition sample_api :: API where
  "sample_api = NewAPIWithPolicy ''k'' DefaultPolicy"

definition sample_router_env :: router_env where
  "sample_router_env = \<lparr>pe_hmac = sample_hmac, pe_now = 0, pe_ts = 0, pe_updateFails = \<lambda>_. False, pe_queryFails = False,
     pe_agent = agent_over sample_agent_env sample_api\<rparr>"

definition sample_handler :: PlaybookHandler where
  "sample_handler = \<lparr>ph_router = NewAutomationRouter ''k'', ph_authz = NewApproverAuthorizer []\<rparr>"

definition pending_playbook :: PlaybookAction where
  "pending_playbook = (suggested ''restart_service'' ''rolling'')\<lparr>pb_Status := PlaybookPendingApproval\<rparr>"

definition pending_incident :: Incident where
  "pending_incident = (ev_Incident sample_evidence)\<lparr>inc_Causal := Some (sample_answer\<lparr>ca_Playbook := Some pending_playbook\<rparr>)\<rparr>"

definition pending_store :: incident_store where
  "pending_store = \<lparr>st_incidents = [pending_incident], st_sent = []\<rparr>"

definition approve_request :: decision_request where
  "approve_request = \<lparr>dr_tenant = ''t'', dr_user = ''alice'', dr_role = ''sre'', dr_id = ''i'', dr_reason = []\<rparr>"

lemma sample_can_approve: "fst (CanApprove (ph_authz sample_handler) ''sre'' (ClassifyRisk ''restart_service'' ''rolling''))"
  by code_simp

lemma sample_load: "loadPendingIncident sample_router_env approve_request pending_store = Inr pending_incident"
  by (simp add: loadPendingIncident_Inr GetByIDForTenant_def sample_router_env_def approve_request_def pending_store_def
      pending_incident_def sample_evidence_def)

lemma sample_pending:
  "inc_Causal pending_incident = Some (sample_answer\<lparr>ca_Playbook := Some pending_playbook\<rparr>)"
  "ca_Playbook (sample_answer\<lparr>ca_Playbook := Some pending_playbook\<rparr>) = Some pending_playbook"
  "pb_Status pending_playbook = PlaybookPendingApproval" "AllowsExecution (ar_policy (ph_router sample_handler))"
  "dr_user approve_request \<noteq> []"
  "fst (CanApprove (ph_authz sample_handler) (dr_role approve_request) (ClassifyRisk (pb_Name pending_playbook) (pb_Description pending_playbook)))"
  "pe_agent sample_router_env = agent_over sample_agent_env sample_api" "encodable (sample_answer\<lparr>ca_Playbook := Some pending_playbook\<rparr>)"
  using sample_can_approve
  by (simp_all add: pending_incident_def pending_playbook_def suggested_def sample_handler_def NewAutomationRouter_def
      NewAutomationRouterWithPolicy_def DefaultPolicy_def AllowsExecution_def approve_request_def sample_router_env_def
      sample_answer_def encodable_def)

section \<open>Properties\<close>

text \<open>C5: a live change is requested only with authorisation. Whatever operation the control plane handles,
  on any table and with any failures, a request that is not a dry run is put on the wire only if
  the mode is auto and the analysis is not below the threshold, or if an authenticated user whose
  role may approve the action's risk tier approves, under a policy that allows execution, a playbook
  of their own tenant that is stored as awaiting approval. Rejecting and dry-running never do.\<close>

theorem live_request_authorised:
  assumes "q \<in> set (new_requests st (pb_step E h op st))" "\<not> sr_DryRun q"
  shows "(\<exists>i c svc. op = OpRoute i (Some c) svc \<and> pol_Mode (ar_policy (ph_router h)) = ModeAuto \<and>
      \<not> flt (ca_Confidence c) (pol_ConfidenceThreshold (ar_policy (ph_router h)))) \<or>
    (\<exists>d. op = OpApprove d \<and> approvable E h d st)"
proof (cases op)
  case (OpRoute i causal svc)
  then show ?thesis using Route_new [of q st E "ph_router h" i causal svc] assms by (auto simp: Decide_execute_iff)
next
  case (OpApprove d)
  then have "new_requests st (snd (handler_Approve E h d st)) \<noteq> []" using assms(1) by auto
  then show ?thesis using handler_Approve_new OpApprove by blast
next
  case (OpReject d)
  then show ?thesis using assms(1) by (simp add: handler_Reject_new)
next
  case (OpDryRun d)
  then show ?thesis using assms handler_DryRun_new by simp
qed

lemma router_Approve_sends:
  assumes "causal = Some c" "ca_Playbook c = Some pb" "pb_Status pb = PlaybookPendingApproval" "AllowsExecution (ar_policy r)"
    and "\<forall>req e. pe_agent E req \<noteq> MarshalError e \<and> pe_agent E req \<noteq> RequestError e"
  shows "\<exists>st'. router_Approve E r i causal svc user st = (None, st') \<and>
    st_sent st' = st_sent st @ [request_for E r i (pb_Name pb) svc False]"
proof -
  have d: "st_sent (snd (dispatch E r i c' pb svc False st')) = st_sent st' @ [request_for E r i (pb_Name pb) svc False]" for c' st'
    using assms(5) by (simp add: dispatch_def Let_def split: agent_result.splits)
  show ?thesis using assms d by (simp add: router_Approve_def Let_def split: prod.splits) (metis persist_sent snd_conv)
qed

lemma agent_over_reaches: "agent_over A a req \<noteq> MarshalError e \<and> agent_over A a req \<noteq> RequestError e"
  by (auto simp: agent_over_def split: prod.splits option.splits)

lemma approve_loaded_sends:
  assumes "inc_Causal inc = Some c" "ca_Playbook c = Some pb" "pb_Status pb = PlaybookPendingApproval" "AllowsExecution (ar_policy (ph_router h))"
    and "dr_user q \<noteq> []" "fst (CanApprove (ph_authz h) (dr_role q) (ClassifyRisk (pb_Name pb) (pb_Description pb)))"
    and "pe_agent E = agent_over A a"
  shows "\<exists>st'. approve_loaded E h q inc st = (200, st') \<and>
    st_sent st' = st_sent st @ [request_for E (ph_router h) (inc_ID inc) (pb_Name pb) (primaryService inc) False]"
proof -
  have "\<forall>req e. pe_agent E req \<noteq> MarshalError e \<and> pe_agent E req \<noteq> RequestError e" using agent_over_reaches assms(7) by simp
  from router_Approve_sends [OF assms(1-4) this] obtain st' where
    "router_Approve E (ph_router h) (inc_ID inc) (inc_Causal inc) (primaryService inc) (dr_user q) st = (None, st')"
    "st_sent st' = st_sent st @ [request_for E (ph_router h) (inc_ID inc) (pb_Name pb) (primaryService inc) False]" by blast
  then show ?thesis using assms(1,2,5,6) by (simp add: approve_loaded_def)
qed

theorem live_request_authorised_witness:
  "\<exists>q \<in> set (new_requests pending_store (pb_step sample_router_env sample_handler (OpApprove approve_request) pending_store)).
     approvable sample_router_env sample_handler approve_request pending_store"
proof -
  note approve_loaded_sends [OF sample_pending(1-7), of pending_store]
  then obtain q where q: "q \<in> set (new_requests pending_store (pb_step sample_router_env sample_handler (OpApprove approve_request) pending_store))"
    "\<not> sr_DryRun q" by (auto simp: handler_Approve_def sample_load new_requests_def)
  from live_request_authorised [OF q] q(1) show ?thesis by auto
qed

text \<open>C6: the agent changes something only when every gate is open. If handling a request runs a command,
  then the request is fresh within five minutes, is not a dry run, carries the keyed digest of its
  own fields under the agent's secret, and the agent's own policy allows execution. When the digest
  is injective, no signature ever produced for a dry run makes the agent run a command.\<close>

theorem agent_runs_only_signed_live_requests:
  assumes "snd (handleExecutePlaybook E a (Some req)) \<noteq> []"
  shows "(\<exists>ts. sr_Timestamp req = Some ts \<and> \<bar>ae_now E - ts\<bar> \<le> 5 * 60 * second \<and>
      hex_decode (sr_Signature req) = ae_hmac E (ap_sharedSecret a)
        (sign_payload (sr_IncidentID req) (sr_PlaybookName req) (sr_ServiceName req) ts False)) \<and>
    \<not> sr_DryRun req \<and> AllowsExecution (ap_policy a) \<and>
    (inj (ae_hmac E (ap_sharedSecret a)) \<longrightarrow>
      (\<forall>i p s t. sr_Signature req \<noteq> Sign (ae_hmac E) (ap_sharedSecret a) i p s t True))"
proof -
  from agent_effects [OF assms] obtain ts where ts: "sr_Timestamp req = Some ts" "\<bar>ae_now E - ts\<bar> \<le> 5 * 60 * second"
    "\<not> sr_DryRun req" "AllowsExecution (ap_policy a)" and sig: "hex_decode (sr_Signature req) = ae_hmac E (ap_sharedSecret a)
      (sign_payload (sr_IncidentID req) (sr_PlaybookName req) (sr_ServiceName req) ts False)" by blast
  have "sr_Signature req \<noteq> Sign (ae_hmac E) (ap_sharedSecret a) i p s t True" if "inj (ae_hmac E (ap_sharedSecret a))" for i p s t
  proof
    assume "sr_Signature req = Sign (ae_hmac E) (ap_sharedSecret a) i p s t True"
    then have "ae_hmac E (ap_sharedSecret a) (sign_payload i p s t True) =
        ae_hmac E (ap_sharedSecret a) (sign_payload (sr_IncidentID req) (sr_PlaybookName req) (sr_ServiceName req) ts False)"
      using sig by (simp add: Sign_def)
    then show False using injD [OF that] sign_payload_dry by blast
  qed
  then show ?thesis using ts sig by blast
qed

definition live_request :: SignedPlaybookRequest where
  "live_request = request_for sample_router_env (NewAutomationRouter ''k'') ''i'' ''restart_service'' ''api'' False"

lemma live_request_runs: "snd (handleExecutePlaybook sample_agent_env sample_api (Some live_request)) =
    [RunCommand [''kubectl'', ''rollout'', ''restart'', ''deployment/api'']]"
  by (simp add: handleExecutePlaybook_def live_request_def request_for_def sample_router_env_def sample_agent_env_def Sign_def
      sample_api_def NewAutomationRouter_def NewAutomationRouterWithPolicy_def NewAPIWithPolicy_def DefaultPolicy_def AllowsExecution_def
      runPlaybook_def run_restart_def Let_def second_def)

theorem agent_runs_only_signed_live_requests_witness:
  "\<not> sr_DryRun live_request \<and> (\<forall>i p s t. sr_Signature live_request \<noteq> Sign sample_hmac ''k'' i p s t True)"
proof -
  have "inj (ae_hmac sample_agent_env (ap_sharedSecret sample_api))" by (simp add: inj_def sample_agent_env_def sample_hmac_def)
  then show ?thesis using agent_runs_only_signed_live_requests [of sample_agent_env sample_api live_request] live_request_runs
    by (simp add: sample_agent_env_def sample_api_def NewAPIWithPolicy_def)
qed

text \<open>The agent accepts what the router sends. With the same secret on both sides and clocks that differ
  by at most five minutes, counting from the second the router stamped, the agent answers a
  dispatched request with the outcome of the playbook; it reports a dry run exactly when one was
  asked for or its own policy forbids execution.\<close>

theorem dispatched_request_accepted:
  assumes "ae_hmac A = pe_hmac E" "ap_sharedSecret a = ar_sharedSecret r" "\<bar>ae_now A - pe_ts E div second * second\<bar> \<le> 5 * 60 * second"
    and "req = request_for E r i name svc dry" "d = (dry \<or> \<not> AllowsExecution (ap_policy a))"
  shows "agent_over A a req = AgentReply (fst (runPlaybook A req d)) (fst (snd (runPlaybook A req d))) d \<and>
    snd (handleExecutePlaybook A a (Some req)) = snd (snd (runPlaybook A req d))"
proof -
  have sig: "hex_decode (sr_Signature req) = ae_hmac A (ap_sharedSecret a)
      (sign_payload (sr_IncidentID req) (sr_PlaybookName req) (sr_ServiceName req) (pe_ts E div second * second) (sr_DryRun req))"
    using assms(1,2,4) by (simp add: request_for_def Sign_def)
  have "sr_Timestamp req = Some (pe_ts E div second * second)" "sr_DryRun req = dry" using assms(4) by (simp_all add: request_for_def)
  then show ?thesis using sig assms(3,5) by (simp add: agent_over_def handleExecutePlaybook_def Let_def split: prod.splits)
qed

theorem dispatched_request_accepted_witness:
  "agent_over sample_agent_env sample_api live_request =
    AgentReply PlaybookExecuted (fst (snd (runPlaybook sample_agent_env live_request False))) False"
  using dispatched_request_accepted [of sample_agent_env sample_router_env sample_api "NewAutomationRouter ''k''" live_request
      "''i''" "''restart_service''" "''api''" False False]
  by (simp add: sample_agent_env_def sample_router_env_def sample_api_def NewAPIWithPolicy_def NewAutomationRouter_def
      NewAutomationRouterWithPolicy_def live_request_def AllowsExecution_def DefaultPolicy_def second_def runPlaybook_def request_for_def run_restart_def Let_def)

text \<open>One approval, one execution, when approvals follow one another. With the agent on the other end,
  updates that succeed and one row per id, an approval that is granted sends one live request, and
  every later approval of the same incident by whoever may approve it is refused as a conflict and
  sends nothing.\<close>

theorem second_approval_conflicts:
  assumes "handler_Approve E h q st = (200, st')" "pe_agent E = agent_over A a" "\<forall>status. \<not> pe_updateFails E status"
    and "\<forall>inc \<in> set (st_incidents st). \<forall>c. inc_Causal inc = Some c \<longrightarrow> encodable c"
    and "dr_tenant q' = dr_tenant q" "dr_id q' = dr_id q" "dr_user q' \<noteq> []" "dr_role q' = dr_role q" "\<not> pe_queryFails E'"
  shows "length (new_requests st st') = 1 \<and> handler_Approve E' h q' st' = (409, st')"
proof -
  obtain inc where load: "loadPendingIncident E q st = Inr inc"
    using assms(1) by (auto simp: handler_Approve_def loadPendingIncident_def split: sum.splits if_splits option.splits)
  then obtain c pb where g: "dr_tenant q \<noteq> []" "GetByIDForTenant E (dr_tenant q) (dr_id q) st = Some inc"
    and c: "inc_Causal inc = Some c" "ca_Playbook c = Some pb" by (auto simp: loadPendingIncident_Inr)
  have inc: "inc \<in> set (st_incidents st)" "inc_ID inc = dr_id q" and g': "GetByIDForTenant E' (dr_tenant q) (dr_id q) st = Some inc"
    using g(2) Get_id [OF g(2)] assms(9) by (auto simp: GetByIDForTenant_def find_Some_iff split: if_splits)
  have enc: "encodable c" using assms(4) inc(1) c(1) by blast
  have a: "approve_loaded E h q inc st = (200, st')" using assms(1) load by (simp add: handler_Approve_def)
  have ok: "dr_user q \<noteq> []" "fst (CanApprove (ph_authz h) (dr_role q) (ClassifyRisk (pb_Name pb) (pb_Description pb)))"
    "pb_Status pb = PlaybookPendingApproval" "AllowsExecution (ar_policy (ph_router h))"
    using a c by (auto simp: approve_loaded_def router_Approve_def writeDecisionError_def split: if_splits)
  from approve_loaded_sends [OF c ok(3,4,1,2) assms(2), of st] a have sent: "length (new_requests st st') = 1"
    by (auto simp: new_requests_def)
  let ?c1 = "with_playbook (\<lambda>p. p\<lparr>pb_ApprovedBy := dr_user q, pb_ApprovedAt := Some (pe_now E), pb_DryRun := False\<rparr>) c"
  obtain c2 st2 where p: "persist E (dr_id q) ?c1 PlaybookExecuting st = (c2, st2)" by fastforce
  have c2: "encodable c2" "\<exists>pb2. ca_Playbook c2 = Some pb2 \<and> pb_Name pb2 = pb_Name pb \<and> pb_Description pb2 = pb_Description pb"
    using p enc c(2) by (auto simp: persist_def Let_def)
  obtain inc2 where g2: "GetByIDForTenant E' (dr_tenant q) (dr_id q) st2 = Some inc2"
    using persist_stored [of ?c1 E' "dr_tenant q" "dr_id q" st inc E PlaybookExecuting] p enc g' by auto
  have st': "st' = snd (dispatch E (ph_router h) (dr_id q) c2 pb (primaryService inc) False st2)"
    using a c ok p inc(2) by (auto simp: approve_loaded_def router_Approve_def Let_def split: prod.splits)
  from c2(2) obtain pb2 where pb2: "ca_Playbook c2 = Some pb2" "pb_Name pb2 = pb_Name pb" "pb_Description pb2 = pb_Description pb" by blast
  from dispatch_stored [OF c2(1) assms(3) pb2(1) g2, of "ph_router h" pb "primaryService inc" False] obtain inc' c' pb' where
    s: "GetByIDForTenant E' (dr_tenant q) (dr_id q) st' = Some inc'" "inc_Causal inc' = Some c'" "ca_Playbook c' = Some pb'"
    "pb_Status pb' = reply_status (pe_agent E (request_for E (ph_router h) (dr_id q) (pb_Name pb) (primaryService inc) False))"
    "pb_Name pb' = pb_Name pb" "pb_Description pb' = pb_Description pb" unfolding st' pb2 by blast
  have "pb_Status pb' \<noteq> PlaybookPendingApproval" unfolding s(4) assms(2) by (rule agent_over_status)
  then have "handler_Approve E' h q' st' = (409, st')"
    using Approve_not_pending [of q' E' st' inc' c' pb' h] s assms(5-8) g(1) ok(2) by simp
  then show ?thesis using sent by blast
qed

theorem second_approval_conflicts_witness:
  "\<exists>st'. handler_Approve sample_router_env sample_handler approve_request pending_store = (200, st') \<and>
    handler_Approve sample_router_env sample_handler approve_request st' = (409, st')"
proof -
  from approve_loaded_sends [OF sample_pending(1-7), of pending_store] obtain st' where
    a: "handler_Approve sample_router_env sample_handler approve_request pending_store = (200, st')"
    by (auto simp: handler_Approve_def sample_load)
  from second_approval_conflicts [OF a sample_pending(7), of approve_request sample_router_env] a show ?thesis
    using sample_pending(1,5,8) by (auto simp: sample_router_env_def pending_store_def)
qed

text \<open>C25: approvals that overlap execute twice. If two approvers' requests have both loaded the incident
  before either has stored its decision, both are answered with success and two live requests go
  out, because the status is checked on the copy that was loaded and never again.\<close>

theorem overlapping_approvals_execute_twice:
  assumes "loadPendingIncident E1 q1 st = Inr inc" "loadPendingIncident E2 q2 st = Inr inc"
    and "inc_Causal inc = Some c" "ca_Playbook c = Some pb" "pb_Status pb = PlaybookPendingApproval"
    and "AllowsExecution (ar_policy (ph_router h))" "pe_agent E1 = agent_over A1 a" "pe_agent E2 = agent_over A2 a"
    and "\<forall>q \<in> {q1, q2}. dr_user q \<noteq> [] \<and> fst (CanApprove (ph_authz h) (dr_role q) (ClassifyRisk (pb_Name pb) (pb_Description pb)))"
  shows "\<exists>st1 st2. approve_loaded E1 h q1 inc st = (200, st1) \<and> approve_loaded E2 h q2 inc st1 = (200, st2) \<and>
    length (new_requests st st2) = 2 \<and> (\<forall>q \<in> set (new_requests st st2). \<not> sr_DryRun q \<and> sr_IncidentID q = inc_ID inc)"
proof -
  from approve_loaded_sends [OF assms(3-6) _ _ assms(7), of q1 st] assms(9) obtain st1 where
    1: "approve_loaded E1 h q1 inc st = (200, st1)"
      "st_sent st1 = st_sent st @ [request_for E1 (ph_router h) (inc_ID inc) (pb_Name pb) (primaryService inc) False]" by auto
  from approve_loaded_sends [OF assms(3-6) _ _ assms(8), of q2 st1] assms(9) obtain st2 where
    2: "approve_loaded E2 h q2 inc st1 = (200, st2)"
      "st_sent st2 = st_sent st1 @ [request_for E2 (ph_router h) (inc_ID inc) (pb_Name pb) (primaryService inc) False]" by auto
  show ?thesis using 1 2 by (intro exI [of _ st1] exI [of _ st2]) (simp add: new_requests_def request_for_def)
qed

theorem overlapping_approvals_execute_twice_witness:
  "\<exists>st1 st2. approve_loaded sample_router_env sample_handler approve_request pending_incident pending_store = (200, st1) \<and>
    approve_loaded sample_router_env sample_handler approve_request pending_incident st1 = (200, st2) \<and> length (new_requests pending_store st2) = 2"
  using overlapping_approvals_execute_twice [OF sample_load sample_load sample_pending(1-4) sample_pending(7) sample_pending(7)] sample_pending(5,6)
  by blast

text \<open>Asking what a pending playbook would do withdraws it. After a dry run of a playbook that awaits
  approval, with the agent on the other end and updates that succeed, approving it is refused as a
  conflict, whatever the agent answered: the status it reports replaces the pending one.\<close>

theorem dry_run_withdraws_pending:
  assumes "loadPendingIncident E q st = Inr inc" "handler_DryRun E h q st = (code, st')" "pe_agent E = agent_over A a"
    and "\<forall>status. \<not> pe_updateFails E status" "\<forall>c. inc_Causal inc = Some c \<longrightarrow> encodable c" "\<not> pe_queryFails E'"
    and "dr_tenant q' = dr_tenant q" "dr_id q' = dr_id q" "dr_user q' \<noteq> []"
    and "\<forall>tier. fst (CanApprove (ph_authz h) (dr_role q') tier)"
  shows "handler_Approve E' h q' st' = (409, st')"
proof -
  from assms(1) obtain c pb where g: "dr_tenant q \<noteq> []" "GetByIDForTenant E (dr_tenant q) (dr_id q) st = Some inc"
    and c: "inc_Causal inc = Some c" "ca_Playbook c = Some pb" by (auto simp: loadPendingIncident_Inr)
  have g': "GetByIDForTenant E' (dr_tenant q) (dr_id q) st = Some inc" and i: "inc_ID inc = dr_id q"
    using g(2) Get_id [OF g(2)] assms(6) by (auto simp: GetByIDForTenant_def split: if_splits)
  let ?c1 = "with_playbook (pb_DryRun_update (\<lambda>_. True)) c"
  have st': "st' = snd (dispatch E (ph_router h) (dr_id q) ?c1 pb (primaryService inc) True st)"
    using assms(1,2) c i by (auto simp: handler_DryRun_def router_DryRun_def)
  have enc: "encodable ?c1" "ca_Playbook ?c1 = Some (pb\<lparr>pb_DryRun := True\<rparr>)" using assms(5) c by auto
  from dispatch_stored [OF enc(1) assms(4) enc(2) g', of "ph_router h" pb "primaryService inc" True] obtain inc' c' pb' where
    s: "GetByIDForTenant E' (dr_tenant q) (dr_id q) st' = Some inc'" "inc_Causal inc' = Some c'" "ca_Playbook c' = Some pb'"
    "pb_Status pb' = reply_status (pe_agent E (request_for E (ph_router h) (dr_id q) (pb_Name pb) (primaryService inc) True))"
    unfolding st' by blast
  have "pb_Status pb' \<noteq> PlaybookPendingApproval" unfolding s(4) assms(3) by (rule agent_over_status)
  then show ?thesis using Approve_not_pending [of q' E' st' inc' c' pb' h] s(1-3) assms(7-10) g(1) by simp
qed

theorem dry_run_withdraws_pending_witness:
  "handler_Approve sample_router_env sample_handler (approve_request\<lparr>dr_role := ''admin''\<rparr>)
    (snd (handler_DryRun sample_router_env sample_handler approve_request pending_store)) =
   (409, snd (handler_DryRun sample_router_env sample_handler approve_request pending_store))"
proof -
  have "\<forall>tier. fst (CanApprove (ph_authz sample_handler) ''admin'' tier)"
  proof
    fix tier show "fst (CanApprove (ph_authz sample_handler) ''admin'' tier)"
      by (simp add: CanApprove_def sample_handler_def IsElevated_def NewApproverAuthorizer_def to_lower_def lower_char_def
          trim_space_def is_space_def)
  qed
  then show ?thesis
    by (intro dry_run_withdraws_pending [OF sample_load prod.collapse [symmetric] sample_pending(7)])
      (simp_all add: sample_pending(1,8) sample_router_env_def approve_request_def)
qed

text \<open>A signature binds the fields only while no field contains a colon. With an injective digest, a
  request the agent accepts whose fields and the signed fields are free of colons is the request
  that was signed. With a colon in a service name it need not be: the signature of a request for
  one playbook and service is accepted for another.\<close>

theorem signature_binds_colon_free_fields:
  assumes "snd (handleExecutePlaybook E a (Some req)) \<noteq> []" "inj (ae_hmac E (ap_sharedSecret a))"
    and "sr_Signature req = Sign (ae_hmac E) (ap_sharedSecret a) i p s t d"
    and "CHR '':'' \<notin> set (i @ p @ s)" "CHR '':'' \<notin> set (sr_IncidentID req @ sr_PlaybookName req @ sr_ServiceName req)"
  shows "sr_IncidentID req = i \<and> sr_PlaybookName req = p \<and> sr_ServiceName req = s \<and> \<not> d \<and>
    Sign H k ''inc'' ''scale_replicas'' ''x:restart_service:victim'' t False = Sign H k ''inc:scale_replicas:x'' ''restart_service'' ''victim'' t False"
proof -
  from agent_effects [OF assms(1)] obtain ts where "hex_decode (sr_Signature req) = ae_hmac E (ap_sharedSecret a)
      (sign_payload (sr_IncidentID req) (sr_PlaybookName req) (sr_ServiceName req) ts False)" by blast
  then have "sign_payload i p s t d = sign_payload (sr_IncidentID req) (sr_PlaybookName req) (sr_ServiceName req) ts False"
    using assms(2,3) by (simp add: Sign_def inj_eq)
  from sign_payload_inj [OF this assms(4,5)] show ?thesis by (simp add: Sign_def sign_payload_def)
qed

theorem signature_binds_colon_free_fields_witness:
  "sr_ServiceName live_request = ''api'' \<and>
   Sign sample_hmac ''k'' ''inc'' ''scale_replicas'' ''x:restart_service:victim'' 0 False =
   Sign sample_hmac ''k'' ''inc:scale_replicas:x'' ''restart_service'' ''victim'' 0 False"
proof -
  have "inj (ae_hmac sample_agent_env (ap_sharedSecret sample_api))" by (simp add: inj_def sample_agent_env_def sample_hmac_def)
  moreover have "sr_Signature live_request = Sign (ae_hmac sample_agent_env) (ap_sharedSecret sample_api) ''i'' ''restart_service'' ''api'' 0 False"
    by (simp add: live_request_def request_for_def sample_router_env_def sample_agent_env_def sample_api_def NewAPIWithPolicy_def
        NewAutomationRouter_def NewAutomationRouterWithPolicy_def)
  moreover have "CHR '':'' \<notin> set (sr_IncidentID live_request @ sr_PlaybookName live_request @ sr_ServiceName live_request)"
    by (simp add: live_request_def request_for_def)
  ultimately show ?thesis
    using signature_binds_colon_free_fields [of sample_agent_env sample_api live_request "''i''" "''restart_service''" "''api''" 0 False sample_hmac "''k''"]
      live_request_runs by simp
qed

text \<open>An analysis that was pruned is never acted on. If the guardrail removed a link and the policy's
  threshold is above the ceiling of 0.4, the router neither runs the playbook nor asks for approval;
  while a single inferred upstream service is enough for the rule-based analyzer to reach the
  default threshold of 0.70, so that under the auto mode its playbook runs.\<close>

theorem pruned_analysis_not_acted_on:
  assumes "GroundAnalysis (Some r) e = Some g" "ca_Grounding g = Some rep" "gr_DroppedLinks rep > 0" "ca_Confidence r \<noteq> NaN"
    and "flt groundedConfidenceCeiling (pol_ConfidenceThreshold p)"
    and "chain \<noteq> []" "\<forall>l \<in> set chain. cl_FromService l = u"
  shows "Decide p (ca_Confidence g) \<in> {DecisionSuppressed, DecisionSuggested} \<and>
    Decide (DefaultPolicy\<lparr>pol_Mode := ModeAuto\<rparr>) (noopConfidence chain) = DecisionExecute"
proof -
  have c: "\<not> flt groundedConfidenceCeiling (ca_Confidence g)" "ca_Confidence g \<noteq> NaN" using GroundAnalysis_pruned [OF assms(1-4)] by auto
  have "flt (ca_Confidence g) (pol_ConfidenceThreshold p)"
    using c assms(5) unfolding groundedConfidenceCeiling_def float_4_10
    by (cases "ca_Confidence g"; cases "pol_ConfidenceThreshold p") auto
  then show ?thesis using noopConfidence_single [OF assms(6,7)]
    by (simp add: Decide_def mode_defs DefaultPolicy_def DefaultConfidenceThreshold_value)
qed

theorem pruned_analysis_not_acted_on_witness:
  "\<exists>g. GroundAnalysis (Some sample_answer) (Some sample_evidence) = Some g \<and>
    Decide DefaultPolicy (ca_Confidence g) \<in> {DecisionSuppressed, DecisionSuggested}"
proof -
  obtain g where g: "GroundAnalysis (Some sample_answer) (Some sample_evidence) = Some g" using GroundAnalysis_Some by blast
  have "\<not> link_known [''api''] \<lparr>cl_FromService = ''ghost'', cl_ToService = ''api'', cl_Evidence = [], cl_At = 0\<rparr>" by code_simp
  then have "ca_Chain g = []" using GroundAnalysis_chain [OF g] sample_known by (simp add: sample_answer_def)
  moreover obtain rep where rep: "ca_Grounding g = Some rep" "gr_DroppedLinks rep = length (ca_Chain sample_answer) - length (ca_Chain g)"
    using GroundAnalysis_report [OF g] sample_known by force
  ultimately have "gr_DroppedLinks rep > 0" by (simp add: sample_answer_def)
  note rep(1) this
  moreover have "ca_Confidence sample_answer \<noteq> NaN" by (simp add: sample_answer_def)
  moreover have "flt groundedConfidenceCeiling (pol_ConfidenceThreshold DefaultPolicy)"
    unfolding groundedConfidenceCeiling_def float_4_10 by (simp add: DefaultPolicy_def DefaultConfidenceThreshold_value)
  ultimately have "Decide DefaultPolicy (ca_Confidence g) \<in> {DecisionSuppressed, DecisionSuggested}"
    using pruned_analysis_not_acted_on [where chain = "[\<lparr>cl_FromService = ''db'', cl_ToService = ''api'', cl_Evidence = [], cl_At = 0\<rparr>]"
        and u = "''db''" and p = DefaultPolicy, OF g] by (simp only: list.distinct simp_thms set_simps) simp
  then show ?thesis using g by blast
qed

end
