(* ===== verification/Correlator.thy ===== *)
theory Correlator
  imports Playbooks
begin

text \<open>
  Incident correlation, \<open>src/correlation-service/internal/engine/correlator.go\<close> over the tables of
  \<open>internal/repository/incident_repository.go\<close>: an alert joins an open incident or opens one, a
  notification is published, a root-cause analysis is scheduled, run, checked by the guardrail,
  stored and routed, and quiet incidents are resolved. Clock, identifiers, topology lookups, the
  analyzer, failures of the database and of the publisher are the environment of a call. A
  transaction either takes effect or does not.
\<close>

section \<open>State\<close>

record Alert =
  al_TenantID :: string
  al_ID :: string
  al_ServiceName :: string
  al_Level :: string
  al_Message :: string
  al_TriggeredAt :: int

datatype notification_action = Triggered | Resolved

record NotificationEvent =
  ne_IncidentID :: string
  ne_TenantID :: string
  ne_Action :: notification_action
  ne_Title :: string
  ne_Body :: string
  ne_Severity :: string
  ne_Services :: "string list"

text \<open>The tables \<open>incidents\<close> and \<open>incident_alerts\<close>, the analyses in flight and the published events.\<close>

record corr_state =
  cs_store :: incident_store
  cs_alerts :: "IncidentAlert list"
  cs_inflight :: "string list"
  cs_published :: "NotificationEvent list"
  cs_warned :: "(string \<times> string) list"

datatype corr_call = CWindow | CUpsert | CPublish | CGetByID | CAlerts | CUpdate | CStale | CNames

record corr_env =
  ce_now :: int
  ce_uuid :: string
  ce_fail :: "corr_call \<Rightarrow> bool"
  ce_upstream :: "string \<Rightarrow> string \<Rightarrow> string list option"
  ce_downstream :: "string \<Rightarrow> string \<Rightarrow> string list option"
  ce_hints :: "(string, string) gomap"
  ce_rows :: "Incident list \<Rightarrow> Incident list"
  ce_analyze :: "Evidence \<Rightarrow> string + CausalAnalysis"
  ce_sort :: "IncidentAlert list \<Rightarrow> IncidentAlert list"
  ce_rfc3339 :: "int \<Rightarrow> string"
  ce_router :: "AutomationRouter option"
  ce_router_env :: router_env

definition correlationWindow :: int where
  "correlationWindow = 5 * 60 * second"

section \<open>incident_repository.go\<close>

definition linked_alerts :: "string \<Rightarrow> corr_state \<Rightarrow> IncidentAlert list" where
  "linked_alerts incidentID s = filter (\<lambda>a. ia_IncidentID a = incidentID) (cs_alerts s)"

definition serviceNames :: "corr_env \<Rightarrow> string \<Rightarrow> corr_state \<Rightarrow> string list" where
  "serviceNames E incidentID s = (if ce_fail E CNames then [] else sort (remdups (map ia_ServiceName (linked_alerts incidentID s))))"

definition GetOpenByWindow :: "corr_env \<Rightarrow> string list \<Rightarrow> int \<Rightarrow> corr_state \<Rightarrow> Incident option" where
  "GetOpenByWindow E candidateServices windowStart s = (if ce_fail E CWindow then None else
     case ce_rows E (filter (\<lambda>i. inc_Status i = ''OPEN'' \<and> windowStart \<le> inc_StartedAt i \<and>
         (\<exists>a \<in> set (linked_alerts (inc_ID i) s). ia_ServiceName a \<in> set candidateServices)) (st_incidents (cs_store s))) of
       [] \<Rightarrow> None
     | i # _ \<Rightarrow> Some (i\<lparr>inc_ServiceNames := []\<rparr>))"

definition severities :: "string list" where
  "severities = [''DEBUG'', ''INFO'', ''WARNING'', ''ERROR'', ''FATAL'']"

text \<open>\<open>ARRAY_POSITION\<close> is null for a level outside the list, and a comparison with null is not true.\<close>

fun array_position :: "string list \<Rightarrow> string \<Rightarrow> nat option" where
  "array_position [] x = None"
| "array_position (y # ys) x = (if x = y then Some 0 else map_option Suc (array_position ys x))"

definition higher_severity :: "string \<Rightarrow> string \<Rightarrow> string" where
  "higher_severity excluded old = (case (array_position severities excluded, array_position severities old) of
     (Some i, Some j) \<Rightarrow> if i > j then excluded else old | _ \<Rightarrow> old)"

definition bump :: "int \<Rightarrow> Incident \<Rightarrow> Incident \<Rightarrow> Incident" where
  "bump now incident row = row\<lparr>inc_AlertCount := inc_AlertCount row + 1,
     inc_Severity := higher_severity (inc_Severity incident) (inc_Severity row), inc_UpdatedAt := now\<rparr>"

definition upsert_row :: "int \<Rightarrow> Incident \<Rightarrow> Incident list \<Rightarrow> Incident list" where
  "upsert_row now incident rows =
     (if inc_ID incident \<in> inc_ID ` set rows
      then map (\<lambda>r. if inc_ID r = inc_ID incident then bump now incident r else r) rows
      else rows @ [incident\<lparr>inc_ServiceNames := [], inc_ResolvedAt := None, inc_Causal := None\<rparr>])"

definition link_alert :: "string \<Rightarrow> Alert \<Rightarrow> IncidentAlert list \<Rightarrow> IncidentAlert list" where
  "link_alert incidentID a rows =
     (if \<exists>r \<in> set rows. ia_IncidentID r = incidentID \<and> ia_AlertID r = al_ID a then rows
      else rows @ [\<lparr>ia_IncidentID = incidentID, ia_AlertID = al_ID a, ia_ServiceName = al_ServiceName a, ia_Level = al_Level a,
                    ia_Message = al_Message a, ia_TriggeredAt = al_TriggeredAt a\<rparr>])"

definition Upsert :: "corr_env \<Rightarrow> Incident \<Rightarrow> Alert \<Rightarrow> corr_state \<Rightarrow> (string + Incident) \<times> corr_state" where
  "Upsert E incident a s = (if ce_fail E CUpsert then (Inl ''upsert'', s) else let
     rows = upsert_row (ce_now E) incident (st_incidents (cs_store s));
     s' = s\<lparr>cs_store := (cs_store s)\<lparr>st_incidents := rows\<rparr>, cs_alerts := link_alert (inc_ID incident) a (cs_alerts s)\<rparr>
   in case find (\<lambda>r. inc_ID r = inc_ID incident) rows of
        None \<Rightarrow> (Inl ''upsert'', s)
      | Some row \<Rightarrow> (Inr (row\<lparr>inc_ServiceNames := []\<rparr>), s'))"

definition GetByID :: "corr_env \<Rightarrow> string \<Rightarrow> corr_state \<Rightarrow> Incident option" where
  "GetByID E incidentID s = (if ce_fail E CGetByID then None else
     map_option (\<lambda>i. i\<lparr>inc_ServiceNames := serviceNames E incidentID s\<rparr>)
       (find (\<lambda>i. inc_ID i = incidentID) (st_incidents (cs_store s))))"

definition AlertsForIncident :: "corr_env \<Rightarrow> string \<Rightarrow> corr_state \<Rightarrow> IncidentAlert list option" where
  "AlertsForIncident E incidentID s = (if ce_fail E CAlerts then None else Some (sort_key ia_TriggeredAt (linked_alerts incidentID s)))"

definition is_stale :: "int \<Rightarrow> int \<Rightarrow> Incident \<Rightarrow> bool" where
  "is_stale now quietFor i \<longleftrightarrow> inc_Status i = ''OPEN'' \<and> inc_UpdatedAt i < now - quietFor"

definition resolve :: "int \<Rightarrow> Incident \<Rightarrow> Incident" where
  "resolve now i = i\<lparr>inc_Status := ''RESOLVED'', inc_ResolvedAt := Some now, inc_UpdatedAt := now\<rparr>"

definition ResolveStale :: "corr_env \<Rightarrow> int \<Rightarrow> corr_state \<Rightarrow> Incident list option \<times> corr_state" where
  "ResolveStale E quietFor s = (if ce_fail E CStale then (None, s) else let
     rows = st_incidents (cs_store s);
     hit = map (resolve (ce_now E)) (filter (is_stale (ce_now E) quietFor) rows)
   in (Some (map (\<lambda>i. i\<lparr>inc_ServiceNames := serviceNames E (inc_ID i) s, inc_Causal := None\<rparr>) hit),
       s\<lparr>cs_store := (cs_store s)\<lparr>st_incidents := map (\<lambda>i. if is_stale (ce_now E) quietFor i then resolve (ce_now E) i else i) rows\<rparr>\<rparr>))"

section \<open>correlator.go\<close>

text \<open>The comparison of \<open>containsIgnoreCase\<close>, position by position, with its own folding of the letters.\<close>

definition fold_letter :: "char \<Rightarrow> char" where
  "fold_letter c = (let k = (of_char c :: nat) in if 65 \<le> k \<and> k \<le> 90 then char_of (k + 32) else c)"

fun match_here :: "string \<Rightarrow> string \<Rightarrow> bool" where
  "match_here s [] \<longleftrightarrow> True"
| "match_here [] (r # rs) \<longleftrightarrow> False"
| "match_here (c # cs) (r # rs) \<longleftrightarrow> fold_letter c = fold_letter r \<and> match_here cs rs"

fun match_from :: "string \<Rightarrow> string \<Rightarrow> bool" where
  "match_from s sub \<longleftrightarrow> length sub \<le> length s \<and> (match_here s sub \<or> (case s of [] \<Rightarrow> False | _ # cs \<Rightarrow> match_from cs sub))"

declare match_from.simps [simp del]

definition containsIgnoreCase :: "string \<Rightarrow> string \<Rightarrow> bool" where
  "containsIgnoreCase s sub \<longleftrightarrow> length sub \<le> length s \<and> match_from s sub"

definition rootCauseHints :: "(string, string) gomap" where
  "rootCauseHints =
    [(''connection'', ''Database or network connectivity issue''),
     (''timeout'', ''Downstream service latency or resource exhaustion''),
     (''memory'', ''Memory pressure '' @ emdash @ '' possible OOM condition''),
     (''kafka'', ''Kafka broker unavailability or consumer lag''),
     (''auth'', ''Authentication service degradation''),
     (''permission'', ''Authorization failure or misconfigured credentials''),
     (''crash'', ''Application panic or unhandled exception''),
     (''unavailable'', ''Upstream service is down or unreachable'')]"

text \<open>Go iterates a map in an unspecified order: \<open>hints\<close> is \<open>rootCauseHints\<close> in some order.\<close>

definition inferRootCause :: "(string, string) gomap \<Rightarrow> Alert \<Rightarrow> string" where
  "inferRootCause hints a = (case find (\<lambda>(keyword, cause). containsIgnoreCase (al_Message a) keyword) hints of
     Some (keyword, cause) \<Rightarrow> cause
   | None \<Rightarrow> ''Elevated '' @ al_Level a @ '' events in '' @ al_ServiceName a)"

definition buildTitle :: "Alert \<Rightarrow> string" where
  "buildTitle a = ''['' @ al_Level a @ ''] '' @ al_ServiceName a @ '' degradation detected''"

definition new_incident :: "corr_env \<Rightarrow> Alert \<Rightarrow> Incident" where
  "new_incident E a = \<lparr>inc_TenantID = al_TenantID a, inc_ID = ce_uuid E, inc_Title = buildTitle a,
     inc_RootCause = inferRootCause (ce_hints E) a, inc_Status = ''OPEN'', inc_Severity = al_Level a, inc_ServiceNames = [],
     inc_AlertCount = 0, inc_StartedAt = al_TriggeredAt a, inc_ResolvedAt = None, inc_CreatedAt = ce_now E, inc_UpdatedAt = ce_now E,
     inc_Causal = None\<rparr>"

definition candidate_services :: "corr_env \<Rightarrow> Alert \<Rightarrow> string list" where
  "candidate_services E a = (case ce_upstream E (al_TenantID a) (al_ServiceName a) of None \<Rightarrow> [] | Some us \<Rightarrow> us) @ [al_ServiceName a]"

definition correlate :: "corr_env \<Rightarrow> Alert \<Rightarrow> corr_state \<Rightarrow> (string + Incident) \<times> corr_state" where
  "correlate E a s = (case GetOpenByWindow E (candidate_services E a) (al_TriggeredAt a - correlationWindow) s of
     Some existing \<Rightarrow> Upsert E existing a s
   | None \<Rightarrow> Upsert E (new_incident E a) a s)"

definition notify :: "Incident \<Rightarrow> Alert \<Rightarrow> NotificationEvent" where
  "notify incident a = \<lparr>ne_IncidentID = inc_ID incident, ne_TenantID = inc_TenantID incident, ne_Action = Triggered,
     ne_Title = inc_Title incident,
     ne_Body = ''['' @ al_Level a @ ''] '' @ al_ServiceName a @ '' '' @ emdash @ '' '' @ al_Message a @ '' (alert_count='' @
       format_int (inc_AlertCount incident) @ '')'',
     ne_Severity = inc_Severity incident, ne_Services = inc_ServiceNames incident\<rparr>"

definition scheduleCausalAnalysis :: "string \<Rightarrow> corr_state \<Rightarrow> bool \<times> corr_state" where
  "scheduleCausalAnalysis incidentID s =
     (if incidentID \<in> set (cs_inflight s) then (False, s) else (True, s\<lparr>cs_inflight := incidentID # cs_inflight s\<rparr>))"

text \<open>Handling one message; \<open>None\<close> is a payload that is not an alert. The result is whether the message
  is acknowledged. The downstream warnings are sent by a goroutine of their own.\<close>

definition corr_Handle :: "corr_env \<Rightarrow> Alert option \<Rightarrow> corr_state \<Rightarrow> bool \<times> corr_state" where
  "corr_Handle E msg s = (case msg of None \<Rightarrow> (True, s) | Some a \<Rightarrow>
     (case correlate E a s of
        (Inl err, s') \<Rightarrow> (False, s')
      | (Inr incident, s') \<Rightarrow> let
          s1 = (if ce_fail E CPublish then s' else s'\<lparr>cs_published := cs_published s' @ [notify incident a]\<rparr>);
          s2 = (case ce_downstream E (al_TenantID a) (al_ServiceName a) of None \<Rightarrow> s1
                | Some ds \<Rightarrow> s1\<lparr>cs_warned := cs_warned s1 @ map (\<lambda>d. (al_TenantID a, d)) ds\<rparr>)
        in (True, snd (scheduleCausalAnalysis (inc_ID incident) s2))))"

definition buildEvidence :: "Incident \<Rightarrow> IncidentAlert list \<Rightarrow> (string, string list) gomap \<Rightarrow> Evidence" where
  "buildEvidence inc alerts deps = \<lparr>ev_Incident = inc, ev_Alerts = alerts, ev_Dependencies = deps, ev_Window = correlationWindow\<rparr>"

definition gather_deps :: "corr_env \<Rightarrow> Incident \<Rightarrow> (string, string list) gomap" where
  "gather_deps E inc = List.map_filter (\<lambda>svc. map_option (\<lambda>us. (svc, us)) (ce_upstream E (inc_TenantID inc) svc)) (inc_ServiceNames inc)"

definition route_target :: "CausalAnalysis \<Rightarrow> Incident \<Rightarrow> string" where
  "route_target result inc = (case ca_Chain result of l # _ \<Rightarrow> cl_FromService l
     | [] \<Rightarrow> (case inc_ServiceNames inc of n # _ \<Rightarrow> n | [] \<Rightarrow> []))"

text \<open>The body of the analysis goroutine. It removes its own in-flight mark in every case.\<close>

definition analyze_body :: "corr_env \<Rightarrow> string \<Rightarrow> corr_state \<Rightarrow> corr_state" where
  "analyze_body E incidentID s =
     (case GetByID E incidentID s of None \<Rightarrow> s | Some inc \<Rightarrow>
       (case AlertsForIncident E incidentID s of None \<Rightarrow> s | Some alerts \<Rightarrow> let
          evidence = buildEvidence inc alerts (gather_deps E inc);
          result = (case ce_analyze E evidence of Inr r \<Rightarrow> r
                    | Inl err \<Rightarrow> noop_Analyze (ce_sort E) (ce_rfc3339 E) (ce_now E) evidence)
        in case GroundAnalysis (Some result) (Some evidence) of None \<Rightarrow> s | Some g \<Rightarrow>
          if ce_fail E CUpdate \<or> \<not> encodable g then s else let
            s1 = s\<lparr>cs_store := UpdateCausalAnalysis (ce_now E) incidentID g (cs_store s)\<rparr>
          in case ce_router E of None \<Rightarrow> s1 | Some r \<Rightarrow>
            if route_target g inc = [] then s1
            else s1\<lparr>cs_store := Route (ce_router_env E) r incidentID (Some g) (route_target g inc) (cs_store s1)\<rparr>))"

definition run_analysis :: "corr_env \<Rightarrow> string \<Rightarrow> corr_state \<Rightarrow> corr_state" where
  "run_analysis E incidentID s = (let s' = analyze_body E incidentID s in s'\<lparr>cs_inflight := removeAll incidentID (cs_inflight s')\<rparr>)"

definition notifyResolved :: "string \<Rightarrow> Incident \<Rightarrow> NotificationEvent" where
  "notifyResolved quiet incident = \<lparr>ne_IncidentID = inc_ID incident, ne_TenantID = inc_TenantID incident, ne_Action = Resolved,
     ne_Title = inc_Title incident, ne_Body = ''Auto-resolved after '' @ quiet @ '' with no new alerts'',
     ne_Severity = inc_Severity incident, ne_Services = inc_ServiceNames incident\<rparr>"

definition sweepResolved :: "corr_env \<Rightarrow> int \<Rightarrow> string \<Rightarrow> corr_state \<Rightarrow> corr_state" where
  "sweepResolved E quietFor quiet s = (case ResolveStale E quietFor s of
     (None, s') \<Rightarrow> s'
   | (Some resolved, s') \<Rightarrow> if ce_fail E CPublish then s'
       else s'\<lparr>cs_published := cs_published s' @ map (notifyResolved quiet) resolved\<rparr>)"

definition DefaultAutoResolveInterval :: int where "DefaultAutoResolveInterval = 60 * second"
definition DefaultAutoResolveQuiet :: int where "DefaultAutoResolveQuiet = 10 * 60 * second"

definition sweep_period :: "int \<Rightarrow> int \<Rightarrow> int \<times> int" where
  "sweep_period interval quietFor = (if interval \<le> 0 then DefaultAutoResolveInterval else interval,
     if quietFor \<le> 0 then DefaultAutoResolveQuiet else quietFor)"

section \<open>Matching\<close>

lemma fold_letter_lower: "fold_letter = lower_char"
  by (rule ext) (simp add: fold_letter_def lower_char_def)

lemma match_here_prefix: "match_here s sub \<longleftrightarrow> has_prefix (to_lower sub) (to_lower s)"
  by (induction s sub rule: match_here.induct) (auto simp: has_prefix_def to_lower_def fold_letter_lower)

lemma contains_length: "contains p s \<Longrightarrow> length p \<le> length s"
  by (auto simp: contains_iff)

lemma match_from_contains: "match_from s sub \<longleftrightarrow> contains (to_lower sub) (to_lower s)"
proof (induction s)
  case Nil
  show ?case by (subst match_from.simps) (auto simp: to_lower_def)
next
  case (Cons c cs)
  have "contains (to_lower sub) (to_lower (c # cs)) \<Longrightarrow> length sub \<le> length (c # cs)"
    using contains_length [of "to_lower sub" "to_lower (c # cs)"] by (simp only: length_to_lower)
  then show ?case using Cons match_here_prefix [of "c # cs" sub] by (subst match_from.simps) (auto simp: to_lower_def)
qed

section \<open>What the operations keep\<close>

definition core :: "Incident \<Rightarrow> Incident" where
  "core i = i\<lparr>inc_Causal := None, inc_UpdatedAt := 0\<rparr>"

lemma UpdateCausalAnalysis_core: "map core (st_incidents (UpdateCausalAnalysis now i c st)) = map core (st_incidents st)"
  by (simp add: UpdateCausalAnalysis_def core_def)

lemma UpdateCausalAnalysis_row:
  "encodable c \<Longrightarrow> row \<in> set (st_incidents (UpdateCausalAnalysis now i c st)) \<Longrightarrow> inc_ID row = i \<Longrightarrow> inc_Causal row = Some c"
proof -
  assume c: "encodable c" and row: "row \<in> set (st_incidents (UpdateCausalAnalysis now i c st))" "inc_ID row = i"
  let ?f = "\<lambda>x. if inc_ID x = i then x\<lparr>inc_Causal := Some c, inc_UpdatedAt := now\<rparr> else x"
  from c row(1) have "row \<in> ?f ` set (st_incidents st)" by (simp add: UpdateCausalAnalysis_def)
  then obtain x where x: "row = ?f x" by blast
  show ?thesis using row(2) unfolding x by (cases "inc_ID x = i") simp_all
qed

lemma persist_core: "map core (st_incidents (snd (persist E i c status st))) = map core (st_incidents st)"
  by (simp add: persist_def Let_def UpdateCausalAnalysis_core)

lemma dispatch_core: "map core (st_incidents (snd (dispatch E r i c pb svc dry st))) = map core (st_incidents st)"
  by (simp add: dispatch_def updateStatus_def Let_def persist_core split: agent_result.splits)

lemma Route_core: "map core (st_incidents (Route E r i causal svc st)) = map core (st_incidents st)"
  by (auto simp: Route_def persist_core case_prod_unfold Let_def dispatch_core split: option.splits Decision.splits)

lemma core_fields: "core i = core j \<Longrightarrow> inc_ID i = inc_ID j \<and> inc_TenantID i = inc_TenantID j \<and> inc_Status i = inc_Status j \<and>
    inc_Severity i = inc_Severity j \<and> inc_AlertCount i = inc_AlertCount j \<and> inc_StartedAt i = inc_StartedAt j"
  by (cases i; cases j) (simp add: core_def)

definition core_key :: "Incident \<Rightarrow> string \<times> int" where
  "core_key i = (inc_ID i, inc_AlertCount i)"

lemma map_core_key: "map core xs = map core ys \<Longrightarrow> map core_key xs = map core_key ys"
proof -
  have "core_key i = core_key (core i)" for i by (simp add: core_key_def core_def)
  then show "map core xs = map core ys \<Longrightarrow> map core_key xs = map core_key ys" by (metis (no_types, lifting) list.map_comp comp_def map_cong)
qed

lemma analyze_body_keeps:
  "map core (st_incidents (cs_store (analyze_body E i s))) = map core (st_incidents (cs_store s)) \<and>
   cs_alerts (analyze_body E i s) = cs_alerts s \<and> cs_inflight (analyze_body E i s) = cs_inflight s \<and>
   cs_published (analyze_body E i s) = cs_published s"
  by (auto simp: analyze_body_def Let_def Route_core UpdateCausalAnalysis_core split: option.splits)

text \<open>The invariant of the tables: incident ids and alert links are unique, every link points to an
  incident, and an incident's counter is at least the number of its alerts less one.\<close>

definition corr_inv :: "corr_state \<Rightarrow> bool" where
  "corr_inv s \<longleftrightarrow> distinct (map inc_ID (st_incidents (cs_store s))) \<and>
     distinct (map (\<lambda>a. (ia_IncidentID a, ia_AlertID a)) (cs_alerts s)) \<and>
     ia_IncidentID ` set (cs_alerts s) \<subseteq> inc_ID ` set (st_incidents (cs_store s)) \<and>
     (\<forall>i \<in> set (st_incidents (cs_store s)). int (length (linked_alerts (inc_ID i) s)) \<le> inc_AlertCount i + 1) \<and>
     distinct (cs_inflight s)"

definition rows_ok :: "corr_env \<Rightarrow> bool" where
  "rows_ok E \<longleftrightarrow> (\<forall>xs. mset (ce_rows E xs) = mset xs \<and> sorted_wrt (\<lambda>i j. inc_StartedAt i \<ge> inc_StartedAt j) (ce_rows E xs))"

lemma rows_ok_set: "rows_ok E \<Longrightarrow> set (ce_rows E xs) = set xs"
  unfolding rows_ok_def by (metis set_mset_mset)

lemma GetOpenByWindow_mem:
  assumes "rows_ok E" "GetOpenByWindow E cs w s = Some i"
  shows "\<exists>j \<in> set (st_incidents (cs_store s)). i = j\<lparr>inc_ServiceNames := []\<rparr> \<and> inc_Status j = ''OPEN'' \<and> w \<le> inc_StartedAt j \<and>
    (\<exists>a \<in> set (linked_alerts (inc_ID j) s). ia_ServiceName a \<in> set cs)"
proof -
  let ?P = "\<lambda>i. inc_Status i = ''OPEN'' \<and> w \<le> inc_StartedAt i \<and> (\<exists>a \<in> set (linked_alerts (inc_ID i) s). ia_ServiceName a \<in> set cs)"
  let ?xs = "filter ?P (st_incidents (cs_store s))"
  obtain j js where j: "ce_rows E ?xs = j # js" "i = j\<lparr>inc_ServiceNames := []\<rparr>"
    using assms(2) unfolding GetOpenByWindow_def by (cases "ce_rows E ?xs") (simp_all split: if_splits)
  have "j \<in> set (ce_rows E ?xs)" unfolding j(1) by simp
  then have "j \<in> set ?xs" unfolding rows_ok_set [OF assms(1)] .
  then show ?thesis using j(2) by (intro bexI [of _ j]) simp_all
qed

lemma GetOpenByWindow_newest:
  assumes "rows_ok E" "\<not> ce_fail E CWindow" "i \<in> set (st_incidents (cs_store s))" "inc_Status i = ''OPEN''" "w \<le> inc_StartedAt i"
    and "\<exists>a \<in> set (linked_alerts (inc_ID i) s). ia_ServiceName a \<in> set cs"
    and "\<forall>j \<in> set (st_incidents (cs_store s)). inc_Status j = ''OPEN'' \<and> j \<noteq> i \<longrightarrow> inc_StartedAt j < inc_StartedAt i"
  shows "GetOpenByWindow E cs w s = Some (i\<lparr>inc_ServiceNames := []\<rparr>)"
proof -
  let ?P = "\<lambda>i. inc_Status i = ''OPEN'' \<and> w \<le> inc_StartedAt i \<and> (\<exists>a \<in> set (linked_alerts (inc_ID i) s). ia_ServiceName a \<in> set cs)"
  let ?xs = "filter ?P (st_incidents (cs_store s))"
  have mem: "i \<in> set (ce_rows E ?xs)" unfolding rows_ok_set [OF assms(1)] using assms(3-6) by simp
  then obtain h hs where h: "ce_rows E ?xs = h # hs" by (cases "ce_rows E ?xs") auto
  have "sorted_wrt (\<lambda>i j. inc_StartedAt i \<ge> inc_StartedAt j) (ce_rows E ?xs)" using assms(1) unfolding rows_ok_def by blast
  then have le: "inc_StartedAt i \<le> inc_StartedAt h" using mem unfolding h by auto
  have "h \<in> set (ce_rows E ?xs)" unfolding h by simp
  then have "h \<in> set ?xs" unfolding rows_ok_set [OF assms(1)] .
  then have "h \<in> set (st_incidents (cs_store s))" "inc_Status h = ''OPEN''" by simp_all
  then have "h = i" using bspec [OF assms(7), of h] le by (metis linorder_not_le)
  then show ?thesis using h assms(2) unfolding GetOpenByWindow_def by simp
qed

lemma find_id: "i \<in> inc_ID ` set rows \<Longrightarrow> \<exists>r. find (\<lambda>r. inc_ID r = i) rows = Some r \<and> r \<in> set rows \<and> inc_ID r = i"
  by (cases "find (\<lambda>r. inc_ID r = i) rows") (auto simp: find_None_iff find_Some_iff)

lemma bump_ids: "map inc_ID (map (\<lambda>r. if inc_ID r = k then bump now i r else r) rows) = map inc_ID rows"
  by (induction rows) (auto simp: bump_def)

lemma upsert_row_ids: "inc_ID ` set (upsert_row now i rows) = insert (inc_ID i) (inc_ID ` set rows)"
proof -
  have "inc_ID ` set (map (\<lambda>r. if inc_ID r = inc_ID i then bump now i r else r) rows) = inc_ID ` set rows"
    using bump_ids by (metis set_map)
  then show ?thesis by (simp add: upsert_row_def insert_absorb)
qed

lemma Upsert_ok:
  assumes "\<not> ce_fail E CUpsert"
  shows "\<exists>row. Upsert E i a s = (Inr (row\<lparr>inc_ServiceNames := []\<rparr>),
      s\<lparr>cs_store := (cs_store s)\<lparr>st_incidents := upsert_row (ce_now E) i (st_incidents (cs_store s))\<rparr>,
        cs_alerts := link_alert (inc_ID i) a (cs_alerts s)\<rparr>) \<and>
    row \<in> set (upsert_row (ce_now E) i (st_incidents (cs_store s))) \<and> inc_ID row = inc_ID i"
proof -
  have "inc_ID i \<in> inc_ID ` set (upsert_row (ce_now E) i (st_incidents (cs_store s)))" by (simp add: upsert_row_ids)
  from find_id [OF this] show ?thesis using assms by (auto simp: Upsert_def Let_def)
qed

lemma link_alert_spec:
  "set (link_alert i a rows) = set rows \<or> (\<exists>r. link_alert i a rows = rows @ [r] \<and> ia_IncidentID r = i \<and> ia_AlertID r = al_ID a \<and>
     ia_ServiceName r = al_ServiceName a \<and> (\<forall>x \<in> set rows. (ia_IncidentID x, ia_AlertID x) \<noteq> (i, al_ID a)))"
  by (auto simp: link_alert_def)

lemma link_alert_mem: "\<exists>r \<in> set (link_alert i a rows). ia_IncidentID r = i \<and> ia_AlertID r = al_ID a"
  by (auto simp: link_alert_def)

lemma link_alert_count:
  "length (filter (\<lambda>x. ia_IncidentID x = j) (link_alert i a rows)) \<le>
   length (filter (\<lambda>x. ia_IncidentID x = j) rows) + (if i = j then 1 else 0)"
  by (auto simp: link_alert_def)

lemma link_alert_distinct:
  "distinct (map (\<lambda>a. (ia_IncidentID a, ia_AlertID a)) rows) \<Longrightarrow> distinct (map (\<lambda>a. (ia_IncidentID a, ia_AlertID a)) (link_alert i a rows))"
  by (auto simp: link_alert_def)

lemma upsert_row_distinct: "distinct (map inc_ID rows) \<Longrightarrow> distinct (map inc_ID (upsert_row now i rows))"
proof (cases "inc_ID i \<in> inc_ID ` set rows")
  case True
  then have "map inc_ID (upsert_row now i rows) = map inc_ID rows" unfolding upsert_row_def by (simp only: if_True bump_ids)
  then show "distinct (map inc_ID rows) \<Longrightarrow> distinct (map inc_ID (upsert_row now i rows))" by simp
qed (simp add: upsert_row_def)

lemma Upsert_inv:
  assumes "corr_inv s" "inc_ID i \<in> inc_ID ` set (st_incidents (cs_store s)) \<or> inc_AlertCount i = 0"
  shows "corr_inv (snd (Upsert E i a s))"
proof (cases "ce_fail E CUpsert")
  case True
  then show ?thesis using assms by (simp add: Upsert_def)
next
  case False
  let ?rows = "st_incidents (cs_store s)"
  let ?s' = "s\<lparr>cs_store := (cs_store s)\<lparr>st_incidents := upsert_row (ce_now E) i ?rows\<rparr>, cs_alerts := link_alert (inc_ID i) a (cs_alerts s)\<rparr>"
  from Upsert_ok [OF False] have e: "snd (Upsert E i a s) = ?s'" by (metis snd_conv)
  have count: "length (linked_alerts j ?s') \<le> length (linked_alerts j s) + (if inc_ID i = j then 1 else 0)" for j
    using link_alert_count [of j "inc_ID i" a "cs_alerts s"] by (simp add: linked_alerts_def)
  have inv: "distinct (map inc_ID ?rows)" "ia_IncidentID ` set (cs_alerts s) \<subseteq> inc_ID ` set ?rows"
    "\<And>r. r \<in> set ?rows \<Longrightarrow> int (length (linked_alerts (inc_ID r) s)) \<le> inc_AlertCount r + 1" using assms(1) by (auto simp: corr_inv_def)
  have bound: "int (length (linked_alerts (inc_ID r) ?s')) \<le> inc_AlertCount r + 1" if r: "r \<in> set (upsert_row (ce_now E) i ?rows)" for r
  proof (cases "inc_ID i \<in> inc_ID ` set ?rows")
    case True
    then obtain r0 where "r0 \<in> set ?rows" "r = (if inc_ID r0 = inc_ID i then bump (ce_now E) i r0 else r0)"
      using r by (auto simp: upsert_row_def)
    then show ?thesis using inv(3) [of r0] count [of "inc_ID r0"]
      by (cases "inc_ID r0 = inc_ID i") (simp_all add: bump_def)
  next
    case False
    then have "\<forall>x \<in> set (cs_alerts s). ia_IncidentID x \<noteq> inc_ID i" using inv(2) unfolding image_subset_iff by metis
    then have "linked_alerts (inc_ID i) s = []" by (simp add: linked_alerts_def filter_empty_conv)
    moreover have "r \<in> set ?rows \<or> (inc_ID r = inc_ID i \<and> inc_AlertCount r = inc_AlertCount i)"
      using r False by (auto simp: upsert_row_def)
    moreover have "r \<in> set ?rows \<Longrightarrow> inc_ID i \<noteq> inc_ID r" using False by auto
    ultimately show ?thesis using False inv(3) [of r] count [of "inc_ID r"] assms(2) by fastforce
  qed
  have "ia_IncidentID ` set (link_alert (inc_ID i) a (cs_alerts s)) \<subseteq> insert (inc_ID i) (inc_ID ` set ?rows)"
    using inv(2) by (auto simp: link_alert_def)
  then have links: "ia_IncidentID ` set (cs_alerts ?s') \<subseteq> inc_ID ` set (st_incidents (cs_store ?s'))" by (simp add: upsert_row_ids)
  have "distinct (map (\<lambda>a. (ia_IncidentID a, ia_AlertID a)) (cs_alerts ?s'))" "distinct (cs_inflight ?s')"
    using assms(1) link_alert_distinct by (simp_all add: corr_inv_def)
  then show ?thesis unfolding e using links bound upsert_row_distinct [OF inv(1)] unfolding corr_inv_def by simp
qed

lemma corr_inv_same:
  assumes "corr_inv s" "map core_key (st_incidents (cs_store s')) = map core_key (st_incidents (cs_store s))" "cs_alerts s' = cs_alerts s"
    and "distinct (cs_inflight s')"
  shows "corr_inv s'"
proof -
  let ?r = "st_incidents (cs_store s)" and ?r' = "st_incidents (cs_store s')"
  have ids: "map inc_ID ?r' = map inc_ID ?r" using arg_cong [OF assms(2), of "map fst"] by (simp add: core_key_def comp_def)
  have keys: "core_key ` set ?r' = core_key ` set ?r" using assms(2) by (metis set_map)
  have la: "linked_alerts j s' = linked_alerts j s" for j using assms(3) by (simp add: linked_alerts_def)
  have "int (length (linked_alerts (inc_ID i) s')) \<le> inc_AlertCount i + 1" if "i \<in> set ?r'" for i
  proof -
    have "core_key i \<in> core_key ` set ?r" using that keys by blast
    then obtain j where "j \<in> set ?r" "inc_ID j = inc_ID i" "inc_AlertCount j = inc_AlertCount i" by (auto simp: core_key_def)
    then show ?thesis using assms(1) la by (metis corr_inv_def)
  qed
  moreover have "inc_ID ` set ?r' = inc_ID ` set ?r" using ids by (metis set_map)
  ultimately show ?thesis using assms ids by (simp add: corr_inv_def)
qed

section \<open>Reachable states\<close>

definition corr_start :: corr_state where
  "corr_start = \<lparr>cs_store = \<lparr>st_incidents = [], st_sent = []\<rparr>, cs_alerts = [], cs_inflight = [], cs_published = [], cs_warned = []\<rparr>"

text \<open>Messages, analyses and sweeps in any order. Identifiers of new incidents are fresh.\<close>

inductive corr_reach :: "corr_state \<Rightarrow> bool" where
  start: "corr_reach corr_start"
| handle: "corr_reach s \<Longrightarrow> rows_ok E \<Longrightarrow> ce_uuid E \<notin> inc_ID ` set (st_incidents (cs_store s)) \<Longrightarrow> corr_reach (snd (corr_Handle E msg s))"
| analysis: "corr_reach s \<Longrightarrow> corr_reach (run_analysis E i s)"
| sweep: "corr_reach s \<Longrightarrow> corr_reach (sweepResolved E quietFor quiet s)"

lemma correlate_inv:
  assumes "corr_inv s" "rows_ok E"
  shows "corr_inv (snd (correlate E a s))"
proof (cases "GetOpenByWindow E (candidate_services E a) (al_TriggeredAt a - correlationWindow) s")
  case None
  then show ?thesis using Upsert_inv [OF assms(1), of "new_incident E a"] by (simp add: correlate_def new_incident_def)
next
  case (Some i)
  from GetOpenByWindow_mem [OF assms(2) Some] have "inc_ID i \<in> inc_ID ` set (st_incidents (cs_store s))" by auto
  then show ?thesis using Upsert_inv [OF assms(1), of i] Some by (simp add: correlate_def)
qed

lemma schedule_keeps:
  assumes "corr_inv s"
  shows "corr_inv (snd (scheduleCausalAnalysis i s))"
proof (rule corr_inv_same [OF assms])
  show "distinct (cs_inflight (snd (scheduleCausalAnalysis i s)))" using assms by (simp add: scheduleCausalAnalysis_def corr_inv_def)
qed (simp_all add: scheduleCausalAnalysis_def)

lemma corr_Handle_inv:
  assumes "corr_inv s" "rows_ok E"
  shows "corr_inv (snd (corr_Handle E msg s))"
proof (cases msg)
  case (Some a)
  obtain r s' where c: "correlate E a s = (r, s')" by fastforce
  then have inv: "corr_inv s'" using correlate_inv [OF assms, of a] by simp
  have keep: "corr_inv s2" if "cs_store s2 = cs_store s'" "cs_alerts s2 = cs_alerts s'" "cs_inflight s2 = cs_inflight s'" for s2
    using that inv by (simp add: corr_inv_def linked_alerts_def)
  show ?thesis
  proof (cases r)
    case (Inr inc)
    then show ?thesis using Some c
      by (simp add: corr_Handle_def Let_def schedule_keeps keep split: option.splits)
  qed (use Some c inv in \<open>simp add: corr_Handle_def\<close>)
qed (use assms in \<open>simp add: corr_Handle_def\<close>)

lemma run_analysis_inv:
  assumes "corr_inv s"
  shows "corr_inv (run_analysis E i s)"
proof (rule corr_inv_same [OF assms])
  note k = analyze_body_keeps [of E i s]
  show "map core_key (st_incidents (cs_store (run_analysis E i s))) = map core_key (st_incidents (cs_store s))"
    using k by (intro map_core_key) (simp add: run_analysis_def Let_def)
  show "cs_alerts (run_analysis E i s) = cs_alerts s" using k by (simp add: run_analysis_def Let_def)
  show "distinct (cs_inflight (run_analysis E i s))"
    using k assms by (simp add: run_analysis_def Let_def corr_inv_def distinct_removeAll)
qed

lemma sweepResolved_store:
  "cs_alerts (sweepResolved E q t s) = cs_alerts s \<and> cs_inflight (sweepResolved E q t s) = cs_inflight s \<and>
   st_sent (cs_store (sweepResolved E q t s)) = st_sent (cs_store s) \<and>
   st_incidents (cs_store (sweepResolved E q t s)) = (if ce_fail E CStale then st_incidents (cs_store s)
     else map (\<lambda>i. if is_stale (ce_now E) q i then resolve (ce_now E) i else i) (st_incidents (cs_store s)))"
  by (simp add: sweepResolved_def ResolveStale_def Let_def)

lemma sweepResolved_inv:
  assumes "corr_inv s"
  shows "corr_inv (sweepResolved E q t s)"
proof (rule corr_inv_same [OF assms])
  show "map core_key (st_incidents (cs_store (sweepResolved E q t s))) = map core_key (st_incidents (cs_store s))"
    by (simp add: sweepResolved_store resolve_def core_key_def)
  show "distinct (cs_inflight (sweepResolved E q t s))" using assms by (simp add: sweepResolved_store corr_inv_def)
qed (simp add: sweepResolved_store)

lemma corr_reach_inv: "corr_reach s \<Longrightarrow> corr_inv s"
proof (induction rule: corr_reach.induct)
  case start
  show ?case by (simp add: corr_inv_def corr_start_def)
qed (simp_all add: corr_Handle_inv run_analysis_inv sweepResolved_inv)

section \<open>Samples\<close>

definition sample_corr_env :: corr_env where
  "sample_corr_env = \<lparr>ce_now = 0, ce_uuid = ''inc-1'', ce_fail = \<lambda>_. False, ce_upstream = \<lambda>_ _. None, ce_downstream = \<lambda>_ _. None,
     ce_hints = rootCauseHints, ce_rows = sort_key (\<lambda>i. - inc_StartedAt i), ce_analyze = \<lambda>_. Inl ''down'', ce_sort = sort_key ia_TriggeredAt,
     ce_rfc3339 = \<lambda>_. [], ce_router = Some (NewAutomationRouter ''k''), ce_router_env = sample_router_env\<rparr>"

lemma sample_rows_ok: "rows_ok sample_corr_env"
proof -
  have "sorted_wrt (\<lambda>i j. inc_StartedAt i \<ge> inc_StartedAt j) (sort_key (\<lambda>i. - inc_StartedAt i) xs)" for xs :: "Incident list"
    using sorted_sort_key [of "\<lambda>i. - inc_StartedAt i" xs] by (simp add: sorted_wrt_map)
  then show ?thesis by (simp add: rows_ok_def sample_corr_env_def)
qed

definition sample_alert :: Alert where
  "sample_alert = \<lparr>al_TenantID = ''acme'', al_ID = ''a1'', al_ServiceName = ''api'', al_Level = ''WARNING'', al_Message = ''slow'', al_TriggeredAt = 0\<rparr>"

definition open_incident :: Incident where
  "open_incident = \<lparr>inc_TenantID = ''acme'', inc_ID = ''inc-1'', inc_Title = [], inc_RootCause = ''memory'', inc_Status = ''OPEN'',
     inc_Severity = ''WARNING'', inc_ServiceNames = [], inc_AlertCount = 0, inc_StartedAt = 0, inc_ResolvedAt = None, inc_CreatedAt = 0,
     inc_UpdatedAt = 0, inc_Causal = None\<rparr>"

definition open_state :: corr_state where
  "open_state = corr_start\<lparr>cs_store := \<lparr>st_incidents = [open_incident], st_sent = []\<rparr>,
     cs_alerts := [\<lparr>ia_IncidentID = ''inc-1'', ia_AlertID = ''a1'', ia_ServiceName = ''api'', ia_Level = ''WARNING'', ia_Message = ''slow'', ia_TriggeredAt = 0\<rparr>]\<rparr>"

lemma open_state_match: "GetOpenByWindow sample_corr_env [''api''] w open_state = (if w \<le> 0 then Some open_incident else None)"
  by (simp add: GetOpenByWindow_def sample_corr_env_def open_state_def corr_start_def linked_alerts_def open_incident_def)

lemma first_alert_state:
  "\<exists>i l. st_incidents (cs_store (snd (corr_Handle sample_corr_env (Some sample_alert) corr_start))) = [i] \<and> inc_ID i = ''inc-1'' \<and>
     inc_TenantID i = ''acme'' \<and> inc_Status i = ''OPEN'' \<and> inc_StartedAt i = 0 \<and>
     cs_alerts (snd (corr_Handle sample_corr_env (Some sample_alert) corr_start)) = [l] \<and> ia_IncidentID l = ''inc-1'' \<and> ia_ServiceName l = ''api''"
  by (simp add: corr_Handle_def correlate_def sample_corr_env_def Upsert_def upsert_row_def corr_start_def GetOpenByWindow_def
      new_incident_def sample_alert_def link_alert_def scheduleCausalAnalysis_def Let_def)

section \<open>Properties\<close>

text \<open>C7: the incident tables stay consistent. Whatever messages, analyses and sweeps run, in any order and
  with any of their database calls failing, incident ids are unique, no alert is linked twice to an
  incident, every link points to an existing incident, the alert counter is at least the number of
  linked alerts less one, and no incident is in analysis twice.\<close>

theorem incident_tables_consistent:
  assumes "corr_reach s"
  shows "distinct (map inc_ID (st_incidents (cs_store s))) \<and>
    distinct (map (\<lambda>a. (ia_IncidentID a, ia_AlertID a)) (cs_alerts s)) \<and>
    ia_IncidentID ` set (cs_alerts s) \<subseteq> inc_ID ` set (st_incidents (cs_store s)) \<and>
    (\<forall>i \<in> set (st_incidents (cs_store s)). int (length (linked_alerts (inc_ID i) s)) \<le> inc_AlertCount i + 1) \<and>
    distinct (cs_inflight s)"
  using corr_reach_inv [OF assms] by (simp add: corr_inv_def)

theorem incident_tables_consistent_witness:
  "distinct (map inc_ID (st_incidents (cs_store (snd (corr_Handle sample_corr_env (Some sample_alert) corr_start)))))"
proof -
  have "corr_reach (snd (corr_Handle sample_corr_env (Some sample_alert) corr_start))"
    by (rule corr_reach.handle [OF corr_reach.start sample_rows_ok]) (simp add: corr_start_def)
  from incident_tables_consistent [OF this] show ?thesis by blast
qed

text \<open>An alert is recorded or redelivered. When a message is acknowledged and holds an alert, the alert
  is linked to an incident of the table; when it is not acknowledged, nothing has changed.\<close>

theorem alert_recorded_or_redelivered:
  assumes "corr_Handle E (Some a) s = (ack, s')"
  shows "(ack \<longrightarrow> (\<exists>l \<in> set (cs_alerts s'). ia_AlertID l = al_ID a \<and> ia_IncidentID l \<in> inc_ID ` set (st_incidents (cs_store s')))) \<and>
    (\<not> ack \<longrightarrow> s' = s)"
proof -
  obtain i where i: "correlate E a s = Upsert E i a s" by (cases "GetOpenByWindow E (candidate_services E a) (al_TriggeredAt a - correlationWindow) s")
      (simp_all add: correlate_def)
  show ?thesis
  proof (cases "ce_fail E CUpsert")
    case True
    then show ?thesis using assms i by (simp add: corr_Handle_def Upsert_def)
  next
    case False
    let ?s1 = "s\<lparr>cs_store := (cs_store s)\<lparr>st_incidents := upsert_row (ce_now E) i (st_incidents (cs_store s))\<rparr>,
        cs_alerts := link_alert (inc_ID i) a (cs_alerts s)\<rparr>"
    from Upsert_ok [OF False, of i a s] obtain row where u: "Upsert E i a s = (Inr (row\<lparr>inc_ServiceNames := []\<rparr>), ?s1)" by blast
    have s': "ack" "cs_alerts s' = cs_alerts ?s1" "cs_store s' = cs_store ?s1"
      using assms i u by (auto simp: corr_Handle_def Let_def scheduleCausalAnalysis_def split: option.splits if_splits)
    from link_alert_mem [of "inc_ID i" a "cs_alerts s"] obtain l where
      "l \<in> set (cs_alerts s')" "ia_IncidentID l = inc_ID i" "ia_AlertID l = al_ID a" using s'(2) by auto
    moreover have "inc_ID i \<in> inc_ID ` set (st_incidents (cs_store s'))" using s'(3) by (simp add: upsert_row_ids)
    ultimately show ?thesis using s'(1) by auto
  qed
qed

theorem alert_recorded_or_redelivered_witness:
  "\<exists>s'. corr_Handle sample_corr_env (Some sample_alert) corr_start = (True, s') \<and> (\<exists>l \<in> set (cs_alerts s'). ia_AlertID l = ''a1'')"
proof -
  obtain ack s' where h: "corr_Handle sample_corr_env (Some sample_alert) corr_start = (ack, s')" by fastforce
  have "ack"
    using h Upsert_ok [of sample_corr_env _ sample_alert corr_start]
    by (auto simp: corr_Handle_def correlate_def sample_corr_env_def Upsert_def upsert_row_def corr_start_def GetOpenByWindow_def new_incident_def)
  with alert_recorded_or_redelivered [OF h] h show ?thesis by (auto simp: sample_alert_def)
qed

text \<open>C27: correlation crosses tenants. The lookup of an open incident compares services and start times
  but not tenants. In any reachable state, take an open incident of one tenant that started within
  the window, has an alert of a service, and is the newest open incident. An alert of any other
  tenant for a service of the same name is linked to that incident, and the notification is
  published to the incident's tenant with the other tenant's message.\<close>

theorem alert_joins_incident_of_other_tenant:
  assumes "corr_reach s" "rows_ok E" "\<not> ce_fail E CWindow" "\<not> ce_fail E CUpsert" "\<not> ce_fail E CPublish"
    and "i \<in> set (st_incidents (cs_store s))" "inc_Status i = ''OPEN''" "al_TriggeredAt a - correlationWindow \<le> inc_StartedAt i"
    and "l \<in> set (cs_alerts s)" "ia_IncidentID l = inc_ID i" "ia_ServiceName l = al_ServiceName a"
    and "\<forall>j \<in> set (st_incidents (cs_store s)). inc_Status j = ''OPEN'' \<and> j \<noteq> i \<longrightarrow> inc_StartedAt j < inc_StartedAt i"
    and "inc_TenantID i \<noteq> al_TenantID a"
  shows "\<exists>s' n. corr_Handle E (Some a) s = (True, s') \<and> (\<exists>l' \<in> set (cs_alerts s'). ia_IncidentID l' = inc_ID i \<and> ia_AlertID l' = al_ID a) \<and>
    n \<in> set (cs_published s') \<and> ne_TenantID n = inc_TenantID i \<and> contains (al_Message a) (ne_Body n)"
proof -
  let ?i = "i\<lparr>inc_ServiceNames := []\<rparr>"
  have g: "GetOpenByWindow E (candidate_services E a) (al_TriggeredAt a - correlationWindow) s = Some ?i"
    using assms(2,3,6-12) by (intro GetOpenByWindow_newest) (auto simp: candidate_services_def linked_alerts_def)
  have ids: "r = i" if "r \<in> set (st_incidents (cs_store s))" "inc_ID r = inc_ID i" for r
    using that assms(6) corr_reach_inv [OF assms(1)] by (auto simp: corr_inv_def distinct_map inj_on_def)
  from Upsert_ok [OF assms(4), of ?i a s] obtain row where u: "Upsert E ?i a s = (Inr (row\<lparr>inc_ServiceNames := []\<rparr>),
      s\<lparr>cs_store := (cs_store s)\<lparr>st_incidents := upsert_row (ce_now E) ?i (st_incidents (cs_store s))\<rparr>,
        cs_alerts := link_alert (inc_ID i) a (cs_alerts s)\<rparr>)"
    and row: "row \<in> set (upsert_row (ce_now E) ?i (st_incidents (cs_store s)))" "inc_ID row = inc_ID i" by auto
  have ten: "inc_TenantID row = inc_TenantID i"
  proof -
    obtain r where "r \<in> set (st_incidents (cs_store s))" "row = bump (ce_now E) ?i r \<and> inc_ID r = inc_ID i \<or> row = r"
      using row(1) assms(6) by (auto simp: upsert_row_def split: if_splits)
    with ids [of r] row(2) show ?thesis by (auto simp: bump_def)
  qed
  let ?n = "notify (row\<lparr>inc_ServiceNames := []\<rparr>) a"
  obtain s' where s': "corr_Handle E (Some a) s = (True, s')" "cs_published s' = cs_published s @ [?n]"
    "cs_alerts s' = link_alert (inc_ID i) a (cs_alerts s)"
    using u g assms(5) by (auto simp: corr_Handle_def correlate_def Let_def scheduleCausalAnalysis_def split: option.splits if_splits)
  have "contains (al_Message a) (ne_Body ?n)"
    unfolding contains_iff notify_def
    by (intro exI [of _ "''['' @ al_Level a @ ''] '' @ al_ServiceName a @ '' '' @ emdash @ '' ''"]
        exI [of _ "'' (alert_count='' @ format_int (inc_AlertCount row) @ '')''"]) simp
  moreover have "ne_TenantID ?n = inc_TenantID i" using ten by (simp add: notify_def)
  ultimately show ?thesis using s' link_alert_mem [of "inc_ID i" a "cs_alerts s"] by (intro exI [of _ s'] exI [of _ ?n]) auto
qed

theorem alert_joins_incident_of_other_tenant_witness:
  "\<exists>s s'. corr_reach s \<and> corr_Handle sample_corr_env (Some (sample_alert\<lparr>al_TenantID := ''rival'', al_ID := ''a2''\<rparr>)) s = (True, s') \<and>
    (\<exists>l \<in> set (cs_alerts s'). ia_IncidentID l = ''inc-1'' \<and> ia_AlertID l = ''a2'') \<and> (\<exists>n \<in> set (cs_published s'). ne_TenantID n = ''acme'')"
proof -
  let ?a = "sample_alert\<lparr>al_TenantID := ''rival'', al_ID := ''a2''\<rparr>"
  define s where "s = snd (corr_Handle sample_corr_env (Some sample_alert) corr_start)"
  have r: "corr_reach s" unfolding s_def
    by (rule corr_reach.handle [OF corr_reach.start sample_rows_ok]) (simp add: corr_start_def)
  obtain i l where i: "st_incidents (cs_store s) = [i]" "inc_ID i = ''inc-1''" "inc_TenantID i = ''acme''" "inc_Status i = ''OPEN''"
      "inc_StartedAt i = 0" and l: "cs_alerts s = [l]" "ia_IncidentID l = ''inc-1''" "ia_ServiceName l = ''api''"
    using first_alert_state unfolding s_def by blast
  have "\<not> ce_fail sample_corr_env c" for c by (simp add: sample_corr_env_def)
  then have "\<exists>s' n. corr_Handle sample_corr_env (Some ?a) s = (True, s') \<and>
      (\<exists>l' \<in> set (cs_alerts s'). ia_IncidentID l' = inc_ID i \<and> ia_AlertID l' = al_ID ?a) \<and>
      n \<in> set (cs_published s') \<and> ne_TenantID n = inc_TenantID i \<and> contains (al_Message ?a) (ne_Body n)"
    by (intro alert_joins_incident_of_other_tenant [OF r sample_rows_ok, where l = l])
      (simp_all add: i l sample_alert_def correlationWindow_def second_def)
  moreover have "al_ID ?a = ''a2''" by simp
  ultimately show ?thesis using r unfolding i(2,3) by metis
qed

text \<open>An incident never escalates. When an alert joins an open incident of the table, the incident
  keeps its severity whatever the alert's level, because the row is compared with the severity that
  was just read from it.\<close>

theorem severity_fixed_when_opened:
  assumes "rows_ok E" "corr_inv s" "GetOpenByWindow E (candidate_services E a) (al_TriggeredAt a - correlationWindow) s = Some i"
    and "correlate E a s = (Inr inc, s')"
  shows "inc_Severity inc = inc_Severity i \<and>
    map inc_Severity (st_incidents (cs_store s')) = map inc_Severity (st_incidents (cs_store s))"
proof -
  from GetOpenByWindow_mem [OF assms(1,3)] obtain j where j: "j \<in> set (st_incidents (cs_store s))" "i = j\<lparr>inc_ServiceNames := []\<rparr>" by blast
  have same: "higher_severity x x = x" for x by (simp add: higher_severity_def split: option.splits)
  have only: "r = j" if "r \<in> set (st_incidents (cs_store s))" "inc_ID r = inc_ID i" for r
    using that j assms(2) by (auto simp: corr_inv_def distinct_map inj_on_def)
  have sev: "inc_Severity (bump (ce_now E) i r) = inc_Severity r" if "r \<in> set (st_incidents (cs_store s))" "inc_ID r = inc_ID i" for r
    using only [OF that] j(2) by (simp add: bump_def same)
  have nf: "\<not> ce_fail E CUpsert" using assms(3,4) by (auto simp: correlate_def Upsert_def)
  let ?rows = "upsert_row (ce_now E) i (st_incidents (cs_store s))"
  have rows: "?rows = map (\<lambda>r. if inc_ID r = inc_ID i then bump (ce_now E) i r else r) (st_incidents (cs_store s))"
    using j by (auto simp: upsert_row_def)
  have u: "Upsert E i a s = (Inr inc, s')" using assms(3,4) by (simp add: correlate_def)
  from Upsert_ok [OF nf, of i a s] obtain row where e: "Upsert E i a s = (Inr (row\<lparr>inc_ServiceNames := []\<rparr>),
      s\<lparr>cs_store := (cs_store s)\<lparr>st_incidents := ?rows\<rparr>, cs_alerts := link_alert (inc_ID i) a (cs_alerts s)\<rparr>)"
    and mem: "row \<in> set ?rows \<and> inc_ID row = inc_ID i" by (elim exE conjE) (rule that, assumption, rule conjI)
  note both = trans [OF e [symmetric] u, unfolded prod.inject sum.inject]
  have row: "inc = row\<lparr>inc_ServiceNames := []\<rparr>" "row \<in> set ?rows" "inc_ID row = inc_ID i"
    using both mem by blast+
  have st: "st_incidents (cs_store s') = ?rows" unfolding both [THEN conjunct2, symmetric] by simp
  obtain r where r: "r \<in> set (st_incidents (cs_store s))" "row = (if inc_ID r = inc_ID i then bump (ce_now E) i r else r)"
    using row(2) rows by auto
  then have rid: "inc_ID r = inc_ID i" using row(3) by (auto simp: bump_def split: if_splits)
  have "inc_Severity row = inc_Severity r" using r(2) rid sev [OF r(1) rid] by simp
  then have "inc_Severity inc = inc_Severity i" unfolding row(1) only [OF r(1) rid] j(2) by simp
  moreover have "map inc_Severity ?rows = map inc_Severity (st_incidents (cs_store s))" unfolding rows using sev by (auto simp: comp_def)
  ultimately show ?thesis using st by simp
qed

theorem severity_fixed_when_opened_witness:
  "\<exists>inc s'. correlate sample_corr_env (sample_alert\<lparr>al_Level := ''FATAL'', al_ID := ''a2''\<rparr>) open_state = (Inr inc, s') \<and> inc_Severity inc = ''WARNING''"
proof -
  let ?a = "sample_alert\<lparr>al_Level := ''FATAL'', al_ID := ''a2''\<rparr>"
  have g: "GetOpenByWindow sample_corr_env (candidate_services sample_corr_env ?a) (al_TriggeredAt ?a - correlationWindow) open_state = Some open_incident"
    using open_state_match by (simp add: candidate_services_def sample_alert_def sample_corr_env_def correlationWindow_def second_def)
  then obtain inc s' where c: "correlate sample_corr_env ?a open_state = (Inr inc, s')"
    using Upsert_ok [of sample_corr_env open_incident ?a open_state] by (auto simp: correlate_def sample_corr_env_def)
  have "corr_inv open_state" by (simp add: corr_inv_def open_state_def corr_start_def open_incident_def linked_alerts_def)
  from severity_fixed_when_opened [OF sample_rows_ok this g c] c show ?thesis by (simp add: open_incident_def)
qed

text \<open>A quiet incident is resolved once and announced once. A sweep resolves exactly the open incidents
  without an update for the quiet period, publishes one event for each of them, and leaves every
  other row as it is; sweeping again at any time announces none of them a second time.\<close>

theorem sweep_resolves_quiet_once:
  assumes "\<not> ce_fail E CStale" "\<not> ce_fail E CPublish" "s' = sweepResolved E quietFor quiet s"
  shows "st_incidents (cs_store s') =
      map (\<lambda>i. if inc_Status i = ''OPEN'' \<and> inc_UpdatedAt i < ce_now E - quietFor
        then i\<lparr>inc_Status := ''RESOLVED'', inc_ResolvedAt := Some (ce_now E), inc_UpdatedAt := ce_now E\<rparr> else i) (st_incidents (cs_store s)) \<and>
    map ne_IncidentID (cs_published s') = map ne_IncidentID (cs_published s) @
      map inc_ID (filter (\<lambda>i. inc_Status i = ''OPEN'' \<and> inc_UpdatedAt i < ce_now E - quietFor) (st_incidents (cs_store s))) \<and>
    (\<forall>i \<in> set (st_incidents (cs_store s)). is_stale (ce_now E) quietFor i \<longrightarrow> distinct (map inc_ID (st_incidents (cs_store s))) \<longrightarrow>
      inc_ID i \<notin> inc_ID ` set (filter (is_stale now' quiet') (st_incidents (cs_store s'))))"
proof -
  let ?rows = "st_incidents (cs_store s)"
  have rows': "st_incidents (cs_store s') = map (\<lambda>i. if is_stale (ce_now E) quietFor i then resolve (ce_now E) i else i) ?rows"
    using assms(1,3) by (simp add: sweepResolved_store)
  have pub: "cs_published s' = cs_published s @ map (notifyResolved quiet) (map (\<lambda>i. i\<lparr>inc_ServiceNames := serviceNames E (inc_ID i) s, inc_Causal := None\<rparr>)
      (map (resolve (ce_now E)) (filter (is_stale (ce_now E) quietFor) ?rows)))"
    using assms by (simp add: sweepResolved_def ResolveStale_def Let_def)
  have once: "inc_ID i \<notin> inc_ID ` set (filter (is_stale now' quiet') (st_incidents (cs_store s')))"
    if i: "i \<in> set ?rows" "is_stale (ce_now E) quietFor i" "distinct (map inc_ID ?rows)" for i
  proof
    assume "inc_ID i \<in> inc_ID ` set (filter (is_stale now' quiet') (st_incidents (cs_store s')))"
    then obtain j where j: "j \<in> set ?rows" "inc_ID j = inc_ID i"
      "is_stale now' quiet' (if is_stale (ce_now E) quietFor j then resolve (ce_now E) j else j)"
      unfolding rows' by (auto simp: resolve_def split: if_splits)
    then have "j = i" using i(1,3) by (auto simp: distinct_map inj_on_def)
    then show False using j(3) i(2) by (simp add: is_stale_def resolve_def)
  qed
  have "map ne_IncidentID (cs_published s') = map ne_IncidentID (cs_published s) @ map inc_ID (filter (is_stale (ce_now E) quietFor) ?rows)"
    unfolding pub by (simp add: notifyResolved_def resolve_def comp_def)
  then show ?thesis using rows' once by (simp add: is_stale_def [abs_def] resolve_def cong: if_cong) 
qed

theorem sweep_resolves_quiet_once_witness:
  "map ne_IncidentID (cs_published (sweepResolved (sample_corr_env\<lparr>ce_now := 700 * second\<rparr>) DefaultAutoResolveQuiet ''10m0s'' open_state)) = [''inc-1'']"
  using sweep_resolves_quiet_once [of "sample_corr_env\<lparr>ce_now := 700 * second\<rparr>" _ DefaultAutoResolveQuiet "''10m0s''" open_state, OF _ _ refl]
  by (simp add: sample_corr_env_def open_state_def corr_start_def open_incident_def DefaultAutoResolveQuiet_def second_def)

text \<open>The next alert undoes a decision. An analysis replaces the stored playbook by a fresh one and
  routes it, whatever had been decided: under a policy that asks for approval the playbook awaits
  approval again even if it had been rejected or executed, and under one that executes a live
  request is sent again.\<close>

theorem reanalysis_reopens_decision:
  assumes "GetByID E i s = Some inc" "AlertsForIncident E i s = Some alerts" "ev = buildEvidence inc alerts (gather_deps E inc)"
    and "ce_analyze E ev = Inr r" "GroundAnalysis (Some r) (Some ev) = Some g" "encodable g" "\<not> ce_fail E CUpdate"
    and "ce_router E = Some rt" "ca_Playbook g = Some pb" "route_target g inc \<noteq> []" "\<forall>st. \<not> pe_updateFails (ce_router_env E) st"
  shows "(Decide (ar_policy rt) (ca_Confidence g) = DecisionPendingApproval \<longrightarrow>
      (\<forall>row \<in> set (st_incidents (cs_store (run_analysis E i s))). inc_ID row = i \<longrightarrow>
        (\<exists>c p. inc_Causal row = Some c \<and> ca_Playbook c = Some p \<and> pb_Status p = PlaybookPendingApproval))) \<and>
    (Decide (ar_policy rt) (ca_Confidence g) = DecisionExecute \<and> pe_agent (ce_router_env E) = agent_over A a \<longrightarrow>
      (\<exists>q. st_sent (cs_store (run_analysis E i s)) = st_sent (cs_store s) @ [q] \<and> \<not> sr_DryRun q \<and> sr_IncidentID q = i))"
proof -
  let ?R = "ce_router_env E"
  let ?st1 = "UpdateCausalAnalysis (ce_now E) i g (cs_store s)"
  have store: "cs_store (run_analysis E i s) = Route ?R rt i (Some g) (route_target g inc) ?st1"
    using assms by (simp add: run_analysis_def analyze_body_def Let_def)
  have pend: "\<exists>c p. inc_Causal row = Some c \<and> ca_Playbook c = Some p \<and> pb_Status p = PlaybookPendingApproval"
    if d: "Decide (ar_policy rt) (ca_Confidence g) = DecisionPendingApproval"
      and row: "row \<in> set (st_incidents (cs_store (run_analysis E i s)))" "inc_ID row = i" for row
  proof -
    have "st_incidents (cs_store (run_analysis E i s)) = st_incidents (UpdateCausalAnalysis (pe_now ?R) i
        (with_playbook (pb_Status_update (\<lambda>_. PlaybookPendingApproval)) g) ?st1)"
      unfolding store using d assms(9,11) by (simp add: Route_def persist_def Let_def)
    then have "row \<in> set (st_incidents (UpdateCausalAnalysis (pe_now ?R) i
        (with_playbook (pb_Status_update (\<lambda>_. PlaybookPendingApproval)) g) ?st1))" using row(1) by (simp only:)
    then have "inc_Causal row = Some (with_playbook (pb_Status_update (\<lambda>_. PlaybookPendingApproval)) g)"
      using UpdateCausalAnalysis_row [OF _ _ row(2)] assms(6) encodable_with_playbook by blast
    then show ?thesis using assms(9) by simp
  qed
  have sends: "\<exists>q. st_sent (cs_store (run_analysis E i s)) = st_sent (cs_store s) @ [q] \<and> \<not> sr_DryRun q \<and> sr_IncidentID q = i"
    if d: "Decide (ar_policy rt) (ca_Confidence g) = DecisionExecute" "pe_agent ?R = agent_over A a"
  proof -
    let ?p = "persist ?R i (with_playbook (pb_DryRun_update (\<lambda>_. False)) g) PlaybookExecuting ?st1"
    have "st_sent (cs_store (run_analysis E i s)) = st_sent (snd (dispatch ?R rt i (fst ?p) pb (route_target g inc) False (snd ?p)))"
      unfolding store using d(1) assms(9) by (simp add: Route_def Let_def case_prod_unfold)
    also have "\<dots> = st_sent (snd ?p) @ [request_for ?R rt i (pb_Name pb) (route_target g inc) False]"
      using agent_over_reaches [of A a] d(2) by (simp add: dispatch_def Let_def split: agent_result.splits)
    finally show ?thesis by (simp add: request_for_def)
  qed
  show ?thesis using pend sends by blast
qed

theorem reanalysis_reopens_decision_witness:
  "\<exists>row \<in> set (st_incidents (cs_store (run_analysis (sample_corr_env\<lparr>ce_analyze := \<lambda>_. Inr (sample_answer\<lparr>ca_Chain := []\<rparr>)\<rparr>) ''inc-1'' open_state))).
    \<exists>c p. inc_Causal row = Some c \<and> ca_Playbook c = Some p \<and> pb_Status p = PlaybookPendingApproval"
proof -
  let ?E = "sample_corr_env\<lparr>ce_analyze := \<lambda>_. Inr (sample_answer\<lparr>ca_Chain := []\<rparr>)\<rparr>" and ?r = "sample_answer\<lparr>ca_Chain := []\<rparr>"
  let ?inc = "open_incident\<lparr>inc_ServiceNames := [''api'']\<rparr>"
  have g1: "GetByID ?E ''inc-1'' open_state = Some ?inc"
    by (simp add: GetByID_def sample_corr_env_def open_state_def corr_start_def open_incident_def serviceNames_def linked_alerts_def)
  obtain alerts where g2: "AlertsForIncident ?E ''inc-1'' open_state = Some alerts" by (simp add: AlertsForIncident_def sample_corr_env_def)
  let ?ev = "buildEvidence ?inc alerts (gather_deps ?E ?inc)"
  obtain g where g: "GroundAnalysis (Some ?r) (Some ?ev) = Some g" using GroundAnalysis_Some by blast
  then have f: "ca_Chain g = []" "ca_Playbook g = Some (suggested ''restart_service'' [])" "ca_Confidence g = Fl 1" "encodable g"
    by (auto simp: GroundAnalysis_def Let_def sample_answer_def clamp01_def encodable_def split: if_splits)
  have d: "Decide (ar_policy (NewAutomationRouter ''k'')) (ca_Confidence g) = DecisionPendingApproval"
    unfolding f(3) by (simp add: NewAutomationRouter_def NewAutomationRouterWithPolicy_def Decide_def DefaultPolicy_def mode_defs DefaultConfidenceThreshold_value)
  have t: "route_target g ?inc \<noteq> []" using f(1) by (simp add: route_target_def)
  have "\<forall>row \<in> set (st_incidents (cs_store (run_analysis ?E ''inc-1'' open_state))). inc_ID row = ''inc-1'' \<longrightarrow>
        (\<exists>c p. inc_Causal row = Some c \<and> ca_Playbook c = Some p \<and> pb_Status p = PlaybookPendingApproval)"
    using reanalysis_reopens_decision [OF g1 g2 refl _ g f(4) _ _ f(2) t] d by (simp add: sample_corr_env_def sample_router_env_def)
  moreover have "map core_key (st_incidents (cs_store (run_analysis ?E ''inc-1'' open_state))) = map core_key [open_incident]"
    using analyze_body_keeps [of ?E "''inc-1''" open_state]
    by (intro map_core_key) (simp add: run_analysis_def Let_def open_state_def)
  ultimately show ?thesis by (auto simp: core_key_def open_incident_def)
qed

text \<open>The hand-written search is the case-insensitive substring test. For every message and keyword
  the search agrees with lower-casing both and testing containment.\<close>

theorem containsIgnoreCase_is_contains:
  "containsIgnoreCase s sub \<longleftrightarrow> contains (to_lower sub) (to_lower s)"
  using match_from_contains [of s sub] contains_length [of "to_lower sub" "to_lower s"]
  by (auto simp: containsIgnoreCase_def)

end
