(* ===== verification/Sql_Policy.thy ===== *)
theory Sql_Policy
  imports Go_Strings "HOL-Library.List_Lexorder" "HOL-Library.Char_ord"
begin

text \<open>
  Which user-written SQL statements the gateway accepts: the catalog of relations
  (\<open>src/gateway-service/internal/sqlq/catalog.go\<close>) and the statement policy (\<open>policy.go\<close>). The SQL
  parser and the traversal of its syntax tree are third-party code: parsing and the \<open>Accept\<close> method
  are arguments, and the documented visitor protocol is the hypothesis \<open>visitor_protocol\<close>. A
  formatted message is the format string with its rendered arguments.
\<close>

section \<open>catalog.go\<close>

type_synonym Store = string

definition StoreLogs :: Store where "StoreLogs = ''logs''"
definition StoreAnalytics :: Store where "StoreAnalytics = ''analytics''"
definition StoreMeta :: Store where "StoreMeta = ''meta''"

record Relation =
  rel_Name :: string
  rel_Store :: Store
  rel_Columns :: "string list"
  rel_TenantBound :: bool
  rel_AttrPrefix :: string

definition ascii_letter :: "char \<Rightarrow> bool" where
  "ascii_letter c = (let k = (of_char c :: nat) in (65 \<le> k \<and> k \<le> 90) \<or> (97 \<le> k \<and> k \<le> 122))"

definition ascii_digit :: "char \<Rightarrow> bool" where
  "ascii_digit c = (let k = (of_char c :: nat) in 48 \<le> k \<and> k \<le> 57)"

text \<open>The regular expression \<open>^[A-Za-z_][A-Za-z0-9_]{0,63}$\<close>.\<close>

definition attrKeyPattern :: "string \<Rightarrow> bool" where
  "attrKeyPattern s = (case s of [] \<Rightarrow> False
     | c # cs \<Rightarrow> (ascii_letter c \<or> c = CHR ''_'')
         \<and> list_all (\<lambda>x. ascii_letter x \<or> ascii_digit x \<or> x = CHR ''_'') cs \<and> length cs \<le> 63)"

definition AttrKey :: "Relation \<Rightarrow> string \<Rightarrow> string" where
  "AttrKey r name =
     (if rel_AttrPrefix r = [] then []
      else let p = rel_AttrPrefix r @ ''.''; rest = drop (length p) name
           in if \<not> has_prefix p name \<or> \<not> attrKeyPattern rest then [] else rest)"

text \<open>A catalog is the map \<open>byName\<close>.\<close>

type_synonym Catalog = "(string, Relation) gomap"

definition default_rels :: "Relation list" where
  "default_rels =
     [\<lparr>rel_Name = ''logs'', rel_Store = StoreLogs,
       rel_Columns = [''timestamp'', ''service_name'', ''level'', ''message'', ''trace_id''],
       rel_TenantBound = True, rel_AttrPrefix = ''metadata''\<rparr>,
      \<lparr>rel_Name = ''traces'', rel_Store = StoreAnalytics,
       rel_Columns = [''timestamp'', ''trace_id'', ''span_id'', ''parent_span_id'', ''service_name'',
         ''span_name'', ''span_kind'', ''duration_ms'', ''status_code'', ''status_message''],
       rel_TenantBound = True, rel_AttrPrefix = []\<rparr>,
      \<lparr>rel_Name = ''rum_events'', rel_Store = StoreAnalytics,
       rel_Columns = [''timestamp'', ''session_id'', ''event_type'', ''path'', ''user_agent'',
         ''metric_name'', ''metric_value'', ''error_message'', ''trace_id'', ''span_id''],
       rel_TenantBound = True, rel_AttrPrefix = []\<rparr>,
      \<lparr>rel_Name = ''synthetic_results'', rel_Store = StoreAnalytics,
       rel_Columns = [''timestamp'', ''check_name'', ''url'', ''status_code'', ''latency_ms'',
         ''success'', ''failure_reason''],
       rel_TenantBound = True, rel_AttrPrefix = []\<rparr>,
      \<lparr>rel_Name = ''deployments'', rel_Store = StoreMeta,
       rel_Columns = [''id'', ''service'', ''version'', ''git_sha'', ''environment'', ''deployed_by'',
         ''deployed_at''],
       rel_TenantBound = True, rel_AttrPrefix = []\<rparr>,
      \<lparr>rel_Name = ''incidents'', rel_Store = StoreMeta,
       rel_Columns = [''id'', ''title'', ''status'', ''severity'', ''root_cause'', ''alert_count'',
         ''started_at'', ''resolved_at''],
       rel_TenantBound = True, rel_AttrPrefix = []\<rparr>]"

definition DefaultCatalog :: Catalog where
  "DefaultCatalog = foldl (\<lambda>m r. AList.update (rel_Name r) r m) [] default_rels"

definition cat_Lookup :: "Catalog \<Rightarrow> string \<Rightarrow> string \<Rightarrow> Relation option" where
  "cat_Lookup c schema name = (if schema \<noteq> [] then None else map_of c (to_lower name))"

definition cat_Names :: "Catalog \<Rightarrow> string list" where
  "cat_Names c = sort (map fst c)"

definition HasColumn :: "Relation \<Rightarrow> string \<Rightarrow> bool" where
  "HasColumn r name =
     (list_ex (\<lambda>c. to_lower c = to_lower name) (rel_Columns r) \<or> AttrKey r name \<noteq> [])"

record SchemaRelation =
  sr_Name :: string
  sr_Store :: string
  sr_Columns :: "string list"
  sr_AttrPrefix :: string

text \<open>A missing key of a Go map reads as the zero value.\<close>

definition zero_relation :: Relation where
  "zero_relation = \<lparr>rel_Name = [], rel_Store = [], rel_Columns = [], rel_TenantBound = False,
     rel_AttrPrefix = []\<rparr>"

definition cat_Schema :: "Catalog \<Rightarrow> SchemaRelation list" where
  "cat_Schema c = map (\<lambda>n. let r = (case map_of c n of Some r \<Rightarrow> r | None \<Rightarrow> zero_relation)
     in \<lparr>sr_Name = rel_Name r, sr_Store = rel_Store r, sr_Columns = rel_Columns r,
         sr_AttrPrefix = rel_AttrPrefix r\<rparr>) (cat_Names c)"

section \<open>policy.go: refusals\<close>

type_synonym Reason = string

definition ReasonSyntax :: Reason where "ReasonSyntax = ''syntax''"
definition ReasonTooLarge :: Reason where "ReasonTooLarge = ''statement_too_large''"
definition ReasonMultipleStmts :: Reason where "ReasonMultipleStmts = ''multiple_statements''"
definition ReasonNotSelect :: Reason where "ReasonNotSelect = ''not_a_select''"
definition ReasonUnknownRelation :: Reason where "ReasonUnknownRelation = ''unknown_relation''"
definition ReasonQualifiedName :: Reason where "ReasonQualifiedName = ''qualified_name''"
definition ReasonDeniedFunction :: Reason where "ReasonDeniedFunction = ''denied_function''"
definition ReasonIntoOutfile :: Reason where "ReasonIntoOutfile = ''into_outfile''"
definition ReasonLocking :: Reason where "ReasonLocking = ''locking_read''"
definition ReasonTooManyJoins :: Reason where "ReasonTooManyJoins = ''too_many_joins''"
definition ReasonTooDeep :: Reason where "ReasonTooDeep = ''subquery_too_deep''"
definition ReasonTooManyBranches :: Reason where "ReasonTooManyBranches = ''too_many_set_branches''"
definition ReasonShadowedRelation :: Reason where "ReasonShadowedRelation = ''cte_shadows_relation''"

type_synonym message = "string \<times> string list"

record RejectionError =
  re_Reason :: Reason
  re_Detail :: message
  re_Hint :: string

definition reject :: "Reason \<Rightarrow> message \<Rightarrow> string list \<Rightarrow> RejectionError" where
  "reject r detail hint = \<lparr>re_Reason = r, re_Detail = detail,
     re_Hint = (case hint of [] \<Rightarrow> [] | h # _ \<Rightarrow> h)\<rparr>"

record Policy_sql =
  MaxJoins :: int
  MaxSubqueryDepth :: int
  MaxSetOpBranches :: int
  MaxStatementBytes :: int

definition DefaultPolicy_sql :: Policy_sql where
  "DefaultPolicy_sql = \<lparr>MaxJoins = 4, MaxSubqueryDepth = 3, MaxSetOpBranches = 4,
     MaxStatementBytes = 16 * 1024\<rparr>"

definition deniedFunctions :: "(string, string) gomap" where
  "deniedFunctions =
     [(''file'', ''filesystem access''), (''url'', ''network access''),
      (''remote'', ''network access''), (''remotesecure'', ''network access''),
      (''s3'', ''network access''), (''hdfs'', ''network access''),
      (''mysql'', ''network access''), (''postgresql'', ''network access''),
      (''jdbc'', ''network access''), (''odbc'', ''network access''),
      (''executable'', ''process execution''), (''load_file'', ''filesystem access''),
      (''sleep'', ''denial of service''), (''benchmark'', ''denial of service''),
      (''get_lock'', ''lock acquisition''), (''sys_exec'', ''process execution''),
      (''sys_eval'', ''process execution''), (''read_csv'', ''filesystem access''),
      (''read_csv_auto'', ''filesystem access''), (''read_parquet'', ''filesystem access''),
      (''parquet_scan'', ''filesystem access''), (''read_json'', ''filesystem access''),
      (''read_json_auto'', ''filesystem access''), (''read_ndjson'', ''filesystem access''),
      (''read_text'', ''filesystem access''), (''read_blob'', ''filesystem access''),
      (''glob'', ''filesystem access''), (''getenv'', ''environment access''),
      (''install'', ''extension loading''), (''load_extension'', ''extension loading'')]"

section \<open>The syntax tree\<close>

text \<open>What the code reads of the parser's tree: a name in its original and lower-cased spelling, the
  fields of the node types that \<open>Enter\<close> distinguishes, and the sub-nodes in the order in which the
  node's \<open>Accept\<close> visits them. \<open>OtherNode\<close> carries the Go type name.\<close>

record CIStr =
  ci_O :: string
  ci_L :: string

datatype node_kind =
    SelectStmt bool bool
  | SetOprStmt "nat option"
  | WithClause "CIStr list"
  | Join bool
  | TableName CIStr CIStr
  | FuncCallExpr CIStr
  | OtherNode string

datatype node = Node (kind_of: node_kind) (children: "node list")

text \<open>The visitor protocol: \<open>Enter\<close> comes first and may skip the children; the children follow in
  order and a false result stops the traversal; \<open>Leave\<close> comes last.\<close>

type_synonym 'v visitor = "(node \<Rightarrow> 'v \<Rightarrow> 'v \<times> bool) \<Rightarrow> (node \<Rightarrow> 'v \<Rightarrow> 'v \<times> bool) \<Rightarrow> node \<Rightarrow> 'v \<Rightarrow> 'v \<times> bool"

fun accept_all :: "(node \<Rightarrow> 'v \<Rightarrow> 'v \<times> bool) \<Rightarrow> node list \<Rightarrow> 'v \<Rightarrow> 'v \<times> bool" where
  "accept_all acc [] v = (v, True)"
| "accept_all acc (n # ns) v = (case acc n v of (v1, ok) \<Rightarrow> if ok then accept_all acc ns v1 else (v1, False))"

definition visitor_protocol :: "'v visitor \<Rightarrow> bool" where
  "visitor_protocol Accept \<longleftrightarrow> (\<forall>enter leave n v. Accept enter leave n v =
     (case enter n v of (v1, skip) \<Rightarrow>
        if skip then leave n v1
        else case accept_all (Accept enter leave) (children n) v1 of (v2, ok) \<Rightarrow>
          if ok then leave n v2 else (v2, False)))"

section \<open>policy.go: the validator\<close>

record validator =
  v_err :: "RejectionError option"
  v_depth :: int
  v_joins :: int
  v_seen :: "(string, Relation) gomap"
  v_cteNames :: "string list"

definition fail :: "RejectionError \<Rightarrow> validator \<Rightarrow> validator" where
  "fail e v = (if v_err v = None then v\<lparr>v_err := Some e\<rparr> else v)"

definition v_resolve :: "Catalog \<Rightarrow> CIStr \<Rightarrow> CIStr \<Rightarrow> validator \<Rightarrow> validator" where
  "v_resolve cat schema tname v =
     (let name = to_lower (ci_L tname)
      in if ci_L schema = [] \<and> name \<in> set (v_cteNames v) then v
         else if ci_L schema \<noteq> [] then
           fail (reject ReasonQualifiedName
             (''qualified name %q.%q is not permitted'', [ci_O schema, ci_O tname])
             [''reference relations by bare name, e.g. logs'']) v
         else case cat_Lookup cat [] name of
             None \<Rightarrow> fail (reject ReasonUnknownRelation (''unknown relation %q'', [ci_O tname])
                       [''available: '' @ join_with '', '' (cat_Names cat)]) v
           | Some rel \<Rightarrow> v\<lparr>v_seen := AList.update (rel_Name rel) rel (v_seen v)\<rparr>)"

text \<open>The loop over the common table expressions of one \<open>WITH\<close>; the flag says that it returned
  early.\<close>

fun enter_ctes :: "Catalog \<Rightarrow> CIStr list \<Rightarrow> validator \<Rightarrow> validator \<times> bool" where
  "enter_ctes cat [] v = (v, False)"
| "enter_ctes cat (cte # ctes) v =
     (let name = to_lower (ci_L cte)
      in if cat_Lookup cat [] name \<noteq> None then
           (fail (reject ReasonShadowedRelation
              (''CTE %q has the same name as a catalog relation'', [name]) [''rename the CTE'']) v, True)
         else enter_ctes cat ctes (v\<lparr>v_cteNames := List.insert name (v_cteNames v)\<rparr>))"

definition Enter :: "Catalog \<Rightarrow> Policy_sql \<Rightarrow> node \<Rightarrow> validator \<Rightarrow> validator \<times> bool" where
  "Enter cat p n v =
     (if v_err v \<noteq> None then (v, True)
      else case kind_of n of
        SelectStmt into lock \<Rightarrow>
          (let v1 = v\<lparr>v_depth := v_depth v + 1\<rparr>
           in if v_depth v1 > MaxSubqueryDepth p then
                (fail (reject ReasonTooDeep (''nesting depth %d exceeds limit %d'',
                   [format_int (v_depth v1), format_int (MaxSubqueryDepth p)]) []) v1, True)
              else if into then
                (fail (reject ReasonIntoOutfile (''INTO OUTFILE/DUMPFILE is not permitted'', []) []) v1, True)
              else if lock then
                (fail (reject ReasonLocking
                   (''locking reads (FOR UPDATE / LOCK IN SHARE MODE) are not permitted'', []) []) v1, True)
              else (v1, False))
      | SetOprStmt sels \<Rightarrow>
          (case sels of
             Some b \<Rightarrow>
               if int b > MaxSetOpBranches p then
                 (fail (reject ReasonTooManyBranches (''%d branches exceeds limit %d'',
                    [format_int (int b), format_int (MaxSetOpBranches p)]) []) v, True)
               else (v, False)
           | None \<Rightarrow> (v, False))
      | WithClause ctes \<Rightarrow> enter_ctes cat ctes v
      | Join right \<Rightarrow>
          if right then
            (let v1 = v\<lparr>v_joins := v_joins v + 1\<rparr>
             in if v_joins v1 > MaxJoins p then
                  (fail (reject ReasonTooManyJoins (''%d joins exceeds limit %d'',
                     [format_int (v_joins v1), format_int (MaxJoins p)]) []) v1, True)
                else (v1, False))
          else (v, False)
      | TableName schema name \<Rightarrow> (v_resolve cat schema name v, False)
      | FuncCallExpr fn \<Rightarrow>
          (case map_of deniedFunctions (to_lower (ci_L fn)) of
             Some why \<Rightarrow>
               (fail (reject ReasonDeniedFunction (''function %q is not permitted (%s)'', [ci_O fn, why]) []) v, True)
           | None \<Rightarrow> (v, False))
      | OtherNode _ \<Rightarrow> (v, False))"

fun is_select :: "node_kind \<Rightarrow> bool" where
  "is_select (SelectStmt _ _) = True"
| "is_select _ = False"

definition Leave :: "node \<Rightarrow> validator \<Rightarrow> validator \<times> bool" where
  "Leave n v = (let v1 = (if is_select (kind_of n) then v\<lparr>v_depth := v_depth v - 1\<rparr> else v)
                in (v1, v_err v1 = None))"

text \<open>The insertion sort of \<open>relations\<close>: each element moves left past the greater names. The sorted
  part is held in reverse.\<close>

fun move_left :: "Relation \<Rightarrow> Relation list \<Rightarrow> Relation list" where
  "move_left r [] = [r]"
| "move_left r (x # xs) = (if rel_Name r < rel_Name x then x # move_left r xs else r # x # xs)"

definition relations :: "validator \<Rightarrow> Relation list" where
  "relations v = rev (foldl (\<lambda>acc r. move_left r acc) [] (map snd (v_seen v)))"

text \<open>A parsed statement: the tree that the validator visits, and, for a \<open>SelectStmt\<close>, the fields
  that planning reads (\<open>None\<close> for every other statement type).\<close>

record 's ast_stmt =
  stmt_tree :: node
  stmt_select :: "'s option"

record 's Analysis =
  an_Relations :: "Relation list"
  an_Stmt :: "'s ast_stmt"

fun distinct_stores :: "Store list \<Rightarrow> Relation list \<Rightarrow> Store list" where
  "distinct_stores seen [] = []"
| "distinct_stores seen (r # rs) =
     (if rel_Store r \<in> set seen then distinct_stores seen rs
      else rel_Store r # distinct_stores (rel_Store r # seen) rs)"

definition Stores :: "'s Analysis \<Rightarrow> Store list" where
  "Stores a = distinct_stores [] (an_Relations a)"

fun go_type_name :: "node_kind \<Rightarrow> string" where
  "go_type_name (SelectStmt _ _) = ''*ast.SelectStmt''"
| "go_type_name (SetOprStmt _) = ''*ast.SetOprStmt''"
| "go_type_name (WithClause _) = ''*ast.WithClause''"
| "go_type_name (Join _) = ''*ast.Join''"
| "go_type_name (TableName _ _) = ''*ast.TableName''"
| "go_type_name (FuncCallExpr _) = ''*ast.FuncCallExpr''"
| "go_type_name (OtherNode t) = t"

fun is_query :: "node_kind \<Rightarrow> bool" where
  "is_query (SelectStmt _ _) = True"
| "is_query (SetOprStmt _) = True"
| "is_query _ = False"

definition Validate ::
  "(string \<Rightarrow> string + 's ast_stmt list) \<Rightarrow> validator visitor \<Rightarrow> string \<Rightarrow> Catalog \<Rightarrow> Policy_sql
     \<Rightarrow> RejectionError + 's Analysis" where
  "Validate Parse Accept sql cat p =
     (if int (length sql) > MaxStatementBytes p then
        Err (reject ReasonTooLarge (''statement is %d bytes, limit is %d'',
          [format_int (int (length sql)), format_int (MaxStatementBytes p)]) [])
      else case Parse sql of
          Inl e \<Rightarrow> Err (reject ReasonSyntax (''%s'', [e]) [])
        | Inr [] \<Rightarrow> Err (reject ReasonSyntax (''no statement found'', []) [])
        | Inr (s1 # s2 # ss) \<Rightarrow>
            Err (reject ReasonMultipleStmts (''got %d statements, exactly one is allowed'',
              [format_int (int (length (s1 # s2 # ss)))]) [''send one query per request''])
        | Inr [stmt] \<Rightarrow>
            if \<not> is_query (kind_of (stmt_tree stmt)) then
              Err (reject ReasonNotSelect (''%s is not permitted'', [go_type_name (kind_of (stmt_tree stmt))])
                [''only SELECT is supported''])
            else
              (let v = fst (Accept (Enter cat p) Leave (stmt_tree stmt)
                 \<lparr>v_err = None, v_depth = 0, v_joins = 0, v_seen = [], v_cteNames = []\<rparr>)
               in case v_err v of
                    Some e \<Rightarrow> Err e
                  | None \<Rightarrow> Ok \<lparr>an_Relations = relations v, an_Stmt = stmt\<rparr>))"

section \<open>A declarative reading of the policy\<close>

text \<open>The nodes in the order in which they are entered, each with the number of \<open>SELECT\<close>s around it,
  itself included.\<close>

fun visits :: "int \<Rightarrow> node \<Rightarrow> (int \<times> node_kind) list" where
  "visits d (Node k cs) =
     (let d1 = (if is_select k then d + 1 else d) in (d1, k) # concat (map (visits d1) cs))"

declare visits.simps [simp del]

fun cte_names :: "(int \<times> node_kind) list \<Rightarrow> string list" where
  "cte_names [] = []"
| "cte_names ((d, k) # xs) =
     (case k of WithClause ctes \<Rightarrow> map (\<lambda>c. to_lower (ci_L c)) ctes | _ \<Rightarrow> []) @ cte_names xs"

definition join_count :: "(int \<times> node_kind) list \<Rightarrow> int" where
  "join_count xs = int (length (filter (\<lambda>x. snd x = Join True) xs))"

text \<open>Which rule a node breaks, given the nodes entered before it.\<close>

fun breach :: "Catalog \<Rightarrow> Policy_sql \<Rightarrow> (int \<times> node_kind) list \<Rightarrow> int \<times> node_kind \<Rightarrow> Reason option" where
  "breach cat p pre (d, SelectStmt into lock) =
     (if d > MaxSubqueryDepth p then Some ReasonTooDeep else if into then Some ReasonIntoOutfile
      else if lock then Some ReasonLocking else None)"
| "breach cat p pre (d, SetOprStmt sels) =
     (case sels of Some b \<Rightarrow> if int b > MaxSetOpBranches p then Some ReasonTooManyBranches else None
      | None \<Rightarrow> None)"
| "breach cat p pre (d, WithClause ctes) =
     (if list_ex (\<lambda>c. cat_Lookup cat [] (to_lower (ci_L c)) \<noteq> None) ctes then Some ReasonShadowedRelation
      else None)"
| "breach cat p pre (d, Join right) =
     (if right \<and> join_count pre + 1 > MaxJoins p then Some ReasonTooManyJoins else None)"
| "breach cat p pre (d, TableName schema name) =
     (if ci_L schema = [] \<and> to_lower (ci_L name) \<in> set (cte_names pre) then None
      else if ci_L schema \<noteq> [] then Some ReasonQualifiedName
      else if cat_Lookup cat [] (to_lower (ci_L name)) = None then Some ReasonUnknownRelation else None)"
| "breach cat p pre (d, FuncCallExpr fn) =
     (if map_of deniedFunctions (to_lower (ci_L fn)) \<noteq> None then Some ReasonDeniedFunction else None)"
| "breach cat p pre (d, OtherNode t) = None"

fun first_breach :: "Catalog \<Rightarrow> Policy_sql \<Rightarrow> (int \<times> node_kind) list \<Rightarrow> (int \<times> node_kind) list \<Rightarrow> Reason option" where
  "first_breach cat p pre [] = None"
| "first_breach cat p pre (x # xs) =
     (case breach cat p pre x of Some r \<Rightarrow> Some r | None \<Rightarrow> first_breach cat p (pre @ [x]) xs)"

text \<open>The catalog relations that the table references of a statement name.\<close>

definition named_relations :: "Catalog \<Rightarrow> (int \<times> node_kind) list \<Rightarrow> Relation set" where
  "named_relations cat xs = {r. \<exists>d s n. (d, TableName s n) \<in> set xs \<and>
     cat_Lookup cat [] (to_lower (ci_L n)) = Some r}"

definition wf_catalog :: "Catalog \<Rightarrow> bool" where
  "wf_catalog cat = list_all (\<lambda>(k, r). rel_Name r = k) cat"

lemma wf_DefaultCatalog: "wf_catalog DefaultCatalog"
  by code_simp

lemma to_lower_Nil [simp]: "to_lower [] = []"
  by (simp add: to_lower_def)

lemma wf_catalogD: "wf_catalog cat \<Longrightarrow> cat_Lookup cat s n = Some r \<Longrightarrow> rel_Name r = to_lower n"
  by (auto simp: wf_catalog_def cat_Lookup_def list_all_iff split: if_splits dest!: map_of_SomeD)

lemma wf_catalog_by_name: "wf_catalog cat \<Longrightarrow> cat_Lookup cat s n = Some r \<Longrightarrow> map_of cat (rel_Name r) = Some r"
  using wf_catalogD [of cat s n r] by (simp add: cat_Lookup_def split: if_splits)

lemma cte_names_append [simp]: "cte_names (xs @ ys) = cte_names xs @ cte_names ys"
  by (induction xs rule: cte_names.induct) auto

lemma join_count_append: "join_count (xs @ [x]) = join_count xs + (if snd x = Join True then 1 else 0)"
  by (simp add: join_count_def)

lemma first_breach_append:
  "first_breach cat p pre (xs @ ys) =
     (case first_breach cat p pre xs of None \<Rightarrow> first_breach cat p (pre @ xs) ys | Some r \<Rightarrow> Some r)"
  by (induction xs arbitrary: pre) (auto split: option.splits)

section \<open>The validator computes the first breach\<close>

text \<open>What the validator holds after the nodes \<open>pre\<close>, none of which breaks a rule.\<close>

definition v_inv :: "Catalog \<Rightarrow> (int \<times> node_kind) list \<Rightarrow> validator \<Rightarrow> bool" where
  "v_inv cat pre v \<longleftrightarrow> v_err v = None \<and> v_joins v = join_count pre
     \<and> set (v_cteNames v) = set (cte_names pre) \<and> distinct (map fst (v_seen v))
     \<and> set (map snd (v_seen v)) = named_relations cat pre
     \<and> list_all (\<lambda>(k, r). rel_Name r = k) (v_seen v)
     \<and> (\<forall>n \<in> set (cte_names pre). cat_Lookup cat [] n = None)"

lemma v_inv_start: "v_inv cat [] \<lparr>v_err = None, v_depth = 0, v_joins = 0, v_seen = [], v_cteNames = []\<rparr>"
  by (simp add: v_inv_def join_count_def named_relations_def)

lemma v_inv_depth [simp]: "v_inv cat pre (v\<lparr>v_depth := d\<rparr>) = v_inv cat pre v"
  by (simp add: v_inv_def)

lemma v_inv_err: "v_inv cat pre v \<Longrightarrow> v_err v = None"
  by (simp add: v_inv_def)

lemma fail_err [simp]: "v_err v = None \<Longrightarrow> v_err (fail e v) = Some e"
  by (simp add: fail_def)

lemma reject_Reason [simp]: "re_Reason (reject r d h) = r"
  by (simp add: reject_def)

lemma named_relations_other:
  "(\<nexists>s n. k = TableName s n) \<Longrightarrow> named_relations cat (pre @ [(d, k)]) = named_relations cat pre"
  by (auto simp: named_relations_def)

lemma named_relations_table:
  assumes "cat_Lookup cat [] (to_lower (ci_L n)) = Some r"
  shows "named_relations cat (pre @ [(d, TableName s n)]) = insert r (named_relations cat pre)"
  using assms unfolding named_relations_def by auto

text \<open>A node that is neither a table, a join nor a \<open>WITH\<close> leaves the summary alone.\<close>

lemma v_inv_plain:
  assumes "v_inv cat pre v" "\<nexists>s n. k = TableName s n" "k \<noteq> Join True" "\<nexists>cs. k = WithClause cs"
  shows "v_inv cat (pre @ [(d, k)]) v"
  using assms by (cases k) (auto simp: v_inv_def named_relations_other join_count_append)

lemma v_inv_join: "v_inv cat pre v \<Longrightarrow> v_inv cat (pre @ [(d, Join True)]) (v\<lparr>v_joins := v_joins v + 1\<rparr>)"
  by (simp add: v_inv_def named_relations_other join_count_append)

lemma enter_ctes_ok:
  assumes "\<not> list_ex (\<lambda>c. cat_Lookup cat [] (to_lower (ci_L c)) \<noteq> None) ctes"
  shows "\<exists>names. enter_ctes cat ctes v = (v\<lparr>v_cteNames := names\<rparr>, False)
     \<and> set names = set (v_cteNames v) \<union> set (map (\<lambda>c. to_lower (ci_L c)) ctes)"
  using assms
proof (induction ctes arbitrary: v)
  case Nil
  then show ?case by (intro exI [of _ "v_cteNames v"]) simp
next
  case (Cons c ctes)
  then show ?case
    using Cons.IH [of "v\<lparr>v_cteNames := List.insert (to_lower (ci_L c)) (v_cteNames v)\<rparr>"] by auto
qed

lemma enter_ctes_clash:
  assumes "list_ex (\<lambda>c. cat_Lookup cat [] (to_lower (ci_L c)) \<noteq> None) ctes" "v_err v = None"
  shows "\<exists>e. v_err (fst (enter_ctes cat ctes v)) = Some e \<and> re_Reason e = ReasonShadowedRelation"
  using assms by (induction ctes arbitrary: v) (auto simp: Let_def)

lemma v_inv_with:
  assumes "v_inv cat pre v" "set names = set (v_cteNames v) \<union> set (map (\<lambda>c. to_lower (ci_L c)) ctes)"
    "\<not> list_ex (\<lambda>c. cat_Lookup cat [] (to_lower (ci_L c)) \<noteq> None) ctes"
  shows "v_inv cat (pre @ [(d, WithClause ctes)]) (v\<lparr>v_cteNames := names\<rparr>)"
  using assms by (auto simp: v_inv_def named_relations_other join_count_append list_ex_iff)

text \<open>A reference to a common table expression adds no relation, since no catalog name can be one.\<close>

lemma v_inv_cte_ref:
  assumes "v_inv cat pre v" "to_lower (ci_L n) \<in> set (cte_names pre)"
  shows "v_inv cat (pre @ [(d, TableName s n)]) v"
proof -
  have "named_relations cat (pre @ [(d, TableName s n)]) = named_relations cat pre"
    using assms by (auto simp: named_relations_def v_inv_def)
  then show ?thesis using assms by (simp add: v_inv_def join_count_append)
qed

lemma set_snd_update:
  assumes "distinct (map fst m)" "list_all (\<lambda>(k, r). rel_Name r = k) m" "rel_Name r \<in> fst ` set m \<longrightarrow> r \<in> snd ` set m"
  shows "set (map snd (AList.update (rel_Name r) r m)) = insert r (set (map snd m))"
  using assms
proof (induction m)
  case (Cons a m)
  obtain k x where a: "a = (k, x)" by (cases a)
  have kx: "rel_Name x = k" using Cons.prems(2) a by simp
  show ?case
  proof (cases "k = rel_Name r")
    case True
    then have "r \<in> insert x (snd ` set m)" using Cons.prems(3) a by auto
    moreover have "r \<notin> snd ` set m"
      using Cons.prems(1,2) a True by (force simp: list_all_iff)
    ultimately show ?thesis using True a by auto
  next
    case False
    then have "rel_Name r \<in> fst ` set m \<longrightarrow> r \<in> snd ` set m" using Cons.prems(3) a kx by auto
    then show ?thesis using Cons False a by auto
  qed
qed simp

lemma update_keeps_names:
  "list_all (\<lambda>(k, r). rel_Name r = k) m \<Longrightarrow> list_all (\<lambda>(k, r). rel_Name r = k) (AList.update (rel_Name r) r m)"
  by (induction m) auto

lemma v_inv_resolved:
  assumes "wf_catalog cat" "v_inv cat pre v" "cat_Lookup cat [] (to_lower (ci_L n)) = Some r"
  shows "v_inv cat (pre @ [(d, TableName s n)]) (v\<lparr>v_seen := AList.update (rel_Name r) r (v_seen v)\<rparr>)"
proof -
  have inv: "distinct (map fst (v_seen v))" "list_all (\<lambda>(k, r). rel_Name r = k) (v_seen v)"
    "set (map snd (v_seen v)) = named_relations cat pre" using assms(2) by (simp_all add: v_inv_def)
  have same: "rel_Name r \<in> fst ` set (v_seen v) \<longrightarrow> r \<in> snd ` set (v_seen v)"
  proof
    assume "rel_Name r \<in> fst ` set (v_seen v)"
    then obtain x where x: "(rel_Name r, x) \<in> set (v_seen v)" by auto
    then have name: "rel_Name x = rel_Name r" using inv(2) unfolding list_all_iff by blast
    have "snd (rel_Name r, x) \<in> set (map snd (v_seen v))" unfolding set_map using x by (rule imageI)
    then have "x \<in> named_relations cat pre" unfolding inv(3) snd_conv .
    then obtain m where "cat_Lookup cat [] (to_lower m) = Some x" unfolding named_relations_def by blast
    then have "map_of cat (rel_Name x) = Some x" by (rule wf_catalog_by_name [OF assms(1)])
    then have "Some x = Some r" unfolding name wf_catalog_by_name [OF assms(1,3)] by (rule sym)
    then show "r \<in> snd ` set (v_seen v)" using imageI [OF x, of snd] by simp
  qed
  have "set (map snd (AList.update (rel_Name r) r (v_seen v))) = named_relations cat (pre @ [(d, TableName s n)])"
    unfolding set_snd_update [OF inv(1,2) same] inv(3) named_relations_table [OF assms(3)] ..
  moreover have "list_all (\<lambda>(k, r). rel_Name r = k) (AList.update (rel_Name r) r (v_seen v))"
    using inv(2) by (rule update_keeps_names)
  ultimately show ?thesis
    using assms(2) by (simp add: v_inv_def join_count_append distinct_update)
qed

text \<open>One node: the validator fails exactly on a breach, with its reason.\<close>

lemma Enter_ok:
  assumes "wf_catalog cat" "v_inv cat pre v" "breach cat p pre (d, kind_of n) = None"
    "v_depth v = (if is_select (kind_of n) then d - 1 else d)"
  shows "\<exists>v1. Enter cat p n v = (v1, False) \<and> v_inv cat (pre @ [(d, kind_of n)]) v1 \<and> v_depth v1 = d"
proof (cases "kind_of n")
  case (WithClause ctes)
  then have free: "\<not> list_ex (\<lambda>c. cat_Lookup cat [] (to_lower (ci_L c)) \<noteq> None) ctes"
    using assms(3) by (auto split: if_splits)
  obtain names where "enter_ctes cat ctes v = (v\<lparr>v_cteNames := names\<rparr>, False)"
    "set names = set (v_cteNames v) \<union> set (map (\<lambda>c. to_lower (ci_L c)) ctes)"
    using enter_ctes_ok [OF free, of v] by blast
  then show ?thesis
    using WithClause assms(2,4) v_inv_with [OF assms(2) _ free] by (simp add: Enter_def v_inv_err)
next
  case (Join right)
  then show ?thesis
    using assms v_inv_join [OF assms(2)] v_inv_plain [OF assms(2), of "Join False"]
    by (cases right) (auto simp: Enter_def v_inv_err v_inv_def Let_def split: if_splits)
next
  case (TableName s m)
  show ?thesis
  proof (cases "ci_L s = [] \<and> to_lower (ci_L m) \<in> set (cte_names pre)")
    case True
    then have "v_resolve cat s m v = v" using assms(2) by (simp add: v_resolve_def v_inv_def)
    then show ?thesis
      using TableName True assms(2,4) v_inv_cte_ref by (simp add: Enter_def v_inv_err)
  next
    case False
    then obtain r where r: "ci_L s = []" "cat_Lookup cat [] (to_lower (ci_L m)) = Some r"
      using TableName assms(3) by (auto split: if_splits)
    then have "v_resolve cat s m v = v\<lparr>v_seen := AList.update (rel_Name r) r (v_seen v)\<rparr>"
      using False assms(2) by (simp add: v_resolve_def v_inv_def)
    then show ?thesis
      using TableName assms(2,4) v_inv_resolved [OF assms(1,2) r(2)] by (simp add: Enter_def v_inv_err)
  qed
next
  case (SelectStmt into lock)
  then show ?thesis
    using assms v_inv_plain [OF assms(2), of "SelectStmt into lock" d]
    by (auto simp: Enter_def v_inv_err Let_def split: if_splits)
next
  case (SetOprStmt sels)
  then show ?thesis
    using assms v_inv_plain [OF assms(2), of "SetOprStmt sels" d]
    by (auto simp: Enter_def v_inv_err split: option.splits if_splits)
next
  case (FuncCallExpr fn)
  then show ?thesis
    using assms v_inv_plain [OF assms(2), of "FuncCallExpr fn" d]
    by (auto simp: Enter_def v_inv_err split: option.splits if_splits)
next
  case (OtherNode t)
  then show ?thesis
    using assms v_inv_plain [OF assms(2), of "OtherNode t" d] by (simp add: Enter_def v_inv_err)
qed

lemma Enter_breach:
  assumes "v_inv cat pre v" "breach cat p pre (d, kind_of n) = Some r"
    "v_depth v = (if is_select (kind_of n) then d - 1 else d)"
  shows "\<exists>e. v_err (fst (Enter cat p n v)) = Some e \<and> re_Reason e = r"
proof (cases "kind_of n")
  case (WithClause ctes)
  then show ?thesis
    using assms enter_ctes_clash [of cat ctes v] by (auto simp: Enter_def v_inv_err split: if_splits)
next
  case (TableName s m)
  then show ?thesis
    using assms by (auto simp: Enter_def v_inv_def v_resolve_def split: if_splits)
next
  case (SelectStmt into lock)
  then show ?thesis
    using assms by (auto simp: Enter_def v_inv_err Let_def split: if_splits)
next
  case (SetOprStmt sels)
  then show ?thesis
    using assms by (auto simp: Enter_def v_inv_err split: if_splits option.splits)
next
  case (Join right)
  then show ?thesis
    using assms by (auto simp: Enter_def v_inv_def Let_def split: if_splits)
next
  case (FuncCallExpr fn)
  then show ?thesis
    using assms by (auto simp: Enter_def v_inv_err split: if_splits)
qed (use assms in simp)

lemma Leave_err [simp]: "v_err (fst (Leave n v)) = v_err v" "snd (Leave n v) \<longleftrightarrow> v_err v = None"
  by (simp_all add: Leave_def Let_def)

section \<open>The traversal\<close>

definition visit_result :: "Catalog \<Rightarrow> (int \<times> node_kind) list \<Rightarrow> int \<Rightarrow> Reason option \<Rightarrow> validator \<times> bool \<Rightarrow> bool" where
  "visit_result cat post d verdict res = (case verdict of
       None \<Rightarrow> snd res \<and> v_inv cat post (fst res) \<and> v_depth (fst res) = d
     | Some r \<Rightarrow> \<not> snd res \<and> (\<exists>e. v_err (fst res) = Some e \<and> re_Reason e = r))"

lemma visitor_unfold:
  "visitor_protocol Accept \<Longrightarrow> Accept enter leave n v =
     (case enter n v of (v1, skip) \<Rightarrow>
        if skip then leave n v1
        else case accept_all (Accept enter leave) (children n) v1 of (v2, ok) \<Rightarrow>
          if ok then leave n v2 else (v2, False))"
  unfolding visitor_protocol_def by blast

text \<open>After a refusal nothing more is entered.\<close>

lemma visit_after_error:
  assumes "visitor_protocol Accept" "v_err v = Some e"
  shows "v_err (fst (Accept (Enter cat p) Leave n v)) = Some e" "\<not> snd (Accept (Enter cat p) Leave n v)"
  using assms(2) by (simp_all add: visitor_unfold [OF assms(1), of _ _ n] Enter_def)

lemma accept_all_after_error:
  assumes "visitor_protocol Accept" "v_err v = Some e"
  shows "v_err (fst (accept_all (Accept (Enter cat p) Leave) ns v)) = Some e"
  using assms(2) visit_after_error [OF assms, of cat p]
  by (cases ns) (simp_all add: case_prod_beta)

lemma visit_breach:
  assumes "visitor_protocol Accept" "v_err (fst (Enter cat p n v)) = Some e"
  shows "v_err (fst (Accept (Enter cat p) Leave n v)) = Some e \<and> \<not> snd (Accept (Enter cat p) Leave n v)"
  using assms(2) accept_all_after_error [OF assms, of cat p "children n"]
  by (simp add: visitor_unfold [OF assms(1), of _ _ n] case_prod_beta)

lemma visit_children:
  assumes "\<And>n pre v. n \<in> set ns \<Longrightarrow> v_inv cat pre v \<Longrightarrow> v_depth v = d \<Longrightarrow>
      visit_result cat (pre @ visits d n) d (first_breach cat p pre (visits d n)) (acc n v)"
    "v_inv cat pre v" "v_depth v = d"
  shows "visit_result cat (pre @ concat (map (visits d) ns)) d
           (first_breach cat p pre (concat (map (visits d) ns))) (accept_all acc ns v)"
  using assms
proof (induction ns arbitrary: pre v)
  case Nil
  then show ?case by (simp add: visit_result_def)
next
  case (Cons n ns)
  have n: "visit_result cat (pre @ visits d n) d (first_breach cat p pre (visits d n)) (acc n v)"
    by (rule Cons.prems(1)) (use Cons.prems in simp_all)
  show ?case
  proof (cases "first_breach cat p pre (visits d n)")
    case None
    then obtain v1 where v1: "acc n v = (v1, True)" "v_inv cat (pre @ visits d n) v1" "v_depth v1 = d"
      using n by (cases "acc n v") (auto simp: visit_result_def)
    have "visit_result cat ((pre @ visits d n) @ concat (map (visits d) ns)) d
           (first_breach cat p (pre @ visits d n) (concat (map (visits d) ns))) (accept_all acc ns v1)"
      by (rule Cons.IH) (use Cons.prems(1) v1 in simp_all)
    then show ?thesis using None v1 by (simp add: first_breach_append)
  next
    case (Some r)
    then show ?thesis
      using n by (cases "acc n v") (auto simp: visit_result_def first_breach_append)
  qed
qed

lemma visit_node:
  assumes prot: "visitor_protocol Accept" and wf: "wf_catalog cat"
  shows "v_inv cat pre v \<Longrightarrow> v_depth v = d \<Longrightarrow>
     visit_result cat (pre @ visits d n) d (first_breach cat p pre (visits d n)) (Accept (Enter cat p) Leave n v)"
proof (induction n arbitrary: pre v d)
  case (Node k cs)
  define d1 where "d1 = (if is_select k then d + 1 else d)"
  have vis: "visits d (Node k cs) = (d1, k) # concat (map (visits d1) cs)" by (simp add: visits.simps d1_def Let_def)
  have depth: "v_depth v = (if is_select (kind_of (Node k cs)) then d1 - 1 else d1)"
    using Node.prems by (simp add: d1_def)
  show ?case
  proof (cases "breach cat p pre (d1, k)")
    case (Some r)
    then obtain e where e: "v_err (fst (Enter cat p (Node k cs) v)) = Some e" "re_Reason e = r"
      using Enter_breach [OF Node.prems(1) _ depth, of p r] by auto
    show ?thesis using visit_breach [OF prot e(1)] e(2) Some by (simp add: vis visit_result_def)
  next
    case None
    then obtain v1 where v1: "Enter cat p (Node k cs) v = (v1, False)" "v_inv cat (pre @ [(d1, k)]) v1"
      "v_depth v1 = d1" using Enter_ok [OF wf Node.prems(1) _ depth, of p] by auto
    have cs: "visit_result cat ((pre @ [(d1, k)]) @ concat (map (visits d1) cs)) d1
        (first_breach cat p (pre @ [(d1, k)]) (concat (map (visits d1) cs)))
        (accept_all (Accept (Enter cat p) Leave) cs v1)"
      by (rule visit_children) (use Node.IH v1 in auto)
    obtain v2 ok where v2: "accept_all (Accept (Enter cat p) Leave) cs v1 = (v2, ok)" by fastforce
    have "Accept (Enter cat p) Leave (Node k cs) v = (if ok then Leave (Node k cs) v2 else (v2, False))"
      using v1 v2 by (simp add: visitor_unfold [OF prot, of _ _ "Node k cs"])
    then show ?thesis
      using cs v2 None by (cases "first_breach cat p (pre @ [(d1, k)]) (concat (map (visits d1) cs))")
        (auto simp: vis visit_result_def d1_def Leave_def [of "Node k cs"] v_inv_err)
  qed
qed

section \<open>The relations of an accepted statement\<close>

lemma set_move_left [simp]: "set (move_left r xs) = insert r (set xs)"
  by (induction xs) auto

lemma distinct_move_left:
  "distinct (map rel_Name xs) \<Longrightarrow> rel_Name r \<notin> rel_Name ` set xs \<Longrightarrow> distinct (map rel_Name (move_left r xs))"
  by (induction xs) (auto simp: image_iff)

lemma sorted_move_left:
  "sorted_wrt (\<lambda>x y. rel_Name y \<le> rel_Name x) xs \<Longrightarrow> sorted_wrt (\<lambda>x y. rel_Name y \<le> rel_Name x) (move_left r xs)"
  by (induction xs) (auto intro: less_imp_le order_trans)

lemma move_left_fold:
  assumes "distinct (map rel_Name acc @ map rel_Name rs)" "sorted_wrt (\<lambda>x y. rel_Name y \<le> rel_Name x) acc"
  shows "set (foldl (\<lambda>acc r. move_left r acc) acc rs) = set acc \<union> set rs
     \<and> distinct (map rel_Name (foldl (\<lambda>acc r. move_left r acc) acc rs))
     \<and> sorted_wrt (\<lambda>x y. rel_Name y \<le> rel_Name x) (foldl (\<lambda>acc r. move_left r acc) acc rs)"
  using assms
proof (induction rs arbitrary: acc)
  case (Cons r rs)
  have "distinct (map rel_Name (move_left r acc) @ map rel_Name rs)"
    using Cons.prems distinct_move_left [of acc r] by (auto simp: image_iff)
  from Cons.IH [OF this sorted_move_left [OF Cons.prems(2)]] show ?case by simp
qed simp

lemma map_snd_names: "list_all (\<lambda>(k, r). rel_Name r = k) m \<Longrightarrow> map rel_Name (map snd m) = map fst m"
  by (induction m) auto

lemma relations_spec:
  assumes "v_inv cat pre v"
  shows "set (relations v) = named_relations cat pre" "sorted (map rel_Name (relations v))"
    "distinct (relations v)"
proof -
  have "list_all (\<lambda>(k, r). rel_Name r = k) (v_seen v)" "distinct (map fst (v_seen v))"
    and seen: "set (map snd (v_seen v)) = named_relations cat pre" using assms by (simp_all add: v_inv_def)
  then have "distinct (map rel_Name (map snd (v_seen v)))" by (simp only: map_snd_names)
  then have fold: "set (foldl (\<lambda>acc r. move_left r acc) [] (map snd (v_seen v))) = set (map snd (v_seen v))"
    "distinct (map rel_Name (foldl (\<lambda>acc r. move_left r acc) [] (map snd (v_seen v))))"
    "sorted_wrt (\<lambda>x y. rel_Name y \<le> rel_Name x) (foldl (\<lambda>acc r. move_left r acc) [] (map snd (v_seen v)))"
    using move_left_fold [of "[]" "map snd (v_seen v)"] by simp_all
  show "set (relations v) = named_relations cat pre" using fold(1) seen by (simp add: relations_def)
  show "sorted (map rel_Name (relations v))"
    using fold(3) by (simp add: relations_def sorted_wrt_map sorted_wrt_rev)
  show "distinct (relations v)" using fold(2) by (simp add: relations_def distinct_map)
qed

text \<open>The outcome of a statement that is one query of permitted size.\<close>

lemma Validate_one_query:
  assumes "visitor_protocol Accept" "wf_catalog cat" "Parse sql = Inr [stmt]"
    "is_query (kind_of (stmt_tree stmt))" "int (length sql) \<le> MaxStatementBytes p"
  shows "case Validate Parse Accept sql cat p of
      Inl e \<Rightarrow> first_breach cat p [] (visits 0 (stmt_tree stmt)) = Some (re_Reason e)
    | Inr a \<Rightarrow> first_breach cat p [] (visits 0 (stmt_tree stmt)) = None \<and> an_Stmt a = stmt
        \<and> set (an_Relations a) = named_relations cat (visits 0 (stmt_tree stmt))
        \<and> sorted (map rel_Name (an_Relations a)) \<and> distinct (an_Relations a)"
proof -
  define v0 where "v0 = \<lparr>v_err = None, v_depth = 0, v_joins = 0, v_seen = [], v_cteNames = []\<rparr>"
  define v where "v = fst (Accept (Enter cat p) Leave (stmt_tree stmt) v0)"
  have vis: "visit_result cat (visits 0 (stmt_tree stmt)) 0
      (first_breach cat p [] (visits 0 (stmt_tree stmt))) (Accept (Enter cat p) Leave (stmt_tree stmt) v0)"
    using visit_node [OF assms(1,2) v_inv_start] by (simp add: v0_def)
  have val: "Validate Parse Accept sql cat p = (case v_err v of Some e \<Rightarrow> Err e
      | None \<Rightarrow> Ok \<lparr>an_Relations = relations v, an_Stmt = stmt\<rparr>)"
    unfolding v_def v0_def using assms(3-5) by (simp add: Validate_def Let_def cong: option.case_cong)
  show ?thesis
  proof (cases "first_breach cat p [] (visits 0 (stmt_tree stmt))")
    case None
    then have inv: "v_inv cat (visits 0 (stmt_tree stmt)) v" using vis by (simp add: visit_result_def v_def)
    show ?thesis using None val v_inv_err [OF inv] relations_spec [OF inv] by simp
  next
    case (Some r)
    then obtain e where "v_err v = Some e" "re_Reason e = r" using vis by (auto simp: visit_result_def v_def)
    then show ?thesis using Some val by simp
  qed
qed

text \<open>A statement that is accepted was one query within the size limit.\<close>

lemma Validate_OkD:
  assumes "Validate Parse Accept sql cat p = Inr a"
  shows "\<exists>stmt. Parse sql = Inr [stmt] \<and> is_query (kind_of (stmt_tree stmt)) \<and> int (length sql) \<le> MaxStatementBytes p"
  using assms by (auto simp: Validate_def split: if_splits sum.splits list.splits)

lemma first_breach_none:
  assumes "first_breach cat p pre xs = None" "x \<in> set xs"
  shows "\<exists>ys zs. xs = ys @ x # zs \<and> breach cat p (pre @ ys) x = None"
  using assms
proof (induction xs arbitrary: pre)
  case (Cons a xs)
  have a: "breach cat p pre a = None" and rest: "first_breach cat p (pre @ [a]) xs = None"
    using Cons.prems(1) by (auto split: option.splits)
  show ?case
  proof (cases "x = a")
    case True
    then show ?thesis using a by (intro exI [of _ "[]"] exI [of _ xs]) simp
  next
    case False
    then obtain ys zs where "xs = ys @ x # zs" "breach cat p ((pre @ [a]) @ ys) x = None"
      using Cons.IH [OF rest] Cons.prems(2) by auto
    then show ?thesis by (intro exI [of _ "a # ys"] exI [of _ zs]) simp
  qed
qed simp

lemma first_breach_joins:
  assumes "first_breach cat p pre xs = None" "join_count pre \<le> max 0 (MaxJoins p)"
  shows "join_count (pre @ xs) \<le> max 0 (MaxJoins p)"
  using assms
proof (induction xs arbitrary: pre)
  case (Cons a xs)
  have "breach cat p pre a = None" and rest: "first_breach cat p (pre @ [a]) xs = None"
    using Cons.prems(1) by (auto split: option.splits)
  then have "join_count (pre @ [a]) \<le> max 0 (MaxJoins p)"
    using Cons.prems(2) by (cases a; cases "snd a") (auto simp: join_count_append split: if_splits)
  from Cons.IH [OF rest this] show ?case by simp
qed simp

text \<open>What the absence of a breach says of one node.\<close>

fun permitted :: "Catalog \<Rightarrow> Policy_sql \<Rightarrow> string list \<Rightarrow> int \<times> node_kind \<Rightarrow> bool" where
  "permitted cat p ctes (d, SelectStmt into lock) \<longleftrightarrow> d \<le> MaxSubqueryDepth p \<and> \<not> into \<and> \<not> lock"
| "permitted cat p ctes (d, SetOprStmt sels) \<longleftrightarrow> (case sels of Some b \<Rightarrow> int b \<le> MaxSetOpBranches p | None \<Rightarrow> True)"
| "permitted cat p ctes (d, WithClause cs) \<longleftrightarrow> list_all (\<lambda>c. cat_Lookup cat [] (to_lower (ci_L c)) = None) cs"
| "permitted cat p ctes (d, Join right) \<longleftrightarrow> True"
| "permitted cat p ctes (d, TableName schema name) \<longleftrightarrow> ci_L schema = []
     \<and> (to_lower (ci_L name) \<in> set ctes \<or> cat_Lookup cat [] (to_lower (ci_L name)) \<noteq> None)"
| "permitted cat p ctes (d, FuncCallExpr fn) \<longleftrightarrow> map_of deniedFunctions (to_lower (ci_L fn)) = None"
| "permitted cat p ctes (d, OtherNode t) \<longleftrightarrow> True"

lemma breach_none_permitted:
  "breach cat p pre x = None \<Longrightarrow> set (cte_names pre) \<subseteq> set ctes \<Longrightarrow> permitted cat p ctes x"
  by (cases "(cat, p, ctes, x)" rule: permitted.cases)
    (auto simp: list_ex_iff list_all_iff split: if_splits option.splits)

lemma accepted_nodes_permitted:
  assumes "first_breach cat p [] xs = None" "x \<in> set xs"
  shows "permitted cat p (cte_names xs) x"
proof -
  obtain ys zs where "xs = ys @ x # zs" "breach cat p ys x = None"
    using first_breach_none [OF assms] by auto
  then show ?thesis by (auto intro: breach_none_permitted)
qed

section \<open>An implementation of the visitor protocol\<close>

fun walk :: "'v visitor"
  and walk_all :: "(node \<Rightarrow> 'v \<Rightarrow> 'v \<times> bool) \<Rightarrow> (node \<Rightarrow> 'v \<Rightarrow> 'v \<times> bool) \<Rightarrow> node list \<Rightarrow> 'v \<Rightarrow> 'v \<times> bool" where
  "walk enter leave (Node k cs) v = (case enter (Node k cs) v of (v1, skip) \<Rightarrow>
     if skip then leave (Node k cs) v1
     else case walk_all enter leave cs v1 of (v2, ok) \<Rightarrow>
       if ok then leave (Node k cs) v2 else (v2, False))"
| "walk_all enter leave [] v = (v, True)"
| "walk_all enter leave (n # ns) v =
     (case walk enter leave n v of (v1, ok) \<Rightarrow> if ok then walk_all enter leave ns v1 else (v1, False))"

lemma walk_all_accept_all: "walk_all enter leave ns v = accept_all (walk enter leave) ns v"
  by (induction ns arbitrary: v) (auto split: prod.splits)

lemma walk_protocol: "visitor_protocol walk"
  unfolding visitor_protocol_def
proof (intro allI)
  fix enter leave :: "node \<Rightarrow> 'a \<Rightarrow> 'a \<times> bool" and n :: node and v :: 'a
  show "walk enter leave n v = (case enter n v of (v1, skip) \<Rightarrow> if skip then leave n v1
      else case accept_all (walk enter leave) (children n) v1 of (v2, ok) \<Rightarrow>
        if ok then leave n v2 else (v2, False))"
  proof (cases n)
    case (Node k cs)
    show ?thesis unfolding Node walk.simps node.sel walk_all_accept_all ..
  qed
qed

section \<open>Properties\<close>

text \<open>C28: The policy decides as its declarative reading does. For a text of permitted size that
  parses to one query, \<open>Validate\<close> refuses with the reason of the first node, in visiting order, that
  breaks a rule, and accepts exactly when no node breaks one; the relations of an accepted statement
  are precisely the catalog relations its table references name, sorted by name and without
  duplicates.\<close>

theorem policy_verdict:
  assumes "visitor_protocol Accept" "wf_catalog cat" "Parse sql = Inr [stmt]"
    "is_query (kind_of (stmt_tree stmt))" "int (length sql) \<le> MaxStatementBytes p"
  shows "case Validate Parse Accept sql cat p of
      Inl e \<Rightarrow> first_breach cat p [] (visits 0 (stmt_tree stmt)) = Some (re_Reason e)
    | Inr a \<Rightarrow> first_breach cat p [] (visits 0 (stmt_tree stmt)) = None \<and> an_Stmt a = stmt
        \<and> set (an_Relations a) = named_relations cat (visits 0 (stmt_tree stmt))
        \<and> sorted (map rel_Name (an_Relations a)) \<and> distinct (an_Relations a)"
  using assms by (rule Validate_one_query)

text \<open>The statement \<open>SELECT ... FROM a, b\<close> as the parser presents it.\<close>

definition ident :: "string \<Rightarrow> CIStr" where
  "ident s = \<lparr>ci_O = s, ci_L = to_lower s\<rparr>"

definition table_ref :: "string \<Rightarrow> node" where
  "table_ref s = Node (OtherNode ''*ast.TableSource'') [Node (TableName (ident []) (ident s)) []]"

definition select_from :: "node list \<Rightarrow> node \<Rightarrow> node \<Rightarrow> node" where
  "select_from before a b = Node (SelectStmt False False) (before @
     [Node (OtherNode ''*ast.TableRefsClause'') [Node (Join True) [a, b]]])"

definition as_stmt :: "node \<Rightarrow> unit ast_stmt" where
  "as_stmt n = \<lparr>stmt_tree = n, stmt_select = None\<rparr>"

theorem policy_verdict_witness:
  "\<exists>e. Validate (\<lambda>_. Inr [as_stmt (select_from [] (table_ref ''Traces'') (table_ref ''users''))]) walk
      ''q'' DefaultCatalog DefaultPolicy_sql = Inl e \<and> re_Reason e = ReasonUnknownRelation"
proof -
  let ?n = "select_from [] (table_ref ''Traces'') (table_ref ''users'')"
  have isl: "isl (Validate (\<lambda>_. Inr [as_stmt ?n]) walk ''q'' DefaultCatalog DefaultPolicy_sql)" by code_simp
  have first: "first_breach DefaultCatalog DefaultPolicy_sql [] (visits 0 ?n) = Some ReasonUnknownRelation"
    by code_simp
  have tree: "stmt_tree (as_stmt ?n) = ?n" "is_query (kind_of (stmt_tree (as_stmt ?n)))"
    by (simp_all add: as_stmt_def select_from_def)
  have len: "int (length ''q'') \<le> MaxStatementBytes DefaultPolicy_sql" by (simp add: DefaultPolicy_sql_def)
  show ?thesis
    using policy_verdict [OF walk_protocol wf_DefaultCatalog refl tree(2) len] isl first
    unfolding tree(1) by (auto simp: isl_def)
qed

text \<open>An accepted statement reads only what the policy allows. It is one query of permitted size
  with at most the permitted joins; every table reference in it is unqualified and names a relation
  that the analysis lists or a common table expression of the statement, no common table expression
  has a catalog name, no denied function is called, nothing is written to a file or locked, and no
  query is nested deeper or branches wider than permitted.\<close>

theorem accepted_statement_within_policy:
  assumes "visitor_protocol Accept" "wf_catalog cat" "Validate Parse Accept sql cat p = Inr a"
  shows "Parse sql = Inr [an_Stmt a] \<and> int (length sql) \<le> MaxStatementBytes p
    \<and> join_count (visits 0 (stmt_tree (an_Stmt a))) \<le> max 0 (MaxJoins p)
    \<and> (\<forall>x \<in> set (visits 0 (stmt_tree (an_Stmt a))).
         permitted cat p (cte_names (visits 0 (stmt_tree (an_Stmt a)))) x)
    \<and> (\<forall>d s n. (d, TableName s n) \<in> set (visits 0 (stmt_tree (an_Stmt a))) \<longrightarrow>
         to_lower (ci_L n) \<in> set (cte_names (visits 0 (stmt_tree (an_Stmt a))))
         \<or> (\<exists>r \<in> set (an_Relations a). rel_Name r = to_lower (ci_L n)))"
proof -
  obtain stmt where stmt: "Parse sql = Inr [stmt]" "is_query (kind_of (stmt_tree stmt))"
    "int (length sql) \<le> MaxStatementBytes p" using Validate_OkD [OF assms(3)] by blast
  let ?L = "visits 0 (stmt_tree stmt)"
  have ok: "first_breach cat p [] ?L = None" "an_Stmt a = stmt" "set (an_Relations a) = named_relations cat ?L"
    using Validate_one_query [where Parse = Parse and sql = sql, OF assms(1,2) stmt] assms(3) by simp_all
  have perm: "permitted cat p (cte_names ?L) x" if "x \<in> set ?L" for x
    using accepted_nodes_permitted [OF ok(1) that] .
  have tab: "to_lower (ci_L n) \<in> set (cte_names ?L) \<or> (\<exists>r \<in> set (an_Relations a). rel_Name r = to_lower (ci_L n))"
    if "(d, TableName s n) \<in> set ?L" for d s n
  proof (cases "cat_Lookup cat [] (to_lower (ci_L n))")
    case None
    then show ?thesis using perm [OF that] by simp
  next
    case (Some r)
    then have "r \<in> set (an_Relations a)" using that unfolding ok(3) named_relations_def by blast
    moreover have "rel_Name r = to_lower (ci_L n)" using wf_catalogD [OF assms(2) Some] by simp
    ultimately show ?thesis by blast
  qed
  have "join_count ?L \<le> max 0 (MaxJoins p)"
    using first_breach_joins [OF ok(1)] by (simp add: join_count_def)
  then show ?thesis using stmt perm tab unfolding ok(2) by blast
qed

theorem accepted_statement_within_policy_witness:
  "\<exists>a. Validate (\<lambda>_. Inr [as_stmt (select_from [] (table_ref ''Traces'') (table_ref ''logs''))]) walk
      ''q'' DefaultCatalog DefaultPolicy_sql = Inr a
    \<and> join_count (visits 0 (stmt_tree (an_Stmt a))) \<le> 4"
proof -
  have v: "isl (Validate (\<lambda>_. Inr [as_stmt (select_from [] (table_ref ''Traces'') (table_ref ''logs''))]) walk
      ''q'' DefaultCatalog DefaultPolicy_sql) = False" by code_simp
  then obtain a where a: "Validate (\<lambda>_. Inr [as_stmt (select_from [] (table_ref ''Traces'') (table_ref ''logs''))])
      walk ''q'' DefaultCatalog DefaultPolicy_sql = Inr a" by (metis sum.collapse(2))
  show ?thesis
    using accepted_statement_within_policy [OF walk_protocol wf_DefaultCatalog a] a
    by (simp add: DefaultPolicy_sql_def)
qed

text \<open>The name of a common table expression is accepted everywhere after its definition, not
  only inside the query that defines it. For every name outside the catalog, the statement
  \<open>SELECT ... FROM (WITH x AS (SELECT ...) SELECT ... FROM x, x) , x\<close> passes the policy and its
  analysis lists no relation, although the last \<open>x\<close> refers to nothing that the policy resolved.\<close>

definition cte_query :: "string \<Rightarrow> node" where
  "cte_query x = select_from [Node (WithClause [ident x]) [Node (OtherNode ''*ast.CommonTableExpression'')
     [Node (SelectStmt False False) []]]] (table_ref x) (table_ref x)"

theorem cte_name_outlives_its_query:
  assumes "visitor_protocol Accept" "wf_catalog cat" "cat_Lookup cat [] x = None"
    "Parse sql = Inr [as_stmt (select_from [] (Node (OtherNode ''*ast.TableSource'') [cte_query x]) (table_ref x))]"
    "int (length sql) \<le> MaxStatementBytes DefaultPolicy_sql"
  shows "\<exists>a. Validate Parse Accept sql cat DefaultPolicy_sql = Inr a \<and> an_Relations a = []"
proof -
  let ?n = "select_from [] (Node (OtherNode ''*ast.TableSource'') [cte_query x]) (table_ref x)"
  have free: "cat_Lookup cat [] (to_lower x) = None" using assms(3) by (simp add: cat_Lookup_def)
  have vis: "visits 0 ?n =
     [(1, SelectStmt False False), (1, OtherNode ''*ast.TableRefsClause''), (1, Join True),
      (1, OtherNode ''*ast.TableSource''), (2, SelectStmt False False), (2, WithClause [ident x]),
      (2, OtherNode ''*ast.CommonTableExpression''), (3, SelectStmt False False),
      (2, OtherNode ''*ast.TableRefsClause''), (2, Join True),
      (2, OtherNode ''*ast.TableSource''), (2, TableName (ident []) (ident x)),
      (2, OtherNode ''*ast.TableSource''), (2, TableName (ident []) (ident x)),
      (1, OtherNode ''*ast.TableSource''), (1, TableName (ident []) (ident x))]"
    by (simp add: visits.simps select_from_def table_ref_def cte_query_def Let_def)
  have breach: "first_breach cat DefaultPolicy_sql [] (visits 0 ?n) = None"
    using free unfolding vis by (simp add: DefaultPolicy_sql_def ident_def join_count_def)
  have none: "named_relations cat (visits 0 ?n) = {}"
    using free unfolding vis by (auto simp: named_relations_def ident_def)
  show ?thesis
    using Validate_one_query [where Parse = Parse and sql = sql, OF assms(1,2,4) _ assms(5)] breach none
    by (cases "Validate Parse Accept sql cat DefaultPolicy_sql") (auto simp: as_stmt_def select_from_def)
qed

theorem cte_name_outlives_its_query_witness:
  "\<exists>a. Validate (\<lambda>_. Inr [as_stmt (select_from [] (Node (OtherNode ''*ast.TableSource'') [cte_query ''duckdb_tables''])
        (table_ref ''duckdb_tables''))]) walk ''q'' DefaultCatalog DefaultPolicy_sql = Inr a \<and> an_Relations a = []"
proof (rule cte_name_outlives_its_query [OF walk_protocol wf_DefaultCatalog])
  show "cat_Lookup DefaultCatalog [] ''duckdb_tables'' = None" by code_simp
qed (simp_all add: DefaultPolicy_sql_def)

end
