(* ===== verification/Sql_Engine.thy ===== *)
theory Sql_Engine
  imports Sql_Policy Complex_Main
begin

text \<open>
  Running an accepted statement, \<open>src/gateway-service/internal/sqlq\<close>: the row budget (\<open>budget.go\<close>),
  the aggregates that a store answers itself (\<open>pushdown.go\<close>), the requests the three scanners send
  (\<open>scan_clickhouse.go\<close>, \<open>scan_postgres.go\<close>, \<open>scan_quickwit.go\<close>), the engine (\<open>engine.go\<close>) and
  the HTTP handler with its audit row (\<open>internal/handler/sql_query_handler.go\<close>). The stores, the
  embedded database and the rendering of a syntax tree are arguments.
\<close>

section \<open>Values\<close>

text \<open>A value of Go type \<open>any\<close> as the drivers produce it. JSON numbers are finite.\<close>

datatype cell =
    CNil | CBool bool | CInt int | CFloat rat | CBytes bytes | CStr string | CTime int | COther string

record Rows =
  rows_Columns :: "string list"
  rows_Values :: "cell list list"

definition EqualFold :: "string \<Rightarrow> string \<Rightarrow> bool" where
  "EqualFold a b \<longleftrightarrow> to_lower a = to_lower b"

section \<open>budget.go\<close>

record Budget =
  MaxRowsPerRelation :: int
  MaxTotalRows :: int
  MaxWallClock :: int

definition DefaultBudget :: Budget where
  "DefaultBudget = \<lparr>MaxRowsPerRelation = 500000, MaxTotalRows = 1000000, MaxWallClock = 30 * 10 ^ 9\<rparr>"

record BudgetError =
  be_Limit :: string
  be_Detail :: message

text \<open>An error value: a foreign error by its text, \<open>fmt.Errorf\<close> with its arguments, the same with a
  wrapped error (\<open>%w\<close>), and the two error types of the package.\<close>

datatype goerr =
    Foreign string
  | Errorf string "string list"
  | Wrap string "string list" goerr
  | Rejection RejectionError
  | OverBudget BudgetError

text \<open>\<open>errors.As\<close> follows the wrapped errors.\<close>

fun ReasonOf :: "goerr \<Rightarrow> Reason option" where
  "ReasonOf (Rejection e) = Some (re_Reason e)"
| "ReasonOf (Wrap _ _ e) = ReasonOf e"
| "ReasonOf _ = None"

fun as_budget_error :: "goerr \<Rightarrow> BudgetError option" where
  "as_budget_error (OverBudget e) = Some e"
| "as_budget_error (Wrap _ _ e) = as_budget_error e"
| "as_budget_error _ = None"

definition tracker_add :: "Budget \<Rightarrow> int \<Rightarrow> string \<Rightarrow> int \<Rightarrow> BudgetError + int" where
  "tracker_add b sofar relation n =
     (if n > MaxRowsPerRelation b then
        Err \<lparr>be_Limit = ''rows_per_relation'',
             be_Detail = (''relation %q returned %d rows, limit is %d'',
               [relation, format_int n, format_int (MaxRowsPerRelation b)])\<rparr>
      else if sofar + n > MaxTotalRows b then
        Err \<lparr>be_Limit = ''total_rows'',
             be_Detail = (''query scanned %d rows across all relations, limit is %d'',
               [format_int (sofar + n), format_int (MaxTotalRows b)])\<rparr>
      else Ok (sofar + n))"

section \<open>pushdown.go: recognising an aggregate\<close>

text \<open>The fields of the parser's nodes that planning reads. \<open>LitUInt\<close> is a value of Go type
  \<open>uint64\<close>; a pointer that may be nil is an option.\<close>

datatype lit = LitStr string | LitUInt nat | LitNull | LitOther

datatype binop = LogicAnd | EQ | OtherOp

record column_name =
  cn_Schema :: CIStr
  cn_Table :: CIStr
  cn_Name :: CIStr

datatype expr =
    ParenthesesExpr expr
  | BinaryOperationExpr binop expr expr
  | ColumnNameExpr "column_name option"
  | ValueExpr lit
  | AggregateFuncExpr string bool "expr list"
  | OtherExpr

record SelectField =
  f_Expr :: "expr option"
  f_AsName :: CIStr

datatype result_set = TableSourceName | TableSourceOther | OtherResultSet

record join_node =
  j_Left :: result_set
  j_Right :: bool

record by_item =
  by_Expr :: expr
  by_Desc :: bool

record limit_node =
  lim_Offset :: bool
  lim_Count :: "expr option"

record select =
  sel_Having :: bool
  sel_Distinct :: bool
  sel_WindowSpecs :: bool
  sel_With :: bool
  sel_LockInfo :: bool
  sel_From :: "join_node option"
  sel_Where :: "expr option"
  sel_Fields :: "SelectField list"
  sel_GroupBy :: "expr list option"
  sel_OrderBy :: "by_item list option"
  sel_Limit :: "limit_node option"

record Predicate =
  pr_Column :: string
  pr_Value :: string

datatype pushdownKind = pushNone | pushCountAll | pushGroupCount

record pushdownPlan =
  pl_kind :: pushdownKind
  pl_rel :: Relation
  pl_column :: string
  pl_where :: "Predicate list"
  pl_groupAlias :: string
  pl_countAlias :: string
  pl_limit :: int

definition defaultGroupLimit :: int where "defaultGroupLimit = 1000"

fun columnNameOf :: "expr \<Rightarrow> string option" where
  "columnNameOf (ColumnNameExpr (Some c)) =
     (if ci_L (cn_Table c) \<noteq> [] \<or> ci_L (cn_Schema c) \<noteq> [] then None else Some (ci_O (cn_Name c)))"
| "columnNameOf _ = None"

fun columnAndLiteral :: "expr \<Rightarrow> expr \<Rightarrow> (string \<times> string) option" where
  "columnAndLiteral a b = (case columnNameOf a of None \<Rightarrow> None
     | Some name \<Rightarrow> (case b of ValueExpr (LitStr s) \<Rightarrow> Some (name, s) | _ \<Rightarrow> None))"

definition equalityTerm :: "expr \<Rightarrow> expr \<Rightarrow> Relation \<Rightarrow> Predicate option" where
  "equalityTerm l r rel =
     (case (case columnAndLiteral l r of Some x \<Rightarrow> Some x | None \<Rightarrow> columnAndLiteral r l) of
        None \<Rightarrow> None
      | Some (col, lit) \<Rightarrow>
          if \<not> HasColumn rel col then None else Some \<lparr>pr_Column = col, pr_Value = lit\<rparr>)"

fun equality_predicates :: "expr \<Rightarrow> Relation \<Rightarrow> Predicate list option" where
  "equality_predicates (ParenthesesExpr e) rel = equality_predicates e rel"
| "equality_predicates (BinaryOperationExpr op l r) rel =
     (case op of
        LogicAnd \<Rightarrow> (case equality_predicates l rel of None \<Rightarrow> None
          | Some left \<Rightarrow> (case equality_predicates r rel of None \<Rightarrow> None
              | Some right \<Rightarrow> Some (left @ right)))
      | EQ \<Rightarrow> (case equalityTerm l r rel of None \<Rightarrow> None | Some p \<Rightarrow> Some [p])
      | OtherOp \<Rightarrow> None)"
| "equality_predicates _ rel = None"

definition equalityPredicates :: "expr option \<Rightarrow> Relation \<Rightarrow> Predicate list option" where
  "equalityPredicates e rel = (case e of None \<Rightarrow> Some [] | Some x \<Rightarrow> equality_predicates x rel)"

definition singleTableFrom :: "select \<Rightarrow> bool" where
  "singleTableFrom sel = (case sel_From sel of None \<Rightarrow> False
     | Some j \<Rightarrow> \<not> j_Right j \<and> j_Left j = TableSourceName)"

fun is_value :: "expr \<Rightarrow> bool" where
  "is_value (ValueExpr _) = True"
| "is_value _ = False"

definition countStar :: "SelectField \<Rightarrow> string option" where
  "countStar f = (case f_Expr f of
       Some (AggregateFuncExpr fn distinct_only args) \<Rightarrow>
         if \<not> EqualFold fn ''count'' \<or> distinct_only \<or> length args \<noteq> 1 then None
         else if \<not> is_value (args ! 0) then None
         else Some (if ci_O (f_AsName f) = [] then ''count(*)'' else ci_O (f_AsName f))
     | _ \<Rightarrow> None)"

definition plainColumn :: "SelectField \<Rightarrow> (string \<times> string) option" where
  "plainColumn f = (case f_Expr f of None \<Rightarrow> None
     | Some e \<Rightarrow> (case columnNameOf e of None \<Rightarrow> None
         | Some name \<Rightarrow> Some (name, if ci_O (f_AsName f) = [] then name else ci_O (f_AsName f))))"

definition ordersByCountDesc :: "by_item list \<Rightarrow> string \<Rightarrow> bool" where
  "ordersByCountDesc items countAlias = (case items of
       [it] \<Rightarrow> by_Desc it \<and>
         (case columnNameOf (by_Expr it) of
            Some name \<Rightarrow> EqualFold name countAlias
          | None \<Rightarrow> (case by_Expr it of AggregateFuncExpr fn _ _ \<Rightarrow> EqualFold fn ''count'' | _ \<Rightarrow> False))
     | _ \<Rightarrow> False)"

definition limitCount :: "limit_node \<Rightarrow> int option" where
  "limitCount l = (if lim_Offset l then None else
     case lim_Count l of
       Some (ValueExpr (LitUInt n)) \<Rightarrow>
         if n = 0 \<or> int n > defaultGroupLimit * 100 then None else Some (int n)
     | _ \<Rightarrow> None)"

definition plan_count :: "select \<Rightarrow> Relation \<Rightarrow> Predicate list \<Rightarrow> SelectField \<Rightarrow> pushdownPlan option" where
  "plan_count sel rel preds f = (case countStar f of None \<Rightarrow> None
     | Some alias \<Rightarrow>
         if sel_OrderBy sel \<noteq> None \<or> sel_Limit sel \<noteq> None then None
         else Some \<lparr>pl_kind = pushCountAll, pl_rel = rel, pl_column = [], pl_where = preds,
                pl_groupAlias = [], pl_countAlias = alias, pl_limit = 0\<rparr>)"

definition plan_group ::
  "select \<Rightarrow> Relation \<Rightarrow> Predicate list \<Rightarrow> SelectField \<Rightarrow> SelectField \<Rightarrow> expr \<Rightarrow> pushdownPlan option" where
  "plan_group sel rel preds f0 f1 by0 =
     (case plainColumn f0 of None \<Rightarrow> None
      | Some (colName, groupAlias) \<Rightarrow>
     (case countStar f1 of None \<Rightarrow> None
      | Some countAlias \<Rightarrow>
     (case columnNameOf by0 of None \<Rightarrow> None
      | Some byName \<Rightarrow>
          if \<not> EqualFold byName colName then None
          else if \<not> HasColumn rel colName then None
          else if (case sel_OrderBy sel of None \<Rightarrow> False | Some o1 \<Rightarrow> \<not> ordersByCountDesc o1 countAlias) then None
          else case (case sel_Limit sel of None \<Rightarrow> Some defaultGroupLimit | Some l \<Rightarrow> limitCount l) of
              None \<Rightarrow> None
            | Some limit \<Rightarrow>
                Some \<lparr>pl_kind = pushGroupCount, pl_rel = rel, pl_column = colName, pl_where = preds,
                  pl_groupAlias = groupAlias, pl_countAlias = countAlias, pl_limit = limit\<rparr>)))"

definition planPushdown :: "select Analysis \<Rightarrow> pushdownPlan option" where
  "planPushdown a =
     (case (stmt_select (an_Stmt a), an_Relations a) of
        (Some sel, [rel]) \<Rightarrow>
          if sel_Having sel \<or> sel_Distinct sel \<or> sel_WindowSpecs sel \<or> sel_With sel \<or> sel_LockInfo sel then None
          else if \<not> singleTableFrom sel then None
          else (case equalityPredicates (sel_Where sel) rel of None \<Rightarrow> None
            | Some preds \<Rightarrow>
                (case (sel_Fields sel, sel_GroupBy sel) of
                   ([f], None) \<Rightarrow> plan_count sel rel preds f
                 | ([f0, f1], Some [by0]) \<Rightarrow> plan_group sel rel preds f0 f1 by0
                 | _ \<Rightarrow> None))
      | _ \<Rightarrow> None)"

section \<open>scan_clickhouse.go\<close>

record chColumn =
  cc_logical :: string
  cc_expr :: string

definition mk_cols :: "(string \<times> string) list \<Rightarrow> chColumn list" where
  "mk_cols xs = map (\<lambda>(l, e). \<lparr>cc_logical = l, cc_expr = e\<rparr>) xs"

record chTable =
  ch_table :: string
  ch_tenantPred :: string
  ch_columns :: "chColumn list"

definition chTables :: "(string, chTable) gomap" where
  "chTables =
     [(''traces'', \<lparr>ch_table = ''pulsetrace.otel_traces'',
        ch_tenantPred = ''ResourceAttributes['' @ [CHR 0x27] @ ''tenant.id'' @ [CHR 0x27] @ ''] = {tenant:String}'',
        ch_columns = mk_cols [(''timestamp'', ''Timestamp''), (''trace_id'', ''TraceId''), (''span_id'', ''SpanId''),
          (''parent_span_id'', ''ParentSpanId''), (''service_name'', ''ServiceName''), (''span_name'', ''SpanName''),
          (''span_kind'', ''SpanKind''), (''duration_ms'', ''Duration / 1000000''), (''status_code'', ''StatusCode''),
          (''status_message'', ''StatusMessage'')]\<rparr>),
      (''rum_events'', \<lparr>ch_table = ''pulsetrace.rum_events'', ch_tenantPred = ''TenantID = {tenant:String}'',
        ch_columns = mk_cols [(''timestamp'', ''Timestamp''), (''session_id'', ''SessionID''), (''event_type'', ''Type''),
          (''path'', ''Path''), (''user_agent'', ''UserAgent''), (''metric_name'', ''MetricName''),
          (''metric_value'', ''MetricValue''), (''error_message'', ''ErrorMsg''), (''trace_id'', ''TraceID''),
          (''span_id'', ''SpanID'')]\<rparr>),
      (''synthetic_results'', \<lparr>ch_table = ''pulsetrace.synthetic_results'', ch_tenantPred = ''TenantID = {tenant:String}'',
        ch_columns = mk_cols [(''timestamp'', ''Timestamp''), (''check_name'', ''CheckName''), (''url'', ''URL''),
          (''status_code'', ''StatusCode''), (''latency_ms'', ''LatencyMs''), (''success'', ''Success''),
          (''failure_reason'', ''FailureReason'')]\<rparr>)]"

text \<open>What the stores answer. A ClickHouse request is the tenant, the statement and the named
  parameters; a Postgres request is the statement and its arguments; a Quickwit search is the query
  text and \<open>max_hits\<close>, and an aggregation adds the field and the number of buckets. A failing
  request is the left summand.\<close>

record stores =
  on_ch :: "string \<Rightarrow> string \<Rightarrow> (string, string) gomap \<Rightarrow> string + Rows"
  on_pg :: "string \<Rightarrow> cell list \<Rightarrow> string + Rows"
  on_qw :: "string \<Rightarrow> int \<Rightarrow> string + (string, cell) gomap list"
  on_qw_agg :: "string \<Rightarrow> (string \<times> int) option \<Rightarrow> int \<Rightarrow> string + int \<times> (cell \<times> int) list"

definition projection :: "chColumn list \<Rightarrow> string" where
  "projection cols = join_with '', '' (map (\<lambda>c. cc_expr c @ '' AS '' @ cc_logical c) cols)"

definition ch_statement :: "Relation \<Rightarrow> int \<Rightarrow> goerr + string" where
  "ch_statement rel limit = (case map_of chTables (rel_Name rel) of
       None \<Rightarrow> Err (Errorf ''clickhouse scanner: no physical mapping for relation %q'' [rel_Name rel])
     | Some t \<Rightarrow> Ok (''SELECT '' @ projection (ch_columns t) @ '' FROM '' @ ch_table t @ '' WHERE ''
         @ ch_tenantPred t @ '' LIMIT '' @ format_int limit @ '' FORMAT JSONCompact''))"

definition ch_exec :: "stores \<Rightarrow> Relation \<Rightarrow> string \<Rightarrow> string \<Rightarrow> (string, string) gomap \<Rightarrow> goerr + Rows" where
  "ch_exec env rel tenantID stmt params =
     (if trim_space tenantID = [] then
        Err (Errorf ''clickhouse scanner %s: refusing to query with an empty tenant'' [rel_Name rel])
      else case on_ch env tenantID stmt params of
          Inl e \<Rightarrow> Err (Foreign e)
        | Inr rows \<Rightarrow> Ok (if rows_Columns rows = [] then rows\<lparr>rows_Columns := rel_Columns rel\<rparr> else rows))"

definition ch_Scan :: "stores \<Rightarrow> Relation \<Rightarrow> string \<Rightarrow> int \<Rightarrow> goerr + Rows" where
  "ch_Scan env rel tenantID limit =
     (if trim_space tenantID = [] then
        Err (Errorf ''clickhouse scanner %s: refusing to scan with an empty tenant'' [rel_Name rel])
      else case ch_statement rel limit of
          Inl e \<Rightarrow> Err e
        | Inr stmt \<Rightarrow> ch_exec env rel tenantID stmt [])"

definition column_expr :: "chColumn list \<Rightarrow> string \<Rightarrow> string" where
  "column_expr cols column = (case find (\<lambda>c. EqualFold (cc_logical c) column) cols of
       None \<Rightarrow> [] | Some c \<Rightarrow> cc_expr c)"

fun ch_filter_from :: "chTable \<Rightarrow> nat \<Rightarrow> Predicate list \<Rightarrow> goerr + string \<times> (string, string) gomap" where
  "ch_filter_from t i [] = Ok ([], [])"
| "ch_filter_from t i (p # ps) =
     (let expr = column_expr (ch_columns t) (pr_Column p); name = ''p'' @ format_int (int i)
      in if expr = [] then Err (Errorf ''clickhouse scanner: %q is not a mapped column of %s'' [pr_Column p, ch_table t])
         else case ch_filter_from t (Suc i) ps of
             Inl e \<Rightarrow> Err e
           | Inr (clause, params) \<Rightarrow>
               Ok ('' AND '' @ expr @ '' = {'' @ name @ '':String}'' @ clause, (name, pr_Value p) # params))"

definition ch_filterClause :: "chTable \<Rightarrow> Predicate list \<Rightarrow> goerr + string \<times> (string, string) gomap" where
  "ch_filterClause t preds = ch_filter_from t 0 preds"

text \<open>\<open>fmt.Sscanf(x, "%d", &n)\<close>, whose error is dropped: \<open>n\<close> stays zero when there is no number or it
  does not fit.\<close>

definition sscanf_d :: "string \<Rightarrow> int" where
  "sscanf_d s =
     (let (neg, t) = split_sign (dropWhile (\<lambda>c. is_space c \<and> c \<noteq> CHR 0x0A) s);
          ds = takeWhile (\<lambda>c. char_digit c \<noteq> None) t
      in case parse_int64 ((if neg then ''-'' else []) @ ds) of None \<Rightarrow> 0 | Some n \<Rightarrow> n)"

fun toInt64 :: "cell \<Rightarrow> int" where
  "toInt64 (CFloat x) = (if x < 0 then \<lceil>x\<rceil> else \<lfloor>x\<rfloor>)"
| "toInt64 (CInt n) = n"
| "toInt64 (CStr s) = sscanf_d s"
| "toInt64 _ = 0"

definition ch_CountAll :: "stores \<Rightarrow> Relation \<Rightarrow> string \<Rightarrow> Predicate list \<Rightarrow> goerr + int" where
  "ch_CountAll env rel tenantID preds = (case map_of chTables (rel_Name rel) of
       None \<Rightarrow> Err (Errorf ''clickhouse scanner: no physical mapping for relation %q'' [rel_Name rel])
     | Some t \<Rightarrow> (case ch_filterClause t preds of
           Inl e \<Rightarrow> Err e
         | Inr (clause, params) \<Rightarrow>
             (case ch_exec env rel tenantID (''SELECT count() AS c FROM '' @ ch_table t @ '' WHERE ''
                 @ ch_tenantPred t @ clause @ '' FORMAT JSONCompact'') params of
                Inl e \<Rightarrow> Err e
              | Inr rows \<Rightarrow> Ok (case rows_Values rows of (c # _) # _ \<Rightarrow> toInt64 c | _ \<Rightarrow> 0))))"

definition ch_GroupCount :: "stores \<Rightarrow> Relation \<Rightarrow> string \<Rightarrow> string \<Rightarrow> Predicate list \<Rightarrow> int \<Rightarrow> goerr + Rows" where
  "ch_GroupCount env rel tenantID column preds limit = (case map_of chTables (rel_Name rel) of
       None \<Rightarrow> Err (Errorf ''clickhouse scanner: no physical mapping for relation %q'' [rel_Name rel])
     | Some t \<Rightarrow>
         (let expr = column_expr (ch_columns t) column
          in if expr = [] then
               Err (Errorf ''clickhouse scanner: %q is not a mapped column of %s'' [column, rel_Name rel])
             else case ch_filterClause t preds of
                 Inl e \<Rightarrow> Err e
               | Inr (clause, params) \<Rightarrow>
                   ch_exec env rel tenantID (''SELECT '' @ expr @ '' AS '' @ column @ '', count() AS count FROM ''
                     @ ch_table t @ '' WHERE '' @ ch_tenantPred t @ clause @ '' GROUP BY '' @ expr
                     @ '' ORDER BY count DESC LIMIT '' @ format_int limit @ '' FORMAT JSONCompact'') params))"

section \<open>scan_postgres.go\<close>

record pgTable =
  pg_table :: string
  pg_columns :: "chColumn list"

definition pgTables :: "(string, pgTable) gomap" where
  "pgTables =
     [(''deployments'', \<lparr>pg_table = ''deployments'',
        pg_columns = mk_cols [(''id'', ''id''), (''service'', ''service''), (''version'', ''version''),
          (''git_sha'', ''git_sha''), (''environment'', ''environment''), (''deployed_by'', ''deployed_by''),
          (''deployed_at'', ''deployed_at'')]\<rparr>),
      (''incidents'', \<lparr>pg_table = ''incidents'',
        pg_columns = mk_cols [(''id'', ''id''), (''title'', ''title''), (''status'', ''status''),
          (''severity'', ''severity''), (''root_cause'', ''root_cause''), (''alert_count'', ''alert_count''),
          (''started_at'', ''started_at''), (''resolved_at'', ''resolved_at'')]\<rparr>)]"

definition pg_statement :: "Relation \<Rightarrow> goerr + string" where
  "pg_statement rel = (case map_of pgTables (rel_Name rel) of
       None \<Rightarrow> Err (Errorf ''postgres scanner: no physical mapping for relation %q'' [rel_Name rel])
     | Some t \<Rightarrow> Ok (''SELECT '' @ projection (pg_columns t) @ '' FROM '' @ pg_table t
         @ '' WHERE tenant_id = $1 LIMIT $2''))"

definition pg_Scan :: "stores \<Rightarrow> Relation \<Rightarrow> string \<Rightarrow> int \<Rightarrow> goerr + Rows" where
  "pg_Scan env rel tenantID limit =
     (if trim_space tenantID = [] then
        Err (Errorf ''postgres scanner %s: refusing to scan with an empty tenant'' [rel_Name rel])
      else case pg_statement rel of
          Inl e \<Rightarrow> Err e
        | Inr stmt \<Rightarrow> (case on_pg env stmt [CStr tenantID, CInt limit] of
              Inl e \<Rightarrow> Err (Foreign e) | Inr rows \<Rightarrow> Ok rows))"

fun pg_filterClause :: "pgTable \<Rightarrow> Predicate list \<Rightarrow> int \<Rightarrow> goerr + string \<times> cell list" where
  "pg_filterClause t [] nxt = Ok ([], [])"
| "pg_filterClause t (p # ps) nxt =
     (let expr = column_expr (pg_columns t) (pr_Column p)
      in if expr = [] then Err (Errorf ''postgres scanner: %q is not a mapped column of %s'' [pr_Column p, pg_table t])
         else case pg_filterClause t ps (nxt + 1) of
             Inl e \<Rightarrow> Err e
           | Inr (clause, args) \<Rightarrow> Ok ('' AND '' @ expr @ '' = $'' @ format_int nxt @ clause, CStr (pr_Value p) # args))"

definition pg_CountAll :: "stores \<Rightarrow> Relation \<Rightarrow> string \<Rightarrow> Predicate list \<Rightarrow> goerr + int" where
  "pg_CountAll env rel tenantID preds = (case map_of pgTables (rel_Name rel) of
       None \<Rightarrow> Err (Errorf ''postgres scanner: no physical mapping for relation %q'' [rel_Name rel])
     | Some t \<Rightarrow>
         if trim_space tenantID = [] then
           Err (Errorf ''postgres scanner %s: refusing to count with an empty tenant'' [rel_Name rel])
         else (case pg_filterClause t preds 2 of
             Inl e \<Rightarrow> Err e
           | Inr (clause, args) \<Rightarrow>
               (case on_pg env (''SELECT count(*) FROM '' @ pg_table t @ '' WHERE tenant_id = $1'' @ clause)
                   (CStr tenantID # args) of
                  Inl e \<Rightarrow> Err (Foreign e)
                | Inr rows \<Rightarrow> (case rows_Values rows of
                    (CInt n # _) # _ \<Rightarrow> Ok n | _ \<Rightarrow> Err (Foreign ''scan'')))))"

definition pg_GroupCount :: "stores \<Rightarrow> Relation \<Rightarrow> string \<Rightarrow> string \<Rightarrow> Predicate list \<Rightarrow> int \<Rightarrow> goerr + Rows" where
  "pg_GroupCount env rel tenantID column preds limit = (case map_of pgTables (rel_Name rel) of
       None \<Rightarrow> Err (Errorf ''postgres scanner: no physical mapping for relation %q'' [rel_Name rel])
     | Some t \<Rightarrow>
         if trim_space tenantID = [] then
           Err (Errorf ''postgres scanner %s: refusing to group with an empty tenant'' [rel_Name rel])
         else
           (let expr = column_expr (pg_columns t) column
            in if expr = [] then
                 Err (Errorf ''postgres scanner: %q is not a mapped column of %s'' [column, rel_Name rel])
               else case pg_filterClause t preds 2 of
                   Inl e \<Rightarrow> Err e
                 | Inr (clause, args) \<Rightarrow>
                     (case on_pg env (''SELECT '' @ expr @ '' AS '' @ column @ '', count(*) AS count FROM '' @ pg_table t
                         @ '' WHERE tenant_id = $1'' @ clause @ '' GROUP BY '' @ expr
                         @ '' ORDER BY count DESC LIMIT $'' @ format_int (int (length args) + 2))
                         (CStr tenantID # args @ [CInt limit]) of
                        Inl e \<Rightarrow> Err (Foreign e)
                      | Inr rows \<Rightarrow> Ok \<lparr>rows_Columns = [column, ''count''], rows_Values = rows_Values rows\<rparr>)))"

section \<open>scan_quickwit.go\<close>

text \<open>The regular expressions \<open>^[A-Za-z0-9][A-Za-z0-9_.-]{0,49}$\<close> and, for a value, one to 256
  characters none of which is a double quote, a backslash or a control character. A value is valid
  UTF-8, so its characters are its bytes that do not continue a sequence.\<close>

definition tenant_char :: "char \<Rightarrow> bool" where
  "tenant_char c \<longleftrightarrow> ascii_letter c \<or> ascii_digit c \<or> c = CHR ''_'' \<or> c = CHR ''.'' \<or> c = CHR ''-''"

definition tenantIDPattern :: "string \<Rightarrow> bool" where
  "tenantIDPattern s = (case s of [] \<Rightarrow> False
     | c # cs \<Rightarrow> (ascii_letter c \<or> ascii_digit c) \<and> list_all tenant_char cs \<and> length cs \<le> 49)"

definition rune_count :: "string \<Rightarrow> nat" where
  "rune_count s = length (filter (\<lambda>c. (of_char c :: nat) < 128 \<or> 192 \<le> (of_char c :: nat)) s)"

definition term_char :: "char \<Rightarrow> bool" where
  "term_char c \<longleftrightarrow> c \<noteq> CHR 0x22 \<and> c \<noteq> CHR 0x5C \<and> 32 \<le> (of_char c :: nat)"

definition termValuePattern :: "string \<Rightarrow> bool" where
  "termValuePattern s \<longleftrightarrow> list_all term_char s \<and> 1 \<le> rune_count s \<and> rune_count s \<le> 256"

definition indexField :: "Relation \<Rightarrow> string \<Rightarrow> string" where
  "indexField rel column = (let key = AttrKey rel column
     in if key \<noteq> [] then rel_AttrPrefix rel @ ''.'' @ key else to_lower column)"

fun qw_clauses :: "Relation \<Rightarrow> string \<Rightarrow> Predicate list \<Rightarrow> goerr + string" where
  "qw_clauses rel q [] = Ok q"
| "qw_clauses rel q (p # ps) =
     (if \<not> HasColumn rel (pr_Column p) then
        Err (Errorf ''quickwit scanner: %q is not a column of %s'' [pr_Column p, rel_Name rel])
      else if \<not> termValuePattern (pr_Value p) then
        Err (Errorf ''quickwit scanner: refusing filter value for %q: outside the permitted character set'' [pr_Column p])
      else qw_clauses rel (q @ '' AND '' @ indexField rel (pr_Column p) @ '':'' @ [CHR 0x22] @ pr_Value p @ [CHR 0x22]) ps)"

definition searchQuery :: "Relation \<Rightarrow> string \<Rightarrow> Predicate list \<Rightarrow> goerr + string" where
  "searchQuery rel tenantID preds =
     (if \<not> tenantIDPattern tenantID then
        Err (Errorf ''quickwit scanner: refusing tenant id %q: outside the permitted character set'' [tenantID])
      else qw_clauses rel (''tenant_id:'' @ tenantID) preds)"

definition hit_row :: "string list \<Rightarrow> (string, cell) gomap \<Rightarrow> cell list" where
  "hit_row cols hit = map (\<lambda>c. case map_of hit c of Some v \<Rightarrow> v | None \<Rightarrow> CNil) cols"

definition qw_Scan :: "stores \<Rightarrow> Relation \<Rightarrow> string \<Rightarrow> int \<Rightarrow> goerr + Rows" where
  "qw_Scan env rel tenantID limit =
     (if trim_space tenantID = [] then Err (Errorf ''quickwit scanner: refusing to scan with an empty tenant'' [])
      else case searchQuery rel tenantID [] of
          Inl e \<Rightarrow> Err e
        | Inr q \<Rightarrow> (case on_qw env q limit of
              Inl e \<Rightarrow> Err (Foreign e)
            | Inr hits \<Rightarrow> Ok \<lparr>rows_Columns = rel_Columns rel, rows_Values = map (hit_row (rel_Columns rel)) hits\<rparr>))"

definition qw_searchAgg ::
  "stores \<Rightarrow> Relation \<Rightarrow> string \<Rightarrow> Predicate list \<Rightarrow> (string \<times> int) option \<Rightarrow> int \<Rightarrow> goerr + int \<times> (cell \<times> int) list" where
  "qw_searchAgg env rel tenantID preds aggs maxHits =
     (if trim_space tenantID = [] then Err (Errorf ''quickwit scanner: refusing to aggregate with an empty tenant'' [])
      else case searchQuery rel tenantID preds of
          Inl e \<Rightarrow> Err e
        | Inr q \<Rightarrow> (case on_qw_agg env q aggs maxHits of Inl e \<Rightarrow> Err (Foreign e) | Inr r \<Rightarrow> Ok r))"

definition qw_CountAll :: "stores \<Rightarrow> Relation \<Rightarrow> string \<Rightarrow> Predicate list \<Rightarrow> goerr + int" where
  "qw_CountAll env rel tenantID preds =
     (case qw_searchAgg env rel tenantID preds None 0 of Inl e \<Rightarrow> Err e | Inr (n, _) \<Rightarrow> Ok n)"

definition qw_GroupCount :: "stores \<Rightarrow> Relation \<Rightarrow> string \<Rightarrow> string \<Rightarrow> Predicate list \<Rightarrow> int \<Rightarrow> goerr + Rows" where
  "qw_GroupCount env rel tenantID column preds limit =
     (if \<not> HasColumn rel column then
        Err (Errorf ''quickwit scanner: %q is not a column of %s'' [column, rel_Name rel])
      else case qw_searchAgg env rel tenantID preds (Some (indexField rel column, limit)) 0 of
          Inl e \<Rightarrow> Err e
        | Inr (_, buckets) \<Rightarrow> Ok \<lparr>rows_Columns = [column, ''count''],
            rows_Values = map (\<lambda>(k, n). [k, CInt n]) buckets\<rparr>)"

section \<open>scan.go\<close>

text \<open>The scanners that implement the interface; all three also aggregate.\<close>

datatype scanner_type = QuickwitScanner | ClickHouseScanner | PostgresScanner

record Scanner =
  sc_type :: scanner_type
  sc_Rel :: Relation

definition sc_Scan :: "stores \<Rightarrow> Scanner \<Rightarrow> string \<Rightarrow> int \<Rightarrow> goerr + Rows" where
  "sc_Scan env s tenantID limit = (case sc_type s of
       QuickwitScanner \<Rightarrow> qw_Scan env (sc_Rel s) tenantID limit
     | ClickHouseScanner \<Rightarrow> ch_Scan env (sc_Rel s) tenantID limit
     | PostgresScanner \<Rightarrow> pg_Scan env (sc_Rel s) tenantID limit)"

definition sc_CountAll :: "stores \<Rightarrow> Scanner \<Rightarrow> string \<Rightarrow> Predicate list \<Rightarrow> goerr + int" where
  "sc_CountAll env s tenantID preds = (case sc_type s of
       QuickwitScanner \<Rightarrow> qw_CountAll env (sc_Rel s) tenantID preds
     | ClickHouseScanner \<Rightarrow> ch_CountAll env (sc_Rel s) tenantID preds
     | PostgresScanner \<Rightarrow> pg_CountAll env (sc_Rel s) tenantID preds)"

definition sc_GroupCount :: "stores \<Rightarrow> Scanner \<Rightarrow> string \<Rightarrow> string \<Rightarrow> Predicate list \<Rightarrow> int \<Rightarrow> goerr + Rows" where
  "sc_GroupCount env s tenantID column preds limit = (case sc_type s of
       QuickwitScanner \<Rightarrow> qw_GroupCount env (sc_Rel s) tenantID column preds limit
     | ClickHouseScanner \<Rightarrow> ch_GroupCount env (sc_Rel s) tenantID column preds limit
     | PostgresScanner \<Rightarrow> pg_GroupCount env (sc_Rel s) tenantID column preds limit)"

section \<open>engine.go\<close>

record Engine =
  en_catalog :: Catalog
  en_policy :: Policy_sql
  en_budget :: Budget
  en_scanners :: "(string, Scanner) gomap"

definition NewEngine :: "Catalog \<Rightarrow> Policy_sql \<Rightarrow> Budget \<Rightarrow> Scanner list \<Rightarrow> goerr + Engine" where
  "NewEngine cat p b scanners =
     (let byName = foldl (\<lambda>m s. AList.update (rel_Name (sc_Rel s)) s m) [] scanners;
          missing = filter (\<lambda>n. map_of byName n = None) (cat_Names cat)
      in if missing \<noteq> [] then
           Err (Errorf ''sqlq: catalog relations have no scanner: %s'' [join_with '', '' missing])
         else Ok \<lparr>en_catalog = cat, en_policy = p, en_budget = b, en_scanners = byName\<rparr>)"

record Result =
  res_Columns :: "string list"
  res_Rows :: "cell list list"
  res_Elapsed :: int
  res_Scanned :: int
  res_Relations :: "string list"

text \<open>The embedded database: opening it, executing a statement with arguments, preparing one
  (whether it fails) and running the query. \<open>'d\<close> is its state.\<close>

record 'd duck =
  d_open :: "string \<Rightarrow> string + 'd"
  d_exec :: "'d \<Rightarrow> string \<Rightarrow> cell list \<Rightarrow> string + 'd"
  d_prepare :: "'d \<Rightarrow> string \<Rightarrow> string option"
  d_query :: "'d \<Rightarrow> string \<Rightarrow> string + Rows"

definition duckDSN :: string where "duckDSN = ''?enable_external_access=false''"

fun normalise :: "cell \<Rightarrow> cell" where
  "normalise (CBytes b) = CStr (bytes_str b)"
| "normalise c = c"

fun columnSample :: "cell list list \<Rightarrow> nat \<Rightarrow> cell" where
  "columnSample [] col = CNil"
| "columnSample (row # rows) col =
     (if col < length row then (case row ! col of CNil \<Rightarrow> columnSample rows col | c \<Rightarrow> c)
      else columnSample rows col)"

fun duckType :: "cell \<Rightarrow> string" where
  "duckType CNil = ''VARCHAR''"
| "duckType (CBool _) = ''BOOLEAN''"
| "duckType (CInt _) = ''BIGINT''"
| "duckType (CFloat _) = ''DOUBLE''"
| "duckType (CTime _) = ''TIMESTAMP''"
| "duckType _ = ''VARCHAR''"

definition typedColumns :: "string list \<Rightarrow> cell list list \<Rightarrow> string list" where
  "typedColumns quoted values =
     map (\<lambda>i. quoted ! i @ '' '' @ duckType (columnSample values i)) [0 ..< length quoted]"

text \<open>A column name in double quotes, with the quotes inside it doubled.\<close>

definition quote_column :: "string \<Rightarrow> string" where
  "quote_column c = [CHR 0x22] @ concat (map (\<lambda>x. if x = CHR 0x22 then [x, x] else [x]) c) @ [CHR 0x22]"

text \<open>\<open>quote\<close> is Go's \<open>%q\<close>.\<close>

fun insert_rows :: "'d duck \<Rightarrow> string \<Rightarrow> nat \<Rightarrow> cell list list \<Rightarrow> 'd \<Rightarrow> goerr + 'd" where
  "insert_rows dk stmt ncols [] d = Ok d"
| "insert_rows dk stmt ncols (v # vs) d =
     (if length v \<noteq> ncols then
        Err (Errorf ''row has %d values for %d columns'' [format_int (int (length v)), format_int (int ncols)])
      else case d_exec dk d stmt (map normalise v) of
          Inl e \<Rightarrow> Err (Wrap ''insert: %w'' [] (Foreign e))
        | Inr d1 \<Rightarrow> insert_rows dk stmt ncols vs d1)"

definition loadRelation ::
  "(string \<Rightarrow> string) \<Rightarrow> 'd duck \<Rightarrow> 'd \<Rightarrow> Relation \<Rightarrow> Rows \<Rightarrow> goerr + 'd" where
  "loadRelation quote dk d rel rows =
     (let cols = (if rows_Columns rows = [] then rel_Columns rel else rows_Columns rows);
          quoted = map quote_column cols;
          create = ''CREATE TABLE '' @ quote (rel_Name rel) @ '' ('' @ join_with '', '' (typedColumns quoted (rows_Values rows)) @ '')''
      in case d_exec dk d create [] of
           Inl e \<Rightarrow> Err (Wrap ''create: %w'' [] (Foreign e))
         | Inr d1 \<Rightarrow>
             if rows_Values rows = [] then Ok d1
             else
               (let insert = ''INSERT INTO '' @ quote (rel_Name rel) @ '' ('' @ join_with '', '' quoted @ '') VALUES (''
                      @ join_with '','' (replicate (length cols) ''?'') @ '')''
                in case d_prepare dk d1 insert of
                     Some e \<Rightarrow> Err (Wrap ''prepare insert: %w'' [] (Foreign e))
                   | None \<Rightarrow> insert_rows dk insert (length cols) (rows_Values rows) d1))"

definition runQuery :: "'d duck \<Rightarrow> 'd \<Rightarrow> string \<Rightarrow> goerr + Rows" where
  "runQuery dk d q = (case d_query dk d q of
     Inl e \<Rightarrow> Err (Wrap ''sqlq: execute: %w'' [] (Foreign e)) | Inr rows \<Rightarrow> Ok rows)"

definition runPushdown :: "stores \<Rightarrow> int \<Rightarrow> string \<Rightarrow> pushdownPlan \<Rightarrow> Scanner \<Rightarrow> goerr + Result" where
  "runPushdown env elapsed tenantID plan agg =
     (case pl_kind plan of
        pushCountAll \<Rightarrow>
          (case sc_CountAll env agg tenantID (pl_where plan) of
             Inl e \<Rightarrow> Err (Wrap ''sqlq: count %s: %w'' [rel_Name (pl_rel plan)] e)
           | Inr n \<Rightarrow> Ok \<lparr>res_Columns = [pl_countAlias plan], res_Rows = [[CInt n]], res_Elapsed = elapsed,
               res_Scanned = 0, res_Relations = [rel_Name (pl_rel plan)]\<rparr>)
      | pushGroupCount \<Rightarrow>
          (case sc_GroupCount env agg tenantID (pl_column plan) (pl_where plan) (pl_limit plan) of
             Inl e \<Rightarrow> Err (Wrap ''sqlq: group %s by %s: %w'' [rel_Name (pl_rel plan), pl_column plan] e)
           | Inr rows \<Rightarrow> Ok \<lparr>res_Columns = [pl_groupAlias plan, pl_countAlias plan], res_Rows = rows_Values rows,
               res_Elapsed = elapsed, res_Scanned = 0, res_Relations = [rel_Name (pl_rel plan)]\<rparr>)
      | pushNone \<Rightarrow> Err (Errorf ''sqlq: unrecognised push-down plan'' []))"

text \<open>The loop that scans and loads each relation: the rows so far and the database.\<close>

fun scan_load ::
  "(string \<Rightarrow> string) \<Rightarrow> stores \<Rightarrow> 'd duck \<Rightarrow> Engine \<Rightarrow> string \<Rightarrow> Relation list \<Rightarrow> int \<Rightarrow> 'd \<Rightarrow> goerr + int \<times> 'd" where
  "scan_load quote env dk e tenantID [] sofar d = Ok (sofar, d)"
| "scan_load quote env dk e tenantID (rel # rels) sofar d =
     (case map_of (en_scanners e) (rel_Name rel) of
        None \<Rightarrow> Err (Errorf ''sqlq: no scanner for relation %q'' [rel_Name rel])
      | Some s \<Rightarrow>
     (case sc_Scan env s tenantID (MaxRowsPerRelation (en_budget e) + 1) of
        Inl err \<Rightarrow> Err (Wrap ''sqlq: scan %s: %w'' [rel_Name rel] err)
      | Inr rows \<Rightarrow>
     (case tracker_add (en_budget e) sofar (rel_Name rel) (int (length (rows_Values rows))) of
        Inl be \<Rightarrow> Err (OverBudget be)
      | Inr sofar1 \<Rightarrow>
     (case loadRelation quote dk d rel rows of
        Inl err \<Rightarrow> Err (Wrap ''sqlq: load %s: %w'' [rel_Name rel] err)
      | Inr d1 \<Rightarrow> scan_load quote env dk e tenantID rels sofar1 d1))))"

text \<open>The third-party and standard-library functions of one call: the parser, the traversal, the
  rendering of a tree, \<open>%q\<close>, and how long the call takes.\<close>

record libs =
  lib_Parse :: "string \<Rightarrow> string + select ast_stmt list"
  lib_Accept :: "validator visitor"
  lib_Restore :: "select ast_stmt \<Rightarrow> string + string"
  lib_quote :: "string \<Rightarrow> string"
  lib_elapsed :: int

definition render_stmt :: "libs \<Rightarrow> select Analysis \<Rightarrow> goerr + string" where
  "render_stmt L a = (case lib_Restore L (an_Stmt a) of
     Inl e \<Rightarrow> Err (Wrap ''sqlq: cannot render validated statement: %w'' [] (Foreign e)) | Inr s \<Rightarrow> Ok s)"

definition run_local :: "libs \<Rightarrow> stores \<Rightarrow> 'd duck \<Rightarrow> Engine \<Rightarrow> string \<Rightarrow> select Analysis \<Rightarrow> goerr + Result" where
  "run_local L env dk e tenantID a =
     (case d_open dk duckDSN of
        Inl err \<Rightarrow> Err (Wrap ''sqlq: open engine: %w'' [] (Foreign err))
      | Inr d \<Rightarrow>
     (case scan_load (lib_quote L) env dk e tenantID (an_Relations a) 0 d of
        Inl err \<Rightarrow> Err err
      | Inr (scanned, d1) \<Rightarrow>
     (case render_stmt L a of
        Inl err \<Rightarrow> Err err
      | Inr rendered \<Rightarrow>
     (case runQuery dk d1 rendered of
        Inl err \<Rightarrow> Err err
      | Inr rows \<Rightarrow> Ok \<lparr>res_Columns = rows_Columns rows, res_Rows = rows_Values rows, res_Elapsed = lib_elapsed L,
          res_Scanned = scanned, res_Relations = map rel_Name (an_Relations a)\<rparr>))))"

definition Query :: "libs \<Rightarrow> stores \<Rightarrow> 'd duck \<Rightarrow> Engine \<Rightarrow> string \<Rightarrow> string \<Rightarrow> goerr + Result" where
  "Query L env dk e tenantID userSQL =
     (if trim_space tenantID = [] then Err (Errorf ''sqlq: refusing to execute with an empty tenant'' [])
      else case Validate (lib_Parse L) (lib_Accept L) userSQL (en_catalog e) (en_policy e) of
          Inl r \<Rightarrow> Err (Rejection r)
        | Inr a \<Rightarrow>
            (case planPushdown a of
               None \<Rightarrow> run_local L env dk e tenantID a
             | Some plan \<Rightarrow>
                 (case map_of (en_scanners e) (rel_Name (pl_rel plan)) of
                    Some s \<Rightarrow> runPushdown env (lib_elapsed L) tenantID plan s
                  | None \<Rightarrow> run_local L env dk e tenantID a)))"

section \<open>sql_query_handler.go\<close>

record query_audit =
  qa_tenant :: string
  qa_actor :: string
  qa_statement :: string
  qa_relations :: "string list"
  qa_scanned :: int
  qa_returned :: int
  qa_duration :: int
  qa_outcome :: string
  qa_reason :: "string option"

text \<open>What one request meets: the decoded body (\<open>None\<close> when it is not the expected JSON), whether the
  column line can be written, what happens at each row, and whether the audit row can be inserted
  (it is not when the request's context is already cancelled), and how long the call takes.\<close>

datatype row_event = RowSent | RowFails | RequestCancelled

record http_call =
  hc_sql :: "string option"
  hc_columns_sent :: bool
  hc_row :: "nat \<Rightarrow> row_event"
  hc_audit_ok :: bool
  hc_duration :: int

definition sql_audit ::
  "bool \<Rightarrow> http_call \<Rightarrow> string \<Rightarrow> string \<Rightarrow> string \<Rightarrow> string list \<Rightarrow> string \<Rightarrow> string \<Rightarrow> int \<Rightarrow> int \<Rightarrow> query_audit list" where
  "sql_audit has_db hc tenantID actor statement rels outcome reason scanned returned =
     (if \<not> has_db \<or> \<not> hc_audit_ok hc then []
      else [\<lparr>qa_tenant = tenantID, qa_actor = actor, qa_statement = statement, qa_relations = rels,
             qa_scanned = scanned, qa_returned = returned, qa_duration = hc_duration hc, qa_outcome = outcome,
             qa_reason = (if reason = [] then None else Some reason)\<rparr>])"

definition sql_reject ::
  "bool \<Rightarrow> http_call \<Rightarrow> string \<Rightarrow> string \<Rightarrow> string \<Rightarrow> goerr \<Rightarrow> int \<times> query_audit list" where
  "sql_reject has_db hc tenantID actor statement err =
     (let (status, outcome, reason) =
        (case ReasonOf err of
           Some rs \<Rightarrow> (400, ''rejected'', rs)
         | None \<Rightarrow> (case as_budget_error err of
               Some be \<Rightarrow> (413, ''rejected'', ''budget:'' @ be_Limit be)
             | None \<Rightarrow> (500, ''error'', [])))
      in (status, sql_audit has_db hc tenantID actor statement [] outcome reason 0 0))"

text \<open>Streaming the rows: how many were written, and whether the handler went on to the statistics
  and the audit row.\<close>

fun stream_rows :: "(nat \<Rightarrow> row_event) \<Rightarrow> nat \<Rightarrow> cell list list \<Rightarrow> nat \<times> bool" where
  "stream_rows ev i [] = (i, True)"
| "stream_rows ev i (row # rows) = (case ev i of
       RequestCancelled \<Rightarrow> (i, True)
     | RowFails \<Rightarrow> (i, False)
     | RowSent \<Rightarrow> stream_rows ev (Suc i) rows)"

definition sql_Execute ::
  "libs \<Rightarrow> stores \<Rightarrow> 'd duck \<Rightarrow> Engine \<Rightarrow> bool \<Rightarrow> string \<Rightarrow> string \<Rightarrow> http_call \<Rightarrow> int \<times> nat \<times> query_audit list" where
  "sql_Execute L env dk e has_db tenantID actor hc =
     (case hc_sql hc of
        None \<Rightarrow> (400, 0, [])
      | Some raw \<Rightarrow>
          (let statement = trim_space raw
           in if statement = [] then (400, 0, [])
              else case Query L env dk e tenantID statement of
                  Inl err \<Rightarrow> (case sql_reject has_db hc tenantID actor statement err of
                      (status, audit) \<Rightarrow> (status, 0, audit))
                | Inr result \<Rightarrow>
                    if \<not> hc_columns_sent hc then (200, 0, [])
                    else (case stream_rows (hc_row hc) 0 (res_Rows result) of
                        (sent, True) \<Rightarrow> (200, sent, sql_audit has_db hc tenantID actor statement
                           (res_Relations result) ''ok'' [] (res_Scanned result) (int (length (res_Rows result))))
                      | (sent, False) \<Rightarrow> (200, sent, []))))"

section \<open>Requests that carry a tenant\<close>

text \<open>The whole shape of a request that carries a tenant. Of a relational statement: the select list is
  the table's projection, a count, or a mapped column with a count; the source is the table; the
  condition is the tenant test followed by nothing but conjoined equalities of mapped columns with
  bound parameters; and the rest is a limit, nothing, or a grouping by that column with a limit. The
  parameters are one per conjunct (and the limit for Postgres), with the tenant first. A Quickwit
  query is the tenant's clause followed by conjuncts on exposed fields with quoted values.\<close>

definition param_names :: "nat \<Rightarrow> nat \<Rightarrow> string list" where
  "param_names i n = map (\<lambda>k. ''p'' @ format_int (int k)) [i ..< i + n]"

fun ch_conjuncts :: "nat \<Rightarrow> string list \<Rightarrow> string" where
  "ch_conjuncts i [] = []"
| "ch_conjuncts i (e # es) = '' AND '' @ e @ '' = {p'' @ format_int (int i) @ '':String}'' @ ch_conjuncts (Suc i) es"

fun pg_conjuncts :: "int \<Rightarrow> string list \<Rightarrow> string" where
  "pg_conjuncts k [] = []"
| "pg_conjuncts k (e # es) = '' AND '' @ e @ '' = $'' @ format_int k @ pg_conjuncts (k + 1) es"

definition ch_source :: "chTable \<Rightarrow> string list \<Rightarrow> string" where
  "ch_source t es = '' FROM '' @ ch_table t @ '' WHERE '' @ ch_tenantPred t @ ch_conjuncts 0 es"

definition ch_bound :: "string \<Rightarrow> (string, string) gomap \<Rightarrow> bool" where
  "ch_bound stmt params \<longleftrightarrow> (\<exists>t \<in> snd ` set chTables. \<exists>es. set es \<subseteq> cc_expr ` set (ch_columns t)
     \<and> map fst params = param_names 0 (length es)
     \<and> ((\<exists>n. stmt = ''SELECT '' @ projection (ch_columns t) @ ch_source t es @ '' LIMIT '' @ format_int n @ '' FORMAT JSONCompact'')
      \<or> stmt = ''SELECT count() AS c'' @ ch_source t es @ '' FORMAT JSONCompact''
      \<or> (\<exists>c \<in> set (ch_columns t). \<exists>name n. EqualFold (cc_logical c) name
           \<and> stmt = ''SELECT '' @ cc_expr c @ '' AS '' @ name @ '', count() AS count'' @ ch_source t es
               @ '' GROUP BY '' @ cc_expr c @ '' ORDER BY count DESC LIMIT '' @ format_int n @ '' FORMAT JSONCompact'')))"

definition pg_source :: "pgTable \<Rightarrow> string list \<Rightarrow> string" where
  "pg_source t es = '' FROM '' @ pg_table t @ '' WHERE tenant_id = $1'' @ pg_conjuncts 2 es"

definition pg_bound :: "string \<Rightarrow> string \<Rightarrow> cell list \<Rightarrow> bool" where
  "pg_bound T stmt args \<longleftrightarrow> (\<exists>t \<in> snd ` set pgTables. \<exists>es vs. set es \<subseteq> cc_expr ` set (pg_columns t) \<and> length vs = length es
     \<and> ((\<exists>n. es = [] \<and> stmt = ''SELECT '' @ projection (pg_columns t) @ pg_source t es @ '' LIMIT $2'' \<and> args = [CStr T, CInt n])
      \<or> (stmt = ''SELECT count(*)'' @ pg_source t es \<and> args = CStr T # map CStr vs)
      \<or> (\<exists>c \<in> set (pg_columns t). \<exists>name n. EqualFold (cc_logical c) name
           \<and> stmt = ''SELECT '' @ cc_expr c @ '' AS '' @ name @ '', count(*) AS count'' @ pg_source t es
               @ '' GROUP BY '' @ cc_expr c @ '' ORDER BY count DESC LIMIT $'' @ format_int (int (length es) + 2)
           \<and> args = CStr T # map CStr vs @ [CInt n])))"

definition qw_clause :: "string \<times> string \<Rightarrow> string" where
  "qw_clause fv = '' AND '' @ fst fv @ '':'' @ [CHR 0x22] @ snd fv @ [CHR 0x22]"

definition qw_field :: "Relation \<Rightarrow> string \<Rightarrow> bool" where
  "qw_field rel f \<longleftrightarrow> f \<in> to_lower ` set (rel_Columns rel)
     \<or> (rel_AttrPrefix rel \<noteq> [] \<and> (\<exists>k. attrKeyPattern k \<and> f = rel_AttrPrefix rel @ ''.'' @ k))"

definition qw_bound :: "Relation \<Rightarrow> string \<Rightarrow> string \<Rightarrow> bool" where
  "qw_bound rel T q \<longleftrightarrow> (\<exists>fvs. q = ''tenant_id:'' @ T @ concat (map qw_clause fvs) \<and> tenantIDPattern T
     \<and> (\<forall>(f, v) \<in> set fvs. qw_field rel f \<and> list_all term_char v))"

text \<open>Two states of the stores that answer every request for a tenant alike.\<close>

definition agree_for :: "Engine \<Rightarrow> string \<Rightarrow> stores \<Rightarrow> stores \<Rightarrow> bool" where
  "agree_for e T env1 env2 \<longleftrightarrow>
     (\<forall>stmt params. ch_bound stmt params \<longrightarrow> on_ch env1 T stmt params = on_ch env2 T stmt params)
     \<and> (\<forall>stmt args. pg_bound T stmt args \<longrightarrow> on_pg env1 stmt args = on_pg env2 stmt args)
     \<and> (\<forall>s \<in> snd ` set (en_scanners e). \<forall>q n. qw_bound (sc_Rel s) T q \<longrightarrow> on_qw env1 q n = on_qw env2 q n)
     \<and> (\<forall>s \<in> snd ` set (en_scanners e). \<forall>q a n. qw_bound (sc_Rel s) T q \<longrightarrow> on_qw_agg env1 q a n = on_qw_agg env2 q a n)"

lemma qw_clauses_spec:
  assumes "qw_clauses rel q preds = Inr q1"
  shows "q1 = q @ concat (map qw_clause (map (\<lambda>p. (indexField rel (pr_Column p), pr_Value p)) preds))
    \<and> (\<forall>p \<in> set preds. HasColumn rel (pr_Column p) \<and> termValuePattern (pr_Value p))"
  using assms
  by (induction rel q preds rule: qw_clauses.induct) (auto simp: qw_clause_def split: if_splits)

lemma AttrKey_pattern: "AttrKey rel c \<noteq> [] \<Longrightarrow> rel_AttrPrefix rel \<noteq> [] \<and> attrKeyPattern (AttrKey rel c)"
  by (simp add: AttrKey_def Let_def split: if_splits)

lemma indexField_field:
  assumes "HasColumn rel c"
  shows "qw_field rel (indexField rel c)"
proof (cases "AttrKey rel c = []")
  case True
  then obtain d where "d \<in> set (rel_Columns rel)" "to_lower d = to_lower c"
    using assms by (auto simp: HasColumn_def list_ex_iff)
  then have "to_lower c \<in> to_lower ` set (rel_Columns rel)" by (metis imageI)
  then show ?thesis using True by (simp add: indexField_def qw_field_def)
next
  case False
  then show ?thesis using AttrKey_pattern [OF False] by (auto simp: indexField_def qw_field_def Let_def)
qed

lemma searchQuery_bound:
  assumes "searchQuery rel T preds = Inr q"
  shows "qw_bound rel T q"
proof -
  let ?fvs = "map (\<lambda>p. (indexField rel (pr_Column p), pr_Value p)) preds"
  have T: "tenantIDPattern T" and run: "qw_clauses rel (''tenant_id:'' @ T) preds = Inr q"
    using assms by (auto simp: searchQuery_def split: if_splits)
  have q: "q = ''tenant_id:'' @ T @ concat (map qw_clause ?fvs)"
    and ps: "\<forall>p \<in> set preds. HasColumn rel (pr_Column p) \<and> termValuePattern (pr_Value p)"
    using qw_clauses_spec [OF run] by simp_all
  have "\<forall>(f, v) \<in> set ?fvs. qw_field rel f \<and> list_all term_char v"
    using ps indexField_field by (auto simp: termValuePattern_def)
  then show ?thesis unfolding qw_bound_def using q T by blast
qed

section \<open>Tenant isolation\<close>

lemma column_expr_mapped:
  "column_expr cols name \<noteq> [] \<Longrightarrow> \<exists>c \<in> set cols. EqualFold (cc_logical c) name \<and> column_expr cols name = cc_expr c"
  by (induction cols) (auto simp: column_expr_def split: if_splits)

lemma column_expr_in: "column_expr cols name \<noteq> [] \<Longrightarrow> column_expr cols name \<in> cc_expr ` set cols"
  using column_expr_mapped by fastforce

lemma param_names_Suc: "param_names i (Suc n) = (''p'' @ format_int (int i)) # param_names (Suc i) n"
  by (simp add: param_names_def upt_conv_Cons del: upt_Suc)

lemma param_names_0 [simp]: "param_names i 0 = []"
  by (simp add: param_names_def)

text \<open>The filter clauses are conjunctions over mapped columns.\<close>

lemma ch_filter_from_conjuncts:
  "ch_filter_from t i ps = Inr (clause, params) \<Longrightarrow>
    \<exists>es. set es \<subseteq> cc_expr ` set (ch_columns t) \<and> clause = ch_conjuncts i es \<and> map fst params = param_names i (length es)"
proof (induction t i ps arbitrary: clause params rule: ch_filter_from.induct)
  case (1 t i)
  then show ?case by (intro exI [of _ "[]"]) simp
next
  case (2 t i p ps)
  let ?e = "column_expr (ch_columns t) (pr_Column p)"
  have e: "?e \<noteq> []" using "2.prems" by (auto simp: Let_def split: if_splits)
  obtain c1 p1 where r: "ch_filter_from t (Suc i) ps = Inr (c1, p1)"
    and cl: "clause = '' AND '' @ ?e @ '' = {p'' @ format_int (int i) @ '':String}'' @ c1"
    and pa: "params = (''p'' @ format_int (int i), pr_Value p) # p1"
    using "2.prems" e by (auto simp: Let_def split: sum.splits)
  obtain es where es: "set es \<subseteq> cc_expr ` set (ch_columns t)" "c1 = ch_conjuncts (Suc i) es"
      "map fst p1 = param_names (Suc i) (length es)"
    using "2.IH" [OF refl refl e r] by blast
  show ?case
    using es cl pa column_expr_in [OF e] by (intro exI [of _ "?e # es"]) (simp add: param_names_Suc)
qed

lemma pg_filterClause_conjuncts:
  "pg_filterClause t ps k = Inr (clause, args) \<Longrightarrow>
    \<exists>es vs. set es \<subseteq> cc_expr ` set (pg_columns t) \<and> clause = pg_conjuncts k es \<and> args = map CStr vs \<and> length vs = length es"
proof (induction t ps k arbitrary: clause args rule: pg_filterClause.induct)
  case (1 t k)
  then show ?case by (intro exI [of _ "[]"]) simp
next
  case (2 t p ps k)
  let ?e = "column_expr (pg_columns t) (pr_Column p)"
  have e: "?e \<noteq> []" using "2.prems" by (auto simp: Let_def split: if_splits)
  obtain c1 a1 where r: "pg_filterClause t ps (k + 1) = Inr (c1, a1)"
    and cl: "clause = '' AND '' @ ?e @ '' = $'' @ format_int k @ c1" and pa: "args = CStr (pr_Value p) # a1"
    using "2.prems" e by (auto simp: Let_def split: sum.splits)
  obtain es vs where es: "set es \<subseteq> cc_expr ` set (pg_columns t)" "c1 = pg_conjuncts (k + 1) es"
      "a1 = map CStr vs" "length vs = length es"
    using "2.IH" [OF refl e r] by blast
  show ?case
    using es cl pa column_expr_in [OF e]
    by (intro exI [of _ "?e # es"] exI [of _ "pr_Value p # vs"]) simp
qed

lemma chTables_set: "map_of chTables n = Some t \<Longrightarrow> t \<in> snd ` set chTables"
  by (force dest: map_of_SomeD)

lemma pgTables_set: "map_of pgTables n = Some t \<Longrightarrow> t \<in> snd ` set pgTables"
  by (force dest: map_of_SomeD)

lemma ch_bound_scan:
  assumes "map_of chTables n = Some t"
  shows "ch_bound (''SELECT '' @ projection (ch_columns t) @ '' FROM '' @ ch_table t @ '' WHERE '' @ ch_tenantPred t
      @ '' LIMIT '' @ format_int limit @ '' FORMAT JSONCompact'') []"
  unfolding ch_bound_def ch_source_def
  using chTables_set [OF assms] by (intro bexI [of _ t] exI [of _ "[]"]) auto

lemma ch_bound_count:
  assumes "map_of chTables n = Some t" "ch_filterClause t preds = Inr (clause, params)"
  shows "ch_bound (''SELECT count() AS c FROM '' @ ch_table t @ '' WHERE '' @ ch_tenantPred t @ clause @ '' FORMAT JSONCompact'') params"
proof -
  obtain es where es: "set es \<subseteq> cc_expr ` set (ch_columns t)" "clause = ch_conjuncts 0 es" "map fst params = param_names 0 (length es)"
    using ch_filter_from_conjuncts [of t 0 preds] assms(2) by (auto simp: ch_filterClause_def)
  show ?thesis unfolding ch_bound_def ch_source_def
    using es chTables_set [OF assms(1)] by (intro bexI [of _ t] exI [of _ es]) auto
qed

lemma ch_bound_group:
  assumes "map_of chTables n = Some t" "ch_filterClause t preds = Inr (clause, params)" "column_expr (ch_columns t) column = ex" "ex \<noteq> []"
  shows "ch_bound (''SELECT '' @ ex @ '' AS '' @ column @ '', count() AS count FROM '' @ ch_table t @ '' WHERE '' @ ch_tenantPred t
      @ clause @ '' GROUP BY '' @ ex @ '' ORDER BY count DESC LIMIT '' @ format_int limit @ '' FORMAT JSONCompact'') params"
proof -
  obtain es where es: "set es \<subseteq> cc_expr ` set (ch_columns t)" "clause = ch_conjuncts 0 es" "map fst params = param_names 0 (length es)"
    using ch_filter_from_conjuncts [of t 0 preds] assms(2) by (auto simp: ch_filterClause_def)
  obtain c where c: "c \<in> set (ch_columns t)" "EqualFold (cc_logical c) column" "ex = cc_expr c"
    using column_expr_mapped [of "ch_columns t" column] assms(3,4) by auto
  show ?thesis unfolding ch_bound_def ch_source_def c(3)
    using es c chTables_set [OF assms(1)] by (intro bexI [of _ t] exI [of _ es] conjI disjI2 bexI [of _ c] exI) auto
qed

lemma ch_exec_agree:
  "agree_for e T env1 env2 \<Longrightarrow> ch_bound stmt params \<Longrightarrow> ch_exec env1 rel T stmt params = ch_exec env2 rel T stmt params"
  by (simp add: agree_for_def ch_exec_def)

lemma ch_Scan_agree:
  assumes "agree_for e T env1 env2"
  shows "ch_Scan env1 rel T limit = ch_Scan env2 rel T limit"
  using ch_exec_agree [OF assms ch_bound_scan] by (simp add: ch_Scan_def ch_statement_def split: option.splits)

lemma ch_CountAll_agree:
  assumes "agree_for e T env1 env2"
  shows "ch_CountAll env1 rel T preds = ch_CountAll env2 rel T preds"
  using ch_exec_agree [OF assms ch_bound_count]
  by (auto simp: ch_CountAll_def simp del: append_Cons split: option.splits sum.splits)

lemma ch_GroupCount_agree:
  assumes "agree_for e T env1 env2"
  shows "ch_GroupCount env1 rel T column preds limit = ch_GroupCount env2 rel T column preds limit"
  using ch_exec_agree [OF assms ch_bound_group]
  by (auto simp: ch_GroupCount_def Let_def simp del: append_Cons split: option.splits sum.splits)

lemma on_pg_agree: "agree_for e T env1 env2 \<Longrightarrow> pg_bound T stmt args \<Longrightarrow> on_pg env1 stmt args = on_pg env2 stmt args"
  by (simp add: agree_for_def)

lemma pg_bound_scan:
  assumes "map_of pgTables n = Some t"
  shows "pg_bound T (''SELECT '' @ projection (pg_columns t) @ '' FROM '' @ pg_table t @ '' WHERE tenant_id = $1 LIMIT $2'') [CStr T, CInt limit]"
  unfolding pg_bound_def pg_source_def
  using pgTables_set [OF assms] by (intro bexI [of _ t] exI [of _ "[]"]) auto

lemma pg_bound_count:
  assumes "map_of pgTables n = Some t" "pg_filterClause t preds 2 = Inr (clause, args)"
  shows "pg_bound T (''SELECT count(*) FROM '' @ pg_table t @ '' WHERE tenant_id = $1'' @ clause) (CStr T # args)"
proof -
  obtain es vs where es: "set es \<subseteq> cc_expr ` set (pg_columns t)" "clause = pg_conjuncts 2 es" "args = map CStr vs" "length vs = length es"
    using pg_filterClause_conjuncts [OF assms(2)] by blast
  show ?thesis unfolding pg_bound_def pg_source_def
    using es pgTables_set [OF assms(1)] by (intro bexI [of _ t] exI [of _ es] exI [of _ vs]) auto
qed

lemma pg_bound_group:
  assumes "map_of pgTables n = Some t" "pg_filterClause t preds 2 = Inr (clause, args)" "column_expr (pg_columns t) column = ex" "ex \<noteq> []"
  shows "pg_bound T (''SELECT '' @ ex @ '' AS '' @ column @ '', count(*) AS count FROM '' @ pg_table t @ '' WHERE tenant_id = $1''
      @ clause @ '' GROUP BY '' @ ex @ '' ORDER BY count DESC LIMIT $'' @ format_int (int (length args) + 2)) (CStr T # args @ [CInt limit])"
proof -
  obtain es vs where es: "set es \<subseteq> cc_expr ` set (pg_columns t)" "clause = pg_conjuncts 2 es" "args = map CStr vs" "length vs = length es"
    using pg_filterClause_conjuncts [OF assms(2)] by blast
  obtain c where c: "c \<in> set (pg_columns t)" "EqualFold (cc_logical c) column" "ex = cc_expr c"
    using column_expr_mapped [of "pg_columns t" column] assms(3,4) by auto
  show ?thesis unfolding pg_bound_def pg_source_def c(3)
    using es c pgTables_set [OF assms(1)]
    by (intro bexI [of _ t] exI [of _ es] exI [of _ vs] conjI disjI2 bexI [of _ c] exI) auto
qed

lemma pg_Scan_agree:
  assumes "agree_for e T env1 env2"
  shows "pg_Scan env1 rel T limit = pg_Scan env2 rel T limit"
  using on_pg_agree [OF assms pg_bound_scan] by (simp add: pg_Scan_def pg_statement_def split: option.splits)

lemma pg_CountAll_agree:
  assumes "agree_for e T env1 env2"
  shows "pg_CountAll env1 rel T preds = pg_CountAll env2 rel T preds"
  using on_pg_agree [OF assms pg_bound_count]
  by (auto simp: pg_CountAll_def simp del: append_Cons split: option.splits sum.splits)

lemma pg_GroupCount_agree:
  assumes "agree_for e T env1 env2"
  shows "pg_GroupCount env1 rel T column preds limit = pg_GroupCount env2 rel T column preds limit"
  using on_pg_agree [OF assms pg_bound_group]
  by (auto simp: pg_GroupCount_def Let_def simp del: append_Cons split: option.splits sum.splits)

lemma qw_agree:
  assumes "agree_for e T env1 env2" "s \<in> snd ` set (en_scanners e)" "searchQuery (sc_Rel s) T preds = Inr q"
  shows "on_qw env1 q n = on_qw env2 q n" "on_qw_agg env1 q a n = on_qw_agg env2 q a n"
  using assms(1,2) searchQuery_bound [OF assms(3)] unfolding agree_for_def by blast+

lemma qw_Scan_agree:
  assumes "agree_for e T env1 env2" "s \<in> snd ` set (en_scanners e)"
  shows "qw_Scan env1 (sc_Rel s) T limit = qw_Scan env2 (sc_Rel s) T limit"
  using qw_agree(1) [OF assms, of "[]"] by (simp add: qw_Scan_def split: sum.splits)

lemma qw_searchAgg_agree:
  assumes "agree_for e T env1 env2" "s \<in> snd ` set (en_scanners e)"
  shows "qw_searchAgg env1 (sc_Rel s) T preds aggs n = qw_searchAgg env2 (sc_Rel s) T preds aggs n"
  using qw_agree(2) [OF assms, of preds] by (simp add: qw_searchAgg_def split: sum.splits)

text \<open>The three interfaces of a scanner.\<close>

lemma scanner_agree:
  assumes "agree_for e T env1 env2" "s \<in> snd ` set (en_scanners e)"
  shows "sc_Scan env1 s T limit = sc_Scan env2 s T limit"
    "sc_CountAll env1 s T preds = sc_CountAll env2 s T preds"
    "sc_GroupCount env1 s T column preds limit = sc_GroupCount env2 s T column preds limit"
  using qw_Scan_agree [OF assms] qw_searchAgg_agree [OF assms]
  by (simp_all add: sc_Scan_def sc_CountAll_def sc_GroupCount_def qw_CountAll_def qw_GroupCount_def
      ch_Scan_agree [OF assms(1)] ch_CountAll_agree [OF assms(1)] ch_GroupCount_agree [OF assms(1)]
      pg_Scan_agree [OF assms(1)] pg_CountAll_agree [OF assms(1)] pg_GroupCount_agree [OF assms(1)]
      split: scanner_type.splits)

lemma scan_load_agree:
  assumes "agree_for e T env1 env2"
  shows "scan_load quote env1 dk e T rels sofar d = scan_load quote env2 dk e T rels sofar d"
proof (induction rels arbitrary: sofar d)
  case (Cons rel rels)
  show ?case
  proof (cases "map_of (en_scanners e) (rel_Name rel)")
    case (Some s)
    then have "s \<in> snd ` set (en_scanners e)" by (force dest: map_of_SomeD)
    then show ?thesis
      using Cons.IH Some scanner_agree(1) [OF assms] by (simp split: sum.splits)
  qed simp
qed simp

lemma Query_agree:
  assumes "agree_for e T env1 env2"
  shows "Query L env1 dk e T sql = Query L env2 dk e T sql"
proof -
  have local: "run_local L env1 dk e T a = run_local L env2 dk e T a" for a
    unfolding run_local_def scan_load_agree [OF assms] ..
  have push: "runPushdown env1 n T plan s = runPushdown env2 n T plan s"
    if "map_of (en_scanners e) m = Some s" for n plan s m
  proof -
    have "s \<in> snd ` set (en_scanners e)" using that by (force dest: map_of_SomeD)
    show ?thesis unfolding runPushdown_def scanner_agree(2,3) [OF assms \<open>s \<in> snd ` set (en_scanners e)\<close>] ..
  qed
  show ?thesis by (simp add: Query_def local push split: sum.splits option.splits)
qed

section \<open>The text of a Quickwit query\<close>

lemma qw_clause_pair:
  "qw_clause (f, v) @ rest = ('' AND '' @ f @ '':'') @ CHR 0x22 # (v @ CHR 0x22 # rest)"
  by (simp add: qw_clause_def)

lemma qw_clauses_inj:
  assumes "concat (map qw_clause fvs) = concat (map qw_clause gws)"
    "\<forall>(f, v) \<in> set fvs. CHR 0x22 \<notin> set f \<and> CHR 0x22 \<notin> set v"
    "\<forall>(f, v) \<in> set gws. CHR 0x22 \<notin> set f \<and> CHR 0x22 \<notin> set v"
  shows "fvs = gws"
  using assms
proof (induction fvs arbitrary: gws)
  case Nil
  then show ?case by (cases gws) (auto simp: qw_clause_def)
next
  case (Cons fv fvs)
  obtain f v where fv: "fv = (f, v)" by (cases fv)
  obtain g w gws1 where gws: "gws = (g, w) # gws1"
    using Cons.prems(1) by (cases gws) (auto simp: qw_clause_def)
  have eq: "('' AND '' @ f @ '':'') @ CHR 0x22 # (v @ CHR 0x22 # concat (map qw_clause fvs))
      = ('' AND '' @ g @ '':'') @ CHR 0x22 # (w @ CHR 0x22 # concat (map qw_clause gws1))"
    using Cons.prems(1) unfolding fv gws list.map concat.simps qw_clause_pair .
  have "'' AND '' @ f @ '':'' = '' AND '' @ g @ '':'' \<and>
      v @ CHR 0x22 # concat (map qw_clause fvs) = w @ CHR 0x22 # concat (map qw_clause gws1)"
    by (rule prefix_split [OF _ _ eq]) (use Cons.prems(2,3) fv gws in auto)
  then have fg: "f = g" and rest: "v @ CHR 0x22 # concat (map qw_clause fvs) = w @ CHR 0x22 # concat (map qw_clause gws1)"
    by simp_all
  have "v = w \<and> concat (map qw_clause fvs) = concat (map qw_clause gws1)"
    by (rule prefix_split [OF _ _ rest]) (use Cons.prems(2,3) fv gws in auto)
  then show ?case using Cons.IH [of gws1] Cons.prems(2,3) fg fv gws by auto
qed

lemma tenant_no_space: "tenantIDPattern T \<Longrightarrow> CHR '' '' \<notin> set T"
  by (cases T) (auto simp: tenantIDPattern_def list_all_iff tenant_char_def ascii_letter_def ascii_digit_def)

lemma tenant_prefix_unique:
  assumes "T @ concat (map qw_clause fvs) = U @ concat (map qw_clause gws)" "CHR '' '' \<notin> set T" "CHR '' '' \<notin> set U"
  shows "T = U"
proof -
  have "takeWhile (\<lambda>c. c \<noteq> CHR '' '') (S @ concat (map qw_clause xs)) = S" if "CHR '' '' \<notin> set S" for S xs
    using that by (cases xs) (auto simp: qw_clause_def takeWhile_append takeWhile_eq_all_conv)
  then show ?thesis using assms by metis
qed

lemma field_no_quote:
  assumes "\<forall>c \<in> set (rel_Columns rel). CHR 0x22 \<notin> set (to_lower c)" "CHR 0x22 \<notin> set (rel_AttrPrefix rel)" "qw_field rel f"
  shows "CHR 0x22 \<notin> set f"
proof -
  have "CHR 0x22 \<notin> set k" if "attrKeyPattern k" for k
    using that by (cases k) (auto simp: attrKeyPattern_def list_all_iff ascii_letter_def ascii_digit_def)
  then show ?thesis using assms by (auto simp: qw_field_def)
qed

lemma searchQuery_parts:
  assumes "searchQuery rel T preds = Inr q"
  shows "q = ''tenant_id:'' @ T @ concat (map qw_clause (map (\<lambda>p. (indexField rel (pr_Column p), pr_Value p)) preds))"
    "CHR '' '' \<notin> set T"
    "\<forall>p \<in> set preds. qw_field rel (indexField rel (pr_Column p)) \<and> CHR 0x22 \<notin> set (pr_Value p)"
proof -
  have run: "tenantIDPattern T" "qw_clauses rel (''tenant_id:'' @ T) preds = Inr q"
    using assms by (auto simp: searchQuery_def split: if_splits)
  show "q = ''tenant_id:'' @ T @ concat (map qw_clause (map (\<lambda>p. (indexField rel (pr_Column p), pr_Value p)) preds))"
    using qw_clauses_spec [OF run(2)] by simp
  show "CHR '' '' \<notin> set T" by (rule tenant_no_space [OF run(1)])
  show "\<forall>p \<in> set preds. qw_field rel (indexField rel (pr_Column p)) \<and> CHR 0x22 \<notin> set (pr_Value p)"
    using qw_clauses_spec [OF run(2)] indexField_field
    by (auto simp: termValuePattern_def list_all_iff term_char_def)
qed

section \<open>Filters and plans\<close>

text \<open>The meaning of a condition on a row: a conjunction is true when both parts are, parentheses
  change nothing, and a column equals a literal when the row's value is that text.\<close>

definition sql_truth :: "(expr \<Rightarrow> 'row \<Rightarrow> bool) \<Rightarrow> ('row \<Rightarrow> string \<Rightarrow> string option) \<Rightarrow> bool" where
  "sql_truth holds val \<longleftrightarrow>
     (\<forall>l r row. holds (BinaryOperationExpr LogicAnd l r) row \<longleftrightarrow> holds l row \<and> holds r row)
     \<and> (\<forall>e row. holds (ParenthesesExpr e) row \<longleftrightarrow> holds e row)
     \<and> (\<forall>e c s row. columnNameOf e = Some c \<longrightarrow>
          (holds (BinaryOperationExpr EQ e (ValueExpr (LitStr s))) row \<longleftrightarrow> val row c = Some s)
          \<and> (holds (BinaryOperationExpr EQ (ValueExpr (LitStr s)) e) row \<longleftrightarrow> val row c = Some s))"

definition satisfies :: "('row \<Rightarrow> string \<Rightarrow> string option) \<Rightarrow> Predicate list \<Rightarrow> 'row \<Rightarrow> bool" where
  "satisfies val preds row \<longleftrightarrow> (\<forall>p \<in> set preds. val row (pr_Column p) = Some (pr_Value p))"

definition where_holds :: "(expr \<Rightarrow> 'row \<Rightarrow> bool) \<Rightarrow> expr option \<Rightarrow> 'row \<Rightarrow> bool" where
  "where_holds holds w row \<longleftrightarrow> (case w of None \<Rightarrow> True | Some e \<Rightarrow> holds e row)"

lemma columnAndLiteral_Some:
  "columnAndLiteral a b = Some (c, s) \<longleftrightarrow> columnNameOf a = Some c \<and> b = ValueExpr (LitStr s)"
  by (auto split: option.splits expr.splits lit.splits)

lemma equalityTerm_sound:
  assumes "sql_truth holds val" "equalityTerm l r rel = Some p"
  shows "holds (BinaryOperationExpr EQ l r) row \<longleftrightarrow> val row (pr_Column p) = Some (pr_Value p)"
    "HasColumn rel (pr_Column p)"
proof -
  obtain c s where cs: "columnAndLiteral l r = Some (c, s) \<or> columnAndLiteral r l = Some (c, s)"
    "HasColumn rel c" "p = \<lparr>pr_Column = c, pr_Value = s\<rparr>"
    using assms(2) by (auto simp: equalityTerm_def split: option.splits if_splits)
  then show "HasColumn rel (pr_Column p)" by simp
  show "holds (BinaryOperationExpr EQ l r) row \<longleftrightarrow> val row (pr_Column p) = Some (pr_Value p)"
    using cs assms(1) unfolding columnAndLiteral_Some sql_truth_def by auto
qed

lemma equality_predicates_sound:
  assumes "sql_truth holds val" "equality_predicates e rel = Some preds"
  shows "(holds e row \<longleftrightarrow> satisfies val preds row) \<and> (\<forall>p \<in> set preds. HasColumn rel (pr_Column p))"
  using assms(2)
proof (induction e rel arbitrary: preds rule: equality_predicates.induct)
  case (1 e rel)
  then show ?case using assms(1) by (auto simp: sql_truth_def)
next
  case (2 op l r rel)
  show ?case
  proof (cases op)
    case LogicAnd
    then obtain ls rs where parts: "equality_predicates l rel = Some ls" "equality_predicates r rel = Some rs"
      "preds = ls @ rs" using "2.prems" by (auto split: option.splits)
    then show ?thesis
      using "2.IH"(1) [OF LogicAnd parts(1)] "2.IH"(2) [OF LogicAnd parts(1,2)] assms(1) LogicAnd
      by (auto simp: sql_truth_def satisfies_def)
  next
    case EQ
    then obtain p where "equalityTerm l r rel = Some p" "preds = [p]" using "2.prems" by (auto split: option.splits)
    then show ?thesis using equalityTerm_sound [OF assms(1), of l r rel p] EQ by (simp add: satisfies_def)
  next
    case OtherOp
    then show ?thesis using "2.prems" by simp
  qed
qed auto

lemma planPushdown_where:
  assumes "planPushdown a = Some plan"
  shows "\<exists>sel. stmt_select (an_Stmt a) = Some sel \<and> an_Relations a = [pl_rel plan]
     \<and> equalityPredicates (sel_Where sel) (pl_rel plan) = Some (pl_where plan) \<and> singleTableFrom sel
     \<and> (pl_kind plan = pushGroupCount \<longrightarrow> HasColumn (pl_rel plan) (pl_column plan))"
  using assms
  by (auto simp: planPushdown_def plan_count_def plan_group_def
      split: option.splits list.splits if_splits prod.splits)

section \<open>The budget\<close>

lemma tracker_add_Ok: "tracker_add b sofar rel n = Inr m \<Longrightarrow> m = sofar + n \<and> n \<le> MaxRowsPerRelation b \<and> m \<le> MaxTotalRows b"
  by (simp add: tracker_add_def split: if_splits)

lemma scan_load_Cons:
  "scan_load quote env dk e T (rel # rels) sofar d = Inr x \<Longrightarrow>
    \<exists>s rows m d2. map_of (en_scanners e) (rel_Name rel) = Some s
      \<and> sc_Scan env s T (MaxRowsPerRelation (en_budget e) + 1) = Inr rows
      \<and> tracker_add (en_budget e) sofar (rel_Name rel) (int (length (rows_Values rows))) = Inr m
      \<and> scan_load quote env dk e T rels m d2 = Inr x"
  by (simp split: option.splits sum.splits) blast

lemma scan_load_total:
  assumes "scan_load quote env dk e T rels sofar d = Inr (n, d1)" "sofar \<le> max 0 (MaxTotalRows (en_budget e))" "0 \<le> sofar"
  shows "sofar \<le> n \<and> n \<le> max 0 (MaxTotalRows (en_budget e))"
  using assms
proof (induction rels arbitrary: sofar d)
  case (Cons rel rels)
  obtain rows :: Rows and m d2 where
    add: "tracker_add (en_budget e) sofar (rel_Name rel) (int (length (rows_Values rows))) = Inr m"
    and rec: "scan_load quote env dk e T rels m d2 = Inr (n, d1)"
    using scan_load_Cons [OF Cons.prems(1)] by blast
  then show ?case using Cons.IH [OF rec] tracker_add_Ok [OF add] Cons.prems(2,3) by auto
qed simp

lemma scan_load_relations:
  assumes "scan_load quote env dk e T rels sofar d = Inr (n, d1)" "rel \<in> set rels"
  shows "\<exists>s rows. map_of (en_scanners e) (rel_Name rel) = Some s
     \<and> sc_Scan env s T (MaxRowsPerRelation (en_budget e) + 1) = Inr rows
     \<and> int (length (rows_Values rows)) \<le> MaxRowsPerRelation (en_budget e)"
  using assms
proof (induction rels arbitrary: sofar d)
  case (Cons r rels)
  obtain s and rows :: Rows and m d2 where
    s: "map_of (en_scanners e) (rel_Name r) = Some s" "sc_Scan env s T (MaxRowsPerRelation (en_budget e) + 1) = Inr rows"
    and add: "tracker_add (en_budget e) sofar (rel_Name r) (int (length (rows_Values rows))) = Inr m"
    and rec: "scan_load quote env dk e T rels m d2 = Inr (n, d1)"
    using scan_load_Cons [OF Cons.prems(1)] by blast
  then show ?case using Cons.IH [OF rec] tracker_add_Ok [OF add] Cons.prems(2) by auto
qed simp

section \<open>Bound values\<close>

lemma param_names_distinct: "distinct (param_names i n)"
proof -
  have "inj_on (\<lambda>k. ''p'' @ format_int (int k)) {i ..< i + n}"
  proof (rule inj_onI)
    fix k m assume "''p'' @ format_int (int k) = ''p'' @ format_int (int m)"
    then have "format_nat k = format_nat m" by (simp add: format_int_def)
    then show "k = m" by (rule format_nat_inj)
  qed
  then show ?thesis unfolding param_names_def distinct_map by simp
qed

text \<open>The clause is a function of the columns; the values are in the parameters, in order.\<close>

lemma ch_filter_from_columns:
  assumes "map pr_Column ps = map pr_Column qs"
  shows "(\<exists>e1 e2. ch_filter_from t i ps = Inl e1 \<and> ch_filter_from t i qs = Inl e2)
    \<or> (\<exists>clause. ch_filter_from t i ps = Inr (clause, zip (param_names i (length ps)) (map pr_Value ps))
         \<and> ch_filter_from t i qs = Inr (clause, zip (param_names i (length qs)) (map pr_Value qs)))"
  using assms
proof (induction ps arbitrary: qs i)
  case Nil
  then show ?case by (simp add: param_names_def)
next
  case (Cons p ps)
  obtain q qs1 where qs: "qs = q # qs1" "pr_Column q = pr_Column p" "map pr_Column ps = map pr_Column qs1"
    using Cons.prems by (cases qs) auto
  show ?case
    using Cons.IH [OF qs(3), of "Suc i"] qs(1,2) by (auto simp: Let_def param_names_Suc)
qed

lemma pg_filterClause_columns:
  assumes "map pr_Column ps = map pr_Column qs"
  shows "(\<exists>e1 e2. pg_filterClause t ps k = Inl e1 \<and> pg_filterClause t qs k = Inl e2)
    \<or> (\<exists>clause. pg_filterClause t ps k = Inr (clause, map (\<lambda>p. CStr (pr_Value p)) ps)
         \<and> pg_filterClause t qs k = Inr (clause, map (\<lambda>p. CStr (pr_Value p)) qs))"
  using assms
proof (induction ps arbitrary: qs k)
  case Nil
  then show ?case by simp
next
  case (Cons p ps)
  obtain q qs1 where qs: "qs = q # qs1" "pr_Column q = pr_Column p" "map pr_Column ps = map pr_Column qs1"
    using Cons.prems by (cases qs) auto
  show ?case
    using Cons.IH [OF qs(3), of "k + 1"] qs(1,2) by (auto simp: Let_def)
qed

lemma stream_rows_fails:
  assumes "\<And>j. i \<le> j \<Longrightarrow> j < k \<Longrightarrow> ev j = RowSent" "ev k = RowFails" "i \<le> k" "k < i + length rows"
  shows "stream_rows ev i rows = (k, False)"
  using assms
proof (induction rows arbitrary: i)
  case (Cons row rows)
  show ?case
  proof (cases "i = k")
    case True
    then show ?thesis using Cons.prems(2) by simp
  next
    case False
    then have "ev i = RowSent" "stream_rows ev (Suc i) rows = (k, False)"
      using Cons.prems by (auto intro!: Cons.IH)
    then show ?thesis by simp
  qed
qed simp

section \<open>Concrete instances\<close>

text \<open>A parser that yields one given statement, an embedded database that accepts everything, and
  stores that hold rows of two tenants.\<close>

definition demo_libs :: "select \<Rightarrow> string \<Rightarrow> libs" where
  "demo_libs sel rel = \<lparr>lib_Parse = (\<lambda>_. Inr [\<lparr>stmt_tree = Node (SelectStmt False False) [table_ref rel],
       stmt_select = Some sel\<rparr>]), lib_Accept = walk, lib_Restore = (\<lambda>_. Inr ''q''), lib_quote = (\<lambda>s. s), lib_elapsed = 0\<rparr>"

definition demo_duck :: "unit duck" where
  "demo_duck = \<lparr>d_open = (\<lambda>_. Inr ()), d_exec = (\<lambda>d _ _. Inr d), d_prepare = (\<lambda>_ _. None),
     d_query = (\<lambda>_ _. Inr \<lparr>rows_Columns = [], rows_Values = []\<rparr>)\<rparr>"

definition demo_engine :: Engine where
  "demo_engine = \<lparr>en_catalog = DefaultCatalog, en_policy = DefaultPolicy_sql, en_budget = DefaultBudget,
     en_scanners = map (\<lambda>r. (rel_Name r, \<lparr>sc_type = (if rel_Store r = StoreLogs then QuickwitScanner
        else if rel_Store r = StoreAnalytics then ClickHouseScanner else PostgresScanner), sc_Rel = r\<rparr>)) default_rels\<rparr>"

definition demo_stores :: "nat \<Rightarrow> nat \<Rightarrow> stores" where
  "demo_stores mine theirs = \<lparr>
     on_ch = (\<lambda>T _ _. Inr \<lparr>rows_Columns = [''c''],
        rows_Values = [[CInt (int (if T = ''acme'' then mine else theirs))]]\<rparr>),
     on_pg = (\<lambda>_ args. Inr \<lparr>rows_Columns = [''c''],
        rows_Values = [[CInt (int (if take 1 args = [CStr ''acme''] then mine else theirs))]]\<rparr>),
     on_qw = (\<lambda>q _. Inr (replicate (if has_prefix ''tenant_id:acme'' q then mine else theirs) [])),
     on_qw_agg = (\<lambda>q _ _. Inr (int (if has_prefix ''tenant_id:acme'' q then mine else theirs), []))\<rparr>"

definition plain_select :: "SelectField list \<Rightarrow> expr list option \<Rightarrow> select" where
  "plain_select fs grp = \<lparr>sel_Having = False, sel_Distinct = False, sel_WindowSpecs = False, sel_With = False,
     sel_LockInfo = False, sel_From = Some \<lparr>j_Left = TableSourceName, j_Right = False\<rparr>, sel_Where = None,
     sel_Fields = fs, sel_GroupBy = grp, sel_OrderBy = None, sel_Limit = None\<rparr>"

definition col :: "string \<Rightarrow> expr" where
  "col c = ColumnNameExpr (Some \<lparr>cn_Schema = ident [], cn_Table = ident [], cn_Name = ident c\<rparr>)"

definition field :: "expr \<Rightarrow> SelectField" where
  "field e = \<lparr>f_Expr = Some e, f_AsName = ident []\<rparr>"

section \<open>Properties\<close>

text \<open>C8: No statement can read another tenant's rows. If two states of ClickHouse, Postgres and
  Quickwit answer alike every request bound to a tenant, then every statement gives the same result
  for that tenant in both, whatever other tenants' data are. A bound request is pinned as a whole: a
  ClickHouse or Postgres statement selects from one table where the tenant column equals the
  tenant's parameter and, by conjunction only, mapped columns equal bound parameters, with a limit
  or a grouping after it; a Quickwit query is the tenant's clause with further conjuncts on exposed
  fields. A statement that weakens the tenant test, say by a disjunction, is not bound.\<close>

theorem tenant_isolation:
  assumes "agree_for e T env1 env2"
  shows "Query L env1 dk e T sql = Query L env2 dk e T sql"
  using assms by (rule Query_agree)

lemma demo_agree: "agree_for demo_engine ''acme'' (demo_stores 3 5) (demo_stores 3 8)"
  by (auto simp: agree_for_def demo_stores_def pg_bound_def qw_bound_def has_prefix_def)

theorem tenant_isolation_witness:
  "Query (demo_libs (plain_select [field (AggregateFuncExpr ''count'' False [ValueExpr (LitUInt 1)])] None) ''traces'')
      (demo_stores 3 5) demo_duck demo_engine ''acme'' ''q''
   = Query (demo_libs (plain_select [field (AggregateFuncExpr ''count'' False [ValueExpr (LitUInt 1)])] None) ''traces'')
      (demo_stores 3 8) demo_duck demo_engine ''acme'' ''q''"
  by (rule tenant_isolation [OF demo_agree])

text \<open>A Quickwit query says what it was built from. Over a relation whose field names carry no
  double quote, two calls of \<open>searchQuery\<close> that yield the same query text were made for the same
  tenant and the same fields and values, so no tenant identifier and no filter value can pass for
  query syntax.\<close>

theorem quickwit_query_unambiguous:
  assumes "\<forall>c \<in> set (rel_Columns rel). CHR 0x22 \<notin> set (to_lower c)" "CHR 0x22 \<notin> set (rel_AttrPrefix rel)"
    "searchQuery rel T ps = Inr q" "searchQuery rel U qs = Inr q"
  shows "T = U \<and> map (\<lambda>p. (indexField rel (pr_Column p), pr_Value p)) ps
      = map (\<lambda>p. (indexField rel (pr_Column p), pr_Value p)) qs"
proof -
  let ?F = "map (\<lambda>p. (indexField rel (pr_Column p), pr_Value p))"
  have eq: "T @ concat (map qw_clause (?F ps)) = U @ concat (map qw_clause (?F qs))"
    using searchQuery_parts(1) [OF assms(3)] searchQuery_parts(1) [OF assms(4)] by simp
  then have TU: "T = U"
    using searchQuery_parts(2) [OF assms(3)] searchQuery_parts(2) [OF assms(4)] by (rule tenant_prefix_unique)
  have "?F ps = ?F qs"
  proof (rule qw_clauses_inj)
    show "concat (map qw_clause (?F ps)) = concat (map qw_clause (?F qs))" using eq TU by simp
    show "\<forall>(f, v) \<in> set (?F ps). CHR 0x22 \<notin> set f \<and> CHR 0x22 \<notin> set v"
      using searchQuery_parts(3) [OF assms(3)] field_no_quote [OF assms(1,2)] by auto
    show "\<forall>(f, v) \<in> set (?F qs). CHR 0x22 \<notin> set f \<and> CHR 0x22 \<notin> set v"
      using searchQuery_parts(3) [OF assms(4)] field_no_quote [OF assms(1,2)] by auto
  qed
  then show ?thesis using TU by simp
qed

theorem quickwit_query_unambiguous_witness:
  "(''acme'' = ''acme'') \<and>
   map (\<lambda>p. (indexField (hd default_rels) (pr_Column p), pr_Value p))
     [\<lparr>pr_Column = ''LEVEL'', pr_Value = ''connection refused''\<rparr>]
   = map (\<lambda>p. (indexField (hd default_rels) (pr_Column p), pr_Value p))
     [\<lparr>pr_Column = ''level'', pr_Value = ''connection refused''\<rparr>]"
  by (rule quickwit_query_unambiguous
      [where q = "''tenant_id:acme AND level:'' @ [CHR 0x22] @ ''connection refused'' @ [CHR 0x22]"]; code_simp)

text \<open>A pushed-down filter selects what the \<open>WHERE\<close> clause selects. When the planner hands an
  aggregate to a store, the statement reads one table, every filter and grouping column is one the
  relation exposes, and a row satisfies the equality tests sent to the store exactly when the
  statement's condition holds of it.\<close>

theorem pushed_filter_is_where:
  assumes "sql_truth holds val" "planPushdown a = Some plan"
  shows "\<exists>sel. stmt_select (an_Stmt a) = Some sel \<and> singleTableFrom sel \<and> an_Relations a = [pl_rel plan]
    \<and> (\<forall>row. where_holds holds (sel_Where sel) row \<longleftrightarrow> satisfies val (pl_where plan) row)
    \<and> (\<forall>p \<in> set (pl_where plan). HasColumn (pl_rel plan) (pr_Column p))
    \<and> (pl_kind plan = pushGroupCount \<longrightarrow> HasColumn (pl_rel plan) (pl_column plan))"
proof -
  obtain sel where sel: "stmt_select (an_Stmt a) = Some sel" "an_Relations a = [pl_rel plan]"
    "equalityPredicates (sel_Where sel) (pl_rel plan) = Some (pl_where plan)" "singleTableFrom sel"
    "pl_kind plan = pushGroupCount \<longrightarrow> HasColumn (pl_rel plan) (pl_column plan)"
    using planPushdown_where [OF assms(2)] by blast
  have "(\<forall>row. where_holds holds (sel_Where sel) row \<longleftrightarrow> satisfies val (pl_where plan) row)
      \<and> (\<forall>p \<in> set (pl_where plan). HasColumn (pl_rel plan) (pr_Column p))"
    using sel(3) equality_predicates_sound [OF assms(1)]
    by (cases "sel_Where sel") (auto simp: equalityPredicates_def where_holds_def satisfies_def)
  with sel show ?thesis by blast
qed

text \<open>The meaning of conditions over rows of text columns.\<close>

fun text_holds :: "expr \<Rightarrow> (string \<Rightarrow> string option) \<Rightarrow> bool" where
  "text_holds (ParenthesesExpr e) row = text_holds e row"
| "text_holds (BinaryOperationExpr op l r) row = (case op of
     LogicAnd \<Rightarrow> text_holds l row \<and> text_holds r row
   | EQ \<Rightarrow> (case (columnNameOf l, r) of
       (Some c, ValueExpr (LitStr s)) \<Rightarrow> row c = Some s
     | _ \<Rightarrow> (case (columnNameOf r, l) of (Some c, ValueExpr (LitStr s)) \<Rightarrow> row c = Some s | _ \<Rightarrow> False))
   | OtherOp \<Rightarrow> False)"
| "text_holds _ row = False"

lemma text_truth: "sql_truth text_holds (\<lambda>row c. row c)"
  unfolding sql_truth_def
proof (intro conjI allI impI)
  fix e c s and row :: "string \<Rightarrow> string option"
  assume e: "columnNameOf e = Some c"
  then show "text_holds (BinaryOperationExpr EQ e (ValueExpr (LitStr s))) row \<longleftrightarrow> row c = Some s" by simp
  show "text_holds (BinaryOperationExpr EQ (ValueExpr (LitStr s)) e) row \<longleftrightarrow> row c = Some s"
    using e by (cases e) auto
qed simp_all

definition filtered_count :: "select Analysis" where
  "filtered_count = \<lparr>an_Relations = [default_rels ! 1], an_Stmt = \<lparr>stmt_tree = Node (SelectStmt False False) [],
     stmt_select = Some ((plain_select [field (AggregateFuncExpr ''count'' False [ValueExpr (LitUInt 1)])] None)
       \<lparr>sel_Where := Some (BinaryOperationExpr EQ (ValueExpr (LitStr ''ERROR'')) (col ''status_code''))\<rparr>)\<rparr>\<rparr>"

theorem pushed_filter_is_where_witness:
  "\<exists>plan sel. planPushdown filtered_count = Some plan \<and> stmt_select (an_Stmt filtered_count) = Some sel
    \<and> (\<forall>row. where_holds text_holds (sel_Where sel) row \<longleftrightarrow> satisfies (\<lambda>row c. row c) (pl_where plan) row)"
proof -
  have "planPushdown filtered_count \<noteq> None" by code_simp
  then obtain plan where plan: "planPushdown filtered_count = Some plan" by blast
  show ?thesis using pushed_filter_is_where [OF text_truth plan] plan by blast
qed

text \<open>Filter values never become SQL text. For ClickHouse and for Postgres, two filters over the
  same columns give the same clause (or are both refused), and the values travel beside it in order:
  as distinctly named parameters for ClickHouse, as positional arguments for Postgres.\<close>

theorem filter_values_stay_out_of_sql:
  assumes "map pr_Column ps = map pr_Column qs"
  shows "(case (ch_filterClause t ps, ch_filterClause t qs) of
       (Inl e1, Inl e2) \<Rightarrow> True
     | (Inr (c1, m1), Inr (c2, m2)) \<Rightarrow> c1 = c2 \<and> map fst m1 = map fst m2 \<and> distinct (map fst m1)
         \<and> map snd m1 = map pr_Value ps \<and> map snd m2 = map pr_Value qs
     | _ \<Rightarrow> False)
    \<and> (case (pg_filterClause u ps k, pg_filterClause u qs k) of
       (Inl e1, Inl e2) \<Rightarrow> True
     | (Inr (c1, a1), Inr (c2, a2)) \<Rightarrow> c1 = c2 \<and> a1 = map (\<lambda>p. CStr (pr_Value p)) ps
         \<and> a2 = map (\<lambda>p. CStr (pr_Value p)) qs
     | _ \<Rightarrow> False)"
proof -
  have len: "length ps = length qs" using assms by (metis length_map)
  have pn: "length (param_names 0 (length ps)) = length ps" by (simp add: param_names_def)
  show ?thesis
    using ch_filter_from_columns [OF assms, of t 0] pg_filterClause_columns [OF assms, of u k]
      param_names_distinct [of 0 "length ps"] len pn
    by (auto simp: ch_filterClause_def)
qed

theorem filter_values_stay_out_of_sql_witness:
  "\<exists>c a1 a2. pg_filterClause (the (map_of pgTables ''incidents'')) [\<lparr>pr_Column = ''status'', pr_Value = ''open''\<rparr>] 2 = Inr (c, a1)
     \<and> pg_filterClause (the (map_of pgTables ''incidents'')) [\<lparr>pr_Column = ''status'', pr_Value = ''x OR 1=1''\<rparr>] 2 = Inr (c, a2)"
proof -
  let ?t = "the (map_of pgTables ''incidents'')"
  let ?ps = "[\<lparr>pr_Column = ''status'', pr_Value = ''open''\<rparr>]"
  let ?qs = "[\<lparr>pr_Column = ''status'', pr_Value = ''x OR 1=1''\<rparr>]"
  have same: "map pr_Column ?ps = map pr_Column ?qs" by simp
  have "\<not> isl (pg_filterClause ?t ?ps 2)" by code_simp
  then obtain c a1 where p: "pg_filterClause ?t ?ps 2 = Inr (c, a1)" by (metis prod.exhaust sum.collapse(2))
  have "case (pg_filterClause ?t ?ps 2, pg_filterClause ?t ?qs 2) of
       (Inl e1, Inl e2) \<Rightarrow> True
     | (Inr (c1, a1), Inr (c2, a2)) \<Rightarrow> c1 = c2 \<and> a1 = map (\<lambda>p. CStr (pr_Value p)) ?ps
         \<and> a2 = map (\<lambda>p. CStr (pr_Value p)) ?qs
     | _ \<Rightarrow> False"
    by (rule conjunct2 [OF filter_values_stay_out_of_sql [OF same]])
  then show ?thesis using p by (auto split: sum.splits)
qed

text \<open>A query never works on more rows than its budget. When a statement that was not answered
  by a store succeeds, the rows it pulled are at most the total allowance, and each relation it
  reads was fetched within the allowance for one relation.\<close>

theorem scanned_rows_within_budget:
  assumes "run_local L env dk e T a = Inr r"
  shows "0 \<le> res_Scanned r \<and> res_Scanned r \<le> max 0 (MaxTotalRows (en_budget e))
    \<and> (\<forall>rel \<in> set (an_Relations a). \<exists>s rows. map_of (en_scanners e) (rel_Name rel) = Some s
         \<and> sc_Scan env s T (MaxRowsPerRelation (en_budget e) + 1) = Inr rows
         \<and> int (length (rows_Values rows)) \<le> MaxRowsPerRelation (en_budget e))"
proof -
  obtain d n d1 where load: "scan_load (lib_quote L) env dk e T (an_Relations a) 0 d = Inr (n, d1)"
    and r: "res_Scanned r = n"
    using assms by (auto simp: run_local_def split: sum.splits prod.splits)
  show ?thesis
    using scan_load_total [OF load] scan_load_relations [OF load] r by auto
qed

definition small_engine :: Engine where
  "small_engine = demo_engine\<lparr>en_budget := \<lparr>MaxRowsPerRelation = 10, MaxTotalRows = 20, MaxWallClock = 1\<rparr>\<rparr>"

theorem scanned_rows_within_budget_witness:
  "\<exists>r. run_local (demo_libs (plain_select [] None) ''traces'') (demo_stores 3 5) demo_duck small_engine ''acme''
      filtered_count = Inr r \<and> res_Scanned r \<le> 20"
proof -
  have "\<not> isl (run_local (demo_libs (plain_select [] None) ''traces'') (demo_stores 3 5) demo_duck small_engine ''acme''
      filtered_count)" by code_simp
  then obtain r where r: "run_local (demo_libs (plain_select [] None) ''traces'') (demo_stores 3 5) demo_duck
      small_engine ''acme'' filtered_count = Inr r" by (metis sum.collapse(2))
  show ?thesis using scanned_rows_within_budget [OF r] r by (simp add: small_engine_def)
qed

text \<open>C1: \<open>count(NULL)\<close> is answered with the number of rows. The planner takes every literal
  argument of \<open>count\<close> for \<open>count(*)\<close>, so a statement whose only output is \<open>count\<close> of the literal
  \<open>NULL\<close>, which counts nothing, returns the row count of the store.\<close>

theorem count_of_null_counts_rows:
  assumes "trim_space T \<noteq> []" "Validate (lib_Parse L) (lib_Accept L) sql (en_catalog e) (en_policy e) = Inr a"
    "stmt_select (an_Stmt a) = Some (plain_select [field (AggregateFuncExpr ''COUNT'' False [ValueExpr LitNull])] None)"
    "an_Relations a = [rel]" "map_of (en_scanners e) (rel_Name rel) = Some s" "sc_CountAll env s T [] = Inr n"
  shows "\<exists>r. Query L env dk e T sql = Inr r \<and> res_Rows r = [[CInt n]]"
proof -
  have fold: "EqualFold ''COUNT'' ''count''" by code_simp
  have "planPushdown a = Some \<lparr>pl_kind = pushCountAll, pl_rel = rel, pl_column = [], pl_where = [],
      pl_groupAlias = [], pl_countAlias = ''count(*)'', pl_limit = 0\<rparr>"
    using assms(3,4) fold by (simp add: planPushdown_def plan_count_def countStar_def plain_select_def field_def
        singleTableFrom_def equalityPredicates_def ident_def)
  then show ?thesis using assms(1,2,5,6) by (simp add: Query_def runPushdown_def)
qed

theorem count_of_null_counts_rows_witness:
  "\<exists>r. Query (demo_libs (plain_select [field (AggregateFuncExpr ''COUNT'' False [ValueExpr LitNull])] None) ''traces'')
      (demo_stores 3 5) demo_duck demo_engine ''acme'' ''q'' = Inr r \<and> res_Rows r = [[CInt 3]]"
proof -
  let ?L = "demo_libs (plain_select [field (AggregateFuncExpr ''COUNT'' False [ValueExpr LitNull])] None) ''traces''"
  let ?stmt = "\<lparr>stmt_tree = Node (SelectStmt False False) [table_ref ''traces''],
     stmt_select = Some (plain_select [field (AggregateFuncExpr ''COUNT'' False [ValueExpr LitNull])] None)\<rparr>"
  let ?a = "\<lparr>an_Relations = [default_rels ! 1], an_Stmt = ?stmt\<rparr>"
  have val: "Validate (lib_Parse ?L) (lib_Accept ?L) ''q'' (en_catalog demo_engine) (en_policy demo_engine) = Inr ?a"
    by code_simp
  have cnt: "sc_CountAll (demo_stores 3 5) \<lparr>sc_type = ClickHouseScanner, sc_Rel = default_rels ! 1\<rparr> ''acme'' [] = Inr 3"
    by code_simp
  have has: "map_of (en_scanners demo_engine) (rel_Name (default_rels ! 1)) = Some \<lparr>sc_type = ClickHouseScanner, sc_Rel = default_rels ! 1\<rparr>"
    by code_simp
  have T: "trim_space ''acme'' \<noteq> []" by code_simp
  show ?thesis using count_of_null_counts_rows [OF T val _ _ has cnt, where dk = demo_duck] by simp
qed

text \<open>A \<open>GROUP BY\<close> without a limit is answered with at most a thousand groups. The planner adds
  a limit that the statement does not have: the store is asked for the thousand most frequent
  groups, and its answer is returned as the whole result.\<close>

theorem group_by_cut_at_1000:
  assumes "trim_space T \<noteq> []" "Validate (lib_Parse L) (lib_Accept L) sql (en_catalog e) (en_policy e) = Inr a"
    "stmt_select (an_Stmt a) = Some (plain_select [field (col c), field (AggregateFuncExpr ''count'' False [ValueExpr (LitUInt 1)])]
        (Some [col c]))"
    "an_Relations a = [rel]" "HasColumn rel c" "map_of (en_scanners e) (rel_Name rel) = Some s"
    "sc_GroupCount env s T c [] 1000 = Inr rows"
  shows "\<exists>r. Query L env dk e T sql = Inr r \<and> res_Rows r = rows_Values rows"
proof -
  have "planPushdown a = Some \<lparr>pl_kind = pushGroupCount, pl_rel = rel, pl_column = c, pl_where = [],
      pl_groupAlias = c, pl_countAlias = ''count(*)'', pl_limit = 1000\<rparr>"
    using assms(3-5) by (simp add: planPushdown_def plan_group_def plainColumn_def countStar_def plain_select_def field_def
        col_def singleTableFrom_def equalityPredicates_def ident_def EqualFold_def defaultGroupLimit_def)
  then show ?thesis using assms(1,2,6,7) by (simp add: Query_def runPushdown_def)
qed

theorem group_by_cut_at_1000_witness:
  "\<exists>r. Query (demo_libs (plain_select [field (col ''span_name''),
        field (AggregateFuncExpr ''count'' False [ValueExpr (LitUInt 1)])] (Some [col ''span_name''])) ''traces'')
      (demo_stores 3 5) demo_duck demo_engine ''acme'' ''q'' = Inr r \<and> res_Rows r = [[CInt 3]]"
proof -
  let ?sel = "plain_select [field (col ''span_name''),
        field (AggregateFuncExpr ''count'' False [ValueExpr (LitUInt 1)])] (Some [col ''span_name''])"
  let ?L = "demo_libs ?sel ''traces''"
  let ?stmt = "\<lparr>stmt_tree = Node (SelectStmt False False) [table_ref ''traces''], stmt_select = Some ?sel\<rparr>"
  let ?a = "\<lparr>an_Relations = [default_rels ! 1], an_Stmt = ?stmt\<rparr>"
  have val: "Validate (lib_Parse ?L) (lib_Accept ?L) ''q'' (en_catalog demo_engine) (en_policy demo_engine) = Inr ?a"
    by code_simp
  have grp: "sc_GroupCount (demo_stores 3 5) \<lparr>sc_type = ClickHouseScanner, sc_Rel = default_rels ! 1\<rparr> ''acme'' ''span_name'' [] 1000
      = Inr \<lparr>rows_Columns = [''c''], rows_Values = [[CInt 3]]\<rparr>" by code_simp
  have has: "HasColumn (default_rels ! 1) ''span_name''"
    "map_of (en_scanners demo_engine) (rel_Name (default_rels ! 1)) = Some \<lparr>sc_type = ClickHouseScanner, sc_Rel = default_rels ! 1\<rparr>"
    by code_simp+
  have T: "trim_space ''acme'' \<noteq> []" by code_simp
  show ?thesis using group_by_cut_at_1000 [OF T val _ _ has grp, where dk = demo_duck] by simp
qed

text \<open>A caller that stops reading leaves no audit row. When a statement succeeds and the
  connection fails at some row, the handler returns before it records the execution, although the
  database would have taken the row and the earlier rows were delivered.\<close>

theorem disconnect_escapes_audit:
  assumes "hc_sql hc = Some raw" "trim_space raw \<noteq> []" "Query L env dk e T (trim_space raw) = Inr r"
    "hc_columns_sent hc" "k < length (res_Rows r)" "\<forall>j < k. hc_row hc j = RowSent" "hc_row hc k = RowFails"
  shows "sql_Execute L env dk e True T actor hc = (200, k, [])"
proof -
  have "stream_rows (hc_row hc) 0 (res_Rows r) = (k, False)"
    by (rule stream_rows_fails) (use assms(5-7) in auto)
  then show ?thesis using assms(1-4) by (simp add: sql_Execute_def)
qed

theorem disconnect_escapes_audit_witness:
  "sql_Execute (demo_libs (plain_select [field (AggregateFuncExpr ''count'' False [ValueExpr (LitUInt 1)])] None) ''traces'')
     (demo_stores 3 5) demo_duck demo_engine True ''acme'' ''u''
     \<lparr>hc_sql = Some ''q'', hc_columns_sent = True, hc_row = (\<lambda>_. RowFails), hc_audit_ok = True, hc_duration = 0\<rparr>
   = (200, 0, [])"
proof (rule disconnect_escapes_audit [where raw = "''q''" and r = "\<lparr>res_Columns = [''count(*)''],
      res_Rows = [[CInt 3]], res_Elapsed = 0, res_Scanned = 0, res_Relations = [''traces'']\<rparr>"])
  show "Query (demo_libs (plain_select [field (AggregateFuncExpr ''count'' False [ValueExpr (LitUInt 1)])] None) ''traces'')
     (demo_stores 3 5) demo_duck demo_engine ''acme'' (trim_space ''q'') = Inr \<lparr>res_Columns = [''count(*)''],
      res_Rows = [[CInt 3]], res_Elapsed = 0, res_Scanned = 0, res_Relations = [''traces'']\<rparr>" by code_simp
  show "trim_space ''q'' \<noteq> []" by code_simp
qed simp_all

end
