(* ===== verification/Totp.thy ===== *)
theory Totp
  imports Go_Strings
begin

text \<open>
  Time-based one-time passwords, \<open>src/gateway-service/internal/auth/totp.go\<close>: decoding a pasted
  secret, the truncation of the message authentication code to six digits, and the acceptance
  window. HMAC-SHA1 and base32 decoding are arguments; what is used of HMAC-SHA1 is that it yields
  twenty bytes. Times are nanoseconds since the epoch.
\<close>

section \<open>Definitions\<close>

definition totpPeriod :: int where "totpPeriod = 30 * 10 ^ 9"
definition totpDigits :: nat where "totpDigits = 6"
definition totpSecretBytes :: nat where "totpSecretBytes = 20"

text \<open>\<open>GenerateTOTPSecret\<close> over the random bytes it read, \<open>None\<close> when the source failed.\<close>

definition GenerateTOTPSecret :: "(bytes \<Rightarrow> string) \<Rightarrow> bytes option \<Rightarrow> string option" where
  "GenerateTOTPSecret b32_encode buf = map_option b32_encode buf"

definition upper_char :: "char \<Rightarrow> char" where
  "upper_char c = (let k = (of_char c :: nat) in if 97 \<le> k \<and> k \<le> 122 then char_of (k - 32) else c)"

definition to_upper :: "string \<Rightarrow> string" where
  "to_upper s = map upper_char s"

definition decodeSecret :: "(string \<Rightarrow> bytes option) \<Rightarrow> string \<Rightarrow> bytes option" where
  "decodeSecret b32_decode secret =
     (let s = to_upper (filter (\<lambda>c. c \<noteq> CHR '' '') secret)
      in b32_decode (rev (dropWhile (\<lambda>c. c = CHR ''='') (rev s))))"

text \<open>\<open>fmt.Sprintf("%0*d", w, n)\<close>.\<close>

definition zero_pad :: "nat \<Rightarrow> nat \<Rightarrow> string" where
  "zero_pad w n = (let s = format_nat n in replicate (w - length s) CHR ''0'' @ s)"

definition otp_modulus :: "32 word" where
  "otp_modulus = foldl (\<lambda>m _. m * 10) 1 [0 ..< totpDigits]"

text \<open>\<open>None\<close> is an index out of range.\<close>

definition truncated :: "bytes \<Rightarrow> 32 word option" where
  "truncated digest =
     (if digest = [] then None
      else let offset = unat (last digest AND 0x0f)
           in if length digest \<le> offset + 3 then None
              else Some (push_bit 24 (ucast (digest ! offset AND 0x7f)) OR push_bit 16 (ucast (digest ! (offset + 1)))
                OR push_bit 8 (ucast (digest ! (offset + 2))) OR ucast (digest ! (offset + 3))))"

definition hotp :: "(bytes \<Rightarrow> bytes \<Rightarrow> bytes) \<Rightarrow> bytes \<Rightarrow> 64 word \<Rightarrow> string option" where
  "hotp mac key counter =
     (case truncated (mac key (rev (putU64 counter))) of
        None \<Rightarrow> None
      | Some code \<Rightarrow> Some (zero_pad totpDigits (unat (code mod otp_modulus))))"

text \<open>\<open>time.Time.Unix\<close> and the conversion to \<open>uint64\<close>.\<close>

definition unix_of :: "int \<Rightarrow> int" where
  "unix_of t = t div 10 ^ 9"

definition counter_at :: "int \<Rightarrow> 64 word" where
  "counter_at t = word_of_int (unix_of t) div 30"

datatype totp_result = TotpError | TotpPanic | TotpCode string

definition totpAt ::
  "(string \<Rightarrow> bytes option) \<Rightarrow> (bytes \<Rightarrow> bytes \<Rightarrow> bytes) \<Rightarrow> string \<Rightarrow> int \<Rightarrow> totp_result" where
  "totpAt b32_decode mac secret t =
     (case decodeSecret b32_decode secret of
        None \<Rightarrow> TotpError
      | Some key \<Rightarrow> (case hotp mac key (counter_at t) of None \<Rightarrow> TotpPanic | Some c \<Rightarrow> TotpCode c))"

text \<open>The loop over the three time steps; \<open>None\<close> is the panic.\<close>

fun try_steps ::
  "(string \<Rightarrow> bytes option) \<Rightarrow> (bytes \<Rightarrow> bytes \<Rightarrow> bytes) \<Rightarrow> string \<Rightarrow> string \<Rightarrow> int \<Rightarrow> int list \<Rightarrow> bool option" where
  "try_steps b32_decode mac secret code now [] = Some False"
| "try_steps b32_decode mac secret code now (skew # rest) =
     (case totpAt b32_decode mac secret (now + skew * totpPeriod) of
        TotpError \<Rightarrow> Some False
      | TotpPanic \<Rightarrow> None
      | TotpCode want \<Rightarrow> if want = code then Some True else try_steps b32_decode mac secret code now rest)"

definition ValidateTOTP ::
  "(string \<Rightarrow> bytes option) \<Rightarrow> (bytes \<Rightarrow> bytes \<Rightarrow> bytes) \<Rightarrow> string \<Rightarrow> string \<Rightarrow> int \<Rightarrow> bool option" where
  "ValidateTOTP b32_decode mac secret code now =
     (let c = trim_space code
      in if length c \<noteq> totpDigits then Some False else try_steps b32_decode mac secret c now [-1, 0, 1])"

text \<open>\<open>url.PathEscape\<close> and \<open>url.Values.Encode\<close> (which sorts by key) are arguments.\<close>

definition OTPAuthURL :: "(string \<Rightarrow> string) \<Rightarrow> ((string \<times> string) list \<Rightarrow> string) \<Rightarrow> string \<Rightarrow> string \<Rightarrow> string \<Rightarrow> string" where
  "OTPAuthURL path_escape encode issuer account secret =
     ''otpauth://totp/'' @ path_escape (issuer @ '':'' @ account) @ ''?'' @
       encode [(''secret'', secret), (''issuer'', issuer), (''algorithm'', ''SHA1''),
         (''digits'', format_nat totpDigits), (''period'', format_int (totpPeriod div 10 ^ 9))]"

section \<open>Six digits\<close>

definition sha1_sized :: "(bytes \<Rightarrow> bytes \<Rightarrow> bytes) \<Rightarrow> bool" where
  "sha1_sized mac \<longleftrightarrow> (\<forall>k m. length (mac k m) = 20)"

lemma otp_modulus_value: "otp_modulus = 1000000"
  by (simp add: otp_modulus_def totpDigits_def upt_rec)

lemma offset_bound: "unat (b AND 0x0f :: byte) \<le> 15"
proof -
  have "(b AND 0x0f) \<le> 0x0f" by (rule word_and_le1)
  then have "unat (b AND 0x0f) \<le> unat (0x0f :: byte)" by (simp add: word_le_nat_alt)
  then show ?thesis by simp
qed

lemma truncated_total: "length digest = 20 \<Longrightarrow> \<exists>c. truncated digest = Some c"
  using offset_bound [of "last digest"] by (auto simp: truncated_def Let_def)

lemma length_format_nat: "n < 10 ^ k \<Longrightarrow> 0 < k \<Longrightarrow> length (format_nat n) \<le> k"
proof (induction k arbitrary: n)
  case (Suc k)
  show ?case
  proof (cases "n < 10")
    case True
    then show ?thesis by (subst format_nat.simps) simp
  next
    case False
    then have "0 < k" using Suc.prems by (cases k) auto
    moreover have "n div 10 < 10 ^ k" using Suc.prems(1) by (simp add: less_mult_imp_div_less)
    ultimately show ?thesis using Suc.IH False by (subst format_nat.simps) simp
  qed
qed simp

lemma zero_pad_length: "n < 10 ^ w \<Longrightarrow> 0 < w \<Longrightarrow> length (zero_pad w n) = w"
  using length_format_nat [of n w] by (simp add: zero_pad_def Let_def)

lemma zero_pad_digits: "c \<in> set (zero_pad w n) \<Longrightarrow> \<exists>d < 10. c = digit_char d"
proof -
  assume "c \<in> set (zero_pad w n)"
  then consider "c = CHR ''0''" | "c \<in> set (format_nat n)" by (auto simp: zero_pad_def Let_def split: if_splits)
  then show ?thesis
  proof cases
    case 1
    moreover have "digit_char 0 = CHR ''0''" by code_simp
    ultimately have "c = digit_char 0" by simp
    then show ?thesis by (intro exI [of _ 0]) simp
  next
    case 2
    then show ?thesis by (rule set_format_nat)
  qed
qed

lemma parse_zeros: "parse_digits 0 (replicate m CHR ''0'' @ s) = parse_digits 0 s"
  by (induction m) (simp_all add: char_digit_def)

lemma zero_pad_value: "parse_digits 0 (zero_pad w n) = Some n"
  by (simp add: zero_pad_def Let_def parse_zeros parse_digits_format_nat)

lemma code_below: "unat ((c :: 32 word) mod otp_modulus) < 1000000"
proof -
  have "unat (c mod otp_modulus) = unat c mod unat otp_modulus" by (rule unat_mod_distrib)
  also have "\<dots> < unat otp_modulus" by (simp add: otp_modulus_value)
  finally show ?thesis by (simp add: otp_modulus_value)
qed

lemma hotp_total:
  assumes "sha1_sized mac"
  shows "\<exists>s. hotp mac key c = Some s \<and> length s = 6"
proof -
  have "length (mac key (rev (putU64 c))) = 20" using assms by (simp add: sha1_sized_def)
  then obtain code where "truncated (mac key (rev (putU64 c))) = Some code" using truncated_total by blast
  then show ?thesis
    using zero_pad_length [of "unat (code mod otp_modulus)" 6] code_below [of code]
    by (simp add: hotp_def totpDigits_def)
qed

section \<open>The acceptance window\<close>

text \<open>Times that \<open>uint64\<close> represents, with a step to spare on either side.\<close>

definition sane_time :: "int \<Rightarrow> bool" where
  "sane_time t \<longleftrightarrow> 60 * 10 ^ 9 \<le> t \<and> t < 10 ^ 9 * (2 ^ 63 - 60)"

lemma unix_shift: "unix_of (t + k * totpPeriod) = unix_of t + 30 * k"
proof -
  have "t + k * totpPeriod = t + (30 * k) * 10 ^ 9" by (simp add: totpPeriod_def)
  then show ?thesis unfolding unix_of_def by (metis add.commute div_mult_self1 power_eq_0_iff zero_neq_numeral)
qed

lemma unix_bounds: "sane_time t \<Longrightarrow> 60 \<le> unix_of t \<and> unix_of t < 2 ^ 63 - 60"
proof
  assume t: "sane_time t"
  then have "60 * 10 ^ 9 div 10 ^ 9 \<le> t div (10 ^ 9 :: int)" by (intro zdiv_mono1) (auto simp: sane_time_def)
  then show "60 \<le> unix_of t" by (simp add: unix_of_def)
  have "t = 1000000000 * (t div 1000000000) + t mod 1000000000" "0 \<le> t mod 1000000000" by simp_all
  moreover have "t < 1000000000 * (2 ^ 63 - 60)" using t by (simp add: sane_time_def)
  ultimately have "1000000000 * (t div 1000000000) < 1000000000 * (2 ^ 63 - 60 :: int)" by linarith
  then have "t div 1000000000 < 2 ^ 63 - 60" by (rule mult_left_less_imp_less) simp
  then show "unix_of t < 2 ^ 63 - 60" by (simp add: unix_of_def)
qed

lemma counter_value: "0 \<le> unix_of t \<Longrightarrow> unix_of t < 2 ^ 63 \<Longrightarrow> uint (counter_at t) = unix_of t div 30"
proof -
  assume "0 \<le> unix_of t" "unix_of t < 2 ^ 63"
  then have "uint (word_of_int (unix_of t) :: 64 word) = unix_of t"
    by (simp add: uint_word_of_int take_bit_int_eq_self)
  then show ?thesis by (simp add: counter_at_def uint_div)
qed

lemma counter_shift:
  assumes "sane_time t" "k \<in> {-1, 0, 1}"
  shows "uint (counter_at (t + k * totpPeriod)) = unix_of t div 30 + k"
proof -
  have u: "unix_of (t + k * totpPeriod) = unix_of t + 30 * k" by (rule unix_shift)
  have "uint (counter_at (t + k * totpPeriod)) = unix_of (t + k * totpPeriod) div 30"
    by (rule counter_value) (use assms unix_bounds [OF assms(1)] u in auto)
  also have "\<dots> = unix_of t div 30 + k" unfolding u by simp
  finally show ?thesis .
qed

lemma totpAt_code:
  assumes "sha1_sized mac" "decodeSecret b32 secret = Some key"
  shows "\<exists>c. totpAt b32 mac secret t = TotpCode c \<and> hotp mac key (counter_at t) = Some c"
  using hotp_total [OF assms(1), of key "counter_at t"] assms(2) by (auto simp: totpAt_def)

lemma otp_digits:
  assumes "sha1_sized mac"
  shows "\<exists>s. hotp mac key c = Some s \<and> length s = 6 \<and> (\<forall>x \<in> set s. \<exists>d < 10. x = digit_char d)"
  using hotp_total [OF assms, of key c] zero_pad_digits by (auto simp: hotp_def split: option.splits)

lemma digits_trim: "\<forall>y \<in> set c. \<exists>d < 10. y = digit_char d \<Longrightarrow> trim_space c = c"
proof -
  assume c: "\<forall>y \<in> set c. \<exists>d < 10. y = digit_char d"
  have nospace: "\<not> is_space y" if y: "y \<in> set c" for y
  proof -
    obtain d where d: "d < 10" "y = digit_char d" using bspec [OF c y] by blast
    have "y \<noteq> CHR '' ''" unfolding d(2) by (rule digit_char_neq [OF d(1)]) simp
    moreover have "\<not> (of_char y :: nat) \<le> 13" unfolding d(2) of_char_digit_char [OF d(1)] by simp
    ultimately show ?thesis unfolding is_space_def by blast
  qed
  show ?thesis unfolding trim_space_fixed using nospace by (cases "c = []") auto
qed

lemma try_steps_iff:
  assumes "sha1_sized mac" "decodeSecret b32 secret = Some key"
  shows "try_steps b32 mac secret c now ks = Some (\<exists>k \<in> set ks. hotp mac key (counter_at (now + k * totpPeriod)) = Some c)"
proof (induction ks)
  case (Cons k ks)
  obtain d where "totpAt b32 mac secret (now + k * totpPeriod) = TotpCode d"
    "hotp mac key (counter_at (now + k * totpPeriod)) = Some d"
    using totpAt_code [OF assms] by blast
  then show ?case using Cons by auto
qed simp

text \<open>The code of a counter given as an integer.\<close>

definition code_of_step :: "(bytes \<Rightarrow> bytes \<Rightarrow> bytes) \<Rightarrow> bytes \<Rightarrow> int \<Rightarrow> string option" where
  "code_of_step mac key n = hotp mac key (word_of_int n)"

lemma hotp_counter_at:
  assumes "sane_time t" "k \<in> {-1, 0, 1}"
  shows "hotp mac key (counter_at (t + k * totpPeriod)) = code_of_step mac key (unix_of t div 30 + k)"
proof -
  have "counter_at (t + k * totpPeriod) = word_of_int (uint (counter_at (t + k * totpPeriod)))" by simp
  also have "\<dots> = word_of_int (unix_of t div 30 + k)" unfolding counter_shift [OF assms] ..
  finally show ?thesis by (simp add: code_of_step_def)
qed

lemma ValidateTOTP_iff:
  assumes "sha1_sized mac" "decodeSecret b32 secret = Some key" "sane_time now"
  shows "ValidateTOTP b32 mac secret code now = Some (length (trim_space code) = 6 \<and>
    (\<exists>k \<in> {-1, 0, 1}. code_of_step mac key (unix_of now div 30 + k) = Some (trim_space code)))"
  using try_steps_iff [OF assms(1,2), of "trim_space code" now "[-1, 0, 1]"] hotp_counter_at [OF assms(3), of _ mac key]
  by (simp add: ValidateTOTP_def Let_def totpDigits_def)

lemma step_distance:
  assumes "\<bar>now - t\<bar> \<le> totpPeriod"
  shows "\<bar>unix_of now div 30 - unix_of t div 30\<bar> \<le> 1"
proof -
  have eq: "unix_of x div 30 = x div totpPeriod" for x
    by (simp add: unix_of_def totpPeriod_def zdiv_zmult2_eq [symmetric])
  have mono: "b div totpPeriod \<le> a div totpPeriod + 1" if "b \<le> a + totpPeriod" for a b
  proof -
    have "b div totpPeriod \<le> (a + 1 * totpPeriod) div totpPeriod"
      using that by (intro zdiv_mono1) (auto simp: totpPeriod_def)
    also have "\<dots> = a div totpPeriod + 1" by (subst div_mult_self1) (auto simp: totpPeriod_def)
    finally show ?thesis .
  qed
  show ?thesis unfolding eq using mono [of now t] mono [of t now] assms by (simp add: abs_le_iff)
qed

section \<open>Properties\<close>

text \<open>A code is always six decimal digits and reads back as the truncated authentication code
  modulo one million: the dynamic offset never leaves the twenty bytes of the digest, so computing
  a code cannot fail.\<close>

theorem otp_is_six_digits:
  assumes "sha1_sized mac"
  shows "\<exists>s c. hotp mac key counter = Some s \<and> length s = 6 \<and> (\<forall>x \<in> set s. \<exists>d < 10. x = digit_char d)
    \<and> truncated (mac key (rev (putU64 counter))) = Some c \<and> parse_digits 0 s = Some (unat (c mod 1000000))"
proof -
  obtain c where c: "truncated (mac key (rev (putU64 counter))) = Some c"
    using truncated_total assms unfolding sha1_sized_def by blast
  then have "hotp mac key counter = Some (zero_pad 6 (unat (c mod otp_modulus)))"
    by (simp add: hotp_def totpDigits_def)
  moreover have "length (zero_pad 6 (unat (c mod otp_modulus))) = 6"
    using zero_pad_length [of "unat (c mod otp_modulus)" 6] code_below [of c] by simp
  moreover have "parse_digits 0 (zero_pad 6 (unat (c mod otp_modulus))) = Some (unat (c mod 1000000))"
    unfolding otp_modulus_value by (rule zero_pad_value)
  ultimately show ?thesis using c zero_pad_digits by blast
qed

text \<open>A code function of the right size.\<close>

definition toy_mac :: "bytes \<Rightarrow> bytes \<Rightarrow> bytes" where
  "toy_mac k m = take 20 (k @ m @ replicate 20 7)"

lemma toy_mac_sized: "sha1_sized toy_mac"
  by (auto simp: sha1_sized_def toy_mac_def min_def)

theorem otp_is_six_digits_witness:
  "\<exists>s c. hotp toy_mac [1, 2] 5 = Some s \<and> length s = 6 \<and> (\<forall>x \<in> set s. \<exists>d < 10. x = digit_char d)
    \<and> truncated (toy_mac [1, 2] (rev (putU64 5))) = Some c \<and> parse_digits 0 s = Some (unat (c mod 1000000))"
  by (rule otp_is_six_digits [OF toy_mac_sized])

text \<open>A one-time password is accepted exactly in its time step and the two next to it. With a
  well-formed secret, validation succeeds if and only if the trimmed code has six characters and is
  the code of the current thirty-second step, the one before or the one after; in particular the
  code that a device shows at some time is accepted by a server whose clock is within thirty seconds
  of it.\<close>

theorem totp_accepted_in_window:
  assumes "sha1_sized mac" "decodeSecret b32 secret = Some key" "sane_time now"
  shows "ValidateTOTP b32 mac secret code now = Some (length (trim_space code) = 6 \<and>
      (\<exists>k \<in> {-1, 0, 1}. code_of_step mac key (unix_of now div 30 + k) = Some (trim_space code)))
    \<and> (\<forall>t. sane_time t \<longrightarrow> \<bar>now - t\<bar> \<le> totpPeriod \<longrightarrow>
        (\<exists>c. totpAt b32 mac secret t = TotpCode c \<and> ValidateTOTP b32 mac secret c now = Some True))"
proof (intro conjI allI impI)
  show "ValidateTOTP b32 mac secret code now = Some (length (trim_space code) = 6 \<and>
      (\<exists>k \<in> {-1, 0, 1}. code_of_step mac key (unix_of now div 30 + k) = Some (trim_space code)))"
    by (rule ValidateTOTP_iff [OF assms])
  fix t assume t: "sane_time t" "\<bar>now - t\<bar> \<le> totpPeriod"
  obtain c where c: "totpAt b32 mac secret t = TotpCode c" "hotp mac key (counter_at t) = Some c"
    using totpAt_code [OF assms(1,2)] by blast
  obtain x where x: "hotp mac key (counter_at t) = Some c" "length c = 6" "\<forall>y \<in> set c. \<exists>d < 10. y = digit_char d"
    using otp_digits [OF assms(1), of key "counter_at t"] c(2) by auto
  have trim: "trim_space c = c" by (rule digits_trim [OF x(3)])
  have "code_of_step mac key (unix_of t div 30) = Some c"
    using hotp_counter_at [OF t(1), of 0 mac key] c(2) by simp
  moreover have "\<exists>k \<in> {-1, 0, 1 :: int}. unix_of now div 30 + k = unix_of t div 30"
    using step_distance [OF t(2)] by (auto simp: abs_le_iff)
  ultimately have "\<exists>k \<in> {-1, 0, 1}. code_of_step mac key (unix_of now div 30 + k) = Some c" by metis
  then show "\<exists>c. totpAt b32 mac secret t = TotpCode c \<and> ValidateTOTP b32 mac secret c now = Some True"
    using c(1) x(2) trim ValidateTOTP_iff [OF assms, of c] by auto
qed

theorem totp_accepted_in_window_witness:
  "\<exists>c. totpAt (\<lambda>_. Some [1, 2]) toy_mac ''ABC'' (100 * 10 ^ 9) = TotpCode c
    \<and> ValidateTOTP (\<lambda>_. Some [1, 2]) toy_mac ''ABC'' c (125 * 10 ^ 9) = Some True"
proof -
  have key: "decodeSecret (\<lambda>_. Some [1, 2]) ''ABC'' = Some [1, 2]" by (simp add: decodeSecret_def)
  have now: "sane_time (125 * 10 ^ 9)" "sane_time (100 * 10 ^ 9)" by (simp_all add: sane_time_def)
  show ?thesis
    by (rule totp_accepted_in_window [OF toy_mac_sized key now(1), THEN conjunct2, rule_format, OF now(2)])
      (simp add: totpPeriod_def)
qed

end
