(* ===== verification/Sessions.thy ===== *)
theory Sessions
  imports Prelude
begin

text \<open>
  Revocable sessions, \<open>src/gateway-service/internal/auth/sessions.go\<close>: the table of sessions, each
  gateway replica's cache of revoked identifiers with its refresh, and the handlers that list and
  revoke. Times are nanoseconds. Whether a database call fails is an argument. The interleaving of
  replicas, requests and refreshes is a step relation: the lock is not held while the table is read,
  so a refresh is two steps.
\<close>

section \<open>The table\<close>

definition sessionTokenTTL :: int where "sessionTokenTTL = 24 * 3600 * 10 ^ 9"
definition sessionCacheTTL :: int where "sessionCacheTTL = 30 * 10 ^ 9"
definition revokedRetention :: int where "revokedRetention = sessionTokenTTL + 3600 * 10 ^ 9"

record session_row =
  se_id :: string
  se_username :: string
  se_tenant :: string
  se_agent :: string
  se_ip :: string
  se_created :: int
  se_revoked :: "int option"

definition truncate_str :: "string \<Rightarrow> nat \<Rightarrow> string" where
  "truncate_str s n = (if length s > n then take n s else s)"

text \<open>\<open>createSession\<close> with the fresh identifier it drew: the identifier is returned even when the row
  could not be written.\<close>

definition createSession ::
  "bool \<Rightarrow> bool \<Rightarrow> int \<Rightarrow> string \<Rightarrow> string \<Rightarrow> string \<Rightarrow> string \<Rightarrow> string \<Rightarrow> session_row list \<Rightarrow> string \<times> session_row list" where
  "createSession has_db insert_ok now jti username tenantID userAgent ip rows =
     (jti, if \<not> has_db \<or> \<not> insert_ok then rows
           else rows @ [\<lparr>se_id = jti, se_username = username, se_tenant = tenantID,
                         se_agent = truncate_str userAgent 512, se_ip = truncate_str ip 64,
                         se_created = now, se_revoked = None\<rparr>])"

text \<open>\<open>UPDATE ... SET revoked_at = now() WHERE P AND revoked_at IS NULL RETURNING id\<close>.\<close>

definition revoke_where :: "(session_row \<Rightarrow> bool) \<Rightarrow> int \<Rightarrow> session_row list \<Rightarrow> session_row list" where
  "revoke_where P now rows = map (\<lambda>r. if P r \<and> se_revoked r = None then r\<lparr>se_revoked := Some now\<rparr> else r) rows"

definition returned_ids :: "(session_row \<Rightarrow> bool) \<Rightarrow> session_row list \<Rightarrow> string list" where
  "returned_ids P rows = map se_id (filter (\<lambda>r. P r \<and> se_revoked r = None) rows)"

section \<open>SessionStore\<close>

record SessionStore =
  ss_revoked :: "string list"
  ss_lastRefresh :: int

definition zero_instant :: int where "zero_instant = - 62135596800 * 10 ^ 9"

text \<open>The query of \<open>refresh\<close> at the time it runs.\<close>

definition revoked_ids :: "int \<Rightarrow> session_row list \<Rightarrow> string list" where
  "revoked_ids now rows =
     map se_id (filter (\<lambda>r. case se_revoked r of None \<Rightarrow> False | Some t \<Rightarrow> t > now - revokedRetention) rows)"

text \<open>\<open>refresh\<close> with the result of its query (\<open>None\<close> when it failed or there is no database) and the
  time at which it takes the lock.\<close>

definition ss_refresh :: "string list option \<Rightarrow> int \<Rightarrow> SessionStore \<Rightarrow> SessionStore" where
  "ss_refresh result now st = (case result of
     None \<Rightarrow> st | Some ids \<Rightarrow> \<lparr>ss_revoked = ids, ss_lastRefresh = now\<rparr>)"

definition NewSessionStore :: "string list option \<Rightarrow> int \<Rightarrow> SessionStore" where
  "NewSessionStore result now = ss_refresh result now \<lparr>ss_revoked = [], ss_lastRefresh = zero_instant\<rparr>"

definition ss_refreshIfStale :: "string list option \<Rightarrow> int \<Rightarrow> SessionStore \<Rightarrow> SessionStore" where
  "ss_refreshIfStale result now st =
     (if now - ss_lastRefresh st > sessionCacheTTL then ss_refresh result now st else st)"

definition IsRevoked :: "string list option \<Rightarrow> int \<Rightarrow> string \<Rightarrow> SessionStore \<Rightarrow> bool \<times> SessionStore" where
  "IsRevoked result now jti st =
     (if jti = [] then (False, st)
      else let st1 = ss_refreshIfStale result now st in (jti \<in> set (ss_revoked st1), st1))"

definition markRevokedLocal :: "string list \<Rightarrow> SessionStore \<Rightarrow> SessionStore" where
  "markRevokedLocal jtis st = foldl (\<lambda>s j. if j \<noteq> [] then s\<lparr>ss_revoked := List.insert j (ss_revoked s)\<rparr> else s) st jtis"

definition RevokeAllForUser ::
  "bool \<Rightarrow> int \<Rightarrow> string \<Rightarrow> session_row list \<times> SessionStore \<Rightarrow> bool \<times> session_row list \<times> SessionStore" where
  "RevokeAllForUser update_ok now username s = (case s of (rows, st) \<Rightarrow>
     if \<not> update_ok then (False, rows, st)
     else let P = (\<lambda>r. se_username r = username)
          in (True, revoke_where P now rows, markRevokedLocal (returned_ids P rows) st))"

definition RevokeOthersForUser ::
  "bool \<Rightarrow> int \<Rightarrow> string \<Rightarrow> string \<Rightarrow> session_row list \<times> SessionStore \<Rightarrow> bool \<times> session_row list \<times> SessionStore" where
  "RevokeOthersForUser update_ok now username exceptJTI s = (case s of (rows, st) \<Rightarrow>
     if \<not> update_ok then (False, rows, st)
     else let P = (\<lambda>r. se_username r = username \<and> se_id r \<noteq> exceptJTI)
          in (True, revoke_where P now rows, markRevokedLocal (returned_ids P rows) st))"

section \<open>Handlers\<close>

record sessionInfo =
  si_ID :: string
  si_UserAgent :: string
  si_IP :: string
  si_CreatedAt :: int
  si_Current :: bool

text \<open>\<open>List\<close>: status and the rows, newest first, at most a hundred. The order of rows created at the
  same time is the database's; it is the table's here.\<close>

definition sh_List :: "bool \<Rightarrow> string \<Rightarrow> string \<Rightarrow> session_row list \<Rightarrow> int \<times> sessionInfo list" where
  "sh_List query_ok user current rows =
     (if user = [] then (401, [])
      else if \<not> query_ok then (500, [])
      else (200, map (\<lambda>r. \<lparr>si_ID = se_id r, si_UserAgent = se_agent r, si_IP = se_ip r,
                           si_CreatedAt = se_created r, si_Current = (se_id r = current)\<rparr>)
              (take 100 (rev (sort_key se_created (filter (\<lambda>r. se_username r = user \<and> se_revoked r = None) rows))))))"

definition sh_Revoke ::
  "bool \<Rightarrow> int \<Rightarrow> string \<Rightarrow> string \<Rightarrow> session_row list \<times> SessionStore \<Rightarrow> int \<times> session_row list \<times> SessionStore" where
  "sh_Revoke update_ok now user sid s = (case s of (rows, st) \<Rightarrow>
     if user = [] then (401, rows, st)
     else if \<not> update_ok then (500, rows, st)
     else let P = (\<lambda>r. se_id r = sid \<and> se_username r = user)
          in if returned_ids P rows = [] then (404, rows, st)
             else (200, revoke_where P now rows, markRevokedLocal [sid] st))"

definition sh_RevokeOthers ::
  "bool \<Rightarrow> int \<Rightarrow> string \<Rightarrow> string \<Rightarrow> session_row list \<times> SessionStore \<Rightarrow> int \<times> nat \<times> session_row list \<times> SessionStore" where
  "sh_RevokeOthers update_ok now user current s = (case s of (rows, st) \<Rightarrow>
     if user = [] then (401, 0, rows, st)
     else if \<not> update_ok then (500, 0, rows, st)
     else let P = (\<lambda>r. se_username r = user \<and> se_id r \<noteq> current); ids = returned_ids P rows
          in (200, length ids, revoke_where P now rows, markRevokedLocal ids st))"

section \<open>Replicas\<close>

text \<open>A replica's cache and its refreshes in progress: the time of each query and its result.\<close>

record replica =
  rp_store :: SessionStore
  rp_pending :: "(int \<times> string list) list"

record sess_sys =
  sy_now :: int
  sy_rows :: "session_row list"
  sy_reps :: "nat \<Rightarrow> replica"

text \<open>\<open>D\<close> bounds the time between the query of a refresh and the moment it takes the lock. A
  revocation is the update of the table and, as a step of its own, the marking in the cache of the
  replica that made it.\<close>

inductive sess_step :: "int \<Rightarrow> sess_sys \<Rightarrow> sess_sys \<Rightarrow> bool" for D :: int where
  tick: "sy_now s \<le> n \<Longrightarrow> sess_step D s (s\<lparr>sy_now := n\<rparr>)"
| create: "se_revoked r = None \<Longrightarrow> sess_step D s (s\<lparr>sy_rows := sy_rows s @ [r]\<rparr>)"
| update: "sess_step D s (s\<lparr>sy_rows := revoke_where P (sy_now s) (sy_rows s)\<rparr>)"
| mark: "sess_step D s (s\<lparr>sy_reps := (sy_reps s)(i := (sy_reps s i)\<lparr>rp_store := markRevokedLocal ids (rp_store (sy_reps s i))\<rparr>)\<rparr>)"
| query: "sess_step D s (s\<lparr>sy_reps := (sy_reps s)(i := (sy_reps s i)
      \<lparr>rp_pending := (sy_now s, revoked_ids (sy_now s) (sy_rows s)) # rp_pending (sy_reps s i)\<rparr>)\<rparr>)"
| swap: "(q, ids) \<in> set (rp_pending (sy_reps s i)) \<Longrightarrow> sy_now s - q \<le> D \<Longrightarrow>
    sess_step D s (s\<lparr>sy_reps := (sy_reps s)(i := (sy_reps s i)
      \<lparr>rp_store := ss_refresh (Some ids) (sy_now s) (rp_store (sy_reps s i)),
       rp_pending := remove1 (q, ids) (rp_pending (sy_reps s i))\<rparr>)\<rparr>)"
| failed: "sess_step D s (s\<lparr>sy_reps := (sy_reps s)(i := (sy_reps s i)
      \<lparr>rp_pending := remove1 p (rp_pending (sy_reps s i))\<rparr>)\<rparr>)"

inductive sess_reach :: "int \<Rightarrow> sess_sys \<Rightarrow> bool" for D :: int where
  start: "0 \<le> now \<Longrightarrow> sess_reach D \<lparr>sy_now = now, sy_rows = [],
      sy_reps = (\<lambda>_. \<lparr>rp_store = NewSessionStore None now, rp_pending = []\<rparr>)\<rparr>"
| step: "sess_reach D s \<Longrightarrow> sess_step D s s1 \<Longrightarrow> sess_reach D s1"

text \<open>A list of identifiers covers the revocations before a time, as far back as they are kept.\<close>

definition covers :: "session_row list \<Rightarrow> int \<Rightarrow> string list \<Rightarrow> bool" where
  "covers rows q ids \<longleftrightarrow> (\<forall>r \<in> set rows. \<forall>t. se_revoked r = Some t \<longrightarrow> t < q \<longrightarrow> q - revokedRetention < t \<longrightarrow> se_id r \<in> set ids)"

definition replica_ok :: "int \<Rightarrow> int \<Rightarrow> session_row list \<Rightarrow> replica \<Rightarrow> bool" where
  "replica_ok D now rows rp \<longleftrightarrow>
     (\<forall>(q, ids) \<in> set (rp_pending rp). q \<le> now \<and> covers rows q ids)
     \<and> (ss_lastRefresh (rp_store rp) = zero_instant \<or>
        (\<exists>q. q \<le> ss_lastRefresh (rp_store rp) \<and> ss_lastRefresh (rp_store rp) - q \<le> D
           \<and> ss_lastRefresh (rp_store rp) \<le> now \<and> covers rows q (ss_revoked (rp_store rp))))"

definition sess_inv :: "int \<Rightarrow> sess_sys \<Rightarrow> bool" where
  "sess_inv D s \<longleftrightarrow> 0 \<le> sy_now s \<and> (\<forall>r \<in> set (sy_rows s). \<forall>t. se_revoked r = Some t \<longrightarrow> t \<le> sy_now s)
     \<and> (\<forall>i. replica_ok D (sy_now s) (sy_rows s) (sy_reps s i))"

section \<open>The caches cover what the table says\<close>

lemma mark_set: "set (ss_revoked (markRevokedLocal ids st)) = set (ss_revoked st) \<union> {j \<in> set ids. j \<noteq> []}"
proof (induction ids arbitrary: st)
  case (Cons j ids)
  show ?case
    using Cons [of "if j \<noteq> [] then st\<lparr>ss_revoked := List.insert j (ss_revoked st)\<rparr> else st"]
    by (auto simp: markRevokedLocal_def)
qed (simp add: markRevokedLocal_def)

lemma mark_last: "ss_lastRefresh (markRevokedLocal ids st) = ss_lastRefresh st"
proof (induction ids arbitrary: st)
  case (Cons j ids)
  show ?case
    using Cons [of "if j \<noteq> [] then st\<lparr>ss_revoked := List.insert j (ss_revoked st)\<rparr> else st"]
    by (auto simp: markRevokedLocal_def)
qed (simp add: markRevokedLocal_def)

lemma covers_mono: "covers rows q ids \<Longrightarrow> set ids \<subseteq> set js \<Longrightarrow> covers rows q js"
  unfolding covers_def by blast

lemma covers_create: "covers rows q ids \<Longrightarrow> se_revoked r = None \<Longrightarrow> covers (rows @ [r]) q ids"
  unfolding covers_def by auto

lemma covers_update:
  assumes "covers rows q ids" "q \<le> now"
  shows "covers (revoke_where P now rows) q ids"
  unfolding covers_def
proof (intro ballI allI impI)
  fix r t assume r: "r \<in> set (revoke_where P now rows)" "se_revoked r = Some t" "t < q" "q - revokedRetention < t"
  then obtain r0 where r0: "r0 \<in> set rows" "r = (if P r0 \<and> se_revoked r0 = None then r0\<lparr>se_revoked := Some now\<rparr> else r0)"
    by (auto simp: revoke_where_def)
  then have "\<not> (P r0 \<and> se_revoked r0 = None)" using r(2,3) assms(2) by (auto split: if_splits)
  then have "r = r0" using r0(2) by simp
  then show "se_id r \<in> set ids" using assms(1) r r0(1) unfolding covers_def by blast
qed

lemma covers_query: "covers rows now (revoked_ids now rows)"
  unfolding covers_def revoked_ids_def by auto

lemma revoke_where_revoked:
  "r \<in> set (revoke_where P now rows) \<Longrightarrow> se_revoked r = Some t \<Longrightarrow> t = now \<or> (\<exists>r0 \<in> set rows. se_revoked r0 = Some t)"
  by (auto simp: revoke_where_def split: if_splits)

lemma replica_ok_later:
  assumes "replica_ok D now rows rp" "now \<le> n"
  shows "replica_ok D n rows rp"
  using assms unfolding replica_ok_def by (fastforce intro: order_trans)

lemma replica_ok_rows:
  assumes "replica_ok D now rows rp" "\<And>q ids. q \<le> now \<Longrightarrow> covers rows q ids \<Longrightarrow> covers rows1 q ids"
  shows "replica_ok D now rows1 rp"
  using assms unfolding replica_ok_def by (fastforce intro: order_trans)

lemma replica_ok_mark:
  assumes "replica_ok D now rows rp"
  shows "replica_ok D now rows (rp\<lparr>rp_store := markRevokedLocal ids (rp_store rp)\<rparr>)"
  using assms unfolding replica_ok_def
  by (auto simp: mark_last intro!: covers_mono [where ids = "ss_revoked (rp_store rp)"] simp: mark_set)

lemma replica_ok_query:
  assumes "replica_ok D now rows rp"
  shows "replica_ok D now rows (rp\<lparr>rp_pending := (now, revoked_ids now rows) # rp_pending rp\<rparr>)"
  using assms covers_query [of rows now] unfolding replica_ok_def by auto

lemma replica_ok_drop:
  assumes "replica_ok D now rows rp"
  shows "replica_ok D now rows (rp\<lparr>rp_pending := remove1 p (rp_pending rp)\<rparr>)"
  using assms set_remove1_subset [of p "rp_pending rp"] unfolding replica_ok_def by auto

lemma replica_ok_swap:
  assumes "replica_ok D now rows rp" "(q, ids) \<in> set (rp_pending rp)" "now - q \<le> D"
  shows "replica_ok D now rows (rp\<lparr>rp_store := ss_refresh (Some ids) now (rp_store rp),
      rp_pending := remove1 (q, ids) (rp_pending rp)\<rparr>)"
proof -
  have "q \<le> now" "covers rows q ids" using assms(1,2) unfolding replica_ok_def by auto
  then have "\<exists>q. q \<le> now \<and> now - q \<le> D \<and> now \<le> now \<and> covers rows q ids" using assms(3) by blast
  then show ?thesis
    using assms(1) set_remove1_subset [of "(q, ids)" "rp_pending rp"] unfolding replica_ok_def
    by (auto simp: ss_refresh_def)
qed

lemma sess_invD: "sess_inv D s \<Longrightarrow> replica_ok D (sy_now s) (sy_rows s) (sy_reps s i)"
  by (simp add: sess_inv_def)

lemma sess_inv_replica:
  "sess_inv D s \<Longrightarrow> replica_ok D (sy_now s) (sy_rows s) rp \<Longrightarrow> sess_inv D (s\<lparr>sy_reps := (sy_reps s)(i := rp)\<rparr>)"
  by (simp add: sess_inv_def)

lemma sess_inv_tick:
  assumes "sess_inv D s" "sy_now s \<le> n"
  shows "sess_inv D (s\<lparr>sy_now := n\<rparr>)"
  using assms replica_ok_later [OF sess_invD [OF assms(1)] assms(2)] unfolding sess_inv_def by fastforce

lemma sess_inv_rows:
  assumes "sess_inv D s" "\<forall>r \<in> set rows1. \<forall>t. se_revoked r = Some t \<longrightarrow> t \<le> sy_now s"
    "\<And>q ids. q \<le> sy_now s \<Longrightarrow> covers (sy_rows s) q ids \<Longrightarrow> covers rows1 q ids"
  shows "sess_inv D (s\<lparr>sy_rows := rows1\<rparr>)"
  using assms(1,2) replica_ok_rows [OF sess_invD [OF assms(1)] assms(3)] unfolding sess_inv_def by simp

lemma sess_inv_step:
  assumes "sess_step D s s1" "sess_inv D s"
  shows "sess_inv D s1"
  using assms
proof (induction rule: sess_step.induct)
  case (tick s n)
  then show ?case by (simp add: sess_inv_tick)
next
  case (create r s)
  show ?case
  proof (rule sess_inv_rows [OF create.prems])
    show "\<forall>x \<in> set (sy_rows s @ [r]). \<forall>t. se_revoked x = Some t \<longrightarrow> t \<le> sy_now s"
      using create by (auto simp: sess_inv_def)
  qed (rule covers_create [OF _ create.hyps])
next
  case (update s P)
  show ?case
  proof (rule sess_inv_rows [OF update])
    show "\<forall>r \<in> set (revoke_where P (sy_now s) (sy_rows s)). \<forall>t. se_revoked r = Some t \<longrightarrow> t \<le> sy_now s"
      using update revoke_where_revoked unfolding sess_inv_def by fastforce
  qed (rule covers_update)
next
  case (mark s i ids)
  show ?case by (rule sess_inv_replica [OF mark replica_ok_mark [OF sess_invD [OF mark]]])
next
  case (query s i)
  show ?case by (rule sess_inv_replica [OF query replica_ok_query [OF sess_invD [OF query]]])
next
  case (swap q ids s i)
  show ?case by (rule sess_inv_replica [OF swap.prems replica_ok_swap [OF sess_invD [OF swap.prems] swap.hyps]])
next
  case (failed s i p)
  show ?case by (rule sess_inv_replica [OF failed replica_ok_drop [OF sess_invD [OF failed]]])
qed

lemma sess_reach_inv: "sess_reach D s \<Longrightarrow> sess_inv D s"
proof (induction rule: sess_reach.induct)
  case (start now)
  then show ?case by (simp add: sess_inv_def replica_ok_def NewSessionStore_def ss_refresh_def)
next
  case (step s s1)
  then show ?case by (simp add: sess_inv_step)
qed

text \<open>What a replica answers once the staleness bound has passed.\<close>

lemma IsRevoked_covered:
  assumes "replica_ok D now rows rp" "r \<in> set rows" "se_revoked r = Some t" "se_id r \<noteq> []" "0 \<le> now"
    "t + sessionCacheTTL + D < now" "now < t + revokedRetention"
  shows "fst (IsRevoked (Some (revoked_ids now rows)) now (se_id r) (rp_store rp))"
proof (cases "now - ss_lastRefresh (rp_store rp) > sessionCacheTTL")
  case True
  have "se_id r \<in> set (revoked_ids now rows)" using assms(2,3,7) by (force simp: revoked_ids_def)
  then show ?thesis using True assms(4) by (simp add: IsRevoked_def ss_refreshIfStale_def ss_refresh_def)
next
  case False
  then have "ss_lastRefresh (rp_store rp) \<noteq> zero_instant"
    using assms(5) by (auto simp: zero_instant_def sessionCacheTTL_def)
  then obtain q where q: "q \<le> ss_lastRefresh (rp_store rp)" "ss_lastRefresh (rp_store rp) - q \<le> D"
    "ss_lastRefresh (rp_store rp) \<le> now" "covers rows q (ss_revoked (rp_store rp))"
    using assms(1) unfolding replica_ok_def by blast
  have "t < q" "q - revokedRetention < t" using False q(1-3) assms(6,7) by linarith+
  then have "se_id r \<in> set (ss_revoked (rp_store rp))" using q(4) assms(2,3) unfolding covers_def by blast
  then show ?thesis using False assms(4) by (simp add: IsRevoked_def ss_refreshIfStale_def)
qed

section \<open>Properties\<close>

text \<open>C10: A revoked session is refused everywhere within the staleness bound. In every reachable
  state of the table and the replicas, whatever the interleaving of sign-ins, revocations and
  refreshes, a replica that can read the table answers that a session is revoked from thirty seconds
  (plus the longest time \<open>D\<close> that a refresh takes) after its revocation until an hour after any
  token for it has expired.\<close>

theorem revocation_takes_effect:
  assumes "sess_reach D s" "r \<in> set (sy_rows s)" "se_revoked r = Some t" "se_id r \<noteq> []"
    "t + sessionCacheTTL + D < sy_now s" "sy_now s < t + sessionTokenTTL + 3600 * 10 ^ 9"
  shows "fst (IsRevoked (Some (revoked_ids (sy_now s) (sy_rows s))) (sy_now s) (se_id r) (rp_store (sy_reps s i)))"
proof (rule IsRevoked_covered [OF _ assms(2-4) _ assms(5)])
  show "replica_ok D (sy_now s) (sy_rows s) (sy_reps s i)" "0 \<le> sy_now s"
    using sess_reach_inv [OF assms(1)] by (auto simp: sess_inv_def)
  show "sy_now s < t + revokedRetention" using assms(6) by (simp add: revokedRetention_def)
qed

definition demo_row :: session_row where
  "demo_row = \<lparr>se_id = ''j'', se_username = ''u'', se_tenant = ''t'', se_agent = [], se_ip = [], se_created = 0, se_revoked = None\<rparr>"

theorem revocation_takes_effect_witness:
  "fst (IsRevoked (Some (revoked_ids (60 * 10 ^ 9) [demo_row\<lparr>se_revoked := Some 0\<rparr>])) (60 * 10 ^ 9) ''j''
     (NewSessionStore None 0))"
proof -
  let ?s0 = "\<lparr>sy_now = 0, sy_rows = [], sy_reps = (\<lambda>_. \<lparr>rp_store = NewSessionStore None 0, rp_pending = []\<rparr>)\<rparr>"
  let ?s1 = "?s0\<lparr>sy_rows := [demo_row]\<rparr>"
  let ?s2 = "?s0\<lparr>sy_rows := [demo_row\<lparr>se_revoked := Some 0\<rparr>]\<rparr>"
  let ?s3 = "?s2\<lparr>sy_now := 60 * 10 ^ 9\<rparr>"
  have r0: "sess_reach 1 ?s0" by (rule sess_reach.start) simp
  have "sess_step 1 ?s0 (?s0\<lparr>sy_rows := sy_rows ?s0 @ [demo_row]\<rparr>)"
    by (rule sess_step.create) (simp add: demo_row_def)
  with r0 have r1: "sess_reach 1 ?s1" by (auto intro: sess_reach.step)
  have "sess_step 1 ?s1 (?s1\<lparr>sy_rows := revoke_where (\<lambda>_. True) (sy_now ?s1) (sy_rows ?s1)\<rparr>)"
    by (rule sess_step.update)
  with r1 have r2: "sess_reach 1 ?s2" by (auto intro: sess_reach.step simp: revoke_where_def demo_row_def)
  have "sess_step 1 ?s2 (?s2\<lparr>sy_now := 60 * 10 ^ 9\<rparr>)" by (rule sess_step.tick) simp
  with r2 have r3: "sess_reach 1 ?s3" by (auto intro: sess_reach.step)
  show ?thesis
    using revocation_takes_effect [OF r3, of "demo_row\<lparr>se_revoked := Some 0\<rparr>" 0 0]
    by (simp add: demo_row_def sessionCacheTTL_def sessionTokenTTL_def)
qed

text \<open>A refresh that is under way undoes a local revocation. When a replica has queried the table
  before a session is revoked through it and takes the lock afterwards, its cache no longer holds
  the session, and for the next thirty seconds the replica that revoked the session accepts it.\<close>

theorem refresh_undoes_local_revocation:
  assumes "r \<in> set rows" "se_id r = j" "j \<noteq> []" "se_username r = user" "user \<noteq> []"
    "\<forall>x \<in> set rows. se_id x = j \<longrightarrow> se_revoked x = None" "now \<le> swapped" "later - swapped \<le> sessionCacheTTL"
  shows "\<exists>rows1 st1. sh_Revoke True now user j (rows, st) = (200, rows1, st1) \<and> j \<in> set (ss_revoked st1)
     \<and> \<not> fst (IsRevoked (Some (revoked_ids later rows1)) later j (ss_refresh (Some (revoked_ids now rows)) swapped st1))"
proof -
  let ?P = "\<lambda>x. se_id x = j \<and> se_username x = user"
  have "j \<in> set (returned_ids ?P rows)" using assms(1,2,4,6) by (auto simp: returned_ids_def image_iff)
  then have "returned_ids ?P rows \<noteq> []" by auto
  then have rev: "sh_Revoke True now user j (rows, st) = (200, revoke_where ?P now rows, markRevokedLocal [j] st)"
    using assms(5) by (simp add: sh_Revoke_def Let_def)
  have local: "j \<in> set (ss_revoked (markRevokedLocal [j] st))" using assms(3) by (simp add: mark_set)
  have "j \<notin> set (revoked_ids now rows)" using assms(6) by (auto simp: revoked_ids_def)
  then have "\<not> fst (IsRevoked (Some (revoked_ids later (revoke_where ?P now rows))) later j
      (ss_refresh (Some (revoked_ids now rows)) swapped (markRevokedLocal [j] st)))"
    using assms(8) by (simp add: IsRevoked_def ss_refreshIfStale_def ss_refresh_def)
  with rev local show ?thesis by blast
qed

theorem refresh_undoes_local_revocation_witness:
  "\<exists>rows1 st1. sh_Revoke True 5 ''u'' ''j'' ([demo_row], NewSessionStore None 0) = (200, rows1, st1)
     \<and> ''j'' \<in> set (ss_revoked st1)
     \<and> \<not> fst (IsRevoked (Some (revoked_ids 7 rows1)) 7 ''j'' (ss_refresh (Some (revoked_ids 5 [demo_row])) 6 st1))"
  by (rule refresh_undoes_local_revocation [of demo_row]) (simp_all add: demo_row_def sessionCacheTTL_def)

end
