(* ===== verification/Ingestion_Keys.thy ===== *)
theory Ingestion_Keys
  imports Go_Strings
begin

text \<open>
  Ingestion keys, \<open>src/gateway-service/internal/auth/ingestion_keys.go\<close>: resolving a presented key
  to its tenant through a short-lived cache, and creating, revoking and rotating keys. SHA-256 with
  its hexadecimal rendering is an argument, as are the random key material, the identifiers that the
  database draws and whether a database call fails. Times are nanoseconds.
\<close>

section \<open>Data\<close>

definition ScopeIngest :: string where "ScopeIngest = ''ingest''"
definition ScopeRUM :: string where "ScopeRUM = ''rum''"
definition ingestKeyPrefix :: string where "ingestKeyPrefix = ''pt_ingest_''"
definition rumKeyPrefix :: string where "rumKeyPrefix = ''pt_rum_''"

definition prefixForScope :: "string \<Rightarrow> string" where
  "prefixForScope scope = (if scope = ScopeRUM then rumKeyPrefix else ingestKeyPrefix)"

definition ingestionKeyCacheTTL :: int where "ingestionKeyCacheTTL = 30 * 10 ^ 9"

text \<open>A row of \<open>ingestion_keys\<close>.\<close>

record key_row =
  ik_id :: string
  ik_name :: string
  ik_prefix :: string
  ik_hash :: string
  ik_tenant :: string
  ik_tier :: string
  ik_scope :: string
  ik_created :: int
  ik_last_used :: "int option"
  ik_revoked :: "int option"
  ik_replaced_by :: "string option"

record resolvedTenant =
  rt_tenantID :: string
  rt_tier :: string
  rt_scope :: string
  rt_ok :: bool
  rt_cachedAt :: int

text \<open>The cache of one gateway replica, by hash.\<close>

type_synonym key_cache = "(string, resolvedTenant) gomap"

section \<open>Resolving a key\<close>

text \<open>\<open>generateIngestionKey\<close> over the encoded random material, \<open>None\<close> when the source failed:
  plaintext, display prefix and hash.\<close>

definition generateIngestionKey :: "(string \<Rightarrow> string) \<Rightarrow> string option \<Rightarrow> string \<Rightarrow> (string \<times> string \<times> string) option" where
  "generateIngestionKey hashIngestionKey material scope = (case material of
     None \<Rightarrow> None
   | Some raw \<Rightarrow>
       (let humanPrefix = prefixForScope scope; plaintext = humanPrefix @ raw
        in Some (plaintext, take (length humanPrefix + 6) plaintext, hashIngestionKey plaintext)))"

text \<open>The condition \<open>revoked_at IS NULL OR revoked_at > now()\<close>.\<close>

definition live :: "int \<Rightarrow> key_row \<Rightarrow> bool" where
  "live now r = (case ik_revoked r of None \<Rightarrow> True | Some t \<Rightarrow> t > now)"

definition lookup_key :: "int \<Rightarrow> string \<Rightarrow> key_row list \<Rightarrow> key_row option" where
  "lookup_key now h rows = find (\<lambda>r. ik_hash r = h \<and> live now r) rows"

definition touchLastUsed :: "bool \<Rightarrow> int \<Rightarrow> string \<Rightarrow> key_row list \<Rightarrow> key_row list" where
  "touchLastUsed update_ok now h rows =
     (if update_ok then map (\<lambda>r. if ik_hash r = h then r\<lparr>ik_last_used := Some now\<rparr> else r) rows else rows)"

text \<open>\<open>Resolve\<close>: tenant, tier and scope, or \<open>None\<close> for a key that is refused, with the cache
  afterwards. \<open>read_ok\<close> says whether the query succeeds.\<close>

definition Resolve ::
  "(string \<Rightarrow> string) \<Rightarrow> bool \<Rightarrow> bool \<Rightarrow> int \<Rightarrow> key_row list \<Rightarrow> string \<Rightarrow> key_cache \<Rightarrow> (string \<times> string \<times> string) option \<times> key_cache" where
  "Resolve hashIngestionKey has_db read_ok now rows plaintext cache =
     (if plaintext = [] \<or> \<not> has_db then (None, cache)
      else
        (let h = hashIngestionKey plaintext;
             answer = (\<lambda>e. if rt_ok e then Some (rt_tenantID e, rt_tier e, rt_scope e) else None);
             fetch = (if \<not> read_ok then (None, cache)
               else let e = (case lookup_key now h rows of
                        Some r \<Rightarrow> \<lparr>rt_tenantID = ik_tenant r, rt_tier = ik_tier r, rt_scope = ik_scope r, rt_ok = True, rt_cachedAt = now\<rparr>
                      | None \<Rightarrow> \<lparr>rt_tenantID = [], rt_tier = [], rt_scope = [], rt_ok = False, rt_cachedAt = now\<rparr>)
                    in (answer e, AList.update h e cache))
         in case map_of cache h of
              Some e \<Rightarrow> if now - rt_cachedAt e < ingestionKeyCacheTTL then (answer e, cache) else fetch
            | None \<Rightarrow> fetch))"

definition invalidateCache :: "key_cache \<Rightarrow> key_cache" where
  "invalidateCache cache = []"

section \<open>Administration\<close>

record key_db =
  kd_rows :: "key_row list"
  kd_cache :: key_cache
  kd_audit :: "(string \<times> string \<times> string) list"

text \<open>What a call of a handler meets: the time, the key material, the identifier of an inserted row,
  the caller named in the audit trail, and which database calls succeed.\<close>

record key_call =
  kc_now :: int
  kc_material :: "string option"
  kc_new_id :: string
  kc_actor :: string
  kc_has_db :: bool
  kc_read_ok :: bool
  kc_write_ok :: bool

record key_request =
  kr_Name :: string
  kr_TenantID :: string
  kr_Tier :: string
  kr_Scope :: string

definition new_row :: "key_call \<Rightarrow> string \<Rightarrow> string \<Rightarrow> string \<Rightarrow> string \<Rightarrow> string \<Rightarrow> string \<Rightarrow> key_row" where
  "new_row c name prefix h tenant tier scope =
     \<lparr>ik_id = kc_new_id c, ik_name = name, ik_prefix = prefix, ik_hash = h, ik_tenant = tenant, ik_tier = tier,
      ik_scope = scope, ik_created = kc_now c, ik_last_used = None, ik_revoked = None, ik_replaced_by = None\<rparr>"

text \<open>\<open>CreateIngestionKey\<close>: status and the plaintext shown once. The request is \<open>None\<close> when its body
  does not decode.\<close>

definition CreateIngestionKey ::
  "(string \<Rightarrow> string) \<Rightarrow> key_call \<Rightarrow> key_request option \<Rightarrow> key_db \<Rightarrow> int \<times> string option \<times> key_db" where
  "CreateIngestionKey hashIngestionKey c body d =
     (if \<not> kc_has_db c then (503, None, d)
      else case body of None \<Rightarrow> (400, None, d)
      | Some req \<Rightarrow>
          if trim_space (kr_Name req) = [] then (400, None, d)
          else
            (let tenant = (if kr_TenantID req = [] then ''default'' else kr_TenantID req);
                 tier = (if kr_Tier req = [] then ''standard'' else kr_Tier req);
                 scope = (if kr_Scope req = [] then ScopeIngest else kr_Scope req)
             in if scope \<noteq> ScopeIngest \<and> scope \<noteq> ScopeRUM then (400, None, d)
                else case generateIngestionKey hashIngestionKey (kc_material c) scope of
                    None \<Rightarrow> (500, None, d)
                  | Some (plaintext, prefix, h) \<Rightarrow>
                      if \<not> kc_write_ok c then (500, None, d)
                      else (201, Some plaintext,
                        d\<lparr>kd_rows := kd_rows d @ [new_row c (kr_Name req) prefix h tenant tier scope],
                          kd_cache := invalidateCache (kd_cache d),
                          kd_audit := kd_audit d @ [(kc_actor c, ''create'', kc_new_id c)]\<rparr>)))"

definition RevokeIngestionKey :: "key_call \<Rightarrow> string \<Rightarrow> key_db \<Rightarrow> int \<times> key_db" where
  "RevokeIngestionKey c kid d =
     (if \<not> kc_has_db c then (503, d)
      else if kid = [] then (400, d)
      else if \<not> kc_write_ok c then (500, d)
      else if \<not> list_ex (\<lambda>r. ik_id r = kid \<and> live (kc_now c) r) (kd_rows d) then (404, d)
      else (200, d\<lparr>kd_rows := map (\<lambda>r. if ik_id r = kid \<and> live (kc_now c) r then r\<lparr>ik_revoked := Some (kc_now c)\<rparr> else r) (kd_rows d),
                   kd_cache := invalidateCache (kd_cache d),
                   kd_audit := kd_audit d @ [(kc_actor c, ''revoke'', kid)]\<rparr>))"

definition defaultRotationGrace :: int where "defaultRotationGrace = 24 * 3600 * 10 ^ 9"
definition maxRotationGrace :: int where "maxRotationGrace = 30 * 24 * 3600 * 10 ^ 9"

text \<open>The grace window of a rotation from the request's text; \<open>parse_duration\<close> is
  \<open>time.ParseDuration\<close>. \<open>None\<close> is a refusal.\<close>

definition rotation_grace :: "(string \<Rightarrow> int option) \<Rightarrow> string \<Rightarrow> int option" where
  "rotation_grace parse_duration s =
     (if trim_space s = [] then Some defaultRotationGrace
      else case parse_duration s of
          None \<Rightarrow> None
        | Some g \<Rightarrow> if g < 0 then None else if g > maxRotationGrace then None else Some g)"

definition RotateIngestionKey ::
  "(string \<Rightarrow> string) \<Rightarrow> (string \<Rightarrow> int option) \<Rightarrow> key_call \<Rightarrow> string \<Rightarrow> string \<Rightarrow> key_db \<Rightarrow> int \<times> string option \<times> key_db" where
  "RotateIngestionKey hashIngestionKey parse_duration c kid grace_text d =
     (if \<not> kc_has_db c then (503, None, d)
      else if kid = [] then (400, None, d)
      else case rotation_grace parse_duration grace_text of
        None \<Rightarrow> (400, None, d)
      | Some grace \<Rightarrow>
          if \<not> kc_read_ok c then (500, None, d)
          else case find (\<lambda>r. ik_id r = kid \<and> live (kc_now c) r) (kd_rows d) of
              None \<Rightarrow> (404, None, d)
            | Some old \<Rightarrow>
                (case generateIngestionKey hashIngestionKey (kc_material c) (ik_scope old) of
                   None \<Rightarrow> (500, None, d)
                 | Some (plaintext, prefix, h) \<Rightarrow>
                     if \<not> kc_write_ok c then (500, None, d)
                     else (201, Some plaintext,
                       d\<lparr>kd_rows := map (\<lambda>r. if ik_id r = kid
                             then r\<lparr>ik_replaced_by := Some (kc_new_id c), ik_revoked := Some (kc_now c + grace)\<rparr> else r) (kd_rows d)
                           @ [new_row c (ik_name old) prefix h (ik_tenant old) (ik_tier old) (ik_scope old)],
                         kd_cache := invalidateCache (kd_cache d),
                         kd_audit := kd_audit d @ [(kc_actor c, ''rotate'', kid)]\<rparr>)))"

text \<open>\<open>ListIngestionKeys\<close>: the rows without their hashes, newest first.\<close>

definition ListIngestionKeys :: "bool \<Rightarrow> bool \<Rightarrow> key_row list \<Rightarrow> int \<times> key_row list" where
  "ListIngestionKeys has_db read_ok rows =
     (if \<not> has_db then (200, []) else if \<not> read_ok then (500, [])
      else (200, map (\<lambda>r. r\<lparr>ik_hash := []\<rparr>) (rev (sort_key ik_created rows))))"

section \<open>Histories\<close>

text \<open>The table over time, and the caches of the replicas that resolve keys against it. A revocation
  or rotation sets \<open>revoked_at\<close> to a time that is not in the past.\<close>

record key_sys =
  ks_now :: int
  ks_rows :: "key_row list"
  ks_caches :: "nat \<Rightarrow> key_cache"

inductive key_step :: "(string \<Rightarrow> string) \<Rightarrow> key_sys \<Rightarrow> key_sys \<Rightarrow> bool" for H where
  tick: "ks_now s \<le> n \<Longrightarrow> key_step H s (s\<lparr>ks_now := n\<rparr>)"
| resolve: "key_step H s (s\<lparr>ks_caches := (ks_caches s)(i := snd (Resolve H has_db read_ok (ks_now s) (ks_rows s) k (ks_caches s i)))\<rparr>)"
| touch: "key_step H s (s\<lparr>ks_rows := touchLastUsed ok (ks_now s) h (ks_rows s)\<rparr>)"
| admin: "d = \<lparr>kd_rows = ks_rows s, kd_cache = ks_caches s i, kd_audit = a\<rparr> \<Longrightarrow> kc_now c = ks_now s \<Longrightarrow>
    kc_new_id c \<notin> ik_id ` set (ks_rows s) \<Longrightarrow>
    d1 = snd (snd (CreateIngestionKey H c req d)) \<or> d1 = snd (RevokeIngestionKey c kid d)
      \<or> d1 = snd (snd (RotateIngestionKey H P c kid g d)) \<Longrightarrow>
    key_step H s (s\<lparr>ks_rows := kd_rows d1, ks_caches := (ks_caches s)(i := kd_cache d1)\<rparr>)"

inductive key_reach :: "(string \<Rightarrow> string) \<Rightarrow> key_sys \<Rightarrow> bool" for H where
  start: "key_reach H \<lparr>ks_now = now, ks_rows = [], ks_caches = (\<lambda>_. [])\<rparr>"
| step: "key_reach H s \<Longrightarrow> key_step H s s1 \<Longrightarrow> key_reach H s1"

section \<open>What a cached answer rests on\<close>

definition backed :: "key_row list \<Rightarrow> string \<Rightarrow> string \<Rightarrow> string \<Rightarrow> string \<Rightarrow> int \<Rightarrow> bool" where
  "backed rows h tenant tier scope since \<longleftrightarrow> (\<exists>r \<in> set rows. ik_hash r = h \<and> ik_tenant r = tenant \<and> ik_tier r = tier
     \<and> ik_scope r = scope \<and> (\<forall>t. ik_revoked r = Some t \<longrightarrow> since \<le> t))"

definition cache_ok :: "int \<Rightarrow> key_row list \<Rightarrow> key_cache \<Rightarrow> bool" where
  "cache_ok now rows cache \<longleftrightarrow> (\<forall>(h, e) \<in> set cache. rt_cachedAt e \<le> now \<and>
     (rt_ok e \<longrightarrow> backed rows h (rt_tenantID e) (rt_tier e) (rt_scope e) (rt_cachedAt e)))"

lemma lookup_backed:
  "lookup_key now h rows = Some r \<Longrightarrow> backed rows h (ik_tenant r) (ik_tier r) (ik_scope r) now"
  by (auto simp: lookup_key_def find_Some_iff backed_def live_def split: option.splits intro!: bexI [of _ r])

lemma set_update_cases: "x \<in> set (AList.update k v m) \<Longrightarrow> x = (k, v) \<or> x \<in> set m"
  by (induction m) (auto split: if_splits)

text \<open>A successful answer is backed since at most the cache's life time.\<close>

lemma Resolve_backed:
  assumes "cache_ok now rows cache" "Resolve H has_db read_ok now rows k cache = (Some (tenant, tier, scope), cache1)"
  shows "\<exists>since. now - ingestionKeyCacheTTL < since \<and> since \<le> now \<and> backed rows (H k) tenant tier scope since"
proof -
  have fetch: ?thesis if "lookup_key now (H k) rows = Some r" "tenant = ik_tenant r" "tier = ik_tier r" "scope = ik_scope r" for r
    using lookup_backed [OF that(1)] that by (intro exI [of _ now]) (simp add: ingestionKeyCacheTTL_def)
  show ?thesis
  proof (cases "map_of cache (H k)")
    case None
    then show ?thesis
      using assms(2) fetch by (auto simp: Resolve_def Let_def split: if_splits option.splits)
  next
    case (Some e)
    show ?thesis
    proof (cases "now - rt_cachedAt e < ingestionKeyCacheTTL")
      case True
      then have "rt_ok e" "tenant = rt_tenantID e" "tier = rt_tier e" "scope = rt_scope e"
        using assms(2) Some by (auto simp: Resolve_def Let_def split: if_splits)
      moreover have "rt_cachedAt e \<le> now" "rt_ok e \<longrightarrow> backed rows (H k) (rt_tenantID e) (rt_tier e) (rt_scope e) (rt_cachedAt e)"
        using assms(1) map_of_SomeD [OF Some] unfolding cache_ok_def by auto
      ultimately show ?thesis using True by (intro exI [of _ "rt_cachedAt e"]) auto
    next
      case False
      then show ?thesis
        using assms(2) Some fetch by (auto simp: Resolve_def Let_def split: if_splits option.splits)
    qed
  qed
qed

lemma Resolve_cache_ok:
  assumes "cache_ok now rows cache"
  shows "cache_ok now rows (snd (Resolve H has_db read_ok now rows k cache))"
proof -
  have upd: "cache_ok now rows (AList.update h e cache)"
    if "rt_cachedAt e = now" "rt_ok e \<longrightarrow> backed rows h (rt_tenantID e) (rt_tier e) (rt_scope e) now" for h e
    using assms that set_update_cases unfolding cache_ok_def by fastforce
  show ?thesis
    using assms lookup_backed [of now "H k" rows]
    by (auto simp: Resolve_def Let_def split: option.splits intro!: upd)
qed

text \<open>The table changes only in ways that keep the cached answers backed.\<close>

definition rows_extend :: "int \<Rightarrow> key_row list \<Rightarrow> key_row list \<Rightarrow> bool" where
  "rows_extend now rows rows1 \<longleftrightarrow> (\<forall>r \<in> set rows. \<exists>r1 \<in> set rows1. ik_hash r1 = ik_hash r \<and> ik_tenant r1 = ik_tenant r
     \<and> ik_tier r1 = ik_tier r \<and> ik_scope r1 = ik_scope r \<and> (ik_revoked r1 = ik_revoked r \<or> (\<exists>t. ik_revoked r1 = Some t \<and> now \<le> t)))"

lemma backed_extend:
  assumes "rows_extend now rows rows1" "backed rows h tenant tier scope since" "since \<le> now"
  shows "backed rows1 h tenant tier scope since"
proof -
  obtain r where r: "r \<in> set rows" "ik_hash r = h" "ik_tenant r = tenant" "ik_tier r = tier" "ik_scope r = scope"
    "\<forall>t. ik_revoked r = Some t \<longrightarrow> since \<le> t" using assms(2) unfolding backed_def by blast
  obtain r1 where r1: "r1 \<in> set rows1" "ik_hash r1 = ik_hash r" "ik_tenant r1 = ik_tenant r" "ik_tier r1 = ik_tier r"
    "ik_scope r1 = ik_scope r" "ik_revoked r1 = ik_revoked r \<or> (\<exists>t. ik_revoked r1 = Some t \<and> now \<le> t)"
    using assms(1) r(1) unfolding rows_extend_def by blast
  have "\<forall>t. ik_revoked r1 = Some t \<longrightarrow> since \<le> t" using r1(6) r(6) assms(3) by auto
  then show ?thesis unfolding backed_def using r r1 by auto
qed

lemma cache_ok_extend:
  assumes "cache_ok now rows cache" "rows_extend now rows rows1"
  shows "cache_ok now rows1 cache"
  using assms backed_extend [OF assms(2)] unfolding cache_ok_def by fastforce

lemma rows_extend_map:
  assumes "\<And>r. r \<in> set rows \<Longrightarrow> ik_hash (f r) = ik_hash r \<and> ik_tenant (f r) = ik_tenant r \<and> ik_tier (f r) = ik_tier r
     \<and> ik_scope (f r) = ik_scope r \<and> (ik_revoked (f r) = ik_revoked r \<or> (\<exists>t. ik_revoked (f r) = Some t \<and> now \<le> t))"
  shows "rows_extend now rows (map f rows @ new)"
  unfolding rows_extend_def
proof
  fix r assume r: "r \<in> set rows"
  then have "f r \<in> set (map f rows @ new)" by simp
  with assms [OF r] show "\<exists>r1 \<in> set (map f rows @ new). ik_hash r1 = ik_hash r \<and> ik_tenant r1 = ik_tenant r
     \<and> ik_tier r1 = ik_tier r \<and> ik_scope r1 = ik_scope r \<and> (ik_revoked r1 = ik_revoked r \<or> (\<exists>t. ik_revoked r1 = Some t \<and> now \<le> t))"
    by blast
qed

lemma rows_extend_refl: "rows_extend now rows rows"
  unfolding rows_extend_def by blast

lemma touch_extend: "rows_extend now rows (touchLastUsed ok n h rows)"
  using rows_extend_map [of rows "\<lambda>r. if ik_hash r = h then r\<lparr>ik_last_used := Some n\<rparr> else r" now "[]"] rows_extend_refl
  by (simp add: touchLastUsed_def)

lemma create_extend: "rows_extend (kc_now c) (kd_rows d) (kd_rows (snd (snd (CreateIngestionKey H c req d))))"
  using rows_extend_map [of "kd_rows d" "\<lambda>r. r" "kc_now c"] rows_extend_refl
  by (auto simp: CreateIngestionKey_def Let_def split: option.splits)

lemma revoke_extend: "rows_extend (kc_now c) (kd_rows d) (kd_rows (snd (RevokeIngestionKey c kid d)))"
  using rows_extend_map [of "kd_rows d" "\<lambda>r. if ik_id r = kid \<and> live (kc_now c) r then r\<lparr>ik_revoked := Some (kc_now c)\<rparr> else r" "kc_now c" "[]"]
    rows_extend_refl
  by (simp add: RevokeIngestionKey_def)

lemma grace_bounds: "rotation_grace P g = Some x \<Longrightarrow> 0 \<le> x \<and> x \<le> maxRotationGrace"
  by (auto simp: rotation_grace_def defaultRotationGrace_def maxRotationGrace_def split: if_splits option.splits)

lemma rotate_extend: "rows_extend (kc_now c) (kd_rows d) (kd_rows (snd (snd (RotateIngestionKey H P c kid g d))))"
proof -
  have map: "rows_extend (kc_now c) (kd_rows d) (map (\<lambda>r. if ik_id r = kid
      then r\<lparr>ik_replaced_by := Some (kc_new_id c), ik_revoked := Some (kc_now c + x)\<rparr> else r) (kd_rows d) @ new)"
    if "rotation_grace P g = Some x" for x new
    using grace_bounds [OF that] by (intro rows_extend_map) auto
  show ?thesis
    using rows_extend_refl map by (auto simp: RotateIngestionKey_def split: option.splits)
qed

lemma admin_cache:
  "kd_cache (snd (snd (CreateIngestionKey H c req d))) \<in> {kd_cache d, []}"
  "kd_cache (snd (RevokeIngestionKey c kid d)) \<in> {kd_cache d, []}"
  "kd_cache (snd (snd (RotateIngestionKey H P c kid g d))) \<in> {kd_cache d, []}"
  by (auto simp: CreateIngestionKey_def RevokeIngestionKey_def RotateIngestionKey_def invalidateCache_def Let_def
      split: option.splits)

definition key_inv :: "key_sys \<Rightarrow> bool" where
  "key_inv s \<longleftrightarrow> (\<forall>i. cache_ok (ks_now s) (ks_rows s) (ks_caches s i))"

lemma cache_ok_empty [simp]: "cache_ok now rows []"
  by (simp add: cache_ok_def)

lemma key_inv_step:
  assumes "key_step H s s1" "key_inv s"
  shows "key_inv s1"
  using assms
proof (induction rule: key_step.induct)
  case (tick s n)
  then show ?case unfolding key_inv_def cache_ok_def by fastforce
next
  case (resolve s i has_db read_ok k)
  then show ?case unfolding key_inv_def by (simp add: Resolve_cache_ok)
next
  case (touch s ok h)
  then show ?case unfolding key_inv_def using cache_ok_extend [OF _ touch_extend] by simp
next
  case (admin d s i a c d1 req kid P g)
  have ext: "rows_extend (ks_now s) (ks_rows s) (kd_rows d1)"
    using admin.hyps(4) create_extend [of c d H req] revoke_extend [of c d kid] rotate_extend [of c d H P kid g] admin.hyps(1,2)
    by auto
  have "kd_cache d1 \<in> {kd_cache d, []}" using admin.hyps(4) admin_cache by blast
  then show ?case
    using admin.prems admin.hyps(1) cache_ok_extend [OF _ ext] unfolding key_inv_def by auto
qed

lemma key_reach_inv: "key_reach H s \<Longrightarrow> key_inv s"
proof (induction rule: key_reach.induct)
  case (start now)
  then show ?case by (simp add: key_inv_def)
next
  case (step s s1)
  then show ?case by (simp add: key_inv_step)
qed

section \<open>Rotation\<close>

lemma find_append: "find P (xs @ ys) = (case find P xs of None \<Rightarrow> find P ys | Some x \<Rightarrow> Some x)"
  by (induction xs) auto

text \<open>Looking up a hash that one row has, after rows were changed by identifier.\<close>

lemma rotated_lookup:
  assumes "distinct (map ik_hash rows)" "old \<in> set rows" "ik_hash old = h" "\<And>r. ik_hash (f r) = ik_hash r"
  shows "find (\<lambda>r. ik_hash r = h \<and> live u r) (map f rows) = (if live u (f old) then Some (f old) else None)"
  using assms
proof (induction rows)
  case (Cons r rows)
  show ?case
  proof (cases "r = old")
    case True
    then have "find (\<lambda>r. ik_hash r = h \<and> live u r) (map f rows) = None"
      using Cons.prems(1,3,4) by (auto simp: find_None_iff image_iff)
    then show ?thesis using True Cons.prems(3,4) by simp
  next
    case False
    then have "ik_hash r \<noteq> h" using Cons.prems by auto
    then show ?thesis using Cons False by simp
  qed
qed simp

section \<open>Properties\<close>

text \<open>A presented key attributes telemetry only to a tenant that owns it. In every reachable
  state of the table and the replicas' caches, when a replica resolves a key to a tenant, tier and
  scope, the table holds a key with that hash, tenant, tier and scope whose revocation, if any, lies
  less than thirty seconds in the past.\<close>

theorem resolved_key_is_live:
  assumes "key_reach H s" "Resolve H has_db read_ok (ks_now s) (ks_rows s) k (ks_caches s i) = (Some (tenant, tier, scope), cache1)"
  shows "\<exists>r \<in> set (ks_rows s). ik_hash r = H k \<and> ik_tenant r = tenant \<and> ik_tier r = tier \<and> ik_scope r = scope
    \<and> (\<forall>t. ik_revoked r = Some t \<longrightarrow> ks_now s - ingestionKeyCacheTTL < t)"
proof -
  have "cache_ok (ks_now s) (ks_rows s) (ks_caches s i)" using key_reach_inv [OF assms(1)] by (simp add: key_inv_def)
  from Resolve_backed [OF this assms(2)] show ?thesis unfolding backed_def by fastforce
qed

definition demo_call :: "int \<Rightarrow> string \<Rightarrow> key_call" where
  "demo_call now i = \<lparr>kc_now = now, kc_material = Some ''abcdefgh'', kc_new_id = i, kc_actor = ''ann'', kc_has_db = True,
     kc_read_ok = True, kc_write_ok = True\<rparr>"

definition demo_request :: "string \<Rightarrow> key_request" where
  "demo_request T = \<lparr>kr_Name = ''agent'', kr_TenantID = T, kr_Tier = [], kr_Scope = []\<rparr>"

theorem resolved_key_is_live_witness:
  "\<exists>r \<in> set (kd_rows (snd (snd (CreateIngestionKey rev (demo_call 5 ''k1'') (Some (demo_request ''acme''))
        \<lparr>kd_rows = [], kd_cache = [], kd_audit = []\<rparr>)))).
     ik_hash r = rev ''pt_ingest_abcdefgh'' \<and> ik_tenant r = ''acme'' \<and> ik_tier r = ''standard'' \<and> ik_scope r = ''ingest''
     \<and> (\<forall>t. ik_revoked r = Some t \<longrightarrow> 5 - ingestionKeyCacheTTL < t)"
proof -
  let ?s0 = "\<lparr>ks_now = 5, ks_rows = [], ks_caches = (\<lambda>_. [])\<rparr>"
  let ?d = "\<lparr>kd_rows = [], kd_cache = [], kd_audit = []\<rparr>"
  let ?d1 = "snd (snd (CreateIngestionKey rev (demo_call 5 ''k1'') (Some (demo_request ''acme'')) ?d))"
  let ?s1 = "?s0\<lparr>ks_rows := kd_rows ?d1, ks_caches := (\<lambda>_. [])(0 := kd_cache ?d1)\<rparr>"
  have "key_step rev ?s0 ?s1"
    using key_step.admin [of ?d ?s0 0 "[]" "demo_call 5 ''k1''" ?d1 rev "Some (demo_request ''acme'')"]
    by (simp add: demo_call_def)
  then have reach: "key_reach rev ?s1" using key_reach.start [of rev 5] by (rule key_reach.step [rotated])
  have "Resolve rev True True 5 (kd_rows ?d1) ''pt_ingest_abcdefgh'' (kd_cache ?d1)
      = (Some (''acme'', ''standard'', ''ingest''), snd (Resolve rev True True 5 (kd_rows ?d1) ''pt_ingest_abcdefgh'' (kd_cache ?d1)))"
    by code_simp
  then show ?thesis using resolved_key_is_live [OF reach, of True True "''pt_ingest_abcdefgh''" 0] by simp
qed

text \<open>A rotation hands over without a gap. When rotating a key succeeds, the replacement resolves
  at once to the old key's tenant, tier and scope, and the old key resolves as before exactly until
  the grace window, which is at most thirty days, has passed.\<close>

theorem rotation_hands_over:
  assumes "RotateIngestionKey H P c kid g d = (201, Some plaintext, d1)" "distinct (map ik_id (kd_rows d))"
    "distinct (map ik_hash (kd_rows d))" "old \<in> set (kd_rows d)" "ik_id old = kid" "ik_hash old = H q" "q \<noteq> []"
    "H plaintext \<notin> ik_hash ` set (kd_rows d)" "kc_now c \<le> u"
  shows "\<exists>grace. 0 \<le> grace \<and> grace \<le> maxRotationGrace
    \<and> fst (Resolve H True True u (kd_rows d1) plaintext []) = Some (ik_tenant old, ik_tier old, ik_scope old)
    \<and> fst (Resolve H True True u (kd_rows d1) q []) =
        (if u < kc_now c + grace then Some (ik_tenant old, ik_tier old, ik_scope old) else None)"
proof -
  obtain grace o1 raw where run: "rotation_grace P g = Some grace"
    "find (\<lambda>r. ik_id r = kid \<and> live (kc_now c) r) (kd_rows d) = Some o1" "kc_material c = Some raw"
    "plaintext = prefixForScope (ik_scope o1) @ raw"
    "kd_rows d1 = map (\<lambda>r. if ik_id r = kid then r\<lparr>ik_replaced_by := Some (kc_new_id c), ik_revoked := Some (kc_now c + grace)\<rparr> else r) (kd_rows d)
       @ [new_row c (ik_name o1) (take (length (prefixForScope (ik_scope o1)) + 6) plaintext) (H plaintext) (ik_tenant o1) (ik_tier o1) (ik_scope o1)]"
    using assms(1) by (auto simp: RotateIngestionKey_def generateIngestionKey_def Let_def split: if_splits option.splits)
  have "o1 \<in> set (kd_rows d)" "ik_id o1 = kid" using run(2) by (auto simp: find_Some_iff)
  then have o1: "o1 = old" using assms(2,4,5) by (metis distinct_map inj_onD)
  have plain: "plaintext \<noteq> []" using run(4) by (simp add: prefixForScope_def rumKeyPrefix_def ingestKeyPrefix_def)
  let ?f = "\<lambda>r. if ik_id r = kid then r\<lparr>ik_replaced_by := Some (kc_new_id c), ik_revoked := Some (kc_now c + grace)\<rparr> else r"
  have other: "find (\<lambda>r. ik_hash r = H plaintext \<and> live u r) (map ?f (kd_rows d)) = None"
    using assms(8) by (auto simp: find_None_iff image_iff)
  have new: "lookup_key u (H plaintext) (kd_rows d1) = Some (new_row c (ik_name o1)
      (take (length (prefixForScope (ik_scope o1)) + 6) plaintext) (H plaintext) (ik_tenant o1) (ik_tier o1) (ik_scope o1))"
    using other unfolding lookup_key_def run(5) by (simp add: find_append new_row_def live_def)
  have "H plaintext \<noteq> H q" using assms(4,6,8) by (metis imageI)
  moreover have "find (\<lambda>r. ik_hash r = H q \<and> live u r) (map ?f (kd_rows d)) = (if live u (?f old) then Some (?f old) else None)"
    by (rule rotated_lookup [OF assms(3,4,6)]) simp
  ultimately have old: "lookup_key u (H q) (kd_rows d1) = (if u < kc_now c + grace then Some (?f old) else None)"
    using assms(5) unfolding lookup_key_def run(5) by (simp add: find_append new_row_def live_def)
  have "fst (Resolve H True True u (kd_rows d1) plaintext []) = Some (ik_tenant old, ik_tier old, ik_scope old)"
    using plain new o1 by (simp add: Resolve_def Let_def new_row_def)
  moreover have "fst (Resolve H True True u (kd_rows d1) q []) =
        (if u < kc_now c + grace then Some (ik_tenant old, ik_tier old, ik_scope old) else None)"
    using assms(5,7) old by (simp add: Resolve_def Let_def)
  ultimately show ?thesis using grace_bounds [OF run(1)] by blast
qed

theorem rotation_hands_over_witness:
  "\<exists>grace. 0 \<le> grace \<and> grace \<le> maxRotationGrace
    \<and> fst (Resolve rev True True 9 (kd_rows (snd (snd (RotateIngestionKey rev (\<lambda>_. Some 3) (demo_call 7 ''k2'') ''k1'' ''3ns''
          \<lparr>kd_rows = [new_row (demo_call 5 ''k1'') ''agent'' [] (rev ''pt_rum_old'') ''acme'' ''standard'' ''rum''],
           kd_cache = [], kd_audit = []\<rparr>)))) ''pt_rum_abcdefgh'' []) = Some (''acme'', ''standard'', ''rum'')"
proof -
  let ?old = "new_row (demo_call 5 ''k1'') ''agent'' [] (rev ''pt_rum_old'') ''acme'' ''standard'' ''rum''"
  let ?d = "\<lparr>kd_rows = [?old], kd_cache = [], kd_audit = []\<rparr>"
  let ?r = "RotateIngestionKey rev (\<lambda>_. Some 3) (demo_call 7 ''k2'') ''k1'' ''3ns'' ?d"
  have "(fst ?r, fst (snd ?r)) = (201, Some ''pt_rum_abcdefgh'')" by code_simp
  then have run: "?r = (201, Some ''pt_rum_abcdefgh'', snd (snd ?r))" by (metis fst_conv prod.collapse snd_conv)
  have old: "?old \<in> set (kd_rows ?d)" "ik_id ?old = ''k1''" "ik_hash ?old = rev ''pt_rum_old''"
    "ik_tenant ?old = ''acme''" "ik_tier ?old = ''standard''" "ik_scope ?old = ''rum''"
    by (simp_all add: new_row_def demo_call_def)
  have "''pt_rum_old'' \<noteq> []" "distinct (map ik_id (kd_rows ?d))" "distinct (map ik_hash (kd_rows ?d))"
    "rev ''pt_rum_abcdefgh'' \<notin> ik_hash ` set (kd_rows ?d)" "kc_now (demo_call 7 ''k2'') \<le> 9"
    by (simp_all add: new_row_def demo_call_def)
  then show ?thesis
    using rotation_hands_over [OF run _ _ old(1-3), of 9] old(4-6) by auto
qed

text \<open>The tenant of a new key is the one the request names, whoever asks. For every tenant, a
  caller whose request passes the checks receives a key that resolves to that tenant: the handler
  does not consult the caller's own tenant.\<close>

theorem key_for_any_tenant:
  assumes "kc_has_db c" "kc_write_ok c" "kc_material c = Some raw" "trim_space (kr_Name req) \<noteq> []" "kr_TenantID req \<noteq> []"
    "kr_Scope req = ScopeIngest" "kr_Tier req = tier" "tier \<noteq> []"
    "H (ingestKeyPrefix @ raw) \<notin> ik_hash ` set (kd_rows d)"
  shows "\<exists>d1. CreateIngestionKey H c (Some req) d = (201, Some (ingestKeyPrefix @ raw), d1)
    \<and> fst (Resolve H True True u (kd_rows d1) (ingestKeyPrefix @ raw) []) = Some (kr_TenantID req, tier, ScopeIngest)"
proof -
  let ?p = "ingestKeyPrefix @ raw"
  have gen: "generateIngestionKey H (Some raw) ScopeIngest = Some (?p, take (length ingestKeyPrefix + 6) ?p, H ?p)"
    by (simp add: generateIngestionKey_def prefixForScope_def ScopeIngest_def ScopeRUM_def Let_def)
  have none: "find (\<lambda>r. ik_hash r = H ?p \<and> live u r) (kd_rows d) = None"
    unfolding find_None_iff using assms(9) by (metis imageI)
  let ?row = "new_row c (kr_Name req) (take (length ingestKeyPrefix + 6) ?p) (H ?p) (kr_TenantID req) tier ScopeIngest"
  have "lookup_key u (H ?p) (kd_rows d @ [?row]) = Some ?row"
    using none by (simp add: lookup_key_def find_append new_row_def live_def)
  then have res: "fst (Resolve H True True u (kd_rows d @ [?row]) ?p []) = Some (kr_TenantID req, tier, ScopeIngest)"
    by (simp add: Resolve_def Let_def new_row_def ingestKeyPrefix_def)
  have scope: "ScopeIngest \<noteq> []" by (simp add: ScopeIngest_def)
  show ?thesis
    using assms(1-8) gen res scope by (simp add: CreateIngestionKey_def Let_def)
qed

theorem key_for_any_tenant_witness:
  "\<exists>d1. CreateIngestionKey rev (demo_call 5 ''k1'')
      (Some \<lparr>kr_Name = ''n'', kr_TenantID = ''victim'', kr_Tier = ''standard'', kr_Scope = ScopeIngest\<rparr>)
      \<lparr>kd_rows = [], kd_cache = [], kd_audit = []\<rparr> = (201, Some (ingestKeyPrefix @ ''abcdefgh''), d1)
    \<and> fst (Resolve rev True True 6 (kd_rows d1) (ingestKeyPrefix @ ''abcdefgh'') []) = Some (''victim'', ''standard'', ScopeIngest)"
proof -
  have "trim_space ''n'' \<noteq> []" by code_simp
  then show ?thesis
    using key_for_any_tenant [of "demo_call 5 ''k1''" "''abcdefgh''"
        "\<lparr>kr_Name = ''n'', kr_TenantID = ''victim'', kr_Tier = ''standard'', kr_Scope = ScopeIngest\<rparr>" "''standard''" rev
        "\<lparr>kd_rows = [], kd_cache = [], kd_audit = []\<rparr>" 6]
    by (simp add: demo_call_def)
qed

end
