(* ===== verification/Auth.thy ===== *)
theory Auth
  imports Totp Sessions Ingestion_Keys
begin

text \<open>
  Who a request is, \<open>auth.go\<close> and \<open>mfa.go\<close> of \<open>src/gateway-service/internal/auth\<close>: session and
  challenge tokens, the middleware that replaces a client's identity headers by verified ones,
  sign-in with a password, and the second factor with its recovery codes. The JWT library, bcrypt,
  AES-GCM and base64 are fields of an environment record; the database is a record of tables; which
  database calls of a handler succeed is an argument indexed by the position of the call in the
  handler. Times are nanoseconds.
\<close>

section \<open>Requests and headers\<close>

text \<open>A header as \<open>net/http\<close> keeps it: names in canonical form, values in order of arrival.\<close>

type_synonym headers = "(string \<times> string) list"

fun canonical_from :: "bool \<Rightarrow> string \<Rightarrow> string" where
  "canonical_from up [] = []"
| "canonical_from up (c # cs) = (if up then upper_char c else lower_char c) # canonical_from (c = CHR ''-'') cs"

definition canonical :: "string \<Rightarrow> string" where
  "canonical k = canonical_from True k"

definition hdr_Get :: "headers \<Rightarrow> string \<Rightarrow> string" where
  "hdr_Get hs k = (case map_of hs (canonical k) of None \<Rightarrow> [] | Some v \<Rightarrow> v)"

definition hdr_Del :: "string \<Rightarrow> headers \<Rightarrow> headers" where
  "hdr_Del k hs = filter (\<lambda>h. fst h \<noteq> canonical k) hs"

definition hdr_Set :: "string \<Rightarrow> string \<Rightarrow> headers \<Rightarrow> headers" where
  "hdr_Set k v hs = (canonical k, v) # hdr_Del k hs"

record http_req =
  hr_Method :: string
  hr_Path :: string
  hr_RawQuery :: string
  hr_Header :: headers
  hr_RemoteAddr :: string

definition UserAgent :: "http_req \<Rightarrow> string" where
  "UserAgent r = hdr_Get (hr_Header r) ''User-Agent''"

definition clientIP :: "http_req \<Rightarrow> string" where
  "clientIP r =
     (let xff = hdr_Get (hr_Header r) ''X-Forwarded-For''
      in if xff \<noteq> []
         then case cut CHR '','' xff of (a, _, found) \<Rightarrow> if found \<and> a \<noteq> [] then trim_space a else trim_space xff
         else hr_RemoteAddr r)"

definition bearer_prefix :: string where "bearer_prefix = ''Bearer ''"

definition bearerToken :: "http_req \<Rightarrow> string" where
  "bearerToken r =
     (let h = hdr_Get (hr_Header r) ''Authorization''
      in if h = [] \<or> \<not> has_prefix bearer_prefix h then [] else drop (length bearer_prefix) h)"

definition actorFromRequest :: "http_req \<Rightarrow> string" where
  "actorFromRequest r = hdr_Get (hr_Header r) ''X-User-Subject''"

definition defaultTenantID :: string where "defaultTenantID = ''default''"
definition defaultTenantTier :: string where "defaultTenantTier = ''standard''"

definition tenantOf :: "http_req \<Rightarrow> string" where
  "tenantOf r = (let t = hdr_Get (hr_Header r) ''X-Tenant-ID'' in if t \<noteq> [] then t else defaultTenantID)"

definition currentSession :: "http_req \<Rightarrow> string" where
  "currentSession r = hdr_Get (hr_Header r) ''X-Session-ID''"

section \<open>Environment and tables\<close>

datatype claim_val = CStr string | CBool bool | CNum int

type_synonym claims = "(string \<times> claim_val) list"

text \<open>The AES-GCM cipher that \<open>mfaCipher\<close> yields: nonce size, \<open>Seal\<close> and \<open>Open\<close>.\<close>

record aead_cipher =
  gc_NonceSize :: nat
  gc_Seal :: "bytes \<Rightarrow> bytes \<Rightarrow> bytes"
  gc_Open :: "bytes \<Rightarrow> bytes \<Rightarrow> bytes option"

text \<open>\<open>en_parse\<close> is \<open>jwt.Parse\<close> at a time with the key function it consults by signing algorithm,
  \<open>None\<close> when the token is not valid; \<open>en_sign\<close> signs with HS256; \<open>en_hash\<close> is
  \<open>bcrypt.GenerateFromPassword\<close> with its salt, \<open>en_match\<close> is \<open>bcrypt.CompareHashAndPassword\<close>.\<close>

record auth_env =
  en_secret :: string
  en_sign :: "string \<Rightarrow> claims \<Rightarrow> string option"
  en_parse :: "int \<Rightarrow> (string \<Rightarrow> string option) \<Rightarrow> string \<Rightarrow> claims option"
  en_hash :: "string \<Rightarrow> string \<Rightarrow> string option"
  en_match :: "string \<Rightarrow> string \<Rightarrow> bool"
  en_b32 :: "string \<Rightarrow> bytes option"
  en_mac :: "bytes \<Rightarrow> bytes \<Rightarrow> bytes"
  en_mfaCipher :: "aead_cipher option"
  en_b64_encode :: "bytes \<Rightarrow> string"
  en_b64_decode :: "string \<Rightarrow> bytes option"

text \<open>What one call of a handler meets: the time, the identifier it draws, random material by
  position, and which database calls succeed, by position.\<close>

record auth_call =
  ac_now :: int
  ac_id :: string
  ac_rand :: "nat \<Rightarrow> string option"
  ac_ok :: "nat \<Rightarrow> bool"
  ac_dup :: string

record user_row =
  us_id :: string
  us_username :: string
  us_hash :: string
  us_role :: string
  us_tenant :: string
  us_tier :: string
  us_mfa_enabled :: bool
  us_mfa_secret :: "string option"
  us_mfa_codes :: "string list option"
  us_active :: bool
  us_external :: "string option"
  us_created :: int

record tenant_row =
  tn_id :: string
  tn_name :: string
  tn_plan :: string
  tn_status :: string
  tn_customer :: "string option"
  tn_subscription :: "string option"
  tn_created :: int

record reset_row =
  pr_id :: string
  pr_username :: string
  pr_hash :: string
  pr_expires :: int
  pr_used :: "int option"

text \<open>\<open>ad_audit\<close> holds the actor, action, target type and target of every entry handed to
  \<open>WriteAudit\<close>, whose hash chain is modelled in \<open>Audit_Chain\<close>.\<close>

record auth_db =
  ad_users :: "user_row list"
  ad_tenants :: "tenant_row list"
  ad_resets :: "reset_row list"
  ad_roles :: "string list"
  ad_sessions :: "session_row list"
  ad_audit :: "(string \<times> string \<times> string \<times> string) list"

definition find_user :: "string \<Rightarrow> auth_db \<Rightarrow> user_row option" where
  "find_user n d = find (\<lambda>u. us_username u = n) (ad_users d)"

text \<open>\<open>UPDATE users SET ... WHERE username = n\<close>.\<close>

definition update_user :: "string \<Rightarrow> (user_row \<Rightarrow> user_row) \<Rightarrow> auth_db \<Rightarrow> auth_db" where
  "update_user n f d = d\<lparr>ad_users := map (\<lambda>u. if us_username u = n then f u else u) (ad_users d)\<rparr>"

definition audit :: "string \<times> string \<times> string \<times> string \<Rightarrow> auth_db \<Rightarrow> auth_db" where
  "audit e d = d\<lparr>ad_audit := ad_audit d @ [e]\<rparr>"

datatype auth_reply =
    Refuse int string
  | SessionToken string string
  | MFARequired string
  | MFAEnabled bool
  | Enrolled string string
  | RecoveryCodes "string list"
  | Replied int
  | Redirected string
  | SignedUp string string
  | Panicked

section \<open>Tokens\<close>

definition issueSessionToken ::
  "auth_env \<Rightarrow> int \<Rightarrow> string \<Rightarrow> string \<Rightarrow> string \<Rightarrow> string \<Rightarrow> string \<Rightarrow> string option" where
  "issueSessionToken E now username role tenantID tier jti =
     en_sign E (en_secret E)
       [(''sub'', CStr username), (''exp'', CNum (unix_of (now + sessionTokenTTL))), (''iat'', CNum (unix_of now)),
        (''jti'', CStr jti), (''role'', CStr role), (''tenant_id'', CStr tenantID), (''tenant_tier'', CStr tier)]"

definition mfaIssuer :: string where "mfaIssuer = ''PulseTrace''"
definition mfaChallengeTTL :: int where "mfaChallengeTTL = 5 * 60 * 10 ^ 9"
definition recoveryCodeCount :: nat where "recoveryCodeCount = 10"

definition issueMFAChallengeToken :: "auth_env \<Rightarrow> int \<Rightarrow> string \<Rightarrow> string option" where
  "issueMFAChallengeToken E now username =
     en_sign E (en_secret E)
       [(''sub'', CStr username), (''exp'', CNum (unix_of (now + mfaChallengeTTL))), (''iat'', CNum (unix_of now)),
        (''mfa_pending'', CBool True)]"

text \<open>The key function: only the HMAC family gets the secret.\<close>

definition hmac_key :: "auth_env \<Rightarrow> string \<Rightarrow> string option" where
  "hmac_key E alg = (if alg \<in> set [''HS256'', ''HS384'', ''HS512''] then Some (en_secret E) else None)"

definition claim_str :: "claims \<Rightarrow> string \<Rightarrow> string" where
  "claim_str cl k = (case map_of cl k of Some (CStr s) \<Rightarrow> s | _ \<Rightarrow> [])"

definition mfa_pending :: "claims \<Rightarrow> bool" where
  "mfa_pending cl \<longleftrightarrow> map_of cl ''mfa_pending'' = Some (CBool True)"

definition parseMFAChallengeToken :: "auth_env \<Rightarrow> int \<Rightarrow> string \<Rightarrow> string + string" where
  "parseMFAChallengeToken E now tokenStr = (case en_parse E now (hmac_key E) tokenStr of
     None \<Rightarrow> Err ''invalid or expired MFA challenge''
   | Some cl \<Rightarrow>
       if \<not> mfa_pending cl then Err ''not an MFA challenge token''
       else if claim_str cl ''sub'' = [] then Err ''MFA challenge missing subject''
       else Ok (claim_str cl ''sub''))"

section \<open>The middleware\<close>

definition identity_headers :: "string list" where
  "identity_headers = [''X-Tenant-ID'', ''X-Tenant-Tier'', ''X-User-Role'', ''X-User-Subject'', ''X-Session-ID'']"

definition strip_identity :: "http_req \<Rightarrow> http_req" where
  "strip_identity r = r\<lparr>hr_Header := fold hdr_Del identity_headers (hr_Header r)\<rparr>"

definition str_has_suffix :: "string \<Rightarrow> string \<Rightarrow> bool" where
  "str_has_suffix p s \<longleftrightarrow> has_prefix (rev p) (rev s)"

definition isOTLPHTTP :: "http_req \<Rightarrow> bool" where
  "isOTLPHTTP r \<longleftrightarrow> has_prefix ''/v1/traces'' (hr_Path r) \<or> has_prefix ''/v1/metrics'' (hr_Path r) \<or> has_prefix ''/v1/logs'' (hr_Path r)"

definition isLogIngest :: "http_req \<Rightarrow> bool" where
  "isLogIngest r \<longleftrightarrow> hr_Path r = ''/api/v1/logs'' \<and> hr_Method r = ''POST''"

definition isServerIngest :: "http_req \<Rightarrow> bool" where
  "isServerIngest r \<longleftrightarrow> isOTLPHTTP r \<or> isLogIngest r"

definition isRUMIngest :: "http_req \<Rightarrow> bool" where
  "isRUMIngest r \<longleftrightarrow> hr_Path r = ''/api/v1/rum/ingest'' \<and> hr_Method r = ''POST''"

definition isAgentConfig :: "http_req \<Rightarrow> bool" where
  "isAgentConfig r \<longleftrightarrow> has_prefix ''/api/v1/topology/agent-config'' (hr_Path r)"

definition isMigrationIngest :: "http_req \<Rightarrow> bool" where
  "isMigrationIngest r \<longleftrightarrow> has_prefix ''/services/collector'' (hr_Path r)
     \<or> (has_prefix ''/v0.'' (hr_Path r) \<and> str_has_suffix ''/traces'' (hr_Path r))
     \<or> hr_Path r = ''/api/v1/series'' \<or> hr_Path r = ''/api/v2/series'' \<or> hr_Path r = ''/api/v2/logs''"

definition isSCIM :: "http_req \<Rightarrow> bool" where
  "isSCIM r \<longleftrightarrow> has_prefix ''/scim/v2/'' (hr_Path r)"

definition public_paths :: "string list" where
  "public_paths =
     [''/api/v1/auth/login'', ''/api/v1/auth/register'', ''/api/v1/auth/signup'', ''/healthz'', ''/api/v1/auth/mfa/login'',
      ''/api/v1/auth/password/forgot'', ''/api/v1/auth/password/reset'', ''/api/v1/auth/sso/login'', ''/api/v1/auth/sso/config'',
      ''/api/v1/auth/sso/callback'', ''/api/v1/webhooks/stripe'', ''/api/v1/webhooks/github'', ''/api/v1/control-plane/incidents'']"

definition isPublic :: "http_req \<Rightarrow> bool" where
  "isPublic r \<longleftrightarrow> hr_Path r \<in> set public_paths \<or> has_prefix ''/api/v1/auth/saml/'' (hr_Path r)"

text \<open>What the middleware meets: the time, \<open>REQUIRE_INGESTION_KEY\<close>, the ingestion keys' table and
  whether it can be read, and what a query for revoked sessions returns.\<close>

record mw_call =
  mc_now :: int
  mc_require :: bool
  mc_hashKey :: "string \<Rightarrow> string"
  mc_has_db :: bool
  mc_read_ok :: bool
  mc_rows :: "key_row list"
  mc_revoked :: "string list option"

datatype mw_result = Deny int string | Forward http_req

definition with_header :: "string \<Rightarrow> string \<Rightarrow> http_req \<Rightarrow> http_req" where
  "with_header k v r = r\<lparr>hr_Header := hdr_Set k v (hr_Header r)\<rparr>"

definition with_tenant :: "string \<Rightarrow> string \<Rightarrow> http_req \<Rightarrow> http_req" where
  "with_tenant tenantID tier r = with_header ''X-Tenant-Tier'' tier (with_header ''X-Tenant-ID'' tenantID r)"

definition resolve_bearer :: "mw_call \<Rightarrow> http_req \<Rightarrow> key_cache \<Rightarrow> (string \<times> string \<times> string) option \<times> key_cache" where
  "resolve_bearer c r cache = Resolve (mc_hashKey c) (mc_has_db c) (mc_read_ok c) (mc_now c) (mc_rows c) (bearerToken r) cache"

text \<open>The headers set from the claims of a session token.\<close>

definition set_unless_empty :: "string \<Rightarrow> string \<Rightarrow> http_req \<Rightarrow> http_req" where
  "set_unless_empty k v r = (if v \<noteq> [] then with_header k v r else r)"

definition with_claims :: "claims \<Rightarrow> http_req \<Rightarrow> http_req" where
  "with_claims cl r =
     (let t = claim_str cl ''tenant_id''; tier = claim_str cl ''tenant_tier''
      in with_tenant (if t \<noteq> [] then t else defaultTenantID) (if tier \<noteq> [] then tier else defaultTenantTier)
           (set_unless_empty ''X-User-Subject'' (claim_str cl ''sub'')
             (set_unless_empty ''X-User-Role'' (claim_str cl ''role'')
               (set_unless_empty ''X-Session-ID'' (claim_str cl ''jti'') r))))"

definition require_session ::
  "auth_env \<Rightarrow> mw_call \<Rightarrow> http_req \<Rightarrow> SessionStore \<Rightarrow> mw_result \<times> SessionStore" where
  "require_session E c r st =
     (let tokenStr = bearerToken r
      in if tokenStr = [] then (Deny 401 ''Unauthorized'', st)
         else case en_parse E (mc_now c) (hmac_key E) tokenStr of
             None \<Rightarrow> (Deny 401 ''Unauthorized'', st)
           | Some cl \<Rightarrow>
               if mfa_pending cl then (Deny 401 ''Unauthorized: complete MFA to obtain a session'', st)
               else
                 (let jti = claim_str cl ''jti'';
                      ans = (if jti \<noteq> [] then IsRevoked (mc_revoked c) (mc_now c) jti st else (False, st))
                  in if fst ans then (Deny 401 ''Unauthorized: session has been revoked'', snd ans)
                     else (Forward (with_claims cl r), snd ans)))"

definition AuthMiddleware ::
  "auth_env \<Rightarrow> mw_call \<Rightarrow> http_req \<Rightarrow> key_cache \<times> SessionStore \<Rightarrow> mw_result \<times> key_cache \<times> SessionStore" where
  "AuthMiddleware E c r0 s = (case s of (cache, st) \<Rightarrow>
     let r = strip_identity r0
     in if isAgentConfig r then
          (case resolve_bearer c r cache of
             (Some (tenantID, tier, _), cache1) \<Rightarrow> (Forward (with_tenant tenantID tier r), cache1, st)
           | (None, cache1) \<Rightarrow> (Forward (with_tenant defaultTenantID defaultTenantTier r), cache1, st))
        else if isServerIngest r \<or> isRUMIngest r then
          (case resolve_bearer c r cache of
             (Some (tenantID, tier, scope), cache1) \<Rightarrow>
               if isServerIngest r \<and> scope \<noteq> ScopeIngest
               then (Deny 403 ''Forbidden: this key is not permitted for server telemetry ingestion'', cache1, st)
               else (Forward (with_tenant tenantID tier r), cache1, st)
           | (None, cache1) \<Rightarrow>
               if isServerIngest r \<and> mc_require c
               then (Deny 401 ''Unauthorized: valid ingestion key required'', cache1, st)
               else (Forward (with_tenant defaultTenantID defaultTenantTier r), cache1, st))
        else if isMigrationIngest r then (Forward r, cache, st)
        else if isSCIM r then (Forward r, cache, st)
        else if isPublic r then (Forward r, cache, st)
        else (case require_session E c r st of (res, st1) \<Rightarrow> (res, cache, st1)))"

section \<open>Password sign-in\<close>

text \<open>The session row and the token, shared by every way of signing in; call \<open>k\<close> is the insert.\<close>

definition open_session ::
  "auth_env \<Rightarrow> auth_call \<Rightarrow> nat \<Rightarrow> http_req \<Rightarrow> string \<Rightarrow> string \<Rightarrow> string \<Rightarrow> string \<Rightarrow> auth_db \<Rightarrow> string option \<times> auth_db" where
  "open_session E c k r username role tenantID tier d =
     (case createSession True (ac_ok c k) (ac_now c) (ac_id c) username tenantID (UserAgent r) (clientIP r) (ad_sessions d) of
        (jti, rows) \<Rightarrow> (issueSessionToken E (ac_now c) username role tenantID tier jti, d\<lparr>ad_sessions := rows\<rparr>))"

text \<open>\<open>Login\<close> of \<open>AuthHandler\<close>; the credentials are \<open>None\<close> when the body does not decode.\<close>

definition Login ::
  "auth_env \<Rightarrow> auth_call \<Rightarrow> http_req \<Rightarrow> (string \<times> string) option \<Rightarrow> auth_db \<Rightarrow> auth_reply \<times> auth_db" where
  "Login E c r body d =
     (if hr_Method r \<noteq> ''POST'' then (Refuse 405 ''Method not allowed'', d)
      else case body of None \<Rightarrow> (Refuse 400 ''Invalid request body'', d)
      | Some (username, password) \<Rightarrow>
          if \<not> ac_ok c 0 then (Refuse 500 ''Internal server error'', d)
          else case find_user username d of None \<Rightarrow> (Refuse 401 ''Invalid username or password'', d)
          | Some u \<Rightarrow>
              if \<not> en_match E (us_hash u) password then (Refuse 401 ''Invalid username or password'', d)
              else if \<not> us_active u then (Refuse 403 ''This account has been deactivated.'', d)
              else if us_mfa_enabled u then
                (case issueMFAChallengeToken E (ac_now c) username of
                   None \<Rightarrow> (Refuse 500 ''Failed to start MFA challenge'', d)
                 | Some challenge \<Rightarrow> (MFARequired challenge, d))
              else case open_session E c 1 r username (us_role u) (us_tenant u) (us_tier u) d of
                  (None, d1) \<Rightarrow> (Refuse 500 ''Failed to generate token'', d1)
                | (Some t, d1) \<Rightarrow> (SessionToken t (us_role u), d1))"

section \<open>The second factor\<close>

subsection \<open>Secrets at rest\<close>

text \<open>\<open>mfaDecodeKey\<close>: 32 bytes in hexadecimal or base64, and otherwise a digest of the passphrase.\<close>

definition mfaDecodeKey :: "(string \<Rightarrow> bytes option) \<Rightarrow> (string \<Rightarrow> bytes option) \<Rightarrow> (string \<Rightarrow> bytes) \<Rightarrow> string \<Rightarrow> bytes" where
  "mfaDecodeKey hex_decode b64_decode sha256 raw =
     (case hex_decode raw of
        Some b \<Rightarrow> if length b = 32 then b
                  else (case b64_decode raw of Some b1 \<Rightarrow> if length b1 = 32 then b1 else sha256 raw | None \<Rightarrow> sha256 raw)
      | None \<Rightarrow> (case b64_decode raw of Some b1 \<Rightarrow> if length b1 = 32 then b1 else sha256 raw | None \<Rightarrow> sha256 raw))"

text \<open>\<open>mfaCipher\<close> over the value of \<open>MFA_ENCRYPTION_KEY\<close>; \<open>new_gcm\<close> is \<open>aes.NewCipher\<close> followed by
  \<open>cipher.NewGCM\<close>.\<close>

definition mfaCipher :: "(string \<Rightarrow> bytes) \<Rightarrow> (bytes \<Rightarrow> aead_cipher option) \<Rightarrow> string \<Rightarrow> aead_cipher option" where
  "mfaCipher decode_key new_gcm env = (let raw = trim_space env in if raw = [] then None else new_gcm (decode_key raw))"

text \<open>\<open>encryptSecret\<close> with the nonce it read, \<open>None\<close> when the random source failed.\<close>

definition encryptSecret :: "auth_env \<Rightarrow> bytes option \<Rightarrow> string \<Rightarrow> string option" where
  "encryptSecret E nonce plaintext = (case en_mfaCipher E of None \<Rightarrow> None
   | Some g \<Rightarrow> (case nonce of None \<Rightarrow> None
     | Some n \<Rightarrow> Some (en_b64_encode E (n @ gc_Seal g n (str_bytes plaintext)))))"

definition decryptSecret :: "auth_env \<Rightarrow> string \<Rightarrow> string option" where
  "decryptSecret E encoded = (case en_mfaCipher E of None \<Rightarrow> None
   | Some g \<Rightarrow> (case en_b64_decode E encoded of None \<Rightarrow> None
     | Some raw \<Rightarrow>
         if length raw < gc_NonceSize g then None
         else map_option bytes_str (gc_Open g (take (gc_NonceSize g) raw) (drop (gc_NonceSize g) raw))))"

subsection \<open>Recovery codes\<close>

definition normalizeRecoveryCode :: "string \<Rightarrow> string" where
  "normalizeRecoveryCode s = to_lower (trim_space (filter (\<lambda>x. x \<noteq> CHR ''-'') s))"

text \<open>\<open>generateRecoveryCodes\<close> over the ten hexadecimal digits of each draw.\<close>

fun generateRecoveryCodes :: "string option list \<Rightarrow> string list option" where
  "generateRecoveryCodes [] = Some []"
| "generateRecoveryCodes (None # _) = None"
| "generateRecoveryCodes (Some h # rest) =
     map_option (\<lambda>cs. (take 5 h @ ''-'' @ drop 5 h) # cs) (generateRecoveryCodes rest)"

fun hashRecoveryCodes :: "auth_env \<Rightarrow> string list \<Rightarrow> string list \<Rightarrow> string list option" where
  "hashRecoveryCodes E salts [] = Some []"
| "hashRecoveryCodes E salts (x # xs) =
     (case en_hash E (case salts of [] \<Rightarrow> [] | s # _ \<Rightarrow> s) (normalizeRecoveryCode x) of
        None \<Rightarrow> None
      | Some h \<Rightarrow> map_option (\<lambda>hs. h # hs) (hashRecoveryCodes E (tl salts) xs))"

subsection \<open>Handlers\<close>

text \<open>\<open>loadMFA\<close>: secret, recovery hashes and whether the second factor is on. A secret that does not
  decrypt is empty.\<close>

definition loadMFA :: "auth_env \<Rightarrow> bool \<Rightarrow> string \<Rightarrow> auth_db \<Rightarrow> (string \<times> string list \<times> bool) option" where
  "loadMFA E read_ok user d =
     (if \<not> read_ok then None
      else case find_user user d of None \<Rightarrow> None
      | Some u \<Rightarrow> Some
          (case us_mfa_secret u of
             None \<Rightarrow> []
           | Some enc \<Rightarrow> if enc = [] then [] else (case decryptSecret E enc of None \<Rightarrow> [] | Some s \<Rightarrow> s),
           case us_mfa_codes u of None \<Rightarrow> [] | Some hs \<Rightarrow> hs,
           us_mfa_enabled u))"

text \<open>The loop over the recovery hashes: the first that matches, and the list without it.\<close>

fun match_code :: "auth_env \<Rightarrow> string \<Rightarrow> string list \<Rightarrow> string list \<Rightarrow> string list option" where
  "match_code E norm seen [] = None"
| "match_code E norm seen (h # hs) =
     (if en_match E h norm then Some (rev seen @ hs) else match_code E norm (h # seen) hs)"

text \<open>\<open>consumeSecondFactor\<close> works on the hashes that were read before and writes the whole remaining
  list back. \<open>None\<close> is the panic of an oversized digest offset.\<close>

definition consumeSecondFactor ::
  "auth_env \<Rightarrow> int \<Rightarrow> bool \<Rightarrow> string \<Rightarrow> string \<Rightarrow> string list \<Rightarrow> string \<Rightarrow> auth_db \<Rightarrow> bool option \<times> auth_db" where
  "consumeSecondFactor E now write_ok user secret recovery code d =
     (case (if secret \<noteq> [] then ValidateTOTP (en_b32 E) (en_mac E) secret code now else Some False) of
        None \<Rightarrow> (None, d)
      | Some True \<Rightarrow> (Some True, d)
      | Some False \<Rightarrow>
          (let norm = normalizeRecoveryCode code
           in if norm = [] then (Some False, d)
              else case match_code E norm [] recovery of
                  None \<Rightarrow> (Some False, d)
                | Some remaining \<Rightarrow>
                    if \<not> write_ok then (Some False, d)
                    else (Some True, update_user user (\<lambda>u. u\<lparr>us_mfa_codes := Some remaining\<rparr>) d)))"

definition mfa_Status :: "auth_call \<Rightarrow> http_req \<Rightarrow> auth_db \<Rightarrow> auth_reply" where
  "mfa_Status c r d =
     (let user = actorFromRequest r
      in if user = [] then Refuse 401 ''unauthenticated''
         else if \<not> ac_ok c 0 then Refuse 500 ''failed to read MFA status''
         else case find_user user d of None \<Rightarrow> Refuse 500 ''failed to read MFA status''
         | Some u \<Rightarrow> MFAEnabled (us_mfa_enabled u))"

text \<open>\<open>Enroll\<close>: \<open>secret\<close> is the result of \<open>GenerateTOTPSecret\<close>, \<open>nonce\<close> the one that
  \<open>encryptSecret\<close> reads, \<open>url\<close> is \<open>OTPAuthURL\<close>.\<close>

definition mfa_Enroll ::
  "auth_env \<Rightarrow> auth_call \<Rightarrow> (string \<Rightarrow> string \<Rightarrow> string \<Rightarrow> string) \<Rightarrow> string option \<Rightarrow> bytes option \<Rightarrow> http_req \<Rightarrow> auth_db \<Rightarrow> auth_reply \<times> auth_db" where
  "mfa_Enroll E c url secret nonce r d =
     (let user = actorFromRequest r
      in if user = [] then (Refuse 401 ''unauthenticated'', d)
         else case (if ac_ok c 0 then find_user user d else None) of None \<Rightarrow> (Refuse 500 ''failed to read user'', d)
         | Some u \<Rightarrow>
             if us_mfa_enabled u then (Refuse 409 ''MFA is already enabled; disable it first to re-enrol'', d)
             else case secret of None \<Rightarrow> (Refuse 500 ''failed to generate secret'', d)
             | Some s \<Rightarrow>
                 (case encryptSecret E nonce s of None \<Rightarrow> (Refuse 503 ''MFA is not configured on this server'', d)
                  | Some enc \<Rightarrow>
                      if \<not> ac_ok c 1 then (Refuse 500 ''failed to store secret'', d)
                      else (Enrolled s (url mfaIssuer user s),
                        update_user user (\<lambda>u. u\<lparr>us_mfa_secret := Some enc, us_mfa_enabled := False, us_mfa_codes := None\<rparr>) d)))"

definition mfa_Verify ::
  "auth_env \<Rightarrow> auth_call \<Rightarrow> string list \<Rightarrow> http_req \<Rightarrow> string option \<Rightarrow> auth_db \<Rightarrow> auth_reply \<times> auth_db" where
  "mfa_Verify E c salts r body d =
     (let user = actorFromRequest r
      in if user = [] then (Refuse 401 ''unauthenticated'', d)
         else case body of None \<Rightarrow> (Refuse 400 ''invalid request body'', d)
         | Some code \<Rightarrow>
           (case (if ac_ok c 0 then find_user user d else None) of None \<Rightarrow> (Refuse 500 ''failed to read secret'', d)
            | Some u \<Rightarrow>
              (let enc = (case us_mfa_secret u of None \<Rightarrow> [] | Some e \<Rightarrow> e)
               in if enc = [] then (Refuse 400 ''no enrolment in progress; call enroll first'', d)
                  else case decryptSecret E enc of None \<Rightarrow> (Refuse 503 ''MFA is not configured on this server'', d)
                  | Some secret \<Rightarrow>
                    (case ValidateTOTP (en_b32 E) (en_mac E) secret code (ac_now c) of
                       None \<Rightarrow> (Panicked, d)
                     | Some False \<Rightarrow> (Refuse 401 ''incorrect code'', d)
                     | Some True \<Rightarrow>
                       (case generateRecoveryCodes (map (ac_rand c) [0 ..< recoveryCodeCount]) of
                          None \<Rightarrow> (Refuse 500 ''failed to generate recovery codes'', d)
                        | Some codes \<Rightarrow>
                          (case hashRecoveryCodes E salts codes of
                             None \<Rightarrow> (Refuse 500 ''failed to secure recovery codes'', d)
                           | Some hashes \<Rightarrow>
                             if \<not> ac_ok c 1 then (Refuse 500 ''failed to enable MFA'', d)
                             else (RecoveryCodes codes, audit (user, ''update'', ''user_mfa'', user)
                               (update_user user (\<lambda>u. u\<lparr>us_mfa_enabled := True, us_mfa_codes := Some hashes\<rparr>) d))))))))"

definition mfa_Disable ::
  "auth_env \<Rightarrow> auth_call \<Rightarrow> http_req \<Rightarrow> string option \<Rightarrow> auth_db \<Rightarrow> auth_reply \<times> auth_db" where
  "mfa_Disable E c r body d =
     (let user = actorFromRequest r
      in if user = [] then (Refuse 401 ''unauthenticated'', d)
         else case body of None \<Rightarrow> (Refuse 400 ''invalid request body'', d)
         | Some code \<Rightarrow>
           (case loadMFA E (ac_ok c 0) user d of None \<Rightarrow> (Refuse 500 ''failed to read MFA state'', d)
            | Some (secret, recovery, enabled) \<Rightarrow>
                if \<not> enabled then (Refuse 400 ''MFA is not enabled'', d)
                else case consumeSecondFactor E (ac_now c) (ac_ok c 1) user secret recovery code d of
                    (None, d1) \<Rightarrow> (Panicked, d1)
                  | (Some False, d1) \<Rightarrow> (Refuse 401 ''incorrect code'', d1)
                  | (Some True, d1) \<Rightarrow>
                      if \<not> ac_ok c 2 then (Refuse 500 ''failed to disable MFA'', d1)
                      else (MFAEnabled False, audit (user, ''update'', ''user_mfa'', user)
                        (update_user user (\<lambda>u. u\<lparr>us_mfa_enabled := False, us_mfa_secret := None, us_mfa_codes := None\<rparr>) d1))))"

text \<open>\<open>Login\<close> of \<open>MFAHandler\<close>: the challenge token and the code.\<close>

definition mfa_Login ::
  "auth_env \<Rightarrow> auth_call \<Rightarrow> http_req \<Rightarrow> (string \<times> string) option \<Rightarrow> auth_db \<Rightarrow> auth_reply \<times> auth_db" where
  "mfa_Login E c r body d =
     (case body of None \<Rightarrow> (Refuse 400 ''invalid request body'', d)
      | Some (mfaToken, code) \<Rightarrow>
        (case parseMFAChallengeToken E (ac_now c) mfaToken of Inl e \<Rightarrow> (Refuse 401 e, d)
         | Inr user \<Rightarrow>
           (case (if ac_ok c 0 then find_user user d else None) of
              None \<Rightarrow> (Refuse 401 ''invalid or expired MFA challenge'', d)
            | Some u \<Rightarrow>
                if \<not> us_mfa_enabled u then (Refuse 400 ''MFA is not enabled for this account'', d)
                else case loadMFA E (ac_ok c 1) user d of None \<Rightarrow> (Refuse 500 ''failed to read MFA state'', d)
                | Some (secret, recovery, _) \<Rightarrow>
                    (case consumeSecondFactor E (ac_now c) (ac_ok c 2) user secret recovery code d of
                       (None, d1) \<Rightarrow> (Panicked, d1)
                     | (Some False, d1) \<Rightarrow> (Refuse 401 ''incorrect code'', d1)
                     | (Some True, d1) \<Rightarrow>
                         (case open_session E c 3 r user (us_role u) (us_tenant u) (us_tier u) d1 of
                            (None, d2) \<Rightarrow> (Refuse 500 ''failed to generate token'', d2)
                          | (Some t, d2) \<Rightarrow> (SessionToken t (us_role u), d2))))))"

section \<open>Headers\<close>

lemma canonical_identity [simp]:
  "canonical ''X-Tenant-ID'' = ''X-Tenant-Id''" "canonical ''X-Tenant-Tier'' = ''X-Tenant-Tier''"
  "canonical ''X-User-Role'' = ''X-User-Role''" "canonical ''X-User-Subject'' = ''X-User-Subject''"
  "canonical ''X-Session-ID'' = ''X-Session-Id''" "canonical ''Authorization'' = ''Authorization''"
  by code_simp+

lemma map_of_filter_key: "map_of (filter (\<lambda>h. fst h \<noteq> k) hs) j = (if j = k then None else map_of hs j)"
  by (induction hs) auto

lemma Get_Del: "hdr_Get (hdr_Del k hs) j = (if canonical j = canonical k then [] else hdr_Get hs j)"
  by (simp add: hdr_Get_def hdr_Del_def map_of_filter_key)

lemma Get_Set: "hdr_Get (hdr_Set k v hs) j = (if canonical j = canonical k then v else hdr_Get hs j)"
  using Get_Del [of k hs j] by (simp add: hdr_Get_def hdr_Set_def)

lemma Get_stripped:
  "hdr_Get (hr_Header (strip_identity r)) j =
     (if canonical j \<in> canonical ` set identity_headers then [] else hdr_Get (hr_Header r) j)"
  by (auto simp: strip_identity_def identity_headers_def Get_Del)

lemma Get_with_header:
  "hdr_Get (hr_Header (with_header k v r)) j = (if canonical j = canonical k then v else hdr_Get (hr_Header r) j)"
  by (simp add: with_header_def Get_Set)

lemma request_line_kept [simp]:
  "hr_Path (strip_identity r) = hr_Path r" "hr_Method (strip_identity r) = hr_Method r"
  "hr_Path (with_header k v r) = hr_Path r" "hr_Method (with_header k v r) = hr_Method r"
  "hr_RawQuery (strip_identity r) = hr_RawQuery r" "hr_RawQuery (with_header k v r) = hr_RawQuery r"
  "hr_Path (with_tenant t tier r) = hr_Path r" "hr_Method (with_tenant t tier r) = hr_Method r"
  "hr_Path (set_unless_empty k v r) = hr_Path r" "hr_Method (set_unless_empty k v r) = hr_Method r"
  "hr_Path (with_claims cl r) = hr_Path r" "hr_Method (with_claims cl r) = hr_Method r"
  by (simp_all add: strip_identity_def with_header_def with_tenant_def set_unless_empty_def with_claims_def Let_def)

lemma routes_stripped [simp]:
  "isServerIngest (strip_identity r) = isServerIngest r" "isRUMIngest (strip_identity r) = isRUMIngest r"
  "isAgentConfig (strip_identity r) = isAgentConfig r" "isMigrationIngest (strip_identity r) = isMigrationIngest r"
  "isSCIM (strip_identity r) = isSCIM r" "isPublic (strip_identity r) = isPublic r"
  by (simp_all add: isServerIngest_def isOTLPHTTP_def isLogIngest_def isRUMIngest_def isAgentConfig_def
      isMigrationIngest_def isSCIM_def isPublic_def)

lemma bearer_stripped [simp]: "bearerToken (strip_identity r) = bearerToken r"
  by (simp add: bearerToken_def Get_stripped identity_headers_def)

lemma resolve_stripped [simp]: "resolve_bearer c (strip_identity r) cache = resolve_bearer c r cache"
  by (simp add: resolve_bearer_def)

text \<open>Tenant, tier, role, subject and session of a request, as later stages read them.\<close>

definition identity_of :: "http_req \<Rightarrow> string list" where
  "identity_of r = map (hdr_Get (hr_Header r)) identity_headers"

lemma identity_stripped [simp]: "identity_of (strip_identity r) = [[], [], [], [], []]"
  by (simp add: identity_of_def Get_stripped identity_headers_def)

lemma identity_with_tenant:
  "identity_of (with_tenant t tier r) = t # tier # drop 2 (identity_of r)"
  by (simp add: identity_of_def identity_headers_def with_tenant_def Get_with_header)

lemma identity_with_claims:
  "identity_of (with_claims cl (strip_identity r)) =
     [if claim_str cl ''tenant_id'' \<noteq> [] then claim_str cl ''tenant_id'' else defaultTenantID,
      if claim_str cl ''tenant_tier'' \<noteq> [] then claim_str cl ''tenant_tier'' else defaultTenantTier,
      claim_str cl ''role'', claim_str cl ''sub'', claim_str cl ''jti'']"
  by (simp add: identity_of_def identity_headers_def with_claims_def Let_def with_tenant_def set_unless_empty_def
      Get_with_header Get_stripped)

text \<open>Everything else in the header is forwarded as it came.\<close>

definition same_otherwise :: "http_req \<Rightarrow> http_req \<Rightarrow> bool" where
  "same_otherwise r r1 \<longleftrightarrow> hr_Path r1 = hr_Path r \<and> hr_RawQuery r1 = hr_RawQuery r \<and> hr_Method r1 = hr_Method r \<and>
     (\<forall>k. canonical k \<notin> canonical ` set identity_headers \<longrightarrow> hdr_Get (hr_Header r1) k = hdr_Get (hr_Header r) k)"

lemma same_otherwise_stripped: "same_otherwise r (strip_identity r)"
  by (simp add: same_otherwise_def Get_stripped)

lemma same_otherwise_header:
  "same_otherwise r r1 \<Longrightarrow> k \<in> set identity_headers \<Longrightarrow> same_otherwise r (with_header k v r1)"
  by (auto simp: same_otherwise_def Get_with_header)

lemma same_otherwise_tenant: "same_otherwise r r1 \<Longrightarrow> same_otherwise r (with_tenant t tier r1)"
  unfolding with_tenant_def by (intro same_otherwise_header) (simp_all add: identity_headers_def)

lemma same_otherwise_claims: "same_otherwise r r1 \<Longrightarrow> same_otherwise r (with_claims cl r1)"
  unfolding with_claims_def set_unless_empty_def Let_def
  by (intro same_otherwise_tenant) (auto intro!: same_otherwise_header simp: identity_headers_def)

section \<open>Verified identities\<close>

text \<open>The identities that a request may be forwarded with: those of the ingestion key it presents,
  the default tenant where telemetry without a key is accepted, none on the routes that verify the
  caller themselves, and those of an unexpired session token that is neither a challenge nor
  revoked.\<close>

inductive verified ::
  "auth_env \<Rightarrow> mw_call \<Rightarrow> http_req \<Rightarrow> key_cache \<Rightarrow> SessionStore \<Rightarrow> string list \<Rightarrow> bool"
  for E c r cache st where
  by_key: "isAgentConfig r \<or> isServerIngest r \<or> isRUMIngest r \<Longrightarrow>
    fst (resolve_bearer c r cache) = Some (tenantID, tier, scope) \<Longrightarrow>
    isServerIngest r \<and> \<not> isAgentConfig r \<longrightarrow> scope = ScopeIngest \<Longrightarrow>
    verified E c r cache st [tenantID, tier, [], [], []]"
| unkeyed: "isAgentConfig r \<or> isServerIngest r \<or> isRUMIngest r \<Longrightarrow>
    fst (resolve_bearer c r cache) = None \<Longrightarrow>
    isServerIngest r \<and> \<not> isAgentConfig r \<longrightarrow> \<not> mc_require c \<Longrightarrow>
    verified E c r cache st [defaultTenantID, defaultTenantTier, [], [], []]"
| anonymous: "isMigrationIngest r \<or> isSCIM r \<or> isPublic r \<Longrightarrow> verified E c r cache st [[], [], [], [], []]"
| by_session: "en_parse E (mc_now c) (hmac_key E) (bearerToken r) = Some cl \<Longrightarrow> bearerToken r \<noteq> [] \<Longrightarrow>
    \<not> mfa_pending cl \<Longrightarrow>
    claim_str cl ''jti'' \<noteq> [] \<longrightarrow> \<not> fst (IsRevoked (mc_revoked c) (mc_now c) (claim_str cl ''jti'') st) \<Longrightarrow>
    verified E c r cache st
      [if claim_str cl ''tenant_id'' \<noteq> [] then claim_str cl ''tenant_id'' else defaultTenantID,
       if claim_str cl ''tenant_tier'' \<noteq> [] then claim_str cl ''tenant_tier'' else defaultTenantTier,
       claim_str cl ''role'', claim_str cl ''sub'', claim_str cl ''jti'']"

inductive_cases verifiedE: "verified E c r cache st ids"

lemma require_session_verified:
  assumes "require_session E c (strip_identity r) st = (Forward r1, st1)"
  shows "verified E c r cache st (identity_of r1) \<and> same_otherwise r r1"
proof -
  obtain cl where cl: "en_parse E (mc_now c) (hmac_key E) (bearerToken r) = Some cl" "bearerToken r \<noteq> []" "\<not> mfa_pending cl"
    "claim_str cl ''jti'' \<noteq> [] \<longrightarrow> \<not> fst (IsRevoked (mc_revoked c) (mc_now c) (claim_str cl ''jti'') st)"
    "r1 = with_claims cl (strip_identity r)"
    using assms by (auto simp: require_session_def Let_def split: if_splits option.splits)
  have "verified E c r cache st (identity_of (with_claims cl (strip_identity r)))"
    unfolding identity_with_claims by (rule verified.by_session [OF cl(1-4)])
  then show ?thesis unfolding cl(5) using same_otherwise_claims [OF same_otherwise_stripped] by blast
qed

lemma verified_resolved:
  assumes "isAgentConfig r \<or> isServerIngest r \<or> isRUMIngest r" "resolve_bearer c r cache = (res, cache1)"
    "case res of Some (tenantID, tier, scope) \<Rightarrow> isServerIngest r \<and> \<not> isAgentConfig r \<longrightarrow> scope = ScopeIngest
      | None \<Rightarrow> isServerIngest r \<and> \<not> isAgentConfig r \<longrightarrow> \<not> mc_require c"
    "(tenantID, tier) = (case res of Some (t, tr, _) \<Rightarrow> (t, tr) | None \<Rightarrow> (defaultTenantID, defaultTenantTier))"
  shows "verified E c r cache st (identity_of (with_tenant tenantID tier (strip_identity r)))
    \<and> same_otherwise r (with_tenant tenantID tier (strip_identity r))"
proof
  show "same_otherwise r (with_tenant tenantID tier (strip_identity r))"
    by (rule same_otherwise_tenant [OF same_otherwise_stripped])
  have id: "identity_of (with_tenant tenantID tier (strip_identity r)) = [tenantID, tier, [], [], []]"
    by (simp add: identity_with_tenant)
  show "verified E c r cache st (identity_of (with_tenant tenantID tier (strip_identity r)))"
  proof (cases res)
    case None
    then show ?thesis unfolding id using assms verified.unkeyed [OF assms(1)] by simp
  next
    case (Some x)
    then obtain scope where "res = Some (tenantID, tier, scope)" using assms(4) by (cases x) auto
    then show ?thesis unfolding id using assms verified.by_key [OF assms(1), of c cache tenantID tier scope] by simp
  qed
qed

lemma forwarded_verified:
  assumes "AuthMiddleware E c r (cache, st) = (Forward r1, s1)"
  shows "verified E c r cache st (identity_of r1) \<and> same_otherwise r r1"
proof -
  obtain res cache1 where rb: "resolve_bearer c r cache = (res, cache1)" by force
  consider (agent) "isAgentConfig r" | (ingest) "\<not> isAgentConfig r" "isServerIngest r \<or> isRUMIngest r"
    | (open_route) "\<not> isAgentConfig r" "\<not> (isServerIngest r \<or> isRUMIngest r)" "isMigrationIngest r \<or> isSCIM r \<or> isPublic r"
    | (session) "\<not> isAgentConfig r" "\<not> (isServerIngest r \<or> isRUMIngest r)" "\<not> (isMigrationIngest r \<or> isSCIM r \<or> isPublic r)"
    by blast
  then show ?thesis
  proof cases
    case agent
    then show ?thesis
      using assms rb verified_resolved [of r c cache res cache1]
      by (auto simp: AuthMiddleware_def Let_def split: option.splits)
  next
    case ingest
    then show ?thesis
      using assms rb verified_resolved [of r c cache res cache1]
      by (auto simp: AuthMiddleware_def Let_def split: option.splits if_splits)
  next
    case open_route
    then have "r1 = strip_identity r" using assms by (auto simp: AuthMiddleware_def Let_def split: if_splits)
    then show ?thesis using open_route(3) verified.anonymous same_otherwise_stripped by simp
  next
    case session
    then obtain st1 where "require_session E c (strip_identity r) st = (Forward r1, st1)"
      using assms by (auto simp: AuthMiddleware_def Let_def split: prod.splits)
    then show ?thesis by (rule require_session_verified)
  qed
qed

section \<open>Tokens and the second factor\<close>

text \<open>What is used of the JWT library: a token signed with the secret parses to its claims until it
  expires and not afterwards, when the key function offers that secret for HS256.\<close>

definition jwt_ok :: "auth_env \<Rightarrow> bool" where
  "jwt_ok E \<longleftrightarrow> (\<forall>key secret cl tok now e. en_sign E secret cl = Some tok \<longrightarrow> key ''HS256'' = Some secret
     \<longrightarrow> map_of cl ''exp'' = Some (CNum e) \<longrightarrow> en_parse E now key tok = (if now < e * 10 ^ 9 then Some cl else None))"

lemma hmac_key_HS256 [simp]: "hmac_key E ''HS256'' = Some (en_secret E)"
  by (simp add: hmac_key_def)

lemma session_token_parses:
  assumes "jwt_ok E" "issueSessionToken E t user role tenant tier jti = Some tok"
  shows "en_parse E now (hmac_key E) tok =
    (if now < unix_of (t + sessionTokenTTL) * 10 ^ 9
     then Some [(''sub'', CStr user), (''exp'', CNum (unix_of (t + sessionTokenTTL))), (''iat'', CNum (unix_of t)),
        (''jti'', CStr jti), (''role'', CStr role), (''tenant_id'', CStr tenant), (''tenant_tier'', CStr tier)] else None)"
  using assms unfolding jwt_ok_def issueSessionToken_def by simp

lemma challenge_token_parses:
  assumes "jwt_ok E" "issueMFAChallengeToken E t user = Some tok"
  shows "en_parse E now (hmac_key E) tok =
    (if now < unix_of (t + mfaChallengeTTL) * 10 ^ 9
     then Some [(''sub'', CStr user), (''exp'', CNum (unix_of (t + mfaChallengeTTL))), (''iat'', CNum (unix_of t)),
        (''mfa_pending'', CBool True)] else None)"
  using assms unfolding jwt_ok_def issueMFAChallengeToken_def by simp

definition protected_route :: "http_req \<Rightarrow> bool" where
  "protected_route r \<longleftrightarrow> \<not> isAgentConfig r \<and> \<not> isServerIngest r \<and> \<not> isRUMIngest r \<and> \<not> isMigrationIngest r
     \<and> \<not> isSCIM r \<and> \<not> isPublic r"

lemma protected_middleware:
  "protected_route r \<Longrightarrow> fst (AuthMiddleware E c r (cache, st)) = fst (require_session E c (strip_identity r) st)"
  by (simp add: AuthMiddleware_def protected_route_def Let_def split: prod.splits)

lemma challenge_refused:
  assumes "jwt_ok E" "issueMFAChallengeToken E t user = Some tok" "bearerToken r = tok"
  shows "\<exists>msg. fst (require_session E c (strip_identity r) st) = Deny 401 msg"
  using challenge_token_parses [OF assms(1,2), of "mc_now c"] assms(3)
  by (auto simp: require_session_def Let_def mfa_pending_def)

lemma match_code_first:
  "\<forall>x \<in> set a. \<not> en_match E x n \<Longrightarrow> en_match E h n \<Longrightarrow> match_code E n seen (a @ h # b) = Some (rev seen @ a @ b)"
  by (induction a arbitrary: seen) auto

lemma match_code_SomeD:
  "match_code E n seen hs = Some left \<Longrightarrow>
     \<exists>a h b. hs = a @ h # b \<and> en_match E h n \<and> (\<forall>x \<in> set a. \<not> en_match E x n) \<and> left = rev seen @ a @ b"
proof -
  assume m: "match_code E n seen hs = Some left"
  then have "\<exists>x \<in> set hs. en_match E x n" by (induction hs arbitrary: seen) (auto split: if_splits)
  then obtain a h b where "hs = a @ h # b" "en_match E h n" "\<forall>x \<in> set a. \<not> en_match E x n"
    using split_list_first_prop [of hs "\<lambda>x. en_match E x n"] by blast
  then show ?thesis using m match_code_first [of a E n h seen b] by auto
qed

lemma match_code_None: "match_code E n seen hs = None \<longleftrightarrow> (\<forall>x \<in> set hs. \<not> en_match E x n)"
  by (induction hs arbitrary: seen) auto

lemma find_update_user:
  assumes "\<And>u. us_username (f u) = us_username u"
  shows "find_user n (update_user n f d) = map_option f (find_user n d)"
proof -
  have "find (\<lambda>u. us_username u = n) (map (\<lambda>u. if us_username u = n then f u else u) us)
      = map_option f (find (\<lambda>u. us_username u = n) us)" for us
    by (induction us) (auto simp: assms)
  then show ?thesis by (simp add: find_user_def update_user_def)
qed

lemma find_update_other:
  assumes "\<And>u. us_username (f u) = us_username u" "n \<noteq> m"
  shows "find_user n (update_user m f d) = find_user n d"
proof -
  have "find (\<lambda>u. us_username u = n) (map (\<lambda>u. if us_username u = m then f u else u) us)
      = find (\<lambda>u. us_username u = n) us" for us
    using assms(2) by (induction us) (auto simp: assms(1))
  then show ?thesis by (simp add: find_user_def update_user_def)
qed

text \<open>What a code was accepted for: a time step of the secret, or one of the recovery hashes.\<close>

lemma consumed_factor:
  assumes "consumeSecondFactor E now ok user secret recovery code d = (Some True, d1)"
  shows "(secret \<noteq> [] \<and> ValidateTOTP (en_b32 E) (en_mac E) secret code now = Some True \<and> d1 = d) \<or>
    (\<exists>a h b. recovery = a @ h # b \<and> en_match E h (normalizeRecoveryCode code)
       \<and> (\<forall>x \<in> set a. \<not> en_match E x (normalizeRecoveryCode code))
       \<and> d1 = update_user user (\<lambda>u. u\<lparr>us_mfa_codes := Some (a @ b)\<rparr>) d)"
  using assms match_code_SomeD [of E "normalizeRecoveryCode code" "[]" recovery]
  by (fastforce simp: consumeSecondFactor_def Let_def split: option.splits bool.splits if_splits)

lemma consume_recovery:
  assumes "secret = [] \<or> ValidateTOTP (en_b32 E) (en_mac E) secret code now = Some False"
    "normalizeRecoveryCode code \<noteq> []" "recovery = a @ h # b" "en_match E h (normalizeRecoveryCode code)"
    "\<forall>x \<in> set a. \<not> en_match E x (normalizeRecoveryCode code)"
  shows "consumeSecondFactor E now True user secret recovery code d =
    (Some True, update_user user (\<lambda>u. u\<lparr>us_mfa_codes := Some (a @ b)\<rparr>) d)"
  using assms match_code_first [of a E "normalizeRecoveryCode code" h "[]" b]
  by (auto simp: consumeSecondFactor_def Let_def)

lemma consume_refused:
  assumes "secret = [] \<or> ValidateTOTP (en_b32 E) (en_mac E) secret code now = Some False"
    "\<forall>x \<in> set recovery. \<not> en_match E x (normalizeRecoveryCode code)"
  shows "consumeSecondFactor E now ok user secret recovery code d = (Some False, d)"
  using assms match_code_None [of E "normalizeRecoveryCode code" "[]" recovery]
  by (auto simp: consumeSecondFactor_def Let_def split: option.splits)

lemma mfa_Login_success:
  assumes "mfa_Login E c r (Some (tok, code)) d = (SessionToken t role, d2)"
  shows "\<exists>user u secret recovery d1. parseMFAChallengeToken E (ac_now c) tok = Ok user \<and> find_user user d = Some u
    \<and> us_mfa_enabled u \<and> role = us_role u \<and> loadMFA E True user d = Some (secret, recovery, True)
    \<and> consumeSecondFactor E (ac_now c) (ac_ok c 2) user secret recovery code d = (Some True, d1)
    \<and> open_session E c 3 r user role (us_tenant u) (us_tier u) d1 = (Some t, d2)"
proof -
  obtain user where user: "parseMFAChallengeToken E (ac_now c) tok = Ok user"
    using assms unfolding mfa_Login_def by (cases "parseMFAChallengeToken E (ac_now c) tok") auto
  have ok0: "ac_ok c 0" using assms user unfolding mfa_Login_def by (cases "ac_ok c 0") auto
  obtain u where u: "find_user user d = Some u"
    using assms user ok0 unfolding mfa_Login_def by (cases "find_user user d") auto
  have on: "us_mfa_enabled u" using assms user ok0 u unfolding mfa_Login_def by (cases "us_mfa_enabled u") auto
  obtain secret recovery where l: "loadMFA E (ac_ok c 1) user d = Some (secret, recovery, True)"
    using assms user ok0 u on unfolding mfa_Login_def by (cases "ac_ok c 1") (auto simp: loadMFA_def)
  then have l1: "loadMFA E True user d = Some (secret, recovery, True)" by (auto simp: loadMFA_def split: if_splits)
  obtain ans d1 where cs: "consumeSecondFactor E (ac_now c) (ac_ok c 2) user secret recovery code d = (ans, d1)" by force
  have eq: "mfa_Login E c r (Some (tok, code)) d = (case ans of None \<Rightarrow> (Panicked, d1)
      | Some False \<Rightarrow> (Refuse 401 ''incorrect code'', d1)
      | Some True \<Rightarrow> (case open_session E c 3 r user (us_role u) (us_tenant u) (us_tier u) d1 of
          (None, d2) \<Rightarrow> (Refuse 500 ''failed to generate token'', d2) | (Some t, d2) \<Rightarrow> (SessionToken t (us_role u), d2)))"
    using user ok0 u on l cs by (simp add: mfa_Login_def)
  have "ans = Some True" using assms unfolding eq by (cases ans) (auto split: bool.splits)
  moreover obtain t1 d3 where "open_session E c 3 r user (us_role u) (us_tenant u) (us_tier u) d1 = (t1, d3)" by force
  ultimately have "open_session E c 3 r user (us_role u) (us_tenant u) (us_tier u) d1 = (Some t, d2) \<and> role = us_role u"
    using assms unfolding eq by (cases t1) auto
  then show ?thesis using user u on l1 cs \<open>ans = Some True\<close> by auto
qed

lemma open_session_users: "open_session E c k r user role tenant tier d = (t, d1) \<Longrightarrow> ad_users d1 = ad_users d"
  by (auto simp: open_session_def createSession_def)

lemma find_user_cong: "ad_users d1 = ad_users d \<Longrightarrow> find_user n d1 = find_user n d"
  by (simp add: find_user_def)

lemma loadMFA_codes:
  assumes "loadMFA E ok user d = Some (secret, recovery, on)"
  shows "loadMFA E True user (update_user user (\<lambda>u. u\<lparr>us_mfa_codes := Some left\<rparr>) d) = Some (secret, left, on)"
proof -
  have "find_user user (update_user user (\<lambda>u. u\<lparr>us_mfa_codes := Some left\<rparr>) d)
      = map_option (\<lambda>u. u\<lparr>us_mfa_codes := Some left\<rparr>) (find_user user d)"
    by (rule find_update_user) simp
  then show ?thesis using assms by (auto simp: loadMFA_def split: option.splits if_splits)
qed

lemma loadMFA_cong: "ad_users d1 = ad_users d \<Longrightarrow> loadMFA E ok user d1 = loadMFA E ok user d"
  using find_user_cong [of d1 d user] by (simp add: loadMFA_def)

section \<open>Secrets at rest\<close>

text \<open>What is used of AES-GCM and base64: nonces are not empty, opening undoes sealing, decoding undoes
  encoding.\<close>

definition sealing_ok :: "auth_env \<Rightarrow> bool" where
  "sealing_ok E \<longleftrightarrow> en_b64_encode E [] = [] \<and> (\<forall>bs. en_b64_decode E (en_b64_encode E bs) = Some bs)
     \<and> (\<forall>g. en_mfaCipher E = Some g \<longrightarrow> 0 < gc_NonceSize g)
     \<and> (\<forall>g n bs. en_mfaCipher E = Some g \<longrightarrow> length n = gc_NonceSize g \<longrightarrow> gc_Open g n (gc_Seal g n bs) = Some bs)"

lemma decrypt_encrypt:
  assumes "sealing_ok E" "en_mfaCipher E = Some g" "length n = gc_NonceSize g"
  shows "\<exists>enc. encryptSecret E (Some n) s = Some enc \<and> decryptSecret E enc = Some s"
  using assms by (simp add: sealing_ok_def encryptSecret_def decryptSecret_def)

section \<open>Enrolment\<close>

lemma mfa_Enroll_cases:
  "mfa_Enroll E c url secret nonce r d = (reply, d1) \<Longrightarrow>
     d1 = d \<or> (\<exists>u s enc. find_user (actorFromRequest r) d = Some u \<and> \<not> us_mfa_enabled u
       \<and> reply = Enrolled s (url mfaIssuer (actorFromRequest r) s) \<and> encryptSecret E nonce s = Some enc
       \<and> d1 = update_user (actorFromRequest r) (\<lambda>u. u\<lparr>us_mfa_secret := Some enc, us_mfa_enabled := False, us_mfa_codes := None\<rparr>) d)"
  by (auto simp: mfa_Enroll_def Let_def split: option.splits if_splits)

text \<open>What a password sign-in reads of an account.\<close>

definition signin_view :: "user_row \<Rightarrow> string \<times> string \<times> string \<times> string \<times> bool \<times> bool" where
  "signin_view u = (us_hash u, us_role u, us_tenant u, us_tier u, us_mfa_enabled u, us_active u)"

lemma Login_view:
  assumes "\<And>n. map_option signin_view (find_user n d1) = map_option signin_view (find_user n d)"
    "ad_sessions d1 = ad_sessions d"
  shows "fst (Login E c r body d1) = fst (Login E c r body d)"
proof (cases body)
  case None
  then show ?thesis by (simp add: Login_def)
next
  case (Some x)
  obtain n p where x: "x = (n, p)" by force
  show ?thesis
  proof (cases "find_user n d")
    case None
    then have "find_user n d1 = None" using assms(1) [of n] by simp
    then show ?thesis using None by (simp add: Login_def Some x)
  next
    case u: (Some u)
    then obtain u1 where u1: "find_user n d1 = Some u1" "signin_view u1 = signin_view u" using assms(1) [of n] by auto
    then have eqs: "us_hash u1 = us_hash u" "us_role u1 = us_role u" "us_tenant u1 = us_tenant u" "us_tier u1 = us_tier u"
      "us_mfa_enabled u1 = us_mfa_enabled u" "us_active u1 = us_active u"
      by (simp_all add: signin_view_def)
    show ?thesis
      by (simp add: Login_def Some x u u1(1) eqs open_session_def createSession_def assms(2) split: option.splits)
  qed
qed

lemma Enroll_view:
  assumes "mfa_Enroll E c url secret nonce r d = (reply, d1)"
  shows "map_option signin_view (find_user n d1) = map_option signin_view (find_user n d)"
  using mfa_Enroll_cases [OF assms]
proof (elim disjE exE conjE)
  fix u s enc
  let ?me = "actorFromRequest r" and ?f = "\<lambda>u. u\<lparr>us_mfa_secret := Some enc, us_mfa_enabled := False, us_mfa_codes := None\<rparr>"
  assume u: "find_user ?me d = Some u" "\<not> us_mfa_enabled u" "d1 = update_user ?me ?f d"
  show ?thesis
  proof (cases "n = ?me")
    case True
    have "find_user n (update_user n ?f d) = map_option ?f (find_user n d)" by (rule find_update_user) simp
    then show ?thesis using u True by (simp add: signin_view_def)
  next
    case False
    then have "find_user n (update_user ?me ?f d) = find_user n d" by (intro find_update_other) simp_all
    then show ?thesis using u by simp
  qed
qed simp

lemma Enroll_sessions: "mfa_Enroll E c url secret nonce r d = (reply, d1) \<Longrightarrow> ad_sessions d1 = ad_sessions d"
  using mfa_Enroll_cases [of E c url secret nonce r d reply d1] by (auto simp: update_user_def)

section \<open>A concrete environment\<close>

text \<open>Signing a single set of claims, passwords stored as they are, and the identity for a cipher:
  enough to exercise every handler.\<close>

definition demo_env :: "claims \<Rightarrow> auth_env" where
  "demo_env CL = \<lparr>en_secret = ''k'', en_sign = (\<lambda>s cl. if s = ''k'' \<and> cl = CL then Some ''tok'' else None),
     en_parse = (\<lambda>now key tok. if tok = ''tok'' \<and> key ''HS256'' = Some ''k''
        \<and> (case map_of CL ''exp'' of Some (CNum e) \<Rightarrow> now < e * 10 ^ 9 | _ \<Rightarrow> False) then Some CL else None),
     en_hash = (\<lambda>_ p. Some p), en_match = (\<lambda>h p. h = p), en_b32 = (\<lambda>_. Some []), en_mac = (\<lambda>_ _. replicate 20 0),
     en_mfaCipher = Some \<lparr>gc_NonceSize = 12, gc_Seal = (\<lambda>_ b. b), gc_Open = (\<lambda>_ b. Some b)\<rparr>,
     en_b64_encode = bytes_str, en_b64_decode = (\<lambda>s. Some (str_bytes s))\<rparr>"

lemma demo_env_jwt: "jwt_ok (demo_env CL)"
  by (auto simp: jwt_ok_def demo_env_def)

lemma demo_env_sealing: "sealing_ok (demo_env CL)"
proof -
  have "bytes_str [] = []" by (simp add: bytes_str_def)
  then show ?thesis by (simp add: sealing_ok_def demo_env_def)
qed

definition demo_user :: user_row where
  "demo_user = \<lparr>us_id = ''1'', us_username = ''ann'', us_hash = ''pw'', us_role = ''admin'', us_tenant = ''acme'', us_tier = ''free'',
     us_mfa_enabled = False, us_mfa_secret = None, us_mfa_codes = None, us_active = True, us_external = None, us_created = 0\<rparr>"

definition demo_db :: "user_row list \<Rightarrow> auth_db" where
  "demo_db us = \<lparr>ad_users = us, ad_tenants = [], ad_resets = [], ad_roles = [''admin'', ''viewer''], ad_sessions = [], ad_audit = []\<rparr>"

definition demo_acall :: "int \<Rightarrow> auth_call" where
  "demo_acall now = \<lparr>ac_now = now, ac_id = ''j'', ac_rand = (\<lambda>_. Some ''0123456789''), ac_ok = (\<lambda>_. True), ac_dup = ''duplicate key''\<rparr>"

definition demo_req :: "string \<Rightarrow> string \<Rightarrow> headers \<Rightarrow> http_req" where
  "demo_req m path hs = \<lparr>hr_Method = m, hr_Path = path, hr_RawQuery = [], hr_Header = hs, hr_RemoteAddr = ''127.0.0.1''\<rparr>"

definition demo_mw :: "int \<Rightarrow> mw_call" where
  "demo_mw now = \<lparr>mc_now = now, mc_require = True, mc_hashKey = (\<lambda>s. s), mc_has_db = True, mc_read_ok = True, mc_rows = [],
     mc_revoked = Some []\<rparr>"

section \<open>Properties\<close>

text \<open>C9: A request leaves the middleware with a verified identity or none. Whatever identity headers
  the client sent, a forwarded request carries exactly the tenant and tier of the ingestion key it
  presented (an ingest-scoped one on the server telemetry routes), the default tenant where
  telemetry without a key is accepted, nothing on the routes that authenticate on their own, or the
  tenant, tier, role, subject and session of the claims of a valid token that is not an MFA
  challenge and whose session is not revoked; path, query, method and every other header are unchanged.\<close>

theorem forwarded_identity_is_verified:
  assumes "AuthMiddleware E c r (cache, st) = (Forward r1, s1)"
  shows "verified E c r cache st (map (hdr_Get (hr_Header r1)) identity_headers) \<and> same_otherwise r r1"
  using forwarded_verified [OF assms] by (simp add: identity_of_def)

theorem forwarded_identity_is_verified_witness:
  "let r = demo_req ''GET'' ''/healthz'' [(''X-Tenant-Id'', ''victim'')];
       r1 = demo_req ''GET'' ''/healthz'' []
   in verified (demo_env []) (demo_mw 0) r [] (NewSessionStore None 0) [[], [], [], [], []] \<and> same_otherwise r r1"
proof -
  let ?r = "demo_req ''GET'' ''/healthz'' [(''X-Tenant-Id'', ''victim'')]"
  have "AuthMiddleware (demo_env []) (demo_mw 0) ?r ([], NewSessionStore None 0)
      = (Forward (demo_req ''GET'' ''/healthz'' []), [], NewSessionStore None 0)"
    by code_simp
  from forwarded_identity_is_verified [OF this] show ?thesis
    by (simp add: identity_headers_def demo_req_def hdr_Get_def)
qed

text \<open>C29: With a second factor enrolled a password alone opens nothing. Signing in to such an account
  yields no session token, and the challenge that it may yield is refused with 401 by the middleware
  on every protected route, at any time.\<close>

theorem password_alone_opens_nothing:
  assumes "jwt_ok E" "find_user n d = Some u" "us_mfa_enabled u" "Login E c r (Some (n, p)) d = (reply, d1)"
  shows "d1 = d \<and> (\<forall>t role. reply \<noteq> SessionToken t role) \<and> (\<forall>ch. reply = MFARequired ch \<longrightarrow>
    (\<forall>c2 r2 cache st. protected_route r2 \<longrightarrow> bearerToken r2 = ch \<longrightarrow>
      (\<exists>msg. fst (AuthMiddleware E c2 r2 (cache, st)) = Deny 401 msg)))"
proof (intro conjI allI impI)
  show "d1 = d" "reply \<noteq> SessionToken t role" for t role
    using assms(2-4) by (auto simp: Login_def split: if_splits option.splits)
  fix ch c2 r2 cache st
  assume ch: "reply = MFARequired ch" "protected_route r2" "bearerToken r2 = ch"
  have "issueMFAChallengeToken E (ac_now c) n = Some ch"
    using assms(2-4) ch(1) by (auto simp: Login_def split: if_splits option.splits)
  from challenge_refused [OF assms(1) this ch(3)]
  show "\<exists>msg. fst (AuthMiddleware E c2 r2 (cache, st)) = Deny 401 msg"
    unfolding protected_middleware [OF ch(2)] .
qed

definition demo_challenge :: claims where
  "demo_challenge = [(''sub'', CStr ''ann''), (''exp'', CNum 300), (''iat'', CNum 0), (''mfa_pending'', CBool True)]"

theorem password_alone_opens_nothing_witness:
  "\<exists>d1. Login (demo_env demo_challenge) (demo_acall 0) (demo_req ''POST'' ''/api/v1/auth/login'' []) (Some (''ann'', ''pw''))
      (demo_db [demo_user\<lparr>us_mfa_enabled := True\<rparr>]) = (MFARequired ''tok'', d1)
   \<and> (\<exists>msg. fst (AuthMiddleware (demo_env demo_challenge) (demo_mw 1)
      (demo_req ''GET'' ''/api/v1/incidents'' [(''Authorization'', ''Bearer tok'')]) ([], NewSessionStore None 0)) = Deny 401 msg)"
proof -
  let ?d = "demo_db [demo_user\<lparr>us_mfa_enabled := True\<rparr>]" and ?E = "demo_env demo_challenge"
  let ?r = "demo_req ''GET'' ''/api/v1/incidents'' [(''Authorization'', ''Bearer tok'')]"
  have u: "find_user ''ann'' ?d = Some (demo_user\<lparr>us_mfa_enabled := True\<rparr>)"
    by (simp add: find_user_def demo_db_def demo_user_def)
  have l: "Login ?E (demo_acall 0) (demo_req ''POST'' ''/api/v1/auth/login'' []) (Some (''ann'', ''pw'')) ?d = (MFARequired ''tok'', ?d)"
    by code_simp
  have "protected_route ?r" "bearerToken ?r = ''tok''" by code_simp+
  then show ?thesis using password_alone_opens_nothing [OF demo_env_jwt u _ l] l by simp
qed

text \<open>The second step of a sign-in needs both factors: a session token is issued only for the
  subject of a valid, unexpired challenge whose account has the second factor on, and only when the
  code is one of the three current time steps of the account's secret or matches one of its unused
  recovery hashes, which is then gone.\<close>

theorem second_step_needs_second_factor:
  assumes "mfa_Login E c r (Some (tok, code)) d = (SessionToken t role, d2)"
  shows "\<exists>user u secret recovery. parseMFAChallengeToken E (ac_now c) tok = Ok user \<and> find_user user d = Some u
    \<and> us_mfa_enabled u \<and> loadMFA E True user d = Some (secret, recovery, True)
    \<and> (ValidateTOTP (en_b32 E) (en_mac E) secret code (ac_now c) = Some True \<or>
       (\<exists>a h b. recovery = a @ h # b \<and> en_match E h (normalizeRecoveryCode code)
          \<and> loadMFA E True user d2 = Some (secret, a @ b, True)))"
proof -
  obtain user u secret recovery d1 where m: "parseMFAChallengeToken E (ac_now c) tok = Ok user" "find_user user d = Some u"
    "us_mfa_enabled u" "loadMFA E True user d = Some (secret, recovery, True)"
    "consumeSecondFactor E (ac_now c) (ac_ok c 2) user secret recovery code d = (Some True, d1)"
    "open_session E c 3 r user role (us_tenant u) (us_tier u) d1 = (Some t, d2)"
    using mfa_Login_success [OF assms] by blast
  have d2: "loadMFA E True user d2 = loadMFA E True user d1" by (rule loadMFA_cong [OF open_session_users [OF m(6)]])
  have "ValidateTOTP (en_b32 E) (en_mac E) secret code (ac_now c) = Some True \<or>
       (\<exists>a h b. recovery = a @ h # b \<and> en_match E h (normalizeRecoveryCode code)
          \<and> loadMFA E True user d2 = Some (secret, a @ b, True))"
    using consumed_factor [OF m(5)] d2 loadMFA_codes [OF m(4)] by auto
  with m(1-4) show ?thesis by blast
qed

definition demo_both :: auth_env where
  "demo_both = (demo_env demo_challenge)\<lparr>en_sign := (\<lambda>_ _. Some ''session'')\<rparr>"

definition demo_enrolled :: user_row where
  "demo_enrolled = demo_user\<lparr>us_mfa_enabled := True, us_mfa_codes := Some [''aaaaa11111'', ''bbbbb22222'']\<rparr>"

theorem second_step_needs_second_factor_witness:
  "\<exists>user u secret recovery. parseMFAChallengeToken demo_both 1 ''tok'' = Ok user \<and> find_user user (demo_db [demo_enrolled]) = Some u
    \<and> us_mfa_enabled u \<and> loadMFA demo_both True user (demo_db [demo_enrolled]) = Some (secret, recovery, True)
    \<and> (ValidateTOTP (en_b32 demo_both) (en_mac demo_both) secret ''AAAAA-11111'' 1 = Some True \<or>
       (\<exists>a h b. recovery = a @ h # b \<and> en_match demo_both h (normalizeRecoveryCode ''AAAAA-11111'')))"
proof -
  let ?d = "demo_db [demo_enrolled]"
  let ?r = "demo_req ''POST'' ''/api/v1/auth/mfa/login'' []"
  have "mfa_Login demo_both (demo_acall 1) ?r (Some (''tok'', ''AAAAA-11111'')) ?d
      = (SessionToken ''session'' ''admin'', snd (mfa_Login demo_both (demo_acall 1) ?r (Some (''tok'', ''AAAAA-11111'')) ?d))"
    by code_simp
  moreover have "ac_now (demo_acall 1) = 1" by (simp add: demo_acall_def)
  ultimately show ?thesis using second_step_needs_second_factor [of demo_both "demo_acall 1" ?r] by metis
qed

text \<open>A recovery code works once. When a sign-in consumed a recovery code that matches a single
  stored hash, every later second step with that code on the resulting tables is refused with 401,
  unless the code happens to be a current time step.\<close>

theorem recovery_code_works_once:
  assumes "parseMFAChallengeToken E (ac_now c) tok = Ok user"
    "mfa_Login E c r (Some (tok, code)) d = (SessionToken t role, d2)"
    "loadMFA E True user d = Some (secret, recovery, True)"
    "length (filter (\<lambda>h. en_match E h (normalizeRecoveryCode code)) recovery) \<le> 1"
    "secret = [] \<or> ValidateTOTP (en_b32 E) (en_mac E) secret code (ac_now c) = Some False"
    "secret = [] \<or> ValidateTOTP (en_b32 E) (en_mac E) secret code (ac_now c2) = Some False"
    "parseMFAChallengeToken E (ac_now c2) tok2 = Ok user" "ac_ok c2 0" "ac_ok c2 1"
  shows "mfa_Login E c2 r2 (Some (tok2, code)) d2 = (Refuse 401 ''incorrect code'', d2)"
proof -
  obtain u d1 where m: "find_user user d = Some u" "us_mfa_enabled u"
    "consumeSecondFactor E (ac_now c) (ac_ok c 2) user secret recovery code d = (Some True, d1)"
    "open_session E c 3 r user role (us_tenant u) (us_tier u) d1 = (Some t, d2)"
    using mfa_Login_success [OF assms(2)] assms(1,3) by auto
  obtain a h b where h: "recovery = a @ h # b" "en_match E h (normalizeRecoveryCode code)"
    "d1 = update_user user (\<lambda>u. u\<lparr>us_mfa_codes := Some (a @ b)\<rparr>) d"
    using consumed_factor [OF m(3)] assms(5) by auto
  have none: "\<forall>x \<in> set (a @ b). \<not> en_match E x (normalizeRecoveryCode code)"
    using assms(4) h(1,2) by (auto simp: filter_empty_conv)
  have "find_user user d1 = Some (u\<lparr>us_mfa_codes := Some (a @ b)\<rparr>)"
    unfolding h(3) by (subst find_update_user) (simp_all add: m(1))
  then have u2: "find_user user d2 = Some (u\<lparr>us_mfa_codes := Some (a @ b)\<rparr>)"
    using find_user_cong [OF open_session_users [OF m(4)]] by simp
  have l2: "loadMFA E True user d2 = Some (secret, a @ b, True)"
    using loadMFA_codes [OF assms(3), of "a @ b"] loadMFA_cong [OF open_session_users [OF m(4)]] h(3) by simp
  show ?thesis
    using consume_refused [OF assms(6) none, of "ac_ok c2 2" user d2] u2 l2 m(2) assms(7-9) by (simp add: mfa_Login_def)
qed

theorem recovery_code_works_once_witness:
  "\<exists>d2. mfa_Login demo_both (demo_acall 1) (demo_req ''POST'' ''/'' []) (Some (''tok'', ''aaaaa-11111'')) (demo_db [demo_enrolled])
       = (SessionToken ''session'' ''admin'', d2)
     \<and> mfa_Login demo_both (demo_acall 2) (demo_req ''POST'' ''/'' []) (Some (''tok'', ''aaaaa-11111'')) d2
       = (Refuse 401 ''incorrect code'', d2)"
proof -
  let ?d = "demo_db [demo_enrolled]" and ?r = "demo_req ''POST'' ''/'' []" and ?c = "''aaaaa-11111''"
  let ?d2 = "snd (mfa_Login demo_both (demo_acall 1) ?r (Some (''tok'', ?c)) ?d)"
  have l: "mfa_Login demo_both (demo_acall 1) ?r (Some (''tok'', ?c)) ?d = (SessionToken ''session'' ''admin'', ?d2)"
    by code_simp
  have "mfa_Login demo_both (demo_acall 2) ?r (Some (''tok'', ?c)) ?d2 = (Refuse 401 ''incorrect code'', ?d2)"
  proof (rule recovery_code_works_once [OF _ l])
    show "parseMFAChallengeToken demo_both (ac_now (demo_acall 1)) ''tok'' = Ok ''ann''" by code_simp
    show "loadMFA demo_both True ''ann'' ?d = Some ([], [''aaaaa11111'', ''bbbbb22222''], True)" by code_simp
    show "length (filter (\<lambda>h. en_match demo_both h (normalizeRecoveryCode ?c)) [''aaaaa11111'', ''bbbbb22222'']) \<le> 1" by code_simp
    show "parseMFAChallengeToken demo_both (ac_now (demo_acall 2)) ''tok'' = Ok ''ann''" by code_simp
  qed (simp_all add: demo_acall_def)
  with l show ?thesis by blast
qed

text \<open>Two sign-ins at once bring a used recovery code back. Both read the stored hashes, the first
  uses one code, the second another, and each writes its own remainder of the list it read: the
  second write restores the first code, which a third sign-in then uses again.\<close>

theorem concurrent_sign_ins_restore_code:
  assumes "loadMFA E True user d = Some ([], a @ h1 # b @ h2 # e, True)"
    "en_match E h1 (normalizeRecoveryCode x1)" "en_match E h2 (normalizeRecoveryCode x2)"
    "\<forall>h \<in> set a. \<not> en_match E h (normalizeRecoveryCode x1)"
    "\<forall>h \<in> set (a @ h1 # b). \<not> en_match E h (normalizeRecoveryCode x2)"
    "normalizeRecoveryCode x1 \<noteq> []" "normalizeRecoveryCode x2 \<noteq> []"
  shows "\<exists>d1 d2 recovery d3.
      consumeSecondFactor E t1 True user [] (a @ h1 # b @ h2 # e) x1 d = (Some True, d1)
    \<and> consumeSecondFactor E t2 True user [] (a @ h1 # b @ h2 # e) x2 d1 = (Some True, d2)
    \<and> loadMFA E True user d2 = Some ([], recovery, True)
    \<and> consumeSecondFactor E t3 True user [] recovery x1 d2 = (Some True, d3)"
proof -
  let ?d1 = "update_user user (\<lambda>u. u\<lparr>us_mfa_codes := Some (a @ b @ h2 # e)\<rparr>) d"
  let ?d2 = "update_user user (\<lambda>u. u\<lparr>us_mfa_codes := Some ((a @ h1 # b) @ e)\<rparr>) ?d1"
  have c1: "consumeSecondFactor E t1 True user [] (a @ h1 # b @ h2 # e) x1 d = (Some True, ?d1)"
    by (rule consume_recovery [OF _ assms(6) _ assms(2,4)]) simp_all
  have c2: "consumeSecondFactor E t2 True user [] (a @ h1 # b @ h2 # e) x2 ?d1 = (Some True, ?d2)"
    by (rule consume_recovery [OF _ assms(7) _ assms(3,5)]) simp_all
  have l2: "loadMFA E True user ?d2 = Some ([], (a @ h1 # b) @ e, True)"
    by (rule loadMFA_codes [OF loadMFA_codes [OF assms(1)]])
  have "\<exists>d3. consumeSecondFactor E t3 True user [] ((a @ h1 # b) @ e) x1 ?d2 = (Some True, d3)"
    using consume_recovery [OF _ assms(6) _ assms(2,4), of "[]" t3 "(a @ h1 # b) @ e" "b @ e" user ?d2] by simp
  with c1 c2 l2 show ?thesis by blast
qed

theorem concurrent_sign_ins_restore_code_witness:
  "\<exists>d1 d2 recovery d3.
      consumeSecondFactor demo_both 1 True ''ann'' [] [''aaaaa11111'', ''bbbbb22222''] ''aaaaa-11111'' (demo_db [demo_enrolled]) = (Some True, d1)
    \<and> consumeSecondFactor demo_both 1 True ''ann'' [] [''aaaaa11111'', ''bbbbb22222''] ''bbbbb-22222'' d1 = (Some True, d2)
    \<and> loadMFA demo_both True ''ann'' d2 = Some ([], recovery, True)
    \<and> consumeSecondFactor demo_both 2 True ''ann'' [] recovery ''aaaaa-11111'' d2 = (Some True, d3)"
proof -
  have "loadMFA demo_both True ''ann'' (demo_db [demo_enrolled]) = Some ([], [] @ ''aaaaa11111'' # [] @ ''bbbbb22222'' # [], True)"
    by code_simp
  moreover have "en_match demo_both ''aaaaa11111'' (normalizeRecoveryCode ''aaaaa-11111'')" by code_simp
  moreover have "en_match demo_both ''bbbbb22222'' (normalizeRecoveryCode ''bbbbb-22222'')" by code_simp
  moreover have "\<forall>h \<in> set ([] @ ''aaaaa11111'' # []). \<not> en_match demo_both h (normalizeRecoveryCode ''bbbbb-22222'')" by code_simp
  moreover have "normalizeRecoveryCode ''aaaaa-11111'' \<noteq> []" "normalizeRecoveryCode ''bbbbb-22222'' \<noteq> []" by code_simp+
  ultimately show ?thesis
    using concurrent_sign_ins_restore_code [of demo_both "''ann''" "demo_db [demo_enrolled]" "[]" "''aaaaa11111''" "[]" "''bbbbb22222''" "[]"]
    by simp
qed

text \<open>A half-finished enrolment locks nobody out: after any call of \<open>Enroll\<close>, whatever its result,
  every password sign-in of every account gets the same answer as before.\<close>

theorem enrolment_leaves_sign_in:
  assumes "mfa_Enroll E c url secret nonce r d = (reply, d1)"
  shows "fst (Login E c2 r2 body d1) = fst (Login E c2 r2 body d)"
  using Login_view [OF Enroll_view [OF assms] Enroll_sessions [OF assms]] .

theorem enrolment_leaves_sign_in_witness:
  "let r = demo_req ''POST'' ''/'' [(''X-User-Subject'', ''ann'')]; login = demo_req ''POST'' ''/'' [];
       d1 = snd (mfa_Enroll demo_both (demo_acall 0) (\<lambda>_ _ _. ''u'') (Some ''S'') (Some (replicate 12 0)) r (demo_db [demo_user]))
   in fst (Login demo_both (demo_acall 1) login (Some (''ann'', ''pw'')) d1) =
      fst (Login demo_both (demo_acall 1) login (Some (''ann'', ''pw'')) (demo_db [demo_user]))"
  unfolding Let_def by (rule enrolment_leaves_sign_in [OF prod.collapse [symmetric]])

text \<open>The secret shown at enrolment is the one that codes are checked against: when the cipher opens
  what it sealed, the secret that \<open>Enroll\<close> returned is what the account's encrypted column reads
  back as, and the second factor stays off.\<close>

theorem enrolled_secret_reads_back:
  assumes "sealing_ok E" "\<And>g. en_mfaCipher E = Some g \<Longrightarrow> length n = gc_NonceSize g"
    "mfa_Enroll E c url secret (Some n) r d = (Enrolled s uri, d1)"
  shows "loadMFA E True (actorFromRequest r) d1 = Some (s, [], False)"
proof -
  let ?me = "actorFromRequest r"
  obtain u enc where u: "find_user ?me d = Some u" "encryptSecret E (Some n) s = Some enc"
    "d1 = update_user ?me (\<lambda>u. u\<lparr>us_mfa_secret := Some enc, us_mfa_enabled := False, us_mfa_codes := None\<rparr>) d"
    using assms(3) by (auto simp: mfa_Enroll_def Let_def split: option.splits if_splits)
  obtain g where g: "en_mfaCipher E = Some g" using u(2) by (auto simp: encryptSecret_def split: option.splits)
  have dec: "decryptSecret E enc = Some s" using decrypt_encrypt [OF assms(1) g assms(2) [OF g], of s] u(2) by auto
  have "find_user ?me d1 = Some (u\<lparr>us_mfa_secret := Some enc, us_mfa_enabled := False, us_mfa_codes := None\<rparr>)"
    unfolding u(3) by (subst find_update_user) (simp_all add: u(1))
  moreover have "enc \<noteq> []"
  proof
    assume "enc = []"
    then have "en_b64_encode E (n @ gc_Seal g n (str_bytes s)) = en_b64_encode E []"
      using u(2) g assms(1) by (simp add: encryptSecret_def sealing_ok_def)
    then have "n = []" using assms(1) unfolding sealing_ok_def by (metis append_is_Nil_conv option.inject)
    then show False using assms(1) assms(2) [OF g] g by (simp add: sealing_ok_def)
  qed
  ultimately show ?thesis using dec by (auto simp: loadMFA_def)
qed

theorem enrolled_secret_reads_back_witness:
  "\<exists>d1. mfa_Enroll demo_both (demo_acall 0) (\<lambda>_ _ _. ''u'') (Some ''S'') (Some (replicate 12 0))
      (demo_req ''POST'' ''/'' [(''X-User-Subject'', ''ann'')]) (demo_db [demo_user]) = (Enrolled ''S'' ''u'', d1)
    \<and> loadMFA demo_both True ''ann'' d1 = Some (''S'', [], False)"
proof -
  let ?r = "demo_req ''POST'' ''/'' [(''X-User-Subject'', ''ann'')]"
  let ?n = "replicate 12 (0 :: byte)"
  let ?d1 = "snd (mfa_Enroll demo_both (demo_acall 0) (\<lambda>_ _ _. ''u'') (Some ''S'') (Some ?n) ?r (demo_db [demo_user]))"
  have s: "sealing_ok demo_both" using demo_env_sealing by (simp add: demo_both_def sealing_ok_def)
  have n: "length ?n = gc_NonceSize g" if "en_mfaCipher demo_both = Some g" for g
    using that by (auto simp: demo_both_def demo_env_def)
  have e: "mfa_Enroll demo_both (demo_acall 0) (\<lambda>_ _ _. ''u'') (Some ''S'') (Some ?n) ?r (demo_db [demo_user]) = (Enrolled ''S'' ''u'', ?d1)"
    by code_simp
  have "actorFromRequest ?r = ''ann''" by code_simp
  then show ?thesis using e enrolled_secret_reads_back [OF s n e] by auto
qed

end
