(* ===== verification/Accounts.thy ===== *)
theory Accounts
  imports Auth
begin

text \<open>
  Accounts, tenants and passwords: the user administration and single sign-on of \<open>auth.go\<close>,
  \<open>tenants.go\<close> and \<open>password.go\<close> of \<open>src/gateway-service/internal/auth\<close>. The unique constraints on
  user names, tenant identifiers and reset identifiers are the tables' own; the text of the driver's
  error for a violated one is a field of the call. The OAuth provider's answer and the mailer are
  arguments.
\<close>

section \<open>Users\<close>

definition roleExists :: "auth_call \<Rightarrow> nat \<Rightarrow> string \<Rightarrow> auth_db \<Rightarrow> bool" where
  "roleExists c k role d \<longleftrightarrow> ac_ok c k \<and> role \<in> set (ad_roles d)"

text \<open>\<open>INSERT INTO users (username, password_hash, role, tenant_id, tier)\<close> with the columns' defaults;
  \<open>Inl\<close> is the driver's error.\<close>

definition insert_user ::
  "auth_call \<Rightarrow> nat \<Rightarrow> string \<Rightarrow> string \<Rightarrow> string \<Rightarrow> string \<Rightarrow> string \<Rightarrow> auth_db \<Rightarrow> string + auth_db" where
  "insert_user c k username h role tenantID tier d =
     (if \<not> ac_ok c k then Err ''driver: bad connection''
      else if username \<in> us_username ` set (ad_users d) then Err (ac_dup c)
      else Ok (d\<lparr>ad_users := ad_users d @
        [\<lparr>us_id = ac_id c, us_username = username, us_hash = h, us_role = role, us_tenant = tenantID, us_tier = tier,
          us_mfa_enabled = False, us_mfa_secret = None, us_mfa_codes = None, us_active = True, us_external = None,
          us_created = ac_now c\<rparr>]\<rparr>))"

definition isUniqueViolation :: "string \<Rightarrow> bool" where
  "isUniqueViolation msg \<longleftrightarrow> contains ''unique constraint'' msg \<or> contains ''duplicate key'' msg"

record User =
  u_ID :: string
  u_Username :: string
  u_Role :: string
  u_TenantID :: string
  u_Tier :: string
  u_CreatedAt :: int

definition GetUsers :: "auth_call \<Rightarrow> http_req \<Rightarrow> auth_db \<Rightarrow> auth_reply + User list" where
  "GetUsers c r d =
     (if hr_Method r \<noteq> ''GET'' then Inl (Refuse 405 ''Method not allowed'')
      else if \<not> ac_ok c 0 then Inl (Refuse 500 ''Failed to fetch users'')
      else Inr (map (\<lambda>u. \<lparr>u_ID = us_id u, u_Username = us_username u, u_Role = us_role u, u_TenantID = us_tenant u,
                           u_Tier = us_tier u, u_CreatedAt = us_created u\<rparr>)
              (rev (sort_key us_created (filter (\<lambda>u. us_tenant u = tenantOf r) (ad_users d))))))"

text \<open>The identifier is the query parameter, the role that of the body.\<close>

definition UpdateUserRole ::
  "auth_call \<Rightarrow> http_req \<Rightarrow> string \<Rightarrow> string option \<Rightarrow> auth_db \<Rightarrow> auth_reply \<times> auth_db" where
  "UpdateUserRole c r userID body d =
     (if hr_Method r \<noteq> ''PUT'' then (Refuse 405 ''Method not allowed'', d)
      else if userID = [] then (Refuse 400 ''User ID required'', d)
      else case body of None \<Rightarrow> (Refuse 400 ''Invalid request body'', d)
      | Some role \<Rightarrow>
          if \<not> roleExists c 0 role d then (Refuse 400 ''Invalid role'', d)
          else if \<not> ac_ok c 1 then (Refuse 500 ''Failed to update role'', d)
          else
            (let P = (\<lambda>u. us_id u = userID \<and> us_tenant u = tenantOf r)
             in if \<not> list_ex P (ad_users d) then (Refuse 404 ''User not found'', d)
                else (Replied 200, audit (actorFromRequest r, ''update'', ''user_role'', userID)
                  (d\<lparr>ad_users := map (\<lambda>u. if P u then u\<lparr>us_role := role\<rparr> else u) (ad_users d)\<rparr>))))"

definition DeleteUser :: "auth_call \<Rightarrow> http_req \<Rightarrow> string \<Rightarrow> auth_db \<Rightarrow> auth_reply \<times> auth_db" where
  "DeleteUser c r userID d =
     (if hr_Method r \<noteq> ''DELETE'' then (Refuse 405 ''Method not allowed'', d)
      else if userID = [] then (Refuse 400 ''User ID required'', d)
      else if \<not> ac_ok c 0 then (Refuse 500 ''Internal server error'', d)
      else
        (let P = (\<lambda>u. us_id u = userID \<and> us_tenant u = tenantOf r)
         in case find P (ad_users d) of None \<Rightarrow> (Refuse 404 ''User not found'', d)
            | Some u \<Rightarrow>
                if us_username u = ''admin'' then (Refuse 403 ''Cannot delete root admin user'', d)
                else if \<not> ac_ok c 1 then (Refuse 500 ''Failed to delete user'', d)
                else (Replied 200, audit (actorFromRequest r, ''delete'', ''user'', userID)
                  (d\<lparr>ad_users := filter (\<lambda>u. \<not> P u) (ad_users d)\<rparr>))))"

record user_request =
  ur_Username :: string
  ur_Password :: string
  ur_Role :: string
  ur_TenantID :: string
  ur_Tier :: string

definition or_else :: "string \<Rightarrow> string \<Rightarrow> string" where
  "or_else s e = (if s = [] then e else s)"

text \<open>What an insert's error is answered with, and the salt of \<open>bcrypt\<close>.\<close>

definition insert_refused :: "string \<Rightarrow> auth_reply" where
  "insert_refused e =
     (if isUniqueViolation e then Refuse 409 ''Username already exists'' else Refuse 500 ''Internal server error'')"

definition salt_of :: "auth_call \<Rightarrow> string" where
  "salt_of c = (case ac_rand c 0 of None \<Rightarrow> [] | Some s \<Rightarrow> s)"

definition CreateUser ::
  "auth_env \<Rightarrow> auth_call \<Rightarrow> http_req \<Rightarrow> user_request option \<Rightarrow> auth_db \<Rightarrow> auth_reply \<times> auth_db" where
  "CreateUser E c r body d =
     (if hr_Method r \<noteq> ''POST'' then (Refuse 405 ''Method not allowed'', d)
      else case body of None \<Rightarrow> (Refuse 400 ''Invalid request body'', d)
      | Some req \<Rightarrow>
          if ur_Username req = [] \<or> ur_Password req = [] \<or> ur_Role req = []
          then (Refuse 400 ''Username, password, and role are required'', d)
          else if \<not> roleExists c 0 (ur_Role req) d then (Refuse 400 ''Invalid role'', d)
          else case en_hash E (salt_of c) (ur_Password req) of None \<Rightarrow> (Refuse 500 ''Failed to hash password'', d)
          | Some h \<Rightarrow>
              (case insert_user c 1 (ur_Username req) h (ur_Role req) (tenantOf r) (or_else (ur_Tier req) ''standard'') d of
                 Inl e \<Rightarrow> (insert_refused e, d)
               | Inr d1 \<Rightarrow> (Replied 201, audit (actorFromRequest r, ''create'', ''user'', ur_Username req) d1)))"

definition Register ::
  "auth_env \<Rightarrow> auth_call \<Rightarrow> http_req \<Rightarrow> user_request option \<Rightarrow> auth_db \<Rightarrow> auth_reply \<times> auth_db" where
  "Register E c r body d =
     (if hr_Method r \<noteq> ''POST'' then (Refuse 405 ''Method not allowed'', d)
      else case body of None \<Rightarrow> (Refuse 400 ''Invalid request body'', d)
      | Some req \<Rightarrow>
          if ur_Username req = [] \<or> ur_Password req = [] then (Refuse 400 ''Username and password required'', d)
          else case en_hash E (salt_of c) (ur_Password req) of None \<Rightarrow> (Refuse 500 ''Failed to hash password'', d)
          | Some h \<Rightarrow>
              (case insert_user c 0 (ur_Username req) h ''viewer'' (or_else (ur_TenantID req) ''default'')
                  (or_else (ur_Tier req) ''standard'') d of
                 Inl e \<Rightarrow> (insert_refused e, d)
               | Inr d1 \<Rightarrow> (Replied 201, d1)))"

section \<open>Single sign-on\<close>

definition oauthStateCookie :: string where "oauthStateCookie = ''pt_oauth_state''"

text \<open>\<open>SSOLogin\<close>: the status and the state put in the cookie. \<open>state\<close> is \<open>generateOAuthState\<close>'s draw.\<close>

definition SSOLogin :: "string \<Rightarrow> string option \<Rightarrow> auth_reply \<times> string option" where
  "SSOLogin clientID state =
     (if clientID = [] then (Refuse 503 ''SSO is not configured on this server.'', None)
      else case state of None \<Rightarrow> (Refuse 500 ''Failed to start SSO login'', None)
      | Some s \<Rightarrow> (Replied 307, Some s))"

text \<open>What the provider answers: no valid token, no user information, an answer that does not decode,
  or an address.\<close>

datatype oauth_answer = NoToken | NoUserInfo | BadUserInfo | Email string

definition sso_email :: "string \<Rightarrow> oauth_answer \<Rightarrow> auth_reply + string" where
  "sso_email clientID answer = (case answer of
     NoUserInfo \<Rightarrow> Inl (Refuse 500 ''Failed to get user info'')
   | BadUserInfo \<Rightarrow> Inl (Refuse 500 ''Failed to parse user info'')
   | Email e \<Rightarrow> Inr e
   | NoToken \<Rightarrow> if clientID = ''mock-client-id'' then Inr ''demo.sso@company.com''
                else Inl (Refuse 500 ''Failed to exchange token''))"

text \<open>The account of an address, provisioned as a viewer of the default tenant when there is none:
  role, tenant and tier.\<close>

definition sso_account ::
  "auth_env \<Rightarrow> auth_call \<Rightarrow> string \<Rightarrow> auth_db \<Rightarrow> auth_reply + (string \<times> string \<times> string) \<times> auth_db" where
  "sso_account E c email d =
     (if \<not> ac_ok c 0 then Inl (Refuse 500 ''Database error'')
      else case find_user email d of
        Some u \<Rightarrow> Inr ((us_role u, us_tenant u, us_tier u), d)
      | None \<Rightarrow>
          (case ac_rand c 1 of None \<Rightarrow> Inl (Refuse 500 ''Failed to auto-provision SSO user'')
           | Some dummy \<Rightarrow>
               (let h = (case en_hash E (salt_of c) (dummy @ email) of None \<Rightarrow> [] | Some h \<Rightarrow> h)
                in case insert_user c 1 email h ''viewer'' ''default'' ''standard'' d of
                     Inl _ \<Rightarrow> Inl (Refuse 500 ''Failed to auto-provision SSO user'')
                   | Inr d1 \<Rightarrow> Inr ((''viewer'', ''default'', ''standard''), d1))))"

definition SSOCallback ::
  "auth_env \<Rightarrow> auth_call \<Rightarrow> string \<Rightarrow> (string \<Rightarrow> oauth_answer) \<Rightarrow> http_req \<Rightarrow> string \<Rightarrow> string option \<Rightarrow> string \<Rightarrow> auth_db \<Rightarrow> auth_reply \<times> auth_db" where
  "SSOCallback E c clientID exchange r state cookie code d =
     (if state = [] \<or> cookie \<noteq> Some state then (Refuse 400 ''Invalid OAuth state'', d)
      else if code = [] then (Refuse 400 ''Code not found'', d)
      else case sso_email clientID (exchange code) of Inl e \<Rightarrow> (e, d)
      | Inr email \<Rightarrow>
          if email = [] then (Refuse 400 ''Email not found in OAuth token'', d)
          else case sso_account E c email d of Inl e \<Rightarrow> (e, d)
          | Inr ((role, tenantID, tier), d1) \<Rightarrow>
              (case open_session E c 2 r email role tenantID tier d1 of
                 (None, d2) \<Rightarrow> (Refuse 500 ''Failed to generate token'', d2)
               | (Some t, d2) \<Rightarrow> (Redirected (''http://localhost:3000/settings?token='' @ t), d2)))"

section \<open>Tenants\<close>

text \<open>\<open>GetTenant\<close>: \<open>Inl\<close> when the query fails, \<open>None\<close> when there is no such tenant.\<close>

definition GetTenant :: "bool \<Rightarrow> string \<Rightarrow> auth_db \<Rightarrow> unit + tenant_row option" where
  "GetTenant read_ok i d = (if \<not> read_ok then Inl () else Inr (find (\<lambda>t. tn_id t = i) (ad_tenants d)))"

definition slug_char :: "char \<Rightarrow> bool" where
  "slug_char x = (let k = (of_char x :: nat) in (97 \<le> k \<and> k \<le> 122) \<or> (48 \<le> k \<and> k \<le> 57))"

text \<open>\<open>ReplaceAllString\<close> of every run of other characters by a hyphen; the flag says that a run is
  being skipped.\<close>

fun hyphenate :: "bool \<Rightarrow> string \<Rightarrow> string" where
  "hyphenate skipping [] = []"
| "hyphenate skipping (x # xs) =
     (if slug_char x then x # hyphenate False xs
      else if skipping then hyphenate True xs else CHR ''-'' # hyphenate True xs)"

definition trim_hyphens :: "string \<Rightarrow> string" where
  "trim_hyphens s = rev (dropWhile (\<lambda>x. x = CHR ''-'') (rev (dropWhile (\<lambda>x. x = CHR ''-'') s)))"

definition slugify :: "string \<Rightarrow> string" where
  "slugify name =
     (let s = trim_hyphens (hyphenate False (to_lower (trim_space name)))
      in if length s > 40 then trim_hyphens (take 40 s) else s)"

datatype signup_error = ErrUsernameTaken | ErrSlugExhausted | ErrStore string

text \<open>The loop of \<open>createTenantWithAdmin\<close>: attempts from \<open>k\<close> on; each is a transaction of three
  database calls after the begin, and a failed one leaves the tables as they were. The suffix of an
  attempt is the one drawn for it.\<close>

function tenant_attempts ::
  "auth_call \<Rightarrow> nat \<Rightarrow> string \<Rightarrow> string \<Rightarrow> string \<Rightarrow> string \<Rightarrow> auth_db \<Rightarrow> signup_error + string \<times> auth_db" where
  "tenant_attempts c k baseSlug name username h d =
     (if k \<ge> 5 then Inl ErrSlugExhausted
      else
        (let tenantID = (if k > 0 then baseSlug @ ''-'' @ (case ac_rand c (k + 1) of None \<Rightarrow> ''000000'' | Some s \<Rightarrow> s) else baseSlug);
             ok = (\<lambda>i. ac_ok c (1 + 4 * k + i))
         in if \<not> ok 0 then Inl (ErrStore ''begin'')
            else if \<not> ok 1 then Inl (ErrStore ''driver: bad connection'')
            else if tenantID \<in> tn_id ` set (ad_tenants d) then
              (if isUniqueViolation (ac_dup c) then tenant_attempts c (k + 1) baseSlug name username h d
               else Inl (ErrStore (ac_dup c)))
            else
              (case insert_user c (1 + 4 * k + 2) username h ''admin'' tenantID ''free''
                  (d\<lparr>ad_tenants := ad_tenants d @ [\<lparr>tn_id = tenantID, tn_name = name, tn_plan = ''free'', tn_status = ''active'',
                      tn_customer = None, tn_subscription = None, tn_created = ac_now c\<rparr>]\<rparr>) of
                 Inl e \<Rightarrow> Inl (if isUniqueViolation e then ErrUsernameTaken else ErrStore e)
               | Inr d1 \<Rightarrow> if \<not> ok 3 then Inl (ErrStore ''commit'') else Inr (tenantID, d1))))"
  by pat_completeness auto
termination
  by (relation "measure (\<lambda>(c, k, rest). 5 - k)") auto

declare tenant_attempts.simps [simp del]

definition createTenantWithAdmin ::
  "auth_call \<Rightarrow> string \<Rightarrow> string \<Rightarrow> string \<Rightarrow> string \<Rightarrow> auth_db \<Rightarrow> signup_error + string \<times> auth_db" where
  "createTenantWithAdmin c baseSlug name username h d =
     (if \<not> ac_ok c 0 then Inl (ErrStore ''read'')
      else if username \<in> us_username ` set (ad_users d) then Inl ErrUsernameTaken
      else tenant_attempts c 0 baseSlug name username h d)"

record SignupRequest =
  sq_OrgName :: string
  sq_Username :: string
  sq_Password :: string

definition Signup ::
  "auth_env \<Rightarrow> auth_call \<Rightarrow> http_req \<Rightarrow> SignupRequest option \<Rightarrow> auth_db \<Rightarrow> auth_reply \<times> auth_db" where
  "Signup E c r body d = (case body of None \<Rightarrow> (Refuse 400 ''invalid request body'', d)
   | Some req \<Rightarrow>
       (let org = trim_space (sq_OrgName req)
        in if org = [] \<or> sq_Username req = [] \<or> sq_Password req = []
           then (Refuse 400 ''org_name, username, and password are required'', d)
           else case en_hash E (salt_of c) (sq_Password req) of None \<Rightarrow> (Refuse 500 ''failed to hash password'', d)
           | Some h \<Rightarrow>
             (case createTenantWithAdmin c (or_else (slugify org) ''org'') org (sq_Username req) h d of
                Inl ErrUsernameTaken \<Rightarrow> (Refuse 409 ''username already exists'', d)
              | Inl ErrSlugExhausted \<Rightarrow> (Refuse 409 ''could not allocate a unique organization id, try a different name'', d)
              | Inl (ErrStore _) \<Rightarrow> (Refuse 500 ''failed to create account'', d)
              | Inr (tenantID, d1) \<Rightarrow>
                  (case open_session E c 21 r (sq_Username req) ''admin'' tenantID ''free'' d1 of
                     (None, d2) \<Rightarrow> (Refuse 500 ''account created but failed to issue token; please log in'', d2)
                   | (Some t, d2) \<Rightarrow> (SignedUp t tenantID, audit (sq_Username req, ''create'', ''tenant'', tenantID) d2)))))"

definition update_tenant :: "bool \<Rightarrow> string \<Rightarrow> (tenant_row \<Rightarrow> tenant_row) \<Rightarrow> auth_db \<Rightarrow> bool \<times> auth_db" where
  "update_tenant ok i f d =
     (if \<not> ok then (False, d) else (True, d\<lparr>ad_tenants := map (\<lambda>t. if tn_id t = i then f t else t) (ad_tenants d)\<rparr>))"

definition UpdatePlan :: "bool \<Rightarrow> string \<Rightarrow> string \<Rightarrow> auth_db \<Rightarrow> bool \<times> auth_db" where
  "UpdatePlan ok tenantID plan d = update_tenant ok tenantID (\<lambda>t. t\<lparr>tn_plan := plan\<rparr>) d"

definition SetStatus :: "bool \<Rightarrow> string \<Rightarrow> string \<Rightarrow> auth_db \<Rightarrow> bool \<times> auth_db" where
  "SetStatus ok tenantID status d = update_tenant ok tenantID (\<lambda>t. t\<lparr>tn_status := status\<rparr>) d"

definition nullif_empty :: "string \<Rightarrow> string option" where
  "nullif_empty s = (if s = [] then None else Some s)"

definition SetStripeIDs :: "bool \<Rightarrow> string \<Rightarrow> string \<Rightarrow> string \<Rightarrow> auth_db \<Rightarrow> bool \<times> auth_db" where
  "SetStripeIDs ok tenantID customerID subscriptionID d =
     update_tenant ok tenantID (\<lambda>t. t\<lparr>tn_customer := nullif_empty customerID, tn_subscription := nullif_empty subscriptionID\<rparr>) d"

definition TenantByStripeCustomer :: "bool \<Rightarrow> bool \<Rightarrow> string \<Rightarrow> auth_db \<Rightarrow> unit + tenant_row option" where
  "TenantByStripeCustomer ok1 ok2 customerID d =
     (if \<not> ok1 then Inl ()
      else case find (\<lambda>t. tn_customer t = Some customerID) (ad_tenants d) of
          None \<Rightarrow> Inr None | Some t \<Rightarrow> GetTenant ok2 (tn_id t) d)"

definition GetCurrentTenant :: "bool \<Rightarrow> http_req \<Rightarrow> auth_db \<Rightarrow> auth_reply + tenant_row" where
  "GetCurrentTenant ok r d = (case GetTenant ok (tenantOf r) d of
     Inl _ \<Rightarrow> Inl (Refuse 500 ''failed to load tenant'')
   | Inr None \<Rightarrow> Inl (Refuse 404 ''tenant not found'')
   | Inr (Some t) \<Rightarrow> Inr t)"

section \<open>Passwords\<close>

definition minPasswordLength :: nat where "minPasswordLength = 8"
definition resetTokenTTL :: int where "resetTokenTTL = 3600 * 10 ^ 9"

definition validatePasswordPolicy :: "string \<Rightarrow> bool" where
  "validatePasswordPolicy pw \<longleftrightarrow> length pw \<ge> minPasswordLength"

text \<open>\<open>Change\<close> with the current and the new password; the revocation cache is the replica's.\<close>

definition pw_Change ::
  "auth_env \<Rightarrow> auth_call \<Rightarrow> http_req \<Rightarrow> (string \<times> string) option \<Rightarrow> auth_db \<times> SessionStore \<Rightarrow> auth_reply \<times> auth_db \<times> SessionStore" where
  "pw_Change E c r body s = (case s of (d, st) \<Rightarrow>
     let user = actorFromRequest r
     in if user = [] then (Refuse 401 ''unauthenticated'', d, st)
        else case body of None \<Rightarrow> (Refuse 400 ''invalid request body'', d, st)
        | Some (current, new) \<Rightarrow>
            if \<not> validatePasswordPolicy new then (Refuse 400 ''password must be at least 8 characters'', d, st)
            else case (if ac_ok c 0 then find_user user d else None) of
                None \<Rightarrow> (Refuse 401 ''user not found'', d, st)
              | Some u \<Rightarrow>
                  if \<not> en_match E (us_hash u) current then (Refuse 401 ''current password is incorrect'', d, st)
                  else case en_hash E (salt_of c) new of None \<Rightarrow> (Refuse 500 ''failed to hash password'', d, st)
                  | Some h \<Rightarrow>
                      if \<not> ac_ok c 1 then (Refuse 500 ''failed to update password'', d, st)
                      else (case RevokeOthersForUser (ac_ok c 2) (ac_now c) user (currentSession r) (ad_sessions d, st) of
                          (_, rows, st1) \<Rightarrow> (Replied 200,
                            audit (user, ''update'', ''user_password'', user)
                              ((update_user user (\<lambda>u. u\<lparr>us_hash := h\<rparr>) d)\<lparr>ad_sessions := rows\<rparr>), st1)))"

text \<open>\<open>createResetToken\<close> with the secret it drew.\<close>

definition createResetToken :: "auth_env \<Rightarrow> auth_call \<Rightarrow> nat \<Rightarrow> string \<Rightarrow> auth_db \<Rightarrow> string option \<times> auth_db" where
  "createResetToken E c k username d = (case ac_rand c 1 of None \<Rightarrow> (None, d)
   | Some secret \<Rightarrow>
       (case en_hash E (salt_of c) secret of None \<Rightarrow> (None, d)
        | Some h \<Rightarrow>
            if \<not> ac_ok c k \<or> ac_id c \<in> pr_id ` set (ad_resets d) then (None, d)
            else (Some (ac_id c @ ''.'' @ secret),
              d\<lparr>ad_resets := ad_resets d @ [\<lparr>pr_id = ac_id c, pr_username = username, pr_hash = h,
                  pr_expires = ac_now c + resetTokenTTL, pr_used = None\<rparr>]\<rparr>)))"

text \<open>\<open>Forgot\<close>: the reply, the link delivered to the account's owner if any, and the tables.\<close>

definition resetLink :: "string \<Rightarrow> string \<Rightarrow> string" where
  "resetLink baseURL token =
     (let base = rev (dropWhile (\<lambda>x. x = CHR ''/'') (rev (trim_space baseURL)))
      in or_else base ''http://localhost:3000'' @ ''/reset-password?token='' @ token)"

definition pw_Forgot ::
  "auth_env \<Rightarrow> auth_call \<Rightarrow> string \<Rightarrow> string option \<Rightarrow> auth_db \<Rightarrow> auth_reply \<times> (string \<times> string) option \<times> auth_db" where
  "pw_Forgot E c baseURL body d = (case body of None \<Rightarrow> (Refuse 400 ''invalid request body'', None, d)
   | Some name \<Rightarrow>
       (let username = trim_space name
        in if username = [] then (Replied 200, None, d)
           else if \<not> ac_ok c 0 \<or> username \<notin> us_username ` set (ad_users d) then (Replied 200, None, d)
           else case createResetToken E c 1 username d of
               (None, d1) \<Rightarrow> (Replied 200, None, d1)
             | (Some token, d1) \<Rightarrow> (Replied 200, Some (username, resetLink baseURL token), d1)))"

definition splitResetToken :: "string \<Rightarrow> (string \<times> string) option" where
  "splitResetToken token = (case cut CHR ''.'' (trim_space token) of (i, secret, found) \<Rightarrow>
     if \<not> found \<or> i = [] \<or> secret = [] then None
     else if length secret > 256 then None
     else Some (i, secret))"

text \<open>The two statements of \<open>consumeResetToken\<close>: reading a live row, and burning it when it is still
  unused.\<close>

definition live_reset :: "int \<Rightarrow> string \<Rightarrow> auth_db \<Rightarrow> reset_row option" where
  "live_reset now i d = find (\<lambda>p. pr_id p = i \<and> pr_used p = None \<and> pr_expires p > now) (ad_resets d)"

definition burn_reset :: "int \<Rightarrow> string \<Rightarrow> auth_db \<Rightarrow> bool \<times> auth_db" where
  "burn_reset now i d =
     (list_ex (\<lambda>p. pr_id p = i \<and> pr_used p = None) (ad_resets d),
      d\<lparr>ad_resets := map (\<lambda>p. if pr_id p = i \<and> pr_used p = None then p\<lparr>pr_used := Some now\<rparr> else p) (ad_resets d)\<rparr>)"

definition consumeResetToken :: "auth_env \<Rightarrow> auth_call \<Rightarrow> string \<Rightarrow> auth_db \<Rightarrow> string option \<times> auth_db" where
  "consumeResetToken E c token d = (case splitResetToken token of None \<Rightarrow> (None, d)
   | Some (i, secret) \<Rightarrow>
       (case (if ac_ok c 0 then live_reset (ac_now c) i d else None) of None \<Rightarrow> (None, d)
        | Some p \<Rightarrow>
            if \<not> en_match E (pr_hash p) secret then (None, d)
            else if \<not> ac_ok c 1 then (None, d)
            else case burn_reset (ac_now c) i d of
                (False, d1) \<Rightarrow> (None, d1) | (True, d1) \<Rightarrow> (Some (pr_username p), d1)))"

definition pw_Reset ::
  "auth_env \<Rightarrow> auth_call \<Rightarrow> (string \<times> string) option \<Rightarrow> auth_db \<times> SessionStore \<Rightarrow> auth_reply \<times> auth_db \<times> SessionStore" where
  "pw_Reset E c body s = (case s of (d, st) \<Rightarrow>
     (case body of None \<Rightarrow> (Refuse 400 ''invalid request body'', d, st)
      | Some (token, new) \<Rightarrow>
          if \<not> validatePasswordPolicy new then (Refuse 400 ''password must be at least 8 characters'', d, st)
          else case consumeResetToken E c token d of
              (None, d1) \<Rightarrow> (Refuse 400 ''invalid or expired reset token'', d1, st)
            | (Some username, d1) \<Rightarrow>
                (case en_hash E (salt_of c) new of None \<Rightarrow> (Refuse 500 ''failed to hash password'', d1, st)
                 | Some h \<Rightarrow>
                     if \<not> ac_ok c 2 then (Refuse 500 ''failed to update password'', d1, st)
                     else (case RevokeAllForUser (ac_ok c 3) (ac_now c) username (ad_sessions d1, st) of
                         (_, rows, st1) \<Rightarrow> (Replied 200,
                           audit (username, ''update'', ''user_password'', username)
                             ((update_user username (\<lambda>u. u\<lparr>us_hash := h\<rparr>) d1)\<lparr>ad_sessions := rows\<rparr>), st1)))))"

section \<open>Inserting accounts\<close>

lemma insert_user_OkD:
  assumes "insert_user c k username h role tenantID tier d = Ok d1"
  shows "username \<notin> us_username ` set (ad_users d) \<and> (\<exists>u. ad_users d1 = ad_users d @ [u] \<and> us_username u = username
    \<and> us_hash u = h \<and> us_role u = role \<and> us_tenant u = tenantID \<and> us_tier u = tier \<and> us_active u \<and> \<not> us_mfa_enabled u)
    \<and> ad_tenants d1 = ad_tenants d \<and> ad_resets d1 = ad_resets d \<and> ad_sessions d1 = ad_sessions d"
  using assms by (auto simp: insert_user_def split: if_splits)

lemma insert_user_succeeds:
  "ac_ok c k \<Longrightarrow> username \<notin> us_username ` set (ad_users d) \<Longrightarrow> \<exists>d1. insert_user c k username h role tenantID tier d = Ok d1"
  by (simp add: insert_user_def)

lemma find_inserted:
  assumes "insert_user c k username h role tenantID tier d = Ok d1"
  shows "\<exists>u. find_user username d1 = Some u \<and> us_hash u = h \<and> us_role u = role \<and> us_tenant u = tenantID
    \<and> us_tier u = tier \<and> us_active u \<and> \<not> us_mfa_enabled u"
proof -
  obtain u where u: "ad_users d1 = ad_users d @ [u]" "us_username u = username" "us_hash u = h" "us_role u = role"
    "us_tenant u = tenantID" "us_tier u = tier" "us_active u" "\<not> us_mfa_enabled u" "username \<notin> us_username ` set (ad_users d)"
    using insert_user_OkD [OF assms] by blast
  have "find (\<lambda>u. us_username u = username) (us @ [u]) = Some u" if "username \<notin> us_username ` set us" for us
    using that u(2) by (induction us) auto
  then have "find_user username d1 = Some u" using u(1,9) by (simp add: find_user_def)
  with u show ?thesis by blast
qed

section \<open>Tenant identifiers\<close>

text \<open>The shape of a slug: at most forty characters, letters, digits and single hyphens, with no hyphen
  at either end.\<close>

definition hyphen_ok :: "char \<Rightarrow> char \<Rightarrow> bool" where
  "hyphen_ok x y \<longleftrightarrow> \<not> (x = CHR ''-'' \<and> y = CHR ''-'')"

definition slug_ok :: "string \<Rightarrow> bool" where
  "slug_ok s \<longleftrightarrow> length s \<le> 40 \<and> (\<forall>x \<in> set s. slug_char x \<or> x = CHR ''-'') \<and> successively hyphen_ok s
     \<and> (s \<noteq> [] \<longrightarrow> hd s \<noteq> CHR ''-'' \<and> last s \<noteq> CHR ''-'')"

lemma slug_char_hyphen [simp]: "\<not> slug_char CHR ''-''"
  by (simp add: slug_char_def)

lemma hyphenate_chars: "x \<in> set (hyphenate b s) \<Longrightarrow> slug_char x \<or> x = CHR ''-''"
  by (induction b s rule: hyphenate.induct) (auto split: if_splits)

lemma hyphenate_hd: "hyphenate True s \<noteq> [] \<Longrightarrow> hd (hyphenate True s) \<noteq> CHR ''-''"
  by (induction s) auto

lemma hyphenate_single: "successively hyphen_ok (hyphenate b s)"
proof (induction b s rule: hyphenate.induct)
  case (2 b x xs)
  show ?case
  proof (cases "slug_char x")
    case True
    then have "x \<noteq> CHR ''-''" by auto
    then show ?thesis using True 2(1) by (cases "hyphenate False xs") (auto simp: hyphen_ok_def)
  next
    case False
    then show ?thesis using 2 hyphenate_hd [of xs] by (cases "hyphenate True xs") (auto simp: hyphen_ok_def)
  qed
qed simp

lemma hyphenate_id:
  "\<forall>x \<in> set s. slug_char x \<or> x = CHR ''-'' \<Longrightarrow> successively hyphen_ok s \<Longrightarrow> (b \<longrightarrow> s = [] \<or> hd s \<noteq> CHR ''-'') \<Longrightarrow> hyphenate b s = s"
proof (induction s arbitrary: b)
  case (Cons x xs)
  have next_ok: "xs = [] \<or> hd xs \<noteq> CHR ''-''" if "x = CHR ''-''"
    using Cons.prems(2) that by (cases xs) (auto simp: hyphen_ok_def)
  have "successively hyphen_ok xs" using Cons.prems(2) by (cases xs) auto
  then show ?case using Cons.IH [of False] Cons.IH [of True] Cons.prems next_ok by (cases "x = CHR ''-''") auto
qed simp

lemma successively_append: "successively P (a @ b) \<Longrightarrow> successively P a \<and> successively P b"
  by (simp add: successively_append_iff)

lemma trim_hyphens_infix: "\<exists>a b. s = a @ trim_hyphens s @ b"
proof -
  let ?m = "dropWhile (\<lambda>x. x = CHR ''-'') s"
  have "?m = trim_hyphens s @ rev (takeWhile (\<lambda>x. x = CHR ''-'') (rev ?m))"
    unfolding trim_hyphens_def by (metis rev_append rev_rev_ident takeWhile_dropWhile_id)
  then show ?thesis by (metis takeWhile_dropWhile_id)
qed

lemma trim_hyphens_ends:
  "trim_hyphens s \<noteq> [] \<Longrightarrow> hd (trim_hyphens s) \<noteq> CHR ''-'' \<and> last (trim_hyphens s) \<noteq> CHR ''-''"
proof -
  let ?P = "\<lambda>x. x = CHR ''-''" and ?m = "dropWhile (\<lambda>x. x = CHR ''-'') s"
  assume ne: "trim_hyphens s \<noteq> []"
  then have r: "dropWhile ?P (rev ?m) \<noteq> []" by (simp add: trim_hyphens_def)
  have "?m = trim_hyphens s @ rev (takeWhile ?P (rev ?m))"
    unfolding trim_hyphens_def by (metis rev_append rev_rev_ident takeWhile_dropWhile_id)
  then have "hd ?m = hd (trim_hyphens s)" "?m \<noteq> []" using ne by (metis hd_append2, metis append_is_Nil_conv)
  then have "hd (trim_hyphens s) \<noteq> CHR ''-''" using hd_dropWhile [of ?P s] by force
  moreover have "last (trim_hyphens s) \<noteq> CHR ''-''"
    using hd_dropWhile [OF r] r by (simp add: trim_hyphens_def last_rev)
  ultimately show ?thesis ..
qed

lemma trim_hyphens_id: "s = [] \<or> hd s \<noteq> CHR ''-'' \<and> last s \<noteq> CHR ''-'' \<Longrightarrow> trim_hyphens s = s"
  by (cases "s = []") (simp_all add: trim_hyphens_def dropWhile_hd_id hd_rev)

definition slug_text :: "string \<Rightarrow> bool" where
  "slug_text s \<longleftrightarrow> (\<forall>x \<in> set s. slug_char x \<or> x = CHR ''-'') \<and> successively hyphen_ok s"

lemma slug_text_infix: "slug_text (a @ s @ b) \<Longrightarrow> slug_text s"
  unfolding slug_text_def by (auto simp: successively_append_iff)

lemma slug_text_trim: "slug_text s \<Longrightarrow> slug_text (trim_hyphens s)"
  using trim_hyphens_infix [of s] slug_text_infix by metis

lemma length_trim_hyphens: "length (trim_hyphens s) \<le> length s"
  using trim_hyphens_infix [of s] by (metis add_leE le_add2 length_append)

lemma slug_okI: "slug_text s \<Longrightarrow> length (trim_hyphens s) \<le> 40 \<Longrightarrow> slug_ok (trim_hyphens s)"
  using slug_text_trim [of s] trim_hyphens_ends [of s] unfolding slug_ok_def slug_text_def by blast

lemma slugify_ok: "slug_ok (slugify name)"
proof -
  let ?h = "hyphenate False (to_lower (trim_space name))"
  have h: "slug_text ?h" unfolding slug_text_def using hyphenate_chars hyphenate_single by blast
  show ?thesis
  proof (cases "length (trim_hyphens ?h) > 40")
    case True
    have "slug_text (take 40 (trim_hyphens ?h))"
      using slug_text_infix [of "[]" "take 40 (trim_hyphens ?h)" "drop 40 (trim_hyphens ?h)"] slug_text_trim [OF h] by simp
    moreover have "length (trim_hyphens (take 40 (trim_hyphens ?h))) \<le> 40"
      using length_trim_hyphens [of "take 40 (trim_hyphens ?h)"] by simp
    ultimately show ?thesis using True slug_okI by (simp add: slugify_def Let_def)
  next
    case False
    then show ?thesis using slug_okI [OF h] by (simp add: slugify_def Let_def)
  qed
qed

lemma slug_lower: "slug_char x \<or> x = CHR ''-'' \<Longrightarrow> lower_char x = x"
  by (auto simp: slug_char_def lower_char_def Let_def)

lemma slug_not_space: "slug_char x \<or> x = CHR ''-'' \<Longrightarrow> \<not> is_space x"
  by (auto simp: slug_char_def is_space_def Let_def)

lemma slugify_fixes: "slug_ok s \<Longrightarrow> slugify s = s"
proof -
  assume s: "slug_ok s"
  then have c: "\<forall>x \<in> set s. slug_char x \<or> x = CHR ''-''" by (simp add: slug_ok_def)
  have t: "trim_space s = s" unfolding trim_space_fixed using c slug_not_space by (cases "s = []") auto
  have l: "to_lower s = s" unfolding to_lower_def using c slug_lower by (simp add: map_idI)
  have "hyphenate False s = s" using s by (intro hyphenate_id) (auto simp: slug_ok_def)
  moreover have "trim_hyphens s = s" using s by (intro trim_hyphens_id) (auto simp: slug_ok_def)
  ultimately show ?thesis using t l s by (simp add: slugify_def Let_def slug_ok_def)
qed

section \<open>Sign-up\<close>

definition suffixed :: "string \<Rightarrow> string \<Rightarrow> bool" where
  "suffixed base i \<longleftrightarrow> i = base \<or> (\<exists>x. i = base @ ''-'' @ x)"

lemma tenant_attempts_OkD:
  "tenant_attempts c k base name username h d = Inr (tid, d1) \<Longrightarrow>
     tid \<notin> tn_id ` set (ad_tenants d) \<and> username \<notin> us_username ` set (ad_users d) \<and> suffixed base tid
     \<and> (\<exists>t. ad_tenants d1 = ad_tenants d @ [t] \<and> tn_id t = tid \<and> tn_plan t = ''free'' \<and> tn_status t = ''active'')
     \<and> (\<exists>u. ad_users d1 = ad_users d @ [u] \<and> us_username u = username \<and> us_role u = ''admin'' \<and> us_tenant u = tid \<and> us_hash u = h)
     \<and> ad_sessions d1 = ad_sessions d \<and> ad_resets d1 = ad_resets d"
proof (induction c k base name username h d rule: tenant_attempts.induct)
  case (1 c k base name username h d)
  let ?tid = "if k > 0 then base @ ''-'' @ (case ac_rand c (k + 1) of None \<Rightarrow> ''000000'' | Some s \<Rightarrow> s) else base"
  let ?t = "\<lparr>tn_id = ?tid, tn_name = name, tn_plan = ''free'', tn_status = ''active'',
                      tn_customer = None, tn_subscription = None, tn_created = ac_now c\<rparr>"
  have k: "\<not> k \<ge> 5" "ac_ok c (1 + 4 * k + 0)" "ac_ok c (1 + 4 * k + 1)"
    using "1.prems" by (auto simp: tenant_attempts.simps [of c k] Let_def split: if_splits)
  show ?case
  proof (cases "?tid \<in> tn_id ` set (ad_tenants d)")
    case True
    then have "isUniqueViolation (ac_dup c)" "tenant_attempts c (k + 1) base name username h d = Inr (tid, d1)"
      using "1.prems" k by (auto simp: tenant_attempts.simps [of c k] Let_def split: if_splits)
    then show ?thesis using "1.IH" k True by (simp add: Let_def)
  next
    case False
    obtain d2 where d2: "insert_user c (1 + 4 * k + 2) username h ''admin'' ?tid ''free'' (d\<lparr>ad_tenants := ad_tenants d @ [?t]\<rparr>) = Inr d2"
      "tid = ?tid" "d1 = d2"
      using "1.prems" k False by (auto simp: tenant_attempts.simps [of c k] Let_def split: if_splits sum.splits)
    have "suffixed base ?tid" by (auto simp: suffixed_def)
    then show ?thesis using insert_user_OkD [OF d2(1)] d2(2,3) False by auto
  qed
qed

lemma createTenant_OkD:
  "createTenantWithAdmin c base name username h d = Inr (tid, d1) \<Longrightarrow>
     tid \<notin> tn_id ` set (ad_tenants d) \<and> username \<notin> us_username ` set (ad_users d) \<and> suffixed base tid
     \<and> (\<exists>t. ad_tenants d1 = ad_tenants d @ [t] \<and> tn_id t = tid \<and> tn_plan t = ''free'' \<and> tn_status t = ''active'')
     \<and> (\<exists>u. ad_users d1 = ad_users d @ [u] \<and> us_username u = username \<and> us_role u = ''admin'' \<and> us_tenant u = tid \<and> us_hash u = h)
     \<and> ad_sessions d1 = ad_sessions d \<and> ad_resets d1 = ad_resets d"
proof -
  assume "createTenantWithAdmin c base name username h d = Inr (tid, d1)"
  then have "tenant_attempts c 0 base name username h d = Inr (tid, d1)"
    by (simp add: createTenantWithAdmin_def split: if_splits)
  then show ?thesis by (rule tenant_attempts_OkD)
qed

lemma open_session_tables:
  "open_session E c k r user role tenant tier d = (t, d1) \<Longrightarrow>
     ad_users d1 = ad_users d \<and> ad_tenants d1 = ad_tenants d \<and> ad_resets d1 = ad_resets d \<and> ad_roles d1 = ad_roles d
     \<and> ad_audit d1 = ad_audit d"
  by (auto simp: open_session_def createSession_def)

lemma open_session_token:
  "open_session E c k r user role tenant tier d = (t, d1) \<Longrightarrow> t = issueSessionToken E (ac_now c) user role tenant tier (ac_id c)"
  by (auto simp: open_session_def createSession_def)

lemma audit_tables [simp]:
  "ad_users (audit e d) = ad_users d" "ad_tenants (audit e d) = ad_tenants d" "ad_resets (audit e d) = ad_resets d"
  "ad_sessions (audit e d) = ad_sessions d" "ad_roles (audit e d) = ad_roles d"
  by (simp_all add: audit_def)

lemma update_user_tables [simp]:
  "ad_tenants (update_user n f d) = ad_tenants d" "ad_resets (update_user n f d) = ad_resets d"
  "ad_sessions (update_user n f d) = ad_sessions d"
  by (simp_all add: update_user_def)

lemma Signup_cases:
  assumes "Signup E c r (Some req) d = (reply, d1)"
  shows "d1 = d \<and> (\<exists>code msg. reply = Refuse code msg) \<or>
    (\<exists>h tid d2. en_hash E (salt_of c) (sq_Password req) = Some h
      \<and> createTenantWithAdmin c (or_else (slugify (trim_space (sq_OrgName req))) ''org'') (trim_space (sq_OrgName req)) (sq_Username req) h d
        = Inr (tid, d2)
      \<and> ad_users d1 = ad_users d2 \<and> ad_tenants d1 = ad_tenants d2 \<and> ad_resets d1 = ad_resets d2
      \<and> ((\<exists>t. reply = SignedUp t tid \<and> issueSessionToken E (ac_now c) (sq_Username req) ''admin'' tid ''free'' (ac_id c) = Some t)
         \<or> (\<exists>msg. reply = Refuse 500 msg)))"
proof -
  let ?org = "trim_space (sq_OrgName req)"
  show ?thesis
  proof (cases "?org = [] \<or> sq_Username req = [] \<or> sq_Password req = []")
    case False
    then show ?thesis
    proof (cases "en_hash E (salt_of c) (sq_Password req)")
      case None
      then show ?thesis using assms False by (auto simp: Signup_def Let_def)
    next
      case (Some h)
      note s = False Some
      show ?thesis
      proof (cases "createTenantWithAdmin c (or_else (slugify ?org) ''org'') ?org (sq_Username req) h d")
        case (Inl e)
        then show ?thesis using assms s by (cases e) (auto simp: Signup_def Let_def)
      next
        case (Inr x)
        obtain tid d2 where x: "x = (tid, d2)" by force
        obtain t d3 where o: "open_session E c 21 r (sq_Username req) ''admin'' tid ''free'' d2 = (t, d3)" by force
        have "(reply, d1) = (case t of None \<Rightarrow> (Refuse 500 ''account created but failed to issue token; please log in'', d3)
            | Some t \<Rightarrow> (SignedUp t tid, audit (sq_Username req, ''create'', ''tenant'', tid) d3))"
          using assms s Inr x o by (auto simp: Signup_def Let_def split: option.splits)
        then have "t = None \<longrightarrow> (\<exists>msg. reply = Refuse 500 msg) \<and> d1 = d3"
          "\<And>a. t = Some a \<Longrightarrow> reply = SignedUp a tid \<and> d1 = audit (sq_Username req, ''create'', ''tenant'', tid) d3"
          by auto
        then have "ad_users d1 = ad_users d2 \<and> ad_tenants d1 = ad_tenants d2 \<and> ad_resets d1 = ad_resets d2 \<and>
            ((\<exists>a. reply = SignedUp a tid \<and> t = Some a) \<or> (\<exists>msg. reply = Refuse 500 msg))"
          using open_session_tables [OF o] by (cases t) simp_all
        then show ?thesis
          by (intro disjI2 exI [of _ h] exI [of _ tid] exI [of _ d2])
            (simp add: s(2) Inr x open_session_token [OF o, symmetric])
      qed
    qed
  qed (use assms in \<open>auto simp: Signup_def Let_def\<close>)
qed

section \<open>What the handlers do to accounts\<close>

text \<open>One step of the account tables: any handler of this theory or of the second factor.\<close>

inductive acct_step :: "auth_env \<Rightarrow> auth_db \<times> SessionStore \<Rightarrow> auth_db \<times> SessionStore \<Rightarrow> bool" for E where
  login: "Login E c r body d = (reply, d1) \<Longrightarrow> acct_step E (d, st) (d1, st)"
| mfa_login: "mfa_Login E c r body d = (reply, d1) \<Longrightarrow> acct_step E (d, st) (d1, st)"
| enroll: "mfa_Enroll E c url secret nonce r d = (reply, d1) \<Longrightarrow> acct_step E (d, st) (d1, st)"
| verify: "mfa_Verify E c salts r code d = (reply, d1) \<Longrightarrow> acct_step E (d, st) (d1, st)"
| disable: "mfa_Disable E c r code d = (reply, d1) \<Longrightarrow> acct_step E (d, st) (d1, st)"
| update_role: "UpdateUserRole c r uid role d = (reply, d1) \<Longrightarrow> acct_step E (d, st) (d1, st)"
| delete: "DeleteUser c r uid d = (reply, d1) \<Longrightarrow> acct_step E (d, st) (d1, st)"
| create: "CreateUser E c r req d = (reply, d1) \<Longrightarrow> acct_step E (d, st) (d1, st)"
| register: "Register E c r req d = (reply, d1) \<Longrightarrow> acct_step E (d, st) (d1, st)"
| sso: "SSOCallback E c client ex r state cookie code d = (reply, d1) \<Longrightarrow> acct_step E (d, st) (d1, st)"
| signup: "Signup E c r (Some sreq) d = (reply, d1) \<Longrightarrow> acct_step E (d, st) (d1, st)"
| plan: "UpdatePlan ok tid plan d = (res, d1) \<Longrightarrow> acct_step E (d, st) (d1, st)"
| status: "SetStatus ok tid status d = (res, d1) \<Longrightarrow> acct_step E (d, st) (d1, st)"
| stripe: "SetStripeIDs ok tid cust sub d = (res, d1) \<Longrightarrow> acct_step E (d, st) (d1, st)"
| change: "pw_Change E c r pws (d, st) = (reply, d1, st1) \<Longrightarrow> acct_step E (d, st) (d1, st1)"
| forgot: "pw_Forgot E c base name d = (reply, link, d1) \<Longrightarrow> acct_step E (d, st) (d1, st)"
| reset: "pw_Reset E c pws (d, st) = (reply, d1, st1) \<Longrightarrow> acct_step E (d, st) (d1, st1)"

text \<open>What identifies and empowers an account: its name, password hash, tenant and role.\<close>

definition acct_key :: "user_row \<Rightarrow> string \<times> string \<times> string \<times> string" where
  "acct_key u = (us_username u, us_hash u, us_tenant u, us_role u)"

definition accounts_of :: "auth_db \<Rightarrow> (string \<times> string \<times> string \<times> string) set" where
  "accounts_of d = acct_key ` set (ad_users d)"

lemma accounts_of_cong: "ad_users d1 = ad_users d \<Longrightarrow> accounts_of d1 = accounts_of d"
  by (simp add: accounts_of_def)

definition same_accounts :: "auth_db \<Rightarrow> auth_db \<Rightarrow> bool" where
  "same_accounts d d1 \<longleftrightarrow> accounts_of d1 = accounts_of d"

lemma same_accounts_refl [simp]: "same_accounts d d"
  by (simp add: same_accounts_def)

lemma same_accounts_cong: "ad_users d1 = ad_users d \<Longrightarrow> same_accounts d d1"
  by (simp add: same_accounts_def accounts_of_def)

lemma same_accounts_trans: "same_accounts d d1 \<Longrightarrow> same_accounts d1 d2 \<Longrightarrow> same_accounts d d2"
  by (simp add: same_accounts_def)

lemma accounts_audit [simp]: "accounts_of (audit e d) = accounts_of d" "same_accounts d (audit e d1) = same_accounts d d1"
  by (simp_all add: accounts_of_def same_accounts_def)

lemma accounts_sessions [simp]: "accounts_of (d\<lparr>ad_sessions := x\<rparr>) = accounts_of d" "same_accounts d (d1\<lparr>ad_sessions := x\<rparr>) = same_accounts d d1"
  by (simp_all add: accounts_of_def same_accounts_def)

lemma same_accounts_update_user:
  assumes "same_accounts d d1" "\<And>u. acct_key (f u) = acct_key u"
  shows "same_accounts d (update_user n f d1)"
proof -
  have "acct_key ` set (map (\<lambda>u. if us_username u = n then f u else u) us) = acct_key ` set us" for us
    using assms(2) by (induction us) auto
  then show ?thesis using assms(1) by (simp add: accounts_of_def update_user_def same_accounts_def)
qed

lemma accounts_open_session: "open_session E c k r user role tenant tier d = (t, d1) \<Longrightarrow> same_accounts d d1"
  using open_session_tables same_accounts_cong by metis

text \<open>The tables of accounts after a step that only adds an account under a new name.\<close>

definition accounts_grown :: "auth_db \<Rightarrow> auth_db \<Rightarrow> bool" where
  "accounts_grown d d1 \<longleftrightarrow> accounts_of d1 = accounts_of d \<or> (\<exists>k. fst k \<notin> fst ` accounts_of d \<and> accounts_of d1 = insert k (accounts_of d))"

lemma accounts_grown_same: "same_accounts d d1 \<Longrightarrow> accounts_grown d d1"
  by (simp add: accounts_grown_def same_accounts_def)

lemma names_of_accounts: "fst ` accounts_of d = us_username ` set (ad_users d)"
  by (simp add: accounts_of_def acct_key_def image_image)

lemma accounts_grown_append:
  assumes "ad_users d1 = ad_users d @ [u]" "us_username u \<notin> us_username ` set (ad_users d)"
  shows "accounts_grown d d1"
proof -
  have "accounts_of d1 = insert (acct_key u) (accounts_of d)" using assms(1) by (simp add: accounts_of_def)
  moreover have "fst (acct_key u) \<notin> fst ` accounts_of d" using assms(2) unfolding names_of_accounts by (simp add: acct_key_def)
  ultimately show ?thesis unfolding accounts_grown_def by blast
qed

lemma accounts_grown_insert: "insert_user c k username h role tenantID tier d = Ok d1 \<Longrightarrow> accounts_grown d d1"
  using insert_user_OkD accounts_grown_append by metis

lemma accounts_grown_cong: "accounts_grown d d1 \<Longrightarrow> same_accounts d1 d2 \<Longrightarrow> accounts_grown d d2"
  by (simp add: accounts_grown_def same_accounts_def)

lemma accounts_grown_audit [simp]: "accounts_grown d (audit e d1) = accounts_grown d d1"
  by (simp add: accounts_grown_def)

lemma accounts_tenant: "update_tenant ok i f d = (res, d1) \<Longrightarrow> same_accounts d d1"
  by (auto simp: update_tenant_def intro!: same_accounts_cong split: if_splits)

lemma accounts_consume: "consumeSecondFactor E now ok user secret recovery code d = (res, d1) \<Longrightarrow> same_accounts d d1"
  by (auto simp: consumeSecondFactor_def Let_def acct_key_def split: option.splits bool.splits if_splits intro!: same_accounts_update_user)

lemma Login_tables: "Login E c r body d = (reply, d1) \<Longrightarrow> ad_users d1 = ad_users d \<and> ad_tenants d1 = ad_tenants d \<and> ad_resets d1 = ad_resets d"
  by (auto simp: Login_def dest: open_session_tables split: if_splits option.splits prod.splits)

lemma mfa_Login_accounts:
  assumes "mfa_Login E c r body d = (reply, d1)"
  shows "same_accounts d d1"
proof (cases body)
  case (Some x)
  obtain tok code where x: "x = (tok, code)" by force
  show ?thesis
  proof (cases "parseMFAChallengeToken E (ac_now c) tok")
    case p: (Inr user)
    show ?thesis
    proof (cases "if ac_ok c 0 then find_user user d else None")
      case u: (Some u)
      show ?thesis
      proof (cases "us_mfa_enabled u \<and> loadMFA E (ac_ok c 1) user d \<noteq> None")
        case True
        then obtain secret recovery on where l: "loadMFA E (ac_ok c 1) user d = Some (secret, recovery, on)" by auto
        obtain ans d2 where cs: "consumeSecondFactor E (ac_now c) (ac_ok c 2) user secret recovery code d = (ans, d2)" by force
        obtain t d3 where o: "open_session E c 3 r user (us_role u) (us_tenant u) (us_tier u) d2 = (t, d3)" by force
        have "d1 = d2 \<or> d1 = d3"
          using assms Some x p u True l cs o unfolding mfa_Login_def
          by (cases ans; cases t) (auto split: bool.splits)
        moreover have "same_accounts d d2" by (rule accounts_consume [OF cs])
        ultimately show ?thesis using accounts_open_session [OF o] same_accounts_trans by blast
      qed (use assms Some x p u in \<open>auto simp: mfa_Login_def split: option.splits if_splits\<close>)
    qed (use assms Some x p in \<open>auto simp: mfa_Login_def\<close>)
  qed (use assms Some x in \<open>auto simp: mfa_Login_def\<close>)
qed (use assms in \<open>auto simp: mfa_Login_def\<close>)

lemma mfa_Verify_accounts: "mfa_Verify E c salts r body d = (reply, d1) \<Longrightarrow> same_accounts d d1"
  unfolding mfa_Verify_def Let_def
  by (auto simp: acct_key_def split: if_splits option.splits bool.splits intro!: same_accounts_update_user)

lemma mfa_Disable_accounts:
  assumes "mfa_Disable E c r body d = (reply, d1)"
  shows "same_accounts d d1"
proof (cases "actorFromRequest r = [] \<or> body = None \<or> loadMFA E (ac_ok c 0) (actorFromRequest r) d = None")
  case False
  then obtain code secret recovery on where b: "body = Some code" "loadMFA E (ac_ok c 0) (actorFromRequest r) d = Some (secret, recovery, on)"
    by auto
  obtain ans d2 where cs: "consumeSecondFactor E (ac_now c) (ac_ok c 1) (actorFromRequest r) secret recovery code d = (ans, d2)" by force
  have "same_accounts d d2" by (rule accounts_consume [OF cs])
  then show ?thesis using assms False b cs unfolding mfa_Disable_def Let_def
    by (cases ans) (auto simp: acct_key_def split: if_splits bool.splits intro!: same_accounts_update_user)
qed (use assms in \<open>auto simp: mfa_Disable_def Let_def split: if_splits option.splits\<close>)

lemma DeleteUser_cases:
  "DeleteUser c r uid d = (reply, d1) \<Longrightarrow>
     d1 = d \<or> (reply = Replied 200 \<and> d1 = audit (actorFromRequest r, ''delete'', ''user'', uid) (d\<lparr>ad_users := filter (\<lambda>u. \<not> (us_id u = uid \<and> us_tenant u = tenantOf r)) (ad_users d)\<rparr>))"
  by (auto simp: DeleteUser_def Let_def split: if_splits option.splits)

lemma UpdateUserRole_cases:
  "UpdateUserRole c r uid body d = (reply, d1) \<Longrightarrow>
     d1 = d \<or> (\<exists>role. role \<in> set (ad_roles d) \<and> d1 = audit (actorFromRequest r, ''update'', ''user_role'', uid) (d\<lparr>ad_users :=
        map (\<lambda>u. if us_id u = uid \<and> us_tenant u = tenantOf r then u\<lparr>us_role := role\<rparr> else u) (ad_users d)\<rparr>))"
  by (auto simp: UpdateUserRole_def Let_def roleExists_def split: if_splits option.splits)

lemma CreateUser_cases:
  "CreateUser E c r body d = (reply, d1) \<Longrightarrow>
     d1 = d \<or> (\<exists>n h role tier d2. insert_user c 1 n h role (tenantOf r) tier d = Inr d2 \<and> role \<in> set (ad_roles d)
       \<and> d1 = audit (actorFromRequest r, ''create'', ''user'', n) d2)"
  by (fastforce simp: CreateUser_def roleExists_def split: if_splits option.splits sum.splits)

lemma Register_cases:
  "Register E c r body d = (reply, d1) \<Longrightarrow> d1 = d \<or> (\<exists>n h role tenant tier. insert_user c 0 n h role tenant tier d = Inr d1)"
  by (auto simp: Register_def split: if_splits option.splits sum.splits)

lemma SSOCallback_accounts:
  assumes "SSOCallback E c client ex r state cookie code d = (reply, d1)"
  shows "accounts_grown d d1"
proof -
  consider "d1 = d" | email role tenant tier d2 t where "sso_account E c email d = Inr ((role, tenant, tier), d2)"
    "open_session E c 2 r email role tenant tier d2 = (t, d1)"
    using assms by (auto simp: SSOCallback_def split: if_splits sum.splits option.splits prod.splits)
  then show ?thesis
  proof cases
    case 2
    have "accounts_grown d d2"
      using 2(1) by (auto simp: sso_account_def Let_def accounts_grown_same split: if_splits option.splits sum.splits intro: accounts_grown_insert)
    then show ?thesis by (rule accounts_grown_cong) (rule accounts_open_session [OF 2(2)])
  qed (simp add: accounts_grown_same)
qed

lemma Signup_accounts:
  assumes "Signup E c r (Some req) d = (reply, d1)"
  shows "accounts_grown d d1"
proof -
  have "d1 = d \<or> (\<exists>u. ad_users d1 = ad_users d @ [u] \<and> us_username u \<notin> us_username ` set (ad_users d))"
    using Signup_cases [OF assms] by (auto dest!: createTenant_OkD)
  then show ?thesis using accounts_grown_append by (auto simp: accounts_grown_same)
qed

lemma pw_Forgot_accounts: "pw_Forgot E c base name d = (reply, link, d1) \<Longrightarrow> same_accounts d d1"
  by (auto simp: pw_Forgot_def createResetToken_def Let_def split: if_splits option.splits prod.splits intro!: same_accounts_cong)

lemma DeleteUser_accounts: "DeleteUser c r uid d = (reply, d1) \<Longrightarrow> accounts_of d1 \<subseteq> accounts_of d"
  using DeleteUser_cases by (force simp: accounts_of_def)

section \<open>Resets\<close>

text \<open>What is used of bcrypt: a hash matches the password it was made from.\<close>

definition bcrypt_ok :: "auth_env \<Rightarrow> bool" where
  "bcrypt_ok E \<longleftrightarrow> (\<forall>s p h. en_hash E s p = Some h \<longrightarrow> en_match E h p)"

lemma burnt_rows: "p \<in> set (ad_resets (snd (burn_reset now i d))) \<Longrightarrow> pr_id p = i \<Longrightarrow> pr_used p \<noteq> None"
proof -
  assume p: "p \<in> set (ad_resets (snd (burn_reset now i d)))" "pr_id p = i"
  have "p \<in> (\<lambda>q. if pr_id q = i \<and> pr_used q = None then q\<lparr>pr_used := Some now\<rparr> else q) ` set (ad_resets d)"
    using p(1) unfolding burn_reset_def by simp
  then obtain q where "p = (if pr_id q = i \<and> pr_used q = None then q\<lparr>pr_used := Some now\<rparr> else q)" by (rule imageE)
  then show "pr_used p \<noteq> None" using p(2) by (cases "pr_id q = i \<and> pr_used q = None") simp_all
qed

lemma burnt_stays_burnt: "\<not> fst (burn_reset t i (snd (burn_reset now i d)))"
proof -
  have "fst (burn_reset t i d2) = (\<exists>p \<in> set (ad_resets d2). pr_id p = i \<and> pr_used p = None)" for d2
    by (simp add: burn_reset_def list_ex_iff)
  then show ?thesis using burnt_rows by blast
qed

lemma burnt_not_live: "live_reset t i (snd (burn_reset now i d)) = None"
  unfolding live_reset_def find_None_iff using burnt_rows by blast

lemma consumeResetToken_SomeD:
  assumes "consumeResetToken E c token d = (Some user, d1)"
  shows "\<exists>i secret p. splitResetToken token = Some (i, secret) \<and> live_reset (ac_now c) i d = Some p \<and> pr_username p = user
    \<and> en_match E (pr_hash p) secret \<and> d1 = snd (burn_reset (ac_now c) i d)"
  using assms by (auto simp: consumeResetToken_def split: option.splits if_splits prod.splits bool.splits)

lemma consume_burnt:
  assumes "splitResetToken token = Some (i, secret)"
  shows "fst (consumeResetToken E c token (snd (burn_reset now i d))) = None"
  using assms by (simp add: consumeResetToken_def burnt_not_live)

lemma burn_reset_users: "ad_users (snd (burn_reset now i d)) = ad_users d" "ad_sessions (snd (burn_reset now i d)) = ad_sessions d"
  by (simp_all add: burn_reset_def)

lemma pw_Reset_okD:
  assumes "pw_Reset E c (Some (token, new)) (d, st) = (Replied 200, d1, st1)"
  shows "\<exists>user d2 h rows res. validatePasswordPolicy new \<and> consumeResetToken E c token d = (Some user, d2)
    \<and> en_hash E (salt_of c) new = Some h \<and> RevokeAllForUser (ac_ok c 3) (ac_now c) user (ad_sessions d2, st) = (res, rows, st1)
    \<and> ad_users d1 = ad_users (update_user user (\<lambda>u. u\<lparr>us_hash := h\<rparr>) d2) \<and> ad_sessions d1 = rows \<and> ad_resets d1 = ad_resets d2"
  using assms by (auto simp: pw_Reset_def split: if_splits option.splits prod.splits)

lemma revoked_where_all: "r \<in> set (revoke_where P now rows) \<Longrightarrow> P r \<Longrightarrow> (\<And>r t. P (r\<lparr>se_revoked := t\<rparr>) = P r) \<Longrightarrow> se_revoked r \<noteq> None"
  by (auto simp: revoke_where_def split: if_splits)

text \<open>A change of password: the caller's own, with the current one.\<close>

lemma pw_Change_accounts:
  assumes "pw_Change E c r pws (d, st) = (reply, d1, st1)"
  shows "same_accounts d d1 \<or> (\<exists>cur new u h. pws = Some (cur, new) \<and> find_user (actorFromRequest r) d = Some u \<and>
    en_match E (us_hash u) cur \<and> en_hash E (salt_of c) new = Some h \<and>
    ad_users d1 = ad_users (update_user (actorFromRequest r) (\<lambda>u. u\<lparr>us_hash := h\<rparr>) d))"
  using assms by (auto simp: pw_Change_def Let_def split: if_splits option.splits prod.splits)

lemma consumeResetToken_users: "consumeResetToken E c token d = (user, d1) \<Longrightarrow> ad_users d1 = ad_users d"
  by (auto simp: consumeResetToken_def burn_reset_def split: option.splits if_splits prod.splits bool.splits)

text \<open>A reset: the account of a live reset token whose secret was presented.\<close>

lemma pw_Reset_accounts:
  assumes "pw_Reset E c pws (d, st) = (reply, d1, st1)"
  shows "same_accounts d d1 \<or> (\<exists>token new i secret q h. pws = Some (token, new) \<and> splitResetToken token = Some (i, secret) \<and>
    live_reset (ac_now c) i d = Some q \<and> en_match E (pr_hash q) secret \<and> en_hash E (salt_of c) new = Some h \<and>
    ad_users d1 = ad_users (update_user (pr_username q) (\<lambda>u. u\<lparr>us_hash := h\<rparr>) d))"
proof (cases pws)
  case (Some x)
  obtain token new where x: "x = (token, new)" by force
  obtain user d2 where cr: "consumeResetToken E c token d = (user, d2)" by force
  have us: "ad_users d2 = ad_users d" by (rule consumeResetToken_users [OF cr])
  consider "ad_users d1 = ad_users d" | n h where "user = Some n" "en_hash E (salt_of c) new = Some h"
      "ad_users d1 = ad_users (update_user n (\<lambda>u. u\<lparr>us_hash := h\<rparr>) d2)"
    using assms Some x cr us by (auto simp: pw_Reset_def split: if_splits option.splits prod.splits)
  then show ?thesis
  proof cases
    case 1
    then show ?thesis by (simp add: same_accounts_cong)
  next
    case 2
    from consumeResetToken_SomeD [OF cr [unfolded 2(1)]] obtain i secret q where
      "splitResetToken token = Some (i, secret)" "live_reset (ac_now c) i d = Some q" "pr_username q = n" "en_match E (pr_hash q) secret" by blast
    then show ?thesis using 2 Some x us by (intro disjI2) (auto simp: update_user_def)
  qed
qed (use assms in \<open>auto simp: pw_Reset_def\<close>)

lemma rehashed_row:
  assumes "ad_users d1 = ad_users (update_user n (\<lambda>u. u\<lparr>us_hash := h\<rparr>) d)" "u1 \<in> set (ad_users d1)"
  shows "\<exists>u \<in> set (ad_users d). us_username u = us_username u1 \<and> us_tenant u = us_tenant u1 \<and> us_role u = us_role u1 \<and>
    (us_hash u1 = us_hash u \<or> us_username u = n \<and> us_hash u1 = h)"
  using assms by (auto simp: update_user_def)

lemma UpdateUserRole_row:
  assumes "UpdateUserRole c r uid body d = (reply, d1)" "u1 \<in> set (ad_users d1)"
  shows "\<exists>u \<in> set (ad_users d). u1 = u \<or> (\<exists>x \<in> set (ad_roles d). us_id u = uid \<and> us_tenant u = tenantOf r \<and> u1 = u\<lparr>us_role := x\<rparr>)"
  using UpdateUserRole_cases [OF assms(1)]
proof (elim disjE exE conjE)
  fix x
  assume x: "x \<in> set (ad_roles d)" and d1: "d1 = audit (actorFromRequest r, ''update'', ''user_role'', uid) (d\<lparr>ad_users :=
      map (\<lambda>u. if us_id u = uid \<and> us_tenant u = tenantOf r then u\<lparr>us_role := x\<rparr> else u) (ad_users d)\<rparr>)"
  obtain u where "u \<in> set (ad_users d)" "u1 = (if us_id u = uid \<and> us_tenant u = tenantOf r then u\<lparr>us_role := x\<rparr> else u)"
    using assms(2) unfolding d1 by auto
  with x show ?thesis by (intro bexI [of _ u]) (auto split: if_splits)
qed (use assms(2) in auto)

lemma grown_row:
  assumes "accounts_grown d d1" "u1 \<in> set (ad_users d1)" "us_username u1 \<in> us_username ` set (ad_users d)"
  shows "acct_key u1 \<in> accounts_of d"
proof -
  have "acct_key u1 \<in> accounts_of d1" "fst (acct_key u1) \<in> fst ` accounts_of d"
    using assms(2,3) unfolding names_of_accounts by (simp_all add: accounts_of_def acct_key_def)
  then show ?thesis using assms(1) unfolding accounts_grown_def by (metis insert_iff)
qed

text \<open>Every step but a role change, a password change and a reset leaves the existing accounts as they are.\<close>

lemma acct_step_kinds:
  assumes "acct_step E (d, st) (d1, st1)"
  shows "accounts_grown d d1 \<or> accounts_of d1 \<subseteq> accounts_of d \<or> (\<exists>c r uid body reply. UpdateUserRole c r uid body d = (reply, d1)) \<or>
    (\<exists>c r pws reply. pw_Change E c r pws (d, st) = (reply, d1, st1)) \<or> (\<exists>c pws reply. pw_Reset E c pws (d, st) = (reply, d1, st1))"
  using assms
proof (cases rule: acct_step.cases)
  case (login c r body reply)
  then show ?thesis using Login_tables same_accounts_cong accounts_grown_same by metis
next
  case (enroll c url secret nonce r reply)
  then show ?thesis using mfa_Enroll_cases [OF enroll(2)]
    by (auto simp: acct_key_def intro!: accounts_grown_same same_accounts_update_user)
next
  case (create c r req reply)
  then show ?thesis using CreateUser_cases [OF create(2)]
    by (auto simp: accounts_grown_same dest: accounts_grown_insert)
next
  case (register c r req reply)
  then show ?thesis using Register_cases [OF register(2)] by (auto simp: accounts_grown_same dest: accounts_grown_insert)
next
  case (plan ok tid plan res)
  then show ?thesis by (auto simp: UpdatePlan_def dest: accounts_tenant accounts_grown_same)
next
  case (status ok tid status res)
  then show ?thesis by (auto simp: SetStatus_def dest: accounts_tenant accounts_grown_same)
next
  case (stripe ok tid cust sub res)
  then show ?thesis by (auto simp: SetStripeIDs_def dest: accounts_tenant accounts_grown_same)
qed (blast dest: mfa_Login_accounts mfa_Verify_accounts mfa_Disable_accounts SSOCallback_accounts Signup_accounts pw_Forgot_accounts
    DeleteUser_accounts accounts_grown_same)+

section \<open>Demonstration values\<close>

definition demo_session :: claims where
  "demo_session = [(''sub'', CStr ''eve''), (''exp'', CNum 86400), (''iat'', CNum 0), (''jti'', CStr ''j''), (''role'', CStr ''viewer''),
     (''tenant_id'', CStr ''acme''), (''tenant_tier'', CStr ''standard'')]"

definition demo_reg :: user_request where
  "demo_reg = \<lparr>ur_Username = ''eve'', ur_Password = ''p'', ur_Role = [], ur_TenantID = ''acme'', ur_Tier = []\<rparr>"

lemma demo_env_bcrypt: "bcrypt_ok (demo_env CL)"
  by (simp add: bcrypt_ok_def demo_env_def)

text \<open>The public routes of this file, and what the middleware makes of a session token.\<close>

lemma register_is_public:
  "hr_Path r = ''/api/v1/auth/register'' \<Longrightarrow> fst (AuthMiddleware E c r (cache, st)) = Forward (strip_identity r)"
  by (simp add: AuthMiddleware_def Let_def isAgentConfig_def isServerIngest_def isOTLPHTTP_def isLogIngest_def isRUMIngest_def
      isMigrationIngest_def isPublic_def public_paths_def has_prefix_def)

lemma login_is_public:
  "hr_Path r = ''/api/v1/auth/login'' \<Longrightarrow> fst (AuthMiddleware E c r (cache, st)) = Forward (strip_identity r)"
  by (simp add: AuthMiddleware_def Let_def isAgentConfig_def isServerIngest_def isOTLPHTTP_def isLogIngest_def isRUMIngest_def
      isMigrationIngest_def isPublic_def public_paths_def has_prefix_def)

lemma session_token_forwarded:
  assumes "jwt_ok E" "issueSessionToken E now user role tenant tier jti = Some t" "t \<noteq> []" "tenant \<noteq> []" "role \<noteq> []"
    and "protected_route r" "bearerToken r = t" "mc_now c < unix_of (now + sessionTokenTTL) * 10 ^ 9"
    and "\<not> fst (IsRevoked (mc_revoked c) (mc_now c) jti st)"
  shows "\<exists>r4. fst (AuthMiddleware E c r (cache, st)) = Forward r4 \<and> tenantOf r4 = tenant \<and> hdr_Get (hr_Header r4) ''X-User-Role'' = role"
proof -
  obtain cl where cl: "en_parse E (mc_now c) (hmac_key E) t = Some cl" "claim_str cl ''tenant_id'' = tenant"
    "claim_str cl ''role'' = role" "claim_str cl ''jti'' = jti" "\<not> mfa_pending cl"
    using session_token_parses [OF assms(1,2), of "mc_now c"] assms(8) by (simp add: claim_str_def mfa_pending_def)
  have "fst (AuthMiddleware E c r (cache, st)) = Forward (with_claims cl (strip_identity r))"
    unfolding protected_middleware [OF assms(6)]
    using cl assms(3,7,9) by (simp add: require_session_def Let_def)
  moreover have "tenantOf (with_claims cl (strip_identity r)) = tenant"
    "hdr_Get (hr_Header (with_claims cl (strip_identity r))) ''X-User-Role'' = role"
    using identity_with_claims [of cl r] cl assms(4) by (simp_all add: identity_of_def identity_headers_def tenantOf_def Let_def)
  ultimately show ?thesis by blast
qed

section \<open>Properties\<close>

text \<open>What authorises a change: the account's own request with its current password, a live reset token
  of the account with its secret, or a role update from the same tenant.\<close>

definition changed_by_owner :: "auth_env \<Rightarrow> auth_db \<times> SessionStore \<Rightarrow> auth_db \<times> SessionStore \<Rightarrow> string \<Rightarrow> string \<Rightarrow> bool" where
  "changed_by_owner E s s1 n h \<longleftrightarrow> (\<exists>c r cur new u reply. pw_Change E c r (Some (cur, new)) s = (reply, s1) \<and> actorFromRequest r = n \<and>
     find_user n (fst s) = Some u \<and> en_match E (us_hash u) cur \<and> en_hash E (salt_of c) new = Some h)"

definition reset_by_token :: "auth_env \<Rightarrow> auth_db \<times> SessionStore \<Rightarrow> auth_db \<times> SessionStore \<Rightarrow> string \<Rightarrow> string \<Rightarrow> bool" where
  "reset_by_token E s s1 n h \<longleftrightarrow> (\<exists>c token new i secret q reply. pw_Reset E c (Some (token, new)) s = (reply, s1) \<and>
     splitResetToken token = Some (i, secret) \<and> live_reset (ac_now c) i (fst s) = Some q \<and> pr_username q = n \<and> en_match E (pr_hash q) secret \<and>
     en_hash E (salt_of c) new = Some h)"

definition role_updated :: "auth_db \<Rightarrow> auth_db \<Rightarrow> user_row \<Rightarrow> string \<Rightarrow> bool" where
  "role_updated d d1 u role \<longleftrightarrow> (\<exists>c r body reply. UpdateUserRole c r (us_id u) body d = (reply, d1) \<and> tenantOf r = us_tenant u \<and> role \<in> set (ad_roles d))"



text \<open>A slug is a well-formed identifier: at most forty characters, only lower-case letters, digits and
  single hyphens, none at either end; and every such identifier is its own slug.\<close>

theorem slugs_are_well_formed: "slug_ok (slugify name) \<and> (slug_ok s \<longrightarrow> slugify s = s)"
  using slugify_ok slugify_fixes by blast

theorem slugs_are_well_formed_witness:
  "slugify ''  Acme, Inc. / R&D '' = ''acme-inc-r-d'' \<and> slugify ''acme-inc-r-d'' = ''acme-inc-r-d''"
proof
  show "slugify ''  Acme, Inc. / R&D '' = ''acme-inc-r-d''" by code_simp
  have "slug_ok ''acme-inc-r-d''" by code_simp
  then show "slugify ''acme-inc-r-d'' = ''acme-inc-r-d''" using slugs_are_well_formed by blast
qed

text \<open>Sign-up is all or nothing and never joins an existing tenant: a successful one appends exactly one
  active tenant on the free plan, under an identifier that was not in use, and one administrator of
  it under a name that was not in use, and its token is issued for that tenant; a refusal before the
  account exists leaves every table unchanged.\<close>

theorem signup_creates_its_own_tenant:
  assumes "Signup E c r (Some req) d = (SignedUp t tid, d1)"
  shows "tid \<notin> tn_id ` set (ad_tenants d) \<and> sq_Username req \<notin> us_username ` set (ad_users d)
    \<and> suffixed (or_else (slugify (trim_space (sq_OrgName req))) ''org'') tid
    \<and> (\<exists>n. ad_tenants d1 = ad_tenants d @ [n] \<and> tn_id n = tid \<and> tn_plan n = ''free'' \<and> tn_status n = ''active'')
    \<and> (\<exists>u. ad_users d1 = ad_users d @ [u] \<and> us_username u = sq_Username req \<and> us_role u = ''admin'' \<and> us_tenant u = tid)
    \<and> issueSessionToken E (ac_now c) (sq_Username req) ''admin'' tid ''free'' (ac_id c) = Some t"
  using Signup_cases [OF assms]
proof (elim disjE exE conjE)
  fix h tid2 d2 t2
  assume "createTenantWithAdmin c (or_else (slugify (trim_space (sq_OrgName req))) ''org'') (trim_space (sq_OrgName req)) (sq_Username req) h d
        = Inr (tid2, d2)" and eq: "ad_users d1 = ad_users d2" "ad_tenants d1 = ad_tenants d2"
    and s: "SignedUp t tid = SignedUp t2 tid2" "issueSessionToken E (ac_now c) (sq_Username req) ''admin'' tid2 ''free'' (ac_id c) = Some t2"
  from createTenant_OkD [OF this(1)] show ?thesis unfolding eq using s by auto
qed simp_all

definition demo_signup :: SignupRequest where
  "demo_signup = \<lparr>sq_OrgName = ''Acme'', sq_Username = ''bob'', sq_Password = ''x''\<rparr>"

theorem signup_creates_its_own_tenant_witness:
  "\<exists>d1. Signup ((demo_env [])\<lparr>en_sign := (\<lambda>_ _. Some ''tok'')\<rparr>) (demo_acall 0) (demo_req ''POST'' ''/'' []) (Some demo_signup) (demo_db [demo_user])
      = (SignedUp ''tok'' ''acme'', d1) \<and> ''acme'' \<notin> tn_id ` set (ad_tenants (demo_db [demo_user]))"
proof -
  let ?E = "(demo_env [])\<lparr>en_sign := (\<lambda>_ _. Some ''tok'')\<rparr>"
  let ?s = "Signup ?E (demo_acall 0) (demo_req ''POST'' ''/'' []) (Some demo_signup) (demo_db [demo_user])"
  have "fst ?s = SignedUp ''tok'' ''acme''" by code_simp
  then have s: "?s = (SignedUp ''tok'' ''acme'', snd ?s)" by (metis prod.collapse)
  from signup_creates_its_own_tenant [OF s] s show ?thesis by blast
qed

text \<open>User administration stays within the caller's tenant: creating, deleting and changing the role of a
  user leave the accounts of every other tenant as they are, and listing shows only the caller's
  tenant.\<close>

theorem user_administration_stays_in_tenant:
  assumes "CreateUser E c r req d = (reply, d1) \<or> UpdateUserRole c r uid role d = (reply, d1) \<or> DeleteUser c r uid d = (reply, d1)"
  shows "filter (\<lambda>u. us_tenant u \<noteq> tenantOf r) (ad_users d1) = filter (\<lambda>u. us_tenant u \<noteq> tenantOf r) (ad_users d)
    \<and> (\<forall>us. GetUsers c2 r d = Inr us \<longrightarrow> (\<forall>u \<in> set us. u_TenantID u = tenantOf r))"
proof
  show "\<forall>us. GetUsers c2 r d = Inr us \<longrightarrow> (\<forall>u \<in> set us. u_TenantID u = tenantOf r)"
    by (auto simp: GetUsers_def)
  have upd: "filter (\<lambda>u. us_tenant u \<noteq> T) (map (\<lambda>u. if us_id u = uid \<and> us_tenant u = T then u\<lparr>us_role := x\<rparr> else u) us)
      = filter (\<lambda>u. us_tenant u \<noteq> T) us" for x T us
    by (induction us) auto
  consider "CreateUser E c r req d = (reply, d1)" | "UpdateUserRole c r uid role d = (reply, d1)" | "DeleteUser c r uid d = (reply, d1)"
    using assms by blast
  then show "filter (\<lambda>u. us_tenant u \<noteq> tenantOf r) (ad_users d1) = filter (\<lambda>u. us_tenant u \<noteq> tenantOf r) (ad_users d)"
  proof cases
    case 1
    then show ?thesis using CreateUser_cases [OF 1] insert_user_OkD by fastforce
  next
    case 2
    then show ?thesis using UpdateUserRole_cases [OF 2] upd by auto
  next
    case 3
    then show ?thesis using DeleteUser_cases [OF 3] by (auto intro: filter_cong)
  qed
qed

theorem user_administration_stays_in_tenant_witness:
  "let r = demo_req ''DELETE'' ''/'' [(''X-Tenant-Id'', ''other'')]
   in filter (\<lambda>u. us_tenant u \<noteq> tenantOf r) (ad_users (snd (DeleteUser (demo_acall 0) r ''1'' (demo_db [demo_user])))) = [demo_user]"
proof -
  let ?r = "demo_req ''DELETE'' ''/'' [(''X-Tenant-Id'', ''other'')]"
  have t: "tenantOf ?r = ''other''" by code_simp
  have "DeleteUser (demo_acall 0) ?r ''1'' (demo_db [demo_user]) = (fst (DeleteUser (demo_acall 0) ?r ''1'' (demo_db [demo_user])),
      snd (DeleteUser (demo_acall 0) ?r ''1'' (demo_db [demo_user])))" by simp
  from user_administration_stays_in_tenant [OF disjI2 [OF disjI2 [OF this]]]
  show ?thesis by (simp add: t demo_db_def demo_user_def)
qed

text \<open>A reset token works once, also under concurrency: after it has been consumed, every token for the
  same row is refused, and a reset that had already read the row finds nothing to burn.\<close>

theorem reset_token_works_once:
  assumes "consumeResetToken E c token d = (Some user, d1)" "splitResetToken token = Some (i, secret)"
    "splitResetToken token2 = Some (i, secret2)"
  shows "fst (consumeResetToken E c2 token2 d1) = None \<and> \<not> fst (burn_reset t i d1)"
proof -
  have "d1 = snd (burn_reset (ac_now c) i d)" using consumeResetToken_SomeD [OF assms(1)] assms(2) by auto
  then show ?thesis using consume_burnt [OF assms(3)] burnt_stays_burnt by simp
qed

definition demo_reset_db :: auth_db where
  "demo_reset_db = (demo_db [demo_user])\<lparr>ad_resets := [\<lparr>pr_id = ''r'', pr_username = ''ann'', pr_hash = ''s'', pr_expires = 9, pr_used = None\<rparr>]\<rparr>"

theorem reset_token_works_once_witness:
  "\<exists>d1. consumeResetToken (demo_env []) (demo_acall 1) ''r.s'' demo_reset_db = (Some ''ann'', d1)
     \<and> fst (consumeResetToken (demo_env []) (demo_acall 2) ''r.s'' d1) = None"
proof -
  let ?c = "consumeResetToken (demo_env []) (demo_acall 1) ''r.s'' demo_reset_db"
  have "fst ?c = Some ''ann''" by code_simp
  then have c: "?c = (Some ''ann'', snd ?c)" by (metis prod.collapse)
  have "splitResetToken ''r.s'' = Some (''r'', ''s'')" by code_simp
  from reset_token_works_once [OF c this this] c show ?thesis by blast
qed

text \<open>A completed reset starts clean: it needed a live reset row whose hash the token's secret matches,
  the new password is at least eight characters long and is the one the account now accepts, and
  every session of the account is revoked in the table and in this replica's cache.\<close>

theorem reset_starts_clean:
  assumes "bcrypt_ok E" "pw_Reset E c (Some (token, new)) (d, st) = (Replied 200, d1, st1)" "ac_ok c 3"
  shows "\<exists>i secret p. splitResetToken token = Some (i, secret) \<and> live_reset (ac_now c) i d = Some p \<and> en_match E (pr_hash p) secret
    \<and> 8 \<le> length new \<and> (\<forall>u. find_user (pr_username p) d1 = Some u \<longrightarrow> en_match E (us_hash u) new)
    \<and> (\<forall>r \<in> set (ad_sessions d1). se_username r = pr_username p \<longrightarrow> se_revoked r \<noteq> None)
    \<and> (\<forall>r \<in> set (ad_sessions d). se_username r = pr_username p \<and> se_revoked r = None \<and> se_id r \<noteq> [] \<longrightarrow> se_id r \<in> set (ss_revoked st1))"
proof -
  obtain user d2 h rows res where r: "validatePasswordPolicy new" "consumeResetToken E c token d = (Some user, d2)"
    "en_hash E (salt_of c) new = Some h" "RevokeAllForUser (ac_ok c 3) (ac_now c) user (ad_sessions d2, st) = (res, rows, st1)"
    "ad_users d1 = ad_users (update_user user (\<lambda>u. u\<lparr>us_hash := h\<rparr>) d2)" "ad_sessions d1 = rows"
    using pw_Reset_okD [OF assms(2)] by blast
  obtain i secret p where p: "splitResetToken token = Some (i, secret)" "live_reset (ac_now c) i d = Some p" "pr_username p = user"
    "en_match E (pr_hash p) secret" "d2 = snd (burn_reset (ac_now c) i d)"
    using consumeResetToken_SomeD [OF r(2)] by blast
  let ?P = "\<lambda>r. se_username r = user"
  have rows: "rows = revoke_where ?P (ac_now c) (ad_sessions d)" "st1 = markRevokedLocal (returned_ids ?P (ad_sessions d)) st"
    using r(4) assms(3) p(5) burn_reset_users by (auto simp: RevokeAllForUser_def Let_def)
  have "find_user user d1 = map_option (\<lambda>u. u\<lparr>us_hash := h\<rparr>) (find_user user d2)"
    using find_update_user [of "\<lambda>u. u\<lparr>us_hash := h\<rparr>" user d2] r(5) by (simp add: find_user_def)
  then have "\<forall>u. find_user user d1 = Some u \<longrightarrow> en_match E (us_hash u) new"
    using assms(1) r(3) by (auto simp: bcrypt_ok_def)
  moreover have "\<forall>r \<in> set (ad_sessions d1). se_username r = user \<longrightarrow> se_revoked r \<noteq> None"
    unfolding r(6) rows(1) using revoked_where_all [of _ ?P] by simp
  moreover have "\<forall>r \<in> set (ad_sessions d). se_username r = user \<and> se_revoked r = None \<and> se_id r \<noteq> [] \<longrightarrow> se_id r \<in> set (ss_revoked st1)"
    unfolding rows(2) mark_set by (auto simp: returned_ids_def)
  moreover have "8 \<le> length new" using r(1) by (simp add: validatePasswordPolicy_def minPasswordLength_def)
  ultimately show ?thesis using p by blast
qed

theorem reset_starts_clean_witness:
  "\<exists>d1 st1. pw_Reset (demo_env []) (demo_acall 1) (Some (''r.s'', ''longenough'')) (demo_reset_db, NewSessionStore None 0)
      = (Replied 200, d1, st1) \<and> (\<forall>u. find_user ''ann'' d1 = Some u \<longrightarrow> en_match (demo_env []) (us_hash u) ''longenough'')"
proof -
  let ?x = "pw_Reset (demo_env []) (demo_acall 1) (Some (''r.s'', ''longenough'')) (demo_reset_db, NewSessionStore None 0)"
  have "fst ?x = Replied 200" by code_simp
  then have x: "?x = (Replied 200, fst (snd ?x), snd (snd ?x))" by (metis prod.collapse)
  have ok: "ac_ok (demo_acall 1) 3" by (simp add: demo_acall_def)
  obtain i secret p where p: "splitResetToken ''r.s'' = Some (i, secret)" "live_reset (ac_now (demo_acall 1)) i demo_reset_db = Some p"
    "\<forall>u. find_user (pr_username p) (fst (snd ?x)) = Some u \<longrightarrow> en_match (demo_env []) (us_hash u) ''longenough''"
    using reset_starts_clean [OF demo_env_bcrypt x ok] by blast
  have "splitResetToken ''r.s'' = Some (''r'', ''s'')" by code_simp
  then have "i = ''r''" using p(1) by simp
  moreover have "map_option pr_username (live_reset (ac_now (demo_acall 1)) ''r'' demo_reset_db) = Some ''ann''" by code_simp
  ultimately have "pr_username p = ''ann''" using p(2) by simp
  then show ?thesis using x p(3) by metis
qed

text \<open>C31: anybody can join any tenant: registration is a public route that takes the tenant from the request
  body. A post without any session, naming a free user name, a password and a tenant of the caller's
  choice, is let through by the middleware and answered with 201; the account then signs in with that
  password, and the middleware forwards its requests with the chosen tenant and the role viewer until
  the session is revoked or expires. What is supposed is that the database calls succeed and that
  hashing and signing give a result.\<close>

theorem registration_joins_any_tenant:
  assumes "jwt_ok E" "bcrypt_ok E"
    and "hr_Method r = ''POST''" "hr_Path r = ''/api/v1/auth/register''" "hr_Method r2 = ''POST''" "hr_Path r2 = ''/api/v1/auth/login''"
    and "ur_Username req \<noteq> []" "ur_Password req \<noteq> []" "ur_TenantID req \<noteq> []" "ur_Username req \<notin> us_username ` set (ad_users d)"
    and "en_hash E (salt_of c) (ur_Password req) = Some h" "ac_ok c 0" "ac_ok c2 0"
    and "issueSessionToken E (ac_now c2) (ur_Username req) ''viewer'' (ur_TenantID req) (or_else (ur_Tier req) ''standard'') (ac_id c2) = Some t" "t \<noteq> []"
  shows "fst (AuthMiddleware E c3 r (cache, st)) = Forward (strip_identity r) \<and> fst (AuthMiddleware E c4 r2 (cache, st)) = Forward (strip_identity r2) \<and>
    (\<exists>d1 d2. Register E c (strip_identity r) (Some req) d = (Replied 201, d1) \<and>
       Login E c2 (strip_identity r2) (Some (ur_Username req, ur_Password req)) d1 = (SessionToken t ''viewer'', d2)) \<and>
    (\<forall>r3 c5 cache5 st5. protected_route r3 \<longrightarrow> bearerToken r3 = t \<longrightarrow> mc_now c5 < unix_of (ac_now c2 + sessionTokenTTL) * 10 ^ 9 \<longrightarrow>
       \<not> fst (IsRevoked (mc_revoked c5) (mc_now c5) (ac_id c2) st5) \<longrightarrow>
       (\<exists>r4. fst (AuthMiddleware E c5 r3 (cache5, st5)) = Forward r4 \<and> tenantOf r4 = ur_TenantID req \<and>
          hdr_Get (hr_Header r4) ''X-User-Role'' = ''viewer''))"
proof (intro conjI allI impI)
  show "fst (AuthMiddleware E c3 r (cache, st)) = Forward (strip_identity r)" using assms(4) by (rule register_is_public)
  show "fst (AuthMiddleware E c4 r2 (cache, st)) = Forward (strip_identity r2)" using assms(6) by (rule login_is_public)
  obtain d1 where i: "insert_user c 0 (ur_Username req) h ''viewer'' (ur_TenantID req) (or_else (ur_Tier req) ''standard'') d = Inr d1"
    using assms(10,12) by (simp add: insert_user_def)
  have reg: "Register E c (strip_identity r) (Some req) d = (Replied 201, d1)"
    using assms(3,7-9,11) i by (simp add: Register_def or_else_def)
  obtain u where u: "find_user (ur_Username req) d1 = Some u" "us_hash u = h" "us_role u = ''viewer''" "us_tenant u = ur_TenantID req"
      "us_tier u = or_else (ur_Tier req) ''standard''" "us_active u" "\<not> us_mfa_enabled u"
    using find_inserted [OF i] by blast
  have m: "en_match E h (ur_Password req)" using assms(2,11) by (auto simp: bcrypt_ok_def)
  obtain t1 d2 where o: "open_session E c2 1 (strip_identity r2) (ur_Username req) ''viewer'' (ur_TenantID req) (us_tier u) d1 = (t1, d2)" by force
  then have "t1 = Some t" using open_session_token [OF o] assms(14) u(5) by simp
  then have "Login E c2 (strip_identity r2) (Some (ur_Username req, ur_Password req)) d1 = (SessionToken t ''viewer'', d2)"
    using u m o assms(5,13) by (simp add: Login_def)
  with reg show "\<exists>d1 d2. Register E c (strip_identity r) (Some req) d = (Replied 201, d1) \<and>
      Login E c2 (strip_identity r2) (Some (ur_Username req, ur_Password req)) d1 = (SessionToken t ''viewer'', d2)" by blast
next
  fix r3 :: http_req and c5 :: mw_call and cache5 :: key_cache and st5 :: SessionStore
  assume pr: "protected_route r3" "bearerToken r3 = t" "mc_now c5 < unix_of (ac_now c2 + sessionTokenTTL) * 10 ^ 9"
    "\<not> fst (IsRevoked (mc_revoked c5) (mc_now c5) (ac_id c2) st5)"
  show "\<exists>r4. fst (AuthMiddleware E c5 r3 (cache5, st5)) = Forward r4 \<and> tenantOf r4 = ur_TenantID req \<and> hdr_Get (hr_Header r4) ''X-User-Role'' = ''viewer''"
    by (rule session_token_forwarded [OF assms(1,14,15,9) _ pr]) simp
qed

theorem registration_joins_any_tenant_witness:
  "\<exists>d1 d2 r4. Register (demo_env demo_session) (demo_acall 0) (strip_identity (demo_req ''POST'' ''/api/v1/auth/register'' [])) (Some demo_reg) (demo_db [demo_user]) = (Replied 201, d1) \<and>
     Login (demo_env demo_session) (demo_acall 0) (strip_identity (demo_req ''POST'' ''/api/v1/auth/login'' [])) (Some (''eve'', ''p'')) d1 = (SessionToken ''tok'' ''viewer'', d2) \<and>
     fst (AuthMiddleware (demo_env demo_session) (demo_mw 5) (demo_req ''GET'' ''/api/v1/incidents'' [(''Authorization'', ''Bearer tok'')])
       ([], NewSessionStore None 0)) = Forward r4 \<and> tenantOf r4 = ''acme'' \<and> hdr_Get (hr_Header r4) ''X-User-Role'' = ''viewer''"
proof -
  let ?E = "demo_env demo_session" and ?r3 = "demo_req ''GET'' ''/api/v1/incidents'' [(''Authorization'', ''Bearer tok'')]"
  have p: "protected_route ?r3" "bearerToken ?r3 = ''tok''" by code_simp+
  have n: "mc_now (demo_mw 5) < unix_of (ac_now (demo_acall 0) + sessionTokenTTL) * 10 ^ 9"
    by (simp add: demo_mw_def demo_acall_def unix_of_def sessionTokenTTL_def)
  have v: "\<not> fst (IsRevoked (mc_revoked (demo_mw 5)) (mc_now (demo_mw 5)) (ac_id (demo_acall 0)) (NewSessionStore None 0))" by code_simp
  have t: "issueSessionToken ?E (ac_now (demo_acall 0)) (ur_Username demo_reg) ''viewer'' (ur_TenantID demo_reg)
      (or_else (ur_Tier demo_reg) ''standard'') (ac_id (demo_acall 0)) = Some ''tok''" by code_simp
  have h: "en_hash ?E (salt_of (demo_acall 0)) (ur_Password demo_reg) = Some ''p''" by code_simp
  have f: "ur_Username demo_reg \<notin> us_username ` set (ad_users (demo_db [demo_user]))" "ur_Username demo_reg = ''eve''"
    "ur_Password demo_reg = ''p''" "ur_TenantID demo_reg = ''acme''" by (simp_all add: demo_reg_def demo_db_def demo_user_def)
  have ok: "ac_ok (demo_acall 0) 0" by (simp add: demo_acall_def)
  have q: "hr_Method (demo_req ''POST'' pa [])  = ''POST''" "hr_Path (demo_req ''POST'' pa []) = pa" for pa by (simp_all add: demo_req_def)
  note all = registration_joins_any_tenant [OF demo_env_jwt demo_env_bcrypt q(1) q(2) q(1) q(2) _ _ _ f(1) h ok ok t,
      where ?c3.0 = "demo_mw 5" and ?c4.0 = "demo_mw 5" and cache = "[]" and st = "NewSessionStore None 0"]
  show ?thesis using all [unfolded f] p n v by blast
qed

text \<open>Single sign-on skips what the password path checks: for an account that is deactivated or has a
  second factor, where a correct password is refused with 403 or answered with a challenge, a
  callback with the account's address yields a full session token.\<close>

theorem sso_skips_deactivation_and_mfa:
  assumes "find_user email d = Some u" "\<not> us_active u \<or> us_mfa_enabled u" "email \<noteq> []"
    "state \<noteq> []" "code \<noteq> []" "exchange code = Email email" "ac_ok c 0"
    "issueSessionToken E (ac_now c) email (us_role u) (us_tenant u) (us_tier u) (ac_id c) = Some t"
  shows "fst (SSOCallback E c clientID exchange r state (Some state) code d) = Redirected (''http://localhost:3000/settings?token='' @ t)
    \<and> (\<forall>c2 r2 p t2 role. fst (Login E c2 r2 (Some (email, p)) d) \<noteq> SessionToken t2 role)"
proof
  obtain t1 d1 where o: "open_session E c 2 r email (us_role u) (us_tenant u) (us_tier u) d = (t1, d1)" by force
  have "t1 = Some t" using open_session_token [OF o] assms(8) by simp
  then show "fst (SSOCallback E c clientID exchange r state (Some state) code d) = Redirected (''http://localhost:3000/settings?token='' @ t)"
    using assms o by (simp add: SSOCallback_def sso_email_def sso_account_def)
  show "\<forall>c2 r2 p t2 role. fst (Login E c2 r2 (Some (email, p)) d) \<noteq> SessionToken t2 role"
    using assms(1,2) by (auto simp: Login_def split: option.splits)
qed

theorem sso_skips_deactivation_and_mfa_witness:
  "fst (SSOCallback ((demo_env [])\<lparr>en_sign := (\<lambda>_ _. Some ''tok'')\<rparr>) (demo_acall 0) ''id'' (\<lambda>_. Email ''ann'') (demo_req ''GET'' ''/'' []) ''s'' (Some ''s'') ''c''
      (demo_db [demo_user\<lparr>us_active := False\<rparr>])) = Redirected ''http://localhost:3000/settings?token=tok''"
proof -
  have "find_user ''ann'' (demo_db [demo_user\<lparr>us_active := False\<rparr>]) = Some (demo_user\<lparr>us_active := False\<rparr>)"
    by (simp add: find_user_def demo_db_def demo_user_def)
  from sso_skips_deactivation_and_mfa [OF this, of "''s''" "''c''" "\<lambda>_. Email ''ann''" "demo_acall 0"
      "(demo_env [])\<lparr>en_sign := (\<lambda>_ _. Some ''tok'')\<rparr>" "''tok''"]
  show ?thesis by (simp add: issueSessionToken_def demo_acall_def)
qed

text \<open>Deleting an account does not end its sessions: the table of sessions is untouched, so the answer of
  every middleware that reads it is the one before the deletion.\<close>

theorem deleted_account_keeps_sessions:
  assumes "DeleteUser c r uid d = (Replied 200, d1)"
  shows "AuthMiddleware E (c2\<lparr>mc_revoked := Some (revoked_ids now (ad_sessions d1))\<rparr>) r2 s
    = AuthMiddleware E (c2\<lparr>mc_revoked := Some (revoked_ids now (ad_sessions d))\<rparr>) r2 s
    \<and> (\<exists>u. us_id u = uid \<and> u \<in> set (ad_users d) \<and> u \<notin> set (ad_users d1))"
proof
  have "ad_sessions d1 = ad_sessions d" using DeleteUser_cases [OF assms] by auto
  then show "AuthMiddleware E (c2\<lparr>mc_revoked := Some (revoked_ids now (ad_sessions d1))\<rparr>) r2 s
    = AuthMiddleware E (c2\<lparr>mc_revoked := Some (revoked_ids now (ad_sessions d))\<rparr>) r2 s" by simp
  obtain u where u: "find (\<lambda>u. us_id u = uid \<and> us_tenant u = tenantOf r) (ad_users d) = Some u"
    and d1: "d1 = audit (actorFromRequest r, ''delete'', ''user'', uid) (d\<lparr>ad_users := filter (\<lambda>u. \<not> (us_id u = uid \<and> us_tenant u = tenantOf r)) (ad_users d)\<rparr>)"
    using assms by (auto simp: DeleteUser_def Let_def split: if_splits option.splits)
  have "us_id u = uid \<and> us_tenant u = tenantOf r \<and> u \<in> set (ad_users d)" using u by (auto simp: find_Some_iff)
  then show "\<exists>u. us_id u = uid \<and> u \<in> set (ad_users d) \<and> u \<notin> set (ad_users d1)" unfolding d1 by auto
qed

theorem deleted_account_keeps_sessions_witness:
  "let r = demo_req ''DELETE'' ''/'' [(''X-Tenant-Id'', ''acme'')]; d1 = snd (DeleteUser (demo_acall 0) r ''1'' (demo_db [demo_user]))
   in \<exists>u. us_id u = ''1'' \<and> u \<in> set (ad_users (demo_db [demo_user])) \<and> u \<notin> set (ad_users d1)"
proof -
  let ?r = "demo_req ''DELETE'' ''/'' [(''X-Tenant-Id'', ''acme'')]"
  let ?x = "DeleteUser (demo_acall 0) ?r ''1'' (demo_db [demo_user])"
  have "fst ?x = Replied 200" by code_simp
  then have "?x = (Replied 200, snd ?x)" by (metis prod.collapse)
  from deleted_account_keeps_sessions [OF this] show ?thesis unfolding Let_def by blast
qed

end
