(* ===== verification/Enterprise_Identity.thy ===== *)
theory Enterprise_Identity
  imports Accounts
begin

text \<open>
  Enterprise identity: provisioning over SCIM (\<open>scim.go\<close>) and sign-in over SAML (\<open>saml.go\<close>) of
  \<open>src/gateway-service/internal/auth\<close>. A decoded JSON value is a tree; the SAML library, which
  verifies a response and yields its assertion, is an argument.
\<close>

section \<open>SCIM resources\<close>

datatype json = JNull | JBool bool | JObj "(string \<times> json) list" | JOther

record scimUser =
  su_ID :: string
  su_ExternalID :: string
  su_UserName :: string
  su_Active :: bool

datatype scim_reply =
    ScimError int string
  | ScimResource int scimUser
  | ScimList "scimUser list"
  | ScimNoContent

record SCIMHandler =
  sc_token :: string
  sc_tenantID :: string

definition NewSCIMHandler :: "string \<Rightarrow> string \<Rightarrow> SCIMHandler" where
  "NewSCIMHandler tenant_env token_env =
     \<lparr>sc_token = trim_space token_env, sc_tenantID = or_else (trim_space tenant_env) defaultTenantID\<rparr>"

definition scim_authorize :: "SCIMHandler \<Rightarrow> http_req \<Rightarrow> scim_reply option" where
  "scim_authorize h r =
     (if sc_token h = [] then Some (ScimError 503 ''SCIM provisioning is not enabled on this server'')
      else if bearerToken r \<noteq> sc_token h then Some (ScimError 401 ''invalid SCIM credentials'')
      else None)"

definition toSCIM :: "user_row \<Rightarrow> scimUser" where
  "toSCIM u = \<lparr>su_ID = us_id u, su_ExternalID = (case us_external u of None \<Rightarrow> [] | Some e \<Rightarrow> e),
     su_UserName = us_username u, su_Active = us_active u\<rparr>"

text \<open>The resource rendered when the read-back fails: the zero row.\<close>

definition no_user :: scimUser where
  "no_user = \<lparr>su_ID = [], su_ExternalID = [], su_UserName = [], su_Active = False\<rparr>"

definition loadUser :: "SCIMHandler \<Rightarrow> bool \<Rightarrow> string \<Rightarrow> auth_db \<Rightarrow> user_row option" where
  "loadUser h ok i d = (if ok then find (\<lambda>u. us_id u = i \<and> us_tenant u = sc_tenantID h) (ad_users d) else None)"

definition loadUserByName :: "SCIMHandler \<Rightarrow> bool \<Rightarrow> string \<Rightarrow> auth_db \<Rightarrow> user_row option" where
  "loadUserByName h ok n d = (if ok then find (\<lambda>u. us_username u = n \<and> us_tenant u = sc_tenantID h) (ad_users d) else None)"

definition nullIfEmpty :: "string \<Rightarrow> string option" where
  "nullIfEmpty s = (if trim_space s = [] then None else Some s)"

definition quote_char :: char where "quote_char = CHR 0x22"

definition filter_prefix :: string where "filter_prefix = ''username eq ''"

definition parseUserNameFilter :: "string \<Rightarrow> string option" where
  "parseUserNameFilter text =
     (let f = trim_space text
      in if f = [] then None
         else if \<not> has_prefix filter_prefix (to_lower f) then None
         else (let rest = trim_space (drop (length filter_prefix) f)
               in if length rest \<ge> 2 \<and> hd rest = quote_char \<and> last rest = quote_char
                  then Some (butlast (tl rest)) else None))"

text \<open>\<open>json.Unmarshal\<close> into a \<open>bool\<close> and into a struct with a field \<open>active\<close>: \<open>null\<close> leaves the
  target as it is, and field names match without regard to case. The outer \<open>None\<close> is an error.\<close>

definition unmarshal_bool :: "json option \<Rightarrow> bool option" where
  "unmarshal_bool v = (case v of Some (JBool b) \<Rightarrow> Some b | Some JNull \<Rightarrow> Some False | _ \<Rightarrow> None)"

fun active_fields :: "(string \<times> json) list \<Rightarrow> bool option \<Rightarrow> bool option option" where
  "active_fields [] acc = Some acc"
| "active_fields ((k, v) # rest) acc =
     (if to_lower k \<noteq> ''active'' then active_fields rest acc
      else case v of JBool b \<Rightarrow> active_fields rest (Some b) | JNull \<Rightarrow> active_fields rest None | _ \<Rightarrow> None)"

definition unmarshal_active :: "json option \<Rightarrow> bool option option" where
  "unmarshal_active v = (case v of Some (JObj fs) \<Rightarrow> active_fields fs None | Some JNull \<Rightarrow> Some None | _ \<Rightarrow> None)"

text \<open>An operation: \<open>op\<close>, \<open>path\<close> and the raw value, if any.\<close>

type_synonym patch_op = "string \<times> string \<times> json option"

definition op_active :: "patch_op \<Rightarrow> bool option" where
  "op_active x = (case x of (verb, path, v) \<Rightarrow>
     if to_lower verb \<noteq> ''replace'' \<and> to_lower verb \<noteq> ''add'' then None
     else if to_lower (trim_space path) = ''active'' \<and> unmarshal_bool v \<noteq> None then unmarshal_bool v
     else if path = [] then (case unmarshal_active v of Some (Some b) \<Rightarrow> Some b | _ \<Rightarrow> None)
     else None)"

fun activeFromPatch :: "patch_op list \<Rightarrow> bool option" where
  "activeFromPatch [] = None"
| "activeFromPatch (x # xs) = (case op_active x of Some b \<Rightarrow> Some b | None \<Rightarrow> activeFromPatch xs)"

section \<open>SCIM handlers\<close>

text \<open>\<open>list\<close>: the database's order by user name is an argument.\<close>

definition scim_list ::
  "(user_row list \<Rightarrow> user_row list) \<Rightarrow> SCIMHandler \<Rightarrow> auth_call \<Rightarrow> string \<Rightarrow> auth_db \<Rightarrow> scim_reply" where
  "scim_list by_username h c text d =
     (if \<not> ac_ok c 0 then ScimError 500 ''failed to list users''
      else ScimList (map toSCIM (case parseUserNameFilter text of
          Some n \<Rightarrow> filter (\<lambda>u. us_tenant u = sc_tenantID h \<and> us_username u = n) (ad_users d)
        | None \<Rightarrow> take 500 (by_username (filter (\<lambda>u. us_tenant u = sc_tenantID h) (ad_users d))))))"

definition scim_get :: "SCIMHandler \<Rightarrow> auth_call \<Rightarrow> string \<Rightarrow> auth_db \<Rightarrow> scim_reply" where
  "scim_get h c i d = (case loadUser h (ac_ok c 0) i d of
     None \<Rightarrow> ScimError 404 ''user not found'' | Some u \<Rightarrow> ScimResource 200 (toSCIM u))"

definition read_back :: "SCIMHandler \<Rightarrow> bool \<Rightarrow> string \<Rightarrow> auth_db \<Rightarrow> scimUser" where
  "read_back h ok i d = (case loadUser h ok i d of None \<Rightarrow> no_user | Some u \<Rightarrow> toSCIM u)"

text \<open>\<open>create\<close>: user name, external identifier and the optional \<open>active\<close>.\<close>

definition scim_create ::
  "auth_env \<Rightarrow> SCIMHandler \<Rightarrow> auth_call \<Rightarrow> (string \<times> string \<times> bool option) option \<Rightarrow> auth_db \<Rightarrow> scim_reply \<times> auth_db" where
  "scim_create E h c body d = (case body of None \<Rightarrow> (ScimError 400 ''userName is required'', d)
   | Some (userName, externalID, active) \<Rightarrow>
       (let username = trim_space userName
        in if username = [] then (ScimError 400 ''userName is required'', d)
           else case loadUserByName h (ac_ok c 0) username d of
             Some u \<Rightarrow> (ScimResource 200 (toSCIM u), d)
           | None \<Rightarrow>
             (case en_hash E (salt_of c) (case ac_rand c 1 of None \<Rightarrow> [] | Some x \<Rightarrow> x) of
                None \<Rightarrow> (ScimError 500 ''failed to provision user'', d)
              | Some pwHash \<Rightarrow>
                (case insert_user c 1 username pwHash ''viewer'' (sc_tenantID h) ''standard'' d of
                   Inl _ \<Rightarrow> (ScimError 409 ''failed to create user'', d)
                 | Inr d1 \<Rightarrow>
                     (let d2 = audit (''scim'', ''create'', ''user'', username)
                         (update_user username (\<lambda>u. u\<lparr>us_active := (active = None \<or> active = Some True), us_external := nullIfEmpty externalID\<rparr>) d1)
                      in (ScimResource 201 (read_back h (ac_ok c 2) (ac_id c) d2), d2))))))"

text \<open>\<open>UPDATE users SET ... WHERE id AND tenant_id\<close>.\<close>

definition update_in_tenant :: "SCIMHandler \<Rightarrow> string \<Rightarrow> (user_row \<Rightarrow> user_row) \<Rightarrow> auth_db \<Rightarrow> auth_db" where
  "update_in_tenant h i f d =
     d\<lparr>ad_users := map (\<lambda>u. if us_id u = i \<and> us_tenant u = sc_tenantID h then f u else u) (ad_users d)\<rparr>"

definition revokeUserSessions ::
  "auth_call \<Rightarrow> nat \<Rightarrow> string \<Rightarrow> auth_db \<times> SessionStore \<Rightarrow> auth_db \<times> SessionStore" where
  "revokeUserSessions c k i s = (case s of (d, st) \<Rightarrow>
     (case (if ac_ok c k then find (\<lambda>u. us_id u = i) (ad_users d) else None) of None \<Rightarrow> (d, st)
      | Some u \<Rightarrow>
          (case RevokeAllForUser (ac_ok c (k + 1)) (ac_now c) (us_username u) (ad_sessions d, st) of
             (_, rows, st1) \<Rightarrow> (d\<lparr>ad_sessions := rows\<rparr>, st1))))"

text \<open>\<open>replace\<close>: the external identifier and \<open>active\<close> of the decoded resource, where an absent
  \<open>active\<close> is false.\<close>

definition scim_replace ::
  "SCIMHandler \<Rightarrow> auth_call \<Rightarrow> string \<Rightarrow> (string \<times> bool option) option \<Rightarrow> auth_db \<times> SessionStore \<Rightarrow> scim_reply \<times> auth_db \<times> SessionStore" where
  "scim_replace h c i body s = (case s of (d, st) \<Rightarrow>
     (case body of None \<Rightarrow> (ScimError 400 ''invalid body'', d, st)
      | Some (externalID, field) \<Rightarrow>
          (let active = (field = Some True)
           in case loadUser h (ac_ok c 0) i d of None \<Rightarrow> (ScimError 404 ''user not found'', d, st)
              | Some _ \<Rightarrow>
                  if \<not> ac_ok c 1 then (ScimError 500 ''failed to update user'', d, st)
                  else
                    (let d1 = update_in_tenant h i (\<lambda>u. u\<lparr>us_active := active,
                           us_external := (case nullIfEmpty externalID of None \<Rightarrow> us_external u | Some e \<Rightarrow> Some e)\<rparr>) d;
                         s2 = (if \<not> active then revokeUserSessions c 2 i (d1, st) else (d1, st));
                         d3 = audit (''scim'', ''update'', ''user'', i) (fst s2)
                     in (ScimResource 200 (read_back h (ac_ok c 4) i d3), d3, snd s2)))))"

definition scim_patch ::
  "SCIMHandler \<Rightarrow> auth_call \<Rightarrow> string \<Rightarrow> patch_op list option \<Rightarrow> auth_db \<times> SessionStore \<Rightarrow> scim_reply \<times> auth_db \<times> SessionStore" where
  "scim_patch h c i body s = (case s of (d, st) \<Rightarrow>
     (case body of None \<Rightarrow> (ScimError 400 ''invalid PATCH body'', d, st)
      | Some ops \<Rightarrow>
          (case loadUser h (ac_ok c 0) i d of None \<Rightarrow> (ScimError 404 ''user not found'', d, st)
           | Some _ \<Rightarrow>
               (case activeFromPatch ops of
                  None \<Rightarrow> (ScimResource 200 (read_back h (ac_ok c 4) i d), d, st)
                | Some active \<Rightarrow>
                    if \<not> ac_ok c 1 then (ScimError 500 ''failed to update user'', d, st)
                    else
                      (let d1 = update_in_tenant h i (\<lambda>u. u\<lparr>us_active := active\<rparr>) d;
                           s2 = (if \<not> active then revokeUserSessions c 2 i (d1, st) else (d1, st));
                           d3 = audit (''scim'', ''update'', ''user'', i) (fst s2)
                       in (ScimResource 200 (read_back h (ac_ok c 4) i d3), d3, snd s2))))))"

definition scim_deactivate ::
  "SCIMHandler \<Rightarrow> auth_call \<Rightarrow> string \<Rightarrow> auth_db \<times> SessionStore \<Rightarrow> scim_reply \<times> auth_db \<times> SessionStore" where
  "scim_deactivate h c i s = (case s of (d, st) \<Rightarrow>
     if \<not> ac_ok c 0 then (ScimError 500 ''failed to deactivate user'', d, st)
     else if \<not> list_ex (\<lambda>u. us_id u = i \<and> us_tenant u = sc_tenantID h) (ad_users d) then (ScimError 404 ''user not found'', d, st)
     else
       (let s2 = revokeUserSessions c 1 i (update_in_tenant h i (\<lambda>u. u\<lparr>us_active := False\<rparr>) d, st)
        in (ScimNoContent, audit (''scim'', ''delete'', ''user'', i) (fst s2), snd s2)))"

section \<open>SAML\<close>

record saml_attr =
  sa_Name :: string
  sa_Friendly :: string
  sa_Values :: "string list"

record assertion =
  as_Statements :: "saml_attr list list"
  as_NameID :: "string option"

definition wanted_names :: "string list" where
  "wanted_names = [''email'', ''emailaddress'', ''urn:oid:0.9.2342.19200300.100.1.3'',
     ''http://schemas.xmlsoap.org/ws/2005/05/identity/claims/emailaddress'', ''upn'',
     ''http://schemas.xmlsoap.org/ws/2005/05/identity/claims/upn'']"

fun firstAttrValue :: "string list \<Rightarrow> string" where
  "firstAttrValue [] = []"
| "firstAttrValue (v # vs) = (if trim_space v \<noteq> [] then trim_space v else firstAttrValue vs)"

definition attr_identity :: "saml_attr \<Rightarrow> string" where
  "attr_identity x =
     (if to_lower (trim_space (sa_Name x)) \<in> set wanted_names \<or> to_lower (trim_space (sa_Friendly x)) \<in> set wanted_names
      then firstAttrValue (sa_Values x) else [])"

fun first_identity :: "saml_attr list \<Rightarrow> string" where
  "first_identity [] = []"
| "first_identity (x # xs) = (if attr_identity x \<noteq> [] then attr_identity x else first_identity xs)"

definition extractSAMLIdentity :: "assertion option \<Rightarrow> string" where
  "extractSAMLIdentity a = (case a of None \<Rightarrow> []
   | Some x \<Rightarrow>
       (let v = first_identity (concat (as_Statements x))
        in if v \<noteq> [] then v else case as_NameID x of None \<Rightarrow> [] | Some n \<Rightarrow> trim_space n))"

text \<open>\<open>resolveOrProvision\<close>: role, tenant and tier; a deactivated account is an error.\<close>

definition resolveOrProvision ::
  "auth_env \<Rightarrow> auth_call \<Rightarrow> string \<Rightarrow> auth_db \<Rightarrow> string + (string \<times> string \<times> string) \<times> auth_db" where
  "resolveOrProvision E c email d =
     (if \<not> ac_ok c 0 then Inl ''query''
      else case find_user email d of
        None \<Rightarrow>
          (case en_hash E (salt_of c) (case ac_rand c 1 of None \<Rightarrow> [] | Some x \<Rightarrow> x) of None \<Rightarrow> Inl ''hash''
           | Some h \<Rightarrow>
             (case insert_user c 1 email h ''viewer'' defaultTenantID defaultTenantTier d of
                Inl e \<Rightarrow> Inl e | Inr d1 \<Rightarrow> Inr ((''viewer'', defaultTenantID, defaultTenantTier), d1)))
      | Some u \<Rightarrow> if \<not> us_active u then Inl ''account deactivated'' else Inr ((us_role u, us_tenant u, us_tier u), d))"

definition saml_request_ids :: "string option \<Rightarrow> string \<Rightarrow> string list" where
  "saml_request_ids cookie allow_env =
     (case cookie of Some v \<Rightarrow> if v \<noteq> [] then [v] else [] | None \<Rightarrow> []) @ (if to_lower allow_env = ''true'' then [[]] else [])"

text \<open>\<open>ACS\<close>: \<open>parse\<close> verifies the response against the identifiers of outstanding requests, \<open>escape\<close>
  is \<open>url.QueryEscape\<close>.\<close>

definition saml_ACS ::
  "auth_env \<Rightarrow> auth_call \<Rightarrow> bool \<Rightarrow> bool \<Rightarrow> (string list \<Rightarrow> assertion option) \<Rightarrow> string \<Rightarrow> (string \<Rightarrow> string) \<Rightarrow> string \<Rightarrow>
   http_req \<Rightarrow> string option \<Rightarrow> auth_db \<Rightarrow> auth_reply \<times> auth_db" where
  "saml_ACS E c configured form_ok parse allow_env escape baseURL r cookie d =
     (if \<not> configured then (Refuse 503 ''SAML is not configured on this server'', d)
      else if \<not> form_ok then (Refuse 400 ''invalid SAML response'', d)
      else case parse (saml_request_ids cookie allow_env) of
          None \<Rightarrow> (Refuse 401 ''SAML assertion could not be verified'', d)
        | Some a \<Rightarrow>
            (let email = extractSAMLIdentity (Some a)
             in if email = [] then (Refuse 400 ''SAML assertion did not contain an identity'', d)
                else case resolveOrProvision E c email d of
                    Inl _ \<Rightarrow> (Refuse 500 ''failed to provision SAML user'', d)
                  | Inr ((role, tenantID, tier), d1) \<Rightarrow>
                      (case open_session E c 2 r email role tenantID tier d1 of
                         (None, d2) \<Rightarrow> (Refuse 500 ''failed to issue session'', d2)
                       | (Some t, d2) \<Rightarrow>
                           (Redirected (or_else (rev (dropWhile (\<lambda>x. x = CHR ''/'') (rev (trim_space baseURL)))) ''http://localhost:3000''
                              @ ''/settings?token='' @ escape t), audit (email, ''login'', ''saml_sso'', email) d2))))"

section \<open>Rows by key\<close>

lemma find_distinct:
  "distinct (map g us) \<Longrightarrow> u \<in> set us \<Longrightarrow> find (\<lambda>x. g x = g u) us = Some u"
  by (induction us) (auto simp: image_iff)

lemma find_distinct_update:
  assumes "distinct (map g us)" "u \<in> set us" "\<And>x. g (f x) = g x"
  shows "find (\<lambda>x. g x = g u) (map f us) = Some (f u)"
proof -
  have "map g (map f us) = map g us" using assms(3) by simp
  then have "distinct (map g (map f us))" using assms(1) by (simp only:)
  from find_distinct [OF this, of "f u"] show ?thesis using assms(2,3) by simp
qed

definition deactivated :: "SCIMHandler \<Rightarrow> string \<Rightarrow> user_row \<Rightarrow> user_row" where
  "deactivated h i u = (if us_id u = i \<and> us_tenant u = sc_tenantID h then u\<lparr>us_active := False\<rparr> else u)"

lemma revokeUserSessions_ok:
  assumes "distinct (map us_id (ad_users d))" "u \<in> set (ad_users d)" "ac_ok c k" "ac_ok c (k + 1)"
    "revokeUserSessions c k (us_id u) (d, st) = (d1, st1)"
  shows "ad_users d1 = ad_users d \<and> ad_sessions d1 = revoke_where (\<lambda>r. se_username r = us_username u) (ac_now c) (ad_sessions d)
    \<and> st1 = markRevokedLocal (returned_ids (\<lambda>r. se_username r = us_username u) (ad_sessions d)) st"
  using assms find_distinct [OF assms(1,2)] by (auto simp: revokeUserSessions_def RevokeAllForUser_def Let_def)

lemma deactivate_effect:
  assumes "scim_deactivate h c (us_id u) (d, st) = (ScimNoContent, d1, st1)" "u \<in> set (ad_users d)"
    "us_tenant u = sc_tenantID h" "distinct (map us_id (ad_users d))" "distinct (map us_username (ad_users d))" "ac_ok c 1" "ac_ok c 2"
  shows "find_user (us_username u) d1 = Some (u\<lparr>us_active := False\<rparr>)
    \<and> ad_sessions d1 = revoke_where (\<lambda>r. se_username r = us_username u) (ac_now c) (ad_sessions d)
    \<and> st1 = markRevokedLocal (returned_ids (\<lambda>r. se_username r = us_username u) (ad_sessions d)) st"
proof -
  let ?f = "deactivated h (us_id u)"
  let ?d1 = "update_in_tenant h (us_id u) (\<lambda>u. u\<lparr>us_active := False\<rparr>) d"
  have us: "ad_users ?d1 = map ?f (ad_users d)" "ad_sessions ?d1 = ad_sessions d"
    by (simp_all add: update_in_tenant_def deactivated_def)
  have keep: "us_id (?f x) = us_id x" "us_username (?f x) = us_username x" for x by (simp_all add: deactivated_def)
  have fu: "?f u = u\<lparr>us_active := False\<rparr>" using assms(3) by (simp add: deactivated_def)
  have "map us_id (ad_users ?d1) = map us_id (ad_users d)" unfolding us using keep by simp
  then have ids: "distinct (map us_id (ad_users ?d1))" using assms(4) by simp
  obtain d2 st2 where r: "revokeUserSessions c 1 (us_id u) (?d1, st) = (d2, st2)" by force
  have mem: "?f u \<in> set (ad_users ?d1)" unfolding us using assms(2) by simp
  have ids_u: "us_id (?f u) = us_id u" by (rule keep)
  have res: "ad_users d2 = ad_users ?d1 \<and> ad_sessions d2 = revoke_where (\<lambda>r. se_username r = us_username u) (ac_now c) (ad_sessions d)
    \<and> st2 = markRevokedLocal (returned_ids (\<lambda>r. se_username r = us_username u) (ad_sessions d)) st"
    using revokeUserSessions_ok [OF ids mem assms(6), of st d2 st2] assms(7) r us(2) keep by (simp add: numeral_2_eq_2)
  have "d1 = audit (''scim'', ''delete'', ''user'', us_id u) d2 \<and> st1 = st2"
    using assms(1) r by (auto simp: scim_deactivate_def Let_def split: if_splits)
  moreover have "find (\<lambda>x. us_username x = us_username u) (map ?f (ad_users d)) = Some (?f u)"
    by (rule find_distinct_update [OF assms(5,2) keep(2)])
  ultimately show ?thesis using res us fu by (simp add: find_user_def)
qed

lemma inactive_no_login:
  "find_user n d = Some u \<Longrightarrow> \<not> us_active u \<Longrightarrow> fst (Login E c r (Some (n, p)) d) \<noteq> SessionToken t role"
  by (auto simp: Login_def split: option.splits)

section \<open>Properties\<close>

text \<open>Deprovisioning ends password and SAML access: after a successful SCIM DELETE no password sign-in
  yields a session, a SAML sign-in is refused, and every session of the account is revoked in the
  table and in this replica's cache.\<close>

theorem deprovisioning_ends_access:
  assumes "scim_deactivate h c (us_id u) (d, st) = (ScimNoContent, d1, st1)" "u \<in> set (ad_users d)"
    "us_tenant u = sc_tenantID h" "distinct (map us_id (ad_users d))" "distinct (map us_username (ad_users d))" "ac_ok c 1" "ac_ok c 2"
  shows "(\<forall>c2 r p t role. fst (Login E c2 r (Some (us_username u, p)) d1) \<noteq> SessionToken t role)
    \<and> (\<forall>c2. \<exists>e. resolveOrProvision E c2 (us_username u) d1 = Inl e)
    \<and> (\<forall>r \<in> set (ad_sessions d1). se_username r = us_username u \<longrightarrow> se_revoked r \<noteq> None)
    \<and> (\<forall>r \<in> set (ad_sessions d). se_username r = us_username u \<and> se_revoked r = None \<and> se_id r \<noteq> [] \<longrightarrow> se_id r \<in> set (ss_revoked st1))"
proof -
  have e: "find_user (us_username u) d1 = Some (u\<lparr>us_active := False\<rparr>)"
    "ad_sessions d1 = revoke_where (\<lambda>r. se_username r = us_username u) (ac_now c) (ad_sessions d)"
    "st1 = markRevokedLocal (returned_ids (\<lambda>r. se_username r = us_username u) (ad_sessions d)) st"
    using deactivate_effect [OF assms] by blast+
  have "\<forall>c2 r p t role. fst (Login E c2 r (Some (us_username u, p)) d1) \<noteq> SessionToken t role"
    using inactive_no_login [OF e(1)] by simp
  moreover have "\<forall>c2. \<exists>e. resolveOrProvision E c2 (us_username u) d1 = Inl e"
    using e(1) by (simp add: resolveOrProvision_def)
  moreover have "\<forall>r \<in> set (ad_sessions d1). se_username r = us_username u \<longrightarrow> se_revoked r \<noteq> None"
    unfolding e(2) using revoked_where_all [of _ "\<lambda>r. se_username r = us_username u"] by simp
  moreover have "\<forall>r \<in> set (ad_sessions d). se_username r = us_username u \<and> se_revoked r = None \<and> se_id r \<noteq> [] \<longrightarrow> se_id r \<in> set (ss_revoked st1)"
    unfolding e(3) mark_set by (auto simp: returned_ids_def)
  ultimately show ?thesis by blast
qed

definition demo_scim :: SCIMHandler where
  "demo_scim = NewSCIMHandler ''acme'' ''secret''"

lemma demo_scim_deactivate:
  "\<exists>d1 st1. scim_deactivate demo_scim (demo_acall 0) (us_id demo_user) (demo_db [demo_user], NewSessionStore None 0) = (ScimNoContent, d1, st1)"
  "us_tenant demo_user = sc_tenantID demo_scim"
proof -
  have "fst (scim_deactivate demo_scim (demo_acall 0) (us_id demo_user) (demo_db [demo_user], NewSessionStore None 0)) = ScimNoContent" by code_simp
  then show "\<exists>d1 st1. scim_deactivate demo_scim (demo_acall 0) (us_id demo_user) (demo_db [demo_user], NewSessionStore None 0) = (ScimNoContent, d1, st1)"
    by (metis prod.collapse)
  show "us_tenant demo_user = sc_tenantID demo_scim" by code_simp
qed

theorem deprovisioning_ends_access_witness:
  "\<exists>d1 st1. scim_deactivate demo_scim (demo_acall 0) (us_id demo_user) (demo_db [demo_user], NewSessionStore None 0) = (ScimNoContent, d1, st1)
     \<and> (\<forall>c2 r p t role. fst (Login (demo_env []) c2 r (Some (us_username demo_user, p)) d1) \<noteq> SessionToken t role)"
proof -
  obtain d1 st1 where x: "scim_deactivate demo_scim (demo_acall 0) (us_id demo_user) (demo_db [demo_user], NewSessionStore None 0) = (ScimNoContent, d1, st1)"
    using demo_scim_deactivate(1) by blast
  have "\<forall>c2 r p t role. fst (Login (demo_env []) c2 r (Some (us_username demo_user, p)) d1) \<noteq> SessionToken t role"
    using deprovisioning_ends_access [OF x _ demo_scim_deactivate(2), where E = "demo_env []"] by (simp add: demo_db_def demo_acall_def)
  with x show ?thesis by blast
qed

text \<open>A deprovisioned account returns through OpenID Connect: after the same successful SCIM DELETE, the
  OAuth callback with the account's address opens a new session for it, with its old role and
  tenant.\<close>

theorem deprovisioned_account_returns:
  assumes "scim_deactivate h c (us_id u) (d, st) = (ScimNoContent, d1, st1)" "u \<in> set (ad_users d)"
    "us_tenant u = sc_tenantID h" "distinct (map us_id (ad_users d))" "distinct (map us_username (ad_users d))" "ac_ok c 1" "ac_ok c 2"
    "us_username u \<noteq> []" "state \<noteq> []" "code \<noteq> []" "exchange code = Email (us_username u)" "ac_ok c2 0"
    "issueSessionToken E (ac_now c2) (us_username u) (us_role u) (us_tenant u) (us_tier u) (ac_id c2) = Some t"
  shows "fst (SSOCallback E c2 clientID exchange r state (Some state) code d1) = Redirected (''http://localhost:3000/settings?token='' @ t)"
proof -
  have u: "find_user (us_username u) d1 = Some (u\<lparr>us_active := False\<rparr>)" using deactivate_effect [OF assms(1-7)] by blast
  obtain t1 d2 where o: "open_session E c2 2 r (us_username u) (us_role u) (us_tenant u) (us_tier u) d1 = (t1, d2)" by force
  have "t1 = Some t" using open_session_token [OF o] assms(13) by simp
  then show ?thesis using assms(8-12) u o by (simp add: SSOCallback_def sso_email_def sso_account_def)
qed

theorem deprovisioned_account_returns_witness:
  "\<exists>d1 st1. scim_deactivate demo_scim (demo_acall 0) (us_id demo_user) (demo_db [demo_user], NewSessionStore None 0) = (ScimNoContent, d1, st1)
     \<and> fst (SSOCallback ((demo_env [])\<lparr>en_sign := (\<lambda>_ _. Some ''tok'')\<rparr>) (demo_acall 0) ''id'' (\<lambda>_. Email ''ann'') (demo_req ''GET'' ''/'' []) ''s'' (Some ''s'') ''c'' d1)
       = Redirected ''http://localhost:3000/settings?token=tok''"
proof -
  obtain d1 st1 where x: "scim_deactivate demo_scim (demo_acall 0) (us_id demo_user) (demo_db [demo_user], NewSessionStore None 0) = (ScimNoContent, d1, st1)"
    using demo_scim_deactivate(1) by blast
  have "us_username demo_user = ''ann''" by (simp add: demo_user_def)
  then have "fst (SSOCallback ((demo_env [])\<lparr>en_sign := (\<lambda>_ _. Some ''tok'')\<rparr>) (demo_acall 0) ''id'' (\<lambda>_. Email ''ann'') (demo_req ''GET'' ''/'' []) ''s'' (Some ''s'') ''c'' d1)
      = Redirected (''http://localhost:3000/settings?token='' @ ''tok'')"
    by (intro deprovisioned_account_returns [OF x _ demo_scim_deactivate(2)])
      (simp_all add: demo_db_def demo_acall_def issueSessionToken_def)
  with x show ?thesis by auto
qed

text \<open>Replacing a user without naming \<open>active\<close> deactivates it: a PUT whose body leaves the attribute out
  answers 200 with an inactive resource, and the account can no longer sign in with its password.\<close>

theorem put_without_active_deactivates:
  assumes "scim_replace h c (us_id u) (Some (ext, None)) (d, st) = (ScimResource 200 su, d1, st1)" "u \<in> set (ad_users d)"
    "us_tenant u = sc_tenantID h" "distinct (map us_username (ad_users d))"
  shows "\<exists>u1. find_user (us_username u) d1 = Some u1 \<and> \<not> us_active u1
    \<and> (\<forall>c2 r p t role. fst (Login E c2 r (Some (us_username u, p)) d1) \<noteq> SessionToken t role)"
proof -
  let ?g = "\<lambda>u. u\<lparr>us_active := False, us_external := (case nullIfEmpty ext of None \<Rightarrow> us_external u | Some e \<Rightarrow> Some e)\<rparr>"
  let ?f = "\<lambda>x. if us_id x = us_id u \<and> us_tenant x = sc_tenantID h then ?g x else x"
  let ?d1 = "update_in_tenant h (us_id u) ?g d"
  have "ad_users (fst (revokeUserSessions c 2 (us_id u) (?d1, st))) = ad_users ?d1"
    by (auto simp: revokeUserSessions_def split: option.splits prod.splits)
  then have "ad_users d1 = map ?f (ad_users d)"
    using assms(1) by (auto simp: scim_replace_def Let_def update_in_tenant_def split: if_splits option.splits)
  moreover have "find (\<lambda>x. us_username x = us_username u) (map ?f (ad_users d)) = Some (?f u)"
    by (rule find_distinct_update [OF assms(4,2)]) simp
  ultimately have f: "find_user (us_username u) d1 = Some (?g u)" using assms(3) by (simp add: find_user_def)
  then show ?thesis using inactive_no_login [OF f] by simp
qed

theorem put_without_active_deactivates_witness:
  "\<exists>u1 d1. find_user ''ann'' d1 = Some u1 \<and> \<not> us_active u1
     \<and> d1 = fst (snd (scim_replace demo_scim (demo_acall 0) ''1'' (Some (''x'', None)) (demo_db [demo_user], NewSessionStore None 0)))"
proof -
  let ?x = "scim_replace demo_scim (demo_acall 0) (us_id demo_user) (Some (''x'', None)) (demo_db [demo_user], NewSessionStore None 0)"
  have "fst ?x = ScimResource 200 \<lparr>su_ID = ''1'', su_ExternalID = ''x'', su_UserName = ''ann'', su_Active = False\<rparr>" by code_simp
  then obtain su where x: "?x = (ScimResource 200 su, fst (snd ?x), snd (snd ?x))" by (metis prod.collapse)
  have "us_id demo_user = ''1''" "us_username demo_user = ''ann''" by (simp_all add: demo_user_def)
  then show ?thesis
    using put_without_active_deactivates [OF x _ demo_scim_deactivate(2)] by (simp add: demo_db_def) blast
qed

text \<open>The filter that directories send reads back: for every name, the text \<open>userName eq "name"\<close> selects
  exactly that name, quotes and spaces inside it included.\<close>

theorem username_filter_reads_back:
  "parseUserNameFilter (''userName eq '' @ [quote_char] @ v @ [quote_char]) = Some v"
proof -
  let ?q = "[quote_char] @ v @ [quote_char]"
  let ?f = "''userName eq '' @ ?q"
  have q: "\<not> is_space quote_char" by code_simp
  have "trim_space ?f = ?f" unfolding trim_space_fixed using q by (simp add: is_space_def)
  moreover have "trim_space ?q = ?q" unfolding trim_space_fixed using q by simp
  moreover have "to_lower ''userName eq '' = filter_prefix" by code_simp
  then have "to_lower ?f = filter_prefix @ to_lower ?q" by (simp only: to_lower_append)
  then have "has_prefix filter_prefix (to_lower ?f)" unfolding has_prefix_iff by blast
  moreover have "drop (length filter_prefix) ?f = ?q" by (simp add: filter_prefix_def)
  ultimately show ?thesis by (simp add: parseUserNameFilter_def Let_def)
qed

end
