(* ===== verification/Usage.thy ===== *)
theory Usage
  imports Auth Go_Time
begin

text \<open>
  Counting and limiting: the Redis counters of \<open>src/shared/metering/meter.go\<close>, the monthly quotas of
  \<open>src/gateway-service/internal/quota/quota.go\<close> and the rate limiter of
  \<open>src/shared/middleware/ratelimit.go\<close> with its rules in
  \<open>src/gateway-service/internal/handler/ratelimit_handler.go\<close>. A Redis database is a map from keys to
  a value and an optional expiry; a pipeline is carried out as a whole or fails. Times are nanoseconds.
\<close>

section \<open>Redis\<close>

type_synonym redis = "(string, int \<times> int option) gomap"

definition rd_live :: "int \<Rightarrow> string \<Rightarrow> redis \<Rightarrow> (int \<times> int option) option" where
  "rd_live now k s = (case map_of s k of
     Some (v, Some e) \<Rightarrow> if e \<le> now then None else Some (v, Some e)
   | x \<Rightarrow> x)"

definition rd_get :: "int \<Rightarrow> string \<Rightarrow> redis \<Rightarrow> int option" where
  "rd_get now k s = map_option fst (rd_live now k s)"

definition rd_incrby :: "int \<Rightarrow> string \<Rightarrow> int \<Rightarrow> redis \<Rightarrow> int \<times> redis" where
  "rd_incrby now k n s = (case rd_live now k s of
     None \<Rightarrow> (n, AList.update k (n, None) s)
   | Some (v, e) \<Rightarrow> (v + n, AList.update k (v + n, e) s))"

definition rd_expire :: "int \<Rightarrow> string \<Rightarrow> int \<Rightarrow> redis \<Rightarrow> redis" where
  "rd_expire now k ttl s = (case rd_live now k s of None \<Rightarrow> s | Some (v, _) \<Rightarrow> AList.update k (v, Some (now + ttl)) s)"

section \<open>Metering\<close>

definition SignalTraces :: string where "SignalTraces = ''traces''"
definition SignalMetrics :: string where "SignalMetrics = ''metrics''"
definition SignalLogs :: string where "SignalLogs = ''logs''"
definition SignalRUM :: string where "SignalRUM = ''rum''"

definition counterTTL :: int where "counterTTL = 45 * 24 * 3600 * 10 ^ 9"
definition monthCounterTTL :: int where "monthCounterTTL = 70 * 24 * 3600 * 10 ^ 9"

definition counterKey :: "string \<Rightarrow> string \<Rightarrow> string \<Rightarrow> string" where
  "counterKey tenantID day signal = ''usage:'' @ tenantID @ '':'' @ day @ '':'' @ signal"

definition monthKey :: "string \<Rightarrow> string \<Rightarrow> string \<Rightarrow> string" where
  "monthKey tenantID month signal = ''usage_month:'' @ tenantID @ '':'' @ month @ '':'' @ signal"

text \<open>The clock as the meter reads it: the instant, the day and the month in UTC.\<close>

record clock =
  ck_now :: int
  ck_day :: string
  ck_month :: string

text \<open>A meter is \<open>None\<close> when Redis was not configured or not reachable at start.\<close>

definition Record_usage :: "clock \<Rightarrow> bool \<Rightarrow> string \<Rightarrow> string \<Rightarrow> int \<Rightarrow> redis option \<Rightarrow> redis option" where
  "Record_usage ck ok tenantID signal count m = (case m of None \<Rightarrow> None
   | Some s \<Rightarrow>
       if count \<le> 0 \<or> tenantID = [] \<or> \<not> ok then Some s
       else
         (let dayKey = counterKey tenantID (ck_day ck) signal; monKey = monthKey tenantID (ck_month ck) signal;
              s1 = rd_expire (ck_now ck) dayKey counterTTL (snd (rd_incrby (ck_now ck) dayKey count s))
          in Some (rd_expire (ck_now ck) monKey monthCounterTTL (snd (rd_incrby (ck_now ck) monKey count s1)))))"

definition MonthlyUsage :: "clock \<Rightarrow> bool \<Rightarrow> string \<Rightarrow> string \<Rightarrow> redis option \<Rightarrow> int" where
  "MonthlyUsage ck ok tenantID signal m = (case m of None \<Rightarrow> 0
   | Some s \<Rightarrow> if \<not> ok then 0 else case rd_get (ck_now ck) (monthKey tenantID (ck_month ck) signal) s of None \<Rightarrow> 0 | Some v \<Rightarrow> v)"

definition CurrentUsage :: "clock \<Rightarrow> bool \<Rightarrow> string \<Rightarrow> string \<Rightarrow> string \<Rightarrow> redis option \<Rightarrow> int" where
  "CurrentUsage ck ok tenantID signal day m = (case m of None \<Rightarrow> 0
   | Some s \<Rightarrow> if \<not> ok then 0 else case rd_get (ck_now ck) (counterKey tenantID day signal) s of None \<Rightarrow> 0 | Some v \<Rightarrow> v)"

text \<open>\<open>time.Parse\<close> with the layout \<open>2006-01-02\<close>.\<close>

definition valid_day :: "string \<Rightarrow> bool" where
  "valid_day s \<longleftrightarrow> length s = 10 \<and> s ! 4 = CHR ''-'' \<and> s ! 7 = CHR ''-'' \<and>
     (case (parse_digits 0 (take 4 s), parse_digits 0 (take 2 (drop 5 s)), parse_digits 0 (drop 8 s)) of
        (Some y, Some m, Some d) \<Rightarrow> 1 \<le> m \<and> m \<le> 12 \<and> 1 \<le> d \<and> d \<le> days_in y m
      | _ \<Rightarrow> False)"

definition parseCounterKey :: "string \<Rightarrow> (string \<times> string \<times> string) option" where
  "parseCounterKey key = (case split_on CHR '':'' key of
     [u, t, d, s] \<Rightarrow> if u = ''usage'' \<and> valid_day d then Some (t, d, s) else None
   | _ \<Rightarrow> None)"

type_synonym usage_daily = "(string \<times> string \<times> string, int) gomap"

text \<open>\<open>flush_usage\<close>: the batches of a scan, \<open>None\<close> for one that fails; \<open>ok\<close> says for which keys the upsert
  succeeds.\<close>

definition flush_key :: "int \<Rightarrow> (string \<Rightarrow> bool) \<Rightarrow> redis \<Rightarrow> string \<Rightarrow> usage_daily \<Rightarrow> usage_daily" where
  "flush_key now ok s key rows = (case parseCounterKey key of None \<Rightarrow> rows
   | Some k \<Rightarrow> (case rd_get now key s of None \<Rightarrow> rows
     | Some v \<Rightarrow> if ok key then AList.update k v rows else rows))"

fun flush_usage :: "int \<Rightarrow> (string \<Rightarrow> bool) \<Rightarrow> redis \<Rightarrow> string list option list \<Rightarrow> usage_daily \<Rightarrow> usage_daily" where
  "flush_usage now ok s [] rows = rows"
| "flush_usage now ok s (None # _) rows = rows"
| "flush_usage now ok s (Some keys # rest) rows = flush_usage now ok s rest (fold (flush_key now ok s) keys rows)"

section \<open>Quotas\<close>

record Limits =
  lm_Traces :: int
  lm_Metrics :: int
  lm_Logs :: int
  lm_RUM :: int

definition forSignal :: "Limits \<Rightarrow> string \<Rightarrow> int" where
  "forSignal l signal =
     (if signal = SignalTraces then lm_Traces l else if signal = SignalMetrics then lm_Metrics l
      else if signal = SignalLogs then lm_Logs l else if signal = SignalRUM then lm_RUM l else 0)"

definition planLimits :: "(string, Limits) gomap" where
  "planLimits =
     [(''free'', \<lparr>lm_Traces = 1000000, lm_Metrics = 1000000, lm_Logs = 1000000, lm_RUM = 200000\<rparr>),
      (''standard'', \<lparr>lm_Traces = 20000000, lm_Metrics = 20000000, lm_Logs = 20000000, lm_RUM = 5000000\<rparr>),
      (''premium'', \<lparr>lm_Traces = 200000000, lm_Metrics = 200000000, lm_Logs = 200000000, lm_RUM = 50000000\<rparr>),
      (''enterprise'', \<lparr>lm_Traces = 0, lm_Metrics = 0, lm_Logs = 0, lm_RUM = 0\<rparr>)]"

definition freeLimits :: Limits where
  "freeLimits = \<lparr>lm_Traces = 1000000, lm_Metrics = 1000000, lm_Logs = 1000000, lm_RUM = 200000\<rparr>"

definition limitsForPlan :: "string \<Rightarrow> Limits" where
  "limitsForPlan plan = (case map_of planLimits plan of Some l \<Rightarrow> l | None \<Rightarrow> freeLimits)"

definition PlanOrder :: "string list" where
  "PlanOrder = [''free'', ''standard'', ''premium'', ''enterprise'']"

definition LimitsForPlan_known :: "string \<Rightarrow> Limits \<times> bool" where
  "LimitsForPlan_known plan = (case map_of planLimits plan of None \<Rightarrow> (freeLimits, False) | Some l \<Rightarrow> (l, True))"

definition planCacheTTL :: int where "planCacheTTL = 60 * 10 ^ 9"

text \<open>The cache of plans; the row read is \<open>None\<close> when there is no database, no tenant, or the query
  fails.\<close>

type_synonym plan_cache = "(string, string \<times> int) gomap"

definition planFor :: "int \<Rightarrow> string option \<Rightarrow> string \<Rightarrow> plan_cache \<Rightarrow> string \<times> plan_cache" where
  "planFor now row tenantID cache =
     (let fetch = (let plan = (case row of Some p \<Rightarrow> if p \<noteq> [] then p else ''free'' | None \<Rightarrow> ''free'')
                   in (plan, AList.update tenantID (plan, now) cache))
      in case map_of cache tenantID of
           Some (plan, at) \<Rightarrow> if now - at < planCacheTTL then (plan, cache) else fetch
         | None \<Rightarrow> fetch)"

definition Allow :: "clock \<Rightarrow> bool \<Rightarrow> string option \<Rightarrow> string \<Rightarrow> string \<Rightarrow> redis option \<Rightarrow> plan_cache \<Rightarrow> bool \<times> plan_cache" where
  "Allow ck ok row tenantID signal m cache = (case planFor (ck_now ck) row tenantID cache of (plan, cache1) \<Rightarrow>
     let lim = forSignal (limitsForPlan plan) signal
     in (lim = 0 \<or> MonthlyUsage ck ok tenantID signal m < lim, cache1))"

definition ingestSignal :: "http_req \<Rightarrow> string option" where
  "ingestSignal r =
     (if hr_Method r \<noteq> ''POST'' then None
      else if has_prefix ''/v1/traces'' (hr_Path r) then Some SignalTraces
      else if has_prefix ''/v1/metrics'' (hr_Path r) then Some SignalMetrics
      else if has_prefix ''/v1/logs'' (hr_Path r) \<or> hr_Path r = ''/api/v1/logs'' then Some SignalLogs
      else if hr_Path r = ''/api/v1/rum/ingest'' then Some SignalRUM
      else None)"

text \<open>\<open>Middleware\<close> of the enforcer: whether the request goes on.\<close>

definition quota_Middleware ::
  "clock \<Rightarrow> bool \<Rightarrow> (string \<Rightarrow> string option) \<Rightarrow> http_req \<Rightarrow> redis option \<Rightarrow> plan_cache \<Rightarrow> bool \<times> plan_cache" where
  "quota_Middleware ck ok plan_row r m cache = (case ingestSignal r of None \<Rightarrow> (True, cache)
   | Some signal \<Rightarrow>
       (let t = hdr_Get (hr_Header r) ''X-Tenant-ID''; tenantID = (if t = [] then ''default'' else t)
        in Allow ck ok (plan_row tenantID) tenantID signal m cache))"

section \<open>Rate limiting\<close>

record RateLimitRule =
  rl_Name :: string
  rl_PathPrefixes :: "string list"
  rl_Limit :: int
  rl_Window :: int

definition fallback_rule :: RateLimitRule where
  "fallback_rule = \<lparr>rl_Name = ''default-fallback'', rl_PathPrefixes = [], rl_Limit = 300, rl_Window = 60 * 10 ^ 9\<rparr>"

definition ruleFor :: "RateLimitRule list \<Rightarrow> string \<Rightarrow> RateLimitRule" where
  "ruleFor rules path =
     (case find (\<lambda>r. \<exists>p \<in> set (rl_PathPrefixes r). has_prefix p path) rules of Some r \<Rightarrow> r | None \<Rightarrow> fallback_rule)"

text \<open>\<open>net.SplitHostPort\<close> is an argument, \<open>None\<close> for an error.\<close>

definition identify :: "(string \<Rightarrow> string option) \<Rightarrow> http_req \<Rightarrow> string" where
  "identify split_host r =
     (let t = hdr_Get (hr_Header r) ''X-Tenant-ID''
      in if t \<noteq> [] then ''tenant:'' @ t
         else ''ip:'' @ (case split_host (hr_RemoteAddr r) of Some h \<Rightarrow> h | None \<Rightarrow> hr_RemoteAddr r))"

definition routeClass :: "RateLimitRule \<Rightarrow> string" where
  "routeClass r = (if rl_Name r \<noteq> [] then rl_Name r else case rl_PathPrefixes r of [] \<Rightarrow> ''default'' | p # _ \<Rightarrow> p)"

text \<open>\<open>windowBucket\<close>: \<open>None\<close> is the division by zero of a window below a second.\<close>

definition windowBucket :: "int \<Rightarrow> int \<Rightarrow> int option" where
  "windowBucket now window =
     (let w = (if window \<le> 0 then 60 * 10 ^ 9 else window); secs = w div 10 ^ 9
      in if secs = 0 then None else Some (unix_of now div secs))"

definition limiter_key :: "string \<Rightarrow> RateLimitRule \<Rightarrow> int \<Rightarrow> string" where
  "limiter_key who rule bucket = ''ratelimit:'' @ who @ '':'' @ routeClass rule @ '':'' @ format_int bucket"

datatype limit_verdict = Passed | TooMany | Crashed

definition effective_rule :: "RateLimitRule list \<Rightarrow> http_req \<Rightarrow> RateLimitRule" where
  "effective_rule rules r =
     (let rule = ruleFor rules (hr_Path r)
      in if hdr_Get (hr_Header r) ''X-Tenant-Tier'' = ''premium'' then rule\<lparr>rl_Limit := rl_Limit rule * 5\<rparr> else rule)"

text \<open>\<open>RateLimit\<close> at a time: \<open>incr_ok\<close> and \<open>expire_ok\<close> say whether Redis answers.\<close>

definition RateLimit ::
  "(string \<Rightarrow> string option) \<Rightarrow> RateLimitRule list \<Rightarrow> int \<Rightarrow> bool \<Rightarrow> bool \<Rightarrow> http_req \<Rightarrow> redis \<Rightarrow> limit_verdict \<times> redis" where
  "RateLimit split_host rules now incr_ok expire_ok r s =
     (let rule = effective_rule rules r
      in case windowBucket now (rl_Window rule) of None \<Rightarrow> (Crashed, s)
         | Some bucket \<Rightarrow>
             if \<not> incr_ok then (Passed, s)
             else
               (let key = limiter_key (identify split_host r) rule bucket;
                    count = fst (rd_incrby now key 1 s); s1 = snd (rd_incrby now key 1 s);
                    s2 = (if count = 1 \<and> expire_ok then rd_expire now key (rl_Window rule) s1 else s1)
                in (if count > rl_Limit rule then TooMany else Passed, s2)))"

subsection \<open>Rules in the database\<close>

text \<open>\<open>path_prefixes\<close> is a JSON column: \<open>None\<close> is JSON \<open>null\<close>.\<close>

record rule_row =
  rr_id :: string
  rr_name :: string
  rr_prefixes :: "string list option"
  rr_limit :: int
  rr_window :: int
  rr_priority :: int
  rr_enabled :: bool

definition rule_before :: "(string \<Rightarrow> string \<Rightarrow> bool) \<Rightarrow> rule_row \<Rightarrow> rule_row \<Rightarrow> bool" where
  "rule_before le a b \<longleftrightarrow> rr_priority a < rr_priority b \<or> (rr_priority a = rr_priority b \<and> le (rr_name a) (rr_name b))"

text \<open>\<open>loadRules\<close> in the order of priority and name, where \<open>le\<close> is the database's collation, and the
  rules that \<open>refresh\<close> installs from them.\<close>

definition loadRules :: "(string \<Rightarrow> string \<Rightarrow> bool) \<Rightarrow> rule_row list \<Rightarrow> rule_row list" where
  "loadRules le rows = stable_sort (\<lambda>a b. \<not> rule_before le b a) (filter rr_enabled rows)"

definition rule_of :: "rule_row \<Rightarrow> RateLimitRule" where
  "rule_of r = \<lparr>rl_Name = rr_name r, rl_PathPrefixes = (case rr_prefixes r of None \<Rightarrow> [] | Some ps \<Rightarrow> ps),
     rl_Limit = rr_limit r, rl_Window = rr_window r * 10 ^ 9\<rparr>"

definition refresh_rules :: "(string \<Rightarrow> string \<Rightarrow> bool) \<Rightarrow> bool \<Rightarrow> rule_row list \<Rightarrow> RateLimitRule list \<Rightarrow> RateLimitRule list" where
  "refresh_rules le ok rows old = (if ok then map rule_of (loadRules le rows) else old)"

text \<open>A request's prefixes are \<open>None\<close> when the field is absent or null.\<close>

record upsertRateLimitRuleRequest =
  uq_Name :: string
  uq_PathPrefixes :: "string list option"
  uq_LimitCount :: int
  uq_WindowSeconds :: int
  uq_Priority :: int
  uq_Enabled :: "bool option"

definition CreateRateLimitRule ::
  "auth_call \<Rightarrow> upsertRateLimitRuleRequest option \<Rightarrow> rule_row list \<Rightarrow> int \<times> rule_row list" where
  "CreateRateLimitRule c body rows = (case body of None \<Rightarrow> (400, rows)
   | Some q \<Rightarrow>
       if uq_Name q = [] \<or> uq_PathPrefixes q = None \<or> uq_PathPrefixes q = Some [] \<or> uq_LimitCount q \<le> 0 \<or> uq_WindowSeconds q \<le> 0
       then (400, rows)
       else if \<not> ac_ok c 0 then (500, rows)
       else if uq_Name q \<in> rr_name ` set rows then (if contains ''duplicate key'' (ac_dup c) then 409 else 500, rows)
       else (201, rows @ [\<lparr>rr_id = ac_id c, rr_name = uq_Name q, rr_prefixes = uq_PathPrefixes q, rr_limit = uq_LimitCount q,
              rr_window = uq_WindowSeconds q, rr_priority = uq_Priority q, rr_enabled = True\<rparr>]))"

definition update_rule_row :: "upsertRateLimitRuleRequest \<Rightarrow> rule_row \<Rightarrow> rule_row" where
  "update_rule_row q r = r\<lparr>rr_prefixes := (if uq_PathPrefixes q = Some [] then rr_prefixes r else uq_PathPrefixes q),
     rr_limit := (if uq_LimitCount q = 0 then rr_limit r else uq_LimitCount q),
     rr_window := (if uq_WindowSeconds q = 0 then rr_window r else uq_WindowSeconds q),
     rr_priority := uq_Priority q, rr_enabled := (case uq_Enabled q of None \<Rightarrow> True | Some b \<Rightarrow> b)\<rparr>"

definition UpdateRateLimitRule ::
  "auth_call \<Rightarrow> string \<Rightarrow> upsertRateLimitRuleRequest option \<Rightarrow> rule_row list \<Rightarrow> int \<times> rule_row list" where
  "UpdateRateLimitRule c i body rows = (case body of None \<Rightarrow> (400, rows)
   | Some q \<Rightarrow>
       if \<not> ac_ok c 0 then (500, rows)
       else if i \<notin> rr_id ` set rows then (404, rows)
       else (200, map (\<lambda>r. if rr_id r = i then update_rule_row q r else r) rows))"

definition DeleteRateLimitRule :: "auth_call \<Rightarrow> string \<Rightarrow> rule_row list \<Rightarrow> int \<times> rule_row list" where
  "DeleteRateLimitRule c i rows =
     (if \<not> ac_ok c 0 then (500, rows)
      else if i \<notin> rr_id ` set rows then (404, rows)
      else (200, filter (\<lambda>r. rr_id r \<noteq> i) rows))"

section \<open>Counter keys\<close>

lemma parse_digits_chars: "parse_digits a s = Some n \<Longrightarrow> \<forall>c \<in> set s. char_digit c \<noteq> None"
  by (induction s arbitrary: a) (auto split: option.splits)

lemma valid_day_no_colon: "valid_day s \<Longrightarrow> CHR '':'' \<notin> set s"
proof
  assume v: "valid_day s" and c: "CHR '':'' \<in> set s"
  have len: "length s = 10" using v by (simp add: valid_day_def)
  obtain i where i: "i < 10" "s ! i = CHR '':''" using c len by (metis in_set_conv_nth)
  have digits: "\<forall>c \<in> set (take 4 s) \<union> set (take 2 (drop 5 s)) \<union> set (drop 8 s). char_digit c \<noteq> None"
    using v parse_digits_chars by (auto simp: valid_day_def split: option.splits)
  consider "i < 4" | "i = 4" | "i = 5 \<or> i = 6" | "i = 7" | "8 \<le> i" using i(1) by linarith
  then have "s ! i \<in> set (take 4 s) \<union> set (take 2 (drop 5 s)) \<union> set (drop 8 s) \<or> s ! i = CHR ''-''"
  proof cases
    case 1
    then have "s ! i = take 4 s ! i" "i < length (take 4 s)" using len by auto
    then show ?thesis by (metis UnI1 nth_mem)
  next
    case 3
    then have "s ! i = take 2 (drop 5 s) ! (i - 5)" "i - 5 < length (take 2 (drop 5 s))" using len by auto
    then show ?thesis by (metis UnI1 UnI2 nth_mem)
  next
    case 5
    then have "s ! i = drop 8 s ! (i - 8)" "i - 8 < length (drop 8 s)" using len i(1) by auto
    then show ?thesis by (metis UnI2 nth_mem)
  qed (use v in \<open>simp_all add: valid_day_def\<close>)
  moreover have "char_digit CHR '':'' = None" by code_simp
  ultimately show False using digits i(2) by auto
qed

lemma length_split_on: "length (split_on d s) = Suc (count_list s d)"
  by (induction s) (auto split: list.splits)

lemma counterKey_join: "counterKey t d s = join_with [CHR '':''] [''usage'', t, d, s]"
  by (simp add: counterKey_def)

lemma parse_counterKey:
  "CHR '':'' \<notin> set t \<Longrightarrow> valid_day d \<Longrightarrow> CHR '':'' \<notin> set s \<Longrightarrow> parseCounterKey (counterKey t d s) = Some (t, d, s)"
  using split_on_join_with [of "[''usage'', t, d, s]" "CHR '':''"] valid_day_no_colon [of d]
  by (simp add: parseCounterKey_def counterKey_join)

lemma parseCounterKey_SomeD: "parseCounterKey key = Some (t, d, s) \<Longrightarrow> key = counterKey t d s"
proof -
  assume "parseCounterKey key = Some (t, d, s)"
  then have "split_on CHR '':'' key = [''usage'', t, d, s]"
    unfolding parseCounterKey_def by (auto split: list.splits if_splits)
  then show ?thesis using split_on_join [of "CHR '':''" key] by (simp only: counterKey_join)
qed

lemma colon_key_unparsed: "CHR '':'' \<in> set t \<Longrightarrow> parseCounterKey (counterKey t d s) = None"
proof -
  assume "CHR '':'' \<in> set t"
  then have "0 < count_list t CHR '':''" by (metis count_notin gr0I count_list_0_iff)
  then have "length (split_on CHR '':'' (counterKey t d s)) > 4" by (simp add: length_split_on counterKey_def)
  then show ?thesis by (auto simp: parseCounterKey_def split: list.splits)
qed

section \<open>Flushing\<close>

lemma fold_flush_key:
  assumes "parseCounterKey key = Some k" "rd_get now key s = Some v"
  shows "map_of (fold (flush_key now (\<lambda>_. True) s) keys rows) k = (if key \<in> set keys then Some v else map_of rows k)"
proof (induction keys arbitrary: rows)
  case (Cons x keys)
  obtain t d g where k: "k = (t, d, g)" by (cases k) auto
  have same: "x = key" if "parseCounterKey x = Some k"
    using parseCounterKey_SomeD [of x t d g] parseCounterKey_SomeD [of key t d g] that assms(1) unfolding k by simp
  have step: "map_of (flush_key now (\<lambda>_. True) s x rows) k = (if x = key then Some v else map_of rows k)"
  proof (cases "x = key")
    case True
    then show ?thesis using assms by (simp add: flush_key_def update_conv)
  next
    case False
    then have "parseCounterKey x \<noteq> Some k" using same by blast
    then show ?thesis using False by (cases "parseCounterKey x"; cases "rd_get now x s") (simp_all add: flush_key_def update_conv)
  qed
  show ?case using Cons [of "flush_key now (\<lambda>_. True) s x rows"] step by auto
qed simp

lemma flush_mirror:
  assumes "parseCounterKey key = Some k" "rd_get now key s = Some v"
  shows "map_of (flush_usage now (\<lambda>_. True) s (map Some batches) rows) k = (if key \<in> set (concat batches) then Some v else map_of rows k)"
proof (induction batches arbitrary: rows)
  case (Cons b bs)
  then show ?case using fold_flush_key [OF assms] by auto
qed simp

section \<open>Counters\<close>

lemma rd_live_update: "map_of (AList.update k v s) j = (if j = k then Some v else map_of s j)"
  by (simp add: update_conv)

lemma rd_get_incr:
  "rd_get now j (snd (rd_incrby now k n s)) =
     (if j = k then Some ((case rd_get now k s of None \<Rightarrow> 0 | Some v \<Rightarrow> v) + n) else rd_get now j s)"
proof (cases "rd_live now k s")
  case None
  then show ?thesis by (simp add: rd_incrby_def rd_get_def rd_live_def [of now j] rd_live_update split: option.splits)
next
  case (Some x)
  obtain v e where x: "x = (v, e)" by force
  have "e = None \<or> (\<exists>t. e = Some t \<and> now < t)"
    using Some x by (auto simp: rd_live_def split: option.splits if_splits prod.splits)
  then show ?thesis using Some x
    by (auto simp: rd_incrby_def rd_get_def rd_live_def [of now j] rd_live_update split: option.splits)
qed

lemma rd_get_expire: "0 < ttl \<Longrightarrow> rd_get now j (rd_expire now k ttl s) = rd_get now j s"
proof (cases "rd_live now k s")
  case (Some x)
  assume ttl: "0 < ttl"
  obtain v e where x: "x = (v, e)" by force
  show ?thesis
  proof (cases "j = k")
    case True
    have "rd_live now k (AList.update k (v, Some (now + ttl)) s) = Some (v, Some (now + ttl))"
      using ttl by (simp add: rd_live_def rd_live_update)
    then show ?thesis using Some x True by (simp add: rd_expire_def rd_get_def)
  next
    case False
    then show ?thesis using Some x by (simp add: rd_expire_def rd_get_def rd_live_def [of now j] rd_live_update)
  qed
qed (simp add: rd_expire_def)

lemma keys_differ: "counterKey t d g \<noteq> monthKey t2 m g2"
  by (simp add: counterKey_def monthKey_def)

lemma MonthlyUsage_Record:
  assumes "0 < n" "t \<noteq> []"
  shows "MonthlyUsage ck True t g (Record_usage ck True t g n (Some s)) = MonthlyUsage ck True t g (Some s) + n"
proof -
  have "rd_get (ck_now ck) (monthKey t (ck_month ck) g) (the (Record_usage ck True t g n (Some s))) =
      Some ((case rd_get (ck_now ck) (monthKey t (ck_month ck) g) s of None \<Rightarrow> 0 | Some v \<Rightarrow> v) + n)"
    using assms keys_differ [of t "ck_day ck" g t "ck_month ck" g]
    by (simp add: Record_usage_def Let_def rd_get_expire rd_get_incr counterTTL_def monthCounterTTL_def)
  then show ?thesis using assms by (simp add: MonthlyUsage_def Record_usage_def Let_def split: option.splits)
qed

section \<open>Requests in flight\<close>

text \<open>Ingestion of one signal of one tenant during a month \<open>M\<close> that lies between the instants \<open>a\<close> and
  \<open>b\<close>: a request of at most \<open>B\<close> events is admitted by \<open>Allow\<close> and recorded later, or fails before or in
  the recording; at most \<open>C\<close> admitted requests are in flight. An admission is checked when the counter
  could be read and the plan in force limits the signal to at most \<open>L\<close>; the others, for which Redis did
  not answer or the plan had no limit or a higher one, are counted in \<open>F\<close>.\<close>

definition in_month :: "string \<Rightarrow> int \<Rightarrow> int \<Rightarrow> clock \<Rightarrow> bool" where
  "in_month M a b ck \<longleftrightarrow> ck_month ck = M \<and> a \<le> ck_now ck \<and> ck_now ck \<le> b"

inductive ingest_reach :: "string \<Rightarrow> string \<Rightarrow> string \<Rightarrow> int \<Rightarrow> int \<Rightarrow> int \<Rightarrow> nat \<Rightarrow> int \<Rightarrow> nat \<Rightarrow> redis \<Rightarrow> int list \<Rightarrow> bool"
  for t g M a b L C B where
  start: "map_of s (monthKey t M g) = None \<Longrightarrow> ingest_reach t g M a b L C B 0 s []"
| admit: "ingest_reach t g M a b L C B F s p \<Longrightarrow> in_month M a b ck \<Longrightarrow> fst (Allow ck ok row t g (Some s) cache) \<Longrightarrow>
    lim = forSignal (limitsForPlan (fst (planFor (ck_now ck) row t cache))) g \<Longrightarrow> 0 < n \<Longrightarrow> n \<le> B \<Longrightarrow> length p < C \<Longrightarrow>
    ingest_reach t g M a b L C B (if ok \<and> lim \<noteq> 0 \<and> lim \<le> L then F else Suc F) s (n # p)"
| recorded: "ingest_reach t g M a b L C B F s p \<Longrightarrow> in_month M a b ck \<Longrightarrow> n \<in> set p \<Longrightarrow>
    Record_usage ck ok t g n (Some s) = Some s1 \<Longrightarrow> ingest_reach t g M a b L C B F s1 (remove1 n p)"
| dropped: "ingest_reach t g M a b L C B F s p \<Longrightarrow> ingest_reach t g M a b L C B F s (remove1 n p)"
| other: "ingest_reach t g M a b L C B F s p \<Longrightarrow> map_of s1 (monthKey t M g) = map_of s (monthKey t M g) \<Longrightarrow> ingest_reach t g M a b L C B F s1 p"

definition stored :: "string \<Rightarrow> redis \<Rightarrow> int" where
  "stored k s = (case map_of s k of None \<Rightarrow> 0 | Some (v, _) \<Rightarrow> v)"

definition ingest_inv :: "string \<Rightarrow> int \<Rightarrow> int \<Rightarrow> nat \<Rightarrow> int \<Rightarrow> nat \<Rightarrow> redis \<Rightarrow> int list \<Rightarrow> bool" where
  "ingest_inv k b L C B F s p \<longleftrightarrow> (\<forall>n \<in> set p. 0 < n \<and> n \<le> B) \<and> length p \<le> C
     \<and> (\<forall>v e. map_of s k = Some (v, e) \<longrightarrow> e = None \<or> b < the e)
     \<and> stored k s + sum_list p \<le> L - 1 + int (C + F) * B"

lemma live_in_month:
  assumes "ingest_inv (monthKey t M g) b L C B F s p" "in_month M a b ck"
  shows "MonthlyUsage ck True t g (Some s) = stored (monthKey t M g) s"
proof -
  have "rd_live (ck_now ck) (monthKey t M g) s = map_of s (monthKey t M g)"
    using assms by (fastforce simp: ingest_inv_def in_month_def rd_live_def split: option.splits)
  then show ?thesis using assms(2) by (auto simp: MonthlyUsage_def in_month_def rd_get_def stored_def split: option.splits)
qed

lemma sum_list_bound: "\<forall>n \<in> set p. n \<le> (B :: int) \<Longrightarrow> sum_list p \<le> int (length p) * B"
  by (induction p) (auto simp: distrib_right)

lemma sum_list_remove1_int: "n \<in> set p \<Longrightarrow> sum_list (remove1 n p) = sum_list p - (n :: int)"
  by (induction p) auto

lemma record_stored:
  assumes "Record_usage ck True t g n (Some s) = Some s1" "0 < n" "t \<noteq> []" "in_month M a b ck" "b - a < monthCounterTTL"
    "\<forall>v e. map_of s (monthKey t M g) = Some (v, e) \<longrightarrow> e = None \<or> b < the e"
  shows "map_of s1 (monthKey t M g) = Some (stored (monthKey t M g) s + n, Some (ck_now ck + monthCounterTTL))"
proof -
  let ?m = "monthKey t M g" and ?d = "counterKey t (ck_day ck) g" and ?now = "ck_now ck"
  let ?s1 = "rd_expire ?now ?d counterTTL (snd (rd_incrby ?now ?d n s))"
  have M: "ck_month ck = M" using assms(4) by (simp add: in_month_def)
  have keep: "map_of ?s1 ?m = map_of s ?m"
    using keys_differ [of t "ck_day ck" g t M g]
    by (auto simp: rd_expire_def rd_incrby_def rd_live_update split: option.splits prod.splits)
  have live: "rd_live ?now ?m ?s1 = map_of s ?m"
    using assms(4,6) keep by (fastforce simp: rd_live_def in_month_def split: option.splits)
  have s1: "s1 = rd_expire ?now ?m monthCounterTTL (snd (rd_incrby ?now ?m n ?s1))"
    using assms(1-3) M by (simp add: Record_usage_def Let_def)
  obtain e where e: "map_of (snd (rd_incrby ?now ?m n ?s1)) ?m = Some (stored ?m s + n, e)" "e = None \<or> b < the e"
    using live assms(6) by (cases "map_of s ?m") (auto simp: rd_incrby_def rd_live_update stored_def)
  have "rd_live ?now ?m (snd (rd_incrby ?now ?m n ?s1)) = Some (stored ?m s + n, e)"
    using e assms(4) by (auto simp: rd_live_def in_month_def split: option.splits)
  then show ?thesis unfolding s1 by (simp add: rd_expire_def rd_live_update)
qed

lemma length_remove1_at_most: "length (remove1 x xs) \<le> length xs"
  by (induction xs) auto

lemma ingest_inv_remove:
  assumes "ingest_inv k b L C B F s p"
  shows "ingest_inv k b L C B F s (remove1 n p)"
proof -
  have "sum_list (remove1 n p) \<le> sum_list p"
    using assms sum_list_remove1_int [of n p] by (cases "n \<in> set p") (auto simp: ingest_inv_def remove1_idem)
  then show ?thesis using assms length_remove1_at_most [of n p] set_remove1_subset [of n p] by (auto simp: ingest_inv_def)
qed

lemma ingest_reach_inv:
  assumes "ingest_reach t g M a b L C B F s p" "t \<noteq> []" "0 < L" "0 \<le> B" "b - a < monthCounterTTL"
  shows "ingest_inv (monthKey t M g) b L C B F s p"
  using assms(1)
proof (induction rule: ingest_reach.induct)
  case (start s)
  then show ?case using assms(3,4) by (simp add: ingest_inv_def stored_def)
next
  case (admit F s p ck ok row cache lim n)
  let ?k = "monthKey t M g"
  show ?case
  proof (cases "ok \<and> lim \<noteq> 0 \<and> lim \<le> L")
    case True
    have "stored ?k s < L"
      using admit.hyps(3,4) live_in_month [OF admit.IH admit.hyps(2)] True
      by (auto simp: Allow_def Let_def split: prod.splits)
    moreover have "sum_list (n # p) \<le> int (length (n # p)) * B"
      by (rule sum_list_bound) (use admit in \<open>auto simp: ingest_inv_def\<close>)
    moreover have "int (length (n # p)) * B \<le> int (C + F) * B"
      using admit.hyps(7) assms(4) by (intro mult_right_mono) auto
    ultimately have "stored ?k s + sum_list (n # p) \<le> L - 1 + int (C + F) * B" by linarith
    then show ?thesis using admit.IH admit.hyps(5-7) True by (simp add: ingest_inv_def)
  next
    case False
    then show ?thesis using admit.IH admit.hyps(5-7) by (auto simp: ingest_inv_def distrib_right)
  qed
next
  case (recorded F s p ck n ok s1)
  have n: "0 < n" "n \<le> B" using recorded by (auto simp: ingest_inv_def)
  show ?case
  proof (cases ok)
    case True
    have "map_of s1 (monthKey t M g) = Some (stored (monthKey t M g) s + n, Some (ck_now ck + monthCounterTTL))"
      using record_stored [OF _ n(1) assms(2) recorded.hyps(2) assms(5)] recorded.hyps(4) recorded.IH True by (simp add: ingest_inv_def)
    moreover have "b < ck_now ck + monthCounterTTL" using recorded.hyps(2) assms(5) by (simp add: in_month_def)
    ultimately show ?thesis
      using recorded.IH sum_list_remove1_int [OF recorded.hyps(3)] length_remove1_at_most [of n p] set_remove1_subset [of n p]
      by (auto simp: ingest_inv_def stored_def)
  next
    case False
    then have "s1 = s" using recorded.hyps(4) by (simp add: Record_usage_def)
    then show ?thesis using ingest_inv_remove [OF recorded.IH] by simp
  qed
next
  case (dropped F s p n)
  then show ?case by (simp add: ingest_inv_remove)
next
  case (other F s p s1)
  then show ?case by (simp add: ingest_inv_def stored_def)
qed

section \<open>The limiter within a window\<close>

text \<open>Requests like \<open>r\<close> at the given times, one after the other.\<close>

fun limiter_run ::
  "(string \<Rightarrow> string option) \<Rightarrow> RateLimitRule list \<Rightarrow> http_req \<Rightarrow> int list \<Rightarrow> redis \<Rightarrow> limit_verdict list" where
  "limiter_run sh rules r [] s = []"
| "limiter_run sh rules r (t # ts) s =
     (case RateLimit sh rules t True True r s of (v, s1) \<Rightarrow> v # limiter_run sh rules r ts s1)"

lemma bucket_times:
  assumes "windowBucket t (w * 10 ^ 9) = Some q" "0 < w"
  shows "q * w * 10 ^ 9 \<le> t \<and> t < (q + 1) * w * 10 ^ 9"
proof -
  have q: "q = (t div 1000000000) div w" using assms by (simp add: windowBucket_def Let_def unix_of_def split: if_splits)
  have a: "t = 1000000000 * (t div 1000000000) + t mod 1000000000" "0 \<le> t mod 1000000000" "t mod 1000000000 < 1000000000" by simp_all
  have b: "t div 1000000000 = w * q + (t div 1000000000) mod w" "0 \<le> (t div 1000000000) mod w" "(t div 1000000000) mod w < w"
    unfolding q using assms(2) by simp_all
  have lo: "q * w \<le> t div 1000000000" using b by (simp add: mult.commute)
  have hi: "t div 1000000000 + 1 \<le> (q + 1) * w" using b by (simp add: algebra_simps)
  have "q * w * 1000000000 \<le> t" using a lo by linarith
  moreover have "t < (q + 1) * w * 1000000000" using a hi by linarith
  ultimately show ?thesis by simp
qed

text \<open>The counter of a window after \<open>i\<close> requests.\<close>

definition counted :: "string \<Rightarrow> int \<Rightarrow> nat \<Rightarrow> redis \<Rightarrow> bool" where
  "counted k stop i s \<longleftrightarrow> (if i = 0 then map_of s k = None else \<exists>e. map_of s k = Some (int i, Some e) \<and> stop \<le> e)"

lemma limiter_step:
  assumes "counted k stop i s" "rule = effective_rule rules r" "windowBucket t (rl_Window rule) = Some q"
    "k = limiter_key (identify sh r) rule q" "t < stop" "stop \<le> t + rl_Window rule"
  shows "\<exists>s1. RateLimit sh rules t True True r s = (if int (Suc i) > rl_Limit rule then TooMany else Passed, s1) \<and> counted k stop (Suc i) s1"
proof (cases "i = 0")
  case True
  then have "rd_live t k s = None" using assms(1) by (simp add: counted_def rd_live_def)
  then have inc: "rd_incrby t k 1 s = (1, AList.update k (1, None) s)" by (simp add: rd_incrby_def)
  have "rd_live t k (AList.update k (1, None) s) = Some (1, None)" by (simp add: rd_live_def rd_live_update)
  then show ?thesis using True assms(2-4,6) inc by (simp add: RateLimit_def Let_def rd_expire_def counted_def rd_live_update)
next
  case False
  then obtain e where e: "map_of s k = Some (int i, Some e)" "stop \<le> e" using assms(1) by (auto simp: counted_def)
  then have "rd_live t k s = Some (int i, Some e)" using assms(5) by (simp add: rd_live_def)
  then have inc: "rd_incrby t k 1 s = (int i + 1, AList.update k (int i + 1, Some e) s)" by (simp add: rd_incrby_def)
  have "int i + 1 \<noteq> 1" using False by simp
  then show ?thesis using assms(2-4) inc e by (simp add: RateLimit_def Let_def counted_def rd_live_update add.commute)
qed

lemma limiter_run_verdicts:
  assumes "rule = effective_rule rules r" "rl_Window rule = w * 10 ^ 9" "0 < w"
    "k = limiter_key (identify sh r) rule q" "counted k ((q + 1) * w * 10 ^ 9) i s"
    "\<forall>t \<in> set ts. windowBucket t (rl_Window rule) = Some q"
  shows "limiter_run sh rules r ts s = map (\<lambda>j. if int j < rl_Limit rule then Passed else TooMany) [i ..< i + length ts]"
  using assms(5,6)
proof (induction ts arbitrary: i s)
  case (Cons t ts)
  have q: "windowBucket t (rl_Window rule) = Some q" using Cons.prems(2) by simp
  have tb: "q * w * 10 ^ 9 \<le> t" "t < (q + 1) * w * 10 ^ 9"
    using bucket_times [of t w q] q assms(2,3) by simp_all
  have "(q + 1) * w * 10 ^ 9 \<le> t + rl_Window rule" using tb(1) by (simp add: assms(2) algebra_simps)
  then obtain s1 where s1: "RateLimit sh rules t True True r s = (if int (Suc i) > rl_Limit rule then TooMany else Passed, s1)"
    "counted k ((q + 1) * w * 10 ^ 9) (Suc i) s1"
    using limiter_step [OF Cons.prems(1) assms(1) q assms(4) tb(2)] by blast
  have "limiter_run sh rules r ts s1 = map (\<lambda>j. if int j < rl_Limit rule then Passed else TooMany) [Suc i ..< Suc i + length ts]"
    by (rule Cons.IH [OF s1(2)]) (use Cons.prems(2) in simp)
  then show ?case using s1(1) by (simp add: upt_conv_Cons [of i] del: upt_Suc)
qed simp

section \<open>Properties\<close>

text \<open>The limiter admits exactly the budget of a window: when Redis answers, of any number of requests by
  the same caller on the same rule within one window, the first \<open>Limit\<close> (five times as many on the
  premium tier) pass and every later one is refused, at whatever instants of the window they arrive.\<close>

theorem limiter_admits_exactly_the_budget:
  assumes "rl_Window (effective_rule rules r) = w * 10 ^ 9" "0 < w"
    "\<forall>t \<in> set ts. windowBucket t (rl_Window (effective_rule rules r)) = Some q"
    "map_of s (limiter_key (identify sh r) (effective_rule rules r) q) = None"
  shows "limiter_run sh rules r ts s = map (\<lambda>j. if int j < rl_Limit (effective_rule rules r) then Passed else TooMany) [0 ..< length ts]"
  using limiter_run_verdicts [OF refl assms(1,2) refl, of sh q 0 s ts] assms(3,4) by (simp add: counted_def)

definition demo_rule :: RateLimitRule where
  "demo_rule = \<lparr>rl_Name = ''auth-login'', rl_PathPrefixes = [''/api/v1/auth/login''], rl_Limit = 2, rl_Window = 60 * 10 ^ 9\<rparr>"

theorem limiter_admits_exactly_the_budget_witness:
  "limiter_run (\<lambda>_. None) [demo_rule] (demo_req ''POST'' ''/api/v1/auth/login'' []) [0, 5, 59 * 10 ^ 9] []
     = [Passed, Passed, TooMany]"
proof -
  let ?r = "demo_req ''POST'' ''/api/v1/auth/login'' []"
  have e: "effective_rule [demo_rule] ?r = demo_rule" by code_simp
  have "limiter_run (\<lambda>_. None) [demo_rule] ?r [0, 5, 59 * 10 ^ 9] []
      = map (\<lambda>j. if int j < rl_Limit (effective_rule [demo_rule] ?r) then Passed else TooMany) [0 ..< length [0, 5, 59 * 10 ^ 9 :: int]]"
    by (rule limiter_admits_exactly_the_budget [where w = 60 and q = 0], unfold e)
      (simp_all add: demo_rule_def windowBucket_def Let_def unix_of_def)
  then show ?thesis unfolding e by (simp add: demo_rule_def upt_rec)
qed

text \<open>C32: how far the monthly quota can be overshot. Within a month, for any interleaving of admissions and
  recordings, the recorded usage stays below the limit \<open>L\<close> plus the events of a request for each request
  that may be in flight and for each admission that was not checked against that limit: the enforcer
  admits when Redis does not answer, and when the plan in force has no limit or a higher one. A request
  whose recording fails is not in the counter. With Redis answering and the plan's limit at most \<open>L\<close>
  throughout, the overshoot is that of the requests in flight alone.\<close>

theorem quota_overshoot_bounded:
  assumes "ingest_reach t g M a b L C B F s p" "t \<noteq> []" "0 < L" "0 \<le> B" "b - a < monthCounterTTL" "in_month M a b ck"
  shows "MonthlyUsage ck True t g (Some s) \<le> L - 1 + int (C + F) * B"
proof -
  have i: "ingest_inv (monthKey t M g) b L C B F s p" by (rule ingest_reach_inv [OF assms(1-5)])
  have "0 \<le> sum_list p" by (rule sum_list_nonneg) (use i in \<open>auto simp: ingest_inv_def intro: less_imp_le\<close>)
  then show ?thesis using live_in_month [OF i assms(6)] i by (simp add: ingest_inv_def)
qed

theorem quota_overshoot_bounded_witness:
  "MonthlyUsage \<lparr>ck_now = 0, ck_day = ''2026-01-01'', ck_month = ''2026-01''\<rparr> True ''acme'' ''logs''
     (Record_usage \<lparr>ck_now = 0, ck_day = ''2026-01-01'', ck_month = ''2026-01''\<rparr> True ''acme'' ''logs'' 9 (Some [])) \<le> 1000000 - 1 + 20"
proof -
  let ?ck = "\<lparr>ck_now = 0, ck_day = ''2026-01-01'', ck_month = ''2026-01''\<rparr>"
  let ?R = "ingest_reach ''acme'' ''logs'' ''2026-01'' 0 5 1000000 1 10"
  note plan_simps = planFor_def Let_def limitsForPlan_def planLimits_def forSignal_def SignalTraces_def SignalMetrics_def SignalLogs_def
  have m: "in_month ''2026-01'' 0 5 ?ck" by (simp add: in_month_def)
  obtain s1 where s1: "Record_usage ?ck True ''acme'' ''logs'' 9 (Some []) = Some s1" by (simp add: Record_usage_def Let_def)
  have r0: "?R 0 [] []" by (rule ingest_reach.start) simp
  have "?R 0 [] [9]" using ingest_reach.admit [OF r0 m, of True None "[]" _ 9] by (simp add: plan_simps Allow_def MonthlyUsage_def rd_get_def rd_live_def)
  from ingest_reach.recorded [OF this m _ s1] have r1: "?R 0 s1 []" by simp
  have "?R 1 s1 [7]" using ingest_reach.admit [OF r1 m, of False None "[]" _ 7] by (simp add: plan_simps Allow_def MonthlyUsage_def)
  from quota_overshoot_bounded [OF this _ _ _ _ m] show ?thesis unfolding s1 by (simp add: monthCounterTTL_def)
qed

text \<open>A flush mirrors the counters: once a scan has returned a counter's key and the upserts succeed, the
  row of its tenant, day and signal holds the counter's value, however often the key was returned
  and whatever the row held; every other key leaves that row alone.\<close>

theorem flush_mirrors_counters:
  assumes "CHR '':'' \<notin> set t" "valid_day d" "CHR '':'' \<notin> set g" "rd_get now (counterKey t d g) s = Some v"
  shows "map_of (flush_usage now (\<lambda>_. True) s (map Some batches) rows) (t, d, g)
    = (if counterKey t d g \<in> set (concat batches) then Some v else map_of rows (t, d, g))"
  by (rule flush_mirror [OF parse_counterKey [OF assms(1-3)] assms(4)])

theorem flush_mirrors_counters_witness:
  "map_of (flush_usage 0 (\<lambda>_. True) [(counterKey ''acme'' ''2024-02-29'' ''logs'', 7, None)]
      (map Some [[counterKey ''acme'' ''2024-02-29'' ''logs'']]) [((''acme'', ''2024-02-29'', ''logs''), 3)]) (''acme'', ''2024-02-29'', ''logs'') = Some 7"
proof -
  have "valid_day ''2024-02-29''" by code_simp
  from flush_mirrors_counters [OF _ this, of "''acme''" "''logs''" 0 "[(counterKey ''acme'' ''2024-02-29'' ''logs'', 7, None)]" 7
      "[[counterKey ''acme'' ''2024-02-29'' ''logs'']]" "[((''acme'', ''2024-02-29'', ''logs''), 3)]"]
  show ?thesis by (simp add: rd_get_def rd_live_def)
qed

text \<open>A tenant whose identifier contains a colon is never billed: whatever is recorded for it, no flush
  ever writes a row for it.\<close>

theorem colon_tenant_never_flushed:
  assumes "CHR '':'' \<in> set t" "\<forall>k \<in> set (concat batches). \<exists>d g. k = counterKey t d g"
  shows "flush_usage now ok s (map Some batches) rows = rows"
  using assms(2)
proof (induction batches arbitrary: rows)
  case (Cons b bs)
  have "fold (flush_key now ok s) ks rows = rows" if "\<forall>k \<in> set ks. \<exists>d g. k = counterKey t d g" for ks
    using that by (induction ks) (auto simp: flush_key_def colon_key_unparsed [OF assms(1)])
  then show ?case using Cons by simp
qed simp

theorem colon_tenant_never_flushed_witness:
  "flush_usage 0 (\<lambda>_. True) [(counterKey ''a:b'' ''2024-02-29'' ''logs'', 7, None)] (map Some [[counterKey ''a:b'' ''2024-02-29'' ''logs'']]) [] = []"
  by (rule colon_tenant_never_flushed [where t = "''a:b''"]) auto

text \<open>Updating a rule without its prefixes switches it off: the absent list is stored as JSON \<open>null\<close>, so
  from the next refresh on the rule matches no path at all.\<close>

theorem update_without_prefixes_disables_rule:
  assumes "UpdateRateLimitRule c i (Some q) rows = (200, rows1)" "uq_PathPrefixes q = None" "\<forall>x \<in> set rows. rr_name x = n \<longrightarrow> rr_id x = i"
  shows "\<forall>path. rl_Name (ruleFor (refresh_rules le True rows1 old) path) = n \<longrightarrow> n = ''default-fallback''"
proof (intro allI impI)
  fix path assume n: "rl_Name (ruleFor (refresh_rules le True rows1 old) path) = n"
  have rows1: "rows1 = map (\<lambda>r. if rr_id r = i then update_rule_row q r else r) rows"
    using assms(1) by (auto simp: UpdateRateLimitRule_def split: if_splits)
  have load: "set (loadRules le xs) \<subseteq> set xs" for xs by (auto simp: loadRules_def)
  show "n = ''default-fallback''"
  proof (cases "find (\<lambda>r. \<exists>p \<in> set (rl_PathPrefixes r). has_prefix p path) (refresh_rules le True rows1 old)")
    case None
    then show ?thesis using n by (simp add: ruleFor_def fallback_rule_def)
  next
    case (Some x)
    then have x: "x \<in> set (refresh_rules le True rows1 old)" "rl_PathPrefixes x \<noteq> []" by (auto simp: find_Some_iff)
    have nx: "rl_Name x = n" using n Some by (simp add: ruleFor_def)
    obtain y where y: "y \<in> set rows1" "x = rule_of y" using x(1) load by (auto simp: refresh_rules_def)
    obtain z where z: "z \<in> set rows" "y = (if rr_id z = i then update_rule_row q z else z)" using y(1) unfolding rows1 by auto
    have "rr_name z = n" using nx y(2) z(2) by (simp add: rule_of_def update_rule_row_def split: if_splits)
    then have "rr_id z = i" using assms(3) z(1) by blast
    then have "rr_prefixes y = None" using z(2) assms(2) by (simp add: update_rule_row_def)
    then show ?thesis using x(2) y(2) by (simp add: rule_of_def)
  qed
qed

definition demo_rule_row :: rule_row where
  "demo_rule_row = \<lparr>rr_id = ''1'', rr_name = ''auth-login'', rr_prefixes = Some [''/api/v1/auth/login''], rr_limit = 10, rr_window = 60,
     rr_priority = 10, rr_enabled = True\<rparr>"

theorem update_without_prefixes_disables_rule_witness:
  "let q = \<lparr>uq_Name = [], uq_PathPrefixes = None, uq_LimitCount = 20, uq_WindowSeconds = 0, uq_Priority = 10, uq_Enabled = None\<rparr>
   in rl_Name (ruleFor (refresh_rules (\<lambda>_ _. True) True (snd (UpdateRateLimitRule (demo_acall 0) ''1'' (Some q) [demo_rule_row])) []) ''/api/v1/auth/login'')
      \<noteq> ''auth-login''"
proof -
  let ?q = "\<lparr>uq_Name = [], uq_PathPrefixes = None, uq_LimitCount = 20, uq_WindowSeconds = 0, uq_Priority = 10, uq_Enabled = None\<rparr>"
  have "UpdateRateLimitRule (demo_acall 0) ''1'' (Some ?q) [demo_rule_row] = (200, snd (UpdateRateLimitRule (demo_acall 0) ''1'' (Some ?q) [demo_rule_row]))"
    by (simp add: UpdateRateLimitRule_def demo_acall_def demo_rule_row_def)
  from update_without_prefixes_disables_rule [OF this, of "''auth-login''" "\<lambda>_ _. True" "[]"]
  show ?thesis by (auto simp: demo_rule_row_def)
qed

end
