(* ===== verification/Error_Tracking.thy ===== *)
theory Error_Tracking
  imports Auth Go_Float Go_Time
begin

text \<open>
  Error tracking of the gateway: \<open>src/gateway-service/internal/handler/error_tracking_handler.go\<close> and
  \<open>error_similar_handler.go\<close>. The occurrences of an error live in ClickHouse; what a query returns is
  an argument. The triage table \<open>error_groups\<close> is a map from its primary key, the fingerprint, to a
  row. \<open>hash\<close> stands for SHA-256 in hexadecimal.
\<close>

section \<open>Fingerprints and triage rows\<close>

definition fingerprint :: "(string \<Rightarrow> string) \<Rightarrow> string \<Rightarrow> string \<Rightarrow> string \<Rightarrow> string \<Rightarrow> string" where
  "fingerprint hash tenant service operation message =
     take 16 (hash (tenant @ ''|'' @ service @ ''|'' @ operation @ ''|'' @ message))"

record error_group =
  eg_tenant :: string
  eg_service :: string
  eg_operation :: string
  eg_message :: string
  eg_status :: string
  eg_resolved_by :: "string option"
  eg_resolved_at :: "int option"
  eg_assignee :: "string option"
  eg_snoozed :: "int option"

type_synonym error_groups = "(string, error_group) gomap"

definition triageStatuses :: "string list" where
  "triageStatuses = [''open'', ''resolved'', ''muted'', ''snoozed'']"

definition effectiveStatus :: "string \<Rightarrow> int \<Rightarrow> int \<Rightarrow> string" where
  "effectiveStatus status snoozedUntil now =
     (if status = ''snoozed'' \<and> (snoozedUntil = zero_time \<or> \<not> now < snoozedUntil) then ''open'' else status)"

definition time_or_zero :: "int option \<Rightarrow> int" where
  "time_or_zero t = (case t of None \<Rightarrow> zero_time | Some x \<Rightarrow> x)"

section \<open>Listing\<close>

text \<open>What ClickHouse answers: the request fails, a status other than 200, a body that does not decode,
  or rows.\<close>

datatype 'a ch_answer = ChFailed | ChStatus int | ChGarbled | ChRows "'a list"

record group_data =
  gd_service :: string
  gd_operation :: string
  gd_message :: string
  gd_sample :: string
  gd_occurrences :: string
  gd_first :: string
  gd_last :: string
  gd_trace :: string

record errorGroupRow =
  er_Fingerprint :: string
  er_Data :: group_data
  er_Occurrences :: int
  er_Status :: string
  er_ResolvedBy :: string
  er_ResolvedAt :: "int option"
  er_Assignee :: string
  er_SnoozedUntil :: "int option"

text \<open>\<open>strconv.ParseInt\<close> with its error dropped: 0 for bad syntax, the nearest bound out of range.\<close>

definition parseInt_value :: "string \<Rightarrow> int" where
  "parseInt_value s = (case split_sign s of (neg, ds) \<Rightarrow>
     if ds = [] then 0
     else case parse_digits 0 ds of None \<Rightarrow> 0
          | Some n \<Rightarrow> if neg then max (- (2 ^ 63)) (- int n) else min (2 ^ 63 - 1) (int n))"

text \<open>The condition \<open>fingerprint IN (...)\<close> and its placeholders.\<close>

fun itoa_loop :: "nat \<Rightarrow> string \<Rightarrow> string" where
  "itoa_loop n digits = (if n = 0 then digits else itoa_loop (n div 10) (digit_char (n mod 10) # digits))"

declare itoa_loop.simps [simp del]

definition itoa :: "nat \<Rightarrow> string" where
  "itoa n = (if n = 0 then ''0'' else itoa_loop n [])"

definition triage_placeholders :: "string list \<Rightarrow> string" where
  "triage_placeholders fps = join_with '','' (map (\<lambda>i. CHR ''$'' # itoa (i + 1)) [0 ..< length fps])"

definition loadTriageStatus :: "string list \<Rightarrow> error_groups \<Rightarrow> error_groups" where
  "loadTriageStatus fps db = filter (\<lambda>(fp, _). fp \<in> set fps) db"

definition listed_group :: "(string \<Rightarrow> string) \<Rightarrow> string \<Rightarrow> group_data \<Rightarrow> errorGroupRow" where
  "listed_group hash tenant d = \<lparr>er_Fingerprint = fingerprint hash tenant (gd_service d) (gd_operation d) (gd_message d), er_Data = d,
     er_Occurrences = parseInt_value (gd_occurrences d), er_Status = ''open'', er_ResolvedBy = [], er_ResolvedAt = None,
     er_Assignee = [], er_SnoozedUntil = None\<rparr>"

definition or_empty :: "string option \<Rightarrow> string" where
  "or_empty s = (case s of None \<Rightarrow> [] | Some x \<Rightarrow> x)"

definition with_triage :: "int \<Rightarrow> error_groups \<Rightarrow> errorGroupRow \<Rightarrow> errorGroupRow" where
  "with_triage now byFP g = (case map_of byFP (er_Fingerprint g) of None \<Rightarrow> g
   | Some s \<Rightarrow> g\<lparr>er_Status := effectiveStatus (eg_status s) (time_or_zero (eg_snoozed s)) now,
       er_ResolvedBy := or_empty (eg_resolved_by s), er_ResolvedAt := eg_resolved_at s, er_Assignee := or_empty (eg_assignee s),
       er_SnoozedUntil := (if time_or_zero (eg_snoozed s) = zero_time then er_SnoozedUntil g else eg_snoozed s)\<rparr>)"

definition filterGroups :: "errorGroupRow list \<Rightarrow> (errorGroupRow \<Rightarrow> bool) \<Rightarrow> errorGroupRow list" where
  "filterGroups groups keep = filter keep groups"

text \<open>\<open>ListErrorGroups\<close>: \<open>db\<close> is \<open>None\<close> without a database, \<open>ok\<close> says whether the triage query succeeds.\<close>

definition ListErrorGroups ::
  "(string \<Rightarrow> string) \<Rightarrow> int \<Rightarrow> bool \<Rightarrow> http_req \<Rightarrow> string \<Rightarrow> string \<Rightarrow> group_data ch_answer \<Rightarrow> error_groups option
    \<Rightarrow> int \<times> errorGroupRow list" where
  "ListErrorGroups hash now ok r fStatus fAssignee answer db = (case answer of
     ChFailed \<Rightarrow> (500, [])
   | ChStatus c \<Rightarrow> if c = 404 then (200, []) else (500, [])
   | ChGarbled \<Rightarrow> (500, [])
   | ChRows ds \<Rightarrow>
       (let groups = map (listed_group hash (tenantOf r)) ds;
            fps = map er_Fingerprint groups;
            triaged = (case db of None \<Rightarrow> groups
              | Some t \<Rightarrow> if fps = [] \<or> \<not> ok then groups else map (with_triage now (loadTriageStatus fps t)) groups);
            g1 = (if fStatus \<noteq> [] then filterGroups triaged (\<lambda>g. er_Status g = fStatus) else triaged)
        in (200, if fAssignee \<noteq> [] then filterGroups g1 (\<lambda>g. er_Assignee g = fAssignee) else g1)))"

section \<open>Triage\<close>

record triageRequest =
  tq_Service :: string
  tq_Operation :: string
  tq_Message :: string
  tq_ResolvedBy :: string

text \<open>\<open>setStatus\<close>: the upsert on the fingerprint.\<close>

definition setStatus ::
  "int \<Rightarrow> bool \<Rightarrow> http_req \<Rightarrow> string \<Rightarrow> triageRequest \<Rightarrow> string \<Rightarrow> error_groups option \<Rightarrow> int \<times> error_groups option" where
  "setStatus now ok r fp q status db = (case db of None \<Rightarrow> (503, None)
   | Some t \<Rightarrow>
       if fp = [] then (400, db)
       else if \<not> ok then (500, db)
       else
         (let res_at = (if status = ''resolved'' then Some now else None);
              res_by = (if status = ''resolved'' \<and> tq_ResolvedBy q \<noteq> [] then Some (tq_ResolvedBy q) else None);
              row = (case map_of t fp of
                None \<Rightarrow> \<lparr>eg_tenant = tenantOf r, eg_service = tq_Service q, eg_operation = tq_Operation q, eg_message = tq_Message q,
                   eg_status = status, eg_resolved_by = res_by, eg_resolved_at = res_at, eg_assignee = None, eg_snoozed = None\<rparr>
              | Some g \<Rightarrow> g\<lparr>eg_status := status, eg_resolved_by := res_by, eg_resolved_at := res_at\<rparr>)
          in (200, Some (AList.update fp row t))))"

definition ResolveErrorGroup where "ResolveErrorGroup now ok r fp q db = setStatus now ok r fp q ''resolved'' db"
definition MuteErrorGroup where "MuteErrorGroup now ok r fp q db = setStatus now ok r fp q ''muted'' db"
definition ReopenErrorGroup where "ReopenErrorGroup now ok r fp q db = setStatus now ok r fp q ''open'' db"

record triagePatchRequest =
  pq_Service :: string
  pq_Operation :: string
  pq_Message :: string
  pq_Status :: "string option"
  pq_Assignee :: "string option"
  pq_SnoozedUntil :: "string option"
  pq_ResolvedBy :: string

definition parseSnoozeUntil :: "string option \<Rightarrow> int \<Rightarrow> int option" where
  "parseSnoozeUntil raw now = (case raw of None \<Rightarrow> None
   | Some s \<Rightarrow> if s = [] then None else case parse_rfc3339 s of None \<Rightarrow> None | Some t \<Rightarrow> if now < t then Some t else None)"

text \<open>The columns of the clause \<open>ON CONFLICT ... SET\<close>, which name the parameters of the inserted row.\<close>

datatype triage_column = ColStatus | ColResolvedBy | ColResolvedAt | ColAssignee | ColSnoozed

fun set_column :: "error_group \<Rightarrow> triage_column \<Rightarrow> error_group \<Rightarrow> error_group" where
  "set_column ins ColStatus g = g\<lparr>eg_status := eg_status ins\<rparr>"
| "set_column ins ColResolvedBy g = g\<lparr>eg_resolved_by := eg_resolved_by ins\<rparr>"
| "set_column ins ColResolvedAt g = g\<lparr>eg_resolved_at := eg_resolved_at ins\<rparr>"
| "set_column ins ColAssignee g = g\<lparr>eg_assignee := eg_assignee ins\<rparr>"
| "set_column ins ColSnoozed g = g\<lparr>eg_snoozed := eg_snoozed ins\<rparr>"

definition patch_status :: "int \<Rightarrow> triagePatchRequest \<Rightarrow> error_group \<Rightarrow> (error_group \<times> triage_column list) option" where
  "patch_status now q ins = (case pq_Status q of None \<Rightarrow> Some (ins, [])
   | Some status \<Rightarrow>
       if status \<notin> set triageStatuses then None
       else if status = ''resolved'' then
         (if pq_ResolvedBy q \<noteq> []
          then Some (ins\<lparr>eg_status := status, eg_resolved_at := Some now, eg_resolved_by := Some (pq_ResolvedBy q)\<rparr>,
                     [ColStatus, ColResolvedAt, ColSnoozed, ColResolvedBy])
          else Some (ins\<lparr>eg_status := status, eg_resolved_at := Some now\<rparr>, [ColStatus, ColResolvedAt, ColSnoozed]))
       else if status = ''snoozed'' then
         (case parseSnoozeUntil (pq_SnoozedUntil q) now of None \<Rightarrow> None
          | Some until \<Rightarrow> Some (ins\<lparr>eg_status := status, eg_snoozed := Some until\<rparr>, [ColStatus, ColSnoozed]))
       else Some (ins\<lparr>eg_status := status\<rparr>, [ColStatus, ColSnoozed]))"

definition patch_assignee :: "triagePatchRequest \<Rightarrow> error_group \<times> triage_column list \<Rightarrow> error_group \<times> triage_column list" where
  "patch_assignee q p = (case p of (ins, sets) \<Rightarrow> (case pq_Assignee q of None \<Rightarrow> (ins, sets)
   | Some a \<Rightarrow> (if a \<noteq> [] then ins\<lparr>eg_assignee := Some a\<rparr> else ins, sets @ [ColAssignee])))"

definition patch_snooze ::
  "int \<Rightarrow> triagePatchRequest \<Rightarrow> error_group \<times> triage_column list \<Rightarrow> (error_group \<times> triage_column list) option" where
  "patch_snooze now q p = (case p of (ins, sets) \<Rightarrow>
     if pq_SnoozedUntil q \<noteq> None \<and> pq_Status q = None
     then (case parseSnoozeUntil (pq_SnoozedUntil q) now of None \<Rightarrow> None
           | Some until \<Rightarrow> Some (ins\<lparr>eg_status := ''snoozed'', eg_snoozed := Some until\<rparr>, sets @ [ColStatus, ColSnoozed]))
     else Some p)"

text \<open>\<open>UpdateErrorGroup\<close>: the status code, the status that the response reports, and the table.\<close>

definition UpdateErrorGroup ::
  "int \<Rightarrow> bool \<Rightarrow> http_req \<Rightarrow> string \<Rightarrow> triagePatchRequest option \<Rightarrow> error_groups option \<Rightarrow> int \<times> string \<times> error_groups option" where
  "UpdateErrorGroup now ok r fp body db = (case db of None \<Rightarrow> (503, [], None)
   | Some t \<Rightarrow>
       if fp = [] then (400, [], db)
       else (case body of None \<Rightarrow> (400, [], db)
         | Some q \<Rightarrow>
             if pq_Status q = None \<and> pq_Assignee q = None \<and> pq_SnoozedUntil q = None then (400, [], db)
             else
               (let fresh = \<lparr>eg_tenant = tenantOf r, eg_service = pq_Service q, eg_operation = pq_Operation q,
                      eg_message = pq_Message q, eg_status = ''open'', eg_resolved_by = None, eg_resolved_at = None,
                      eg_assignee = None, eg_snoozed = None\<rparr>
                in case Option.bind (patch_status now q fresh) (\<lambda>p. patch_snooze now q (patch_assignee q p)) of
                     None \<Rightarrow> (400, [], db)
                   | Some (ins, sets) \<Rightarrow>
                       if \<not> ok then (500, [], db)
                       else (200, effectiveStatus (eg_status ins) (time_or_zero (eg_snoozed ins)) now,
                         Some (AList.update fp (case map_of t fp of None \<Rightarrow> ins | Some g \<Rightarrow> fold (set_column ins) sets g) t)))))"

text \<open>\<open>GetErrorGroupTimeline\<close> up to its query: the refusal, or the tenant, interval and group queried.\<close>

definition GetErrorGroupTimeline ::
  "(string \<Rightarrow> string) \<Rightarrow> http_req \<Rightarrow> string \<Rightarrow> string \<Rightarrow> string \<Rightarrow> string \<Rightarrow> string
    \<Rightarrow> int + (string \<times> string \<times> string \<times> string \<times> string)" where
  "GetErrorGroupTimeline hash r fp service operation message interval =
     (if service = [] \<or> operation = [] then Inl 400
      else if fp \<noteq> fingerprint hash (tenantOf r) service operation message then Inl 400
      else Inr (tenantOf r, if interval \<in> {''1h'', ''24h'', ''7d''} then interval else ''24h'', service, operation, message))"

section \<open>Regressions\<close>

definition classifyErrorGroup :: "string \<Rightarrow> int \<Rightarrow> int \<Rightarrow> int \<Rightarrow> int \<Rightarrow> int \<Rightarrow> string" where
  "classifyErrorGroup status resolvedAt firstSeen lastSeen now scanWindow =
     (if status = ''muted'' then []
      else if status = ''resolved'' then (if resolvedAt \<noteq> zero_time \<and> resolvedAt < lastSeen then ''regression'' else [])
      else if status = [] then (if now - scanWindow < firstSeen then ''new'' else [])
      else [])"

definition regressionWindow :: int where "regressionWindow = 15 * 60 * 10 ^ 9"

record errGroupObservation =
  ob_service :: string
  ob_operation :: string
  ob_message :: string
  ob_sample :: string
  ob_firstSeen :: int
  ob_lastSeen :: int
  ob_traceID :: string

definition parseCHTime :: "string \<Rightarrow> int" where
  "parseCHTime s = (let t = trim_space s in
     case parse_datetime_millis t of Some x \<Rightarrow> x
     | None \<Rightarrow> (case parse_datetime t of Some x \<Rightarrow> x | None \<Rightarrow> zero_time))"

text \<open>\<open>recentErrorGroups\<close>: \<open>None\<close> is an error; any status but 200 gives no groups.\<close>

definition recentErrorGroups :: "group_data ch_answer \<Rightarrow> errGroupObservation list option" where
  "recentErrorGroups answer = (case answer of
     ChFailed \<Rightarrow> None | ChStatus c \<Rightarrow> Some [] | ChGarbled \<Rightarrow> None
   | ChRows ds \<Rightarrow> Some (map (\<lambda>d. \<lparr>ob_service = gd_service d, ob_operation = gd_operation d, ob_message = gd_message d,
       ob_sample = gd_sample d, ob_firstSeen = parseCHTime (gd_first d), ob_lastSeen = parseCHTime (gd_last d),
       ob_traceID = gd_trace d\<rparr>) ds))"

text \<open>A log entry published for a page, and the state of the worker: the armed keys, the triage table and
  the entries published so far.\<close>

record page_entry =
  pe_TenantID :: string
  pe_ServiceName :: string
  pe_Message :: string
  pe_TraceID :: string

definition em_dash :: string where "em_dash = [CHR 0xE2, CHR 0x80, CHR 0x94]"

definition page_of :: "string \<Rightarrow> errGroupObservation \<Rightarrow> string \<Rightarrow> page_entry" where
  "page_of tenant ob kind =
     \<lparr>pe_TenantID = tenant, pe_ServiceName = ob_service ob,
      pe_Message = (if kind = ''regression'' then ''Error regression (resolved issue recurred)'' else ''New error group'') @ '': '' @
        ob_operation ob @ '' '' @ em_dash @ '' '' @ (if ob_sample ob = [] then ob_message ob else ob_sample ob),
      pe_TraceID = ob_traceID ob\<rparr>"

record regression_worker =
  rw_alerts :: bool
  rw_alerted :: "string list"
  rw_groups :: error_groups
  rw_pages :: "page_entry list"

definition pageErrorGroup :: "string \<Rightarrow> errGroupObservation \<Rightarrow> string \<Rightarrow> regression_worker \<Rightarrow> regression_worker" where
  "pageErrorGroup tenant ob kind w = (if rw_alerts w then w\<lparr>rw_pages := rw_pages w @ [page_of tenant ob kind]\<rparr> else w)"

definition reopened :: "string \<Rightarrow> errGroupObservation \<Rightarrow> error_group option \<Rightarrow> error_group" where
  "reopened tenant ob old = (case old of
     None \<Rightarrow> \<lparr>eg_tenant = tenant, eg_service = ob_service ob, eg_operation = ob_operation ob, eg_message = ob_message ob,
       eg_status = ''open'', eg_resolved_by = None, eg_resolved_at = None, eg_assignee = None, eg_snoozed = None\<rparr>
   | Some g \<Rightarrow> g\<lparr>eg_status := ''open'', eg_resolved_by := None, eg_resolved_at := None\<rparr>)"

definition autoReopen :: "bool \<Rightarrow> string \<Rightarrow> string \<Rightarrow> errGroupObservation \<Rightarrow> regression_worker \<Rightarrow> regression_worker" where
  "autoReopen ok tenant fp ob w =
     (if ok then w\<lparr>rw_groups := AList.update fp (reopened tenant ob (map_of (rw_groups w) fp)) (rw_groups w)\<rparr> else w)"

definition distinctTriageTenants :: "error_groups \<Rightarrow> string list" where
  "distinctTriageTenants db = filter (\<lambda>t. t \<noteq> []) (remdups (map (eg_tenant \<circ> snd) db))"

definition triageStates :: "bool \<Rightarrow> string \<Rightarrow> error_groups \<Rightarrow> (string, string \<times> int) gomap" where
  "triageStates ok tenant db = (if ok
     then map (\<lambda>(fp, g). (fp, eg_status g, time_or_zero (eg_resolved_at g))) (filter (\<lambda>(_, g). eg_tenant g = tenant) db) else [])"

text \<open>What a scan meets: the time, whether the tenants can be listed, the recent groups of a tenant, whether
  its triage states can be read, and whether the row of a fingerprint can be written.\<close>

record scan_env =
  se_hash :: "string \<Rightarrow> string"
  se_now :: int
  se_tenants_ok :: bool
  se_recent :: "string \<Rightarrow> group_data ch_answer"
  se_triage_ok :: "string \<Rightarrow> bool"
  se_reopen_ok :: "string \<Rightarrow> bool"

definition alert_key :: "string \<Rightarrow> string \<Rightarrow> string" where
  "alert_key tenant fp = tenant @ CHR 0x00 # fp"

definition scan_group ::
  "scan_env \<Rightarrow> string \<Rightarrow> (string, string \<times> int) gomap \<Rightarrow> errGroupObservation \<Rightarrow> regression_worker \<Rightarrow> regression_worker" where
  "scan_group E tenant triage ob w =
     (let fp = fingerprint (se_hash E) tenant (ob_service ob) (ob_operation ob) (ob_message ob);
          st = (case map_of triage fp of None \<Rightarrow> ([], zero_time) | Some x \<Rightarrow> x);
          kind = classifyErrorGroup (fst st) (snd st) (ob_firstSeen ob) (ob_lastSeen ob) (se_now E) regressionWindow;
          key = alert_key tenant fp
      in if kind = [] then w\<lparr>rw_alerted := removeAll key (rw_alerted w)\<rparr>
         else if key \<in> set (rw_alerted w) then w
         else
           (let w1 = pageErrorGroup tenant ob kind (w\<lparr>rw_alerted := key # rw_alerted w\<rparr>)
            in if kind = ''regression'' then autoReopen (se_reopen_ok E fp) tenant fp ob w1 else w1))"

definition scan_tenant :: "scan_env \<Rightarrow> string \<Rightarrow> regression_worker \<Rightarrow> regression_worker" where
  "scan_tenant E tenant w = (case recentErrorGroups (se_recent E tenant) of None \<Rightarrow> w
   | Some obs \<Rightarrow> fold (scan_group E tenant (triageStates (se_triage_ok E tenant) tenant (rw_groups w))) obs w)"

definition runRegressionScan :: "scan_env \<Rightarrow> regression_worker \<Rightarrow> regression_worker" where
  "runRegressionScan E w = (if se_tenants_ok E then fold (scan_tenant E) (distinctTriageTenants (rw_groups w)) w else w)"

section \<open>Similar groups\<close>

definition is_alnum_lower :: "char \<Rightarrow> bool" where
  "is_alnum_lower c \<longleftrightarrow> (let n = (of_char c :: nat) in (97 \<le> n \<and> n \<le> 122) \<or> (48 \<le> n \<and> n \<le> 57))"

definition flush_token :: "string \<Rightarrow> string list \<Rightarrow> string list" where
  "flush_token tok acc =
     (if length tok < 3 \<or> tok \<in> {''num'', ''uuid'', ''str''} then acc else List.insert tok acc)"

fun token_loop :: "string \<Rightarrow> string \<Rightarrow> string list \<Rightarrow> string list" where
  "token_loop b [] acc = flush_token b acc"
| "token_loop b (c # cs) acc =
     (if is_alnum_lower c then token_loop (b @ [c]) cs acc else token_loop [] cs (flush_token b acc))"

definition similarityTokens :: "string \<Rightarrow> string list" where
  "similarityTokens msg = token_loop [] (to_lower msg) []"

definition messageSimilarity :: "string \<Rightarrow> string \<Rightarrow> float64" where
  "messageSimilarity a b =
     (let ta = similarityTokens a; tb = similarityTokens b;
          inter = length (filter (\<lambda>tok. tok \<in> set tb) ta); union = length ta + length tb - inter
      in if ta = [] \<and> tb = [] then Fl 1
         else if ta = [] \<or> tb = [] then Fl 0
         else if union = 0 then Fl 0
         else fdiv (of_count inter) (of_count union))"

definition similarMinScore :: float64 where "similarMinScore = round64 (3 / 10)"

text \<open>\<open>sort.SliceStable\<close> by falling similarity; \<open>limit\<close> is the parsed query parameter.\<close>

definition GetSimilarErrorGroups ::
  "(string \<Rightarrow> string) \<Rightarrow> http_req \<Rightarrow> string \<Rightarrow> string \<Rightarrow> string \<Rightarrow> string \<Rightarrow> string \<Rightarrow> group_data ch_answer
    \<Rightarrow> int \<times> (string \<times> errGroupObservation \<times> float64) list" where
  "GetSimilarErrorGroups hash r fp service operation message limit answer =
     (if service = [] \<or> operation = [] then (400, [])
      else if fp \<noteq> fingerprint hash (tenantOf r) service operation message then (400, [])
      else
        (let lim = (case parse_int64 limit of Some l \<Rightarrow> if 0 < l \<and> l \<le> 25 then nat l else 5 | None \<Rightarrow> 5)
         in case recentErrorGroups answer of None \<Rightarrow> (200, [])
            | Some obs \<Rightarrow>
                (let scored = map (\<lambda>ob. (ob, messageSimilarity message (ob_message ob)))
                       (filter (\<lambda>ob. \<not> (ob_service ob = service \<and> ob_operation ob = operation \<and> ob_message ob = message)) obs);
                     kept = filter (\<lambda>(_, score). \<not> flt score similarMinScore) scored
                 in (200, map (\<lambda>(ob, score). (fingerprint hash (tenantOf r) (ob_service ob) (ob_operation ob) (ob_message ob), ob, score))
                      (take lim (stable_sort (\<lambda>x y. flt (snd y) (snd x)) kept))))))"

section \<open>Lemmas\<close>

lemma itoa_loop_format: "0 < n \<Longrightarrow> itoa_loop n ds = format_nat n @ ds"
proof (induction n ds rule: itoa_loop.induct)
  case (1 n ds)
  have d: "itoa_loop (n div 10) ds' = (if n div 10 = 0 then ds' else format_nat (n div 10) @ ds')" if "ds' = digit_char (n mod 10) # ds" for ds'
    using 1 that by (auto simp: itoa_loop.simps [of 0])
  have "n < 10 \<longleftrightarrow> n div 10 = 0" by auto
  then show ?case using 1(2) by (subst itoa_loop.simps) (simp add: d format_nat.simps [of n])
qed

lemma itoa_format: "itoa n = format_nat n"
proof (cases "n = 0")
  case True
  have "itoa 0 = format_nat 0" by code_simp
  then show ?thesis using True by simp
qed (simp add: itoa_def itoa_loop_format)

lemma map_of_loadTriageStatus: "fp \<in> set fps \<Longrightarrow> map_of (loadTriageStatus fps db) fp = map_of db fp"
  unfolding loadTriageStatus_def by (induction db) auto

lemma map_of_triageStates:
  "map_of db fp = Some g \<Longrightarrow> eg_tenant g = t \<Longrightarrow>
    map_of (triageStates True t db) fp = Some (eg_status g, time_or_zero (eg_resolved_at g))"
proof (induction db)
  case (Cons x db)
  then show ?case by (cases x; cases "fst x = fp") (simp_all add: triageStates_def)
qed simp

lemma alert_key_inject: "length fp = length fp' \<Longrightarrow> alert_key t fp = alert_key t' fp' \<longleftrightarrow> t = t' \<and> fp = fp'"
  by (auto simp: alert_key_def)

lemma length_fingerprint: "16 \<le> length (hash (t @ ''|'' @ s @ ''|'' @ p @ ''|'' @ m)) \<Longrightarrow> length (fingerprint hash t s p m) = 16"
  by (simp add: fingerprint_def)

lemma tenant_scanned: "map_of db fp = Some g \<Longrightarrow> eg_tenant g \<noteq> [] \<Longrightarrow> eg_tenant g \<in> set (distinctTriageTenants db)"
  by (force simp: distinctTriageTenants_def dest: map_of_SomeD)

lemma token_loop_distinct: "distinct acc \<Longrightarrow> distinct (token_loop b cs acc)"
  by (induction b cs acc rule: token_loop.induct) (auto simp: flush_token_def)

lemma common_tokens: "distinct xs \<Longrightarrow> length (filter (\<lambda>x. x \<in> set ys) xs) = card (set xs \<inter> set ys)"
  by (simp add: distinct_length_filter Int_commute Collect_mem_eq)

text \<open>Fields that contain the separator move between the parts of the hashed text, also across tenants.\<close>

lemma fingerprint_separator:
  "fingerprint hash (t @ ''|'' @ a) b operation message = fingerprint hash t (a @ ''|'' @ b) operation message"
  by (simp add: fingerprint_def)

text \<open>What a scan may change of one group: whether its key is armed, its row, and the pages equal to \<open>p\<close>.\<close>

definition group_view :: "string \<Rightarrow> string \<Rightarrow> page_entry \<Rightarrow> regression_worker \<Rightarrow> bool \<times> bool \<times> error_group option \<times> nat" where
  "group_view t fp p w = (rw_alerts w, alert_key t fp \<in> set (rw_alerted w), map_of (rw_groups w) fp, count_list (rw_pages w) p)"

definition ob_fp :: "scan_env \<Rightarrow> string \<Rightarrow> errGroupObservation \<Rightarrow> string" where
  "ob_fp E t ob = fingerprint (se_hash E) t (ob_service ob) (ob_operation ob) (ob_message ob)"

definition hash_long :: "scan_env \<Rightarrow> bool" where
  "hash_long E \<longleftrightarrow> (\<forall>x. 16 \<le> length (se_hash E x))"

lemma length_ob_fp: "hash_long E \<Longrightarrow> length (ob_fp E t ob) = 16"
  by (simp add: hash_long_def ob_fp_def length_fingerprint)

lemma scan_group_frame:
  assumes "ob_fp E t' ob' \<noteq> fp" "length fp = 16" "hash_long E" "\<And>k. page_of t' ob' k \<noteq> p"
  shows "group_view t fp p (scan_group E t' tr ob' w) = group_view t fp p w"
  using assms alert_key_inject [of fp "ob_fp E t' ob'" t t'] length_ob_fp [OF assms(3), of t' ob']
  by (auto simp: scan_group_def group_view_def pageErrorGroup_def autoReopen_def update_conv' Let_def ob_fp_def)

lemma fold_view:
  assumes "\<And>x w. x \<in> set xs \<Longrightarrow> view (f x w) = view w"
  shows "view (fold f xs w) = view w"
  using assms by (induction xs arbitrary: w) auto

text \<open>\<open>sole E ts t ob\<close>: in the scanned tenants no other recent group has the fingerprint or the page of \<open>ob\<close>.\<close>

definition recent :: "scan_env \<Rightarrow> string \<Rightarrow> errGroupObservation list" where
  "recent E t = (case recentErrorGroups (se_recent E t) of None \<Rightarrow> [] | Some obs \<Rightarrow> obs)"

definition sole :: "scan_env \<Rightarrow> string \<Rightarrow> errGroupObservation \<Rightarrow> bool" where
  "sole E t ob \<longleftrightarrow> ob \<in> set (recent E t) \<and> distinct (recent E t) \<and>
     (\<forall>t' ob'. ob' \<in> set (recent E t') \<longrightarrow> (t', ob') \<noteq> (t, ob) \<longrightarrow>
       ob_fp E t' ob' \<noteq> ob_fp E t ob \<and> (\<forall>k k'. page_of t' ob' k \<noteq> page_of t ob k'))"

lemma sole_others:
  assumes "sole E t ob" "ob' \<in> set (recent E t')" "t' \<noteq> t \<or> ob' \<noteq> ob"
  shows "ob_fp E t' ob' \<noteq> ob_fp E t ob" "page_of t' ob' k \<noteq> page_of t ob k'"
  using assms unfolding sole_def by blast+

definition ob_kind :: "scan_env \<Rightarrow> (string, string \<times> int) gomap \<Rightarrow> string \<Rightarrow> errGroupObservation \<Rightarrow> string" where
  "ob_kind E tr t ob = (let st = (case map_of tr (ob_fp E t ob) of None \<Rightarrow> ([], zero_time) | Some x \<Rightarrow> x)
     in classifyErrorGroup (fst st) (snd st) (ob_firstSeen ob) (ob_lastSeen ob) (se_now E) regressionWindow)"

lemma scan_group_view:
  "group_view t (ob_fp E t ob) p (scan_group E t tr ob w) =
    (case group_view t (ob_fp E t ob) p w of (al, armed, row, n) \<Rightarrow>
       if ob_kind E tr t ob = [] then (al, False, row, n)
       else if armed then (al, armed, row, n)
       else (al, True, if ob_kind E tr t ob = ''regression'' \<and> se_reopen_ok E (ob_fp E t ob) then Some (reopened t ob row) else row,
         n + (if al \<and> page_of t ob (ob_kind E tr t ob) = p then 1 else 0)))"
proof -
  have s: "scan_group E t tr ob w = (let fp = ob_fp E t ob; kind = ob_kind E tr t ob; key = alert_key t fp
      in if kind = [] then w\<lparr>rw_alerted := removeAll key (rw_alerted w)\<rparr>
         else if key \<in> set (rw_alerted w) then w
         else (let w1 = pageErrorGroup t ob kind (w\<lparr>rw_alerted := key # rw_alerted w\<rparr>)
            in if kind = ''regression'' then autoReopen (se_reopen_ok E fp) t fp ob w1 else w1))"
    by (simp add: scan_group_def ob_kind_def ob_fp_def Let_def)
  show ?thesis unfolding s Let_def group_view_def pageErrorGroup_def autoReopen_def
    by (simp add: update_conv')
qed

lemma scan_tenant_recent:
  "scan_tenant E t w = fold (scan_group E t (triageStates (se_triage_ok E t) t (rw_groups w))) (recent E t) w"
  by (simp add: scan_tenant_def recent_def split: option.split)

lemma scan_tenant_frame:
  assumes "sole E t ob" "t' \<noteq> t" "hash_long E"
  shows "group_view t (ob_fp E t ob) (page_of t ob k) (scan_tenant E t' w) = group_view t (ob_fp E t ob) (page_of t ob k) w"
  unfolding scan_tenant_recent
  by (rule fold_view, rule scan_group_frame)
    (use sole_others [OF assms(1)] assms(2) in blast, simp add: length_ob_fp assms(3), rule assms(3),
     use sole_others [OF assms(1)] assms(2) in blast)

lemma scan_own_tenant:
  assumes "sole E t ob" "hash_long E"
  shows "group_view t (ob_fp E t ob) (page_of t ob k) (scan_tenant E t w) =
    group_view t (ob_fp E t ob) (page_of t ob k)
      (scan_group E t (triageStates (se_triage_ok E t) t (rw_groups w)) ob w)"
proof -
  obtain xs ys where split: "recent E t = xs @ ob # ys" using assms(1) by (auto simp: sole_def dest: split_list)
  have others: "ob' \<noteq> ob" if "ob' \<in> set xs \<union> set ys" for ob' using assms(1) that by (auto simp: sole_def split)
  let ?T = "triageStates (se_triage_ok E t) t (rw_groups w)" and ?v = "group_view t (ob_fp E t ob) (page_of t ob k)"
  have frame: "?v (scan_group E t ?T ob' w') = ?v w'" if "ob' \<in> set xs \<union> set ys" for ob' w'
  proof (rule scan_group_frame)
    have "ob' \<in> set (recent E t)" using that by (auto simp: split)
    then show "ob_fp E t ob' \<noteq> ob_fp E t ob" "\<And>k'. page_of t ob' k' \<noteq> page_of t ob k"
      using sole_others [OF assms(1)] others [OF that] by blast+
  qed (simp_all add: length_ob_fp assms(2))
  have step: "?v (scan_group E t ?T ob w1) = ?v (scan_group E t ?T ob w2)" if "?v w1 = ?v w2" for w1 w2
    using that by (simp only: scan_group_view)
  have "?v (fold (scan_group E t ?T) (xs @ ob # ys) w) = ?v (scan_group E t ?T ob (fold (scan_group E t ?T) xs w))"
  proof -
    have "?v (fold (scan_group E t ?T) ys w') = ?v w'" for w' by (rule fold_view) (simp add: frame)
    then show ?thesis by (simp only: fold_append fold_Cons o_apply)
  qed
  moreover have "?v (fold (scan_group E t ?T) xs w) = ?v w" by (rule fold_view) (use frame in auto)
  ultimately show ?thesis unfolding scan_tenant_recent split using step by (metis (no_types))
qed

text \<open>A whole scan, seen from one group, is the step of that group on its row.\<close>

lemma scan_view:
  assumes "sole E t ob" "hash_long E" "se_tenants_ok E" "se_triage_ok E t" "t \<noteq> []"
    and "map_of (rw_groups w) (ob_fp E t ob) = Some g" "eg_tenant g = t"
  shows "\<exists>w1 tr. group_view t (ob_fp E t ob) (page_of t ob k) (runRegressionScan E w)
      = group_view t (ob_fp E t ob) (page_of t ob k) (scan_group E t tr ob w1)
    \<and> group_view t (ob_fp E t ob) (page_of t ob k) w1 = group_view t (ob_fp E t ob) (page_of t ob k) w
    \<and> map_of tr (ob_fp E t ob) = Some (eg_status g, time_or_zero (eg_resolved_at g))"
proof -
  let ?ts = "distinctTriageTenants (rw_groups w)" and ?v = "group_view t (ob_fp E t ob) (page_of t ob k)"
  have "t \<in> set ?ts" using tenant_scanned [OF assms(6)] assms(5,7) by simp
  then obtain xs ys where split: "?ts = xs @ t # ys" by (auto dest: split_list)
  have "distinct ?ts" by (simp add: distinctTriageTenants_def)
  then have others: "t' \<noteq> t" if "t' \<in> set xs \<union> set ys" for t' using that by (auto simp: split)
  define w1 where "w1 = fold (scan_tenant E) xs w"
  have frame: "?v (fold (scan_tenant E) zs w') = ?v w'" if "set zs \<subseteq> set xs \<union> set ys" for zs w'
    by (rule fold_view) (use scan_tenant_frame [OF assms(1) _ assms(2)] others that in blast)
  have v1: "?v w1 = ?v w" unfolding w1_def by (rule frame) simp
  then have "map_of (rw_groups w1) (ob_fp E t ob) = Some g" using assms(6) by (simp add: group_view_def)
  then have tr: "map_of (triageStates True t (rw_groups w1)) (ob_fp E t ob) = Some (eg_status g, time_or_zero (eg_resolved_at g))"
    by (rule map_of_triageStates) (rule assms(7))
  have "?v (runRegressionScan E w) = ?v (scan_tenant E t w1)"
    using frame [of ys] assms(3) by (simp add: runRegressionScan_def split w1_def)
  also have "\<dots> = ?v (scan_group E t (triageStates True t (rw_groups w1)) ob w1)"
    using scan_own_tenant [OF assms(1,2), of k w1] assms(4) by simp
  finally show ?thesis using v1 tr by blast
qed

lemma sole_reopen [simp]:
  "recent (E\<lparr>se_reopen_ok := f\<rparr>) = recent E" "ob_fp (E\<lparr>se_reopen_ok := f\<rparr>) = ob_fp E"
  "sole (E\<lparr>se_reopen_ok := f\<rparr>) = sole E" "hash_long (E\<lparr>se_reopen_ok := f\<rparr>) = hash_long E"
  by (simp_all add: fun_eq_iff recent_def ob_fp_def sole_def hash_long_def)

lemma regression_kind:
  assumes "map_of tr (ob_fp E t ob) = Some (''resolved'', ra)" "ra \<noteq> zero_time" "ra < ob_lastSeen ob"
  shows "ob_kind E tr t ob = ''regression''"
  using assms by (simp add: ob_kind_def classifyErrorGroup_def)

lemma quiet_kind:
  assumes "map_of tr (ob_fp E t ob) = Some (st, ra)" "st \<noteq> []" "st = ''resolved'' \<Longrightarrow> ob_lastSeen ob \<le> ra"
  shows "ob_kind E tr t ob = []"
  using assms by (cases "st = ''resolved''") (simp_all add: ob_kind_def classifyErrorGroup_def Let_def)

lemma map_of_AList_update: "map_of (AList.update k v xs) j = (if j = k then Some v else map_of xs j)"
  by (simp add: update_conv')

text \<open>What a PATCH is meant to do to a row, field by field.\<close>

definition patched :: "int \<Rightarrow> triagePatchRequest \<Rightarrow> error_group \<Rightarrow> error_group" where
  "patched now q g = g\<lparr>
     eg_status := (case pq_Status q of Some st \<Rightarrow> st | None \<Rightarrow> if pq_SnoozedUntil q = None then eg_status g else ''snoozed''),
     eg_resolved_by := (if pq_Status q = Some ''resolved'' \<and> pq_ResolvedBy q \<noteq> [] then Some (pq_ResolvedBy q) else eg_resolved_by g),
     eg_resolved_at := (if pq_Status q = Some ''resolved'' then Some now else eg_resolved_at g),
     eg_assignee := (case pq_Assignee q of None \<Rightarrow> eg_assignee g | Some a \<Rightarrow> if a = [] then None else Some a),
     eg_snoozed := (case pq_Status q of None \<Rightarrow> if pq_SnoozedUntil q = None then eg_snoozed g else parseSnoozeUntil (pq_SnoozedUntil q) now
       | Some st \<Rightarrow> if st = ''snoozed'' then parseSnoozeUntil (pq_SnoozedUntil q) now else None)\<rparr>"

lemma patched_assignee:
  "patched now q g = (patched now (q\<lparr>pq_Assignee := None\<rparr>) g)
     \<lparr>eg_assignee := (case pq_Assignee q of None \<Rightarrow> eg_assignee g | Some a \<Rightarrow> if a = [] then None else Some a)\<rparr>"
  by (cases g; cases q; cases "pq_Status q"; cases "pq_Assignee q") (simp_all add: patched_def)

lemma patch_columns:
  assumes "Option.bind (patch_status now q fresh) (\<lambda>p. patch_snooze now q (patch_assignee q p)) = Some (ins, sets)"
    and "eg_snoozed fresh = None" "eg_assignee fresh = None"
  shows "fold (set_column ins) sets g = patched now q g"
proof (cases "pq_Status q")
  case None
  with assms show ?thesis
    by (cases "pq_Assignee q"; cases "pq_SnoozedUntil q")
      (auto simp: patch_status_def patch_snooze_def patch_assignee_def patched_def split: option.splits)
next
  case (Some st)
  then have keep: "patch_snooze now q p = Some p" for p by (simp add: patch_snooze_def split_def)
  from Some keep assms obtain i1 s1 where p: "patch_status now q fresh = Some (i1, s1)" "(ins, sets) = patch_assignee q (i1, s1)"
    by (auto simp: Option.bind_eq_Some_conv)
  from p(1) have one: "fold (set_column ins) s1 g = patched now (q\<lparr>pq_Assignee := None\<rparr>) g"
    using Some assms(2) p(2)
    by (cases "pq_Assignee q"; cases "st = ''resolved''"; cases "st = ''snoozed''")
      (auto simp: patch_status_def patch_assignee_def patched_def split: option.splits if_splits)
  show ?thesis
  proof (cases "pq_Assignee q")
    case None
    then have "q\<lparr>pq_Assignee := None\<rparr> = q" by (cases q) simp
    with one have "fold (set_column ins) s1 g = patched now q g" by (simp only:)
    then show ?thesis using p(2) None by (simp add: patch_assignee_def)
  next
    case (Some a)
    have "eg_assignee i1 = None" using p(1) assms(3) by (auto simp: patch_status_def split: option.splits if_splits)
    then show ?thesis using p(2) one Some patched_assignee [of now q g] by (auto simp: patch_assignee_def)
  qed
qed

lemma with_triage_status:
  "map_of byFP (er_Fingerprint g) = Some s \<Longrightarrow> er_Status (with_triage now byFP g) = effectiveStatus (eg_status s) (time_or_zero (eg_snoozed s)) now"
  "er_Fingerprint (with_triage now byFP g) = er_Fingerprint g"
  by (simp_all add: with_triage_def split: option.split)

text \<open>The status that the list shows for a fingerprint is the effective status of its row.\<close>

lemma listed_status:
  assumes "g \<in> set (snd (ListErrorGroups hash now True r [] [] (ChRows ds) (Some t)))" "map_of t (er_Fingerprint g) = Some s"
  shows "er_Status g = effectiveStatus (eg_status s) (time_or_zero (eg_snoozed s)) now"
proof -
  let ?gs = "map (listed_group hash (tenantOf r)) ds"
  have "?gs \<noteq> []" using assms(1) by (auto simp: ListErrorGroups_def Let_def)
  then obtain g0 where g0: "g0 \<in> set ?gs" "g = with_triage now (loadTriageStatus (map er_Fingerprint ?gs) t) g0"
    using assms(1) by (auto simp: ListErrorGroups_def Let_def split: if_splits)
  then have "map_of (loadTriageStatus (map er_Fingerprint ?gs) t) (er_Fingerprint g0) = Some s"
    using assms(2) by (subst map_of_loadTriageStatus) (auto simp: with_triage_status)
  then show ?thesis unfolding g0(2) by (rule with_triage_status(1))
qed

subsection \<open>A worked example\<close>

definition demo_data :: group_data where
  "demo_data = \<lparr>gd_service = ''api'', gd_operation = ''GET /'', gd_message = ''boom'', gd_sample = ''boom'', gd_occurrences = ''3'',
     gd_first = ''1970-01-01 00:00:00'', gd_last = ''1970-01-01 00:00:01'', gd_trace = ''t1''\<rparr>"

definition demo_ob :: errGroupObservation where
  "demo_ob = \<lparr>ob_service = ''api'', ob_operation = ''GET /'', ob_message = ''boom'', ob_sample = ''boom'',
     ob_firstSeen = 0, ob_lastSeen = 1000000000, ob_traceID = ''t1''\<rparr>"

definition demo_fp :: string where "demo_fp = ''0123456789abcdef''"

definition demo_scan :: scan_env where
  "demo_scan = \<lparr>se_hash = \<lambda>_. demo_fp, se_now = 2000000000, se_tenants_ok = True,
     se_recent = \<lambda>t. if t = ''acme'' then ChRows [demo_data] else ChRows [], se_triage_ok = \<lambda>_. True, se_reopen_ok = \<lambda>_. True\<rparr>"

definition demo_group :: error_group where
  "demo_group = \<lparr>eg_tenant = ''acme'', eg_service = ''api'', eg_operation = ''GET /'', eg_message = ''boom'', eg_status = ''resolved'',
     eg_resolved_by = Some ''ann'', eg_resolved_at = Some 5, eg_assignee = None, eg_snoozed = None\<rparr>"

definition demo_worker :: regression_worker where
  "demo_worker = \<lparr>rw_alerts = True, rw_alerted = [], rw_groups = [(demo_fp, demo_group)], rw_pages = []\<rparr>"

definition demo_patch :: triagePatchRequest where
  "demo_patch = \<lparr>pq_Service = [], pq_Operation = [], pq_Message = [], pq_Status = None, pq_Assignee = Some ''bob'',
     pq_SnoozedUntil = None, pq_ResolvedBy = []\<rparr>"

definition demo_caller :: http_req where
  "demo_caller = \<lparr>hr_Method = ''PATCH'', hr_Path = ''/'', hr_RawQuery = [], hr_Header = [], hr_RemoteAddr = []\<rparr>"

lemma demo_times: "parseCHTime ''1970-01-01 00:00:00'' = 0" "parseCHTime ''1970-01-01 00:00:01'' = 1000000000"
  by code_simp+

lemma demo_recent: "recent demo_scan t = (if t = ''acme'' then [demo_ob] else [])"
  by (simp add: recent_def recentErrorGroups_def demo_scan_def demo_data_def demo_ob_def demo_times)

lemma demo_scan_fp [simp]: "ob_fp demo_scan t ob = demo_fp"
  by (simp add: ob_fp_def fingerprint_def demo_scan_def demo_fp_def)

lemma demo_scan_sel [simp]:
  "se_hash demo_scan = (\<lambda>_. demo_fp)" "se_tenants_ok demo_scan" "se_triage_ok demo_scan t" "se_reopen_ok demo_scan fp"
  by (simp_all add: demo_scan_def)

lemma demo_sole: "sole demo_scan ''acme'' demo_ob" "hash_long demo_scan"
  by (auto simp: sole_def demo_recent) (simp add: hash_long_def demo_fp_def)

section \<open>Properties\<close>

text \<open>A PATCH applies exactly the fields it carries: over an existing row the update with its list of
  columns is the field-by-field specification, and no other group changes.\<close>

theorem patch_applies_named_fields:
  assumes "UpdateErrorGroup now ok r fp (Some q) (Some t) = (200, answer, Some t')" "map_of t fp = Some g"
  shows "map_of t' fp = Some (patched now q g) \<and> (\<forall>fp'. fp' \<noteq> fp \<longrightarrow> map_of t' fp' = map_of t fp')"
proof -
  obtain ins sets fresh where "Option.bind (patch_status now q fresh) (\<lambda>p. patch_snooze now q (patch_assignee q p)) = Some (ins, sets)"
    "eg_snoozed fresh = None" "eg_assignee fresh = None" "t' = AList.update fp (fold (set_column ins) sets g) t"
    using assms by (auto simp: UpdateErrorGroup_def Let_def split: if_splits option.splits)
  then show ?thesis using patch_columns [of now q fresh ins sets g] by (simp add: map_of_AList_update)
qed

theorem patch_applies_named_fields_witness:
  "map_of (the (snd (snd (UpdateErrorGroup 9 True demo_caller ''f'' (Some demo_patch) (Some [(''f'', demo_group)]))))) ''f''
     = Some (demo_group\<lparr>eg_assignee := Some ''bob''\<rparr>)"
proof -
  have u: "UpdateErrorGroup 9 True demo_caller ''f'' (Some demo_patch) (Some [(''f'', demo_group)])
      = (200, ''open'', Some [(''f'', demo_group\<lparr>eg_assignee := Some ''bob''\<rparr>)])"
    by (simp add: UpdateErrorGroup_def demo_patch_def demo_group_def demo_caller_def patch_status_def patch_assignee_def
        patch_snooze_def effectiveStatus_def)
  have "patched 9 demo_patch demo_group = demo_group\<lparr>eg_assignee := Some ''bob''\<rparr>"
    by (simp add: patched_def demo_patch_def demo_group_def)
  then show ?thesis using patch_applies_named_fields [OF u, of demo_group] unfolding u by simp
qed

text \<open>C33: a resolved group that recurs is paged once and reopened: when its last occurrence is later than its
  resolution and its key is not armed, a scan publishes exactly one page for it, sets its row to open
  with the resolution cleared, and the next scan of the same groups publishes no other.\<close>

theorem regression_paged_once_and_reopened:
  assumes "sole E t ob" "hash_long E" "se_tenants_ok E" "se_triage_ok E t" "t \<noteq> []" "se_reopen_ok E (ob_fp E t ob)"
    and "map_of (rw_groups w) (ob_fp E t ob) = Some g" "eg_tenant g = t" "eg_status g = ''resolved''"
    and "eg_resolved_at g = Some ra" "ra \<noteq> zero_time" "ra < ob_lastSeen ob"
    and "rw_alerts w" "alert_key t (ob_fp E t ob) \<notin> set (rw_alerted w)"
  shows "let w1 = runRegressionScan E w; w2 = runRegressionScan E w1; p = page_of t ob ''regression''
    in count_list (rw_pages w1) p = count_list (rw_pages w) p + 1 \<and> count_list (rw_pages w2) p = count_list (rw_pages w1) p
     \<and> map_of (rw_groups w1) (ob_fp E t ob) = Some (g\<lparr>eg_status := ''open'', eg_resolved_by := None, eg_resolved_at := None\<rparr>)"
proof -
  let ?fp = "ob_fp E t ob" and ?p = "page_of t ob ''regression''"
  define w1 where "w1 = runRegressionScan E w"
  let ?g = "g\<lparr>eg_status := ''open'', eg_resolved_by := None, eg_resolved_at := None\<rparr>"
  obtain w0 tr where s1: "group_view t ?fp ?p w1 = group_view t ?fp ?p (scan_group E t tr ob w0)"
      "group_view t ?fp ?p w0 = group_view t ?fp ?p w" "map_of tr ?fp = Some (''resolved'', ra)"
    using scan_view [OF assms(1-5,7,8), of "''regression''"] assms(9,10) by (auto simp: w1_def time_or_zero_def)
  then have v1: "group_view t ?fp ?p w1 = (True, True, Some ?g, Suc (count_list (rw_pages w) ?p))"
    using regression_kind [OF s1(3) assms(11,12)] assms(6-8,13,14) by (simp add: scan_group_view) (simp add: group_view_def reopened_def)
  then have row: "map_of (rw_groups w1) ?fp = Some ?g" by (simp add: group_view_def)
  obtain w0' tr' where s2: "group_view t ?fp ?p (runRegressionScan E w1) = group_view t ?fp ?p (scan_group E t tr' ob w0')"
      "group_view t ?fp ?p w0' = group_view t ?fp ?p w1" "map_of tr' ?fp = Some (''open'', zero_time)"
    using scan_view [OF assms(1-5) row, of "''regression''"] assms(8) by (auto simp: time_or_zero_def)
  have "ob_kind E tr' t ob = []" by (rule quiet_kind [OF s2(3)]) simp_all
  then have "group_view t ?fp ?p (runRegressionScan E w1) = (True, False, Some ?g, Suc (count_list (rw_pages w) ?p))"
    using s2(1,2) v1 by (simp add: scan_group_view)
  then show ?thesis using v1 by (simp add: group_view_def w1_def Let_def)
qed

theorem regression_paged_once_and_reopened_witness:
  "count_list (rw_pages (runRegressionScan demo_scan demo_worker)) (page_of ''acme'' demo_ob ''regression'') = 1"
  using regression_paged_once_and_reopened [OF demo_sole, of demo_worker demo_group 5]
  by (simp add: demo_worker_def demo_group_def demo_ob_def zero_time_def Let_def)

text \<open>A group that a human has muted, snoozed or left open never pages, and neither does a resolved one
  that has not occurred since: a scan leaves its row as it is and publishes nothing for it.\<close>

theorem acknowledged_group_is_quiet:
  assumes "sole E t ob" "hash_long E" "se_tenants_ok E" "se_triage_ok E t" "t \<noteq> []"
    and "map_of (rw_groups w) (ob_fp E t ob) = Some g" "eg_tenant g = t" "eg_status g \<noteq> []"
    and "eg_status g = ''resolved'' \<Longrightarrow> ob_lastSeen ob \<le> time_or_zero (eg_resolved_at g)"
  shows "count_list (rw_pages (runRegressionScan E w)) (page_of t ob k) = count_list (rw_pages w) (page_of t ob k)
     \<and> map_of (rw_groups (runRegressionScan E w)) (ob_fp E t ob) = Some g"
proof -
  obtain w1 tr where s: "group_view t (ob_fp E t ob) (page_of t ob k) (runRegressionScan E w)
        = group_view t (ob_fp E t ob) (page_of t ob k) (scan_group E t tr ob w1)"
      "group_view t (ob_fp E t ob) (page_of t ob k) w1 = group_view t (ob_fp E t ob) (page_of t ob k) w"
      "map_of tr (ob_fp E t ob) = Some (eg_status g, time_or_zero (eg_resolved_at g))"
    using scan_view [OF assms(1-7)] by blast
  have "ob_kind E tr t ob = []" by (rule quiet_kind [OF s(3) assms(8,9)])
  then show ?thesis using s(1,2) assms(6) by (simp add: scan_group_view) (simp add: group_view_def)
qed

theorem acknowledged_group_is_quiet_witness:
  "map_of (rw_groups (runRegressionScan demo_scan (demo_worker\<lparr>rw_groups := [(demo_fp, demo_group\<lparr>eg_status := ''muted''\<rparr>)]\<rparr>))) demo_fp
     = Some (demo_group\<lparr>eg_status := ''muted''\<rparr>)"
  using acknowledged_group_is_quiet [OF demo_sole, of "demo_worker\<lparr>rw_groups := [(demo_fp, demo_group\<lparr>eg_status := ''muted''\<rparr>)]\<rparr>"
      "demo_group\<lparr>eg_status := ''muted''\<rparr>"]
  by (simp add: demo_worker_def demo_group_def)

text \<open>A reopening that fails is never retried: the key stays armed, so although the group keeps recurring
  and the table is writable again, later scans neither reopen it nor page, and the list goes on showing
  it as resolved.\<close>

theorem failed_reopen_not_retried:
  assumes "sole E t ob" "hash_long E" "se_tenants_ok E" "se_triage_ok E t" "t \<noteq> []" "\<not> se_reopen_ok E (ob_fp E t ob)"
    and "map_of (rw_groups w) (ob_fp E t ob) = Some g" "eg_tenant g = t" "eg_status g = ''resolved''"
    and "eg_resolved_at g = Some ra" "ra \<noteq> zero_time" "ra < ob_lastSeen ob"
  shows "map_of (rw_groups (runRegressionScan (E\<lparr>se_reopen_ok := \<lambda>_. True\<rparr>) (runRegressionScan E w))) (ob_fp E t ob) = Some g"
proof -
  let ?fp = "ob_fp E t ob" and ?p = "page_of t ob ''regression''" and ?E = "E\<lparr>se_reopen_ok := \<lambda>_. True\<rparr>"
  define w1 where "w1 = runRegressionScan E w"
  obtain w0 tr where s1: "group_view t ?fp ?p w1 = group_view t ?fp ?p (scan_group E t tr ob w0)"
      "group_view t ?fp ?p w0 = group_view t ?fp ?p w" "map_of tr ?fp = Some (''resolved'', ra)"
    using scan_view [OF assms(1-5,7,8), of "''regression''"] assms(9,10) by (auto simp: w1_def time_or_zero_def)
  have v1: "fst (snd (group_view t ?fp ?p w1)) \<and> fst (snd (snd (group_view t ?fp ?p w1))) = Some g"
    unfolding s1(1) scan_group_view s1(2)
    using regression_kind [OF s1(3) assms(11,12)] assms(6,7) by (simp add: group_view_def)
  then have row: "map_of (rw_groups w1) ?fp = Some g" by (simp add: group_view_def)
  obtain w0' tr' where s2: "group_view t ?fp ?p (runRegressionScan ?E w1) = group_view t ?fp ?p (scan_group ?E t tr' ob w0')"
      "group_view t ?fp ?p w0' = group_view t ?fp ?p w1" "map_of tr' ?fp = Some (''resolved'', ra)"
    using scan_view [of ?E t ob w1 g "''regression''"] assms(1-5,8-10) row by (auto simp: time_or_zero_def)
  have "ob_kind ?E tr' t ob = ''regression''" by (rule regression_kind) (use s2(3) assms(11,12) in simp_all)
  then have "group_view t ?fp ?p (runRegressionScan ?E w1) = group_view t ?fp ?p w1"
    using s2(1,2) scan_group_view [of t ?E ob ?p tr' w0'] v1 by (simp add: split_def prod_eq_iff)
  then show ?thesis using row by (simp add: group_view_def w1_def)
qed

theorem failed_reopen_not_retried_witness:
  "map_of (rw_groups (runRegressionScan demo_scan (runRegressionScan (demo_scan\<lparr>se_reopen_ok := \<lambda>_. False\<rparr>) demo_worker))) demo_fp
     = Some demo_group"
proof -
  let ?E = "demo_scan\<lparr>se_reopen_ok := \<lambda>_. False\<rparr>"
  have "map_of (rw_groups (runRegressionScan (?E\<lparr>se_reopen_ok := \<lambda>_. True\<rparr>) (runRegressionScan ?E demo_worker))) (ob_fp ?E ''acme'' demo_ob)
      = Some demo_group"
    by (rule failed_reopen_not_retried [where ra = 5 and g = demo_group])
      (use demo_sole in \<open>simp_all add: demo_worker_def demo_group_def demo_ob_def zero_time_def\<close>)
  moreover have "?E\<lparr>se_reopen_ok := \<lambda>_. True\<rparr> = demo_scan" by (simp add: demo_scan_def)
  ultimately show ?thesis by (simp only: sole_reopen demo_scan_fp)
qed

text \<open>Any caller triages any tenant's group: muting a fingerprint does not compare the caller's tenant with
  the row or recompute the fingerprint, so the owner's list shows the group as muted.\<close>

theorem foreign_fingerprint_triaged:
  assumes "fp \<noteq> []" "MuteErrorGroup now0 True attacker fp q (Some t) = (200, Some t')"
    and "g \<in> set (snd (ListErrorGroups hash now True owner [] [] (ChRows ds) (Some t')))" "er_Fingerprint g = fp"
  shows "er_Status g = ''muted''"
proof -
  have "\<exists>s. map_of t' fp = Some s \<and> eg_status s = ''muted''"
    using assms(1,2) by (auto simp: MuteErrorGroup_def setStatus_def Let_def map_of_AList_update split: option.splits)
  then obtain s where "map_of t' (er_Fingerprint g) = Some s" "eg_status s = ''muted''" using assms(4) by auto
  then show ?thesis using listed_status [OF assms(3)] by (simp add: effectiveStatus_def)
qed

theorem foreign_fingerprint_triaged_witness:
  "er_Status (hd (snd (ListErrorGroups (\<lambda>_. demo_fp) 9 True (demo_caller\<lparr>hr_Header := [(''X-Tenant-Id'', ''acme'')]\<rparr>) [] []
     (ChRows [demo_data]) (snd (MuteErrorGroup 7 True (demo_caller\<lparr>hr_Header := [(''X-Tenant-Id'', ''evil'')]\<rparr>) demo_fp
        \<lparr>tq_Service = [], tq_Operation = [], tq_Message = [], tq_ResolvedBy = []\<rparr> (Some [(demo_fp, demo_group)])))))) = ''muted''"
proof -
  let ?q = "\<lparr>tq_Service = [], tq_Operation = [], tq_Message = [], tq_ResolvedBy = []\<rparr>" and ?A = "demo_caller\<lparr>hr_Header := [(''X-Tenant-Id'', ''evil'')]\<rparr>"
  let ?B = "demo_caller\<lparr>hr_Header := [(''X-Tenant-Id'', ''acme'')]\<rparr>"
  let ?t = "[(demo_fp, demo_group\<lparr>eg_status := ''muted'', eg_resolved_by := None, eg_resolved_at := None\<rparr>)]"
  have m: "MuteErrorGroup 7 True ?A demo_fp ?q (Some [(demo_fp, demo_group)]) = (200, Some ?t)"
    by (simp add: MuteErrorGroup_def setStatus_def demo_fp_def)
  define gs where "gs = snd (ListErrorGroups (\<lambda>_. demo_fp) 9 True ?B [] [] (ChRows [demo_data]) (Some ?t))"
  have "gs \<noteq> []" "\<forall>g \<in> set gs. er_Fingerprint g = demo_fp"
    by (auto simp: gs_def ListErrorGroups_def Let_def with_triage_status listed_group_def fingerprint_def demo_fp_def)
  then have h: "hd gs \<in> set gs" "er_Fingerprint (hd gs) = demo_fp" by auto
  have "er_Status (hd gs) = ''muted''"
    by (rule foreign_fingerprint_triaged [OF _ m h(1) [unfolded gs_def] h(2) [unfolded gs_def], folded gs_def]) (simp add: demo_fp_def)
  then show ?thesis unfolding m by (simp add: gs_def)
qed

text \<open>Assigning an owner to a resolved group answers that it is open: the response is computed from the row
  that would have been inserted, while the stored status stays resolved.\<close>

theorem assignment_misreports_status:
  assumes "map_of t fp = Some g" "fp \<noteq> []" "eg_status g = ''resolved''"
    and "pq_Status q = None" "pq_SnoozedUntil q = None" "pq_Assignee q = Some who"
  shows "\<exists>t'. UpdateErrorGroup now True r fp (Some q) (Some t) = (200, ''open'', Some t')
     \<and> map_option eg_status (map_of t' fp) = Some ''resolved''"
  using assms
  by (simp add: UpdateErrorGroup_def Let_def patch_status_def patch_assignee_def patch_snooze_def effectiveStatus_def map_of_AList_update)

theorem assignment_misreports_status_witness:
  "\<exists>t'. UpdateErrorGroup 9 True demo_caller ''f'' (Some demo_patch) (Some [(''f'', demo_group)]) = (200, ''open'', Some t')
     \<and> map_option eg_status (map_of t' ''f'') = Some ''resolved''"
  by (rule assignment_misreports_status [where g = demo_group and who = "''bob''"]) (simp_all add: demo_group_def demo_patch_def)

text \<open>A snoozed group comes back by itself: after a PATCH that snoozes it until an instant, the list shows it as
  snoozed before that instant and as open from then on.\<close>

theorem snoozed_group_returns:
  assumes "UpdateErrorGroup now0 ok r0 fp (Some q) (Some t) = (200, answer, Some t')"
    and "pq_Status q = Some ''snoozed''" "pq_SnoozedUntil q = Some u" "parse_rfc3339 u = Some until" "zero_time < now0"
    and "g \<in> set (snd (ListErrorGroups hash now True r [] [] (ChRows ds) (Some t')))" "er_Fingerprint g = fp"
  shows "er_Status g = (if now < until then ''snoozed'' else ''open'')"
proof -
  have u: "now0 < until" and "\<exists>s. map_of t' fp = Some s \<and> eg_status s = ''snoozed'' \<and> eg_snoozed s = Some until"
    using assms(1-4)
    by (auto simp: UpdateErrorGroup_def Let_def patch_status_def patch_snooze_def patch_assignee_def parseSnoozeUntil_def
        triageStatuses_def map_of_AList_update split: option.splits if_splits)
  then obtain s where "map_of t' (er_Fingerprint g) = Some s" "eg_status s = ''snoozed''" "eg_snoozed s = Some until"
    using assms(7) by auto
  then show ?thesis using listed_status [OF assms(6)] u assms(5) by (auto simp: effectiveStatus_def time_or_zero_def)
qed

theorem snoozed_group_returns_witness:
  "let t' = the (snd (snd (UpdateErrorGroup 0 True demo_caller demo_fp
       (Some (demo_patch\<lparr>pq_Status := Some ''snoozed'', pq_SnoozedUntil := Some ''1970-01-01T00:00:01Z''\<rparr>)) (Some [(demo_fp, demo_group)]))))
   in \<forall>g \<in> set (snd (ListErrorGroups (\<lambda>_. demo_fp) 1000000000 True demo_caller [] [] (ChRows [demo_data]) (Some t'))). er_Status g = ''open''"
proof -
  let ?q = "demo_patch\<lparr>pq_Status := Some ''snoozed'', pq_SnoozedUntil := Some ''1970-01-01T00:00:01Z''\<rparr>"
  have p: "parse_rfc3339 ''1970-01-01T00:00:01Z'' = Some 1000000000" by code_simp
  have "\<exists>t'. UpdateErrorGroup 0 True demo_caller demo_fp (Some ?q) (Some [(demo_fp, demo_group)]) = (200, ''snoozed'', Some t')"
    by (simp add: UpdateErrorGroup_def Let_def patch_status_def patch_assignee_def patch_snooze_def parseSnoozeUntil_def demo_fp_def
        demo_patch_def p triageStatuses_def effectiveStatus_def time_or_zero_def zero_time_def)
  then obtain t' where u: "UpdateErrorGroup 0 True demo_caller demo_fp (Some ?q) (Some [(demo_fp, demo_group)]) = (200, ''snoozed'', Some t')" ..
  have fp: "er_Fingerprint g = demo_fp"
    if "g \<in> set (snd (ListErrorGroups (\<lambda>_. demo_fp) 1000000000 True demo_caller [] [] (ChRows [demo_data]) (Some t')))" for g
    using that by (auto simp: ListErrorGroups_def Let_def with_triage_status listed_group_def fingerprint_def demo_fp_def)
  have "er_Status g = ''open''"
    if "g \<in> set (snd (ListErrorGroups (\<lambda>_. demo_fp) 1000000000 True demo_caller [] [] (ChRows [demo_data]) (Some t')))" for g
    using snoozed_group_returns [OF u _ _ p _ that fp [OF that]] by (simp add: zero_time_def)
  then show ?thesis unfolding u by simp
qed

text \<open>Similarity does not depend on which of two groups is looked at: the score of a pair is the same from
  either side.\<close>

theorem similarity_symmetric: "messageSimilarity a b = messageSimilarity b a"
proof -
  have "distinct (similarityTokens m)" for m by (simp add: similarityTokens_def token_loop_distinct)
  then show ?thesis
    unfolding messageSimilarity_def Let_def
    using common_tokens [of "similarityTokens a" "similarityTokens b"] common_tokens [of "similarityTokens b" "similarityTokens a"]
    by (simp add: Int_commute add.commute)
qed

end
