(* ===== verification/Alerts.thy ===== *)
theory Alerts
  imports Correlator Auth Go_Time
begin

text \<open>
  The alert service: the consumer that turns logs into alerts
  (\<open>src/alert-service/internal/consumer/log_consumer.go\<close>), the alert and silence tables
  (\<open>internal/repository\<close>), and the handlers that list, group and silence alerts
  (\<open>internal/handler\<close>). The last part composes the consumer with the correlation engine, which reads the
  topic the consumer publishes to.
\<close>

section \<open>Grouping\<close>

text \<open>\<open>regexp.ReplaceAllString\<close> for a pattern that never matches the empty text: \<open>m s\<close> is the length of the
  leftmost match at the start of \<open>s\<close>, 0 when there is none.\<close>

function replace_all :: "(string \<Rightarrow> nat) \<Rightarrow> string \<Rightarrow> string \<Rightarrow> string" where
  "replace_all m rep [] = []"
| "replace_all m rep (c # cs) =
     (if m (c # cs) = 0 then c # replace_all m rep cs else rep @ replace_all m rep (drop (m (c # cs) - 1) cs))"
  by pat_completeness auto
termination by (relation "measure (\<lambda>(m, rep, s). length s)") auto

definition is_hex :: "char \<Rightarrow> bool" where
  "is_hex c \<longleftrightarrow> (let n = (of_char c :: nat) in (48 \<le> n \<and> n \<le> 57) \<or> (97 \<le> n \<and> n \<le> 102) \<or> (65 \<le> n \<and> n \<le> 70))"

text \<open>The shape of a UUID: five runs of hexadecimal digits; a dash at the positions 8, 13, 18 and 23.\<close>

definition reFingerprintUUID :: "string \<Rightarrow> nat" where
  "reFingerprintUUID s =
     (if length s \<ge> 36 \<and> (\<forall>i < 36. if i \<in> {8, 13, 18, 23} then s ! i = CHR ''-'' else is_hex (s ! i)) then 36 else 0)"

definition reFingerprintHex :: "string \<Rightarrow> nat" where
  "reFingerprintHex s = (case s of a # b # t \<Rightarrow>
     if a = CHR ''0'' \<and> b = CHR ''x'' \<and> takeWhile is_hex t \<noteq> [] then 2 + length (takeWhile is_hex t) else 0 | _ \<Rightarrow> 0)"

definition reFingerprintNum :: "string \<Rightarrow> nat" where
  "reFingerprintNum s = length (takeWhile is_digit s)"

text \<open>In Go's regular expressions the class \<open>\s\<close> leaves the vertical tab out.\<close>

definition re_space :: "char \<Rightarrow> bool" where
  "re_space c \<longleftrightarrow> is_space c \<and> (of_char c :: nat) \<noteq> 11"

definition reFingerprintWS :: "string \<Rightarrow> nat" where
  "reFingerprintWS s = length (takeWhile re_space s)"

definition fingerprintMessage :: "string \<Rightarrow> string" where
  "fingerprintMessage msg =
     (let s1 = to_lower (trim_space msg);
          s2 = replace_all reFingerprintUUID ''<id>'' s1;
          s3 = replace_all reFingerprintHex ''<hex>'' s2;
          s4 = replace_all reFingerprintNum ''#'' s3;
          s5 = replace_all reFingerprintWS '' '' s4
      in trim_space s5)"

text \<open>An alert as stored and listed: the alert of the topic with its other columns and the computed flag.\<close>

record stored_alert = Alert +
  al_LogEntryID :: string
  al_TraceID :: string
  al_CreatedAt :: int
  al_Silenced :: bool

definition GroupKey :: "stored_alert \<Rightarrow> string" where
  "GroupKey a = al_ServiceName a @ CHR 0x1F # al_Level a @ CHR 0x1F # fingerprintMessage (al_Message a)"

record AlertGroup =
  ag_Key :: string
  ag_Service :: string
  ag_Level :: string
  ag_Sample :: string
  ag_SampleID :: string
  ag_Count :: int
  ag_FirstSeen :: int
  ag_LastSeen :: int
  ag_Instances :: "stored_alert list"

definition new_group :: "stored_alert \<Rightarrow> AlertGroup" where
  "new_group a = \<lparr>ag_Key = GroupKey a, ag_Service = al_ServiceName a, ag_Level = al_Level a, ag_Sample = al_Message a,
     ag_SampleID = al_ID a, ag_Count = 0, ag_FirstSeen = al_TriggeredAt a, ag_LastSeen = al_TriggeredAt a, ag_Instances = []\<rparr>"

definition add_to_group :: "stored_alert \<Rightarrow> AlertGroup \<Rightarrow> AlertGroup" where
  "add_to_group a g0 =
     (let g1 = g0\<lparr>ag_Count := ag_Count g0 + 1, ag_Instances := ag_Instances g0 @ [a]\<rparr>;
          g2 = (if al_TriggeredAt a < ag_FirstSeen g1 then g1\<lparr>ag_FirstSeen := al_TriggeredAt a\<rparr> else g1)
      in if ag_LastSeen g2 < al_TriggeredAt a
         then g2\<lparr>ag_LastSeen := al_TriggeredAt a, ag_Sample := al_Message a, ag_SampleID := al_ID a\<rparr> else g2)"

text \<open>The loop over the alerts: the map and the order in which its keys appeared; \<open>None\<close> is a nil alert.\<close>

definition group_step ::
  "stored_alert option \<Rightarrow> (string, AlertGroup) gomap \<times> string list \<Rightarrow> (string, AlertGroup) gomap \<times> string list" where
  "group_step x st = (case x of None \<Rightarrow> st
   | Some a \<Rightarrow> (case st of (byKey, order) \<Rightarrow> (let k = GroupKey a in
       case map_of byKey k of
         None \<Rightarrow> (AList.update k (add_to_group a (new_group a)) byKey, order @ [k])
       | Some g \<Rightarrow> (AList.update k (add_to_group a g) byKey, order))))"

definition group_less :: "AlertGroup \<Rightarrow> AlertGroup \<Rightarrow> bool" where
  "group_less g h \<longleftrightarrow> (if ag_LastSeen g \<noteq> ag_LastSeen h then ag_LastSeen h < ag_LastSeen g else ag_Count h < ag_Count g)"

definition GroupAlerts :: "stored_alert option list \<Rightarrow> AlertGroup list" where
  "GroupAlerts alerts = (case fold group_step alerts ([], []) of (byKey, order) \<Rightarrow>
     stable_sort group_less (map (\<lambda>k. the (map_of byKey k)) order))"

section \<open>Silences\<close>

record SilenceMatcher =
  sm_Service :: string
  sm_Level :: string
  sm_MessageContains :: string

record AlertSilence =
  sl_ID :: string
  sl_TenantID :: string
  sl_Matcher :: SilenceMatcher
  sl_StartsAt :: int
  sl_EndsAt :: int
  sl_CreatedBy :: string
  sl_CreatedAt :: int

definition silenceMatches :: "AlertSilence \<Rightarrow> 'a Alert_scheme \<Rightarrow> int \<Rightarrow> bool" where
  "silenceMatches s a now \<longleftrightarrow>
     (if now < sl_StartsAt s \<or> \<not> now < sl_EndsAt s then False
      else (let m = sl_Matcher s in
        if sm_Service m \<noteq> [] \<and> sm_Service m \<noteq> al_ServiceName a then False
        else if sm_Level m \<noteq> [] \<and> to_lower (sm_Level m) \<noteq> to_lower (al_Level a) then False
        else if sm_MessageContains m \<noteq> [] \<and> \<not> contains (to_lower (sm_MessageContains m)) (to_lower (al_Message a)) then False
        else True))"

definition anySilenceMatches :: "AlertSilence list \<Rightarrow> 'a Alert_scheme \<Rightarrow> int \<Rightarrow> bool" where
  "anySilenceMatches silences a now \<longleftrightarrow> (\<exists>s \<in> set silences. silenceMatches s a now)"

subsection \<open>The silence table\<close>

definition silence_Insert :: "bool \<Rightarrow> string \<Rightarrow> int \<Rightarrow> AlertSilence \<Rightarrow> AlertSilence list \<Rightarrow> AlertSilence option \<times> AlertSilence list" where
  "silence_Insert ok i now s rows = (if \<not> ok then (None, rows)
     else (let row = s\<lparr>sl_ID := i, sl_CreatedAt := now\<rparr> in (Some row, rows @ [row])))"

definition ListForTenant :: "string \<Rightarrow> AlertSilence list \<Rightarrow> AlertSilence list" where
  "ListForTenant tenant rows = stable_sort (\<lambda>a b. sl_CreatedAt b < sl_CreatedAt a) (filter (\<lambda>s. sl_TenantID s = tenant) rows)"

definition ActiveForTenant :: "string \<Rightarrow> int \<Rightarrow> AlertSilence list \<Rightarrow> AlertSilence list" where
  "ActiveForTenant tenant now rows = filter (\<lambda>s. sl_TenantID s = tenant \<and> sl_StartsAt s \<le> now \<and> now < sl_EndsAt s) rows"

definition silence_Remove :: "bool \<Rightarrow> string \<Rightarrow> string \<Rightarrow> AlertSilence list \<Rightarrow> bool \<times> AlertSilence list" where
  "silence_Remove ok tenant i rows = (if \<not> ok then (False, rows)
     else (let keep = filter (\<lambda>s. \<not> (sl_ID s = i \<and> sl_TenantID s = tenant)) rows in (length keep < length rows, keep)))"

subsection \<open>The silence handlers\<close>

definition silence_List :: "bool \<Rightarrow> http_req \<Rightarrow> AlertSilence list \<Rightarrow> int \<times> AlertSilence list" where
  "silence_List ok r rows = (if ok then (200, ListForTenant (tenantOf r) rows) else (500, []))"

definition silence_Create ::
  "bool \<Rightarrow> int \<Rightarrow> string \<Rightarrow> int \<Rightarrow> http_req \<Rightarrow> AlertSilence option \<Rightarrow> AlertSilence list \<Rightarrow> int \<times> AlertSilence list" where
  "silence_Create ok now i dbnow r body rows = (case body of None \<Rightarrow> (400, rows)
   | Some req0 \<Rightarrow>
       (let req = (if sl_StartsAt req0 = zero_time then req0\<lparr>sl_StartsAt := now\<rparr> else req0)
        in if \<not> sl_StartsAt req < sl_EndsAt req then (400, rows)
           else (case silence_Insert ok i dbnow (req\<lparr>sl_TenantID := tenantOf r\<rparr>) rows of
                   (None, rows1) \<Rightarrow> (500, rows1) | (Some _, rows1) \<Rightarrow> (201, rows1))))"

definition silence_Delete :: "bool \<Rightarrow> http_req \<Rightarrow> string \<Rightarrow> AlertSilence list \<Rightarrow> int \<times> AlertSilence list" where
  "silence_Delete ok r i rows = (if i = [] then (400, rows)
     else case silence_Remove ok (tenantOf r) i rows of (found, rows1) \<Rightarrow> (if found then 200 else 404, rows1))"

text \<open>\<open>annotateSilenced\<close>: the silence table is \<open>None\<close> when it is not attached; \<open>now1\<close> and \<open>now2\<close> are the two
  readings of the clock.\<close>

fun annotate_loop :: "AlertSilence list \<Rightarrow> int \<Rightarrow> bool \<Rightarrow> stored_alert list \<Rightarrow> stored_alert list" where
  "annotate_loop silences now hide [] = []"
| "annotate_loop silences now hide (a # as) =
     (if anySilenceMatches silences a now
      then (if hide then annotate_loop silences now hide as else a\<lparr>al_Silenced := True\<rparr> # annotate_loop silences now hide as)
      else a # annotate_loop silences now hide as)"

definition annotateSilenced ::
  "bool \<Rightarrow> int \<Rightarrow> int \<Rightarrow> AlertSilence list option \<Rightarrow> string \<Rightarrow> stored_alert list \<Rightarrow> bool \<Rightarrow> stored_alert list" where
  "annotateSilenced ok now1 now2 repo tenant alerts hide = (case repo of None \<Rightarrow> alerts
   | Some rows \<Rightarrow>
       if alerts = [] \<or> \<not> ok then alerts
       else (let silences = ActiveForTenant tenant now1 rows
             in if silences = [] then alerts else annotate_loop silences now2 hide alerts))"

section \<open>The alert table\<close>

record LogEntry =
  le_ID :: string
  le_TenantID :: string
  le_ServiceName :: string
  le_Level :: string
  le_Message :: string
  le_TraceID :: string
  le_Timestamp :: int

definition alert_Insert :: "bool \<Rightarrow> string \<Rightarrow> int \<Rightarrow> LogEntry \<Rightarrow> stored_alert list \<Rightarrow> stored_alert option \<times> stored_alert list" where
  "alert_Insert ok uuid now e rows =
     (let a = \<lparr>al_TenantID = le_TenantID e, al_ID = uuid, al_ServiceName = le_ServiceName e, al_Level = le_Level e,
            al_Message = le_Message e, al_TriggeredAt = le_Timestamp e, al_LogEntryID = le_ID e, al_TraceID = le_TraceID e,
            al_CreatedAt = now, al_Silenced = False\<rparr>
      in if ok \<and> uuid \<notin> al_ID ` set rows then (Some a, rows @ [a]) else (None, rows))"

record AlertQueryParams =
  aq_TenantID :: string
  aq_ServiceName :: string
  aq_Level :: string
  aq_From :: string
  aq_To :: string
  aq_Page :: int
  aq_PageSize :: int

definition alert_where :: "AlertQueryParams \<Rightarrow> stored_alert \<Rightarrow> bool" where
  "alert_where p a \<longleftrightarrow>
     (aq_TenantID p \<noteq> [] \<longrightarrow> al_TenantID a = aq_TenantID p) \<and> (aq_ServiceName p \<noteq> [] \<longrightarrow> al_ServiceName a = aq_ServiceName p) \<and>
     (aq_Level p \<noteq> [] \<longrightarrow> al_Level a = aq_Level p) \<and>
     (case parse_rfc3339 (aq_From p) of Some t \<Rightarrow> aq_From p \<noteq> [] \<longrightarrow> t \<le> al_TriggeredAt a | None \<Rightarrow> True) \<and>
     (case parse_rfc3339 (aq_To p) of Some t \<Rightarrow> aq_To p \<noteq> [] \<longrightarrow> al_TriggeredAt a \<le> t | None \<Rightarrow> True)"

record QueryResult =
  qr_Alerts :: "stored_alert list"
  qr_Total :: int
  qr_Page :: int
  qr_PageSize :: int

text \<open>\<open>Query\<close>; \<open>(page - 1) * pageSize\<close> is a signed 64-bit product and a negative \<open>OFFSET\<close> is an error of the
  database. Rows of the same instant come in the order \<open>rows\<close> has them.\<close>

definition wrap64 :: "int \<Rightarrow> int" where
  "wrap64 n = (n + 2 ^ 63) mod 2 ^ 64 - 2 ^ 63"

definition alert_Query :: "bool \<Rightarrow> AlertQueryParams \<Rightarrow> stored_alert list \<Rightarrow> QueryResult option" where
  "alert_Query ok p rows =
     (let page = (if aq_Page p < 1 then 1 else aq_Page p);
          pageSize = (if aq_PageSize p < 1 \<or> aq_PageSize p > 200 then 50 else aq_PageSize p);
          offset = wrap64 ((page - 1) * pageSize);
          hits = filter (alert_where p) rows;
          ordered = stable_sort (\<lambda>a b. al_TriggeredAt b < al_TriggeredAt a) hits
      in if \<not> ok \<or> offset < 0 then None
         else Some \<lparr>qr_Alerts = take (nat pageSize) (drop (nat offset) ordered), qr_Total = int (length hits), qr_Page = page,
                qr_PageSize = pageSize\<rparr>)"

definition alert_GetByIDForTenant :: "bool \<Rightarrow> string \<Rightarrow> string \<Rightarrow> stored_alert list \<Rightarrow> stored_alert option" where
  "alert_GetByIDForTenant ok tenant i rows = (if ok then find (\<lambda>a. al_ID a = i \<and> al_TenantID a = tenant) rows else None)"

definition alert_GetByID :: "bool \<Rightarrow> string \<Rightarrow> stored_alert list \<Rightarrow> stored_alert option" where
  "alert_GetByID ok i rows = (if ok then find (\<lambda>a. al_ID a = i) rows else None)"

text \<open>\<open>math.Ceil\<close> of the quotient, exact below 2^53.\<close>

definition TotalPages :: "int \<Rightarrow> int \<Rightarrow> int" where
  "TotalPages n pageSize = - ((- n) div pageSize)"

section \<open>The handlers\<close>

text \<open>\<open>strconv.Atoi\<close> leaves the field at 0 when the text is no number.\<close>

definition atoi_or_zero :: "string \<Rightarrow> int" where
  "atoi_or_zero s = (case parse_int64 s of Some n \<Rightarrow> n | None \<Rightarrow> 0)"

datatype alert_listing = ListError | Grouped "AlertGroup list" | Page "stored_alert list" int int int int

definition ListAlerts ::
  "bool \<Rightarrow> bool \<Rightarrow> int \<Rightarrow> int \<Rightarrow> http_req \<Rightarrow> (string \<Rightarrow> string) \<Rightarrow> AlertSilence list option \<Rightarrow> stored_alert list \<Rightarrow> alert_listing" where
  "ListAlerts ok sil_ok now1 now2 r q repo rows =
     (let params = \<lparr>aq_TenantID = tenantOf r, aq_ServiceName = q ''service'', aq_Level = q ''level'', aq_From = q ''from'',
            aq_To = q ''to'', aq_Page = atoi_or_zero (q ''page''), aq_PageSize = atoi_or_zero (q ''page_size'')\<rparr>;
          hide = (q ''include_silenced'' = ''false'')
      in if q ''group'' = ''true''
         then (case alert_Query ok (params\<lparr>aq_Page := 1, aq_PageSize := 200\<rparr>) rows of None \<Rightarrow> ListError
               | Some res \<Rightarrow> Grouped (GroupAlerts (map Some (annotateSilenced sil_ok now1 now2 repo (tenantOf r) (qr_Alerts res) hide))))
         else (case alert_Query ok params rows of None \<Rightarrow> ListError
               | Some res \<Rightarrow> Page (annotateSilenced sil_ok now1 now2 repo (tenantOf r) (qr_Alerts res) hide)
                   (qr_Page res) (qr_PageSize res) (qr_Total res) (TotalPages (qr_Total res) (qr_PageSize res))))"

definition GetAlert :: "bool \<Rightarrow> http_req \<Rightarrow> string \<Rightarrow> stored_alert list \<Rightarrow> int \<times> stored_alert option" where
  "GetAlert ok r i rows = (if i = [] then (400, None)
     else case alert_GetByIDForTenant ok (tenantOf r) i rows of None \<Rightarrow> (404, None) | Some a \<Rightarrow> (200, Some a))"

section \<open>The consumer\<close>

definition alertLevels :: "string list" where "alertLevels = [''ERROR'', ''FATAL'']"

text \<open>A message is \<open>None\<close> when it does not decode. The result says whether the handler returned an error; the
  published alerts are what the goroutine sends when a bus is attached and it accepts the message.\<close>

record alert_service =
  as_alerts :: "stored_alert list"
  as_silences :: "AlertSilence list"
  as_published :: "Alert list"
  as_kept :: "string list"

definition alert_of :: "stored_alert \<Rightarrow> Alert" where
  "alert_of a = \<lparr>al_TenantID = al_TenantID a, al_ID = al_ID a, al_ServiceName = al_ServiceName a, al_Level = al_Level a,
     al_Message = al_Message a, al_TriggeredAt = al_TriggeredAt a\<rparr>"

definition log_Handle :: "bool \<Rightarrow> string \<Rightarrow> int \<Rightarrow> bool \<Rightarrow> LogEntry option \<Rightarrow> alert_service \<Rightarrow> bool \<times> alert_service" where
  "log_Handle ok uuid now bus_ok msg s = (case msg of None \<Rightarrow> (True, s)
   | Some e \<Rightarrow>
       if le_Level e \<notin> set alertLevels then (True, s)
       else (case alert_Insert ok uuid now e (as_alerts s) of
           (None, rows) \<Rightarrow> (False, s\<lparr>as_alerts := rows\<rparr>)
         | (Some a, rows) \<Rightarrow>
             (True, s\<lparr>as_alerts := rows, as_kept := (if le_Level e = ''FATAL'' then as_kept s @ [al_ID a] else as_kept s),
                as_published := (if bus_ok then as_published s @ [alert_of a] else as_published s)\<rparr>)))"

section \<open>Lemmas on grouping\<close>

text \<open>What a group says of the alerts \<open>ys\<close> it collapses.\<close>

definition group_ok :: "string \<Rightarrow> stored_alert list \<Rightarrow> AlertGroup \<Rightarrow> bool" where
  "group_ok k ys g \<longleftrightarrow> ys \<noteq> [] \<and> ag_Key g = k \<and> ag_Instances g = ys \<and> ag_Count g = int (length ys) \<and>
     ag_FirstSeen g = Min (al_TriggeredAt ` set ys) \<and> ag_LastSeen g = Max (al_TriggeredAt ` set ys) \<and>
     (\<exists>a \<in> set ys. al_TriggeredAt a = ag_LastSeen g \<and> ag_Sample g = al_Message a \<and> ag_SampleID g = al_ID a)"

lemma group_ok_new: "group_ok (GroupKey a) [a] (add_to_group a (new_group a))"
  by (simp add: group_ok_def add_to_group_def new_group_def Let_def)

lemma group_ok_add:
  assumes "group_ok k ys g"
  shows "group_ok k (ys @ [a]) (add_to_group a g)"
proof -
  let ?T = "al_TriggeredAt ` set ys"
  have ne: "?T \<noteq> {}" "finite ?T" using assms by (auto simp: group_ok_def)
  have mm: "Min (insert (al_TriggeredAt a) ?T) = min (al_TriggeredAt a) (Min ?T)" "Max (insert (al_TriggeredAt a) ?T) = max (al_TriggeredAt a) (Max ?T)"
    using ne by simp_all
  have g: "ag_FirstSeen g = Min ?T" "ag_LastSeen g = Max ?T" "ag_FirstSeen g \<le> ag_LastSeen g" using assms ne by (simp_all add: group_ok_def)
  have "ag_FirstSeen (add_to_group a g) = min (al_TriggeredAt a) (ag_FirstSeen g)"
    "ag_LastSeen (add_to_group a g) = max (al_TriggeredAt a) (ag_LastSeen g)"
    using g(3) by (auto simp: add_to_group_def Let_def)
  then have seen: "ag_FirstSeen (add_to_group a g) = Min (al_TriggeredAt ` set (ys @ [a]))"
    "ag_LastSeen (add_to_group a g) = Max (al_TriggeredAt ` set (ys @ [a]))" using mm g by simp_all
  have rest: "ag_Key (add_to_group a g) = ag_Key g" "ag_Instances (add_to_group a g) = ag_Instances g @ [a]"
    "ag_Count (add_to_group a g) = ag_Count g + 1" by (simp_all add: add_to_group_def Let_def)
  obtain b where b: "b \<in> set ys" "al_TriggeredAt b = ag_LastSeen g" "ag_Sample g = al_Message b" "ag_SampleID g = al_ID b"
    using assms by (auto simp: group_ok_def)
  have "\<exists>x \<in> set (ys @ [a]). al_TriggeredAt x = ag_LastSeen (add_to_group a g) \<and> ag_Sample (add_to_group a g) = al_Message x
      \<and> ag_SampleID (add_to_group a g) = al_ID x"
  proof (cases "ag_LastSeen g < al_TriggeredAt a")
    case True
    then show ?thesis by (simp add: add_to_group_def Let_def)
  next
    case False
    then show ?thesis using b by (intro bexI [of _ b]) (simp_all add: add_to_group_def Let_def)
  qed
  then show ?thesis using assms seen rest by (simp add: group_ok_def)
qed

definition members :: "string \<Rightarrow> stored_alert list \<Rightarrow> stored_alert list" where
  "members k xs = filter (\<lambda>a. GroupKey a = k) xs"

definition groups_inv :: "stored_alert list \<Rightarrow> (string, AlertGroup) gomap \<times> string list \<Rightarrow> bool" where
  "groups_inv xs st \<longleftrightarrow> (case st of (byKey, order) \<Rightarrow> distinct order \<and> set order = GroupKey ` set xs \<and>
     (\<forall>k. if k \<in> set order then \<exists>g. map_of byKey k = Some g \<and> group_ok k (members k xs) g else map_of byKey k = None))"

lemma groups_inv_step:
  assumes "groups_inv xs st"
  shows "groups_inv (xs @ [a]) (group_step (Some a) st)"
proof -
  obtain byKey order where st: "st = (byKey, order)" by fastforce
  have i: "distinct order" "set order = GroupKey ` set xs"
    "\<And>k. k \<in> set order \<Longrightarrow> \<exists>g. map_of byKey k = Some g \<and> group_ok k (members k xs) g" "\<And>k. k \<notin> set order \<Longrightarrow> map_of byKey k = None"
    using assms by (auto simp: groups_inv_def st split: if_splits)
  have upd: "map_of (AList.update k v m) j = (if j = k then Some v else map_of m j)" for k j :: string and v :: AlertGroup and m
    by (simp add: update_conv')
  show ?thesis
  proof (cases "GroupKey a \<in> set order")
    case True
    then obtain g where g: "map_of byKey (GroupKey a) = Some g" "group_ok (GroupKey a) (members (GroupKey a) xs) g" using i(3) by blast
    show ?thesis using i True g group_ok_add [OF g(2), of a]
      by (auto simp: groups_inv_def st group_step_def Let_def upd members_def)
  next
    case False
    then have n: "map_of byKey (GroupKey a) = None" "members (GroupKey a) xs = []"
      using i(2) i(4) [OF False] by (auto simp: members_def filter_empty_conv image_iff)
    show ?thesis using i False n group_ok_new [of a]
      by (auto simp: groups_inv_def st group_step_def Let_def upd members_def)
  qed
qed

definition alerts_of :: "stored_alert option list \<Rightarrow> stored_alert list" where
  "alerts_of xs = List.map_filter (\<lambda>x. x) xs"

lemma groups_inv_fold: "groups_inv ys st \<Longrightarrow> groups_inv (ys @ alerts_of xs) (fold group_step xs st)"
proof (induction xs arbitrary: ys st)
  case Nil
  then show ?case by (simp add: alerts_of_def map_filter_def)
next
  case (Cons x xs)
  show ?case
  proof (cases x)
    case None
    then show ?thesis using Cons by (simp add: group_step_def alerts_of_def map_filter_def)
  next
    case (Some a)
    then show ?thesis using Cons.IH [OF groups_inv_step [OF Cons.prems, of a]] by (simp add: alerts_of_def map_filter_def)
  qed
qed

lemma GroupAlerts_classes:
  "\<exists>order byKey. distinct order \<and> set order = GroupKey ` set (alerts_of alerts) \<and>
     (\<forall>k \<in> set order. group_ok k (members k (alerts_of alerts)) (the (map_of byKey k))) \<and>
     GroupAlerts alerts = stable_sort group_less (map (\<lambda>k. the (map_of byKey k)) order)"
proof -
  obtain byKey order where f: "fold group_step alerts ([], []) = (byKey, order)" by fastforce
  have "groups_inv (alerts_of alerts) (byKey, order)"
    using groups_inv_fold [of "[]" "([], [])" alerts] f by (simp add: groups_inv_def)
  then have "distinct order \<and> set order = GroupKey ` set (alerts_of alerts) \<and>
     (\<forall>k \<in> set order. group_ok k (members k (alerts_of alerts)) (the (map_of byKey k)))"
    by (auto simp: groups_inv_def split: if_splits) (metis image_eqI option.sel)
  moreover have "GroupAlerts alerts = stable_sort group_less (map (\<lambda>k. the (map_of byKey k)) order)" by (simp add: GroupAlerts_def f)
  ultimately show ?thesis by blast
qed

lemma GroupAlerts_instances: "g \<in> set (GroupAlerts alerts) \<Longrightarrow> set (ag_Instances g) \<subseteq> set (alerts_of alerts)"
  using GroupAlerts_classes [of alerts] by (auto simp: group_ok_def members_def)

section \<open>Lemmas on fingerprints\<close>

text \<open>A matcher is blind past a character when a text followed by it matches as it does alone.\<close>

definition blind_past :: "(string \<Rightarrow> nat) \<Rightarrow> char \<Rightarrow> bool" where
  "blind_past m c \<longleftrightarrow> (\<forall>s t. m (s @ c # t) = m s) \<and> (\<forall>s. m s \<le> length s)"

lemma blind_pastD: "blind_past m c \<Longrightarrow> m (s @ c # t) = m s" "blind_past m c \<Longrightarrow> m s \<le> length s"
  by (auto simp: blind_past_def)

lemma replace_all_at:
  assumes "blind_past m c"
  shows "replace_all m rep (s @ c # t) = replace_all m rep s @ c # replace_all m rep t"
proof (induction "length s" arbitrary: s rule: less_induct)
  case less
  show ?case
  proof (cases s)
    case Nil
    have "m (c # t) = 0" using blind_pastD(1) [OF assms, of "[]" t] blind_pastD(2) [OF assms, of "[]"] by simp
    then show ?thesis using Nil by simp
  next
    case (Cons a u)
    have m: "m (a # u @ c # t) = m (a # u)" "m (a # u) \<le> Suc (length u)"
      using blind_pastD(1) [OF assms, of "a # u" t] blind_pastD(2) [OF assms, of "a # u"] by simp_all
    show ?thesis using less [of u] less [of "drop (m (a # u) - 1) u"] m by (simp add: Cons)
  qed
qed

lemma replace_all_id: "(\<And>s t. ds = s @ t \<Longrightarrow> m t = 0) \<Longrightarrow> replace_all m rep ds = ds"
proof (induction ds)
  case (Cons a ds)
  have "m (a # ds) = 0" using Cons.prems [of "[]"] by simp
  moreover have "replace_all m rep ds = ds" by (rule Cons.IH) (use Cons.prems [of "a # _"] in simp)
  ultimately show ?case by simp
qed simp

lemma replace_all_append_nil: "replace_all m rep s @ replace_all m rep [] = replace_all m rep s"
  by simp

lemma takeWhile_stop: "\<not> P c \<Longrightarrow> takeWhile P (s @ c # t) = takeWhile P s"
  by (induction s) auto

lemma uuid_blind:
  assumes "\<not> is_hex c" "c \<noteq> CHR ''-''"
  shows "blind_past reFingerprintUUID c"
proof -
  have "reFingerprintUUID (s @ c # t) = reFingerprintUUID s" for s t
  proof (cases "36 \<le> length s")
    case True
    then have "(s @ c # t) ! i = s ! i" if "i < 36" for i using that by (simp add: nth_append)
    then show ?thesis using True by (auto simp: reFingerprintUUID_def)
  next
    case False
    then have "(s @ c # t) ! length s = c" "length s < 36" by simp_all
    then have "\<exists>i < 36. \<not> (if i \<in> {8, 13, 18, 23} then (s @ c # t) ! i = CHR ''-'' else is_hex ((s @ c # t) ! i))"
      using assms by (intro exI [of _ "length s"]) simp
    then have "reFingerprintUUID (s @ c # t) = 0" unfolding reFingerprintUUID_def by meson
    then show ?thesis using False by (simp add: reFingerprintUUID_def)
  qed
  then show ?thesis by (simp add: blind_past_def reFingerprintUUID_def)
qed

lemma hex_blind:
  assumes "\<not> is_hex c" "c \<noteq> CHR ''x''"
  shows "blind_past reFingerprintHex c"
proof -
  have z: "c \<noteq> CHR ''0''" using assms(1) by (auto simp: is_hex_def)
  have "reFingerprintHex (s @ c # t) = reFingerprintHex s" for s t
    using assms z by (auto simp: reFingerprintHex_def takeWhile_stop split: list.split)
  moreover have "reFingerprintHex s \<le> length s" for s
    using length_takeWhile_le by (auto simp: reFingerprintHex_def split: list.split)
  ultimately show ?thesis by (simp add: blind_past_def)
qed

lemma num_blind: "\<not> is_digit c \<Longrightarrow> blind_past reFingerprintNum c"
  by (simp add: blind_past_def reFingerprintNum_def takeWhile_stop length_takeWhile_le)

lemma digit_hex: "is_digit c \<Longrightarrow> is_hex c \<and> c \<noteq> CHR ''x'' \<and> c \<noteq> CHR ''-'' \<and> \<not> is_space c"
  by (auto simp: is_digit_def char_digit_def is_hex_def is_space_def Let_def split: if_splits)

text \<open>A character that no pattern of the fingerprint but white space can contain.\<close>

definition neutral :: "char \<Rightarrow> bool" where
  "neutral c \<longleftrightarrow> \<not> is_hex c \<and> c \<notin> {CHR ''x'', CHR ''X'', CHR ''-''}"

lemma neutral_blind:
  assumes "neutral c"
  shows "blind_past reFingerprintUUID c" "blind_past reFingerprintHex c" "blind_past reFingerprintNum c"
  using assms digit_hex [of c] by (auto simp: neutral_def intro: uuid_blind hex_blind num_blind)

lemma neutral_lower: "neutral c \<Longrightarrow> neutral (lower_char c)"
proof -
  have "is_hex (lower_char c) \<longleftrightarrow> is_hex c" by (auto simp: is_hex_def lower_char_def Let_def)
  moreover have "lower_char c = CHR ''x'' \<Longrightarrow> c = CHR ''x'' \<or> c = CHR ''X''"
  proof -
    assume "lower_char c = CHR ''x''"
    then have "(of_char (lower_char c) :: nat) = 120" by simp
    then have "(of_char c :: nat) = 120 \<or> (of_char c :: nat) = 88" by (auto simp: lower_char_def Let_def split: if_splits)
    moreover have "(of_char (CHR ''x'') :: nat) = 120" "(of_char (CHR ''X'') :: nat) = 88" by simp_all
    ultimately show ?thesis by (metis of_char_eq_iff)
  qed
  moreover have "lower_char c = CHR ''-'' \<Longrightarrow> c = CHR ''-''"
  proof -
    assume l: "lower_char c = CHR ''-''"
    then have "(of_char (lower_char c) :: nat) = 45" by simp
    then have "lower_char c = c" by (auto simp: lower_char_def Let_def split: if_splits)
    then show ?thesis using l by simp
  qed
  moreover have "lower_char c \<noteq> CHR ''X''"
  proof
    assume "lower_char c = CHR ''X''"
    then have "(of_char (lower_char c) :: nat) = 88" by simp
    then show False by (auto simp: lower_char_def Let_def split: if_splits)
  qed
  ultimately show "neutral c \<Longrightarrow> neutral (lower_char c)" by (auto simp: neutral_def)
qed

definition edges :: "string \<Rightarrow> string \<Rightarrow> bool" where
  "edges P Q \<longleftrightarrow> (P = [] \<or> neutral (last P)) \<and> (Q = [] \<or> neutral (hd Q))"

lemma replace_all_middle:
  assumes "edges P Q" "\<And>c. neutral c \<Longrightarrow> blind_past m c"
  shows "replace_all m rep (P @ ds @ Q) = replace_all m rep P @ replace_all m rep ds @ replace_all m rep Q"
    and "edges (replace_all m rep P) (replace_all m rep Q)"
proof -
  have l: "replace_all m rep (P @ t) = replace_all m rep P @ replace_all m rep t" for t
  proof (cases "P = []")
    case False
    then have b: "blind_past m (last P)" "P = butlast P @ [last P]" using assms by (auto simp: edges_def)
    show ?thesis using replace_all_at [OF b(1), of rep "butlast P" t] replace_all_at [OF b(1), of rep "butlast P" "[]"] b(2)
      by (metis append.assoc append_Cons append_Nil replace_all.simps(1))
  qed simp
  have r: "replace_all m rep (ds @ Q) = replace_all m rep ds @ replace_all m rep Q"
  proof (cases Q)
    case (Cons d t)
    then have "blind_past m d" using assms by (auto simp: edges_def)
    from replace_all_at [OF this, of rep ds t] replace_all_at [OF this, of rep "[]" t] show ?thesis by (simp add: Cons)
  qed simp
  show "replace_all m rep (P @ ds @ Q) = replace_all m rep P @ replace_all m rep ds @ replace_all m rep Q"
    by (simp add: l r)
  have "replace_all m rep P = [] \<or> neutral (last (replace_all m rep P))"
  proof (cases "P = []")
    case False
    then have b: "blind_past m (last P)" "neutral (last P)" "P = butlast P @ [last P]" using assms by (auto simp: edges_def)
    have "replace_all m rep (butlast P @ [last P]) = replace_all m rep (butlast P) @ [last P]"
      using replace_all_at [OF b(1), of rep "butlast P" "[]"] by simp
    then show ?thesis using b(2,3) by (metis last_snoc)
  qed simp
  moreover have "replace_all m rep Q = [] \<or> neutral (hd (replace_all m rep Q))"
  proof (cases Q)
    case (Cons d t)
    then have b: "blind_past m d" "neutral d" using assms by (auto simp: edges_def)
    show ?thesis using replace_all_at [OF b(1), of rep "[]" t] b(2) by (simp add: Cons)
  qed simp
  ultimately show "edges (replace_all m rep P) (replace_all m rep Q)" by (simp add: edges_def)
qed

lemma digits_unmatched:
  assumes "list_all is_digit ds"
  shows "replace_all reFingerprintUUID rep ds = ds" "replace_all reFingerprintHex rep ds = ds"
proof -
  have d: "is_digit (t ! i)" if "ds = s @ t" "i < length t" for s t i using assms that by (auto simp: list_all_iff)
  have "reFingerprintUUID t = 0" if "ds = s @ t" for s t
  proof (rule ccontr)
    assume "reFingerprintUUID t \<noteq> 0"
    then have "36 \<le> length t" "t ! 8 = CHR ''-''" unfolding reFingerprintUUID_def by (auto split: if_splits)
    then show False using d [OF that, of 8] digit_hex by auto
  qed
  then show "replace_all reFingerprintUUID rep ds = ds" by (rule replace_all_id)
  have "reFingerprintHex t = 0" if "ds = s @ t" for s t
    using d [OF that, of 1] digit_hex [of "CHR ''x''"] by (auto simp: reFingerprintHex_def split: list.split)
  then show "replace_all reFingerprintHex rep ds = ds" by (rule replace_all_id)
qed

lemma digits_number: "list_all is_digit ds \<Longrightarrow> ds \<noteq> [] \<Longrightarrow> replace_all reFingerprintNum rep ds = rep"
  by (cases ds) (simp_all add: reFingerprintNum_def list_all_iff takeWhile_eq_all_conv [THEN iffD2])

lemma fingerprint_stages:
  assumes "edges P Q" "list_all is_digit ds" "ds \<noteq> []"
  shows "replace_all reFingerprintNum ''#'' (replace_all reFingerprintHex ''<hex>'' (replace_all reFingerprintUUID ''<id>'' (P @ ds @ Q)))
    = replace_all reFingerprintNum ''#'' (replace_all reFingerprintHex ''<hex>'' (replace_all reFingerprintUUID ''<id>'' P)) @ ''#'' @
      replace_all reFingerprintNum ''#'' (replace_all reFingerprintHex ''<hex>'' (replace_all reFingerprintUUID ''<id>'' Q))"
proof -
  note e1 = replace_all_middle [OF assms(1) neutral_blind(1)]
  note e2 = replace_all_middle [OF e1(2) neutral_blind(2)]
  note e3 = replace_all_middle [OF e2(2) neutral_blind(3)]
  show ?thesis by (simp only: e1(1) e2(1) e3(1) digits_unmatched [OF assms(2)] digits_number [OF assms(2,3)])
qed

lemma dropWhile_stop: "\<not> P (hd x) \<Longrightarrow> x \<noteq> [] \<Longrightarrow> dropWhile P (p @ x @ w) = dropWhile P p @ x @ w"
  by (induction p) (auto simp: neq_Nil_conv)

lemma trim_middle:
  assumes "list_all is_digit ds" "ds \<noteq> []"
  shows "trim_space (p @ ds @ q) = dropWhile is_space p @ ds @ rev (dropWhile is_space (rev q))"
proof -
  have ns: "\<not> is_space (hd ds)" "\<not> is_space (last ds)" using assms digit_hex by (auto simp: list_all_iff)
  have "dropWhile is_space (p @ ds @ q) = dropWhile is_space p @ ds @ q" using ns(1) assms(2) by (rule dropWhile_stop)
  moreover have "dropWhile is_space (rev q @ rev ds @ w) = dropWhile is_space (rev q) @ rev ds @ w" for w
    by (rule dropWhile_stop) (use ns(2) assms(2) in \<open>simp_all add: hd_rev\<close>)
  ultimately show ?thesis by (simp add: trim_space_def)
qed

lemma last_after_dropWhile: "dropWhile P xs \<noteq> [] \<Longrightarrow> last (dropWhile P xs) = last xs"
  by (metis last_append takeWhile_dropWhile_id)

lemma fingerprint_digits:
  assumes "edges p q" "list_all is_digit ds" "ds \<noteq> []" "list_all is_digit ds'" "ds' \<noteq> []"
  shows "fingerprintMessage (p @ ds @ q) = fingerprintMessage (p @ ds' @ q)"
proof -
  let ?P = "to_lower (dropWhile is_space p)" and ?Q = "to_lower (rev (dropWhile is_space (rev q)))"
  have low: "to_lower xs = xs" if "list_all is_digit xs" for xs
    using that by (induction xs) (auto simp: to_lower_def is_digit_def char_digit_def lower_char_def Let_def split: if_splits)
  have e: "edges ?P ?Q"
  proof -
    have "?P = [] \<or> last ?P = lower_char (last p)"
      by (cases "dropWhile is_space p = []") (simp_all add: to_lower_def last_map last_after_dropWhile)
    moreover have "?Q = [] \<or> hd ?Q = lower_char (hd q)"
      by (cases "dropWhile is_space (rev q) = []") (simp_all add: to_lower_def hd_map hd_rev last_after_dropWhile last_rev)
    moreover have "?P \<noteq> [] \<Longrightarrow> p \<noteq> []" "?Q \<noteq> [] \<Longrightarrow> q \<noteq> []" by (auto simp: to_lower_def)
    ultimately show ?thesis using assms(1) neutral_lower by (auto simp: edges_def simp del: to_lower_append)
  qed
  show ?thesis
    unfolding fingerprintMessage_def Let_def trim_middle [OF assms(2,3)] trim_middle [OF assms(4,5)] to_lower_append low [OF assms(2)] low [OF assms(4)]
      fingerprint_stages [OF e assms(2,3)] fingerprint_stages [OF e assms(4,5)] ..
qed

section \<open>Lemmas on silences\<close>

lemma active_matches:
  "anySilenceMatches (ActiveForTenant tenant now rows) a now \<longleftrightarrow> (\<exists>s \<in> set rows. sl_TenantID s = tenant \<and> silenceMatches s a now)"
proof -
  have "silenceMatches s a now \<Longrightarrow> sl_StartsAt s \<le> now \<and> now < sl_EndsAt s" for s by (simp add: silenceMatches_def split: if_splits)
  then show ?thesis by (auto simp: anySilenceMatches_def ActiveForTenant_def)
qed

lemma annotate_loop_keep: "annotate_loop S now False as = map (\<lambda>a. if anySilenceMatches S a now then a\<lparr>al_Silenced := True\<rparr> else a) as"
  by (induction as) auto

lemma annotate_loop_hide: "annotate_loop S now True as = filter (\<lambda>a. \<not> anySilenceMatches S a now) as"
  by (induction as) auto

lemma silenceMatches_alert_of: "silenceMatches s (alert_of a) now = silenceMatches s a now"
  by (simp add: silenceMatches_def alert_of_def)

lemma query_in_tenant: "alert_Query ok p rows = Some res \<Longrightarrow> aq_TenantID p = t \<Longrightarrow> t \<noteq> [] \<Longrightarrow> a \<in> set (qr_Alerts res) \<Longrightarrow> al_TenantID a = t"
  by (auto simp: alert_Query_def Let_def alert_where_def split: if_splits dest!: in_set_takeD in_set_dropD)

lemma annotate_in_tenant:
  assumes "a \<in> set (annotateSilenced ok n1 n2 repo t as hide)" "\<forall>b \<in> set as. al_TenantID b = t"
  shows "al_TenantID a = t"
proof -
  have "\<forall>b \<in> set xs. al_TenantID b = t \<Longrightarrow> a \<in> set (annotate_loop S n2 hide xs) \<Longrightarrow> al_TenantID a = t" for S xs
    by (induction xs) (auto split: if_splits)
  then show ?thesis using assms by (auto simp: annotateSilenced_def Let_def split: option.splits if_splits)
qed

lemma tenantOf_nonempty: "tenantOf r \<noteq> []"
  by (simp add: tenantOf_def defaultTenantID_def Let_def)

section \<open>Properties\<close>

text \<open>Grouping partitions the alerts: the groups are exactly the classes of equal keys, each holds its alerts
  in their order with their number, first and last time and the message and id of a latest one, and the
  list is ordered by last time and then by size.\<close>

theorem grouping_partitions_alerts:
  shows "distinct (map ag_Key (GroupAlerts alerts)) \<and> ag_Key ` set (GroupAlerts alerts) = GroupKey ` set (alerts_of alerts) \<and>
    (\<forall>g \<in> set (GroupAlerts alerts). group_ok (ag_Key g) (members (ag_Key g) (alerts_of alerts)) g) \<and>
    sorted_wrt (\<lambda>g h. \<not> group_less h g) (GroupAlerts alerts)"
proof -
  obtain order byKey where o: "distinct order" "set order = GroupKey ` set (alerts_of alerts)"
    "\<And>k. k \<in> set order \<Longrightarrow> group_ok k (members k (alerts_of alerts)) (the (map_of byKey k))"
    "GroupAlerts alerts = stable_sort group_less (map (\<lambda>k. the (map_of byKey k)) order)"
    using GroupAlerts_classes [of alerts] by blast
  have keys: "map ag_Key (map (\<lambda>k. the (map_of byKey k)) order) = order"
    unfolding map_map by (rule map_idI) (use o(3) in \<open>simp add: group_ok_def\<close>)
  have "sorted_wrt (\<lambda>g h. \<not> group_less h g) (GroupAlerts alerts)"
    unfolding o(4) by (rule sorted_stable_sort) (auto simp: group_less_def split: if_splits)
  moreover have "distinct (map ag_Key (GroupAlerts alerts))" unfolding o(4) distinct_map_stable_sort keys by (rule o(1))
  moreover have "ag_Key ` set (GroupAlerts alerts) = set order" unfolding o(4) set_stable_sort using keys by (metis set_map)
  moreover have "\<forall>g \<in> set (GroupAlerts alerts). group_ok (ag_Key g) (members (ag_Key g) (alerts_of alerts)) g"
  proof
    fix g assume "g \<in> set (GroupAlerts alerts)"
    then obtain k where k: "k \<in> set order" "g = the (map_of byKey k)" unfolding o(4) by auto
    then have ok: "group_ok k (members k (alerts_of alerts)) g" using o(3) by simp
    moreover have "ag_Key g = k" using ok by (simp add: group_ok_def)
    ultimately show "group_ok (ag_Key g) (members (ag_Key g) (alerts_of alerts)) g" by simp
  qed
  ultimately show ?thesis using o(2) by simp
qed

definition demo_alert :: "string \<Rightarrow> string \<Rightarrow> int \<Rightarrow> stored_alert" where
  "demo_alert i msg t = \<lparr>al_TenantID = ''acme'', al_ID = i, al_ServiceName = ''api'', al_Level = ''ERROR'', al_Message = msg,
     al_TriggeredAt = t, al_LogEntryID = [], al_TraceID = [], al_CreatedAt = 0, al_Silenced = False\<rparr>"

theorem grouping_partitions_alerts_witness:
  "\<forall>g \<in> set (GroupAlerts [Some (demo_alert ''1'' ''boom'' 5), None, Some (demo_alert ''2'' ''boom'' 3)]).
     ag_Count g = int (length (members (ag_Key g) [demo_alert ''1'' ''boom'' 5, demo_alert ''2'' ''boom'' 3]))"
  using grouping_partitions_alerts [of "[Some (demo_alert ''1'' ''boom'' 5), None, Some (demo_alert ''2'' ''boom'' 3)]"]
  by (simp add: group_ok_def alerts_of_def map_filter_def)

text \<open>Alerts that differ only in a number fall into one group: when a run of digits stands between characters
  that are no part of an identifier, replacing it by another run leaves the key as it is.\<close>

theorem numbers_do_not_split_groups:
  assumes "edges p q" "list_all is_digit ds" "ds \<noteq> []" "list_all is_digit ds'" "ds' \<noteq> []"
  shows "GroupKey (a\<lparr>al_Message := p @ ds @ q\<rparr>) = GroupKey (a\<lparr>al_Message := p @ ds' @ q\<rparr>)"
  using fingerprint_digits [OF assms] by (simp add: GroupKey_def)

theorem numbers_do_not_split_groups_witness:
  "GroupKey (demo_alert ''1'' ''timeout after 3200ms'' 5) = GroupKey (demo_alert ''1'' ''timeout after 51ms'' 5)"
  using numbers_do_not_split_groups [of "''timeout after ''" "''ms''" "''3200''" "''51''" "demo_alert ''1'' [] 5"]
  by (simp add: edges_def neutral_def is_hex_def is_digit_def char_digit_def demo_alert_def)

text \<open>A listing marks exactly the silenced alerts: those that an active silence of the tenant matches are
  flagged, or dropped when the caller hides them, and every other alert is listed as it is. Selecting the active
  silences in the database first makes no difference.\<close>

theorem listing_marks_silenced_alerts:
  "annotateSilenced True now now (Some rows) tenant alerts hide =
     (let silenced = (\<lambda>a. \<exists>s \<in> set rows. sl_TenantID s = tenant \<and> silenceMatches s a now)
      in if hide then filter (\<lambda>a. \<not> silenced a) alerts
         else map (\<lambda>a. if silenced a then a\<lparr>al_Silenced := True\<rparr> else a) alerts)"
proof -
  have none: "\<not> anySilenceMatches [] a now" for a :: stored_alert by (simp add: anySilenceMatches_def)
  show ?thesis
  proof (cases "ActiveForTenant tenant now rows = []")
    case True
    then have no: "(\<exists>s \<in> set rows. sl_TenantID s = tenant \<and> silenceMatches s a now) = False" for a :: stored_alert
      using active_matches [of tenant now rows a] none by simp
    show ?thesis unfolding no Let_def using True by (simp add: annotateSilenced_def)
  next
    case False
    then show ?thesis by (simp add: annotateSilenced_def Let_def annotate_loop_keep annotate_loop_hide active_matches)
  qed
qed

theorem listing_marks_silenced_alerts_witness:
  "annotateSilenced True 5 5 (Some []) ''acme'' [demo_alert ''1'' ''boom'' 5] True = [demo_alert ''1'' ''boom'' 5]"
  using listing_marks_silenced_alerts [of 5 "[]" "''acme''" "[demo_alert ''1'' ''boom'' 5]" True] by simp

text \<open>C11: a silence does not keep an alert from paging: an error log that an active silence of its tenant matches is
  stored, published to the correlation engine like any other, and the engine publishes a notification
  for it; only listings show that it was silenced.\<close>

theorem silenced_alert_still_notified:
  assumes "le_Level e \<in> set alertLevels" "uuid \<notin> al_ID ` set (as_alerts s)" "sil \<in> set (as_silences s)" "sl_TenantID sil = le_TenantID e"
    and "log_Handle True uuid now True (Some e) s = (acked, s')"
    and "silenceMatches sil (last (as_published s')) now"
    and "\<not> ce_fail E CUpsert" "\<not> ce_fail E CPublish"
  shows "\<exists>i. cs_published (snd (corr_Handle E (Some (last (as_published s'))) c)) = cs_published c @ [notify i (last (as_published s'))]
    \<and> al_ID (last (as_published s')) = uuid
    \<and> annotateSilenced True now now (Some (as_silences s')) (le_TenantID e) [last (as_alerts s')] True = []"
proof -
  define a where "a = last (as_alerts s')"
  have s': "as_published s' = as_published s @ [alert_of a]" "as_silences s' = as_silences s" "al_ID a = uuid"
    using assms(1,2,5) by (auto simp: log_Handle_def alert_Insert_def a_def Let_def)
  have "anySilenceMatches (ActiveForTenant (le_TenantID e) now (as_silences s)) a now"
    using assms(3,4,6) s'(1) by (auto simp: active_matches silenceMatches_alert_of)
  then have "annotateSilenced True now now (Some (as_silences s')) (le_TenantID e) [a] True = []"
    by (auto simp: annotateSilenced_def s'(2) anySilenceMatches_def Let_def)
  moreover have "\<exists>i. cs_published (snd (corr_Handle E (Some (alert_of a)) c)) = cs_published c @ [notify i (alert_of a)]"
  proof -
    obtain i where i: "correlate E (alert_of a) c = Upsert E i (alert_of a) c"
      by (cases "GetOpenByWindow E (candidate_services E (alert_of a)) (al_TriggeredAt (alert_of a) - correlationWindow) c")
        (simp_all add: correlate_def)
    from Upsert_ok [OF assms(7), of i "alert_of a" c] obtain row where
      u: "Upsert E i (alert_of a) c = (Inr (row\<lparr>inc_ServiceNames := []\<rparr>), c\<lparr>cs_store := (cs_store c)
          \<lparr>st_incidents := upsert_row (ce_now E) i (st_incidents (cs_store c))\<rparr>, cs_alerts := link_alert (inc_ID i) (alert_of a) (cs_alerts c)\<rparr>)"
      by blast
    show ?thesis using assms(8) by (auto simp: corr_Handle_def i u Let_def scheduleCausalAnalysis_def split: option.split)
  qed
  moreover have "al_ID (alert_of a) = uuid" using s'(3) by (simp add: alert_of_def)
  ultimately show ?thesis using s'(1) by (auto simp: a_def)
qed

definition demo_log :: LogEntry where
  "demo_log = \<lparr>le_ID = ''l1'', le_TenantID = ''acme'', le_ServiceName = ''api'', le_Level = ''FATAL'', le_Message = ''boom'', le_TraceID = [], le_Timestamp = 0\<rparr>"

definition demo_silence :: AlertSilence where
  "demo_silence = \<lparr>sl_ID = ''s1'', sl_TenantID = ''acme'', sl_Matcher = \<lparr>sm_Service = ''api'', sm_Level = [], sm_MessageContains = []\<rparr>,
     sl_StartsAt = 0, sl_EndsAt = 10, sl_CreatedBy = [], sl_CreatedAt = 0\<rparr>"

theorem silenced_alert_still_notified_witness:
  "let s' = snd (log_Handle True ''u1'' 5 True (Some demo_log) \<lparr>as_alerts = [], as_silences = [demo_silence], as_published = [], as_kept = []\<rparr>)
   in \<exists>i. cs_published (snd (corr_Handle sample_corr_env (Some (last (as_published s'))) corr_start)) = [notify i (last (as_published s'))]"
proof -
  let ?s = "\<lparr>as_alerts = [], as_silences = [demo_silence], as_published = [], as_kept = []\<rparr>"
  define s' where "s' = snd (log_Handle True ''u1'' 5 True (Some demo_log) ?s)"
  have h: "log_Handle True ''u1'' 5 True (Some demo_log) ?s = (True, s')"
    by (simp add: s'_def log_Handle_def alert_Insert_def demo_log_def alertLevels_def Let_def)
  have m: "silenceMatches demo_silence (last (as_published s')) 5"
    by (simp add: s'_def log_Handle_def alert_Insert_def demo_log_def alertLevels_def alert_of_def silenceMatches_def demo_silence_def Let_def)
  have "cs_published corr_start = []" by (simp add: corr_start_def)
  with silenced_alert_still_notified [OF _ _ _ _ h m, where E = sample_corr_env and c = corr_start]
  show ?thesis unfolding s'_def [symmetric] Let_def
    by (simp add: demo_log_def alertLevels_def demo_silence_def sample_corr_env_def)
qed

text \<open>A tenant's alerts stay its own: a listing in either form and a lookup by id return only rows of the
  caller's tenant.\<close>

theorem alerts_stay_in_tenant:
  shows "(case ListAlerts ok sil_ok n1 n2 r q repo rows of ListError \<Rightarrow> True
      | Grouped gs \<Rightarrow> (\<forall>g \<in> set gs. \<forall>a \<in> set (ag_Instances g). al_TenantID a = tenantOf r)
      | Page as _ _ _ _ \<Rightarrow> (\<forall>a \<in> set as. al_TenantID a = tenantOf r))
    \<and> (\<forall>a. GetAlert ok r i rows = (200, Some a) \<longrightarrow> al_TenantID a = tenantOf r)"
proof -
  let ?P = "\<lambda>as. \<forall>a \<in> set as. al_TenantID a = tenantOf r"
  have ann: "?P (annotateSilenced sil_ok n1 n2 repo (tenantOf r) (qr_Alerts res) hide)"
    if "alert_Query ok p rows = Some res" "aq_TenantID p = tenantOf r" for p res hide
    using annotate_in_tenant query_in_tenant [OF that tenantOf_nonempty] by blast
  have grp: "\<forall>g \<in> set (GroupAlerts (map Some as)). ?P (ag_Instances g)" if "?P as" for as
    using GroupAlerts_instances [of _ "map Some as"] that by (fastforce simp: alerts_of_def map_filter_def comp_def)
  have "GetAlert ok r i rows = (200, Some a) \<Longrightarrow> al_TenantID a = tenantOf r" for a
    by (auto simp: GetAlert_def alert_GetByIDForTenant_def find_Some_iff split: if_splits option.splits)
  moreover have "case ListAlerts ok sil_ok n1 n2 r q repo rows of ListError \<Rightarrow> True
      | Grouped gs \<Rightarrow> (\<forall>g \<in> set gs. ?P (ag_Instances g)) | Page as _ _ _ _ \<Rightarrow> ?P as"
    unfolding ListAlerts_def Let_def using ann grp [OF ann] by (simp split: option.split)
  ultimately show ?thesis by blast
qed

theorem alerts_stay_in_tenant_witness:
  "GetAlert True \<lparr>hr_Method = ''GET'', hr_Path = ''/'', hr_RawQuery = [], hr_Header = [(''X-Tenant-Id'', ''evil'')], hr_RemoteAddr = []\<rparr> ''1''
     [demo_alert ''1'' ''boom'' 5] \<noteq> (200, Some (demo_alert ''1'' ''boom'' 5))"
proof
  let ?r = "\<lparr>hr_Method = ''GET'', hr_Path = ''/'', hr_RawQuery = [], hr_Header = [(''X-Tenant-Id'', ''evil'')], hr_RemoteAddr = []\<rparr>"
  assume "GetAlert True ?r ''1'' [demo_alert ''1'' ''boom'' 5] = (200, Some (demo_alert ''1'' ''boom'' 5))"
  then have "al_TenantID (demo_alert ''1'' ''boom'' 5) = tenantOf ?r" using alerts_stay_in_tenant by blast
  moreover have "tenantOf ?r = ''evil''" by code_simp
  ultimately show False by (simp add: demo_alert_def)
qed

end
