(* ===== verification/Notifications.thy ===== *)
theory Notifications
  imports Alerts
begin

text \<open>
  The notification service: the channels a tenant configures
  (\<open>src/notification-service/internal/channels\<close>) with their secrets encrypted at rest, the delivery
  to each kind of channel, and the worker that fans an event out
  (\<open>internal/worker/notification_worker.go\<close>). What the network and the mail server answer is an
  argument; \<open>marshal\<close> is \<open>json.Marshal\<close> on the value that is encoded.
\<close>

section \<open>Channels\<close>

definition TypeSlack :: string where "TypeSlack = ''slack''"
definition TypeEmail :: string where "TypeEmail = ''email''"
definition TypePagerDuty :: string where "TypePagerDuty = ''pagerduty''"
definition TypeOpsgenie :: string where "TypeOpsgenie = ''opsgenie''"
definition TypeWebhook :: string where "TypeWebhook = ''webhook''"

lemmas channel_types = TypeSlack_def TypeEmail_def TypePagerDuty_def TypeOpsgenie_def TypeWebhook_def

definition secretKeys :: "(string, string list) gomap" where
  "secretKeys = [(TypeSlack, [''webhook_url'']), (TypeEmail, [''password'']), (TypePagerDuty, [''routing_key'']),
     (TypeOpsgenie, [''api_key'']), (TypeWebhook, [''url'', ''secret''])]"

definition requiredKeys :: "(string, string list) gomap" where
  "requiredKeys = [(TypeSlack, [''webhook_url'']), (TypeEmail, [''host'', ''to'']), (TypePagerDuty, [''routing_key'']),
     (TypeOpsgenie, [''api_key'']), (TypeWebhook, [''url''])]"

definition ValidType :: "string \<Rightarrow> bool" where
  "ValidType t \<longleftrightarrow> map_of secretKeys t \<noteq> None"

definition IsSecret :: "string \<Rightarrow> string \<Rightarrow> bool" where
  "IsSecret t k \<longleftrightarrow> (case map_of secretKeys t of None \<Rightarrow> False | Some ks \<Rightarrow> k \<in> set ks)"

type_synonym channel_config = "(string, string) gomap"

record Channel =
  ch_ID :: string
  ch_TenantID :: string
  ch_Name :: string
  ch_Type :: string
  ch_Config :: channel_config
  ch_Enabled :: bool
  ch_CreatedAt :: int
  ch_UpdatedAt :: int

definition cfg_get :: "channel_config \<Rightarrow> string \<Rightarrow> string" where
  "cfg_get cfg k = (case map_of cfg k of None \<Rightarrow> [] | Some v \<Rightarrow> v)"

definition MissingRequired :: "string \<Rightarrow> channel_config \<Rightarrow> string list" where
  "MissingRequired t cfg = (case map_of requiredKeys t of None \<Rightarrow> [] | Some ks \<Rightarrow> filter (\<lambda>k. cfg_get cfg k = []) ks)"

text \<open>\<open>Redacted\<close>: one assignment to the new map per entry of the old one.\<close>

definition redact_entry :: "string \<Rightarrow> string \<times> string \<Rightarrow> channel_config \<Rightarrow> channel_config" where
  "redact_entry t kv acc = (case kv of (k, v) \<Rightarrow>
     if IsSecret t k then (if v \<noteq> [] then AList.update (k @ ''_set'') ''true'' acc else acc) else AList.update k v acc)"

definition Redacted :: "Channel \<Rightarrow> Channel" where
  "Redacted c = c\<lparr>ch_Config := fold (redact_entry (ch_Type c)) (ch_Config c) []\<rparr>"

section \<open>Secrets\<close>

text \<open>\<open>vault\<close>: the cipher of \<open>CHANNEL_ENCRYPTION_KEY\<close>, \<open>None\<close> when it is not set or not usable, and base64.\<close>

record vault =
  va_aead :: "aead_cipher option"
  va_b64 :: "bytes \<Rightarrow> string"
  va_unb64 :: "string \<Rightarrow> bytes option"

definition decodeKey :: "(string \<Rightarrow> bytes option) \<Rightarrow> (string \<Rightarrow> bytes option) \<Rightarrow> (string \<Rightarrow> bytes) \<Rightarrow> string \<Rightarrow> bytes" where
  "decodeKey hex b64 sha256 raw = (case hex raw of Some b \<Rightarrow> if length b = 32 then b else
       (case b64 raw of Some b1 \<Rightarrow> if length b1 = 32 then b1 else sha256 raw | None \<Rightarrow> sha256 raw)
   | None \<Rightarrow> (case b64 raw of Some b1 \<Rightarrow> if length b1 = 32 then b1 else sha256 raw | None \<Rightarrow> sha256 raw))"

definition loadAEAD :: "(string \<Rightarrow> bytes) \<Rightarrow> (bytes \<Rightarrow> aead_cipher option) \<Rightarrow> string \<Rightarrow> aead_cipher option" where
  "loadAEAD decode_key new_gcm raw = (if raw = [] then None else new_gcm (decode_key raw))"

definition EncryptionConfigured :: "vault \<Rightarrow> bool" where
  "EncryptionConfigured V \<longleftrightarrow> va_aead V \<noteq> None"

definition Encrypt :: "vault \<Rightarrow> bytes option \<Rightarrow> string \<Rightarrow> string option" where
  "Encrypt V nonce plaintext = (case va_aead V of None \<Rightarrow> None
   | Some g \<Rightarrow> (case nonce of None \<Rightarrow> None | Some n \<Rightarrow> Some (va_b64 V (n @ gc_Seal g n (str_bytes plaintext)))))"

definition Decrypt :: "vault \<Rightarrow> string \<Rightarrow> string option" where
  "Decrypt V ciphertext = (case va_aead V of None \<Rightarrow> None
   | Some g \<Rightarrow> (case va_unb64 V ciphertext of None \<Rightarrow> None
     | Some raw \<Rightarrow> if length raw < gc_NonceSize g then None
         else map_option bytes_str (gc_Open g (take (gc_NonceSize g) raw) (drop (gc_NonceSize g) raw))))"

text \<open>\<open>encryptConfig\<close>: \<open>nonce k\<close> is what the random source yields for the key \<open>k\<close>.\<close>

fun encryptConfig :: "vault \<Rightarrow> (string \<Rightarrow> bytes option) \<Rightarrow> string \<Rightarrow> channel_config \<Rightarrow> channel_config option" where
  "encryptConfig V nonce t [] = Some []"
| "encryptConfig V nonce t ((k, v) # cfg) =
     (if IsSecret t k \<and> v \<noteq> []
      then (case Encrypt V (nonce k) v of None \<Rightarrow> None | Some e \<Rightarrow> map_option ((#) (k, e)) (encryptConfig V nonce t cfg))
      else map_option ((#) (k, v)) (encryptConfig V nonce t cfg))"

definition decryptConfig :: "vault \<Rightarrow> string \<Rightarrow> channel_config \<Rightarrow> channel_config" where
  "decryptConfig V t cfg = map (\<lambda>(k, v). (k, if IsSecret t k \<and> v \<noteq> [] then (case Decrypt V v of Some d \<Rightarrow> d | None \<Rightarrow> []) else v)) cfg"

section \<open>The channel table\<close>

datatype repo_error = RNotFound | RFailed

definition getDecrypted :: "vault \<Rightarrow> bool \<Rightarrow> string \<Rightarrow> string \<Rightarrow> Channel list \<Rightarrow> repo_error + Channel" where
  "getDecrypted V ok tenant i rows = (if \<not> ok then Inl RFailed
     else case find (\<lambda>c. ch_TenantID c = tenant \<and> ch_ID c = i) rows of None \<Rightarrow> Inl RNotFound
          | Some c \<Rightarrow> Inr (c\<lparr>ch_Config := decryptConfig V (ch_Type c) (ch_Config c)\<rparr>))"

text \<open>\<open>Create\<close> of the repository; the primary key is the drawn identifier.\<close>

definition repo_Create :: "vault \<Rightarrow> (string \<Rightarrow> bytes option) \<Rightarrow> bool \<Rightarrow> string \<Rightarrow> int \<Rightarrow> Channel \<Rightarrow> Channel list \<Rightarrow> Channel option \<times> Channel list" where
  "repo_Create V nonce ok uuid now c rows =
     (if \<not> EncryptionConfigured V then (None, rows)
      else case encryptConfig V nonce (ch_Type c) (ch_Config c) of None \<Rightarrow> (None, rows)
        | Some enc \<Rightarrow>
            if \<not> ok \<or> uuid \<in> ch_ID ` set rows then (None, rows)
            else (let c1 = c\<lparr>ch_ID := uuid, ch_CreatedAt := now, ch_UpdatedAt := now\<rparr>
                  in (Some c1, rows @ [c1\<lparr>ch_Config := enc\<rparr>])))"

definition merge_config :: "string \<Rightarrow> channel_config \<Rightarrow> channel_config \<Rightarrow> channel_config" where
  "merge_config t old cfg = fold (\<lambda>(k, v) m. if IsSecret t k \<and> v = [] then m else AList.update k v m) cfg old"

definition repo_Update ::
  "vault \<Rightarrow> (string \<Rightarrow> bytes option) \<Rightarrow> bool \<Rightarrow> bool \<Rightarrow> int \<Rightarrow> string \<Rightarrow> string \<Rightarrow> string \<Rightarrow> bool \<Rightarrow> channel_config \<Rightarrow> Channel list
    \<Rightarrow> (repo_error + Channel) \<times> Channel list" where
  "repo_Update V nonce ok1 ok2 now tenant i name enabled cfg rows =
     (case getDecrypted V ok1 tenant i rows of Inl e \<Rightarrow> (Inl e, rows)
      | Inr c \<Rightarrow>
          (let merged = merge_config (ch_Type c) (ch_Config c) cfg
           in case encryptConfig V nonce (ch_Type c) merged of None \<Rightarrow> (Inl RFailed, rows)
              | Some enc \<Rightarrow>
                  if \<not> ok2 then (Inl RFailed, rows)
                  else (Inr (c\<lparr>ch_Name := name, ch_Enabled := enabled, ch_Config := merged, ch_UpdatedAt := now\<rparr>),
                        map (\<lambda>r. if ch_TenantID r = tenant \<and> ch_ID r = i
                                 then r\<lparr>ch_Name := name, ch_Enabled := enabled, ch_Config := enc, ch_UpdatedAt := now\<rparr> else r) rows)))"

definition repo_Delete :: "bool \<Rightarrow> string \<Rightarrow> string \<Rightarrow> Channel list \<Rightarrow> (repo_error + unit) \<times> Channel list" where
  "repo_Delete ok tenant i rows =
     (if \<not> ok then (Inl RFailed, rows)
      else (let keep = filter (\<lambda>c. \<not> (ch_TenantID c = tenant \<and> ch_ID c = i)) rows
            in if length keep = length rows then (Inl RNotFound, rows) else (Inr (), keep)))"

definition scanChannels :: "vault \<Rightarrow> Channel list \<Rightarrow> Channel list" where
  "scanChannels V rows = map (\<lambda>c. c\<lparr>ch_Config := decryptConfig V (ch_Type c) (ch_Config c)\<rparr>) rows"

definition ListDecrypted :: "vault \<Rightarrow> bool \<Rightarrow> string \<Rightarrow> Channel list \<Rightarrow> Channel list option" where
  "ListDecrypted V ok tenant rows = (if \<not> ok then None
     else Some (scanChannels V (stable_sort (\<lambda>a b. ch_CreatedAt a < ch_CreatedAt b) (filter (\<lambda>c. ch_TenantID c = tenant \<and> ch_Enabled c) rows))))"

definition ListForAPI :: "vault \<Rightarrow> bool \<Rightarrow> string \<Rightarrow> Channel list \<Rightarrow> Channel list option" where
  "ListForAPI V ok tenant rows = (if \<not> ok then None
     else Some (map Redacted (scanChannels V (stable_sort (\<lambda>a b. ch_CreatedAt a < ch_CreatedAt b) (filter (\<lambda>c. ch_TenantID c = tenant) rows)))))"

section \<open>Deliveries\<close>

datatype json_value = JS string | JO "(string \<times> json_value) list" | JA "json_value list"

text \<open>An event as the workers receive it; the body of a webhook is the encoding of the whole event.\<close>

record notif_event = NotificationEvent +
  ne_ID :: string
  ne_CreatedAt :: string

definition IsResolved :: "notif_event \<Rightarrow> bool" where
  "IsResolved e \<longleftrightarrow> ne_Action e = Resolved"

record http_post =
  hp_url :: string
  hp_body :: json_value
  hp_headers :: "(string \<times> string) list"

record mail =
  ml_addr :: string
  ml_auth :: "(string \<times> string) option"
  ml_from :: string
  ml_to :: "string list"
  ml_msg :: string

datatype delivery_attempt = APost http_post | AMail mail

text \<open>\<open>nt_post\<close> is \<open>None\<close> when the request cannot be built or sent.\<close>

record network =
  nt_post :: "http_post \<Rightarrow> int option"
  nt_mail :: "mail \<Rightarrow> bool"
  nt_hmac :: "string \<Rightarrow> json_value \<Rightarrow> string"
  nt_event :: "notif_event \<Rightarrow> json_value"
  nt_escape :: "string \<Rightarrow> string"

definition crlf :: string where "crlf = [CHR 0x0D, CHR 0x0A]"

definition services_text :: "notif_event \<Rightarrow> string" where
  "services_text e = join_with '', '' (ne_Services e)"

definition label_of :: "notif_event \<Rightarrow> string" where
  "label_of e = (if IsResolved e then ''RESOLVED'' else to_upper (ne_Severity e))"

definition icon_of :: "notif_event \<Rightarrow> string" where
  "icon_of e = (if IsResolved e then '':white_check_mark:'' else '':rotating_light:'')"

definition truncate_to :: "string \<Rightarrow> nat \<Rightarrow> string" where
  "truncate_to s n = (if length s \<le> n then s else take n s)"

definition trim_slashes :: "string \<Rightarrow> string" where
  "trim_slashes s = rev (dropWhile (\<lambda>c. c = CHR ''/'') (rev s))"

text \<open>A post counts as delivered when it is answered with an accepted status. A delivery is the attempts made
  and whether it succeeded.\<close>

type_synonym outcome = "delivery_attempt list \<times> bool"

definition postJSON :: "network \<Rightarrow> http_post \<Rightarrow> (int \<Rightarrow> bool) \<Rightarrow> outcome" where
  "postJSON N p accepted = ([APost p], case nt_post N p of None \<Rightarrow> False | Some c \<Rightarrow> accepted c)"

definition pagerdutyEventsURL :: string where "pagerdutyEventsURL = ''https://events.pagerduty.com/v2/enqueue''"
definition opsgenieDefaultURL :: string where "opsgenieDefaultURL = ''https://api.opsgenie.com/v2/alerts''"

definition source_of :: "notif_event \<Rightarrow> string" where
  "source_of e = (case ne_Services e of [] \<Rightarrow> ''pulsetrace'' | s # _ \<Rightarrow> s)"

definition pagerduty_payload :: "string \<Rightarrow> (string \<Rightarrow> string) \<Rightarrow> notif_event \<Rightarrow> json_value" where
  "pagerduty_payload key severity e = JO ([(''routing_key'', JS key), (''event_action'', JS (if IsResolved e then ''resolve'' else ''trigger'')),
     (''dedup_key'', JS (ne_IncidentID e))] @
     (if IsResolved e then [] else [(''payload'', JO [(''summary'', JS (''['' @ to_upper (ne_Severity e) @ ''] '' @ ne_Title e)),
        (''source'', JS (source_of e)), (''severity'', JS (severity (ne_Severity e))),
        (''custom_details'', JO [(''incident_id'', JS (ne_IncidentID e)), (''services'', JS (services_text e)), (''body'', JS (ne_Body e))])])]))"

definition opsgenie_alert :: "(string \<Rightarrow> string) \<Rightarrow> notif_event \<Rightarrow> json_value" where
  "opsgenie_alert priority e = JO [(''message'', JS (truncate_to (ne_Title e) 130)), (''alias'', JS (ne_IncidentID e)),
     (''description'', JS (ne_Body e @ newline @ newline @ ''Services: '' @ services_text e @ newline @ ''Incident: '' @ ne_IncidentID e)),
     (''priority'', JS (priority (ne_Severity e))), (''tags'', JA (map JS (ne_Services e))), (''source'', JS ''pulsetrace'')]"

definition opsgenie_close_url :: "network \<Rightarrow> string \<Rightarrow> notif_event \<Rightarrow> string" where
  "opsgenie_close_url N base e = trim_slashes base @ ''/'' @ nt_escape N (ne_IncidentID e) @ ''/close?identifierType=alias''"

definition opsgenie_close_body :: "notif_event \<Rightarrow> json_value" where
  "opsgenie_close_body e = JO [(''source'', JS ''pulsetrace''), (''note'', JS (ne_Body e))]"

definition signature_headers :: "network \<Rightarrow> string \<Rightarrow> json_value \<Rightarrow> (string \<times> string) list" where
  "signature_headers N secret body = (if secret = [] then [] else [(''X-PulseTrace-Signature'', ''sha256='' @ nt_hmac N secret body)])"

subsection \<open>Channels of a tenant\<close>

definition splitList :: "string \<Rightarrow> string list" where
  "splitList s = filter (\<lambda>p. p \<noteq> []) (map trim_space (split_on CHR '','' s))"

definition pagerdutySeverity :: "string \<Rightarrow> string" where
  "pagerdutySeverity level = (if level \<in> {''FATAL'', ''ERROR''} then ''critical'' else if level = ''WARNING'' then ''warning'' else ''error'')"

definition opsgeniePriority :: "string \<Rightarrow> string" where
  "opsgeniePriority level = (if level = ''FATAL'' then ''P1'' else if level = ''ERROR'' then ''P2'' else if level = ''WARNING'' then ''P3'' else ''P4'')"

definition middle_dot :: string where "middle_dot = [CHR 0xC2, CHR 0xB7]"

definition deliverSlack :: "network \<Rightarrow> channel_config \<Rightarrow> notif_event \<Rightarrow> outcome" where
  "deliverSlack N cfg e = (if cfg_get cfg ''webhook_url'' = [] then ([], False)
     else postJSON N \<lparr>hp_url = cfg_get cfg ''webhook_url'', hp_body = JO [(''text'', JS (icon_of e @ '' *['' @ label_of e @ '']* '' @ ne_Title e @ newline @
          ne_Body e @ newline @ ''_Services: '' @ services_text e @ '' '' @ middle_dot @ '' Incident: '' @ ne_IncidentID e @ ''_''))], hp_headers = []\<rparr>
       (\<lambda>c. c = 200 \<or> c = 204))"

definition mail_headers :: "string \<Rightarrow> string list \<Rightarrow> notif_event \<Rightarrow> string" where
  "mail_headers from to e = ''From: '' @ from @ crlf @ ''To: '' @ join_with '', '' to @ crlf @
     ''Subject: [PulseTrace]['' @ label_of e @ ''] '' @ ne_Title e @ crlf @ ''Content-Type: text/plain; charset=UTF-8'' @ crlf @ crlf"

definition deliverEmail :: "network \<Rightarrow> channel_config \<Rightarrow> notif_event \<Rightarrow> outcome" where
  "deliverEmail N cfg e =
     (let host = cfg_get cfg ''host''; to = splitList (cfg_get cfg ''to'');
          port = (if cfg_get cfg ''port'' = [] then ''587'' else cfg_get cfg ''port'');
          from = (if cfg_get cfg ''from'' = [] then ''alerts@pulsetrace.local'' else cfg_get cfg ''from'');
          m = \<lparr>ml_addr = host @ '':'' @ port,
               ml_auth = (if cfg_get cfg ''username'' = [] then None else Some (cfg_get cfg ''username'', cfg_get cfg ''password'')),
               ml_from = from, ml_to = to,
               ml_msg = mail_headers from to e @ ne_Body e @ newline @ newline @ ''Services: '' @ services_text e @ newline @
                 ''Incident: '' @ ne_IncidentID e @ newline\<rparr>
      in if host = [] \<or> to = [] then ([], False) else ([AMail m], nt_mail N m))"

definition deliverPagerDuty :: "network \<Rightarrow> channel_config \<Rightarrow> notif_event \<Rightarrow> outcome" where
  "deliverPagerDuty N cfg e = (if cfg_get cfg ''routing_key'' = [] then ([], False)
     else postJSON N \<lparr>hp_url = (if cfg_get cfg ''url'' = [] then pagerdutyEventsURL else cfg_get cfg ''url''),
          hp_body = pagerduty_payload (cfg_get cfg ''routing_key'') pagerdutySeverity e, hp_headers = []\<rparr> (\<lambda>c. c = 202))"

definition deliverOpsgenie :: "network \<Rightarrow> channel_config \<Rightarrow> notif_event \<Rightarrow> outcome" where
  "deliverOpsgenie N cfg e =
     (let base = (if cfg_get cfg ''api_url'' = [] then opsgenieDefaultURL else cfg_get cfg ''api_url'');
          headers = [(''Authorization'', ''GenieKey '' @ cfg_get cfg ''api_key'')]
      in if cfg_get cfg ''api_key'' = [] then ([], False)
         else if IsResolved e
         then postJSON N \<lparr>hp_url = opsgenie_close_url N base e, hp_body = opsgenie_close_body e, hp_headers = headers\<rparr> (\<lambda>c. c = 202 \<or> c = 404)
         else postJSON N \<lparr>hp_url = base, hp_body = opsgenie_alert opsgeniePriority e, hp_headers = headers\<rparr> (\<lambda>c. c = 202))"

definition deliverWebhook :: "network \<Rightarrow> channel_config \<Rightarrow> notif_event \<Rightarrow> outcome" where
  "deliverWebhook N cfg e = (if cfg_get cfg ''url'' = [] then ([], False)
     else postJSON N \<lparr>hp_url = cfg_get cfg ''url'', hp_body = nt_event N e, hp_headers = signature_headers N (cfg_get cfg ''secret'') (nt_event N e)\<rparr>
       (\<lambda>c. c \<in> {200, 201, 202, 204}))"

definition Deliver :: "network \<Rightarrow> Channel \<Rightarrow> notif_event \<Rightarrow> outcome" where
  "Deliver N c e =
     (if \<not> ch_Enabled c then ([], True)
      else if ch_Type c = TypeSlack then deliverSlack N (ch_Config c) e
      else if ch_Type c = TypeEmail then deliverEmail N (ch_Config c) e
      else if ch_Type c = TypePagerDuty then deliverPagerDuty N (ch_Config c) e
      else if ch_Type c = TypeOpsgenie then deliverOpsgenie N (ch_Config c) e
      else if ch_Type c = TypeWebhook then deliverWebhook N (ch_Config c) e
      else ([], False))"

section \<open>The channel handlers\<close>

record channelRequest =
  cq_Name :: string
  cq_Type :: string
  cq_Config :: channel_config
  cq_Enabled :: "bool option"

definition enabled_of :: "channelRequest \<Rightarrow> bool" where
  "enabled_of q = (case cq_Enabled q of None \<Rightarrow> True | Some b \<Rightarrow> b)"

definition channels_List :: "vault \<Rightarrow> bool \<Rightarrow> http_req \<Rightarrow> Channel list \<Rightarrow> int \<times> Channel list" where
  "channels_List V ok r rows = (case ListForAPI V ok (tenantOf r) rows of None \<Rightarrow> (500, []) | Some cs \<Rightarrow> (200, cs))"

definition channels_Create ::
  "vault \<Rightarrow> (string \<Rightarrow> bytes option) \<Rightarrow> bool \<Rightarrow> string \<Rightarrow> int \<Rightarrow> http_req \<Rightarrow> channelRequest option \<Rightarrow> Channel list \<Rightarrow> int \<times> Channel option \<times> Channel list" where
  "channels_Create V nonce ok uuid now r body rows = (case body of None \<Rightarrow> (400, None, rows)
   | Some q \<Rightarrow>
       if trim_space (cq_Name q) = [] then (400, None, rows)
       else if \<not> ValidType (cq_Type q) then (400, None, rows)
       else if MissingRequired (cq_Type q) (cq_Config q) \<noteq> [] then (400, None, rows)
       else if \<not> EncryptionConfigured V then (503, None, rows)
       else (case repo_Create V nonce ok uuid now \<lparr>ch_ID = [], ch_TenantID = tenantOf r, ch_Name = trim_space (cq_Name q), ch_Type = cq_Type q,
                ch_Config = cq_Config q, ch_Enabled = enabled_of q, ch_CreatedAt = zero_time, ch_UpdatedAt = zero_time\<rparr> rows of
              (None, rows1) \<Rightarrow> (500, None, rows1)
            | (Some c, rows1) \<Rightarrow> (201, Some (Redacted c), rows1)))"

definition channels_Update ::
  "vault \<Rightarrow> (string \<Rightarrow> bytes option) \<Rightarrow> bool \<Rightarrow> bool \<Rightarrow> int \<Rightarrow> http_req \<Rightarrow> string \<Rightarrow> channelRequest option \<Rightarrow> Channel list
    \<Rightarrow> int \<times> Channel option \<times> Channel list" where
  "channels_Update V nonce ok1 ok2 now r i body rows = (case body of None \<Rightarrow> (400, None, rows)
   | Some q \<Rightarrow> (case repo_Update V nonce ok1 ok2 now (tenantOf r) i (trim_space (cq_Name q)) (enabled_of q) (cq_Config q) rows of
         (Inl RNotFound, rows1) \<Rightarrow> (404, None, rows1)
       | (Inl RFailed, rows1) \<Rightarrow> (500, None, rows1)
       | (Inr c, rows1) \<Rightarrow> (200, Some (Redacted c), rows1)))"

definition channels_Delete :: "bool \<Rightarrow> http_req \<Rightarrow> string \<Rightarrow> Channel list \<Rightarrow> int \<times> Channel list" where
  "channels_Delete ok r i rows = (case repo_Delete ok (tenantOf r) i rows of
     (Inl RNotFound, rows1) \<Rightarrow> (404, rows1) | (Inl RFailed, rows1) \<Rightarrow> (500, rows1) | (Inr _, rows1) \<Rightarrow> (200, rows1))"

definition test_event :: "string \<Rightarrow> Channel \<Rightarrow> notif_event" where
  "test_event now c = \<lparr>ne_IncidentID = ''test'', ne_TenantID = [], ne_Action = Triggered, ne_Title = ''PulseTrace test notification'',
     ne_Body = ''This is a test alert sent from PulseTrace to verify channel delivery. No action needed.'', ne_Severity = ''WARNING'',
     ne_Services = [''pulsetrace''], ne_ID = ''test-'' @ ch_ID c, ne_CreatedAt = now\<rparr>"

text \<open>\<open>Test\<close>: the status code and the deliveries attempted; 200 reports that the message was sent.\<close>

definition channels_Test :: "vault \<Rightarrow> network \<Rightarrow> bool \<Rightarrow> string \<Rightarrow> http_req \<Rightarrow> string \<Rightarrow> Channel list \<Rightarrow> int \<times> delivery_attempt list" where
  "channels_Test V N ok now r i rows = (case getDecrypted V ok (tenantOf r) i rows of
     Inl RNotFound \<Rightarrow> (404, []) | Inl RFailed \<Rightarrow> (500, [])
   | Inr c \<Rightarrow> (case Deliver N c (test_event now c) of (as, ok1) \<Rightarrow> (if ok1 then 200 else 502, as)))"

section \<open>The worker\<close>

record NotificationWorker =
  nw_slackWebhook :: string
  nw_smtpHost :: string
  nw_smtpPort :: string
  nw_smtpUsername :: string
  nw_smtpPassword :: string
  nw_smtpFrom :: string
  nw_smtpTo :: "string list"
  nw_pagerdutyRoutingKey :: string
  nw_pagerdutyURL :: string
  nw_opsgenieAPIKey :: string
  nw_opsgenieAPIURL :: string
  nw_webhookURL :: string
  nw_webhookSecret :: string
  nw_channelRepo :: bool

definition NewNotificationWorker :: "(string \<Rightarrow> string) \<Rightarrow> NotificationWorker" where
  "NewNotificationWorker getenv =
     \<lparr>nw_slackWebhook = getenv ''SLACK_WEBHOOK_URL'', nw_smtpHost = getenv ''SMTP_HOST'',
      nw_smtpPort = (if getenv ''SMTP_PORT'' = [] then ''587'' else getenv ''SMTP_PORT''),
      nw_smtpUsername = getenv ''SMTP_USERNAME'', nw_smtpPassword = getenv ''SMTP_PASSWORD'',
      nw_smtpFrom = (if getenv ''SMTP_FROM'' = [] then ''alerts@pulsetrace.local'' else getenv ''SMTP_FROM''),
      nw_smtpTo = (if getenv ''SMTP_TO'' = [] then [] else splitList (getenv ''SMTP_TO'')),
      nw_pagerdutyRoutingKey = getenv ''PAGERDUTY_ROUTING_KEY'', nw_pagerdutyURL = pagerdutyEventsURL,
      nw_opsgenieAPIKey = getenv ''OPSGENIE_API_KEY'',
      nw_opsgenieAPIURL = (if getenv ''OPSGENIE_API_URL'' = [] then opsgenieDefaultURL else getenv ''OPSGENIE_API_URL''),
      nw_webhookURL = getenv ''WEBHOOK_URL'', nw_webhookSecret = getenv ''WEBHOOK_SECRET'', nw_channelRepo = False\<rparr>"

definition worker_pagerdutySeverity :: "string \<Rightarrow> string" where
  "worker_pagerdutySeverity level = (if level = ''FATAL'' then ''critical'' else if level = ''ERROR'' then ''error''
     else if level = ''WARNING'' then ''warning'' else if level \<in> {''INFO'', ''DEBUG''} then ''info'' else ''error'')"

definition worker_opsgeniePriority :: "string \<Rightarrow> string" where
  "worker_opsgeniePriority level = (if level = ''FATAL'' then ''P1'' else if level = ''ERROR'' then ''P2''
     else if level = ''WARNING'' then ''P3'' else if level = ''INFO'' then ''P4'' else if level = ''DEBUG'' then ''P5'' else ''P2'')"

definition sendSlack :: "network \<Rightarrow> NotificationWorker \<Rightarrow> notif_event \<Rightarrow> outcome" where
  "sendSlack N w e = postJSON N \<lparr>hp_url = nw_slackWebhook w, hp_body = JO [(''text'', JS (icon_of e @ '' *['' @ label_of e @ ''] '' @ ne_Title e @ ''*'' @
     newline @ ne_Body e @ newline @ ''Services: '' @ services_text e @ newline @ ''Incident: '' @ ne_IncidentID e))], hp_headers = []\<rparr> (\<lambda>c. c = 200)"

definition sendEmail :: "network \<Rightarrow> NotificationWorker \<Rightarrow> notif_event \<Rightarrow> outcome" where
  "sendEmail N w e = (if nw_smtpTo w = [] then ([], False)
     else (let m = \<lparr>ml_addr = nw_smtpHost w @ '':'' @ nw_smtpPort w,
              ml_auth = (if nw_smtpUsername w = [] then None else Some (nw_smtpUsername w, nw_smtpPassword w)),
              ml_from = nw_smtpFrom w, ml_to = nw_smtpTo w,
              ml_msg = mail_headers (nw_smtpFrom w) (nw_smtpTo w) e @ ne_Body e @ newline @ newline @ ''Services: '' @ services_text e @ newline @
                ''Incident: '' @ ne_IncidentID e @ newline @ ''Time: '' @ ne_CreatedAt e @ newline\<rparr>
           in ([AMail m], nt_mail N m)))"

definition sendPagerDuty :: "network \<Rightarrow> NotificationWorker \<Rightarrow> notif_event \<Rightarrow> outcome" where
  "sendPagerDuty N w e = postJSON N \<lparr>hp_url = (if nw_pagerdutyURL w = [] then pagerdutyEventsURL else nw_pagerdutyURL w),
     hp_body = pagerduty_payload (nw_pagerdutyRoutingKey w) worker_pagerdutySeverity e, hp_headers = []\<rparr> (\<lambda>c. c = 202)"

definition closeOpsgenie :: "network \<Rightarrow> NotificationWorker \<Rightarrow> notif_event \<Rightarrow> outcome" where
  "closeOpsgenie N w e = postJSON N \<lparr>hp_url = opsgenie_close_url N (nw_opsgenieAPIURL w) e, hp_body = opsgenie_close_body e,
     hp_headers = [(''Authorization'', ''GenieKey '' @ nw_opsgenieAPIKey w)]\<rparr> (\<lambda>c. c = 202 \<or> c = 404)"

definition sendOpsgenie :: "network \<Rightarrow> NotificationWorker \<Rightarrow> notif_event \<Rightarrow> outcome" where
  "sendOpsgenie N w e = (if IsResolved e then closeOpsgenie N w e
     else postJSON N \<lparr>hp_url = nw_opsgenieAPIURL w, hp_body = opsgenie_alert worker_opsgeniePriority e,
       hp_headers = [(''Authorization'', ''GenieKey '' @ nw_opsgenieAPIKey w)]\<rparr> (\<lambda>c. c = 202))"

definition sendWebhook :: "network \<Rightarrow> NotificationWorker \<Rightarrow> notif_event \<Rightarrow> outcome" where
  "sendWebhook N w e = postJSON N \<lparr>hp_url = nw_webhookURL w, hp_body = nt_event N e,
     hp_headers = signature_headers N (nw_webhookSecret w) (nt_event N e)\<rparr> (\<lambda>c. 200 \<le> c \<and> c < 300)"

text \<open>The configured channels of an event, in the order of \<open>Handle\<close>; \<open>chans\<close> is what \<open>ListDecrypted\<close> returns, and
  a failed lookup delivers to none.\<close>

definition tenant_or_default :: "notif_event \<Rightarrow> string" where
  "tenant_or_default e = (if ne_TenantID e = [] then ''default'' else ne_TenantID e)"

definition dispatches :: "vault \<Rightarrow> bool \<Rightarrow> NotificationWorker \<Rightarrow> notif_event \<Rightarrow> Channel list \<Rightarrow> (network \<Rightarrow> notif_event \<Rightarrow> outcome) list" where
  "dispatches V ok w e rows =
     (if nw_slackWebhook w \<noteq> [] then [\<lambda>N. sendSlack N w] else []) @
     (if nw_smtpHost w \<noteq> [] then [\<lambda>N. sendEmail N w] else []) @
     (if nw_pagerdutyRoutingKey w \<noteq> [] then [\<lambda>N. sendPagerDuty N w] else []) @
     (if nw_opsgenieAPIKey w \<noteq> [] then [\<lambda>N. sendOpsgenie N w] else []) @
     (if nw_webhookURL w \<noteq> [] then [\<lambda>N. sendWebhook N w] else []) @
     (if nw_channelRepo w
      then map (\<lambda>c N. Deliver N c) (case ListDecrypted V ok (tenant_or_default e) rows of None \<Rightarrow> [] | Some cs \<Rightarrow> cs) else [])"

fun run_dispatches :: "network \<Rightarrow> notif_event \<Rightarrow> (network \<Rightarrow> notif_event \<Rightarrow> outcome) list \<Rightarrow> delivery_attempt list \<times> nat" where
  "run_dispatches N e [] = ([], 0)"
| "run_dispatches N e (d # ds) = (case d N e of (as, ok) \<Rightarrow> (case run_dispatches N e ds of (bs, errs) \<Rightarrow>
     (as @ bs, if ok then errs else Suc errs)))"

text \<open>\<open>Handle\<close>: the attempts, and whether it returned without an error, in which case the message is acknowledged; otherwise it
  goes to the dead-letter queue. A body that does not decode is dropped.\<close>

definition worker_Handle :: "vault \<Rightarrow> bool \<Rightarrow> network \<Rightarrow> NotificationWorker \<Rightarrow> notif_event option \<Rightarrow> Channel list \<Rightarrow> delivery_attempt list \<times> bool" where
  "worker_Handle V ok N w body rows = (case body of None \<Rightarrow> ([], True)
   | Some e \<Rightarrow> (case run_dispatches N e (dispatches V ok w e rows) of (as, errs) \<Rightarrow> (as, errs = 0)))"

section \<open>Lemmas\<close>

text \<open>The network with other answers to posts and mails.\<close>

definition answering :: "network \<Rightarrow> (http_post \<Rightarrow> int option) \<Rightarrow> (mail \<Rightarrow> bool) \<Rightarrow> network" where
  "answering N p m = N\<lparr>nt_post := p, nt_mail := m\<rparr>"

lemma answering_sel [simp]:
  "nt_hmac (answering N p m) = nt_hmac N" "nt_event (answering N p m) = nt_event N" "nt_escape (answering N p m) = nt_escape N"
  "nt_post (answering N p m) = p" "nt_mail (answering N p m) = m"
  by (simp_all add: answering_def)

lemma fst_postJSON [simp]: "fst (postJSON N p acc) = [APost p]"
  by (simp add: postJSON_def)

lemmas delivery_defs = deliverSlack_def deliverEmail_def deliverPagerDuty_def deliverOpsgenie_def deliverWebhook_def
  sendSlack_def sendEmail_def sendPagerDuty_def sendOpsgenie_def closeOpsgenie_def sendWebhook_def

lemma Deliver_attempts: "fst (Deliver (answering N p m) c e) = fst (Deliver N c e)"
  by (simp add: Deliver_def delivery_defs Let_def signature_headers_def opsgenie_close_url_def)

lemma send_attempts:
  "fst (sendSlack (answering N p m) w e) = fst (sendSlack N w e)" "fst (sendEmail (answering N p m) w e) = fst (sendEmail N w e)"
  "fst (sendPagerDuty (answering N p m) w e) = fst (sendPagerDuty N w e)" "fst (sendOpsgenie (answering N p m) w e) = fst (sendOpsgenie N w e)"
  "fst (sendWebhook (answering N p m) w e) = fst (sendWebhook N w e)"
  by (simp_all add: delivery_defs Let_def signature_headers_def opsgenie_close_url_def)

lemma dispatch_attempts: "d \<in> set (dispatches V ok w e rows) \<Longrightarrow> fst (d (answering N p m) e) = fst (d N e)"
  by (auto simp: dispatches_def send_attempts Deliver_attempts split: if_splits option.splits)

lemma run_dispatches_eq:
  "run_dispatches N e ds = (concat (map (\<lambda>d. fst (d N e)) ds), length (filter (\<lambda>d. \<not> snd (d N e)) ds))"
  by (induction ds) (auto split: prod.split)

lemma worker_Handle_eq:
  "worker_Handle V ok N w (Some e) rows = (concat (map (\<lambda>d. fst (d N e)) (dispatches V ok w e rows)), \<forall>d \<in> set (dispatches V ok w e rows). snd (d N e))"
  by (auto simp: worker_Handle_def run_dispatches_eq filter_empty_conv)

lemma update_no_secret:
  "\<forall>x \<in> set m. \<not> IsSecret t (fst x) \<Longrightarrow> \<not> IsSecret t k \<Longrightarrow> \<forall>x \<in> set (AList.update k v m). \<not> IsSecret t (fst x)"
  by (induction m) auto

lemma set_suffix_no_secret: "\<not> IsSecret t (k @ ''_set'')"
proof -
  have "last (k @ ''_set'') = CHR ''t''" by simp
  moreover have "x \<in> {''webhook_url'', ''password'', ''routing_key'', ''api_key'', ''url''} \<Longrightarrow> last x \<noteq> CHR ''t''" for x by auto
  moreover have "k @ ''_set'' \<noteq> ''secret''"
  proof
    assume "k @ ''_set'' = ''secret''"
    from arg_cong [OF this, of rev] show False by simp
  qed
  ultimately show ?thesis by (auto simp: IsSecret_def secretKeys_def split: option.splits if_splits)
qed

lemma redacted_keys:
  assumes "\<forall>k \<in> fst ` set acc. \<not> IsSecret t k"
  shows "\<forall>k \<in> fst ` set (fold (redact_entry t) cfg acc). \<not> IsSecret t k"
  using assms
proof (induction cfg arbitrary: acc)
  case (Cons kv cfg)
  obtain k v where kv: "kv = (k, v)" by fastforce
  have acc: "\<forall>x \<in> set acc. \<not> IsSecret t (fst x)" using Cons.prems by simp
  have "\<forall>x \<in> set (redact_entry t kv acc). \<not> IsSecret t (fst x)"
  proof (cases "IsSecret t k")
    case True
    then show ?thesis using acc update_no_secret [OF acc set_suffix_no_secret, of k "''true''"] by (simp add: redact_entry_def kv)
  next
    case False
    then show ?thesis using update_no_secret [OF acc False, of v] by (simp add: redact_entry_def kv)
  qed
  then have "\<forall>k \<in> fst ` set (redact_entry t kv acc). \<not> IsSecret t k" by simp
  then show ?case using Cons.IH by simp
qed simp

text \<open>What is relied on of the cipher and of base64.\<close>

definition vault_ok :: "vault \<Rightarrow> bool" where
  "vault_ok V \<longleftrightarrow> (\<forall>b. va_unb64 V (va_b64 V b) = Some b) \<and> va_unb64 V [] = Some [] \<and>
     (\<forall>g n b. va_aead V = Some g \<longrightarrow> 0 < gc_NonceSize g \<and> (length n = gc_NonceSize g \<longrightarrow> gc_Open g n (gc_Seal g n b) = Some b))"

definition nonces_ok :: "vault \<Rightarrow> (string \<Rightarrow> bytes option) \<Rightarrow> bool" where
  "nonces_ok V nonce \<longleftrightarrow> (\<forall>g k n. va_aead V = Some g \<longrightarrow> nonce k = Some n \<longrightarrow> length n = gc_NonceSize g)"

lemma Decrypt_Encrypt:
  assumes "vault_ok V" "nonces_ok V nonce" "Encrypt V (nonce k) v = Some e"
  shows "Decrypt V e = Some v \<and> e \<noteq> []"
proof -
  obtain g n where g: "va_aead V = Some g" "nonce k = Some n" "e = va_b64 V (n @ gc_Seal g n (str_bytes v))"
    using assms(3) by (auto simp: Encrypt_def split: option.splits)
  have n: "length n = gc_NonceSize g" "0 < gc_NonceSize g" using assms(1,2) g by (auto simp: vault_ok_def nonces_ok_def)
  have d: "va_unb64 V e = Some (n @ gc_Seal g n (str_bytes v))" using assms(1) g(3) by (simp add: vault_ok_def)
  have "e \<noteq> []" using d n assms(1) by (auto simp: vault_ok_def)
  moreover have "gc_Open g n (gc_Seal g n (str_bytes v)) = Some (str_bytes v)" using assms(1) g(1) n(1) by (simp add: vault_ok_def)
  ultimately show ?thesis using g(1) d n by (simp add: Decrypt_def)
qed

lemma decrypt_encryptConfig:
  assumes "vault_ok V" "nonces_ok V nonce"
  shows "encryptConfig V nonce t cfg = Some enc \<Longrightarrow> decryptConfig V t enc = cfg"
proof (induction cfg arbitrary: enc)
  case (Cons kv cfg)
  obtain k v where kv: "kv = (k, v)" by fastforce
  show ?case
  proof (cases "IsSecret t k \<and> v \<noteq> []")
    case True
    then obtain e rest where "Encrypt V (nonce k) v = Some e" "encryptConfig V nonce t cfg = Some rest" "enc = (k, e) # rest"
      using Cons.prems by (auto simp: kv split: option.splits)
    then show ?thesis using Cons.IH [of rest] True Decrypt_Encrypt [OF assms, of k v e] by (simp add: kv decryptConfig_def)
  next
    case False
    then obtain rest where "encryptConfig V nonce t cfg = Some rest" "enc = (k, v) # rest"
      using Cons.prems by (auto simp: kv split: if_splits)
    then show ?thesis using Cons.IH [of rest] False by (auto simp: kv decryptConfig_def)
  qed
qed (simp add: decryptConfig_def)

lemma encryptConfig_blank:
  "\<forall>(k, v) \<in> set cfg. IsSecret t k \<longrightarrow> v = [] \<Longrightarrow> encryptConfig V nonce t cfg = Some cfg"
  by (induction cfg) (auto split: if_splits)

lemma decryptConfig_blank:
  "\<forall>(k, v) \<in> set cfg. IsSecret t k \<longrightarrow> Decrypt V v = None \<Longrightarrow> \<forall>(k, v) \<in> set (decryptConfig V t cfg). IsSecret t k \<longrightarrow> v = []"
  by (auto simp: decryptConfig_def split: option.splits if_splits)

lemma cfg_get_blank: "\<forall>(k, v) \<in> set cfg. IsSecret t k \<longrightarrow> v = [] \<Longrightarrow> IsSecret t k \<Longrightarrow> cfg_get cfg k = []"
  by (auto simp: cfg_get_def split: option.splits dest!: map_of_SomeD)

text \<open>A title with a line break ends the subject line and starts a header of its own; the title of an incident
  contains the name of the service, which comes from the log entry.\<close>

lemma title_breaks_headers:
  assumes "al_ServiceName a = s @ crlf @ h" "ne_Title e = buildTitle a"
  shows "\<exists>pre. mail_headers from to e = pre @ crlf @ h @ '' degradation detected'' @ crlf @ ''Content-Type: text/plain; charset=UTF-8'' @ crlf @ crlf"
  using assms by (auto simp: mail_headers_def buildTitle_def)

lemma webhook_statuses_differ:
  assumes "nt_post N = (\<lambda>_. Some 206)" "cfg_get cfg ''url'' \<noteq> []"
  shows "snd (sendWebhook N w e)" "\<not> snd (deliverWebhook N cfg e)"
  using assms by (simp_all add: sendWebhook_def deliverWebhook_def postJSON_def)

lemma severities_differ: "worker_pagerdutySeverity ''ERROR'' = ''error''" "pagerdutySeverity ''ERROR'' = ''critical''"
  by (simp_all add: worker_pagerdutySeverity_def pagerdutySeverity_def)

section \<open>Properties\<close>

text \<open>A failing channel does not keep the others from being tried: whatever the network answers, an event is
  sent to exactly the channels it would be sent to if every delivery succeeded, and the message is acknowledged
  just when every delivery succeeded.\<close>

theorem every_channel_is_tried:
  "fst (worker_Handle V ok N w (Some e) rows) = fst (worker_Handle V ok (answering N (\<lambda>_. Some 202) (\<lambda>_. True)) w (Some e) rows)
   \<and> (snd (worker_Handle V ok N w (Some e) rows) \<longleftrightarrow> (\<forall>d \<in> set (dispatches V ok w e rows). snd (d N e)))"
  unfolding worker_Handle_eq by (simp add: dispatch_attempts cong: map_cong)

definition demo_worker_cfg :: NotificationWorker where
  "demo_worker_cfg = NewNotificationWorker (\<lambda>k. if k = ''SLACK_WEBHOOK_URL'' then ''https://hook'' else if k = ''PAGERDUTY_ROUTING_KEY'' then ''key'' else [])"

definition demo_event :: notif_event where
  "demo_event = \<lparr>ne_IncidentID = ''inc-1'', ne_TenantID = ''acme'', ne_Action = Triggered, ne_Title = ''t'', ne_Body = ''b'', ne_Severity = ''ERROR'',
     ne_Services = [''api''], ne_ID = ''n1'', ne_CreatedAt = []\<rparr>"

definition demo_net :: network where
  "demo_net = \<lparr>nt_post = \<lambda>_. None, nt_mail = \<lambda>_. False, nt_hmac = \<lambda>_ _. [], nt_event = \<lambda>_. JO [], nt_escape = \<lambda>s. s\<rparr>"

definition demo_vault :: vault where
  "demo_vault = \<lparr>va_aead = Some \<lparr>gc_NonceSize = 1, gc_Seal = (\<lambda>_ b. b), gc_Open = (\<lambda>_ b. Some b)\<rparr>,
     va_b64 = (\<lambda>b. bytes_str b), va_unb64 = (\<lambda>s. Some (str_bytes s))\<rparr>"

theorem every_channel_is_tried_witness:
  "length (fst (worker_Handle demo_vault True demo_net demo_worker_cfg (Some demo_event) [])) = 2"
proof -
  have "fst (worker_Handle demo_vault True (answering demo_net (\<lambda>_. Some 202) (\<lambda>_. True)) demo_worker_cfg (Some demo_event) [])
      = fst (sendSlack demo_net demo_worker_cfg demo_event) @ fst (sendPagerDuty demo_net demo_worker_cfg demo_event)"
    by (simp add: worker_Handle_eq dispatches_def demo_worker_cfg_def NewNotificationWorker_def send_attempts)
  then show ?thesis using every_channel_is_tried [of demo_vault True demo_net demo_worker_cfg demo_event "[]"]
    by (simp add: sendSlack_def sendPagerDuty_def)
qed

text \<open>The interface shows no secret: no channel it lists, and none it returns after creating or changing it,
  has a configuration entry under a secret key.\<close>

theorem api_shows_no_secrets:
  "(\<forall>cs. channels_List V ok r rows = (200, cs) \<longrightarrow> (\<forall>c \<in> set cs. \<forall>k \<in> fst ` set (ch_Config c). \<not> IsSecret (ch_Type c) k))
   \<and> (\<forall>c code rows1. channels_Create V nonce ok uuid now r body rows = (code, Some c, rows1) \<longrightarrow> (\<forall>k \<in> fst ` set (ch_Config c). \<not> IsSecret (ch_Type c) k))
   \<and> (\<forall>c code rows1. channels_Update V nonce ok1 ok2 now r i body rows = (code, Some c, rows1) \<longrightarrow> (\<forall>k \<in> fst ` set (ch_Config c). \<not> IsSecret (ch_Type c) k))"
proof -
  have red: "\<forall>k \<in> fst ` set (ch_Config (Redacted c)). \<not> IsSecret (ch_Type (Redacted c)) k" for c
    using redacted_keys [of "[]" "ch_Type c" "ch_Config c"] by (simp add: Redacted_def)
  have "\<exists>c0. c = Redacted c0" if "channels_List V ok r rows = (200, cs)" "c \<in> set cs" for c cs
    using that by (auto simp: channels_List_def ListForAPI_def split: if_splits)
  moreover have "\<exists>c0. c = Redacted c0" if "channels_Create V nonce ok uuid now r body rows = (code, Some c, rows1)" for c code rows1
    using that by (auto simp: channels_Create_def split: option.splits if_splits prod.splits)
  moreover have "\<exists>c0. c = Redacted c0" if "channels_Update V nonce ok1 ok2 now r i body rows = (code, Some c, rows1)" for c code rows1
    using that by (auto simp: channels_Update_def split: option.splits sum.splits repo_error.splits prod.splits)
  ultimately show ?thesis using red by metis
qed

definition demo_channel :: Channel where
  "demo_channel = \<lparr>ch_ID = ''c1'', ch_TenantID = ''default'', ch_Name = ''ops'', ch_Type = ''slack'', ch_Config = [(''webhook_url'', ''xhttps://hook'')],
     ch_Enabled = True, ch_CreatedAt = 0, ch_UpdatedAt = 0\<rparr>"

definition demo_admin :: http_req where
  "demo_admin = \<lparr>hr_Method = ''GET'', hr_Path = ''/'', hr_RawQuery = [], hr_Header = [], hr_RemoteAddr = []\<rparr>"

theorem api_shows_no_secrets_witness:
  "\<forall>c \<in> set (snd (channels_List demo_vault True demo_admin [demo_channel])). ''webhook_url'' \<notin> fst ` set (ch_Config c)"
proof -
  obtain cs where cs: "channels_List demo_vault True demo_admin [demo_channel] = (200, cs)"
    by (simp add: channels_List_def ListForAPI_def)
  have t: "ch_Type c = ''slack''" if "c \<in> set cs" for c
    using cs that by (auto simp: channels_List_def ListForAPI_def scanChannels_def Redacted_def demo_channel_def stable_sort_def split: if_splits)
  have slack_secret: "IsSecret ''slack'' ''webhook_url''" by (simp add: IsSecret_def secretKeys_def channel_types)
  have "\<forall>c \<in> set cs. \<forall>k \<in> fst ` set (ch_Config c). \<not> IsSecret (ch_Type c) k" using api_shows_no_secrets cs by metis
  then have "''webhook_url'' \<notin> fst ` set (ch_Config c)" if "c \<in> set cs" for c
    using t [OF that] that slack_secret by metis
  then show ?thesis unfolding cs by simp
qed

text \<open>A channel's configuration survives storage: what the administrator enters is what the delivery path reads
  back, with its secrets decrypted.\<close>

theorem channel_config_round_trip:
  assumes "vault_ok V" "nonces_ok V nonce" "channels_Create V nonce ok uuid now r (Some q) rows = (201, Some shown, rows1)" "enabled_of q"
  shows "\<exists>c \<in> set (the (ListDecrypted V True (tenantOf r) rows1)). ch_ID c = uuid \<and> ch_Type c = cq_Type q \<and> ch_Config c = cq_Config q"
proof -
  obtain enc where enc: "encryptConfig V nonce (cq_Type q) (cq_Config q) = Some enc"
    and rows1: "\<exists>c0 \<in> set rows1. ch_ID c0 = uuid \<and> ch_TenantID c0 = tenantOf r \<and> ch_Enabled c0 \<and> ch_Type c0 = cq_Type q \<and> ch_Config c0 = enc"
    using assms(3,4) by (auto simp: channels_Create_def repo_Create_def Let_def split: if_splits option.splits)
  then obtain c0 where c0: "c0 \<in> set rows1" "ch_ID c0 = uuid" "ch_TenantID c0 = tenantOf r" "ch_Enabled c0" "ch_Type c0 = cq_Type q" "ch_Config c0 = enc"
    by blast
  let ?c = "c0\<lparr>ch_Config := decryptConfig V (ch_Type c0) (ch_Config c0)\<rparr>"
  have "?c \<in> set (the (ListDecrypted V True (tenantOf r) rows1))" 
    unfolding ListDecrypted_def scanChannels_def using c0(1,3,4) by simp
  moreover have "ch_Config ?c = cq_Config q" using c0 decrypt_encryptConfig [OF assms(1,2) enc] by simp
  ultimately show ?thesis using c0 by (intro bexI [of _ ?c]) simp_all
qed

definition demo_channel_request :: channelRequest where
  "demo_channel_request = \<lparr>cq_Name = ''ops'', cq_Type = ''slack'', cq_Config = [(''webhook_url'', ''https://hook'')], cq_Enabled = None\<rparr>"

theorem channel_config_round_trip_witness:
  "\<exists>c \<in> set (the (ListDecrypted demo_vault True ''default'' (snd (snd (channels_Create demo_vault (\<lambda>_. Some [7]) True ''c1'' 0 demo_admin (Some demo_channel_request) []))))).
     ch_Config c = [(''webhook_url'', ''https://hook'')]"
proof -
  have v: "vault_ok demo_vault" "nonces_ok demo_vault (\<lambda>_. Some [7])"
    by (simp_all add: vault_ok_def nonces_ok_def demo_vault_def) (simp add: str_bytes_def)
  have t: "tenantOf demo_admin = ''default''" by code_simp
  have e: "enabled_of demo_channel_request" by (simp add: enabled_of_def demo_channel_request_def)
  have "\<exists>shown rows1. channels_Create demo_vault (\<lambda>_. Some [7]) True ''c1'' 0 demo_admin (Some demo_channel_request) [] = (201, Some shown, rows1)"
    by (simp add: channels_Create_def demo_channel_request_def trim_space_def is_space_def ValidType_def MissingRequired_def secretKeys_def requiredKeys_def
        channel_types cfg_get_def EncryptionConfigured_def demo_vault_def repo_Create_def IsSecret_def Encrypt_def Let_def)
  then obtain shown rows1 where c: "channels_Create demo_vault (\<lambda>_. Some [7]) True ''c1'' 0 demo_admin (Some demo_channel_request) [] = (201, Some shown, rows1)"
    by blast
  show ?thesis using channel_config_round_trip [OF v c e] unfolding c t by (auto simp: demo_channel_request_def)
qed

text \<open>Changing a channel without its key erases its secrets: when the stored secrets cannot be decrypted, because the
  key is missing or was rotated, an update that only renames or toggles the channel succeeds and replaces every
  secret by the empty text, although an empty secret is meant to keep the stored one.\<close>

theorem update_without_key_erases_secrets:
  assumes "find (\<lambda>c. ch_TenantID c = tenantOf r \<and> ch_ID c = i) rows = Some c0"
    and "\<forall>(k, v) \<in> set (ch_Config c0). IsSecret (ch_Type c0) k \<longrightarrow> Decrypt V v = None" "cq_Config q = []"
  shows "\<exists>shown rows1. channels_Update V nonce True True now r i (Some q) rows = (200, Some shown, rows1)
     \<and> (\<forall>c \<in> set rows1. ch_TenantID c = tenantOf r \<and> ch_ID c = i \<longrightarrow> (\<forall>k. IsSecret (ch_Type c0) k \<longrightarrow> cfg_get (ch_Config c) k = []))"
proof -
  let ?cfg = "decryptConfig V (ch_Type c0) (ch_Config c0)"
  have blank: "\<forall>(k, v) \<in> set ?cfg. IsSecret (ch_Type c0) k \<longrightarrow> v = []" by (rule decryptConfig_blank [OF assms(2)])
  have enc: "encryptConfig V nonce (ch_Type c0) ?cfg = Some ?cfg" by (rule encryptConfig_blank [OF blank])
  have u: "channels_Update V nonce True True now r i (Some q) rows = (200,
      Some (Redacted (c0\<lparr>ch_Name := trim_space (cq_Name q), ch_Enabled := enabled_of q, ch_Config := ?cfg, ch_UpdatedAt := now\<rparr>)),
      map (\<lambda>c. if ch_TenantID c = tenantOf r \<and> ch_ID c = i
               then c\<lparr>ch_Name := trim_space (cq_Name q), ch_Enabled := enabled_of q, ch_Config := ?cfg, ch_UpdatedAt := now\<rparr> else c) rows)"
    using assms(1,3) by (simp add: channels_Update_def repo_Update_def getDecrypted_def merge_config_def enc Let_def)
  define out where "out = channels_Update V nonce True True now r i (Some q) rows"
  have "cfg_get (ch_Config c) k = []"
    if "c \<in> set (snd (snd out))" "ch_TenantID c = tenantOf r" "ch_ID c = i" "IsSecret (ch_Type c0) k" for c k
  proof -
    from that(1) obtain x where x: "c = (if ch_TenantID x = tenantOf r \<and> ch_ID x = i
        then x\<lparr>ch_Name := trim_space (cq_Name q), ch_Enabled := enabled_of q, ch_Config := ?cfg, ch_UpdatedAt := now\<rparr> else x)"
      unfolding out_def u snd_conv set_map by (rule imageE)
    have "ch_Config c = ?cfg"
    proof (cases "ch_TenantID x = tenantOf r \<and> ch_ID x = i")
      case True
      then show ?thesis unfolding x by simp
    next
      case False
      then have "c = x" unfolding x by (rule if_not_P)
      then show ?thesis using False that(2,3) by simp
    qed
    then show ?thesis using cfg_get_blank [OF blank that(4)] by simp
  qed
  moreover obtain shown rows1 where o: "out = (200, Some shown, rows1)" unfolding out_def u by blast
  ultimately show ?thesis unfolding out_def [symmetric] o snd_conv by blast
qed

theorem update_without_key_erases_secrets_witness:
  "\<exists>rows1. snd (snd (channels_Update (demo_vault\<lparr>va_aead := None\<rparr>) (\<lambda>_. None) True True 0 demo_admin ''c1''
       (Some (demo_channel_request\<lparr>cq_Config := []\<rparr>)) [demo_channel])) = rows1
     \<and> (\<forall>c \<in> set rows1. ch_TenantID c = ''default'' \<and> ch_ID c = ''c1'' \<longrightarrow> cfg_get (ch_Config c) ''webhook_url'' = [])"
proof -
  have t: "tenantOf demo_admin = ''default''" by code_simp
  have s: "IsSecret (ch_Type demo_channel) ''webhook_url''" by (simp add: IsSecret_def secretKeys_def channel_types demo_channel_def)
  have "\<exists>shown rows1. channels_Update (demo_vault\<lparr>va_aead := None\<rparr>) (\<lambda>_. None) True True 0 demo_admin ''c1''
        (Some (demo_channel_request\<lparr>cq_Config := []\<rparr>)) [demo_channel] = (200, Some shown, rows1)
     \<and> (\<forall>c \<in> set rows1. ch_TenantID c = tenantOf demo_admin \<and> ch_ID c = ''c1'' \<longrightarrow>
          (\<forall>k. IsSecret (ch_Type demo_channel) k \<longrightarrow> cfg_get (ch_Config c) k = []))"
    by (rule update_without_key_erases_secrets) (simp_all add: t demo_channel_def Decrypt_def)
  then show ?thesis using s t by auto
qed

text \<open>Testing a disabled channel reports success without sending anything.\<close>

theorem test_of_disabled_channel_reports_sent:
  assumes "find (\<lambda>c. ch_TenantID c = tenantOf r \<and> ch_ID c = i) rows = Some ch" "\<not> ch_Enabled ch"
  shows "channels_Test V N True now r i rows = (200, [])"
  using assms by (simp add: channels_Test_def getDecrypted_def Deliver_def)

theorem test_of_disabled_channel_reports_sent_witness:
  "channels_Test demo_vault demo_net True [] demo_admin ''c1'' [demo_channel\<lparr>ch_Enabled := False\<rparr>] = (200, [])"
proof -
  have t: "tenantOf demo_admin = ''default''" by code_simp
  show ?thesis by (rule test_of_disabled_channel_reports_sent [where ch = "demo_channel\<lparr>ch_Enabled := False\<rparr>"]) (simp_all add: t demo_channel_def)
qed

end
