(* ===== verification/Go_Json.thy ===== *)
theory Go_Json
  imports Go_Strings
begin

text \<open>
  The part of \<open>encoding/json\<close> that the stores rely on: marshalling and unmarshalling a \<open>[]string\<close> and a
  \<open>map[string]string\<close>. Marshalling escapes quotes, backslashes, control characters, the three HTML
  characters and the two Unicode line separators, and replaces bytes that are not UTF-8; unmarshalling
  undoes every escape of JSON. Texts of UTF-8 survive the round trip.
\<close>

section \<open>UTF-8\<close>

abbreviation code :: "char \<Rightarrow> nat" where "code c \<equiv> of_char c"

definition cont_byte :: "char \<Rightarrow> bool" where
  "cont_byte c \<longleftrightarrow> 128 \<le> code c \<and> code c < 192"

definition conts :: "nat \<Rightarrow> string \<Rightarrow> bool" where
  "conts n s \<longleftrightarrow> n \<le> length s \<and> list_all cont_byte (take n s)"

text \<open>\<open>utf8.DecodeRune\<close>: the number of bytes of the rune at the start, 0 when the bytes are not UTF-8.\<close>

definition utf8_len :: "string \<Rightarrow> nat" where
  "utf8_len s = (case s of [] \<Rightarrow> 0 | a # r \<Rightarrow>
     (let k = code a in
      if k < 128 then 1
      else if 0xC2 \<le> k \<and> k \<le> 0xDF then (if conts 1 r then 2 else 0)
      else if 0xE0 \<le> k \<and> k \<le> 0xEF then
        (if conts 2 r \<and> (k = 0xE0 \<longrightarrow> 0xA0 \<le> code (hd r)) \<and> (k = 0xED \<longrightarrow> code (hd r) \<le> 0x9F) then 3 else 0)
      else if 0xF0 \<le> k \<and> k \<le> 0xF4 then
        (if conts 3 r \<and> (k = 0xF0 \<longrightarrow> 0x90 \<le> code (hd r)) \<and> (k = 0xF4 \<longrightarrow> code (hd r) \<le> 0x8F) then 4 else 0)
      else 0))"

text \<open>\<open>utf8.ValidString\<close>.\<close>

function utf8_valid :: "string \<Rightarrow> bool" where
  "utf8_valid [] = True"
| "utf8_valid (c # cs) =
     (let n = utf8_len (c # cs) in if n = 0 then False else utf8_valid (drop (n - 1) cs))"
  by pat_completeness auto
termination by (relation "measure length") auto

text \<open>\<open>utf8.AppendRune\<close>, for a code point that is not a surrogate.\<close>

definition utf8_enc :: "nat \<Rightarrow> string" where
  "utf8_enc v =
     map char_of
       (if v < 0x80 then [v]
        else if v < 0x800 then [0xC0 + v div 64, 0x80 + v mod 64]
        else if v < 0x10000 then [0xE0 + v div 4096, 0x80 + v div 64 mod 64, 0x80 + v mod 64]
        else [0xF0 + v div 262144, 0x80 + v div 4096 mod 64, 0x80 + v div 64 mod 64, 0x80 + v mod 64])"

section \<open>Marshalling\<close>

definition hex_lower :: "nat \<Rightarrow> char" where
  "hex_lower d = (if d < 10 then digit_char d else char_of (87 + d))"

definition escape_ascii :: "char \<Rightarrow> string" where
  "escape_ascii c =
     (let k = code c in
      if c = CHR 0x22 \<or> c = CHR 0x5C then [CHR 0x5C, c]
      else if k = 8 then [CHR 0x5C, CHR ''b'']
      else if k = 12 then [CHR 0x5C, CHR ''f'']
      else if k = 10 then [CHR 0x5C, CHR ''n'']
      else if k = 13 then [CHR 0x5C, CHR ''r'']
      else if k = 9 then [CHR 0x5C, CHR ''t'']
      else if k < 32 \<or> c = CHR ''<'' \<or> c = CHR ''>'' \<or> c = CHR ''&''
        then CHR 0x5C # ''u00'' @ [hex_lower (k div 16), hex_lower (k mod 16)]
      else [c])"

definition u2028 :: string where "u2028 = [CHR 0xE2, CHR 0x80, CHR 0xA8]"
definition u2029 :: string where "u2029 = [CHR 0xE2, CHR 0x80, CHR 0xA9]"

function escape_body :: "string \<Rightarrow> string" where
  "escape_body [] = []"
| "escape_body (c # cs) =
     (let n = utf8_len (c # cs) in
      if code c < 128 then escape_ascii c @ escape_body cs
      else if n = 0 then CHR 0x5C # ''ufffd'' @ escape_body cs
      else (let rune = take n (c # cs) in
        (if rune = u2028 then CHR 0x5C # ''u2028'' else if rune = u2029 then CHR 0x5C # ''u2029'' else rune)
        @ escape_body (drop (n - 1) cs)))"
  by pat_completeness auto
termination by (relation "measure length") auto

definition marshal_string :: "string \<Rightarrow> string" where
  "marshal_string s = CHR 0x22 # escape_body s @ [CHR 0x22]"

definition marshal_strings :: "string list \<Rightarrow> string" where
  "marshal_strings xs = ''['' @ join_with '','' (map marshal_string xs) @ '']''"

text \<open>A map is written with its keys in byte order.\<close>

fun str_less :: "string \<Rightarrow> string \<Rightarrow> bool" where
  "str_less _ [] = False"
| "str_less [] (_ # _) = True"
| "str_less (a # s) (b # t) = (if code a = code b then str_less s t else code a < code b)"

definition marshal_map :: "(string, string) gomap \<Rightarrow> string" where
  "marshal_map m =
     ''{'' @ join_with '','' (map (\<lambda>(k, v). marshal_string k @ '':'' @ marshal_string v)
                             (stable_sort (\<lambda>p q. str_less (fst p) (fst q)) m)) @ ''}''"

section \<open>Unmarshalling\<close>

definition hex_val :: "char \<Rightarrow> nat option" where
  "hex_val c = (let k = code c in
     if 48 \<le> k \<and> k \<le> 57 then Some (k - 48)
     else if 97 \<le> k \<and> k \<le> 102 then Some (k - 87)
     else if 65 \<le> k \<and> k \<le> 70 then Some (k - 55) else None)"

fun hex4 :: "string \<Rightarrow> nat option" where
  "hex4 (a # b # c # d # r) =
     (case (hex_val a, hex_val b, hex_val c, hex_val d) of
        (Some w, Some x, Some y, Some z) \<Rightarrow> Some (4096 * w + 256 * x + 16 * y + z)
      | _ \<Rightarrow> None)"
| "hex4 _ = None"

definition unescape :: "char \<Rightarrow> char option" where
  "unescape c =
     (if c = CHR 0x22 \<or> c = CHR 0x5C \<or> c = CHR ''/'' then Some c
      else if c = CHR ''b'' then Some (char_of (8 :: nat))
      else if c = CHR ''f'' then Some (char_of (12 :: nat))
      else if c = CHR ''n'' then Some (char_of (10 :: nat))
      else if c = CHR ''r'' then Some (char_of (13 :: nat))
      else if c = CHR ''t'' then Some (char_of (9 :: nat)) else None)"

text \<open>The second half of a surrogate pair: another \<open>\u\<close> escape whose value is a low surrogate.\<close>

definition low_surrogate :: "nat \<Rightarrow> string \<Rightarrow> nat option" where
  "low_surrogate v s =
     (if v < 0xDC00 \<and> take 2 s = [CHR 0x5C, CHR ''u'']
      then (case hex4 (drop 2 s) of
              Some w \<Rightarrow> if 0xDC00 \<le> w \<and> w < 0xE000 then Some w else None
            | None \<Rightarrow> None)
      else None)"

definition prepend :: "string \<Rightarrow> (string \<times> 'r) option \<Rightarrow> (string \<times> 'r) option" where
  "prepend p x = (case x of None \<Rightarrow> None | Some (s, r) \<Rightarrow> Some (p @ s, r))"

text \<open>The text of a string literal after its opening quote, and what follows the closing quote.\<close>

function parse_body :: "string \<Rightarrow> (string \<times> string) option" where
  "parse_body [] = None"
| "parse_body (c # cs) =
     (if c = CHR 0x22 then Some ([], cs)
      else if c = CHR 0x5C then
        (if take 1 cs = ''u'' then
           (case hex4 (drop 1 cs) of
              None \<Rightarrow> None
            | Some v \<Rightarrow>
                if 0xD800 \<le> v \<and> v < 0xE000 then
                  (case low_surrogate v (drop 5 cs) of
                     Some w \<Rightarrow> prepend (utf8_enc (0x10000 + 1024 * (v - 0xD800) + (w - 0xDC00))) (parse_body (drop 11 cs))
                   | None \<Rightarrow> prepend (utf8_enc 0xFFFD) (parse_body (drop 5 cs)))
                else prepend (utf8_enc v) (parse_body (drop 5 cs)))
         else (case cs of [] \<Rightarrow> None | e # r \<Rightarrow>
                 (case unescape e of None \<Rightarrow> None | Some d \<Rightarrow> prepend [d] (parse_body r))))
      else if code c < 32 then None
      else (let n = utf8_len (c # cs) in
        if n = 0 then prepend (utf8_enc 0xFFFD) (parse_body cs)
        else prepend (take n (c # cs)) (parse_body (drop (n - 1) cs))))"
  by pat_completeness auto
termination by (relation "measure length") auto

lemma prepend_eq_Some: "prepend p x = Some (s, r) \<longleftrightarrow> (\<exists>t. x = Some (t, r) \<and> s = p @ t)"
  by (auto simp: prepend_def split: option.splits)

lemma parse_body_shorter: "parse_body s = Some (t, r) \<Longrightarrow> length r < length s"
proof (induction s arbitrary: t rule: parse_body.induct)
  case (2 c cs)
  show ?case
    using 2
    by (fastforce simp: prepend_eq_Some Let_def split: if_splits option.splits list.splits)
qed simp

datatype json_token = TStr string | TNull | TPunct char

text \<open>The tokens of a text; numbers, \<open>true\<close> and \<open>false\<close> cannot be decoded into a string, so they end
  the decoding with an error as text that is not JSON does.\<close>

function lex :: "string \<Rightarrow> json_token list option" where
  "lex [] = Some []"
| "lex (c # cs) =
     (if code c \<in> {9, 10, 13, 32} then lex cs
      else if c = CHR 0x22 then
        (case parse_body cs of None \<Rightarrow> None | Some (s, r) \<Rightarrow> map_option (Cons (TStr s)) (lex r))
      else if c \<in> set ''[]{},:'' then map_option (Cons (TPunct c)) (lex cs)
      else if take 4 (c # cs) = ''null'' then map_option (Cons TNull) (lex (drop 3 cs))
      else None)"
  by pat_completeness auto
termination by (relation "measure length") (auto dest: parse_body_shorter)

fun token_value :: "json_token \<Rightarrow> string option" where
  "token_value (TStr s) = Some s"
| "token_value TNull = Some []"
| "token_value (TPunct _) = None"

fun elements :: "json_token list \<Rightarrow> string list option" where
  "elements [v, TPunct p] =
     (if p = CHR '']'' then map_option (\<lambda>x. [x]) (token_value v) else None)"
| "elements (v # TPunct p # ts) =
     (if p = CHR '','' then (case token_value v of None \<Rightarrow> None | Some x \<Rightarrow> map_option (Cons x) (elements ts)) else None)"
| "elements _ = None"

definition unmarshal_strings :: "string \<Rightarrow> string list option" where
  "unmarshal_strings raw =
     (case lex raw of
        None \<Rightarrow> None
      | Some ts \<Rightarrow>
          if ts = [TNull] \<or> ts = [TPunct (CHR ''[''), TPunct (CHR '']'')] then Some []
          else (case ts of TPunct p # us \<Rightarrow> if p = CHR ''['' then elements us else None | _ \<Rightarrow> None))"

fun obj_members :: "json_token list \<Rightarrow> (string \<times> string) list option" where
  "obj_members (TStr k # TPunct q # v # TPunct p # ts) =
     (if q \<noteq> CHR '':'' then None
      else case token_value v of
          None \<Rightarrow> None
        | Some x \<Rightarrow>
            if p = CHR ''}'' then (if ts = [] then Some [(k, x)] else None)
            else if p = CHR '','' then map_option (Cons (k, x)) (obj_members ts)
            else None)"
| "obj_members _ = None"

text \<open>A later member of the same name replaces an earlier one.\<close>

definition unmarshal_map :: "string \<Rightarrow> (string, string) gomap option" where
  "unmarshal_map raw =
     (case lex raw of
        None \<Rightarrow> None
      | Some ts \<Rightarrow>
          if ts = [TNull] \<or> ts = [TPunct (CHR ''{''), TPunct (CHR ''}'')] then Some []
          else (case ts of
                  TPunct p # us \<Rightarrow>
                    if p = CHR ''{'' then map_option (\<lambda>kvs. fold (\<lambda>(k, v). AList.update k v) kvs []) (obj_members us) else None
                | _ \<Rightarrow> None))"

section \<open>Round trips\<close>

lemma hex_val_hex_lower [simp]: "d < 16 \<Longrightarrow> hex_val (hex_lower d) = Some d"
  by (auto simp: hex_val_def hex_lower_def Let_def)

lemma utf8_enc_ascii [simp]: "code c < 128 \<Longrightarrow> utf8_enc (code c) = [c]"
  by (simp add: utf8_enc_def)

lemma parse_body_plain:
  "32 \<le> code c \<Longrightarrow> code c < 128 \<Longrightarrow> c \<noteq> CHR 0x22 \<Longrightarrow> c \<noteq> CHR 0x5C \<Longrightarrow> parse_body (c # t) = prepend [c] (parse_body t)"
  by (simp add: utf8_len_def Let_def)

lemma parse_body_hex:
  "v < 0xD800 \<Longrightarrow> hex4 (d # e # f # g # t) = Some v \<Longrightarrow>
   parse_body (CHR 0x5C # CHR ''u'' # d # e # f # g # t) = prepend (utf8_enc v) (parse_body t)"
  by (simp del: hex4.simps)

lemma parse_body_control:
  assumes "code c < 128"
  shows "parse_body (CHR 0x5C # ''u00'' @ [hex_lower (code c div 16), hex_lower (code c mod 16)] @ t) = prepend [c] (parse_body t)"
proof -
  have "code c div 16 < 16" using assms by simp
  then have "hex4 (CHR ''0'' # CHR ''0'' # hex_lower (code c div 16) # hex_lower (code c mod 16) # t) = Some (code c)"
    by (simp add: hex_val_def [of "CHR ''0''"])
  from parse_body_hex [OF _ this] assms show ?thesis by simp
qed

lemma char_of_eqI: "code c = n \<Longrightarrow> c = char_of n"
  by auto

lemma parse_body_short:
  assumes "unescape e = Some c" "e \<noteq> CHR ''u''"
  shows "parse_body (CHR 0x5C # e # t) = prepend [c] (parse_body t)"
  using assms by simp

lemma parse_body_ascii:
  assumes "code c < 128"
  shows "parse_body (escape_ascii c @ t) = prepend [c] (parse_body t)"
proof -
  consider "c = CHR 0x22 \<or> c = CHR 0x5C" | "code c = 8" | "code c = 12" | "code c = 10" | "code c = 13" | "code c = 9"
    | "c \<noteq> CHR 0x22" "c \<noteq> CHR 0x5C" "code c \<notin> {8, 12, 10, 13, 9}" "code c < 32 \<or> c = CHR ''<'' \<or> c = CHR ''>'' \<or> c = CHR ''&''"
    | "c \<noteq> CHR 0x22" "c \<noteq> CHR 0x5C" "code c \<notin> {8, 12, 10, 13, 9}" "\<not> code c < 32" "\<not> (c = CHR ''<'' \<or> c = CHR ''>'' \<or> c = CHR ''&'')"
    by auto
  then show ?thesis
  proof cases
    case 7
    then have "escape_ascii c = CHR 0x5C # ''u00'' @ [hex_lower (code c div 16), hex_lower (code c mod 16)]"
      unfolding escape_ascii_def Let_def by simp
    with parse_body_control [OF assms] show ?thesis by simp
  next
    case 8
    then have "escape_ascii c = [c]" unfolding escape_ascii_def Let_def by simp
    with 8 assms parse_body_plain [of c t] show ?thesis by simp
  qed (auto simp: escape_ascii_def unescape_def dest!: char_of_eqI simp del: parse_body.simps intro!: parse_body_short)
qed

lemma conts_append: "conts n s \<Longrightarrow> conts n (take n s @ t)"
  by (auto simp: conts_def)

lemma hd_take_append: "conts n s \<Longrightarrow> 0 < n \<Longrightarrow> hd (take n s @ t) = hd s"
  by (cases s) (auto simp: conts_def take_Cons')

lemma utf8_len_bounds: "utf8_len s \<le> length s"
  by (auto simp: utf8_len_def conts_def Let_def split: list.splits)

lemma utf8_len_take:
  assumes "utf8_len s = n" "n \<noteq> 0"
  shows "utf8_len (take n s @ t) = n"
proof -
  obtain a r where s: "s = a # r" using assms by (cases s) (auto simp: utf8_len_def)
  show ?thesis
    using assms
    by (auto simp: s utf8_len_def Let_def conts_append hd_take_append numeral_eq_Suc take_Cons' split: if_splits)
qed

lemma parse_body_rune:
  assumes "utf8_len (c # cs) = n" "n \<noteq> 0" "128 \<le> code c"
  shows "parse_body (take n (c # cs) @ t) = prepend (take n (c # cs)) (parse_body t)"
proof -
  obtain m where n: "n = Suc m" using assms(2) by (cases n) auto
  have "c \<noteq> CHR 0x22" "c \<noteq> CHR 0x5C" using assms(3) by auto
  moreover have "utf8_len (c # take m cs @ t) = n"
    using utf8_len_take [OF assms(1,2), of t] by (simp add: n)
  moreover have "m \<le> length cs" using utf8_len_bounds [of "c # cs"] assms(1) n by simp
  ultimately show ?thesis using assms(3) by (simp add: n Let_def)
qed

lemma utf8_enc_separators: "utf8_enc 0x2028 = u2028" "utf8_enc 0x2029 = u2029"
  by (simp_all add: utf8_enc_def u2028_def u2029_def char_of_eq_iff)

lemma line_separators:
  "parse_body (CHR 0x5C # ''u2028'' @ t) = prepend u2028 (parse_body t)"
  "parse_body (CHR 0x5C # ''u2029'' @ t) = prepend u2029 (parse_body t)"
  using parse_body_hex [where v = "0x2028" and d = "CHR ''2''" and e = "CHR ''0''" and f = "CHR ''2''" and g = "CHR ''8''" and t = t]
        parse_body_hex [where v = "0x2029" and d = "CHR ''2''" and e = "CHR ''0''" and f = "CHR ''2''" and g = "CHR ''9''" and t = t]
  by (simp_all add: hex_val_def utf8_enc_separators del: parse_body.simps)

lemma prepend_Some [simp]: "prepend p (Some (s, r)) = Some (p @ s, r)"
  by (simp add: prepend_def)

lemma parse_escape_body: "utf8_valid s \<Longrightarrow> parse_body (escape_body s @ CHR 0x22 # r) = Some (s, r)"
proof (induction s rule: escape_body.induct)
  case (2 c cs)
  let ?n = "utf8_len (c # cs)"
  show ?case
  proof (cases "code c < 128")
    case True
    then have "?n = 1" by (simp add: utf8_len_def)
    with 2 True show ?thesis
      by (simp add: Let_def parse_body_ascii del: parse_body.simps)
  next
    case False
    from "2.prems" have n: "?n \<noteq> 0" by (auto simp: Let_def split: if_splits)
    with 2 False have IH: "parse_body (escape_body (drop (?n - 1) cs) @ CHR 0x22 # r) = Some (drop (?n - 1) cs, r)"
      by (auto simp: Let_def)
    have split: "take ?n (c # cs) @ drop (?n - 1) cs = c # cs"
      using n by (cases ?n) auto
    let ?rune = "take ?n (c # cs)" and ?t = "escape_body (drop (?n - 1) cs) @ CHR 0x22 # r"
    have esc: "escape_body (c # cs) @ CHR 0x22 # r =
        (if ?rune = u2028 then CHR 0x5C # ''u2028'' else if ?rune = u2029 then CHR 0x5C # ''u2029'' else ?rune) @ ?t"
      using False n by (simp add: Let_def)
    have "parse_body (escape_body (c # cs) @ CHR 0x22 # r) = prepend ?rune (parse_body ?t)"
      unfolding esc using parse_body_rune [of c cs ?n ?t] line_separators [of ?t] n False
      by (auto simp del: parse_body.simps)
    then show ?thesis using IH split by (simp del: parse_body.simps)
  qed
qed simp

lemma lex_marshal_string: "utf8_valid s \<Longrightarrow> lex (marshal_string s @ t) = map_option (Cons (TStr s)) (lex t)"
  by (simp add: marshal_string_def parse_escape_body del: parse_body.simps)

lemma lex_punct: "p \<in> set ''[]{},:'' \<Longrightarrow> lex (p # t) = map_option (Cons (TPunct p)) (lex t)"
  by auto

lemma lex_elements:
  assumes "xs \<noteq> []" "\<forall>x \<in> set xs. utf8_valid x"
  shows "\<exists>ts. lex (join_with '','' (map marshal_string xs) @ '']'') = Some ts \<and> elements ts = Some xs"
  using assms
proof (induction xs)
  case (Cons x xs)
  show ?case
  proof (cases xs)
    case Nil
    then show ?thesis using Cons.prems by (simp add: lex_marshal_string lex_punct del: lex.simps) simp
  next
    case (Cons y ys)
    then obtain ts where ts: "lex (join_with '','' (map marshal_string xs) @ '']'') = Some ts" "elements ts = Some xs"
      using Cons.IH Cons.prems by auto
    moreover have "ts \<noteq> []" using ts(2) by auto
    moreover obtain z zs where "ts = z # zs" using \<open>ts \<noteq> []\<close> by (cases ts) auto
    ultimately show ?thesis
      using Cons Cons.prems by (simp add: lex_marshal_string lex_punct join_with_Cons del: lex.simps)
  qed
qed simp

lemma unmarshal_marshal_strings:
  assumes "\<forall>x \<in> set xs. utf8_valid x"
  shows "unmarshal_strings (marshal_strings xs) = Some xs"
proof (cases "xs = []")
  case True
  then show ?thesis by (simp add: unmarshal_strings_def marshal_strings_def)
next
  case False
  with assms lex_elements obtain ts
    where ts: "lex (join_with '','' (map marshal_string xs) @ '']'') = Some ts" "elements ts = Some xs" by blast
  then have "lex (marshal_strings xs) = Some (TPunct (CHR ''['') # ts)"
    by (simp add: marshal_strings_def lex_punct del: lex.simps)
  with ts(2) False show ?thesis by (auto simp: unmarshal_strings_def)
qed

lemma utf8_valid_append: "utf8_valid s \<Longrightarrow> utf8_valid (s @ t) = utf8_valid t"
proof (induction s rule: utf8_valid.induct)
  case (2 c cs)
  let ?n = "utf8_len (c # cs)"
  have n: "?n \<noteq> 0" "utf8_valid (drop (?n - 1) cs)" using "2.prems" by (auto simp: Let_def split: if_splits)
  have le: "?n - 1 \<le> length cs" using utf8_len_bounds [of "c # cs"] by simp
  have "take ?n (c # cs) @ drop ?n (c # cs) @ t = c # cs @ t"
    by (simp add: append_assoc [symmetric] del: append_assoc)
  with utf8_len_take [OF refl n(1), of "drop ?n (c # cs) @ t"] have "utf8_len (c # cs @ t) = ?n" by simp
  then show ?case using n "2.IH" [OF refl n] le by (simp add: Let_def)
qed simp

end
