(* ===== verification/Topology_Graph.thy ===== *)
theory Topology_Graph
  imports Go_Json Go_Float
begin

text \<open>
  The topology store port and its two implementations: \<open>src/shared/graph/graph.go\<close> (the types and the
  promises), \<open>src/shared/graph/sqlstore/store.go\<close> (two SQL tables) and
  \<open>src/shared/graph/neo4jstore/store.go\<close> (nodes and relationships behind Cypher statements). The
  argument \<open>ok\<close> says of the \<open>k\<close>-th call to the database whether it succeeds; a failed call of a
  transaction rolls it back, a failed Cypher statement leaves the earlier ones in place. The order
  of an \<open>ORDER BY\<close> is an argument \<open>lt\<close>. The port is a locale; both stores are instances of it.
\<close>

section \<open>The port\<close>

record GraphNode =
  nd_Id :: string
  nd_State :: string
  nd_Team :: string
  nd_Repo :: string
  nd_Slack :: string
  nd_Tier :: string
  nd_Lifecycle :: string
  nd_Links :: "(string, string) gomap"

record GraphEdge =
  ed_Source :: string
  ed_Target :: string
  ed_IsCausal :: bool
  ed_Reason :: string
  ed_RequestCount :: int
  ed_ErrorCount :: int
  ed_AvgLatencyMs :: float64

record Graph =
  gr_Nodes :: "GraphNode list"
  gr_Edges :: "GraphEdge list"

record GraphLink =
  gl_Source :: string
  gl_Target :: string
  gl_Reason :: string

datatype graph_error = ErrEmptyTenant | ErrNoIncident | ErrBackend

text \<open>The writes of the port, each with its arguments after the tenant.\<close>

datatype graph_op =
    UpsertDependencyEdge string string
  | UpdateServiceState string string
  | UpsertServiceCatalog string string string string
  | UpsertServiceMetadata string string string "(string, string) gomap"
  | UpdateCausalPath string "GraphLink list"
  | DeleteTenant

definition requireTenant :: "string \<Rightarrow> graph_error option" where
  "requireTenant t = (if trim_space t = [] then Some ErrEmptyTenant else None)"

definition encodeLinks :: "(string, string) gomap \<Rightarrow> string" where
  "encodeLinks links = (if links = [] then ''{}'' else marshal_map links)"

definition decodeLinks :: "string \<Rightarrow> (string, string) gomap" where
  "decodeLinks raw = (if raw = [] \<or> raw = ''{}'' then []
     else case unmarshal_map raw of None \<Rightarrow> [] | Some m \<Rightarrow> m)"

definition decodeEntries :: "string \<Rightarrow> string list" where
  "decodeEntries raw = (if raw = [] then [] else case unmarshal_strings raw of None \<Rightarrow> [] | Some xs \<Rightarrow> xs)"

definition encodeEntries :: "string list \<Rightarrow> string" where
  "encodeEntries es = (if es = [] then ''[]'' else marshal_strings es)"

text \<open>\<open>strings.Cut(e, "::")\<close>: what follows the first separator, \<open>None\<close> when there is none.\<close>

fun cut_reason :: "string \<Rightarrow> string option" where
  "cut_reason (a # b # r) = (if a = CHR '':'' \<and> b = CHR '':'' then Some r else cut_reason (b # r))"
| "cut_reason _ = None"

definition reasonsOf :: "string list \<Rightarrow> string list" where
  "reasonsOf es = List.map_filter cut_reason es"

definition shown_state :: "string \<Rightarrow> string" where
  "shown_state s = (if s = [] then ''HEALTHY'' else s)"

definition shown_edge :: "string \<Rightarrow> string \<Rightarrow> string list \<Rightarrow> GraphEdge" where
  "shown_edge s t es = (let reasons = reasonsOf es in
     \<lparr>ed_Source = s, ed_Target = t, ed_IsCausal = (0 < length reasons), ed_Reason = join_with ''; '' reasons,
      ed_RequestCount = 0, ed_ErrorCount = 0, ed_AvgLatencyMs = Fl 0\<rparr>)"

definition edge_order :: "(string \<Rightarrow> string \<Rightarrow> bool) \<Rightarrow> string \<times> string \<Rightarrow> string \<times> string \<Rightarrow> bool" where
  "edge_order lt p q \<longleftrightarrow> lt (fst p) (fst q) \<or> (fst p = fst q \<and> lt (snd p) (snd q))"

definition entry_of :: "string \<Rightarrow> GraphLink \<Rightarrow> string" where
  "entry_of inc l = inc @ ''::'' @ gl_Reason l"

definition link_matches :: "GraphLink \<Rightarrow> string \<Rightarrow> string \<Rightarrow> bool" where
  "link_matches l s t \<longleftrightarrow> (s = gl_Source l \<and> t = gl_Target l) \<or> (s = gl_Target l \<and> t = gl_Source l)"

section \<open>The SQL store\<close>

record node_row =
  gn_tenant :: string
  gn_name :: string
  gn_state :: string
  gn_team :: string
  gn_repo :: string
  gn_slack :: string
  gn_tier :: string
  gn_lifecycle :: string
  gn_links :: string

record edge_row =
  ge_tenant :: string
  ge_source :: string
  ge_target :: string
  ge_entries :: string

record sql_graph =
  sg_nodes :: "node_row list"
  sg_edges :: "edge_row list"

text \<open>The columns' defaults.\<close>

definition new_node_row :: "string \<Rightarrow> string \<Rightarrow> node_row" where
  "new_node_row t n = \<lparr>gn_tenant = t, gn_name = n, gn_state = [], gn_team = [], gn_repo = [], gn_slack = [],
     gn_tier = [], gn_lifecycle = [], gn_links = ''{}''\<rparr>"

definition new_edge_row :: "string \<Rightarrow> string \<Rightarrow> string \<Rightarrow> edge_row" where
  "new_edge_row t a b = \<lparr>ge_tenant = t, ge_source = a, ge_target = b, ge_entries = ''[]''\<rparr>"

abbreviation node_key :: "node_row \<Rightarrow> string \<times> string" where
  "node_key r \<equiv> (gn_tenant r, gn_name r)"

abbreviation erow_key :: "edge_row \<Rightarrow> string \<times> string \<times> string" where
  "erow_key r \<equiv> (ge_tenant r, ge_source r, ge_target r)"

text \<open>\<open>INSERT ... ON CONFLICT (key) DO UPDATE\<close>: \<open>f\<close> writes the columns of the statement.\<close>

definition upsert_by :: "('r \<Rightarrow> 'k) \<Rightarrow> 'k \<Rightarrow> 'r \<Rightarrow> ('r \<Rightarrow> 'r) \<Rightarrow> 'r list \<Rightarrow> 'r list" where
  "upsert_by key k fresh f rows =
     (if k \<in> key ` set rows then map (\<lambda>r. if key r = k then f r else r) rows else rows @ [f fresh])"

definition upsert_node :: "string \<Rightarrow> string \<Rightarrow> (node_row \<Rightarrow> node_row) \<Rightarrow> sql_graph \<Rightarrow> sql_graph" where
  "upsert_node t n f d = d\<lparr>sg_nodes := upsert_by node_key (t, n) (new_node_row t n) f (sg_nodes d)\<rparr>"

text \<open>One call of a transaction, and a transaction: the calls are numbered in order.\<close>

definition stmt :: "(nat \<Rightarrow> bool) \<Rightarrow> ('s \<Rightarrow> 's) \<Rightarrow> nat \<times> 's \<Rightarrow> (nat \<times> 's) option" where
  "stmt ok f st = (case st of (k, s) \<Rightarrow> if ok k then Some (Suc k, f s) else None)"

definition run_tx :: "(nat \<Rightarrow> bool) \<Rightarrow> (nat \<times> 's \<Rightarrow> (nat \<times> 's) option) \<Rightarrow> 's \<Rightarrow> graph_error option \<times> 's" where
  "run_tx ok body s =
     (if \<not> ok 0 then (Some ErrBackend, s)
      else case body (1, s) of
          None \<Rightarrow> (Some ErrBackend, s)
        | Some (k, s') \<Rightarrow> if ok k then (None, s') else (Some ErrBackend, s))"

definition exec_one :: "(nat \<Rightarrow> bool) \<Rightarrow> ('s \<Rightarrow> 's) \<Rightarrow> 's \<Rightarrow> graph_error option \<times> 's" where
  "exec_one ok f s = (if ok 0 then (None, f s) else (Some ErrBackend, s))"

definition ensureNode :: "(nat \<Rightarrow> bool) \<Rightarrow> string \<Rightarrow> string \<Rightarrow> nat \<times> sql_graph \<Rightarrow> (nat \<times> sql_graph) option" where
  "ensureNode ok t n = stmt ok (upsert_node t n id)"

definition insert_edge :: "string \<Rightarrow> string \<Rightarrow> string \<Rightarrow> sql_graph \<Rightarrow> sql_graph" where
  "insert_edge t a b d = d\<lparr>sg_edges := upsert_by erow_key (t, a, b) (new_edge_row t a b) id (sg_edges d)\<rparr>"

definition sql_UpsertDependencyEdge ::
  "(nat \<Rightarrow> bool) \<Rightarrow> string \<Rightarrow> string \<Rightarrow> string \<Rightarrow> sql_graph \<Rightarrow> graph_error option \<times> sql_graph" where
  "sql_UpsertDependencyEdge ok t a b d =
     (case requireTenant t of Some e \<Rightarrow> (Some e, d)
      | None \<Rightarrow> run_tx ok (\<lambda>st0. Option.bind (ensureNode ok t a st0)
                   (\<lambda>st1. Option.bind (ensureNode ok t b st1) (stmt ok (insert_edge t a b)))) d)"

definition sql_UpdateServiceState ::
  "(nat \<Rightarrow> bool) \<Rightarrow> string \<Rightarrow> string \<Rightarrow> string \<Rightarrow> sql_graph \<Rightarrow> graph_error option \<times> sql_graph" where
  "sql_UpdateServiceState ok t svc state d =
     (case requireTenant t of Some e \<Rightarrow> (Some e, d)
      | None \<Rightarrow> exec_one ok (upsert_node t svc (\<lambda>r. r\<lparr>gn_state := state\<rparr>)) d)"

definition sql_UpsertServiceCatalog ::
  "(nat \<Rightarrow> bool) \<Rightarrow> string \<Rightarrow> string \<Rightarrow> string \<Rightarrow> string \<Rightarrow> string \<Rightarrow> sql_graph \<Rightarrow> graph_error option \<times> sql_graph" where
  "sql_UpsertServiceCatalog ok t svc team repo slack d =
     (case requireTenant t of Some e \<Rightarrow> (Some e, d)
      | None \<Rightarrow> exec_one ok (upsert_node t svc (\<lambda>r. r\<lparr>gn_team := team, gn_repo := repo, gn_slack := slack\<rparr>)) d)"

definition sql_UpsertServiceMetadata ::
  "(nat \<Rightarrow> bool) \<Rightarrow> string \<Rightarrow> string \<Rightarrow> string \<Rightarrow> string \<Rightarrow> (string, string) gomap \<Rightarrow> sql_graph \<Rightarrow> graph_error option \<times> sql_graph" where
  "sql_UpsertServiceMetadata ok t svc tier lifecycle links d =
     (case requireTenant t of Some e \<Rightarrow> (Some e, d)
      | None \<Rightarrow> exec_one ok (upsert_node t svc
          (\<lambda>r. r\<lparr>gn_tier := tier, gn_lifecycle := lifecycle, gn_links := encodeLinks links\<rparr>)) d)"

definition sql_DeleteTenant :: "(nat \<Rightarrow> bool) \<Rightarrow> string \<Rightarrow> sql_graph \<Rightarrow> graph_error option \<times> sql_graph" where
  "sql_DeleteTenant ok t d =
     (case requireTenant t of Some e \<Rightarrow> (Some e, d)
      | None \<Rightarrow> run_tx ok (\<lambda>st0. Option.bind (stmt ok (\<lambda>d. d\<lparr>sg_edges := filter (\<lambda>r. ge_tenant r \<noteq> t) (sg_edges d)\<rparr>) st0)
                   (stmt ok (\<lambda>d. d\<lparr>sg_nodes := filter (\<lambda>r. gn_tenant r \<noteq> t) (sg_nodes d)\<rparr>))) d)"

subsection \<open>Causal paths\<close>

definition set_entries :: "string \<Rightarrow> string \<Rightarrow> string \<Rightarrow> string \<Rightarrow> sql_graph \<Rightarrow> sql_graph" where
  "set_entries t a b txt d =
     d\<lparr>sg_edges := map (\<lambda>r. if erow_key r = (t, a, b) then r\<lparr>ge_entries := txt\<rparr> else r) (sg_edges d)\<rparr>"

text \<open>The loop over the rows a query returned: \<open>g\<close> computes the new column of a row, \<open>None\<close> when
  the row is passed over.\<close>

fun rewrite_rows ::
  "(nat \<Rightarrow> bool) \<Rightarrow> string \<Rightarrow> (edge_row \<Rightarrow> string option) \<Rightarrow> edge_row list \<Rightarrow> nat \<times> sql_graph \<Rightarrow> (nat \<times> sql_graph) option" where
  "rewrite_rows ok t g [] st = Some st"
| "rewrite_rows ok t g (r # rs) st =
     (case g r of
        None \<Rightarrow> rewrite_rows ok t g rs st
      | Some txt \<Rightarrow> Option.bind (stmt ok (set_entries t (ge_source r) (ge_target r) txt) st) (rewrite_rows ok t g rs))"

definition kept_entries :: "string \<Rightarrow> string list \<Rightarrow> string list" where
  "kept_entries inc es = filter (\<lambda>e. \<not> has_prefix (inc @ ''::'') e) es"

definition clear_row :: "string \<Rightarrow> edge_row \<Rightarrow> string option" where
  "clear_row inc r = (let before = decodeEntries (ge_entries r); kept = kept_entries inc before
     in if length kept = length before then None else Some (encodeEntries kept))"

definition clearIncident :: "(nat \<Rightarrow> bool) \<Rightarrow> string \<Rightarrow> string \<Rightarrow> nat \<times> sql_graph \<Rightarrow> (nat \<times> sql_graph) option" where
  "clearIncident ok t inc st = (case stmt ok id st of None \<Rightarrow> None
     | Some (k, d) \<Rightarrow>
         rewrite_rows ok t (clear_row inc)
           (filter (\<lambda>r. ge_tenant r = t \<and> ge_entries r \<noteq> ''[]'' \<and> ge_entries r \<noteq> []) (sg_edges d)) (k, d))"

definition add_row :: "string \<Rightarrow> GraphLink \<Rightarrow> edge_row \<Rightarrow> string option" where
  "add_row inc l r = Some (encodeEntries (decodeEntries (ge_entries r) @ [entry_of inc l]))"

definition addEntry :: "(nat \<Rightarrow> bool) \<Rightarrow> string \<Rightarrow> string \<Rightarrow> GraphLink \<Rightarrow> nat \<times> sql_graph \<Rightarrow> (nat \<times> sql_graph) option" where
  "addEntry ok t inc l st = (case stmt ok id st of None \<Rightarrow> None
     | Some (k, d) \<Rightarrow>
         rewrite_rows ok t (add_row inc l)
           (filter (\<lambda>r. ge_tenant r = t \<and> link_matches l (ge_source r) (ge_target r)) (sg_edges d)) (k, d))"

fun add_entries :: "(nat \<Rightarrow> bool) \<Rightarrow> string \<Rightarrow> string \<Rightarrow> GraphLink list \<Rightarrow> nat \<times> sql_graph \<Rightarrow> (nat \<times> sql_graph) option" where
  "add_entries ok t inc [] st = Some st"
| "add_entries ok t inc (l # ls) st = Option.bind (addEntry ok t inc l st) (add_entries ok t inc ls)"

definition sql_UpdateCausalPath ::
  "(nat \<Rightarrow> bool) \<Rightarrow> string \<Rightarrow> string \<Rightarrow> GraphLink list \<Rightarrow> sql_graph \<Rightarrow> graph_error option \<times> sql_graph" where
  "sql_UpdateCausalPath ok t inc links d =
     (case requireTenant t of Some e \<Rightarrow> (Some e, d)
      | None \<Rightarrow>
          if inc = [] then (Some ErrNoIncident, d)
          else run_tx ok (\<lambda>st. Option.bind (clearIncident ok t inc st) (add_entries ok t inc links)) d)"

subsection \<open>Reads\<close>

definition sql_names ::
  "(nat \<Rightarrow> bool) \<Rightarrow> (string \<Rightarrow> string \<Rightarrow> bool) \<Rightarrow> (edge_row \<Rightarrow> string) \<Rightarrow> (edge_row \<Rightarrow> bool) \<Rightarrow> string \<Rightarrow> sql_graph \<Rightarrow> graph_error + string list" where
  "sql_names ok lt col cond t d =
     (case requireTenant t of Some e \<Rightarrow> Err e
      | None \<Rightarrow> if ok 0 then Ok (stable_sort lt (map col (filter (\<lambda>r. ge_tenant r = t \<and> cond r) (sg_edges d)))) else Err ErrBackend)"

definition sql_GetDownstreamDependencies where
  "sql_GetDownstreamDependencies ok lt t svc = sql_names ok lt ge_source (\<lambda>r. ge_target r = svc) t"

definition sql_GetUpstreamDependencies where
  "sql_GetUpstreamDependencies ok lt t svc = sql_names ok lt ge_target (\<lambda>r. ge_source r = svc) t"

definition sql_GetServiceState :: "(nat \<Rightarrow> bool) \<Rightarrow> string \<Rightarrow> string \<Rightarrow> sql_graph \<Rightarrow> graph_error + string" where
  "sql_GetServiceState ok t svc d =
     (case requireTenant t of Some e \<Rightarrow> Err e
      | None \<Rightarrow> if \<not> ok 0 then Err ErrBackend
               else (case List.find (\<lambda>r. node_key r = (t, svc)) (sg_nodes d) of None \<Rightarrow> Ok [] | Some r \<Rightarrow> Ok (gn_state r)))"

definition row_node :: "node_row \<Rightarrow> GraphNode" where
  "row_node r = \<lparr>nd_Id = gn_name r, nd_State = shown_state (gn_state r), nd_Team = gn_team r, nd_Repo = gn_repo r,
     nd_Slack = gn_slack r, nd_Tier = gn_tier r, nd_Lifecycle = gn_lifecycle r, nd_Links = decodeLinks (gn_links r)\<rparr>"

definition row_edge :: "edge_row \<Rightarrow> GraphEdge" where
  "row_edge r = shown_edge (ge_source r) (ge_target r) (decodeEntries (ge_entries r))"

definition sql_view :: "(string \<Rightarrow> string \<Rightarrow> bool) \<Rightarrow> string \<Rightarrow> sql_graph \<Rightarrow> Graph" where
  "sql_view lt t d =
     \<lparr>gr_Nodes = map row_node (stable_sort (\<lambda>a b. lt (gn_name a) (gn_name b)) (filter (\<lambda>r. gn_tenant r = t) (sg_nodes d))),
      gr_Edges = map row_edge (stable_sort (\<lambda>a b. edge_order lt (ge_source a, ge_target a) (ge_source b, ge_target b))
                   (filter (\<lambda>r. ge_tenant r = t) (sg_edges d)))\<rparr>"

definition sql_GetGraph :: "(nat \<Rightarrow> bool) \<Rightarrow> (string \<Rightarrow> string \<Rightarrow> bool) \<Rightarrow> string \<Rightarrow> sql_graph \<Rightarrow> graph_error + Graph" where
  "sql_GetGraph ok lt t d =
     (case requireTenant t of Some e \<Rightarrow> Err e
      | None \<Rightarrow> if ok 0 \<and> ok 1 then Ok (sql_view lt t d) else Err ErrBackend)"

fun sql_run :: "(nat \<Rightarrow> bool) \<Rightarrow> string \<Rightarrow> graph_op \<Rightarrow> sql_graph \<Rightarrow> graph_error option \<times> sql_graph" where
  "sql_run ok t (UpsertDependencyEdge a b) d = sql_UpsertDependencyEdge ok t a b d"
| "sql_run ok t (UpdateServiceState svc state) d = sql_UpdateServiceState ok t svc state d"
| "sql_run ok t (UpsertServiceCatalog svc team repo slack) d = sql_UpsertServiceCatalog ok t svc team repo slack d"
| "sql_run ok t (UpsertServiceMetadata svc tier lifecycle links) d = sql_UpsertServiceMetadata ok t svc tier lifecycle links d"
| "sql_run ok t (UpdateCausalPath inc links) d = sql_UpdateCausalPath ok t inc links d"
| "sql_run ok t DeleteTenant d = sql_DeleteTenant ok t d"

section \<open>The Neo4j store\<close>

text \<open>A \<open>Service\<close> node is identified by the name and tenant it was merged on; a property that was never
  set is \<open>None\<close>. A relationship joins two nodes of one tenant.\<close>

record cy_node =
  cn_tenant :: string
  cn_name :: string
  cn_state :: "string option"
  cn_team :: "string option"
  cn_repo :: "string option"
  cn_slack :: "string option"
  cn_tier :: "string option"
  cn_lifecycle :: "string option"
  cn_links :: "string option"

record cy_rel =
  cr_tenant :: string
  cr_source :: string
  cr_target :: string
  cr_entries :: "string list option"

record cypher_graph =
  cg_nodes :: "cy_node list"
  cg_rels :: "cy_rel list"

definition new_cy_node :: "string \<Rightarrow> string \<Rightarrow> cy_node" where
  "new_cy_node t n = \<lparr>cn_tenant = t, cn_name = n, cn_state = None, cn_team = None, cn_repo = None, cn_slack = None,
     cn_tier = None, cn_lifecycle = None, cn_links = None\<rparr>"

definition new_cy_rel :: "string \<Rightarrow> string \<Rightarrow> string \<Rightarrow> cy_rel" where
  "new_cy_rel t a b = \<lparr>cr_tenant = t, cr_source = a, cr_target = b, cr_entries = None\<rparr>"

abbreviation cy_key :: "cy_node \<Rightarrow> string \<times> string" where
  "cy_key n \<equiv> (cn_tenant n, cn_name n)"

abbreviation rel_key :: "cy_rel \<Rightarrow> string \<times> string \<times> string" where
  "rel_key r \<equiv> (cr_tenant r, cr_source r, cr_target r)"

text \<open>\<open>MERGE (s:Service {name, tenant}) SET ...\<close>, and \<open>MERGE (f)-[:DEPENDS_ON]->(t)\<close>.\<close>

definition merge_node :: "string \<Rightarrow> string \<Rightarrow> (cy_node \<Rightarrow> cy_node) \<Rightarrow> cypher_graph \<Rightarrow> cypher_graph" where
  "merge_node t n f g = g\<lparr>cg_nodes := upsert_by cy_key (t, n) (new_cy_node t n) f (cg_nodes g)\<rparr>"

definition merge_rel :: "string \<Rightarrow> string \<Rightarrow> string \<Rightarrow> cypher_graph \<Rightarrow> cypher_graph" where
  "merge_rel t a b g = g\<lparr>cg_rels := upsert_by rel_key (t, a, b) (new_cy_rel t a b) id (cg_rels g)\<rparr>"

definition cy_coalesce :: "'a \<Rightarrow> 'a option \<Rightarrow> 'a" where
  "cy_coalesce d v = (case v of None \<Rightarrow> d | Some x \<Rightarrow> x)"

definition cy_UpsertDependencyEdge ::
  "(nat \<Rightarrow> bool) \<Rightarrow> string \<Rightarrow> string \<Rightarrow> string \<Rightarrow> cypher_graph \<Rightarrow> graph_error option \<times> cypher_graph" where
  "cy_UpsertDependencyEdge ok t a b g =
     (case requireTenant t of Some e \<Rightarrow> (Some e, g)
      | None \<Rightarrow> exec_one ok (\<lambda>g. merge_rel t a b (merge_node t b id (merge_node t a id g))) g)"

definition cy_UpdateServiceState ::
  "(nat \<Rightarrow> bool) \<Rightarrow> string \<Rightarrow> string \<Rightarrow> string \<Rightarrow> cypher_graph \<Rightarrow> graph_error option \<times> cypher_graph" where
  "cy_UpdateServiceState ok t svc state g =
     (case requireTenant t of Some e \<Rightarrow> (Some e, g)
      | None \<Rightarrow> exec_one ok (merge_node t svc (\<lambda>n. n\<lparr>cn_state := Some state\<rparr>)) g)"

definition cy_UpsertServiceCatalog ::
  "(nat \<Rightarrow> bool) \<Rightarrow> string \<Rightarrow> string \<Rightarrow> string \<Rightarrow> string \<Rightarrow> string \<Rightarrow> cypher_graph \<Rightarrow> graph_error option \<times> cypher_graph" where
  "cy_UpsertServiceCatalog ok t svc team repo slack g =
     (case requireTenant t of Some e \<Rightarrow> (Some e, g)
      | None \<Rightarrow> exec_one ok (merge_node t svc (\<lambda>n. n\<lparr>cn_team := Some team, cn_repo := Some repo, cn_slack := Some slack\<rparr>)) g)"

definition cy_UpsertServiceMetadata ::
  "(nat \<Rightarrow> bool) \<Rightarrow> string \<Rightarrow> string \<Rightarrow> string \<Rightarrow> string \<Rightarrow> (string, string) gomap \<Rightarrow> cypher_graph \<Rightarrow> graph_error option \<times> cypher_graph" where
  "cy_UpsertServiceMetadata ok t svc tier lifecycle links g =
     (case requireTenant t of Some e \<Rightarrow> (Some e, g)
      | None \<Rightarrow> exec_one ok (merge_node t svc
          (\<lambda>n. n\<lparr>cn_tier := Some tier, cn_lifecycle := Some lifecycle, cn_links := Some (encodeLinks links)\<rparr>)) g)"

text \<open>\<open>DETACH DELETE\<close> removes the nodes with their relationships.\<close>

definition cy_DeleteTenant :: "(nat \<Rightarrow> bool) \<Rightarrow> string \<Rightarrow> cypher_graph \<Rightarrow> graph_error option \<times> cypher_graph" where
  "cy_DeleteTenant ok t g =
     (case requireTenant t of Some e \<Rightarrow> (Some e, g)
      | None \<Rightarrow> exec_one ok (\<lambda>g. g\<lparr>cg_nodes := filter (\<lambda>n. cn_tenant n \<noteq> t) (cg_nodes g),
                                cg_rels := filter (\<lambda>r. cr_tenant r \<noteq> t) (cg_rels g)\<rparr>) g)"

definition cy_clear :: "string \<Rightarrow> string \<Rightarrow> cypher_graph \<Rightarrow> cypher_graph" where
  "cy_clear t inc g = g\<lparr>cg_rels := map (\<lambda>r.
     if cr_tenant r = t \<and> 0 < length (cy_coalesce [] (cr_entries r))
     then r\<lparr>cr_entries := Some (kept_entries inc (cy_coalesce [] (cr_entries r)))\<rparr> else r) (cg_rels g)\<rparr>"

definition cy_add :: "string \<Rightarrow> string \<Rightarrow> GraphLink \<Rightarrow> cypher_graph \<Rightarrow> cypher_graph" where
  "cy_add t inc l g = g\<lparr>cg_rels := map (\<lambda>r.
     if cr_tenant r = t \<and> link_matches l (cr_source r) (cr_target r)
     then r\<lparr>cr_entries := Some (cy_coalesce [] (cr_entries r) @ [entry_of inc l])\<rparr> else r) (cg_rels g)\<rparr>"

fun cy_add_all :: "(nat \<Rightarrow> bool) \<Rightarrow> nat \<Rightarrow> string \<Rightarrow> string \<Rightarrow> GraphLink list \<Rightarrow> cypher_graph \<Rightarrow> graph_error option \<times> cypher_graph" where
  "cy_add_all ok k t inc [] g = (None, g)"
| "cy_add_all ok k t inc (l # ls) g =
     (if ok k then cy_add_all ok (Suc k) t inc ls (cy_add t inc l g) else (Some ErrBackend, g))"

definition cy_UpdateCausalPath ::
  "(nat \<Rightarrow> bool) \<Rightarrow> string \<Rightarrow> string \<Rightarrow> GraphLink list \<Rightarrow> cypher_graph \<Rightarrow> graph_error option \<times> cypher_graph" where
  "cy_UpdateCausalPath ok t inc links g =
     (case requireTenant t of Some e \<Rightarrow> (Some e, g)
      | None \<Rightarrow>
          if inc = [] then (Some ErrNoIncident, g)
          else if \<not> ok 0 then (Some ErrBackend, g)
          else cy_add_all ok 1 t inc links (cy_clear t inc g))"

text \<open>The reads; a record whose name is empty is left out of a list of names.\<close>

definition cy_names ::
  "(nat \<Rightarrow> bool) \<Rightarrow> (string \<Rightarrow> string \<Rightarrow> bool) \<Rightarrow> (cy_rel \<Rightarrow> string) \<Rightarrow> (cy_rel \<Rightarrow> bool) \<Rightarrow> string \<Rightarrow> cypher_graph \<Rightarrow> graph_error + string list" where
  "cy_names ok lt col cond t g =
     (case requireTenant t of Some e \<Rightarrow> Err e
      | None \<Rightarrow> if ok 0 then Ok (filter (\<lambda>n. n \<noteq> []) (stable_sort lt (map col (filter (\<lambda>r. cr_tenant r = t \<and> cond r) (cg_rels g)))))
               else Err ErrBackend)"

definition cy_GetDownstreamDependencies where
  "cy_GetDownstreamDependencies ok lt t svc = cy_names ok lt cr_source (\<lambda>r. cr_target r = svc) t"

definition cy_GetUpstreamDependencies where
  "cy_GetUpstreamDependencies ok lt t svc = cy_names ok lt cr_target (\<lambda>r. cr_source r = svc) t"

definition cy_GetServiceState :: "(nat \<Rightarrow> bool) \<Rightarrow> string \<Rightarrow> string \<Rightarrow> cypher_graph \<Rightarrow> graph_error + string" where
  "cy_GetServiceState ok t svc g =
     (case requireTenant t of Some e \<Rightarrow> Err e
      | None \<Rightarrow> if \<not> ok 0 then Err ErrBackend
               else (case List.find (\<lambda>n. cy_key n = (t, svc)) (cg_nodes g) of
                       None \<Rightarrow> Ok [] | Some n \<Rightarrow> Ok (cy_coalesce [] (cn_state n))))"

definition cy_node_shown :: "cy_node \<Rightarrow> GraphNode" where
  "cy_node_shown n = \<lparr>nd_Id = cn_name n, nd_State = shown_state (cy_coalesce [] (cn_state n)), nd_Team = cy_coalesce [] (cn_team n),
     nd_Repo = cy_coalesce [] (cn_repo n), nd_Slack = cy_coalesce [] (cn_slack n), nd_Tier = cy_coalesce [] (cn_tier n),
     nd_Lifecycle = cy_coalesce [] (cn_lifecycle n), nd_Links = decodeLinks (cy_coalesce [] (cn_links n))\<rparr>"

definition cy_rel_shown :: "cy_rel \<Rightarrow> GraphEdge" where
  "cy_rel_shown r = shown_edge (cr_source r) (cr_target r) (cy_coalesce [] (cr_entries r))"

definition cy_view :: "(string \<Rightarrow> string \<Rightarrow> bool) \<Rightarrow> string \<Rightarrow> cypher_graph \<Rightarrow> Graph" where
  "cy_view lt t g =
     \<lparr>gr_Nodes = map cy_node_shown (stable_sort (\<lambda>a b. lt (cn_name a) (cn_name b)) (filter (\<lambda>n. cn_tenant n = t) (cg_nodes g))),
      gr_Edges = map cy_rel_shown (stable_sort (\<lambda>a b. edge_order lt (cr_source a, cr_target a) (cr_source b, cr_target b))
                   (filter (\<lambda>r. cr_tenant r = t) (cg_rels g)))\<rparr>"

definition cy_GetGraph :: "(nat \<Rightarrow> bool) \<Rightarrow> (string \<Rightarrow> string \<Rightarrow> bool) \<Rightarrow> string \<Rightarrow> cypher_graph \<Rightarrow> graph_error + Graph" where
  "cy_GetGraph ok lt t g =
     (case requireTenant t of Some e \<Rightarrow> Err e
      | None \<Rightarrow> if ok 0 \<and> ok 1 then Ok (cy_view lt t g) else Err ErrBackend)"

fun cy_run :: "(nat \<Rightarrow> bool) \<Rightarrow> string \<Rightarrow> graph_op \<Rightarrow> cypher_graph \<Rightarrow> graph_error option \<times> cypher_graph" where
  "cy_run ok t (UpsertDependencyEdge a b) g = cy_UpsertDependencyEdge ok t a b g"
| "cy_run ok t (UpdateServiceState svc state) g = cy_UpdateServiceState ok t svc state g"
| "cy_run ok t (UpsertServiceCatalog svc team repo slack) g = cy_UpsertServiceCatalog ok t svc team repo slack g"
| "cy_run ok t (UpsertServiceMetadata svc tier lifecycle links) g = cy_UpsertServiceMetadata ok t svc tier lifecycle links g"
| "cy_run ok t (UpdateCausalPath inc links) g = cy_UpdateCausalPath ok t inc links g"
| "cy_run ok t DeleteTenant g = cy_DeleteTenant ok t g"

section \<open>Effects of the writes\<close>

lemma upsert_by_keys:
  assumes "\<And>r. key (f r) = key r" "key fresh = k"
  shows "distinct (map key rows) \<Longrightarrow> distinct (map key (upsert_by key k fresh f rows))"
    and "key ` set (upsert_by key k fresh f rows) = insert k (key ` set rows)"
proof -
  have upd: "map key (map (\<lambda>r. if key r = k then f r else r) rows) = map key rows" using assms by simp
  show "distinct (map key rows) \<Longrightarrow> distinct (map key (upsert_by key k fresh f rows))"
    by (simp add: upsert_by_def assms upd del: map_map)
  show "key ` set (upsert_by key k fresh f rows) = insert k (key ` set rows)"
  proof (cases "k \<in> key ` set rows")
    case True
    then have "set (map key (upsert_by key k fresh f rows)) = set (map key rows)" by (simp add: upsert_by_def upd del: map_map set_map)
    with True show ?thesis by (simp add: insert_absorb)
  qed (simp add: upsert_by_def assms)
qed

lemma upsert_by_filter:
  assumes "\<And>r. key r = k \<Longrightarrow> \<not> P r" "\<And>r. key r = k \<Longrightarrow> \<not> P (f r)" "key fresh = k"
  shows "filter P (upsert_by key k fresh f rows) = filter P rows"
proof -
  have "filter P (map (\<lambda>r. if key r = k then f r else r) rows) = filter P rows"
    by (induction rows) (use assms in auto)
  moreover have "\<not> P (f fresh)" using assms(2,3) by blast
  ultimately show ?thesis by (simp add: upsert_by_def)
qed

lemma upsert_by_map:
  assumes "\<And>r. key' (h r) = key r" "\<And>r. h (f r) = f' (h r)" "h fresh = fresh'"
  shows "upsert_by key' k fresh' f' (map h rows) = map h (upsert_by key k fresh f rows)"
  using assms by (auto simp: upsert_by_def image_image)

lemma encodeEntries_decode:
  assumes "\<forall>e \<in> set es. utf8_valid e"
  shows "decodeEntries (encodeEntries es) = es"
proof (cases "es = []")
  case True
  have "unmarshal_strings ''[]'' = Some []" by (simp add: unmarshal_strings_def)
  with True show ?thesis by (simp add: decodeEntries_def encodeEntries_def)
next
  case False
  moreover have "marshal_strings es \<noteq> []" by (simp add: marshal_strings_def)
  ultimately show ?thesis
    using unmarshal_marshal_strings [OF assms] by (simp add: decodeEntries_def encodeEntries_def)
qed

text \<open>The column of an edge holds the JSON of a list of texts; the writes keep it so.\<close>

definition entries_ok :: "edge_row \<Rightarrow> bool" where
  "entries_ok r \<longleftrightarrow> encodeEntries (decodeEntries (ge_entries r)) = ge_entries r \<and>
     (\<forall>e \<in> set (decodeEntries (ge_entries r)). utf8_valid e)"

definition valid_op :: "graph_op \<Rightarrow> bool" where
  "valid_op op = (case op of
     UpdateCausalPath inc links \<Rightarrow> utf8_valid inc \<and> (\<forall>l \<in> set links. utf8_valid (gl_Reason l))
   | _ \<Rightarrow> True)"

definition sql_inv :: "sql_graph \<Rightarrow> bool" where
  "sql_inv d \<longleftrightarrow> distinct (map node_key (sg_nodes d)) \<and> distinct (map erow_key (sg_edges d)) \<and>
     (\<forall>r \<in> set (sg_edges d). entries_ok r \<and>
        (ge_tenant r, ge_source r) \<in> node_key ` set (sg_nodes d) \<and> (ge_tenant r, ge_target r) \<in> node_key ` set (sg_nodes d))"

definition cleared :: "string \<Rightarrow> string \<Rightarrow> edge_row \<Rightarrow> edge_row" where
  "cleared t inc r = (if ge_tenant r = t then r\<lparr>ge_entries := encodeEntries (kept_entries inc (decodeEntries (ge_entries r)))\<rparr> else r)"

definition appended :: "string \<Rightarrow> string \<Rightarrow> GraphLink \<Rightarrow> edge_row \<Rightarrow> edge_row" where
  "appended t inc l r =
     (if ge_tenant r = t \<and> link_matches l (ge_source r) (ge_target r)
      then r\<lparr>ge_entries := encodeEntries (decodeEntries (ge_entries r) @ [entry_of inc l])\<rparr> else r)"

lemma erow_key_inj:
  "distinct (map erow_key rows) \<Longrightarrow> r \<in> set rows \<Longrightarrow> r' \<in> set rows \<Longrightarrow> erow_key r = erow_key r' \<Longrightarrow> r = r'"
  using inj_on_eq_iff [of erow_key "set rows" r r'] by (simp add: distinct_map)

definition rewritten :: "(edge_row \<Rightarrow> string option) \<Rightarrow> edge_row \<Rightarrow> edge_row" where
  "rewritten g r = (case g r of None \<Rightarrow> r | Some x \<Rightarrow> r\<lparr>ge_entries := x\<rparr>)"

lemma rewritten_key [simp]:
  "ge_tenant (rewritten g r) = ge_tenant r" "ge_source (rewritten g r) = ge_source r" "ge_target (rewritten g r) = ge_target r"
  by (simp_all add: rewritten_def split: option.splits)

lemma set_entries_row:
  assumes "distinct (map erow_key (sg_edges d))" "r \<in> set (sg_edges d)" "ge_tenant r = t" "g r = Some x"
  shows "set_entries t (ge_source r) (ge_target r) x d =
           d\<lparr>sg_edges := map (\<lambda>q. if q = r then rewritten g q else q) (sg_edges d)\<rparr>"
proof -
  have "\<And>q. q \<in> set (sg_edges d) \<Longrightarrow> (erow_key q = (t, ge_source r, ge_target r)) = (q = r)"
    using erow_key_inj [OF assms(1) _ assms(2)] assms(3) by auto
  then show ?thesis using assms(4) by (simp add: set_entries_def rewritten_def)
qed

lemma rewrite_rows_effect:
  assumes "rewrite_rows ok t g rs (k, d) = Some (k', d')" "distinct (map erow_key (sg_edges d))" "distinct rs"
    and "set rs \<subseteq> set (sg_edges d)" "\<forall>r \<in> set rs. ge_tenant r = t"
  shows "d' = d\<lparr>sg_edges := map (\<lambda>r. if r \<in> set rs then rewritten g r else r) (sg_edges d)\<rparr>"
  using assms
proof (induction rs arbitrary: k d)
  case (Cons r rs)
  show ?case
  proof (cases "g r")
    case None
    with Cons.prems have "d' = d\<lparr>sg_edges := map (\<lambda>q. if q \<in> set rs then rewritten g q else q) (sg_edges d)\<rparr>"
      by (intro Cons.IH) auto
    with None show ?thesis by (auto simp: rewritten_def)
  next
    case (Some x)
    let ?d = "set_entries t (ge_source r) (ge_target r) x d"
    have d1: "?d = d\<lparr>sg_edges := map (\<lambda>q. if q = r then rewritten g q else q) (sg_edges d)\<rparr>"
      using Cons.prems Some by (intro set_entries_row) auto
    have run: "rewrite_rows ok t g rs (Suc k, ?d) = Some (k', d')"
      using Cons.prems(1) Some by (auto simp: stmt_def split: if_splits)
    have keys: "map erow_key (sg_edges ?d) = map erow_key (sg_edges d)" by (simp add: d1)
    have "d' = ?d\<lparr>sg_edges := map (\<lambda>q. if q \<in> set rs then rewritten g q else q) (sg_edges ?d)\<rparr>"
    proof (rule Cons.IH [OF run])
      show "distinct (map erow_key (sg_edges ?d))" unfolding keys using Cons.prems by simp
      show "set rs \<subseteq> set (sg_edges ?d)" using Cons.prems by (auto simp: d1)
    qed (use Cons.prems in auto)
    moreover have "rewritten g r \<notin> set rs"
      using erow_key_inj [OF Cons.prems(2), of "rewritten g r" r] Cons.prems(3,4) by auto
    ultimately show ?thesis using Cons.prems(3) by (auto simp: d1)
  qed
qed simp

lemma rewrite_rows_total: "\<forall>k. ok k \<Longrightarrow> \<exists>k' d'. rewrite_rows ok t g rs st = Some (k', d')"
  by (induction rs arbitrary: st) (auto simp: stmt_def split: option.splits prod.splits)

lemma length_filter_eq: "length (filter P xs) = length xs \<longleftrightarrow> filter P xs = xs"
  by (metis filter_True length_filter_less less_irrefl)

lemma clear_row_effect: "entries_ok r \<Longrightarrow> ge_tenant r = t \<Longrightarrow> rewritten (clear_row inc) r = cleared t inc r"
  by (auto simp: rewritten_def clear_row_def cleared_def kept_entries_def entries_ok_def Let_def length_filter_eq)

lemma decodeEntries_trivial [simp]: "decodeEntries [] = []" "decodeEntries ''[]'' = []"
  using encodeEntries_decode [of "[]"] by (simp_all add: decodeEntries_def encodeEntries_def)

lemma cleared_trivial:
  "entries_ok r \<Longrightarrow> ge_tenant r \<noteq> t \<or> ge_entries r = [] \<or> ge_entries r = ''[]'' \<Longrightarrow> cleared t inc r = r"
  by (auto simp: cleared_def kept_entries_def entries_ok_def)

lemma clearIncident_effect:
  assumes "clearIncident ok t inc (k, d) = Some (k', d')" "distinct (map erow_key (sg_edges d))" "\<forall>r \<in> set (sg_edges d). entries_ok r"
  shows "d' = d\<lparr>sg_edges := map (cleared t inc) (sg_edges d)\<rparr>"
proof -
  let ?rs = "filter (\<lambda>r. ge_tenant r = t \<and> ge_entries r \<noteq> ''[]'' \<and> ge_entries r \<noteq> []) (sg_edges d)"
  have "rewrite_rows ok t (clear_row inc) ?rs (Suc k, d) = Some (k', d')"
    using assms(1) by (auto simp: clearIncident_def stmt_def split: if_splits)
  then have eff: "d' = d\<lparr>sg_edges := map (\<lambda>r. if r \<in> set ?rs then rewritten (clear_row inc) r else r) (sg_edges d)\<rparr>"
    by (rule rewrite_rows_effect [OF _ assms(2)]) (use assms(2) in \<open>simp_all add: distinct_map subset_iff\<close>)
  have pw: "(if r \<in> set ?rs then rewritten (clear_row inc) r else r) = cleared t inc r" if "r \<in> set (sg_edges d)" for r
  proof (cases "r \<in> set ?rs")
    case True
    then have "ge_tenant r = t" by simp
    with True that assms(3) show ?thesis using clear_row_effect by simp
  next
    case False
    with that have "ge_tenant r \<noteq> t \<or> ge_entries r = [] \<or> ge_entries r = ''[]''" by auto
    then have "cleared t inc r = r" using that assms(3) by (intro cleared_trivial) auto
    with False show ?thesis by (simp only: if_False)
  qed
  show ?thesis unfolding eff using pw by (simp del: set_filter cong: map_cong)
qed

lemma addEntry_effect:
  assumes "addEntry ok t inc l (k, d) = Some (k', d')" "distinct (map erow_key (sg_edges d))"
  shows "d' = d\<lparr>sg_edges := map (appended t inc l) (sg_edges d)\<rparr>"
proof -
  let ?rs = "filter (\<lambda>r. ge_tenant r = t \<and> link_matches l (ge_source r) (ge_target r)) (sg_edges d)"
  have "rewrite_rows ok t (add_row inc l) ?rs (Suc k, d) = Some (k', d')"
    using assms(1) by (auto simp: addEntry_def stmt_def split: if_splits)
  then have eff: "d' = d\<lparr>sg_edges := map (\<lambda>r. if r \<in> set ?rs then rewritten (add_row inc l) r else r) (sg_edges d)\<rparr>"
    by (rule rewrite_rows_effect [OF _ assms(2)]) (use assms(2) in \<open>simp_all add: distinct_map subset_iff\<close>)
  show ?thesis unfolding eff by (simp add: appended_def rewritten_def add_row_def)
qed

lemma appended_key [simp]:
  "ge_tenant (appended t inc l r) = ge_tenant r" "ge_source (appended t inc l r) = ge_source r" "ge_target (appended t inc l r) = ge_target r"
  by (simp_all add: appended_def)

lemma cleared_key [simp]:
  "ge_tenant (cleared t inc r) = ge_tenant r" "ge_source (cleared t inc r) = ge_source r" "ge_target (cleared t inc r) = ge_target r"
  by (simp_all add: cleared_def)

lemma add_entries_effect:
  assumes "add_entries ok t inc ls (k, d) = Some (k', d')" "distinct (map erow_key (sg_edges d))"
  shows "d' = d\<lparr>sg_edges := map (fold (appended t inc) ls) (sg_edges d)\<rparr>"
  using assms
proof (induction ls arbitrary: k d)
  case (Cons l ls)
  then obtain k1 d1 where d1: "addEntry ok t inc l (k, d) = Some (k1, d1)" "add_entries ok t inc ls (k1, d1) = Some (k', d')"
    by (cases "addEntry ok t inc l (k, d)") auto
  note eff = addEntry_effect [OF d1(1) Cons.prems(2)]
  have "map erow_key (sg_edges d1) = map erow_key (sg_edges d)" by (simp add: eff)
  with Cons.IH [OF d1(2)] Cons.prems(2) have "d' = d1\<lparr>sg_edges := map (fold (appended t inc) ls) (sg_edges d1)\<rparr>"
    by (simp del: map_map)
  then show ?case by (simp add: eff comp_def)
qed simp

definition causal_row :: "string \<Rightarrow> string \<Rightarrow> GraphLink list \<Rightarrow> edge_row \<Rightarrow> edge_row" where
  "causal_row t inc links r = fold (appended t inc) links (cleared t inc r)"

lemma UpdateCausalPath_effect:
  assumes "sql_UpdateCausalPath ok t inc links d = (None, d')" "sql_inv d"
  shows "d' = d\<lparr>sg_edges := map (causal_row t inc links) (sg_edges d)\<rparr>" "trim_space t \<noteq> []" "inc \<noteq> []"
proof -
  from assms(1) obtain k1 d1 k2 where run: "clearIncident ok t inc (1, d) = Some (k1, d1)" "add_entries ok t inc links (k1, d1) = Some (k2, d')"
    and "trim_space t \<noteq> []" "inc \<noteq> []"
    by (auto simp: sql_UpdateCausalPath_def run_tx_def requireTenant_def bind_eq_Some_conv split: if_splits option.splits)
  then show "trim_space t \<noteq> []" "inc \<noteq> []" by simp_all
  have inv: "distinct (map erow_key (sg_edges d))" "\<forall>r \<in> set (sg_edges d). entries_ok r" using assms(2) by (auto simp: sql_inv_def)
  note d1 = clearIncident_effect [OF run(1) inv]
  have "map erow_key (sg_edges d1) = map erow_key (sg_edges d)" by (simp add: d1)
  with add_entries_effect [OF run(2)] inv have "d' = d1\<lparr>sg_edges := map (fold (appended t inc) links) (sg_edges d1)\<rparr>"
    by (simp del: map_map)
  then show "d' = d\<lparr>sg_edges := map (causal_row t inc links) (sg_edges d)\<rparr>" by (simp add: d1 causal_row_def comp_def)
qed

lemma add_entries_total: "\<forall>k. ok k \<Longrightarrow> \<exists>k' d'. add_entries ok t inc ls st = Some (k', d')"
proof (induction ls arbitrary: st)
  case (Cons l ls)
  obtain k d where st: "st = (k, d)" by (cases st)
  obtain k1 d1 where "addEntry ok t inc l st = Some (k1, d1)"
    using rewrite_rows_total [OF Cons.prems] Cons.prems by (fastforce simp: addEntry_def stmt_def st)
  moreover obtain k2 d2 where "add_entries ok t inc ls (k1, d1) = Some (k2, d2)"
    using Cons.IH [OF Cons.prems] by blast
  ultimately show ?case by simp
qed simp

lemma UpdateCausalPath_total:
  assumes "\<forall>k. ok k" "trim_space t \<noteq> []" "inc \<noteq> []"
  shows "\<exists>d'. sql_UpdateCausalPath ok t inc links d = (None, d')"
proof -
  obtain k1 d1 where "clearIncident ok t inc (1, d) = Some (k1, d1)"
    using rewrite_rows_total [OF assms(1)] assms(1) by (fastforce simp: clearIncident_def stmt_def)
  moreover obtain k2 d2 where "add_entries ok t inc links (k1, d1) = Some (k2, d2)"
    using add_entries_total [OF assms(1)] by blast
  ultimately show ?thesis using assms by (simp add: sql_UpdateCausalPath_def requireTenant_def run_tx_def)
qed

subsection \<open>The invariant\<close>

lemma fold_appended_key [simp]:
  "ge_tenant (fold (appended t inc) ls r) = ge_tenant r" "ge_source (fold (appended t inc) ls r) = ge_source r"
  "ge_target (fold (appended t inc) ls r) = ge_target r"
  by (induction ls arbitrary: r) simp_all

lemma causal_row_key [simp]:
  "ge_tenant (causal_row t inc ls r) = ge_tenant r" "ge_source (causal_row t inc ls r) = ge_source r"
  "ge_target (causal_row t inc ls r) = ge_target r"
  by (simp_all add: causal_row_def)

lemma utf8_valid_entry: "utf8_valid inc \<Longrightarrow> utf8_valid (gl_Reason l) \<Longrightarrow> utf8_valid (entry_of inc l)"
  by (simp add: entry_of_def utf8_valid_append utf8_len_def)

lemma decode_cleared:
  assumes "entries_ok r" "ge_tenant r = t"
  shows "decodeEntries (ge_entries (cleared t inc r)) = kept_entries inc (decodeEntries (ge_entries r))"
  using assms encodeEntries_decode [of "kept_entries inc (decodeEntries (ge_entries r))"]
  by (simp add: cleared_def entries_ok_def kept_entries_def)

lemma decode_appended:
  assumes "entries_ok r" "utf8_valid (entry_of inc l)"
  shows "decodeEntries (ge_entries (appended t inc l r)) =
     decodeEntries (ge_entries r) @ (if ge_tenant r = t \<and> link_matches l (ge_source r) (ge_target r) then [entry_of inc l] else [])"
  using assms encodeEntries_decode [of "decodeEntries (ge_entries r) @ [entry_of inc l]"]
  by (auto simp: appended_def entries_ok_def)

lemma entries_ok_encode: "\<forall>e \<in> set es. utf8_valid e \<Longrightarrow> entries_ok (r\<lparr>ge_entries := encodeEntries es\<rparr>)"
  by (simp add: entries_ok_def encodeEntries_decode)

lemma entries_ok_cleared: "entries_ok r \<Longrightarrow> entries_ok (cleared t inc r)"
  by (simp add: cleared_def entries_ok_encode kept_entries_def entries_ok_def [of r])

lemma entries_ok_appended: "entries_ok r \<Longrightarrow> utf8_valid (entry_of inc l) \<Longrightarrow> entries_ok (appended t inc l r)"
  by (auto simp: appended_def entries_ok_def [of r] intro!: entries_ok_encode)

text \<open>The entries of a row after the loop over the links.\<close>

lemma decode_fold_appended:
  assumes "entries_ok r" "\<forall>l \<in> set ls. utf8_valid (entry_of inc l)" "ge_tenant r = t"
  shows "decodeEntries (ge_entries (fold (appended t inc) ls r)) =
           decodeEntries (ge_entries r) @ map (entry_of inc) (filter (\<lambda>l. link_matches l (ge_source r) (ge_target r)) ls)"
    and "entries_ok (fold (appended t inc) ls r)"
  using assms
  by (induction ls arbitrary: r) (simp_all add: entries_ok_appended decode_appended)

lemma fold_appended_other: "ge_tenant r \<noteq> t \<Longrightarrow> fold (appended t inc) ls r = r"
  by (induction ls) (simp_all add: appended_def)

lemma causal_row_other: "ge_tenant r \<noteq> t \<Longrightarrow> causal_row t inc ls r = r"
  by (simp add: causal_row_def cleared_def fold_appended_other)

lemma causal_row_entries:
  assumes "entries_ok r" "valid_op (UpdateCausalPath inc ls)" "ge_tenant r = t"
  shows "decodeEntries (ge_entries (causal_row t inc ls r)) =
           kept_entries inc (decodeEntries (ge_entries r)) @
           map (entry_of inc) (filter (\<lambda>l. link_matches l (ge_source r) (ge_target r)) ls)"
    and "entries_ok (causal_row t inc ls r)"
proof -
  have "\<forall>l \<in> set ls. utf8_valid (entry_of inc l)" using assms(2) by (simp add: valid_op_def utf8_valid_entry)
  with decode_fold_appended [of "cleared t inc r"] assms
  show "decodeEntries (ge_entries (causal_row t inc ls r)) =
           kept_entries inc (decodeEntries (ge_entries r)) @
           map (entry_of inc) (filter (\<lambda>l. link_matches l (ge_source r) (ge_target r)) ls)"
    "entries_ok (causal_row t inc ls r)"
    by (simp_all add: causal_row_def entries_ok_cleared decode_cleared)
qed

lemma causal_row_ok: "entries_ok r \<Longrightarrow> valid_op (UpdateCausalPath inc ls) \<Longrightarrow> entries_ok (causal_row t inc ls r)"
  using causal_row_entries(2) causal_row_other by metis

lemma new_edge_row_ok [simp]: "entries_ok (new_edge_row t a b)"
  by (simp add: entries_ok_def new_edge_row_def encodeEntries_def)

lemma node_row_keys [simp]: "gn_tenant (new_node_row t n) = t" "gn_name (new_node_row t n) = n"
  by (simp_all add: new_node_row_def)

lemma edge_row_keys [simp]: "ge_tenant (new_edge_row t a b) = t" "ge_source (new_edge_row t a b) = a" "ge_target (new_edge_row t a b) = b"
  by (simp_all add: new_edge_row_def)

lemma upsert_node_inv:
  assumes "sql_inv d" "\<And>r. node_key (f r) = node_key r"
  shows "sql_inv (upsert_node t n f d)" "node_key ` set (sg_nodes (upsert_node t n f d)) = insert (t, n) (node_key ` set (sg_nodes d))"
    "sg_edges (upsert_node t n f d) = sg_edges d"
proof -
  note keys = upsert_by_keys [of node_key f "new_node_row t n" "(t, n)", OF assms(2), of "sg_nodes d"]
  show *: "node_key ` set (sg_nodes (upsert_node t n f d)) = insert (t, n) (node_key ` set (sg_nodes d))"
    using keys(2) by (simp add: upsert_node_def)
  show "sg_edges (upsert_node t n f d) = sg_edges d" by (simp add: upsert_node_def)
  then show "sql_inv (upsert_node t n f d)"
    using assms(1) keys(1) unfolding sql_inv_def * by (auto simp: upsert_node_def)
qed

lemma insert_edge_inv:
  assumes "sql_inv d" "(t, a) \<in> node_key ` set (sg_nodes d)" "(t, b) \<in> node_key ` set (sg_nodes d)"
  shows "sql_inv (insert_edge t a b d)" "erow_key ` set (sg_edges (insert_edge t a b d)) = insert (t, a, b) (erow_key ` set (sg_edges d))"
proof -
  note keys = upsert_by_keys [of erow_key id "new_edge_row t a b" "(t, a, b)" "sg_edges d"]
  have sub: "set (upsert_by erow_key (t, a, b) (new_edge_row t a b) id (sg_edges d)) \<subseteq> insert (new_edge_row t a b) (set (sg_edges d))"
    by (auto simp: upsert_by_def split: if_splits)
  have "\<forall>r \<in> insert (new_edge_row t a b) (set (sg_edges d)). entries_ok r \<and>
      (ge_tenant r, ge_source r) \<in> node_key ` set (sg_nodes d) \<and> (ge_tenant r, ge_target r) \<in> node_key ` set (sg_nodes d)"
    using assms by (simp add: sql_inv_def)
  note rows = bspec [OF this subsetD [OF sub]]
  have "distinct (map erow_key (sg_edges d))" "distinct (map node_key (sg_nodes d))" using assms(1) by (simp_all add: sql_inv_def)
  with rows keys(1) show "sql_inv (insert_edge t a b d)"
    unfolding sql_inv_def insert_edge_def by simp
  show "erow_key ` set (sg_edges (insert_edge t a b d)) = insert (t, a, b) (erow_key ` set (sg_edges d))"
    using keys(2) by (simp add: insert_edge_def)
qed

text \<open>What a successful edge write does.\<close>

definition edge_written :: "string \<Rightarrow> string \<Rightarrow> string \<Rightarrow> sql_graph \<Rightarrow> sql_graph" where
  "edge_written t a b d = insert_edge t a b (upsert_node t b id (upsert_node t a id d))"

lemma UpsertDependencyEdge_effect:
  "sql_UpsertDependencyEdge ok t a b d = (e, d') \<Longrightarrow> (e = None \<and> d' = edge_written t a b d) \<or> (e \<noteq> None \<and> d' = d)"
  by (auto simp: sql_UpsertDependencyEdge_def run_tx_def ensureNode_def stmt_def edge_written_def bind_eq_Some_conv
      split: option.splits if_splits)

definition tenant_deleted :: "string \<Rightarrow> sql_graph \<Rightarrow> sql_graph" where
  "tenant_deleted t d = d\<lparr>sg_edges := filter (\<lambda>r. ge_tenant r \<noteq> t) (sg_edges d), sg_nodes := filter (\<lambda>r. gn_tenant r \<noteq> t) (sg_nodes d)\<rparr>"

lemma DeleteTenant_effect:
  "sql_DeleteTenant ok t d = (e, d') \<Longrightarrow> (e = None \<and> d' = tenant_deleted t d) \<or> (e \<noteq> None \<and> d' = d)"
  by (auto simp: sql_DeleteTenant_def run_tx_def stmt_def tenant_deleted_def bind_eq_Some_conv
      split: option.splits if_splits)

lemma edge_written_inv:
  assumes "sql_inv d"
  shows "sql_inv (edge_written t a b d)"
  unfolding edge_written_def using assms
  by (intro insert_edge_inv) (simp_all add: upsert_node_inv)

lemma filter_distinct_map: "distinct (map f xs) \<Longrightarrow> distinct (map f (filter P xs))"
  by (simp add: distinct_map inj_on_def)

lemma tenant_deleted_inv: "sql_inv d \<Longrightarrow> sql_inv (tenant_deleted t d)"
  by (fastforce simp: sql_inv_def tenant_deleted_def filter_distinct_map image_iff)

lemma causal_rows_inv:
  assumes "sql_inv d" "valid_op (UpdateCausalPath inc ls)"
  shows "sql_inv (d\<lparr>sg_edges := map (causal_row t inc ls) (sg_edges d)\<rparr>)"
  using assms by (simp add: sql_inv_def comp_def causal_row_ok)

text \<open>The effect of an operation on the tables, whether it fails or not.\<close>

fun sql_effect :: "string \<Rightarrow> graph_op \<Rightarrow> sql_graph \<Rightarrow> sql_graph" where
  "sql_effect t (UpsertDependencyEdge a b) d = edge_written t a b d"
| "sql_effect t (UpdateServiceState svc state) d = upsert_node t svc (\<lambda>r. r\<lparr>gn_state := state\<rparr>) d"
| "sql_effect t (UpsertServiceCatalog svc team repo slack) d =
     upsert_node t svc (\<lambda>r. r\<lparr>gn_team := team, gn_repo := repo, gn_slack := slack\<rparr>) d"
| "sql_effect t (UpsertServiceMetadata svc tier lifecycle links) d =
     upsert_node t svc (\<lambda>r. r\<lparr>gn_tier := tier, gn_lifecycle := lifecycle, gn_links := encodeLinks links\<rparr>) d"
| "sql_effect t (UpdateCausalPath inc links) d = d\<lparr>sg_edges := map (causal_row t inc links) (sg_edges d)\<rparr>"
| "sql_effect t DeleteTenant d = tenant_deleted t d"

text \<open>Every write of the SQL store is atomic: it has its whole effect, or an error and no effect.\<close>

lemma sql_run_atomic:
  assumes "sql_inv d" "sql_run ok t op d = (e, d')"
  shows "(e = None \<and> d' = sql_effect t op d \<and> trim_space t \<noteq> []) \<or> (e \<noteq> None \<and> d' = d)"
proof (cases op)
  case (UpsertDependencyEdge a b)
  with assms UpsertDependencyEdge_effect [of ok t a b d e d'] show ?thesis
    by (auto simp: sql_UpsertDependencyEdge_def requireTenant_def)
next
  case (UpdateCausalPath inc links)
  show ?thesis
  proof (cases e)
    case None
    with UpdateCausalPath assms UpdateCausalPath_effect [of ok t inc links d d'] show ?thesis by simp
  next
    case (Some x)
    with UpdateCausalPath assms show ?thesis
      by (auto simp: sql_UpdateCausalPath_def run_tx_def split: option.splits if_splits)
  qed
next
  case DeleteTenant
  with assms DeleteTenant_effect [of ok t d e d'] show ?thesis
    by (auto simp: sql_DeleteTenant_def requireTenant_def)
qed (use assms in \<open>auto simp: sql_UpdateServiceState_def sql_UpsertServiceCatalog_def sql_UpsertServiceMetadata_def
       exec_one_def requireTenant_def split: if_splits\<close>)

lemma sql_effect_inv:
  assumes "sql_inv d" "valid_op op"
  shows "sql_inv (sql_effect t op d)"
  using assms by (cases op) (simp_all add: edge_written_inv upsert_node_inv tenant_deleted_inv causal_rows_inv)

lemma sql_run_inv: "sql_inv d \<Longrightarrow> valid_op op \<Longrightarrow> sql_inv (snd (sql_run ok t op d))"
  using sql_run_atomic [of d ok t op "fst (sql_run ok t op d)" "snd (sql_run ok t op d)"] sql_effect_inv [of d op t] by auto

section \<open>The Neo4j store refines the tables\<close>

text \<open>The rows that a graph of nodes and relationships stands for: a property that is not set is the column's
  default.\<close>

definition cy_node_row :: "cy_node \<Rightarrow> node_row" where
  "cy_node_row n = \<lparr>gn_tenant = cn_tenant n, gn_name = cn_name n, gn_state = cy_coalesce [] (cn_state n), gn_team = cy_coalesce [] (cn_team n),
     gn_repo = cy_coalesce [] (cn_repo n), gn_slack = cy_coalesce [] (cn_slack n), gn_tier = cy_coalesce [] (cn_tier n),
     gn_lifecycle = cy_coalesce [] (cn_lifecycle n), gn_links = cy_coalesce ''{}'' (cn_links n)\<rparr>"

definition rel_row :: "cy_rel \<Rightarrow> edge_row" where
  "rel_row r = \<lparr>ge_tenant = cr_tenant r, ge_source = cr_source r, ge_target = cr_target r,
     ge_entries = encodeEntries (cy_coalesce [] (cr_entries r))\<rparr>"

definition sql_of :: "cypher_graph \<Rightarrow> sql_graph" where
  "sql_of g = \<lparr>sg_nodes = map cy_node_row (cg_nodes g), sg_edges = map rel_row (cg_rels g)\<rparr>"

definition rels_ok :: "cypher_graph \<Rightarrow> bool" where
  "rels_ok g \<longleftrightarrow> (\<forall>r \<in> set (cg_rels g). \<forall>e \<in> set (cy_coalesce [] (cr_entries r)). utf8_valid e)"

definition cy_inv :: "cypher_graph \<Rightarrow> bool" where
  "cy_inv g \<longleftrightarrow> rels_ok g \<and> sql_inv (sql_of g)"

lemma cy_coalesce_simps [simp]: "cy_coalesce d None = d" "cy_coalesce d (Some x) = x"
  by (simp_all add: cy_coalesce_def)

lemma rel_row_simps [simp]:
  "ge_tenant (rel_row r) = cr_tenant r" "ge_source (rel_row r) = cr_source r" "ge_target (rel_row r) = cr_target r"
  "gn_tenant (cy_node_row n) = cn_tenant n" "gn_name (cy_node_row n) = cn_name n"
  by (simp_all add: rel_row_def cy_node_row_def)

lemma decode_rel_row: "\<forall>e \<in> set (cy_coalesce [] (cr_entries r)). utf8_valid e \<Longrightarrow> decodeEntries (ge_entries (rel_row r)) = cy_coalesce [] (cr_entries r)"
  by (simp add: rel_row_def encodeEntries_decode)

lemma sql_of_merge_node:
  assumes "\<And>n. cy_node_row (f n) = f' (cy_node_row n)"
  shows "sql_of (merge_node t n f g) = upsert_node t n f' (sql_of g)"
proof -
  have "cy_node_row (new_cy_node t n) = new_node_row t n"
    by (simp add: cy_node_row_def new_cy_node_def new_node_row_def cy_coalesce_def)
  with upsert_by_map [of node_key cy_node_row cy_key f f' "new_cy_node t n" "new_node_row t n" "(t, n)" "cg_nodes g"] assms
  show ?thesis by (simp add: sql_of_def merge_node_def upsert_node_def)
qed

lemma sql_of_merge_rel: "sql_of (merge_rel t a b g) = insert_edge t a b (sql_of g)"
proof -
  have "rel_row (new_cy_rel t a b) = new_edge_row t a b"
    by (simp add: rel_row_def new_cy_rel_def new_edge_row_def cy_coalesce_def encodeEntries_def)
  with upsert_by_map [of erow_key rel_row rel_key id id "new_cy_rel t a b" "new_edge_row t a b" "(t, a, b)" "cg_rels g"]
  show ?thesis by (simp add: sql_of_def merge_rel_def insert_edge_def)
qed

lemma rels_ok_merge [simp]: "rels_ok (merge_node t n f g) = rels_ok g" "rels_ok g \<Longrightarrow> rels_ok (merge_rel t a b g)"
  by (auto simp: rels_ok_def merge_node_def merge_rel_def upsert_by_def new_cy_rel_def cy_coalesce_def split: if_splits)

lemma sql_of_clear:
  assumes "rels_ok g"
  shows "sql_of (cy_clear t inc g) = (sql_of g)\<lparr>sg_edges := map (cleared t inc) (sg_edges (sql_of g))\<rparr>" "rels_ok (cy_clear t inc g)"
proof -
  have "rel_row (if cr_tenant r = t \<and> 0 < length (cy_coalesce [] (cr_entries r))
       then r\<lparr>cr_entries := Some (kept_entries inc (cy_coalesce [] (cr_entries r)))\<rparr> else r) = cleared t inc (rel_row r)"
    if "r \<in> set (cg_rels g)" for r
    using that assms decode_rel_row [of r]
    by (auto simp: rels_ok_def cleared_def rel_row_def cy_coalesce_def kept_entries_def)
  then show "sql_of (cy_clear t inc g) = (sql_of g)\<lparr>sg_edges := map (cleared t inc) (sg_edges (sql_of g))\<rparr>"
    by (simp add: sql_of_def cy_clear_def)
  show "rels_ok (cy_clear t inc g)"
    using assms by (auto simp: rels_ok_def cy_clear_def kept_entries_def cy_coalesce_def)
qed

lemma sql_of_add:
  assumes "rels_ok g" "utf8_valid (entry_of inc l)"
  shows "sql_of (cy_add t inc l g) = (sql_of g)\<lparr>sg_edges := map (appended t inc l) (sg_edges (sql_of g))\<rparr>" "rels_ok (cy_add t inc l g)"
proof -
  have "rel_row (if cr_tenant r = t \<and> link_matches l (cr_source r) (cr_target r)
       then r\<lparr>cr_entries := Some (cy_coalesce [] (cr_entries r) @ [entry_of inc l])\<rparr> else r) = appended t inc l (rel_row r)"
    if "r \<in> set (cg_rels g)" for r
    using that assms(1) decode_rel_row [of r]
    by (auto simp: rels_ok_def appended_def rel_row_def cy_coalesce_def)
  then show "sql_of (cy_add t inc l g) = (sql_of g)\<lparr>sg_edges := map (appended t inc l) (sg_edges (sql_of g))\<rparr>"
    by (simp add: sql_of_def cy_add_def)
  show "rels_ok (cy_add t inc l g)"
    using assms by (auto simp: rels_ok_def cy_add_def)
qed

text \<open>The statements of the loop that were executed: all of them, or those before the one that failed.\<close>

lemma cy_add_all_effect:
  assumes "cy_add_all ok k t inc ls g = (e, g')" "rels_ok g" "\<forall>l \<in> set ls. utf8_valid (entry_of inc l)"
  shows "\<exists>m. (e = None \<longrightarrow> length ls \<le> m) \<and> rels_ok g' \<and>
    sql_of g' = (sql_of g)\<lparr>sg_edges := map (fold (appended t inc) (take m ls)) (sg_edges (sql_of g))\<rparr>"
  using assms
proof (induction ls arbitrary: k g)
  case (Cons l ls)
  show ?case
  proof (cases "ok k")
    case True
    with Cons.prems have step: "cy_add_all ok (Suc k) t inc ls (cy_add t inc l g) = (e, g')" by simp
    obtain m where "e = None \<longrightarrow> length ls \<le> m" "rels_ok g'"
      "sql_of g' = (sql_of (cy_add t inc l g))\<lparr>sg_edges := map (fold (appended t inc) (take m ls)) (sg_edges (sql_of (cy_add t inc l g)))\<rparr>"
      using Cons.IH [OF step] sql_of_add [of g inc l t] Cons.prems by auto
    then show ?thesis using sql_of_add [of g inc l t] Cons.prems by (intro exI [of _ "Suc m"]) (auto simp: comp_def)
  next
    case False
    with Cons.prems show ?thesis by (intro exI [of _ 0]) auto
  qed
qed auto

definition partial_op :: "nat \<Rightarrow> graph_op \<Rightarrow> graph_op" where
  "partial_op m op = (case op of UpdateCausalPath inc links \<Rightarrow> UpdateCausalPath inc (take m links) | _ \<Rightarrow> op)"

lemma cy_causal_effect:
  assumes "cy_UpdateCausalPath ok t inc ls g = (e, g')" "rels_ok g" "valid_op (UpdateCausalPath inc ls)"
  shows "(e \<noteq> None \<and> g' = g) \<or> (\<exists>m. (e = None \<longrightarrow> length ls \<le> m) \<and> rels_ok g' \<and> trim_space t \<noteq> [] \<and> inc \<noteq> [] \<and>
    sql_of g' = sql_effect t (UpdateCausalPath inc (take m ls)) (sql_of g))"
proof (cases "trim_space t = [] \<or> inc = [] \<or> \<not> ok 0")
  case True
  with assms(1) have "e \<noteq> None \<and> g' = g" by (auto simp: cy_UpdateCausalPath_def requireTenant_def split: if_splits)
  then show ?thesis by blast
next
  case False
  then have run: "cy_add_all ok 1 t inc ls (cy_clear t inc g) = (e, g')"
    using assms(1) by (simp add: cy_UpdateCausalPath_def requireTenant_def)
  have "\<forall>l \<in> set ls. utf8_valid (entry_of inc l)" using assms(3) by (simp add: valid_op_def utf8_valid_entry)
  with cy_add_all_effect [OF run] sql_of_clear [OF assms(2), of t inc] obtain m
    where "e = None \<longrightarrow> length ls \<le> m" "rels_ok g'"
      "sql_of g' = (sql_of g)\<lparr>sg_edges := map (fold (appended t inc) (take m ls)) (map (cleared t inc) (sg_edges (sql_of g)))\<rparr>"
    by auto
  with False show ?thesis by (auto simp: causal_row_def comp_def intro!: exI [of _ m])
qed

lemma sql_of_edge: "sql_of (merge_rel t a b (merge_node t b id (merge_node t a id g))) = edge_written t a b (sql_of g)"
  by (simp add: sql_of_merge_rel sql_of_merge_node [where f' = id] edge_written_def)

lemma sql_of_delete:
  "sql_of (g\<lparr>cg_nodes := filter (\<lambda>n. cn_tenant n \<noteq> t) (cg_nodes g), cg_rels := filter (\<lambda>r. cr_tenant r \<noteq> t) (cg_rels g)\<rparr>) =
   tenant_deleted t (sql_of g)"
  by (simp add: sql_of_def tenant_deleted_def filter_map comp_def)

text \<open>A write that succeeds has the effect of the SQL store's; one that fails may leave the first statements of
  a causal path.\<close>

lemma cy_run_refines:
  assumes "rels_ok g" "valid_op op" "cy_run ok t op g = (e, g')"
  shows "rels_ok g' \<and> ((e \<noteq> None \<and> g' = g) \<or>
     (\<exists>m. sql_of g' = sql_effect t (partial_op m op) (sql_of g) \<and> (e = None \<longrightarrow> partial_op m op = op) \<and> trim_space t \<noteq> []))"
proof (cases op)
  case (UpdateCausalPath inc ls)
  then consider "e \<noteq> None" "g' = g"
    | m where "e = None \<longrightarrow> length ls \<le> m" "rels_ok g'" "trim_space t \<noteq> []" "sql_of g' = sql_effect t (UpdateCausalPath inc (take m ls)) (sql_of g)"
    using assms cy_causal_effect [of ok t inc ls g e g'] by (auto simp del: sql_effect.simps)
  then show ?thesis
  proof cases
    case 1
    then show ?thesis using assms(1) by blast
  next
    case (2 m)
    then have "partial_op m op = UpdateCausalPath inc (take m ls)" "e = None \<longrightarrow> partial_op m op = op"
      using UpdateCausalPath by (simp_all add: partial_op_def)
    with 2 show ?thesis by metis
  qed
next
  case (UpsertDependencyEdge a b)
  with assms show ?thesis
    by (auto simp: cy_UpsertDependencyEdge_def exec_one_def requireTenant_def sql_of_edge partial_op_def split: if_splits)
next
  case DeleteTenant
  with assms show ?thesis
    by (auto simp: cy_DeleteTenant_def exec_one_def requireTenant_def sql_of_delete partial_op_def rels_ok_def split: if_splits)
next
  case (UpdateServiceState svc st)
  have "sql_of (merge_node t svc (\<lambda>n. n\<lparr>cn_state := Some st\<rparr>) g) = sql_effect t op (sql_of g)"
    unfolding UpdateServiceState sql_effect.simps
    by (rule sql_of_merge_node) (simp add: cy_node_row_def cy_coalesce_def)
  with UpdateServiceState assms show ?thesis
    by (auto simp: cy_UpdateServiceState_def exec_one_def requireTenant_def partial_op_def split: if_splits)
next
  case (UpsertServiceCatalog svc team repo slack)
  have "sql_of (merge_node t svc (\<lambda>n. n\<lparr>cn_team := Some team, cn_repo := Some repo, cn_slack := Some slack\<rparr>) g) = sql_effect t op (sql_of g)"
    unfolding UpsertServiceCatalog sql_effect.simps
    by (rule sql_of_merge_node) (simp add: cy_node_row_def cy_coalesce_def)
  with UpsertServiceCatalog assms show ?thesis
    by (auto simp: cy_UpsertServiceCatalog_def exec_one_def requireTenant_def partial_op_def split: if_splits)
next
  case (UpsertServiceMetadata svc tier lifecycle links)
  have "sql_of (merge_node t svc (\<lambda>n. n\<lparr>cn_tier := Some tier, cn_lifecycle := Some lifecycle, cn_links := Some (encodeLinks links)\<rparr>) g)
      = sql_effect t op (sql_of g)"
    unfolding UpsertServiceMetadata sql_effect.simps
    by (rule sql_of_merge_node) (simp add: cy_node_row_def cy_coalesce_def)
  with UpsertServiceMetadata assms show ?thesis
    by (auto simp: cy_UpsertServiceMetadata_def exec_one_def requireTenant_def partial_op_def split: if_splits)
qed

lemma valid_partial_op: "valid_op op \<Longrightarrow> valid_op (partial_op m op)"
  by (auto simp: valid_op_def partial_op_def split: graph_op.splits dest: in_set_takeD)

lemma cy_run_inv: "cy_inv g \<Longrightarrow> valid_op op \<Longrightarrow> cy_inv (snd (cy_run ok t op g))"
  using cy_run_refines [of g op ok t "fst (cy_run ok t op g)" "snd (cy_run ok t op g)"]
    sql_effect_inv [of "sql_of g" _ t] valid_partial_op by (auto simp: cy_inv_def)

section \<open>The contract of the port\<close>

definition services :: "Graph \<Rightarrow> string set" where
  "services G = nd_Id ` set (gr_Nodes G)"

definition dependencies :: "Graph \<Rightarrow> (string \<times> string) set" where
  "dependencies G = (\<lambda>e. (ed_Source e, ed_Target e)) ` set (gr_Edges G)"

definition empty_graph :: Graph where
  "empty_graph = \<lparr>gr_Nodes = [], gr_Edges = []\<rparr>"

text \<open>A sequence of writes, each with its tenant and its outcomes of the database.\<close>

type_synonym graph_call = "(nat \<Rightarrow> bool) \<times> string \<times> graph_op"

fun run_all ::
  "((nat \<Rightarrow> bool) \<Rightarrow> string \<Rightarrow> graph_op \<Rightarrow> 's \<Rightarrow> graph_error option \<times> 's) \<Rightarrow> graph_call list \<Rightarrow> 's \<Rightarrow> graph_error option list \<times> 's" where
  "run_all run [] s = ([], s)"
| "run_all run ((ok, t, op) # cs) s =
     (case run ok t op s of (e, s1) \<Rightarrow> (case run_all run cs s1 of (es, s2) \<Rightarrow> (e # es, s2)))"

lemma run_all_Cons [simp]:
  "snd (run_all run ((ok, t, op) # cs) s) = snd (run_all run cs (snd (run ok t op s)))"
  "fst (run_all run ((ok, t, op) # cs) s) = fst (run ok t op s) # fst (run_all run cs (snd (run ok t op s)))"
  by (simp_all split: prod.splits)

locale graph_store =
  fixes run :: "(nat \<Rightarrow> bool) \<Rightarrow> string \<Rightarrow> graph_op \<Rightarrow> 's \<Rightarrow> graph_error option \<times> 's"
    and view :: "string \<Rightarrow> 's \<Rightarrow> Graph"
    and inv :: "'s \<Rightarrow> bool"
  assumes inv_run: "inv s \<Longrightarrow> valid_op op \<Longrightarrow> inv (snd (run ok t op s))"
    and blank_refused: "trim_space t = [] \<Longrightarrow> run ok t op s = (Some ErrEmptyTenant, s)"
    and isolated: "inv s \<Longrightarrow> valid_op op \<Longrightarrow> t' \<noteq> t \<Longrightarrow> view t' (snd (run ok t op s)) = view t' s"
    and deleted: "inv s \<Longrightarrow> fst (run ok t DeleteTenant s) = None \<Longrightarrow> view t (snd (run ok t DeleteTenant s)) = empty_graph"
    and linked: "inv s \<Longrightarrow> fst (run ok t (UpsertDependencyEdge a b) s) = None \<Longrightarrow>
      dependencies (view t (snd (run ok t (UpsertDependencyEdge a b) s))) = insert (a, b) (dependencies (view t s))"
    and available: "\<forall>k. ok k \<Longrightarrow> trim_space t \<noteq> [] \<Longrightarrow> fst (run ok t (UpsertDependencyEdge a b) s) = None"
    and growing: "inv s \<Longrightarrow> valid_op op \<Longrightarrow> op \<noteq> DeleteTenant \<Longrightarrow>
      services (view t s) \<subseteq> services (view t (snd (run ok t op s))) \<and> dependencies (view t s) \<subseteq> dependencies (view t (snd (run ok t op s)))"
    and closed: "inv s \<Longrightarrow> dependencies (view t s) \<subseteq> services (view t s) \<times> services (view t s)"
begin

lemma run_all_inv: "inv s \<Longrightarrow> \<forall>(ok, t, op) \<in> set cs. valid_op op \<Longrightarrow> inv (snd (run_all run cs s))"
proof (induction cs arbitrary: s)
  case (Cons c cs)
  obtain ok t op where c: "c = (ok, t, op)" by (cases c)
  with Cons inv_run [of s op ok t] show ?case by (auto simp del: run_all.simps)
qed simp

lemma others_unchanged:
  "inv s \<Longrightarrow> \<forall>(ok, t', op) \<in> set cs. valid_op op \<and> t' \<noteq> t \<Longrightarrow> view t (snd (run_all run cs s)) = view t s"
proof (induction cs arbitrary: s)
  case (Cons c cs)
  obtain ok t' op where c: "c = (ok, t', op)" by (cases c)
  with Cons inv_run [of s op ok t'] isolated [of s op t t' ok] show ?case by (auto simp del: run_all.simps)
qed simp

lemma deletion_final:
  assumes "inv s" "fst (run ok t DeleteTenant s) = None" "\<forall>(ok, t', op) \<in> set cs. valid_op op \<and> t' \<noteq> t"
  shows "view t (snd (run_all run cs (snd (run ok t DeleteTenant s)))) = empty_graph"
proof -
  have "inv (snd (run ok t DeleteTenant s))" using assms(1) by (intro inv_run) (simp_all add: valid_op_def)
  from others_unchanged [OF this assms(3)] deleted [OF assms(1,2)] show ?thesis by simp
qed

lemma dependencies_stay:
  "inv s \<Longrightarrow> \<forall>(ok, t', op) \<in> set cs. valid_op op \<and> (t' = t \<longrightarrow> op \<noteq> DeleteTenant) \<Longrightarrow>
   dependencies (view t s) \<subseteq> dependencies (view t (snd (run_all run cs s)))"
proof (induction cs arbitrary: s)
  case (Cons c cs)
  obtain ok t' op where c: "c = (ok, t', op)" by (cases c)
  have inv: "inv (snd (run ok t' op s))" using Cons.prems c inv_run by auto
  have "dependencies (view t s) \<subseteq> dependencies (view t (snd (run ok t' op s)))"
    using Cons.prems c growing [of s op t' ok] isolated [of s op t t' ok] by (cases "t = t'") auto
  also have "\<dots> \<subseteq> dependencies (view t (snd (run_all run cs (snd (run ok t' op s)))))"
    using Cons.prems c by (intro Cons.IH inv) auto
  finally show ?case by (simp add: c del: run_all.simps)
qed simp

lemma edge_recorded:
  assumes "inv s" "fst (run ok t (UpsertDependencyEdge a b) s) = None"
    and "\<forall>(ok, t', op) \<in> set cs. valid_op op \<and> (t' = t \<longrightarrow> op \<noteq> DeleteTenant)"
  shows "(a, b) \<in> dependencies (view t (snd (run_all run cs (snd (run ok t (UpsertDependencyEdge a b) s)))))"
proof -
  have "inv (snd (run ok t (UpsertDependencyEdge a b) s))" using assms(1) by (intro inv_run) (simp_all add: valid_op_def)
  from dependencies_stay [OF this assms(3)] linked [OF assms(1,2)] show ?thesis by auto
qed

end

subsection \<open>Both stores keep it\<close>

lemma stable_sort_map: "stable_sort lt (map h xs) = map h (stable_sort (\<lambda>a b. lt (h a) (h b)) xs)"
proof (induction xs)
  case (Cons x xs)
  have "stable_insert lt (h x) (map h ys) = map h (stable_insert (\<lambda>a b. lt (h a) (h b)) x ys)" for ys
    by (induction ys) simp_all
  with Cons show ?case by (simp add: stable_sort_def)
qed (simp add: stable_sort_def)

lemma services_sql: "services (sql_view lt t d) = {n. (t, n) \<in> node_key ` set (sg_nodes d)}"
  by (auto simp: services_def sql_view_def row_node_def image_iff)

lemma dependencies_sql: "dependencies (sql_view lt t d) = {(a, b). (t, a, b) \<in> erow_key ` set (sg_edges d)}"
  by (fastforce simp: dependencies_def sql_view_def row_edge_def shown_edge_def Let_def image_iff)

lemma upsert_node_filter:
  "t' \<noteq> t \<Longrightarrow> (\<And>r. gn_tenant (f r) = gn_tenant r) \<Longrightarrow>
   filter (\<lambda>r. gn_tenant r = t') (sg_nodes (upsert_node t n f d)) = filter (\<lambda>r. gn_tenant r = t') (sg_nodes d)"
  by (auto simp: upsert_node_def intro!: upsert_by_filter)

lemma insert_edge_filter:
  "t' \<noteq> t \<Longrightarrow> filter (\<lambda>r. ge_tenant r = t') (sg_edges (insert_edge t a b d)) = filter (\<lambda>r. ge_tenant r = t') (sg_edges d)"
  by (auto simp: insert_edge_def intro!: upsert_by_filter)

lemma causal_rows_filter:
  "t' \<noteq> t \<Longrightarrow> filter (\<lambda>r. ge_tenant r = t') (map (causal_row t inc ls) rows) = filter (\<lambda>r. ge_tenant r = t') rows"
  by (induction rows) (auto simp: causal_row_other)

lemma insert_edge_nodes [simp]: "sg_nodes (insert_edge t a b d) = sg_nodes d"
  by (simp add: insert_edge_def)

lemma upsert_node_edges [simp]: "sg_edges (upsert_node t n f d) = sg_edges d"
  by (simp add: upsert_node_def)

lemma insert_edge_edges_cong: "sg_edges d = sg_edges d' \<Longrightarrow> sg_edges (insert_edge t a b d) = sg_edges (insert_edge t a b d')"
  by (simp add: insert_edge_def)

lemma sql_effect_isolated:
  assumes "t' \<noteq> t"
  shows "sql_view lt t' (sql_effect t op d) = sql_view lt t' d"
proof -
  have "(x \<noteq> t \<and> x = t') = (x = t')" for x :: string using assms by auto
  then show ?thesis
    using assms
    by (cases op)
      (simp_all add: sql_view_def edge_written_def upsert_node_filter insert_edge_filter causal_rows_filter tenant_deleted_def)
qed

lemma sql_effect_growing:
  assumes "sql_inv d" "op \<noteq> DeleteTenant"
  shows "node_key ` set (sg_nodes d) \<subseteq> node_key ` set (sg_nodes (sql_effect t op d))"
    and "erow_key ` set (sg_edges d) \<subseteq> erow_key ` set (sg_edges (sql_effect t op d))"
  using assms
  by (cases op; auto simp: edge_written_def upsert_node_inv insert_edge_inv image_image)+

lemma sql_effect_linked:
  "sql_inv d \<Longrightarrow> erow_key ` set (sg_edges (edge_written t a b d)) = insert (t, a, b) (erow_key ` set (sg_edges d))"
  using insert_edge_inv(2) [of "upsert_node t b id (upsert_node t a id d)" t a b]
  by (auto simp: edge_written_def upsert_node_inv simp del: upsert_node_edges)

lemma sql_run_blank: "trim_space t = [] \<Longrightarrow> sql_run ok t op d = (Some ErrEmptyTenant, d)"
  by (cases op) (simp_all add: requireTenant_def sql_UpsertDependencyEdge_def sql_UpdateServiceState_def
      sql_UpsertServiceCatalog_def sql_UpsertServiceMetadata_def sql_UpdateCausalPath_def sql_DeleteTenant_def)

lemma cy_run_blank: "trim_space t = [] \<Longrightarrow> cy_run ok t op d = (Some ErrEmptyTenant, d)"
  by (cases op) (simp_all add: requireTenant_def cy_UpsertDependencyEdge_def cy_UpdateServiceState_def
      cy_UpsertServiceCatalog_def cy_UpsertServiceMetadata_def cy_UpdateCausalPath_def cy_DeleteTenant_def)

lemma sql_view_deleted: "sql_view lt t (tenant_deleted t d) = empty_graph"
  by (simp add: sql_view_def tenant_deleted_def empty_graph_def stable_sort_def)

lemma sql_view_closed: "sql_inv d \<Longrightarrow> dependencies (sql_view lt t d) \<subseteq> services (sql_view lt t d) \<times> services (sql_view lt t d)"
  unfolding services_sql dependencies_sql by (fastforce simp: sql_inv_def)

lemma sql_run_done: "sql_inv d \<Longrightarrow> fst (sql_run ok t op d) = None \<Longrightarrow> snd (sql_run ok t op d) = sql_effect t op d"
  using sql_run_atomic [of d ok t op "fst (sql_run ok t op d)" "snd (sql_run ok t op d)"] by (simp add: prod_eq_iff del: sql_run.simps)

lemma sql_run_failed: "sql_inv d \<Longrightarrow> fst (sql_run ok t op d) \<noteq> None \<Longrightarrow> snd (sql_run ok t op d) = d"
  using sql_run_atomic [of d ok t op "fst (sql_run ok t op d)" "snd (sql_run ok t op d)"] by (auto simp: prod_eq_iff simp del: sql_run.simps)

lemma sql_run_cases:
  assumes "sql_inv d"
  obtains "snd (sql_run ok t op d) = d" | "snd (sql_run ok t op d) = sql_effect t op d"
  using sql_run_done [OF assms] sql_run_failed [OF assms] by blast

interpretation sql_store: graph_store sql_run "sql_view lt" sql_inv for lt
proof
  fix s :: sql_graph and op ok t
  assume "sql_inv s" "valid_op op"
  then show "sql_inv (snd (sql_run ok t op s))" by (rule sql_run_inv)
next
  fix t ok op and s :: sql_graph
  assume "trim_space t = []"
  then show "sql_run ok t op s = (Some ErrEmptyTenant, s)" by (rule sql_run_blank)
next
  fix s op ok and t t' :: string
  assume "sql_inv s" "valid_op op" and t: "t' \<noteq> t"
  then show "sql_view lt t' (snd (sql_run ok t op s)) = sql_view lt t' s"
    using sql_effect_isolated [OF t] by (auto elim!: sql_run_cases [of s ok t op])
next
  fix s ok t
  assume "sql_inv s" "fst (sql_run ok t DeleteTenant s) = None"
  then show "sql_view lt t (snd (sql_run ok t DeleteTenant s)) = empty_graph"
    using sql_run_done [of s ok t DeleteTenant] sql_view_deleted by (simp del: sql_run.simps)
next
  fix s ok t a b
  assume inv: "sql_inv s" and "fst (sql_run ok t (UpsertDependencyEdge a b) s) = None"
  then show "dependencies (sql_view lt t (snd (sql_run ok t (UpsertDependencyEdge a b) s))) = insert (a, b) (dependencies (sql_view lt t s))"
    using sql_run_done [of s ok t] sql_effect_linked [OF inv, of t a b] by (auto simp: dependencies_sql simp del: sql_run.simps)
next
  fix ok :: "nat \<Rightarrow> bool" and t a b and s :: sql_graph
  assume "\<forall>k. ok k" "trim_space t \<noteq> []"
  then show "fst (sql_run ok t (UpsertDependencyEdge a b) s) = None"
    by (simp add: sql_UpsertDependencyEdge_def requireTenant_def run_tx_def ensureNode_def stmt_def)
next
  fix s op t ok
  assume inv: "sql_inv s" "valid_op op" "op \<noteq> DeleteTenant"
  from inv(1) show "services (sql_view lt t s) \<subseteq> services (sql_view lt t (snd (sql_run ok t op s))) \<and>
      dependencies (sql_view lt t s) \<subseteq> dependencies (sql_view lt t (snd (sql_run ok t op s)))"
  proof (cases rule: sql_run_cases [of s ok t op])
    case 2
    from sql_effect_growing [of s op t] inv show ?thesis
      unfolding services_sql dependencies_sql 2 by blast
  qed simp
next
  fix s t
  assume "sql_inv s"
  then show "dependencies (sql_view lt t s) \<subseteq> services (sql_view lt t s) \<times> services (sql_view lt t s)" by (rule sql_view_closed)
qed

lemma cy_view_sql:
  assumes "rels_ok g"
  shows "cy_view lt t g = sql_view lt t (sql_of g)"
proof -
  have "row_node (cy_node_row n) = cy_node_shown n" for n
    by (simp add: row_node_def cy_node_row_def cy_node_shown_def decodeLinks_def cy_coalesce_def split: option.split)
  moreover have "row_edge (rel_row r) = cy_rel_shown r" if "r \<in> set (cg_rels g)" for r
    using that assms decode_rel_row [of r] by (simp add: row_edge_def cy_rel_shown_def rels_ok_def)
  ultimately show ?thesis
    by (auto simp: cy_view_def sql_view_def sql_of_def filter_map stable_sort_map comp_def)
qed

lemma cy_run_cases:
  assumes "cy_inv g" "valid_op op"
  obtains "snd (cy_run ok t op g) = g" "fst (cy_run ok t op g) \<noteq> None"
  | m where "sql_of (snd (cy_run ok t op g)) = sql_effect t (partial_op m op) (sql_of g)" "fst (cy_run ok t op g) = None \<Longrightarrow> partial_op m op = op"
  using cy_run_refines [of g op ok t "fst (cy_run ok t op g)" "snd (cy_run ok t op g)"] assms
  by (auto simp: cy_inv_def simp del: cy_run.simps)

lemma partial_op_delete: "partial_op m op = DeleteTenant \<longleftrightarrow> op = DeleteTenant"
  by (simp add: partial_op_def split: graph_op.splits)

lemma cy_view_inv: "cy_inv g \<Longrightarrow> cy_view lt t g = sql_view lt t (sql_of g)"
  by (simp add: cy_inv_def cy_view_sql)

interpretation cypher_store: graph_store cy_run "cy_view lt" cy_inv for lt
proof
  fix s :: cypher_graph and op ok t
  assume "cy_inv s" "valid_op op"
  then show "cy_inv (snd (cy_run ok t op s))" by (rule cy_run_inv)
next
  fix t ok op and s :: cypher_graph
  assume "trim_space t = []"
  then show "cy_run ok t op s = (Some ErrEmptyTenant, s)" by (rule cy_run_blank)
next
  fix s op ok and t t' :: string
  assume s: "cy_inv s" "valid_op op" and t: "t' \<noteq> t"
  note views = cy_view_inv [OF s(1)] cy_view_inv [OF cy_run_inv [OF s]]
  from s show "cy_view lt t' (snd (cy_run ok t op s)) = cy_view lt t' s"
    by (cases rule: cy_run_cases [of s op ok t]) (simp_all add: views sql_effect_isolated [OF t] del: cy_run.simps)
next
  fix s ok t
  assume s: "cy_inv s" and d: "fst (cy_run ok t DeleteTenant s) = None"
  have v: "valid_op DeleteTenant" by (simp add: valid_op_def)
  from s v show "cy_view lt t (snd (cy_run ok t DeleteTenant s)) = empty_graph"
    using d
    by (cases rule: cy_run_cases [of s DeleteTenant ok t])
      (simp_all add: cy_view_inv [OF cy_run_inv [OF s v]] sql_view_deleted del: cy_run.simps)
next
  fix s ok t a b
  assume s: "cy_inv s" and d: "fst (cy_run ok t (UpsertDependencyEdge a b) s) = None"
  have v: "valid_op (UpsertDependencyEdge a b)" by (simp add: valid_op_def)
  from s v have "sql_of (snd (cy_run ok t (UpsertDependencyEdge a b) s)) = edge_written t a b (sql_of s)"
    using d by (cases rule: cy_run_cases [of s "UpsertDependencyEdge a b" ok t]) (simp_all del: cy_run.simps)
  then show "dependencies (cy_view lt t (snd (cy_run ok t (UpsertDependencyEdge a b) s))) = insert (a, b) (dependencies (cy_view lt t s))"
    using sql_effect_linked [of "sql_of s" t a b] s
    by (auto simp: cy_view_inv [OF cy_run_inv [OF s v]] cy_view_inv [OF s] dependencies_sql cy_inv_def simp del: cy_run.simps)
next
  fix ok :: "nat \<Rightarrow> bool" and t a b and s :: cypher_graph
  assume "\<forall>k. ok k" "trim_space t \<noteq> []"
  then show "fst (cy_run ok t (UpsertDependencyEdge a b) s) = None"
    by (simp add: cy_UpsertDependencyEdge_def requireTenant_def exec_one_def)
next
  fix s op t ok
  assume s: "cy_inv s" "valid_op op" "op \<noteq> DeleteTenant"
  note views = cy_view_inv [OF s(1)] cy_view_inv [OF cy_run_inv [OF s(1,2)]]
  from s(1,2) show "services (cy_view lt t s) \<subseteq> services (cy_view lt t (snd (cy_run ok t op s))) \<and>
      dependencies (cy_view lt t s) \<subseteq> dependencies (cy_view lt t (snd (cy_run ok t op s)))"
  proof (cases rule: cy_run_cases [of s op ok t])
    case (2 m)
    from sql_effect_growing [of "sql_of s" "partial_op m op" t] s show ?thesis
      unfolding views services_sql dependencies_sql 2 cy_inv_def partial_op_delete by blast
  qed simp
next
  fix s t
  assume s: "cy_inv s"
  then show "dependencies (cy_view lt t s) \<subseteq> services (cy_view lt t s) \<times> services (cy_view lt t s)"
    unfolding cy_view_inv [OF s] by (intro sql_view_closed) (simp add: cy_inv_def)
qed

section \<open>Properties\<close>

definition empty_sql :: sql_graph where "empty_sql = \<lparr>sg_nodes = [], sg_edges = []\<rparr>"
definition empty_cypher :: cypher_graph where "empty_cypher = \<lparr>cg_nodes = [], cg_rels = []\<rparr>"

lemma empty_stores [simp]: "sql_inv empty_sql" "cy_inv empty_cypher" "sql_of empty_cypher = empty_sql"
  by (simp_all add: sql_inv_def cy_inv_def rels_ok_def sql_of_def empty_sql_def empty_cypher_def)

abbreviation all_ok :: "nat \<Rightarrow> bool" where "all_ok \<equiv> (\<lambda>_. True)"

lemma sql_run_all_ok:
  "fst (sql_run all_ok t op d) =
     (if trim_space t = [] then Some ErrEmptyTenant
      else case op of UpdateCausalPath inc links \<Rightarrow> if inc = [] then Some ErrNoIncident else None | _ \<Rightarrow> None)"
proof (cases op)
  case (UpdateCausalPath inc links)
  with UpdateCausalPath_total [of all_ok t inc links d] show ?thesis
    by (auto simp: sql_UpdateCausalPath_def requireTenant_def)
qed (simp_all add: requireTenant_def sql_UpsertDependencyEdge_def sql_UpdateServiceState_def sql_UpsertServiceCatalog_def
    sql_UpsertServiceMetadata_def sql_DeleteTenant_def exec_one_def run_tx_def ensureNode_def stmt_def)

lemma cy_add_all_ok: "fst (cy_add_all all_ok k t inc ls g) = None"
  by (induction ls arbitrary: k g) simp_all

lemma cy_run_all_ok:
  "fst (cy_run all_ok t op g) =
     (if trim_space t = [] then Some ErrEmptyTenant
      else case op of UpdateCausalPath inc links \<Rightarrow> if inc = [] then Some ErrNoIncident else None | _ \<Rightarrow> None)"
  by (cases op) (simp_all add: requireTenant_def cy_UpsertDependencyEdge_def cy_UpdateServiceState_def cy_UpsertServiceCatalog_def
    cy_UpsertServiceMetadata_def cy_DeleteTenant_def cy_UpdateCausalPath_def exec_one_def cy_add_all_ok)

lemma stores_step:
  assumes "cy_inv g" "valid_op op"
  shows "fst (sql_run all_ok t op (sql_of g)) = fst (cy_run all_ok t op g)"
    and "snd (sql_run all_ok t op (sql_of g)) = sql_of (snd (cy_run all_ok t op g))"
proof -
  show e: "fst (sql_run all_ok t op (sql_of g)) = fst (cy_run all_ok t op g)" by (simp add: sql_run_all_ok cy_run_all_ok)
  have inv: "sql_inv (sql_of g)" using assms(1) by (simp add: cy_inv_def)
  from assms show "snd (sql_run all_ok t op (sql_of g)) = sql_of (snd (cy_run all_ok t op g))"
  proof (cases rule: cy_run_cases [of g op all_ok t])
    case 1
    with e sql_run_failed [OF inv, of all_ok t op] show ?thesis by simp
  next
    case (2 m)
    show ?thesis
    proof (cases "fst (cy_run all_ok t op g)")
      case None
      with 2 e sql_run_done [OF inv, of all_ok t op] show ?thesis by simp
    next
      case (Some x)
      then have "snd (cy_run all_ok t op g) = g"
        using assms by (cases op) (auto simp: cy_run_all_ok requireTenant_def cy_UpsertDependencyEdge_def cy_UpdateServiceState_def
          cy_UpsertServiceCatalog_def cy_UpsertServiceMetadata_def cy_DeleteTenant_def cy_UpdateCausalPath_def exec_one_def cy_add_all_ok split: if_splits)
      with Some e sql_run_failed [OF inv, of all_ok t op] show ?thesis by simp
    qed
  qed
qed

lemma stores_history:
  assumes "cy_inv g" "\<forall>(ok, t, op) \<in> set cs. ok = all_ok \<and> valid_op op"
  shows "run_all sql_run cs (sql_of g) = (fst (run_all cy_run cs g), sql_of (snd (run_all cy_run cs g)))"
  using assms
proof (induction cs arbitrary: g)
  case (Cons c cs)
  obtain t op where c: "c = (all_ok, t, op)" "valid_op op" using Cons.prems by (cases c) auto
  with Cons.IH [OF cy_run_inv [OF Cons.prems(1)], of op all_ok t] stores_step [OF Cons.prems(1) c(2), of t] Cons.prems(2) show ?case
    by (intro prod_eqI) (simp_all add: c del: sql_run.simps cy_run.simps run_all.simps)
qed simp

lemma names_sql:
  "cy_names ok lt col' cond' t g = map_sum id (filter (\<lambda>n. n \<noteq> [])) (sql_names ok lt col cond t (sql_of g))"
  if "\<And>r. col (rel_row r) = col' r" "\<And>r. cond (rel_row r) = cond' r"
  using that by (auto simp: cy_names_def sql_names_def sql_of_def filter_map comp_def split: option.splits)

lemma find_map_rows: "List.find P (map f xs) = map_option f (List.find (\<lambda>x. P (f x)) xs)"
  by (induction xs) auto

lemma state_sql: "cy_GetServiceState ok t svc g = sql_GetServiceState ok t svc (sql_of g)"
  by (auto simp: cy_GetServiceState_def sql_GetServiceState_def sql_of_def find_map_rows cy_node_row_def split: option.splits)

lemma graph_sql: "cy_inv g \<Longrightarrow> cy_GetGraph ok lt t g = sql_GetGraph ok lt t (sql_of g)"
  by (simp add: cy_GetGraph_def sql_GetGraph_def cy_view_inv split: option.split)

text \<open>C12: The two stores are one port. After the same writes, in any number and order and for any tenants,
  the SQL store and the Neo4j store have returned the same errors and answer every read alike: the graph,
  the state of a service, and its upstream and downstream services, from which the Neo4j store leaves
  out a service with an empty name.\<close>

theorem stores_agree:
  assumes "\<forall>(ok, t, op) \<in> set cs. ok = all_ok \<and> valid_op op"
    and "run_all sql_run cs empty_sql = (es, d)" "run_all cy_run cs empty_cypher = (fs, g)"
  shows "(es = fs) \<and>
    (sql_GetGraph ok lt t d = cy_GetGraph ok lt t g) \<and>
    (sql_GetServiceState ok t svc d = cy_GetServiceState ok t svc g) \<and>
    (cy_GetDownstreamDependencies ok lt t svc g = map_sum id (filter (\<lambda>n. n \<noteq> [])) (sql_GetDownstreamDependencies ok lt t svc d)) \<and>
    (cy_GetUpstreamDependencies ok lt t svc g = map_sum id (filter (\<lambda>n. n \<noteq> [])) (sql_GetUpstreamDependencies ok lt t svc d))"
proof (intro conjI)
  have "run_all sql_run cs empty_sql = (fs, sql_of g)"
    using stores_history [OF empty_stores(2) assms(1)] assms(3) by simp
  then show "es = fs" using assms(2) by simp
  have d: "d = sql_of g" using \<open>run_all sql_run cs empty_sql = (fs, sql_of g)\<close> assms(2) by simp
  have "\<forall>(ok, t, op) \<in> set cs. valid_op op" using assms(1) by auto
  then have inv: "cy_inv g" using cypher_store.run_all_inv [OF empty_stores(2)] assms(3) by (metis snd_conv)
  show "sql_GetGraph ok lt t d = cy_GetGraph ok lt t g" by (simp add: d graph_sql [OF inv])
  show "sql_GetServiceState ok t svc d = cy_GetServiceState ok t svc g" by (simp add: d state_sql)
  show "cy_GetDownstreamDependencies ok lt t svc g = map_sum id (filter (\<lambda>n. n \<noteq> [])) (sql_GetDownstreamDependencies ok lt t svc d)"
    "cy_GetUpstreamDependencies ok lt t svc g = map_sum id (filter (\<lambda>n. n \<noteq> [])) (sql_GetUpstreamDependencies ok lt t svc d)"
    unfolding d cy_GetDownstreamDependencies_def sql_GetDownstreamDependencies_def cy_GetUpstreamDependencies_def sql_GetUpstreamDependencies_def
    by (rule names_sql; simp)+
qed

definition demo_calls :: "graph_call list" where
  "demo_calls =
     [(all_ok, ''acme'', UpsertDependencyEdge ''web'' ''db''), (all_ok, ''acme'', UpdateServiceState ''db'' ''DEGRADED''),
      (all_ok, ''acme'', UpdateCausalPath ''inc1'' [\<lparr>gl_Source = ''db'', gl_Target = ''web'', gl_Reason = ''slow''\<rparr>])]"

lemma demo_calls_valid: "\<forall>(ok, t, op) \<in> set demo_calls. ok = all_ok \<and> valid_op op"
proof -
  have "utf8_valid ''inc1''" "utf8_valid ''slow''" by (simp_all add: utf8_len_def)
  then show ?thesis by (simp add: demo_calls_def valid_op_def)
qed

theorem stores_agree_witness:
  "sql_GetGraph all_ok str_less ''acme'' (snd (run_all sql_run demo_calls empty_sql)) =
   cy_GetGraph all_ok str_less ''acme'' (snd (run_all cy_run demo_calls empty_cypher))"
  by (rule stores_agree [THEN conjunct2, THEN conjunct1, OF demo_calls_valid]) (rule surjective_pairing)+

text \<open>What \<open>UpdateCausalPath\<close> does. When it succeeds the services and the edges are the same, the edges of
  other tenants are untouched, and every edge of the tenant holds the entries of the other incidents as they
  were, followed by one entry for each link that names its ends in either direction, in the order of the
  links. With a database that answers, a tenant and an incident id, it does succeed.\<close>

theorem causal_path_exact:
  assumes "sql_inv d" "valid_op (UpdateCausalPath inc links)"
  shows "((\<forall>k. ok k) \<and> trim_space t \<noteq> [] \<and> inc \<noteq> [] \<longrightarrow> (\<exists>d'. sql_UpdateCausalPath ok t inc links d = (None, d'))) \<and>
    (sql_UpdateCausalPath ok t inc links d = (None, d') \<longrightarrow>
      sg_nodes d' = sg_nodes d \<and>
      list_all2 (\<lambda>r r'. erow_key r' = erow_key r \<and>
          (if ge_tenant r = t
           then decodeEntries (ge_entries r') = kept_entries inc (decodeEntries (ge_entries r)) @
                  map (entry_of inc) (filter (\<lambda>l. link_matches l (ge_source r) (ge_target r)) links)
           else r' = r))
        (sg_edges d) (sg_edges d'))"
proof (rule conjI; rule impI)
  show "(\<forall>k. ok k) \<and> trim_space t \<noteq> [] \<and> inc \<noteq> [] \<Longrightarrow> \<exists>d'. sql_UpdateCausalPath ok t inc links d = (None, d')"
    using UpdateCausalPath_total by blast
  have "\<And>r. r \<in> set (sg_edges d) \<Longrightarrow> entries_ok r" using assms(1) by (simp add: sql_inv_def)
  note rows = causal_row_entries(1) [OF this assms(2)]
  assume "sql_UpdateCausalPath ok t inc links d = (None, d')"
  with assms(1) have "d' = d\<lparr>sg_edges := map (causal_row t inc links) (sg_edges d)\<rparr>" by (intro UpdateCausalPath_effect(1))
  then show "sg_nodes d' = sg_nodes d \<and>
      list_all2 (\<lambda>r r'. erow_key r' = erow_key r \<and>
          (if ge_tenant r = t
           then decodeEntries (ge_entries r') = kept_entries inc (decodeEntries (ge_entries r)) @
                  map (entry_of inc) (filter (\<lambda>l. link_matches l (ge_source r) (ge_target r)) links)
           else r' = r))
        (sg_edges d) (sg_edges d')"
    using rows causal_row_other by (auto simp: list_all2_conv_all_nth)
qed

definition demo_table :: sql_graph where
  "demo_table = snd (run_all sql_run [(all_ok, ''acme'', UpsertDependencyEdge ''web'' ''db'')] empty_sql)"

lemma demo_table_inv: "sql_inv demo_table"
  unfolding demo_table_def by (rule sql_store.run_all_inv) (simp_all add: valid_op_def)

theorem causal_path_exact_witness:
  "\<exists>d'. sql_UpdateCausalPath all_ok ''acme'' ''inc1'' [\<lparr>gl_Source = ''db'', gl_Target = ''web'', gl_Reason = ''slow''\<rparr>] demo_table = (None, d')"
proof (rule causal_path_exact [THEN conjunct1, THEN mp, OF demo_table_inv])
  have "utf8_valid ''inc1''" "utf8_valid ''slow''" by (simp_all add: utf8_len_def)
  then show "valid_op (UpdateCausalPath ''inc1'' [\<lparr>gl_Source = ''db'', gl_Target = ''web'', gl_Reason = ''slow''\<rparr>])"
    by (simp add: valid_op_def)
qed (simp add: trim_space_def is_space_def)

lemma kept_entries_own:
  "kept_entries inc (kept_entries inc es @ map (entry_of inc) ls) = kept_entries inc es"
  by (auto simp: kept_entries_def has_prefix_iff entry_of_def)

lemma causal_row_eqI:
  assumes "entries_ok r" "entries_ok r'" "erow_key r = erow_key r'" "decodeEntries (ge_entries r) = decodeEntries (ge_entries r')"
  shows "r = r'"
proof -
  have "ge_entries r = ge_entries r'" using assms by (metis entries_ok_def)
  with assms(3) show ?thesis by (cases r; cases r') simp
qed

lemma causal_row_again:
  assumes "entries_ok r" "valid_op (UpdateCausalPath inc l1)" "valid_op (UpdateCausalPath inc l2)"
  shows "causal_row t inc l2 (causal_row t inc l1 r) = causal_row t inc l2 r"
proof (cases "ge_tenant r = t")
  case True
  show ?thesis
    by (rule causal_row_eqI)
      (use assms True in \<open>simp_all add: causal_row_ok causal_row_entries(1) kept_entries_own\<close>)
qed (simp add: causal_row_other)

text \<open>A later analysis replaces an earlier one. After \<open>UpdateCausalPath\<close> for an incident with one list of links and
  then with another, the tables are those of the second update alone: a shorter chain leaves nothing of
  the longer one highlighted.\<close>

theorem reanalysis_replaces:
  assumes "sql_inv d" "valid_op (UpdateCausalPath inc l1)" "valid_op (UpdateCausalPath inc l2)"
    and "sql_UpdateCausalPath ok1 t inc l1 d = (None, d1)" "sql_UpdateCausalPath ok2 t inc l2 d1 = (None, d2)"
    and "sql_UpdateCausalPath ok3 t inc l2 d = (None, d3)"
  shows "d2 = d3"
proof -
  have d1: "d1 = d\<lparr>sg_edges := map (causal_row t inc l1) (sg_edges d)\<rparr>"
    by (rule UpdateCausalPath_effect(1) [OF assms(4,1)])
  have "sql_inv d1" unfolding d1 by (rule causal_rows_inv [OF assms(1,2)])
  then have d2: "d2 = d1\<lparr>sg_edges := map (causal_row t inc l2) (sg_edges d1)\<rparr>"
    by (rule UpdateCausalPath_effect(1) [OF assms(5)])
  have d3: "d3 = d\<lparr>sg_edges := map (causal_row t inc l2) (sg_edges d)\<rparr>"
    by (rule UpdateCausalPath_effect(1) [OF assms(6,1)])
  have "\<forall>r \<in> set (sg_edges d). entries_ok r" using assms(1) by (simp add: sql_inv_def)
  then show ?thesis unfolding d2 d3 d1 by (simp add: causal_row_again [OF _ assms(2,3)])
qed

theorem reanalysis_replaces_witness:
  "snd (sql_UpdateCausalPath all_ok ''acme'' ''i'' [] (snd (sql_UpdateCausalPath all_ok ''acme'' ''i'' [] demo_table))) =
   snd (sql_UpdateCausalPath all_ok ''acme'' ''i'' [] demo_table)"
proof -
  have "utf8_valid ''i''" by (simp add: utf8_len_def)
  then have v: "valid_op (UpdateCausalPath ''i'' [])" by (simp add: valid_op_def)
  have "trim_space ''acme'' \<noteq> []" by (simp add: trim_space_def is_space_def)
  then obtain d1 d2 where d1: "sql_UpdateCausalPath all_ok ''acme'' ''i'' [] demo_table = (None, d1)"
    and d2: "sql_UpdateCausalPath all_ok ''acme'' ''i'' [] d1 = (None, d2)"
    using UpdateCausalPath_total [of all_ok "''acme''" "''i''" "[]"] by blast
  from reanalysis_replaces [OF demo_table_inv v v d1 d2 d1] show ?thesis by (simp add: d1 d2)
qed

text \<open>Tenants are isolated in both stores: whatever other tenants write, in whatever order and with whatever
  failures of the database, a tenant's graph is what it was. Once its deletion succeeded the graph is empty, and
  stays so until the tenant itself writes again.\<close>

theorem topology_isolated:
  assumes "\<forall>(ok, t', op) \<in> set cs. valid_op op \<and> t' \<noteq> t"
  shows "(sql_inv d \<longrightarrow> sql_view lt t (snd (run_all sql_run cs d)) = sql_view lt t d) \<and>
    (cy_inv g \<longrightarrow> cy_view lt t (snd (run_all cy_run cs g)) = cy_view lt t g) \<and>
    (sql_inv d \<longrightarrow> sql_DeleteTenant ok t d = (None, d') \<longrightarrow> sql_view lt t (snd (run_all sql_run cs d')) = empty_graph) \<and>
    (cy_inv g \<longrightarrow> cy_DeleteTenant ok t g = (None, g') \<longrightarrow> cy_view lt t (snd (run_all cy_run cs g')) = empty_graph)"
  using sql_store.others_unchanged [OF _ assms] cypher_store.others_unchanged [OF _ assms]
    sql_store.deletion_final [OF _ _ assms, of d ok] cypher_store.deletion_final [OF _ _ assms, of g ok]
  by auto

theorem topology_isolated_witness:
  "sql_view str_less ''beta'' (snd (run_all sql_run demo_calls empty_sql)) = sql_view str_less ''beta'' empty_sql"
proof (rule topology_isolated [THEN conjunct1, THEN mp])
  show "\<forall>(ok, t', op) \<in> set demo_calls. valid_op op \<and> t' \<noteq> ''beta''"
    using demo_calls_valid by (auto simp: demo_calls_def)
qed simp

end
