(* ===== verification/Topology_Service.thy ===== *)
theory Topology_Service
  imports Topology_Graph Alerts
begin

text \<open>
  The topology service on top of the port: the repository with its Redis cache, span buffer and edge
  metrics (\<open>src/topology-service/internal/repository/repository.go\<close>), the HTTP handlers
  (\<open>internal/handler/api.go\<close>) with the receiver that turns spans into dependency edges, and the
  consumer of the logs topic (\<open>internal/consumer/graph_builder.go\<close>).

  A store behind the port is a record of its operations. The environment says which calls to Redis
  and to the store succeed, numbered over the whole run; it gives the order in which Redis returns the
  members of a set, its sum of floating-point numbers, and the formatting and parsing of them,
  and the matching of its patterns. The expiry of the keys of the span buffer and of the metrics is
  not modelled; that of a cached answer is a step of its own in the theorem on the cache. An
  operation runs as a whole, and a cached answer comes back from JSON as it went in.
\<close>

section \<open>State\<close>

datatype redis_val =
    RNames "string list"
  | RGraph Graph
  | RHash int int float64
  | RText string
  | RSet "string list"

type_synonym topo_redis = "string \<Rightarrow> redis_val option"

record 's GraphStore =
  gs_run :: "(nat \<Rightarrow> bool) \<Rightarrow> string \<Rightarrow> graph_op \<Rightarrow> 's \<Rightarrow> graph_error option \<times> 's"
  gs_down :: "(nat \<Rightarrow> bool) \<Rightarrow> string \<Rightarrow> string \<Rightarrow> 's \<Rightarrow> graph_error + string list"
  gs_up :: "(nat \<Rightarrow> bool) \<Rightarrow> string \<Rightarrow> string \<Rightarrow> 's \<Rightarrow> graph_error + string list"
  gs_state :: "(nat \<Rightarrow> bool) \<Rightarrow> string \<Rightarrow> string \<Rightarrow> 's \<Rightarrow> graph_error + string"
  gs_graph :: "(nat \<Rightarrow> bool) \<Rightarrow> string \<Rightarrow> 's \<Rightarrow> graph_error + Graph"

definition sql_port :: "(string \<Rightarrow> string \<Rightarrow> bool) \<Rightarrow> sql_graph GraphStore" where
  "sql_port lt = \<lparr>gs_run = sql_run, gs_down = (\<lambda>ok. sql_GetDownstreamDependencies ok lt), gs_up = (\<lambda>ok. sql_GetUpstreamDependencies ok lt),
     gs_state = sql_GetServiceState, gs_graph = (\<lambda>ok. sql_GetGraph ok lt)\<rparr>"

definition cypher_port :: "(string \<Rightarrow> string \<Rightarrow> bool) \<Rightarrow> cypher_graph GraphStore" where
  "cypher_port lt = \<lparr>gs_run = cy_run, gs_down = (\<lambda>ok. cy_GetDownstreamDependencies ok lt), gs_up = (\<lambda>ok. cy_GetUpstreamDependencies ok lt),
     gs_state = cy_GetServiceState, gs_graph = (\<lambda>ok. cy_GetGraph ok lt)\<rparr>"

record topo_env =
  te_redis :: "nat \<Rightarrow> bool"
  te_store :: "nat \<Rightarrow> nat \<Rightarrow> bool"
  te_members :: "string list \<Rightarrow> string list"
  te_addf :: "float64 \<Rightarrow> float64 \<Rightarrow> float64"
  te_fmt3 :: "float64 \<Rightarrow> string"
  te_parsef :: "string \<Rightarrow> float64"
  te_glob :: "string \<Rightarrow> string \<Rightarrow> bool"

text \<open>The repository: its store, its Redis client (\<open>None\<close> when there is none), and the number of calls so far.\<close>

record 's TopoRepository =
  tr_store :: 's
  tr_rdb :: "topo_redis option"
  tr_calls :: nat

definition tick :: "'s TopoRepository \<Rightarrow> 's TopoRepository" where
  "tick r = r\<lparr>tr_calls := Suc (tr_calls r)\<rparr>"

text \<open>A command that changes Redis, with whether it succeeded; without a client there is none to send.\<close>

definition redis_do :: "topo_env \<Rightarrow> (topo_redis \<Rightarrow> topo_redis) \<Rightarrow> 's TopoRepository \<Rightarrow> bool \<times> 's TopoRepository" where
  "redis_do E f r = (case tr_rdb r of
     None \<Rightarrow> (True, r)
   | Some m \<Rightarrow> if te_redis E (tr_calls r) then (True, (tick r)\<lparr>tr_rdb := Some (f m)\<rparr>) else (False, tick r))"

text \<open>A command that reads: \<open>None\<close> when there is no client, the command fails or there is no such key.\<close>

definition redis_get :: "topo_env \<Rightarrow> string \<Rightarrow> 's TopoRepository \<Rightarrow> redis_val option \<times> 's TopoRepository" where
  "redis_get E k r = (case tr_rdb r of
     None \<Rightarrow> (None, r)
   | Some m \<Rightarrow> (if te_redis E (tr_calls r) then m k else None, tick r))"

definition del_keys :: "string list \<Rightarrow> topo_redis \<Rightarrow> topo_redis" where
  "del_keys ks m = (\<lambda>k. if k \<in> set ks then None else m k)"

definition store_write :: "topo_env \<Rightarrow> 's GraphStore \<Rightarrow> string \<Rightarrow> graph_op \<Rightarrow> 's TopoRepository \<Rightarrow> graph_error option \<times> 's TopoRepository" where
  "store_write E P t op r = (case gs_run P (te_store E (tr_calls r)) t op (tr_store r) of (e, s) \<Rightarrow> (e, (tick r)\<lparr>tr_store := s\<rparr>))"

section \<open>The repository\<close>

definition up_key :: "string \<Rightarrow> string \<Rightarrow> string" where "up_key t svc = ''topo:upstream:'' @ t @ '':'' @ svc"
definition down_key :: "string \<Rightarrow> string \<Rightarrow> string" where "down_key t svc = ''topo:downstream:'' @ t @ '':'' @ svc"
definition graph_key :: "string \<Rightarrow> string" where "graph_key t = ''topo:graph:'' @ t"

definition invalidate_topology :: "topo_env \<Rightarrow> string \<Rightarrow> string \<Rightarrow> 's TopoRepository \<Rightarrow> 's TopoRepository" where
  "invalidate_topology E t svc r = snd (redis_do E (del_keys [up_key t svc, down_key t svc, graph_key t]) r)"

definition repo_UpsertDependencyEdge ::
  "topo_env \<Rightarrow> 's GraphStore \<Rightarrow> string \<Rightarrow> string \<Rightarrow> string \<Rightarrow> 's TopoRepository \<Rightarrow> graph_error option \<times> 's TopoRepository" where
  "repo_UpsertDependencyEdge E P t a b r = (case store_write E P t (UpsertDependencyEdge a b) r of
     (None, r1) \<Rightarrow> (None, invalidate_topology E t b (invalidate_topology E t a r1))
   | (Some e, r1) \<Rightarrow> (Some e, r1))"

text \<open>The three other writes that concern one service.\<close>

definition repo_service_write ::
  "topo_env \<Rightarrow> 's GraphStore \<Rightarrow> string \<Rightarrow> string \<Rightarrow> graph_op \<Rightarrow> 's TopoRepository \<Rightarrow> graph_error option \<times> 's TopoRepository" where
  "repo_service_write E P t svc op r = (case store_write E P t op r of
     (None, r1) \<Rightarrow> (None, invalidate_topology E t svc r1)
   | (Some e, r1) \<Rightarrow> (Some e, r1))"

definition repo_UpdateServiceState where
  "repo_UpdateServiceState E P t svc state = repo_service_write E P t svc (UpdateServiceState svc state)"

definition repo_UpsertServiceCatalog where
  "repo_UpsertServiceCatalog E P t svc team repo slack = repo_service_write E P t svc (UpsertServiceCatalog svc team repo slack)"

definition repo_UpsertServiceMetadata where
  "repo_UpsertServiceMetadata E P t svc tier lifecycle links = repo_service_write E P t svc (UpsertServiceMetadata svc tier lifecycle links)"

definition repo_UpdateCausalPath ::
  "topo_env \<Rightarrow> 's GraphStore \<Rightarrow> string \<Rightarrow> string \<Rightarrow> GraphLink list \<Rightarrow> 's TopoRepository \<Rightarrow> graph_error option \<times> 's TopoRepository" where
  "repo_UpdateCausalPath E P t inc links r = (case store_write E P t (UpdateCausalPath inc links) r of
     (None, r1) \<Rightarrow> (None, snd (redis_do E (del_keys [graph_key t]) r1))
   | (Some e, r1) \<Rightarrow> (Some e, r1))"

text \<open>The keys that \<open>KEYS topo:*:<tenant>*\<close> selects. The matching of patterns is the server's, \<open>te_glob\<close>.\<close>

definition tenant_pattern :: "topo_env \<Rightarrow> string \<Rightarrow> string \<Rightarrow> bool" where
  "tenant_pattern E t k = te_glob E (''topo:*:'' @ t @ ''*'') k"

definition repo_DeleteTenant :: "topo_env \<Rightarrow> 's GraphStore \<Rightarrow> string \<Rightarrow> 's TopoRepository \<Rightarrow> graph_error option \<times> 's TopoRepository" where
  "repo_DeleteTenant E P t r = (case store_write E P t DeleteTenant r of
     (None, r1) \<Rightarrow>
       (case redis_do E id r1 of
          (listed, r2) \<Rightarrow>
            (let r3 = (if listed then snd (redis_do E (\<lambda>m k. if tenant_pattern E t k then None else m k) r2) else r2)
             in (None, snd (redis_do E (del_keys [graph_key t]) r3))))
   | (Some e, r1) \<Rightarrow> (Some e, r1))"

definition cachedNames ::
  "topo_env \<Rightarrow> string \<Rightarrow> ((nat \<Rightarrow> bool) \<Rightarrow> 's \<Rightarrow> graph_error + string list) \<Rightarrow> 's TopoRepository \<Rightarrow> (graph_error + string list) \<times> 's TopoRepository" where
  "cachedNames E k load r = (case redis_get E k r of
     (Some (RNames deps), r1) \<Rightarrow> (Ok deps, r1)
   | (_, r1) \<Rightarrow>
       (case load (te_store E (tr_calls r1)) (tr_store r1) of
          Inl e \<Rightarrow> (Err e, tick r1)
        | Inr deps \<Rightarrow> (Ok deps, snd (redis_do E (\<lambda>m. m(k \<mapsto> RNames deps)) (tick r1)))))"

definition repo_GetDownstreamDependencies where
  "repo_GetDownstreamDependencies E P t svc = cachedNames E (down_key t svc) (\<lambda>ok. gs_down P ok t svc)"

definition repo_GetUpstreamDependencies where
  "repo_GetUpstreamDependencies E P t svc = cachedNames E (up_key t svc) (\<lambda>ok. gs_up P ok t svc)"

definition repo_GetServiceState :: "topo_env \<Rightarrow> 's GraphStore \<Rightarrow> string \<Rightarrow> string \<Rightarrow> 's TopoRepository \<Rightarrow> (graph_error + string) \<times> 's TopoRepository" where
  "repo_GetServiceState E P t svc r = (gs_state P (te_store E (tr_calls r)) t svc (tr_store r), tick r)"

subsection \<open>Edge metrics\<close>

record EdgeMetric =
  em_RequestCount :: int
  em_ErrorCount :: int
  em_AvgLatencyMs :: float64

definition no_metric :: EdgeMetric where
  "no_metric = \<lparr>em_RequestCount = 0, em_ErrorCount = 0, em_AvgLatencyMs = Fl 0\<rparr>"

definition edgeMetricKey :: "string \<Rightarrow> string \<Rightarrow> string \<Rightarrow> string" where
  "edgeMetricKey t a b = ''topo:edgemetric:'' @ t @ '':'' @ a @ ''->'' @ b"

definition add_metric :: "topo_env \<Rightarrow> float64 \<Rightarrow> bool \<Rightarrow> redis_val option \<Rightarrow> redis_val" where
  "add_metric E dur isError v = (case v of
     Some (RHash c e s) \<Rightarrow> RHash (c + 1) (if isError then e + 1 else e) (te_addf E s dur)
   | _ \<Rightarrow> RHash 1 (if isError then 1 else 0) (te_addf E (Fl 0) dur))"

definition RecordEdgeMetric :: "topo_env \<Rightarrow> string \<Rightarrow> string \<Rightarrow> string \<Rightarrow> float64 \<Rightarrow> bool \<Rightarrow> 's TopoRepository \<Rightarrow> bool \<times> 's TopoRepository" where
  "RecordEdgeMetric E t a b dur isError r =
     redis_do E (\<lambda>m. m(edgeMetricKey t a b \<mapsto> add_metric E dur isError (m (edgeMetricKey t a b)))) r"

definition GetEdgeMetric :: "topo_env \<Rightarrow> string \<Rightarrow> string \<Rightarrow> string \<Rightarrow> 's TopoRepository \<Rightarrow> EdgeMetric \<times> 's TopoRepository" where
  "GetEdgeMetric E t a b r = (case redis_get E (edgeMetricKey t a b) r of
     (Some (RHash c e s), r1) \<Rightarrow>
       (\<lparr>em_RequestCount = c, em_ErrorCount = e, em_AvgLatencyMs = (if 0 < c then fdiv s (of_count (nat c)) else Fl 0)\<rparr>, r1)
   | (_, r1) \<Rightarrow> (no_metric, r1))"

fun paint_metrics :: "topo_env \<Rightarrow> string \<Rightarrow> GraphEdge list \<Rightarrow> 's TopoRepository \<Rightarrow> GraphEdge list \<times> 's TopoRepository" where
  "paint_metrics E t [] r = ([], r)"
| "paint_metrics E t (e # es) r =
     (case GetEdgeMetric E t (ed_Source e) (ed_Target e) r of (m, r1) \<Rightarrow>
       (case paint_metrics E t es r1 of (es', r2) \<Rightarrow>
         (e\<lparr>ed_RequestCount := em_RequestCount m, ed_ErrorCount := em_ErrorCount m, ed_AvgLatencyMs := em_AvgLatencyMs m\<rparr> # es', r2)))"

text \<open>A number that is not finite cannot be marshalled, and the graph that holds it is not cached.\<close>

definition marshals :: "Graph \<Rightarrow> bool" where
  "marshals G \<longleftrightarrow> (\<forall>e \<in> set (gr_Edges G). \<exists>q. ed_AvgLatencyMs e = Fl q)"

definition repo_GetGraph :: "topo_env \<Rightarrow> 's GraphStore \<Rightarrow> string \<Rightarrow> 's TopoRepository \<Rightarrow> (graph_error + Graph) \<times> 's TopoRepository" where
  "repo_GetGraph E P t r = (case redis_get E (graph_key t) r of
     (Some (RGraph G), r1) \<Rightarrow> (Ok G, r1)
   | (_, r1) \<Rightarrow>
       (case gs_graph P (te_store E (tr_calls r1)) t (tr_store r1) of
          Inl e \<Rightarrow> (Err e, tick r1)
        | Inr G0 \<Rightarrow>
            (case paint_metrics E t (gr_Edges G0) (tick r1) of (es, r2) \<Rightarrow>
               (let G = G0\<lparr>gr_Edges := es\<rparr> in
                (Ok G, if marshals G then snd (redis_do E (\<lambda>m. m(graph_key t \<mapsto> RGraph G)) r2) else r2)))))"

subsection \<open>The span buffer\<close>

definition SetSpanService :: "topo_env \<Rightarrow> string \<Rightarrow> string \<Rightarrow> 's TopoRepository \<Rightarrow> 's TopoRepository" where
  "SetSpanService E k svc r = snd (redis_do E (\<lambda>m. m(k \<mapsto> RText svc)) r)"

definition GetSpanService :: "topo_env \<Rightarrow> string \<Rightarrow> 's TopoRepository \<Rightarrow> string option \<times> 's TopoRepository" where
  "GetSpanService E k r = (case redis_get E k r of (Some (RText svc), r1) \<Rightarrow> (Some svc, r1) | (_, r1) \<Rightarrow> (None, r1))"

definition child_entry :: "topo_env \<Rightarrow> string \<Rightarrow> float64 \<Rightarrow> bool \<Rightarrow> string \<Rightarrow> string" where
  "child_entry E svc dur isError spanID =
     svc @ ''|'' @ te_fmt3 E dur @ ''|'' @ (if isError then ''true'' else ''false'') @ ''|'' @ spanID"

definition set_add :: "string \<Rightarrow> redis_val option \<Rightarrow> redis_val" where
  "set_add x v = (case v of Some (RSet xs) \<Rightarrow> RSet (if x \<in> set xs then xs else xs @ [x]) | _ \<Rightarrow> RSet [x])"

definition AddPendingChild :: "topo_env \<Rightarrow> string \<Rightarrow> string \<Rightarrow> float64 \<Rightarrow> bool \<Rightarrow> string \<Rightarrow> 's TopoRepository \<Rightarrow> 's TopoRepository" where
  "AddPendingChild E k svc dur isError spanID r =
     (case redis_do E (\<lambda>m. m(k \<mapsto> set_add (child_entry E svc dur isError spanID) (m k))) r of
        (True, r1) \<Rightarrow> snd (redis_do E id r1)
      | (False, r1) \<Rightarrow> r1)"

record PendingChildEntry =
  pc_Service :: string
  pc_DurationMs :: float64
  pc_IsError :: bool

text \<open>\<open>strings.SplitN(raw, "|", 4)\<close> yields at least three parts when there are two separators; the third ends
  at the next one.\<close>

definition ParsePendingChildEntry :: "topo_env \<Rightarrow> string \<Rightarrow> PendingChildEntry option" where
  "ParsePendingChildEntry E raw = (case split_on CHR ''|'' raw of
     a # b # c # _ \<Rightarrow> Some \<lparr>pc_Service = a, pc_DurationMs = te_parsef E b, pc_IsError = (c = ''true'')\<rparr>
   | _ \<Rightarrow> None)"

definition GetPendingChildren :: "topo_env \<Rightarrow> string \<Rightarrow> 's TopoRepository \<Rightarrow> string list \<times> 's TopoRepository" where
  "GetPendingChildren E k r = (case redis_get E k r of (Some (RSet xs), r1) \<Rightarrow> (te_members E xs, r1) | (_, r1) \<Rightarrow> ([], r1))"

definition DeleteKey :: "topo_env \<Rightarrow> string \<Rightarrow> 's TopoRepository \<Rightarrow> 's TopoRepository" where
  "DeleteKey E k r = snd (redis_do E (del_keys [k]) r)"

section \<open>Receiving spans\<close>

record span =
  sp_SpanId :: bytes
  sp_ParentSpanId :: bytes
  sp_Start :: "64 word"
  sp_End :: "64 word"
  sp_Error :: bool

definition durationMs :: "span \<Rightarrow> float64" where
  "durationMs sp = fdiv (of_count (unat (sp_End sp - sp_Start sp))) (Fl 1000000)"

definition isAllZeros :: "bytes \<Rightarrow> bool" where
  "isAllZeros bs = list_all (\<lambda>x. x = 0) bs"

definition span_key :: "bytes \<Rightarrow> string" where "span_key i = ''span:'' @ hex_encode i"
definition pending_key :: "bytes \<Rightarrow> string" where "pending_key i = ''pending:'' @ hex_encode i"

text \<open>The edge and the metric of one call from \<open>a\<close> to \<open>b\<close>; a failure of either is logged.\<close>

definition record_call :: "topo_env \<Rightarrow> 's GraphStore \<Rightarrow> string \<Rightarrow> string \<Rightarrow> string \<Rightarrow> float64 \<Rightarrow> bool \<Rightarrow> 's TopoRepository \<Rightarrow> 's TopoRepository" where
  "record_call E P t a b dur isError r =
     snd (RecordEdgeMetric E t a b dur isError (snd (repo_UpsertDependencyEdge E P t a b r)))"

definition has_parent :: "span \<Rightarrow> bool" where
  "has_parent sp \<longleftrightarrow> sp_ParentSpanId sp \<noteq> [] \<and> \<not> isAllZeros (sp_ParentSpanId sp)"

definition link_parent :: "topo_env \<Rightarrow> 's GraphStore \<Rightarrow> string \<Rightarrow> string \<Rightarrow> span \<Rightarrow> 's TopoRepository \<Rightarrow> 's TopoRepository" where
  "link_parent E P t svc sp r =
     (if has_parent sp then
        (case GetSpanService E (span_key (sp_ParentSpanId sp)) r of (found, r1) \<Rightarrow>
          (case found of
             Some parent \<Rightarrow>
               if parent \<noteq> [] then (if parent \<noteq> svc then record_call E P t parent svc (durationMs sp) (sp_Error sp) r1 else r1)
               else AddPendingChild E (pending_key (sp_ParentSpanId sp)) svc (durationMs sp) (sp_Error sp) (hex_encode (sp_SpanId sp)) r1
           | None \<Rightarrow> AddPendingChild E (pending_key (sp_ParentSpanId sp)) svc (durationMs sp) (sp_Error sp) (hex_encode (sp_SpanId sp)) r1))
      else r)"

definition resolve_child :: "topo_env \<Rightarrow> 's GraphStore \<Rightarrow> string \<Rightarrow> string \<Rightarrow> string \<Rightarrow> 's TopoRepository \<Rightarrow> 's TopoRepository" where
  "resolve_child E P t svc raw r = (case ParsePendingChildEntry E raw of
     None \<Rightarrow> r
   | Some c \<Rightarrow> if svc = pc_Service c then r else record_call E P t svc (pc_Service c) (pc_DurationMs c) (pc_IsError c) r)"

definition resolve_children :: "topo_env \<Rightarrow> 's GraphStore \<Rightarrow> string \<Rightarrow> string \<Rightarrow> span \<Rightarrow> 's TopoRepository \<Rightarrow> 's TopoRepository" where
  "resolve_children E P t svc sp r =
     (case GetPendingChildren E (pending_key (sp_SpanId sp)) r of (children, r1) \<Rightarrow>
        if children = [] then r1
        else DeleteKey E (pending_key (sp_SpanId sp)) (fold (resolve_child E P t svc) children r1))"

definition receive_span :: "topo_env \<Rightarrow> 's GraphStore \<Rightarrow> string \<Rightarrow> string \<Rightarrow> span \<Rightarrow> 's TopoRepository \<Rightarrow> 's TopoRepository" where
  "receive_span E P t svc sp r =
     resolve_children E P t svc sp (link_parent E P t svc sp (SetSpanService E (span_key (sp_SpanId sp)) svc r))"

record resource_spans =
  rs_attributes :: "(string \<times> string) list"
  rs_scopes :: "span list list"

definition resource_service :: "resource_spans \<Rightarrow> string" where
  "resource_service rs = fold (\<lambda>(k, v) s. if k = ''service.name'' then v else s) (rs_attributes rs) []"

definition resource_tenant :: "resource_spans \<Rightarrow> string" where
  "resource_tenant rs = fold (\<lambda>(k, v) s. if k = ''tenant.id'' \<and> v \<noteq> [] then v else s) (rs_attributes rs) ''default''"

definition receive_resource :: "topo_env \<Rightarrow> 's GraphStore \<Rightarrow> resource_spans \<Rightarrow> 's TopoRepository \<Rightarrow> 's TopoRepository" where
  "receive_resource E P rs r =
     (if resource_service rs = [] then r
      else fold (fold (receive_span E P (resource_tenant rs) (resource_service rs))) (rs_scopes rs) r)"

text \<open>\<open>None\<close> is a body that cannot be read or is not OTLP.\<close>

definition handleReceiveTraces :: "topo_env \<Rightarrow> 's GraphStore \<Rightarrow> resource_spans list option \<Rightarrow> 's TopoRepository \<Rightarrow> int \<times> 's TopoRepository" where
  "handleReceiveTraces E P body r = (case body of None \<Rightarrow> (400, r) | Some rss \<Rightarrow> (200, fold (receive_resource E P) rss r))"

section \<open>The other handlers\<close>

definition orDefaultTenant :: "string \<Rightarrow> string" where
  "orDefaultTenant t = (if t = [] then ''default'' else t)"

text \<open>The caller's tenant is the header that the gateway verified.\<close>

definition topo_tenantOf :: "string \<Rightarrow> string" where
  "topo_tenantOf header = (if header \<noteq> [] then header else ''default'')"

definition handleGetDownstream :: "topo_env \<Rightarrow> 's GraphStore \<Rightarrow> string \<Rightarrow> string \<Rightarrow> 's TopoRepository \<Rightarrow> (int + string list) \<times> 's TopoRepository" where
  "handleGetDownstream E P header svc r =
     (if svc = [] then (Inl 400, r)
      else case repo_GetDownstreamDependencies E P (topo_tenantOf header) svc r of
          (Inl e, r1) \<Rightarrow> (Inl 500, r1) | (Inr deps, r1) \<Rightarrow> (Inr deps, r1))"

definition handleGetUpstream :: "topo_env \<Rightarrow> 's GraphStore \<Rightarrow> string \<Rightarrow> string \<Rightarrow> 's TopoRepository \<Rightarrow> (int + string list) \<times> 's TopoRepository" where
  "handleGetUpstream E P header svc r =
     (if svc = [] then (Inl 400, r)
      else case repo_GetUpstreamDependencies E P (topo_tenantOf header) svc r of
          (Inl e, r1) \<Rightarrow> (Inl 500, r1) | (Inr deps, r1) \<Rightarrow> (Inr deps, r1))"

record AgentConfig =
  ac_LogLevel :: string
  ac_TraceSampling :: float64

definition handleGetAgentConfig :: "topo_env \<Rightarrow> 's GraphStore \<Rightarrow> string \<Rightarrow> string \<Rightarrow> 's TopoRepository \<Rightarrow> (int + AgentConfig) \<times> 's TopoRepository" where
  "handleGetAgentConfig E P header svc r =
     (if svc = [] then (Inl 400, r)
      else case repo_GetServiceState E P (topo_tenantOf header) svc r of
          (Inl e, r1) \<Rightarrow> (Inl 500, r1)
        | (Inr state, r1) \<Rightarrow>
            (Inr (if state = ''PREDICTIVE_WARNING'' \<or> state = ''DEGRADED''
                  then \<lparr>ac_LogLevel = ''DEBUG'', ac_TraceSampling = Fl 1\<rparr>
                  else \<lparr>ac_LogLevel = ''WARN'', ac_TraceSampling = round64 (1 / 100)\<rparr>), r1))"

text \<open>The status of a write that answers 200 or fails. Three of the writes take the tenant from the body of the
  request, where the caller put it, and leave the header aside.\<close>

definition write_status :: "graph_error option \<times> 's TopoRepository \<Rightarrow> int \<times> 's TopoRepository" where
  "write_status x = (case x of (None, r) \<Rightarrow> (200, r) | (Some e, r) \<Rightarrow> (500, r))"

record UpdateStateRequest =
  us_TenantID :: string
  us_ServiceName :: string
  us_State :: string

definition handleUpdateState :: "topo_env \<Rightarrow> 's GraphStore \<Rightarrow> string \<Rightarrow> UpdateStateRequest option \<Rightarrow> 's TopoRepository \<Rightarrow> int \<times> 's TopoRepository" where
  "handleUpdateState E P header body r = (case body of None \<Rightarrow> (400, r)
   | Some q \<Rightarrow> write_status (repo_UpdateServiceState E P (orDefaultTenant (us_TenantID q)) (us_ServiceName q) (us_State q) r))"

record UpdateCatalogRequest =
  uc_TenantID :: string
  uc_ServiceName :: string
  uc_Team :: string
  uc_Repo :: string
  uc_Slack :: string

definition handleUpdateCatalog :: "topo_env \<Rightarrow> 's GraphStore \<Rightarrow> string \<Rightarrow> UpdateCatalogRequest option \<Rightarrow> 's TopoRepository \<Rightarrow> int \<times> 's TopoRepository" where
  "handleUpdateCatalog E P header body r = (case body of None \<Rightarrow> (400, r)
   | Some q \<Rightarrow> write_status (repo_UpsertServiceCatalog E P (orDefaultTenant (uc_TenantID q)) (uc_ServiceName q) (uc_Team q) (uc_Repo q) (uc_Slack q) r))"

definition validLifecycles :: "string list" where "validLifecycles = ['''', ''experimental'', ''production'', ''deprecated'']"
definition validTiers :: "string list" where "validTiers = ['''', ''tier-1'', ''tier-2'', ''tier-3'']"
definition validLinkKeys :: "string list" where "validLinkKeys = [''repo'', ''dashboards'', ''runbooks'', ''docs'']"

definition validateCatalogMetadata :: "string \<Rightarrow> string \<Rightarrow> bool" where
  "validateCatalogMetadata tier lifecycle \<longleftrightarrow> tier \<in> set validTiers \<and> lifecycle \<in> set validLifecycles"

fun sanitizeLinks :: "(string, string) gomap \<Rightarrow> (string, string) gomap option" where
  "sanitizeLinks [] = Some []"
| "sanitizeLinks ((k, v) # m) =
     (if k \<notin> set validLinkKeys then None
      else map_option (\<lambda>out. if trim_space v = [] then out else (k, trim_space v) # out) (sanitizeLinks m))"

record PatchCatalogMetadataRequest =
  pm_Tier :: string
  pm_Lifecycle :: string
  pm_Links :: "(string, string) gomap"

definition handlePatchCatalogMetadata ::
  "topo_env \<Rightarrow> 's GraphStore \<Rightarrow> string \<Rightarrow> string \<Rightarrow> PatchCatalogMetadataRequest option \<Rightarrow> 's TopoRepository \<Rightarrow> int \<times> 's TopoRepository" where
  "handlePatchCatalogMetadata E P header svc body r =
     (if svc = [] then (400, r)
      else case body of None \<Rightarrow> (400, r)
        | Some q \<Rightarrow>
            if \<not> validateCatalogMetadata (pm_Tier q) (pm_Lifecycle q) then (400, r)
            else (case sanitizeLinks (pm_Links q) of None \<Rightarrow> (400, r)
              | Some links \<Rightarrow> write_status (repo_UpsertServiceMetadata E P (topo_tenantOf header) svc (pm_Tier q) (pm_Lifecycle q) links r)))"

record UpdateCausalPathRequest =
  cp_TenantID :: string
  cp_IncidentID :: string
  cp_Links :: "GraphLink list"

definition handleUpdateCausalPath :: "topo_env \<Rightarrow> 's GraphStore \<Rightarrow> string \<Rightarrow> UpdateCausalPathRequest option \<Rightarrow> 's TopoRepository \<Rightarrow> int \<times> 's TopoRepository" where
  "handleUpdateCausalPath E P header body r = (case body of None \<Rightarrow> (400, r)
   | Some q \<Rightarrow> if cp_IncidentID q = [] then (400, r)
       else write_status (repo_UpdateCausalPath E P (orDefaultTenant (cp_TenantID q)) (cp_IncidentID q) (cp_Links q) r))"

definition handleGetGraph :: "topo_env \<Rightarrow> 's GraphStore \<Rightarrow> string \<Rightarrow> 's TopoRepository \<Rightarrow> (int + Graph) \<times> 's TopoRepository" where
  "handleGetGraph E P header r = (case repo_GetGraph E P (topo_tenantOf header) r of (Inl e, r1) \<Rightarrow> (Inl 500, r1) | (Inr G, r1) \<Rightarrow> (Inr G, r1))"

definition handleDeleteTenant :: "topo_env \<Rightarrow> 's GraphStore \<Rightarrow> string \<Rightarrow> 's TopoRepository \<Rightarrow> int \<times> 's TopoRepository" where
  "handleDeleteTenant E P header r = write_status (repo_DeleteTenant E P (topo_tenantOf header) r)"

text \<open>The consumer of the logs topic; \<open>None\<close> is a message that is not a log entry.\<close>

definition builder_Handle :: "topo_env \<Rightarrow> 's GraphStore \<Rightarrow> LogEntry option \<Rightarrow> 's TopoRepository \<Rightarrow> 's TopoRepository" where
  "builder_Handle E P msg r = (case msg of None \<Rightarrow> r
   | Some l \<Rightarrow> snd (repo_UpdateServiceState E P (if le_TenantID l = [] then ''default'' else le_TenantID l) (le_ServiceName l) ''HEALTHY'' r))"

section \<open>Spans in any order\<close>

text \<open>An environment in which the calls succeed, and the documented behaviour of the rest: Redis returns
  the members of a set, and a formatted number has no bar in it.\<close>

definition env_ok :: "topo_env \<Rightarrow> bool" where
  "env_ok E \<longleftrightarrow> (\<forall>k. te_redis E k) \<and> (\<forall>n k. te_store E n k) \<and> (\<forall>xs. set (te_members E xs) = set xs) \<and>
     (\<forall>x. CHR ''|'' \<notin> set (te_fmt3 E x))"

text \<open>The edges that a set of spans, each with its service, gives rise to.\<close>

definition span_edges :: "(string \<times> span) set \<Rightarrow> (string \<times> string) set" where
  "span_edges S = {(a, b). \<exists>p c. (a, p) \<in> S \<and> (b, c) \<in> S \<and> has_parent c \<and> sp_ParentSpanId c = sp_SpanId p \<and> a \<noteq> b}"

definition span_events :: "resource_spans list \<Rightarrow> (string \<times> span) list" where
  "span_events rss = concat (map (\<lambda>rs. if resource_service rs = [] then [] else map (\<lambda>sp. (resource_service rs, sp)) (concat (rs_scopes rs))) rss)"

definition receive_spans :: "topo_env \<Rightarrow> 's GraphStore \<Rightarrow> string \<Rightarrow> (string \<times> span) list \<Rightarrow> 's TopoRepository \<Rightarrow> 's TopoRepository" where
  "receive_spans E P t evs = fold (\<lambda>(svc, sp). receive_span E P t svc sp) evs"

lemma fold_concat: "fold f (concat xss) r = fold (fold f) xss r"
  by (induction xss arbitrary: r) simp_all

lemma receive_resource_events:
  "resource_tenant rs = t \<Longrightarrow> receive_resource E P rs r = receive_spans E P t (span_events [rs]) r"
  by (simp add: receive_resource_def receive_spans_def span_events_def fold_map comp_def fold_concat)

text \<open>The repository's store shows the dependencies \<open>D\<close>, and its Redis holds \<open>m\<close> but for the cache and the metrics.\<close>

definition buffered ::
  "('s \<Rightarrow> bool) \<Rightarrow> (string \<Rightarrow> 's \<Rightarrow> Graph) \<Rightarrow> string \<Rightarrow> (string \<times> string) set \<Rightarrow> topo_redis \<Rightarrow> 's TopoRepository \<Rightarrow> bool" where
  "buffered I view t D m r \<longleftrightarrow> I (tr_store r) \<and> dependencies (view t (tr_store r)) = D \<and>
     (\<exists>m0. tr_rdb r = Some m0 \<and> (\<forall>k. \<not> has_prefix ''topo:'' k \<longrightarrow> m0 k = m k))"

text \<open>What the buffer holds: the service of each span seen, and for each span not seen the children that wait for it.\<close>

definition names_are :: "topo_redis \<Rightarrow> (bytes \<Rightarrow> string option) \<Rightarrow> bool" where
  "names_are m N \<longleftrightarrow> (\<forall>i. m (span_key i) = map_option RText (N i))"

definition holds_set :: "redis_val option \<Rightarrow> string set \<Rightarrow> bool" where
  "holds_set v X = (case v of None \<Rightarrow> X = {} | Some (RSet xs) \<Rightarrow> set xs = X | _ \<Rightarrow> False)"

definition pending_are :: "topo_redis \<Rightarrow> (bytes \<Rightarrow> string set) \<Rightarrow> bool" where
  "pending_are m W \<longleftrightarrow> (\<forall>p. holds_set (m (pending_key p)) (W p))"

definition span_ids :: "(string \<times> span) list \<Rightarrow> bytes list" where
  "span_ids S = map (\<lambda>(s, sp). sp_SpanId sp) S"

definition service_of :: "(string \<times> span) list \<Rightarrow> bytes \<Rightarrow> string option" where
  "service_of S = map_of (map (\<lambda>(s, sp). (sp_SpanId sp, s)) S)"

definition entry_for :: "topo_env \<Rightarrow> string \<times> span \<Rightarrow> string" where
  "entry_for E x = child_entry E (fst x) (durationMs (snd x)) (sp_Error (snd x)) (hex_encode (sp_SpanId (snd x)))"

definition children_of :: "(string \<times> span) list \<Rightarrow> bytes \<Rightarrow> (string \<times> span) set" where
  "children_of S p = {x \<in> set S. has_parent (snd x) \<and> sp_ParentSpanId (snd x) = p}"

definition waiting :: "topo_env \<Rightarrow> (string \<times> span) list \<Rightarrow> bytes \<Rightarrow> string set" where
  "waiting E S p = (if p \<in> set (span_ids S) then {} else entry_for E ` children_of S p)"

lemma hex_encode_inject [simp]: "hex_encode a = hex_encode b \<longleftrightarrow> a = b"
  by (metis hex_decode_encode)

lemma buffer_keys [simp]:
  "span_key i = span_key j \<longleftrightarrow> i = j" "pending_key i = pending_key j \<longleftrightarrow> i = j"
  "span_key i \<noteq> pending_key j" "pending_key j \<noteq> span_key i"
  "\<not> has_prefix ''topo:'' (span_key i)" "\<not> has_prefix ''topo:'' (pending_key i)"
  by (simp_all add: span_key_def pending_key_def has_prefix_def)

lemma cache_keys [simp]:
  "has_prefix ''topo:'' (up_key t s)" "has_prefix ''topo:'' (down_key t s)" "has_prefix ''topo:'' (graph_key t)"
  "has_prefix ''topo:'' (edgeMetricKey t a b)"
  by (simp_all add: up_key_def down_key_def graph_key_def edgeMetricKey_def has_prefix_def)

lemma buffered_do:
  assumes "env_ok E" "buffered I view t D m r"
    and "\<And>m0 k. (\<And>k. \<not> has_prefix ''topo:'' k \<Longrightarrow> m0 k = m k) \<Longrightarrow> \<not> has_prefix ''topo:'' k \<Longrightarrow> f m0 k = m' k"
  shows "buffered I view t D m' (snd (redis_do E f r))"
  using assms by (auto simp: buffered_def redis_do_def env_ok_def tick_def)

lemma redis_do_ok: "env_ok E \<Longrightarrow> fst (redis_do E f r)"
  by (simp add: redis_do_def env_ok_def split: option.split)

lemma buffered_invalidate: "env_ok E \<Longrightarrow> buffered I view t D m r \<Longrightarrow> buffered I view t D m (invalidate_topology E t' svc r)"
  unfolding invalidate_topology_def by (rule buffered_do [where m = m and m' = m]) (auto simp: del_keys_def)

lemma buffered_get:
  assumes "env_ok E" "buffered I view t D m r" "\<not> has_prefix ''topo:'' k"
  obtains r1 where "redis_get E k r = (m k, r1)" "buffered I view t D m r1"
  using assms by (auto simp: buffered_def redis_get_def env_ok_def tick_def)

lemma buffered_set:
  "env_ok E \<Longrightarrow> buffered I view t D m r \<Longrightarrow> buffered I view t D (m(span_key i \<mapsto> RText svc)) (SetSpanService E (span_key i) svc r)"
  unfolding SetSpanService_def by (rule buffered_do) auto

lemma buffered_delete:
  "env_ok E \<Longrightarrow> buffered I view t D m r \<Longrightarrow> buffered I view t D (m(pending_key i := None)) (DeleteKey E (pending_key i) r)"
  unfolding DeleteKey_def by (rule buffered_do) (auto simp: del_keys_def)

lemma buffered_pend:
  assumes "env_ok E" "buffered I view t D m r"
  shows "buffered I view t D (m(pending_key p \<mapsto> set_add (child_entry E svc dur err i) (m (pending_key p))))
     (AddPendingChild E (pending_key p) svc dur err i r)"
proof -
  let ?f = "\<lambda>m. m(pending_key p \<mapsto> set_add (child_entry E svc dur err i) (m (pending_key p)))"
  have 1: "buffered I view t D (?f m) (snd (redis_do E ?f r))"
    by (rule buffered_do [OF assms]) simp
  have "buffered I view t D (?f m) (snd (redis_do E id (snd (redis_do E ?f r))))"
    by (rule buffered_do [OF assms(1) 1]) simp
  with redis_do_ok [OF assms(1), of ?f r] show ?thesis by (auto simp: AddPendingChild_def split: prod.splits)
qed

lemma parse_child_entry:
  assumes "env_ok E" "CHR ''|'' \<notin> set svc"
  shows "\<exists>c. ParsePendingChildEntry E (child_entry E svc dur err i) = Some c \<and> pc_Service c = svc"
proof -
  have "CHR ''|'' \<notin> set (te_fmt3 E dur)" using assms(1) by (simp add: env_ok_def)
  then have "split_on CHR ''|'' (child_entry E svc dur err i) =
      svc # te_fmt3 E dur # (if err then ''true'' else ''false'') # split_on CHR ''|'' i"
    using assms(2) by (simp add: child_entry_def split_on_append)
  then show ?thesis by (simp add: ParsePendingChildEntry_def)
qed

definition child_edges :: "string \<Rightarrow> (string \<times> span) set \<Rightarrow> (string \<times> string) set" where
  "child_edges svc Y = (\<lambda>y. (svc, fst y)) ` {y \<in> Y. fst y \<noteq> svc}"

lemma child_edges_insert:
  "child_edges svc {} = {}" "D \<union> child_edges svc (insert x Y) = (if fst x = svc then D else insert (svc, fst x) D) \<union> child_edges svc Y"
  by (auto simp: child_edges_def)

context graph_store
begin

lemma record_call_buffered:
  assumes "env_ok E" "gs_run P = run" "trim_space t \<noteq> []" "buffered inv view t D m r"
  shows "buffered inv view t (insert (a, b) D) m (record_call E P t a b dur err r)"
proof -
  let ?ok = "te_store E (tr_calls r)" and ?op = "UpsertDependencyEdge a b"
  have store: "inv (tr_store r)" "dependencies (view t (tr_store r)) = D" using assms(4) by (simp_all add: buffered_def)
  have ran: "fst (run ?ok t ?op (tr_store r)) = None" using assms(1,3) by (intro available) (auto simp: env_ok_def)
  have "valid_op ?op" by (simp add: valid_op_def)
  then have "buffered inv view t (insert (a, b) D) m (snd (store_write E P t ?op r))"
    using assms(2,4) inv_run [OF store(1), of ?op ?ok t] linked [OF store(1) ran] store(2)
    by (auto simp: buffered_def store_write_def tick_def split: prod.splits)
  then have "buffered inv view t (insert (a, b) D) m (invalidate_topology E t b (invalidate_topology E t a (snd (store_write E P t ?op r))))"
    by (intro buffered_invalidate assms(1))
  moreover have "fst (store_write E P t ?op r) = None" using ran assms(2) by (auto simp: store_write_def split: prod.splits)
  ultimately have "buffered inv view t (insert (a, b) D) m (snd (repo_UpsertDependencyEdge E P t a b r))"
    by (auto simp: repo_UpsertDependencyEdge_def split: prod.splits option.splits)
  then show ?thesis
    unfolding record_call_def RecordEdgeMetric_def by (intro buffered_do [OF assms(1)]) auto
qed

lemma resolve_buffered:
  assumes "env_ok E" "gs_run P = run" "trim_space t \<noteq> []" "buffered inv view t D m r"
    and "\<forall>x \<in> X. CHR ''|'' \<notin> set (fst x)" "set cs \<subseteq> entry_for E ` X"
  shows "\<exists>Y \<subseteq> X. entry_for E ` Y = set cs \<and>
     buffered inv view t (D \<union> child_edges svc Y) m (fold (resolve_child E P t svc) cs r)"
  using assms(4,6)
proof (induction cs arbitrary: D r)
  case Nil
  then show ?case by (intro exI [of _ "{}"]) (simp add: child_edges_insert)
next
  case (Cons raw cs)
  then obtain x where x: "x \<in> X" "raw = entry_for E x" by auto
  then obtain c where c: "ParsePendingChildEntry E raw = Some c" "pc_Service c = fst x"
    using parse_child_entry [OF assms(1)] assms(5) unfolding entry_for_def by blast
  let ?D = "if fst x = svc then D else insert (svc, fst x) D"
  have "buffered inv view t ?D m (resolve_child E P t svc raw r)"
    using record_call_buffered [OF assms(1-3) Cons.prems(1), of svc "fst x"] Cons.prems(1) c
    by (auto simp: resolve_child_def)
  from Cons.IH [OF this] Cons.prems(2) obtain Y where Y: "Y \<subseteq> X" "entry_for E ` Y = set cs"
    "buffered inv view t (?D \<union> child_edges svc Y) m (fold (resolve_child E P t svc) cs (resolve_child E P t svc raw r))"
    by auto
  then have "buffered inv view t (D \<union> child_edges svc (insert x Y)) m (fold (resolve_child E P t svc) (raw # cs) r)"
    unfolding child_edges_insert by simp
  with Y(1,2) x show ?case by (intro exI [of _ "insert x Y"]) simp
qed

end

lemma entry_for_service:
  assumes "env_ok E" "CHR ''|'' \<notin> set (fst x)" "CHR ''|'' \<notin> set (fst y)" "entry_for E x = entry_for E y"
  shows "fst x = fst y"
  using parse_child_entry [OF assms(1,2), of "durationMs (snd x)" "sp_Error (snd x)" "hex_encode (sp_SpanId (snd x))"]
    parse_child_entry [OF assms(1,3), of "durationMs (snd y)" "sp_Error (snd y)" "hex_encode (sp_SpanId (snd y))"] assms(4)
  by (auto simp: entry_for_def)

lemma child_edges_entries:
  assumes "env_ok E" "\<forall>x \<in> X \<union> Y. CHR ''|'' \<notin> set (fst x)" "entry_for E ` X = entry_for E ` Y"
  shows "child_edges svc X = child_edges svc Y"
proof -
  have *: "child_edges svc A \<subseteq> child_edges svc B"
    if sub: "entry_for E ` A \<subseteq> entry_for E ` B" "\<forall>x \<in> A \<union> B. CHR ''|'' \<notin> set (fst x)" for A B
  proof
    fix e assume "e \<in> child_edges svc A"
    then obtain x where x: "x \<in> A" "fst x \<noteq> svc" "e = (svc, fst x)" by (auto simp: child_edges_def)
    then have "entry_for E x \<in> entry_for E ` B" using sub(1) by blast
    then obtain y where y: "y \<in> B" "entry_for E x = entry_for E y" by blast
    have "fst x = fst y" by (rule entry_for_service [OF assms(1) _ _ y(2)]) (use sub(2) x(1) y(1) in auto)
    with x y(1) show "e \<in> child_edges svc B" by (auto simp: child_edges_def)
  qed
  show ?thesis using * [of X Y] * [of Y X] assms by auto
qed

definition parent_edges :: "(string \<times> span) list \<Rightarrow> string \<Rightarrow> span \<Rightarrow> (string \<times> string) set" where
  "parent_edges S svc sp = {(a, svc) | a p. (a, p) \<in> set S \<and> has_parent sp \<and> sp_ParentSpanId sp = sp_SpanId p \<and> a \<noteq> svc}"

lemma service_of_iff:
  assumes "distinct (span_ids S)"
  shows "service_of S i = Some a \<longleftrightarrow> (\<exists>p. (a, p) \<in> set S \<and> sp_SpanId p = i)"
proof -
  have "map fst (map (\<lambda>(s, sp). (sp_SpanId sp, s)) S) = span_ids S" by (auto simp: span_ids_def)
  with assms have "distinct (map fst (map (\<lambda>(s, sp). (sp_SpanId sp, s)) S))" by simp
  from map_of_eq_Some_iff [OF this] show ?thesis by (force simp: service_of_def)
qed

lemma service_of_None: "service_of S i = None \<longleftrightarrow> i \<notin> set (span_ids S)"
  by (force simp: service_of_def span_ids_def map_of_eq_None_iff image_iff)

lemma parent_edges_service:
  assumes "distinct (span_ids S)"
  shows "parent_edges S svc sp =
    (if has_parent sp then (case service_of S (sp_ParentSpanId sp) of Some a \<Rightarrow> if a \<noteq> svc then {(a, svc)} else {} | None \<Rightarrow> {}) else {})"
proof -
  have "parent_edges S svc sp = {(b, svc) | b. has_parent sp \<and> service_of S (sp_ParentSpanId sp) = Some b \<and> b \<noteq> svc}"
    unfolding parent_edges_def service_of_iff [OF assms] by (rule Collect_cong) metis
  then show ?thesis by (auto split: option.split)
qed

definition pend_one :: "topo_env \<Rightarrow> (string \<times> span) list \<Rightarrow> string \<Rightarrow> span \<Rightarrow> bytes \<Rightarrow> string set" where
  "pend_one E S svc sp p = (if has_parent sp \<and> sp_ParentSpanId sp = p \<and> p \<notin> set (span_ids S) then {entry_for E (svc, sp)} else {})"

lemma pending_are_add:
  assumes "pending_are m W"
  shows "pending_are (m(pending_key q \<mapsto> set_add e (m (pending_key q)))) (\<lambda>p. W p \<union> (if p = q then {e} else {}))"
proof -
  have "holds_set (m (pending_key q)) (W q)" using assms by (simp add: pending_are_def)
  then have "holds_set (Some (set_add e (m (pending_key q)))) (insert e (W q))"
    by (auto simp: holds_set_def set_add_def split: option.splits redis_val.splits)
  then show ?thesis using assms by (simp add: pending_are_def)
qed

context graph_store
begin

lemma link_parent_buffered:
  assumes E: "env_ok E" "gs_run P = run" "trim_space t \<noteq> []" and r: "buffered inv view t D m r"
    and m: "names_are m (service_of S)" "pending_are m W"
    and S: "distinct (span_ids S)" "\<forall>x \<in> set S. fst x \<noteq> []"
  shows "\<exists>m'. buffered inv view t (D \<union> parent_edges S svc sp) m' (link_parent E P t svc sp r) \<and>
     names_are m' (service_of S) \<and> pending_are m' (\<lambda>p. W p \<union> pend_one E S svc sp p)"
proof (cases "has_parent sp")
  case False
  then show ?thesis using r m by (intro exI [of _ m]) (simp add: link_parent_def parent_edges_def pend_one_def)
next
  case True
  let ?p = "sp_ParentSpanId sp"
  obtain r1 where r1: "redis_get E (span_key ?p) r = (m (span_key ?p), r1)" "buffered inv view t D m r1"
    using buffered_get [OF E(1) r, of "span_key ?p"] by auto
  then have get: "GetSpanService E (span_key ?p) r = (service_of S ?p, r1)"
    using m(1) by (simp add: GetSpanService_def names_are_def split: option.splits)
  show ?thesis
  proof (cases "service_of S ?p")
    case None
    let ?m = "m(pending_key ?p \<mapsto> set_add (entry_for E (svc, sp)) (m (pending_key ?p)))"
    have "buffered inv view t (D \<union> parent_edges S svc sp) ?m (link_parent E P t svc sp r)"
      using buffered_pend [OF E(1) r1(2)] True None
      by (simp add: link_parent_def get entry_for_def parent_edges_service [OF S(1)])
    moreover have "pend_one E S svc sp = (\<lambda>p. if p = ?p then {entry_for E (svc, sp)} else {})"
      using True None by (intro ext) (auto simp: pend_one_def service_of_None)
    moreover have "names_are ?m (service_of S)" using m(1) by (simp add: names_are_def)
    ultimately show ?thesis using pending_are_add [OF m(2)] by (intro exI [of _ ?m]) simp
  next
    case (Some a)
    then have "a \<noteq> []" using S service_of_iff [OF S(1)] by force
    then have "buffered inv view t (D \<union> parent_edges S svc sp) m (link_parent E P t svc sp r)"
      using record_call_buffered [OF E r1(2)] r1(2) True Some
      by (simp add: link_parent_def get parent_edges_service [OF S(1)])
    moreover have "pend_one E S svc sp p = {}" for p
      using Some service_of_None [of S ?p] by (auto simp: pend_one_def)
    ultimately show ?thesis using m by (intro exI [of _ m]) simp
  qed
qed

lemma resolve_children_buffered:
  assumes E: "env_ok E" "gs_run P = run" "trim_space t \<noteq> []" and r: "buffered inv view t D m r"
    and m: "names_are m N" "pending_are m W"
    and X: "W (sp_SpanId sp) = entry_for E ` X" "\<forall>x \<in> X. CHR ''|'' \<notin> set (fst x)"
  shows "\<exists>m'. buffered inv view t (D \<union> child_edges svc X) m' (resolve_children E P t svc sp r) \<and>
     names_are m' N \<and> pending_are m' (W(sp_SpanId sp := {}))"
proof -
  let ?i = "sp_SpanId sp"
  obtain r1 where r1: "redis_get E (pending_key ?i) r = (m (pending_key ?i), r1)" "buffered inv view t D m r1"
    using buffered_get [OF E(1) r, of "pending_key ?i"] by auto
  obtain cs where cs: "GetPendingChildren E (pending_key ?i) r = (cs, r1)" "set cs = entry_for E ` X"
  proof -
    have "holds_set (m (pending_key ?i)) (W ?i)"
      using m(2) by (simp add: pending_are_def)
    then have "\<exists>cs. GetPendingChildren E (pending_key ?i) r = (cs, r1) \<and> set cs = W ?i"
      using r1(1) E(1) by (auto simp: GetPendingChildren_def env_ok_def holds_set_def split: option.splits redis_val.splits)
    with X(1) that show thesis by auto
  qed
  have "set cs \<subseteq> entry_for E ` X" by (simp add: cs)
  from resolve_buffered [OF E r1(2) X(2) this, of svc] obtain Y where Y: "Y \<subseteq> X" "entry_for E ` Y = set cs"
    "buffered inv view t (D \<union> child_edges svc Y) m (fold (resolve_child E P t svc) cs r1)" by blast
  have "child_edges svc Y = child_edges svc X"
    using Y(1,2) X(2) cs(2) by (intro child_edges_entries [OF E(1)]) auto
  with Y(3) have fold: "buffered inv view t (D \<union> child_edges svc X) m (fold (resolve_child E P t svc) cs r1)" by simp
  show ?thesis
  proof (cases "cs = []")
    case True
    then have "X = {}" using cs(2) by auto
    then have "W(?i := {}) = W" using X(1) by (intro ext) auto
    with True fold m show ?thesis by (intro exI [of _ m]) (simp add: resolve_children_def cs)
  next
    case False
    have "pending_are (m(pending_key ?i := None)) (W(?i := {}))" using m(2) by (simp add: pending_are_def holds_set_def [of None])
    moreover have "names_are (m(pending_key ?i := None)) N" using m(1) by (simp add: names_are_def)
    ultimately show ?thesis
      using buffered_delete [OF E(1) fold] False by (intro exI [of _ "m(pending_key ?i := None)"]) (simp add: resolve_children_def cs)
  qed
qed

lemma receive_span_buffered:
  assumes E: "env_ok E" "gs_run P = run" "trim_space t \<noteq> []" and r: "buffered inv view t D m r"
    and m: "names_are m (service_of S)" "pending_are m (waiting E S)"
    and S: "distinct (span_ids ((svc, sp) # S))" "\<forall>x \<in> set ((svc, sp) # S). fst x \<noteq> [] \<and> CHR ''|'' \<notin> set (fst x)"
  shows "\<exists>m'. buffered inv view t (D \<union> parent_edges ((svc, sp) # S) svc sp \<union> child_edges svc (children_of S (sp_SpanId sp))) m' (receive_span E P t svc sp r) \<and>
     names_are m' (service_of ((svc, sp) # S)) \<and> pending_are m' (waiting E ((svc, sp) # S))"
proof -
  let ?i = "sp_SpanId sp" and ?S = "(svc, sp) # S"
  let ?W = "\<lambda>p. waiting E S p \<union> pend_one E ?S svc sp p"
  have fresh: "?i \<notin> set (span_ids S)" using S(1) by (simp add: span_ids_def)
  have r1: "buffered inv view t D (m(span_key ?i \<mapsto> RText svc)) (SetSpanService E (span_key ?i) svc r)"
    by (rule buffered_set [OF E(1) r])
  have "names_are (m(span_key ?i \<mapsto> RText svc)) (service_of ?S)" "pending_are (m(span_key ?i \<mapsto> RText svc)) (waiting E S)"
    using m by (simp_all add: names_are_def pending_are_def service_of_def)
  from link_parent_buffered [OF E r1 this S(1)] S(2) obtain m2
    where m2: "buffered inv view t (D \<union> parent_edges ?S svc sp) m2 (link_parent E P t svc sp (SetSpanService E (span_key ?i) svc r))"
      "names_are m2 (service_of ?S)" "pending_are m2 ?W" by blast
  have "?W ?i = entry_for E ` children_of S ?i"
    using fresh by (auto simp: waiting_def pend_one_def span_ids_def)
  moreover have "\<forall>x \<in> children_of S ?i. CHR ''|'' \<notin> set (fst x)" using S(2) by (auto simp: children_of_def)
  moreover have "?W(?i := {}) = waiting E ?S"
  proof
    fix p show "(?W(?i := {})) p = waiting E ?S p"
      using fresh by (auto simp: waiting_def pend_one_def span_ids_def children_of_def)
  qed
  ultimately show ?thesis
    using resolve_children_buffered [OF E m2, of sp "children_of S ?i" svc] unfolding receive_span_def by simp
qed

end

lemma span_edges_Cons:
  "span_edges (set ((svc, sp) # S)) = span_edges (set S) \<union> parent_edges ((svc, sp) # S) svc sp \<union> child_edges svc (children_of S (sp_SpanId sp))"
proof -
  have child: "(a, b) \<in> child_edges svc (children_of S i) \<longleftrightarrow> a = svc \<and> b \<noteq> svc \<and> (\<exists>c. (b, c) \<in> set S \<and> has_parent c \<and> sp_ParentSpanId c = i)" for a b i
    by (force simp: child_edges_def children_of_def)
  have "(a, b) \<in> span_edges (set ((svc, sp) # S)) \<longleftrightarrow>
      (a, b) \<in> span_edges (set S) \<union> parent_edges ((svc, sp) # S) svc sp \<union> child_edges svc (children_of S (sp_SpanId sp))" for a b
    by (simp add: child) (auto simp: span_edges_def parent_edges_def)
  then show ?thesis by auto
qed

context graph_store
begin

lemma receive_spans_buffered:
  assumes E: "env_ok E" "gs_run P = run" "trim_space t \<noteq> []"
    and "buffered inv view t (D0 \<union> span_edges (set S)) m r" "names_are m (service_of S)" "pending_are m (waiting E S)"
    and "distinct (span_ids (rev evs @ S))" "\<forall>x \<in> set (evs @ S). fst x \<noteq> [] \<and> CHR ''|'' \<notin> set (fst x)"
  shows "dependencies (view t (tr_store (receive_spans E P t evs r))) = D0 \<union> span_edges (set evs \<union> set S)"
  using assms(4-8)
proof (induction evs arbitrary: S m r)
  case Nil
  then show ?case by (simp add: receive_spans_def buffered_def)
next
  case (Cons x evs)
  obtain svc sp where x: "x = (svc, sp)" by (cases x)
  have "distinct (span_ids ((svc, sp) # S))" "\<forall>x \<in> set ((svc, sp) # S). fst x \<noteq> [] \<and> CHR ''|'' \<notin> set (fst x)"
    using Cons.prems(4,5) by (auto simp: x span_ids_def)
  from receive_span_buffered [OF E Cons.prems(1-3) this] obtain m'
    where "buffered inv view t (D0 \<union> span_edges (set ((svc, sp) # S))) m' (receive_span E P t svc sp r)"
      "names_are m' (service_of ((svc, sp) # S))" "pending_are m' (waiting E ((svc, sp) # S))"
    unfolding span_edges_Cons Un_assoc by blast
  from Cons.IH [OF this] Cons.prems(4,5) show ?case
    by (simp add: x receive_spans_def span_ids_def Un_commute insert_commute)
qed

text \<open>From an empty buffer the edges are those of the set of spans: no order and no batching changes them.\<close>

lemma spans_exact:
  assumes "env_ok E" "gs_run P = run" "trim_space t \<noteq> []" "inv (tr_store r)" "tr_rdb r = Some (\<lambda>_. None)"
    and "distinct (span_ids evs)" "\<forall>x \<in> set evs. fst x \<noteq> [] \<and> CHR ''|'' \<notin> set (fst x)"
  shows "dependencies (view t (tr_store (receive_spans E P t evs r))) = dependencies (view t (tr_store r)) \<union> span_edges (set evs)"
proof -
  have "buffered inv view t (dependencies (view t (tr_store r)) \<union> span_edges (set [])) (\<lambda>_. None) r"
    using assms(4,5) by (simp add: buffered_def span_edges_def)
  moreover have "names_are (\<lambda>_. None) (service_of [])" "pending_are (\<lambda>_. None) (waiting E [])"
    by (simp_all add: names_are_def service_of_def pending_are_def holds_set_def waiting_def children_of_def)
  moreover have "distinct (span_ids (rev evs @ []))" using assms(6) by (simp add: span_ids_def rev_map [symmetric])
  ultimately show ?thesis using receive_spans_buffered [OF assms(1-3), of "dependencies (view t (tr_store r))" "[]"] assms(7) by auto
qed

end

section \<open>The cache\<close>

text \<open>What a client does with the repository, and the expiry of a cached key.\<close>

datatype repo_call =
    CWrite string graph_op
  | CDown string string
  | CUp string string
  | CGraph string
  | CMetric string string string float64 bool
  | CExpire string

definition call_tenant :: "repo_call \<Rightarrow> string" where
  "call_tenant c = (case c of CWrite t _ \<Rightarrow> t | CDown t _ \<Rightarrow> t | CUp t _ \<Rightarrow> t | CGraph t \<Rightarrow> t | CMetric t _ _ _ _ \<Rightarrow> t | CExpire _ \<Rightarrow> [])"

definition repo_write :: "topo_env \<Rightarrow> 's GraphStore \<Rightarrow> string \<Rightarrow> graph_op \<Rightarrow> 's TopoRepository \<Rightarrow> graph_error option \<times> 's TopoRepository" where
  "repo_write E P t op r = (case op of
     UpsertDependencyEdge a b \<Rightarrow> repo_UpsertDependencyEdge E P t a b r
   | UpdateServiceState svc state \<Rightarrow> repo_UpdateServiceState E P t svc state r
   | UpsertServiceCatalog svc team repo slack \<Rightarrow> repo_UpsertServiceCatalog E P t svc team repo slack r
   | UpsertServiceMetadata svc tier lifecycle links \<Rightarrow> repo_UpsertServiceMetadata E P t svc tier lifecycle links r
   | UpdateCausalPath inc links \<Rightarrow> repo_UpdateCausalPath E P t inc links r
   | DeleteTenant \<Rightarrow> repo_DeleteTenant E P t r)"

definition repo_step :: "topo_env \<Rightarrow> 's GraphStore \<Rightarrow> repo_call \<Rightarrow> 's TopoRepository \<Rightarrow> 's TopoRepository" where
  "repo_step E P c r = (case c of
     CWrite t op \<Rightarrow> snd (repo_write E P t op r)
   | CDown t svc \<Rightarrow> snd (repo_GetDownstreamDependencies E P t svc r)
   | CUp t svc \<Rightarrow> snd (repo_GetUpstreamDependencies E P t svc r)
   | CGraph t \<Rightarrow> snd (repo_GetGraph E P t r)
   | CMetric t a b dur err \<Rightarrow> snd (RecordEdgeMetric E t a b dur err r)
   | CExpire k \<Rightarrow> r\<lparr>tr_rdb := map_option (\<lambda>m. m(k := None)) (tr_rdb r)\<rparr>)"

definition bare_edge :: "GraphEdge \<Rightarrow> GraphEdge" where
  "bare_edge e = e\<lparr>ed_RequestCount := 0, ed_ErrorCount := 0, ed_AvgLatencyMs := Fl 0\<rparr>"

definition strip_metrics :: "Graph \<Rightarrow> Graph" where
  "strip_metrics G = G\<lparr>gr_Edges := map bare_edge (gr_Edges G)\<rparr>"

text \<open>Every cached value is what the store answers now; of the metrics nothing is said.\<close>

definition cache_current ::
  "(string \<Rightarrow> string \<Rightarrow> 's \<Rightarrow> string list) \<Rightarrow> (string \<Rightarrow> string \<Rightarrow> 's \<Rightarrow> string list) \<Rightarrow> (string \<Rightarrow> 's \<Rightarrow> Graph) \<Rightarrow> 's \<Rightarrow> topo_redis \<Rightarrow> bool" where
  "cache_current down up view s m \<longleftrightarrow> (\<forall>t svc v. CHR '':'' \<notin> set t \<longrightarrow>
     (m (down_key t svc) = Some v \<longrightarrow> v = RNames (down t svc s)) \<and> (m (up_key t svc) = Some v \<longrightarrow> v = RNames (up t svc s)) \<and>
     (m (graph_key t) = Some v \<longrightarrow> (\<exists>G. v = RGraph G \<and> strip_metrics G = view t s)))"

lemma append_colon_inject:
  assumes "CHR '':'' \<notin> set t" "CHR '':'' \<notin> set t'"
  shows "t @ CHR '':'' # a = t' @ CHR '':'' # b \<longleftrightarrow> t = t' \<and> a = b"
proof -
  have "cut (CHR '':'') (t @ CHR '':'' # a) = (t, a, True)" "cut (CHR '':'') (t' @ CHR '':'' # b) = (t', b, True)"
    using assms by (simp_all add: cut_found)
  then show ?thesis by (metis prod.inject)
qed

lemma key_inject:
  "CHR '':'' \<notin> set t \<Longrightarrow> CHR '':'' \<notin> set t' \<Longrightarrow> down_key t a = down_key t' b \<longleftrightarrow> t = t' \<and> a = b"
  "CHR '':'' \<notin> set t \<Longrightarrow> CHR '':'' \<notin> set t' \<Longrightarrow> up_key t a = up_key t' b \<longleftrightarrow> t = t' \<and> a = b"
  "graph_key t = graph_key t' \<longleftrightarrow> t = t'"
  by (simp_all add: down_key_def up_key_def graph_key_def append_colon_inject)

lemma key_distinct [simp]:
  "down_key t a \<noteq> up_key t' b" "up_key t' b \<noteq> down_key t a" "down_key t a \<noteq> graph_key t'" "graph_key t' \<noteq> down_key t a"
  "up_key t a \<noteq> graph_key t'" "graph_key t' \<noteq> up_key t a" "edgeMetricKey t c d \<noteq> up_key t' a" "edgeMetricKey t c d \<noteq> down_key t' a"
  "edgeMetricKey t c d \<noteq> graph_key t'"
  "up_key t' a \<noteq> edgeMetricKey t c d" "down_key t' a \<noteq> edgeMetricKey t c d" "graph_key t' \<noteq> edgeMetricKey t c d"
  by (simp_all add: down_key_def up_key_def graph_key_def edgeMetricKey_def)

text \<open>What Redis documents of a pattern of two texts without pattern characters, each followed by a star; and
  a tenant whose keys such patterns can name.\<close>

definition glob_plain :: "string \<Rightarrow> bool" where
  "glob_plain s \<longleftrightarrow> (\<forall>c \<in> set s. c \<notin> set [CHR ''*'', CHR ''?'', CHR ''['', CHR '']'', CHR 0x5C])"

definition glob_ok :: "topo_env \<Rightarrow> bool" where
  "glob_ok E \<longleftrightarrow> (\<forall>a b k. glob_plain a \<longrightarrow> glob_plain b \<longrightarrow> te_glob E (a @ ''*'' @ b @ ''*'') k = (\<exists>x y. k = a @ x @ b @ y))"

definition plain_tenant :: "string \<Rightarrow> bool" where
  "plain_tenant t \<longleftrightarrow> CHR '':'' \<notin> set t \<and> glob_plain t"

lemma tenant_pattern_iff:
  assumes "glob_ok E" "glob_plain t"
  shows "tenant_pattern E t k \<longleftrightarrow> (\<exists>x y. k = ''topo:'' @ x @ ('':'' @ t) @ y)"
proof -
  have "glob_plain ''topo:''" "glob_plain ('':'' @ t)" using assms(2) by (simp_all add: glob_plain_def)
  with assms(1) have "te_glob E (''topo:'' @ ''*'' @ ('':'' @ t) @ ''*'') k = (\<exists>x y. k = ''topo:'' @ x @ ('':'' @ t) @ y)"
    unfolding glob_ok_def by blast
  then show ?thesis by (simp add: tenant_pattern_def)
qed

lemma tenant_pattern_keys:
  assumes "glob_ok E" "glob_plain t"
  shows "tenant_pattern E t (up_key t svc)" "tenant_pattern E t (down_key t svc)"
  unfolding tenant_pattern_iff [OF assms] up_key_def down_key_def
  by (intro exI [of _ "''upstream''"] exI [of _ "'':'' @ svc"], simp) (intro exI [of _ "''downstream''"] exI [of _ "'':'' @ svc"], simp)

lemma redis_do_total:
  assumes "\<forall>k. te_redis E k"
  shows "tr_store (snd (redis_do E f r)) = tr_store r" "tr_rdb (snd (redis_do E f r)) = map_option f (tr_rdb r)" "fst (redis_do E f r)"
  using assms by (simp_all add: redis_do_def tick_def split: option.split)

lemma redis_get_keeps [simp]: "tr_store (snd (redis_get E k r)) = tr_store r" "tr_rdb (snd (redis_get E k r)) = tr_rdb r"
  by (simp_all add: redis_get_def tick_def split: option.split)

lemma redis_get_value: "fst (redis_get E k r) = Some v \<Longrightarrow> \<exists>m. tr_rdb r = Some m \<and> m k = Some v"
  by (auto simp: redis_get_def split: option.splits if_splits)

lemma GetEdgeMetric_keeps [simp]: "tr_store (snd (GetEdgeMetric E t a b r)) = tr_store r" "tr_rdb (snd (GetEdgeMetric E t a b r)) = tr_rdb r"
proof -
  obtain v r1 where g: "redis_get E (edgeMetricKey t a b) r = (v, r1)" by fastforce
  have "tr_store r1 = tr_store r" "tr_rdb r1 = tr_rdb r" using redis_get_keeps [of E "edgeMetricKey t a b" r] by (simp_all add: g)
  then show "tr_store (snd (GetEdgeMetric E t a b r)) = tr_store r" "tr_rdb (snd (GetEdgeMetric E t a b r)) = tr_rdb r"
    by (simp_all add: GetEdgeMetric_def g split: option.splits redis_val.splits)
qed

lemma paint_metrics_keeps:
  "paint_metrics E t es r = (es', r') \<Longrightarrow> tr_store r' = tr_store r \<and> tr_rdb r' = tr_rdb r \<and> map bare_edge es' = map bare_edge es"
proof (induction es arbitrary: r es' r')
  case (Cons e es)
  obtain m r1 where g: "GetEdgeMetric E t (ed_Source e) (ed_Target e) r = (m, r1)" by fastforce
  have "tr_store r1 = tr_store r" "tr_rdb r1 = tr_rdb r" using GetEdgeMetric_keeps [of E t "ed_Source e" "ed_Target e" r] by (simp_all add: g)
  moreover obtain es1 r2 where p: "paint_metrics E t es r1 = (es1, r2)" by fastforce
  ultimately show ?case using Cons.IH [OF p] Cons.prems by (auto simp: g p bare_edge_def)
qed simp

locale atomic_store = graph_store run view inv
  for run :: "(nat \<Rightarrow> bool) \<Rightarrow> string \<Rightarrow> graph_op \<Rightarrow> 's \<Rightarrow> graph_error option \<times> 's" and view inv +
  fixes P :: "'s GraphStore" and down up :: "string \<Rightarrow> string \<Rightarrow> 's \<Rightarrow> string list"
  assumes port_run: "gs_run P = run"
    and port_down: "gs_down P ok t svc s = Ok names \<Longrightarrow> names = down t svc s"
    and port_up: "gs_up P ok t svc s = Ok names \<Longrightarrow> names = up t svc s"
    and port_graph: "gs_graph P ok t s = Ok G \<Longrightarrow> G = view t s"
    and view_bare: "strip_metrics (view t s) = view t s"
    and failed_unchanged: "inv s \<Longrightarrow> fst (run ok t op s) \<noteq> None \<Longrightarrow> snd (run ok t op s) = s"
    and down_kept: "inv s \<Longrightarrow> valid_op op \<Longrightarrow> t' \<noteq> t \<or> (op \<noteq> DeleteTenant \<and> (\<forall>a. op \<noteq> UpsertDependencyEdge a svc)) \<Longrightarrow>
      down t' svc (snd (run ok t op s)) = down t' svc s"
    and up_kept: "inv s \<Longrightarrow> valid_op op \<Longrightarrow> t' \<noteq> t \<or> (op \<noteq> DeleteTenant \<and> (\<forall>b. op \<noteq> UpsertDependencyEdge svc b)) \<Longrightarrow>
      up t' svc (snd (run ok t op s)) = up t' svc s"
begin

lemma write_current:
  assumes "inv s" "valid_op op" "cache_current down up view s m" "fst (run ok t op s) = None"
    and sub: "\<And>k v. m' k = Some v \<Longrightarrow> m k = Some v"
    and gone: "m' (graph_key t) = None"
      "\<And>svc. op = DeleteTenant \<or> (\<exists>a. op = UpsertDependencyEdge a svc) \<Longrightarrow> m' (down_key t svc) = None"
      "\<And>svc. op = DeleteTenant \<or> (\<exists>b. op = UpsertDependencyEdge svc b) \<Longrightarrow> m' (up_key t svc) = None"
  shows "cache_current down up view (snd (run ok t op s)) m'"
  unfolding cache_current_def
proof (intro allI impI conjI)
  fix t' svc v assume colon: "CHR '':'' \<notin> set t'"
  note cur = assms(3) [unfolded cache_current_def, rule_format, OF colon]
  show "v = RNames (down t' svc (snd (run ok t op s)))" if "m' (down_key t' svc) = Some v"
  proof -
    have "t' \<noteq> t \<or> (op \<noteq> DeleteTenant \<and> (\<forall>a. op \<noteq> UpsertDependencyEdge a svc))" using that gone(2) [of svc] by auto
    with down_kept [OF assms(1,2)] cur sub [OF that] show ?thesis by auto
  qed
  show "v = RNames (up t' svc (snd (run ok t op s)))" if "m' (up_key t' svc) = Some v"
  proof -
    have "t' \<noteq> t \<or> (op \<noteq> DeleteTenant \<and> (\<forall>b. op \<noteq> UpsertDependencyEdge svc b))" using that gone(3) [of svc] by auto
    with up_kept [OF assms(1,2)] cur sub [OF that] show ?thesis by auto
  qed
  show "\<exists>G. v = RGraph G \<and> strip_metrics G = view t' (snd (run ok t op s))" if "m' (graph_key t') = Some v"
  proof -
    have "t' \<noteq> t" using that gone(1) by auto
    with isolated [OF assms(1,2)] cur sub [OF that] show ?thesis by auto
  qed
qed

definition current :: "'s TopoRepository \<Rightarrow> bool" where
  "current r \<longleftrightarrow> inv (tr_store r) \<and> (\<forall>m. tr_rdb r = Some m \<longrightarrow> cache_current down up view (tr_store r) m)"

lemma store_write_parts:
  "fst (store_write E P t op r) = fst (run (te_store E (tr_calls r)) t op (tr_store r))"
  "tr_store (snd (store_write E P t op r)) = snd (run (te_store E (tr_calls r)) t op (tr_store r))"
  "tr_rdb (snd (store_write E P t op r)) = tr_rdb r"
  by (simp_all add: store_write_def port_run tick_def split: prod.splits)

lemma finish_write:
  assumes "current r" "valid_op op" "fst (store_write E P t op r) = None"
    and "tr_store r2 = tr_store (snd (store_write E P t op r))" "tr_rdb r2 = map_option f (tr_rdb r)"
    and "\<And>m k v. f m k = Some v \<Longrightarrow> m k = Some v" "\<And>m. f m (graph_key t) = None"
    and "\<And>m svc. op = DeleteTenant \<or> (\<exists>a. op = UpsertDependencyEdge a svc) \<Longrightarrow> f m (down_key t svc) = None"
    and "\<And>m svc. op = DeleteTenant \<or> (\<exists>b. op = UpsertDependencyEdge svc b) \<Longrightarrow> f m (up_key t svc) = None"
  shows "current r2"
  unfolding current_def
proof (intro conjI allI impI)
  have inv: "inv (tr_store r)" using assms(1) by (simp add: current_def)
  show "inv (tr_store r2)" using inv_run [OF inv assms(2)] by (simp add: assms(4) store_write_parts)
  fix m' assume "tr_rdb r2 = Some m'"
  then obtain m where m: "tr_rdb r = Some m" "m' = f m" using assms(5) by (cases "tr_rdb r") auto
  then have "cache_current down up view (tr_store r) m" using assms(1) by (simp add: current_def)
  then show "cache_current down up view (tr_store r2) m'"
    unfolding assms(4) store_write_parts
    by (rule write_current [OF inv assms(2)]) (use assms(3,6-9) in \<open>auto simp: m(2) store_write_parts\<close>)
qed

lemma failed_write:
  assumes "current r" "store_write E P t op r = (Some e, r1)"
  shows "current r1"
proof -
  note parts = store_write_parts [of E t op r, unfolded assms(2), simplified]
  have "snd (run (te_store E (tr_calls r)) t op (tr_store r)) = tr_store r"
    using assms(1) parts(1) by (intro failed_unchanged) (simp_all add: current_def flip: parts(1))
  with assms(1) show ?thesis by (simp add: current_def parts)
qed

lemma service_write_current:
  assumes "\<forall>k. te_redis E k" "current r" "valid_op op" "op \<noteq> DeleteTenant" "\<And>a b. op \<noteq> UpsertDependencyEdge a b"
  shows "current (snd (repo_service_write E P t svc op r))"
proof (cases "fst (store_write E P t op r)")
  case None
  then have "snd (repo_service_write E P t svc op r) = invalidate_topology E t svc (snd (store_write E P t op r))"
    by (auto simp: repo_service_write_def split: prod.splits)
  moreover have "current (invalidate_topology E t svc (snd (store_write E P t op r)))"
    by (rule finish_write [OF assms(2,3) None, where f = "del_keys [up_key t svc, down_key t svc, graph_key t]"])
      (use assms(4,5) in \<open>auto simp: invalidate_topology_def redis_do_total [OF assms(1)] store_write_parts del_keys_def split: if_splits\<close>)
  ultimately show ?thesis by simp
next
  case (Some e)
  then show ?thesis by (auto simp: repo_service_write_def split: prod.splits intro: failed_write [OF assms(2)])
qed

lemma edge_write_current:
  assumes "\<forall>k. te_redis E k" "current r"
  shows "current (snd (repo_UpsertDependencyEdge E P t a b r))"
proof (cases "fst (store_write E P t (UpsertDependencyEdge a b) r)")
  case None
  let ?r2 = "invalidate_topology E t b (invalidate_topology E t a (snd (store_write E P t (UpsertDependencyEdge a b) r)))"
  have "snd (repo_UpsertDependencyEdge E P t a b r) = ?r2"
    using None by (auto simp: repo_UpsertDependencyEdge_def split: prod.splits)
  moreover have "valid_op (UpsertDependencyEdge a b)" by (simp add: valid_op_def)
  then have "current ?r2"
    by (rule finish_write [OF assms(2) _ None,
          where f = "del_keys [up_key t b, down_key t b, graph_key t] \<circ> del_keys [up_key t a, down_key t a, graph_key t]"])
      (auto simp: invalidate_topology_def redis_do_total [OF assms(1)] store_write_parts del_keys_def option.map_comp split: if_splits)
  ultimately show ?thesis by simp
next
  case (Some e)
  then show ?thesis by (auto simp: repo_UpsertDependencyEdge_def split: prod.splits intro: failed_write [OF assms(2)])
qed

lemma causal_write_current:
  assumes "\<forall>k. te_redis E k" "current r" "valid_op (UpdateCausalPath inc links)"
  shows "current (snd (repo_UpdateCausalPath E P t inc links r))"
proof (cases "fst (store_write E P t (UpdateCausalPath inc links) r)")
  case None
  let ?r2 = "snd (redis_do E (del_keys [graph_key t]) (snd (store_write E P t (UpdateCausalPath inc links) r)))"
  have "snd (repo_UpdateCausalPath E P t inc links r) = ?r2"
    using None by (auto simp: repo_UpdateCausalPath_def split: prod.splits)
  moreover have "current ?r2"
    by (rule finish_write [OF assms(2,3) None, where f = "del_keys [graph_key t]"])
      (auto simp: redis_do_total [OF assms(1)] store_write_parts del_keys_def split: if_splits)
  ultimately show ?thesis by simp
next
  case (Some e)
  then show ?thesis by (auto simp: repo_UpdateCausalPath_def split: prod.splits intro: failed_write [OF assms(2)])
qed

lemma delete_current:
  assumes "\<forall>k. te_redis E k" "current r" "glob_ok E" "glob_plain t"
  shows "current (snd (repo_DeleteTenant E P t r))"
proof (cases "fst (store_write E P t DeleteTenant r)")
  case None
  let ?pat = "\<lambda>m k. if tenant_pattern E t k then None else m k"
  let ?r2 = "snd (redis_do E (del_keys [graph_key t]) (snd (redis_do E ?pat (snd (redis_do E id (snd (store_write E P t DeleteTenant r)))))))"
  have "snd (repo_DeleteTenant E P t r) = ?r2"
    using None redis_do_total(3) [OF assms(1), of id "snd (store_write E P t DeleteTenant r)"]
    by (auto simp: repo_DeleteTenant_def Let_def split: prod.splits)
  moreover have "valid_op DeleteTenant" by (simp add: valid_op_def)
  then have "current ?r2"
    by (rule finish_write [OF assms(2) _ None, where f = "del_keys [graph_key t] \<circ> ?pat"])
      (auto simp: redis_do_total [OF assms(1)] store_write_parts del_keys_def option.map_comp option.map_id comp_def
        tenant_pattern_keys [OF assms(3,4)] split: if_splits)
  ultimately show ?thesis by simp
next
  case (Some e)
  then show ?thesis by (auto simp: repo_DeleteTenant_def split: prod.splits intro: failed_write [OF assms(2)])
qed

lemma repo_write_current:
  assumes "\<forall>k. te_redis E k" "current r" "valid_op op" "glob_ok E" "glob_plain t"
  shows "current (snd (repo_write E P t op r))"
  using assms
  by (cases op)
    (simp_all add: repo_write_def edge_write_current causal_write_current delete_current service_write_current
      repo_UpdateServiceState_def repo_UpsertServiceCatalog_def repo_UpsertServiceMetadata_def)

text \<open>A value that is put into the cache after a miss.\<close>

lemma cached_value:
  assumes "\<forall>k. te_redis E k" "current r" "tr_store r1 = tr_store r" "tr_rdb r1 = tr_rdb r" "CHR '':'' \<notin> set t"
    and "(\<exists>svc. k = down_key t svc \<and> v = RNames (down t svc (tr_store r))) \<or> (\<exists>svc. k = up_key t svc \<and> v = RNames (up t svc (tr_store r))) \<or>
      (\<exists>G. k = graph_key t \<and> v = RGraph G \<and> strip_metrics G = view t (tr_store r))"
  shows "current (snd (redis_do E (\<lambda>m. m(k \<mapsto> v)) r1))"
  unfolding current_def
proof (intro conjI allI impI)
  show "inv (tr_store (snd (redis_do E (\<lambda>m. m(k \<mapsto> v)) r1)))"
    using assms(2,3) by (simp add: redis_do_total [OF assms(1)] current_def)
  fix m' assume "tr_rdb (snd (redis_do E (\<lambda>m. m(k \<mapsto> v)) r1)) = Some m'"
  then obtain m where m: "tr_rdb r = Some m" "m' = m(k \<mapsto> v)" using assms(4) by (auto simp: redis_do_total [OF assms(1)])
  then have cur: "cache_current down up view (tr_store r) m" using assms(2) by (simp add: current_def)
  have "cache_current down up view (tr_store r) (m(k \<mapsto> v))"
    unfolding cache_current_def
  proof (intro allI impI)
    fix t' svc w assume colon: "CHR '':'' \<notin> set t'"
    note c = cur [unfolded cache_current_def, rule_format, OF colon]
    show "((m(k \<mapsto> v)) (down_key t' svc) = Some w \<longrightarrow> w = RNames (down t' svc (tr_store r))) \<and>
        ((m(k \<mapsto> v)) (up_key t' svc) = Some w \<longrightarrow> w = RNames (up t' svc (tr_store r))) \<and>
        ((m(k \<mapsto> v)) (graph_key t') = Some w \<longrightarrow> (\<exists>G. w = RGraph G \<and> strip_metrics G = view t' (tr_store r)))"
      using assms(6) c by (elim disjE exE conjE) (auto simp: key_inject(1,2) [OF colon assms(5)] key_inject(3))
  qed
  then show "cache_current down up view (tr_store (snd (redis_do E (\<lambda>m. m(k \<mapsto> v)) r1))) m'"
    using assms(3) by (simp add: redis_do_total [OF assms(1)] m)
qed

lemma tick_keeps [simp]: "tr_store (tick r) = tr_store r" "tr_rdb (tick r) = tr_rdb r"
  by (simp_all add: tick_def)

lemma current_cong: "current r \<Longrightarrow> tr_store r1 = tr_store r \<Longrightarrow> tr_rdb r1 = tr_rdb r \<Longrightarrow> current r1"
  by (simp add: current_def)

lemma cachedNames_current:
  assumes "\<forall>k. te_redis E k" "current r" "CHR '':'' \<notin> set t"
    and "(k = down_key t svc \<and> names = down t svc (tr_store r)) \<or> (k = up_key t svc \<and> names = up t svc (tr_store r))"
    and "\<And>ok xs. load ok (tr_store r) = Ok xs \<Longrightarrow> xs = names"
  shows "current (snd (cachedNames E k load r))" "fst (cachedNames E k load r) = Ok xs \<Longrightarrow> xs = names"
proof -
  obtain v r1 where g: "redis_get E k r = (v, r1)" by fastforce
  have keep: "tr_store r1 = tr_store r" "tr_rdb r1 = tr_rdb r" using redis_get_keeps [of E k r] by (simp_all add: g)
  have hit: "w = RNames names" if vw: "v = Some w" for w
  proof -
    obtain m where m: "tr_rdb r = Some m" "m k = Some w" using redis_get_value [of E k r w] g vw by auto
    then have "cache_current down up view (tr_store r) m" using assms(2) by (simp add: current_def)
    from this [unfolded cache_current_def, rule_format, OF assms(3)] m(2) assms(4) show ?thesis by auto
  qed
  note miss = cached_value [OF assms(1,2), of "tick r1" t k "RNames names"]
  show "current (snd (cachedNames E k load r))"
    using hit keep current_cong [OF assms(2), of r1] current_cong [OF assms(2), of "tick r1"] miss assms(3-5)
    by (cases v) (auto simp: cachedNames_def g split: sum.splits)
  show "fst (cachedNames E k load r) = Ok xs \<Longrightarrow> xs = names"
    using hit assms(5) keep by (cases v) (auto simp: cachedNames_def g split: sum.splits)
qed

lemma GetGraph_current:
  assumes "\<forall>k. te_redis E k" "current r" "CHR '':'' \<notin> set t"
  shows "current (snd (repo_GetGraph E P t r))" "fst (repo_GetGraph E P t r) = Ok G \<Longrightarrow> strip_metrics G = view t (tr_store r)"
proof -
  obtain v r1 where g: "redis_get E (graph_key t) r = (v, r1)" by fastforce
  have keep: "tr_store r1 = tr_store r" "tr_rdb r1 = tr_rdb r" using redis_get_keeps [of E "graph_key t" r] by (simp_all add: g)
  have hit: "\<exists>G. w = RGraph G \<and> strip_metrics G = view t (tr_store r)" if vw: "v = Some w" for w
  proof -
    obtain m where m: "tr_rdb r = Some m" "m (graph_key t) = Some w" using redis_get_value [of E "graph_key t" r w] g vw by auto
    then have "cache_current down up view (tr_store r) m" using assms(2) by (simp add: current_def)
    from this [unfolded cache_current_def, rule_format, OF assms(3)] m(2) show ?thesis by auto
  qed
  obtain es r2 where p: "paint_metrics E t (gr_Edges (view t (tr_store r))) (tick r1) = (es, r2)" by fastforce
  from paint_metrics_keeps [OF this] keep have r2: "tr_store r2 = tr_store r" "tr_rdb r2 = tr_rdb r"
    "map bare_edge es = map bare_edge (gr_Edges (view t (tr_store r)))" by simp_all
  have painted: "strip_metrics ((view t (tr_store r))\<lparr>gr_Edges := es\<rparr>) = view t (tr_store r)"
    using view_bare [of t "tr_store r"] by (simp add: strip_metrics_def r2(3))
  have load: "gs_graph P ok t (tr_store r) = Ok G0 \<Longrightarrow> G0 = view t (tr_store r)" for ok G0 by (rule port_graph)
  have "current r1" "current r2" "current (tick r1)" using current_cong [OF assms(2)] keep r2 by simp_all
  moreover have "current (snd (redis_do E (\<lambda>m. m(graph_key t \<mapsto> RGraph ((view t (tr_store r))\<lparr>gr_Edges := es\<rparr>))) r2))"
    by (rule cached_value [OF assms(1,2) r2(1,2) assms(3)]) (use painted in blast)
  ultimately show "current (snd (repo_GetGraph E P t r))"
    using hit by (cases v) (auto simp: repo_GetGraph_def g keep p Let_def split: sum.splits dest!: load)
  show "fst (repo_GetGraph E P t r) = Ok G \<Longrightarrow> strip_metrics G = view t (tr_store r)"
    using hit painted by (cases v) (auto simp: repo_GetGraph_def g keep p Let_def split: sum.splits dest!: load)
qed

lemma metric_current:
  assumes "\<forall>k. te_redis E k" "current r"
  shows "current (snd (RecordEdgeMetric E t a b dur err r))"
  using assms(2) by (auto simp: RecordEdgeMetric_def current_def redis_do_total [OF assms(1)] cache_current_def)

lemma expiry_current: "current r \<Longrightarrow> current (r\<lparr>tr_rdb := map_option (\<lambda>m. m(k := None)) (tr_rdb r)\<rparr>)"
  by (auto simp: current_def cache_current_def split: if_splits)

lemma repo_step_current:
  assumes "\<forall>k. te_redis E k" "current r" "plain_tenant (call_tenant c)" "\<And>t op. c = CWrite t op \<Longrightarrow> valid_op op" "glob_ok E"
  shows "current (repo_step E P c r)"
proof (cases c)
  case (CDown t svc)
  have "current (snd (repo_GetDownstreamDependencies E P t svc r))"
    unfolding repo_GetDownstreamDependencies_def
    by (rule cachedNames_current [where t = t and names = "down t svc (tr_store r)"]) (use assms CDown port_down in \<open>auto simp: call_tenant_def plain_tenant_def\<close>)
  then show ?thesis by (simp add: repo_step_def CDown)
next
  case (CUp t svc)
  have "current (snd (repo_GetUpstreamDependencies E P t svc r))"
    unfolding repo_GetUpstreamDependencies_def
    by (rule cachedNames_current [where t = t and names = "up t svc (tr_store r)"]) (use assms CUp port_up in \<open>auto simp: call_tenant_def plain_tenant_def\<close>)
  then show ?thesis by (simp add: repo_step_def CUp)
qed (use assms in \<open>auto simp: repo_step_def call_tenant_def plain_tenant_def intro: repo_write_current GetGraph_current metric_current expiry_current\<close>)

lemma reads_current:
  assumes "\<forall>k. te_redis E k" "current r" "CHR '':'' \<notin> set t"
  shows "fst (repo_GetDownstreamDependencies E P t svc r) = Ok xs \<Longrightarrow> xs = down t svc (tr_store r)"
    and "fst (repo_GetUpstreamDependencies E P t svc r) = Ok xs \<Longrightarrow> xs = up t svc (tr_store r)"
    and "fst (repo_GetGraph E P t r) = Ok G \<Longrightarrow> strip_metrics G = view t (tr_store r)"
proof -
  show "fst (repo_GetDownstreamDependencies E P t svc r) = Ok xs \<Longrightarrow> xs = down t svc (tr_store r)"
    unfolding repo_GetDownstreamDependencies_def
    by (rule cachedNames_current(2) [OF assms]) (use port_down in auto)
  show "fst (repo_GetUpstreamDependencies E P t svc r) = Ok xs \<Longrightarrow> xs = up t svc (tr_store r)"
    unfolding repo_GetUpstreamDependencies_def
    by (rule cachedNames_current(2) [OF assms]) (use port_up in auto)
  show "fst (repo_GetGraph E P t r) = Ok G \<Longrightarrow> strip_metrics G = view t (tr_store r)"
    by (rule GetGraph_current(2) [OF assms])
qed

lemma history_current:
  assumes "\<forall>k. te_redis E k" "current r" "\<forall>c \<in> set cs. plain_tenant (call_tenant c) \<and> (\<forall>t op. c = CWrite t op \<longrightarrow> valid_op op)" "glob_ok E"
  shows "current (fold (repo_step E P) cs r)"
  using assms(2,3)
proof (induction cs arbitrary: r)
  case (Cons c cs)
  then show ?case using repo_step_current [OF assms(1) Cons.prems(1), of c] assms(4) by auto
qed simp

end

subsection \<open>The SQL store is atomic\<close>

definition sql_down :: "(string \<Rightarrow> string \<Rightarrow> bool) \<Rightarrow> string \<Rightarrow> string \<Rightarrow> sql_graph \<Rightarrow> string list" where
  "sql_down lt t svc d = stable_sort lt (map ge_source (filter (\<lambda>r. ge_tenant r = t \<and> ge_target r = svc) (sg_edges d)))"

definition sql_up :: "(string \<Rightarrow> string \<Rightarrow> bool) \<Rightarrow> string \<Rightarrow> string \<Rightarrow> sql_graph \<Rightarrow> string list" where
  "sql_up lt t svc d = stable_sort lt (map ge_target (filter (\<lambda>r. ge_tenant r = t \<and> ge_source r = svc) (sg_edges d)))"

lemma sql_view_bare: "strip_metrics (sql_view lt t d) = sql_view lt t d"
  by (simp add: strip_metrics_def sql_view_def row_edge_def shown_edge_def bare_edge_def Let_def)

lemma edge_written_edges:
  "sg_edges (edge_written t a b d) = upsert_by erow_key (t, a, b) (new_edge_row t a b) id (sg_edges d)"
  by (simp add: edge_written_def insert_edge_def)

lemma edge_written_filter:
  "\<not> (t' = t \<and> svc = b) \<Longrightarrow> filter (\<lambda>r. ge_tenant r = t' \<and> ge_target r = svc) (sg_edges (edge_written t a b d)) =
     filter (\<lambda>r. ge_tenant r = t' \<and> ge_target r = svc) (sg_edges d)"
  "\<not> (t' = t \<and> svc = a) \<Longrightarrow> filter (\<lambda>r. ge_tenant r = t' \<and> ge_source r = svc) (sg_edges (edge_written t a b d)) =
     filter (\<lambda>r. ge_tenant r = t' \<and> ge_source r = svc) (sg_edges d)"
  unfolding edge_written_edges by (rule upsert_by_filter; auto)+

lemma tenant_deleted_filter:
  "t' \<noteq> t \<Longrightarrow> filter (\<lambda>r. ge_tenant r = t' \<and> Q r) (sg_edges (tenant_deleted t d)) = filter (\<lambda>r. ge_tenant r = t' \<and> Q r) (sg_edges d)"
  by (auto simp: tenant_deleted_def intro!: filter_cong)

lemma sql_effect_down:
  assumes "t' \<noteq> t \<or> (op \<noteq> DeleteTenant \<and> (\<forall>a. op \<noteq> UpsertDependencyEdge a svc))"
  shows "sql_down lt t' svc (sql_effect t op d) = sql_down lt t' svc d"
proof (cases op)
  case (UpsertDependencyEdge a b)
  with assms have "\<not> (t' = t \<and> svc = b)" by auto
  with UpsertDependencyEdge show ?thesis by (simp add: sql_down_def edge_written_filter)
next
  case DeleteTenant
  with assms show ?thesis by (simp add: sql_down_def tenant_deleted_filter)
qed (simp_all add: sql_down_def filter_map comp_def)

lemma sql_effect_up:
  assumes "t' \<noteq> t \<or> (op \<noteq> DeleteTenant \<and> (\<forall>b. op \<noteq> UpsertDependencyEdge svc b))"
  shows "sql_up lt t' svc (sql_effect t op d) = sql_up lt t' svc d"
proof (cases op)
  case (UpsertDependencyEdge a b)
  with assms have "\<not> (t' = t \<and> svc = a)" by auto
  with UpsertDependencyEdge show ?thesis by (simp add: sql_up_def edge_written_filter)
next
  case DeleteTenant
  with assms show ?thesis by (simp add: sql_up_def tenant_deleted_filter)
qed (simp_all add: sql_up_def filter_map comp_def)

interpretation sql_atomic: atomic_store sql_run "sql_view lt" sql_inv "sql_port lt" "sql_down lt" "sql_up lt" for lt
proof (unfold_locales, goal_cases)
  case 1
  show ?case by (simp add: sql_port_def)
next
  case (2 ok t svc s names)
  then show ?case
    by (auto simp: sql_port_def sql_GetDownstreamDependencies_def sql_names_def sql_down_def split: option.splits if_splits)
next
  case (3 ok t svc s names)
  then show ?case
    by (auto simp: sql_port_def sql_GetUpstreamDependencies_def sql_names_def sql_up_def split: option.splits if_splits)
next
  case (4 ok t s G)
  then show ?case by (auto simp: sql_port_def sql_GetGraph_def split: option.splits if_splits)
next
  case (5 t s)
  show ?case by (rule sql_view_bare)
next
  case (6 s ok t op)
  then show ?case by (rule sql_run_failed)
next
  case (7 s op t' t svc ok)
  from 7(1) show ?case using sql_effect_down [OF 7(3)] by (cases rule: sql_run_cases [of s ok t op]) simp_all
next
  case (8 s op t' t svc ok)
  from 8(1) show ?case using sql_effect_up [OF 8(3)] by (cases rule: sql_run_cases [of s ok t op]) simp_all
qed

section \<open>Properties\<close>

text \<open>The repository of a service that has just started with an empty Redis.\<close>

definition fresh_repository :: "'s \<Rightarrow> 's TopoRepository" where
  "fresh_repository s = \<lparr>tr_store = s, tr_rdb = Some (\<lambda>_. None), tr_calls = 0\<rparr>"

definition receive_requests :: "topo_env \<Rightarrow> 's GraphStore \<Rightarrow> resource_spans list list \<Rightarrow> 's TopoRepository \<Rightarrow> 's TopoRepository" where
  "receive_requests E P reqs r = fold (\<lambda>b r. snd (handleReceiveTraces E P (Some b) r)) reqs r"

lemma receive_spans_append: "receive_spans E P t (xs @ ys) r = receive_spans E P t ys (receive_spans E P t xs r)"
  by (simp add: receive_spans_def)

lemma span_events_append: "span_events (xs @ ys) = span_events xs @ span_events ys"
  by (simp add: span_events_def)

lemma receive_resources_events:
  assumes "\<forall>rs \<in> set rss. resource_tenant rs = t"
  shows "fold (receive_resource E P) rss r = receive_spans E P t (span_events rss) r"
  using assms
proof (induction rss arbitrary: r)
  case (Cons rs rss)
  have "span_events (rs # rss) = span_events [rs] @ span_events rss" using span_events_append [of "[rs]" rss] by simp
  with Cons show ?case by (simp add: receive_resource_events [of rs t] receive_spans_append)
qed (simp add: receive_spans_def span_events_def)

lemma receive_requests_events:
  assumes "\<forall>rs \<in> set (concat reqs). resource_tenant rs = t"
  shows "receive_requests E P reqs r = receive_spans E P t (span_events (concat reqs)) r"
  using assms
proof (induction reqs arbitrary: r)
  case (Cons rss reqs)
  have "fold (receive_resource E P) rss r = receive_spans E P t (span_events rss) r"
    using Cons.prems by (intro receive_resources_events) simp
  with Cons show ?case
    by (simp add: receive_requests_def handleReceiveTraces_def span_events_append receive_spans_append)
qed (simp add: receive_requests_def receive_spans_def span_events_def)

lemma span_events_service: "x \<in> set (span_events rss) \<Longrightarrow> fst x \<noteq> []"
  by (auto simp: span_events_def split: if_splits)

text \<open>C13: The service map does not depend on the order of the spans. When the spans of a tenant arrive, in any number of
  requests and in any order, children before parents included, the dependencies of the tenant's graph
  are those it had and one for each child whose parent is among the spans and belongs to another service. The
  right-hand side is a function of the set of the spans alone. This holds over both stores, for calls that succeed within the
  lifetime of the keys, for span ids that are not reused and service names without a bar.\<close>

theorem map_independent_of_span_order:
  assumes "env_ok E" "trim_space t \<noteq> []" "\<forall>rs \<in> set (concat reqs). resource_tenant rs = t"
    and "distinct (span_ids (span_events (concat reqs)))" "\<forall>x \<in> set (span_events (concat reqs)). CHR ''|'' \<notin> set (fst x)"
  shows "(sql_inv d \<longrightarrow> dependencies (sql_view lt t (tr_store (receive_requests E (sql_port lt) reqs (fresh_repository d)))) =
           dependencies (sql_view lt t d) \<union> span_edges (set (span_events (concat reqs)))) \<and>
    (cy_inv g \<longrightarrow> dependencies (cy_view lt t (tr_store (receive_requests E (cypher_port lt) reqs (fresh_repository g)))) =
           dependencies (cy_view lt t g) \<union> span_edges (set (span_events (concat reqs))))"
proof (intro conjI impI)
  have names: "\<forall>x \<in> set (span_events (concat reqs)). fst x \<noteq> [] \<and> CHR ''|'' \<notin> set (fst x)"
    using assms(5) span_events_service by blast
  have port: "gs_run (sql_port lt) = sql_run" "gs_run (cypher_port lt) = cy_run" by (simp_all add: sql_port_def cypher_port_def)
  show "dependencies (sql_view lt t (tr_store (receive_requests E (sql_port lt) reqs (fresh_repository d)))) =
      dependencies (sql_view lt t d) \<union> span_edges (set (span_events (concat reqs)))" if "sql_inv d"
    using sql_store.spans_exact [OF assms(1) port(1) assms(2), of "fresh_repository d" _ lt] assms(4) names that
    by (simp add: receive_requests_events [OF assms(3)] fresh_repository_def)
  show "dependencies (cy_view lt t (tr_store (receive_requests E (cypher_port lt) reqs (fresh_repository g)))) =
      dependencies (cy_view lt t g) \<union> span_edges (set (span_events (concat reqs)))" if "cy_inv g"
    using cypher_store.spans_exact [OF assms(1) port(2) assms(2), of "fresh_repository g" _ lt] assms(4) names that
    by (simp add: receive_requests_events [OF assms(3)] fresh_repository_def)
qed

text \<open>Patterns of literal characters and stars.\<close>

primrec star_match :: "string \<Rightarrow> string \<Rightarrow> bool" where
  "star_match [] k = (k = [])"
| "star_match (c # p) k =
     (if c = CHR ''*'' then list_ex (\<lambda>i. star_match p (drop i k)) [0 ..< Suc (length k)]
      else case k of [] \<Rightarrow> False | d # ks \<Rightarrow> c = d \<and> star_match p ks)"

lemma star_match_star: "star_match (CHR ''*'' # p) k \<longleftrightarrow> (\<exists>x y. k = x @ y \<and> star_match p y)"
proof
  assume "star_match (CHR ''*'' # p) k"
  then obtain i where "star_match p (drop i k)" by (auto simp: list_ex_iff simp del: upt_Suc)
  then show "\<exists>x y. k = x @ y \<and> star_match p y" by (metis append_take_drop_id)
next
  assume "\<exists>x y. k = x @ y \<and> star_match p y"
  then obtain x y where "k = x @ y" "star_match p y" by blast
  then show "star_match (CHR ''*'' # p) k" by (auto simp: list_ex_iff simp del: upt_Suc intro!: bexI [of _ "length x"])
qed

lemma star_match_plain: "glob_plain a \<Longrightarrow> star_match (a @ p) k \<longleftrightarrow> (\<exists>y. k = a @ y \<and> star_match p y)"
  by (induction a arbitrary: k) (auto simp: glob_plain_def split: list.splits)

definition sample_env :: topo_env where
  "sample_env = \<lparr>te_redis = (\<lambda>_. True), te_store = (\<lambda>_ _. True), te_members = id, te_addf = fadd, te_fmt3 = (\<lambda>_. ''0.000''), te_parsef = (\<lambda>_. Fl 0), te_glob = star_match\<rparr>"

definition sample_span :: "byte \<Rightarrow> byte \<Rightarrow> span" where
  "sample_span i p = \<lparr>sp_SpanId = [i], sp_ParentSpanId = [p], sp_Start = 0, sp_End = 5, sp_Error = False\<rparr>"

definition sample_resource :: "string \<Rightarrow> span list \<Rightarrow> resource_spans" where
  "sample_resource svc sps = \<lparr>rs_attributes = [(''service.name'', svc), (''tenant.id'', ''acme'')], rs_scopes = [sps]\<rparr>"

lemma sample_env_glob: "glob_ok sample_env"
proof -
  have "star_match (a @ ''*'' @ b @ ''*'') k = (\<exists>x y. k = a @ x @ b @ y)" if "glob_plain a" "glob_plain b" for a b k
    using star_match_plain [OF that(1), of "''*'' @ b @ ''*''" k] star_match_star [of "b @ ''*''"] star_match_plain [OF that(2), of "''*''"]
      star_match_star [of "[]"] by auto
  then show ?thesis by (simp add: glob_ok_def sample_env_def)
qed

lemma sample_env_ok: "env_ok sample_env"
  by (simp add: env_ok_def sample_env_def)

theorem map_independent_of_span_order_witness:
  "dependencies (sql_view str_less ''acme'' (tr_store (receive_requests sample_env (sql_port str_less)
     [[sample_resource ''db'' [sample_span 2 1]], [sample_resource ''web'' [sample_span 1 0]]] (fresh_repository empty_sql)))) =
   dependencies (sql_view str_less ''acme'' empty_sql) \<union>
   span_edges (set (span_events (concat [[sample_resource ''db'' [sample_span 2 1]], [sample_resource ''web'' [sample_span 1 0]]])))"
  by (rule map_independent_of_span_order [THEN conjunct1, THEN mp, OF sample_env_ok])
    (simp_all add: sample_resource_def sample_span_def resource_tenant_def resource_service_def span_events_def span_ids_def trim_space_def is_space_def)

text \<open>C34: operations that do not overlap never see the past through the cache. Over the SQL store, after any
  sequence of writes, reads and recorded metrics through the repository, each finished before the next
  begins, and with cached keys expiring at any time in between, with store calls that succeed or fail but Redis commands that succeed, a read of the upstream
  or downstream services returns what the tables hold now, and a read of the graph returns it but for
  the metrics painted on the edges. Tenant ids are free of colons and of Redis pattern characters, as
  those of sign-up are, and cached values come back from JSON as they went in, as valid UTF-8 does.\<close>

theorem cached_reads_are_current:
  assumes "\<forall>k. te_redis E k" "glob_ok E" "sql_inv d" "plain_tenant t"
    and "\<forall>c \<in> set cs. plain_tenant (call_tenant c) \<and> (\<forall>t op. c = CWrite t op \<longrightarrow> valid_op op)"
    and "r = fold (repo_step E (sql_port lt)) cs (fresh_repository d)"
  shows "(fst (repo_GetDownstreamDependencies E (sql_port lt) t svc r) = Ok xs \<longrightarrow> xs = sql_down lt t svc (tr_store r)) \<and>
    (fst (repo_GetUpstreamDependencies E (sql_port lt) t svc r) = Ok xs \<longrightarrow> xs = sql_up lt t svc (tr_store r)) \<and>
    (fst (repo_GetGraph E (sql_port lt) t r) = Ok G \<longrightarrow> strip_metrics G = sql_view lt t (tr_store r))"
proof (intro conjI impI)
  have "sql_atomic.current lt (fresh_repository d)"
    unfolding sql_atomic.current_def using assms(3) by (simp add: fresh_repository_def cache_current_def)
  then have "sql_atomic.current lt r" unfolding assms(6) by (rule sql_atomic.history_current [OF assms(1) _ assms(5,2)])
  note now = sql_atomic.reads_current [OF assms(1) this assms(4) [unfolded plain_tenant_def, THEN conjunct1]]
  show "fst (repo_GetDownstreamDependencies E (sql_port lt) t svc r) = Ok xs \<Longrightarrow> xs = sql_down lt t svc (tr_store r)" by (rule now(1))
  show "fst (repo_GetUpstreamDependencies E (sql_port lt) t svc r) = Ok xs \<Longrightarrow> xs = sql_up lt t svc (tr_store r)" by (rule now(2))
  show "fst (repo_GetGraph E (sql_port lt) t r) = Ok G \<Longrightarrow> strip_metrics G = sql_view lt t (tr_store r)" by (rule now(3))
qed

theorem cached_reads_are_current_witness:
  "let r = fold (repo_step sample_env (sql_port str_less)) [CUp ''acme'' ''web'', CWrite ''acme'' (UpsertDependencyEdge ''web'' ''db'')] (fresh_repository empty_sql)
   in \<exists>xs. fst (repo_GetUpstreamDependencies sample_env (sql_port str_less) ''acme'' ''web'' r) = Ok xs \<and> xs = sql_up str_less ''acme'' ''web'' (tr_store r)"
proof -
  let ?cs = "[CUp ''acme'' ''web'', CWrite ''acme'' (UpsertDependencyEdge ''web'' ''db'')]"
  let ?r = "fold (repo_step sample_env (sql_port str_less)) ?cs (fresh_repository empty_sql)"
  have p: "plain_tenant ''acme''" by (simp add: plain_tenant_def glob_plain_def)
  then have "\<forall>c \<in> set ?cs. plain_tenant (call_tenant c) \<and> (\<forall>t op. c = CWrite t op \<longrightarrow> valid_op op)"
    by (simp add: call_tenant_def valid_op_def)
  then have "fst (repo_GetUpstreamDependencies sample_env (sql_port str_less) ''acme'' ''web'' ?r) = Ok xs \<Longrightarrow> xs = sql_up str_less ''acme'' ''web'' (tr_store ?r)" for xs
    by (intro cached_reads_are_current [where cs = ?cs and d = empty_sql, OF _ sample_env_glob _ p _ refl, THEN conjunct2, THEN conjunct1, THEN mp]) (simp_all add: sample_env_def)
  moreover have "isl (fst (repo_GetUpstreamDependencies sample_env (sql_port str_less) ''acme'' ''web'' ?r)) = False"
    by (auto simp: repo_GetUpstreamDependencies_def cachedNames_def sql_port_def sql_GetUpstreamDependencies_def sql_names_def requireTenant_def
        trim_space_def is_space_def sample_env_def redis_get_def split: option.splits redis_val.splits)
  ultimately show ?thesis unfolding Let_def by (metis isl_def sum.collapse(2) sum.disc_eq_case(2))
qed

lemma upsert_node_row:
  assumes "\<And>r. node_key (f r) = node_key r"
  shows "\<exists>row \<in> set (sg_nodes (upsert_node t svc f d)). node_key row = (t, svc) \<and> (\<exists>r. row = f r)"
proof (cases "(t, svc) \<in> node_key ` set (sg_nodes d)")
  case True
  then obtain r where r: "r \<in> set (sg_nodes d)" "node_key r = (t, svc)" by auto
  then have "f r \<in> set (sg_nodes (upsert_node t svc f d))" by (force simp: upsert_node_def upsert_by_def)
  with assms [of r] r(2) show ?thesis by auto
next
  case False
  then have "f (new_node_row t svc) \<in> set (sg_nodes (upsert_node t svc f d))" by (simp add: upsert_node_def upsert_by_def)
  with assms [of "new_node_row t svc"] show ?thesis by auto
qed

lemma invalidate_store [simp]: "tr_store (invalidate_topology E t svc r) = tr_store r"
  by (simp add: invalidate_topology_def redis_do_def tick_def split: option.split)

lemma sql_service_write:
  assumes "\<forall>n k. te_store E n k" "trim_space t \<noteq> []" "sql_inv (tr_store r)"
    and "op \<noteq> DeleteTenant" "\<And>inc ls. op \<noteq> UpdateCausalPath inc ls"
  shows "fst (repo_service_write E (sql_port lt) t svc op r) = None"
    and "tr_store (snd (repo_service_write E (sql_port lt) t svc op r)) = sql_effect t op (tr_store r)"
proof -
  have ok: "te_store E (tr_calls r) = all_ok" using assms(1) by (intro ext) simp
  have ran: "fst (sql_run all_ok t op (tr_store r)) = None"
    unfolding sql_run_all_ok using assms(2,4,5) by (cases op) auto
  have "store_write E (sql_port lt) t op r = (None, (tick r)\<lparr>tr_store := sql_effect t op (tr_store r)\<rparr>)"
    using ran sql_run_done [OF assms(3) ran] by (simp add: store_write_def ok sql_port_def prod_eq_iff split: prod.splits)
  then show "fst (repo_service_write E (sql_port lt) t svc op r) = None"
    "tr_store (snd (repo_service_write E (sql_port lt) t svc op r)) = sql_effect t op (tr_store r)"
    by (simp_all add: repo_service_write_def)
qed

text \<open>C35: the catalog of a tenant is not its own. The comment on the metadata handler says that the tenant comes from the verified
  header, never the body, so that one tenant cannot write another's catalog; the handler of the catalog
  does the opposite. Whatever tenant the gateway verified for the caller, a request that names another tenant in
  its body is answered 200 and that tenant's service has the team, repository and channel of the
  request. The metadata handler writes to the tenant of the header only.\<close>

theorem catalog_write_crosses_tenants:
  assumes "\<forall>n k. te_store E n k" "sql_inv (tr_store r)" "trim_space victim \<noteq> []" "uc_TenantID q = victim"
    and "handleUpdateCatalog E (sql_port lt) header (Some q) r = (status, r')"
  shows "(status = 200) \<and>
    (\<exists>row \<in> set (sg_nodes (tr_store r')). node_key row = (victim, uc_ServiceName q) \<and>
           gn_team row = uc_Team q \<and> gn_repo row = uc_Repo q \<and> gn_slack row = uc_Slack q) \<and>
    (handlePatchCatalogMetadata E (sql_port lt) header svc body r = (status2, r2) \<longrightarrow> victim \<noteq> topo_tenantOf header \<longrightarrow>
           sql_view lt victim (tr_store r2) = sql_view lt victim (tr_store r))"
proof (intro conjI impI)
  have "victim \<noteq> []" using assms(3) by (auto simp: trim_space_def)
  then have t: "orDefaultTenant (uc_TenantID q) = victim" by (simp add: orDefaultTenant_def assms(4))
  let ?op = "UpsertServiceCatalog (uc_ServiceName q) (uc_Team q) (uc_Repo q) (uc_Slack q)"
  have w: "fst (repo_service_write E (sql_port lt) victim (uc_ServiceName q) ?op r) = None"
    "tr_store (snd (repo_service_write E (sql_port lt) victim (uc_ServiceName q) ?op r)) = sql_effect victim ?op (tr_store r)"
    by (rule sql_service_write [OF assms(1,3,2)]; simp)+
  from assms(5) have "(status, r') = write_status (repo_service_write E (sql_port lt) victim (uc_ServiceName q) ?op r)"
    by (simp add: handleUpdateCatalog_def t repo_UpsertServiceCatalog_def)
  with w have res: "status = 200" "tr_store r' = sql_effect victim ?op (tr_store r)"
    by (auto simp: write_status_def split: prod.splits option.splits)
  then show "status = 200" by simp
  have "\<exists>row \<in> set (sg_nodes (tr_store r')). node_key row = (victim, uc_ServiceName q) \<and>
      (\<exists>x. row = x\<lparr>gn_team := uc_Team q, gn_repo := uc_Repo q, gn_slack := uc_Slack q\<rparr>)"
    unfolding res(2) sql_effect.simps by (rule upsert_node_row) simp
  then show "\<exists>row \<in> set (sg_nodes (tr_store r')). node_key row = (victim, uc_ServiceName q) \<and>
      gn_team row = uc_Team q \<and> gn_repo row = uc_Repo q \<and> gn_slack row = uc_Slack q" by auto
  assume patch: "handlePatchCatalogMetadata E (sql_port lt) header svc body r = (status2, r2)" "victim \<noteq> topo_tenantOf header"
  have iso: "sql_view lt victim (snd (sql_run ok (topo_tenantOf header) op (tr_store r))) = sql_view lt victim (tr_store r)" if "valid_op op" for ok op
    by (rule sql_store.isolated [OF assms(2) that patch(2)])
  have "tr_store (snd (repo_service_write E (sql_port lt) u svc op r)) = snd (sql_run (te_store E (tr_calls r)) u op (tr_store r))" for u op
    by (simp add: repo_service_write_def store_write_def sql_port_def tick_def split: prod.splits option.splits)
  with iso have "sql_view lt victim (tr_store (snd (repo_service_write E (sql_port lt) (topo_tenantOf header) svc op r))) = sql_view lt victim (tr_store r)"
    if "valid_op op" for op using that by simp
  from this [of "UpsertServiceMetadata svc _ _ _"]
  have "repo_service_write E (sql_port lt) (topo_tenantOf header) svc (UpsertServiceMetadata svc a b c) r = (x, q) \<Longrightarrow>
      sql_view lt victim (tr_store q) = sql_view lt victim (tr_store r)" for a b c x q
    by (simp add: valid_op_def) (metis snd_conv)
  with patch(1) show "sql_view lt victim (tr_store r2) = sql_view lt victim (tr_store r)"
    by (auto simp: handlePatchCatalogMetadata_def repo_UpsertServiceMetadata_def write_status_def split: if_splits option.splits prod.splits)
qed

theorem catalog_write_crosses_tenants_witness:
  "fst (handleUpdateCatalog sample_env (sql_port str_less) ''acme''
     (Some \<lparr>uc_TenantID = ''beta'', uc_ServiceName = ''api'', uc_Team = ''x'', uc_Repo = [], uc_Slack = []\<rparr>) (fresh_repository empty_sql)) = 200"
  by (rule catalog_write_crosses_tenants [where victim = "''beta''", OF _ _ _ _ surjective_pairing, THEN conjunct1])
    (simp_all add: sample_env_def fresh_repository_def trim_space_def is_space_def)

lemma upsert_node_state:
  assumes "distinct (map node_key (sg_nodes d))"
  shows "List.find (\<lambda>r. node_key r = (t, svc)) (sg_nodes (upsert_node t svc (\<lambda>r. r\<lparr>gn_state := state\<rparr>) d)) \<noteq> None"
    and "List.find (\<lambda>r. node_key r = (t, svc)) (sg_nodes (upsert_node t svc (\<lambda>r. r\<lparr>gn_state := state\<rparr>) d)) = Some row \<Longrightarrow> gn_state row = state"
proof -
  let ?rows = "sg_nodes (upsert_node t svc (\<lambda>r. r\<lparr>gn_state := state\<rparr>) d)"
  have "\<exists>row \<in> set ?rows. node_key row = (t, svc) \<and> (\<exists>r. row = r\<lparr>gn_state := state\<rparr>)" by (rule upsert_node_row) simp
  then show "List.find (\<lambda>r. node_key r = (t, svc)) ?rows \<noteq> None" by (auto simp: find_None_iff)
  have "\<forall>row \<in> set ?rows. node_key row = (t, svc) \<longrightarrow> gn_state row = state"
    by (auto simp: upsert_node_def upsert_by_def split: if_splits)
  then show "List.find (\<lambda>r. node_key r = (t, svc)) ?rows = Some row \<Longrightarrow> gn_state row = state"
    by (auto simp: find_Some_iff)
qed

text \<open>A log line ends a warning. The agents of a service that the correlation engine marked \<open>PREDICTIVE_WARNING\<close> are told to log
  at \<open>DEBUG\<close> and to sample every trace; the graph builder sets the state \<open>HEALTHY\<close> on every log entry of the
  service, of level \<open>ERROR\<close> too, and from then on the agents are told \<open>WARN\<close> and one trace in a hundred.\<close>

theorem next_log_ends_warning:
  assumes "\<forall>n k. te_store E n k" "sql_inv (tr_store r)" "trim_space t \<noteq> []" "svc \<noteq> []"
    and "le_TenantID l = t" "le_ServiceName l = svc"
    and "r1 = snd (repo_UpdateServiceState E (sql_port lt) t svc ''PREDICTIVE_WARNING'' r)"
  shows "(fst (handleGetAgentConfig E (sql_port lt) t svc r1) = Ok \<lparr>ac_LogLevel = ''DEBUG'', ac_TraceSampling = Fl 1\<rparr>) \<and>
    (fst (handleGetAgentConfig E (sql_port lt) t svc (builder_Handle E (sql_port lt) (Some l) r1)) =
           Ok \<lparr>ac_LogLevel = ''WARN'', ac_TraceSampling = round64 (1 / 100)\<rparr>)"
proof (intro conjI impI)
  have t: "t \<noteq> []" using assms(3) by (auto simp: trim_space_def)
  have set: "tr_store (snd (repo_UpdateServiceState E (sql_port lt) t svc st q)) = upsert_node t svc (\<lambda>r. r\<lparr>gn_state := st\<rparr>) (tr_store q)"
    if "sql_inv (tr_store q)" for st q
    using sql_service_write(2) [OF assms(1,3) that, of "UpdateServiceState svc st" lt svc] by (simp add: repo_UpdateServiceState_def)
  have read: "fst (repo_GetServiceState E (sql_port lt) t svc q) = Ok st"
    if "tr_store q = upsert_node t svc (\<lambda>r. r\<lparr>gn_state := st\<rparr>) d" "sql_inv d" for q st d
  proof -
    have "distinct (map node_key (sg_nodes d))" using that(2) by (simp add: sql_inv_def)
    from upsert_node_state [OF this, of t svc st] show ?thesis
      using that(1) assms(1,3) by (auto simp: repo_GetServiceState_def sql_port_def sql_GetServiceState_def requireTenant_def split: option.splits)
  qed
  have s1: "tr_store r1 = upsert_node t svc (\<lambda>r. r\<lparr>gn_state := ''PREDICTIVE_WARNING''\<rparr>) (tr_store r)" unfolding assms(7) by (rule set [OF assms(2)])
  have inv1: "sql_inv (tr_store r1)" unfolding s1 by (rule upsert_node_inv(1) [OF assms(2)]) simp
  have hdr: "topo_tenantOf t = t" using t by (simp add: topo_tenantOf_def)
  show "fst (handleGetAgentConfig E (sql_port lt) t svc r1) = Ok \<lparr>ac_LogLevel = ''DEBUG'', ac_TraceSampling = Fl 1\<rparr>"
    using read [OF s1 assms(2)] assms(4) by (auto simp: handleGetAgentConfig_def hdr split: prod.splits)
  have "tr_store (builder_Handle E (sql_port lt) (Some l) r1) = upsert_node t svc (\<lambda>r. r\<lparr>gn_state := ''HEALTHY''\<rparr>) (tr_store r1)"
    using set [OF inv1] t by (simp add: builder_Handle_def assms(5,6))
  from read [OF this inv1] assms(4)
  show "fst (handleGetAgentConfig E (sql_port lt) t svc (builder_Handle E (sql_port lt) (Some l) r1)) =
      Ok \<lparr>ac_LogLevel = ''WARN'', ac_TraceSampling = round64 (1 / 100)\<rparr>"
    by (auto simp: handleGetAgentConfig_def hdr split: prod.splits)
qed

theorem next_log_ends_warning_witness:
  "fst (handleGetAgentConfig sample_env (sql_port str_less) ''acme'' ''api'' (builder_Handle sample_env (sql_port str_less)
     (Some \<lparr>le_ID = [], le_TenantID = ''acme'', le_ServiceName = ''api'', le_Level = ''ERROR'', le_Message = [], le_TraceID = [], le_Timestamp = 0\<rparr>)
     (snd (repo_UpdateServiceState sample_env (sql_port str_less) ''acme'' ''api'' ''PREDICTIVE_WARNING'' (fresh_repository empty_sql))))) =
   Ok \<lparr>ac_LogLevel = ''WARN'', ac_TraceSampling = round64 (1 / 100)\<rparr>"
  by (rule next_log_ends_warning [THEN conjunct2, OF _ _ _ _ _ _ refl])
    (simp_all add: sample_env_def fresh_repository_def trim_space_def is_space_def)

text \<open>Deleting one tenant drops the traffic of another. When the topology of a tenant is deleted, the pattern of the keys that are
  removed also selects the metrics of every tenant whose id begins with the deleted one's, and those of every edge of any tenant
  that leaves a service whose name begins with it.\<close>

theorem deletion_drops_other_metrics:
  assumes "\<forall>k. te_redis E k" "\<forall>n k. te_store E n k" "sql_inv (tr_store r)" "trim_space t \<noteq> []"
    and "repo_DeleteTenant E (sql_port lt) t r = (e, r')" "glob_ok E" "glob_plain t"
  shows "(e = None) \<and>
    (fst (GetEdgeMetric E (t @ x) a b r') = no_metric) \<and>
    (fst (GetEdgeMetric E t' (t @ x) b r') = no_metric)"
proof (intro conjI impI)
  have ok: "te_store E (tr_calls r) = all_ok" using assms(2) by (intro ext) simp
  have "fst (sql_run all_ok t DeleteTenant (tr_store r)) = None" unfolding sql_run_all_ok using assms(4) by simp
  then have ran: "fst (store_write E (sql_port lt) t DeleteTenant r) = None"
    by (auto simp: store_write_def ok sql_port_def split: prod.splits)
  let ?pat = "\<lambda>m k. if tenant_pattern E t k then None else m k"
  let ?r2 = "snd (redis_do E (del_keys [graph_key t]) (snd (redis_do E ?pat (snd (redis_do E id (snd (store_write E (sql_port lt) t DeleteTenant r)))))))"
  have "repo_DeleteTenant E (sql_port lt) t r = (None, ?r2)"
    using ran redis_do_total(3) [OF assms(1), of id "snd (store_write E (sql_port lt) t DeleteTenant r)"]
    by (auto simp: repo_DeleteTenant_def Let_def split: prod.splits)
  with assms(5) have r': "e = None" "r' = ?r2" by auto
  then show "e = None" by simp
  have gone: "fst (redis_get E k r') = None" if "tenant_pattern E t k" for k
    using that by (cases "tr_rdb (snd (store_write E (sql_port lt) t DeleteTenant r))")
      (auto simp: r'(2) redis_get_def redis_do_total [OF assms(1)] del_keys_def split: option.splits)
  have "fst (GetEdgeMetric E u c d r') = no_metric" if "tenant_pattern E t (edgeMetricKey u c d)" for u c d
    using gone [OF that] by (auto simp: GetEdgeMetric_def split: prod.splits option.splits)
  moreover have "tenant_pattern E t (edgeMetricKey (t @ x) a b)" "tenant_pattern E t (edgeMetricKey t' (t @ x) b)"
    unfolding tenant_pattern_iff [OF assms(6,7)] edgeMetricKey_def
    by (intro exI [of _ "''edgemetric''"] exI [of _ "x @ '':'' @ a @ ''->'' @ b"], simp)
      (intro exI [of _ "''edgemetric:'' @ t'"] exI [of _ "x @ ''->'' @ b"], simp)
  ultimately show "fst (GetEdgeMetric E (t @ x) a b r') = no_metric" "fst (GetEdgeMetric E t' (t @ x) b r') = no_metric" by simp_all
qed

theorem deletion_drops_other_metrics_witness:
  "fst (GetEdgeMetric sample_env (''acme'' @ ''-eu'') ''web'' ''db'' (snd (repo_DeleteTenant sample_env (sql_port str_less) ''acme''
     (snd (RecordEdgeMetric sample_env ''acme-eu'' ''web'' ''db'' (Fl 5) False (fresh_repository empty_sql)))))) = no_metric"
  by (rule deletion_drops_other_metrics [THEN conjunct2, THEN conjunct1, OF _ _ _ _ surjective_pairing sample_env_glob])
    (simp_all add: glob_plain_def sample_env_def fresh_repository_def trim_space_def is_space_def RecordEdgeMetric_def redis_do_def tick_def)

end
