(* ===== verification/Billing.thy ===== *)
theory Billing
  imports Accounts Usage Playbooks
begin

text \<open>
  Billing (\<open>src/gateway-service/internal/billing\<close>): the two providers, the plan catalog, the billing
  handlers, and the webhook through which Stripe changes a tenant's plan and status. The HMAC, the JSON of
  an event, the answers of the Stripe API and the environment variables are arguments; \<open>ok\<close> says of the
  \<open>k\<close>-th database call of a request whether it succeeds.
\<close>

section \<open>Providers\<close>

datatype billing_error = ErrManualBilling | ErrProvider

record StripeProvider =
  sv_webhookSecret :: string
  sv_priceForPlan :: "(string, string) gomap"
  sv_successURL :: string
  sv_cancelURL :: string

datatype billing_provider = ManualProvider | Stripe StripeProvider

record Invoice =
  in_ID :: string
  in_Number :: string
  in_AmountDue :: int
  in_AmountPaid :: int
  in_Currency :: string
  in_Status :: string
  in_Created :: int
  in_HostedInvoiceURL :: string
  in_InvoicePDF :: string

text \<open>The Stripe API: the URL in the answer to a form posted to a path, and the list in the answer to a
  query, \<open>None\<close> when the request or its decoding fails.\<close>

record stripe_api =
  sa_post :: "string \<Rightarrow> (string \<times> string) list \<Rightarrow> string option"
  sa_invoices :: "string \<Rightarrow> Invoice list option"

definition FromEnv :: "string \<Rightarrow> string \<Rightarrow> StripeProvider \<Rightarrow> billing_provider" where
  "FromEnv kind secretKey configured =
     (if to_lower kind = ''stripe'' then (if secretKey \<noteq> [] then Stripe configured else ManualProvider) else ManualProvider)"

definition price_of :: "StripeProvider \<Rightarrow> string \<Rightarrow> string" where
  "price_of s plan = (case map_of (sv_priceForPlan s) plan of None \<Rightarrow> [] | Some p \<Rightarrow> p)"

definition provider_Checkout ::
  "stripe_api \<Rightarrow> billing_provider \<Rightarrow> string \<Rightarrow> string \<Rightarrow> string \<Rightarrow> string \<Rightarrow> billing_error + string" where
  "provider_Checkout A p tenantID customerID email plan = (case p of
     ManualProvider \<Rightarrow> Inl ErrManualBilling
   | Stripe s \<Rightarrow>
       if price_of s plan = [] then Inl ErrProvider
       else (let form = [(''mode'', ''subscription''), (''line_items[0][price]'', price_of s plan), (''line_items[0][quantity]'', ''1''),
                         (''success_url'', sv_successURL s), (''cancel_url'', sv_cancelURL s), (''client_reference_id'', tenantID),
                         (''subscription_data[metadata][tenant_id]'', tenantID), (''subscription_data[metadata][plan]'', plan),
                         (''metadata[tenant_id]'', tenantID), (''metadata[plan]'', plan)] @
                        (if customerID \<noteq> [] then [(''customer'', customerID)] else if email \<noteq> [] then [(''customer_email'', email)] else [])
             in case sa_post A ''/v1/checkout/sessions'' form of None \<Rightarrow> Inl ErrProvider | Some url \<Rightarrow> Inr url))"

definition provider_Portal :: "stripe_api \<Rightarrow> billing_provider \<Rightarrow> string \<Rightarrow> string \<Rightarrow> billing_error + string" where
  "provider_Portal A p customerID returnURL = (case p of
     ManualProvider \<Rightarrow> Inl ErrManualBilling
   | Stripe s \<Rightarrow>
       if customerID = [] then Inl ErrProvider
       else case sa_post A ''/v1/billing_portal/sessions'' [(''customer'', customerID), (''return_url'', returnURL)] of
           None \<Rightarrow> Inl ErrProvider | Some url \<Rightarrow> Inr url)"

definition provider_ListInvoices :: "stripe_api \<Rightarrow> billing_provider \<Rightarrow> string \<Rightarrow> billing_error + Invoice list" where
  "provider_ListInvoices A p customerID = (case p of
     ManualProvider \<Rightarrow> Inl ErrManualBilling
   | Stripe s \<Rightarrow> if customerID = [] then Inr []
       else case sa_invoices A customerID of None \<Rightarrow> Inl ErrProvider | Some xs \<Rightarrow> Inr xs)"

section \<open>The plan catalog\<close>

datatype PlanCTA = CTACurrent | CTAUpgrade | CTADowngrade | CTAContact

record Plan =
  pl_ID :: string
  pl_Label :: string
  pl_Price :: string
  pl_Period :: string
  pl_Limits :: Limits
  pl_Features :: "string list"
  pl_CTA :: PlanCTA
  pl_SelfServe :: bool

record PlanCatalog =
  pg_CurrentPlan :: string
  pg_SelfServe :: bool
  pg_Plans :: "Plan list"

definition planLabels :: "(string, string) gomap" where
  "planLabels = [(''free'', ''Free''), (''standard'', ''Standard''), (''premium'', ''Premium''), (''enterprise'', ''Enterprise'')]"

definition defaultPrices :: "(string, string) gomap" where
  "defaultPrices = [(''free'', ''$0''), (''standard'', ''$99''), (''premium'', ''$499''), (''enterprise'', ''Contact sales'')]"

definition planFeatures :: "(string, string list) gomap" where
  "planFeatures =
     [(''free'', [''1M traces / metrics / logs per month'', ''Community support'', ''7-day retention'']),
      (''standard'', [''20M traces / metrics / logs per month'', ''Email support'', ''30-day retention'', ''SLOs & alerting'']),
      (''premium'', [''200M traces / metrics / logs per month'', ''Priority support'', ''90-day retention'', ''Causal AI & self-healing'']),
      (''enterprise'', [''Unlimited ingestion'', ''SSO/SAML, SCIM, audit export'', ''Custom retention & DR'', ''Dedicated support''])]"

definition selfServePlans :: "string list" where "selfServePlans = [''standard'', ''premium'']"

definition indexOfPlan :: "string \<Rightarrow> nat" where
  "indexOfPlan plan = (let k = length (takeWhile (\<lambda>p. p \<noteq> plan) PlanOrder) in if k < length PlanOrder then k else 0)"

definition ctaFor :: "string \<Rightarrow> nat \<Rightarrow> string \<Rightarrow> nat \<Rightarrow> bool \<Rightarrow> PlanCTA" where
  "ctaFor i idx currentPlan currentIdx providerSelfServe =
     (if i = currentPlan then CTACurrent
      else if \<not> providerSelfServe \<or> i = ''enterprise'' then CTAContact
      else if currentIdx < idx then CTAUpgrade else CTADowngrade)"

text \<open>\<open>price\<close> is the value of \<open>BILLING_PRICE_<PLAN>\<close>.\<close>

definition priceFor :: "(string \<Rightarrow> string) \<Rightarrow> string \<Rightarrow> string" where
  "priceFor price i =
     (if (i = ''standard'' \<or> i = ''premium'') \<and> trim_space (price i) \<noteq> [] then trim_space (price i)
      else case map_of defaultPrices i of None \<Rightarrow> [] | Some p \<Rightarrow> p)"

definition periodFor :: "string \<Rightarrow> string" where
  "periodFor i = (if i = ''standard'' \<or> i = ''premium'' then ''mo'' else [])"

definition plan_card :: "(string \<Rightarrow> string) \<Rightarrow> string \<Rightarrow> bool \<Rightarrow> string \<Rightarrow> Plan" where
  "plan_card price current providerSelfServe i =
     \<lparr>pl_ID = i, pl_Label = (case map_of planLabels i of None \<Rightarrow> [] | Some l \<Rightarrow> l), pl_Price = priceFor price i, pl_Period = periodFor i,
      pl_Limits = fst (LimitsForPlan_known i), pl_Features = (case map_of planFeatures i of None \<Rightarrow> [] | Some fs \<Rightarrow> fs),
      pl_CTA = ctaFor i (indexOfPlan i) current (indexOfPlan current) providerSelfServe,
      pl_SelfServe = (providerSelfServe \<and> i \<in> set selfServePlans)\<rparr>"

definition BuildPlanCatalog :: "(string \<Rightarrow> string) \<Rightarrow> string \<Rightarrow> bool \<Rightarrow> PlanCatalog" where
  "BuildPlanCatalog price currentPlan providerSelfServe =
     (let trimmed = to_lower (trim_space currentPlan); current = (if trimmed = [] then ''free'' else trimmed)
      in \<lparr>pg_CurrentPlan = current, pg_SelfServe = providerSelfServe, pg_Plans = map (plan_card price current providerSelfServe) PlanOrder\<rparr>)"

section \<open>Webhooks\<close>

record WebhookEvent =
  we_Type :: string
  we_TenantID :: string
  we_CustomerID :: string
  we_SubscriptionID :: string
  we_Plan :: string
  we_SubStatus :: string

record stripe_event =
  so_Type :: string
  so_ID :: string
  so_Customer :: string
  so_Subscription :: string
  so_Status :: string
  so_ClientReferenceID :: string
  so_Metadata :: "(string, string) gomap"

definition stripeWebhookTolerance :: int where "stripeWebhookTolerance = 300 * 10 ^ 9"

text \<open>\<open>fmt.Sscanf(s, "%d", &n)\<close>: spaces, a sign and digits; what follows them is not read.\<close>

definition parseUnix :: "string \<Rightarrow> int option" where
  "parseUnix s =
     (let s1 = dropWhile (\<lambda>c. c = CHR '' '') s;
          sign = (if s1 \<noteq> [] \<and> (hd s1 = CHR ''-'' \<or> hd s1 = CHR ''+'') then [hd s1] else []);
          digits = takeWhile is_digit (drop (length sign) s1)
      in if digits = [] then None else parse_int64 (sign @ digits))"

definition sig_part :: "string \<Rightarrow> string \<times> string list \<Rightarrow> string \<times> string list" where
  "sig_part part st = (case st of (ts, sigs) \<Rightarrow>
     (case cut CHR ''='' part of (k, v, found) \<Rightarrow>
        if \<not> found then (ts, sigs) else if k = ''t'' then (v, sigs) else if k = ''v1'' then (ts, sigs @ [v]) else (ts, sigs)))"

definition sig_parts :: "string \<Rightarrow> string \<times> string list" where
  "sig_parts sigHeader = fold sig_part (split_on CHR '','' sigHeader) ([], [])"

definition stale :: "int \<Rightarrow> string \<Rightarrow> bool" where
  "stale now ts = (case parseUnix ts of None \<Rightarrow> False | Some secs \<Rightarrow> stripeWebhookTolerance < \<bar>now - secs * 10 ^ 9\<bar>)"

definition verifyStripeSignature :: "hmac \<Rightarrow> int \<Rightarrow> string \<Rightarrow> string \<Rightarrow> string \<Rightarrow> bool" where
  "verifyStripeSignature H now payload sigHeader secret =
     (case sig_parts sigHeader of (ts, sigs) \<Rightarrow>
        if ts = [] \<or> sigs = [] then False
        else if stale now ts then False
        else hex_encode (H secret (ts @ ''.'' @ payload)) \<in> set sigs)"

definition meta :: "stripe_event \<Rightarrow> string \<Rightarrow> string" where
  "meta ev k = (case map_of (so_Metadata ev) k of None \<Rightarrow> [] | Some v \<Rightarrow> v)"

definition webhook_event :: "stripe_event \<Rightarrow> WebhookEvent" where
  "webhook_event ev =
     \<lparr>we_Type = so_Type ev,
      we_TenantID = (if so_ClientReferenceID ev = [] then meta ev ''tenant_id'' else so_ClientReferenceID ev),
      we_CustomerID = so_Customer ev,
      we_SubscriptionID = (if has_prefix ''customer.subscription.'' (so_Type ev) \<and> so_Subscription ev = [] then so_ID ev else so_Subscription ev),
      we_Plan = meta ev ''plan'', we_SubStatus = so_Status ev\<rparr>"

definition VerifyAndParseWebhook ::
  "hmac \<Rightarrow> (string \<Rightarrow> stripe_event option) \<Rightarrow> StripeProvider \<Rightarrow> int \<Rightarrow> string \<Rightarrow> string \<Rightarrow> WebhookEvent option" where
  "VerifyAndParseWebhook H decode s now payload sigHeader =
     (if sv_webhookSecret s = [] then None
      else if \<not> verifyStripeSignature H now payload sigHeader (sv_webhookSecret s) then None
      else map_option webhook_event (decode payload))"

definition statusForSubscription :: "string \<Rightarrow> string" where
  "statusForSubscription sub =
     (if sub = ''past_due'' then ''past_due''
      else if sub = ''unpaid'' \<or> sub = ''incomplete_expired'' \<or> sub = ''canceled'' then ''suspended''
      else ''active'')"

text \<open>The writes of an event, in order; the first that fails ends it with an error.\<close>

type_synonym tenant_write = "bool \<Rightarrow> auth_db \<Rightarrow> bool \<times> auth_db"

fun run_writes :: "(nat \<Rightarrow> bool) \<Rightarrow> nat \<Rightarrow> tenant_write list \<Rightarrow> auth_db \<Rightarrow> bool \<times> auth_db" where
  "run_writes ok k [] d = (True, d)"
| "run_writes ok k (w # ws) d = (case w (ok k) d of (True, d1) \<Rightarrow> run_writes ok (Suc k) ws d1 | (False, d1) \<Rightarrow> (False, d1))"

definition plan_write :: "string \<Rightarrow> string \<Rightarrow> tenant_write list" where
  "plan_write tenantID plan = (if plan \<noteq> [] then [\<lambda>b. UpdatePlan b tenantID plan] else [])"

definition event_writes :: "string \<Rightarrow> WebhookEvent \<Rightarrow> tenant_write list" where
  "event_writes tenantID evt =
     (let ty = we_Type evt in
      if ty = ''checkout.session.completed'' then
        (\<lambda>b. SetStripeIDs b tenantID (we_CustomerID evt) (we_SubscriptionID evt)) # plan_write tenantID (we_Plan evt) @
        [\<lambda>b. SetStatus b tenantID ''active'']
      else if ty = ''customer.subscription.updated'' then
        plan_write tenantID (we_Plan evt) @ [\<lambda>b. SetStatus b tenantID (statusForSubscription (we_SubStatus evt))]
      else if ty = ''invoice.payment_failed'' then [\<lambda>b. SetStatus b tenantID ''past_due'']
      else if ty = ''invoice.payment_succeeded'' \<or> ty = ''invoice.paid'' then [\<lambda>b. SetStatus b tenantID ''active'']
      else if ty = ''customer.subscription.deleted'' then [\<lambda>b. UpdatePlan b tenantID ''free'', \<lambda>b. SetStatus b tenantID ''active'']
      else [])"

definition event_tenant :: "(nat \<Rightarrow> bool) \<Rightarrow> WebhookEvent \<Rightarrow> auth_db \<Rightarrow> string" where
  "event_tenant ok evt d =
     (if we_TenantID evt = [] \<and> we_CustomerID evt \<noteq> [] then
        (case TenantByStripeCustomer (ok 0) (ok 1) (we_CustomerID evt) d of Inr (Some t) \<Rightarrow> tn_id t | _ \<Rightarrow> [])
      else we_TenantID evt)"

text \<open>\<open>True\<close> is the nil error.\<close>

definition applyEvent :: "(nat \<Rightarrow> bool) \<Rightarrow> WebhookEvent \<Rightarrow> auth_db \<Rightarrow> bool \<times> auth_db" where
  "applyEvent ok evt d =
     (let tenantID = event_tenant ok evt d in
      if tenantID = [] then (False, d) else run_writes ok 2 (event_writes tenantID evt) d)"

section \<open>Handlers\<close>

datatype billing_reply =
    BillingError int
  | BillingURL string
  | Catalog PlanCatalog
  | Invoices "Invoice list"
  | PlanSet string
  | Received

text \<open>\<open>None\<close> is a body that cannot be read.\<close>

definition Webhook ::
  "hmac \<Rightarrow> (string \<Rightarrow> stripe_event option) \<Rightarrow> billing_provider \<Rightarrow> (nat \<Rightarrow> bool) \<Rightarrow> int \<Rightarrow> http_req \<Rightarrow> string option \<Rightarrow> auth_db \<Rightarrow> billing_reply \<times> auth_db" where
  "Webhook H decode p ok now r body d = (case p of
     ManualProvider \<Rightarrow> (BillingError 503, d)
   | Stripe s \<Rightarrow> (case body of None \<Rightarrow> (BillingError 400, d)
     | Some raw \<Rightarrow>
         (case VerifyAndParseWebhook H decode s now (take 1048576 raw) (hdr_Get (hr_Header r) ''Stripe-Signature'') of
            None \<Rightarrow> (BillingError 400, d)
          | Some evt \<Rightarrow> (case applyEvent ok evt d of (True, d1) \<Rightarrow> (Received, d1) | (False, d1) \<Rightarrow> (BillingError 500, d1)))))"

definition IsStripe :: "billing_provider \<Rightarrow> bool" where
  "IsStripe p = (case p of ManualProvider \<Rightarrow> False | Stripe _ \<Rightarrow> True)"

definition Plans :: "(string \<Rightarrow> string) \<Rightarrow> billing_provider \<Rightarrow> bool \<Rightarrow> http_req \<Rightarrow> auth_db \<Rightarrow> billing_reply" where
  "Plans price p ok r d =
     (let plan = (case GetTenant ok (tenantOf r) d of Inr (Some t) \<Rightarrow> if tn_plan t \<noteq> [] then tn_plan t else ''free'' | _ \<Rightarrow> ''free'')
      in Catalog (BuildPlanCatalog price plan (IsStripe p)))"

definition customer_of :: "tenant_row \<Rightarrow> string" where
  "customer_of t = (case tn_customer t of None \<Rightarrow> [] | Some c \<Rightarrow> c)"

definition billing_Invoices :: "stripe_api \<Rightarrow> billing_provider \<Rightarrow> bool \<Rightarrow> http_req \<Rightarrow> auth_db \<Rightarrow> billing_reply" where
  "billing_Invoices A p ok r d = (case GetTenant ok (tenantOf r) d of
     Inr (Some t) \<Rightarrow>
       if customer_of t = [] then Invoices []
       else (case provider_ListInvoices A p (customer_of t) of Inl _ \<Rightarrow> Invoices [] | Inr xs \<Rightarrow> Invoices xs)
   | _ \<Rightarrow> Invoices [])"

definition writeProviderError :: "billing_error \<Rightarrow> billing_reply" where
  "writeProviderError e = (case e of ErrManualBilling \<Rightarrow> BillingError 501 | ErrProvider \<Rightarrow> BillingError 502)"

definition billing_Checkout :: "stripe_api \<Rightarrow> billing_provider \<Rightarrow> bool \<Rightarrow> http_req \<Rightarrow> string option \<Rightarrow> auth_db \<Rightarrow> billing_reply" where
  "billing_Checkout A p ok r body d = (case body of None \<Rightarrow> BillingError 400
   | Some plan \<Rightarrow>
       if plan \<noteq> ''standard'' \<and> plan \<noteq> ''premium'' then BillingError 400
       else (case GetTenant ok (tenantOf r) d of
               Inr (Some t) \<Rightarrow>
                 (case provider_Checkout A p (tenantOf r) (customer_of t) (actorFromRequest r) plan of
                    Inl e \<Rightarrow> writeProviderError e | Inr url \<Rightarrow> BillingURL url)
             | _ \<Rightarrow> BillingError 404))"

definition billing_Portal :: "stripe_api \<Rightarrow> billing_provider \<Rightarrow> string \<Rightarrow> bool \<Rightarrow> http_req \<Rightarrow> auth_db \<Rightarrow> billing_reply" where
  "billing_Portal A p returnURL ok r d = (case GetTenant ok (tenantOf r) d of
     Inr (Some t) \<Rightarrow> (case provider_Portal A p (customer_of t) returnURL of Inl e \<Rightarrow> writeProviderError e | Inr url \<Rightarrow> BillingURL url)
   | _ \<Rightarrow> BillingError 404)"

definition validPlan :: "string \<Rightarrow> bool" where
  "validPlan p \<longleftrightarrow> p = ''free'' \<or> p = ''standard'' \<or> p = ''premium'' \<or> p = ''enterprise''"

definition SetPlan :: "bool \<Rightarrow> http_req \<Rightarrow> string option \<Rightarrow> auth_db \<Rightarrow> billing_reply \<times> auth_db" where
  "SetPlan ok r body d = (case body of None \<Rightarrow> (BillingError 400, d)
   | Some plan \<Rightarrow>
       if \<not> validPlan plan then (BillingError 400, d)
       else (case UpdatePlan ok (tenantOf r) plan d of
               (False, d1) \<Rightarrow> (BillingError 500, d1)
             | (True, d1) \<Rightarrow> (PlanSet plan, audit (actorFromRequest r, ''update'', ''tenant_plan'', tenantOf r) d1)))"

section \<open>Events\<close>

text \<open>The writes of an event as updates of the tenant's row.\<close>

definition row_writes :: "WebhookEvent \<Rightarrow> (tenant_row \<Rightarrow> tenant_row) list" where
  "row_writes evt =
     (let ty = we_Type evt; planned = (if we_Plan evt \<noteq> [] then [\<lambda>t. t\<lparr>tn_plan := we_Plan evt\<rparr>] else []) in
      if ty = ''checkout.session.completed'' then
        (\<lambda>t. t\<lparr>tn_customer := nullif_empty (we_CustomerID evt), tn_subscription := nullif_empty (we_SubscriptionID evt)\<rparr>) # planned @
        [\<lambda>t. t\<lparr>tn_status := ''active''\<rparr>]
      else if ty = ''customer.subscription.updated'' then planned @ [\<lambda>t. t\<lparr>tn_status := statusForSubscription (we_SubStatus evt)\<rparr>]
      else if ty = ''invoice.payment_failed'' then [\<lambda>t. t\<lparr>tn_status := ''past_due''\<rparr>]
      else if ty = ''invoice.payment_succeeded'' \<or> ty = ''invoice.paid'' then [\<lambda>t. t\<lparr>tn_status := ''active''\<rparr>]
      else if ty = ''customer.subscription.deleted'' then [\<lambda>t. t\<lparr>tn_plan := ''free''\<rparr>, \<lambda>t. t\<lparr>tn_status := ''active''\<rparr>]
      else [])"

definition on_tenant :: "string \<Rightarrow> (tenant_row \<Rightarrow> tenant_row) \<Rightarrow> auth_db \<Rightarrow> auth_db" where
  "on_tenant i f d = d\<lparr>ad_tenants := map (\<lambda>t. if tn_id t = i then f t else t) (ad_tenants d)\<rparr>"

abbreviation apply_rows :: "(tenant_row \<Rightarrow> tenant_row) list \<Rightarrow> tenant_row \<Rightarrow> tenant_row" where
  "apply_rows fs \<equiv> fold (\<lambda>f. f) fs"

lemma update_tenant_on: "update_tenant b i f d = (b, if b then on_tenant i f d else d)"
  by (simp add: update_tenant_def on_tenant_def)

lemma on_tenant_comp:
  assumes "\<And>t. tn_id (f t) = tn_id t"
  shows "on_tenant i g (on_tenant i f d) = on_tenant i (\<lambda>t. g (f t)) d"
  using assms by (auto simp: on_tenant_def)

lemma on_tenant_id [simp]: "on_tenant i (\<lambda>t. t) d = d" "on_tenant i id d = d"
  by (simp_all add: on_tenant_def cong: if_cong)

lemma write_functions:
  "(\<lambda>b. UpdatePlan b i p) = (\<lambda>b. update_tenant b i (\<lambda>t. t\<lparr>tn_plan := p\<rparr>))"
  "(\<lambda>b. SetStatus b i p) = (\<lambda>b. update_tenant b i (\<lambda>t. t\<lparr>tn_status := p\<rparr>))"
  "(\<lambda>b. SetStripeIDs b i c s) = (\<lambda>b. update_tenant b i (\<lambda>t. t\<lparr>tn_customer := nullif_empty c, tn_subscription := nullif_empty s\<rparr>))"
  by (intro ext, simp add: UpdatePlan_def SetStatus_def SetStripeIDs_def)+

lemma event_writes_rows: "event_writes i evt = map (\<lambda>f b. update_tenant b i f) (row_writes evt)"
  by (simp add: event_writes_def row_writes_def plan_write_def write_functions Let_def)

lemma row_writes_id: "f \<in> set (row_writes evt) \<Longrightarrow> tn_id (f t) = tn_id t"
  by (auto simp: row_writes_def Let_def split: if_splits)

text \<open>The writes up to the first that fails take effect.\<close>

lemma run_writes_rows:
  assumes "\<forall>f \<in> set fs. \<forall>t. tn_id (f t) = tn_id t"
  shows "\<exists>m \<le> length fs. run_writes ok k (map (\<lambda>f b. update_tenant b i f) fs) d = (m = length fs, on_tenant i (apply_rows (take m fs)) d) \<and>
     ((\<forall>j. ok j) \<longrightarrow> m = length fs)"
  using assms
proof (induction fs arbitrary: k d)
  case (Cons f fs)
  show ?case
  proof (cases "ok k")
    case True
    obtain m where m: "m \<le> length fs" "(\<forall>j. ok j) \<longrightarrow> m = length fs"
      "run_writes ok (Suc k) (map (\<lambda>f b. update_tenant b i f) fs) (on_tenant i f d) = (m = length fs, on_tenant i (apply_rows (take m fs)) (on_tenant i f d))"
      using Cons.IH [of "Suc k" "on_tenant i f d"] Cons.prems by auto
    have "on_tenant i (apply_rows (take m fs)) (on_tenant i f d) = on_tenant i (apply_rows (take (Suc m) (f # fs))) d"
      using Cons.prems by (simp add: on_tenant_comp comp_def)
    with m True show ?thesis by (intro exI [of _ "Suc m"]) (simp add: update_tenant_on [where f = f] comp_def)
  next
    case False
    then show ?thesis by (intro exI [of _ 0]) (auto simp: update_tenant_on [where f = f])
  qed
qed simp

lemma applyEvent_rows:
  "\<exists>m \<le> length (row_writes evt).
     applyEvent ok evt d = (if event_tenant ok evt d = [] then (False, d)
        else (m = length (row_writes evt), on_tenant (event_tenant ok evt d) (apply_rows (take m (row_writes evt))) d)) \<and>
     ((\<forall>j. ok j) \<longrightarrow> m = length (row_writes evt))"
  using run_writes_rows [of "row_writes evt" ok 2 "event_tenant ok evt d" d] row_writes_id [of _ evt]
  by (auto simp: applyEvent_def event_writes_rows)

lemma row_writes_again: "apply_rows (row_writes evt) (apply_rows (take m (row_writes evt)) t) = apply_rows (row_writes evt) t"
  by (simp add: row_writes_def Let_def take_Cons')

lemma apply_rows_id: "tn_id (apply_rows (take m (row_writes evt)) t) = tn_id t"
  by (simp add: row_writes_def Let_def take_Cons')

text \<open>The writes keep a tenant's customer unless the event carries another.\<close>

lemma apply_rows_customer:
  "tn_customer t = Some c \<Longrightarrow> we_CustomerID evt = c \<Longrightarrow> c \<noteq> [] \<Longrightarrow> tn_customer (apply_rows (take m (row_writes evt)) t) = Some c"
  by (simp add: row_writes_def Let_def take_Cons' nullif_empty_def)

lemma find_on_tenant:
  assumes "\<And>t. tn_id (f t) = tn_id t"
  shows "find (\<lambda>t. tn_id t = j) (ad_tenants (on_tenant i f d)) =
     map_option (\<lambda>t. if tn_id t = i then f t else t) (find (\<lambda>t. tn_id t = j) (ad_tenants d))"
proof -
  have "find (\<lambda>t. tn_id t = j) (map (\<lambda>t. if tn_id t = i then f t else t) ts) =
      map_option (\<lambda>t. if tn_id t = i then f t else t) (find (\<lambda>t. tn_id t = j) ts)" for ts
    using assms by (induction ts) auto
  then show ?thesis by (simp add: on_tenant_def)
qed

text \<open>An event with no tenant of its own belongs to the tenant that has its customer, before and after its
  writes.\<close>

lemma event_tenant_stable:
  assumes "distinct (map tn_id (ad_tenants d))" "i = event_tenant (\<lambda>_. True) evt d" "i \<noteq> []"
  shows "event_tenant (\<lambda>_. True) evt (on_tenant i (apply_rows (take m (row_writes evt))) d) = i"
proof (cases "we_TenantID evt = [] \<and> we_CustomerID evt \<noteq> []")
  case False
  then show ?thesis using assms(2) by (auto simp: event_tenant_def)
next
  case True
  let ?c = "we_CustomerID evt" and ?f = "apply_rows (take m (row_writes evt))"
  let ?g = "\<lambda>t. if tn_id t = i then ?f t else t"
  obtain t where t: "find (\<lambda>t. tn_customer t = Some ?c) (ad_tenants d) = Some t" "tn_id t = i"
  proof -
    obtain t where ft: "find (\<lambda>t. tn_customer t = Some ?c) (ad_tenants d) = Some t"
      using assms(2,3) True by (cases "find (\<lambda>t. tn_customer t = Some ?c) (ad_tenants d)") (auto simp: event_tenant_def TenantByStripeCustomer_def)
    then have "t \<in> set (ad_tenants d)" by (auto simp: find_Some_iff)
    then obtain u where fu: "find (\<lambda>u. tn_id u = tn_id t) (ad_tenants d) = Some u"
      by (cases "find (\<lambda>u. tn_id u = tn_id t) (ad_tenants d)") (auto simp: find_None_iff)
    then have "tn_id u = tn_id t" by (auto simp: find_Some_iff)
    then have "i = tn_id t" using assms(2) True ft fu by (simp add: event_tenant_def TenantByStripeCustomer_def GetTenant_def)
    with ft that show thesis by simp
  qed
  then have t2: "t \<in> set (ad_tenants d)" "tn_customer t = Some ?c" by (auto simp: find_Some_iff in_set_conv_nth)
  have uniq: "u \<in> set (ad_tenants d) \<Longrightarrow> tn_id u = i \<Longrightarrow> u = t" for u
    using assms(1) t(2) t2(1) by (metis (mono_tags, lifting) distinct_map inj_onD)
  have cust: "tn_customer (?g u) = Some ?c \<longleftrightarrow> tn_customer u = Some ?c" if "u \<in> set (ad_tenants d)" for u
    using uniq [OF that] t2(2) True apply_rows_customer [of t ?c evt m] by auto
  have "find (\<lambda>t. tn_customer t = Some ?c) (map ?g ts) = map_option ?g (find (\<lambda>t. tn_customer t = Some ?c) ts)"
    if "set ts \<subseteq> set (ad_tenants d)" for ts
    using that cust by (induction ts) auto
  then have "find (\<lambda>t. tn_customer t = Some ?c) (ad_tenants (on_tenant i ?f d)) = Some (?g t)"
    using t(1) by (simp add: on_tenant_def)
  moreover have "tn_id (?g t) = i" using t(2) by (simp add: apply_rows_id)
  moreover obtain u where "find (\<lambda>t. tn_id t = i) (ad_tenants d) = Some u" "tn_id u = i"
    using t2(1) t(2) by (cases "find (\<lambda>t. tn_id t = i) (ad_tenants d)") (auto simp: find_None_iff find_Some_iff)
  ultimately show ?thesis
    using True by (simp add: event_tenant_def TenantByStripeCustomer_def GetTenant_def find_on_tenant apply_rows_id)
qed

section \<open>Properties\<close>

text \<open>C14: A failed webhook is repaired by its retry. Stripe sends an event again when it is answered with an error; whatever
  calls failed the first time and however far the event's writes came, the retry that succeeds leaves the tables as an undisturbed
  first delivery would have, and delivering an event twice is the same as delivering it once.\<close>

theorem webhook_retry_converges:
  assumes "distinct (map tn_id (ad_tenants d))" "event_tenant (\<lambda>_. True) evt d \<noteq> []"
    and "applyEvent ok evt d = (res, d1)"
  shows "(applyEvent (\<lambda>_. True) evt d1 = applyEvent (\<lambda>_. True) evt d) \<and>
    (fst (applyEvent (\<lambda>_. True) evt d))"
proof (intro conjI impI)
  let ?i = "event_tenant (\<lambda>_. True) evt d" and ?n = "length (row_writes evt)"
  have full: "applyEvent (\<lambda>_. True) evt e = (True, on_tenant (event_tenant (\<lambda>_. True) evt e) (apply_rows (row_writes evt)) e)"
    if "event_tenant (\<lambda>_. True) evt e \<noteq> []" for e
    using applyEvent_rows [of evt "\<lambda>_. True" e] that by auto
  from full [OF assms(2)] show "fst (applyEvent (\<lambda>_. True) evt d)" by simp
  consider "d1 = d" | m where "d1 = on_tenant ?i (apply_rows (take m (row_writes evt))) d"
  proof -
    have "event_tenant ok evt d = [] \<or> event_tenant ok evt d = ?i"
      by (auto simp: event_tenant_def TenantByStripeCustomer_def GetTenant_def split: option.splits sum.splits if_splits)
    moreover obtain m where "applyEvent ok evt d = (if event_tenant ok evt d = [] then (False, d)
        else (m = length (row_writes evt), on_tenant (event_tenant ok evt d) (apply_rows (take m (row_writes evt))) d))"
      using applyEvent_rows [of evt ok d] by blast
    ultimately show thesis using assms(2,3) that(1) that(2) [of m] by (cases "event_tenant ok evt d = []") simp_all
  qed
  then show "applyEvent (\<lambda>_. True) evt d1 = applyEvent (\<lambda>_. True) evt d"
  proof cases
    case (2 m)
    have "event_tenant (\<lambda>_. True) evt d1 = ?i" unfolding 2 by (rule event_tenant_stable [OF assms(1) refl assms(2)])
    moreover have "on_tenant ?i (apply_rows (row_writes evt)) d1 = on_tenant ?i (apply_rows (row_writes evt)) d"
      unfolding 2 by (simp add: on_tenant_comp apply_rows_id row_writes_again)
    ultimately show ?thesis using full [of d1] full [OF assms(2)] assms(2) by simp
  qed simp
qed

definition sample_tenants :: auth_db where
  "sample_tenants = \<lparr>ad_users = [], ad_tenants = [\<lparr>tn_id = ''acme'', tn_name = ''Acme'', tn_plan = ''standard'', tn_status = ''past_due'',
     tn_customer = Some ''cus_1'', tn_subscription = Some ''sub_1'', tn_created = 0\<rparr>], ad_resets = [], ad_roles = [], ad_sessions = [], ad_audit = []\<rparr>"

definition sample_event :: WebhookEvent where
  "sample_event = \<lparr>we_Type = ''customer.subscription.deleted'', we_TenantID = [], we_CustomerID = ''cus_1'', we_SubscriptionID = ''sub_1'',
     we_Plan = [], we_SubStatus = ''canceled''\<rparr>"

theorem webhook_retry_converges_witness:
  "applyEvent (\<lambda>_. True) sample_event (snd (applyEvent (\<lambda>k. k < 3) sample_event sample_tenants)) =
   applyEvent (\<lambda>_. True) sample_event sample_tenants"
  by (rule webhook_retry_converges [THEN conjunct1, OF _ _ surjective_pairing])
    (simp_all add: sample_tenants_def sample_event_def event_tenant_def TenantByStripeCustomer_def GetTenant_def)

text \<open>A row before and after: identity kept, and a status that is the old one or one of three.\<close>

definition billing_row :: "tenant_row \<Rightarrow> tenant_row \<Rightarrow> bool" where
  "billing_row t t' \<longleftrightarrow> tn_id t' = tn_id t \<and> tn_name t' = tn_name t \<and> tn_created t' = tn_created t \<and>
     tn_status t' \<in> {tn_status t, ''active'', ''past_due'', ''suspended''}"

lemma billing_row_refl [simp]: "billing_row t t"
  by (simp add: billing_row_def)

lemma billing_row_trans: "billing_row t t1 \<Longrightarrow> billing_row t1 t2 \<Longrightarrow> billing_row t t2"
  by (auto simp: billing_row_def)

lemma billing_row_apply: "billing_row t (apply_rows (take m (row_writes evt)) t)"
  by (auto simp: billing_row_def row_writes_def Let_def take_Cons' statusForSubscription_def)

definition confined :: "string \<Rightarrow> auth_db \<Rightarrow> auth_db \<Rightarrow> bool" where
  "confined i d d' \<longleftrightarrow> d' = d\<lparr>ad_tenants := ad_tenants d'\<rparr> \<and>
     list_all2 (\<lambda>t t'. t' = t \<or> tn_id t = i \<and> billing_row t t') (ad_tenants d) (ad_tenants d')"

lemma confined_refl [simp]: "confined i d d"
  by (simp add: confined_def list_all2_same)

lemma confined_on_tenant:
  assumes "\<And>t. billing_row t (f t)"
  shows "confined i d (on_tenant i f d)"
  using assms by (simp add: confined_def on_tenant_def list_all2_conv_all_nth)

lemma applyEvent_confined: "\<exists>i. confined i d (snd (applyEvent ok evt d))"
proof -
  obtain m where "applyEvent ok evt d = (if event_tenant ok evt d = [] then (False, d)
      else (m = length (row_writes evt), on_tenant (event_tenant ok evt d) (apply_rows (take m (row_writes evt))) d))"
    using applyEvent_rows [of evt ok d] by blast
  moreover have "confined i d (on_tenant i (apply_rows (take m (row_writes evt))) d)" for i
    by (rule confined_on_tenant) (rule billing_row_apply)
  ultimately show ?thesis by (cases "event_tenant ok evt d = []") auto
qed

lemma Webhook_confined: "\<exists>i. confined i d (snd (Webhook H decode p ok now r body d))"
proof -
  have "applyEvent ok evt d = (b, d1) \<Longrightarrow> \<exists>i. confined i d d1" for evt b d1
    using applyEvent_confined [of d ok evt] by simp
  then show ?thesis
    by (auto simp: Webhook_def split: billing_provider.splits option.splits prod.splits bool.splits)
qed

lemma confined_rows: "confined i d d' \<Longrightarrow> list_all2 billing_row (ad_tenants d) (ad_tenants d')"
  by (auto simp: confined_def elim: list_all2_mono)

lemma webhooks_rows:
  "list_all2 billing_row (ad_tenants d) (ad_tenants (fold (\<lambda>(ok, now, r, body) d. snd (Webhook H decode p ok now r body d)) calls d))"
proof (induction calls arbitrary: d)
  case Nil
  show ?case by (simp add: list_all2_same)
next
  case (Cons c calls)
  obtain ok now r body where c: "c = (ok, now, r, body)" by (cases c)
  obtain i where "confined i d (snd (Webhook H decode p ok now r body d))" using Webhook_confined by blast
  from list_all2_trans [OF billing_row_trans confined_rows [OF this] Cons.IH] show ?case by (simp add: c)
qed


text \<open>Only Stripe changes a subscription. When a webhook changes anything in the tables, the provider is Stripe with a signing
  secret, and the header of the request carries a signature that is the HMAC, under that secret, of the header's
  timestamp and the body, with a timestamp at most five minutes from now when it is a number.\<close>

theorem billing_change_is_signed:
  assumes "Webhook H decode p ok now r body d = (rep, d')" "d' \<noteq> d"
  shows "\<exists>s raw ts sigs. p = Stripe s \<and> body = Some raw \<and> sv_webhookSecret s \<noteq> [] \<and>
     sig_parts (hdr_Get (hr_Header r) ''Stripe-Signature'') = (ts, sigs) \<and>
     hex_encode (H (sv_webhookSecret s) (ts @ ''.'' @ take 1048576 raw)) \<in> set sigs \<and>
     (\<forall>secs. parseUnix ts = Some secs \<longrightarrow> \<bar>now - secs * 10 ^ 9\<bar> \<le> stripeWebhookTolerance)"
proof -
  from assms obtain s raw evt where s: "p = Stripe s" "body = Some raw"
    and v: "VerifyAndParseWebhook H decode s now (take 1048576 raw) (hdr_Get (hr_Header r) ''Stripe-Signature'') = Some evt"
    by (auto simp: Webhook_def split: billing_provider.splits option.splits)
  from v have ver: "sv_webhookSecret s \<noteq> []"
    "verifyStripeSignature H now (take 1048576 raw) (hdr_Get (hr_Header r) ''Stripe-Signature'') (sv_webhookSecret s)"
    by (auto simp: VerifyAndParseWebhook_def split: if_splits)
  obtain ts sigs where p: "sig_parts (hdr_Get (hr_Header r) ''Stripe-Signature'') = (ts, sigs)" by fastforce
  with ver(2) have "\<not> stale now ts" "hex_encode (H (sv_webhookSecret s) (ts @ ''.'' @ take 1048576 raw)) \<in> set sigs"
    by (auto simp: verifyStripeSignature_def split: if_splits)
  then show ?thesis using s ver(1) p by (auto simp: stale_def not_less)
qed

definition sample_stripe :: StripeProvider where
  "sample_stripe = \<lparr>sv_webhookSecret = ''whsec'', sv_priceForPlan = [], sv_successURL = [], sv_cancelURL = []\<rparr>"

definition sample_hook :: http_req where
  "sample_hook = \<lparr>hr_Method = ''POST'', hr_Path = ''/api/v1/webhooks/stripe'', hr_RawQuery = [], hr_Header = [(''Stripe-Signature'', ''t=100,v1='')], hr_RemoteAddr = []\<rparr>"

definition sample_decode :: "string \<Rightarrow> stripe_event option" where
  "sample_decode raw = Some \<lparr>so_Type = ''invoice.paid'', so_ID = [], so_Customer = ''cus_1'', so_Subscription = [], so_Status = [],
     so_ClientReferenceID = [], so_Metadata = []\<rparr>"

definition sample_now :: int where "sample_now = 100 * 10 ^ 9"

lemma sample_header: "hdr_Get (hr_Header sample_hook) ''Stripe-Signature'' = ''t=100,v1=''"
  by code_simp

lemma sample_parts: "sig_parts ''t=100,v1='' = (''100'', [[]])"
  by code_simp

lemma sample_not_stale: "\<not> stale sample_now ''100''"
proof -
  have "parseUnix ''100'' = Some 100" by code_simp
  then show ?thesis by (simp add: stale_def sample_now_def stripeWebhookTolerance_def)
qed

lemma sample_verified:
  "VerifyAndParseWebhook (\<lambda>_ _. []) sample_decode sample_stripe sample_now [] ''t=100,v1='' =
   Some \<lparr>we_Type = ''invoice.paid'', we_TenantID = [], we_CustomerID = ''cus_1'', we_SubscriptionID = [], we_Plan = [], we_SubStatus = []\<rparr>"
  by (simp add: VerifyAndParseWebhook_def verifyStripeSignature_def sample_parts sample_not_stale sample_stripe_def sample_decode_def
      hex_encode_def webhook_event_def meta_def has_prefix_def)

lemma sample_webhook:
  "snd (Webhook (\<lambda>_ _. []) sample_decode (Stripe sample_stripe) (\<lambda>_. True) sample_now sample_hook (Some []) sample_tenants) \<noteq> sample_tenants"
  by (simp add: Webhook_def sample_header sample_verified applyEvent_def event_tenant_def TenantByStripeCustomer_def GetTenant_def
      event_writes_def SetStatus_def update_tenant_def sample_tenants_def)

theorem billing_change_is_signed_witness:
  "\<exists>s raw ts sigs. Stripe sample_stripe = Stripe s \<and> Some [] = Some raw \<and> sv_webhookSecret s \<noteq> [] \<and>
     sig_parts (hdr_Get (hr_Header sample_hook) ''Stripe-Signature'') = (ts, sigs) \<and>
     hex_encode ([] :: bytes) \<in> set sigs \<and>
     (\<forall>secs. parseUnix ts = Some secs \<longrightarrow> \<bar>sample_now - secs * 10 ^ 9\<bar> \<le> stripeWebhookTolerance)"
  using billing_change_is_signed [OF surjective_pairing sample_webhook] by simp

text \<open>The pricing page shows what is enforced. The catalog lists the four plans in order, each with the limits that the quota
  enforcer applies to it; a tenant on a plan of the catalog sees that plan, and no other, as current, an upgrade is to a
  later plan in the order, and only a Stripe deployment offers one.\<close>

theorem catalog_shows_enforced_limits:
  assumes "Plans price p ok r d = Catalog c"
  shows "map pl_ID (pg_Plans c) = PlanOrder \<and>
    (\<forall>pl \<in> set (pg_Plans c). pl_Limits pl = limitsForPlan (pl_ID pl) \<and>
       (pl_CTA pl = CTACurrent \<longleftrightarrow> pl_ID pl = pg_CurrentPlan c) \<and>
       (pl_CTA pl = CTAUpgrade \<longrightarrow> IsStripe p \<and> indexOfPlan (pg_CurrentPlan c) < indexOfPlan (pl_ID pl)))"
proof (intro conjI ballI impI)
  obtain plan where c: "c = BuildPlanCatalog price plan (IsStripe p)" using assms by (auto simp: Plans_def Let_def)
  let ?cur = "pg_CurrentPlan c"
  have plans: "pg_Plans c = map (plan_card price ?cur (IsStripe p)) PlanOrder" by (simp add: c BuildPlanCatalog_def Let_def)
  show "map pl_ID (pg_Plans c) = PlanOrder" by (simp add: plans plan_card_def comp_def)
  fix pl assume "pl \<in> set (pg_Plans c)"
  then obtain i where card: "pl = plan_card price ?cur (IsStripe p) i" by (auto simp: plans)
  show "pl_Limits pl = limitsForPlan (pl_ID pl)"
    by (simp add: card plan_card_def LimitsForPlan_known_def limitsForPlan_def split: option.split)
  show "pl_CTA pl = CTACurrent \<longleftrightarrow> pl_ID pl = ?cur" by (simp add: card plan_card_def ctaFor_def)
  show "IsStripe p" "indexOfPlan ?cur < indexOfPlan (pl_ID pl)" if "pl_CTA pl = CTAUpgrade"
    using that by (simp_all add: card plan_card_def ctaFor_def split: if_splits)
qed

theorem catalog_shows_enforced_limits_witness:
  "map pl_ID (pg_Plans (BuildPlanCatalog (\<lambda>_. []) ''free'' False)) = PlanOrder"
  by (rule catalog_shows_enforced_limits [where p = ManualProvider and ok = False and r = sample_hook and d = sample_tenants, THEN conjunct1])
    (simp add: Plans_def GetTenant_def IsStripe_def)

text \<open>An event of no interest is refused for ever. The last branch of \<open>applyEvent\<close> ignores event types that are not handled, but an
  event that names no tenant and no known customer never gets there: it is answered 500, whatever its type,
  and Stripe sends it again.\<close>

theorem unhandled_event_is_retried:
  assumes "VerifyAndParseWebhook H decode s now (take 1048576 raw) (hdr_Get (hr_Header r) ''Stripe-Signature'') = Some evt"
    and "row_writes evt = []" "we_TenantID evt = []" "\<forall>t \<in> set (ad_tenants d). tn_customer t \<noteq> Some (we_CustomerID evt)"
  shows "Webhook H decode (Stripe s) ok now r (Some raw) d = (BillingError 500, d)"
proof -
  have "find (\<lambda>t. tn_customer t = Some (we_CustomerID evt)) (ad_tenants d) = None" using assms(4) by (simp add: find_None_iff)
  then have "event_tenant ok evt d = []" using assms(3) by (auto simp: event_tenant_def TenantByStripeCustomer_def)
  then show ?thesis using assms(1) by (simp add: Webhook_def applyEvent_def)
qed

theorem unhandled_event_is_retried_witness:
  "Webhook (\<lambda>_ _. []) (\<lambda>_. Some \<lparr>so_Type = ''product.created'', so_ID = ''prod_1'', so_Customer = [], so_Subscription = [], so_Status = [],
      so_ClientReferenceID = [], so_Metadata = []\<rparr>) (Stripe sample_stripe) (\<lambda>_. True) sample_now sample_hook (Some []) sample_tenants =
   (BillingError 500, sample_tenants)"
  by (rule unhandled_event_is_retried [where evt = "\<lparr>we_Type = ''product.created'', we_TenantID = [], we_CustomerID = [], we_SubscriptionID = [], we_Plan = [], we_SubStatus = []\<rparr>"])
    (simp_all add: sample_header VerifyAndParseWebhook_def verifyStripeSignature_def sample_parts sample_not_stale sample_stripe_def
      hex_encode_def webhook_event_def meta_def has_prefix_def row_writes_def sample_tenants_def)

end
