(* ===== verification/K8s_Operator.thy ===== *)
theory K8s_Operator
  imports Remediation "HOL-Library.Word" "HOL-Library.Multiset"
begin

text \<open>
  The action service, which carries out remediation on a Kubernetes cluster: its remediation mode
  (\<open>src/action-service/internal/k8s/policy.go\<close>), the operator that plans and applies a runbook
  (\<open>operator.go\<close>) and the HTTP handler in front of it (\<open>internal/handler/action.go\<close>).

  The cluster is reached through client-go only. Its reads are fields of the record \<open>cluster\<close>; a write
  is a value of the type \<open>mutation\<close> that the operator issues, and \<open>kc_Apply\<close> says whether the API server
  takes it. \<open>sort.Slice\<close> is not stable, so the sorter is a parameter too; the
  locale \<open>revision_sort\<close> states what its documentation promises. \<open>int\<close> and \<open>int64\<close> values are integers in the range of the type,
  \<open>int32\<close> values are 32-bit words.
\<close>

section \<open>policy.go\<close>

definition k8s_AllowsExecution :: "Mode \<Rightarrow> bool" where
  "k8s_AllowsExecution mode \<longleftrightarrow> mode = ModeManual \<or> mode = ModeAuto"

definition k8s_ParseMode :: "string \<Rightarrow> Mode option" where
  "k8s_ParseMode s =
     (let normalized = map (\<lambda>c. if c = CHR ''_'' then CHR ''-'' else if c = CHR '' '' then CHR ''-'' else c) (to_lower (trim_space s)) in
      if normalized \<in> set [ModeOff, ''disabled'', ''none''] then Some ModeOff
      else if normalized \<in> set [ModeDryRun, ''dry'', ''plan''] then Some ModeDryRun
      else if normalized \<in> set [ModeManual, ''approval'', ''approve''] then Some ModeManual
      else if normalized \<in> set [ModeAuto, ''automatic''] then Some ModeAuto
      else None)"

definition policyFromEnv :: "string \<Rightarrow> Mode" where
  "policyFromEnv raw =
     (if trim_space raw = [] then ModeManual
      else case k8s_ParseMode raw of None \<Rightarrow> ModeManual | Some mode \<Rightarrow> mode)"

section \<open>The objects of the cluster\<close>

type_synonym annotations = "(string, string) gomap"

text \<open>The value of a Go map at a key, the empty string when the key is missing.\<close>

definition at_key :: "annotations \<Rightarrow> string \<Rightarrow> string" where
  "at_key m k = (case map_of m k of None \<Rightarrow> [] | Some v \<Rightarrow> v)"

definition set_key :: "annotations \<Rightarrow> string \<Rightarrow> string \<Rightarrow> annotations" where
  "set_key m k v = AList.update k v m"

text \<open>A pod template: its annotations, and the rest of it as one opaque text.\<close>

record PodTemplate =
  pt_Annotations :: annotations
  pt_Spec :: string

record Deployment =
  dp_Name :: string
  dp_UID :: string
  dp_Annotations :: annotations
  dp_Selector :: string
  dp_Replicas :: "32 word option"
  dp_Template :: PodTemplate

record OwnerReference =
  or_Kind :: string
  or_Name :: string
  or_UID :: string

record ReplicaSet =
  rs_Name :: string
  rs_OwnerReferences :: "OwnerReference list"
  rs_Annotations :: annotations
  rs_Template :: PodTemplate

record revisionedRS =
  rv_rs :: ReplicaSet
  rv_revision :: int

datatype mutation = UpdateDeployment string Deployment | UpdateScale string string "32 word"

record cluster =
  kc_Get :: "string \<Rightarrow> string \<Rightarrow> Deployment option"
  kc_SelectorString :: "string \<Rightarrow> string option"
  kc_ListReplicaSets :: "string \<Rightarrow> string \<Rightarrow> ReplicaSet list option"
  kc_GetScale :: "string \<Rightarrow> string \<Rightarrow> 32 word option"
  kc_Apply :: "mutation \<Rightarrow> bool"

section \<open>operator.go\<close>

record Operator =
  op_reachable :: bool
  op_namespace :: string
  op_policy :: Mode

definition newOperatorWithPolicy :: "string \<Rightarrow> bool \<Rightarrow> Mode \<Rightarrow> Operator" where
  "newOperatorWithPolicy namespaceEnv configFound policy =
     \<lparr>op_reachable = configFound,
      op_namespace = (if namespaceEnv = [] then ''default'' else namespaceEnv),
      op_policy = policy\<rparr>"

definition NewOperator :: "string \<Rightarrow> string \<Rightarrow> bool \<Rightarrow> Operator" where
  "NewOperator modeEnv namespaceEnv configFound =
     newOperatorWithPolicy namespaceEnv configFound (policyFromEnv modeEnv)"

definition namespaceFor :: "Operator \<Rightarrow> string \<Rightarrow> string" where
  "namespaceFor oper namespace = (if namespace \<noteq> [] then namespace else op_namespace oper)"

record RunResult =
  rr_DryRun :: bool
  rr_Plan :: string

datatype run_error = GetFailed string | BadSelector string | ListFailed string | NoHistory string
  | InvalidRevision string | RevisionNotFound int | NoEarlierRevision string | RollbackRefused string
  | RestartRefused string | InvalidReplicas | ScaleUnknown string | ScaleRefused string | UnknownAction string

type_synonym run_outcome = "mutation list \<times> (run_error + RunResult)"

definition k8s_dash :: string where
  "k8s_dash = [CHR 0xE2, CHR 0x80, CHR 0x94]"

definition dryRunResult :: "string \<Rightarrow> RunResult" where
  "dryRunResult plan = \<lparr>rr_DryRun = True,
     rr_Plan = ''DRY RUN '' @ k8s_dash @ '' nothing was changed. Would: '' @ plan\<rparr>"

text \<open>The end of every action: a dry run returns the plan, a live run issues its one write.\<close>

definition carry_out :: "cluster \<Rightarrow> bool \<Rightarrow> string \<Rightarrow> mutation \<Rightarrow> run_error \<Rightarrow> run_outcome" where
  "carry_out kc dryRun plan m refused =
     (if dryRun then ([], Inr (dryRunResult plan))
      else if kc_Apply kc m then ([m], Inr \<lparr>rr_DryRun = False, rr_Plan = plan\<rparr>)
      else ([m], Inl refused))"

definition revisionKey :: string where
  "revisionKey = ''deployment.kubernetes.io/revision''"

text \<open>\<open>strconv.ParseInt\<close> with its error dropped: 0 on a syntax error, the nearest bound when out of
  range.\<close>

definition parsed_or_bound :: "string \<Rightarrow> int" where
  "parsed_or_bound s = (let (neg, ds) = split_sign s in
     if ds = [] then 0 else case parse_digits 0 ds of
         None \<Rightarrow> 0
       | Some n \<Rightarrow> max (- (2 ^ 63)) (min (2 ^ 63 - 1) (if neg then - int n else int n)))"

definition owned_by :: "Deployment \<Rightarrow> ReplicaSet \<Rightarrow> bool" where
  "owned_by d rs \<longleftrightarrow> list_ex (\<lambda>ref. or_Kind ref = ''Deployment'' \<and> or_Name ref = dp_Name d \<and> or_UID ref = dp_UID d)
     (rs_OwnerReferences rs)"

fun collect_candidates :: "Deployment \<Rightarrow> ReplicaSet list \<Rightarrow> revisionedRS list" where
  "collect_candidates d [] = []"
| "collect_candidates d (rs # items) =
     (if \<not> owned_by d rs then collect_candidates d items
      else case map_of (rs_Annotations rs) revisionKey of
          None \<Rightarrow> collect_candidates d items
        | Some revStr \<Rightarrow>
            (case parse_int64 revStr of
               None \<Rightarrow> collect_candidates d items
             | Some r \<Rightarrow> \<lparr>rv_rs = rs, rv_revision = r\<rparr> # collect_candidates d items))"

definition choose_revision :: "string \<Rightarrow> string \<Rightarrow> int \<Rightarrow> revisionedRS list \<Rightarrow> run_error + revisionedRS" where
  "choose_revision target toRev currentRev cands =
     (if toRev \<noteq> [] then
        (case parse_int64 toRev of
           None \<Rightarrow> Inl (InvalidRevision toRev)
         | Some wantRev \<Rightarrow>
             (case find (\<lambda>c. rv_revision c = wantRev) cands of
                None \<Rightarrow> Inl (RevisionNotFound wantRev)
              | Some chosen \<Rightarrow> Inr chosen))
      else
        (case find (\<lambda>c. rv_revision c \<noteq> currentRev) cands of
           None \<Rightarrow> Inl (NoEarlierRevision target)
         | Some chosen \<Rightarrow> Inr chosen))"

definition rolled_back :: "Deployment \<Rightarrow> revisionedRS \<Rightarrow> Deployment" where
  "rolled_back d chosen = d\<lparr>dp_Template := rs_Template (rv_rs chosen),
     dp_Annotations := set_key (dp_Annotations d) ''pulsetrace.io/rolled-back-from-revision'' (at_key (dp_Annotations d) revisionKey)\<rparr>"

definition rollback_plan :: "string \<Rightarrow> string \<Rightarrow> int \<Rightarrow> revisionedRS \<Rightarrow> string" where
  "rollback_plan ns target currentRev chosen =
     ''Roll back deployment '' @ ns @ ''/'' @ target @ '' from revision '' @ format_int currentRev @ '' to revision ''
       @ format_int (rv_revision chosen) @ '' (pod template from ReplicaSet '' @ rs_Name (rv_rs chosen) @ '').''"

definition rollback_deployment ::
  "(revisionedRS list \<Rightarrow> revisionedRS list) \<Rightarrow> cluster \<Rightarrow> string \<Rightarrow> string \<Rightarrow> annotations \<Rightarrow> bool \<Rightarrow> run_outcome" where
  "rollback_deployment srt kc ns target parameters dryRun =
     (case kc_Get kc ns target of
        None \<Rightarrow> ([], Inl (GetFailed target))
      | Some deployment \<Rightarrow>
          (case kc_SelectorString kc (dp_Selector deployment) of
             None \<Rightarrow> ([], Inl (BadSelector target))
           | Some selector \<Rightarrow>
               (case kc_ListReplicaSets kc ns selector of
                  None \<Rightarrow> ([], Inl (ListFailed target))
                | Some items \<Rightarrow>
                    (let candidates = collect_candidates deployment items;
                         currentRev = parsed_or_bound (at_key (dp_Annotations deployment) revisionKey)
                     in if candidates = [] then ([], Inl (NoHistory target))
                        else case choose_revision target (at_key parameters ''revision'') currentRev (srt candidates) of
                            Inl e \<Rightarrow> ([], Inl e)
                          | Inr chosen \<Rightarrow>
                              carry_out kc dryRun (rollback_plan ns target currentRev chosen)
                                (UpdateDeployment ns (rolled_back deployment chosen)) (RollbackRefused target)))))"

definition restart_plan :: "string \<Rightarrow> string \<Rightarrow> 32 word \<Rightarrow> string" where
  "restart_plan ns target replicas =
     ''Trigger a rolling restart of deployment '' @ ns @ ''/'' @ target @ '' ('' @ format_int (sint replicas)
       @ '' replica(s)) by stamping the pod template with kubectl.kubernetes.io/restartedAt.''"

definition restarted :: "string \<Rightarrow> Deployment \<Rightarrow> Deployment" where
  "restarted now d = d\<lparr>dp_Template := (dp_Template d)\<lparr>pt_Annotations :=
     set_key (pt_Annotations (dp_Template d)) ''kubectl.kubernetes.io/restartedAt'' now\<rparr>\<rparr>"

definition restart_pods :: "string \<Rightarrow> cluster \<Rightarrow> string \<Rightarrow> string \<Rightarrow> bool \<Rightarrow> run_outcome" where
  "restart_pods now kc ns target dryRun =
     (case kc_Get kc ns target of
        None \<Rightarrow> ([], Inl (GetFailed target))
      | Some deployment \<Rightarrow>
          (let replicas = (case dp_Replicas deployment of None \<Rightarrow> 1 | Some n \<Rightarrow> n)
           in carry_out kc dryRun (restart_plan ns target replicas)
                (UpdateDeployment ns (restarted now deployment)) (RestartRefused target)))"

definition scale_plan :: "string \<Rightarrow> string \<Rightarrow> 32 word \<Rightarrow> int \<Rightarrow> string" where
  "scale_plan ns target current replicas =
     ''Scale deployment '' @ ns @ ''/'' @ target @ '' from '' @ format_int (sint current) @ '' to ''
       @ format_int replicas @ '' replica(s).''"

definition scale_deployment :: "cluster \<Rightarrow> string \<Rightarrow> string \<Rightarrow> annotations \<Rightarrow> bool \<Rightarrow> run_outcome" where
  "scale_deployment kc ns target parameters dryRun =
     (case parse_int64 (at_key parameters ''replicas'') of
        None \<Rightarrow> ([], Inl InvalidReplicas)
      | Some replicas \<Rightarrow>
          (case kc_GetScale kc ns target of
             None \<Rightarrow> ([], Inl (ScaleUnknown target))
           | Some current \<Rightarrow>
               carry_out kc dryRun (scale_plan ns target current replicas)
                 (UpdateScale ns target (word_of_int replicas)) (ScaleRefused target)))"

definition unreachable_plan :: "string \<Rightarrow> string \<Rightarrow> string \<Rightarrow> string" where
  "unreachable_plan actionType ns target =
     ''No Kubernetes cluster is reachable; '' @ actionType @ '' on '' @ ns @ ''/'' @ target @ '' was not performed.''"

definition ExecuteRunbook ::
  "(revisionedRS list \<Rightarrow> revisionedRS list) \<Rightarrow> string \<Rightarrow> cluster \<Rightarrow> Operator \<Rightarrow> string \<Rightarrow> string \<Rightarrow> string \<Rightarrow> annotations \<Rightarrow> bool \<Rightarrow> run_outcome" where
  "ExecuteRunbook srt now kc oper actionType target namespace parameters dryRun0 =
     (let ns = namespaceFor oper namespace;
          dryRun = (dryRun0 \<or> \<not> k8s_AllowsExecution (op_policy oper))
      in if \<not> op_reachable oper then ([], Inr \<lparr>rr_DryRun = True, rr_Plan = unreachable_plan actionType ns target\<rparr>)
         else if actionType = ''ROLLBACK'' then rollback_deployment srt kc ns target parameters dryRun
         else if actionType = ''RESTART_PODS'' then restart_pods now kc ns target dryRun
         else if actionType = ''SCALE'' then scale_deployment kc ns target parameters dryRun
         else ([], Inl (UnknownAction actionType)))"

section \<open>action.go\<close>

record ExecuteRequest =
  er_ActionType :: string
  er_Target :: string
  er_Namespace :: string
  er_DryRun :: bool
  er_Parameters :: annotations

datatype action_reply = BadPayload | RunFailed run_error | Performed bool string string

definition action_message :: "bool \<Rightarrow> string" where
  "action_message dry = (if dry then ''Dry run only '' @ k8s_dash @ '' nothing was changed''
     else ''Action executed successfully by the PulseTrace Operator'')"

definition ExecuteAction ::
  "(revisionedRS list \<Rightarrow> revisionedRS list) \<Rightarrow> string \<Rightarrow> cluster \<Rightarrow> Operator \<Rightarrow> ExecuteRequest option \<Rightarrow> mutation list \<times> action_reply" where
  "ExecuteAction srt now kc oper body =
     (case body of
        None \<Rightarrow> ([], BadPayload)
      | Some req \<Rightarrow>
          (case ExecuteRunbook srt now kc oper (er_ActionType req) (er_Target req) (er_Namespace req) (er_Parameters req) (er_DryRun req) of
             (ms, Inl e) \<Rightarrow> (ms, RunFailed e)
           | (ms, Inr result) \<Rightarrow> (ms, Performed (rr_DryRun result) (rr_Plan result) (action_message (rr_DryRun result)))))"

definition GetActionStatus :: "Operator \<Rightarrow> string \<times> bool" where
  "GetActionStatus oper = (op_policy oper, k8s_AllowsExecution (op_policy oper))"

section \<open>Lemmas\<close>

lemma mset_stable_sort [simp]: "mset (stable_sort lt xs) = mset xs"
proof -
  have "mset (stable_insert lt x ys) = add_mset x (mset ys)" for x ys by (induction ys) auto
  then show ?thesis by (induction xs) (simp_all add: stable_sort_def)
qed

lemma k8s_ParseMode_shared: "k8s_ParseMode s = ParseMode s"
proof -
  have "(\<lambda>c. if c = CHR ''_'' then CHR ''-'' else if c = CHR '' '' then CHR ''-'' else c) =
    (\<lambda>c. if c = CHR ''_'' \<or> c = CHR '' '' then CHR ''-'' else c)" by auto
  then show ?thesis by (simp add: k8s_ParseMode_def ParseMode_def normalize_mode_def)
qed

lemma collect_candidates_iff:
  "c \<in> set (collect_candidates d items) \<longleftrightarrow>
     rv_rs c \<in> set items \<and> owned_by d (rv_rs c) \<and>
     (\<exists>s. map_of (rs_Annotations (rv_rs c)) revisionKey = Some s \<and> parse_int64 s = Some (rv_revision c))"
  by (induction d items rule: collect_candidates.induct) (cases c; auto split: option.splits)+

lemma find_sorted_max:
  assumes "sorted_wrt (\<lambda>a b. rv_revision b \<le> rv_revision a) cs" "find P cs = Some c"
  shows "c \<in> set cs \<and> P c \<and> (\<forall>x \<in> set cs. P x \<longrightarrow> rv_revision x \<le> rv_revision c)"
  using assms by (induction cs) (auto split: if_splits)

lemma carry_out_dry [simp]: "carry_out kc True plan m e = ([], Inr (dryRunResult plan))"
  by (simp add: carry_out_def)

lemma carry_out_live:
  "carry_out kc False plan m e =
     ([m], if kc_Apply kc m then Inr \<lparr>rr_DryRun = False, rr_Plan = plan\<rparr> else Inl e)"
  by (simp add: carry_out_def)

text \<open>How a live run and a dry run of the same request are related.\<close>

definition foretells :: "run_outcome \<Rightarrow> run_outcome \<Rightarrow> bool" where
  "foretells dry live \<longleftrightarrow> fst dry = [] \<and>
     (case snd dry of
        Inl e \<Rightarrow> live = ([], Inl e)
      | Inr r \<Rightarrow> rr_DryRun r \<and>
          (\<exists>plan m. r = dryRunResult plan \<and> fst live = [m] \<and>
             (snd live = Inr \<lparr>rr_DryRun = False, rr_Plan = plan\<rparr> \<or> (\<exists>e. snd live = Inl e))))"

lemma foretells_carry_out [simp]: "foretells ([], Inr (dryRunResult plan)) (carry_out kc False plan m e)"
  by (simp add: foretells_def carry_out_live dryRunResult_def)

lemma foretells_error [simp]: "foretells ([], Inl e) ([], Inl e)"
  by (simp add: foretells_def)

lemma foretells_rollback: "foretells (rollback_deployment srt kc ns t ps True) (rollback_deployment srt kc ns t ps False)"
  by (cases "kc_Get kc ns t"; cases "kc_SelectorString kc (dp_Selector (the (kc_Get kc ns t)))")
    (auto simp: rollback_deployment_def Let_def split: option.split sum.split)

lemma foretells_restart: "foretells (restart_pods now kc ns t True) (restart_pods now kc ns t False)"
  by (cases "kc_Get kc ns t") (simp_all add: restart_pods_def Let_def)

lemma foretells_scale: "foretells (scale_deployment kc ns t ps True) (scale_deployment kc ns t ps False)"
  by (cases "kc_GetScale kc ns t"; cases "parse_int64 (at_key ps ''replicas'')") (simp_all add: scale_deployment_def)

text \<open>An run_outcome without a write that does not report a change.\<close>

definition silent :: "run_outcome \<Rightarrow> bool" where
  "silent res \<longleftrightarrow> fst res = [] \<and> (\<forall>r. snd res = Inr r \<longrightarrow> rr_DryRun r)"

lemma foretells_silent: "foretells dry live \<Longrightarrow> silent dry"
  by (auto simp: foretells_def silent_def)

lemma one_write_carry_out [simp]: "length (fst (carry_out kc dryRun plan m e)) < 2"
  by (simp add: carry_out_def)

lemma one_write_rollback: "length (fst (rollback_deployment srt kc ns t ps dryRun)) < 2"
  by (auto simp: rollback_deployment_def Let_def split: option.split sum.split)

lemma one_write_restart: "length (fst (restart_pods now kc ns t dryRun)) < 2"
  by (cases "kc_Get kc ns t") (simp_all add: restart_pods_def Let_def)

lemma one_write_scale: "length (fst (scale_deployment kc ns t ps dryRun)) < 2"
  by (cases "kc_GetScale kc ns t"; cases "parse_int64 (at_key ps ''replicas'')") (simp_all add: scale_deployment_def)

lemma one_write: "length (fst (ExecuteRunbook srt now kc oper a t ns ps dryRun)) < 2"
  by (simp add: ExecuteRunbook_def Let_def one_write_rollback one_write_restart one_write_scale)

lemma dry_run_writes_nothing:
  assumes "dryRun \<or> \<not> k8s_AllowsExecution (op_policy oper) \<or> \<not> op_reachable oper"
  shows "silent (ExecuteRunbook srt now kc oper a t ns ps dryRun)"
proof -
  have "silent (rollback_deployment srt kc ns t ps True)" "silent (restart_pods now kc ns t True)" "silent (scale_deployment kc ns t ps True)" for ns
    using foretells_rollback foretells_restart foretells_scale foretells_silent by blast+
  then show ?thesis using assms by (auto simp: ExecuteRunbook_def Let_def silent_def [of "(_, _)"])
qed

lemma rollback_issues:
  assumes "rollback_deployment srt kc ns t ps False = (ms, Inr r)"
  obtains d sel items chosen where "kc_Get kc ns t = Some d" "kc_SelectorString kc (dp_Selector d) = Some sel"
    "kc_ListReplicaSets kc ns sel = Some items"
    "choose_revision t (at_key ps ''revision'') (parsed_or_bound (at_key (dp_Annotations d) revisionKey)) (srt (collect_candidates d items)) = Inr chosen"
    "ms = [UpdateDeployment ns (rolled_back d chosen)]"
  using assms by (auto simp: rollback_deployment_def Let_def carry_out_live split: option.splits sum.splits if_splits)

text \<open>What the documentation of \<open>sort.Slice\<close> promises of the call in \<open>ExecuteRunbook\<close>, and what the
  choice among the sorted revisions then satisfies.\<close>

locale revision_sort =
  fixes srt :: "revisionedRS list \<Rightarrow> revisionedRS list"
  assumes srt_mset: "mset (srt xs) = mset xs"
    and srt_sorted: "sorted_wrt (\<lambda>a b. rv_revision b \<le> rv_revision a) (srt xs)"
begin

lemma choose_revision_sorted:
  assumes "choose_revision t toRev currentRev (srt cs) = Inr chosen"
  shows "chosen \<in> set cs \<and>
    (if toRev = [] then rv_revision chosen \<noteq> currentRev \<and> (\<forall>c \<in> set cs. rv_revision c \<noteq> currentRev \<longrightarrow> rv_revision c \<le> rv_revision chosen)
     else parse_int64 toRev = Some (rv_revision chosen))"
proof -
  have "set (srt cs) = set cs" using srt_mset by (metis set_mset_mset)
  then show ?thesis using assms find_sorted_max [OF srt_sorted]
    by (fastforce simp: choose_revision_def split: if_splits option.splits)
qed

end

definition by_revision :: "revisionedRS list \<Rightarrow> revisionedRS list" where
  "by_revision = stable_sort (\<lambda>a b. rv_revision b < rv_revision a)"

interpretation newest_first: revision_sort by_revision
proof
  show "mset (by_revision xs) = mset xs" for xs by (simp add: by_revision_def)
  have "sorted_wrt (\<lambda>a b. \<not> rv_revision a < rv_revision b) (by_revision xs)" for xs
    unfolding by_revision_def by (rule sorted_stable_sort) auto
  then show "sorted_wrt (\<lambda>a b. rv_revision b \<le> rv_revision a) (by_revision xs)" for xs by (simp add: not_less)
qed

text \<open>A cluster with one deployment at revision 3 and its replica sets of the revisions 1 to 3, for the
  concrete instances of the properties.\<close>

definition template_rev :: "string \<Rightarrow> PodTemplate" where
  "template_rev v = \<lparr>pt_Annotations = [], pt_Spec = v\<rparr>"

definition cart :: Deployment where
  "cart = \<lparr>dp_Name = ''cart'', dp_UID = ''u1'', dp_Annotations = [(revisionKey, ''3'')], dp_Selector = ''app=cart'',
     dp_Replicas = Some 8, dp_Template = template_rev ''v3''\<rparr>"

definition cart_set :: "string \<Rightarrow> ReplicaSet" where
  "cart_set n = \<lparr>rs_Name = ''cart-'' @ n, rs_OwnerReferences = [\<lparr>or_Kind = ''Deployment'', or_Name = ''cart'', or_UID = ''u1''\<rparr>],
     rs_Annotations = [(revisionKey, n)], rs_Template = template_rev (CHR ''v'' # n)\<rparr>"

definition shop :: cluster where
  "shop = \<lparr>kc_Get = (\<lambda>ns t. if t = ''cart'' then Some cart else None), kc_SelectorString = Some,
     kc_ListReplicaSets = (\<lambda>ns sel. Some (map cart_set [''1'', ''2'', ''3''])),
     kc_GetScale = (\<lambda>ns t. Some 8), kc_Apply = (\<lambda>m. True)\<rparr>"

section \<open>Properties\<close>

text \<open>The cluster changes only when it may. A request handled with a dry run asked for, under a mode
  other than manual and auto, or with no cluster configured issues no write at all, and when it succeeds
  it is reported as a dry run in which nothing was changed; whatever the request and the mode, at most
  one write is issued.\<close>

theorem operator_writes_only_when_allowed:
  assumes "ExecuteAction srt now kc oper (Some req) = (ms, reply)"
  shows "length ms \<le> 1 \<and>
    (er_DryRun req \<or> \<not> k8s_AllowsExecution (op_policy oper) \<or> \<not> op_reachable oper \<longrightarrow>
      ms = [] \<and> (\<forall>dry plan msg. reply = Performed dry plan msg \<longrightarrow> dry \<and> msg = action_message True))"
proof -
  obtain out where run: "ExecuteRunbook srt now kc oper (er_ActionType req) (er_Target req) (er_Namespace req) (er_Parameters req) (er_DryRun req) = (ms, out)"
    and reply: "reply = (case out of Inl e \<Rightarrow> RunFailed e | Inr r \<Rightarrow> Performed (rr_DryRun r) (rr_Plan r) (action_message (rr_DryRun r)))"
    using assms by (auto simp: ExecuteAction_def split: prod.splits sum.splits)
  have "length ms < 2" using one_write [of srt now kc oper "er_ActionType req"] run by (metis fst_conv)
  moreover have "er_DryRun req \<or> \<not> k8s_AllowsExecution (op_policy oper) \<or> \<not> op_reachable oper \<Longrightarrow> silent (ms, out)"
    using dry_run_writes_nothing [of "er_DryRun req" oper srt now kc "er_ActionType req"] run by metis
  ultimately show ?thesis using reply by (auto simp: silent_def split: sum.splits)
qed

theorem operator_writes_only_when_allowed_witness:
  "\<exists>plan. ExecuteAction by_revision ''now'' shop (NewOperator ''dry-run'' [] True)
      (Some \<lparr>er_ActionType = ''ROLLBACK'', er_Target = ''cart'', er_Namespace = ''prod'', er_DryRun = False, er_Parameters = []\<rparr>)
    = ([], Performed True plan (action_message True))"
proof -
  let ?req = "\<lparr>er_ActionType = ''ROLLBACK'', er_Target = ''cart'', er_Namespace = ''prod'', er_DryRun = False, er_Parameters = []\<rparr>"
  let ?op = "NewOperator ''dry-run'' [] True"
  obtain ms reply where run: "ExecuteAction by_revision ''now'' shop ?op (Some ?req) = (ms, reply)" by fastforce
  have "\<exists>dry plan msg. snd (ExecuteAction by_revision ''now'' shop ?op (Some ?req)) = Performed dry plan msg" by (rule exI)+ code_simp
  moreover have "\<not> k8s_AllowsExecution (op_policy ?op)" by code_simp
  ultimately show ?thesis using operator_writes_only_when_allowed [OF run] run by auto
qed

text \<open>C37: a dry run shows what the live run does. With a cluster and a mode that allows execution, a
  request fails as a dry run exactly with the error it fails with before any write as a live run; and when
  the dry run gives a plan, the live run issues one write and either reports that plan as carried out or
  an error for the refused write.\<close>

theorem dry_run_foretells_live_run:
  assumes "op_reachable oper" "k8s_AllowsExecution (op_policy oper)"
  shows "foretells (ExecuteRunbook srt now kc oper a t ns ps True) (ExecuteRunbook srt now kc oper a t ns ps False)"
  using assms foretells_rollback foretells_restart foretells_scale
  by (simp add: ExecuteRunbook_def Let_def)

theorem dry_run_foretells_live_run_witness:
  "foretells (ExecuteRunbook by_revision ''now'' shop (NewOperator [] [] True) ''SCALE'' ''cart'' [] [(''replicas'', ''2'')] True)
     (ExecuteRunbook by_revision ''now'' shop (NewOperator [] [] True) ''SCALE'' ''cart'' [] [(''replicas'', ''2'')] False) \<and>
   ExecuteRunbook by_revision ''now'' shop (NewOperator [] [] True) ''SCALE'' ''cart'' [] [(''replicas'', ''2'')] False =
     ([UpdateScale ''default'' ''cart'' 2], Inr \<lparr>rr_DryRun = False, rr_Plan = ''Scale deployment default/cart from 8 to 2 replica(s).''\<rparr>)"
proof
  show "foretells (ExecuteRunbook by_revision ''now'' shop (NewOperator [] [] True) ''SCALE'' ''cart'' [] [(''replicas'', ''2'')] True)
     (ExecuteRunbook by_revision ''now'' shop (NewOperator [] [] True) ''SCALE'' ''cart'' [] [(''replicas'', ''2'')] False)"
    by (rule dry_run_foretells_live_run) code_simp+
qed code_simp

text \<open>A rollback restores the revision it should. However \<open>sort.Slice\<close> orders equal revisions, a
  rollback that is carried out writes back the deployment with the pod template of one of its own replica
  sets: without a revision parameter the one of the highest revision other than the current one, with the
  parameter one of the revision asked for.\<close>

theorem rollback_restores_revision:
  assumes "revision_sort srt"
    and "ExecuteRunbook srt now kc oper ''ROLLBACK'' t ns ps False = (ms, Inr r)" "\<not> rr_DryRun r"
  shows "\<exists>d sel items chosen. kc_Get kc (namespaceFor oper ns) t = Some d \<and>
    kc_SelectorString kc (dp_Selector d) = Some sel \<and> kc_ListReplicaSets kc (namespaceFor oper ns) sel = Some items \<and>
    ms = [UpdateDeployment (namespaceFor oper ns) (rolled_back d chosen)] \<and>
    rv_rs chosen \<in> set items \<and> owned_by d (rv_rs chosen) \<and>
    (if at_key ps ''revision'' = []
     then rv_revision chosen \<noteq> parsed_or_bound (at_key (dp_Annotations d) revisionKey) \<and>
       (\<forall>c \<in> set (collect_candidates d items).
          rv_revision c \<noteq> parsed_or_bound (at_key (dp_Annotations d) revisionKey) \<longrightarrow> rv_revision c \<le> rv_revision chosen)
     else parse_int64 (at_key ps ''revision'') = Some (rv_revision chosen))"
proof -
  have "k8s_AllowsExecution (op_policy oper)" "op_reachable oper"
    using dry_run_writes_nothing [of False oper srt now kc "''ROLLBACK''" t ns ps] assms(2,3) by (auto simp: silent_def)
  then have run: "rollback_deployment srt kc (namespaceFor oper ns) t ps False = (ms, Inr r)"
    using assms(2) by (simp add: ExecuteRunbook_def Let_def)
  obtain d sel items chosen where d: "kc_Get kc (namespaceFor oper ns) t = Some d" "kc_SelectorString kc (dp_Selector d) = Some sel"
    "kc_ListReplicaSets kc (namespaceFor oper ns) sel = Some items"
    "choose_revision t (at_key ps ''revision'') (parsed_or_bound (at_key (dp_Annotations d) revisionKey)) (srt (collect_candidates d items)) = Inr chosen"
    "ms = [UpdateDeployment (namespaceFor oper ns) (rolled_back d chosen)]"
    using rollback_issues [OF run] by metis
  note c = revision_sort.choose_revision_sorted [OF assms(1) d(4)]
  have "rv_rs chosen \<in> set items \<and> owned_by d (rv_rs chosen)" using c by (simp add: collect_candidates_iff)
  with d c show ?thesis by blast
qed

theorem rollback_restores_revision_witness:
  "\<exists>r. ExecuteRunbook by_revision ''now'' shop \<lparr>op_reachable = True, op_namespace = ''prod'', op_policy = ModeManual\<rparr> ''ROLLBACK'' ''cart'' [] [] False
      = ([UpdateDeployment ''prod'' (rolled_back cart \<lparr>rv_rs = cart_set ''2'', rv_revision = 2\<rparr>)], Inr r) \<and> \<not> rr_DryRun r"
proof -
  let ?op = "\<lparr>op_reachable = True, op_namespace = ''prod'', op_policy = ModeManual\<rparr>"
  have run: "ExecuteRunbook by_revision ''now'' shop ?op ''ROLLBACK'' ''cart'' [] [] False =
    ([UpdateDeployment ''prod'' (rolled_back cart \<lparr>rv_rs = cart_set ''2'', rv_revision = 2\<rparr>)],
     Inr \<lparr>rr_DryRun = False, rr_Plan = rollback_plan ''prod'' ''cart'' 3 \<lparr>rv_rs = cart_set ''2'', rv_revision = 2\<rparr>\<rparr>)"
    by code_simp
  note rollback_restores_revision [OF newest_first.revision_sort_axioms run]
  with run show ?thesis by simp
qed

text \<open>C38: the replica count is cut to 32 bits without notice. A scaling request that is carried out reports
  the number it was given and writes that number modulo the range of an \<open>int32\<close>: the two are the same
  exactly for numbers that fit, and a request for 4294967296 replicas scales the deployment to none.\<close>

theorem scale_plan_and_write_differ:
  assumes "ExecuteRunbook srt now kc oper ''SCALE'' t ns ps False = (ms, Inr r)" "\<not> rr_DryRun r"
  shows "\<exists>n current w. parse_int64 (at_key ps ''replicas'') = Some n \<and> ms = [UpdateScale (namespaceFor oper ns) t w] \<and>
    rr_Plan r = scale_plan (namespaceFor oper ns) t current n \<and>
    sint w = (n + 2 ^ 31) mod 2 ^ 32 - 2 ^ 31 \<and> (sint w = n \<longleftrightarrow> - (2 ^ 31) \<le> n \<and> n < 2 ^ 31)"
proof -
  have "k8s_AllowsExecution (op_policy oper)" "op_reachable oper"
    using dry_run_writes_nothing [of False oper srt now kc "''SCALE''" t ns ps] assms by (auto simp: silent_def)
  then have "scale_deployment kc (namespaceFor oper ns) t ps False = (ms, Inr r)"
    using assms(1) by (simp add: ExecuteRunbook_def Let_def)
  then obtain n current where n: "parse_int64 (at_key ps ''replicas'') = Some n"
    "ms = [UpdateScale (namespaceFor oper ns) t (word_of_int n)]" "rr_Plan r = scale_plan (namespaceFor oper ns) t current n"
    by (auto simp: scale_deployment_def carry_out_live split: option.splits if_splits)
  have w: "sint (word_of_int n :: 32 word) = (n + 2 ^ 31) mod 2 ^ 32 - 2 ^ 31"
    by (simp add: sint_sbintrunc' signed_take_bit_eq_take_bit_shift take_bit_eq_mod)
  moreover have "(n + 2 ^ 31) mod 2 ^ 32 - 2 ^ 31 = n \<longleftrightarrow> - (2 ^ 31) \<le> n \<and> n < (2 ^ 31 :: int)"
    using pos_mod_bound [of "2 ^ 32 :: int" "n + 2 ^ 31"] pos_mod_sign [of "2 ^ 32 :: int" "n + 2 ^ 31"]
      mod_pos_pos_trivial [of "n + 2 ^ 31" "2 ^ 32"] by auto
  ultimately show ?thesis using n by metis
qed

theorem scale_plan_and_write_differ_witness:
  "\<exists>r. ExecuteRunbook by_revision ''now'' shop (NewOperator [] [] True) ''SCALE'' ''cart'' [] [(''replicas'', ''4294967296'')] False =
     ([UpdateScale ''default'' ''cart'' 0], Inr r) \<and> rr_Plan r = scale_plan ''default'' ''cart'' 8 4294967296"
proof -
  let ?op = "NewOperator [] [] True" and ?ps = "[(''replicas'', ''4294967296'')]"
  have n: "parse_int64 ''4294967296'' = Some 4294967296" by (simp add: parse_int64_def char_digit_def)
  have op: "?op = \<lparr>op_reachable = True, op_namespace = ''default'', op_policy = ''manual''\<rparr>" by code_simp
  obtain w where run: "ExecuteRunbook by_revision ''now'' shop ?op ''SCALE'' ''cart'' [] ?ps False =
    ([UpdateScale ''default'' ''cart'' w], Inr \<lparr>rr_DryRun = False, rr_Plan = scale_plan ''default'' ''cart'' 8 4294967296\<rparr>)"
    by (simp add: op ExecuteRunbook_def Let_def scale_deployment_def at_key_def n shop_def namespaceFor_def k8s_AllowsExecution_def mode_defs carry_out_def)
  have "sint w = 0"
    using scale_plan_and_write_differ [OF run] by (auto simp: at_key_def n)
  then have "w = 0" by (simp add: signed_eq_0_iff)
  then show ?thesis using run by simp
qed

text \<open>C39: a misspelt mode executes. Every non-empty value of the mode variable that is none of the accepted
  spellings, the text dryrun among them, gives an operator that carries live requests out, although the
  operator's comments say that such a value never widens what it may do; a value that is accepted means
  here what it means to the shared remediation policy.\<close>

theorem misspelt_mode_executes:
  assumes "trim_space modeEnv \<noteq> []"
  shows "(ParseMode modeEnv = None \<longrightarrow> op_policy (NewOperator modeEnv namespaceEnv found) = ModeManual \<and>
      snd (GetActionStatus (NewOperator modeEnv namespaceEnv found))) \<and>
    (\<forall>m. ParseMode modeEnv = Some m \<longrightarrow> op_policy (NewOperator modeEnv namespaceEnv found) = m) \<and>
    ParseMode ''dryrun'' = None"
proof -
  have "ParseMode ''dryrun'' = None" by code_simp
  then show ?thesis using assms
    by (simp add: NewOperator_def newOperatorWithPolicy_def policyFromEnv_def k8s_ParseMode_shared GetActionStatus_def k8s_AllowsExecution_def)
qed

theorem misspelt_mode_executes_witness:
  "op_policy (NewOperator ''dryrun'' [] True) = ModeManual \<and>
   fst (ExecuteRunbook by_revision ''now'' shop (NewOperator ''dryrun'' [] True) ''RESTART_PODS'' ''cart'' [] [] False)
     = [UpdateDeployment ''default'' (restarted ''now'' cart)]"
proof -
  have "trim_space ''dryrun'' \<noteq> []" by code_simp
  moreover have "fst (ExecuteRunbook by_revision ''now'' shop (NewOperator ''dryrun'' [] True) ''RESTART_PODS'' ''cart'' [] [] False)
     = [UpdateDeployment ''default'' (restarted ''now'' cart)]" by code_simp
  ultimately show ?thesis using misspelt_mode_executes [of "''dryrun''"] by simp
qed

end
