(* ===== verification/Otlp.thy ===== *)
theory Otlp
  imports Auth
begin

text \<open>
  Telemetry ingestion of the gateway (\<open>src/gateway-service/internal/otlp\<close>): the stamping of an OTLP
  export with the tenant of its key (\<open>tenant.go\<close>), the three gRPC services and the forwarding of the
  migration proxy (\<open>tenant.go\<close>, \<open>forward.go\<close>), the HTTP endpoint (\<open>http.go\<close>), and the credentials and
  the log sink of the migration proxy (\<open>src/gateway-service/internal/ingestproxy/proxy.go\<close>).

  What leaves the gateway is a list of events: a metered count, an export handed to the collector over
  gRPC or HTTP, or an export handed to the log sink. The protobuf and JSON codecs, gzip, the collector, the
  sink and the resolver of keys are arguments.
\<close>

section \<open>Exports\<close>

datatype any_value = StringValue string | OtherValue string

text \<open>An attribute is a pointer in the generated code, \<open>None\<close> the nil pointer; what else a resource holds
  is one opaque text.\<close>

type_synonym attribute = "(string \<times> any_value) option"

record otlp_resource =
  res_Attributes :: "attribute list"
  res_Rest :: string

text \<open>An export request: per resource, the scopes with their records.\<close>

type_synonym 'a export_req = "(otlp_resource option \<times> 'a list list) list"

datatype metric = NoData | Gauge "string list" | Sum_metric "string list" | Histogram "string list"
  | ExponentialHistogram "string list" | Summary "string list"

datatype payload = Traces "string export_req" | Metrics "metric export_req" | Logs "string export_req"

section \<open>Stamping\<close>

definition TenantIDAttr :: string where "TenantIDAttr = ''tenant.id''"
definition TenantTierAttr :: string where "TenantTierAttr = ''tenant.tier''"
definition scopeIngest :: string where "scopeIngest = ''ingest''"

definition withoutTenant :: "attribute list \<Rightarrow> attribute list" where
  "withoutTenant attrs = filter (\<lambda>kv. case kv of None \<Rightarrow> False | Some (k, v) \<Rightarrow> \<not> (k = TenantIDAttr \<or> k = TenantTierAttr)) attrs"

definition stampResource :: "otlp_resource option \<Rightarrow> string \<Rightarrow> string \<Rightarrow> otlp_resource" where
  "stampResource res tenantID tier =
     (let r = (case res of None \<Rightarrow> \<lparr>res_Attributes = [], res_Rest = []\<rparr> | Some r \<Rightarrow> r)
      in r\<lparr>res_Attributes := withoutTenant (res_Attributes r) @
            [Some (TenantIDAttr, StringValue tenantID), Some (TenantTierAttr, StringValue tier)]\<rparr>)"

definition stamp_request :: "string \<Rightarrow> string \<Rightarrow> 'a export_req \<Rightarrow> 'a export_req" where
  "stamp_request tenantID tier req = map (\<lambda>(res, scopes). (Some (stampResource res tenantID tier), scopes)) req"

definition stamp_payload :: "string \<Rightarrow> string \<Rightarrow> payload \<Rightarrow> payload" where
  "stamp_payload tenantID tier p = (case p of
     Traces req \<Rightarrow> Traces (stamp_request tenantID tier req)
   | Metrics req \<Rightarrow> Metrics (stamp_request tenantID tier req)
   | Logs req \<Rightarrow> Logs (stamp_request tenantID tier req))"

definition count_records :: "'a export_req \<Rightarrow> int" where
  "count_records req = sum_list (map (\<lambda>(res, scopes). sum_list (map (\<lambda>recs. int (length recs)) scopes)) req)"

definition metric_points :: "metric \<Rightarrow> int" where
  "metric_points m = (case m of NoData \<Rightarrow> 0 | Gauge ps \<Rightarrow> int (length ps) | Sum_metric ps \<Rightarrow> int (length ps)
     | Histogram ps \<Rightarrow> int (length ps) | ExponentialHistogram ps \<Rightarrow> int (length ps) | Summary ps \<Rightarrow> int (length ps))"

definition countMetricPoints :: "metric export_req \<Rightarrow> int" where
  "countMetricPoints req = sum_list (map (\<lambda>(res, scopes). sum_list (map (\<lambda>ms. sum_list (map metric_points ms)) scopes)) req)"

definition payload_count :: "payload \<Rightarrow> int" where
  "payload_count p = (case p of Traces req \<Rightarrow> count_records req | Metrics req \<Rightarrow> countMetricPoints req | Logs req \<Rightarrow> count_records req)"

section \<open>The gRPC services\<close>

type_synonym metadata = "(string \<times> string list) list"

datatype otlp_event = Metered string string int | ToCollector "metadata option" payload
  | PostCollector string string bytes | ToSink string string payload

datatype status_error = PermissionDenied | Unauthenticated | ResourceExhausted string | UpstreamFailed | SinkFailed

text \<open>The stamper: the resolver of keys, whether a key is required, whether metering is wired, the quota,
  the log sink and the collector; the last two say whether they take an export.\<close>

record tenantStamper =
  ts_resolve :: "string \<Rightarrow> (string \<times> string \<times> string) option"
  ts_requireKey :: bool
  ts_record :: bool
  ts_allow :: "(string \<Rightarrow> string \<Rightarrow> bool) option"
  ts_logSink :: "(string \<Rightarrow> string \<Rightarrow> payload \<Rightarrow> bool) option"
  ts_up :: "payload \<Rightarrow> bool"

definition bearerFromMetadata :: "metadata option \<Rightarrow> string" where
  "bearerFromMetadata md = (case md of None \<Rightarrow> []
     | Some m \<Rightarrow> (case map_of m ''authorization'' of
          Some (v # vs) \<Rightarrow> if has_prefix ''Bearer '' v then drop 7 v else []
        | _ \<Rightarrow> []))"

definition forwardContext :: "metadata option \<Rightarrow> metadata option" where
  "forwardContext md = map_option (filter (\<lambda>(k, vs). k \<noteq> ''authorization'')) md"

definition authTenant :: "tenantStamper \<Rightarrow> metadata option \<Rightarrow> status_error + string \<times> string" where
  "authTenant s md = (case ts_resolve s (bearerFromMetadata md) of
     Some (tid, tr, scope) \<Rightarrow> if scope \<noteq> scopeIngest then Inl PermissionDenied else Inr (tid, tr)
   | None \<Rightarrow> if ts_requireKey s then Inl Unauthenticated else Inr (defaultTenantID, defaultTenantTier))"

definition checkQuota :: "tenantStamper \<Rightarrow> string \<Rightarrow> string \<Rightarrow> status_error option" where
  "checkQuota s tenantID signal = (case ts_allow s of None \<Rightarrow> None
     | Some allow \<Rightarrow> if \<not> allow tenantID signal then Some (ResourceExhausted signal) else None)"

definition ts_meter :: "tenantStamper \<Rightarrow> string \<Rightarrow> string \<Rightarrow> int \<Rightarrow> otlp_event list" where
  "ts_meter s tenantID signal n = (if ts_record s \<and> n > 0 then [Metered tenantID signal n] else [])"

definition emitLogs :: "tenantStamper \<Rightarrow> metadata option \<Rightarrow> string \<Rightarrow> string \<Rightarrow> string export_req \<Rightarrow> otlp_event list \<times> status_error option" where
  "emitLogs s md tenantID tier req =
     (let stamped = Logs (stamp_request tenantID tier req);
          metered = ts_meter s tenantID ''logs'' (count_records (stamp_request tenantID tier req))
      in case ts_logSink s of
           Some sink \<Rightarrow> (metered @ [ToSink tenantID tier stamped], if sink tenantID tier stamped then None else Some SinkFailed)
         | None \<Rightarrow> (metered @ [ToCollector (forwardContext md) stamped], if ts_up s stamped then None else Some UpstreamFailed))"

text \<open>What \<open>Export\<close> of the traces and the metrics service, and their forwarding counterparts, do once the
  tenant is known; \<open>out\<close> is the context of the call to the collector.\<close>

definition send_stamped :: "tenantStamper \<Rightarrow> metadata option \<Rightarrow> string \<Rightarrow> string \<Rightarrow> string \<Rightarrow> payload \<Rightarrow> otlp_event list \<times> status_error option" where
  "send_stamped s out tenantID tier signal p =
     (case checkQuota s tenantID signal of Some e \<Rightarrow> ([], Some e)
      | None \<Rightarrow>
          (let stamped = stamp_payload tenantID tier p
           in (ts_meter s tenantID signal (payload_count stamped) @ [ToCollector out stamped],
               if ts_up s stamped then None else Some UpstreamFailed)))"

definition traceServer_Export :: "tenantStamper \<Rightarrow> metadata option \<Rightarrow> string export_req \<Rightarrow> otlp_event list \<times> status_error option" where
  "traceServer_Export s md req = (case authTenant s md of Inl e \<Rightarrow> ([], Some e)
     | Inr (tenantID, tier) \<Rightarrow> send_stamped s (forwardContext md) tenantID tier ''traces'' (Traces req))"

definition metricsServer_Export :: "tenantStamper \<Rightarrow> metadata option \<Rightarrow> metric export_req \<Rightarrow> otlp_event list \<times> status_error option" where
  "metricsServer_Export s md req = (case authTenant s md of Inl e \<Rightarrow> ([], Some e)
     | Inr (tenantID, tier) \<Rightarrow> send_stamped s (forwardContext md) tenantID tier ''metrics'' (Metrics req))"

definition ForwardTraces :: "tenantStamper \<Rightarrow> string \<Rightarrow> string \<Rightarrow> string export_req \<Rightarrow> otlp_event list \<times> status_error option" where
  "ForwardTraces s tenantID tier req = send_stamped s None tenantID tier ''traces'' (Traces req)"

definition ForwardMetrics :: "tenantStamper \<Rightarrow> string \<Rightarrow> string \<Rightarrow> metric export_req \<Rightarrow> otlp_event list \<times> status_error option" where
  "ForwardMetrics s tenantID tier req = send_stamped s None tenantID tier ''metrics'' (Metrics req)"

definition ForwardLogs :: "tenantStamper \<Rightarrow> metadata option \<Rightarrow> string \<Rightarrow> string \<Rightarrow> string export_req \<Rightarrow> otlp_event list \<times> status_error option" where
  "ForwardLogs s md tenantID tier req = (case checkQuota s tenantID ''logs'' of Some e \<Rightarrow> ([], Some e)
     | None \<Rightarrow> emitLogs s md tenantID tier req)"

definition logsServer_Export :: "tenantStamper \<Rightarrow> metadata option \<Rightarrow> string export_req \<Rightarrow> otlp_event list \<times> status_error option" where
  "logsServer_Export s md req = (case authTenant s md of Inl e \<Rightarrow> ([], Some e)
     | Inr (tenantID, tier) \<Rightarrow> ForwardLogs s md tenantID tier req)"

section \<open>The HTTP endpoint\<close>

datatype otlp_signal = SigTraces | SigMetrics | SigLogs

definition signal_path :: "otlp_signal \<Rightarrow> string" where
  "signal_path s = (case s of SigMetrics \<Rightarrow> ''/v1/metrics'' | SigLogs \<Rightarrow> ''/v1/logs'' | SigTraces \<Rightarrow> ''/v1/traces'')"

definition meteringName :: "otlp_signal \<Rightarrow> string" where
  "meteringName s = (case s of SigMetrics \<Rightarrow> ''metrics'' | SigLogs \<Rightarrow> ''logs'' | SigTraces \<Rightarrow> ''traces'')"

text \<open>The handler with the codecs: \<open>oh_decode\<close> reads a message of the signal's type, \<open>oh_post\<close> is the status of
  the collector's answer, \<open>None\<close> when there is none.\<close>

record HTTPHandler =
  oh_upstreamBase :: string
  oh_record :: bool
  oh_logSink :: "(string \<Rightarrow> string \<Rightarrow> payload \<Rightarrow> bool) option"
  oh_decode :: "otlp_signal \<Rightarrow> bool \<Rightarrow> bytes \<Rightarrow> payload option"
  oh_encode :: "bool \<Rightarrow> payload \<Rightarrow> bytes option"
  oh_gunzip :: "bytes \<Rightarrow> bytes option"
  oh_url_ok :: "string \<Rightarrow> bool"
  oh_post :: "string \<Rightarrow> string \<Rightarrow> bytes \<Rightarrow> int option"

fun trim_right_slash :: "string \<Rightarrow> string" where
  "trim_right_slash s = rev (dropWhile (\<lambda>c. c = CHR ''/'') (rev s))"

datatype otlp_reply = OtlpError int | Relayed int | SinkAccepted bool

definition otlp_readBody :: "HTTPHandler \<Rightarrow> http_req \<Rightarrow> bytes option \<Rightarrow> bytes option" where
  "otlp_readBody h r body = (case body of None \<Rightarrow> None
     | Some raw \<Rightarrow> if to_lower (hdr_Get (hr_Header r) ''Content-Encoding'') = ''gzip'' then oh_gunzip h raw else Some raw)"

definition otlp_forward :: "HTTPHandler \<Rightarrow> otlp_signal \<Rightarrow> bytes \<Rightarrow> string \<Rightarrow> otlp_event list \<times> otlp_reply" where
  "otlp_forward h signal body contentType =
     (let url = trim_right_slash (oh_upstreamBase h) @ signal_path signal
      in if \<not> oh_url_ok h url then ([], OtlpError 500)
         else ([PostCollector url contentType body],
               case oh_post h url contentType body of None \<Rightarrow> OtlpError 502 | Some status \<Rightarrow> Relayed status))"

definition stampPayload :: "HTTPHandler \<Rightarrow> otlp_signal \<Rightarrow> bytes \<Rightarrow> bool \<Rightarrow> string \<Rightarrow> string \<Rightarrow> (bytes \<times> int) option" where
  "stampPayload h signal data isJSON tenantID tier = (case oh_decode h signal isJSON data of None \<Rightarrow> None
     | Some p \<Rightarrow> (let stamped = stamp_payload tenantID tier p
                  in map_option (\<lambda>out. (out, payload_count stamped)) (oh_encode h isJSON stamped)))"

definition logsToSink ::
  "HTTPHandler \<Rightarrow> (string \<Rightarrow> string \<Rightarrow> payload \<Rightarrow> bool) \<Rightarrow> string \<Rightarrow> string \<Rightarrow> bytes \<Rightarrow> bool \<Rightarrow> otlp_event list \<times> otlp_reply" where
  "logsToSink h sink tenantID tier raw isJSON = (case oh_decode h SigLogs isJSON raw of None \<Rightarrow> ([], OtlpError 400)
     | Some p \<Rightarrow>
         (let stamped = stamp_payload tenantID tier p; n = payload_count stamped
          in ((if oh_record h \<and> n > 0 then [Metered tenantID (meteringName SigLogs) n] else []) @ [ToSink tenantID tier stamped],
              if sink tenantID tier stamped then SinkAccepted isJSON else OtlpError 502)))"

definition otlp_Handler :: "HTTPHandler \<Rightarrow> otlp_signal \<Rightarrow> http_req \<Rightarrow> bytes option \<Rightarrow> otlp_event list \<times> otlp_reply" where
  "otlp_Handler h signal r body =
     (let t = hdr_Get (hr_Header r) ''X-Tenant-ID''; tenantID = (if t = [] then defaultTenantID else t);
          tr = hdr_Get (hr_Header r) ''X-Tenant-Tier''; tier = (if tr = [] then defaultTenantTier else tr)
      in case otlp_readBody h r body of None \<Rightarrow> ([], OtlpError 400)
         | Some raw \<Rightarrow>
             (let isJSON = contains ''json'' (hdr_Get (hr_Header r) ''Content-Type'')
              in if signal = SigLogs \<and> oh_logSink h \<noteq> None then logsToSink h (the (oh_logSink h)) tenantID tier raw isJSON
                 else case stampPayload h signal raw isJSON tenantID tier of None \<Rightarrow> ([], OtlpError 400)
                   | Some (stamped, n) \<Rightarrow>
                       (case otlp_forward h signal stamped (if isJSON then ''application/json'' else ''application/x-protobuf'') of
                          (evs, reply) \<Rightarrow> ((if oh_record h \<and> n > 0 then [Metered tenantID (meteringName signal) n] else []) @ evs, reply))))"

section \<open>The migration proxy\<close>

record migration_proxy =
  mp_resolve :: "string \<Rightarrow> (string \<times> string \<times> string) option"
  mp_requireKey :: bool
  mp_allow :: "(string \<Rightarrow> string \<Rightarrow> bool) option"
  mp_logPub :: "(string list \<Rightarrow> bool) option"
  mp_meter :: bool

definition resolveTenant :: "migration_proxy \<Rightarrow> string \<Rightarrow> int + string \<times> string" where
  "resolveTenant p key = (case mp_resolve p key of
     Some (tid, tr, scope) \<Rightarrow> if scope \<noteq> ScopeIngest then Inl 403 else Inr (tid, tr)
   | None \<Rightarrow> if mp_requireKey p then Inl 401 else Inr (defaultTenantID, defaultTenantTier))"

datatype publish_result = NotHandled | Published | QuotaExceeded | PublishFailed

text \<open>\<open>publishLogs\<close>: the events are what is metered; an entry is an opaque text.\<close>

definition publishLogs :: "migration_proxy \<Rightarrow> string \<Rightarrow> string list \<Rightarrow> otlp_event list \<times> publish_result" where
  "publishLogs p tenantID entries = (case mp_logPub p of None \<Rightarrow> ([], NotHandled)
     | Some pub \<Rightarrow>
         if entries = [] then ([], Published)
         else if (case mp_allow p of None \<Rightarrow> False | Some allow \<Rightarrow> \<not> allow tenantID ''logs'') then ([], QuotaExceeded)
         else if \<not> pub entries then ([], PublishFailed)
         else (if mp_meter p then [Metered tenantID ''logs'' (int (length entries))] else [], Published))"

definition writeLogSinkError :: "publish_result \<Rightarrow> int" where
  "writeLogSinkError e = (if e = QuotaExceeded then 429 else 502)"

section \<open>Lemmas\<close>

definition values_of :: "string \<Rightarrow> otlp_resource option \<Rightarrow> any_value list" where
  "values_of k res = (case res of None \<Rightarrow> [] | Some r \<Rightarrow> map snd (filter (\<lambda>kv. fst kv = k) (concat (map (\<lambda>a. case a of None \<Rightarrow> [] | Some kv \<Rightarrow> [kv]) (res_Attributes r)))))"

text \<open>One export is another one attributed to a tenant: it has the same records under the same resources in
  the same order, every resource carries the tenant and the tier exactly once, and its other attributes
  are those it had.\<close>

definition req_attributed :: "string \<Rightarrow> string \<Rightarrow> 'a export_req \<Rightarrow> 'a export_req \<Rightarrow> bool" where
  "req_attributed t tier req req' \<longleftrightarrow>
     list_all2 (\<lambda>(res, scopes) (res', scopes'). scopes' = scopes \<and>
         values_of TenantIDAttr res' = [StringValue t] \<and> values_of TenantTierAttr res' = [StringValue tier] \<and>
         (\<forall>k. k \<notin> {TenantIDAttr, TenantTierAttr} \<longrightarrow> values_of k res' = values_of k res)) req req'"

fun attributed :: "string \<Rightarrow> string \<Rightarrow> payload \<Rightarrow> payload \<Rightarrow> bool" where
  "attributed t tier (Traces req) (Traces req') = req_attributed t tier req req'"
| "attributed t tier (Metrics req) (Metrics req') = req_attributed t tier req req'"
| "attributed t tier (Logs req) (Logs req') = req_attributed t tier req req'"
| "attributed t tier p p' = False"

lemma values_stamped:
  "values_of TenantIDAttr (Some (stampResource res t tier)) = [StringValue t]"
  "values_of TenantTierAttr (Some (stampResource res t tier)) = [StringValue tier]"
proof -
  have "filter (\<lambda>kv. fst kv = k) (concat (map (\<lambda>a. case a of None \<Rightarrow> [] | Some kv \<Rightarrow> [kv]) (withoutTenant attrs))) = []"
    if "k = TenantIDAttr \<or> k = TenantTierAttr" for k attrs
    using that by (auto simp: withoutTenant_def filter_empty_conv split: option.splits)
  then show "values_of TenantIDAttr (Some (stampResource res t tier)) = [StringValue t]"
    "values_of TenantTierAttr (Some (stampResource res t tier)) = [StringValue tier]"
    by (simp_all add: values_of_def stampResource_def Let_def TenantIDAttr_def TenantTierAttr_def)
qed

lemma values_stamped_other:
  assumes "k \<noteq> TenantIDAttr" "k \<noteq> TenantTierAttr"
  shows "values_of k (Some (stampResource res t tier)) = values_of k res"
proof -
  have "filter (\<lambda>kv. fst kv = k) (concat (map (\<lambda>a. case a of None \<Rightarrow> [] | Some kv \<Rightarrow> [kv]) (withoutTenant attrs))) =
    filter (\<lambda>kv. fst kv = k) (concat (map (\<lambda>a. case a of None \<Rightarrow> [] | Some kv \<Rightarrow> [kv]) attrs))" for attrs
    using assms by (induction attrs) (auto simp: withoutTenant_def split: option.splits)
  moreover have "withoutTenant [] = []" by (simp add: withoutTenant_def)
  ultimately show ?thesis using assms by (cases res) (simp_all add: values_of_def stampResource_def Let_def)
qed

lemma req_attributed_stamp [simp]: "req_attributed t tier req (stamp_request t tier req)"
  by (induction req) (auto simp: req_attributed_def stamp_request_def values_stamped values_stamped_other)

lemma attributed_stamp [simp]: "attributed t tier p (stamp_payload t tier p)"
  by (cases p) (simp_all add: stamp_payload_def)

lemma payload_count_stamp [simp]: "payload_count (stamp_payload t tier p) = payload_count p"
  by (cases p) (simp_all add: payload_count_def stamp_payload_def count_records_def countMetricPoints_def stamp_request_def comp_def case_prod_unfold)

text \<open>The events of handling an export \<open>p\<close> for a tenant: what is handed on is \<open>p\<close> attributed to that tenant,
  and the call to the collector carries no credential.\<close>

definition events_of_tenant :: "string \<Rightarrow> string \<Rightarrow> payload \<Rightarrow> otlp_event list \<Rightarrow> bool" where
  "events_of_tenant t tier p evs \<longleftrightarrow> (\<forall>ev \<in> set evs. case ev of
      Metered u signal n \<Rightarrow> u = t \<and> n = payload_count p
    | ToCollector out p' \<Rightarrow> attributed t tier p p' \<and> bearerFromMetadata out = [] \<and> (\<forall>m. out = Some m \<longrightarrow> map_of m ''authorization'' = None)
    | ToSink u tr p' \<Rightarrow> u = t \<and> tr = tier \<and> attributed t tier p p'
    | PostCollector url ctype body \<Rightarrow> False)"

lemma map_of_forwarded: "map_of (filter (\<lambda>(k, vs). k \<noteq> a) m) a = None"
  by (induction m) auto

lemma forwardContext_clean:
  "bearerFromMetadata (forwardContext md) = []" "forwardContext md = Some m \<Longrightarrow> map_of m ''authorization'' = None"
  by (auto simp: bearerFromMetadata_def forwardContext_def map_of_forwarded split: option.splits)

lemma events_meter [simp]: "n = payload_count p \<Longrightarrow> events_of_tenant t tier p (ts_meter s t signal n)"
  by (simp add: events_of_tenant_def ts_meter_def)

lemma events_append [simp]: "events_of_tenant t tier p (xs @ ys) \<longleftrightarrow> events_of_tenant t tier p xs \<and> events_of_tenant t tier p ys"
  by (auto simp: events_of_tenant_def)

lemma events_Nil [simp]: "events_of_tenant t tier p []"
  by (simp add: events_of_tenant_def)

lemma count_stamped_logs [simp]: "count_records (stamp_request t tier req) = payload_count (Logs req)"
  using payload_count_stamp [of t tier "Logs req"] by (simp add: payload_count_def stamp_payload_def)

lemma events_emitLogs: "events_of_tenant t tier (Logs req) (fst (emitLogs s md t tier req))"
  by (auto simp: emitLogs_def Let_def events_of_tenant_def [of _ _ _ "[_]"] forwardContext_clean split: option.split)

lemma events_send:
  assumes "out = None \<or> out = forwardContext md"
  shows "events_of_tenant t tier p (fst (send_stamped s out t tier signal p))"
proof -
  have "bearerFromMetadata out = [] \<and> (\<forall>m. out = Some m \<longrightarrow> map_of m ''authorization'' = None)"
    using assms forwardContext_clean by (auto simp: bearerFromMetadata_def)
  then show ?thesis
    by (simp add: send_stamped_def Let_def events_of_tenant_def [of _ _ _ "[_]"] split: option.split)
qed

lemma events_ForwardLogs: "events_of_tenant t tier (Logs req) (fst (ForwardLogs s md t tier req))"
  using events_emitLogs by (simp add: ForwardLogs_def split: option.split)

definition server_runs :: "tenantStamper \<Rightarrow> metadata option \<Rightarrow> payload \<Rightarrow> otlp_event list \<times> status_error option" where
  "server_runs s md p = (case p of Traces req \<Rightarrow> traceServer_Export s md req | Metrics req \<Rightarrow> metricsServer_Export s md req
     | Logs req \<Rightarrow> logsServer_Export s md req)"

section \<open>Properties\<close>

text \<open>Exported telemetry belongs to its key. For each of the three gRPC services, an export that is
  refused for its key emits nothing; otherwise the key resolved to a tenant with the scope of server
  telemetry, or no key was needed and the tenant is the default one. What is then handed to the collector
  or to the log sink is the export with the same records in the same order, in which every resource
  carries that tenant and its tier exactly once, whatever the client had set, and keeps its other
  attributes; the call to the collector carries no credential, and a service that answers without an
  error did hand the export on.\<close>

theorem exports_belong_to_their_key:
  assumes "server_runs s md p = (evs, err)"
  shows "case authTenant s md of
      Inl e \<Rightarrow> evs = [] \<and> err = Some e
    | Inr (t, tier) \<Rightarrow> events_of_tenant t tier p evs \<and> (err = None \<longrightarrow> (\<exists>out p'. last evs \<in> {ToCollector out p', ToSink t tier p'})) \<and>
        (ts_resolve s (bearerFromMetadata md) = Some (t, tier, scopeIngest) \<or>
         ts_resolve s (bearerFromMetadata md) = None \<and> \<not> ts_requireKey s \<and> (t, tier) = (defaultTenantID, defaultTenantTier))"
proof (cases "authTenant s md")
  case (Inl e)
  with assms show ?thesis
    by (cases p) (auto simp: server_runs_def traceServer_Export_def metricsServer_Export_def logsServer_Export_def)
next
  case (Inr x)
  obtain t tier where x: "x = (t, tier)" by force
  have run: "server_runs s md p = (case p of Logs req \<Rightarrow> ForwardLogs s md t tier req
      | Traces _ \<Rightarrow> send_stamped s (forwardContext md) t tier ''traces'' p | Metrics _ \<Rightarrow> send_stamped s (forwardContext md) t tier ''metrics'' p)"
    using Inr x by (cases p) (simp_all add: server_runs_def traceServer_Export_def metricsServer_Export_def logsServer_Export_def)
  have "events_of_tenant t tier p (fst (server_runs s md p))"
    unfolding run by (cases p) (simp_all add: events_send [of _ md] events_ForwardLogs)
  then have "events_of_tenant t tier p evs" using assms by simp
  moreover have "err = None \<longrightarrow> (\<exists>out p'. last evs \<in> {ToCollector out p', ToSink t tier p'})"
    using assms run by (cases p) (auto simp: send_stamped_def ForwardLogs_def emitLogs_def Let_def split: option.splits)
  ultimately show ?thesis using Inr x by (auto simp: authTenant_def split: option.splits if_splits)
qed

definition sample_stamper :: tenantStamper where
  "sample_stamper = \<lparr>ts_resolve = (\<lambda>k. if k = ''k1'' then Some (''acme'', ''premium'', ''ingest'') else None), ts_requireKey = True,
     ts_record = True, ts_allow = None, ts_logSink = None, ts_up = (\<lambda>_. True)\<rparr>"

definition spoofed_request :: "string export_req" where
  "spoofed_request = [(Some \<lparr>res_Attributes = [Some (''tenant.id'', StringValue ''victim''), None, Some (''service.name'', StringValue ''web'')], res_Rest = []\<rparr>,
     [[''span1'', ''span2'']])]"

theorem exports_belong_to_their_key_witness:
  "events_of_tenant ''acme'' ''premium'' (Traces spoofed_request)
     (fst (server_runs sample_stamper (Some [(''authorization'', [''Bearer k1''])]) (Traces spoofed_request))) \<and>
   hd (fst (server_runs sample_stamper (Some [(''authorization'', [''Bearer k1''])]) (Traces spoofed_request))) = Metered ''acme'' ''traces'' 2"
proof
  let ?md = "Some [(''authorization'', [''Bearer k1''])]"
  have auth: "authTenant sample_stamper ?md = Inr (''acme'', ''premium'')"
    by (simp add: authTenant_def sample_stamper_def bearerFromMetadata_def has_prefix_def scopeIngest_def)
  show "events_of_tenant ''acme'' ''premium'' (Traces spoofed_request) (fst (server_runs sample_stamper ?md (Traces spoofed_request)))"
    using exports_belong_to_their_key [OF surjective_pairing, of sample_stamper ?md "Traces spoofed_request"] auth by simp
  show "hd (fst (server_runs sample_stamper ?md (Traces spoofed_request))) = Metered ''acme'' ''traces'' 2"
    by code_simp
qed

end
