(* ===== verification/Gateway.thy ===== *)
theory Gateway
  imports Otlp Usage Rbac
begin

text \<open>
  The gateway as a whole (\<open>src/gateway-service/cmd/main.go\<close>): the chain of middleware in front of every
  handler, the masking of personal data in posted logs (\<open>internal/pii/sanitizer.go\<close>), the reverse proxy
  (\<open>internal/proxy/reverse_proxy.go\<close>) with its table of routes, and the OTLP endpoints behind the chain.
  The patterns of the mux other than the OTLP endpoints and the catch-all are the argument \<open>gc_local\<close>; the
  matching of the regular expressions for personal data is the argument \<open>gc_rules\<close>, and the trace propagator
  of the proxy is \<open>gc_inject\<close>. CORS (\<open>src/shared/middleware/cors.go\<close>) stands first in the chain.
\<close>

section \<open>Personal data\<close>

definition Sanitize :: "(bytes \<Rightarrow> bytes) list \<Rightarrow> bytes \<Rightarrow> bytes" where
  "Sanitize rules body = (if body = [] then body else fold (\<lambda>replace_all b. replace_all b) rules body)"

text \<open>The body is \<open>None\<close> when reading it fails.\<close>

definition PIISanitizerMiddleware :: "(bytes \<Rightarrow> bytes) list \<Rightarrow> http_req \<Rightarrow> bytes option \<Rightarrow> bytes option" where
  "PIISanitizerMiddleware rules r body =
     (let isTelemetryRoute = (hr_Method r = ''POST'' \<and> hr_Path r = ''/api/v1/logs'');
          isCompressed = (hdr_Get (hr_Header r) ''Content-Encoding'' \<noteq> [])
      in if isTelemetryRoute \<and> \<not> isCompressed then map_option (Sanitize rules) body else body)"

section \<open>The reverse proxy\<close>

record ProxyRoute =
  rt_Prefix :: string
  rt_Upstream :: string
  rt_Rewrite :: "(string \<Rightarrow> string) option"

datatype proxied = ProxyTo string http_req | BadUpstream | NoRoute

text \<open>\<open>parse_url\<close> says whether \<open>url.Parse\<close> takes the configured upstream. A proxied request is what the
  \<open>Director\<close> makes of it, before the library's proxy drops the headers of one hop and adds
  \<open>X-Forwarded-For\<close>: the path is rewritten, the query and the method stay, the agent is set when the client
  sent none, and \<open>inject\<close> is the trace propagator writing the span of the request into the header.\<close>

definition Director :: "(headers \<Rightarrow> headers) \<Rightarrow> (string \<Rightarrow> string) option \<Rightarrow> http_req \<Rightarrow> http_req" where
  "Director inject rewrite r =
     (let r1 = (case rewrite of None \<Rightarrow> r | Some f \<Rightarrow> r\<lparr>hr_Path := f (hr_Path r)\<rparr>);
          r2 = (if map_of (hr_Header r1) ''User-Agent'' = None then with_header ''User-Agent'' ''PulseTrace-Gateway/1.0'' r1 else r1)
      in r2\<lparr>hr_Header := inject (hr_Header r2)\<rparr>)"

definition router_ServeHTTP :: "(string \<Rightarrow> bool) \<Rightarrow> (headers \<Rightarrow> headers) \<Rightarrow> ProxyRoute list \<Rightarrow> http_req \<Rightarrow> proxied" where
  "router_ServeHTTP parse_url inject routes r =
     (case find (\<lambda>rt. has_prefix (rt_Prefix rt) (hr_Path r)) routes of
        None \<Rightarrow> NoRoute
      | Some rt \<Rightarrow>
          if \<not> parse_url (rt_Upstream rt) then BadUpstream
          else ProxyTo (rt_Upstream rt) (Director inject (rt_Rewrite rt) r))"

definition plain_route :: "string \<Rightarrow> string \<Rightarrow> ProxyRoute" where
  "plain_route prefix upstream = \<lparr>rt_Prefix = prefix, rt_Upstream = upstream, rt_Rewrite = None\<rparr>"

definition strip_search :: "string \<Rightarrow> string" where
  "strip_search p = ''/api/v1'' @ (if has_prefix ''/api/v1/search'' p then drop (length ''/api/v1/search'') p else p)"

text \<open>The upstreams, by their configured addresses.\<close>

record upstreams =
  up_logs :: string
  up_alerts :: string
  up_correlation :: string
  up_topology :: string
  up_notification :: string
  up_action :: string
  up_pyroscope :: string
  up_quickwit :: string
  up_jaeger :: string

definition gateway_routes :: "upstreams \<Rightarrow> ProxyRoute list" where
  "gateway_routes u =
     [plain_route ''/api/v1/logs'' (up_logs u), plain_route ''/api/v1/alerts'' (up_alerts u), plain_route ''/api/v1/incidents'' (up_correlation u),
      plain_route ''/api/v1/slo'' (up_correlation u), plain_route ''/api/v1/anomaly'' (up_correlation u),
      plain_route ''/api/v1/notification-channels'' (up_notification u), plain_route ''/api/v1/remediation'' (up_correlation u),
      plain_route ''/api/v1/chat'' (up_correlation u), plain_route ''/api/v1/causal'' (up_correlation u), plain_route ''/api/v1/topology/'' (up_topology u),
      plain_route ''/api/v1/actions'' (up_action u), plain_route ''/api/v1/profiler/'' (up_pyroscope u),
      \<lparr>rt_Prefix = ''/api/v1/search/'', rt_Upstream = up_quickwit u, rt_Rewrite = Some strip_search\<rparr>,
      plain_route ''/api/traces'' (up_jaeger u), plain_route ''/api/services'' (up_jaeger u)]"

section \<open>The chain\<close>

text \<open>What one request meets: the environment of each stage.\<close>

record gateway_call =
  gc_auth :: auth_env
  gc_mw :: mw_call
  gc_clock :: clock
  gc_meter_ok :: bool
  gc_plan_row :: "string \<Rightarrow> string option"
  gc_split_host :: "string \<Rightarrow> string option"
  gc_limits :: "RateLimitRule list"
  gc_incr_ok :: bool
  gc_expire_ok :: bool
  gc_rules :: "(bytes \<Rightarrow> bytes) list"
  gc_cond :: "string \<Rightarrow> abac_attrs \<Rightarrow> bool option"
  gc_rbac :: rbac_env
  gc_rbac_db :: "rbac_db option"
  gc_otlp :: HTTPHandler
  gc_local :: "http_req \<Rightarrow> bool"
  gc_parse_url :: "string \<Rightarrow> bool"
  gc_inject :: "headers \<Rightarrow> headers"
  gc_upstreams :: upstreams

record gateway =
  gw_keys :: key_cache
  gw_sessions :: SessionStore
  gw_plans :: plan_cache
  gw_redis :: redis
  gw_rbac :: RBACEngine

datatype gw_outcome = Preflight | Rejected int | LimiterPanic | Exported otlp_signal "otlp_event list" otlp_reply
  | LocalHandler http_req "bytes option" | Upstream proxied "bytes option"

text \<open>The request as the access control reads it from the headers.\<close>

definition rbac_request :: "http_req \<Rightarrow> request" where
  "rbac_request r = \<lparr>rq_path = hr_Path r, rq_method = hr_Method r, rq_role = hdr_Get (hr_Header r) ''X-User-Role'',
     rq_tenant = hdr_Get (hr_Header r) ''X-Tenant-ID'', rq_tier = hdr_Get (hr_Header r) ''X-Tenant-Tier''\<rparr>"

definition otlp_route :: "http_req \<Rightarrow> otlp_signal option" where
  "otlp_route r =
     (if hr_Method r \<noteq> ''POST'' then None
      else if hr_Path r = ''/v1/traces'' then Some SigTraces
      else if hr_Path r = ''/v1/metrics'' then Some SigMetrics
      else if hr_Path r = ''/v1/logs'' then Some SigLogs else None)"

definition mux_serve :: "gateway_call \<Rightarrow> http_req \<Rightarrow> bytes option \<Rightarrow> gw_outcome" where
  "mux_serve G r body = (case otlp_route r of
     Some signal \<Rightarrow> (case otlp_Handler (gc_otlp G) signal r body of (evs, reply) \<Rightarrow> Exported signal evs reply)
   | None \<Rightarrow> if gc_local G r then LocalHandler r body
             else Upstream (router_ServeHTTP (gc_parse_url G) (gc_inject G) (gateway_routes (gc_upstreams G)) r) body)"

definition rbac_stage :: "gateway_call \<Rightarrow> http_req \<Rightarrow> bytes option \<Rightarrow> gateway \<Rightarrow> gw_outcome \<times> gateway" where
  "rbac_stage G r body s =
     (case rbac_Middleware (gc_cond G) (gc_rbac G) (gc_rbac_db G) (gw_rbac s) (rbac_request r) of (g, e) \<Rightarrow>
        (if g = Next then mux_serve G r body else Rejected 403, s\<lparr>gw_rbac := e\<rparr>))"

definition pii_stage :: "gateway_call \<Rightarrow> http_req \<Rightarrow> bytes option \<Rightarrow> gateway \<Rightarrow> gw_outcome \<times> gateway" where
  "pii_stage G r body s = rbac_stage G r (PIISanitizerMiddleware (gc_rules G) r body) s"

definition limit_stage :: "gateway_call \<Rightarrow> http_req \<Rightarrow> bytes option \<Rightarrow> gateway \<Rightarrow> gw_outcome \<times> gateway" where
  "limit_stage G r body s =
     (case RateLimit (gc_split_host G) (gc_limits G) (ck_now (gc_clock G)) (gc_incr_ok G) (gc_expire_ok G) r (gw_redis s) of (v, rd) \<Rightarrow>
        (case v of Passed \<Rightarrow> pii_stage G r body (s\<lparr>gw_redis := rd\<rparr>)
         | TooMany \<Rightarrow> (Rejected 429, s\<lparr>gw_redis := rd\<rparr>)
         | Crashed \<Rightarrow> (LimiterPanic, s\<lparr>gw_redis := rd\<rparr>)))"

definition quota_stage :: "gateway_call \<Rightarrow> http_req \<Rightarrow> bytes option \<Rightarrow> gateway \<Rightarrow> gw_outcome \<times> gateway" where
  "quota_stage G r body s =
     (case quota_Middleware (gc_clock G) (gc_meter_ok G) (gc_plan_row G) r (Some (gw_redis s)) (gw_plans s) of (ok, plans) \<Rightarrow>
        if ok then limit_stage G r body (s\<lparr>gw_plans := plans\<rparr>) else (Rejected 429, s\<lparr>gw_plans := plans\<rparr>))"

definition auth_stage :: "gateway_call \<Rightarrow> http_req \<Rightarrow> bytes option \<Rightarrow> gateway \<Rightarrow> gw_outcome \<times> gateway" where
  "auth_stage G r body s =
     (case AuthMiddleware (gc_auth G) (gc_mw G) r (gw_keys s, gw_sessions s) of (res, keys, sessions) \<Rightarrow>
        (let s1 = s\<lparr>gw_keys := keys, gw_sessions := sessions\<rparr>
         in case res of Deny code msg \<Rightarrow> (Rejected code, s1) | Forward r1 \<Rightarrow> quota_stage G r1 body s1))"

text \<open>\<open>CORS\<close> answers a preflight request itself, with 204. The stages for tracing and logging between it and
  the authentication pass every request on unchanged.\<close>

definition CORS :: "(http_req \<Rightarrow> bytes option \<Rightarrow> gateway \<Rightarrow> gw_outcome \<times> gateway) \<Rightarrow> http_req \<Rightarrow> bytes option \<Rightarrow> gateway \<Rightarrow> gw_outcome \<times> gateway" where
  "CORS nxt r body s = (if hr_Method r = ''OPTIONS'' then (Preflight, s) else nxt r body s)"

definition gateway_serve :: "gateway_call \<Rightarrow> http_req \<Rightarrow> bytes option \<Rightarrow> gateway \<Rightarrow> gw_outcome \<times> gateway" where
  "gateway_serve G r body s = CORS (auth_stage G) r body s"

section \<open>Lemmas\<close>

definition served :: "gw_outcome \<Rightarrow> bool" where
  "served out \<longleftrightarrow> (\<forall>code. out \<noteq> Rejected code) \<and> out \<noteq> LimiterPanic \<and> out \<noteq> Preflight"

text \<open>A request that gets through the chain, stage by stage.\<close>

lemma served_stages:
  assumes "gateway_serve G r body s = (out, s')" "served out"
  obtains r1 keys sessions plans rd where
    "AuthMiddleware (gc_auth G) (gc_mw G) r (gw_keys s, gw_sessions s) = (Forward r1, keys, sessions)"
    "quota_Middleware (gc_clock G) (gc_meter_ok G) (gc_plan_row G) r1 (Some (gw_redis s)) (gw_plans s) = (True, plans)"
    "RateLimit (gc_split_host G) (gc_limits G) (ck_now (gc_clock G)) (gc_incr_ok G) (gc_expire_ok G) r1 (gw_redis s) = (Passed, rd)"
    "fst (rbac_Middleware (gc_cond G) (gc_rbac G) (gc_rbac_db G) (gw_rbac s) (rbac_request r1)) = Next"
    "out = mux_serve G r1 (PIISanitizerMiddleware (gc_rules G) r1 body)"
  using assms
  by (auto simp: gateway_serve_def CORS_def auth_stage_def quota_stage_def limit_stage_def pii_stage_def rbac_stage_def served_def Let_def
      split: prod.splits mw_result.splits limit_verdict.splits if_splits)

lemma rbac_next:
  assumes "fst (rbac_Middleware cond E db e rq) = Next" "rq_role rq \<noteq> []"
    and "resourceTypeAndAction (rq_path rq) (rq_method rq) = (resource, action)"
  shows "\<exists>e1. HasPermission E db e (rq_role rq) resource (if action = ''read'' then ''read'' else ''write'') = (True, e1) \<and>
    fst (fst (EvaluateABAC cond E db e1 \<lparr>aa_role = rq_role rq, aa_tenant = rq_tenant rq, aa_tier = rq_tier rq, aa_resource = resource, aa_action = action\<rparr>))"
  using assms by (auto simp: rbac_Middleware_def Let_def split: prod.splits if_splits)

definition or_default :: "string \<Rightarrow> string \<Rightarrow> string" where
  "or_default d t = (if t = [] then d else t)"

text \<open>A tenant within its monthly quota, and a caller within the limit of its window: what the counters say,
  when Redis answers. Requests that ingest nothing have no quota, and a limit of zero is no limit.\<close>

definition within_quota :: "gateway_call \<Rightarrow> gateway \<Rightarrow> http_req \<Rightarrow> bool" where
  "within_quota G s r = (case ingestSignal r of None \<Rightarrow> True | Some signal \<Rightarrow>
     (let ck = gc_clock G; t = or_default ''default'' (hdr_Get (hr_Header r) ''X-Tenant-ID'');
          limit = forSignal (limitsForPlan (fst (planFor (ck_now ck) (gc_plan_row G t) t (gw_plans s)))) signal;
          used = (case rd_get (ck_now ck) (monthKey t (ck_month ck) signal) (gw_redis s) of None \<Rightarrow> 0 | Some n \<Rightarrow> n)
      in limit = 0 \<or> \<not> gc_meter_ok G \<or> used < limit))"

definition within_rate :: "gateway_call \<Rightarrow> gateway \<Rightarrow> http_req \<Rightarrow> bool" where
  "within_rate G s r =
     (let now = ck_now (gc_clock G); rule = effective_rule (gc_limits G) r
      in case windowBucket now (rl_Window rule) of None \<Rightarrow> False
         | Some bucket \<Rightarrow>
             (let used = (case rd_get now (limiter_key (identify (gc_split_host G) r) rule bucket) (gw_redis s) of None \<Rightarrow> 0 | Some n \<Rightarrow> n)
              in \<not> gc_incr_ok G \<or> used < rl_Limit rule))"

lemma quota_admits:
  assumes "quota_Middleware (gc_clock G) (gc_meter_ok G) (gc_plan_row G) r (Some (gw_redis s)) (gw_plans s) = (True, plans)"
  shows "within_quota G s r"
  using assms
  by (auto simp: quota_Middleware_def within_quota_def Allow_def MonthlyUsage_def or_default_def Let_def
      split: option.splits prod.splits if_splits)

lemma limiter_passes:
  assumes "RateLimit (gc_split_host G) (gc_limits G) (ck_now (gc_clock G)) (gc_incr_ok G) e_ok r (gw_redis s) = (Passed, rd)"
  shows "within_rate G s r"
  using assms
  by (auto simp: RateLimit_def within_rate_def Let_def rd_incrby_def rd_get_def split: option.splits if_splits)

text \<open>The export that a request carries, and what the OTLP endpoint hands on of it for a tenant.\<close>

definition sent_json :: "http_req \<Rightarrow> bool" where
  "sent_json r = contains ''json'' (hdr_Get (hr_Header r) ''Content-Type'')"

definition sent_export :: "HTTPHandler \<Rightarrow> otlp_signal \<Rightarrow> http_req \<Rightarrow> bytes option \<Rightarrow> payload option" where
  "sent_export h signal r body = Option.bind (otlp_readBody h r body) (oh_decode h signal (sent_json r))"

definition http_event_ok :: "HTTPHandler \<Rightarrow> payload option \<Rightarrow> bool \<Rightarrow> string \<Rightarrow> string \<Rightarrow> otlp_event \<Rightarrow> bool" where
  "http_event_ok h sent isJSON t tier ev = (case ev of
      Metered u name n \<Rightarrow> u = t
    | PostCollector url ctype b \<Rightarrow> (\<exists>p p'. sent = Some p \<and> attributed t tier p p' \<and> oh_encode h isJSON p' = Some b)
    | ToSink u tr p' \<Rightarrow> u = t \<and> tr = tier \<and> (\<exists>p. sent = Some p \<and> attributed t tier p p')
    | ToCollector out p' \<Rightarrow> False)"

lemma sent_export_same:
  assumes "same_otherwise r r1"
  shows "sent_export h signal r1 body = sent_export h signal r body" "sent_json r1 = sent_json r"
proof -
  have "canonical ''Content-Type'' \<notin> canonical ` set identity_headers" "canonical ''Content-Encoding'' \<notin> canonical ` set identity_headers"
    by code_simp+
  then have "hdr_Get (hr_Header r1) ''Content-Type'' = hdr_Get (hr_Header r) ''Content-Type''"
    "hdr_Get (hr_Header r1) ''Content-Encoding'' = hdr_Get (hr_Header r) ''Content-Encoding''"
    using assms by (simp_all add: same_otherwise_def)
  then show "sent_export h signal r1 body = sent_export h signal r body" "sent_json r1 = sent_json r"
    unfolding sent_export_def sent_json_def otlp_readBody_def by (simp_all only:)
qed

lemma otlp_Handler_events:
  assumes "otlp_Handler h signal r body = (evs, reply)" "ev \<in> set evs"
  shows "http_event_ok h (sent_export h signal r body) (sent_json r) (or_default defaultTenantID (hdr_Get (hr_Header r) ''X-Tenant-ID''))
    (or_default defaultTenantTier (hdr_Get (hr_Header r) ''X-Tenant-Tier'')) ev"
proof -
  let ?t = "or_default defaultTenantID (hdr_Get (hr_Header r) ''X-Tenant-ID'')"
  let ?tier = "or_default defaultTenantTier (hdr_Get (hr_Header r) ''X-Tenant-Tier'')"
  obtain raw where raw: "otlp_readBody h r body = Some raw" using assms by (cases "otlp_readBody h r body") (auto simp: otlp_Handler_def Let_def)
  let ?ok = "http_event_ok h (oh_decode h signal (sent_json r) raw) (sent_json r) ?t ?tier ev"
  have sink: ?ok if "ev \<in> set (fst (logsToSink h sink ?t ?tier raw (sent_json r)))" "signal = SigLogs" for sink
    using that attributed_stamp [of ?t ?tier] by (fastforce simp: logsToSink_def Let_def http_event_ok_def split: option.splits if_splits)
  have post: ?ok if sp: "stampPayload h signal raw (sent_json r) ?t ?tier = Some (b, n)" and fw: "ev \<in> set (fst (otlp_forward h signal b ct))" for b n ct
  proof -
    obtain p where p: "oh_decode h signal (sent_json r) raw = Some p" "oh_encode h (sent_json r) (stamp_payload ?t ?tier p) = Some b"
      using sp by (auto simp: stampPayload_def Let_def map_option_eq_Some split: option.splits)
    have "\<exists>url. ev = PostCollector url ct b" using fw by (auto simp: otlp_forward_def Let_def split: if_splits)
    moreover have "\<exists>q p'. oh_decode h signal (sent_json r) raw = Some q \<and> attributed ?t ?tier q p' \<and> oh_encode h (sent_json r) p' = Some b"
      using p attributed_stamp by blast
    ultimately show ?thesis unfolding http_event_ok_def by (elim exE) (simp only: otlp_event.case, blast)
  qed
  have metered: "http_event_ok h q j ?t ?tier (Metered ?t name n)" for q j name n by (simp add: http_event_ok_def)
  have ?ok
    using assms sink post metered raw unfolding otlp_Handler_def Let_def or_default_def [symmetric] sent_json_def [symmetric]
    by (auto split: option.splits if_splits prod.splits) (metis fst_conv)+
  then show ?thesis by (simp add: sent_export_def raw)
qed

text \<open>What OpenTelemetry documents of the propagator the gateway installs, trace context and baggage: it sets
  their headers and no others.\<close>

definition trace_headers :: "string list" where
  "trace_headers = [''traceparent'', ''tracestate'', ''baggage'']"

definition propagator_ok :: "(headers \<Rightarrow> headers) \<Rightarrow> bool" where
  "propagator_ok inject \<longleftrightarrow> (\<forall>hs k. canonical k \<notin> canonical ` set trace_headers \<longrightarrow> hdr_Get (inject hs) k = hdr_Get hs k)"

lemma Director_parts:
  "hr_Path (Director inject rewrite r) = (case rewrite of None \<Rightarrow> hr_Path r | Some f \<Rightarrow> f (hr_Path r))"
  "hr_RawQuery (Director inject rewrite r) = hr_RawQuery r" "hr_Method (Director inject rewrite r) = hr_Method r"
  by (simp_all add: Director_def Let_def split: option.split)

lemma Director_header:
  assumes "propagator_ok inject" "canonical k \<notin> canonical ` set (''User-Agent'' # trace_headers)"
  shows "hdr_Get (hr_Header (Director inject rewrite r)) k = hdr_Get (hr_Header r) k"
  using assms by (auto simp: Director_def Let_def propagator_ok_def Get_with_header split: option.split)

text \<open>A gateway with one signed-in caller and no keys, for the concrete instances of the properties.\<close>

definition sample_call :: gateway_call where
  "sample_call = \<lparr>gc_auth = demo_env [(''sub'', CStr ''eve''), (''tenant_id'', CStr ''acme''), (''exp'', CNum 100)],
     gc_mw = (demo_mw 0)\<lparr>mc_require := False\<rparr>, gc_clock = \<lparr>ck_now = 0, ck_day = ''d'', ck_month = ''m''\<rparr>, gc_meter_ok = True,
     gc_plan_row = (\<lambda>_. None), gc_split_host = Some, gc_limits = [], gc_incr_ok = True, gc_expire_ok = True, gc_rules = [],
     gc_cond = (\<lambda>_ _. None), gc_rbac = sample_rbac_env, gc_rbac_db = Some sample_rbac_db,
     gc_otlp = \<lparr>oh_upstreamBase = ''http://c:4318/'', oh_record = True, oh_logSink = None,
       oh_decode = (\<lambda>_ _ b. if b = [1] then Some (Traces spoofed_request) else None), oh_encode = (\<lambda>_ p. Some [2]),
       oh_gunzip = (\<lambda>_. None), oh_url_ok = (\<lambda>_. True), oh_post = (\<lambda>_ _ _. Some 200)\<rparr>,
     gc_local = (\<lambda>_. False), gc_parse_url = (\<lambda>_. True), gc_inject = hdr_Set ''traceparent'' ''00-0af7-b7ad-01'',
     gc_upstreams = \<lparr>up_logs = ''l'', up_alerts = ''a'', up_correlation = ''c'', up_topology = ''t'', up_notification = ''n'', up_action = ''x'',
       up_pyroscope = ''p'', up_quickwit = ''http://quickwit:7280'', up_jaeger = ''j''\<rparr>\<rparr>"

definition sample_gateway :: gateway where
  "sample_gateway = \<lparr>gw_keys = [], gw_sessions = NewSessionStore None 0, gw_plans = [], gw_redis = [],
     gw_rbac = NewRBACEngine sample_rbac_env (Some sample_rbac_db)\<rparr>"

definition search_req :: http_req where
  "search_req = (demo_req ''GET'' ''/api/v1/search/pulsetrace-logs/search'' [(''Authorization'', ''Bearer tok'')])\<lparr>hr_RawQuery := ''query=tenant_id:rival''\<rparr>"

definition traces_req :: http_req where
  "traces_req = demo_req ''POST'' ''/v1/traces'' [(''X-Tenant-Id'', ''victim'')]"

lemma sample_propagator: "propagator_ok (gc_inject sample_call)"
proof -
  have "hdr_Get (hdr_Set ''traceparent'' v hs) k = hdr_Get hs k" if "canonical k \<noteq> canonical ''traceparent''" for v hs k
    using that by (simp add: Get_Set)
  then show ?thesis by (simp add: propagator_ok_def sample_call_def trace_headers_def)
qed

section \<open>Properties\<close>

text \<open>C16: Only checked requests are served. A request that a handler, the OTLP endpoint or an upstream sees
  has come through every stage: its identity headers are the verified ones whatever the client sent, and
  the rest of its header, its path, query and method are as they came; when it ingests telemetry, its
  tenant's counter for the month lies below the limit of its plan, if the plan has one and Redis could be
  read; its caller's counter for the window lies below the limit of the rule for the path, if Redis could
  be written; and when it carries a role, that role has the permission for the resource and no policy
  denies the action. Requests that ingest nothing have no quota, and both counters admit when Redis fails.\<close>

theorem served_requests_are_checked:
  assumes "gateway_serve G r body s = (out, s')" "served out"
  shows "\<exists>r1. verified (gc_auth G) (gc_mw G) r (gw_keys s) (gw_sessions s) (identity_of r1) \<and> same_otherwise r r1 \<and>
    out = mux_serve G r1 (PIISanitizerMiddleware (gc_rules G) r1 body) \<and> within_quota G s r1 \<and> within_rate G s r1 \<and>
    (\<forall>resource action. hdr_Get (hr_Header r1) ''X-User-Role'' \<noteq> [] \<longrightarrow>
       resourceTypeAndAction (hr_Path r) (hr_Method r) = (resource, action) \<longrightarrow>
       (\<exists>e1. HasPermission (gc_rbac G) (gc_rbac_db G) (gw_rbac s) (hdr_Get (hr_Header r1) ''X-User-Role'') resource
               (if action = ''read'' then ''read'' else ''write'') = (True, e1) \<and>
          fst (fst (EvaluateABAC (gc_cond G) (gc_rbac G) (gc_rbac_db G) e1
            \<lparr>aa_role = hdr_Get (hr_Header r1) ''X-User-Role'', aa_tenant = hdr_Get (hr_Header r1) ''X-Tenant-ID'',
             aa_tier = hdr_Get (hr_Header r1) ''X-Tenant-Tier'', aa_resource = resource, aa_action = action\<rparr>))))"
proof -
  obtain r1 keys sessions plans rd where st:
    "AuthMiddleware (gc_auth G) (gc_mw G) r (gw_keys s, gw_sessions s) = (Forward r1, keys, sessions)"
    "quota_Middleware (gc_clock G) (gc_meter_ok G) (gc_plan_row G) r1 (Some (gw_redis s)) (gw_plans s) = (True, plans)"
    "RateLimit (gc_split_host G) (gc_limits G) (ck_now (gc_clock G)) (gc_incr_ok G) (gc_expire_ok G) r1 (gw_redis s) = (Passed, rd)"
    "fst (rbac_Middleware (gc_cond G) (gc_rbac G) (gc_rbac_db G) (gw_rbac s) (rbac_request r1)) = Next"
    "out = mux_serve G r1 (PIISanitizerMiddleware (gc_rules G) r1 body)"
    using assms by (rule served_stages)
  note v = forwarded_verified [OF st(1)]
  then have "hr_Path r1 = hr_Path r" "hr_Method r1 = hr_Method r" by (simp_all add: same_otherwise_def)
  then show ?thesis using v st(5) quota_admits [OF st(2)] limiter_passes [OF st(3)] rbac_next [OF st(4)]
    by (intro exI [of _ r1]) (auto simp: rbac_request_def)
qed

theorem served_requests_are_checked_witness:
  "\<exists>r1. verified (gc_auth sample_call) (gc_mw sample_call) search_req [] (NewSessionStore None 0) (identity_of r1) \<and>
     hdr_Get (hr_Header r1) ''Authorization'' = ''Bearer tok'' \<and> within_rate sample_call sample_gateway r1"
proof -
  obtain out s' where run: "gateway_serve sample_call search_req None sample_gateway = (out, s')" by force
  have "case fst (gateway_serve sample_call search_req None sample_gateway) of Upstream _ _ \<Rightarrow> True | _ \<Rightarrow> False" by code_simp
  then have "served out" using run by (simp add: served_def split: gw_outcome.splits)
  moreover have "hdr_Get (hr_Header search_req) ''Authorization'' = ''Bearer tok''" by code_simp
  moreover have "canonical ''Authorization'' \<notin> canonical ` set identity_headers" by code_simp
  ultimately show ?thesis
    using served_requests_are_checked [OF run] by (auto simp: same_otherwise_def sample_gateway_def)
qed

text \<open>C15: Telemetry over HTTP belongs to its key. What the OTLP endpoint hands to the collector or to the log
  sink, for a request that came through the chain, is the export decoded from the request's own body, attributed to
  one tenant: the tenant of the ingestion key of the request, which has the scope of server telemetry, or the default
  tenant when the request has no valid key and none is required. The tenant headers and the tenant
  attributes the client sent have no influence.\<close>

theorem http_telemetry_belongs_to_its_key:
  assumes "gateway_serve G r body s = (Exported signal evs reply, s')"
  shows "\<exists>t tier. (\<forall>ev \<in> set evs. http_event_ok (gc_otlp G) (sent_export (gc_otlp G) signal r body) (sent_json r)
      (or_default defaultTenantID t) (or_default defaultTenantTier tier) ev) \<and>
    (fst (resolve_bearer (gc_mw G) r (gw_keys s)) = Some (t, tier, ScopeIngest) \<or>
     fst (resolve_bearer (gc_mw G) r (gw_keys s)) = None \<and> \<not> mc_require (gc_mw G) \<and> (t, tier) = (defaultTenantID, defaultTenantTier))"
proof -
  have "served (Exported signal evs reply)" by (simp add: served_def)
  then obtain r1 keys sessions where st:
    "AuthMiddleware (gc_auth G) (gc_mw G) r (gw_keys s, gw_sessions s) = (Forward r1, keys, sessions)"
    "Exported signal evs reply = mux_serve G r1 (PIISanitizerMiddleware (gc_rules G) r1 body)"
    using assms by (auto elim: served_stages)
  from st(2) have route: "otlp_route r1 = Some signal"
    and "otlp_Handler (gc_otlp G) signal r1 (PIISanitizerMiddleware (gc_rules G) r1 body) = (evs, reply)"
    by (auto simp: mux_serve_def split: option.splits prod.splits if_splits)
  moreover have "PIISanitizerMiddleware (gc_rules G) r1 body = body"
    using route by (auto simp: PIISanitizerMiddleware_def otlp_route_def split: if_splits)
  ultimately have h: "otlp_Handler (gc_otlp G) signal r1 body = (evs, reply)" by simp
  note v = forwarded_verified [OF st(1)]
  have path: "hr_Path r \<in> {''/v1/traces'', ''/v1/metrics'', ''/v1/logs''}"
    using route v by (auto simp: otlp_route_def same_otherwise_def split: if_splits)
  then have kind: "isServerIngest r" "\<not> isAgentConfig r"
    by (auto simp: isServerIngest_def isOTLPHTTP_def isAgentConfig_def has_prefix_def)
  obtain res keys1 where rb: "resolve_bearer (gc_mw G) r (gw_keys s) = (res, keys1)" by force
  define t where "t = hdr_Get (hr_Header r1) ''X-Tenant-ID''"
  define tier where "tier = hdr_Get (hr_Header r1) ''X-Tenant-Tier''"
  have "case res of Some (t', tier', scope) \<Rightarrow> scope = ScopeIngest \<and> r1 = with_tenant t' tier' (strip_identity r)
      | None \<Rightarrow> \<not> mc_require (gc_mw G) \<and> r1 = with_tenant defaultTenantID defaultTenantTier (strip_identity r)"
    using st(1) kind rb by (auto simp: AuthMiddleware_def Let_def split: option.splits if_splits)
  then have "res = Some (t, tier, ScopeIngest) \<or> res = None \<and> \<not> mc_require (gc_mw G) \<and> (t, tier) = (defaultTenantID, defaultTenantTier)"
    by (auto simp: t_def tier_def with_tenant_def Get_with_header split: option.splits)
  moreover have "\<forall>ev \<in> set evs. http_event_ok (gc_otlp G) (sent_export (gc_otlp G) signal r body) (sent_json r)
      (or_default defaultTenantID t) (or_default defaultTenantTier tier) ev"
    using otlp_Handler_events [OF h] v sent_export_same [of r r1] by (simp add: t_def tier_def)
  ultimately show ?thesis using rb by auto
qed

theorem http_telemetry_belongs_to_its_key_witness:
  "\<exists>evs reply s'. gateway_serve sample_call traces_req (Some [1]) sample_gateway = (Exported SigTraces evs reply, s') \<and> evs \<noteq> [] \<and>
     (\<forall>ev \<in> set evs. http_event_ok (gc_otlp sample_call) (Some (Traces spoofed_request)) False ''default'' ''standard'' ev)"
proof -
  obtain out s' where run: "gateway_serve sample_call traces_req (Some [1]) sample_gateway = (out, s')" by force
  have "case fst (gateway_serve sample_call traces_req (Some [1]) sample_gateway) of Exported g evs _ \<Rightarrow> g = SigTraces \<and> evs \<noteq> [] | _ \<Rightarrow> False"
    by code_simp
  then obtain evs reply where out: "out = Exported SigTraces evs reply" "evs \<noteq> []" using run by (auto split: gw_outcome.splits)
  have e: "sent_export (gc_otlp sample_call) SigTraces traces_req (Some [1]) = Some (Traces spoofed_request)" "\<not> sent_json traces_req"
    by code_simp+
  have "fst (resolve_bearer (gc_mw sample_call) traces_req (gw_keys sample_gateway)) = None" by code_simp
  then have "\<forall>ev \<in> set evs. http_event_ok (gc_otlp sample_call) (Some (Traces spoofed_request)) False ''default'' ''standard'' ev"
    using http_telemetry_belongs_to_its_key [OF run [unfolded out(1)]]
    by (auto simp: or_default_def defaultTenantID_def defaultTenantTier_def e)
  then show ?thesis using run out by blast
qed

text \<open>C40: The search route is not confined to a tenant. Every request under the search prefix that gets through
  the chain and has no handler of its own is proxied to Quickwit with the path that names the index and
  the endpoint and with the client's own query, body and method, whichever tenant the request is for. Of
  the header the \<open>Director\<close> changes only the identity headers, the agent and those of the trace propagator,
  so the filter on the tenant is the client's to send.\<close>

theorem search_route_ignores_tenant:
  assumes "gateway_serve G r body s = (out, s')" "served out" "\<not> gc_local G r1"
    and "hr_Path r = ''/api/v1/search/'' @ rest" "gc_parse_url G (up_quickwit (gc_upstreams G))"
    and "fst (AuthMiddleware (gc_auth G) (gc_mw G) r (gw_keys s, gw_sessions s)) = Forward r1"
    and "propagator_ok (gc_inject G)"
  shows "\<exists>r2. out = Upstream (ProxyTo (up_quickwit (gc_upstreams G)) r2) body \<and> hr_Path r2 = ''/api/v1/'' @ rest \<and>
    hr_RawQuery r2 = hr_RawQuery r \<and> hr_Method r2 = hr_Method r \<and>
    (\<forall>k. canonical k \<notin> canonical ` set (''User-Agent'' # trace_headers @ identity_headers) \<longrightarrow> hdr_Get (hr_Header r2) k = hdr_Get (hr_Header r) k)"
proof -
  obtain keys sessions where a: "AuthMiddleware (gc_auth G) (gc_mw G) r (gw_keys s, gw_sessions s) = (Forward r1, keys, sessions)"
    using assms(6) by (metis prod.collapse)
  from served_stages [OF assms(1,2)] a
  have out: "out = mux_serve G r1 (PIISanitizerMiddleware (gc_rules G) r1 body)" by (metis Pair_inject mw_result.inject(2))
  have same: "same_otherwise r r1" using forwarded_verified [OF a] by blast
  then have path: "hr_Path r1 = ''/api/v1/search/'' @ rest" using assms(4) by (simp add: same_otherwise_def)
  have "PIISanitizerMiddleware (gc_rules G) r1 body = body" "otlp_route r1 = None"
    by (simp_all add: PIISanitizerMiddleware_def otlp_route_def path)
  moreover have "find (\<lambda>rt. has_prefix (rt_Prefix rt) (hr_Path r1)) (gateway_routes (gc_upstreams G)) =
      Some \<lparr>rt_Prefix = ''/api/v1/search/'', rt_Upstream = up_quickwit (gc_upstreams G), rt_Rewrite = Some strip_search\<rparr>"
    by (simp add: gateway_routes_def plain_route_def path has_prefix_def)
  ultimately have "out = Upstream (ProxyTo (up_quickwit (gc_upstreams G)) (Director (gc_inject G) (Some strip_search) r1)) body"
    using assms(3,5) unfolding out by (simp add: mux_serve_def router_ServeHTTP_def)
  moreover have "strip_search (hr_Path r1) = ''/api/v1/'' @ rest" by (simp add: strip_search_def path has_prefix_def)
  moreover have "hdr_Get (hr_Header (Director (gc_inject G) (Some strip_search) r1)) k = hdr_Get (hr_Header r) k"
    if "canonical k \<notin> canonical ` set (''User-Agent'' # trace_headers @ identity_headers)" for k
    using that same Director_header [OF assms(7), of k "Some strip_search" r1] by (simp add: same_otherwise_def image_Un)
  ultimately show ?thesis using same by (intro exI [of _ "Director (gc_inject G) (Some strip_search) r1"]) (simp add: Director_parts same_otherwise_def)
qed

theorem search_route_ignores_tenant_witness:
  "\<exists>r2. fst (gateway_serve sample_call search_req None sample_gateway) = Upstream (ProxyTo ''http://quickwit:7280'' r2) None \<and>
     hr_Path r2 = ''/api/v1/pulsetrace-logs/search'' \<and> hr_RawQuery r2 = ''query=tenant_id:rival''"
proof -
  obtain out s' where run: "gateway_serve sample_call search_req None sample_gateway = (out, s')" by force
  have "case fst (gateway_serve sample_call search_req None sample_gateway) of Upstream _ _ \<Rightarrow> True | _ \<Rightarrow> False" by code_simp
  then have served: "served out" using run by (simp add: served_def split: gw_outcome.splits)
  have "case fst (AuthMiddleware (gc_auth sample_call) (gc_mw sample_call) search_req (gw_keys sample_gateway, gw_sessions sample_gateway)) of
      Forward _ \<Rightarrow> True | Deny _ _ \<Rightarrow> False" by code_simp
  then obtain r1 where r1: "fst (AuthMiddleware (gc_auth sample_call) (gc_mw sample_call) search_req (gw_keys sample_gateway, gw_sessions sample_gateway)) = Forward r1"
    by (auto split: mw_result.splits)
  have p: "hr_Path search_req = ''/api/v1/search/'' @ ''pulsetrace-logs/search''" "hr_RawQuery search_req = ''query=tenant_id:rival''" by code_simp+
  have "\<exists>r2. out = Upstream (ProxyTo (up_quickwit (gc_upstreams sample_call)) r2) None \<and> hr_Path r2 = ''/api/v1/'' @ ''pulsetrace-logs/search'' \<and>
      hr_RawQuery r2 = hr_RawQuery search_req \<and> hr_Method r2 = hr_Method search_req \<and>
      (\<forall>k. canonical k \<notin> canonical ` set (''User-Agent'' # trace_headers @ identity_headers) \<longrightarrow> hdr_Get (hr_Header r2) k = hdr_Get (hr_Header search_req) k)"
    by (rule search_route_ignores_tenant [OF run served _ p(1) _ r1 sample_propagator]) (simp_all add: sample_call_def)
  then show ?thesis using run p by (auto simp: sample_call_def)
qed

end
