(* ===== verification/Spec2Isabelle.thy ===== *)
theory Spec2Isabelle
  imports Bus Db_Sql Rbac Correlator Sql_Engine Enterprise_Identity Usage Error_Tracking Notifications Topology_Service Billing K8s_Operator Gateway
begin

text \<open>
  A verification library for PulseTrace, an observability platform of Go services under \<open>src/\<close>: a gateway
  that authenticates, limits and routes every request and takes telemetry in; services that turn logs into
  alerts, correlate alerts into incidents, find a cause and act on it, keep the service topology and notify
  people; and the shared packages below them, of which the message log is the largest. This theory imports the
  library and holds no definitions of its own.

  \<^bold>\<open>How the parts interact.\<close> Every HTTP request passes the chain of \<open>gateway-service/cmd/main.go\<close>: it is
  given a verified identity, checked against quota, rate limit, roles and policies, and then reaches a handler
  of the gateway, the OTLP endpoint, or, through the reverse proxy, another service. Services exchange messages
  over the transport of \<open>shared/bus\<close>: the alert service reads logs and writes alerts, the correlation engine
  reads alerts, writes incidents and routes playbooks, the notification service reads both. A playbook is a
  signed request to an agent, or an action for the Kubernetes operator.

  \<^bold>\<open>Conventions.\<close> A struct is a record, an enumeration a datatype, a map an association list, a table the list
  of its rows; a string is a list of bytes as characters; \<open>int64\<close> values are integers in range where a proof does
  not depend on overflow and words where it does (records, offsets, checksums, replica counts). An error is the
  left of a sum or an option. What a call meets from outside is an argument: \<open>ok k\<close> says whether the \<open>k\<close>-th call
  to a store succeeds, and hashes, ciphers, token parsers, JSON of foreign messages, SQL and regular expression
  engines, language models, HTTP clients and the clock are functions. What a theorem needs of such a function is a
  named hypothesis that its witness discharges for a concrete one. Loops are structural recursion over what they
  consume, or \<open>function\<close> with a measure; a loop that waits (\<open>AppendWithBackpressure\<close>, \<open>reader_Run\<close>) recurses
  over the list of rounds its environment grants, and that it returns is a theorem of its own.

  \<^bold>\<open>Shared vocabulary.\<close> \<open>Prelude\<close>: bytes, little-endian integers, decimal numbers, stable sorting, with round
  trips. \<open>Go_Strings\<close>, \<open>Go_Time\<close>, \<open>Go_Float\<close>, \<open>Go_Json\<close>: what the sources use of \<open>strings\<close>, \<open>time\<close>,
  \<open>float64\<close> with its rounding, and \<open>encoding/json\<close> (UTF-8 and the round trip of string lists and maps).

  \<^bold>\<open>The message log\<close>, \<open>src/shared/bus\<close>. \<open>Crc32c\<close> and \<open>Wal_Record\<close> (\<open>record.go\<close>): the checksum and the codec,
  which round-trips. \<open>Wal_Segment\<close> (\<open>segment.go\<close>): a segment file, torn and damaged tails; recovery keeps a prefix.
  \<open>Wal_Log\<close> (\<open>log.go\<close>): opening, appending, rotating, reading, reclaiming and waiting for space; the locale
  \<open>offset_log\<close> is the abstract log that \<open>log_Append\<close> refines. \<open>Wal_Group\<close> (\<open>group.go\<close>): committed positions, the
  locale \<open>commit_position\<close>. \<open>Wal_Reader\<close> (\<open>reader.go\<close>): delivery at least once and in order. \<open>Bus\<close>
  (\<open>inprocess.go\<close>): publish and subscribe over the log, end to end.

  \<^bold>\<open>Databases.\<close> \<open>Db_Sql\<close> (\<open>shared/db\<close>): splitting SQL text into code and literals and rewriting placeholders.
  \<open>Sql_Policy\<close> and \<open>Sql_Engine\<close> (\<open>gateway-service/internal/sqlq\<close>): which user-written statements are accepted, and
  their evaluation over scanners that confine every statement to the tenant; the parsed statement is the input.

  \<^bold>\<open>Identity\<close>, \<open>gateway-service/internal/auth\<close>. \<open>Audit_Chain\<close>: the hash chain of audit events; changing a row
  needs a collision. \<open>Rbac\<close>: roles, policies and their administration. \<open>Totp\<close>, \<open>Sessions\<close>, \<open>Ingestion_Keys\<close>: one-time
  passwords, revocation, keys with their cache. \<open>Auth\<close>: tokens, sign-in with a second factor, and the middleware
  with the inductive relation \<open>verified\<close>. \<open>Accounts\<close>: users, tenants, passwords, single sign-on, and over all
  their handlers what authorises a change of an account.
  \<open>Enterprise_Identity\<close>: SCIM and SAML. \<open>Usage\<close>: metering, quotas and rate limits. \<open>Billing\<close>: providers, catalog
  and the webhook, which converges under retries.

  \<^bold>\<open>Gateway.\<close> \<open>Otlp\<close> (\<open>internal/otlp\<close>, \<open>internal/ingestproxy/proxy.go\<close>): telemetry stamped with the tenant of its
  key. \<open>Gateway\<close> (\<open>cmd/main.go\<close>, \<open>internal/pii\<close>, \<open>internal/proxy\<close>): the chain from CORS to the mux and the routes,
  with the query passed through and the trace propagator an argument; its theorems compose the stages of the
  theories above. Quota and rate limit admit when Redis fails, and the theorems say so. \<open>Error_Tracking\<close>: error groups, triage and the regression scan.

  \<^bold>\<open>Incidents.\<close> \<open>Alerts\<close> (\<open>alert-service\<close>): logs to alerts, grouping, silences, composed with the correlation
  engine. \<open>Correlator\<close> (\<open>correlation-service\<close>): windows, incidents and their tables. \<open>Causal\<close> and \<open>Fallback\<close>
  (\<open>shared/causal\<close>): the causal chain, with the locale \<open>slice_sort\<close> for what \<open>sort.Slice\<close> promises, and failover
  between analyzers. \<open>Remediation\<close> and \<open>Playbooks\<close>: policy, approval, signing and the agent. \<open>K8s_Operator\<close>
  (\<open>action-service\<close>): the actions on a cluster, with the locale \<open>revision_sort\<close>. \<open>Notifications\<close>: channels, their
  encrypted secrets and delivery.

  \<^bold>\<open>Topology.\<close> \<open>Topology_Graph\<close> (\<open>shared/graph\<close>): the store port as the locale \<open>graph_store\<close>, interpreted on the SQL
  store with its transactions and on the Neo4j store statement by statement; the two agree. \<open>Topology_Service\<close>: the
  repository with its cache, metrics and span buffer (cached keys may expire, the others are kept; the pattern
  matching of Redis is an argument), the locale \<open>atomic_store\<close> that extends the port, the handlers and the graph
  builder. The theorem on the cache is about operations that do not overlap.

  \<^bold>\<open>Properties.\<close> Each component has its invariant or its functional contract, the behaviour of its error
  paths, and where the code deviates from what it says, a theorem that shows the deviation on every input that
  triggers it. The properties that span components are in \<open>Bus\<close> (log and delivery), \<open>Playbooks\<close> (decision to
  execution), \<open>Alerts\<close> (log to incident), \<open>Sql_Engine\<close> (policy to rows), \<open>Topology_Service\<close> (spans to map) and
  \<open>Gateway\<close> (request to handler).

  \<^bold>\<open>Not modelled.\<close> The handlers that format a query for ClickHouse, Quickwit or Postgres and render the rows
  (metrics, traces, RUM, synthetics, profiles, deployments, the log service): their logic is in the text of the
  query, which another system runs. The translation of Datadog and Splunk payloads, and the log bridge: protobuf and
  msgpack trees. The workers for service levels and anomalies: statistics over floating point series that a
  database returns. The deletion of a tenant across stores: a list of independent statements. The clients of language
  models, Kafka and RabbitMQ, tracing and start-up: calls into libraries.
\<close>

end
